(* ===== verification/Prelude.thy ===== *)
theory Prelude
  imports Main "HOL-Library.Word" "HOL-Library.Multiset"
begin

text \<open>
  Shared vocabulary of the development: the machine types of the Rust sources, the
  \<open>Result\<close> plumbing, big-endian integers, the byte view of a \<open>str\<close>, the handful of
  \<open>str\<close> operations the sources use, and the interface to the external crates
  (\<open>sha2\<close>, \<open>hex\<close>, \<open>ed25519_dalek\<close>, \<open>base64\<close>), which are parameters of the model.

  The locale \<open>prefix_code\<close> is the contract every field encoder of the signing layouts
  satisfies: what was written can be split off a longer message in one way only.
\<close>

section \<open>Collections of facts\<close>

named_theorems layout_eqs \<open>prefix uniqueness of the field encoders\<close>
named_theorems layout_defs \<open>definitions of the field encoders\<close>
named_theorems length_facts \<open>lengths of fixed-width encodings\<close>

section \<open>Machine types\<close>

type_synonym u8 = "8 word"
type_synonym u16 = "16 word"
type_synonym u32 = "32 word"
type_synonym u64 = "64 word"
type_synonym i64 = "64 word"
type_synonym bytes = "u8 list"

text \<open>A \<open>str\<close> is the list of its UTF-8 bytes, each a \<^typ>\<open>char\<close>.\<close>

type_synonym str = string

text \<open>
  An \<open>OffsetDateTime\<close> is the instant it denotes, in nanoseconds since the Unix epoch;
  a \<open>Duration\<close> is a signed number of nanoseconds.
\<close>

type_synonym time = int
type_synonym duration = int

definition nanos_per_sec :: int where
  "nanos_per_sec = 1000000000"

text \<open>A \<open>timestamptz\<close> column keeps microseconds: the driver truncates the distance to the year 2000, so it
  rounds down after that year and up before it. Hashes are made over the time rounded down.\<close>

definition pg_epoch :: time where
  "pg_epoch = 946684800 * nanos_per_sec"

definition pg_time :: "time \<Rightarrow> time" where
  "pg_time t =
     (let d = t - pg_epoch in pg_epoch + (if 0 \<le> d then d div 1000 else - ((- d) div 1000)) * 1000)"

lemma pg_time_micros:
  "pg_time t div 1000 = t div 1000 \<or> pg_time t \<le> pg_epoch \<and> (pg_time t - 1000) div 1000 = t div 1000"
proof -
  define E where "E = (946684800000000 :: int)"
  have epoch: "pg_epoch = E * 1000" by (simp add: pg_epoch_def nanos_per_sec_def E_def)
  show ?thesis
  proof (cases "pg_epoch \<le> t")
    case True
    then have "pg_time t = (t - E * 1000) div 1000 * 1000 + E * 1000" by (simp add: pg_time_def Let_def epoch)
    moreover have "(t - E * 1000) div 1000 = t div 1000 - E" using div_mult_self1 [of 1000 t "- E"] by simp
    ultimately have "pg_time t = t div 1000 * 1000" by (simp add: algebra_simps)
    then show ?thesis by simp
  next
    case False
    then have down: "pg_time t = E * 1000 - (E * 1000 - t) div 1000 * 1000" by (simp add: pg_time_def Let_def epoch)
    have "0 \<le> (E * 1000 - t) div 1000" using False by (simp add: epoch pos_imp_zdiv_nonneg_iff)
    then have "pg_time t \<le> pg_epoch" by (simp add: down epoch)
    moreover have "(E * 1000 - t) div 1000 = E + (- t) div 1000" using div_mult_self1 [of 1000 "- t" E] by (simp add: algebra_simps)
    then have up: "pg_time t = - ((- t) div 1000) * 1000" by (simp add: down algebra_simps)
    moreover have "(- t) div 1000 = - (t div 1000) \<or> (- t) div 1000 = - (t div 1000) - 1" by (simp add: zdiv_zminus1_eq_if)
    moreover have "(x * 1000 - 1000) div 1000 = x - 1" for x :: int using nonzero_mult_div_cancel_right [of 1000 "x - 1"] by (simp add: algebra_simps)
    ultimately show ?thesis by auto
  qed
qed

definition unix_timestamp :: "time \<Rightarrow> int" where
  "unix_timestamp t = t div nanos_per_sec"

definition i64_of :: "int \<Rightarrow> i64" where
  "i64_of x = word_of_int x"

section \<open>Result\<close>

abbreviation Ok :: "'a \<Rightarrow> 'e + 'a" where "Ok \<equiv> Inr"
abbreviation Err :: "'e \<Rightarrow> 'e + 'a" where "Err \<equiv> Inl"

definition rbind :: "'e + 'a \<Rightarrow> ('a \<Rightarrow> 'e + 'b) \<Rightarrow> 'e + 'b" where
  "rbind r f = (case r of Inl e \<Rightarrow> Inl e | Inr x \<Rightarrow> f x)"

definition map_err :: "('e \<Rightarrow> 'f) \<Rightarrow> 'e + 'a \<Rightarrow> 'f + 'a" where
  "map_err f r = (case r of Inl e \<Rightarrow> Inl (f e) | Inr x \<Rightarrow> Inr x)"

definition ok_or :: "'e \<Rightarrow> 'a option \<Rightarrow> 'e + 'a" where
  "ok_or e r = (case r of None \<Rightarrow> Inl e | Some x \<Rightarrow> Inr x)"

definition result_ok :: "'e + 'a \<Rightarrow> 'a option" where
  "result_ok r = (case r of Inl _ \<Rightarrow> None | Inr x \<Rightarrow> Some x)"

definition guard_err :: "bool \<Rightarrow> 'e \<Rightarrow> 'e + unit" where
  "guard_err b e = (if b then Inl e else Inr ())"

lemma rbind_simps [simp]: "rbind (Inl e) f = Inl e" "rbind (Inr x) f = f x"
  by (simp_all add: rbind_def)

lemma rbind_eq_Inr: "rbind r f = Inr y \<longleftrightarrow> (\<exists>x. r = Inr x \<and> f x = Inr y)"
  by (cases r) (auto simp: rbind_def)

lemma map_err_simps [simp]: "map_err g (Inl e) = Inl (g e)" "map_err g (Inr x) = Inr x"
  by (simp_all add: map_err_def)

lemma map_err_eq_Inr [simp]: "map_err g r = Inr y \<longleftrightarrow> r = Inr y"
  by (cases r) (auto simp: map_err_def)

lemma ok_or_simps [simp]: "ok_or e None = Inl e" "ok_or e (Some x) = Inr x"
  by (simp_all add: ok_or_def)

lemma ok_or_eq_Inr [simp]: "ok_or e r = Inr x \<longleftrightarrow> r = Some x"
  by (cases r) auto

lemma guard_err_simps [simp]: "guard_err True e = Inl e" "guard_err False e = Inr ()"
  by (simp_all add: guard_err_def)

lemma guard_err_eq_Inr [simp]: "guard_err b e = Inr u \<longleftrightarrow> \<not> b"
  by (auto simp: guard_err_def)

lemma result_ok_simps [simp]: "result_ok (Inl e) = None" "result_ok (Inr x) = Some x"
  by (simp_all add: result_ok_def)

lemma result_ok_eq_Some: "result_ok r = Some x \<longleftrightarrow> r = Inr x"
  by (cases r) auto

section \<open>Big-endian integers\<close>

primrec be_nat :: "nat \<Rightarrow> nat \<Rightarrow> bytes" where
  "be_nat 0 v = []"
| "be_nat (Suc n) v = be_nat n (v div 256) @ [of_nat (v mod 256)]"

definition be_val :: "bytes \<Rightarrow> nat" where
  "be_val bs = foldl (\<lambda>a b. a * 256 + unat b) 0 bs"

definition u16_be :: "u16 \<Rightarrow> bytes" where
  "u16_be w = be_nat 2 (unat w)"

definition u32_be :: "u32 \<Rightarrow> bytes" where
  "u32_be w = be_nat 4 (unat w)"

definition u64_be :: "u64 \<Rightarrow> bytes" where
  "u64_be w = be_nat 8 (unat w)"

lemma unat_u8: "unat (w :: u8) < 256"
  using unsigned_less [of w] by simp

lemma unat_u16: "unat (w :: u16) < 65536"
  using unsigned_less [of w] by simp

lemma unat_u32: "unat (w :: u32) < 4294967296"
  using unsigned_less [of w] by simp

lemma unat_u64: "unat (w :: u64) < 18446744073709551616"
  using unsigned_less [of w] by simp

lemma length_be_nat [simp]: "length (be_nat n v) = n"
  by (induction n arbitrary: v) auto

lemma be_val_append1: "be_val (bs @ [b]) = be_val bs * 256 + unat b"
  by (simp add: be_val_def)

lemma unat_of_byte [simp]: "unat (of_nat (v mod 256) :: u8) = v mod 256"
  by (simp add: unat_of_nat)

lemma be_val_be_nat: "be_val (be_nat n v) = v mod 256 ^ n"
proof (induction n arbitrary: v)
  case 0
  show ?case by (simp add: be_val_def)
next
  case (Suc n)
  have "v mod 256 ^ Suc n = 256 * (v div 256 mod 256 ^ n) + v mod 256"
    by (simp add: mod_mult2_eq)
  with Suc show ?case by (simp add: be_val_append1 mult.commute)
qed

lemma be_nat_inject:
  assumes "a < 256 ^ n" and "b < 256 ^ n" and "be_nat n a = be_nat n b"
  shows "a = b"
proof -
  have "a mod 256 ^ n = b mod 256 ^ n"
    by (metis assms(3) be_val_be_nat)
  with assms(1,2) show ?thesis by (simp only: mod_less)
qed

lemma be_val_bound: "be_val bs < 256 ^ length bs"
proof (induction bs rule: rev_induct)
  case Nil
  show ?case by (simp add: be_val_def)
next
  case (snoc b bs)
  have "unat b < 256" by (rule unat_u8)
  with snoc show ?case by (simp add: be_val_append1)
qed

lemma be_nat_be_val: "be_nat (length bs) (be_val bs) = bs"
proof (induction bs rule: rev_induct)
  case Nil
  show ?case by simp
next
  case (snoc b bs)
  have "unat b < 256" by (rule unat_u8)
  then have "(be_val bs * 256 + unat b) div 256 = be_val bs"
    and "(be_val bs * 256 + unat b) mod 256 = unat b"
    by simp_all
  with snoc show ?case by (simp add: be_val_append1)
qed

lemma length_u16_be [simp]: "length (u16_be w) = 2"
  by (simp add: u16_be_def)

lemma length_u32_be [simp]: "length (u32_be w) = 4"
  by (simp add: u32_be_def)

lemma length_u64_be [simp]: "length (u64_be w) = 8"
  by (simp add: u64_be_def)

section \<open>Prefix codes\<close>

locale prefix_code =
  fixes enc :: "'a \<Rightarrow> bytes" and valid :: "'a \<Rightarrow> bool"
  assumes unique: "valid x \<Longrightarrow> valid y \<Longrightarrow> enc x @ r = enc y @ s \<Longrightarrow> x = y \<and> r = s"
begin

lemma append_eq: "valid x \<Longrightarrow> valid y \<Longrightarrow> enc x @ r = enc y @ s \<longleftrightarrow> x = y \<and> r = s"
  using unique by blast

lemma enc_eq: "valid x \<Longrightarrow> valid y \<Longrightarrow> enc x = enc y \<longleftrightarrow> x = y"
  using unique [of x y "[]" "[]"] by auto

lemma append_end: "valid x \<Longrightarrow> valid y \<Longrightarrow> enc x @ r = enc y \<longleftrightarrow> x = y \<and> r = []"
  using unique [of x y r "[]"] by auto

end

text \<open>A fixed-width injective encoding is a prefix code.\<close>

lemma prefix_code_fixed_width:
  assumes "\<And>x. valid x \<Longrightarrow> length (enc x) = n"
    and "\<And>x y. valid x \<Longrightarrow> valid y \<Longrightarrow> enc x = enc y \<Longrightarrow> x = y"
  shows "prefix_code enc valid"
proof
  fix x y r s
  assume "valid x" "valid y" "enc x @ r = enc y @ s"
  then show "x = y \<and> r = s" using assms by (metis append_eq_append_conv)
qed

interpretation u16_code: prefix_code u16_be "\<lambda>_. True"
proof (rule prefix_code_fixed_width [where n = 2])
  fix x y assume "u16_be x = u16_be y"
  then have "unat x = unat y"
    using unat_u16 [of x] unat_u16 [of y]
    by (intro be_nat_inject [where n = 2]) (simp_all add: u16_be_def)
  then show "x = y" by (rule unsigned_word_eqI)
qed simp

interpretation u32_code: prefix_code u32_be "\<lambda>_. True"
proof (rule prefix_code_fixed_width [where n = 4])
  fix x y assume "u32_be x = u32_be y"
  then have "unat x = unat y"
    using unat_u32 [of x] unat_u32 [of y]
    by (intro be_nat_inject [where n = 4]) (simp_all add: u32_be_def)
  then show "x = y" by (rule unsigned_word_eqI)
qed simp

interpretation u64_code: prefix_code u64_be "\<lambda>_. True"
proof (rule prefix_code_fixed_width [where n = 8])
  fix x y assume "u64_be x = u64_be y"
  then have "unat x = unat y"
    using unat_u64 [of x] unat_u64 [of y]
    by (intro be_nat_inject [where n = 8]) (simp_all add: u64_be_def)
  then show "x = y" by (rule unsigned_word_eqI)
qed simp

text \<open>Raw fixed-width fields (keys, hashes, UUIDs, signatures).\<close>

definition raw :: "bytes \<Rightarrow> bytes" where
  "raw b = b"

lemma raw_append_eq [layout_eqs]:
  "length a = length b \<Longrightarrow> raw a @ r = raw b @ s \<longleftrightarrow> a = b \<and> r = s"
  by (simp add: raw_def)

declare u16_code.append_eq [OF TrueI TrueI, layout_eqs]
  u32_code.append_eq [OF TrueI TrueI, layout_eqs]
  u64_code.append_eq [OF TrueI TrueI, layout_eqs]
  u16_code.enc_eq [OF TrueI TrueI, layout_eqs]
  u32_code.enc_eq [OF TrueI TrueI, layout_eqs]
  u64_code.enc_eq [OF TrueI TrueI, layout_eqs]

lemma raw_eq [layout_eqs]: "raw a = raw b \<longleftrightarrow> a = b"
  by (simp add: raw_def)

lemma length_raw [simp]: "length (raw a) = length a"
  by (simp add: raw_def)

section \<open>Enumerations on the wire\<close>

text \<open>The contract of an enumeration with permanent wire strings: printing and parsing are
  inverse where both are defined.\<close>

locale wire_enum =
  fixes print :: "'a \<Rightarrow> str" and parse :: "str \<Rightarrow> 'a option"
  assumes parse_print: "parse (print v) = Some v"
    and print_parse: "parse s = Some v \<Longrightarrow> print v = s"
begin

lemma parse_iff: "parse s = Some v \<longleftrightarrow> s = print v"
  using parse_print print_parse by metis

lemma print_inject: "print v = print w \<longleftrightarrow> v = w"
  by (metis parse_print option.inject)

lemma parse_None: "parse s = None \<longleftrightarrow> s \<notin> range print"
  by (cases "parse s") (auto simp: parse_print dest: print_parse)

end

lemma find_in_set: "find P xs = Some x \<Longrightarrow> x \<in> set xs \<and> P x"
  by (induction xs) (auto split: if_splits)

lemma find_unique:
  "distinct (map f vs) \<Longrightarrow> v \<in> set vs \<Longrightarrow> find (\<lambda>w. f w = f v) vs = Some v"
  by (induction vs) auto

lemma wire_enum_find:
  assumes "\<And>v. v \<in> set vs" and "distinct (map f vs)"
  shows "wire_enum f (\<lambda>s. find (\<lambda>v. f v = s) vs)"
  using assms by unfold_locales (auto simp: find_unique find_Some_iff)

lemma wire_enum_table:
  assumes "\<And>v. v \<in> set (map snd tbl)" and "distinct (map fst tbl)" and "list_all (\<lambda>(s, v). f v = s) tbl"
  shows "wire_enum f (map_of tbl)"
proof
  fix v
  from assms(1) [of v] obtain s where s: "(s, v) \<in> set tbl" by auto
  with assms(2,3) show "map_of tbl (f v) = Some v" by (auto simp: list_all_iff)
next
  fix s v
  assume "map_of tbl s = Some v"
  then have "(s, v) \<in> set tbl" by (rule map_of_SomeD)
  with assms(3) show "f v = s" by (auto simp: list_all_iff)
qed

end
