(* ===== verification/Rust_Str.thy ===== *)
theory Rust_Str
  imports Prelude
begin

text \<open>
  The part of Rust's \<open>str\<close>, \<open>char\<close> and \<open>u8\<close> API the sources use, on the byte view of a
  \<open>str\<close>, and the interface of the external crates.
\<close>

section \<open>Bytes and characters\<close>

definition char_byte :: "char \<Rightarrow> u8" where
  "char_byte c = of_nat (of_char c)"

definition byte_char :: "u8 \<Rightarrow> char" where
  "byte_char b = char_of (unat b)"

definition as_bytes :: "str \<Rightarrow> bytes" where
  "as_bytes s = map char_byte s"

definition str_of_bytes :: "bytes \<Rightarrow> str" where
  "str_of_bytes bs = map byte_char bs"

lemma of_char_less_256: "(of_char c :: nat) < 256"
  by (metis of_char_mod_256 mod_less_divisor zero_less_numeral)

lemma byte_char_char_byte [simp]: "byte_char (char_byte c) = c"
  using of_char_less_256 [of c] by (simp add: byte_char_def char_byte_def unat_of_nat)

lemma char_byte_byte_char [simp]: "char_byte (byte_char b) = b"
  using unat_u8 [of b] by (simp add: byte_char_def char_byte_def)

lemma str_of_as_bytes [simp]: "str_of_bytes (as_bytes s) = s"
  by (induction s) (simp_all add: str_of_bytes_def as_bytes_def)

lemma as_of_bytes [simp]: "as_bytes (str_of_bytes b) = b"
  by (induction b) (simp_all add: str_of_bytes_def as_bytes_def)

lemma as_bytes_inject [simp]: "as_bytes s = as_bytes t \<longleftrightarrow> s = t"
  by (metis str_of_as_bytes)

lemma length_as_bytes [simp]: "length (as_bytes s) = length s"
  by (simp add: as_bytes_def)

abbreviation ord :: "char \<Rightarrow> nat" where "ord c \<equiv> of_char c"

definition is_ascii_digit :: "char \<Rightarrow> bool" where
  "is_ascii_digit c \<longleftrightarrow> 48 \<le> ord c \<and> ord c \<le> 57"

definition is_ascii_lowercase :: "char \<Rightarrow> bool" where
  "is_ascii_lowercase c \<longleftrightarrow> 97 \<le> ord c \<and> ord c \<le> 122"

definition is_ascii_uppercase :: "char \<Rightarrow> bool" where
  "is_ascii_uppercase c \<longleftrightarrow> 65 \<le> ord c \<and> ord c \<le> 90"

definition is_ascii_alphanumeric :: "char \<Rightarrow> bool" where
  "is_ascii_alphanumeric c \<longleftrightarrow> is_ascii_digit c \<or> is_ascii_lowercase c \<or> is_ascii_uppercase c"

definition is_ascii_hexdigit :: "char \<Rightarrow> bool" where
  "is_ascii_hexdigit c \<longleftrightarrow> is_ascii_digit c \<or> (97 \<le> ord c \<and> ord c \<le> 102) \<or> (65 \<le> ord c \<and> ord c \<le> 70)"

text \<open>\<open>matches!(b, b'0'..=b'9' | b'a'..=b'f')\<close>\<close>

definition is_lower_hex :: "char \<Rightarrow> bool" where
  "is_lower_hex c \<longleftrightarrow> is_ascii_digit c \<or> (97 \<le> ord c \<and> ord c \<le> 102)"

definition is_ascii :: "str \<Rightarrow> bool" where
  "is_ascii s \<longleftrightarrow> (\<forall>c\<in>set s. ord c < 128)"

definition to_ascii_lowercase :: "str \<Rightarrow> str" where
  "to_ascii_lowercase s = map (\<lambda>c. if is_ascii_uppercase c then char_of (ord c + 32) else c) s"

definition eq_ignore_ascii_case :: "str \<Rightarrow> str \<Rightarrow> bool" where
  "eq_ignore_ascii_case s t \<longleftrightarrow> to_ascii_lowercase s = to_ascii_lowercase t"

section \<open>UTF-8\<close>

text \<open>
  \<open>utf8_decode\<close> is \<open>std::str::from_utf8\<close> followed by \<open>chars\<close>: the Unicode scalar values of
  a well-formed byte sequence, \<open>None\<close> for overlong forms, surrogates, values above
  \<open>0x10FFFF\<close>, stray continuation bytes and truncated sequences.
\<close>

definition is_cont :: "nat \<Rightarrow> bool" where
  "is_cont b \<longleftrightarrow> 128 \<le> b \<and> b < 192"

fun utf8_decode :: "nat list \<Rightarrow> nat list option" where
  "utf8_decode [] = Some []"
| "utf8_decode (b # bs) =
     (if b < 128 then map_option (\<lambda>r. b # r) (utf8_decode bs)
      else if 194 \<le> b \<and> b < 224 then
        (case bs of
           c # bs' \<Rightarrow>
             if is_cont c
             then map_option (\<lambda>r. ((b - 192) * 64 + (c - 128)) # r) (utf8_decode bs')
             else None
         | [] \<Rightarrow> None)
      else if 224 \<le> b \<and> b < 240 then
        (case bs of
           c # d # bs' \<Rightarrow>
             (let v = (b - 224) * 4096 + (c - 128) * 64 + (d - 128) in
              if is_cont c \<and> is_cont d \<and> 2048 \<le> v \<and> \<not> (55296 \<le> v \<and> v < 57344)
              then map_option (\<lambda>r. v # r) (utf8_decode bs')
              else None)
         | _ \<Rightarrow> None)
      else if 240 \<le> b \<and> b < 245 then
        (case bs of
           c # d # e # bs' \<Rightarrow>
             (let v = (b - 240) * 262144 + (c - 128) * 4096 + (d - 128) * 64 + (e - 128) in
              if is_cont c \<and> is_cont d \<and> is_cont e \<and> 65536 \<le> v \<and> v < 1114112
              then map_option (\<lambda>r. v # r) (utf8_decode bs')
              else None)
         | _ \<Rightarrow> None)
      else None)"

definition valid_utf8 :: "bytes \<Rightarrow> bool" where
  "valid_utf8 bs \<longleftrightarrow> utf8_decode (map unat bs) \<noteq> None"

text \<open>\<open>str::chars\<close>, on a string whose bytes are well-formed UTF-8 (every \<open>str\<close> is).\<close>

definition str_chars :: "str \<Rightarrow> nat list" where
  "str_chars s = (case utf8_decode (map ord s) of Some cs \<Rightarrow> cs | None \<Rightarrow> [])"

text \<open>\<open>char::is_whitespace\<close>: the Unicode \<open>White_Space\<close> property.\<close>

definition is_whitespace :: "nat \<Rightarrow> bool" where
  "is_whitespace c \<longleftrightarrow>
     (9 \<le> c \<and> c \<le> 13) \<or> c = 32 \<or> c = 133 \<or> c = 160 \<or> c = 5760 \<or>
     (8192 \<le> c \<and> c \<le> 8202) \<or> c = 8232 \<or> c = 8233 \<or> c = 8239 \<or> c = 8287 \<or> c = 12288"

lemma utf8_decode_ascii: "\<forall>b\<in>set bs. b < 128 \<Longrightarrow> utf8_decode bs = Some bs"
  by (induction bs) auto

lemma str_chars_ascii: "is_ascii s \<Longrightarrow> str_chars s = map ord s"
  by (simp add: str_chars_def is_ascii_def utf8_decode_ascii)

section \<open>Splitting\<close>

fun split_once :: "char \<Rightarrow> str \<Rightarrow> (str \<times> str) option" where
  "split_once d [] = None"
| "split_once d (c # cs) =
     (if c = d then Some ([], cs)
      else map_option (\<lambda>(a, b). (c # a, b)) (split_once d cs))"

text \<open>\<open>str::split\<close> on a character: one more part than separators, never empty.\<close>

fun split_char :: "char \<Rightarrow> str \<Rightarrow> str list" where
  "split_char d [] = [[]]"
| "split_char d (c # cs) =
     (if c = d then [] # split_char d cs
      else (case split_char d cs of p # ps \<Rightarrow> (c # p) # ps | [] \<Rightarrow> [[c]]))"

fun strip_prefix :: "str \<Rightarrow> str \<Rightarrow> str option" where
  "strip_prefix [] s = Some s"
| "strip_prefix (p # ps) [] = None"
| "strip_prefix (p # ps) (c # cs) = (if p = c then strip_prefix ps cs else None)"

lemma split_once_Some: "split_once d s = Some (a, b) \<longleftrightarrow> s = a @ d # b \<and> d \<notin> set a"
proof (induction s arbitrary: a)
  case Nil
  show ?case by simp
next
  case (Cons c s)
  then show ?case by (cases a) (auto simp: Cons split: prod.splits)
qed

lemma split_once_None: "split_once d s = None \<longleftrightarrow> d \<notin> set s"
  by (induction s) auto

lemma split_once_append: "d \<notin> set a \<Longrightarrow> split_once d (a @ d # b) = Some (a, b)"
  by (simp add: split_once_Some)

lemma strip_prefix_Some: "strip_prefix p s = Some r \<longleftrightarrow> s = p @ r"
  by (induction p s rule: strip_prefix.induct) auto

lemma split_char_no_sep: "d \<notin> set s \<Longrightarrow> split_char d s = [s]"
  by (induction s) auto

lemma split_char_append: "d \<notin> set a \<Longrightarrow> split_char d (a @ d # b) = a # split_char d b"
  by (induction a) auto

section \<open>Numbers in text\<close>

definition digit_val :: "char \<Rightarrow> nat" where
  "digit_val c = (if is_ascii_digit c then ord c - 48 else if 97 \<le> ord c then ord c - 87 else ord c - 55)"

definition radix_val :: "nat \<Rightarrow> str \<Rightarrow> nat" where
  "radix_val b s = foldl (\<lambda>a c. a * b + digit_val c) 0 s"

definition digit_char :: "nat \<Rightarrow> char" where
  "digit_char n = char_of (if n < 10 then 48 + n else 87 + n)"

fun radix_str :: "nat \<Rightarrow> nat \<Rightarrow> str" where
  "radix_str b n = (if b < 2 \<or> n < b then [digit_char n] else radix_str b (n div b) @ [digit_char (n mod b)])"

declare radix_str.simps [simp del]

definition dec_int_str :: "int \<Rightarrow> str" where
  "dec_int_str t = (if t < 0 then CHR ''-'' # radix_str 10 (nat (- t)) else radix_str 10 (nat t))"

text \<open>A plain decimal: digits only, no leading zero.\<close>

definition plain_decimal :: "str \<Rightarrow> bool" where
  "plain_decimal s \<longleftrightarrow> s \<noteq> [] \<and> list_all is_ascii_digit s \<and> \<not> (length s > 1 \<and> hd s = CHR ''0'')"

lemma radix_val_snoc: "radix_val b (s @ [c]) = radix_val b s * b + digit_val c"
  by (simp add: radix_val_def)

lemma radix_val_Nil: "radix_val b [] = 0"
  by (simp add: radix_val_def)

lemma ord_digit_char: "n < 10 \<Longrightarrow> ord (digit_char n) = 48 + n"
  by (simp add: digit_char_def)

lemma digit_val_char: "n < 10 \<Longrightarrow> digit_val (digit_char n) = n"
  by (simp add: digit_val_def is_ascii_digit_def ord_digit_char)

lemma digit_char_digit: "n < 10 \<Longrightarrow> is_ascii_digit (digit_char n)"
  by (simp add: is_ascii_digit_def ord_digit_char)

lemma digit_char_val: "is_ascii_digit c \<Longrightarrow> digit_char (digit_val c) = c \<and> digit_val c < 10"
  by (auto simp: digit_char_def digit_val_def is_ascii_digit_def)

lemma dec_small: "n < 10 \<Longrightarrow> radix_str 10 n = [digit_char n]"
  by (simp add: radix_str.simps)

lemma dec_step: "10 \<le> n \<Longrightarrow> radix_str 10 n = radix_str 10 (n div 10) @ [digit_char (n mod 10)]"
  by (simp add: radix_str.simps [of 10 n])

lemma digit_val_zero: "is_ascii_digit c \<Longrightarrow> digit_val c = 0 \<longleftrightarrow> c = CHR ''0''"
proof
  assume "is_ascii_digit c" "digit_val c = 0"
  then have "ord c = ord (CHR ''0'')" by (auto simp: digit_val_def is_ascii_digit_def)
  then show "c = CHR ''0''" by (simp only: of_char_eq_iff)
qed (simp add: digit_val_def)

lemma dec_facts:
  "radix_val 10 (radix_str 10 n) = n \<and> list_all is_ascii_digit (radix_str 10 n) \<and> radix_str 10 n \<noteq> [] \<and>
   (0 < n \<longrightarrow> hd (radix_str 10 n) \<noteq> CHR ''0'')"
proof (induction n rule: less_induct)
  case (less n)
  show ?case
  proof (cases "n < 10")
    case True
    have "digit_char n \<noteq> CHR ''0''" if "0 < n"
      using digit_val_zero [OF digit_char_digit [OF True]] digit_val_char [OF True] that by simp
    with True show ?thesis
      by (simp add: dec_small radix_val_def digit_val_char digit_char_digit)
  next
    case False
    then have n: "10 \<le> n" and lt: "n div 10 < n" and pos: "0 < n div 10" by auto
    from less [OF lt] pos show ?thesis
      by (simp add: dec_step [OF n] radix_val_snoc digit_val_char digit_char_digit)
  qed
qed

lemma plain_decimal_str: "plain_decimal (radix_str 10 n)"
proof (cases "n = 0")
  case False
  then show ?thesis using dec_facts [of n] by (simp add: plain_decimal_def)
qed (simp add: plain_decimal_def dec_small digit_char_digit)

lemma radix_val_pos: "s \<noteq> [] \<Longrightarrow> list_all is_ascii_digit s \<Longrightarrow> hd s \<noteq> CHR ''0'' \<Longrightarrow> 0 < radix_val 10 s"
proof (induction s rule: rev_induct)
  case (snoc c s)
  show ?case
  proof (cases "s = []")
    case True
    with snoc.prems digit_val_zero [of c] show ?thesis by (simp add: radix_val_def)
  next
    case False
    with snoc show ?thesis by (simp add: radix_val_snoc)
  qed
qed simp

lemma dec_str_val: "plain_decimal s \<Longrightarrow> radix_str 10 (radix_val 10 s) = s"
proof (induction s rule: rev_induct)
  case (snoc c s)
  then have c: "is_ascii_digit c" by (simp add: plain_decimal_def)
  note d = digit_char_val [OF c]
  show ?case
  proof (cases "s = []")
    case True
    with d show ?thesis by (simp add: radix_val_def dec_small)
  next
    case False
    with snoc.prems have s: "list_all is_ascii_digit s" "hd s \<noteq> CHR ''0''" by (auto simp: plain_decimal_def)
    then have "plain_decimal s" using False by (simp add: plain_decimal_def)
    with snoc.IH have ih: "radix_str 10 (radix_val 10 s) = s" by simp
    have "0 < radix_val 10 s" using radix_val_pos False s by blast
    then have "10 \<le> radix_val 10 s * 10 + digit_val c" by linarith
    then show ?thesis using ih d by (simp add: radix_val_snoc dec_step)
  qed
qed (simp add: plain_decimal_def)

lemma dec_length: "n < 10 ^ Suc k \<Longrightarrow> length (radix_str 10 n) \<le> Suc k"
proof (induction k arbitrary: n)
  case (Suc k)
  show ?case
  proof (cases "n < 10")
    case False
    have "n div 10 < 10 ^ Suc k" using Suc.prems by (simp add: less_mult_imp_div_less)
    from Suc.IH [OF this] False show ?thesis by (simp add: dec_step)
  qed (simp add: dec_small)
qed (simp add: dec_small)

section \<open>External crates\<close>

text \<open>
  The crates the protocol code calls are parameters, gathered in one record: \<open>sha2\<close>,
  \<open>hex\<close>, \<open>ed25519_dalek\<close>, \<open>base64\<close> (standard alphabet) and \<open>uuid\<close>. A \<open>Uuid\<close> is its 16 bytes, a \<open>VerifyingKey\<close> is its 32-byte
  encoding and a \<open>SigningKey\<close> its 32-byte seed. What the sources rely on is stated by the
  \<open>\<dots>_ok\<close> predicates, which appear as hypotheses where they are needed.
\<close>

record crates =
  sha256 :: "bytes \<Rightarrow> bytes"
  hex_encode :: "bytes \<Rightarrow> str"
  hex_decode :: "str \<Rightarrow> bytes option"
  b64_encode :: "bytes \<Rightarrow> str"
  b64_decode :: "str \<Rightarrow> bytes option"
  key_from_bytes_ok :: "bytes \<Rightarrow> bool"
  key_is_weak :: "bytes \<Rightarrow> bool"
  verifying_key :: "bytes \<Rightarrow> bytes"
  ed_sign :: "bytes \<Rightarrow> bytes \<Rightarrow> bytes"
  ed_verify_strict :: "bytes \<Rightarrow> bytes \<Rightarrow> bytes \<Rightarrow> bool"
  uuid_text :: "bytes \<Rightarrow> str"
  uuid_parse :: "str \<Rightarrow> bytes option"

definition sha256_ok :: "crates \<Rightarrow> bool" where
  "sha256_ok C \<longleftrightarrow> (\<forall>m. length (sha256 C m) = 32)"

text \<open>
  \<open>hex::encode\<close> writes two lowercase digits per byte; \<open>hex::decode\<close> accepts either case and
  exactly the strings of an even number of hex digits.
\<close>

definition hex_ok :: "crates \<Rightarrow> bool" where
  "hex_ok C \<longleftrightarrow>
     (\<forall>b. hex_decode C (hex_encode C b) = Some b \<and>
          length (hex_encode C b) = 2 * length b \<and> list_all is_lower_hex (hex_encode C b)) \<and>
     (\<forall>s b. hex_decode C s = Some b \<longrightarrow> hex_encode C b = to_ascii_lowercase s) \<and>
     (\<forall>s. hex_decode C s \<noteq> None \<longleftrightarrow> even (length s) \<and> list_all is_ascii_hexdigit s)"

text \<open>
  Signatures are 64 bytes, public keys 32, and a signature made with a key whose public half
  is not weak passes \<open>verify_strict\<close> over the same message.
\<close>

definition sig_ok :: "crates \<Rightarrow> bool" where
  "sig_ok C \<longleftrightarrow>
     (\<forall>k m. length (ed_sign C k m) = 64) \<and> (\<forall>k. length (verifying_key C k) = 32) \<and>
     (\<forall>k m. \<not> key_is_weak C (verifying_key C k) \<longrightarrow>
        ed_verify_strict C (verifying_key C k) m (ed_sign C k m)) \<and>
     (\<forall>k. key_from_bytes_ok C (verifying_key C k))"

text \<open>\<open>Uuid\<close> prints as 36 characters, lowercase hex digits and hyphens, and its text parses back.\<close>

definition uuid_ok :: "crates \<Rightarrow> bool" where
  "uuid_ok C \<longleftrightarrow>
     (\<forall>u. length u = 16 \<longrightarrow> uuid_parse C (uuid_text C u) = Some u \<and> length (uuid_text C u) = 36 \<and>
        list_all (\<lambda>c. is_lower_hex c \<or> c = CHR ''-'') (uuid_text C u)) \<and>
     (\<forall>s u. uuid_parse C s = Some u \<longrightarrow> length u = 16)"

lemma sha256_len: "sha256_ok C \<Longrightarrow> length (sha256 C m) = 32"
  by (simp add: sha256_ok_def)

lemma hex_roundtrip: "hex_ok C \<Longrightarrow> hex_decode C (hex_encode C b) = Some b"
  by (simp add: hex_ok_def)

lemma hex_encode_inject: "hex_ok C \<Longrightarrow> hex_encode C a = hex_encode C b \<longleftrightarrow> a = b"
  by (metis hex_roundtrip option.inject)

lemma length_hex_encode: "hex_ok C \<Longrightarrow> length (hex_encode C b) = 2 * length b"
  by (simp add: hex_ok_def)

lemma hex_encode_lower: "hex_ok C \<Longrightarrow> list_all is_lower_hex (hex_encode C b)"
  by (simp add: hex_ok_def)

lemma to_lower_of_lower_hex: "list_all is_lower_hex s \<Longrightarrow> to_ascii_lowercase s = s"
  by (induction s) (auto simp: to_ascii_lowercase_def is_lower_hex_def is_ascii_digit_def is_ascii_uppercase_def)

lemma lower_is_hexdigit: "list_all is_lower_hex s \<Longrightarrow> list_all is_ascii_hexdigit s"
  by (induction s) (auto simp: is_lower_hex_def is_ascii_hexdigit_def)

lemma hex_decode_lower:
  assumes "hex_ok C" "list_all is_lower_hex s" "even (length s)"
  obtains b where "hex_decode C s = Some b" "hex_encode C b = s" "2 * length b = length s"
proof -
  from assms obtain b where b: "hex_decode C s = Some b"
    unfolding hex_ok_def using lower_is_hexdigit by blast
  then have "hex_encode C b = s"
    using assms by (metis hex_ok_def to_lower_of_lower_hex)
  with b that show ?thesis using assms(1) length_hex_encode by metis
qed

end
