(* ===== verification/Utf8.thy ===== *)
theory Utf8
  imports Rust_Str
begin

text \<open>
  UTF-8 and UTF-16 encodings of Unicode scalar values (\<open>String::push\<close>, \<open>str::chars\<close>,
  \<open>str::encode_utf16\<close>), and that they invert each other.
\<close>

definition is_scalar :: "nat \<Rightarrow> bool" where
  "is_scalar c \<longleftrightarrow> c < 0x110000 \<and> \<not> (0xD800 \<le> c \<and> c < 0xE000)"

definition utf8_encode_char :: "nat \<Rightarrow> nat list" where
  "utf8_encode_char c =
     (if c < 128 then [c]
      else if c < 2048 then [192 + c div 64, 128 + c mod 64]
      else if c < 65536 then [224 + c div 4096, 128 + c div 64 mod 64, 128 + c mod 64]
      else [240 + c div 262144, 128 + c div 4096 mod 64, 128 + c div 64 mod 64, 128 + c mod 64])"

definition str_of_chars :: "nat list \<Rightarrow> str" where
  "str_of_chars cs = map char_of (concat (map utf8_encode_char cs))"

text \<open>A byte string that is the text of a \<open>str\<close>.\<close>

definition valid_str :: "str \<Rightarrow> bool" where
  "valid_str s \<longleftrightarrow> utf8_decode (map ord s) \<noteq> None"

text \<open>\<open>s.chars().next()\<close>, with the rest of the string.\<close>

definition char_width :: "char \<Rightarrow> nat" where
  "char_width b = (if ord b < 128 then 1 else if ord b < 224 then 2 else if ord b < 240 then 3 else 4)"

fun next_char :: "str \<Rightarrow> (nat \<times> str) option" where
  "next_char [] = None"
| "next_char (b # s) =
     (let w = char_width b in
      case utf8_decode (map ord (take w (b # s))) of
        Some [c] \<Rightarrow> Some (c, drop w (b # s))
      | _ \<Rightarrow> None)"

definition encode_utf16_char :: "nat \<Rightarrow> nat list" where
  "encode_utf16_char c =
     (if c < 0x10000 then [c] else [0xD800 + (c - 0x10000) div 1024, 0xDC00 + (c - 0x10000) mod 1024])"

definition encode_utf16 :: "str \<Rightarrow> nat list" where
  "encode_utf16 s = concat (map encode_utf16_char (str_chars s))"

section \<open>Encoding and decoding\<close>

lemma base64_digits:
  fixes c :: nat
  shows "c div 64 * 64 + c mod 64 = c"
    and "c div 4096 * 4096 + c div 64 mod 64 * 64 + c mod 64 = c"
    and "c div 262144 * 262144 + c div 4096 mod 64 * 4096 + c div 64 mod 64 * 64 + c mod 64 = c"
proof -
  have q: "c div 4096 = c div 64 div 64" "c div 262144 = c div 64 div 64 div 64"
    by (simp_all add: div_mult2_eq [symmetric])
  have e: "c div 64 * 64 + c mod 64 = c" "c div 64 div 64 * 64 + c div 64 mod 64 = c div 64"
    "c div 64 div 64 div 64 * 64 + c div 64 div 64 mod 64 = c div 64 div 64"
    by (simp_all only: div_mult_mod_eq)
  show "c div 64 * 64 + c mod 64 = c" by (rule e(1))
  show "c div 4096 * 4096 + c div 64 mod 64 * 64 + c mod 64 = c" unfolding q using e by linarith
  show "c div 262144 * 262144 + c div 4096 mod 64 * 4096 + c div 64 mod 64 * 64 + c mod 64 = c"
    unfolding q using e by linarith
qed

lemma utf8_decode_encode_char:
  assumes "is_scalar c"
  shows "utf8_decode (utf8_encode_char c @ bs) = map_option ((#) c) (utf8_decode bs)"
proof -
  consider "c < 128" | "128 \<le> c" "c < 2048" | "2048 \<le> c" "c < 65536" | "65536 \<le> c" "c < 0x110000"
    using assms unfolding is_scalar_def by linarith
  then show ?thesis
  proof cases
    case 1
    then show ?thesis by (simp add: utf8_encode_char_def)
  next
    case 2
    have x: "c div 64 < 32" "2 \<le> c div 64" using 2 by auto
    have "utf8_encode_char c = [192 + c div 64, 128 + c mod 64]" using 2 by (simp add: utf8_encode_char_def)
    with x base64_digits(1) [of c] show ?thesis by (simp add: is_cont_def del: div_less_iff_less_mult)
  next
    case 3
    have x: "c div 4096 < 16" using 3 by auto
    have "utf8_encode_char c = [224 + c div 4096, 128 + c div 64 mod 64, 128 + c mod 64]"
      using 3 by (simp add: utf8_encode_char_def)
    with 3 x base64_digits(2) [of c] assms show ?thesis
      by (simp add: is_cont_def is_scalar_def Let_def del: div_less_iff_less_mult)
  next
    case 4
    have x: "c div 262144 < 5" using 4 by auto
    have "utf8_encode_char c = [240 + c div 262144, 128 + c div 4096 mod 64, 128 + c div 64 mod 64, 128 + c mod 64]"
      using 4 by (simp add: utf8_encode_char_def)
    with 4 x base64_digits(3) [of c] show ?thesis
      by (simp add: is_cont_def Let_def del: div_less_iff_less_mult)
  qed
qed

lemma utf8_decode_encode:
  "list_all is_scalar cs \<Longrightarrow> utf8_decode (concat (map utf8_encode_char cs)) = Some cs"
  by (induction cs) (simp_all add: utf8_decode_encode_char)

lemma utf8_encode_char_bytes: "c < 0x110000 \<Longrightarrow> b \<in> set (utf8_encode_char c) \<Longrightarrow> b < 256"
  by (auto simp: utf8_encode_char_def split: if_splits)

lemma map_ord_chars: "\<forall>b \<in> set bs. b < 256 \<Longrightarrow> map ord (map char_of bs :: str) = bs"
  by (induction bs) auto

lemma map_ord_str_of_chars:
  "list_all is_scalar cs \<Longrightarrow> map ord (str_of_chars cs) = concat (map utf8_encode_char cs)"
  unfolding str_of_chars_def
  by (rule map_ord_chars) (auto simp: list_all_iff is_scalar_def intro: utf8_encode_char_bytes)

lemma str_chars_of_chars [simp]: "list_all is_scalar cs \<Longrightarrow> str_chars (str_of_chars cs) = cs"
  by (simp add: str_chars_def map_ord_str_of_chars utf8_decode_encode)

lemma valid_str_of_chars: "list_all is_scalar cs \<Longrightarrow> valid_str (str_of_chars cs)"
  by (simp add: valid_str_def map_ord_str_of_chars utf8_decode_encode)

lemma cont_split: "is_cont c \<Longrightarrow> \<exists>y < 64. c = 128 + y"
  by (auto simp: is_cont_def intro!: exI [of _ "c - 128"])

lemma base64: "z < 64 \<Longrightarrow> (a * 64 + z) div 64 = a" "z < 64 \<Longrightarrow> (a * 64 + z) mod 64 = (z :: nat)"
  by simp_all

lemma utf8_two:
  assumes "194 \<le> b" "b < 224" "is_cont c"
  shows "utf8_encode_char ((b - 192) * 64 + (c - 128)) = [b, c] \<and> is_scalar ((b - 192) * 64 + (c - 128))"
proof -
  obtain x where x: "b = 192 + x" "2 \<le> x" "x < 32" using assms by (auto dest: le_Suc_ex intro: that [of "b - 192"])
  obtain y where y: "c = 128 + y" "y < 64" using cont_split [OF assms(3)] by blast
  have "(x * 64 + y) div 64 = x" "(x * 64 + y) mod 64 = y" using y by simp_all
  with x y show ?thesis by (simp add: utf8_encode_char_def is_scalar_def)
qed

lemma utf8_three:
  assumes "224 \<le> b" "b < 240" "is_cont c" "is_cont d"
    and v: "v = (b - 224) * 4096 + (c - 128) * 64 + (d - 128)" "2048 \<le> v" "\<not> (55296 \<le> v \<and> v < 57344)"
  shows "utf8_encode_char v = [b, c, d] \<and> is_scalar v"
proof -
  obtain x where x: "b = 224 + x" "x < 16" using assms(1,2) by (auto intro: that [of "b - 224"])
  obtain y where y: "c = 128 + y" "y < 64" using cont_split [OF assms(3)] by blast
  obtain z where z: "d = 128 + z" "z < 64" using cont_split [OF assms(4)] by blast
  have e: "v = x * 4096 + y * 64 + z" using v(1) x y z by simp
  have e': "v = (x * 64 + y) * 64 + z" by (simp add: e add_mult_distrib)
  have "v div 4096 = v div 64 div 64" by (simp add: div_mult2_eq [symmetric])
  then have "v div 4096 = x" "v div 64 mod 64 = y" "v mod 64 = z"
    by (simp_all only: e' base64 [OF y(2)] base64 [OF z(2)])
  moreover have "v < 65536" using x y z unfolding e by linarith
  ultimately have "v div 4096 = x" "v div 64 mod 64 = y" "v mod 64 = z" "v < 65536" by blast+
  then show ?thesis using x y z v(2,3) by (simp add: utf8_encode_char_def is_scalar_def)
qed

lemma utf8_four:
  assumes "240 \<le> b" "is_cont c" "is_cont d" "is_cont e"
    and v: "v = (b - 240) * 262144 + (c - 128) * 4096 + (d - 128) * 64 + (e - 128)" "65536 \<le> v" "v < 1114112"
  shows "utf8_encode_char v = [b, c, d, e] \<and> is_scalar v"
proof -
  obtain x where x: "b = 240 + x" using assms(1) by (auto intro: that [of "b - 240"])
  obtain y where y: "c = 128 + y" "y < 64" using cont_split [OF assms(2)] by blast
  obtain z where z: "d = 128 + z" "z < 64" using cont_split [OF assms(3)] by blast
  obtain w where w: "e = 128 + w" "w < 64" using cont_split [OF assms(4)] by blast
  have eq: "v = x * 262144 + y * 4096 + z * 64 + w" using v(1) x y z w by simp
  have eq': "v = ((x * 64 + y) * 64 + z) * 64 + w" by (simp add: eq add_mult_distrib)
  have "v div 4096 = v div 64 div 64" "v div 262144 = v div 64 div 64 div 64" by (simp_all add: div_mult2_eq [symmetric])
  then have "v div 262144 = x" "v div 4096 mod 64 = y" "v div 64 mod 64 = z" "v mod 64 = w"
    by (simp_all only: eq' base64 [OF y(2)] base64 [OF z(2)] base64 [OF w(2)])
  then show ?thesis using x y z w v(2,3) by (simp add: utf8_encode_char_def is_scalar_def)
qed

lemma utf8_encode_decode:
  "utf8_decode bs = Some cs \<Longrightarrow> concat (map utf8_encode_char cs) = bs \<and> list_all is_scalar cs"
proof (induction bs arbitrary: cs rule: utf8_decode.induct)
  case (2 b bs)
  have one: "utf8_encode_char b = [b] \<and> is_scalar b" if "b < 128"
    using that by (simp add: utf8_encode_char_def is_scalar_def)
  consider "b < 128" | "194 \<le> b" "b < 224" | "224 \<le> b" "b < 240" | "240 \<le> b" "b < 245"
    using "2.prems" by (auto split: if_splits)
  then show ?case
  proof cases
    case 1
    from "2.prems" 1 obtain r where "utf8_decode bs = Some r" "cs = b # r" by auto
    with "2.IH"(1) one 1 show ?thesis by simp
  next
    case 2
    from "2.prems" 2 obtain c bs' r where "bs = c # bs'" "is_cont c" "utf8_decode bs' = Some r"
      "cs = ((b - 192) * 64 + (c - 128)) # r"
      by (auto split: list.splits if_splits)
    with "2.IH"(2) utf8_two [OF 2] 2 show ?thesis by simp
  next
    case 3
    from "2.prems" 3 obtain c d bs' r v where "bs = c # d # bs'" "is_cont c" "is_cont d"
      "v = (b - 224) * 4096 + (c - 128) * 64 + (d - 128)"
      "2048 \<le> v \<and> \<not> (55296 \<le> v \<and> v < 57344)" "utf8_decode bs' = Some r" "cs = v # r"
      by (simp add: Let_def split: list.splits if_splits) blast
    with "2.IH"(3) utf8_three [OF 3, of c d v] 3 show ?thesis by simp
  next
    case 4
    from "2.prems" 4 obtain c d e bs' r v where "bs = c # d # e # bs'" "is_cont c" "is_cont d" "is_cont e"
      "v = (b - 240) * 262144 + (c - 128) * 4096 + (d - 128) * 64 + (e - 128)"
      "65536 \<le> v" "v < 1114112" "utf8_decode bs' = Some r" "cs = v # r"
      by (simp add: Let_def split: list.splits if_splits) blast
    with "2.IH"(4) utf8_four [OF 4(1), of c d e v] 4 show ?thesis by simp
  qed
qed simp

lemma valid_str_chars:
  assumes "valid_str s"
  shows "list_all is_scalar (str_chars s)" and "str_of_chars (str_chars s) = s"
proof -
  from assms obtain cs where cs: "utf8_decode (map ord s) = Some cs" by (auto simp: valid_str_def)
  from utf8_encode_decode [OF this] show "list_all is_scalar (str_chars s)" by (simp add: str_chars_def cs)
  from utf8_encode_decode [OF cs] have "str_of_chars cs = map char_of (map ord s)" by (simp add: str_of_chars_def)
  then show "str_of_chars (str_chars s) = s" by (simp add: str_chars_def cs comp_def)
qed

lemma str_chars_inject: "valid_str s \<Longrightarrow> valid_str t \<Longrightarrow> str_chars s = str_chars t \<longleftrightarrow> s = t"
  by (metis valid_str_chars(2))

lemma str_of_chars_Nil [simp]: "str_of_chars [] = []"
  by (simp add: str_of_chars_def)

lemma str_of_chars_append: "str_of_chars (cs @ ds) = str_of_chars cs @ str_of_chars ds"
  by (simp add: str_of_chars_def)

lemma str_of_chars_Cons: "str_of_chars (c # cs) = str_of_chars [c] @ str_of_chars cs"
  by (simp add: str_of_chars_def)

text \<open>Reading one character back, whatever follows it.\<close>

lemma next_char_of_chars:
  assumes "is_scalar c"
  shows "next_char (str_of_chars [c] @ r) = Some (c, r)"
proof -
  have ord_enc: "map ord (str_of_chars [c]) = utf8_encode_char c"
    using map_ord_str_of_chars [of "[c]"] assms by simp
  obtain b bs where s: "str_of_chars [c] = b # bs" "utf8_encode_char c = ord b # map ord bs"
    using ord_enc by (cases "str_of_chars [c]") (auto simp: utf8_encode_char_def split: if_splits)
  have "char_width b = length (utf8_encode_char c)"
    using s(2) assms
    by (auto simp: utf8_encode_char_def char_width_def is_scalar_def split: if_splits) 
  then have w: "char_width b = length (b # bs)" using s(2) by simp
  have "utf8_decode (map ord (b # bs)) = Some [c]"
    using utf8_decode_encode_char [OF assms, of "[]"] s(2) by simp
  then show ?thesis by (simp add: s(1) w Let_def)
qed

lemma next_char_shorter: "next_char s = Some (c, r) \<Longrightarrow> length r < length s"
proof (cases s)
  case (Cons b t)
  assume "next_char s = Some (c, r)"
  then have "r = drop (char_width b) s" by (auto simp: Cons Let_def split: option.splits list.splits)
  moreover have "0 < char_width b" by (simp add: char_width_def)
  ultimately show ?thesis using Cons by simp
qed simp

section \<open>UTF-16 order\<close>

lemma encode_utf16_char_unique:
  assumes "is_scalar c" "is_scalar d" "encode_utf16_char c @ r = encode_utf16_char d @ s"
  shows "c = d \<and> r = s"
proof -
  show ?thesis
  proof (cases "c < 0x10000")
    case True
    have "d < 0x10000"
    proof (rule ccontr)
      assume d: "\<not> d < 0x10000"
      then have "c = 0xD800 + (d - 0x10000) div 1024" using True assms(3) by (simp add: encode_utf16_char_def)
      moreover have "(d - 0x10000) div 1024 < 1024" using assms(2) unfolding is_scalar_def by (intro less_mult_imp_div_less) linarith
      ultimately show False using assms(1) by (simp add: is_scalar_def)
    qed
    with True assms(3) show ?thesis by (simp add: encode_utf16_char_def)
  next
    case False
    have "\<not> d < 0x10000"
    proof
      assume d: "d < 0x10000"
      then have "d = 0xD800 + (c - 0x10000) div 1024" using False assms(3) by (simp add: encode_utf16_char_def)
      moreover have "(c - 0x10000) div 1024 < 1024" using assms(1) unfolding is_scalar_def by (intro less_mult_imp_div_less) linarith
      ultimately show False using assms(2) by (simp add: is_scalar_def)
    qed
    with False assms(3) have "(c - 0x10000) div 1024 = (d - 0x10000) div 1024"
      "(c - 0x10000) mod 1024 = (d - 0x10000) mod 1024" "r = s" by (simp_all add: encode_utf16_char_def)
    moreover have "c - 0x10000 = d - 0x10000" using calculation by (metis div_mult_mod_eq)
    ultimately show ?thesis using False \<open>\<not> d < 0x10000\<close> by simp
  qed
qed

lemma encode_utf16_chars_inject:
  "list_all is_scalar cs \<Longrightarrow> list_all is_scalar ds \<Longrightarrow>
   concat (map encode_utf16_char cs) = concat (map encode_utf16_char ds) \<longleftrightarrow> cs = ds"
proof (induction cs arbitrary: ds)
  case Nil
  then show ?case by (cases ds) (auto simp: encode_utf16_char_def)
next
  case (Cons c cs)
  show ?case
  proof (cases ds)
    case Nil
    then show ?thesis by (simp add: encode_utf16_char_def)
  next
    case (Cons d ds')
    with Cons.prems have "is_scalar c" "is_scalar d" "list_all is_scalar cs" "list_all is_scalar ds'" by simp_all
    with Cons Cons.IH [of ds'] show ?thesis
      by (auto dest: encode_utf16_char_unique)
  qed
qed

lemma encode_utf16_inject: "valid_str s \<Longrightarrow> valid_str t \<Longrightarrow> encode_utf16 s = encode_utf16 t \<longleftrightarrow> s = t"
  by (simp add: encode_utf16_def encode_utf16_chars_inject valid_str_chars(1) str_chars_inject)

end
