(* ===== verification/Signing_Bytes.thy ===== *)
theory Signing_Bytes
  imports Rust_Str
begin

unbundle bit_operations_syntax

text \<open>
  Model of \<open>crates/protocol/src/signing_bytes.rs\<close>: the one binary layout of every signed or
  hashed message. A \<open>Builder\<close> writes the header (domain tag, layout version, rules version),
  the fields in call order and the extensions region; a \<open>Reader\<close> takes them apart. Rust's
  consuming method chains are functions on the \<open>Builder\<close> record, run by \<open>build\<close> in the order
  of the source; the cursor methods take the remaining bytes and return what is left.
  \<open>usize\<close> values are \<^typ>\<open>nat\<close>; \<open>saturating_add\<close> is written out.
\<close>

section \<open>Errors and versions\<close>

datatype VersionKind = VK_Layout | VK_Rules | VK_HashAlgo | VK_SigAlgo | VK_CriticalExtension

datatype SigningBytesError =
    FieldTooLong
  | TagMismatch
  | Truncated
  | InvalidUtf8
  | TrailingBytes
  | NeedsNewerVersion VersionKind u32
  | UnsupportedVersion VersionKind u32
  | ExtensionsUnsorted
  | ExtensionDuplicate u16
  | ExtensionReservedFlags u8
  | ExtensionsTooLarge
  | InvalidHex

fun needs_newer_version :: "SigningBytesError \<Rightarrow> (VersionKind \<times> u32) option" where
  "needs_newer_version (NeedsNewerVersion what req) = Some (what, req)"
| "needs_newer_version _ = None"

definition RULES_VERSION :: u32 where "RULES_VERSION = 1"
definition RULES_VERSION_MIN :: u32 where "RULES_VERSION_MIN = 1"
definition RULES_VERSION_MAX :: u32 where "RULES_VERSION_MAX = 1"
definition EXTENSION_ENTRY_HEADER :: nat where "EXTENSION_ENTRY_HEADER = 7"
definition CRITICAL_FLAG :: u8 where "CRITICAL_FLAG = 1"

definition usize_max :: nat where "usize_max = 2 ^ 64 - 1"

definition saturating_add :: "nat \<Rightarrow> nat \<Rightarrow> nat" where
  "saturating_add a b = min (a + b) usize_max"

section \<open>Caps\<close>

record Caps =
  max_extension_bytes :: nat

definition CAPS_TABLE :: "(u32 \<times> Caps) list" where
  "CAPS_TABLE = [(1, \<lparr>max_extension_bytes = 4096\<rparr>)]"

text \<open>\<open>None\<close> is the \<open>expect\<close> panic on an empty table.\<close>

definition caps_in :: "(u32 \<times> Caps) list \<Rightarrow> u32 \<Rightarrow> Caps option" where
  "caps_in table rules_version =
     (case find (\<lambda>row. fst row \<le> rules_version) (rev table) of
        Some row \<Rightarrow> Some (snd row)
      | None \<Rightarrow> (case table of row # _ \<Rightarrow> Some (snd row) | [] \<Rightarrow> None))"

definition caps_for :: "u32 \<Rightarrow> Caps" where
  "caps_for rules_version = the (caps_in CAPS_TABLE rules_version)"

section \<open>Algorithms\<close>

datatype HashAlgo = Sha256

fun hash_algo_id :: "HashAlgo \<Rightarrow> u8" where
  "hash_algo_id Sha256 = 1"

definition hash_algo_from_id :: "u8 \<Rightarrow> SigningBytesError + HashAlgo" where
  "hash_algo_from_id i = (if i = 1 then Ok Sha256 else Err (NeedsNewerVersion VK_HashAlgo (ucast i)))"

fun digest :: "crates \<Rightarrow> HashAlgo \<Rightarrow> bytes \<Rightarrow> bytes" where
  "digest C Sha256 data = sha256 C data"

datatype SigAlgo = Ed25519

fun sig_algo_id :: "SigAlgo \<Rightarrow> u8" where
  "sig_algo_id Ed25519 = 1"

definition sig_algo_from_id :: "u8 \<Rightarrow> SigningBytesError + SigAlgo" where
  "sig_algo_from_id i = (if i = 1 then Ok Ed25519 else Err (NeedsNewerVersion VK_SigAlgo (ucast i)))"

section \<open>Domain tags\<close>

text \<open>Only the registry constructs a \<open>DomainTag\<close>, so the registered tags are the whole type.\<close>

datatype DomainTag =
    IDENTITY_CREATED | DEVICE_GRANT_APPROVED | IDENTITY_SIGNING_KEY_REVOKED | CROSS_NODE_LOGIN
  | SESSION_CONTINUATION | INTEREST_CLAIM | ATTESTATION_ISSUE | ATTESTATION_BULK_ISSUE
  | ATTESTATION_REVOKE | ISSUER_REGISTERED | SIGNATURE_GATE_ACTION | INTEGRATOR_NONCE_CHALLENGE
  | LEDGER_ENTRY | IDENTITY_CHAIN_EVENT | IDENTITY_KEY_EVENT | SETTLEMENT_STH | WITNESS_COSIGN
  | WITNESS_ANNOUNCE | CONFORMANCE

fun tag_str :: "DomainTag \<Rightarrow> str" where
  "tag_str IDENTITY_CREATED = ''avalon.identity.created''"
| "tag_str DEVICE_GRANT_APPROVED = ''avalon.device_grant.approved''"
| "tag_str IDENTITY_SIGNING_KEY_REVOKED = ''avalon.identity.signing_key_revoked''"
| "tag_str CROSS_NODE_LOGIN = ''avalon.cross_node_login''"
| "tag_str SESSION_CONTINUATION = ''avalon.session_continuation''"
| "tag_str INTEREST_CLAIM = ''avalon.interest_claim''"
| "tag_str ATTESTATION_ISSUE = ''avalon.attestation.issue''"
| "tag_str ATTESTATION_BULK_ISSUE = ''avalon.attestation.bulk_issue''"
| "tag_str ATTESTATION_REVOKE = ''avalon.attestation.revoke''"
| "tag_str ISSUER_REGISTERED = ''avalon.issuer.registered''"
| "tag_str SIGNATURE_GATE_ACTION = ''avalon.signature_gate.action''"
| "tag_str INTEGRATOR_NONCE_CHALLENGE = ''avalon.integrator.nonce_challenge''"
| "tag_str LEDGER_ENTRY = ''avalon.ledger.entry''"
| "tag_str IDENTITY_CHAIN_EVENT = ''avalon.identity.chain_event''"
| "tag_str IDENTITY_KEY_EVENT = ''avalon.identity.key_event''"
| "tag_str SETTLEMENT_STH = ''avalon.settlement.sth''"
| "tag_str WITNESS_COSIGN = ''avalon.witness.cosign''"
| "tag_str WITNESS_ANNOUNCE = ''avalon.witness.announce''"
| "tag_str CONFORMANCE = ''avalon.conformance.vector''"

definition tags_ALL :: "DomainTag list" where
  "tags_ALL = [IDENTITY_CREATED, DEVICE_GRANT_APPROVED, IDENTITY_SIGNING_KEY_REVOKED,
     CROSS_NODE_LOGIN, SESSION_CONTINUATION, INTEREST_CLAIM, ATTESTATION_ISSUE,
     ATTESTATION_BULK_ISSUE, ATTESTATION_REVOKE, ISSUER_REGISTERED, SIGNATURE_GATE_ACTION,
     INTEGRATOR_NONCE_CHALLENGE, LEDGER_ENTRY, IDENTITY_CHAIN_EVENT, IDENTITY_KEY_EVENT,
     SETTLEMENT_STH, WITNESS_COSIGN, WITNESS_ANNOUNCE, CONFORMANCE]"

text \<open>The compile-time check of \<open>DomainTag::new\<close>.\<close>

definition domain_tag_new_ok :: "str \<Rightarrow> bool" where
  "domain_tag_new_ok tag \<longleftrightarrow>
     tag \<noteq> [] \<and> length tag \<le> 255 \<and>
     list_all (\<lambda>b. is_ascii_lowercase b \<or> is_ascii_digit b \<or> b = CHR ''.'' \<or> b = CHR ''_'') tag"

definition tag_bytes :: "DomainTag \<Rightarrow> bytes" where
  "tag_bytes tag = as_bytes (tag_str tag)"

definition layout_versions :: "DomainTag \<Rightarrow> u16 \<times> u16" where
  "layout_versions tag = (if tag = CONFORMANCE then (1, 2) else (1, 1))"

definition BUILT_LAYOUT_VERSIONS :: "(DomainTag \<times> u16) list" where
  "BUILT_LAYOUT_VERSIONS = [
     (IDENTITY_CREATED, 1), (DEVICE_GRANT_APPROVED, 1), (IDENTITY_SIGNING_KEY_REVOKED, 1),
     (CROSS_NODE_LOGIN, 0), (SESSION_CONTINUATION, 0), (INTEREST_CLAIM, 0),
     (ATTESTATION_ISSUE, 1), (ATTESTATION_BULK_ISSUE, 1), (ATTESTATION_REVOKE, 1),
     (ISSUER_REGISTERED, 0), (SIGNATURE_GATE_ACTION, 0), (INTEGRATOR_NONCE_CHALLENGE, 0),
     (LEDGER_ENTRY, 1), (IDENTITY_CHAIN_EVENT, 1), (IDENTITY_KEY_EVENT, 1),
     (SETTLEMENT_STH, 1), (WITNESS_COSIGN, 1), (WITNESS_ANNOUNCE, 1), (CONFORMANCE, 2)]"

definition check_layout :: "DomainTag \<Rightarrow> u16 \<Rightarrow> SigningBytesError + unit" where
  "check_layout tag version =
     (if version > snd (layout_versions tag) then Err (NeedsNewerVersion VK_Layout (ucast version))
      else if version < fst (layout_versions tag) then Err (UnsupportedVersion VK_Layout (ucast version))
      else Ok ())"

definition check_rules :: "u32 \<Rightarrow> SigningBytesError + unit" where
  "check_rules version =
     (if version > RULES_VERSION_MAX then Err (NeedsNewerVersion VK_Rules version)
      else if version < RULES_VERSION_MIN then Err (UnsupportedVersion VK_Rules version)
      else Ok ())"

section \<open>Extensions\<close>

record Extension =
  ext_type :: u16
  critical :: bool
  ext_value :: bytes

type_synonym Extensions = "Extension list"

definition ext_none :: Extensions where
  "ext_none = []"

fun ext_sizes :: "nat \<Rightarrow> nat \<Rightarrow> Extension list \<Rightarrow> SigningBytesError + unit" where
  "ext_sizes cap used [] = Ok ()"
| "ext_sizes cap used (e # es) =
     (let used' = saturating_add used (saturating_add EXTENSION_ENTRY_HEADER (length (ext_value e)))
      in if used' > cap then Err ExtensionsTooLarge else ext_sizes cap used' es)"

fun ext_order :: "Extension list \<Rightarrow> SigningBytesError + unit" where
  "ext_order (a # b # es) =
     (if ext_type a = ext_type b then Err (ExtensionDuplicate (ext_type b))
      else if ext_type a > ext_type b then Err ExtensionsUnsorted
      else ext_order (b # es))"
| "ext_order _ = Ok ()"

definition extensions_new :: "Extension list \<Rightarrow> u32 \<Rightarrow> SigningBytesError + Extensions" where
  "extensions_new entries rules_version =
     rbind (ext_sizes (max_extension_bytes (caps_for rules_version)) 0 entries) (\<lambda>_.
     rbind (guard_err (length entries > 65535) ExtensionsTooLarge) (\<lambda>_.
     rbind (ext_order entries) (\<lambda>_. Ok entries)))"

definition ext_entry_encode :: "Extension \<Rightarrow> bytes" where
  "ext_entry_encode e =
     u16_be (ext_type e) @ [if critical e then CRITICAL_FLAG else 0] @
     u32_be (of_nat (length (ext_value e))) @ ext_value e"

definition ext_encode :: "Extensions \<Rightarrow> bytes" where
  "ext_encode es = u16_be (of_nat (length es)) @ concat (map ext_entry_encode es)"

definition understood_extensions :: "DomainTag \<Rightarrow> u16 list" where
  "understood_extensions tag = []"

definition require_understood :: "Extensions \<Rightarrow> DomainTag \<Rightarrow> SigningBytesError + unit" where
  "require_understood es tag =
     (case find (\<lambda>e. critical e \<and> ext_type e \<notin> set (understood_extensions tag)) es of
        Some e \<Rightarrow> Err (NeedsNewerVersion VK_CriticalExtension (ucast (ext_type e)))
      | None \<Rightarrow> Ok ())"

section \<open>The byte cursor\<close>

definition cur_take :: "nat \<Rightarrow> bytes \<Rightarrow> SigningBytesError + bytes \<times> bytes" where
  "cur_take len rest = (if length rest < len then Err Truncated else Ok (take len rest, drop len rest))"

definition cur_u8 :: "bytes \<Rightarrow> SigningBytesError + u8 \<times> bytes" where
  "cur_u8 rest = rbind (cur_take 1 rest) (\<lambda>(h, rest). Ok (of_nat (be_val h), rest))"

definition cur_u16 :: "bytes \<Rightarrow> SigningBytesError + u16 \<times> bytes" where
  "cur_u16 rest = rbind (cur_take 2 rest) (\<lambda>(h, rest). Ok (of_nat (be_val h), rest))"

definition cur_u32 :: "bytes \<Rightarrow> SigningBytesError + u32 \<times> bytes" where
  "cur_u32 rest = rbind (cur_take 4 rest) (\<lambda>(h, rest). Ok (of_nat (be_val h), rest))"

definition cur_u64 :: "bytes \<Rightarrow> SigningBytesError + u64 \<times> bytes" where
  "cur_u64 rest = rbind (cur_take 8 rest) (\<lambda>(h, rest). Ok (of_nat (be_val h), rest))"

fun cur_entries :: "nat \<Rightarrow> nat \<Rightarrow> nat \<Rightarrow> bytes \<Rightarrow> SigningBytesError + Extension list \<times> bytes" where
  "cur_entries cap used 0 rest = Ok ([], rest)"
| "cur_entries cap used (Suc cnt) rest =
     rbind (cur_u16 rest) (\<lambda>(ty, rest).
     rbind (cur_u8 rest) (\<lambda>(flags, rest).
     rbind (guard_err (flags AND NOT CRITICAL_FLAG \<noteq> 0) (ExtensionReservedFlags flags)) (\<lambda>_.
     rbind (cur_u32 rest) (\<lambda>(len, rest).
     (let used' = saturating_add used (saturating_add EXTENSION_ENTRY_HEADER (unat len)) in
      rbind (guard_err (used' > cap) ExtensionsTooLarge) (\<lambda>_.
      rbind (cur_take (unat len) rest) (\<lambda>(v, rest).
      rbind (cur_entries cap used' cnt rest) (\<lambda>(es, rest).
        Ok (\<lparr>ext_type = ty, critical = (flags AND CRITICAL_FLAG \<noteq> 0), ext_value = v\<rparr> # es, rest))))))))) "

definition cur_extensions :: "u32 \<Rightarrow> bytes \<Rightarrow> SigningBytesError + Extensions \<times> bytes" where
  "cur_extensions rules_version rest =
     rbind (cur_u16 rest) (\<lambda>(cnt, rest).
     rbind (cur_entries (max_extension_bytes (caps_for rules_version)) 0 (unat cnt) rest) (\<lambda>(entries, rest).
     rbind (extensions_new entries rules_version) (\<lambda>es. Ok (es, rest))))"

definition ext_decode :: "bytes \<Rightarrow> u32 \<Rightarrow> SigningBytesError + Extensions" where
  "ext_decode bs rules_version =
     rbind (cur_extensions rules_version bs) (\<lambda>(es, rest).
       if rest = [] then Ok es else Err TrailingBytes)"

section \<open>Envelopes\<close>

record Envelope =
  layout_version :: u16
  rules_version :: u32
  hash_algo :: HashAlgo
  extensions :: Extensions

definition envelope_current :: "DomainTag \<Rightarrow> Envelope" where
  "envelope_current tag = \<lparr>layout_version = snd (layout_versions tag),
     rules_version = RULES_VERSION, hash_algo = Sha256, extensions = ext_none\<rparr>"

definition envelope_from_parts ::
  "DomainTag \<Rightarrow> u16 \<Rightarrow> u32 \<Rightarrow> u8 \<Rightarrow> bytes \<Rightarrow> SigningBytesError + Envelope" where
  "envelope_from_parts tag lv rv algo ext =
     rbind (check_layout tag lv) (\<lambda>_.
     rbind (check_rules rv) (\<lambda>_.
     rbind (ext_decode ext rv) (\<lambda>es.
     rbind (require_understood es tag) (\<lambda>_.
     rbind (hash_algo_from_id algo) (\<lambda>h.
       Ok \<lparr>layout_version = lv, rules_version = rv, hash_algo = h, extensions = es\<rparr>)))))"

record EnvelopeWire =
  w_layout_version :: u16
  w_rules_version :: u32
  w_hash_algo :: u8
  w_extensions :: str

definition wire_of_envelope :: "crates \<Rightarrow> Envelope \<Rightarrow> EnvelopeWire" where
  "wire_of_envelope C env = \<lparr>w_layout_version = layout_version env,
     w_rules_version = rules_version env, w_hash_algo = hash_algo_id (hash_algo env),
     w_extensions = hex_encode C (ext_encode (extensions env))\<rparr>"

definition decode_lower_hex :: "crates \<Rightarrow> str \<Rightarrow> SigningBytesError + bytes" where
  "decode_lower_hex C text =
     (if list_ex is_ascii_uppercase text then Err InvalidHex
      else ok_or InvalidHex (hex_decode C text))"

definition to_envelope :: "crates \<Rightarrow> EnvelopeWire \<Rightarrow> DomainTag \<Rightarrow> SigningBytesError + Envelope" where
  "to_envelope C w tag =
     rbind (decode_lower_hex C (w_extensions w)) (\<lambda>ext.
       envelope_from_parts tag (w_layout_version w) (w_rules_version w) (w_hash_algo w) ext)"

section \<open>Builder\<close>

definition length_prefix :: "nat \<Rightarrow> SigningBytesError + u32" where
  "length_prefix len = (if len \<le> 4294967295 then Ok (of_nat len) else Err FieldTooLong)"

record Builder =
  b_tag :: DomainTag
  b_rules :: u32
  b_out :: bytes
  b_exts :: "Extension list"
  b_error :: "SigningBytesError option"

definition b_with_rules :: "DomainTag \<Rightarrow> u16 \<Rightarrow> u32 \<Rightarrow> Builder" where
  "b_with_rules tag lv rv = \<lparr>b_tag = tag, b_rules = rv,
     b_out = tag_bytes tag @ u16_be lv @ u32_be rv, b_exts = [],
     b_error = (case rbind (check_layout tag lv) (\<lambda>_. check_rules rv) of Inl e \<Rightarrow> Some e | Inr _ \<Rightarrow> None)\<rparr>"

definition b_new :: "DomainTag \<Rightarrow> u16 \<Rightarrow> Builder" where
  "b_new tag lv = b_with_rules tag lv RULES_VERSION"

definition b_with_envelope :: "DomainTag \<Rightarrow> Envelope \<Rightarrow> Builder" where
  "b_with_envelope tag env =
     (b_with_rules tag (layout_version env) (rules_version env))\<lparr>b_exts := extensions env\<rparr>"

definition b_extension :: "u16 \<Rightarrow> bool \<Rightarrow> bytes \<Rightarrow> Builder \<Rightarrow> Builder" where
  "b_extension ty crit v b =
     b\<lparr>b_exts := b_exts b @ [\<lparr>ext_type = ty, critical = crit, ext_value = v\<rparr>]\<rparr>"

definition b_bytes :: "bytes \<Rightarrow> Builder \<Rightarrow> Builder" where
  "b_bytes v b = (case length_prefix (length v) of
       Inr len \<Rightarrow> b\<lparr>b_out := b_out b @ u32_be len @ v\<rparr>
     | Inl e \<Rightarrow> b\<lparr>b_error := (case b_error b of None \<Rightarrow> Some e | Some e' \<Rightarrow> Some e')\<rparr>)"

definition b_str :: "str \<Rightarrow> Builder \<Rightarrow> Builder" where
  "b_str s = b_bytes (as_bytes s)"

definition b_fixed :: "bytes \<Rightarrow> Builder \<Rightarrow> Builder" where
  "b_fixed v b = b\<lparr>b_out := b_out b @ raw v\<rparr>"

definition b_u8 :: "u8 \<Rightarrow> Builder \<Rightarrow> Builder" where
  "b_u8 v = b_fixed [v]"

definition b_u16 :: "u16 \<Rightarrow> Builder \<Rightarrow> Builder" where
  "b_u16 v = b_fixed (u16_be v)"

definition b_u32 :: "u32 \<Rightarrow> Builder \<Rightarrow> Builder" where
  "b_u32 v = b_fixed (u32_be v)"

definition b_u64 :: "u64 \<Rightarrow> Builder \<Rightarrow> Builder" where
  "b_u64 v = b_fixed (u64_be v)"

definition b_i64 :: "i64 \<Rightarrow> Builder \<Rightarrow> Builder" where
  "b_i64 v = b_fixed (u64_be v)"

definition b_hash_algo :: "HashAlgo \<Rightarrow> Builder \<Rightarrow> Builder" where
  "b_hash_algo algo = b_u8 (hash_algo_id algo)"

definition b_key :: "bytes \<Rightarrow> Builder \<Rightarrow> Builder" where
  "b_key k b = b_fixed k (b_u8 (sig_algo_id Ed25519) b)"

definition b_signature :: "bytes \<Rightarrow> Builder \<Rightarrow> Builder" where
  "b_signature k b = b_fixed k (b_u8 (sig_algo_id Ed25519) b)"

definition b_hash :: "bytes \<Rightarrow> Builder \<Rightarrow> Builder" where
  "b_hash = b_fixed"

definition b_uuid :: "bytes \<Rightarrow> Builder \<Rightarrow> Builder" where
  "b_uuid = b_fixed"

definition b_finish :: "Builder \<Rightarrow> SigningBytesError + bytes" where
  "b_finish b = (case b_error b of
       Some e \<Rightarrow> Err e
     | None \<Rightarrow>
         rbind (extensions_new (b_exts b) (b_rules b)) (\<lambda>es.
         rbind (require_understood es (b_tag b)) (\<lambda>_.
           Ok (b_out b @ ext_encode es))))"

text \<open>A method chain, in source order.\<close>

fun build :: "Builder \<Rightarrow> (Builder \<Rightarrow> Builder) list \<Rightarrow> Builder" where
  "build b [] = b"
| "build b (f # fs) = build (f b) fs"

section \<open>Reader\<close>

record Reader =
  r_tag :: DomainTag
  r_cur :: bytes
  r_layout_version :: u16
  r_rules_version :: u32

fun strip_bytes :: "bytes \<Rightarrow> bytes \<Rightarrow> bytes option" where
  "strip_bytes [] m = Some m"
| "strip_bytes (p # ps) [] = None"
| "strip_bytes (p # ps) (c # cs) = (if p = c then strip_bytes ps cs else None)"

definition r_new :: "DomainTag \<Rightarrow> bytes \<Rightarrow> SigningBytesError + Reader" where
  "r_new tag message =
     rbind (ok_or TagMismatch (strip_bytes (tag_bytes tag) message)) (\<lambda>rest.
     rbind (cur_u16 rest) (\<lambda>(lv, rest).
     rbind (check_layout tag lv) (\<lambda>_.
     rbind (cur_u32 rest) (\<lambda>(rv, rest).
     rbind (check_rules rv) (\<lambda>_.
       Ok \<lparr>r_tag = tag, r_cur = rest, r_layout_version = lv, r_rules_version = rv\<rparr>)))))"

text \<open>A cursor operation lifted to the reader: the value and the advanced reader.\<close>

definition r_lift ::
  "(bytes \<Rightarrow> SigningBytesError + 'a \<times> bytes) \<Rightarrow> Reader \<Rightarrow> SigningBytesError + 'a \<times> Reader" where
  "r_lift f r = rbind (f (r_cur r)) (\<lambda>(v, rest). Ok (v, r\<lparr>r_cur := rest\<rparr>))"

definition r_fixed :: "nat \<Rightarrow> Reader \<Rightarrow> SigningBytesError + bytes \<times> Reader" where
  "r_fixed n = r_lift (cur_take n)"

definition r_u8 :: "Reader \<Rightarrow> SigningBytesError + u8 \<times> Reader" where
  "r_u8 = r_lift cur_u8"

definition r_u16 :: "Reader \<Rightarrow> SigningBytesError + u16 \<times> Reader" where
  "r_u16 = r_lift cur_u16"

definition r_u32 :: "Reader \<Rightarrow> SigningBytesError + u32 \<times> Reader" where
  "r_u32 = r_lift cur_u32"

definition r_u64 :: "Reader \<Rightarrow> SigningBytesError + u64 \<times> Reader" where
  "r_u64 = r_lift cur_u64"

definition r_i64 :: "Reader \<Rightarrow> SigningBytesError + i64 \<times> Reader" where
  "r_i64 = r_lift cur_u64"

definition r_bytes :: "Reader \<Rightarrow> SigningBytesError + bytes \<times> Reader" where
  "r_bytes r = rbind (r_u32 r) (\<lambda>(len, r). r_fixed (unat len) r)"

definition r_str :: "Reader \<Rightarrow> SigningBytesError + str \<times> Reader" where
  "r_str r = rbind (r_bytes r) (\<lambda>(v, r).
     if valid_utf8 v then Ok (str_of_bytes v, r) else Err InvalidUtf8)"

definition r_key :: "Reader \<Rightarrow> SigningBytesError + bytes \<times> Reader" where
  "r_key r = rbind (r_u8 r) (\<lambda>(a, r). rbind (sig_algo_from_id a) (\<lambda>_. r_fixed 32 r))"

definition r_signature :: "Reader \<Rightarrow> SigningBytesError + bytes \<times> Reader" where
  "r_signature r = rbind (r_u8 r) (\<lambda>(a, r). rbind (sig_algo_from_id a) (\<lambda>_. r_fixed 64 r))"

definition r_hash :: "Reader \<Rightarrow> SigningBytesError + bytes \<times> Reader" where
  "r_hash = r_fixed 32"

definition r_uuid :: "Reader \<Rightarrow> SigningBytesError + bytes \<times> Reader" where
  "r_uuid = r_fixed 16"

definition r_hash_algo :: "Reader \<Rightarrow> SigningBytesError + HashAlgo \<times> Reader" where
  "r_hash_algo r = rbind (r_u8 r) (\<lambda>(a, r). rbind (hash_algo_from_id a) (\<lambda>h. Ok (h, r)))"

definition r_finish :: "Reader \<Rightarrow> SigningBytesError + Extensions" where
  "r_finish r =
     rbind (cur_extensions (r_rules_version r) (r_cur r)) (\<lambda>(es, rest).
     rbind (guard_err (rest \<noteq> []) TrailingBytes) (\<lambda>_.
     rbind (require_understood es (r_tag r)) (\<lambda>_. Ok es)))"

end
