(* ===== verification/Signing_Facts.thy ===== *)
theory Signing_Facts
  imports Signing_Bytes
begin

text \<open>
  Facts about the signing layout: the encoders are prefix codes, the extensions region reads
  back exactly what was written and nothing else, a finished chain is its header, its fields
  and its extensions, and a reader of the same tag sees the header the builder wrote.
\<close>

section \<open>Caps and versions\<close>

lemma caps_for_eq [simp]: "caps_for rv = \<lparr>max_extension_bytes = 4096\<rparr>"
proof -
  have "caps_in CAPS_TABLE rv = Some \<lparr>max_extension_bytes = 4096\<rparr>"
    by (simp add: caps_in_def CAPS_TABLE_def)
  then show ?thesis by (simp add: caps_for_def)
qed

lemma digest_len: "sha256_ok C \<Longrightarrow> length (digest C algo m) = 32"
  by (cases algo) (simp add: sha256_len)

lemma hash_algo_id_roundtrip [simp]: "hash_algo_from_id (hash_algo_id h) = Ok h"
  by (cases h) (simp add: hash_algo_from_id_def)

lemma hash_algo_id_inject: "hash_algo_id h = hash_algo_id h' \<longleftrightarrow> h = h'"
  by (cases h; cases h') simp

lemma check_rules_Ok: "check_rules rv = Ok u \<longleftrightarrow> rv = 1"
  by (auto simp: check_rules_def RULES_VERSION_MAX_def RULES_VERSION_MIN_def not_less)
    unat_arith

section \<open>Tags\<close>

fun clash :: "'a list \<Rightarrow> 'a list \<Rightarrow> bool" where
  "clash (x # xs) (y # ys) \<longleftrightarrow> x \<noteq> y \<or> clash xs ys"
| "clash _ _ \<longleftrightarrow> False"

lemma clash_append: "clash xs ys \<Longrightarrow> xs @ r \<noteq> ys @ s"
  by (induction xs ys rule: clash.induct) auto

lemma clash_map: "inj f \<Longrightarrow> clash (map f xs) (map f ys) \<longleftrightarrow> clash xs ys"
  by (induction xs ys rule: clash.induct) (auto simp: inj_eq)

lemma tags_clash: "list_all (\<lambda>t. list_all (\<lambda>t'. t = t' \<or> clash (tag_str t) (tag_str t')) tags_ALL) tags_ALL"
  by code_simp

lemma tags_ALL_complete: "t \<in> set tags_ALL"
  by (cases t) (simp_all add: tags_ALL_def)

lemma tag_bytes_unique:
  assumes "tag_bytes t @ r = tag_bytes t' @ s"
  shows "t = t' \<and> r = s"
proof (cases "t = t'")
  case False
  then have "clash (tag_str t) (tag_str t')"
    using tags_clash tags_ALL_complete by (fastforce simp: list_all_iff)
  moreover have "inj char_byte" by (metis byte_char_char_byte injI)
  ultimately have "clash (tag_bytes t) (tag_bytes t')"
    by (simp add: tag_bytes_def as_bytes_def clash_map)
  with assms show ?thesis by (blast dest: clash_append)
qed (use assms in simp)

interpretation tag_code: prefix_code tag_bytes "\<lambda>_. True"
  by unfold_locales (auto dest: tag_bytes_unique)

declare tag_code.append_eq [OF TrueI TrueI, layout_eqs]

lemma strip_bytes_append [simp]: "strip_bytes p (p @ m) = Some m"
  by (induction p) auto

lemma strip_bytes_Some: "strip_bytes p m = Some r \<longleftrightarrow> m = p @ r"
  by (induction p m rule: strip_bytes.induct) auto

section \<open>The cursor reads what was written\<close>

lemma cur_take_append [simp]: "length a = n \<Longrightarrow> cur_take n (a @ r) = Ok (a, r)"
  by (auto simp: cur_take_def)

lemma cur_take_Ok: "cur_take n bs = Ok (h, r) \<longleftrightarrow> bs = h @ r \<and> length h = n"
  by (auto simp: cur_take_def)

lemma be_val_u16 [simp]: "be_val (u16_be w) = unat w"
  using unat_u16 [of w] by (simp add: u16_be_def be_val_be_nat)

lemma be_val_u32 [simp]: "be_val (u32_be w) = unat w"
  using unat_u32 [of w] by (simp add: u32_be_def be_val_be_nat)

lemma be_val_u64 [simp]: "be_val (u64_be w) = unat w"
  using unat_u64 [of w] by (simp add: u64_be_def be_val_be_nat)

lemma cur_u16_append [simp]: "cur_u16 (u16_be w @ r) = Ok (w, r)"
  by (simp add: cur_u16_def)

lemma cur_u32_append [simp]: "cur_u32 (u32_be w @ r) = Ok (w, r)"
  by (simp add: cur_u32_def)

lemma cur_u64_append [simp]: "cur_u64 (u64_be w @ r) = Ok (w, r)"
  by (simp add: cur_u64_def)

lemma cur_u8_Cons [simp]: "cur_u8 (b # r) = Ok (b, r)"
  by (simp add: cur_u8_def cur_take_def be_val_def)

lemma u16_be_val: "length h = 2 \<Longrightarrow> u16_be (of_nat (be_val h)) = h"
  using be_val_bound [of h] be_nat_be_val [of h] by (simp add: u16_be_def unat_of_nat)

lemma u32_be_val: "length h = 4 \<Longrightarrow> u32_be (of_nat (be_val h)) = h"
  using be_val_bound [of h] be_nat_be_val [of h] by (simp add: u32_be_def unat_of_nat)

lemma cur_u16_Ok: "cur_u16 bs = Ok (w, r) \<longleftrightarrow> bs = u16_be w @ r"
proof
  assume "cur_u16 bs = Ok (w, r)"
  then obtain h where "cur_take 2 bs = Ok (h, r)" "w = of_nat (be_val h)"
    by (auto simp: cur_u16_def rbind_eq_Inr)
  then show "bs = u16_be w @ r" by (auto simp: cur_take_Ok u16_be_val)
qed simp

lemma cur_u32_Ok: "cur_u32 bs = Ok (w, r) \<longleftrightarrow> bs = u32_be w @ r"
proof
  assume "cur_u32 bs = Ok (w, r)"
  then obtain h where "cur_take 4 bs = Ok (h, r)" "w = of_nat (be_val h)"
    by (auto simp: cur_u32_def rbind_eq_Inr)
  then show "bs = u32_be w @ r" by (auto simp: cur_take_Ok u32_be_val)
qed simp

lemma cur_u8_Ok: "cur_u8 bs = Ok (b, r) \<longleftrightarrow> bs = b # r"
  by (cases bs) (auto simp: cur_u8_def cur_take_def be_val_def)

section \<open>The extensions region\<close>

lemma saturating_add_le:
  "cap < usize_max \<Longrightarrow> saturating_add a b \<le> cap \<longleftrightarrow> a + b \<le> cap"
  by (auto simp: saturating_add_def)

lemma saturating_add_small: "cap < usize_max \<Longrightarrow> saturating_add a b \<le> cap \<Longrightarrow> saturating_add a b = a + b"
  by (auto simp: saturating_add_def)

lemma cap_small [simp]: "4096 < usize_max"
  by (simp add: usize_max_def)

lemma ext_sizes_lengths:
  assumes "cap < usize_max" and "ext_sizes cap used es = Ok u"
  shows "\<forall>e\<in>set es. length (ext_value e) \<le> cap"
  using assms
proof (induction es arbitrary: used)
  case (Cons e es)
  let ?s = "saturating_add used (saturating_add EXTENSION_ENTRY_HEADER (length (ext_value e)))"
  from Cons.prems have "?s \<le> cap" and "ext_sizes cap ?s es = Ok u"
    by (simp_all add: Let_def not_less split: if_splits)
  then show ?case
    using Cons.IH Cons.prems(1) by (auto simp: saturating_add_def)
qed simp

lemma extensions_new_Ok:
  "extensions_new es rv = Ok es' \<longleftrightarrow>
     es' = es \<and> ext_sizes 4096 0 es = Ok () \<and> length es \<le> 65535 \<and> ext_order es = Ok ()"
  by (auto simp: extensions_new_def rbind_eq_Inr)

lemma flags_clear: "(flags :: u8) AND NOT 1 = 0 \<Longrightarrow> flags = (if flags AND 1 \<noteq> 0 then 1 else 0)"
proof -
  assume "flags AND NOT 1 = 0"
  then have "flags = (flags AND 1)"
    by (metis (no_types) and.assoc and.comm_neutral bit.conj_disj_distrib bit.disj_cancel_right or.left_neutral or.commute)
  moreover have "flags AND 1 = 0 \<or> flags AND 1 = 1"
    by (simp add: and_one_eq mod2_eq_if)
  ultimately show ?thesis by auto
qed

lemma cur_entries_encode:
  assumes "cap < usize_max" and "cap < 2 ^ 32" and "ext_sizes cap used es = Ok u"
  shows "cur_entries cap used (length es) (concat (map ext_entry_encode es) @ r) = Ok (es, r)"
  using assms(3)
proof (induction es arbitrary: used)
  case (Cons e es)
  obtain ty cr v where e: "e = \<lparr>ext_type = ty, critical = cr, ext_value = v\<rparr>" by (cases e)
  have "length v \<le> cap"
    using ext_sizes_lengths [OF assms(1) Cons.prems] by (simp add: e)
  with assms(2) have "unat (of_nat (length v) :: u32) = length v"
    by (simp add: unat_of_nat)
  with Cons show ?case
    by (auto simp: e ext_entry_encode_def CRITICAL_FLAG_def Let_def split: if_splits)
qed simp

lemma cur_entries_Ok:
  "cur_entries cap used n bs = Ok (es, r) \<Longrightarrow> bs = concat (map ext_entry_encode es) @ r \<and> length es = n"
proof (induction n arbitrary: used bs es)
  case (Suc n)
  then obtain ty fl len v es' used' rest where
    bs: "bs = u16_be ty @ fl # u32_be len @ v @ rest" and fl: "fl AND NOT 1 = 0"
    and v: "length v = unat len" and rec: "cur_entries cap used' n rest = Ok (es', r)"
    and es: "es = \<lparr>ext_type = ty, critical = (fl AND 1 \<noteq> 0), ext_value = v\<rparr> # es'"
    by (auto simp: rbind_eq_Inr cur_u16_Ok cur_u8_Ok cur_u32_Ok cur_take_Ok Let_def CRITICAL_FLAG_def)
  from Suc.IH [OF rec] show ?case
    using flags_clear [OF fl] by (auto simp: bs es v ext_entry_encode_def CRITICAL_FLAG_def)
qed simp

theorem ext_region_roundtrip:
  assumes "extensions_new es rv = Ok es"
  shows "cur_extensions rv (ext_encode es @ r) = Ok (es, r)"
proof -
  from assms have sz: "ext_sizes 4096 0 es = Ok ()" and "length es \<le> 65535"
    by (simp_all add: extensions_new_Ok)
  then have "unat (of_nat (length es) :: u16) = length es"
    by (simp add: unat_of_nat)
  moreover have "cur_entries 4096 0 (length es) (concat (map ext_entry_encode es) @ r) = Ok (es, r)"
    by (rule cur_entries_encode [OF _ _ sz]) simp_all
  ultimately show ?thesis
    using assms by (simp add: cur_extensions_def ext_encode_def)
qed

theorem ext_region_canonical:
  assumes "cur_extensions rv bs = Ok (es, r)"
  shows "bs = ext_encode es @ r \<and> extensions_new es rv = Ok es"
proof -
  from assms obtain cnt rest where
    bs: "bs = u16_be cnt @ rest" and e: "cur_entries 4096 0 (unat cnt) rest = Ok (es, r)"
    and n: "extensions_new es rv = Ok es"
    by (auto simp: cur_extensions_def rbind_eq_Inr cur_u16_Ok extensions_new_Ok)
  from cur_entries_Ok [OF e] have "rest = concat (map ext_entry_encode es) @ r" "length es = unat cnt"
    by simp_all
  with bs n show ?thesis by (simp add: ext_encode_def)
qed

interpretation ext_code: prefix_code ext_encode "\<lambda>es. extensions_new es rv = Ok es" for rv
proof
  fix x y r s
  assume "extensions_new x rv = Ok x" "extensions_new y rv = Ok y"
    and "ext_encode x @ r = ext_encode y @ s"
  then show "x = y \<and> r = s"
    by (metis ext_region_roundtrip old.prod.inject sum.inject(2))
qed

section \<open>Chains\<close>

definition lp :: "bytes \<Rightarrow> bytes" where
  "lp v = u32_be (of_nat (length v)) @ v"

abbreviation fits :: "'a list \<Rightarrow> bool" where "fits v \<equiv> length v < 4294967296"

interpretation lp_code: prefix_code lp "\<lambda>v. fits v"
proof
  fix x y r s
  assume x: "fits x" and y: "fits y" and eq: "lp x @ r = lp y @ s"
  from eq have "u32_be (of_nat (length x)) @ (x @ r) = u32_be (of_nat (length y)) @ (y @ s)"
    by (simp add: lp_def)
  then have w: "(of_nat (length x) :: u32) = of_nat (length y)" and t: "x @ r = y @ s"
    by (simp_all add: layout_eqs)
  from w have "unat (of_nat (length x) :: u32) = unat (of_nat (length y) :: u32)" by simp
  with x y have "length x = length y" by (simp add: unat_of_nat)
  with t show "x = y \<and> r = s" by simp
qed

declare lp_code.append_eq [layout_eqs]

lemma b_bytes_error [simp]: "b_error (b_bytes v b) = None \<longleftrightarrow> b_error b = None \<and> fits v"
  by (auto simp: b_bytes_def length_prefix_def split: option.splits)

lemma b_bytes_out: "fits v \<Longrightarrow> b_out (b_bytes v b) = b_out b @ lp v"
  by (simp add: b_bytes_def length_prefix_def lp_def)

lemma b_bytes_frame [simp]:
  "b_exts (b_bytes v b) = b_exts b" "b_tag (b_bytes v b) = b_tag b" "b_rules (b_bytes v b) = b_rules b"
  by (simp_all add: b_bytes_def split: sum.splits)

lemma b_fixed_fields [simp]:
  "b_error (b_fixed v b) = b_error b" "b_out (b_fixed v b) = b_out b @ raw v"
  "b_exts (b_fixed v b) = b_exts b" "b_tag (b_fixed v b) = b_tag b" "b_rules (b_fixed v b) = b_rules b"
  by (simp_all add: b_fixed_def)

lemma b_with_envelope_fields [simp]:
  "b_error (b_with_envelope tag env) = None \<longleftrightarrow>
     check_layout tag (layout_version env) = Ok () \<and> check_rules (rules_version env) = Ok ()"
  "b_out (b_with_envelope tag env) =
     tag_bytes tag @ u16_be (layout_version env) @ u32_be (rules_version env)"
  "b_exts (b_with_envelope tag env) = extensions env"
  "b_tag (b_with_envelope tag env) = tag" "b_rules (b_with_envelope tag env) = rules_version env"
  by (auto simp: b_with_envelope_def b_with_rules_def rbind_def split: sum.splits)

lemma b_new_fields [simp]:
  "b_error (b_new tag lv) = None \<longleftrightarrow> check_layout tag lv = Ok ()"
  "b_out (b_new tag lv) = tag_bytes tag @ u16_be lv @ u32_be 1"
  "b_exts (b_new tag lv) = []" "b_tag (b_new tag lv) = tag" "b_rules (b_new tag lv) = 1"
proof -
  have "check_rules 1 = Ok ()" by (simp add: check_rules_Ok)
  then show "b_error (b_new tag lv) = None \<longleftrightarrow> check_layout tag lv = Ok ()"
    by (auto simp: b_new_def b_with_rules_def RULES_VERSION_def rbind_def split: sum.splits)
qed (simp_all add: b_new_def b_with_rules_def RULES_VERSION_def)

lemmas builder_ops = b_str_def b_u8_def b_u16_def b_u32_def b_u64_def b_i64_def b_hash_algo_def
  b_key_def b_signature_def b_hash_def b_uuid_def b_bytes_out

lemma require_understood_nil [simp]: "require_understood [] tag = Ok ()"
  by (simp add: require_understood_def)

text \<open>The envelope a signer writes today passes every check of a builder and of a verifier.\<close>

lemma current_envelope_checks [simp]:
  "check_layout tag (snd (layout_versions tag)) = Ok ()" "check_rules RULES_VERSION = Ok ()"
  "layout_version (envelope_current tag) = snd (layout_versions tag)"
  "rules_version (envelope_current tag) = RULES_VERSION" "extensions (envelope_current tag) = []"
  "extensions_new [] rv = Ok []"
  by (simp_all add: check_layout_def layout_versions_def check_rules_Ok RULES_VERSION_def envelope_current_def
      ext_none_def extensions_new_Ok)

lemma b_finish_Ok:
  "b_finish b = Ok m \<longleftrightarrow>
     b_error b = None \<and> extensions_new (b_exts b) (b_rules b) = Ok (b_exts b) \<and>
     require_understood (b_exts b) (b_tag b) = Ok () \<and> m = b_out b @ ext_encode (b_exts b)"
  by (auto simp: b_finish_def rbind_eq_Inr extensions_new_Ok split: option.splits)

text \<open>Two finished chains with the same bytes carry the same tag: signatures never cross kinds.\<close>

definition out_starts :: "Builder \<Rightarrow> bool" where
  "out_starts b \<longleftrightarrow> (\<exists>r. b_out b = tag_bytes (b_tag b) @ r)"

lemma out_starts_ops [simp]:
  "out_starts (b_with_envelope tag env)" "out_starts (b_new tag lv)"
  "out_starts b \<Longrightarrow> out_starts (b_fixed v b)" "out_starts b \<Longrightarrow> out_starts (b_bytes v b)"
proof -
  show "out_starts (b_bytes v b)" if "out_starts b"
  proof -
    from that obtain r where "b_out b = tag_bytes (b_tag b) @ r" by (auto simp: out_starts_def)
    then have "b_out (b_bytes v b) = tag_bytes (b_tag b) @ r \<or>
        b_out (b_bytes v b) = tag_bytes (b_tag b) @ r @ lp v"
      by (auto simp: b_bytes_def lp_def length_prefix_def)
    then show ?thesis unfolding out_starts_def by fastforce
  qed
qed (auto simp: out_starts_def)

lemma finish_same_tag:
  assumes "b_finish b = Ok m" "b_finish b' = Ok m" "out_starts b" "out_starts b'"
  shows "b_tag b = b_tag b'"
  using assms by (auto simp: b_finish_Ok out_starts_def layout_eqs dest: tag_bytes_unique)

end
