(* ===== verification/Events.thy ===== *)
theory Events
  imports Signing_Facts
begin

text \<open>
  Model of \<open>crates/protocol/src/events.rs\<close>: the event kinds with their permanent wire strings, the
  escape hatch for unknown kinds, and the chain position an event carries.
\<close>

section \<open>Event kinds\<close>

datatype ProtocolEventKindVariant =
    IdentityCreated | IdentitySigningKeyAdded | IdentitySigningKeyRevoked |
    IdentityPasskeyRegistered | IdentityPasskeyRevoked | IdentityRecoveryConfigured |
    IdentityRecoveryRequested | IdentityRecoveryApproved | IdentityRecoveryCancelled |
    IdentityRecovered | ProfileUpdated | GameRegistered | GameBindingEstablished |
    GameBindingEnded | PermissionGranted | PermissionRevoked | IssuerRegistered |
    IssuerKeyAdded | IssuerKeyRevoked | FriendRequested | FriendAccepted | FriendRemoved |
    FriendRelationshipReversed | GuildCreated | GuildUpdated | GuildRoleDefined |
    GuildRoleDeleted | GuildMemberAdded | GuildMemberRemoved | GuildMembershipReversed |
    GuildRoleChanged | GuildOwnerTransferred | GuildGameAssociated |
    GuildFavoriteGamesUpdated | GuildChannelCreated | GuildChannelRenamed |
    GuildChannelArchived | GameSchemaPublished | GameSchemaMappingPublished |
    GameDataPublished | GameDataDeleted | AchievementDefined | AchievementDefinitionUpdated |
    AchievementDefinitionRetired | AchievementIssued | AchievementRevoked | MilestoneDefined |
    MilestoneDefinitionUpdated | MilestoneDefinitionRetired | MilestoneIssued |
    MilestoneRevoked | IntegratorRecognitionPublished | IntegratorRecognitionRevoked

datatype ProtocolEventKind = Known ProtocolEventKindVariant | Other str

definition KNOWN :: "ProtocolEventKindVariant list" where
  "KNOWN = [
     IdentityCreated, IdentitySigningKeyAdded, IdentitySigningKeyRevoked,
     IdentityPasskeyRegistered, IdentityPasskeyRevoked, IdentityRecoveryConfigured,
     IdentityRecoveryRequested, IdentityRecoveryApproved, IdentityRecoveryCancelled,
     IdentityRecovered, ProfileUpdated, GameRegistered, GameBindingEstablished,
     GameBindingEnded, PermissionGranted, PermissionRevoked, IssuerRegistered, IssuerKeyAdded,
     IssuerKeyRevoked, FriendRequested, FriendAccepted, FriendRemoved,
     FriendRelationshipReversed, GuildCreated, GuildUpdated, GuildRoleDefined,
     GuildRoleDeleted, GuildMemberAdded, GuildMemberRemoved, GuildMembershipReversed,
     GuildRoleChanged, GuildOwnerTransferred, GuildGameAssociated, GuildFavoriteGamesUpdated,
     GuildChannelCreated, GuildChannelRenamed, GuildChannelArchived, GameSchemaPublished,
     GameSchemaMappingPublished, GameDataPublished, GameDataDeleted, AchievementDefined,
     AchievementDefinitionUpdated, AchievementDefinitionRetired, AchievementIssued,
     AchievementRevoked, MilestoneDefined, MilestoneDefinitionUpdated,
     MilestoneDefinitionRetired, MilestoneIssued, MilestoneRevoked,
     IntegratorRecognitionPublished, IntegratorRecognitionRevoked]"

fun variant_as_str :: "ProtocolEventKindVariant \<Rightarrow> str" where
  "variant_as_str IdentityCreated = ''identity.created''"
| "variant_as_str IdentitySigningKeyAdded = ''identity.signing_key_added''"
| "variant_as_str IdentitySigningKeyRevoked = ''identity.signing_key_revoked''"
| "variant_as_str IdentityPasskeyRegistered = ''identity.passkey_registered''"
| "variant_as_str IdentityPasskeyRevoked = ''identity.passkey_revoked''"
| "variant_as_str IdentityRecoveryConfigured = ''identity.recovery_configured''"
| "variant_as_str IdentityRecoveryRequested = ''identity.recovery_requested''"
| "variant_as_str IdentityRecoveryApproved = ''identity.recovery_approved''"
| "variant_as_str IdentityRecoveryCancelled = ''identity.recovery_cancelled''"
| "variant_as_str IdentityRecovered = ''identity.recovered''"
| "variant_as_str ProfileUpdated = ''profile.updated''"
| "variant_as_str GameRegistered = ''game.registered''"
| "variant_as_str GameBindingEstablished = ''game.binding_established''"
| "variant_as_str GameBindingEnded = ''game.binding_ended''"
| "variant_as_str PermissionGranted = ''permission.granted''"
| "variant_as_str PermissionRevoked = ''permission.revoked''"
| "variant_as_str IssuerRegistered = ''issuer.registered''"
| "variant_as_str IssuerKeyAdded = ''issuer.key_added''"
| "variant_as_str IssuerKeyRevoked = ''issuer.key_revoked''"
| "variant_as_str FriendRequested = ''friend.requested''"
| "variant_as_str FriendAccepted = ''friend.accepted''"
| "variant_as_str FriendRemoved = ''friend.removed''"
| "variant_as_str FriendRelationshipReversed = ''friend.relationship_reversed''"
| "variant_as_str GuildCreated = ''guild.created''"
| "variant_as_str GuildUpdated = ''guild.updated''"
| "variant_as_str GuildRoleDefined = ''guild.role_defined''"
| "variant_as_str GuildRoleDeleted = ''guild.role_deleted''"
| "variant_as_str GuildMemberAdded = ''guild.member_added''"
| "variant_as_str GuildMemberRemoved = ''guild.member_removed''"
| "variant_as_str GuildMembershipReversed = ''guild.membership_reversed''"
| "variant_as_str GuildRoleChanged = ''guild.role_changed''"
| "variant_as_str GuildOwnerTransferred = ''guild.owner_transferred''"
| "variant_as_str GuildGameAssociated = ''guild.game_associated''"
| "variant_as_str GuildFavoriteGamesUpdated = ''guild.favorite_games_updated''"
| "variant_as_str GuildChannelCreated = ''guild.channel_created''"
| "variant_as_str GuildChannelRenamed = ''guild.channel_renamed''"
| "variant_as_str GuildChannelArchived = ''guild.channel_archived''"
| "variant_as_str GameSchemaPublished = ''game_schema.published''"
| "variant_as_str GameSchemaMappingPublished = ''game_schema_mapping.published''"
| "variant_as_str GameDataPublished = ''game_data.published''"
| "variant_as_str GameDataDeleted = ''game_data.deleted''"
| "variant_as_str AchievementDefined = ''achievement.defined''"
| "variant_as_str AchievementDefinitionUpdated = ''achievement.definition_updated''"
| "variant_as_str AchievementDefinitionRetired = ''achievement.definition_retired''"
| "variant_as_str AchievementIssued = ''achievement.issued''"
| "variant_as_str AchievementRevoked = ''achievement.revoked''"
| "variant_as_str MilestoneDefined = ''milestone.defined''"
| "variant_as_str MilestoneDefinitionUpdated = ''milestone.definition_updated''"
| "variant_as_str MilestoneDefinitionRetired = ''milestone.definition_retired''"
| "variant_as_str MilestoneIssued = ''milestone.issued''"
| "variant_as_str MilestoneRevoked = ''milestone.revoked''"
| "variant_as_str IntegratorRecognitionPublished = ''integrator.recognition_published''"
| "variant_as_str IntegratorRecognitionRevoked = ''integrator.recognition_revoked''"

fun kind_as_str :: "ProtocolEventKind \<Rightarrow> str" where
  "kind_as_str (Known v) = variant_as_str v"
| "kind_as_str (Other s) = s"

text \<open>The loop over \<open>KNOWN\<close> in \<open>FromStr\<close>, then the escape hatch.\<close>

definition kind_from_str :: "str \<Rightarrow> ProtocolEventKind" where
  "kind_from_str s = (case find (\<lambda>known. variant_as_str known = s) KNOWN of
     Some known \<Rightarrow> Known known | None \<Rightarrow> Other s)"

section \<open>Chain positions\<close>

record IdentityChainPosition =
  p_seq :: u64
  p_prev_hash :: "str option"
  p_layout_version :: u16
  p_rules_version :: u32
  p_hash_algo :: u8
  p_extensions :: str

definition position_current :: "crates \<Rightarrow> u64 \<Rightarrow> str option \<Rightarrow> IdentityChainPosition" where
  "position_current C s prev =
     (let env = envelope_current IDENTITY_CHAIN_EVENT in
      \<lparr>p_seq = s, p_prev_hash = prev, p_layout_version = layout_version env,
       p_rules_version = rules_version env, p_hash_algo = hash_algo_id (hash_algo env),
       p_extensions = hex_encode C (ext_encode (extensions env))\<rparr>)"

definition position_envelope :: "crates \<Rightarrow> IdentityChainPosition \<Rightarrow> SigningBytesError + Envelope" where
  "position_envelope C p =
     to_envelope C \<lparr>w_layout_version = p_layout_version p, w_rules_version = p_rules_version p,
       w_hash_algo = p_hash_algo p, w_extensions = p_extensions p\<rparr> IDENTITY_CHAIN_EVENT"

section \<open>Facts\<close>

lemma KNOWN_complete: "v \<in> set KNOWN"
  by (cases v) (simp_all add: KNOWN_def)

lemma KNOWN_distinct: "distinct (map variant_as_str KNOWN)"
  by code_simp

interpretation kinds: wire_enum variant_as_str "\<lambda>s. find (\<lambda>known. variant_as_str known = s) KNOWN"
  by (rule wire_enum_find [OF KNOWN_complete KNOWN_distinct])

lemma kind_as_str_from_str [simp]: "kind_as_str (kind_from_str s) = s"
  by (auto simp: kind_from_str_def split: option.splits dest: kinds.print_parse)

lemma kind_from_known [simp]: "kind_from_str (variant_as_str v) = Known v"
  by (simp add: kind_from_str_def kinds.parse_print)

text \<open>Event kinds survive the wire: parsing never fails and printing what was parsed gives the
  string back, known or not; every known kind parses to itself; a string parses to \<open>Other\<close> exactly
  when no known kind prints it.\<close>

theorem event_kind_wire:
  "kind_as_str (kind_from_str s) = s \<and> kind_from_str (variant_as_str v) = Known v \<and>
   (kind_from_str s = Other s \<longleftrightarrow> s \<notin> range variant_as_str)"
  by (auto simp: kind_from_str_def kinds.parse_None kinds.parse_print split: option.splits dest: kinds.print_parse)

end
