(* ===== verification/Identity_Chain.thy ===== *)
theory Identity_Chain
  imports Events "HOL-Library.List_Lexorder" "HOL-Library.Product_Lexorder"
begin

text \<open>
  Model of \<open>crates/protocol/src/identity_chain.rs\<close>: the hash of a chained event, the classification
  of event kinds, the clock-skew check, and the deterministic conflict rule every node replays an
  identity's events with. A \<open>Vec\<close> is a list, \<open>sort_by\<close> is the library's stable \<open>sort_key\<close> on the
  key the comparator compares (arrays compare lexicographically), \<open>next_seq += 1\<close> is word addition.
\<close>

section \<open>Hashing\<close>

record ChainHashInput =
  ch_identity_id :: bytes
  ch_seq :: u64
  ch_prev_hash :: "bytes option"
  ch_event_id :: bytes
  ch_kind :: str
  ch_issuer :: str
  ch_subject :: str
  ch_event_version :: u32
  ch_timestamp_micros :: i64
  ch_payload_hash :: bytes
  ch_envelope :: Envelope

text \<open>The \<open>match\<close> on \<open>prev_hash\<close>: a presence flag, then the hash.\<close>

definition b_prev_hash :: "bytes option \<Rightarrow> Builder \<Rightarrow> Builder" where
  "b_prev_hash prev b = (case prev of Some h \<Rightarrow> b_hash h (b_u8 1 b) | None \<Rightarrow> b_u8 0 b)"

definition chain_event_signing_bytes :: "ChainHashInput \<Rightarrow> SigningBytesError + bytes" where
  "chain_event_signing_bytes i = b_finish (build (b_with_envelope IDENTITY_CHAIN_EVENT (ch_envelope i))
     [b_fixed (ch_identity_id i), b_u64 (ch_seq i), b_uuid (ch_event_id i), b_str (ch_kind i),
      b_str (ch_issuer i), b_str (ch_subject i), b_u32 (ch_event_version i), b_i64 (ch_timestamp_micros i),
      b_hash_algo (hash_algo (ch_envelope i)), b_prev_hash (ch_prev_hash i), b_hash (ch_payload_hash i)])"

definition compute_event_hash :: "crates \<Rightarrow> ChainHashInput \<Rightarrow> SigningBytesError + bytes" where
  "compute_event_hash C i =
     rbind (chain_event_signing_bytes i) (\<lambda>m. Ok (digest C (hash_algo (ch_envelope i)) m))"

datatype KeyEventContent =
    DeviceGrant (g_signing_key_id: bytes) (g_public_key: bytes) (g_approved_by: bytes)
      (g_grant_id: bytes) (g_approval_signature: bytes)
  | Revocation (r_signing_key_id: bytes) (r_revoked_by: bytes) (r_sig: bytes)

record KeyEventHashInput =
  kh_identity_id :: bytes
  kh_seq :: u64
  kh_prev_hash :: "bytes option"
  kh_content :: KeyEventContent

definition key_content_fields :: "KeyEventContent \<Rightarrow> (Builder \<Rightarrow> Builder) list" where
  "key_content_fields c = (case c of
     DeviceGrant kid pk approver grant sg \<Rightarrow>
       [b_u8 1, b_uuid kid, b_uuid approver, b_key pk, b_uuid grant, b_signature sg]
   | Revocation kid revoker sg \<Rightarrow> [b_u8 2, b_uuid kid, b_uuid revoker, b_signature sg])"

definition key_event_signing_bytes :: "KeyEventHashInput \<Rightarrow> SigningBytesError + bytes" where
  "key_event_signing_bytes i = b_finish (build (b_new IDENTITY_KEY_EVENT 1)
     ([b_fixed (kh_identity_id i), b_u64 (kh_seq i), b_hash_algo Sha256, b_prev_hash (kh_prev_hash i)] @
      key_content_fields (kh_content i)))"

definition compute_key_event_hash :: "crates \<Rightarrow> KeyEventHashInput \<Rightarrow> SigningBytesError + bytes" where
  "compute_key_event_hash C i = rbind (key_event_signing_bytes i) (\<lambda>m. Ok (digest C Sha256 m))"

section \<open>Classification\<close>

datatype ActionClass = OrdinaryEdit | Monotonic | ChainCritical

definition classify :: "ProtocolEventKind \<Rightarrow> ActionClass option" where
  "classify kind = (case kind of
     Other _ \<Rightarrow> None
   | Known v \<Rightarrow>
       if v \<in> set [ProfileUpdated, FriendRequested, FriendAccepted, FriendRemoved, GuildMemberAdded,
                   GuildMemberRemoved, IdentityPasskeyRegistered, IdentityPasskeyRevoked]
       then Some OrdinaryEdit
       else if v \<in> set [FriendRelationshipReversed, GuildMembershipReversed] then Some Monotonic
       else if v \<in> set [IdentitySigningKeyAdded, IdentitySigningKeyRevoked, IdentityRecoveryConfigured,
                        IdentityRecoveryRequested, IdentityRecoveryApproved, IdentityRecoveryCancelled,
                        IdentityRecovered]
       then Some ChainCritical
       else None)"

datatype EventAuthority = OwnerSigned | AuthenticatedSession

record ChainedEvent =
  seq :: u64
  prev_hash :: "bytes option"
  event_hash :: bytes
  timestamp :: time
  action_class :: ActionClass
  authority :: EventAuthority

section \<open>Clock skew\<close>

record ClockSkewBounds =
  max_future_skew :: duration
  max_past_skew :: "duration option"

definition default_skew :: ClockSkewBounds where
  "default_skew = \<lparr>max_future_skew = 5 * 60 * nanos_per_sec, max_past_skew = None\<rparr>"

datatype TimestampError = TooFarInFuture | TooFarInPast

definition clamp_timestamp :: "time \<Rightarrow> time \<Rightarrow> ClockSkewBounds \<Rightarrow> TimestampError + time" where
  "clamp_timestamp claimed node_now bounds =
     (if claimed > node_now \<and> claimed - node_now > max_future_skew bounds then Err TooFarInFuture
      else (case max_past_skew bounds of
              Some max_past \<Rightarrow>
                if node_now > claimed \<and> node_now - claimed > max_past then Err TooFarInPast else Ok claimed
            | None \<Rightarrow> Ok claimed))"

section \<open>The conflict rule\<close>

datatype ConflictResolution = Resolved ChainedEvent | Forked "ChainedEvent list"

definition order_key :: "ChainedEvent \<Rightarrow> int \<times> bytes" where
  "order_key e = (- timestamp e, event_hash e)"

text \<open>\<open>None\<close> is the panic of the \<open>assert!\<close>.\<close>

definition resolve_conflict :: "ChainedEvent list \<Rightarrow> ConflictResolution option" where
  "resolve_conflict candidates =
     (if candidates = [] then None
      else if length candidates = 1 then Some (Resolved (candidates ! 0))
      else if list_ex (\<lambda>c. action_class c = ChainCritical) candidates then Some (Forked candidates)
      else
        (let highest = (if list_ex (\<lambda>c. action_class c = Monotonic) candidates then Monotonic else OrdinaryEdit);
             in_class = filter (\<lambda>c. action_class c = highest) candidates;
             sorted = sort_key order_key in_class
         in Some (Resolved (sorted ! 0))))"

record ChainOutcome =
  accepted :: "ChainedEvent list"
  forked_at :: "u64 option"

definition is_forked :: "ChainOutcome \<Rightarrow> bool" where
  "is_forked out \<longleftrightarrow> forked_at out \<noteq> None"

definition chain_head :: "ChainOutcome \<Rightarrow> ChainedEvent option" where
  "chain_head out = (if accepted out = [] then None else Some (last (accepted out)))"

definition extends :: "u64 \<Rightarrow> bytes option \<Rightarrow> ChainedEvent \<Rightarrow> bool" where
  "extends next_seq head_hash e \<longleftrightarrow> seq e = next_seq \<and> prev_hash e = head_hash"

text \<open>The \<open>loop\<close> of \<open>apply_chain\<close>. \<open>resolve_conflict\<close> is called on a non-empty list, so its panic
  branch is not taken (\<open>apply_loop_no_panic\<close>).\<close>

function apply_loop :: "ChainedEvent list \<Rightarrow> ChainedEvent list \<Rightarrow> bytes option \<Rightarrow> u64 \<Rightarrow> ChainOutcome option" where
  "apply_loop events acc head_hash next_seq =
     (let candidates = filter (extends next_seq head_hash) events;
          rest = filter (\<lambda>e. \<not> extends next_seq head_hash e) events
      in if candidates = [] then Some \<lparr>accepted = acc, forked_at = None\<rparr>
         else (case resolve_conflict candidates of
             None \<Rightarrow> None
           | Some (Resolved winner) \<Rightarrow> apply_loop rest (acc @ [winner]) (Some (event_hash winner)) (next_seq + 1)
           | Some (Forked _) \<Rightarrow> Some \<lparr>accepted = acc, forked_at = Some next_seq\<rparr>))"
  by pat_completeness auto
termination
proof (relation "measure (\<lambda>(events, acc, h, n). length events)", goal_cases)
  case (2 events acc head_hash next_seq candidates rest r winner)
  then show ?case
    by (auto simp: filter_empty_conv intro!: length_filter_less)
qed simp

declare apply_loop.simps [simp del]

definition apply_chain :: "ChainedEvent list \<Rightarrow> ChainOutcome option" where
  "apply_chain events = apply_loop events [] None 1"

text \<open>\<open>events_by_seq\<close> groups events by position; a \<open>BTreeMap\<close> read at a key.\<close>

definition events_by_seq :: "ChainedEvent list \<Rightarrow> u64 \<Rightarrow> ChainedEvent list option" where
  "events_by_seq events = foldl (\<lambda>m e. m(seq e \<mapsto> (case m (seq e) of Some l \<Rightarrow> l | None \<Rightarrow> []) @ [e])) Map.empty events"

end
