(* ===== verification/Crates_Instance.thy ===== *)
theory Crates_Instance
  imports Signing_Facts
begin

text \<open>
  A concrete instance of the external crates, used to evaluate the model on concrete inputs: the
  hexadecimal codec is the real one, the digest keeps the first 32 bytes of its padded input and
  a signature is the public key next to the digest of the message. The contracts \<open>sha256_ok\<close>,
  \<open>hex_ok\<close> and \<open>sig_ok\<close> hold of it, so the theorems that assume them are not vacuous.
\<close>

section \<open>The hexadecimal codec\<close>

definition nibble_char :: "nat \<Rightarrow> char" where
  "nibble_char n = char_of (if n < 10 then 48 + n else 87 + n)"

definition nibble_of :: "char \<Rightarrow> nat option" where
  "nibble_of c =
     (if 48 \<le> ord c \<and> ord c \<le> 57 then Some (ord c - 48)
      else if 97 \<le> ord c \<and> ord c \<le> 102 then Some (ord c - 87)
      else if 65 \<le> ord c \<and> ord c \<le> 70 then Some (ord c - 55)
      else None)"

primrec demo_hex_encode :: "bytes \<Rightarrow> str" where
  "demo_hex_encode [] = []"
| "demo_hex_encode (b # bs) = nibble_char (unat b div 16) # nibble_char (unat b mod 16) # demo_hex_encode bs"

fun demo_hex_decode :: "str \<Rightarrow> bytes option" where
  "demo_hex_decode [] = Some []"
| "demo_hex_decode [c] = None"
| "demo_hex_decode (c # d # cs) =
     (case (nibble_of c, nibble_of d, demo_hex_decode cs) of
        (Some x, Some y, Some bs) \<Rightarrow> Some (of_nat (x * 16 + y) # bs)
      | _ \<Rightarrow> None)"

lemma ord_nibble_char: "n < 16 \<Longrightarrow> ord (nibble_char n) = (if n < 10 then 48 + n else 87 + n)"
  by (simp add: nibble_char_def)

lemma nibble_of_digit [simp]: "n < 16 \<Longrightarrow> nibble_of (nibble_char n) = Some n"
  by (simp add: nibble_of_def ord_nibble_char)

lemma nibble_char_lower [simp]: "n < 16 \<Longrightarrow> is_lower_hex (nibble_char n)"
  by (simp add: is_lower_hex_def is_ascii_digit_def ord_nibble_char)

lemma nibbles [simp]: "unat (b :: u8) div 16 < 16" "unat (b :: u8) mod 16 < 16"
  using unat_u8 [of b] by simp_all

lemma nibble_of_bound: "nibble_of c = Some x \<Longrightarrow> x < 16"
  by (auto simp: nibble_of_def split: if_splits)

lemma nibble_char_of:
  assumes "nibble_of c = Some x"
  shows "nibble_char x = (if is_ascii_uppercase c then char_of (ord c + 32) else c)"
  using assms by (auto simp: nibble_of_def nibble_char_def is_ascii_uppercase_def split: if_splits)

lemma demo_decode_encode: "demo_hex_decode (demo_hex_encode bs) = Some bs"
  by (induction bs) simp_all

lemma demo_encode_decode: "demo_hex_decode s = Some b \<Longrightarrow> demo_hex_encode b = to_ascii_lowercase s"
proof (induction s arbitrary: b rule: demo_hex_decode.induct)
  case (3 c d cs)
  then obtain x y bs where xy: "nibble_of c = Some x" "nibble_of d = Some y"
    and cs: "demo_hex_decode cs = Some bs" and b: "b = of_nat (x * 16 + y) # bs"
    by (auto split: option.splits)
  have lt: "x < 16" "y < 16" using xy by (auto dest: nibble_of_bound)
  then have "unat (of_nat (x * 16 + y) :: u8) = x * 16 + y" by (simp only: unat_of_nat) simp
  then show ?case
    using 3(1) [OF cs] lt xy nibble_char_of [of c x] nibble_char_of [of d y]
    by (simp add: b to_ascii_lowercase_def del: of_nat_add of_nat_mult)
qed (simp_all add: to_ascii_lowercase_def)

lemma demo_decode_defined: "demo_hex_decode s \<noteq> None \<longleftrightarrow> even (length s) \<and> list_all is_ascii_hexdigit s"
  by (induction s rule: demo_hex_decode.induct)
    (auto simp: nibble_of_def is_ascii_hexdigit_def is_ascii_digit_def split: option.splits if_splits)

section \<open>Digest and signatures\<close>

definition pad32 :: "bytes \<Rightarrow> bytes" where
  "pad32 m = take 32 (m @ replicate 32 0)"

definition demo_uuid_text :: "bytes \<Rightarrow> str" where
  "demo_uuid_text u =
     (let h = demo_hex_encode u in
      take 8 h @ ''-'' @ take 4 (drop 8 h) @ ''-'' @ take 4 (drop 12 h) @ ''-'' @ take 4 (drop 16 h) @ ''-'' @ drop 20 h)"

definition demo_uuid_parse :: "str \<Rightarrow> bytes option" where
  "demo_uuid_parse s =
     (case demo_hex_decode (filter (\<lambda>c. c \<noteq> CHR ''-'') s) of
        Some u \<Rightarrow> if length u = 16 then Some u else None
      | None \<Rightarrow> None)"

definition demo_crates :: crates where
  "demo_crates = \<lparr>sha256 = pad32, hex_encode = demo_hex_encode, hex_decode = demo_hex_decode,
     b64_encode = demo_hex_encode, b64_decode = demo_hex_decode,
     key_from_bytes_ok = (\<lambda>k. True), key_is_weak = (\<lambda>k. k = replicate 32 0),
     verifying_key = pad32, ed_sign = (\<lambda>k m. pad32 k @ pad32 m),
     ed_verify_strict = (\<lambda>k m s. k \<noteq> replicate 32 0 \<and> s = k @ pad32 m),
     uuid_text = demo_uuid_text, uuid_parse = demo_uuid_parse\<rparr>"

lemma length_pad32 [simp]: "length (pad32 m) = 32"
  by (simp add: pad32_def)

lemma demo_sha256_ok: "sha256_ok demo_crates"
  by (simp add: sha256_ok_def demo_crates_def)

lemma demo_hex_ok: "hex_ok demo_crates"
proof -
  have "length (demo_hex_encode b) = 2 * length b" "list_all is_lower_hex (demo_hex_encode b)" for b
    by (induction b) simp_all
  then show ?thesis
    using demo_decode_encode demo_encode_decode demo_decode_defined
    by (simp add: hex_ok_def demo_crates_def)
qed

lemma length_demo_hex: "length (demo_hex_encode b) = 2 * length b"
  by (induction b) simp_all

lemma demo_hex_lower: "list_all is_lower_hex (demo_hex_encode b)"
  by (induction b) simp_all

lemma demo_uuid_digits: "length u = 16 \<Longrightarrow> filter (\<lambda>c. c \<noteq> CHR ''-'') (demo_uuid_text u) = demo_hex_encode u"
proof -
  let ?h = "demo_hex_encode u"
  have nd: "is_lower_hex c \<Longrightarrow> c \<noteq> CHR ''-''" for c by (auto simp: is_lower_hex_def is_ascii_digit_def)
  have p: "filter (\<lambda>c. c \<noteq> CHR ''-'') xs = xs" if "set xs \<subseteq> set ?h" for xs
    using that demo_hex_lower [of u] nd by (intro filter_True) (auto simp: list_all_iff)
  have s: "take n (drop m xs) @ drop (n + m) xs = drop m xs" for n m and xs :: str
    by (metis append_take_drop_id drop_drop)
  have "take 8 ?h @ take 4 (drop 8 ?h) @ take 4 (drop 12 ?h) @ take 4 (drop 16 ?h) @ drop 20 ?h = ?h"
    using s [of 4 16 ?h] s [of 4 12 ?h] s [of 4 8 ?h] by simp
  moreover have "filter (\<lambda>c. c \<noteq> CHR ''-'') (take n (drop m ?h)) = take n (drop m ?h)"
    "filter (\<lambda>c. c \<noteq> CHR ''-'') (drop m ?h) = drop m ?h" for n m
    using p [of "take n (drop m ?h)"] p [of "drop m ?h"] by (auto dest: in_set_takeD in_set_dropD)
  moreover have "filter (\<lambda>c. c \<noteq> CHR ''-'') (take 8 ?h) = take 8 ?h"
    using p [of "take 8 ?h"] by (auto dest: in_set_takeD)
  ultimately show ?thesis by (simp add: demo_uuid_text_def Let_def)
qed

lemma demo_uuid_ok: "uuid_ok demo_crates"
proof -
  have "list_all (\<lambda>c. is_lower_hex c \<or> c = CHR ''-'') (demo_uuid_text u)" for u
    using demo_hex_lower [of u] by (auto simp: demo_uuid_text_def Let_def list_all_iff dest: in_set_takeD in_set_dropD)
  moreover have "length (demo_uuid_text u) = 36" if "length u = 16" for u
    using that by (simp add: demo_uuid_text_def Let_def length_demo_hex)
  ultimately show ?thesis
    by (auto simp: uuid_ok_def demo_crates_def demo_uuid_parse_def demo_uuid_digits demo_decode_encode split: option.splits if_splits)
qed

lemma demo_sig_ok: "sig_ok demo_crates"
  by (simp add: sig_ok_def demo_crates_def)

end
