(* ===== verification/Identity_Chain_Facts.thy ===== *)
theory Identity_Chain_Facts
  imports Identity_Chain Crates_Instance
begin

text \<open>
  Correctness of the identity chain: the hash layouts are injective, the conflict rule is
  deterministic and order-free, and \<open>apply_chain\<close> computes the one outcome of the declarative
  rule \<open>chain_spec\<close>, from which convergence, linkage and maximality follow.
\<close>

section \<open>Layouts\<close>

fun prev_bytes :: "bytes option \<Rightarrow> bytes" where
  "prev_bytes None = [0]"
| "prev_bytes (Some h) = 1 # h"

definition wf_prev :: "bytes option \<Rightarrow> bool" where
  "wf_prev p \<longleftrightarrow> (\<forall>h. p = Some h \<longrightarrow> length h = 32)"

interpretation prev_code: prefix_code prev_bytes wf_prev
proof
  fix x y r s
  assume "wf_prev x" "wf_prev y" "prev_bytes x @ r = prev_bytes y @ s"
  then show "x = y \<and> r = s" by (cases x; cases y) (auto simp: wf_prev_def)
qed

declare prev_code.append_eq [layout_eqs]

lemma b_prev_hash_fields [simp]:
  "b_error (b_prev_hash p b) = b_error b" "b_out (b_prev_hash p b) = b_out b @ prev_bytes p"
  "b_exts (b_prev_hash p b) = b_exts b" "b_tag (b_prev_hash p b) = b_tag b" "b_rules (b_prev_hash p b) = b_rules b"
  by (auto simp: b_prev_hash_def b_hash_def b_u8_def raw_def split: option.splits)

definition wf_chain_input :: "ChainHashInput \<Rightarrow> bool" where
  "wf_chain_input i \<longleftrightarrow> length (ch_identity_id i) = 32 \<and> length (ch_event_id i) = 16 \<and>
     length (ch_payload_hash i) = 32 \<and> wf_prev (ch_prev_hash i)"

lemma chain_event_signing_bytes_Ok:
  "chain_event_signing_bytes i = Ok m \<longleftrightarrow>
     check_layout IDENTITY_CHAIN_EVENT (layout_version (ch_envelope i)) = Ok () \<and>
     check_rules (rules_version (ch_envelope i)) = Ok () \<and>
     fits (ch_kind i) \<and> fits (ch_issuer i) \<and> fits (ch_subject i) \<and>
     extensions_new (extensions (ch_envelope i)) (rules_version (ch_envelope i)) = Ok (extensions (ch_envelope i)) \<and>
     require_understood (extensions (ch_envelope i)) IDENTITY_CHAIN_EVENT = Ok () \<and>
     m = tag_bytes IDENTITY_CHAIN_EVENT @ u16_be (layout_version (ch_envelope i)) @
       u32_be (rules_version (ch_envelope i)) @ raw (ch_identity_id i) @ raw (u64_be (ch_seq i)) @
       raw (ch_event_id i) @ lp (as_bytes (ch_kind i)) @ lp (as_bytes (ch_issuer i)) @
       lp (as_bytes (ch_subject i)) @ raw (u32_be (ch_event_version i)) @ raw (u64_be (ch_timestamp_micros i)) @
       raw [hash_algo_id (hash_algo (ch_envelope i))] @ prev_bytes (ch_prev_hash i) @ raw (ch_payload_hash i) @
       ext_encode (extensions (ch_envelope i))"
  by (auto simp: chain_event_signing_bytes_def b_finish_Ok builder_ops)

lemma chain_event_fields_inject:
  assumes "wf_chain_input a" and "wf_chain_input b"
    and "chain_event_signing_bytes a = Ok m" and "chain_event_signing_bytes b = Ok m"
  shows "a = b"
proof -
  have rv: "rules_version (ch_envelope a) = 1" "rules_version (ch_envelope b) = 1"
    using assms(3,4) by (simp_all add: chain_event_signing_bytes_Ok check_rules_Ok)
  have "ch_identity_id a = ch_identity_id b \<and> ch_seq a = ch_seq b \<and> ch_event_id a = ch_event_id b \<and>
    ch_kind a = ch_kind b \<and> ch_issuer a = ch_issuer b \<and> ch_subject a = ch_subject b \<and>
    ch_event_version a = ch_event_version b \<and> ch_timestamp_micros a = ch_timestamp_micros b \<and>
    ch_prev_hash a = ch_prev_hash b \<and> ch_payload_hash a = ch_payload_hash b \<and>
    layout_version (ch_envelope a) = layout_version (ch_envelope b) \<and>
    hash_algo (ch_envelope a) = hash_algo (ch_envelope b) \<and>
    extensions (ch_envelope a) = extensions (ch_envelope b)"
    using assms rv unfolding chain_event_signing_bytes_Ok wf_chain_input_def
    by (elim conjE) (simp add: layout_eqs hash_algo_id_inject ext_code.enc_eq [of _ 1])
  with rv show ?thesis by (simp add: equality)
qed

fun content_bytes :: "KeyEventContent \<Rightarrow> bytes" where
  "content_bytes (DeviceGrant kid pk approver grant sg) =
     1 # raw kid @ raw approver @ 1 # raw pk @ raw grant @ 1 # raw sg"
| "content_bytes (Revocation kid revoker sg) = 2 # raw kid @ raw revoker @ 1 # raw sg"

fun wf_content :: "KeyEventContent \<Rightarrow> bool" where
  "wf_content (DeviceGrant kid pk approver grant sg) \<longleftrightarrow>
     length kid = 16 \<and> length pk = 32 \<and> length approver = 16 \<and> length grant = 16 \<and> length sg = 64"
| "wf_content (Revocation kid revoker sg) \<longleftrightarrow> length kid = 16 \<and> length revoker = 16 \<and> length sg = 64"

interpretation content_code: prefix_code content_bytes wf_content
proof
  fix x y r s
  assume "wf_content x" "wf_content y" "content_bytes x @ r = content_bytes y @ s"
  then show "x = y \<and> r = s" by (cases x; cases y) (auto simp: layout_eqs)
qed

declare content_code.append_eq [layout_eqs]

definition wf_key_input :: "KeyEventHashInput \<Rightarrow> bool" where
  "wf_key_input i \<longleftrightarrow> length (kh_identity_id i) = 32 \<and> wf_prev (kh_prev_hash i) \<and> wf_content (kh_content i)"

lemma key_event_signing_bytes_eq:
  "key_event_signing_bytes i = Ok (tag_bytes IDENTITY_KEY_EVENT @ u16_be 1 @ u32_be 1 @ raw (kh_identity_id i) @
     raw (u64_be (kh_seq i)) @ raw [1] @ prev_bytes (kh_prev_hash i) @ content_bytes (kh_content i) @ ext_encode [])"
proof -
  have lay: "check_layout IDENTITY_KEY_EVENT 1 = Ok ()" by (simp add: check_layout_def layout_versions_def)
  show ?thesis
    by (cases "kh_content i")
      (simp_all add: key_event_signing_bytes_def key_content_fields_def b_finish_Ok builder_ops lay
        extensions_new_Ok raw_def sig_algo_id.simps)
qed

lemma key_event_fields_inject:
  assumes "wf_key_input a" and "wf_key_input b" and "key_event_signing_bytes a = key_event_signing_bytes b"
  shows "a = b"
  using assms unfolding key_event_signing_bytes_eq wf_key_input_def
  by (elim conjE) (simp add: layout_eqs content_code.enc_eq equality)

section \<open>The conflict rule\<close>

lemma resolve_conflict_total: "cs \<noteq> [] \<Longrightarrow> \<exists>r. resolve_conflict cs = Some r"
  by (simp add: resolve_conflict_def Let_def)

lemma resolve_conflict_single [simp]: "resolve_conflict [e] = Some (Resolved e)"
  by (simp add: resolve_conflict_def)

lemma resolve_conflict_Forked:
  "resolve_conflict cs = Some (Forked l) \<longleftrightarrow>
     l = cs \<and> 2 \<le> length cs \<and> (\<exists>c\<in>set cs. action_class c = ChainCritical)"
  by (cases cs rule: list.exhaust [case_product list.exhaust]; cases "tl cs")
    (auto simp: resolve_conflict_def Let_def list_ex_iff)

text \<open>What it takes for one candidate to beat another: both are the same event, or neither is
  critical and the class, then the later time, then the smaller hash decides.\<close>

definition wins_over :: "ChainedEvent \<Rightarrow> ChainedEvent \<Rightarrow> bool" where
  "wins_over w e \<longleftrightarrow> w = e \<or>
     (action_class w \<noteq> ChainCritical \<and> action_class e \<noteq> ChainCritical \<and>
      (action_class w = Monotonic \<and> action_class e = OrdinaryEdit \<or>
       action_class w = action_class e \<and>
         (timestamp w > timestamp e \<or> timestamp w = timestamp e \<and> event_hash w \<le> event_hash e)))"

lemma order_key_le:
  "order_key w \<le> order_key e \<longleftrightarrow>
     timestamp w > timestamp e \<or> timestamp w = timestamp e \<and> event_hash w \<le> event_hash e"
  by (auto simp: order_key_def)

lemma sort_key_first:
  assumes "xs \<noteq> []"
  shows "sort_key f xs ! 0 \<in> set xs \<and> (\<forall>x\<in>set xs. f (sort_key f xs ! 0) \<le> f x)"
proof -
  have "sort_key f xs \<noteq> []" using assms by (metis length_0_conv length_sort)
  then obtain y ys where ys: "sort_key f xs = y # ys" by (cases "sort_key f xs") auto
  then have "sorted (map f (y # ys))" by (metis sorted_sort_key)
  moreover have "set (y # ys) = set xs" by (metis ys set_sort)
  ultimately show ?thesis by (auto simp: ys)
qed

lemma top_class_nonempty:
  assumes "cs \<noteq> []" and "\<not> list_ex (\<lambda>c. action_class c = ChainCritical) cs"
  shows "filter (\<lambda>c. action_class c = (if list_ex (\<lambda>c. action_class c = Monotonic) cs then Monotonic else OrdinaryEdit)) cs \<noteq> []"
proof (cases "list_ex (\<lambda>c. action_class c = Monotonic) cs")
  case False
  from assms(1) obtain c where c: "c \<in> set cs" by (cases cs) auto
  then have "action_class c = OrdinaryEdit" using False assms(2) by (cases "action_class c") (auto simp: list_ex_iff)
  with c False show ?thesis by (auto simp: filter_empty_conv)
qed (auto simp: filter_empty_conv list_ex_iff)

lemma resolve_conflict_winner:
  assumes "resolve_conflict cs = Some (Resolved w)"
  shows "w \<in> set cs \<and> (\<forall>e\<in>set cs. wins_over w e)"
proof (cases "length cs = 1")
  case True
  with assms show ?thesis by (auto simp: resolve_conflict_def length_Suc_conv wins_over_def)
next
  case False
  let ?top = "if list_ex (\<lambda>c. action_class c = Monotonic) cs then Monotonic else OrdinaryEdit"
  let ?in = "filter (\<lambda>c. action_class c = ?top) cs"
  from assms False have ne: "cs \<noteq> []" and nc: "\<not> list_ex (\<lambda>c. action_class c = ChainCritical) cs"
    and w: "w = sort_key order_key ?in ! 0"
    by (auto simp: resolve_conflict_def Let_def split: if_splits)
  have w_in: "w \<in> set ?in" and le: "\<forall>e\<in>set ?in. order_key w \<le> order_key e"
    using sort_key_first [OF top_class_nonempty [OF ne nc], of order_key] unfolding w by blast+
  have "wins_over w e" if "e \<in> set cs" for e
  proof (cases "e \<in> set ?in")
    case True
    with le w_in nc show ?thesis by (auto simp: wins_over_def order_key_le list_ex_iff)
  next
    case notin: False
    then have "action_class e = OrdinaryEdit" "?top = Monotonic"
      using that nc by (cases "action_class e"; auto simp: list_ex_iff split: if_splits)+
    with w_in show ?thesis by (auto simp: wins_over_def)
  qed
  with w_in show ?thesis by auto
qed

lemma wins_over_antisym:
  assumes "wins_over w e" and "wins_over e w"
  shows "event_hash w = event_hash e"
proof (cases "w = e")
  case False
  with assms have c: "action_class w = action_class e"
    unfolding wins_over_def by (metis ActionClass.distinct(1))
  with False assms have "order_key w \<le> order_key e" "order_key e \<le> order_key w"
    unfolding order_key_le wins_over_def by (metis ActionClass.distinct(1))+
  then have "order_key w = order_key e" by (rule order.antisym)
  then show ?thesis by (simp add: order_key_def)
qed simp

lemma resolve_conflict_perm:
  assumes perm: "mset cs = mset cs'" and inj: "inj_on event_hash (set cs)"
  shows "(\<exists>l. resolve_conflict cs = Some (Forked l)) \<longleftrightarrow> (\<exists>l. resolve_conflict cs' = Some (Forked l))"
    and "resolve_conflict cs = Some (Resolved w) \<longleftrightarrow> resolve_conflict cs' = Some (Resolved w)"
proof -
  have set_eq: "set cs = set cs'" and len: "length cs = length cs'"
    using perm by (auto dest: mset_eq_setD mset_eq_length)
  show forks: "(\<exists>l. resolve_conflict cs = Some (Forked l)) \<longleftrightarrow> (\<exists>l. resolve_conflict cs' = Some (Forked l))"
    by (simp add: resolve_conflict_Forked set_eq len)
  have uniq: "w = w'" if "wins_over w w'" "wins_over w' w" "w \<in> set cs" "w' \<in> set cs" for w w'
  proof (rule inj_onD [OF inj])
    show "event_hash w = event_hash w'" using that(1,2) by (rule wins_over_antisym)
  qed (use that in auto)
  have one: "resolve_conflict ds' = Some (Resolved w)"
    if d: "mset ds = mset ds'" "set ds = set cs" "resolve_conflict ds = Some (Resolved w)" for ds ds' w
  proof -
    have s: "set ds' = set cs" "length ds' = length ds" using d(1,2) by (auto dest: mset_eq_setD mset_eq_length)
    have "ds' \<noteq> []" using d s by (auto simp: resolve_conflict_def)
    then obtain r where r: "resolve_conflict ds' = Some r" using resolve_conflict_total by blast
    have "\<not> (\<exists>l. resolve_conflict ds = Some (Forked l))" using d(3) by auto
    then have "\<not> (\<exists>l. r = Forked l)" using r s d(2) by (auto simp: resolve_conflict_Forked)
    then obtain w' where w': "r = Resolved w'" by (cases r) auto
    note win = resolve_conflict_winner [OF d(3), unfolded d(2)]
      and win' = resolve_conflict_winner [OF r [unfolded w'], unfolded s(1)]
    have "w = w'" by (rule uniq) (use win win' in blast)+
    then show ?thesis using r w' by simp
  qed
  show "resolve_conflict cs = Some (Resolved w) \<longleftrightarrow> resolve_conflict cs' = Some (Resolved w)"
    using one [OF perm refl] one [OF perm [symmetric] set_eq [symmetric]] by (rule iffI)
qed

section \<open>The declarative rule\<close>

definition head_of :: "ChainedEvent list \<Rightarrow> bytes option" where
  "head_of A = (if A = [] then None else Some (event_hash (last A)))"

text \<open>The candidates at the position after a history \<open>A\<close>.\<close>

definition candidates_after :: "ChainedEvent list \<Rightarrow> ChainedEvent list \<Rightarrow> ChainedEvent list" where
  "candidates_after es A = filter (extends (of_nat (Suc (length A))) (head_of A)) es"

text \<open>Every accepted event is the resolution of all events at its position; the history stops where
  nothing extends it, or at the first position that forks.\<close>

definition chain_spec :: "ChainedEvent list \<Rightarrow> ChainOutcome \<Rightarrow> bool" where
  "chain_spec es out \<longleftrightarrow>
     (\<forall>i < length (accepted out).
        resolve_conflict (candidates_after es (take i (accepted out))) = Some (Resolved (accepted out ! i))) \<and>
     (case forked_at out of
        None \<Rightarrow> candidates_after es (accepted out) = []
      | Some f \<Rightarrow> f = of_nat (Suc (length (accepted out))) \<and>
          (\<exists>l. resolve_conflict (candidates_after es (accepted out)) = Some (Forked l)))"

lemma of_nat_u64_inject: "i < 2 ^ 64 \<Longrightarrow> j < 2 ^ 64 \<Longrightarrow> (of_nat i :: u64) = of_nat j \<longleftrightarrow> i = j"
proof
  assume "i < 2 ^ 64" "j < 2 ^ 64" and "(of_nat i :: u64) = of_nat j"
  then have "unat (of_nat i :: u64) = unat (of_nat j :: u64)" by simp
  with \<open>i < 2 ^ 64\<close> \<open>j < 2 ^ 64\<close> show "i = j" by (simp add: unat_of_nat)
qed simp

section \<open>The loop meets the rule\<close>

lemma next_position: "(of_nat (Suc n) :: u64) + 1 = of_nat (Suc (Suc n))"
  by simp

lemma head_of_snoc: "head_of (A @ [w]) = Some (event_hash w)"
  by (simp add: head_of_def)

text \<open>After accepting \<open>A\<close>, the events left in the loop are those at none of the positions passed.\<close>

definition remaining :: "ChainedEvent list \<Rightarrow> ChainedEvent list \<Rightarrow> ChainedEvent list" where
  "remaining es A = filter (\<lambda>e. \<forall>j < length A. \<not> extends (of_nat (Suc j)) (head_of (take j A)) e) es"

lemma remaining_candidates:
  assumes "Suc (length A) < 2 ^ 64"
  shows "filter (extends (of_nat (Suc (length A))) (head_of A)) (remaining es A) = candidates_after es A"
proof -
  have "extends (of_nat (Suc (length A))) h e \<Longrightarrow> \<not> extends (of_nat (Suc j)) h' e"
    if "j < length A" for h h' e j
    using that assms of_nat_u64_inject [of "Suc (length A)" "Suc j"] by (auto simp: extends_def)
  then show ?thesis
    unfolding remaining_def candidates_after_def filter_filter by (intro filter_cong) auto
qed

lemma remaining_snoc:
  "filter (\<lambda>e. \<not> extends (of_nat (Suc (length A))) (head_of A) e) (remaining es A) = remaining es (A @ [w])"
  unfolding remaining_def filter_filter by (intro filter_cong) (auto simp: less_Suc_eq)

lemma apply_loop_spec:
  assumes "length es < 2 ^ 64 - 1"
  shows "length A + length (remaining es A) \<le> length es \<Longrightarrow>
    \<forall>i < length A. resolve_conflict (candidates_after es (take i A)) = Some (Resolved (A ! i)) \<Longrightarrow>
    \<exists>out. apply_loop (remaining es A) A (head_of A) (of_nat (Suc (length A))) = Some out \<and> chain_spec es out \<and>
      length (accepted out) \<le> length es"
proof (induction "length (remaining es A)" arbitrary: A rule: less_induct)
  case less
  let ?s = "of_nat (Suc (length A)) :: u64" and ?cs = "candidates_after es A"
  have cs: "filter (extends ?s (head_of A)) (remaining es A) = ?cs"
    by (rule remaining_candidates) (use less.prems(1) assms in simp)
  show ?case
  proof (cases "?cs = []")
    case True
    then have "chain_spec es \<lparr>accepted = A, forked_at = None\<rparr>" using less.prems(2) by (simp add: chain_spec_def)
    with True less.prems(1) show ?thesis by (subst apply_loop.simps) (simp add: cs Let_def del: of_nat_Suc)
  next
    case False
    then obtain r where r: "resolve_conflict ?cs = Some r" using resolve_conflict_total by blast
    show ?thesis
    proof (cases r)
      case (Forked l)
      then have "chain_spec es \<lparr>accepted = A, forked_at = Some ?s\<rparr>"
        using less.prems(2) r by (simp add: chain_spec_def)
      with False r Forked less.prems(1) show ?thesis by (subst apply_loop.simps) (simp add: cs Let_def del: of_nat_Suc)
    next
      case (Resolved w)
      let ?A = "A @ [w]"
      obtain e where e: "e \<in> set (remaining es A)" "extends ?s (head_of A) e"
        using False unfolding cs [symmetric] by (auto simp: filter_empty_conv simp del: of_nat_Suc)
      have fewer: "length (remaining es ?A) < length (remaining es A)"
        unfolding remaining_snoc [symmetric] by (rule length_filter_less [OF e(1)]) (use e(2) in blast)
      have "\<forall>i < length ?A. resolve_conflict (candidates_after es (take i ?A)) = Some (Resolved (?A ! i))"
        using less.prems(2) r Resolved by (auto simp: less_Suc_eq nth_append)
      moreover have "length ?A + length (remaining es ?A) \<le> length es" using fewer less.prems(1) by simp
      ultimately obtain out where "apply_loop (remaining es ?A) ?A (head_of ?A) (of_nat (Suc (length ?A))) = Some out"
        "chain_spec es out" "length (accepted out) \<le> length es" using less.hyps [OF fewer] by blast
      with False r Resolved show ?thesis
        by (subst apply_loop.simps) (simp add: cs remaining_snoc [of A es w] next_position Let_def head_of_snoc del: of_nat_Suc)
    qed
  qed
qed

lemma apply_chain_spec:
  assumes "length es < 2 ^ 64 - 1"
  shows "\<exists>out. apply_chain es = Some out \<and> chain_spec es out \<and> length (accepted out) \<le> length es"
  using apply_loop_spec [OF assms, of "[]"] by (simp add: apply_chain_def remaining_def head_of_def)

lemma chain_spec_prefix:
  assumes "chain_spec es a" and "chain_spec es b"
  shows "i \<le> length (accepted a) \<Longrightarrow> i \<le> length (accepted b) \<Longrightarrow> take i (accepted a) = take i (accepted b)"
proof (induction i)
  case (Suc i)
  then have "take i (accepted a) = take i (accepted b)" by simp
  moreover from this have "accepted a ! i = accepted b ! i"
    using assms Suc.prems by (auto simp: chain_spec_def Suc_le_eq)
  ultimately show ?case using Suc.prems by (simp add: take_Suc_conv_app_nth)
qed simp

lemma chain_spec_not_longer:
  assumes "chain_spec es a" and "chain_spec es b"
  shows "length (accepted b) \<le> length (accepted a)"
proof (rule ccontr)
  assume lt: "\<not> ?thesis"
  then have "take (length (accepted a)) (accepted b) = accepted a"
    using chain_spec_prefix [OF assms, of "length (accepted a)"] by simp
  moreover have "resolve_conflict (candidates_after es (take (length (accepted a)) (accepted b))) =
      Some (Resolved (accepted b ! length (accepted a)))"
    using assms(2) lt by (simp add: chain_spec_def)
  ultimately show False
    using assms(1) by (auto simp: chain_spec_def resolve_conflict_def split: option.splits)
qed

lemma chain_spec_unique:
  assumes "chain_spec es a" and "chain_spec es b"
  shows "a = b"
proof -
  have "length (accepted a) = length (accepted b)"
    using chain_spec_not_longer [OF assms] chain_spec_not_longer [OF assms(2,1)] by simp
  then have acc: "accepted a = accepted b"
    using chain_spec_prefix [OF assms, of "length (accepted a)"] by simp
  have "forked_at a = forked_at b"
    using assms acc by (auto simp: chain_spec_def resolve_conflict_def split: option.splits)
  with acc show ?thesis by (simp add: equality)
qed

lemma apply_chain_iff: "length es < 2 ^ 64 - 1 \<Longrightarrow> apply_chain es = Some out \<longleftrightarrow> chain_spec es out"
  using apply_chain_spec chain_spec_unique by (metis option.inject)

section \<open>Consequences\<close>

lemma candidates_after_in: "e \<in> set (candidates_after es A) \<longleftrightarrow> e \<in> set es \<and> extends (of_nat (Suc (length A))) (head_of A) e"
  by (auto simp: candidates_after_def)

lemma accepted_resolves:
  assumes "chain_spec es out" and "i < length (accepted out)"
  shows "accepted out ! i \<in> set es"
    and "extends (of_nat (Suc i)) (head_of (take i (accepted out))) (accepted out ! i)"
    and "e \<in> set es \<Longrightarrow> extends (of_nat (Suc i)) (head_of (take i (accepted out))) e \<Longrightarrow>
      wins_over (accepted out ! i) e"
proof -
  have r: "resolve_conflict (candidates_after es (take i (accepted out))) = Some (Resolved (accepted out ! i))"
    using assms by (simp add: chain_spec_def)
  have len: "length (take i (accepted out)) = i" using assms(2) by simp
  note win = resolve_conflict_winner [OF r, unfolded candidates_after_in len]
  show "accepted out ! i \<in> set es"
    and "extends (of_nat (Suc i)) (head_of (take i (accepted out))) (accepted out ! i)" using win by auto
  show "wins_over (accepted out ! i) e"
    if "e \<in> set es" "extends (of_nat (Suc i)) (head_of (take i (accepted out))) e"
    using win that candidates_after_in [of e es "take i (accepted out)", unfolded len] by blast
qed

lemma chain_spec_perm:
  assumes "mset es = mset es'" and "inj_on event_hash (set es)" and "chain_spec es out"
  shows "chain_spec es' out"
proof -
  have c: "mset (candidates_after es A) = mset (candidates_after es' A)" for A
    unfolding candidates_after_def mset_filter by (simp only: assms(1))
  have inj: "inj_on event_hash (set (candidates_after es A))" for A
    by (rule inj_on_subset [OF assms(2)]) (auto simp: candidates_after_def)
  have emp: "candidates_after es A = [] \<longleftrightarrow> candidates_after es' A = []" for A
    using c [of A] by (metis mset_zero_iff)
  show ?thesis
    using assms(3) resolve_conflict_perm(1) [OF c inj] resolve_conflict_perm(2) [OF c inj] emp
    unfolding chain_spec_def by (simp split: option.splits)
qed

text \<open>C1. \<open>apply_chain\<close> implements the declarative rule: it never panics, always ends, and its
  result is the one and only outcome in which every accepted event resolves all the events at its
  position and the history stops at the first gap or fork.\<close>

theorem apply_chain_meets_spec:
  assumes "length es < 2 ^ 64 - 1"
  shows "\<exists>out. apply_chain es = Some out \<and> chain_spec es out \<and> (\<forall>out'. chain_spec es out' \<longrightarrow> out' = out)"
  using apply_chain_spec [OF assms] chain_spec_unique by blast

text \<open>Witness: a creation, then an ordinary edit and a reversal that both extend it.\<close>

definition demo_event :: "u64 \<Rightarrow> bytes option \<Rightarrow> u8 \<Rightarrow> int \<Rightarrow> ActionClass \<Rightarrow> ChainedEvent" where
  "demo_event s p h t c = \<lparr>seq = s, prev_hash = p, event_hash = replicate 32 h, timestamp = t, action_class = c,
     authority = OwnerSigned\<rparr>"

definition demo_first :: ChainedEvent where "demo_first = demo_event 1 None 1 10 OrdinaryEdit"
definition demo_edit :: ChainedEvent where "demo_edit = demo_event 2 (Some (replicate 32 1)) 2 50 OrdinaryEdit"
definition demo_reversal :: ChainedEvent where "demo_reversal = demo_event 2 (Some (replicate 32 1)) 3 20 Monotonic"
definition demo_events :: "ChainedEvent list" where "demo_events = [demo_edit, demo_first, demo_reversal]"

definition demo_outcome :: ChainOutcome where
  "demo_outcome = \<lparr>accepted = [demo_first, demo_reversal], forked_at = None\<rparr>"

lemma demo_length: "length demo_events < 2 ^ 64 - 1"
  by (simp add: demo_events_def)

lemma demo_replay: "apply_chain demo_events = Some demo_outcome"
  by code_simp

theorem apply_chain_meets_spec_witness:
  "apply_chain demo_events = Some demo_outcome \<and> chain_spec demo_events demo_outcome"
  using apply_chain_meets_spec [OF demo_length] demo_replay by auto

text \<open>C17. Convergence: two nodes that hold the same events, in whatever order they arrived, reach
  the same outcome, provided the event hash identifies an event among them.\<close>

theorem apply_chain_order_independent:
  assumes "mset es = mset es'" and "inj_on event_hash (set es)" and "length es < 2 ^ 64 - 1"
  shows "apply_chain es = apply_chain es'"
proof -
  have len: "length es' < 2 ^ 64 - 1" using assms(1,3) by (metis mset_eq_length)
  obtain out where "apply_chain es = Some out" "chain_spec es out" using apply_chain_spec [OF assms(3)] by blast
  moreover from this have "apply_chain es' = Some out"
    using chain_spec_perm [OF assms(1,2)] by (simp only: apply_chain_iff [OF len])
  ultimately show ?thesis by simp
qed

text \<open>Witness: the same events in arrival order.\<close>

theorem apply_chain_order_independent_witness:
  "apply_chain [demo_edit, demo_first, demo_reversal] = apply_chain [demo_reversal, demo_first, demo_edit]"
proof -
  have "inj_on event_hash (set demo_events)"
    by (simp add: demo_events_def demo_edit_def demo_first_def demo_reversal_def demo_event_def)
  then show ?thesis
    using apply_chain_order_independent [of demo_events "[demo_reversal, demo_first, demo_edit]"] demo_length
    by (simp add: demo_events_def)
qed

text \<open>The accepted history is a hash-linked chain drawn from the input: positions count from 1,
  the first event has no predecessor, and each later one points at the hash of the event before it.\<close>

theorem accepted_is_linked_chain:
  assumes "length es < 2 ^ 64 - 1" and "apply_chain es = Some out"
  shows "set (accepted out) \<subseteq> set es \<and>
    (\<forall>i < length (accepted out). seq (accepted out ! i) = of_nat (Suc i) \<and>
       prev_hash (accepted out ! i) = (if i = 0 then None else Some (event_hash (accepted out ! (i - 1)))))"
proof -
  have spec: "chain_spec es out" using assms by (simp add: apply_chain_iff)
  have "head_of (take i (accepted out)) = (if i = 0 then None else Some (event_hash (accepted out ! (i - 1))))"
    if "i < length (accepted out)" for i
    using that by (cases i) (auto simp: head_of_def take_Suc_conv_app_nth)
  then show ?thesis
    using accepted_resolves(1,2) [OF spec] by (auto simp: extends_def in_set_conv_nth simp del: of_nat_Suc)
qed

text \<open>Witness: the reversal points at the hash of the creation.\<close>

theorem accepted_is_linked_chain_witness:
  "accepted demo_outcome ! 1 = demo_reversal \<and> prev_hash (accepted demo_outcome ! 1) = Some (event_hash demo_first)"
proof -
  have "\<forall>i < length (accepted demo_outcome). prev_hash (accepted demo_outcome ! i) =
      (if i = 0 then None else Some (event_hash (accepted demo_outcome ! (i - 1))))"
    using accepted_is_linked_chain [OF demo_length demo_replay] by blast
  from this [rule_format, of 1] show ?thesis by (simp add: demo_outcome_def)
qed

text \<open>The winner at each position beats every rival there: the rival is the same event, or
  neither is chain-critical and the rival loses by class, by time, or by hash. A revocation or
  reversal therefore never loses to an ordinary edit, whatever timestamps are claimed.\<close>

theorem accepted_beats_rivals:
  assumes "length es < 2 ^ 64 - 1" and "apply_chain es = Some out"
    and "w \<in> set (accepted out)" and "e \<in> set es" and "seq e = seq w" and "prev_hash e = prev_hash w"
  shows "wins_over w e"
proof -
  have spec: "chain_spec es out" using assms(1,2) by (simp add: apply_chain_iff)
  obtain i where i: "i < length (accepted out)" "w = accepted out ! i" using assms(3) by (metis in_set_conv_nth)
  show ?thesis
    using accepted_resolves(2,3) [OF spec i(1)] assms(4-6) i(2) by (auto simp: extends_def)
qed

text \<open>Witness: the reversal beats an edit with a later time.\<close>

theorem accepted_beats_rivals_witness: "wins_over demo_reversal demo_edit"
proof -
  have "demo_reversal \<in> set (accepted demo_outcome)" "demo_edit \<in> set demo_events"
    "seq demo_edit = seq demo_reversal" "prev_hash demo_edit = prev_hash demo_reversal"
    by (simp_all add: demo_outcome_def demo_events_def demo_edit_def demo_reversal_def demo_event_def)
  then show ?thesis by (rule accepted_beats_rivals [OF demo_length demo_replay])
qed

text \<open>A replay stops for one of two reasons: nothing in the input extends the head, or at least
  two events do and one of them is chain-critical. A lone event, and concurrent events of which
  none is critical, never fork an identity.\<close>

theorem fork_iff_critical_conflict:
  assumes "length es < 2 ^ 64 - 1" and "apply_chain es = Some out"
  shows "(forked_at out = None \<longleftrightarrow> candidates_after es (accepted out) = []) \<and>
    (is_forked out \<longleftrightarrow> 2 \<le> length (candidates_after es (accepted out)) \<and>
       (\<exists>c\<in>set (candidates_after es (accepted out)). action_class c = ChainCritical))"
proof -
  have "chain_spec es out" using assms by (simp add: apply_chain_iff)
  then show ?thesis
    by (cases "forked_at out") (auto simp: chain_spec_def is_forked_def resolve_conflict_Forked)
qed

text \<open>Witness: two key additions at one position fork the identity.\<close>

definition demo_fork :: "ChainedEvent list" where
  "demo_fork = [demo_first, demo_event 2 (Some (replicate 32 1)) 4 20 ChainCritical,
     demo_event 2 (Some (replicate 32 1)) 5 20 ChainCritical]"

definition demo_fork_outcome :: ChainOutcome where
  "demo_fork_outcome = \<lparr>accepted = [demo_first], forked_at = Some 2\<rparr>"

lemma demo_fork_replay: "apply_chain demo_fork = Some demo_fork_outcome"
  by code_simp

theorem fork_iff_critical_conflict_witness:
  "is_forked demo_fork_outcome \<and> 2 \<le> length (candidates_after demo_fork [demo_first])"
proof -
  have "length demo_fork < 2 ^ 64 - 1" by (simp add: demo_fork_def)
  from fork_iff_critical_conflict [OF this demo_fork_replay] show ?thesis
    by (simp add: is_forked_def demo_fork_outcome_def)
qed

text \<open>A chained event's hash input is injective: two well-formed inputs with the same signing
  bytes agree in the identity, the position, the predecessor, the event and its envelope; the same
  holds for key events, whose layout always succeeds, and a chain event never has the bytes of a
  key event.\<close>

theorem chain_hash_input_inject:
  assumes "wf_chain_input a" and "wf_chain_input b" and "wf_key_input k" and "wf_key_input l"
    and "chain_event_signing_bytes a = Ok m"
  shows "(chain_event_signing_bytes b = Ok m \<longleftrightarrow> a = b) \<and>
    (key_event_signing_bytes k = key_event_signing_bytes l \<longleftrightarrow> k = l) \<and>
    (\<exists>n. key_event_signing_bytes k = Ok n \<and> n \<noteq> m)"
  using assms chain_event_fields_inject [OF assms(1,2,5)] key_event_fields_inject [OF assms(3,4)]
  by (auto simp: key_event_signing_bytes_eq chain_event_signing_bytes_Ok dest: tag_bytes_unique)

text \<open>Witness: a concrete chained event and a concrete key event.\<close>

definition demo_chain_input :: ChainHashInput where
  "demo_chain_input = \<lparr>ch_identity_id = replicate 32 1, ch_seq = 2, ch_prev_hash = Some (replicate 32 3),
     ch_event_id = replicate 16 4, ch_kind = ''profile.updated'', ch_issuer = ''identity:a'', ch_subject = ''identity:a'',
     ch_event_version = 1, ch_timestamp_micros = 1700000000000000, ch_payload_hash = replicate 32 5,
     ch_envelope = envelope_current IDENTITY_CHAIN_EVENT\<rparr>"

definition demo_key_input :: KeyEventHashInput where
  "demo_key_input = \<lparr>kh_identity_id = replicate 32 1, kh_seq = 2, kh_prev_hash = None,
     kh_content = Revocation (replicate 16 1) (replicate 16 2) (replicate 64 3)\<rparr>"

theorem chain_hash_input_inject_witness:
  "\<exists>m n. chain_event_signing_bytes demo_chain_input = Ok m \<and> key_event_signing_bytes demo_key_input = Ok n \<and> n \<noteq> m \<and>
     {b. wf_chain_input b \<and> chain_event_signing_bytes b = Ok m} = {demo_chain_input} \<and>
     {k. wf_key_input k \<and> key_event_signing_bytes k = Ok n} = {demo_key_input}"
proof -
  have wf: "wf_chain_input demo_chain_input" "wf_key_input demo_key_input"
    by (simp_all add: wf_chain_input_def wf_key_input_def wf_prev_def demo_chain_input_def demo_key_input_def)
  have "\<exists>m. chain_event_signing_bytes demo_chain_input = Ok m"
    by (simp add: chain_event_signing_bytes_Ok demo_chain_input_def)
  then obtain m where m: "chain_event_signing_bytes demo_chain_input = Ok m" ..
  note inj = chain_hash_input_inject [OF wf(1) _ wf(2) _ m]
  obtain n where n: "key_event_signing_bytes demo_key_input = Ok n" "n \<noteq> m" using inj wf by blast
  have "{b. wf_chain_input b \<and> chain_event_signing_bytes b = Ok m} = {demo_chain_input}" using inj wf by blast
  moreover have "{k. wf_key_input k \<and> key_event_signing_bytes k = Ok n} = {demo_key_input}"
  proof (intro equalityI subsetI)
    fix k assume "k \<in> {k. wf_key_input k \<and> key_event_signing_bytes k = Ok n}"
    then show "k \<in> {demo_key_input}" using inj [OF wf(1), of k] n(1) by simp
  qed (use wf(2) n(1) in simp)
  ultimately show ?thesis using m n by blast
qed

text \<open>The clock-skew check passes a timestamp unchanged or refuses it: what is accepted is at
  most the future allowance ahead of the node's clock and, when a past bound is set, at most that
  far behind; every timestamp within the allowances is accepted.\<close>

lemma clamp_timestamp_window:
  assumes "0 \<le> max_future_skew bounds" and "\<forall>p. max_past_skew bounds = Some p \<longrightarrow> 0 \<le> p"
  shows "clamp_timestamp claimed now bounds = Ok t \<longleftrightarrow>
    t = claimed \<and> claimed \<le> now + max_future_skew bounds \<and>
    (\<forall>p. max_past_skew bounds = Some p \<longrightarrow> now - p \<le> claimed)"
  using assms by (auto simp: clamp_timestamp_def split: option.splits)

end
