(* ===== verification/Identity_Id.thy ===== *)
theory Identity_Id
  imports Utf8 Identity_Chain_Facts
begin

text \<open>
  Models of \<open>crates/protocol/src/ed25519_key.rs\<close> (which public keys an id may commit to) and
  \<open>crates/protocol/src/identity_id.rs\<close> (self-certifying identity ids, display-name screening and the
  bytes signed for identity creation, device grants and key revocation). A \<open>VerifyingKey\<close> is its
  32 bytes, an \<open>IdentityId\<close> its digest, a \<open>Uuid\<close> its 16 bytes; \<open>None\<close> is the panic of an \<open>expect\<close>.
\<close>

section \<open>Public keys\<close>

unbundle bit_operations_syntax

definition is_acceptable_ed25519_key :: "crates \<Rightarrow> bytes \<Rightarrow> bool" where
  "is_acceptable_ed25519_key C key \<longleftrightarrow>
     (let non_canonical_y = key ! 0 \<ge> 0xed \<and> list_all (\<lambda>b. b = 0xff) (take 30 (drop 1 key)) \<and>
            key ! 31 AND 0x7f = 0x7f
      in \<not> non_canonical_y \<and> \<not> key_is_weak C key)"

definition parse_ed25519_public_key :: "crates \<Rightarrow> bytes \<Rightarrow> bytes option" where
  "parse_ed25519_public_key C bs =
     (if key_from_bytes_ok C bs \<and> is_acceptable_ed25519_key C bs then Some bs else None)"

text \<open>\<open>try_into\<close> a fixed-size array.\<close>

definition to_array :: "nat \<Rightarrow> bytes \<Rightarrow> bytes option" where
  "to_array n bs = (if length bs = n then Some bs else None)"

definition parse_ed25519_public_key_hex :: "crates \<Rightarrow> str \<Rightarrow> bytes option" where
  "parse_ed25519_public_key_hex C key_hex =
     (if length key_hex = 64 \<and> list_all is_lower_hex key_hex
      then Option.bind (Option.bind (hex_decode C key_hex) (to_array 32)) (parse_ed25519_public_key C)
      else None)"

definition verify_strict_signature :: "crates \<Rightarrow> bytes \<Rightarrow> bytes \<Rightarrow> bytes \<Rightarrow> bool" where
  "verify_strict_signature C key message sig = ed_verify_strict C key message sig"

section \<open>Identity ids\<close>

definition IDENTITY_ID_DOMAIN_TAG :: bytes where
  "IDENTITY_ID_DOMAIN_TAG = as_bytes ''avalon-identity-id-v1''"

definition IDENTITY_ID_LEN :: nat where "IDENTITY_ID_LEN = 64"

datatype IdentityIdParseError = UnknownScheme nat | NotLowercaseHex

definition identity_id_parse :: "crates \<Rightarrow> str \<Rightarrow> IdentityIdParseError + bytes" where
  "identity_id_parse C text =
     (if length text \<noteq> IDENTITY_ID_LEN then Err (UnknownScheme (length text))
      else if \<not> list_all is_lower_hex text then Err NotLowercaseHex
      else ok_or NotLowercaseHex (hex_decode C text))"

definition identity_id_display :: "crates \<Rightarrow> bytes \<Rightarrow> str" where
  "identity_id_display C ident = hex_encode C ident"

definition webauthn_user_handle :: "bytes \<Rightarrow> bytes" where
  "webauthn_user_handle ident = take 16 ident"

definition derive_identity_id :: "crates \<Rightarrow> bytes \<Rightarrow> bytes" where
  "derive_identity_id C public_key = sha256 C (IDENTITY_ID_DOMAIN_TAG @ public_key)"

definition matches_key :: "crates \<Rightarrow> bytes \<Rightarrow> bytes \<Rightarrow> bool" where
  "matches_key C ident public_key \<longleftrightarrow> derive_identity_id C public_key = ident"

section \<open>Display names\<close>

text \<open>Names are handled as their characters (Unicode scalar values); \<open>String::from_iter\<close> encodes
  them back to UTF-8.\<close>

definition trim_chars :: "nat list \<Rightarrow> nat list" where
  "trim_chars cs = rev (dropWhile is_whitespace (rev (dropWhile is_whitespace cs)))"

text \<open>\<open>char::is_control\<close>: general category Cc.\<close>

definition is_control :: "nat \<Rightarrow> bool" where
  "is_control c \<longleftrightarrow> c < 32 \<or> (127 \<le> c \<and> c < 160)"

definition is_invisible :: "nat \<Rightarrow> bool" where
  "is_invisible c \<longleftrightarrow> is_control c \<or> c = 0x00AD \<or> c = 0x034F \<or> c = 0x061C \<or>
     (0x115F \<le> c \<and> c \<le> 0x1160) \<or> (0x17B4 \<le> c \<and> c \<le> 0x17B5) \<or> (0x180B \<le> c \<and> c \<le> 0x180F) \<or>
     (0x200B \<le> c \<and> c \<le> 0x200F) \<or> (0x2028 \<le> c \<and> c \<le> 0x202E) \<or> (0x2060 \<le> c \<and> c \<le> 0x206F) \<or>
     c = 0x3164 \<or> (0xFE00 \<le> c \<and> c \<le> 0xFE0F) \<or> c = 0xFEFF \<or> c = 0xFFA0 \<or>
     (0xFFF0 \<le> c \<and> c \<le> 0xFFF8) \<or> (0x1BCA0 \<le> c \<and> c \<le> 0x1BCA3) \<or>
     (0x1D173 \<le> c \<and> c \<le> 0x1D17A) \<or> (0xE0000 \<le> c \<and> c \<le> 0xE0FFF)"

definition display_name_mimics_identity_id :: "crates \<Rightarrow> str \<Rightarrow> bool" where
  "display_name_mimics_identity_id C name \<longleftrightarrow>
     (let visible = filter (\<lambda>c. \<not> is_invisible c) (str_chars name) in
      result_ok (identity_id_parse C (to_ascii_lowercase (str_of_chars (trim_chars visible)))) \<noteq> None)"

definition MAX_DISPLAY_NAME_CHARS :: nat where "MAX_DISPLAY_NAME_CHARS = 128"

definition display_name_permitted :: "crates \<Rightarrow> str \<Rightarrow> bool" where
  "display_name_permitted C name =
     (let len = length (trim_chars (str_chars name)) in
      if len = 0 \<or> len > MAX_DISPLAY_NAME_CHARS then False
      else (let hidden = list_ex (\<lambda>c. is_invisible c \<and> c \<noteq> 0x200C \<and> c \<noteq> 0x200D) (str_chars name)
            in \<not> hidden \<and> \<not> display_name_mimics_identity_id C name))"

section \<open>Signed identity messages\<close>

definition identity_created_signing_bytes :: "str \<Rightarrow> bytes \<Rightarrow> bytes \<Rightarrow> bytes \<Rightarrow> str \<Rightarrow> bytes option" where
  "identity_created_signing_bytes network_id ticket_id ident public_key display_name =
     result_ok (b_finish (build (b_new IDENTITY_CREATED 1)
       [b_str network_id, b_uuid ticket_id, b_fixed ident, b_key public_key, b_str display_name]))"

definition with_position :: "u64 \<Rightarrow> bytes option \<Rightarrow> (Builder \<Rightarrow> Builder) list" where
  "with_position s prev = [b_u64 s, b_hash_algo Sha256, b_prev_hash prev]"

definition device_grant_approval_signing_bytes ::
  "str \<Rightarrow> bytes \<Rightarrow> bytes \<Rightarrow> bytes \<Rightarrow> bytes \<Rightarrow> u64 \<Rightarrow> bytes option \<Rightarrow> bytes option" where
  "device_grant_approval_signing_bytes network_id grant_id ident approver requested s prev =
     result_ok (b_finish (build (b_new DEVICE_GRANT_APPROVED 1)
       ([b_str network_id, b_uuid grant_id, b_fixed ident, b_uuid approver, b_key requested] @ with_position s prev)))"

definition signing_key_revoked_signing_bytes ::
  "str \<Rightarrow> bytes \<Rightarrow> bytes \<Rightarrow> bytes \<Rightarrow> u64 \<Rightarrow> bytes option \<Rightarrow> bytes option" where
  "signing_key_revoked_signing_bytes network_id ident signing_key_id revoked_by s prev =
     result_ok (b_finish (build (b_new IDENTITY_SIGNING_KEY_REVOKED 1)
       ([b_str network_id, b_fixed ident, b_uuid signing_key_id, b_uuid revoked_by] @ with_position s prev)))"

section \<open>Facts\<close>

lemma check_layout_1 [simp]: "check_layout tag 1 = Ok ()"
  by (simp add: check_layout_def layout_versions_def)

lemma identity_created_Some:
  "identity_created_signing_bytes n t i k d = Some m \<longleftrightarrow> fits n \<and> fits d \<and>
     m = tag_bytes IDENTITY_CREATED @ u16_be 1 @ u32_be 1 @ lp (as_bytes n) @ raw t @ raw i @ raw [1] @ raw k @
       lp (as_bytes d) @ ext_encode []"
  by (auto simp: identity_created_signing_bytes_def result_ok_eq_Some b_finish_Ok builder_ops)

lemma device_grant_Some:
  "device_grant_approval_signing_bytes n g i a k s p = Some m \<longleftrightarrow> fits n \<and>
     m = tag_bytes DEVICE_GRANT_APPROVED @ u16_be 1 @ u32_be 1 @ lp (as_bytes n) @ raw g @ raw i @ raw a @ raw [1] @
       raw k @ raw (u64_be s) @ raw [1] @ prev_bytes p @ ext_encode []"
  by (auto simp: device_grant_approval_signing_bytes_def with_position_def result_ok_eq_Some b_finish_Ok builder_ops)

lemma signing_key_revoked_Some:
  "signing_key_revoked_signing_bytes n i k r s p = Some m \<longleftrightarrow> fits n \<and>
     m = tag_bytes IDENTITY_SIGNING_KEY_REVOKED @ u16_be 1 @ u32_be 1 @ lp (as_bytes n) @ raw i @ raw k @ raw r @
       raw (u64_be s) @ raw [1] @ prev_bytes p @ ext_encode []"
  by (auto simp: signing_key_revoked_signing_bytes_def with_position_def result_ok_eq_Some b_finish_Ok builder_ops)

lemma identity_id_parse_Ok:
  assumes "hex_ok C"
  shows "identity_id_parse C text = Ok ident \<longleftrightarrow> length ident = 32 \<and> text = identity_id_display C ident"
proof
  assume "identity_id_parse C text = Ok ident"
  then have t: "length text = 64" "list_all is_lower_hex text" and d: "hex_decode C text = Some ident"
    by (auto simp: identity_id_parse_def IDENTITY_ID_LEN_def split: if_splits)
  obtain b where b: "hex_decode C text = Some b" "hex_encode C b = text" "2 * length b = length text"
    by (rule hex_decode_lower [OF assms t(2)]) (use t(1) in simp)+
  with d t(1) show "length ident = 32 \<and> text = identity_id_display C ident"
    by (simp add: identity_id_display_def)
next
  assume "length ident = 32 \<and> text = identity_id_display C ident"
  then show "identity_id_parse C text = Ok ident"
    using assms by (simp add: identity_id_parse_def identity_id_display_def IDENTITY_ID_LEN_def
        length_hex_encode hex_encode_lower hex_roundtrip)
qed

text \<open>An identity id has one text form: a string parses exactly when it is the 64 lowercase hex
  digits of the id it yields. Nothing is trimmed, lowercased or otherwise normalised.\<close>

theorem identity_id_text_unique:
  assumes "hex_ok C"
  shows "identity_id_parse C text = Ok ident \<longleftrightarrow> length ident = 32 \<and> text = identity_id_display C ident"
  using assms by (rule identity_id_parse_Ok)

text \<open>Witness: sixty-four zeros are the text of the zero id.\<close>

theorem identity_id_text_unique_witness:
  "identity_id_parse demo_crates (replicate 64 (CHR ''0'')) = Ok (replicate 32 0) \<and>
   replicate 64 (CHR ''0'') = identity_id_display demo_crates (replicate 32 0)"
proof -
  have "identity_id_display demo_crates (replicate 32 0) = replicate 64 (CHR ''0'')" by code_simp
  then show ?thesis using identity_id_text_unique [OF demo_hex_ok, of "replicate 64 (CHR ''0'')" "replicate 32 0"] by simp
qed

text \<open>The three identity messages separate every field: equal device-grant approvals agree in
  network, grant, identity, approver, key, position and predecessor; the same for key revocations;
  and no creation, grant or revocation message is ever a message of another of the three kinds.\<close>

theorem identity_messages_inject:
  assumes "length g = 16" "length g' = 16" "length i = 32" "length i' = 32" "length a = 16" "length a' = 16"
    and "length k = 32" "length k' = 32" "wf_prev p" "wf_prev p'"
    and "device_grant_approval_signing_bytes n g i a k s p = Some m"
  shows "(device_grant_approval_signing_bytes n' g' i' a' k' s' p' = Some m \<longleftrightarrow>
      (n, g, i, a, k, s, p) = (n', g', i', a', k', s', p')) \<and>
    (signing_key_revoked_signing_bytes n i g a s p = signing_key_revoked_signing_bytes n' i' g' a' s' p' \<and>
       fits n \<and> fits n' \<longrightarrow> (n, i, g, a, s, p) = (n', i', g', a', s', p')) \<and>
    signing_key_revoked_signing_bytes n' i' g' a' s' p' \<noteq> Some m \<and>
    identity_created_signing_bytes n' g' i' k' d \<noteq> Some m"
proof (intro conjI impI iffI)
  assume "device_grant_approval_signing_bytes n' g' i' a' k' s' p' = Some m"
  then show "(n, g, i, a, k, s, p) = (n', g', i', a', k', s', p')"
    using assms unfolding device_grant_Some by (elim conjE) (simp add: layout_eqs prev_code.enc_eq)
next
  assume "(n, g, i, a, k, s, p) = (n', g', i', a', k', s', p')"
  then show "device_grant_approval_signing_bytes n' g' i' a' k' s' p' = Some m" using assms(11) by simp
next
  assume eq: "signing_key_revoked_signing_bytes n i g a s p = signing_key_revoked_signing_bytes n' i' g' a' s' p' \<and>
    fits n \<and> fits n'"
  then obtain q where "signing_key_revoked_signing_bytes n i g a s p = Some q"
    "signing_key_revoked_signing_bytes n' i' g' a' s' p' = Some q"
    by (metis signing_key_revoked_Some)
  then show "(n, i, g, a, s, p) = (n', i', g', a', s', p')"
    using assms(1-10) unfolding signing_key_revoked_Some by (elim conjE) (simp add: layout_eqs prev_code.enc_eq)
next
  show "signing_key_revoked_signing_bytes n' i' g' a' s' p' \<noteq> Some m"
    using assms(11) unfolding device_grant_Some signing_key_revoked_Some by (auto dest: tag_bytes_unique)
  show "identity_created_signing_bytes n' g' i' k' d \<noteq> Some m"
    using assms(11) unfolding device_grant_Some identity_created_Some by (auto dest: tag_bytes_unique)
qed

text \<open>Witness: a concrete grant approval is the approval of no other grant at another position.\<close>

theorem identity_messages_inject_witness:
  "\<exists>m. device_grant_approval_signing_bytes ''testnet'' (replicate 16 1) (replicate 32 2) (replicate 16 3)
      (replicate 32 4) 2 None = Some m \<and>
    device_grant_approval_signing_bytes ''testnet'' (replicate 16 1) (replicate 32 2) (replicate 16 3)
      (replicate 32 4) 3 None \<noteq> Some m \<and>
    signing_key_revoked_signing_bytes ''testnet'' (replicate 32 2) (replicate 16 1) (replicate 16 3) 2 None \<noteq> Some m"
proof -
  have "\<exists>m. device_grant_approval_signing_bytes ''testnet'' (replicate 16 1) (replicate 32 2) (replicate 16 3)
      (replicate 32 4) 2 None = Some m"
    by (simp add: device_grant_Some)
  then obtain m where m: "device_grant_approval_signing_bytes ''testnet'' (replicate 16 1) (replicate 32 2)
      (replicate 16 3) (replicate 32 4) 2 None = Some m" ..
  have lens: "length (replicate 16 (1 :: u8)) = 16" "length (replicate 16 (3 :: u8)) = 16"
    "length (replicate 32 (2 :: u8)) = 32" "length (replicate 32 (4 :: u8)) = 32" "wf_prev None"
    by (simp_all add: wf_prev_def)
  show ?thesis
    using identity_messages_inject [OF lens(1) lens(1) lens(3) lens(3) lens(2) lens(2) lens(4) lens(4) lens(5) lens(5) m,
        where n' = "''testnet''" and s' = 3 and d = "[]"] m
      identity_messages_inject [OF lens(1) lens(1) lens(3) lens(3) lens(2) lens(2) lens(4) lens(4) lens(5) lens(5) m,
        where n' = "''testnet''" and s' = 2 and d = "[]"]
    by auto
qed

end
