(* ===== verification/Ledger_Entry.thy ===== *)
theory Ledger_Entry
  imports Crates_Instance
begin

text \<open>
  Model of \<open>crates/protocol/src/ledger_entry.rs\<close>: the bytes and the hash of a ledger entry.
  Instants are nanoseconds since the epoch; \<open>OffsetDateTime\<close> covers the years -9999 to 9999.
\<close>

section \<open>Definitions\<close>

datatype EntryHashError = EntryInvalidHash str | EntryOutOfRange str | EntryLayout SigningBytesError

record EntryHashInput =
  e_network_id :: str
  e_shard_id :: str
  e_seq :: u64
  e_prev_hash :: bytes
  e_event_id :: bytes
  e_kind :: str
  e_issuer :: str
  e_subject :: str
  e_payload_hash :: bytes
  e_timestamp_micros :: i64
  e_event_version :: u32
  e_envelope :: Envelope

definition i64_min :: int where "i64_min = - (2 ^ 63)"
definition i64_max :: int where "i64_max = 2 ^ 63 - 1"

text \<open>\<open>i64::try_from(nanos.div_euclid(1000))\<close>; the divisor is positive, so \<open>div_euclid\<close> is \<open>div\<close>.\<close>

definition timestamp_micros :: "time \<Rightarrow> EntryHashError + int" where
  "timestamp_micros t =
     (let m = t div 1000 in
      if i64_min \<le> m \<and> m \<le> i64_max then Ok m else Err (EntryOutOfRange ''timestamp''))"

text \<open>The instants \<open>OffsetDateTime\<close> represents (years -9999 to 9999), in nanoseconds.\<close>

definition in_time_range :: "time \<Rightarrow> bool" where
  "in_time_range t \<longleftrightarrow> -377705116800 * nanos_per_sec \<le> t \<and> t < 253402300800 * nanos_per_sec"

definition floor_to_micros :: "time \<Rightarrow> EntryHashError + time" where
  "floor_to_micros t =
     rbind (timestamp_micros t) (\<lambda>m.
       if in_time_range (m * 1000) then Ok (m * 1000) else Err (EntryOutOfRange ''timestamp''))"

definition parse_hash :: "crates \<Rightarrow> str \<Rightarrow> str \<Rightarrow> EntryHashError + bytes" where
  "parse_hash C name text =
     (if length text \<noteq> 64 \<or> \<not> list_all is_lower_hex text then Err (EntryInvalidHash name)
      else ok_or (EntryInvalidHash name) (hex_decode C text))"

definition entry_signing_bytes :: "EntryHashInput \<Rightarrow> EntryHashError + bytes" where
  "entry_signing_bytes i = map_err EntryLayout (b_finish (build
     (b_with_envelope LEDGER_ENTRY (e_envelope i))
     [b_str (e_network_id i), b_str (e_shard_id i), b_u64 (e_seq i), b_uuid (e_event_id i),
      b_str (e_kind i), b_str (e_issuer i), b_str (e_subject i), b_u32 (e_event_version i),
      b_i64 (e_timestamp_micros i), b_hash_algo (hash_algo (e_envelope i)),
      b_hash (e_prev_hash i), b_hash (e_payload_hash i)]))"

definition entry_hash :: "crates \<Rightarrow> EntryHashInput \<Rightarrow> EntryHashError + bytes" where
  "entry_hash C i = rbind (entry_signing_bytes i) (\<lambda>m. Ok (digest C (hash_algo (e_envelope i)) m))"

text \<open>The widths Rust's array types fix.\<close>

definition wf_entry :: "EntryHashInput \<Rightarrow> bool" where
  "wf_entry i \<longleftrightarrow> length (e_prev_hash i) = 32 \<and> length (e_event_id i) = 16 \<and> length (e_payload_hash i) = 32"

section \<open>Facts\<close>

lemma entry_signing_bytes_Ok:
  "entry_signing_bytes i = Ok m \<longleftrightarrow>
     check_layout LEDGER_ENTRY (layout_version (e_envelope i)) = Ok () \<and>
     check_rules (rules_version (e_envelope i)) = Ok () \<and>
     fits (e_network_id i) \<and> fits (e_shard_id i) \<and> fits (e_kind i) \<and> fits (e_issuer i) \<and> fits (e_subject i) \<and>
     extensions_new (extensions (e_envelope i)) (rules_version (e_envelope i)) = Ok (extensions (e_envelope i)) \<and>
     require_understood (extensions (e_envelope i)) LEDGER_ENTRY = Ok () \<and>
     m = tag_bytes LEDGER_ENTRY @ u16_be (layout_version (e_envelope i)) @ u32_be (rules_version (e_envelope i)) @
       lp (as_bytes (e_network_id i)) @ lp (as_bytes (e_shard_id i)) @ raw (u64_be (e_seq i)) @ raw (e_event_id i) @
       lp (as_bytes (e_kind i)) @ lp (as_bytes (e_issuer i)) @ lp (as_bytes (e_subject i)) @
       raw (u32_be (e_event_version i)) @ raw (u64_be (e_timestamp_micros i)) @
       raw [hash_algo_id (hash_algo (e_envelope i))] @ raw (e_prev_hash i) @ raw (e_payload_hash i) @
       ext_encode (extensions (e_envelope i))"
  by (auto simp: entry_signing_bytes_def b_finish_Ok builder_ops)

text \<open>Layout injectivity of the ledger entry: two well-formed entries whose signing bytes
  agree are the same entry in every field, the envelope and its extensions included. No field
  can shift the boundary of another.\<close>

theorem entry_signing_bytes_inject:
  assumes "wf_entry a" and "wf_entry b"
    and "entry_signing_bytes a = Ok m" and "entry_signing_bytes b = Ok m"
  shows "a = b"
proof -
  have rv: "rules_version (e_envelope a) = 1" "rules_version (e_envelope b) = 1"
    using assms(3,4) by (simp_all add: entry_signing_bytes_Ok check_rules_Ok)
  have "e_network_id a = e_network_id b \<and> e_shard_id a = e_shard_id b \<and> e_seq a = e_seq b \<and>
    e_event_id a = e_event_id b \<and> e_kind a = e_kind b \<and> e_issuer a = e_issuer b \<and>
    e_subject a = e_subject b \<and> e_event_version a = e_event_version b \<and>
    e_timestamp_micros a = e_timestamp_micros b \<and> e_prev_hash a = e_prev_hash b \<and>
    e_payload_hash a = e_payload_hash b \<and> layout_version (e_envelope a) = layout_version (e_envelope b) \<and>
    hash_algo (e_envelope a) = hash_algo (e_envelope b) \<and>
    extensions (e_envelope a) = extensions (e_envelope b)"
    using assms rv unfolding entry_signing_bytes_Ok wf_entry_def
    by (elim conjE) (simp add: layout_eqs hash_algo_id_inject ext_code.enc_eq [of _ 1])
  with rv show ?thesis by (simp add: equality)
qed

text \<open>Witness: a concrete entry has signing bytes, and it is the only well-formed entry with them.\<close>

definition demo_entry :: EntryHashInput where
  "demo_entry = \<lparr>e_network_id = ''testnet'', e_shard_id = ''core'', e_seq = 1, e_prev_hash = replicate 32 0,
     e_event_id = replicate 16 7, e_kind = ''identity.created'', e_issuer = ''identity:a'', e_subject = ''identity:a'',
     e_payload_hash = replicate 32 9, e_timestamp_micros = 1700000000000000, e_event_version = 1,
     e_envelope = envelope_current LEDGER_ENTRY\<rparr>"

theorem entry_signing_bytes_inject_witness:
  "wf_entry demo_entry \<and> (\<exists>m. entry_signing_bytes demo_entry = Ok m \<and>
     {e. wf_entry e \<and> entry_signing_bytes e = Ok m} = {demo_entry})"
proof -
  have wf: "wf_entry demo_entry" by (simp add: demo_entry_def wf_entry_def)
  have "\<exists>m. entry_signing_bytes demo_entry = Ok m" by (simp add: entry_signing_bytes_Ok demo_entry_def)
  then obtain m where m: "entry_signing_bytes demo_entry = Ok m" ..
  have "{e. wf_entry e \<and> entry_signing_bytes e = Ok m} = {demo_entry}"
    using wf m entry_signing_bytes_inject [OF _ wf _ m] by auto
  with wf m show ?thesis by blast
qed

end
