(* ===== verification/Sth.thy ===== *)
theory Sth
  imports Identity_Id Ledger_Entry
begin

text \<open>
  Model of \<open>crates/protocol/src/sth.rs\<close>: the bytes a signed tree head covers, signing, verification
  and the loading of the operator's keys. \<open>std::env::var\<close> is an argument (\<open>None\<close> for an unset
  variable). A \<open>SigningKey\<close> is its seed, a \<open>VerifyingKey\<close> its 32 bytes.
\<close>

section \<open>Definitions\<close>

definition DEFAULT_SIGNING_KEY_ID :: str where
  "DEFAULT_SIGNING_KEY_ID = ''settlement-operator-1''"

record SignedTreeHead =
  sth_tree_size :: i64
  sth_root_hash :: str
  sth_network_id :: str
  sth_signing_key_id :: str
  sth_signature :: str
  sth_created_at :: time
  sth_envelope :: Envelope

datatype SthSigningError = SthInvalidRootHash | SthLayout SigningBytesError

definition signing_message ::
  "crates \<Rightarrow> i64 \<Rightarrow> str \<Rightarrow> str \<Rightarrow> str \<Rightarrow> time \<Rightarrow> Envelope \<Rightarrow> SthSigningError + bytes" where
  "signing_message C tree_size root_hash_hex network_id signing_key_id created_at env =
     rbind (map_err (\<lambda>_. SthInvalidRootHash) (parse_hash C ''root_hash'' root_hash_hex)) (\<lambda>root.
       map_err SthLayout (b_finish (build (b_with_envelope SETTLEMENT_STH env)
         [b_i64 tree_size, b_str network_id, b_str signing_key_id, b_i64 (i64_of (unix_timestamp created_at)),
          b_hash_algo (hash_algo env), b_hash root])))"

definition sign_tree_head_with ::
  "crates \<Rightarrow> bytes \<Rightarrow> str \<Rightarrow> i64 \<Rightarrow> str \<Rightarrow> str \<Rightarrow> time \<Rightarrow> Envelope \<Rightarrow> SthSigningError + SignedTreeHead" where
  "sign_tree_head_with C signing_key signing_key_id tree_size root_hash_hex network_id created_at env =
     rbind (signing_message C tree_size root_hash_hex network_id signing_key_id created_at env) (\<lambda>message.
       Ok \<lparr>sth_tree_size = tree_size, sth_root_hash = root_hash_hex, sth_network_id = network_id,
           sth_signing_key_id = signing_key_id, sth_signature = hex_encode C (ed_sign C signing_key message),
           sth_created_at = created_at, sth_envelope = env\<rparr>)"

definition sign_tree_head ::
  "crates \<Rightarrow> bytes \<Rightarrow> str \<Rightarrow> i64 \<Rightarrow> str \<Rightarrow> str \<Rightarrow> time \<Rightarrow> SthSigningError + SignedTreeHead" where
  "sign_tree_head C signing_key signing_key_id tree_size root_hash_hex network_id created_at =
     sign_tree_head_with C signing_key signing_key_id tree_size root_hash_hex network_id created_at
       (envelope_current SETTLEMENT_STH)"

text \<open>The shared tail of the verifiers: decode the hex signature, require 64 bytes, verify strictly.\<close>

definition verify_hex_signature :: "crates \<Rightarrow> bytes \<Rightarrow> bytes \<Rightarrow> str \<Rightarrow> bool" where
  "verify_hex_signature C key message sig_hex =
     (case Option.bind (hex_decode C sig_hex) (to_array 64) of
        None \<Rightarrow> False | Some sig \<Rightarrow> ed_verify_strict C key message sig)"

definition verify_tree_head :: "crates \<Rightarrow> bytes \<Rightarrow> SignedTreeHead \<Rightarrow> bool" where
  "verify_tree_head C key sth =
     (case signing_message C (sth_tree_size sth) (sth_root_hash sth) (sth_network_id sth)
             (sth_signing_key_id sth) (sth_created_at sth) (sth_envelope sth) of
        Inl _ \<Rightarrow> False
      | Inr message \<Rightarrow> verify_hex_signature C key message (sth_signature sth))"

datatype KeyLoadError = KeyMissing str | KeyInvalidHex str | KeyWrongLength str nat | KeyInvalid str

definition parse_key_bytes :: "crates \<Rightarrow> str \<Rightarrow> str \<Rightarrow> KeyLoadError + bytes" where
  "parse_key_bytes C var_name hex_value =
     rbind (ok_or (KeyInvalidHex var_name) (hex_decode C hex_value)) (\<lambda>bs.
       ok_or (KeyWrongLength var_name (length bs)) (to_array 32 bs))"

definition load_signing_key_from_env :: "crates \<Rightarrow> (str \<Rightarrow> str option) \<Rightarrow> KeyLoadError + bytes \<times> str" where
  "load_signing_key_from_env C env =
     rbind (ok_or (KeyMissing ''AVALON_SETTLEMENT_SIGNING_KEY'') (env ''AVALON_SETTLEMENT_SIGNING_KEY'')) (\<lambda>hex_value.
     rbind (parse_key_bytes C ''AVALON_SETTLEMENT_SIGNING_KEY'' hex_value) (\<lambda>seed.
       Ok (seed, case env ''AVALON_SETTLEMENT_SIGNING_KEY_ID'' of Some i \<Rightarrow> i | None \<Rightarrow> DEFAULT_SIGNING_KEY_ID)))"

definition load_verify_key_from_env :: "crates \<Rightarrow> (str \<Rightarrow> str option) \<Rightarrow> KeyLoadError + bytes" where
  "load_verify_key_from_env C env =
     (case env ''AVALON_SETTLEMENT_VERIFY_KEY'' of
        Some hex_value \<Rightarrow>
          rbind (parse_key_bytes C ''AVALON_SETTLEMENT_VERIFY_KEY'' hex_value) (\<lambda>bs.
            if key_from_bytes_ok C bs then Ok bs else Err (KeyInvalid ''AVALON_SETTLEMENT_VERIFY_KEY''))
      | None \<Rightarrow>
          rbind (map_err (\<lambda>_. KeyMissing ''AVALON_SETTLEMENT_VERIFY_KEY'') (load_signing_key_from_env C env))
            (\<lambda>(seed, _). Ok (verifying_key C seed)))"

section \<open>Facts\<close>

lemma parse_hash_Ok:
  assumes "hex_ok C"
  shows "parse_hash C name text = Ok h \<longleftrightarrow> length h = 32 \<and> text = hex_encode C h"
proof
  assume "parse_hash C name text = Ok h"
  then have t: "length text = 64" "list_all is_lower_hex text" and d: "hex_decode C text = Some h"
    by (auto simp: parse_hash_def split: if_splits)
  obtain b where b: "hex_decode C text = Some b" "hex_encode C b = text" "2 * length b = length text"
    by (rule hex_decode_lower [OF assms t(2)]) (use t(1) in simp)+
  with d t(1) show "length h = 32 \<and> text = hex_encode C h" by simp
next
  assume "length h = 32 \<and> text = hex_encode C h"
  then show "parse_hash C name text = Ok h"
    using assms by (simp add: parse_hash_def length_hex_encode hex_encode_lower hex_roundtrip)
qed

text \<open>The seconds of an instant \<open>OffsetDateTime\<close> can hold fit \<open>i64\<close>.\<close>

lemma i64_unix_inject:
  assumes "in_time_range s" and "in_time_range t"
  shows "i64_of (unix_timestamp s) = i64_of (unix_timestamp t) \<longleftrightarrow> unix_timestamp s = unix_timestamp t"
proof
  have b: "- (2 ^ 63) \<le> unix_timestamp x \<and> unix_timestamp x < 2 ^ 63" if "in_time_range x" for x
    using that by (auto simp: in_time_range_def unix_timestamp_def nanos_per_sec_def)
  assume "i64_of (unix_timestamp s) = i64_of (unix_timestamp t)"
  then have "sint (word_of_int (unix_timestamp s) :: i64) = sint (word_of_int (unix_timestamp t) :: i64)"
    by (simp add: i64_of_def)
  moreover have "sint (word_of_int x :: i64) = x" if "- (2 ^ 63) \<le> x \<and> x < 2 ^ 63" for x
    using that by (simp add: int_word_sint)
  ultimately show "unix_timestamp s = unix_timestamp t" using b assms by metis
qed simp

lemma signing_message_Ok:
  "hex_ok C \<Longrightarrow> signing_message C ts root net kid t env = Ok m \<longleftrightarrow>
    (\<exists>h. length h = 32 \<and> root = hex_encode C h \<and>
     check_layout SETTLEMENT_STH (layout_version env) = Ok () \<and> check_rules (rules_version env) = Ok () \<and>
     fits net \<and> fits kid \<and>
     extensions_new (extensions env) (rules_version env) = Ok (extensions env) \<and>
     require_understood (extensions env) SETTLEMENT_STH = Ok () \<and>
     m = tag_bytes SETTLEMENT_STH @ u16_be (layout_version env) @ u32_be (rules_version env) @
       raw (u64_be ts) @ lp (as_bytes net) @ lp (as_bytes kid) @ raw (u64_be (i64_of (unix_timestamp t))) @
       raw [hash_algo_id (hash_algo env)] @ raw h @ ext_encode (extensions env))"
  by (auto simp: signing_message_def rbind_eq_Inr parse_hash_Ok b_finish_Ok builder_ops)

lemma verify_own_hex_signature:
  assumes "hex_ok C" and "sig_ok C" and "\<not> key_is_weak C (verifying_key C k)"
  shows "verify_hex_signature C (verifying_key C k) m (hex_encode C (ed_sign C k m))"
  using assms by (simp add: verify_hex_signature_def hex_roundtrip to_array_def sig_ok_def)

lemma own_tree_head_verifies:
  assumes "hex_ok C" and "sig_ok C" and "\<not> key_is_weak C (verifying_key C k)"
    and "sign_tree_head_with C k kid ts root net t env = Ok sth"
  shows "verify_tree_head C (verifying_key C k) sth"
  using assms(4) verify_own_hex_signature [OF assms(1-3)]
  by (auto simp: sign_tree_head_with_def verify_tree_head_def rbind_eq_Inr)

text \<open>A tree head signed by the operator verifies under the operator's public key: whenever
  signing succeeds, the head carries what was signed, the verifier rebuilds the same bytes and
  accepts; and a node configured with the signing key alone loads exactly that public key.\<close>

theorem signed_tree_head_verifies:
  assumes "hex_ok C" and "sig_ok C" and "\<not> key_is_weak C (verifying_key C k)"
    and "sign_tree_head_with C k kid ts root net t env = Ok sth"
  shows "verify_tree_head C (verifying_key C k) sth \<and> sth_tree_size sth = ts \<and> sth_root_hash sth = root \<and>
    sth_network_id sth = net \<and> sth_signing_key_id sth = kid \<and>
    (vars ''AVALON_SETTLEMENT_VERIFY_KEY'' = None \<and> load_signing_key_from_env C vars = Ok (k, kid) \<longrightarrow>
       load_verify_key_from_env C vars = Ok (verifying_key C k))"
  using own_tree_head_verifies [OF assms] assms(4)
  by (auto simp: sign_tree_head_with_def rbind_eq_Inr load_verify_key_from_env_def)

text \<open>Witness: a head over a concrete root.\<close>

definition demo_seed :: bytes where "demo_seed = replicate 32 1"

definition demo_root :: "u8 \<Rightarrow> str" where "demo_root b = hex_encode demo_crates (replicate 32 b)"

lemma demo_key: "\<not> key_is_weak demo_crates (verifying_key demo_crates demo_seed)"
  by (simp add: demo_crates_def demo_seed_def pad32_def)

lemma demo_root_message:
  "\<exists>m. signing_message demo_crates ts (demo_root b) ''testnet'' ''op'' 5 (envelope_current SETTLEMENT_STH) = Ok m"
  by (auto simp: signing_message_Ok [OF demo_hex_ok] demo_root_def hex_encode_inject [OF demo_hex_ok])

theorem signed_tree_head_verifies_witness:
  "\<exists>sth. sign_tree_head demo_crates demo_seed ''op'' 3 (demo_root 7) ''testnet'' 5 = Ok sth \<and>
     verify_tree_head demo_crates (verifying_key demo_crates demo_seed) sth"
proof -
  obtain m where m: "signing_message demo_crates 3 (demo_root 7) ''testnet'' ''op'' 5 (envelope_current SETTLEMENT_STH) = Ok m"
    using demo_root_message by blast
  then obtain sth where "sign_tree_head demo_crates demo_seed ''op'' 3 (demo_root 7) ''testnet'' 5 = Ok sth"
    by (simp add: sign_tree_head_def sign_tree_head_with_def)
  then show ?thesis
    using signed_tree_head_verifies [OF demo_hex_ok demo_sig_ok demo_key] by (simp add: sign_tree_head_def)
qed

text \<open>What a tree-head signature covers: two heads with the same signed bytes have the same
  size, root, network, key id, second of creation and envelope, so a signature cannot be moved to
  another root or another network.\<close>

theorem tree_head_message_inject:
  assumes "hex_ok C" and "in_time_range t" and "in_time_range t'"
    and "signing_message C ts root net kid t env = Ok m"
    and "signing_message C ts' root' net' kid' t' env' = Ok m"
  shows "ts = ts' \<and> root = root' \<and> net = net' \<and> kid = kid' \<and> unix_timestamp t = unix_timestamp t' \<and> env = env'"
proof -
  have rv: "rules_version env = 1" "rules_version env' = 1"
    using assms(4,5) by (auto simp: signing_message_Ok [OF assms(1)] check_rules_Ok)
  have "ts = ts' \<and> root = root' \<and> net = net' \<and> kid = kid' \<and>
    i64_of (unix_timestamp t) = i64_of (unix_timestamp t') \<and> layout_version env = layout_version env' \<and>
    hash_algo env = hash_algo env' \<and> extensions env = extensions env'"
    using assms(4,5) rv unfolding signing_message_Ok [OF assms(1)]
    by (elim exE conjE) (simp add: layout_eqs hash_algo_id_inject ext_code.enc_eq [of _ 1])
  with rv i64_unix_inject [OF assms(2,3)] show ?thesis by (simp add: equality)
qed

text \<open>Witness: no other root signs to the bytes of a concrete head.\<close>

theorem tree_head_message_inject_witness:
  "\<exists>m. signing_message demo_crates 3 (demo_root 7) ''testnet'' ''op'' 5 (envelope_current SETTLEMENT_STH) = Ok m \<and>
     {root. signing_message demo_crates 3 root ''testnet'' ''op'' 5 (envelope_current SETTLEMENT_STH) = Ok m} = {demo_root 7}"
proof -
  obtain m where m: "signing_message demo_crates 3 (demo_root 7) ''testnet'' ''op'' 5 (envelope_current SETTLEMENT_STH) = Ok m"
    using demo_root_message by blast
  have t: "in_time_range 5" by (simp add: in_time_range_def nanos_per_sec_def)
  show ?thesis using m tree_head_message_inject [OF demo_hex_ok t t _ m] by blast
qed

end
