(* ===== verification/Witness.thy ===== *)
theory Witness
  imports Sth
begin

text \<open>
  Model of \<open>crates/protocol/src/witness.rs\<close>: witness cosignatures over an author-signed tree head,
  witness announce proofs, the majority threshold and the loading of the witness key.
\<close>

section \<open>Cosignatures\<close>

datatype WitnessSigningError =
  WInvalidRootHash | WInvalidAuthorSignature | WInvalidKeyId | WLayout SigningBytesError

record WitnessCosignature =
  c_tree_size :: i64
  c_root_hash :: str
  c_network_id :: str
  c_author_created_at :: time
  c_author_key_id :: str
  c_author_signature :: str
  c_witness_key_id :: str
  c_observed_at :: time
  c_signature :: str
  c_envelope :: Envelope

definition decode_author_signature :: "crates \<Rightarrow> str \<Rightarrow> WitnessSigningError + bytes" where
  "decode_author_signature C hex_text =
     rbind (ok_or WInvalidAuthorSignature (hex_decode C hex_text)) (\<lambda>bs.
       ok_or WInvalidAuthorSignature (to_array 64 bs))"

definition witness_signing_message :: "crates \<Rightarrow> WitnessCosignature \<Rightarrow> bytes \<Rightarrow> WitnessSigningError + bytes" where
  "witness_signing_message C c witness_key =
     rbind (map_err (\<lambda>_. WInvalidRootHash) (parse_hash C ''root_hash'' (c_root_hash c))) (\<lambda>root.
     rbind (decode_author_signature C (c_author_signature c)) (\<lambda>author_signature.
       map_err WLayout (b_finish (build (b_with_envelope WITNESS_COSIGN (c_envelope c))
         [b_i64 (c_tree_size c), b_str (c_network_id c), b_i64 (i64_of (unix_timestamp (c_author_created_at c))),
          b_str (c_author_key_id c), b_signature author_signature, b_str (c_witness_key_id c), b_key witness_key,
          b_i64 (i64_of (unix_timestamp (c_observed_at c))), b_hash_algo (hash_algo (c_envelope c)), b_hash root]))))"

definition sign_unsigned :: "crates \<Rightarrow> bytes \<Rightarrow> WitnessCosignature \<Rightarrow> WitnessSigningError + WitnessCosignature" where
  "sign_unsigned C k c0 =
     rbind (decode_author_signature C (c_author_signature c0)) (\<lambda>a.
       (let c = c0\<lparr>c_author_signature := hex_encode C a\<rparr> in
        rbind (witness_signing_message C c (verifying_key C k)) (\<lambda>message.
          Ok (c\<lparr>c_signature := hex_encode C (ed_sign C k message)\<rparr>))))"

definition sign_witness_cosignature ::
  "crates \<Rightarrow> bytes \<Rightarrow> str \<Rightarrow> SignedTreeHead \<Rightarrow> time \<Rightarrow> WitnessSigningError + WitnessCosignature" where
  "sign_witness_cosignature C k witness_key_id head observed_at =
     sign_unsigned C k
       \<lparr>c_tree_size = sth_tree_size head, c_root_hash = sth_root_hash head, c_network_id = sth_network_id head,
        c_author_created_at = sth_created_at head, c_author_key_id = sth_signing_key_id head,
        c_author_signature = sth_signature head, c_witness_key_id = witness_key_id, c_observed_at = observed_at,
        c_signature = [],
        c_envelope = (envelope_current WITNESS_COSIGN)\<lparr>hash_algo := hash_algo (sth_envelope head)\<rparr>\<rparr>"

definition reattest_witness_cosignature ::
  "crates \<Rightarrow> bytes \<Rightarrow> str \<Rightarrow> WitnessCosignature \<Rightarrow> time \<Rightarrow> WitnessSigningError + WitnessCosignature" where
  "reattest_witness_cosignature C k witness_key_id existing observed_at =
     sign_unsigned C k (existing\<lparr>c_witness_key_id := witness_key_id, c_observed_at := observed_at, c_signature := []\<rparr>)"

definition verify_witness_cosignature :: "crates \<Rightarrow> bytes \<Rightarrow> WitnessCosignature \<Rightarrow> bool" where
  "verify_witness_cosignature C key c =
     (case witness_signing_message C c key of
        Inl _ \<Rightarrow> False | Inr message \<Rightarrow> verify_hex_signature C key message (c_signature c))"

section \<open>Announce proofs\<close>

definition WITNESS_ANNOUNCE_MAX_SKEW :: duration where
  "WITNESS_ANNOUNCE_MAX_SKEW = 3600 * nanos_per_sec"

definition witness_announce_message :: "crates \<Rightarrow> str \<Rightarrow> str \<Rightarrow> time \<Rightarrow> WitnessSigningError + bytes" where
  "witness_announce_message C base_url witness_key_id announced_at =
     rbind (map_err (\<lambda>_. WInvalidKeyId) (parse_hash C ''witness_key_id'' witness_key_id)) (\<lambda>key.
       map_err WLayout (b_finish (build (b_new WITNESS_ANNOUNCE 1)
         [b_str base_url, b_key key, b_i64 (i64_of (unix_timestamp announced_at))])))"

definition sign_witness_announce :: "crates \<Rightarrow> bytes \<Rightarrow> str \<Rightarrow> time \<Rightarrow> WitnessSigningError + str" where
  "sign_witness_announce C k base_url announced_at =
     rbind (witness_announce_message C base_url (hex_encode C (verifying_key C k)) announced_at) (\<lambda>message.
       Ok (hex_encode C (ed_sign C k message)))"

definition verify_witness_announce :: "crates \<Rightarrow> str \<Rightarrow> str \<Rightarrow> time \<Rightarrow> str \<Rightarrow> time \<Rightarrow> bool" where
  "verify_witness_announce C base_url witness_key_id announced_at proof_hex now =
     (if \<bar>now - announced_at\<bar> > WITNESS_ANNOUNCE_MAX_SKEW then False
      else (case witness_announce_message C base_url witness_key_id announced_at of
          Inl _ \<Rightarrow> False
        | Inr message \<Rightarrow>
            (case Option.bind (hex_decode C witness_key_id) (to_array 32) of
               None \<Rightarrow> False
             | Some key \<Rightarrow> key_from_bytes_ok C key \<and> verify_hex_signature C key message proof_hex)))"

section \<open>Majorities\<close>

definition majority_threshold :: "nat \<Rightarrow> nat" where
  "majority_threshold list_size = (if list_size = 0 then 0 else list_size div 2 + 1)"

definition is_cosigned_by_majority :: "nat \<Rightarrow> nat \<Rightarrow> bool" where
  "is_cosigned_by_majority list_size distinct_witnesses \<longleftrightarrow> distinct_witnesses \<ge> majority_threshold list_size"

definition load_witness_signing_key_from_env :: "crates \<Rightarrow> (str \<Rightarrow> str option) \<Rightarrow> KeyLoadError + bytes \<times> str" where
  "load_witness_signing_key_from_env C env =
     (case env ''AVALON_WITNESS_SIGNING_KEY'' of
        Some v \<Rightarrow>
          rbind (parse_key_bytes C ''AVALON_WITNESS_SIGNING_KEY'' v) (\<lambda>seed.
            Ok (seed, case env ''AVALON_WITNESS_SIGNING_KEY_ID'' of
                        Some i \<Rightarrow> i | None \<Rightarrow> hex_encode C (verifying_key C seed)))
      | None \<Rightarrow>
          rbind (map_err (\<lambda>_. KeyMissing ''AVALON_WITNESS_SIGNING_KEY'') (load_signing_key_from_env C env))
            (\<lambda>(seed, _). Ok (seed, hex_encode C (verifying_key C seed))))"

section \<open>Facts\<close>

lemma decode_author_signature_Ok:
  "decode_author_signature C s = Ok a \<longleftrightarrow> hex_decode C s = Some a \<and> length a = 64"
  by (auto simp: decode_author_signature_def rbind_eq_Inr to_array_def split: if_splits)

lemma witness_signing_message_Ok:
  "hex_ok C \<Longrightarrow> witness_signing_message C c k = Ok m \<longleftrightarrow>
    (\<exists>h a. length h = 32 \<and> c_root_hash c = hex_encode C h \<and> hex_decode C (c_author_signature c) = Some a \<and>
     length a = 64 \<and> check_layout WITNESS_COSIGN (layout_version (c_envelope c)) = Ok () \<and>
     check_rules (rules_version (c_envelope c)) = Ok () \<and>
     fits (c_network_id c) \<and> fits (c_author_key_id c) \<and> fits (c_witness_key_id c) \<and>
     extensions_new (extensions (c_envelope c)) (rules_version (c_envelope c)) = Ok (extensions (c_envelope c)) \<and>
     require_understood (extensions (c_envelope c)) WITNESS_COSIGN = Ok () \<and>
     m = tag_bytes WITNESS_COSIGN @ u16_be (layout_version (c_envelope c)) @ u32_be (rules_version (c_envelope c)) @
       raw (u64_be (c_tree_size c)) @ lp (as_bytes (c_network_id c)) @
       raw (u64_be (i64_of (unix_timestamp (c_author_created_at c)))) @ lp (as_bytes (c_author_key_id c)) @
       raw [1] @ raw a @ lp (as_bytes (c_witness_key_id c)) @ raw [1] @ raw k @
       raw (u64_be (i64_of (unix_timestamp (c_observed_at c)))) @
       raw [hash_algo_id (hash_algo (c_envelope c))] @ raw h @ ext_encode (extensions (c_envelope c)))"
  by (auto simp: witness_signing_message_def rbind_eq_Inr parse_hash_Ok decode_author_signature_Ok b_finish_Ok builder_ops)

lemma sign_unsigned_verifies:
  assumes "hex_ok C" and "sig_ok C" and "\<not> key_is_weak C (verifying_key C k)" and "sign_unsigned C k c0 = Ok c"
  shows "verify_witness_cosignature C (verifying_key C k) c"
proof -
  from assms(4) obtain a m where m: "witness_signing_message C (c0\<lparr>c_author_signature := a\<rparr>) (verifying_key C k) = Ok m"
    and c: "c = c0\<lparr>c_author_signature := a, c_signature := hex_encode C (ed_sign C k m)\<rparr>"
    by (auto simp: sign_unsigned_def rbind_eq_Inr Let_def)
  have "witness_signing_message C c (verifying_key C k) = Ok m"
    using m by (simp add: c witness_signing_message_def)
  then show ?thesis
    using verify_own_hex_signature [OF assms(1-3)] by (simp add: verify_witness_cosignature_def c)
qed

lemma majority_overlap:
  assumes "finite U" and "A \<subseteq> U" and "B \<subseteq> U" and "card U \<le> n" and "0 < n"
    and "is_cosigned_by_majority n (card A)" and "is_cosigned_by_majority n (card B)"
  shows "A \<inter> B \<noteq> {}"
proof
  assume "A \<inter> B = {}"
  moreover have "finite A" "finite B" using assms(1-3) by (auto intro: finite_subset)
  ultimately have "card A + card B \<le> card U"
    using assms(1-3) by (metis card_Un_disjoint card_mono Un_least)
  with assms(4-7) show False by (auto simp: is_cosigned_by_majority_def majority_threshold_def)
qed

section \<open>Properties\<close>

text \<open>A witness's own cosignature verifies: whether made fresh over an author's head or by
  re-attesting an existing cosignature, what signing returns is accepted under the witness's key,
  and a fresh one repeats the head's size, root, network and author key id.\<close>

theorem cosignature_verifies:
  assumes "hex_ok C" and "sig_ok C" and "\<not> key_is_weak C (verifying_key C k)"
    and "sign_witness_cosignature C k wid head t = Ok c" and "reattest_witness_cosignature C k wid c t' = Ok c'"
  shows "verify_witness_cosignature C (verifying_key C k) c \<and> verify_witness_cosignature C (verifying_key C k) c' \<and>
    c_tree_size c = sth_tree_size head \<and> c_root_hash c = sth_root_hash head \<and>
    c_network_id c = sth_network_id head \<and> c_author_key_id c = sth_signing_key_id head \<and>
    c_observed_at c = t \<and> c_observed_at c' = t'"
proof -
  have "verify_witness_cosignature C (verifying_key C k) c" "verify_witness_cosignature C (verifying_key C k) c'"
    using sign_unsigned_verifies [OF assms(1-3)] assms(4,5)
    by (auto simp: sign_witness_cosignature_def reattest_witness_cosignature_def)
  with assms(4,5) show ?thesis
    by (auto simp: sign_witness_cosignature_def reattest_witness_cosignature_def sign_unsigned_def rbind_eq_Inr Let_def)
qed

text \<open>Witness: a concrete head, cosigned and re-attested.\<close>

definition demo_cosig :: WitnessCosignature where
  "demo_cosig = \<lparr>c_tree_size = 3, c_root_hash = demo_root 7, c_network_id = ''testnet'', c_author_created_at = 5,
     c_author_key_id = ''op'', c_author_signature = hex_encode demo_crates (replicate 64 2), c_witness_key_id = ''w1'',
     c_observed_at = 6, c_signature = [], c_envelope = envelope_current WITNESS_COSIGN\<rparr>"

definition demo_head :: SignedTreeHead where
  "demo_head = \<lparr>sth_tree_size = 3, sth_root_hash = demo_root 7, sth_network_id = ''testnet'', sth_signing_key_id = ''op'',
     sth_signature = hex_encode demo_crates (replicate 64 2), sth_created_at = 5,
     sth_envelope = envelope_current SETTLEMENT_STH\<rparr>"

lemma demo_cosig_message: "\<exists>m. witness_signing_message demo_crates (demo_cosig\<lparr>c_observed_at := t, c_signature := s\<rparr>) k = Ok m"
  by (auto simp: witness_signing_message_Ok [OF demo_hex_ok] demo_cosig_def demo_root_def hex_roundtrip [OF demo_hex_ok]
      hex_encode_inject [OF demo_hex_ok])

lemma demo_cosig_sign:
  "\<exists>m. sign_unsigned demo_crates k (demo_cosig\<lparr>c_observed_at := t\<rparr>) =
     Ok (demo_cosig\<lparr>c_observed_at := t, c_signature := hex_encode demo_crates (ed_sign demo_crates k m)\<rparr>)"
proof -
  have "decode_author_signature demo_crates (c_author_signature demo_cosig) = Ok (replicate 64 2)"
    by (simp add: decode_author_signature_Ok demo_cosig_def hex_roundtrip [OF demo_hex_ok])
  moreover obtain m where "witness_signing_message demo_crates (demo_cosig\<lparr>c_observed_at := t, c_signature := []\<rparr>)
      (verifying_key demo_crates k) = Ok m"
    using demo_cosig_message by blast
  ultimately show ?thesis
    by (intro exI [of _ m]) (simp add: sign_unsigned_def demo_cosig_def)
qed

theorem cosignature_verifies_witness:
  "\<exists>c c'. sign_witness_cosignature demo_crates demo_seed ''w1'' demo_head 6 = Ok c \<and>
     reattest_witness_cosignature demo_crates demo_seed ''w1'' c 8 = Ok c' \<and>
     verify_witness_cosignature demo_crates (verifying_key demo_crates demo_seed) c \<and>
     verify_witness_cosignature demo_crates (verifying_key demo_crates demo_seed) c' \<and> c_observed_at c' = 8"
proof -
  have env: "(envelope_current WITNESS_COSIGN)\<lparr>hash_algo := hash_algo (envelope_current SETTLEMENT_STH)\<rparr> =
      envelope_current WITNESS_COSIGN"
    by (simp add: envelope_current_def)
  obtain m where c: "sign_witness_cosignature demo_crates demo_seed ''w1'' demo_head 6 =
      Ok (demo_cosig\<lparr>c_signature := hex_encode demo_crates (ed_sign demo_crates demo_seed m)\<rparr>)"
    using demo_cosig_sign [of demo_seed 6] by (auto simp: sign_witness_cosignature_def demo_head_def demo_cosig_def env)
  obtain c' where c': "reattest_witness_cosignature demo_crates demo_seed ''w1''
      (demo_cosig\<lparr>c_signature := hex_encode demo_crates (ed_sign demo_crates demo_seed m)\<rparr>) 8 = Ok c'"
    using demo_cosig_sign [of demo_seed 8] by (auto simp: reattest_witness_cosignature_def demo_cosig_def)
  from cosignature_verifies [OF demo_hex_ok demo_sig_ok demo_key c c'] c c' show ?thesis by blast
qed

text \<open>What a cosignature covers: equal signed bytes mean the same size, root, network, author
  key id, author signature bytes, witness id, witness key, seconds and envelope; and no author
  tree head ever has the bytes of a cosignature, so a node may use one key for both.\<close>

theorem cosignature_message_inject:
  assumes "hex_ok C" and "length k = 32" and "length k' = 32"
    and "witness_signing_message C c k = Ok m" and "witness_signing_message C c' k' = Ok m"
    and "in_time_range (c_author_created_at c)" and "in_time_range (c_author_created_at c')"
    and "in_time_range (c_observed_at c)" and "in_time_range (c_observed_at c')"
  shows "c_tree_size c = c_tree_size c' \<and> c_root_hash c = c_root_hash c' \<and> c_network_id c = c_network_id c' \<and>
    c_author_key_id c = c_author_key_id c' \<and> c_witness_key_id c = c_witness_key_id c' \<and> k = k' \<and>
    c_envelope c = c_envelope c' \<and>
    unix_timestamp (c_author_created_at c) = unix_timestamp (c_author_created_at c') \<and>
    unix_timestamp (c_observed_at c) = unix_timestamp (c_observed_at c') \<and>
    hex_decode C (c_author_signature c) = hex_decode C (c_author_signature c') \<and>
    signing_message C ts root net kid t env \<noteq> Ok m"
proof -
  have rv: "rules_version (c_envelope c) = 1" "rules_version (c_envelope c') = 1"
    using assms(4,5) by (auto simp: witness_signing_message_Ok [OF assms(1)] check_rules_Ok)
  have "c_tree_size c = c_tree_size c' \<and> c_root_hash c = c_root_hash c' \<and> c_network_id c = c_network_id c' \<and>
    c_author_key_id c = c_author_key_id c' \<and> c_witness_key_id c = c_witness_key_id c' \<and> k = k' \<and>
    layout_version (c_envelope c) = layout_version (c_envelope c') \<and>
    hash_algo (c_envelope c) = hash_algo (c_envelope c') \<and> extensions (c_envelope c) = extensions (c_envelope c') \<and>
    i64_of (unix_timestamp (c_author_created_at c)) = i64_of (unix_timestamp (c_author_created_at c')) \<and>
    i64_of (unix_timestamp (c_observed_at c)) = i64_of (unix_timestamp (c_observed_at c')) \<and>
    hex_decode C (c_author_signature c) = hex_decode C (c_author_signature c')"
    using assms(2-5) rv unfolding witness_signing_message_Ok [OF assms(1)]
    by (elim exE conjE) (simp add: layout_eqs hash_algo_id_inject ext_code.enc_eq [of _ 1])
  moreover have "signing_message C ts root net kid t env \<noteq> Ok m"
    using assms(4) unfolding witness_signing_message_Ok [OF assms(1)] signing_message_Ok [OF assms(1)]
    by (auto dest: tag_bytes_unique)
  ultimately show ?thesis
    using rv by (simp add: equality i64_unix_inject [OF assms(6,7)] i64_unix_inject [OF assms(8,9)])
qed

text \<open>Witness: no other root cosigns to the bytes of a concrete cosignature.\<close>

theorem cosignature_message_inject_witness:
  "\<exists>m. witness_signing_message demo_crates demo_cosig demo_seed = Ok m \<and>
     {root. witness_signing_message demo_crates (demo_cosig\<lparr>c_root_hash := root\<rparr>) demo_seed = Ok m} = {demo_root 7}"
proof -
  have same: "demo_cosig\<lparr>c_observed_at := 6, c_signature := []\<rparr> = demo_cosig"
    "demo_cosig\<lparr>c_root_hash := demo_root 7\<rparr> = demo_cosig" by (simp_all add: demo_cosig_def)
  then obtain m where m: "witness_signing_message demo_crates demo_cosig demo_seed = Ok m"
    using demo_cosig_message [where t = 6 and s = "[]" and k = demo_seed] by auto
  have k: "length demo_seed = 32" by (simp add: demo_seed_def)
  have t: "in_time_range (c_author_created_at demo_cosig)" "in_time_range (c_observed_at demo_cosig)"
    by (simp_all add: in_time_range_def nanos_per_sec_def demo_cosig_def)
  have "root = demo_root 7" if "witness_signing_message demo_crates (demo_cosig\<lparr>c_root_hash := root\<rparr>) demo_seed = Ok m" for root
    using cosignature_message_inject [OF demo_hex_ok k k that m] t by (simp add: demo_cosig_def)
  with m same(2) show ?thesis by auto
qed

text \<open>Announce proofs: what the holder of a witness key signs is accepted for that URL by every
  verifier whose clock is within an hour, and refused by every other one.\<close>

theorem announce_proof_window:
  assumes "hex_ok C" and "sig_ok C" and "\<not> key_is_weak C (verifying_key C k)"
    and "sign_witness_announce C k url t = Ok p"
  shows "verify_witness_announce C url (hex_encode C (verifying_key C k)) t p now \<longleftrightarrow>
    \<bar>now - t\<bar> \<le> 3600 * 1000000000"
  using assms(4) verify_own_hex_signature [OF assms(1-3)] assms(1,2)
  by (auto simp: sign_witness_announce_def verify_witness_announce_def rbind_eq_Inr hex_roundtrip to_array_def
      sig_ok_def WITNESS_ANNOUNCE_MAX_SKEW_def nanos_per_sec_def)

text \<open>Witness: announced at second 5, accepted a minute later and refused two hours later.\<close>

theorem announce_proof_window_witness:
  "\<exists>p. sign_witness_announce demo_crates demo_seed ''https://w.example'' 5 = Ok p \<and>
     verify_witness_announce demo_crates ''https://w.example'' (hex_encode demo_crates (verifying_key demo_crates demo_seed))
       5 p 60000000005 \<and>
     \<not> verify_witness_announce demo_crates ''https://w.example'' (hex_encode demo_crates (verifying_key demo_crates demo_seed))
       5 p 7200000000005"
proof -
  have "length (verifying_key demo_crates demo_seed) = 32" by (simp add: demo_crates_def)
  then have "\<exists>p. sign_witness_announce demo_crates demo_seed ''https://w.example'' 5 = Ok p"
    by (simp add: sign_witness_announce_def witness_announce_message_def rbind_eq_Inr parse_hash_Ok [OF demo_hex_ok]
        hex_encode_inject [OF demo_hex_ok] b_finish_Ok builder_ops)
  then obtain p where p: "sign_witness_announce demo_crates demo_seed ''https://w.example'' 5 = Ok p" ..
  show ?thesis using p announce_proof_window [OF demo_hex_ok demo_sig_ok demo_key p] by (intro exI [of _ p]) simp
qed

end
