(* ===== verification/Cosigned_Sth.thy ===== *)
theory Cosigned_Sth
  imports Witness "HOL-Library.List_Lexorder" "HOL-Library.Char_ord"
begin

text \<open>
  Model of \<open>crates/protocol/src/cosigned_sth.rs\<close>: which witnesses count toward a head's majority, the
  accept decision, and the equivocation proof. A \<open>BTreeSet\<close> is a set; collecting it into a \<open>Vec\<close>
  lists it in ascending order.
\<close>

section \<open>Definitions\<close>

record CosignedTreeHead =
  head_sth :: SignedTreeHead
  cosignatures :: "WitnessCosignature list"

type_synonym known_keys = "(str \<times> bytes) list"

text \<open>One iteration of the cosignature loop reaches its \<open>insert\<close>.\<close>

definition cosig_counts ::
  "crates \<Rightarrow> CosignedTreeHead \<Rightarrow> known_keys \<Rightarrow> time \<Rightarrow> time \<Rightarrow> WitnessCosignature \<Rightarrow> bool" where
  "cosig_counts C head known_list freshness_cutoff now cosig =
     (let sth = head_sth head in
      if c_tree_size cosig \<noteq> sth_tree_size sth \<or> c_root_hash cosig \<noteq> sth_root_hash sth \<or>
         c_network_id cosig \<noteq> sth_network_id sth \<or> c_author_created_at cosig \<noteq> sth_created_at sth \<or>
         hash_algo (c_envelope cosig) \<noteq> hash_algo (sth_envelope sth) \<or>
         c_author_key_id cosig \<noteq> sth_signing_key_id sth \<or>
         \<not> eq_ignore_ascii_case (c_author_signature cosig) (sth_signature sth)
      then False
      else if c_observed_at cosig < freshness_cutoff \<or> c_observed_at cosig > now then False
      else (case find (\<lambda>kv. fst kv = c_witness_key_id cosig) known_list of
              None \<Rightarrow> False
            | Some kv \<Rightarrow> verify_witness_cosignature C (snd kv) cosig))"

definition valid_fresh_witness_ids ::
  "crates \<Rightarrow> bytes \<Rightarrow> CosignedTreeHead \<Rightarrow> known_keys \<Rightarrow> time \<Rightarrow> time \<Rightarrow> str set" where
  "valid_fresh_witness_ids C author head known_list freshness_cutoff now =
     set (map fst (filter (\<lambda>kv. snd kv = author) known_list)) \<union>
     set (map c_witness_key_id (filter (cosig_counts C head known_list freshness_cutoff now) (cosignatures head)))"

definition verify_cosigned_tree_head ::
  "crates \<Rightarrow> bytes \<Rightarrow> CosignedTreeHead \<Rightarrow> known_keys \<Rightarrow> time \<Rightarrow> time \<Rightarrow> bool" where
  "verify_cosigned_tree_head C author head known_list freshness_cutoff now =
     (if \<not> verify_tree_head C author (head_sth head) then False
      else if length known_list \<le> 1 then True
      else is_cosigned_by_majority (length known_list)
             (card (valid_fresh_witness_ids C author head known_list freshness_cutoff now)))"

definition find_equivocating_witnesses ::
  "crates \<Rightarrow> bytes \<Rightarrow> known_keys \<Rightarrow> time \<Rightarrow> time \<Rightarrow> CosignedTreeHead \<Rightarrow> CosignedTreeHead \<Rightarrow> str list" where
  "find_equivocating_witnesses C author known_list freshness_cutoff now head_a head_b =
     (if sth_network_id (head_sth head_a) \<noteq> sth_network_id (head_sth head_b) \<or>
         sth_tree_size (head_sth head_a) \<noteq> sth_tree_size (head_sth head_b) \<or>
         sth_root_hash (head_sth head_a) = sth_root_hash (head_sth head_b) then []
      else if \<not> verify_cosigned_tree_head C author head_a known_list freshness_cutoff now \<or>
              \<not> verify_cosigned_tree_head C author head_b known_list freshness_cutoff now then []
      else sorted_list_of_set
        (valid_fresh_witness_ids C author head_a known_list freshness_cutoff now \<inter>
         valid_fresh_witness_ids C author head_b known_list freshness_cutoff now))"

section \<open>Facts\<close>

lemma cosig_counts_known:
  assumes "cosig_counts C head kl cutoff now c"
  shows "\<exists>key. (c_witness_key_id c, key) \<in> set kl \<and> verify_witness_cosignature C key c \<and>
    c_root_hash c = sth_root_hash (head_sth head) \<and> c_tree_size c = sth_tree_size (head_sth head) \<and>
    c_network_id c = sth_network_id (head_sth head) \<and> cutoff \<le> c_observed_at c \<and> c_observed_at c \<le> now"
proof -
  from assms obtain kv where kv: "find (\<lambda>kv. fst kv = c_witness_key_id c) kl = Some kv"
    and v: "verify_witness_cosignature C (snd kv) c"
    and same: "c_root_hash c = sth_root_hash (head_sth head)" "c_tree_size c = sth_tree_size (head_sth head)"
      "c_network_id c = sth_network_id (head_sth head)" "cutoff \<le> c_observed_at c" "c_observed_at c \<le> now"
    by (auto simp: cosig_counts_def Let_def split: if_splits option.splits)
  from find_in_set [OF kv] have "(c_witness_key_id c, snd kv) \<in> set kl" by (metis prod.collapse)
  with v same show ?thesis by blast
qed

lemma valid_ids_known: "valid_fresh_witness_ids C author head kl cutoff now \<subseteq> fst ` set kl"
  by (force simp: valid_fresh_witness_ids_def dest!: cosig_counts_known)

lemma valid_ids_finite: "finite (valid_fresh_witness_ids C author head kl cutoff now)"
  by (simp add: valid_fresh_witness_ids_def)

lemma valid_id_reason:
  assumes "w \<in> valid_fresh_witness_ids C author head kl cutoff now"
  shows "(w, author) \<in> set kl \<or>
    (\<exists>c\<in>set (cosignatures head). cosig_counts C head kl cutoff now c \<and> c_witness_key_id c = w)"
  using assms by (auto simp: valid_fresh_witness_ids_def)

lemma cards_known: "card (fst ` set kl) \<le> length (kl :: ('a \<times> 'b) list)"
  using card_image_le [of "set kl" fst] card_length [of kl] by simp

section \<open>Properties\<close>

text \<open>C8. With a known list of two or more witnesses equivocation is exposed: when two heads of one network and
  one size with different roots are both accepted against such a list, the equivocation proof is
  not empty, and every witness it names either holds the author's own key or has a valid, fresh
  cosignature on both roots.\<close>

theorem accepted_fork_names_witness:
  assumes "2 \<le> length kl"
    and "sth_network_id (head_sth a) = sth_network_id (head_sth b)"
    and "sth_tree_size (head_sth a) = sth_tree_size (head_sth b)"
    and "sth_root_hash (head_sth a) \<noteq> sth_root_hash (head_sth b)"
    and "verify_cosigned_tree_head C author a kl cutoff now"
    and "verify_cosigned_tree_head C author b kl cutoff now"
  shows "find_equivocating_witnesses C author kl cutoff now a b \<noteq> [] \<and>
    (\<forall>w\<in>set (find_equivocating_witnesses C author kl cutoff now a b).
       (w, author) \<in> set kl \<or>
       (\<exists>ca\<in>set (cosignatures a). \<exists>cb\<in>set (cosignatures b). \<exists>ka kb.
          c_witness_key_id ca = w \<and> c_witness_key_id cb = w \<and> (w, ka) \<in> set kl \<and> (w, kb) \<in> set kl \<and>
          verify_witness_cosignature C ka ca \<and> verify_witness_cosignature C kb cb \<and>
          c_root_hash ca = sth_root_hash (head_sth a) \<and> c_root_hash cb = sth_root_hash (head_sth b)))"
proof -
  let ?A = "valid_fresh_witness_ids C author a kl cutoff now" and ?B = "valid_fresh_witness_ids C author b kl cutoff now"
  have eq: "find_equivocating_witnesses C author kl cutoff now a b = sorted_list_of_set (?A \<inter> ?B)"
    using assms by (simp add: find_equivocating_witnesses_def)
  have maj: "is_cosigned_by_majority (length kl) (card ?A)" "is_cosigned_by_majority (length kl) (card ?B)"
    using assms(1,5,6) by (auto simp: verify_cosigned_tree_head_def split: if_splits)
  have "0 < length kl" using assms(1) by linarith
  then have ne: "?A \<inter> ?B \<noteq> {}"
    by (rule majority_overlap [OF finite_imageI [OF finite_set] valid_ids_known valid_ids_known cards_known _ maj])
  have fin: "finite (?A \<inter> ?B)" by (simp add: valid_ids_finite)
  have reason: "(w, author) \<in> set kl \<or>
      (\<exists>ca\<in>set (cosignatures a). \<exists>cb\<in>set (cosignatures b). \<exists>ka kb.
          c_witness_key_id ca = w \<and> c_witness_key_id cb = w \<and> (w, ka) \<in> set kl \<and> (w, kb) \<in> set kl \<and>
          verify_witness_cosignature C ka ca \<and> verify_witness_cosignature C kb cb \<and>
          c_root_hash ca = sth_root_hash (head_sth a) \<and> c_root_hash cb = sth_root_hash (head_sth b))"
    if "w \<in> ?A" "w \<in> ?B" for w
    using valid_id_reason [OF that(1)] valid_id_reason [OF that(2)] cosig_counts_known by metis
  show ?thesis using eq ne fin reason by simp
qed

text \<open>Witness: an author that signed two roots at one size, on a list where its key stands under both ids.\<close>

definition demo_author_head :: "u8 \<Rightarrow> CosignedTreeHead" where
  "demo_author_head b = \<lparr>head_sth = (case sign_tree_head demo_crates demo_seed ''op'' 3 (demo_root b) ''testnet'' 5 of
       Inr sth \<Rightarrow> sth | Inl _ \<Rightarrow> demo_head), cosignatures = []\<rparr>"

definition demo_known :: known_keys where
  "demo_known = [(''w1'', verifying_key demo_crates demo_seed), (''w2'', verifying_key demo_crates demo_seed)]"

lemma demo_author_head_fields:
  "sth_network_id (head_sth (demo_author_head b)) = ''testnet''" "sth_tree_size (head_sth (demo_author_head b)) = 3"
  "sth_root_hash (head_sth (demo_author_head b)) = demo_root b"
  "verify_tree_head demo_crates (verifying_key demo_crates demo_seed) (head_sth (demo_author_head b))"
proof -
  obtain m where m: "signing_message demo_crates 3 (demo_root b) ''testnet'' ''op'' 5 (envelope_current SETTLEMENT_STH) = Ok m"
    using demo_root_message by blast
  then obtain sth where sth: "sign_tree_head demo_crates demo_seed ''op'' 3 (demo_root b) ''testnet'' 5 = Ok sth"
    by (simp add: sign_tree_head_def sign_tree_head_with_def)
  then have h: "head_sth (demo_author_head b) = sth" by (simp add: demo_author_head_def)
  from sth m show "sth_network_id (head_sth (demo_author_head b)) = ''testnet''"
    "sth_tree_size (head_sth (demo_author_head b)) = 3" "sth_root_hash (head_sth (demo_author_head b)) = demo_root b"
    by (auto simp: h sign_tree_head_def sign_tree_head_with_def)
  show "verify_tree_head demo_crates (verifying_key demo_crates demo_seed) (head_sth (demo_author_head b))"
    using own_tree_head_verifies [OF demo_hex_ok demo_sig_ok demo_key] sth by (simp add: h sign_tree_head_def)
qed

theorem accepted_fork_names_witness_witness:
  "verify_cosigned_tree_head demo_crates (verifying_key demo_crates demo_seed) (demo_author_head 7) demo_known 0 9 \<and>
   verify_cosigned_tree_head demo_crates (verifying_key demo_crates demo_seed) (demo_author_head 8) demo_known 0 9 \<and>
   find_equivocating_witnesses demo_crates (verifying_key demo_crates demo_seed) demo_known 0 9
     (demo_author_head 7) (demo_author_head 8) \<noteq> []"
proof -
  have v: "verify_cosigned_tree_head demo_crates (verifying_key demo_crates demo_seed) (demo_author_head b) demo_known 0 9" for b
    by (simp add: verify_cosigned_tree_head_def demo_author_head_fields demo_known_def valid_fresh_witness_ids_def
        is_cosigned_by_majority_def majority_threshold_def) (simp add: demo_author_head_def)
  have l: "2 \<le> length demo_known" by (simp add: demo_known_def)
  have r: "demo_root 7 \<noteq> demo_root 8" by (simp add: demo_root_def hex_encode_inject [OF demo_hex_ok])
  show ?thesis using accepted_fork_names_witness [OF l _ _ _ v v, of 7 8] v r by (simp add: demo_author_head_fields)
qed

text \<open>Acceptance needs the author's signature and, on a list of two or more, valid and fresh
  backing by more than half of the list: repeating a cosignature, a stale or future one, one of an
  unknown witness or one for another head never adds to the count. On a list of at most one witness
  the decision is exactly the plain tree-head check.\<close>

theorem cosigned_acceptance:
  "(length kl \<le> 1 \<longrightarrow> verify_cosigned_tree_head C author head kl cutoff now = verify_tree_head C author (head_sth head)) \<and>
   (2 \<le> length kl \<longrightarrow> verify_cosigned_tree_head C author head kl cutoff now =
      (verify_tree_head C author (head_sth head) \<and>
       length kl < 2 * card {w. (w, author) \<in> set kl \<or>
         (\<exists>c\<in>set (cosignatures head). c_witness_key_id c = w \<and> cosig_counts C head kl cutoff now c)}))"
proof -
  have "valid_fresh_witness_ids C author head kl cutoff now = {w. (w, author) \<in> set kl \<or>
      (\<exists>c\<in>set (cosignatures head). c_witness_key_id c = w \<and> cosig_counts C head kl cutoff now c)}"
    by (force simp: valid_fresh_witness_ids_def)
  moreover have "majority_threshold n \<le> k \<longleftrightarrow> n < 2 * k" if "2 \<le> n" for n k
    using that by (auto simp: majority_threshold_def)
  ultimately show ?thesis
    by (simp add: verify_cosigned_tree_head_def is_cosigned_by_majority_def)
qed

text \<open>Witness: without cosignatures, a list of two other witnesses refuses the head that a list of one accepts.\<close>

theorem cosigned_acceptance_witness:
  "verify_cosigned_tree_head demo_crates (verifying_key demo_crates demo_seed) (demo_author_head 7) [(''w1'', [3])] 0 9 \<and>
   \<not> verify_cosigned_tree_head demo_crates (verifying_key demo_crates demo_seed) (demo_author_head 7)
      [(''w1'', [3]), (''w2'', [4])] 0 9"
proof -
  have "length (verifying_key demo_crates demo_seed) = 32" by (simp add: demo_crates_def)
  then have "verifying_key demo_crates demo_seed \<noteq> [3]" "verifying_key demo_crates demo_seed \<noteq> [4]" by auto
  moreover have "cosignatures (demo_author_head 7) = []" by (simp add: demo_author_head_def)
  ultimately show ?thesis
    using cosigned_acceptance [of "[(''w1'', [3])]" demo_crates "verifying_key demo_crates demo_seed" "demo_author_head 7" 0 9]
      cosigned_acceptance [of "[(''w1'', [3]), (''w2'', [4])]" demo_crates "verifying_key demo_crates demo_seed" "demo_author_head 7" 0 9]
    by (simp add: demo_author_head_fields)
qed

end
