(* ===== verification/Identity_Chain_Wire.thy ===== *)
theory Identity_Chain_Wire
  imports Identity_Id Ledger_Entry
begin

text \<open>
  Model of the replay side of \<open>crates/protocol/src/identity_chain_wire.rs\<close>: which identity's chain an
  event belongs to, how its hash text and timestamp are read, and the recovery-aware replay. A
  \<open>GlobalId\<close> is its string; a \<open>BTreeSet\<close> of hashes is a set of hashes, given as a list.
\<close>

section \<open>Owner and authority\<close>

text \<open>\<open>splitn(4, ':')\<close>: at most four parts, the last one unsplit.\<close>

fun splitn :: "nat \<Rightarrow> char \<Rightarrow> str \<Rightarrow> str list" where
  "splitn 0 d s = []"
| "splitn (Suc 0) d s = [s]"
| "splitn (Suc (Suc n)) d s = (case split_once d s of None \<Rightarrow> [s] | Some (a, b) \<Rightarrow> a # splitn (Suc n) d b)"

definition global_id_new :: "str \<Rightarrow> str \<Rightarrow> str \<Rightarrow> str \<Rightarrow> str" where
  "global_id_new namespace owner kind key = namespace @ '':'' @ owner @ '':'' @ kind @ '':'' @ key"

record ProtocolEventHead =
  ev_kind :: str
  ev_issuer :: str
  ev_subject :: str

definition chain_owner :: "crates \<Rightarrow> 'z ProtocolEventHead_scheme \<Rightarrow> bytes option" where
  "chain_owner C event =
     Option.bind (classify (kind_from_str (ev_kind event))) (\<lambda>_.
     (let ident = (if ev_kind event = ''identity.recovery_approved'' \<or> ev_kind event = ''identity.recovery_cancelled''
                   then ev_subject event else ev_issuer event)
      in (case splitn 4 (CHR '':'') ident of
            namespace # owner # _ \<Rightarrow>
              if namespace = ''identity'' then result_ok (identity_id_parse C owner) else None
          | _ \<Rightarrow> None)))"

definition authority_of :: "str \<Rightarrow> EventAuthority" where
  "authority_of kind =
     (if kind = ''identity.signing_key_added'' \<or> kind = ''identity.signing_key_revoked''
      then OwnerSigned else AuthenticatedSession)"

definition truncate_to_micros :: "time \<Rightarrow> time" where
  "truncate_to_micros ts = (case floor_to_micros ts of Inr t \<Rightarrow> t | Inl _ \<Rightarrow> ts)"

definition wire_parse_hash :: "crates \<Rightarrow> str \<Rightarrow> bytes option" where
  "wire_parse_hash C hex_str = Option.bind (hex_decode C hex_str) (to_array 32)"

section \<open>Recovery-aware replay\<close>

definition resolvers_at :: "bytes list \<Rightarrow> u64 \<Rightarrow> bytes option \<Rightarrow> ChainedEvent list \<Rightarrow> bytes list" where
  "resolvers_at recovery_hashes fork_seq head events =
     map event_hash (filter (\<lambda>e. seq e = fork_seq \<and> prev_hash e = head \<and> event_hash e \<in> set recovery_hashes) events)"

definition retain_winner :: "u64 \<Rightarrow> bytes option \<Rightarrow> bytes \<Rightarrow> ChainedEvent list \<Rightarrow> ChainedEvent list" where
  "retain_winner fork_seq head winner events =
     filter (\<lambda>e. \<not> (seq e = fork_seq \<and> prev_hash e = head \<and> event_hash e \<noteq> winner)) events"

text \<open>The \<open>loop\<close>, as a partial function: \<open>None\<close> is a panic or a loop that does not end.\<close>

partial_function (option) resolve_identity_chain :: "ChainedEvent list \<Rightarrow> bytes list \<Rightarrow> ChainOutcome option" where
  [code]: "resolve_identity_chain events recovery_hashes =
     (case apply_chain events of
        None \<Rightarrow> None
      | Some outcome \<Rightarrow>
          (case forked_at outcome of
             None \<Rightarrow> Some outcome
           | Some fork_seq \<Rightarrow>
               (let head = map_option event_hash (chain_head outcome) in
                case resolvers_at recovery_hashes fork_seq head events of
                  [winner] \<Rightarrow> resolve_identity_chain (retain_winner fork_seq head winner events) recovery_hashes
                | _ \<Rightarrow> Some outcome)))"

section \<open>Facts\<close>

lemma chain_head_hash: "map_option event_hash (chain_head out) = head_of (accepted out)"
  by (simp add: chain_head_def head_of_def)

text \<open>The retained events at the fork: the winner alone.\<close>

lemma resolvers_single:
  assumes "resolvers_at rh f h es = [w]"
  shows "w \<in> set rh" and "\<exists>e. filter (extends f h) (retain_winner f h w es) = [e] \<and> event_hash e = w"
proof -
  let ?P = "\<lambda>e. seq e = f \<and> prev_hash e = h \<and> event_hash e \<in> set rh"
  from assms obtain e where e: "filter ?P es = [e]" "event_hash e = w"
    by (auto simp: resolvers_at_def)
  then have "e \<in> set (filter ?P es)" by simp
  with e(2) show w: "w \<in> set rh" by auto
  have "filter (extends f h) (retain_winner f h w es) = filter (\<lambda>x. extends f h x \<and> event_hash x = w) es"
    unfolding retain_winner_def filter_filter by (intro filter_cong) (auto simp: extends_def)
  also have "\<dots> = filter (\<lambda>x. event_hash x = w) (filter ?P es)"
    unfolding filter_filter using w by (intro filter_cong) (auto simp: extends_def)
  finally show "\<exists>e. filter (extends f h) (retain_winner f h w es) = [e] \<and> event_hash e = w" using e by simp
qed

lemma retain_fewer:
  assumes "resolvers_at rh f h es = [w]" and "2 \<le> length (filter (extends f h) es)"
  shows "length (retain_winner f h w es) < length es"
proof -
  obtain e where e: "filter (extends f h) (retain_winner f h w es) = [e]" using resolvers_single(2) [OF assms(1)] by blast
  have "\<exists>x\<in>set es. seq x = f \<and> prev_hash x = h \<and> event_hash x \<noteq> w"
  proof (rule ccontr)
    assume "\<not> ?thesis"
    then have "retain_winner f h w es = es" unfolding retain_winner_def by (intro filter_True) blast
    with e assms(2) show False by simp
  qed
  then show ?thesis unfolding retain_winner_def by (auto intro!: length_filter_less)
qed

text \<open>The replay of a subset of the input in which the loop has stopped.\<close>

definition recovery_stable :: "bytes list \<Rightarrow> ChainedEvent list \<Rightarrow> ChainOutcome \<Rightarrow> bool" where
  "recovery_stable rh es out \<longleftrightarrow> chain_spec es out \<and>
     (\<forall>f. forked_at out = Some f \<longrightarrow> length (resolvers_at rh f (head_of (accepted out)) es) \<noteq> 1)"

lemma resolve_ends:
  assumes "length es < 2 ^ 64 - 1"
  shows "\<exists>out kept. resolve_identity_chain es rh = Some out \<and> set kept \<subseteq> set es \<and> recovery_stable rh kept out"
  using assms
proof (induction "length es" arbitrary: es rule: less_induct)
  case less
  obtain out where out: "apply_chain es = Some out" "chain_spec es out" using apply_chain_spec [OF less.prems] by blast
  note unfold = resolve_identity_chain.simps [of es rh] out(1) chain_head_hash Let_def
  show ?case
  proof (cases "forked_at out")
    case None
    then show ?thesis using out by (auto simp: unfold recovery_stable_def)
  next
    case (Some f)
    let ?h = "head_of (accepted out)"
    show ?thesis
    proof (cases "\<exists>w. resolvers_at rh f ?h es = [w]")
      case True
      then obtain w where w: "resolvers_at rh f ?h es = [w]" by blast
      have f: "f = of_nat (Suc (length (accepted out)))" and "2 \<le> length (candidates_after es (accepted out))"
        using out(2) Some by (auto simp: chain_spec_def resolve_conflict_Forked)
      then have fewer: "length (retain_winner f ?h w es) < length es"
        by (intro retain_fewer [OF w]) (simp add: candidates_after_def)
      have "length (retain_winner f ?h w es) < 2 ^ 64 - 1" using fewer less.prems by linarith
      from less.hyps [OF fewer this] obtain out' kept where
        "resolve_identity_chain (retain_winner f ?h w es) rh = Some out'"
        and "set kept \<subseteq> set (retain_winner f ?h w es)" and "recovery_stable rh kept out'" by blast
      then show ?thesis using w Some by (auto simp: unfold retain_winner_def)
    next
      case False
      then have "resolve_identity_chain es rh = Some out"
        using Some by (auto simp: unfold split: list.splits)
      moreover have "recovery_stable rh es out" using False out(2) Some
        by (auto simp: recovery_stable_def length_Suc_conv)
      ultimately show ?thesis by blast
    qed
  qed
qed

lemma resolve_one_step:
  assumes "apply_chain es = Some out" and "forked_at out = Some f"
    and "resolvers_at rh f (head_of (accepted out)) es = [w]"
  shows "resolve_identity_chain es rh = resolve_identity_chain (retain_winner f (head_of (accepted out)) w es) rh"
  by (subst resolve_identity_chain.simps) (simp add: assms chain_head_hash Let_def)

text \<open>A history that resolves position by position is a prefix of what the replay accepts.\<close>

lemma chain_spec_extends:
  assumes spec: "chain_spec es out"
  shows "\<forall>i < length B. resolve_conflict (candidates_after es (take i B)) = Some (Resolved (B ! i)) \<Longrightarrow>
    length B \<le> length (accepted out) \<and> take (length B) (accepted out) = B"
proof (induction B rule: rev_induct)
  case (snoc b B)
  have "\<forall>i < length B. resolve_conflict (candidates_after es (take i B)) = Some (Resolved (B ! i))"
    using snoc.prems by (auto simp: less_Suc_eq nth_append)
  with snoc.IH have ih: "length B \<le> length (accepted out)" "take (length B) (accepted out) = B" by auto
  have r: "resolve_conflict (candidates_after es B) = Some (Resolved b)"
    using snoc.prems [rule_format, of "length B"] by simp
  have lt: "length B < length (accepted out)"
  proof (rule ccontr)
    assume "\<not> ?thesis"
    then have "accepted out = B" using ih by simp
    with spec r show False by (auto simp: chain_spec_def resolve_conflict_def split: option.splits)
  qed
  then have "resolve_conflict (candidates_after es B) = Some (Resolved (accepted out ! length B))"
    using spec ih(2) by (metis chain_spec_def)
  with r lt ih(2) show ?case by (simp add: take_Suc_conv_app_nth)
qed simp

lemma retain_keeps_earlier:
  assumes "i < n" and "n < 2 ^ 64 - 1" and "length A = i" and "f = of_nat (Suc n)"
  shows "candidates_after (retain_winner f h w es) A = candidates_after es A"
proof -
  have "(of_nat (Suc i) :: u64) \<noteq> f" using assms of_nat_u64_inject [of "Suc i" "Suc n"] by simp
  then show ?thesis
    unfolding candidates_after_def retain_winner_def filter_filter assms(3)
    by (intro filter_cong) (auto simp: extends_def)
qed

lemma retain_length: "length (retain_winner f h w es) \<le> length es"
  by (simp add: retain_winner_def)

text \<open>One retention keeps the history before the fork and puts the winner at the fork.\<close>

lemma retained_replay:
  assumes small: "length es < 2 ^ 64 - 1" and out: "apply_chain es = Some out" and f: "forked_at out = Some f"
    and w: "resolvers_at rh f (head_of (accepted out)) es = [w]"
    and out': "apply_chain (retain_winner f (head_of (accepted out)) w es) = Some out'"
  shows "\<exists>e. event_hash e = w \<and> length (accepted out) < length (accepted out') \<and>
    take (Suc (length (accepted out))) (accepted out') = accepted out @ [e]"
proof -
  let ?A = "accepted out" and ?h = "head_of (accepted out)"
  let ?es = "retain_winner f ?h w es"
  have spec: "chain_spec es out" and len: "length ?A \<le> length es"
    using apply_chain_spec [OF small] out by auto
  have f': "f = of_nat (Suc (length ?A))" using spec f by (simp add: chain_spec_def)
  have spec': "chain_spec ?es out'"
    using out' le_less_trans [OF retain_length small] by (simp only: apply_chain_iff)
  obtain e where e: "candidates_after ?es ?A = [e]" "event_hash e = w"
    using resolvers_single(2) [OF w] by (auto simp: candidates_after_def f' simp del: of_nat_Suc)
  have "candidates_after ?es (take i ?A) = candidates_after es (take i ?A)" if "i < length ?A" for i
    by (rule retain_keeps_earlier [OF that _ _ f']) (use that len small in auto)
  then have "\<forall>i < length (?A @ [e]). resolve_conflict (candidates_after ?es (take i (?A @ [e]))) = Some (Resolved ((?A @ [e]) ! i))"
    using spec e(1) by (auto simp: chain_spec_def less_Suc_eq nth_append)
  from chain_spec_extends [OF spec' this] e(2) show ?thesis by auto
qed

lemma resolve_keeps_history:
  assumes "length es < 2 ^ 64 - 1" and "apply_chain es = Some out" and "resolve_identity_chain es rh = Some final"
  shows "take (length (accepted out)) (accepted final) = accepted out \<and> length (accepted out) \<le> length (accepted final)"
  using assms
proof (induction "length es" arbitrary: es out rule: less_induct)
  case less
  note unfold = resolve_identity_chain.simps [of es rh] less.prems(2) chain_head_hash Let_def
  have spec: "chain_spec es out" using less.prems by (simp add: apply_chain_iff)
  show ?case
  proof (cases "\<exists>f w. forked_at out = Some f \<and> resolvers_at rh f (head_of (accepted out)) es = [w]")
    case True
    then obtain f w where f: "forked_at out = Some f" and w: "resolvers_at rh f (head_of (accepted out)) es = [w]" by blast
    let ?es = "retain_winner f (head_of (accepted out)) w es"
    have "2 \<le> length (candidates_after es (accepted out))" and "f = of_nat (Suc (length (accepted out)))"
      using spec f by (auto simp: chain_spec_def resolve_conflict_Forked)
    then have fewer: "length ?es < length es" by (intro retain_fewer [OF w]) (simp add: candidates_after_def)
    then have small: "length ?es < 2 ^ 64 - 1" using less.prems(1) by linarith
    obtain out' where out': "apply_chain ?es = Some out'" using apply_chain_spec [OF small] by blast
    have "resolve_identity_chain ?es rh = Some final" using less.prems(3) resolve_one_step [OF less.prems(2) f w] by simp
    note ih = less.hyps [OF fewer small out' this]
    obtain e where e: "length (accepted out) < length (accepted out')"
      "take (Suc (length (accepted out))) (accepted out') = accepted out @ [e]"
      using retained_replay [OF less.prems(1,2) f w out'] by blast
    then have "take (length (accepted out)) (accepted out') = accepted out"
      by (metis append_eq_conv_conj take_take min_def Suc_n_not_le_n nat_le_linear)
    with ih e(1) show ?thesis by (metis take_take min.absorb2 min.commute less_imp_le order_trans)
  next
    case False
    then have "final = out" using less.prems(3) by (auto simp: unfold split: option.splits list.splits)
    then show ?thesis by simp
  qed
qed

section \<open>Properties\<close>

text \<open>C18. The recovery-aware replay always ends, without a panic, and what it returns is the
  declarative outcome of a part of the input in which no fork has exactly one recovery event left.\<close>

theorem resolve_identity_chain_total:
  assumes "length es < 2 ^ 64 - 1"
  shows "\<exists>out kept. resolve_identity_chain es rh = Some out \<and> set kept \<subseteq> set es \<and> chain_spec kept out \<and>
    (\<forall>f. forked_at out = Some f \<longrightarrow> length (resolvers_at rh f (head_of (accepted out)) kept) \<noteq> 1)"
  using resolve_ends [OF assms] by (simp add: recovery_stable_def)

text \<open>Witness: the forked chain of two key additions, with no recovery event.\<close>

theorem resolve_identity_chain_total_witness:
  "\<exists>out kept. resolve_identity_chain demo_fork [] = Some out \<and> set kept \<subseteq> set demo_fork \<and> chain_spec kept out"
proof -
  have "length demo_fork < 2 ^ 64 - 1" by (simp add: demo_fork_def)
  from resolve_identity_chain_total [OF this, of "[]"] show ?thesis by blast
qed

text \<open>C35. Recovery heals a fork without rewriting history: when the plain replay forks and exactly
  one guardian-approved event extends the last unforked head there, the final outcome keeps every
  event accepted before the fork and puts the recovery event at the forked position.\<close>

theorem recovery_wins_fork:
  assumes "length es < 2 ^ 64 - 1" and "apply_chain es = Some out" and "forked_at out = Some f"
    and "resolvers_at rh f (head_of (accepted out)) es = [w]"
  shows "\<exists>final e. resolve_identity_chain es rh = Some final \<and> event_hash e = w \<and> w \<in> set rh \<and>
    take (Suc (length (accepted out))) (accepted final) = accepted out @ [e]"
proof -
  let ?es = "retain_winner f (head_of (accepted out)) w es"
  have small: "length ?es < 2 ^ 64 - 1"
    by (rule le_less_trans [OF retain_length assms(1)])
  obtain out' where out': "apply_chain ?es = Some out'" using apply_chain_spec [OF small] by blast
  obtain e where e: "event_hash e = w" "length (accepted out) < length (accepted out')"
    "take (Suc (length (accepted out))) (accepted out') = accepted out @ [e]"
    using retained_replay [OF assms out'] by blast
  obtain final where final: "resolve_identity_chain ?es rh = Some final" using resolve_ends [OF small] by blast
  have "take (length (accepted out')) (accepted final) = accepted out'"
    using resolve_keeps_history [OF small out' final] by simp
  then have "take (Suc (length (accepted out))) (accepted final) = accepted out @ [e]"
    using e(2,3) by (metis Suc_leI min.absorb1 take_take)
  with final e(1) resolvers_single(1) [OF assms(4)] show ?thesis
    unfolding resolve_one_step [OF assms(2-4)] by blast
qed

text \<open>Witness: one of the two forking events is a guardian-approved recovery.\<close>

theorem recovery_wins_fork_witness:
  "\<exists>final e. resolve_identity_chain demo_fork [replicate 32 5] = Some final \<and> event_hash e = replicate 32 5 \<and>
     take 2 (accepted final) = [demo_first, e]"
proof -
  have len: "length demo_fork < 2 ^ 64 - 1" by (simp add: demo_fork_def)
  have f: "forked_at demo_fork_outcome = Some 2" by (simp add: demo_fork_outcome_def)
  have r: "resolvers_at [replicate 32 5] 2 (head_of (accepted demo_fork_outcome)) demo_fork = [replicate 32 5]"
    by code_simp
  have "accepted demo_fork_outcome = [demo_first]" by (simp add: demo_fork_outcome_def)
  with recovery_wins_fork [OF len demo_fork_replay f r] show ?thesis
    by (simp add: numeral_2_eq_2)
qed

end
