(* ===== verification/F64.thy ===== *)
theory F64
  imports Rust_Str
begin

text \<open>
  The IEEE double as the sources use it: bit patterns, decimal text to the nearest double, and the
  shortest decimal that reads back (what \<open>{:e}\<close> prints). A magnitude is the pattern without its
  sign bit; \<open>mag_units\<close> is its value in units of \<open>2\<close> to the power \<open>-1074\<close>, the smallest subnormal,
  so all arithmetic is on naturals. The value is extended to the pattern of infinity as
  \<open>2\<close> to the power \<open>1024\<close>, which makes overflow an ordinary rounding.
\<close>

section \<open>Definitions\<close>

type_synonym f64 = u64

definition f64_neg :: "f64 \<Rightarrow> bool" where "f64_neg f \<longleftrightarrow> 2 ^ 63 \<le> unat f"
definition f64_mag :: "f64 \<Rightarrow> nat" where "f64_mag f = unat f mod 2 ^ 63"
definition f64_make :: "bool \<Rightarrow> nat \<Rightarrow> f64" where "f64_make neg m = of_nat ((if neg then 2 ^ 63 else 0) + m)"

definition FRAC :: nat where "FRAC = 2 ^ 52"
definition SCALE :: nat where "SCALE = 2 ^ 1074"
definition INF_MAG :: nat where "INF_MAG = 2047 * FRAC"

definition mag_units :: "nat \<Rightarrow> nat" where
  "mag_units m = (if m div FRAC = 0 then m else (FRAC + m mod FRAC) * 2 ^ (m div FRAC - 1))"

definition is_finite :: "f64 \<Rightarrow> bool" where "is_finite f \<longleftrightarrow> f64_mag f < INF_MAG"

text \<open>The greatest pattern whose value is at most \<open>p / q\<close>, by binary search on its 63 bits.\<close>

definition mag_le :: "nat \<Rightarrow> nat \<Rightarrow> nat \<Rightarrow> bool" where
  "mag_le p q m \<longleftrightarrow> m \<le> INF_MAG \<and> mag_units m * q \<le> p * SCALE"

primrec bit_search :: "(nat \<Rightarrow> bool) \<Rightarrow> nat \<Rightarrow> nat \<Rightarrow> nat" where
  "bit_search P 0 acc = acc"
| "bit_search P (Suc i) acc = bit_search P i (if P (acc + 2 ^ i) then acc + 2 ^ i else acc)"

definition round_mag :: "nat \<Rightarrow> nat \<Rightarrow> nat" where
  "round_mag p q =
     (let l = bit_search (mag_le p q) 63 0;
          twice = 2 * p * SCALE;
          middle = (mag_units l + mag_units (Suc l)) * q
      in if l = INF_MAG \<or> twice < middle \<or> (twice = middle \<and> even l) then l else Suc l)"

text \<open>The double nearest to \<open>d * 10 ^ x\<close>.\<close>

definition round_dec :: "nat \<Rightarrow> int \<Rightarrow> nat" where
  "round_dec d x = round_mag (d * 10 ^ nat x) (10 ^ nat (- x))"

text \<open>At exponent \<open>x\<close>, the decimal next to the value that reads back as it, the closer one if both do.\<close>

definition digits_at :: "nat \<Rightarrow> int \<Rightarrow> nat option" where
  "digits_at m x =
     (let a = mag_units m * 10 ^ nat (- x); b = SCALE * 10 ^ nat x;
          lo = a div b; hi = (if a mod b = 0 then lo else Suc lo);
          down = (round_dec lo x = m); up = (round_dec hi x = m)
      in if up \<and> (\<not> down \<or> b \<le> 2 * (a mod b)) then Some hi else if down then Some lo else None)"

definition exact_digits :: "nat \<Rightarrow> nat" where
  "exact_digits m = mag_units m * 5 ^ 1074"

primrec shortest_from :: "nat \<Rightarrow> nat \<Rightarrow> int \<Rightarrow> nat \<times> int" where
  "shortest_from m 0 x = (exact_digits m, -1074)"
| "shortest_from m (Suc n) x =
     (case digits_at m x of Some d \<Rightarrow> (d, x) | None \<Rightarrow> shortest_from m n (x - 1))"

definition shortest :: "nat \<Rightarrow> nat \<times> int" where
  "shortest m = shortest_from m 1383 308"

section \<open>Values grow with patterns\<close>

lemma FRAC_pos [simp]: "0 < FRAC" by (simp add: FRAC_def)
lemma SCALE_pos [simp]: "0 < SCALE" by (simp add: SCALE_def)
lemma SCALE_nonzero [simp]: "SCALE \<noteq> 0" using SCALE_pos by simp

lemma mag_units_Suc: "mag_units m < mag_units (Suc m)"
proof -
  define e r where "e = m div FRAC" and "r = m mod FRAC"
  have r: "r < FRAC" and m: "m = e * FRAC + r" by (simp_all add: e_def r_def)
  have um: "mag_units m = (if e = 0 then r else (FRAC + r) * 2 ^ (e - 1))"
    by (simp add: mag_units_def e_def r_def mod_less div_eq_0_iff)
  show ?thesis
  proof (cases "Suc r < FRAC")
    case True
    have "(e * FRAC + s) div FRAC = e \<and> (e * FRAC + s) mod FRAC = s" if "s < FRAC" for s using that by simp
    from this [OF True] have "Suc m div FRAC = e" "Suc m mod FRAC = Suc r" by (simp_all add: m)
    then have "mag_units (Suc m) = (if e = 0 then Suc m else (FRAC + Suc r) * 2 ^ (e - 1))" by (simp add: mag_units_def)
    moreover have "r \<le> m" by (simp add: r_def)
    ultimately show ?thesis by (simp add: um)
  next
    case False
    with r have s: "Suc r = FRAC" by simp
    then have "Suc m = Suc e * FRAC" by (simp add: m)
    then have "Suc m div FRAC = Suc e" "Suc m mod FRAC = 0" by simp_all
    then have "mag_units (Suc m) = FRAC * 2 ^ e" by (simp add: mag_units_def)
    moreover have "(FRAC + r) * 2 ^ j < FRAC * (2 * 2 ^ j)" for j using r by simp
    ultimately show ?thesis using s r by (cases e) (simp_all add: um)
  qed
qed

lemma mag_units_mono: "mag_units m < mag_units n \<longleftrightarrow> m < n"
  using strict_mono_less [of mag_units] mag_units_Suc strict_mono_Suc_iff by blast

lemma mag_units_le: "mag_units m \<le> mag_units n \<longleftrightarrow> m \<le> n"
  using mag_units_mono [of n m] by (simp add: not_less [symmetric])

lemma mag_units_inject: "mag_units m = mag_units n \<longleftrightarrow> m = n"
  by (metis mag_units_le antisym order_refl)

text \<open>Binary search over a downward closed predicate finds its greatest member below \<open>2 ^ i\<close>.\<close>

lemma bit_search_max:
  assumes "\<And>m n. m \<le> n \<Longrightarrow> P n \<Longrightarrow> P m" and "P acc" and "\<not> P (acc + 2 ^ i)"
  shows "P (bit_search P i acc) \<and> \<not> P (Suc (bit_search P i acc)) \<and> acc \<le> bit_search P i acc"
  using assms(2,3)
proof (induction i arbitrary: acc)
  case (Suc i)
  show ?case
  proof (cases "P (acc + 2 ^ i)")
    case True
    with Suc.IH [of "acc + 2 ^ i"] Suc.prems show ?thesis by (auto simp: mult_2 add.assoc)
  next
    case False
    with Suc.IH [of acc] Suc.prems show ?thesis by simp
  qed
qed simp

lemma lo_props:
  fixes p q :: nat
  assumes "0 < q"
  defines "l \<equiv> bit_search (mag_le p q) 63 0"
  shows "l \<le> INF_MAG" and "mag_units l * q \<le> p * SCALE"
    and "l = INF_MAG \<or> p * SCALE < mag_units (Suc l) * q"
    and "m \<le> INF_MAG \<Longrightarrow> mag_units m * q \<le> p * SCALE \<Longrightarrow> m \<le> l"
proof -
  have down: "mag_le p q n \<Longrightarrow> m \<le> n \<Longrightarrow> mag_le p q m" for m n
    unfolding mag_le_def by (meson mag_units_le mult_le_mono1 order_trans)
  have "\<not> mag_le p q (0 + 2 ^ 63)" by (simp add: mag_le_def INF_MAG_def FRAC_def)
  moreover have "mag_le p q 0" by (simp add: mag_le_def mag_units_def)
  ultimately have l: "mag_le p q l" "\<not> mag_le p q (Suc l)"
    using bit_search_max [of "mag_le p q" 0 63] down unfolding l_def by blast+
  from l(1) show "l \<le> INF_MAG" "mag_units l * q \<le> p * SCALE" by (simp_all add: mag_le_def)
  with l(2) show "l = INF_MAG \<or> p * SCALE < mag_units (Suc l) * q" by (auto simp: mag_le_def not_le)
  show "m \<le> l" if "m \<le> INF_MAG" "mag_units m * q \<le> p * SCALE"
  proof (rule ccontr)
    assume "\<not> m \<le> l"
    with that down [of m "Suc l"] l(2) show False by (simp add: mag_le_def)
  qed
qed

lemma round_mag_ge:
  assumes "0 < q" and "m \<le> INF_MAG" and "mag_units m * q \<le> p * SCALE"
  shows "m \<le> round_mag p q"
  using lo_props(4) [OF assms] by (auto simp: round_mag_def Let_def)

lemma round_mag_exact:
  assumes "0 < q" and "m \<le> INF_MAG" and "mag_units m * q = p * SCALE"
  shows "round_mag p q = m"
proof -
  let ?l = "bit_search (mag_le p q) 63 0"
  have "m \<le> ?l" using lo_props(4) [OF assms(1,2)] assms(3) by simp
  moreover have "mag_units ?l * q \<le> mag_units m * q" using lo_props(2) [OF assms(1), of p] assms(3) by simp
  ultimately have l: "?l = m" using assms(1) mag_units_le [of ?l m] by simp
  have "mag_units m * q < mag_units (Suc m) * q" using mag_units_Suc [of m] assms(1) by simp
  then have "2 * p * SCALE < (mag_units m + mag_units (Suc m)) * q" 
    using assms(3) by (simp only: add_mult_distrib mult_2)
  then show ?thesis by (simp add: round_mag_def Let_def l)
qed

section \<open>The shortest decimal reads back\<close>

lemma scale_ten: "10 ^ k = 5 ^ k * (2 :: nat) ^ k"
  by (simp add: power_mult_distrib [symmetric])

lemma exact_digits_read_back:
  assumes "m \<le> INF_MAG"
  shows "round_dec (exact_digits m) (-1074) = m"
proof -
  have "mag_units m * 10 ^ 1074 = mag_units m * 5 ^ 1074 * SCALE"
    unfolding SCALE_def scale_ten [of 1074] by (simp only: mult.assoc)
  moreover have "nat (- 1074) = 0" "nat (- (- 1074)) = 1074" by simp_all
  moreover have "0 < (10 :: nat) ^ k" for k by simp
  ultimately show ?thesis
    unfolding round_dec_def exact_digits_def by (simp only: power_0 mult_1_right round_mag_exact assms)
qed

lemma digits_at_reads_back: "digits_at m x = Some d \<Longrightarrow> round_dec d x = m"
  by (auto simp: digits_at_def Let_def split: if_splits)

lemma shortest_reads_back:
  assumes "m \<le> INF_MAG" and "shortest m = (d, x)"
  shows "round_dec d x = m"
proof -
  have "round_dec (fst (shortest_from m n y)) (snd (shortest_from m n y)) = m" for n y
    by (induction n arbitrary: y)
      (auto simp: exact_digits_read_back [OF assms(1)] split: option.splits dest: digits_at_reads_back)
  from this [of 1383 308] assms(2) show ?thesis by (simp add: shortest_def)
qed

lemma shortest_from_cases:
  "shortest_from m n y = (d, x) \<Longrightarrow> digits_at m x = Some d \<or> x = -1074"
  by (induction n arbitrary: y) (auto split: option.splits)

lemma shortest_from_ge:
  "digits_at m z \<noteq> None \<Longrightarrow> z \<le> y \<Longrightarrow> y < z + int n \<Longrightarrow> z \<le> snd (shortest_from m n y)"
proof (induction n arbitrary: y)
  case (Suc n)
  show ?case
  proof (cases "digits_at m y")
    case None
    with Suc.prems have "z \<le> y - 1" by (cases "y = z") auto
    with Suc None show ?thesis by simp
  qed (use Suc.prems in simp)
qed simp

section \<open>Integral values\<close>

definition MAX_SAFE_INTEGER :: nat where "MAX_SAFE_INTEGER = 2 ^ 53"

definition mag_integral :: "nat \<Rightarrow> bool" where
  "mag_integral m \<longleftrightarrow> mag_units m mod SCALE = 0"

definition SAFE_MAG :: nat where "SAFE_MAG = 1076 * FRAC"

lemma mag_units_normal:
  assumes "r < FRAC"
  shows "mag_units (Suc e * FRAC + r) = (FRAC + r) * 2 ^ e"
proof -
  have "(n * FRAC + r) div FRAC = n \<and> (n * FRAC + r) mod FRAC = r" for n using assms by simp
  from this [of "Suc e"] have "(Suc e * FRAC + r) div FRAC = Suc e" "(Suc e * FRAC + r) mod FRAC = r" by blast+
  then show ?thesis by (simp only: mag_units_def) simp
qed

lemma power_split: "a + b = c \<Longrightarrow> (2 :: nat) ^ a * 2 ^ b = 2 ^ c"
  by (simp add: power_add [symmetric])

lemma SAFE_MAG_units: "mag_units SAFE_MAG = MAX_SAFE_INTEGER * SCALE"
proof -
  have "mag_units SAFE_MAG = FRAC * 2 ^ 1075"
    using mag_units_normal [of 0 1075] by (simp add: SAFE_MAG_def)
  also have "\<dots> = 2 ^ 1127" unfolding FRAC_def by (rule power_split) simp
  also have "\<dots> = MAX_SAFE_INTEGER * SCALE"
    unfolding MAX_SAFE_INTEGER_def SCALE_def by (rule power_split [symmetric]) simp
  finally show ?thesis .
qed

lemma SAFE_le_INF: "Suc SAFE_MAG \<le> INF_MAG"
  by (simp add: SAFE_MAG_def INF_MAG_def FRAC_def)

lemma int_representable:
  assumes "i \<le> MAX_SAFE_INTEGER"
  shows "\<exists>m \<le> SAFE_MAG. mag_units m = i * SCALE"
proof (cases "i = 0 \<or> i = MAX_SAFE_INTEGER")
  case True
  then show ?thesis using SAFE_MAG_units by (auto simp: mag_units_def intro: exI [of _ 0])
next
  case False
  then have "0 < i" "i < 2 ^ 53" using assms by (auto simp: MAX_SAFE_INTEGER_def)
  obtain k where k: "2 ^ k \<le> i" "i < 2 ^ Suc k"
    using ex_power_ivl1 [of 2 i] \<open>0 < i\<close> by (auto simp: Suc_le_eq)
  then have "(2 :: nat) ^ k < 2 ^ 53" using \<open>i < 2 ^ 53\<close> by linarith
  then have k52: "k \<le> 52" by (simp only: power_strict_increasing_iff [of "2::nat"] one_less_numeral_iff semiring_norm)
  define r where "r = i * 2 ^ (52 - k) - FRAC"
  have "2 ^ k * 2 ^ (52 - k) \<le> i * 2 ^ (52 - k)" "i * 2 ^ (52 - k) < 2 ^ Suc k * 2 ^ (52 - k)"
    using k by (simp_all only: mult_le_mono1 mult_less_cancel2) simp
  moreover have "(2 :: nat) ^ k * 2 ^ (52 - k) = FRAC" "(2 :: nat) ^ Suc k * 2 ^ (52 - k) = 2 * FRAC"
    using k52 power_split [of k "52 - k" 52] by (simp_all add: FRAC_def)
  ultimately have "FRAC \<le> i * 2 ^ (52 - k)" "i * 2 ^ (52 - k) < 2 * FRAC" by (simp_all only:)
  then have r: "r < FRAC" "FRAC + r = i * 2 ^ (52 - k)" unfolding r_def by linarith+
  have "mag_units (Suc (1022 + k) * FRAC + r) = i * (2 ^ (52 - k) * 2 ^ (1022 + k))"
    unfolding mag_units_normal [OF r(1)] r(2) by (simp only: mult.assoc)
  also have "(2 :: nat) ^ (52 - k) * 2 ^ (1022 + k) = SCALE"
    unfolding SCALE_def by (rule power_split) (use k52 in simp)
  finally have "mag_units (Suc (1022 + k) * FRAC + r) = i * SCALE" .
  moreover have "i * SCALE \<le> mag_units SAFE_MAG" using assms by (simp add: SAFE_MAG_units)
  ultimately show ?thesis by (metis mag_units_le)
qed

text \<open>A whole number up to \<open>2 ^ 53\<close> reads as itself; a larger one reads as at least \<open>2 ^ 53\<close>.\<close>

lemma round_int:
  assumes "i \<le> MAX_SAFE_INTEGER" and "mag_units m = i * SCALE"
  shows "round_dec i 0 = m"
proof -
  have "mag_units m \<le> mag_units SAFE_MAG" using assms by (simp add: SAFE_MAG_units)
  then have "m \<le> INF_MAG" using SAFE_le_INF by (simp add: mag_units_le)
  then show ?thesis unfolding round_dec_def by (intro round_mag_exact) (simp_all add: assms)
qed

lemma round_dec_nat: "0 \<le> x \<Longrightarrow> round_dec d x = round_dec (d * 10 ^ nat x) 0"
  by (simp add: round_dec_def)

lemma round_large: "MAX_SAFE_INTEGER \<le> i \<Longrightarrow> SAFE_MAG \<le> round_dec i 0"
  unfolding round_dec_def using SAFE_le_INF by (intro round_mag_ge) (simp_all add: SAFE_MAG_units)

lemma integral_above_safe:
  assumes "SAFE_MAG \<le> m"
  shows "mag_integral m"
proof -
  obtain e where e: "m div FRAC = Suc e" "1075 \<le> e"
  proof (rule that)
    have "1076 \<le> m div FRAC" using div_le_mono [OF assms, of FRAC] by (simp add: SAFE_MAG_def)
    then show "m div FRAC = Suc (m div FRAC - 1)" "1075 \<le> m div FRAC - 1" by linarith+
  qed
  have "(2 :: nat) ^ 1074 * 2 ^ (e - 1074) = 2 ^ e" using e(2) by (intro power_split) simp
  then have "mag_units m = (FRAC + m mod FRAC) * (SCALE * 2 ^ (e - 1074))"
    by (simp only: mag_units_def e SCALE_def) simp
  then have "SCALE dvd mag_units m" by simp
  then show ?thesis by (simp add: mag_integral_def)
qed

section \<open>Shape of the shortest decimal\<close>

lemma whole_reads_exactly:
  assumes "i \<le> MAX_SAFE_INTEGER" and "round_dec i 0 = m"
  shows "mag_units m = i * SCALE"
  using int_representable [OF assms(1)] round_int [OF assms(1)] assms(2) by blast

lemma SAFE_Suc_units: "mag_units (Suc SAFE_MAG) = (MAX_SAFE_INTEGER + 2) * SCALE"
proof -
  have "mag_units (Suc 1075 * FRAC + 1) = (FRAC + 1) * 2 ^ 1075"
    by (rule mag_units_normal) (simp add: FRAC_def)
  moreover have "Suc 1075 * FRAC + 1 = Suc SAFE_MAG" by (simp add: SAFE_MAG_def)
  moreover have "(FRAC + 1) * 2 = MAX_SAFE_INTEGER + 2" by (simp add: FRAC_def MAX_SAFE_INTEGER_def)
  moreover have "(2 :: nat) ^ 1075 = 2 * SCALE"
    unfolding SCALE_def using power_split [of 1 1074 1075] by (simp only: power_one_right)
  ultimately show ?thesis by (simp only: mult.assoc [symmetric])
qed

lemma above_safe_by_ten: "MAX_SAFE_INTEGER < i \<Longrightarrow> 10 dvd i \<Longrightarrow> MAX_SAFE_INTEGER + 2 \<le> i"
  unfolding MAX_SAFE_INTEGER_def by simp presburger

lemma digits_at_whole:
  assumes "mag_units m = i * SCALE" and "i \<le> MAX_SAFE_INTEGER"
  shows "digits_at m 0 = Some i"
  using round_int [OF assms(2,1)] assms(1) by (simp add: digits_at_def Let_def)

lemma shortest_integral:
  assumes units: "mag_units m = i * SCALE" and i: "i \<le> MAX_SAFE_INTEGER" and sh: "shortest m = (d, x)"
  shows "0 \<le> x \<and> d * 10 ^ nat x = i"
proof -
  note at0 = digits_at_whole [OF units i]
  have x: "0 \<le> x" using shortest_from_ge [of m 0 308 1383] at0 sh by (simp add: shortest_def)
  have "mag_units m \<le> mag_units SAFE_MAG" using units i by (simp add: SAFE_MAG_units)
  then have m: "m \<le> SAFE_MAG" by (simp add: mag_units_le)
  then have "round_dec d x = m" using SAFE_le_INF sh by (intro shortest_reads_back) auto
  then have r: "round_dec (d * 10 ^ nat x) 0 = m" using round_dec_nat [OF x] by simp
  have "d * 10 ^ nat x \<le> MAX_SAFE_INTEGER"
  proof (rule ccontr)
    assume "\<not> ?thesis"
    then have big: "MAX_SAFE_INTEGER < d * 10 ^ nat x" by simp
    have "digits_at m x = Some d" using shortest_from_cases [of m 1383 308 d x] sh x by (auto simp: shortest_def)
    with at0 i big have "x \<noteq> 0" by auto
    with x have "10 dvd d * 10 ^ nat x" by simp
    with big have "MAX_SAFE_INTEGER + 2 \<le> d * 10 ^ nat x" by (rule above_safe_by_ten)
    then have "mag_units (Suc SAFE_MAG) * 1 \<le> d * 10 ^ nat x * SCALE" 
      unfolding SAFE_Suc_units mult_1_right by (rule mult_le_mono1)
    then have "Suc SAFE_MAG \<le> round_dec (d * 10 ^ nat x) 0"
      unfolding round_dec_def using SAFE_le_INF by (intro round_mag_ge) simp_all
    with r m show False by simp
  qed
  with whole_reads_exactly r units have "d * 10 ^ nat x * SCALE = i * SCALE" by simp
  with x show ?thesis by simp
qed

lemma shortest_fraction:
  assumes "m \<le> INF_MAG" and "\<not> mag_integral m" and "shortest m = (d, x)"
  shows "x < 0"
proof (rule ccontr)
  assume "\<not> x < 0"
  then have r: "round_dec (d * 10 ^ nat x) 0 = m"
    using round_dec_nat [of x d] shortest_reads_back [OF assms(1,3)] by simp
  show False
  proof (cases "d * 10 ^ nat x \<le> MAX_SAFE_INTEGER")
    case True
    from whole_reads_exactly [OF this r] assms(2) show False by (simp add: mag_integral_def)
  next
    case False
    then have "SAFE_MAG \<le> m" using round_large r by fastforce
    with integral_above_safe assms(2) show False by blast
  qed
qed

lemma shortest_pos:
  assumes "m \<le> INF_MAG" and "0 < m" and "shortest m = (d, x)"
  shows "0 < d"
proof (rule ccontr)
  assume "\<not> 0 < d"
  then have "round_dec d x = 0"
    by (simp add: round_dec_def round_mag_exact mag_units_def)
  with shortest_reads_back [OF assms(1,3)] assms(2) show False by simp
qed

section \<open>Sign and magnitude\<close>

lemma f64_make_parts: "f64_make (f64_neg f) (f64_mag f) = f"
proof -
  have u: "unat f < 2 ^ 64" using unat_u64 [of f] by simp
  have "(if f64_neg f then 2 ^ 63 else 0) + f64_mag f = unat f"
  proof (cases "f64_neg f")
    case True
    then obtain r where "unat f = 2 ^ 63 + r" "r < 2 ^ 63" using u by (auto simp: f64_neg_def dest: le_Suc_ex)
    with True show ?thesis by (simp add: f64_mag_def)
  qed (simp add: f64_neg_def f64_mag_def)
  then show ?thesis unfolding f64_make_def by simp
qed

end
