(* ===== verification/Canonical_Payload.thy ===== *)
theory Canonical_Payload
  imports F64 Utf8 "HOL-Library.List_Lexorder"
begin

text \<open>
  Model of \<open>crates/protocol/src/canonical_payload.rs\<close>: the canonical JSON encoding whose SHA-256 is an
  entry's payload hash, the strict parser, and the visitor that screens deserialized payloads.
  A \<open>Value::Object\<close> is its entries in iteration order, a \<open>String\<close> its UTF-8 bytes, an \<open>f64\<close> its
  bit pattern; the parser state is the text left to read. Error values carry everything the code
  matches on; the number's text and the byte position of the messages are left out.
\<close>

section \<open>Values and errors\<close>

datatype number = PosInt u64 | NegInt i64 | FloatN f64

datatype json = JNull | JBool bool | JNumber number | JString str | JArray "json list"
  | JObject "(str \<times> json) list"

datatype canonical_payload_error = InvalidNumber | DuplicateKey str | NulCharacter | Malformed str | TooDeep

fun canonical_error_code :: "canonical_payload_error \<Rightarrow> str" where
  "canonical_error_code InvalidNumber = ''invalid_number''"
| "canonical_error_code (DuplicateKey _) = ''duplicate_key''"
| "canonical_error_code NulCharacter = ''nul_character''"
| "canonical_error_code (Malformed _) = ''malformed''"
| "canonical_error_code TooDeep = ''too_deep''"

definition MAX_SIGNIFICANT_DIGITS :: nat where "MAX_SIGNIFICANT_DIGITS = 15"
definition MAX_DEPTH :: nat where "MAX_DEPTH = 128"

section \<open>Writing\<close>

definition check_string :: "str \<Rightarrow> canonical_payload_error + unit" where
  "check_string s = guard_err (CHR 0x00 \<in> set s) NulCharacter"

text \<open>One arm of the \<open>match c\<close> of \<open>write_string\<close>.\<close>

definition escape_char :: "nat \<Rightarrow> str" where
  "escape_char c =
     (if c = 0x22 then [CHR 0x5C, CHR 0x22]
      else if c = 0x5C then [CHR 0x5C, CHR 0x5C]
      else if c = 8 then [CHR 0x5C, CHR ''b'']
      else if c = 9 then [CHR 0x5C, CHR ''t'']
      else if c = 10 then [CHR 0x5C, CHR ''n'']
      else if c = 12 then [CHR 0x5C, CHR ''f'']
      else if c = 13 then [CHR 0x5C, CHR ''r'']
      else if c < 0x20 then [CHR 0x5C, CHR ''u'', CHR ''0'', CHR ''0'', digit_char (c div 16), digit_char (c mod 16)]
      else str_of_chars [c])"

definition write_string :: "str \<Rightarrow> canonical_payload_error + str" where
  "write_string s =
     rbind (check_string s) (\<lambda>_.
       Ok (CHR 0x22 # concat (map escape_char (str_chars s)) @ [CHR 0x22]))"

definition safe_integer :: "int \<Rightarrow> canonical_payload_error + str" where
  "safe_integer i = (if \<bar>i\<bar> \<le> int MAX_SAFE_INTEGER then Ok (dec_int_str i) else Err InvalidNumber)"

text \<open>\<open>format!("{:e}", f.abs())\<close> is the digits of \<^const>\<open>shortest\<close>, the point after the first.\<close>

definition float_text :: "f64 \<Rightarrow> str option" where
  "float_text f =
     (if \<not> is_finite f then None
      else if f64_mag f = 0 then Some ''0''
      else
        (let integral = mag_integral (f64_mag f) in
         if integral \<and> mag_units (f64_mag f) > MAX_SAFE_INTEGER * SCALE then None
         else
           (let digits = radix_str 10 (fst (shortest (f64_mag f)));
                exp = int (length digits) - 1 + snd (shortest (f64_mag f)) in
            if \<not> integral \<and> length digits > MAX_SIGNIFICANT_DIGITS then None
            else
              (let k = int (length digits); n = exp + 1;
                   sign = (if f64_neg f then ''-'' else '''') in
               Some (sign @
                 (if k \<le> n \<and> n \<le> 21 then digits @ replicate (nat (n - k)) CHR ''0''
                  else if 0 < n \<and> n \<le> 21 then take (nat n) digits @ ''.'' @ drop (nat n) digits
                  else if -6 < n \<and> n \<le> 0 then ''0.'' @ replicate (nat (- n)) CHR ''0'' @ digits
                  else
                    (let e = n - 1 in
                     take 1 digits @ (if k > 1 then ''.'' @ drop 1 digits else '''') @ ''e'' @
                     (if e < 0 then ''-'' else ''+'') @ radix_str 10 (nat \<bar>e\<bar>))))))))"

fun number_text :: "number \<Rightarrow> canonical_payload_error + str" where
  "number_text (PosInt u) = safe_integer (uint u)"
| "number_text (NegInt i) = safe_integer (sint i)"
| "number_text (FloatN f) = ok_or InvalidNumber (float_text f)"

text \<open>The loops over items and members: a comma before all but the first, the first error ends them.\<close>

fun write_items :: "bool \<Rightarrow> (canonical_payload_error + str) list \<Rightarrow> canonical_payload_error + str" where
  "write_items first [] = Ok ''''"
| "write_items first (w # ws) =
     rbind w (\<lambda>t. rbind (write_items False ws) (\<lambda>u. Ok ((if first then '''' else '','') @ t @ u)))"

definition write_member :: "str \<times> (canonical_payload_error + str) \<Rightarrow> canonical_payload_error + str" where
  "write_member e = rbind (write_string (fst e)) (\<lambda>k. rbind (snd e) (\<lambda>t. Ok (k @ '':'' @ t)))"

abbreviation sort_entries :: "(str \<times> 'a) list \<Rightarrow> (str \<times> 'a) list" where
  "sort_entries \<equiv> sort_key (\<lambda>e. encode_utf16 (fst e))"

fun write_value :: "nat \<Rightarrow> json \<Rightarrow> canonical_payload_error + str" where
  "write_value depth v =
     (if depth > MAX_DEPTH then Err TooDeep
      else
        case v of
          JNull \<Rightarrow> Ok ''null''
        | JBool b \<Rightarrow> Ok (if b then ''true'' else ''false'')
        | JNumber n \<Rightarrow> number_text n
        | JString s \<Rightarrow> write_string s
        | JArray items \<Rightarrow>
            rbind (write_items True (map (\<lambda>item. write_value (depth + 1) item) items))
              (\<lambda>t. Ok (''['' @ t @ '']''))
        | JObject entries \<Rightarrow>
            rbind (write_items True (map write_member (sort_entries
                (map (\<lambda>(key, item). (key, write_value (depth + 1) item)) entries))))
              (\<lambda>t. Ok (CHR 0x7B # t @ [CHR 0x7D])))"

declare write_value.simps [simp del]

definition canonicalize :: "json \<Rightarrow> canonical_payload_error + str" where
  "canonicalize v = write_value 0 v"

definition validate :: "json \<Rightarrow> canonical_payload_error + unit" where
  "validate v = rbind (canonicalize v) (\<lambda>_. Ok ())"

section \<open>Reading strings and numbers\<close>

lemma rbind_cong [fundef_cong]:
  "r = r' \<Longrightarrow> (\<And>x. r' = Inr x \<Longrightarrow> f x = f' x) \<Longrightarrow> rbind r f = rbind r' f'"
  by (cases r') simp_all

definition skip_ws :: "str \<Rightarrow> str" where
  "skip_ws s = dropWhile (\<lambda>c. c \<in> {CHR '' '', CHR 0x09, CHR 0x0A, CHR 0x0D}) s"

definition hex4 :: "str \<Rightarrow> canonical_payload_error + nat \<times> str" where
  "hex4 s =
     (if length (take 4 s) = 4 \<and> list_all is_ascii_hexdigit (take 4 s)
      then Ok (radix_val 16 (take 4 s), drop 4 s)
      else Err (Malformed (''bad '' @ [CHR 0x5C] @ ''u escape'')))"

text \<open>The escape after a backslash: the character it denotes and the rest.\<close>

definition parse_unicode :: "str \<Rightarrow> canonical_payload_error + nat \<times> str" where
  "parse_unicode s =
     rbind (hex4 s) (\<lambda>(hi, r).
     rbind
       (if 0xD800 \<le> hi \<and> hi < 0xDC00 then
          (case strip_prefix [CHR 0x5C, CHR ''u''] r of
             None \<Rightarrow> Err (Malformed ''lone surrogate'')
           | Some r1 \<Rightarrow>
               rbind (hex4 r1) (\<lambda>(lo, r2).
                 if \<not> (0xDC00 \<le> lo \<and> lo < 0xE000) then Err (Malformed ''lone surrogate'')
                 else Ok (0x10000 + (hi - 0xD800) * 1024 + (lo - 0xDC00), r2)))
        else Ok (hi, r)) (\<lambda>(code, r').
     if code = 0 then Err NulCharacter
     else if is_scalar code then Ok (code, r')
     else Err (Malformed ''lone surrogate'')))"

fun parse_escape :: "str \<Rightarrow> canonical_payload_error + nat \<times> str" where
  "parse_escape [] = Err (Malformed ''bad escape'')"
| "parse_escape (e # r) =
     (if e = CHR 0x22 then Ok (0x22, r)
      else if e = CHR 0x5C then Ok (0x5C, r)
      else if e = CHR ''/'' then Ok (0x2F, r)
      else if e = CHR ''b'' then Ok (8, r)
      else if e = CHR ''f'' then Ok (12, r)
      else if e = CHR ''n'' then Ok (10, r)
      else if e = CHR ''r'' then Ok (13, r)
      else if e = CHR ''t'' then Ok (9, r)
      else if e = CHR ''u'' then parse_unicode r
      else Err (Malformed ''bad escape''))"

lemma hex4_shorter: "hex4 s = Inr (v, r) \<Longrightarrow> length r \<le> length s"
  by (auto simp: hex4_def split: if_splits)

lemma strip_prefix_shorter: "strip_prefix p s = Some r \<Longrightarrow> length r \<le> length s"
  by (simp add: strip_prefix_Some)

lemma parse_unicode_shorter: "parse_unicode s = Inr (c, r) \<Longrightarrow> length r \<le> length s"
  by (fastforce simp: parse_unicode_def rbind_eq_Inr split: if_splits option.splits
      dest!: hex4_shorter strip_prefix_shorter)

lemma parse_escape_shorter: "parse_escape s = Inr (c, r) \<Longrightarrow> length r < length s"
  by (cases s) (auto split: if_splits dest: parse_unicode_shorter)

text \<open>The loop of \<open>Parser::string\<close>, after the opening quote.\<close>

function parse_string :: "str \<Rightarrow> str \<Rightarrow> canonical_payload_error + str \<times> str" where
  "parse_string out s =
     (case next_char s of
        None \<Rightarrow> Err (Malformed ''unterminated string'')
      | Some (c, r) \<Rightarrow>
          if c = 0x22 then Ok (out, r)
          else if c = 0x5C then rbind (parse_escape r) (\<lambda>(d, r1). parse_string (out @ str_of_chars [d]) r1)
          else if c < 0x20 then Err (Malformed ''raw control character'')
          else parse_string (out @ str_of_chars [c]) r)"
  by pat_completeness auto
termination
  by (relation "measure (\<lambda>(out, s). length s)")
    (auto dest: next_char_shorter parse_escape_shorter intro: less_trans)

declare parse_string.simps [simp del]

text \<open>\<open>str::parse\<close> to \<open>i128\<close> and to \<open>f64\<close>, on the tokens of the number grammar.\<close>

definition parse_i128 :: "str \<Rightarrow> int option" where
  "parse_i128 t =
     (let v = (case t of c # ds \<Rightarrow> if c = CHR ''-'' then - int (radix_val 10 ds) else int (radix_val 10 t) | [] \<Rightarrow> 0)
      in if - (2 ^ 127) \<le> v \<and> v < 2 ^ 127 then Some v else None)"

definition parse_exponent :: "str \<Rightarrow> int" where
  "parse_exponent t =
     (case t of
        [] \<Rightarrow> 0
      | c # ds \<Rightarrow>
          if c = CHR ''-'' then - int (radix_val 10 ds)
          else if c = CHR ''+'' then int (radix_val 10 ds)
          else int (radix_val 10 t))"

definition parse_f64 :: "str \<Rightarrow> f64" where
  "parse_f64 t =
     (let neg = (take 1 t = ''-''); u = (if neg then drop 1 t else t);
          is_exp = (\<lambda>c. c = CHR ''e'' \<or> c = CHR ''E'');
          mant = takeWhile (\<lambda>c. \<not> is_exp c) u; ex = parse_exponent (drop 1 (dropWhile (\<lambda>c. \<not> is_exp c) u));
          ip = takeWhile (\<lambda>c. c \<noteq> CHR ''.'') mant; fp = drop 1 (dropWhile (\<lambda>c. c \<noteq> CHR ''.'') mant)
      in f64_make neg (round_dec (radix_val 10 (ip @ fp)) (ex - int (length fp))))"

abbreviation skip_digits :: "str \<Rightarrow> str" where
  "skip_digits \<equiv> dropWhile is_ascii_digit"

text \<open>The closure \<open>digits\<close>: how many it read decides, so it fails when none.\<close>

definition read_digits :: "str \<Rightarrow> canonical_payload_error + str" where
  "read_digits s = (if skip_digits s = s then Err (Malformed ''bad number'') else Ok (skip_digits s))"

definition read_integer :: "str \<Rightarrow> canonical_payload_error + str" where
  "read_integer s =
     (let r = (if take 1 s = ''-'' then drop 1 s else s) in
      if take 1 r = ''0'' then Ok (drop 1 r) else read_digits r)"

definition read_fraction :: "str \<Rightarrow> canonical_payload_error + bool \<times> str" where
  "read_fraction s =
     (if take 1 s = ''.'' then rbind (read_digits (drop 1 s)) (\<lambda>r. Ok (False, r)) else Ok (True, s))"

definition read_exponent :: "str \<Rightarrow> canonical_payload_error + bool \<times> str" where
  "read_exponent s =
     (if take 1 s = ''e'' \<or> take 1 s = ''E'' then
        (let r = drop 1 s; r1 = (if take 1 r = ''+'' \<or> take 1 r = ''-'' then drop 1 r else r)
         in rbind (read_digits r1) (\<lambda>r2. Ok (False, r2)))
      else Ok (True, s))"

text \<open>\<open>Value::from(i64)\<close>: negative numbers and the others are stored apart.\<close>

definition json_of_i64 :: "i64 \<Rightarrow> json" where
  "json_of_i64 n = JNumber (if sint n < 0 then NegInt n else PosInt n)"

definition number_of_token :: "bool \<Rightarrow> str \<Rightarrow> canonical_payload_error + json" where
  "number_of_token integer_form token =
     (if integer_form then
        (if token = ''-0'' then Err InvalidNumber
         else
           rbind (ok_or InvalidNumber (parse_i128 token)) (\<lambda>n.
           rbind (map_err (\<lambda>_. InvalidNumber) (safe_integer n)) (\<lambda>_.
           Ok (json_of_i64 (word_of_int n)))))
      else if float_text (parse_f64 token) \<noteq> Some token then Err InvalidNumber
      else Ok (if is_finite (parse_f64 token) then JNumber (FloatN (parse_f64 token)) else JNull))"

definition parse_number :: "str \<Rightarrow> canonical_payload_error + json \<times> str" where
  "parse_number s =
     rbind (read_integer s) (\<lambda>r1.
     rbind (read_fraction r1) (\<lambda>(whole, r2).
     rbind (read_exponent r2) (\<lambda>(no_exp, r3).
     rbind (number_of_token (whole \<and> no_exp) (take (length s - length r3) s)) (\<lambda>v. Ok (v, r3)))))"

section \<open>Reading values\<close>

function parse_value :: "nat \<Rightarrow> str \<Rightarrow> canonical_payload_error + json \<times> str"
  and parse_members :: "nat \<Rightarrow> (str \<times> json) list \<Rightarrow> str \<Rightarrow> canonical_payload_error + json \<times> str"
  and parse_items :: "nat \<Rightarrow> json list \<Rightarrow> str \<Rightarrow> canonical_payload_error + json \<times> str"
where
  "parse_value depth s =
     (if depth > MAX_DEPTH then Err TooDeep
      else
        case s of
          [] \<Rightarrow> Err (Malformed ''unexpected token'')
        | c # r \<Rightarrow>
            if c = CHR 0x7B then
              (case strip_prefix [CHR 0x7D] (skip_ws r) of
                 Some r1 \<Rightarrow> Ok (JObject [], r1)
               | None \<Rightarrow> parse_members depth [] (skip_ws r))
            else if c = CHR ''['' then
              (case strip_prefix '']'' (skip_ws r) of
                 Some r1 \<Rightarrow> Ok (JArray [], r1)
               | None \<Rightarrow> parse_items depth [] (skip_ws r))
            else if c = CHR 0x22 then rbind (parse_string [] r) (\<lambda>(t, r1). Ok (JString t, r1))
            else if strip_prefix ''true'' s \<noteq> None then Ok (JBool True, drop 4 s)
            else if strip_prefix ''false'' s \<noteq> None then Ok (JBool False, drop 5 s)
            else if strip_prefix ''null'' s \<noteq> None then Ok (JNull, drop 4 s)
            else if c = CHR ''-'' \<or> is_ascii_digit c then parse_number s
            else Err (Malformed ''unexpected token''))"
| "parse_members depth acc s =
     (case skip_ws s of
        [] \<Rightarrow> Err (Malformed ''expected object key'')
      | c # r \<Rightarrow>
          if c \<noteq> CHR 0x22 then Err (Malformed ''expected object key'')
          else
            rbind (parse_string [] r) (\<lambda>(key, r1).
            case strip_prefix '':'' (skip_ws r1) of
              None \<Rightarrow> Err (Malformed ''expected `:`'')
            | Some r2 \<Rightarrow>
                rbind (parse_value (depth + 1) (skip_ws r2)) (\<lambda>(v, r3).
                if key \<in> fst ` set acc then Err (DuplicateKey key)
                else
                  (case strip_prefix '','' (skip_ws r3) of
                     Some r4 \<Rightarrow> parse_members depth (acc @ [(key, v)]) r4
                   | None \<Rightarrow>
                       (case strip_prefix [CHR 0x7D] (skip_ws r3) of
                          Some r4 \<Rightarrow> Ok (JObject (acc @ [(key, v)]), r4)
                        | None \<Rightarrow> Err (Malformed ''expected `,` or `}`''))))))"
| "parse_items depth acc s =
     rbind (parse_value (depth + 1) (skip_ws s)) (\<lambda>(v, r).
     case strip_prefix '','' (skip_ws r) of
       Some r1 \<Rightarrow> parse_items depth (acc @ [v]) r1
     | None \<Rightarrow>
         (case strip_prefix '']'' (skip_ws r) of
            Some r1 \<Rightarrow> Ok (JArray (acc @ [v]), r1)
          | None \<Rightarrow> Err (Malformed ''expected `,` or `]`'')))"
  by pat_completeness auto

text \<open>Every step of the parser consumes input, which is why it ends on every text.\<close>

lemma skip_ws_shorter: "length (skip_ws s) \<le> length s"
  by (simp add: skip_ws_def length_dropWhile_le)

lemma skip_ws_Cons: "skip_ws s = c # r \<Longrightarrow> length r < length s"
  using skip_ws_shorter [of s] by simp

lemma parse_string_shorter: "parse_string out s = Inr (t, r) \<Longrightarrow> length r < length s"
proof (induction out s rule: parse_string.induct)
  case (1 out s)
  from "1.prems" obtain c r1 where c: "next_char s = Some (c, r1)"
    by (subst (asm) parse_string.simps) (auto split: option.splits)
  note step = "1.prems" [unfolded parse_string.simps [of out s] c, simplified]
  show ?case
  proof (cases "c = 0x5C")
    case True
    with step obtain d r2 where r2: "parse_escape r1 = Inr (d, r2)" "parse_string (out @ str_of_chars [d]) r2 = Inr (t, r)"
      by (auto simp: rbind_eq_Inr)
    have "length r < length r2" using "1.IH"(1) [OF c refl _ True r2(1) refl] r2(2) True by simp
    then show ?thesis using parse_escape_shorter [OF r2(1)] next_char_shorter [OF c] by simp
  next
    case False
    with step have "c = 0x22 \<and> r = r1 \<or> parse_string (out @ str_of_chars [c]) r1 = Inr (t, r) \<and> \<not> c < 0x20 \<and> c \<noteq> 0x22"
      by (auto split: if_splits)
    then have "length r \<le> length r1" using "1.IH"(2) [OF c refl _ False] by (auto simp: less_imp_le)
    then show ?thesis using next_char_shorter [OF c] by simp
  qed
qed

lemma dropWhile_shorter: "dropWhile P s \<noteq> s \<Longrightarrow> length (dropWhile P s) < length s"
  by (metis append_eq_append_conv2 length_append length_greater_0_conv less_add_same_cancel2 takeWhile_dropWhile_id self_append_conv2)

lemma read_digits_shorter: "read_digits s = Inr r \<Longrightarrow> length r < length s"
  by (auto simp: read_digits_def dropWhile_shorter split: if_splits)

lemma read_integer_shorter: "read_integer s = Inr r \<Longrightarrow> length r < length s"
  by (cases s) (auto simp: read_integer_def Let_def split: if_splits dest!: read_digits_shorter)

lemma read_fraction_shorter: "read_fraction s = Inr (b, r) \<Longrightarrow> length r \<le> length s"
  by (auto simp: read_fraction_def rbind_eq_Inr split: if_splits dest!: read_digits_shorter)

lemma read_exponent_shorter: "read_exponent s = Inr (b, r) \<Longrightarrow> length r \<le> length s"
  by (auto simp: read_exponent_def rbind_eq_Inr Let_def split: if_splits dest!: read_digits_shorter)

lemma parse_number_shorter: "parse_number s = Inr (v, r) \<Longrightarrow> length r < length s"
  by (fastforce simp: parse_number_def rbind_eq_Inr
      dest!: read_integer_shorter read_fraction_shorter read_exponent_shorter)

lemma parse_shorter_dom:
  shows "parse_value_parse_members_parse_items_dom (Inl (d, s)) \<Longrightarrow>
      \<forall>v r. parse_value d s = Inr (v, r) \<longrightarrow> length r < length s"
    and "parse_value_parse_members_parse_items_dom (Inr (Inl (d, ms, s))) \<Longrightarrow>
      \<forall>v r. parse_members d ms s = Inr (v, r) \<longrightarrow> length r < length s"
    and "parse_value_parse_members_parse_items_dom (Inr (Inr (d, vs, s))) \<Longrightarrow>
      \<forall>v r. parse_items d vs s = Inr (v, r) \<longrightarrow> length r < length s"
proof (induction d s and d ms s and d vs s rule: parse_value_parse_members_parse_items.pinduct)
  case (1 depth s)
  show ?case
  proof (intro allI impI)
    fix v r assume h: "parse_value depth s = Inr (v, r)"
    note h' = h [unfolded parse_value.psimps [OF "1.hyps"]]
    from h' have d: "\<not> MAX_DEPTH < depth" by (auto split: if_splits)
    from h' obtain c t where s: "s = c # t" by (cases s) (auto split: if_splits)
    note h'' = h' [unfolded s list.case if_not_P [OF d]]
    have ws: "length (skip_ws t) < length s" using skip_ws_shorter [of t] s by simp
    consider "c = CHR 0x7B" | "c = CHR ''[''" | "c = CHR 0x22" "c \<noteq> CHR 0x7B" "c \<noteq> CHR ''[''"
      | "c \<noteq> CHR 0x7B" "c \<noteq> CHR ''[''" "c \<noteq> CHR 0x22" by blast
    then show "length r < length s"
    proof cases
      case 1
      then show ?thesis using h'' "1.IH"(1) [OF d s 1] ws
        by (auto simp: strip_prefix_Some split: option.splits intro: less_trans)
    next
      case 2
      then show ?thesis using h'' "1.IH"(2) [OF d s _ 2] ws
        by (auto simp: strip_prefix_Some split: option.splits intro: less_trans)
    next
      case 3
      then show ?thesis using h'' s by (auto simp: rbind_eq_Inr dest!: parse_string_shorter)
    next
      case 4
      with h'' have "r = drop 4 (c # t) \<or> r = drop 5 (c # t) \<or> parse_number (c # t) = Inr (v, r)"
        by (simp del: strip_prefix.simps drop_Suc_Cons split: if_splits)
      then show ?thesis using s by (auto dest: parse_number_shorter)
    qed
  qed
next
  case (2 depth acc s)
  show ?case
  proof (intro allI impI)
    fix v r assume h: "parse_members depth acc s = Inr (v, r)"
    note h' = h [unfolded parse_members.psimps [OF "2.hyps"]]
    from h' obtain t key r1 where t: "skip_ws s = CHR 0x22 # t" and key: "parse_string [] t = Inr (key, r1)"
      by (auto simp: rbind_eq_Inr split: list.splits if_splits)
    note h1 = h' [unfolded t list.case, simplified, unfolded key, simplified]
    from h1 obtain r2 w r3 where r2: "strip_prefix '':'' (skip_ws r1) = Some r2"
      and w: "parse_value (depth + 1) (skip_ws r2) = Inr (w, r3)" and k: "key \<notin> fst ` set acc"
      by (auto simp: rbind_eq_Inr split: option.splits if_splits)
    have len: "length r1 < length s" "length r2 < length r1" "length (skip_ws r2) \<le> length r2" "length (skip_ws r3) \<le> length r3"
      using parse_string_shorter [OF key] skip_ws_shorter [of s] skip_ws_shorter [of r1] t r2
        skip_ws_shorter [of r2] skip_ws_shorter [of r3] by (auto simp: strip_prefix_Some)
    have "length r3 < length (skip_ws r2)" using "2.IH"(1) [OF t _ key refl r2] w by simp
    with len have ws: "length (skip_ws r3) < length s" by simp
    show "length r < length s"
    proof (cases "strip_prefix '','' (skip_ws r3)")
      case None
      then show ?thesis using h1 r2 w k ws by (auto simp: strip_prefix_Some split: option.splits)
    next
      case (Some r4)
      have "length r < length r4" using "2.IH"(2) [OF t _ key refl r2 w refl k Some] h1 r2 w k Some by simp
      moreover have "length r4 < length (skip_ws r3)" using Some by (simp add: strip_prefix_Some)
      ultimately show ?thesis using ws by simp
    qed
  qed
next
  case (3 depth acc s)
  show ?case
  proof (intro allI impI)
    fix v r assume h: "parse_items depth acc s = Inr (v, r)"
    note h' = h [unfolded parse_items.psimps [OF "3.hyps"]]
    from h' obtain w r3 where w: "parse_value (depth + 1) (skip_ws s) = Inr (w, r3)" by (auto simp: rbind_eq_Inr)
    then have "length r3 < length (skip_ws s)" using "3.IH"(1) by simp
    with skip_ws_shorter [of s] skip_ws_shorter [of r3] have ws: "length (skip_ws r3) < length s" by simp
    show "length r < length s"
    proof (cases "strip_prefix '','' (skip_ws r3)")
      case None
      then show ?thesis using h' w ws by (auto simp: strip_prefix_Some split: option.splits)
    next
      case (Some r4)
      have "length r < length r4" using "3.IH"(2) [OF w refl Some] h' w Some by simp
      moreover have "length r4 < length (skip_ws r3)" using Some by (simp add: strip_prefix_Some)
      ultimately show ?thesis using ws by simp
    qed
  qed
qed

termination parse_value
proof (relation "measure (\<lambda>q. case q of Inl (d, s) \<Rightarrow> 2 * length s
    | Inr (Inl (d, ms, s)) \<Rightarrow> 2 * length s + 1 | Inr (Inr (d, vs, s)) \<Rightarrow> 2 * length s + 1)", goal_cases)
  case 1
  show ?case by simp
next
  case (4 depth acc s c t q key r1 r2)
  then show ?case using skip_ws_shorter [of r2] by (auto dest!: parse_string_shorter skip_ws_Cons simp: strip_prefix_Some)
next
  case (5 depth acc s c t q key r1 r2 q' w r3 r4)
  then show ?case using skip_ws_shorter [of r2]
    by (auto dest!: parse_string_shorter parse_shorter_dom(1) skip_ws_Cons simp: strip_prefix_Some)
next
  case (7 depth acc s q w r r1)
  then show ?case using skip_ws_shorter [of s]
    by (auto dest!: parse_shorter_dom(1) skip_ws_Cons simp: strip_prefix_Some)
qed (simp_all add: skip_ws_shorter less_Suc_eq_le)

declare parse_value.simps [simp del] parse_members.simps [simp del] parse_items.simps [simp del]

definition parse_strict :: "str \<Rightarrow> canonical_payload_error + json" where
  "parse_strict text =
     rbind (parse_value 0 (skip_ws text)) (\<lambda>(v, r).
       if skip_ws r \<noteq> [] then Err (Malformed ''trailing characters'') else Ok v)"

definition canonicalize_str :: "str \<Rightarrow> canonical_payload_error + str" where
  "canonicalize_str text = rbind (parse_strict text) canonicalize"

section \<open>The deserialization visitor\<close>

text \<open>
  What a \<open>serde\<close> deserializer presents to \<open>StrictVisitor\<close>: one \<open>visit_\<dots>\<close> call, sequences and
  maps with their elements in document order.
\<close>

datatype content = CBool bool | CI64 i64 | CU64 u64 | CF64 f64 | CStr str | CUnit
  | CSeq "content list" | CMap "(str \<times> content) list"

fun visit_seq :: "(canonical_payload_error + json) list \<Rightarrow> canonical_payload_error + json list" where
  "visit_seq [] = Ok []"
| "visit_seq (w # ws) = rbind w (\<lambda>v. rbind (visit_seq ws) (\<lambda>vs. Ok (v # vs)))"

fun visit_map :: "(str \<times> json) list \<Rightarrow> (str \<times> (canonical_payload_error + json)) list \<Rightarrow>
    canonical_payload_error + (str \<times> json) list" where
  "visit_map acc [] = Ok acc"
| "visit_map acc ((key, w) # ws) =
     rbind (check_string key) (\<lambda>_.
     rbind w (\<lambda>v.
     if key \<in> fst ` set acc then Err (DuplicateKey key) else visit_map (acc @ [(key, v)]) ws))"

fun visit :: "content \<Rightarrow> canonical_payload_error + json" where
  "visit (CBool b) = Ok (JBool b)"
| "visit (CI64 v) = rbind (safe_integer (sint v)) (\<lambda>_. Ok (json_of_i64 v))"
| "visit (CU64 v) = rbind (safe_integer (uint v)) (\<lambda>_. Ok (JNumber (PosInt v)))"
| "visit (CF64 v) =
     (if float_text v = None then Err InvalidNumber
      else Ok (if is_finite v then JNumber (FloatN v) else JNull))"
| "visit (CStr s) = rbind (check_string s) (\<lambda>_. Ok (JString s))"
| "visit CUnit = Ok JNull"
| "visit (CSeq cs) = rbind (visit_seq (map visit cs)) (\<lambda>vs. Ok (JArray vs))"
| "visit (CMap es) = rbind (visit_map [] (map (\<lambda>(k, c). (k, visit c)) es)) (\<lambda>ms. Ok (JObject ms))"

end
