(* ===== verification/Json_Wire.thy ===== *)
theory Json_Wire
  imports Canonical_Payload
begin

text \<open>
  The parts of \<open>serde\<close> and \<open>serde_json\<close> the sources reach through \<open>#[derive(Serialize, Deserialize)]\<close>
  and \<open>Map\<close>: a struct is an object with its fields in order (or, when read, an array of them), an
  absent \<open>Option\<close> field is \<open>None\<close>, unknown keys are ignored; a \<open>Map\<close> keeps insertion order, an
  insertion replaces in place and a removal swaps the last entry in.
\<close>

section \<open>Maps\<close>

fun map_insert :: "(str \<times> json) list \<Rightarrow> str \<Rightarrow> json \<Rightarrow> (str \<times> json) list" where
  "map_insert [] k v = [(k, v)]"
| "map_insert ((k', v') # es) k v = (if k' = k then (k, v) # es else (k', v') # map_insert es k v)"

fun map_remove :: "(str \<times> json) list \<Rightarrow> str \<Rightarrow> (str \<times> json) list" where
  "map_remove [] k = []"
| "map_remove ((k', v') # es) k =
     (if k' = k then (if es = [] then [] else last es # butlast es) else (k', v') # map_remove es k)"

section \<open>Structs\<close>

text \<open>The fields of a struct found in a value, and whether they were found by name.\<close>

definition de_struct :: "str list \<Rightarrow> json \<Rightarrow> (bool \<times> json option list) option" where
  "de_struct names v =
     (case v of
        JObject es \<Rightarrow> Some (True, map (map_of es) names)
      | JArray vs \<Rightarrow>
          if length vs \<le> length names
          then Some (False, map Some vs @ replicate (length names - length vs) None)
          else None
      | _ \<Rightarrow> None)"

definition de_req :: "(json \<Rightarrow> 'a option) \<Rightarrow> json option \<Rightarrow> 'a option" where
  "de_req dec j = Option.bind j dec"

definition opt_value :: "(json \<Rightarrow> 'a option) \<Rightarrow> json \<Rightarrow> 'a option option" where
  "opt_value dec j = (if j = JNull then Some None else map_option Some (dec j))"

definition de_opt :: "bool \<Rightarrow> (json \<Rightarrow> 'a option) \<Rightarrow> json option \<Rightarrow> 'a option option" where
  "de_opt by_name dec j = (case j of None \<Rightarrow> if by_name then Some None else None | Some v \<Rightarrow> opt_value dec v)"

definition de_opt_default :: "(json \<Rightarrow> 'a option) \<Rightarrow> json option \<Rightarrow> 'a option option" where
  "de_opt_default dec j = (case j of None \<Rightarrow> Some None | Some v \<Rightarrow> opt_value dec v)"

section \<open>Scalars\<close>

fun de_str :: "json \<Rightarrow> str option" where
  "de_str (JString s) = Some s"
| "de_str _ = None"

fun de_nat :: "nat \<Rightarrow> json \<Rightarrow> nat option" where
  "de_nat bound (JNumber (PosInt u)) = (if unat u < bound then Some (unat u) else None)"
| "de_nat bound _ = None"

definition de_u8 :: "json \<Rightarrow> u8 option" where "de_u8 j = map_option of_nat (de_nat (2 ^ 8) j)"
definition de_u16 :: "json \<Rightarrow> u16 option" where "de_u16 j = map_option of_nat (de_nat (2 ^ 16) j)"
definition de_u32 :: "json \<Rightarrow> u32 option" where "de_u32 j = map_option of_nat (de_nat (2 ^ 32) j)"
definition de_u64 :: "json \<Rightarrow> u64 option" where "de_u64 j = map_option of_nat (de_nat (2 ^ 64) j)"

definition ser_nat :: "nat \<Rightarrow> json" where "ser_nat n = JNumber (PosInt (of_nat n))"

definition ser_opt :: "('a \<Rightarrow> json) \<Rightarrow> 'a option \<Rightarrow> json" where
  "ser_opt f x = (case x of None \<Rightarrow> JNull | Some y \<Rightarrow> f y)"

section \<open>Facts\<close>

lemma de_ser_nat: "n < 2 ^ 64 \<Longrightarrow> n < bound \<Longrightarrow> de_nat bound (ser_nat n) = Some n"
  by (simp add: ser_nat_def unat_of_nat)

lemma de_ser_words [simp]:
  "de_u8 (ser_nat (unat a)) = Some a" "de_u16 (ser_nat (unat b)) = Some b"
  "de_u32 (ser_nat (unat c)) = Some c" "de_u64 (ser_nat (unat d)) = Some d"
  using unat_u8 [of a] unat_u16 [of b] unat_u32 [of c] unat_u64 [of d]
  by (simp_all add: de_u8_def de_u16_def de_u32_def de_u64_def de_ser_nat)

lemma map_insert_fresh: "k \<notin> fst ` set es \<Longrightarrow> map_insert es k v = es @ [(k, v)]"
  by (induction es) auto

lemma map_of_insert: "map_of (map_insert es k v) = (map_of es)(k \<mapsto> v)"
  by (induction es k v rule: map_insert.induct) auto

lemma map_remove_snoc: "k \<notin> fst ` set es \<Longrightarrow> map_remove (es @ [(k, v)]) k = es"
  by (induction es) auto

lemma map_remove_absent: "k \<notin> fst ` set es \<Longrightarrow> map_remove es k = es"
  by (induction es) auto

lemma keys_insert: "fst ` set (map_insert es k v) = insert k (fst ` set es)"
  by (induction es k v rule: map_insert.induct) auto

lemma distinct_insert: "distinct (map fst es) \<Longrightarrow> distinct (map fst (map_insert es k v))"
  by (induction es k v rule: map_insert.induct) (auto simp: keys_insert)

text \<open>Removal keeps every other entry, in some order.\<close>

lemma mset_remove:
  "distinct (map fst es) \<Longrightarrow> mset (map_remove es k) = filter_mset (\<lambda>e. fst e \<noteq> k) (mset es)"
proof (induction es k rule: map_remove.induct)
  case (2 k' v' es k)
  show ?case
  proof (cases "k' = k")
    case True
    then have "k \<notin> fst ` set es" using 2 by simp
    then have "filter_mset (\<lambda>e. fst e \<noteq> k) (mset es) = mset es" by (auto simp: filter_mset_eq_conv image_iff)
    moreover have "es \<noteq> [] \<Longrightarrow> add_mset (last es) (mset (butlast es)) = mset es"
      by (metis append_butlast_last_id mset.simps(2) mset_append add_mset_add_single mset.simps(1))
    ultimately show ?thesis using True by auto
  qed (use 2 in simp)
qed simp

end
