(* ===== verification/Canonical_Facts.thy ===== *)
theory Canonical_Facts
  imports Canonical_Payload
begin

text \<open>
  Canonical text reads back: \<open>parse_strict\<close> inverts \<open>canonicalize\<close> up to the order of object
  entries and the storage form of numbers, so equal canonical bytes (and equal payload hashes) mean
  equal payloads.
\<close>

section \<open>Specification\<close>

definition whole_number :: "bool \<Rightarrow> nat \<Rightarrow> number" where
  "whole_number neg i = (if neg \<and> i \<noteq> 0 then NegInt (word_of_int (- int i)) else PosInt (of_nat i))"

fun canon_number :: "number \<Rightarrow> number" where
  "canon_number (FloatN f) =
     (if mag_integral (f64_mag f) then whole_number (f64_neg f) (mag_units (f64_mag f) div SCALE) else FloatN f)"
| "canon_number n = n"

fun canon_value :: "json \<Rightarrow> json" where
  "canon_value (JNumber n) = JNumber (canon_number n)"
| "canon_value (JArray vs) = JArray (map canon_value vs)"
| "canon_value (JObject es) = JObject (sort_entries (map (\<lambda>(k, v). (k, canon_value v)) es))"
| "canon_value v = v"

text \<open>What every \<open>Value\<close> satisfies: strings are UTF-8, keys of a map differ, \<open>NegInt\<close> is negative.\<close>

fun wf_value :: "json \<Rightarrow> bool" where
  "wf_value (JNumber (NegInt i)) = (sint i < 0)"
| "wf_value (JString s) = valid_str s"
| "wf_value (JArray vs) = (\<forall>v\<in>set vs. wf_value v)"
| "wf_value (JObject es) = (distinct (map fst es) \<and> (\<forall>(k, v)\<in>set es. valid_str k \<and> wf_value v))"
| "wf_value v = True"

section \<open>Strings\<close>

declare next_char.simps [simp del]

lemma digit_char_hex:
  assumes "n < 16"
  shows "digit_val (digit_char n) = n \<and> is_ascii_hexdigit (digit_char n)"
proof (cases "n < 10")
  case True
  then show ?thesis by (simp add: digit_val_char digit_char_digit is_ascii_hexdigit_def)
next
  case False
  then have "ord (digit_char n) = 87 + n" using assms by (simp add: digit_char_def)
  with False assms show ?thesis by (simp add: digit_val_def is_ascii_digit_def is_ascii_hexdigit_def)
qed

lemma hex4_digits:
  assumes "a < 16" "b < 16"
  shows "hex4 (CHR ''0'' # CHR ''0'' # digit_char a # digit_char b # r) = Ok (a * 16 + b, r)"
proof -
  have "is_ascii_hexdigit (CHR ''0'')" "digit_val (CHR ''0'') = 0" by code_simp+
  then show ?thesis using digit_char_hex [OF assms(1)] digit_char_hex [OF assms(2)]
    by (simp add: hex4_def radix_val_def)
qed

lemma next_char_ascii: "ord b < 128 \<Longrightarrow> next_char (b # r) = Some (ord b, r)"
  by (simp add: next_char.simps char_width_def Let_def)

lemma parse_string_escape:
  assumes "is_scalar c" and "c \<noteq> 0"
  shows "parse_string out (escape_char c @ r) = parse_string (out @ str_of_chars [c]) r"
proof -
  consider (short) "c \<in> {0x22, 0x5C, 8, 9, 10, 12, 13}" | (long) "c < 0x20" "c \<notin> {0x22, 0x5C, 8, 9, 10, 12, 13}"
    | (raw) "\<not> c < 0x20" "c \<noteq> 0x22" "c \<noteq> 0x5C" by blast
  then show ?thesis
  proof cases
    case short
    then show ?thesis
      by (auto simp: escape_char_def parse_string.simps [of out "_ # _"] next_char_ascii)
  next
    case long
    have h: "hex4 (CHR ''0'' # CHR ''0'' # digit_char (c div 16) # digit_char (c mod 16) # r) = Ok (c, r)"
      using long hex4_digits [of "c div 16" "c mod 16"] by simp
    have "parse_unicode (CHR ''0'' # CHR ''0'' # digit_char (c div 16) # digit_char (c mod 16) # r) = Ok (c, r)"
      using long assms by (simp add: parse_unicode_def h)
    with long show ?thesis
      by (simp add: escape_char_def parse_string.simps [of out "_ # _"] next_char_ascii)
  next
    case raw
    then have "escape_char c = str_of_chars [c]" by (simp add: escape_char_def)
    with raw next_char_of_chars [OF assms(1), of r] show ?thesis
      by (simp add: parse_string.simps [of out "str_of_chars [c] @ r"])
  qed
qed

lemma parse_string_chars:
  "list_all is_scalar cs \<Longrightarrow> 0 \<notin> set cs \<Longrightarrow>
   parse_string out (concat (map escape_char cs) @ CHR 0x22 # r) = Ok (out @ str_of_chars cs, r)"
proof (induction cs arbitrary: out)
  case Nil
  show ?case by (simp add: parse_string.simps [of out "_ # _"] next_char_ascii)
next
  case (Cons c cs)
  then show ?case by (simp add: parse_string_escape str_of_chars_append [of "[c]" cs, simplified])
qed

lemma nul_in_chars: "valid_str s \<Longrightarrow> 0 \<in> set (str_chars s) \<Longrightarrow> CHR 0x00 \<in> set s"
proof -
  assume "valid_str s" "0 \<in> set (str_chars s)"
  then obtain cs ds where "s = str_of_chars (cs @ 0 # ds)" by (metis split_list valid_str_chars(2))
  moreover have "utf8_encode_char 0 = [0]" "char_of (0 :: nat) = CHR 0x00"
    by (simp_all add: utf8_encode_char_def char_of_def)
  ultimately show ?thesis by (simp add: str_of_chars_def)
qed

lemma write_string_reads_back:
  assumes "valid_str s" and "write_string s = Ok t"
  shows "\<exists>u. t = CHR 0x22 # u \<and> (\<forall>r. parse_string [] (u @ r) = Ok (s, r))"
proof -
  from assms(2) have "CHR 0x00 \<notin> set s" and t: "t = CHR 0x22 # concat (map escape_char (str_chars s)) @ [CHR 0x22]"
    by (auto simp: write_string_def rbind_eq_Inr check_string_def)
  then have "0 \<notin> set (str_chars s)" using nul_in_chars assms(1) by blast
  then show ?thesis using parse_string_chars [of "str_chars s" "[]"] valid_str_chars [OF assms(1)] by (simp add: t)
qed

section \<open>Number tokens\<close>

definition starts :: "(char \<Rightarrow> bool) \<Rightarrow> str \<Rightarrow> bool" where
  "starts P s \<longleftrightarrow> s \<noteq> [] \<and> P (hd s)"

lemma starts_simps [simp]: "\<not> starts P []" "starts P (c # s) = P c"
  by (simp_all add: starts_def)

lemma starts_append: "starts P (s @ r) = (if s = [] then starts P r else starts P s)"
  by (simp add: starts_def)

definition delimited :: "str \<Rightarrow> bool" where
  "delimited r \<longleftrightarrow> \<not> starts (\<lambda>c. is_ascii_digit c \<or> c \<in> set ''.eE'') r"

definition exponent_part :: "str \<Rightarrow> bool" where
  "exponent_part ex \<longleftrightarrow> ex = [] \<or>
     (\<exists>s ds. ex = CHR ''e'' # s # ds \<and> s \<in> set ''+-'' \<and> ds \<noteq> [] \<and> list_all is_ascii_digit ds)"

definition token :: "bool \<Rightarrow> str \<Rightarrow> str \<Rightarrow> str \<Rightarrow> str" where
  "token neg ip fp ex = (if neg then ''-'' else '''') @ ip @ (if fp = [] then [] else CHR ''.'' # fp) @ ex"

lemma not_digits [simp]:
  "\<not> is_ascii_digit CHR ''.''" "\<not> is_ascii_digit CHR ''e''" "\<not> is_ascii_digit CHR ''E''"
  "\<not> is_ascii_digit CHR ''-''" "\<not> is_ascii_digit CHR ''+''" "is_ascii_digit CHR ''0''"
  by (simp_all add: is_ascii_digit_def)

lemma dropWhile_all: "list_all P s \<Longrightarrow> \<not> starts P r \<Longrightarrow> dropWhile P (s @ r) = r"
  by (induction s) (simp_all add: starts_def, cases r, auto)

lemma takeWhile_all: "list_all P s \<Longrightarrow> \<not> starts P r \<Longrightarrow> takeWhile P (s @ r) = s"
  by (induction s) (simp_all add: starts_def, cases r, auto)

lemma read_digits_all:
  "ds \<noteq> [] \<Longrightarrow> list_all is_ascii_digit ds \<Longrightarrow> \<not> starts is_ascii_digit r \<Longrightarrow> read_digits (ds @ r) = Ok r"
  by (simp add: read_digits_def dropWhile_all) 

lemma read_integer_plain:
  assumes "plain_decimal ip" and "\<not> starts is_ascii_digit r"
  shows "read_integer ((if neg then ''-'' else '''') @ ip @ r) = Ok r"
proof -
  obtain c ds where ip: "ip = c # ds" "is_ascii_digit c" "list_all is_ascii_digit ds" "c = CHR ''0'' \<Longrightarrow> ds = []"
    using assms(1) by (cases ip) (auto simp: plain_decimal_def)
  then have "c \<noteq> CHR ''-''" by auto
  with ip read_digits_all [of ip r] assms(2) show ?thesis by (auto simp: read_integer_def Let_def)
qed

lemma read_fraction_part:
  "list_all is_ascii_digit fp \<Longrightarrow> \<not> starts (\<lambda>c. is_ascii_digit c \<or> c = CHR ''.'') r \<Longrightarrow>
   read_fraction ((if fp = [] then [] else CHR ''.'' # fp) @ r) = Ok (fp = [], r)"
  using read_digits_all [of fp r] by (cases r) (auto simp: read_fraction_def)

lemma read_exponent_part:
  assumes "exponent_part ex" and "delimited r"
  shows "read_exponent (ex @ r) = Ok (ex = [], r)"
proof (cases "ex = []")
  case True
  with assms(2) show ?thesis by (cases r) (auto simp: read_exponent_def delimited_def)
next
  case False
  with assms(1) obtain s ds where ex: "ex = CHR ''e'' # s # ds" "s \<in> set ''+-''" "ds \<noteq> []" "list_all is_ascii_digit ds"
    by (auto simp: exponent_part_def)
  have "\<not> starts is_ascii_digit r" using assms(2) by (auto simp: delimited_def starts_def)
  with read_digits_all ex show ?thesis by (auto simp: read_exponent_def Let_def)
qed

lemma parse_number_token:
  assumes "plain_decimal ip" "list_all is_ascii_digit fp" "exponent_part ex" "delimited r"
  shows "parse_number (token neg ip fp ex @ r) =
    rbind (number_of_token (fp = [] \<and> ex = []) (token neg ip fp ex)) (\<lambda>v. Ok (v, r))"
proof -
  have exs: "\<not> starts (\<lambda>c. is_ascii_digit c \<or> c = CHR ''.'') (ex @ r)"
    using assms(3,4) by (auto simp: exponent_part_def delimited_def starts_def)
  then have "\<not> starts is_ascii_digit ((if fp = [] then [] else CHR ''.'' # fp) @ ex @ r)"
    by (auto simp: starts_def)
  from read_integer_plain [OF assms(1) this, of neg] show ?thesis
    using read_fraction_part [OF assms(2) exs] read_exponent_part [OF assms(3,4)]
    by (simp add: parse_number_def token_def)
qed

lemma parse_f64_token:
  assumes "plain_decimal ip" "list_all is_ascii_digit fp" "exponent_part ex"
  shows "parse_f64 (token neg ip fp ex) =
    f64_make neg (round_dec (radix_val 10 (ip @ fp)) (parse_exponent (drop 1 ex) - int (length fp)))"
proof -
  let ?m = "ip @ (if fp = [] then [] else CHR ''.'' # fp)"
  let ?P = "\<lambda>c. \<not> (c = CHR ''e'' \<or> c = CHR ''E'')"
  have d: "is_ascii_digit c \<Longrightarrow> ?P c \<and> c \<noteq> CHR ''.''" for c by auto
  have ip: "list_all is_ascii_digit ip" "ip \<noteq> []" using assms(1) by (auto simp: plain_decimal_def)
  have m: "list_all ?P ?m" using ip assms(2) d by (auto simp: list_all_iff)
  have ex: "\<not> starts ?P ex" using assms(3) by (auto simp: exponent_part_def)
  have p: "takeWhile (\<lambda>c. c \<noteq> CHR ''.'') ?m = ip" "drop 1 (dropWhile (\<lambda>c. c \<noteq> CHR ''.'') ?m) = fp"
    using ip d takeWhile_all [of "\<lambda>c. c \<noteq> CHR ''.''" ip "if fp = [] then [] else CHR ''.'' # fp"]
      dropWhile_all [of "\<lambda>c. c \<noteq> CHR ''.''" ip "if fp = [] then [] else CHR ''.'' # fp"]
    by (auto simp: list_all_iff)
  have neg: "(take 1 (token neg ip fp ex) = ''-'') = neg"
    "(if neg then drop 1 (token neg ip fp ex) else token neg ip fp ex) = ?m @ ex"
    using ip by (cases ip; auto simp: token_def)+
  show ?thesis
    unfolding parse_f64_def Let_def neg takeWhile_all [OF m ex] dropWhile_all [OF m ex] p ..
qed

section \<open>Integers\<close>

lemma dec_int_token: "dec_int_str i = token (i < 0) (radix_str 10 (nat \<bar>i\<bar>)) [] []"
  by (simp add: dec_int_str_def token_def)

lemma token_int_nonzero: "dec_int_str i \<noteq> ''-0''"
proof
  assume z: "dec_int_str i = ''-0''"
  have "radix_str 10 (nat i) \<noteq> ''-0''" using dec_facts [of "nat i"] by auto
  with z have "i < 0" "radix_str 10 (nat (- i)) = ''0''" by (auto simp: dec_int_str_def split: if_splits)
  with dec_facts [of "nat (- i)"] show False by simp
qed

lemma parse_i128_dec:
  assumes "\<bar>i\<bar> \<le> int MAX_SAFE_INTEGER"
  shows "parse_i128 (dec_int_str i) = Some i"
proof -
  have bound: "- (2 ^ 127) \<le> i" "i < 2 ^ 127" using assms by (simp_all add: MAX_SAFE_INTEGER_def)
  show ?thesis
  proof (cases "i < 0")
    case True
    with bound dec_facts [of "nat (- i)"] show ?thesis by (simp add: parse_i128_def dec_int_str_def)
  next
    case False
    obtain c ds where r: "radix_str 10 (nat i) = c # ds" using dec_facts [of "nat i"] by (cases "radix_str 10 (nat i)") auto
    with dec_facts [of "nat i"] have "c \<noteq> CHR ''-''" by auto
    with False bound r dec_facts [of "nat i"] show ?thesis by (simp add: parse_i128_def dec_int_str_def Let_def)
  qed
qed

definition json_int :: "int \<Rightarrow> json" where
  "json_int i = json_of_i64 (word_of_int i)"

lemma parse_number_int:
  assumes "\<bar>i\<bar> \<le> int MAX_SAFE_INTEGER" and "delimited r"
  shows "parse_number (dec_int_str i @ r) = Ok (json_int i, r)"
proof -
  have "number_of_token True (dec_int_str i) = Ok (json_int i)"
    using assms(1) by (simp add: number_of_token_def token_int_nonzero parse_i128_dec safe_integer_def json_int_def)
  with parse_number_token [of "radix_str 10 (nat \<bar>i\<bar>)" "[]" "[]" r "i < 0"] assms(2) show ?thesis
    by (simp add: plain_decimal_str exponent_part_def dec_int_token [symmetric])
qed

section \<open>Floating point numbers\<close>

lemma digit_char_zero: "digit_char 0 = CHR ''0''"
  using digit_char_val [of "CHR ''0''"] by (simp add: digit_val_def)

lemma radix_val_zeros: "radix_val 10 (replicate n CHR ''0'' @ s) = radix_val 10 s"
proof -
  have "digit_val CHR ''0'' = 0" by (simp add: digit_val_def)
  then have "foldl (\<lambda>a c. a * 10 + digit_val c) 0 (replicate n CHR ''0'') = 0" by (induction n) simp_all
  then show ?thesis by (simp add: radix_val_def)
qed

lemma dec_append_zeros: "0 < d \<Longrightarrow> radix_str 10 d @ replicate n CHR ''0'' = radix_str 10 (d * 10 ^ n)"
proof (induction n)
  case (Suc n)
  have "10 \<le> d * 10 ^ Suc n" using Suc.prems by simp
  then have "radix_str 10 (d * 10 ^ Suc n) = radix_str 10 (d * 10 ^ n) @ [CHR ''0'']"
    by (simp add: dec_step digit_char_zero)
  with Suc show ?case by (simp add: replicate_append_same [symmetric])
qed simp

lemma mag_zero: "mag_units 0 = 0" "mag_integral 0"
  by (simp_all add: mag_units_def mag_integral_def)

lemma float_text_integral:
  assumes t: "float_text f = Some t" and int: "mag_integral (f64_mag f)"
  defines "i \<equiv> mag_units (f64_mag f) div SCALE"
  shows "t = dec_int_str (if f64_neg f then - int i else int i) \<and> i \<le> MAX_SAFE_INTEGER"
proof (cases "f64_mag f = 0")
  case True
  with t show ?thesis by (simp add: digit_char_zero float_text_def i_def mag_zero dec_int_str_def dec_small split: if_splits)
next
  case False
  define m where "m = f64_mag f"
  obtain d x where dx: "shortest m = (d, x)" by (cases "shortest m")
  have u: "mag_units m = i * SCALE" using int by (auto simp: i_def m_def mag_integral_def)
  have fin: "is_finite f" and le: "mag_units m \<le> MAX_SAFE_INTEGER * SCALE"
    using t int False by (auto simp: float_text_def Let_def m_def split: if_splits)
  then have i: "i \<le> MAX_SAFE_INTEGER" using u by simp
  have x: "0 \<le> x" "d * 10 ^ nat x = i" using shortest_integral [OF u i dx] by blast+
  have d: "0 < d" using shortest_pos [of m d x] dx False fin by (simp add: m_def is_finite_def)
  have ds: "radix_str 10 d @ replicate (nat x) CHR ''0'' = radix_str 10 i" using dec_append_zeros [OF d] x(2) by simp
  have "i < 10 ^ Suc 15" using i by (simp add: MAX_SAFE_INTEGER_def)
  from dec_length [OF this] have "length (radix_str 10 i) \<le> 16" by simp
  then have n: "int (length (radix_str 10 d)) + x \<le> 21" using arg_cong [OF ds, of length] x(1) by simp
  have "0 < i" using d x(2) by auto
  then show ?thesis
    using t fin False int le n x(1) ds i dx
    by (auto simp: float_text_def Let_def m_def [symmetric] dec_int_str_def split: if_splits)
qed

lemma plain_prefix:
  assumes "0 < d" "0 < n"
  shows "plain_decimal (take n (radix_str 10 d))"
proof -
  note f = dec_facts [of d]
  have "list_all is_ascii_digit (take n (radix_str 10 d))" using f by (auto simp: list_all_iff dest: in_set_takeD)
  with f assms show ?thesis by (simp add: plain_decimal_def)
qed

lemma digits_suffix: "list_all is_ascii_digit (drop n (radix_str 10 d))"
  using dec_facts [of d] by (auto simp: list_all_iff dest: in_set_dropD)

lemma parse_exponent_text:
  "parse_exponent ((if e < 0 then ''-'' else ''+'') @ radix_str 10 (nat \<bar>e\<bar>)) = e"
  using dec_facts [of "nat e"] dec_facts [of "nat (- e)"] by (simp add: parse_exponent_def)

lemma exponent_part_text:
  "exponent_part (''e'' @ (if e < 0 then ''-'' else ''+'') @ radix_str 10 (nat \<bar>e\<bar>))"
  using dec_facts [of "nat e"] dec_facts [of "nat (- e)"] by (simp add: exponent_part_def)

lemma float_text_fraction:
  assumes t: "float_text f = Some t" and frac: "\<not> mag_integral (f64_mag f)" and dx: "shortest (f64_mag f) = (d, x)"
  shows "\<exists>ip fp ex. t = token (f64_neg f) ip fp ex \<and> plain_decimal ip \<and> list_all is_ascii_digit fp \<and>
    exponent_part ex \<and> \<not> (fp = [] \<and> ex = []) \<and> radix_val 10 (ip @ fp) = d \<and>
    parse_exponent (drop 1 ex) - int (length fp) = x"
proof -
  let ?D = "radix_str 10 d" let ?n = "int (length ?D) + x"
  have m: "f64_mag f \<noteq> 0" using frac mag_zero by metis
  have fin: "f64_mag f \<le> INF_MAG" using t by (auto simp: float_text_def is_finite_def split: if_splits)
  have x: "x < 0" and d: "0 < d" using shortest_fraction [OF fin frac dx] shortest_pos [OF fin _ dx] m by simp_all
  have D: "radix_val 10 ?D = d" "?D \<noteq> []" using dec_facts [of d] by simp_all
  have t': "t = (if f64_neg f then ''-'' else '''') @
      (if 0 < ?n \<and> ?n \<le> 21 then take (nat ?n) ?D @ ''.'' @ drop (nat ?n) ?D
       else if -6 < ?n \<and> ?n \<le> 0 then ''0.'' @ replicate (nat (- ?n)) CHR ''0'' @ ?D
       else take 1 ?D @ (if length ?D > 1 then ''.'' @ drop 1 ?D else '''') @ ''e'' @
            (if ?n - 1 < 0 then ''-'' else ''+'') @ radix_str 10 (nat \<bar>?n - 1\<bar>))"
    using t m frac x by (auto simp: float_text_def Let_def dx split: if_splits)
  consider (point) "0 < ?n" "?n \<le> 21" | (zeros) "-6 < ?n" "?n \<le> 0" | (exp) "\<not> (0 < ?n \<and> ?n \<le> 21)" "\<not> (-6 < ?n \<and> ?n \<le> 0)"
    by linarith
  then show ?thesis
  proof cases
    case point
    then have "drop (nat ?n) ?D \<noteq> []" using x by simp
    with point t' have "t = token (f64_neg f) (take (nat ?n) ?D) (drop (nat ?n) ?D) []" by (simp add: token_def)
    moreover have "parse_exponent (drop 1 []) - int (length (drop (nat ?n) ?D)) = x"
      using point x by (simp add: parse_exponent_def)
    ultimately show ?thesis
      using plain_prefix [OF d, of "nat ?n"] digits_suffix point D x by (intro exI conjI) (auto simp: exponent_part_def)
  next
    case zeros
    with t' have "t = token (f64_neg f) ''0'' (replicate (nat (- ?n)) CHR ''0'' @ ?D) []"
      using D by (simp add: token_def)
    moreover have "radix_val 10 (''0'' @ replicate (nat (- ?n)) CHR ''0'' @ ?D) = d"
      using radix_val_zeros [of "Suc (nat (- ?n))" ?D] D by simp
    moreover have "parse_exponent (drop 1 []) - int (length (replicate (nat (- ?n)) CHR ''0'' @ ?D)) = x"
      using zeros by (simp add: parse_exponent_def)
    moreover have "list_all is_ascii_digit (replicate (nat (- ?n)) CHR ''0'' @ ?D)"
      using digits_suffix [of 0 d] by (auto simp: list_all_iff)
    ultimately show ?thesis using D by (intro exI conjI) (auto simp: plain_decimal_def exponent_part_def)
  next
    case exp
    let ?e = "?n - 1"
    let ?x = "''e'' @ (if ?e < 0 then ''-'' else ''+'') @ radix_str 10 (nat \<bar>?e\<bar>)"
    have "t = token (f64_neg f) (take 1 ?D) (drop 1 ?D) ?x"
      using exp unfolding t' token_def by (auto simp: Suc_le_eq)
    moreover have "parse_exponent (drop 1 ?x) - int (length (drop 1 ?D)) = x"
      using parse_exponent_text [of ?e] D by (cases ?D) simp_all
    moreover have "radix_val 10 (take 1 ?D @ drop 1 ?D) = d" by (simp only: append_take_drop_id D)
    moreover have "\<not> (drop 1 ?D = [] \<and> ?x = [])" by simp
    ultimately show ?thesis
      using plain_prefix [OF d zero_less_one] digits_suffix [of 1 d] exponent_part_text [of ?e] by blast
  qed
qed

lemma parse_number_fraction:
  assumes "float_text f = Some t" and "\<not> mag_integral (f64_mag f)" and "delimited r"
  shows "parse_number (t @ r) = Ok (JNumber (FloatN f), r)"
proof -
  obtain d x where dx: "shortest (f64_mag f) = (d, x)" by (cases "shortest (f64_mag f)")
  from float_text_fraction [OF assms(1,2) dx] obtain ip fp ex where
    tok: "t = token (f64_neg f) ip fp ex" "plain_decimal ip" "list_all is_ascii_digit fp" "exponent_part ex"
    "\<not> (fp = [] \<and> ex = [])" and val: "radix_val 10 (ip @ fp) = d" "parse_exponent (drop 1 ex) - int (length fp) = x"
    by blast
  have fin: "is_finite f" using assms(1) by (auto simp: float_text_def split: if_splits)
  then have "round_dec d x = f64_mag f" by (intro shortest_reads_back [OF _ dx]) (simp add: is_finite_def)
  then have "parse_f64 t = f"
    using parse_f64_token [OF tok(2,3,4), unfolded val] by (simp add: tok(1) f64_make_parts)
  then have "number_of_token False t = Ok (JNumber (FloatN f))"
    using assms(1) fin by (simp add: number_of_token_def)
  then show ?thesis using parse_number_token [OF tok(2,3,4) assms(3), of "f64_neg f"] tok(5)
    by (simp add: tok(1))
qed

section \<open>Numbers read back\<close>

lemma json_int_whole:
  assumes "i \<le> MAX_SAFE_INTEGER"
  shows "json_int (if neg then - int i else int i) = JNumber (whole_number neg i)"
proof -
  have b: "int i \<le> 2 ^ 53" using assms by (simp add: MAX_SAFE_INTEGER_def)
  have s: "sint (word_of_int j :: i64) = j" if "\<bar>j\<bar> \<le> 2 ^ 53" for j
    using that by (simp add: sint_sbintrunc' signed_take_bit_int_eq_self)
  show ?thesis using s [of "- int i"] s [of "int i"] b by (simp add: json_int_def json_of_i64_def whole_number_def)
qed

lemma number_reads_back:
  assumes "number_text n = Ok t" and "wf_value (JNumber n)" and "delimited r"
  shows "parse_number (t @ r) = Ok (JNumber (canon_number n), r)"
proof (cases n)
  case (PosInt u)
  with assms(1) have t: "t = dec_int_str (uint u)" "\<bar>uint u\<bar> \<le> int MAX_SAFE_INTEGER"
    by (auto simp: safe_integer_def split: if_splits)
  have "unat u \<le> MAX_SAFE_INTEGER" using t(2) by (simp only: uint_nat)
  from json_int_whole [OF this, of False] have "json_int (uint u) = JNumber (PosInt u)"
    unfolding uint_nat whole_number_def if_False by (simp only: simp_thms if_False of_nat_unat ucast_id)
  with parse_number_int [OF t(2) assms(3)] PosInt t show ?thesis by simp
next
  case (NegInt i)
  with assms(1) have t: "t = dec_int_str (sint i)" "\<bar>sint i\<bar> \<le> int MAX_SAFE_INTEGER"
    by (auto simp: safe_integer_def split: if_splits)
  have "json_int (sint i) = JNumber (NegInt i)" using assms(2) NegInt by (simp add: json_int_def json_of_i64_def)
  with parse_number_int [OF t(2) assms(3)] NegInt t show ?thesis by simp
next
  case (FloatN f)
  with assms(1) have t: "float_text f = Some t" by simp
  show ?thesis
  proof (cases "mag_integral (f64_mag f)")
    case True
    define i where "i = mag_units (f64_mag f) div SCALE"
    from float_text_integral [OF t True] have "t = dec_int_str (if f64_neg f then - int i else int i)" "i \<le> MAX_SAFE_INTEGER"
      by (simp_all add: i_def)
    with parse_number_int [of "if f64_neg f then - int i else int i" r] assms(3) json_int_whole [of i "f64_neg f"]
    show ?thesis by (simp add: FloatN True i_def)
  next
    case False
    with parse_number_fraction [OF t False assms(3)] FloatN show ?thesis by simp
  qed
qed

section \<open>Values read back\<close>

definition reads_back :: "json \<Rightarrow> bool" where
  "reads_back v \<longleftrightarrow> (\<forall>depth t r. write_value depth v = Ok t \<longrightarrow> delimited r \<longrightarrow>
     parse_value depth (t @ r) = Ok (canon_value v, r))"

lemma delimiters [simp]: "delimited (CHR '','' # r)" "delimited (CHR '']'' # r)" "delimited (CHR 0x7D # r)" "delimited []"
  by (simp_all add: delimited_def is_ascii_digit_def)

lemma skip_ws_starts: "starts (\<lambda>c. c \<notin> {CHR '' '', CHR 0x09, CHR 0x0A, CHR 0x0D}) s \<Longrightarrow> skip_ws s = s"
  by (cases s) (simp_all add: skip_ws_def)

lemma skip_ws_delim [simp]:
  "skip_ws (CHR '','' # r) = CHR '','' # r" "skip_ws (CHR '']'' # r) = CHR '']'' # r"
  "skip_ws (CHR 0x7D # r) = CHR 0x7D # r" "skip_ws (CHR '':'' # r) = CHR '':'' # r"
  "skip_ws (CHR 0x22 # r) = CHR 0x22 # r"
  by (simp_all add: skip_ws_def)

definition value_start :: "char \<Rightarrow> bool" where
  "value_start c \<longleftrightarrow> c \<in> set ''-ntf['' \<or> c = CHR 0x7B \<or> c = CHR 0x22 \<or> is_ascii_digit c"

lemma dec_starts: "starts (\<lambda>c. c = CHR ''-'' \<or> is_ascii_digit c) (dec_int_str i @ r)"
  using dec_facts [of "nat i"] dec_facts [of "nat (- i)"]
  by (cases "radix_str 10 (nat i)") (auto simp: dec_int_str_def)

lemma token_starts: "plain_decimal ip \<Longrightarrow> starts (\<lambda>c. c = CHR ''-'' \<or> is_ascii_digit c) (token neg ip fp ex @ r)"
  by (cases ip) (auto simp: token_def plain_decimal_def)

lemma number_text_starts:
  assumes "number_text n = Ok t"
  shows "starts (\<lambda>c. c = CHR ''-'' \<or> is_ascii_digit c) (t @ r)"
proof (cases n)
  case (FloatN f)
  with assms have t: "float_text f = Some t" by simp
  show ?thesis
  proof (cases "mag_integral (f64_mag f)")
    case True
    with float_text_integral [OF t] dec_starts show ?thesis by auto
  next
    case False
    obtain d x where "shortest (f64_mag f) = (d, x)" by (cases "shortest (f64_mag f)")
    with float_text_fraction [OF t False] token_starts show ?thesis by blast
  qed
qed (use assms dec_starts in \<open>auto simp: safe_integer_def split: if_splits\<close>)

lemma write_value_starts:
  assumes "write_value depth v = Ok t"
  shows "starts value_start (t @ r)"
proof (cases v)
  case (JNumber n)
  then have "number_text n = Ok t" using assms by (auto simp: write_value.simps [of depth "JNumber n"] split: if_splits)
  from number_text_starts [OF this, of r] show ?thesis by (auto simp: value_start_def starts_def)
qed (use assms in \<open>auto simp: write_value.simps [of depth "_ :: json"] value_start_def write_string_def rbind_eq_Inr split: if_splits\<close>)

lemma value_start_ws: "value_start c \<Longrightarrow> c \<notin> {CHR '' '', CHR 0x09, CHR 0x0A, CHR 0x0D} \<and> c \<noteq> CHR '']'' \<and> c \<noteq> CHR 0x7D"
  by (auto simp: value_start_def is_ascii_digit_def)

lemma skip_ws_value: "write_value depth v = Ok t \<Longrightarrow> skip_ws (t @ r) = t @ r"
  using write_value_starts [of depth v t r] value_start_ws by (intro skip_ws_starts) (auto simp: starts_def)

lemma write_items_False:
  "write_items False (w # ws) = Ok u \<Longrightarrow> \<exists>u'. u = CHR '','' # u' \<and> write_items True (w # ws) = Ok u'"
  by (auto simp: rbind_eq_Inr)

lemma write_items_True:
  "write_items True (w # ws) = Ok body \<Longrightarrow>
   \<exists>t u. w = Ok t \<and> body = t @ u \<and>
     (ws = [] \<and> u = [] \<or> (\<exists>u'. ws \<noteq> [] \<and> u = CHR '','' # u' \<and> write_items True ws = Ok u'))"
  by (cases ws) (auto simp: rbind_eq_Inr)

lemma items_read_back:
  assumes "\<forall>v\<in>set vs. reads_back v" and "vs \<noteq> []"
    and "write_items True (map (write_value (Suc depth)) vs) = Ok body"
  shows "parse_items depth acc (body @ CHR '']'' # r) = Ok (JArray (acc @ map canon_value vs), r)"
  using assms
proof (induction vs arbitrary: acc body)
  case (Cons v vs)
  from write_items_True [OF Cons.prems(3) [unfolded list.map]] obtain t u
    where t: "write_value (Suc depth) v = Ok t" and b: "body = t @ u"
      and u: "vs = [] \<and> u = [] \<or> (\<exists>u'. vs \<noteq> [] \<and> u = CHR '','' # u' \<and> write_items True (map (write_value (Suc depth)) vs) = Ok u')"
    by auto
  have "parse_value (Suc depth) (t @ q) = Ok (canon_value v, q)" if "delimited q" for q
    using Cons.prems(1) t that by (simp add: reads_back_def)
  with u Cons show ?case
    by (auto simp: parse_items.simps [of depth acc] b skip_ws_value [OF t])
qed simp

lemma members_read_back:
  assumes "\<forall>(k, v)\<in>set es. valid_str k \<and> reads_back v" and "es \<noteq> []"
    and "distinct (map fst es)" and "fst ` set acc \<inter> fst ` set es = {}"
    and "write_items True (map write_member (map (\<lambda>(k, v). (k, write_value (Suc depth) v)) es)) = Ok body"
  shows "parse_members depth acc (body @ CHR 0x7D # r) = Ok (JObject (acc @ map (\<lambda>(k, v). (k, canon_value v)) es), r)"
  using assms
proof (induction es arbitrary: acc body)
  case (Cons e es)
  obtain k v where e: "e = (k, v)" by (cases e)
  from write_items_True [OF Cons.prems(5) [unfolded list.map]] obtain m u
    where m: "write_member (k, write_value (Suc depth) v) = Ok m" and b: "body = m @ u"
      and u: "es = [] \<and> u = [] \<or> (\<exists>u'. es \<noteq> [] \<and> u = CHR '','' # u' \<and>
        write_items True (map write_member (map (\<lambda>(k, v). (k, write_value (Suc depth) v)) es)) = Ok u')"
    by (auto simp: e)
  from m obtain q t where q: "write_string k = Ok q" and t: "write_value (Suc depth) v = Ok t" and mt: "m = q @ '':'' @ t"
    by (auto simp: write_member_def rbind_eq_Inr)
  have k: "valid_str k" "reads_back v" "k \<notin> fst ` set acc" using Cons.prems by (auto simp: e)
  from write_string_reads_back [OF k(1) q] obtain q' where q': "q = CHR 0x22 # q'" "\<And>r. parse_string [] (q' @ r) = Ok (k, r)"
    by blast
  have v: "parse_value (Suc depth) (t @ z) = Ok (canon_value v, z)" if "delimited z" for z
    using k(2) t that by (simp add: reads_back_def)
  have step: "parse_members depth acc (body @ CHR 0x7D # r) =
    (case strip_prefix '','' (u @ CHR 0x7D # r) of
       Some r4 \<Rightarrow> parse_members depth (acc @ [(k, canon_value v)]) r4
     | None \<Rightarrow> Ok (JObject (acc @ [(k, canon_value v)]), r))"
    using u k(3) v [of "u @ CHR 0x7D # r"]
    by (auto simp: parse_members.simps [of depth acc] b mt q' skip_ws_value [OF t])
  show ?case
  proof (cases "es = []")
    case True
    with u step show ?thesis by (simp add: e)
  next
    case False
    with u obtain u' where u': "u = CHR '','' # u'"
      "write_items True (map write_member (map (\<lambda>(k, v). (k, write_value (Suc depth) v)) es)) = Ok u'" by blast
    have "fst ` set (acc @ [(k, canon_value v)]) \<inter> fst ` set es = {}" using Cons.prems(3,4) by (auto simp: e)
    with Cons.IH [OF _ False _ this u'(2)] Cons.prems(1,3) step u' show ?thesis by (simp add: e)
  qed
qed simp

lemma insort_map: "insort_key f (h x) (map h xs) = map h (insort_key (\<lambda>y. f (h y)) x xs)"
  by (induction xs) simp_all

lemma sort_key_map: "sort_key f (map h xs) = map h (sort_key (\<lambda>y. f (h y)) xs)"
  by (induction xs) (simp_all add: insort_map)

lemma sort_entries_map: "sort_entries (map (\<lambda>(k, v). (k, g v)) es) = map (\<lambda>(k, v). (k, g v)) (sort_entries es)"
  by (simp add: sort_key_map split_beta)

lemma write_value_object:
  "write_value depth (JObject es) =
    (if depth > MAX_DEPTH then Err TooDeep
     else rbind (write_items True (map write_member (map (\<lambda>(k, v). (k, write_value (Suc depth) v)) (sort_entries es))))
       (\<lambda>t. Ok (CHR 0x7B # t @ [CHR 0x7D])))"
  by (simp add: write_value.simps [of depth "JObject es"] sort_entries_map)

lemma write_value_array:
  "write_value depth (JArray vs) =
    (if depth > MAX_DEPTH then Err TooDeep
     else rbind (write_items True (map (write_value (Suc depth)) vs)) (\<lambda>t. Ok (''['' @ t @ '']'')))"
  by (simp add: write_value.simps [of depth "JArray vs"])

lemma value_reads_back: "wf_value v \<Longrightarrow> reads_back v"
proof (induction v)
  case JNull
  show ?case by (simp add: reads_back_def write_value.simps [of _ JNull] parse_value.simps [of _ "_ # _"])
next
  case (JBool b)
  show ?case by (cases b) (simp_all add: reads_back_def write_value.simps [of _ "JBool _"] parse_value.simps [of _ "_ # _"])
next
  case (JNumber n)
  show ?case unfolding reads_back_def
  proof (intro allI impI)
    fix depth t r assume w: "write_value depth (JNumber n) = Ok t" and r: "delimited r"
    then have d: "\<not> MAX_DEPTH < depth" and n: "number_text n = Ok t"
      by (auto simp: write_value.simps [of depth "JNumber n"] split: if_splits)
    from number_text_starts [OF n, of r] obtain c s where s: "t @ r = c # s" "c = CHR ''-'' \<or> is_ascii_digit c"
      by (cases "t @ r") auto
    then have "c \<noteq> CHR 0x7B" "c \<noteq> CHR ''[''" "c \<noteq> CHR 0x22" "CHR ''t'' \<noteq> c" "CHR ''f'' \<noteq> c" "CHR ''n'' \<noteq> c"
      by (auto simp: is_ascii_digit_def)
    with s have "parse_value depth (t @ r) = parse_number (t @ r)"
      using d by (simp add: parse_value.simps [of depth "_ # _"])
    then show "parse_value depth (t @ r) = Ok (canon_value (JNumber n), r)"
      using number_reads_back [OF n JNumber r] by simp
  qed
next
  case (JString s)
  show ?case unfolding reads_back_def
  proof (intro allI impI)
    fix depth t r assume w: "write_value depth (JString s) = Ok t"
    then have d: "\<not> MAX_DEPTH < depth" and n: "write_string s = Ok t"
      by (auto simp: write_value.simps [of depth "JString s"] split: if_splits)
    with write_string_reads_back [OF _ n] JString d
    show "parse_value depth (t @ r) = Ok (canon_value (JString s), r)"
      by (auto simp: parse_value.simps [of depth "_ # _"])
  qed
next
  case (JArray vs)
  then have vs: "\<forall>v\<in>set vs. reads_back v" by simp
  show ?case unfolding reads_back_def
  proof (intro allI impI)
    fix depth t r assume "write_value depth (JArray vs) = Ok t"
    then obtain b where d: "\<not> MAX_DEPTH < depth" and b: "write_items True (map (write_value (Suc depth)) vs) = Ok b"
      and t: "t = ''['' @ b @ '']''" by (auto simp: write_value_array rbind_eq_Inr split: if_splits)
    show "parse_value depth (t @ r) = Ok (canon_value (JArray vs), r)"
    proof (cases "vs = []")
      case False
      then obtain v ws where "vs = v # ws" by (cases vs) auto
      from write_items_True [OF b [unfolded this list.map]]
      obtain u q where u: "write_value (Suc depth) v = Ok u" "b = u @ q" by blast
      with write_value_starts [OF u(1), of "q @ CHR '']'' # r"] obtain c s where c: "b @ CHR '']'' # r = c # s" "value_start c"
        by (cases "u @ q @ CHR '']'' # r") auto
      then have "strip_prefix '']'' (b @ CHR '']'' # r) = None" using value_start_ws [OF c(2)] by auto
      then show ?thesis
        using d items_read_back [OF vs False b, of "[]" r] skip_ws_value [OF u(1), of "q @ CHR '']'' # r"]
        by (simp add: t u(2) parse_value.simps [of depth "_ # _"])
    qed (use b d t in \<open>simp add: parse_value.simps [of depth "_ # _"]\<close>)
  qed
next
  case (JObject es)
  define ss where "ss = sort_entries es"
  have rb: "\<forall>(k, v)\<in>set ss. valid_str k \<and> reads_back v" using JObject by (fastforce simp: ss_def)
  have "mset (map fst ss) = mset (map fst es)" by (simp add: ss_def)
  then have dis: "distinct (map fst ss)" using JObject.prems by (metis wf_value.simps(4) mset_eq_imp_distinct_iff)
  show ?case unfolding reads_back_def
  proof (intro allI impI)
    fix depth t r assume "write_value depth (JObject es) = Ok t"
    then obtain b where d: "\<not> MAX_DEPTH < depth"
      and b: "write_items True (map write_member (map (\<lambda>(k, v). (k, write_value (Suc depth) v)) ss)) = Ok b"
      and t: "t = CHR 0x7B # b @ [CHR 0x7D]" by (auto simp: write_value_object ss_def [symmetric] rbind_eq_Inr split: if_splits)
    have canon: "canon_value (JObject es) = JObject (map (\<lambda>(k, v). (k, canon_value v)) ss)"
      by (simp add: sort_entries_map ss_def)
    show "parse_value depth (t @ r) = Ok (canon_value (JObject es), r)"
    proof (cases "ss = []")
      case False
      then obtain e ws where "ss = e # ws" by (cases ss) auto
      from write_items_True [OF b [unfolded this list.map]]
      obtain m q where "write_member ((\<lambda>(k, v). (k, write_value (Suc depth) v)) e) = Ok m" "b = m @ q" by blast
      then obtain u where u: "b = CHR 0x22 # u" by (auto simp: write_member_def write_string_def rbind_eq_Inr)
      then show ?thesis
        using d members_read_back [OF rb False dis _ b, of "[]" r]
        by (simp add: t canon del: canon_value.simps add: parse_value.simps [of depth "_ # _"])
    qed (use b d t in \<open>simp add: canon del: canon_value.simps add: parse_value.simps [of depth "_ # _"]\<close>)
  qed
qed

section \<open>The canonical form\<close>

lemma sort_entries_idem: "sort_entries (sort_entries es) = sort_entries es"
  by (simp add: sort_key_id_if_sorted)

lemma number_text_canon:
  assumes "number_text n = Ok t"
  shows "number_text (canon_number n) = Ok t"
proof (cases n)
  case (FloatN f)
  with assms have t: "float_text f = Some t" by simp
  show ?thesis
  proof (cases "mag_integral (f64_mag f)")
    case True
    define i where "i = mag_units (f64_mag f) div SCALE"
    have i: "t = dec_int_str (if f64_neg f then - int i else int i)" "i \<le> MAX_SAFE_INTEGER"
      using float_text_integral [OF t True] by (simp_all add: i_def)
    have "number_text (whole_number (f64_neg f) i) = Ok t"
    proof (cases "f64_neg f \<and> i \<noteq> 0")
      case True
      have "sint (word_of_int (- int i) :: i64) = - int i"
        unfolding sint_sbintrunc' using i(2) by (intro signed_take_bit_int_eq_self) (simp_all add: MAX_SAFE_INTEGER_def)
      with True i show ?thesis by (simp add: whole_number_def safe_integer_def)
    next
      case False
      have "uint (of_nat i :: u64) = int i"
        using i(2) by (simp add: unsigned_of_nat take_bit_nat_eq_self MAX_SAFE_INTEGER_def)
      with False i show ?thesis by (auto simp: whole_number_def safe_integer_def)
    qed
    with True FloatN show ?thesis by (simp add: i_def)
  qed (use assms FloatN in simp)
qed (use assms in simp_all)

lemma write_items_cong:
  "list_all2 (\<lambda>w w'. \<forall>t. w = Ok t \<longrightarrow> w' = Ok t) ws ws' \<Longrightarrow> write_items b ws = Ok t \<Longrightarrow> write_items b ws' = Ok t"
  by (induction ws ws' arbitrary: b t rule: list_all2_induct) (auto simp: rbind_eq_Inr)

lemma write_value_canon: "write_value depth v = Ok t \<Longrightarrow> write_value depth (canon_value v) = Ok t"
proof (induction v arbitrary: depth t)
  case (JNumber n)
  then show ?case by (auto simp: write_value.simps [of depth "JNumber _"] number_text_canon split: if_splits)
next
  case (JArray vs)
  have "list_all2 (\<lambda>w w'. \<forall>t. w = Ok t \<longrightarrow> w' = Ok t)
      (map (write_value (Suc depth)) vs) (map (write_value (Suc depth)) (map canon_value vs))"
    using JArray.IH by (simp add: list_all2_map1 list_all2_map2 list_all2_same)
  from write_items_cong [OF this, of True] JArray.prems show ?case
    by (auto simp: write_value_array rbind_eq_Inr split: if_splits)
next
  case (JObject es)
  have "list_all2 (\<lambda>w w'. \<forall>t. w = Ok t \<longrightarrow> w' = Ok t)
      (map write_member (map (\<lambda>(k, v). (k, write_value (Suc depth) v)) (sort_entries es)))
      (map write_member (map (\<lambda>(k, v). (k, write_value (Suc depth) (canon_value v))) (sort_entries es)))"
    using JObject.IH by (fastforce simp: list_all2_map1 list_all2_map2 write_member_def rbind_eq_Inr list_all2_same)
  from write_items_cong [OF this, of True] have
    "write_items True (map write_member (map (\<lambda>(k, v). (k, write_value (Suc depth) v)) (sort_entries es))) = Ok b \<Longrightarrow>
     write_items True (map write_member (map (\<lambda>(k, v). (k, write_value (Suc depth) v))
       (map (\<lambda>(k, v). (k, canon_value v)) (sort_entries es)))) = Ok b" for b
    by (simp add: comp_def split_beta)
  with JObject.prems show ?case
    unfolding canon_value.simps write_value_object sort_entries_map sort_entries_idem
    by (fastforce simp only: rbind_eq_Inr split: if_splits)
qed simp_all

section \<open>What the strict parser accepts\<close>

definition good_string :: "str \<Rightarrow> bool" where
  "good_string s \<longleftrightarrow> valid_str s \<and> CHR 0x00 \<notin> set s"

lemma good_string_chars:
  "list_all is_scalar cs \<Longrightarrow> 0 \<notin> set cs \<Longrightarrow> good_string (str_of_chars cs)"
proof -
  assume cs: "list_all is_scalar cs" "0 \<notin> set cs"
  have "b \<noteq> 0" if "c \<noteq> 0" "b \<in> set (utf8_encode_char c)" for b c
    using that by (auto simp: utf8_encode_char_def split: if_splits)
  then have "0 \<notin> set (utf8_encode_char c)" if "c \<in> set cs" for c using that cs(2) by metis
  then have "0 \<notin> set (map ord (str_of_chars cs))"
    unfolding map_ord_str_of_chars [OF cs(1)] by auto
  then have "CHR 0x00 \<notin> set (str_of_chars cs)" by (auto simp: image_iff)
  then show ?thesis using valid_str_of_chars [OF cs(1)] by (simp add: good_string_def)
qed

lemma next_char_scalar: "next_char s = Some (c, r) \<Longrightarrow> is_scalar c"
  by (cases s) (auto simp: next_char.simps Let_def split: option.splits list.splits dest: utf8_encode_decode)

lemma parse_escape_scalar: "parse_escape s = Ok (c, r) \<Longrightarrow> is_scalar c \<and> c \<noteq> 0"
  by (cases s) (auto simp: parse_unicode_def rbind_eq_Inr is_scalar_def split: if_splits)

lemma parse_string_good:
  "parse_string out s = Ok (t, r) \<Longrightarrow> \<exists>cs. t = out @ str_of_chars cs \<and> list_all is_scalar cs \<and> 0 \<notin> set cs"
proof (induction out s rule: parse_string.induct)
  case (1 out s)
  from "1.prems" obtain c r1 where c: "next_char s = Some (c, r1)"
    by (subst (asm) parse_string.simps) (auto split: option.splits)
  note step = "1.prems" [unfolded parse_string.simps [of out s] c, simplified]
  consider "c = 0x22" | "c = 0x5C" | "c \<noteq> 0x22" "c \<noteq> 0x5C" by blast
  then show ?case
  proof cases
    case 1
    with step show ?thesis by (auto intro: exI [of _ "[]"])
  next
    case 2
    with step obtain d r2 where d: "parse_escape r1 = Ok (d, r2)" "parse_string (out @ str_of_chars [d]) r2 = Ok (t, r)"
      by (auto simp: rbind_eq_Inr)
    from "1.IH"(1) [OF c refl _ 2 d(1) refl d(2)] 2 obtain cs where
      "t = out @ str_of_chars [d] @ str_of_chars cs" "list_all is_scalar cs" "0 \<notin> set cs" by auto
    with parse_escape_scalar [OF d(1)] str_of_chars_append [of "[d]" cs] show ?thesis
      by (intro exI [of _ "d # cs"]) simp
  next
    case 3
    with step have s: "\<not> c < 0x20" "parse_string (out @ str_of_chars [c]) r1 = Ok (t, r)" by (auto split: if_splits)
    from "1.IH"(2) [OF c refl 3 s] obtain cs where
      "t = out @ str_of_chars [c] @ str_of_chars cs" "list_all is_scalar cs" "0 \<notin> set cs" by auto
    with next_char_scalar [OF c] s str_of_chars_append [of "[c]" cs] show ?thesis
      by (intro exI [of _ "c # cs"]) auto
  qed
qed

definition encodes :: "nat \<Rightarrow> json \<Rightarrow> bool" where
  "encodes depth v \<longleftrightarrow> wf_value v \<and> (\<exists>t. write_value depth v = Ok t)"

lemma write_items_total: "\<forall>w\<in>set ws. \<exists>t. w = Ok t \<Longrightarrow> \<exists>t. write_items b ws = Ok t"
  by (induction ws arbitrary: b) (auto simp: rbind_eq_Inr)

lemma encodes_array:
  assumes "\<not> MAX_DEPTH < depth" "\<forall>v\<in>set vs. encodes (Suc depth) v"
  shows "encodes depth (JArray vs)"
proof -
  have "\<exists>t. write_items True (map (write_value (Suc depth)) vs) = Ok t"
    using assms(2) by (intro write_items_total) (auto simp: encodes_def)
  then show ?thesis using assms by (auto simp: encodes_def write_value_array)
qed

lemma write_string_good: "good_string s \<Longrightarrow> \<exists>t. write_string s = Ok t"
  by (simp add: write_string_def check_string_def good_string_def)

definition good_entries :: "nat \<Rightarrow> (str \<times> json) list \<Rightarrow> bool" where
  "good_entries depth es \<longleftrightarrow> distinct (map fst es) \<and> (\<forall>(k, v)\<in>set es. good_string k \<and> encodes depth v)"

lemma encodes_object:
  assumes "\<not> MAX_DEPTH < depth" "good_entries (Suc depth) es"
  shows "encodes depth (JObject es)"
proof -
  have "\<exists>t. write_items True (map write_member (map (\<lambda>(k, v). (k, write_value (Suc depth) v)) (sort_entries es))) = Ok t"
    using assms(2) write_string_good
    by (intro write_items_total) (fastforce simp: good_entries_def encodes_def write_member_def)
  then show ?thesis using assms by (auto simp: encodes_def write_value_object good_entries_def good_string_def)
qed

lemma json_int_encodes:
  assumes "\<bar>i\<bar> \<le> int MAX_SAFE_INTEGER" "\<not> MAX_DEPTH < depth"
  shows "encodes depth (json_int i)"
proof -
  have s: "sint (word_of_int i :: i64) = i"
    unfolding sint_sbintrunc' using assms(1) by (intro signed_take_bit_int_eq_self) (simp_all add: MAX_SAFE_INTEGER_def)
  have "0 \<le> i \<Longrightarrow> uint (word_of_int i :: u64) = i"
    using assms(1) by (simp add: unsigned_of_int take_bit_int_eq_self MAX_SAFE_INTEGER_def)
  with s assms show ?thesis
    by (auto simp: encodes_def json_int_def json_of_i64_def write_value.simps [of depth "JNumber _"] safe_integer_def)
qed

lemma parse_number_encodes:
  assumes "parse_number s = Ok (v, r)" "\<not> MAX_DEPTH < depth"
  shows "encodes depth v"
proof -
  from assms(1) obtain b t where n: "number_of_token b t = Ok v" by (auto simp: parse_number_def rbind_eq_Inr)
  show ?thesis
  proof (cases b)
    case True
    with n obtain i where "v = json_int i" "\<bar>i\<bar> \<le> int MAX_SAFE_INTEGER"
      by (auto simp: number_of_token_def json_int_def safe_integer_def rbind_eq_Inr split: if_splits)
    with json_int_encodes assms(2) show ?thesis by blast
  next
    case False
    define f where "f = parse_f64 t"
    from False n have ft: "float_text f = Some t" by (simp add: number_of_token_def f_def split: if_splits)
    then have "is_finite f" by (auto simp: float_text_def split: if_splits)
    with False n have "v = JNumber (FloatN f)" by (simp add: number_of_token_def f_def split: if_splits)
    with ft assms(2) show ?thesis by (simp add: encodes_def write_value.simps [of depth "JNumber _"])
  qed
qed

lemma parse_string_good_string: "parse_string [] s = Ok (t, r) \<Longrightarrow> good_string t"
  using parse_string_good [of "[]" s t r] good_string_chars by auto

lemma parse_encodes:
  shows "parse_value d s = Ok (v, r) \<Longrightarrow> encodes d v"
    and "\<not> MAX_DEPTH < d \<Longrightarrow> good_entries (Suc d) ms \<Longrightarrow> parse_members d ms s = Ok (v, r) \<Longrightarrow> encodes d v"
    and "\<not> MAX_DEPTH < d \<Longrightarrow> \<forall>w\<in>set vs. encodes (Suc d) w \<Longrightarrow> parse_items d vs s = Ok (v, r) \<Longrightarrow> encodes d v"
proof (induction d s and d ms s and d vs s arbitrary: v r and v r and v r rule: parse_value_parse_members_parse_items.induct)
  case (1 depth s)
  note h = "1.prems" [unfolded parse_value.simps [of depth s]]
  from h have d: "\<not> MAX_DEPTH < depth" by (auto split: if_splits)
  from h obtain c t where s: "s = c # t" by (cases s) (auto split: if_splits)
  note h' = h [unfolded s list.case if_not_P [OF d]]
  have lit: "encodes depth JNull" "encodes depth (JBool b)" for b
    using d by (simp_all add: encodes_def write_value.simps [of depth])
  consider "c = CHR 0x7B" | "c = CHR ''[''" | "c = CHR 0x22" "c \<noteq> CHR 0x7B" "c \<noteq> CHR ''[''"
    | "c \<noteq> CHR 0x7B" "c \<noteq> CHR ''[''" "c \<noteq> CHR 0x22" by blast
  then show ?case
  proof cases
    case 1
    have nil: "good_entries (Suc depth) []" by (simp add: good_entries_def)
    show ?thesis
    proof (cases "strip_prefix [CHR 0x7D] (skip_ws t)")
      case None
      with h' 1 have "parse_members depth [] (skip_ws t) = Ok (v, r)" by simp
      with "1.IH"(1) [OF d s 1 None d nil] show ?thesis by blast
    next
      case (Some r1)
      with h' 1 have "v = JObject []" by simp
      with encodes_object [OF d nil] show ?thesis by simp
    qed
  next
    case 2
    then have c: "c \<noteq> CHR 0x7B" by simp
    show ?thesis
    proof (cases "strip_prefix '']'' (skip_ws t)")
      case None
      with h' 2 have "parse_items depth [] (skip_ws t) = Ok (v, r)" by simp
      with "1.IH"(2) [OF d s c 2 None d] show ?thesis by simp
    next
      case (Some r1)
      with h' 2 have "v = JArray []" by simp
      with encodes_array [OF d] show ?thesis by simp
    qed
  next
    case 3
    with h' obtain u where "parse_string [] t = Ok (u, r)" "v = JString u" by (auto simp: rbind_eq_Inr)
    with parse_string_good_string write_string_good d show ?thesis
      by (auto simp: encodes_def write_value.simps [of depth "JString _"] good_string_def)
  next
    case 4
    with h' have "v = JNull \<or> (\<exists>b. v = JBool b) \<or> parse_number (c # t) = Ok (v, r)"
      by (auto simp del: strip_prefix.simps split: if_splits)
    with lit d show ?thesis by (auto dest: parse_number_encodes)
  qed
next
  case (2 depth acc s)
  note h = "2.prems"(3) [unfolded parse_members.simps [of depth acc s]]
  from h obtain t key r1 where t: "skip_ws s = CHR 0x22 # t" and key: "parse_string [] t = Ok (key, r1)"
    by (auto simp: rbind_eq_Inr split: list.splits if_splits)
  note h1 = h [unfolded t list.case, simplified, unfolded key, simplified]
  from h1 obtain r2 w r3 where r2: "strip_prefix '':'' (skip_ws r1) = Some r2"
    and w: "parse_value (depth + 1) (skip_ws r2) = Ok (w, r3)" and k: "key \<notin> fst ` set acc"
    by (auto simp: rbind_eq_Inr split: option.splits if_splits)
  have "encodes (Suc depth) w" using "2.IH"(1) [OF t _ key refl r2 w] by simp
  with "2.prems"(2) k parse_string_good_string [OF key] have g: "good_entries (Suc depth) (acc @ [(key, w)])"
    by (auto simp: good_entries_def)
  show ?case
  proof (cases "strip_prefix '','' (skip_ws r3)")
    case None
    with h1 r2 w k have "v = JObject (acc @ [(key, w)])" by (auto split: option.splits)
    with encodes_object [OF "2.prems"(1) g] show ?thesis by simp
  next
    case (Some r4)
    with h1 r2 w k have "parse_members depth (acc @ [(key, w)]) r4 = Ok (v, r)" by simp
    with "2.IH"(2) [OF t _ key refl r2 w refl k Some "2.prems"(1) g] show ?thesis by simp
  qed
next
  case (3 depth acc s)
  note h = "3.prems"(3) [unfolded parse_items.simps [of depth acc s]]
  from h obtain w r3 where w: "parse_value (depth + 1) (skip_ws s) = Ok (w, r3)" by (auto simp: rbind_eq_Inr)
  from "3.IH"(1) [OF w] "3.prems"(2) have g: "\<forall>x\<in>set (acc @ [w]). encodes (Suc depth) x" by auto
  show ?case
  proof (cases "strip_prefix '','' (skip_ws r3)")
    case None
    with h w have "v = JArray (acc @ [w])" by (auto split: option.splits)
    with encodes_array [OF "3.prems"(1) g] show ?thesis by simp
  next
    case (Some r4)
    with h w have "parse_items depth (acc @ [w]) r4 = Ok (v, r)" by simp
    with "3.IH"(2) [OF w refl Some "3.prems"(1) g] show ?thesis by simp
  qed
qed

section \<open>What the visitor accepts\<close>

definition fine :: "canonical_payload_error + 'a \<Rightarrow> bool" where
  "fine w \<longleftrightarrow> w = Err TooDeep \<or> (\<exists>t. w = Ok t)"

lemma fine_simps [simp]: "fine (Ok t)" "fine (Err TooDeep)"
  by (simp_all add: fine_def)

lemma fine_rbind: "fine w \<Longrightarrow> (\<And>t. w = Ok t \<Longrightarrow> fine (f t)) \<Longrightarrow> fine (rbind w f)"
  by (auto simp: fine_def)

lemma write_items_fine: "\<forall>w\<in>set ws. fine w \<Longrightarrow> fine (write_items b ws)"
  by (induction ws arbitrary: b) (auto intro!: fine_rbind)

lemma fine_leaves:
  "fine (write_value depth JNull)" "fine (write_value depth (JBool b))"
  "number_text n = Ok t \<Longrightarrow> fine (write_value depth (JNumber n))"
  "CHR 0x00 \<notin> set s \<Longrightarrow> fine (write_value depth (JString s))"
  by (simp_all add: write_value.simps [of depth "_ :: json"] write_string_def check_string_def)

lemma fine_array: "\<forall>v\<in>set vs. fine (write_value (Suc depth) v) \<Longrightarrow> fine (write_value depth (JArray vs))"
  by (auto simp: write_value_array intro!: fine_rbind write_items_fine)

lemma fine_object:
  assumes "\<forall>(k, v)\<in>set es. CHR 0x00 \<notin> set k \<and> fine (write_value (Suc depth) v)"
  shows "fine (write_value depth (JObject es))"
proof -
  have "fine (write_member (k, write_value (Suc depth) v))" if "(k, v) \<in> set es" for k v
    using that assms by (auto simp: write_member_def write_string_def check_string_def intro!: fine_rbind)
  then show ?thesis by (auto simp: write_value_object intro!: fine_rbind write_items_fine)
qed

lemma visit_seq_elems: "visit_seq ws = Ok vs \<Longrightarrow> \<forall>v\<in>set vs. \<exists>w\<in>set ws. w = Ok v"
  by (induction ws arbitrary: vs) (fastforce simp: rbind_eq_Inr)+

lemma visit_map_entries:
  "visit_map acc ws = Ok es \<Longrightarrow> \<forall>(k, v)\<in>set es. (k, v) \<in> set acc \<or> (k, Ok v) \<in> set ws \<and> CHR 0x00 \<notin> set k"
  by (induction acc ws arbitrary: es rule: visit_map.induct)
    (fastforce simp: rbind_eq_Inr check_string_def split: if_splits)+

lemma visit_fine: "visit c = Ok v \<Longrightarrow> fine (write_value depth v)"
proof (induction c arbitrary: v depth)
  case (CI64 i)
  then have v: "v = json_of_i64 i" and s: "\<bar>sint i\<bar> \<le> int MAX_SAFE_INTEGER"
    by (auto simp: safe_integer_def rbind_eq_Inr split: if_splits)
  then have "v = json_int (sint i)" by (simp add: json_int_def)
  with json_int_encodes [OF s, of depth] show ?case
    by (cases "MAX_DEPTH < depth") (auto simp: encodes_def write_value.simps [of depth "json_int _"])
next
  case (CU64 i)
  then obtain t where "number_text (PosInt i) = Ok t" "v = JNumber (PosInt i)" by (auto simp: rbind_eq_Inr)
  with fine_leaves(3) show ?case by blast
next
  case (CF64 f)
  then obtain t where t: "number_text (FloatN f) = Ok t" "v = JNumber (FloatN f) \<or> v = JNull"
    by (auto split: if_splits)
  with fine_leaves(1,3) show ?case by blast
next
  case (CStr s)
  then show ?case by (auto simp: rbind_eq_Inr check_string_def intro!: fine_leaves)
next
  case (CSeq cs)
  then show ?case by (fastforce simp: rbind_eq_Inr intro!: fine_array dest!: visit_seq_elems)
next
  case (CMap es)
  from CMap.prems obtain ms where ms: "visit_map [] (map (\<lambda>(k, c). (k, visit c)) es) = Ok ms" "v = JObject ms"
    by (auto simp: rbind_eq_Inr)
  from visit_map_entries [OF ms(1)] CMap.IH show ?case
    unfolding ms(2) by (intro fine_object) fastforce
qed (auto intro: fine_leaves)

section \<open>Nesting\<close>

lemma parse_deep_arrays:
  "MAX_DEPTH < depth + n \<Longrightarrow> depth \<le> MAX_DEPTH \<Longrightarrow> parse_value depth (replicate (Suc n) CHR ''['' @ s) = Err TooDeep"
proof (induction n arbitrary: depth)
  case (Suc n)
  have ws: "skip_ws (CHR ''['' # q) = CHR ''['' # q" for q by (simp add: skip_ws_def)
  have "parse_value (Suc depth) (replicate (Suc n) CHR ''['' @ s) = Err TooDeep"
  proof (cases "depth = MAX_DEPTH")
    case True
    then show ?thesis by (simp add: parse_value.simps [of "Suc MAX_DEPTH"])
  next
    case False
    with Suc show ?thesis by simp
  qed
  then show ?case using Suc.prems
    by (simp add: parse_value.simps [of depth] parse_items.simps [of depth] ws)
qed simp

lemma parse_canonical:
  assumes "wf_value v" and "write_value 0 v = Ok t"
  shows "parse_strict t = Ok (canon_value v)"
proof -
  have "parse_value 0 (t @ []) = Ok (canon_value v, [])"
    using value_reads_back [OF assms(1)] assms(2) by (simp only: reads_back_def delimiters)
  moreover have "skip_ws t = t" "skip_ws [] = []" using skip_ws_value [OF assms(2), of "[]"] by (simp_all add: skip_ws_def)
  ultimately show ?thesis by (simp add: parse_strict_def)
qed

section \<open>Properties\<close>

text \<open>C5. Reading a canonical encoding with the strict parser gives the encoded value back, with
  object entries in UTF-16 key order and every integral number in integer form.\<close>

theorem canonical_round_trip:
  assumes "wf_value v" and "canonicalize v = Ok t"
  shows "parse_strict t = Ok (canon_value v)"
  using parse_canonical assms by (simp add: canonicalize_def)

text \<open>Witness: an object with two keys out of order.\<close>

definition demo_payload :: json where
  "demo_payload = JObject [(''b'', JNull), (''a'', JArray [JBool True])]"

definition demo_text :: str where
  "demo_text = [CHR 0x7B, CHR 0x22] @ ''a'' @ [CHR 0x22] @ '':[true],'' @ [CHR 0x22] @ ''b'' @ [CHR 0x22] @ '':null'' @ [CHR 0x7D]"

lemma demo_canonicalizes: "canonicalize demo_payload = Ok demo_text"
  by (simp add: canonicalize_def demo_payload_def write_value_object write_value_array write_value.simps [of _ JNull]
      write_value.simps [of _ "JBool _"] encode_utf16_def encode_utf16_char_def str_chars_def MAX_DEPTH_def
      write_member_def write_string_def check_string_def escape_char_def str_of_chars_def utf8_encode_char_def
      demo_text_def char_of_def bit_Suc_0_iff)

lemma demo_wf: "wf_value demo_payload"
  by (simp add: demo_payload_def valid_str_def)

theorem canonical_round_trip_witness:
  "parse_strict demo_text = Ok (JObject [(''a'', JArray [JBool True]), (''b'', JNull)])"
  using canonical_round_trip [OF demo_wf demo_canonicalizes]
  by (simp add: demo_payload_def encode_utf16_def encode_utf16_char_def str_chars_def)

text \<open>Two payloads have the same canonical bytes exactly when they have the same canonical form:
  the encoding hides the order of object entries and the storage form of numbers, nothing else.\<close>

theorem canonical_bytes_identify:
  assumes "wf_value v" and "wf_value w" and "canonicalize v = Ok t" and "canonicalize w = Ok u"
  shows "t = u \<longleftrightarrow> canon_value v = canon_value w"
proof
  assume "t = u"
  with parse_canonical [of v t] parse_canonical [of w u] assms show "canon_value v = canon_value w"
    by (simp add: canonicalize_def)
next
  assume "canon_value v = canon_value w"
  with assms(3,4) write_value_canon show "t = u" unfolding canonicalize_def by (metis sum.inject(2))
qed

text \<open>Witness: the same entries inserted in the other order.\<close>

theorem canonical_bytes_identify_witness:
  "canonicalize (JObject [(''a'', JArray [JBool True]), (''b'', JNull)]) = Ok demo_text \<and>
   canon_value demo_payload = canon_value (JObject [(''a'', JArray [JBool True]), (''b'', JNull)])"
proof -
  have "canon_value demo_payload = JObject [(''a'', JArray [JBool True]), (''b'', JNull)]"
    by (simp add: demo_payload_def encode_utf16_def encode_utf16_char_def str_chars_def)
  then have t: "canonicalize (JObject [(''a'', JArray [JBool True]), (''b'', JNull)]) = Ok demo_text"
    using write_value_canon [of 0 demo_payload demo_text] demo_canonicalizes by (simp add: canonicalize_def)
  have "wf_value (JObject [(''a'', JArray [JBool True]), (''b'', JNull)])" by (simp add: valid_str_def)
  with t canonical_bytes_identify [OF demo_wf _ demo_canonicalizes t] show ?thesis by blast
qed

text \<open>C40. What the strict parser accepts is a well-formed value that has a canonical encoding: depth,
  numbers, strings and keys are screened alike by parser and writer.\<close>

theorem parse_strict_canonicalizes:
  assumes "parse_strict text = Ok v"
  shows "wf_value v \<and> (\<exists>t. canonicalize v = Ok t \<and> canonicalize_str text = Ok t)"
proof -
  from assms obtain r where "parse_value 0 (skip_ws text) = Ok (v, r)"
    by (auto simp: parse_strict_def rbind_eq_Inr split: if_splits)
  from parse_encodes(1) [OF this] assms show ?thesis
    by (auto simp: encodes_def canonicalize_def canonicalize_str_def)
qed

text \<open>Witness: a small document with white space.\<close>

lemma demo_parses: "parse_strict ''[ ]'' = Ok (JArray [])"
  by (simp add: parse_strict_def parse_value.simps [of 0] skip_ws_def)

theorem parse_strict_canonicalizes_witness: "canonicalize_str ''[ ]'' = canonicalize (JArray [])"
  using parse_strict_canonicalizes [OF demo_parses] by auto

text \<open>A canonical encoding is a fixed point: canonicalizing it again returns it unchanged.\<close>

theorem canonicalize_str_idempotent:
  assumes "canonicalize_str text = Ok t"
  shows "canonicalize_str t = Ok t"
proof -
  from assms obtain v r where v: "parse_value 0 (skip_ws text) = Ok (v, r)" "write_value 0 v = Ok t"
    by (auto simp: canonicalize_str_def canonicalize_def parse_strict_def rbind_eq_Inr split: if_splits)
  then have "parse_strict t = Ok (canon_value v)" using parse_encodes(1) parse_canonical by (auto simp: encodes_def)
  then show ?thesis using write_value_canon [OF v(2)] by (simp add: canonicalize_str_def canonicalize_def)
qed

text \<open>Witness: the same document.\<close>

lemma demo_canonical_str: "canonicalize_str ''[ ]'' = Ok ''[]''"
  by (simp add: canonicalize_str_def parse_strict_def parse_value.simps [of 0] skip_ws_def canonicalize_def write_value_array)

theorem canonicalize_str_idempotent_witness: "canonicalize_str ''[]'' = Ok ''[]''"
  using canonicalize_str_idempotent [OF demo_canonical_str] .

text \<open>A value built by the deserialization visitor canonicalizes, or it nests too deep; no other
  error is left for the hashing step.\<close>

theorem visit_canonicalizes:
  assumes "visit c = Ok v"
  shows "canonicalize v = Err TooDeep \<or> (\<exists>t. canonicalize v = Ok t)"
  using visit_fine [OF assms, of 0] by (simp add: fine_def canonicalize_def)

text \<open>Witness: a map with one entry.\<close>

theorem visit_canonicalizes_witness: "\<exists>t. canonicalize (JObject [(''k'', JNull)]) = Ok t"
proof -
  have "visit (CMap [(''k'', CUnit)]) = Ok (JObject [(''k'', JNull)])" by (simp add: check_string_def)
  from visit_canonicalizes [OF this] show ?thesis
    by (auto simp: canonicalize_def write_value_object write_value.simps [of _ JNull] write_member_def
        write_string_def check_string_def MAX_DEPTH_def)
qed

text \<open>Nesting beyond \<open>MAX_DEPTH\<close> is refused before the rest of the text is looked at.\<close>

theorem deep_nesting_refused:
  assumes "MAX_DEPTH + 2 \<le> n"
  shows "parse_strict (replicate n CHR ''['' @ rest) = Err TooDeep"
proof -
  obtain m where n: "n = Suc m" "MAX_DEPTH < m" using assms by (cases n) auto
  have "skip_ws (replicate n CHR ''['' @ rest) = replicate n CHR ''['' @ rest" by (simp add: n(1) skip_ws_def)
  with parse_deep_arrays [of 0 m rest] n show ?thesis by (simp add: parse_strict_def)
qed

text \<open>Witness: 130 opening brackets.\<close>

theorem deep_nesting_refused_witness: "parse_strict (replicate 130 CHR ''['') = Err TooDeep"
  using deep_nesting_refused [of 130 "[]"] by (simp add: MAX_DEPTH_def)

end
