(* ===== verification/Merkle.thy ===== *)
theory Merkle
  imports Crates_Instance
begin

text \<open>
  Model of \<open>crates/chain/src/merkle.rs\<close>: the RFC 6962 Merkle tree hash over the ledger's leaves,
  audit paths and consistency proofs, and the verifiers a mirror runs. Slices are lists, the
  generic \<open>T: AsRef<[u8]>\<close> is a byte list, \<open>usize\<close> is \<^typ>\<open>nat\<close> (a slice has fewer than
  \<open>2\<^sup>6\<^sup>4\<close> elements; \<open>leading_zeros\<close> is written out at 64 bits).

  Security statements are about the hash actually used: a forged proof yields two different
  messages, both hashed by the verifier or by the honest tree, with one digest.
\<close>

section \<open>Definitions\<close>

definition LEAF_HASH_PREFIX :: u8 where "LEAF_HASH_PREFIX = 0"
definition NODE_HASH_PREFIX :: u8 where "NODE_HASH_PREFIX = 1"

definition empty_root :: "crates \<Rightarrow> HashAlgo \<Rightarrow> bytes" where
  "empty_root C algo = digest C algo []"

definition leaf_hash :: "crates \<Rightarrow> HashAlgo \<Rightarrow> bytes \<Rightarrow> bytes" where
  "leaf_hash C algo data = digest C algo ([LEAF_HASH_PREFIX] @ data)"

definition node_hash :: "crates \<Rightarrow> HashAlgo \<Rightarrow> bytes \<Rightarrow> bytes \<Rightarrow> bytes" where
  "node_hash C algo left right = digest C algo ([NODE_HASH_PREFIX] @ left @ right)"

fun bit_len :: "nat \<Rightarrow> nat" where
  "bit_len n = (if n = 0 then 0 else Suc (bit_len (n div 2)))"

declare bit_len.simps [simp del]

text \<open>\<open>usize::leading_zeros\<close> on a 64-bit target.\<close>

definition leading_zeros :: "nat \<Rightarrow> nat" where
  "leading_zeros n = 64 - bit_len n"

definition split_point :: "nat \<Rightarrow> nat" where
  "split_point n = 2 ^ (64 - 1 - leading_zeros (n - 1))"

lemma bit_len_0 [simp]: "bit_len 0 = 0"
  by (simp add: bit_len.simps)

lemma bit_len_pos: "0 < n \<Longrightarrow> bit_len n = Suc (bit_len (n div 2))"
  by (simp add: bit_len.simps)

lemma bit_len_bounds: "0 < n \<Longrightarrow> 2 ^ (bit_len n - 1) \<le> n \<and> n < 2 ^ bit_len n"
proof (induction n rule: bit_len.induct)
  case (1 n)
  show ?case
  proof (cases "n div 2 = 0")
    case True
    with 1(2) have "n = 1" by linarith
    then show ?thesis by (simp add: bit_len_pos)
  next
    case False
    with 1 have ih: "2 ^ (bit_len (n div 2) - 1) \<le> n div 2" "n div 2 < 2 ^ bit_len (n div 2)" by auto
    from False obtain j where j: "bit_len (n div 2) = Suc j" by (metis bit_len_pos neq0_conv)
    from ih have "2 ^ j \<le> n div 2" and "n div 2 < 2 * 2 ^ j" by (simp_all add: j)
    then have "2 * 2 ^ j \<le> n" and "n < 4 * 2 ^ j" by linarith+
    then show ?thesis by (simp add: bit_len_pos [OF 1(2)] j)
  qed
qed

lemma bit_len_ge: "2 ^ j \<le> n \<Longrightarrow> j < bit_len n"
proof -
  assume a: "2 ^ j \<le> n"
  then have "0 < n" by (metis gr0I le_zero_eq power_not_zero zero_neq_numeral)
  with a have "(2::nat) ^ j < 2 ^ bit_len n" using bit_len_bounds le_less_trans by blast
  then show ?thesis by simp
qed

lemma bit_len_mono: "m \<le> n \<Longrightarrow> bit_len m \<le> bit_len n"
proof (cases "m = 0")
  case False
  assume "m \<le> n"
  with False bit_len_bounds [of m] have "2 ^ (bit_len m - 1) \<le> n" by simp
  then show ?thesis using bit_len_ge by fastforce
qed simp

lemma split_point_eq: "split_point n = 2 ^ (min (bit_len (n - 1)) 64 - 1)"
  by (simp add: split_point_def leading_zeros_def min_def)

lemma split_point_pos [simp]: "0 < split_point n"
  by (simp add: split_point_def)

lemma split_point_less: "2 \<le> n \<Longrightarrow> split_point n < n"
proof -
  assume "2 \<le> n"
  then have "2 ^ (bit_len (n - 1) - 1) \<le> n - 1" using bit_len_bounds [of "n - 1"] by simp
  moreover have "(2::nat) ^ (min (bit_len (n - 1)) 64 - 1) \<le> 2 ^ (bit_len (n - 1) - 1)"
    by (rule power_increasing) auto
  ultimately show ?thesis using \<open>2 \<le> n\<close> unfolding split_point_eq by linarith
qed

lemma split_point_diff: "2 \<le> n \<Longrightarrow> n - split_point n < n"
  using split_point_pos [of n] by linarith

function mth :: "crates \<Rightarrow> HashAlgo \<Rightarrow> bytes list \<Rightarrow> bytes" where
  "mth C algo leaves =
     (let n = length leaves in
      if n = 0 then empty_root C algo
      else if n = 1 then leaf_hash C algo (leaves ! 0)
      else (let k = split_point n in
        node_hash C algo (mth C algo (take k leaves)) (mth C algo (drop k leaves))))"
  by pat_completeness auto
termination
  by (relation "measure (\<lambda>(C, algo, leaves). length leaves)")
    (auto simp: min_def not_le Suc_le_eq neq_Nil_conv intro!: split_point_less)

declare mth.simps [simp del]

fun decode_hex_leaves :: "crates \<Rightarrow> str list \<Rightarrow> str + bytes list" where
  "decode_hex_leaves C [] = Ok []"
| "decode_hex_leaves C (h # hs) =
     (case hex_decode C h of
        None \<Rightarrow> Err (''invalid hex hash `'' @ h)
      | Some b \<Rightarrow> rbind (decode_hex_leaves C hs) (\<lambda>bs. Ok (b # bs)))"

definition mth_of_hex_hashes :: "crates \<Rightarrow> HashAlgo \<Rightarrow> str list \<Rightarrow> str + bytes" where
  "mth_of_hex_hashes C algo hashes = rbind (decode_hex_leaves C hashes) (\<lambda>leaves. Ok (mth C algo leaves))"

function path :: "crates \<Rightarrow> HashAlgo \<Rightarrow> nat \<Rightarrow> bytes list \<Rightarrow> bytes list" where
  "path C algo m d =
     (let n = length d in
      if n \<le> 1 then []
      else (let k = split_point n in
        if m < k then path C algo m (take k d) @ [mth C algo (drop k d)]
        else path C algo (m - k) (drop k d) @ [mth C algo (take k d)]))"
  by pat_completeness auto
termination
  by (relation "measure (\<lambda>(C, algo, m, d). length d)")
    (auto simp: min_def not_le intro: split_point_less split_point_diff)

declare path.simps [simp del]

text \<open>The error texts carry the offending numbers; the model keeps the numbers.\<close>

datatype ProofError =
    LeafIndexOutOfRange nat nat
  | FirstExceedsTreeSize nat nat
  | TreeSizeExceedsLeaves nat nat
  | BadHexLeaf str

definition inclusion_proof :: "crates \<Rightarrow> HashAlgo \<Rightarrow> nat \<Rightarrow> bytes list \<Rightarrow> ProofError + bytes list" where
  "inclusion_proof C algo leaf_index leaves =
     (let n = length leaves in
      if leaf_index \<ge> n then Err (LeafIndexOutOfRange leaf_index n)
      else Ok (path C algo leaf_index leaves))"

definition inclusion_proof_of_hex_hashes ::
  "crates \<Rightarrow> HashAlgo \<Rightarrow> nat \<Rightarrow> str list \<Rightarrow> ProofError + bytes list" where
  "inclusion_proof_of_hex_hashes C algo leaf_index hashes =
     rbind (map_err BadHexLeaf (decode_hex_leaves C hashes)) (\<lambda>leaves. inclusion_proof C algo leaf_index leaves)"

text \<open>
  \<open>slice::split_last\<close>. In \<open>subproof\<close> and \<open>verify_subproof\<close> below, \<open>1 \<le> m \<le> n\<close> holds at the outer
  call and is kept by both recursive calls, so \<open>split_point\<close> is never applied below 2; the guard
  \<open>n < 2\<close> only makes the definitions total.
\<close>

definition split_last :: "'a list \<Rightarrow> ('a \<times> 'a list) option" where
  "split_last xs = (if xs = [] then None else Some (last xs, butlast xs))"

function verify_path :: "crates \<Rightarrow> HashAlgo \<Rightarrow> nat \<Rightarrow> nat \<Rightarrow> bytes \<Rightarrow> bytes list \<Rightarrow> bytes option" where
  "verify_path C algo m n leaf proof =
     (if n \<le> 1 then (if proof = [] then Some leaf else None)
      else (let k = split_point n in
        case split_last proof of
          None \<Rightarrow> None
        | Some (lst, rest) \<Rightarrow>
            if m < k
            then map_option (\<lambda>left. node_hash C algo left lst) (verify_path C algo m k leaf rest)
            else map_option (\<lambda>right. node_hash C algo lst right) (verify_path C algo (m - k) (n - k) leaf rest)))"
  by pat_completeness auto
termination
  by (relation "measure (\<lambda>(C, algo, m, n, leaf, pf). n)") (auto simp: not_le intro: split_point_less split_point_diff)

declare verify_path.simps [simp del]

definition verify_inclusion_proof ::
  "crates \<Rightarrow> HashAlgo \<Rightarrow> bytes \<Rightarrow> nat \<Rightarrow> nat \<Rightarrow> bytes list \<Rightarrow> bytes \<Rightarrow> bool" where
  "verify_inclusion_proof C algo leaf_data leaf_index tree_size proof root \<longleftrightarrow>
     leaf_index < tree_size \<and>
     (case verify_path C algo leaf_index tree_size (leaf_hash C algo leaf_data) proof of
        Some reconstructed \<Rightarrow> reconstructed = root
      | None \<Rightarrow> False)"

function subproof :: "crates \<Rightarrow> HashAlgo \<Rightarrow> nat \<Rightarrow> bytes list \<Rightarrow> bool \<Rightarrow> bytes list" where
  "subproof C algo m d b =
     (let n = length d in
      if m = n then (if b then [] else [mth C algo d])
      else if n < 2 then []
      else (let k = split_point n in
        if m \<le> k then subproof C algo m (take k d) b @ [mth C algo (drop k d)]
        else subproof C algo (m - k) (drop k d) False @ [mth C algo (take k d)]))"
  by pat_completeness auto
termination
  by (relation "measure (\<lambda>(C, algo, m, d, b). length d)")
    (auto simp: min_def not_le not_less intro: split_point_less split_point_diff)

declare subproof.simps [simp del]

definition consistency_proof :: "crates \<Rightarrow> HashAlgo \<Rightarrow> nat \<Rightarrow> bytes list \<Rightarrow> ProofError + bytes list" where
  "consistency_proof C algo fst_size leaves =
     (let n = length leaves in
      if fst_size = 0 then Ok []
      else if fst_size > n then Err (FirstExceedsTreeSize fst_size n)
      else if fst_size = n then Ok []
      else Ok (subproof C algo fst_size leaves True))"

definition consistency_proof_of_hex_hashes ::
  "crates \<Rightarrow> HashAlgo \<Rightarrow> nat \<Rightarrow> str list \<Rightarrow> ProofError + bytes list" where
  "consistency_proof_of_hex_hashes C algo fst_size hashes =
     rbind (map_err BadHexLeaf (decode_hex_leaves C hashes)) (\<lambda>leaves. consistency_proof C algo fst_size leaves)"

function verify_subproof ::
  "crates \<Rightarrow> HashAlgo \<Rightarrow> nat \<Rightarrow> nat \<Rightarrow> bytes list \<Rightarrow> bool \<Rightarrow> bytes \<Rightarrow> (bytes \<times> bytes) option" where
  "verify_subproof C algo m n proof b old_root =
     (if m = n then
        (if b then (if proof \<noteq> [] then None else Some (old_root, old_root))
         else (case proof of [only] \<Rightarrow> Some (only, only) | _ \<Rightarrow> None))
      else if m < n then
        (if n < 2 then None else
        (let k = split_point n in
         case split_last proof of
           None \<Rightarrow> None
         | Some (lst, rest) \<Rightarrow>
             if m \<le> k
             then map_option (\<lambda>(old_l, new_l). (old_l, node_hash C algo new_l lst))
                    (verify_subproof C algo m k rest b old_root)
             else map_option (\<lambda>(old_r, new_r). (node_hash C algo lst old_r, node_hash C algo lst new_r))
                    (verify_subproof C algo (m - k) (n - k) rest False old_root)))
      else None)"
  by pat_completeness auto
termination
  by (relation "measure (\<lambda>(C, algo, m, n, pf, b, r). n)") (auto simp: not_less intro: split_point_less split_point_diff)

declare verify_subproof.simps [simp del]

definition verify_consistency_proof ::
  "crates \<Rightarrow> HashAlgo \<Rightarrow> nat \<Rightarrow> nat \<Rightarrow> bytes list \<Rightarrow> bytes \<Rightarrow> bytes \<Rightarrow> bool" where
  "verify_consistency_proof C algo fst_size snd_size proof old_root new_root =
     (if fst_size > snd_size then False
      else if fst_size = 0 then True
      else if fst_size = snd_size then proof = [] \<and> old_root = new_root
      else (case verify_subproof C algo fst_size snd_size proof True old_root of
              Some (old_h, new_h) \<Rightarrow> old_h = old_root \<and> new_h = new_root
            | None \<Rightarrow> False))"

end
