(* ===== verification/Merkle_Facts.thy ===== *)
theory Merkle_Facts
  imports Merkle
begin

text \<open>
  Correctness of the Merkle module: split points, completeness of both proof systems (what the
  generator returns verifies against the tree's own root), and their soundness (what verifies
  against an honest root is true, or the proof exhibits a hash collision).
\<close>

section \<open>The split point\<close>

lemma split_point_stable:
  assumes "split_point n < m" and "m \<le> n"
  shows "split_point m = split_point n"
proof -
  let ?e = "\<lambda>x. min (bit_len (x - 1)) 64"
  from assms(2) have le: "?e m \<le> ?e n"
    by (intro min.mono bit_len_mono) auto
  show ?thesis
  proof (cases "?e n = 0")
    case True
    with le show ?thesis by (simp add: split_point_eq)
  next
    case False
    have "2 ^ (?e n - 1) \<le> m - 1" using assms(1) by (simp add: split_point_eq)
    then have "?e n - 1 < bit_len (m - 1)" by (rule bit_len_ge)
    with False le have "?e m = ?e n" by linarith
    then show ?thesis by (simp add: split_point_eq)
  qed
qed

lemma bit_len_le: "x < 2 ^ j \<Longrightarrow> bit_len x \<le> j"
proof (rule ccontr)
  assume x: "x < 2 ^ j" and "\<not> bit_len x \<le> j"
  then have j: "j \<le> bit_len x - 1" and "0 < x" by (cases "x = 0"; simp)+
  have "2 ^ j \<le> (2 :: nat) ^ (bit_len x - 1)" using j by (simp add: power_increasing)
  also have "\<dots> \<le> x" using \<open>0 < x\<close> bit_len_bounds by blast
  finally show False using x by simp
qed

lemma split_point_power:
  assumes "2 \<le> n" and "n \<le> 2 ^ 64"
  obtains j where "split_point n = 2 ^ j" and "2 ^ j < n" and "n \<le> 2 ^ Suc j"
proof -
  have b: "bit_len (n - 1) \<le> 64" by (rule bit_len_le) (use assms in simp)
  have pos: "0 < n - 1" using assms by simp
  then have "n - 1 < 2 ^ bit_len (n - 1)" and one: "0 < bit_len (n - 1)"
    using bit_len_bounds [OF pos] by (auto simp: bit_len_pos)
  then have "n \<le> 2 ^ Suc (bit_len (n - 1) - 1)" by simp
  moreover have sp: "split_point n = 2 ^ (bit_len (n - 1) - 1)"
    using b by (simp add: split_point_eq)
  moreover have "2 ^ (bit_len (n - 1) - 1) < n"
    using split_point_less [OF assms(1)] by (simp add: sp)
  ultimately show thesis by (rule that [rotated 2])
qed

section \<open>Unfolding\<close>

lemma mth_Nil: "mth C algo [] = empty_root C algo"
  by (simp add: mth.simps)

lemma mth_single: "mth C algo [x] = leaf_hash C algo x"
  by (simp add: mth.simps)

lemma mth_node:
  "2 \<le> length d \<Longrightarrow> mth C algo d =
     node_hash C algo (mth C algo (take (split_point (length d)) d)) (mth C algo (drop (split_point (length d)) d))"
  by (subst mth.simps) (auto simp: Let_def)

lemma node_hash_len: "sha256_ok C \<Longrightarrow> length (node_hash C algo l r) = 32"
  by (simp add: node_hash_def digest_len)

lemma leaf_hash_len: "sha256_ok C \<Longrightarrow> length (leaf_hash C algo x) = 32"
  by (simp add: leaf_hash_def digest_len)

lemma mth_len: "sha256_ok C \<Longrightarrow> length (mth C algo d) = 32"
  by (subst mth.simps) (simp add: Let_def empty_root_def digest_len leaf_hash_len node_hash_len)

lemma verify_path_snoc:
  "2 \<le> n \<Longrightarrow> verify_path C algo m n leaf (rest @ [lst]) =
     (let k = split_point n in
      if m < k then map_option (\<lambda>left. node_hash C algo left lst) (verify_path C algo m k leaf rest)
      else map_option (\<lambda>right. node_hash C algo lst right) (verify_path C algo (m - k) (n - k) leaf rest))"
  by (subst verify_path.simps) (simp add: split_last_def Let_def)

lemma verify_path_leaf: "n \<le> 1 \<Longrightarrow> verify_path C algo m n leaf pf = (if pf = [] then Some leaf else None)"
  by (subst verify_path.simps) simp

lemma path_leaf: "length d \<le> 1 \<Longrightarrow> path C algo m d = []"
  by (subst path.simps) simp

lemma path_node:
  "2 \<le> length d \<Longrightarrow> path C algo m d =
     (let k = split_point (length d) in
      if m < k then path C algo m (take k d) @ [mth C algo (drop k d)]
      else path C algo (m - k) (drop k d) @ [mth C algo (take k d)])"
  by (subst path.simps) (simp add: Let_def)

text \<open>Induction over the tree's shape: a leaf, or two non-empty halves at the split point.\<close>

lemma tree_induct [case_names leaf node]:
  assumes "\<And>d. length d \<le> 1 \<Longrightarrow> P d"
    and "\<And>d k. 2 \<le> length d \<Longrightarrow> k = split_point (length d) \<Longrightarrow> 0 < k \<Longrightarrow> k < length d \<Longrightarrow>
           P (take k d) \<Longrightarrow> P (drop k d) \<Longrightarrow> P d"
  shows "P (d :: 'a list)"
proof (induction "length d" arbitrary: d rule: less_induct)
  case less
  show ?case
  proof (cases "length d \<le> 1")
    case False
    let ?k = "split_point (length d)"
    have n: "2 \<le> length d" using False by simp
    then have k: "0 < ?k" "?k < length d" by (simp_all add: split_point_less)
    show ?thesis
    proof (rule assms(2) [OF n refl k])
      show "P (take ?k d)" by (rule less) (use k in simp)
      show "P (drop ?k d)" by (rule less) (simp add: split_point_diff [OF n])
    qed
  qed (rule assms(1))
qed

section \<open>Inclusion proofs\<close>

lemma verify_path_path:
  "m < length d \<Longrightarrow> verify_path C algo m (length d) (leaf_hash C algo (d ! m)) (path C algo m d) = Some (mth C algo d)"
proof (induction d arbitrary: m rule: tree_induct)
  case (leaf d)
  then obtain x where "d = [x]" by (cases d) auto
  with leaf show ?case by (simp add: verify_path_leaf path_leaf mth_single)
next
  case (node d k)
  show ?case
  proof (cases "m < k")
    case True
    with node show ?thesis
      by (simp add: verify_path_snoc path_node mth_node Let_def flip: node(2))
  next
    case False
    then have "verify_path C algo (m - k) (length d - k) (leaf_hash C algo (d ! m)) (path C algo (m - k) (drop k d))
        = Some (mth C algo (drop k d))"
      using node(6) [of "m - k"] node(4) node.prems by simp
    with False node(1) show ?thesis
      by (simp add: verify_path_snoc path_node mth_node Let_def flip: node(2))
  qed
qed

text \<open>Completeness of inclusion proofs: for every leaf index in range the generator succeeds
  and its audit path verifies against the tree's own root.\<close>

theorem inclusion_proof_complete:
  assumes "i < length leaves"
  shows "\<exists>pf. inclusion_proof C algo i leaves = Ok pf \<and>
           verify_inclusion_proof C algo (leaves ! i) i (length leaves) pf (mth C algo leaves)"
  using assms by (simp add: inclusion_proof_def verify_inclusion_proof_def verify_path_path Let_def)

text \<open>Witness: the second of three leaves.\<close>

definition demo_leaves :: "bytes list" where
  "demo_leaves = [[1, 2], [3], [5, 6, 7]]"

theorem inclusion_proof_complete_witness:
  "1 < length demo_leaves \<and> (\<exists>pf. inclusion_proof demo_crates Sha256 1 demo_leaves = Ok pf \<and>
     verify_inclusion_proof demo_crates Sha256 [3] 1 (length demo_leaves) pf (mth demo_crates Sha256 demo_leaves))"
proof -
  have "1 < length demo_leaves" "demo_leaves ! 1 = [3]" by (simp_all add: demo_leaves_def)
  then show ?thesis using inclusion_proof_complete [of 1 demo_leaves demo_crates Sha256] by simp
qed

section \<open>What is hashed\<close>

text \<open>
  The messages hashed while a root is computed and while a proof is verified. Soundness is
  stated relative to these finitely many messages.
\<close>

function mth_inputs :: "crates \<Rightarrow> HashAlgo \<Rightarrow> bytes list \<Rightarrow> bytes list" where
  "mth_inputs C algo d =
     (if d = [] then [[]]
      else if length d = 1 then [LEAF_HASH_PREFIX # hd d]
      else (let k = split_point (length d) in
        (NODE_HASH_PREFIX # mth C algo (take k d) @ mth C algo (drop k d)) #
        mth_inputs C algo (take k d) @ mth_inputs C algo (drop k d)))"
  by pat_completeness auto
termination
  by (relation "measure (\<lambda>(C, algo, d). length d)")
    (auto simp: min_def not_le Suc_le_eq neq_Nil_conv intro!: split_point_less)

declare mth_inputs.simps [simp del]

function verify_path_inputs :: "crates \<Rightarrow> HashAlgo \<Rightarrow> nat \<Rightarrow> nat \<Rightarrow> bytes \<Rightarrow> bytes list \<Rightarrow> bytes list" where
  "verify_path_inputs C algo m n leaf pf =
     (if n \<le> 1 then []
      else (let k = split_point n in
        case split_last pf of
          None \<Rightarrow> []
        | Some (lst, rest) \<Rightarrow>
            if m < k
            then (case verify_path C algo m k leaf rest of
                    None \<Rightarrow> []
                  | Some l \<Rightarrow> (NODE_HASH_PREFIX # l @ lst) # verify_path_inputs C algo m k leaf rest)
            else (case verify_path C algo (m - k) (n - k) leaf rest of
                    None \<Rightarrow> []
                  | Some r \<Rightarrow> (NODE_HASH_PREFIX # lst @ r) # verify_path_inputs C algo (m - k) (n - k) leaf rest)))"
  by pat_completeness auto
termination
  by (relation "measure (\<lambda>(C, algo, m, n, leaf, pf). n)")
    (auto simp: not_le intro: split_point_less split_point_diff)

declare verify_path_inputs.simps [simp del]

definition collision_in :: "crates \<Rightarrow> HashAlgo \<Rightarrow> bytes list \<Rightarrow> bool" where
  "collision_in C algo ms \<longleftrightarrow>
     (\<exists>x\<in>set ms. \<exists>y\<in>set ms. x \<noteq> y \<and> digest C algo x = digest C algo y)"

lemma collision_mono: "collision_in C algo ms \<Longrightarrow> set ms \<subseteq> set ms' \<Longrightarrow> collision_in C algo ms'"
  by (auto simp: collision_in_def)

lemma collisionI: "x \<in> set ms \<Longrightarrow> y \<in> set ms \<Longrightarrow> x \<noteq> y \<Longrightarrow> digest C algo x = digest C algo y \<Longrightarrow> collision_in C algo ms"
  by (auto simp: collision_in_def)

text \<open>Equal node hashes have equal children, or collide.\<close>

lemma node_hash_eq:
  assumes "node_hash C algo l r = node_hash C algo l' r'" and "length l = length l'"
    and "NODE_HASH_PREFIX # l @ r \<in> set ms" and "NODE_HASH_PREFIX # l' @ r' \<in> set ms"
  shows "(l = l' \<and> r = r') \<or> collision_in C algo ms"
proof (cases "l @ r = l' @ r'")
  case True
  with assms(2) show ?thesis by simp
next
  case False
  with assms show ?thesis by (auto simp: node_hash_def intro: collisionI)
qed

lemma leaf_hash_eq:
  assumes "leaf_hash C algo a = leaf_hash C algo b"
    and "LEAF_HASH_PREFIX # a \<in> set ms" and "LEAF_HASH_PREFIX # b \<in> set ms"
  shows "a = b \<or> collision_in C algo ms"
  using assms by (auto simp: leaf_hash_def intro: collisionI)

lemma mth_inputs_single: "mth_inputs C algo [x] = [LEAF_HASH_PREFIX # x]"
  by (simp add: mth_inputs.simps)

lemma mth_inputs_node:
  "2 \<le> length d \<Longrightarrow> k = split_point (length d) \<Longrightarrow> mth_inputs C algo d =
     (NODE_HASH_PREFIX # mth C algo (take k d) @ mth C algo (drop k d)) #
     mth_inputs C algo (take k d) @ mth_inputs C algo (drop k d)"
  by (subst mth_inputs.simps) (auto simp: Let_def)

lemma verify_path_len:
  assumes "sha256_ok C" and "length leaf = 32" and "\<forall>h\<in>set pf. length h = 32"
    and "verify_path C algo m n leaf pf = Some r"
  shows "length r = 32"
  using assms by (subst (asm) verify_path.simps)
    (auto simp: Let_def node_hash_len split: if_splits option.splits)

lemma verify_path_sound:
  assumes ok: "sha256_ok C" and "\<forall>h\<in>set pf. length h = 32" and "m < length d"
    and "verify_path C algo m (length d) (leaf_hash C algo x) pf = Some (mth C algo d)"
    and "set (verify_path_inputs C algo m (length d) (leaf_hash C algo x) pf) \<subseteq> set ms"
    and "set (mth_inputs C algo d) \<subseteq> set ms" and "LEAF_HASH_PREFIX # x \<in> set ms"
  shows "x = d ! m \<or> collision_in C algo ms"
  using assms(2-)
proof (induction d arbitrary: m pf rule: tree_induct)
  case (leaf d)
  then obtain y where d: "d = [y]" by (cases d) auto
  with leaf show ?case
    using leaf_hash_eq [of C algo x y ms]
    by (auto simp: verify_path_leaf mth_single mth_inputs_single split: if_splits)
next
  case (node d k)
  from node.prems(3) node(1) obtain lst rest where p: "pf = rest @ [lst]"
    by (subst (asm) verify_path.simps) (auto simp: split_last_def split: if_splits, metis append_butlast_last_id)
  have len: "length lst = 32" "\<forall>h\<in>set rest. length h = 32" using node.prems(1) by (auto simp: p)
  note nodes = mth_inputs_node [OF node(1) node(2)] mth_node [OF node(1), folded node(2)]
  show ?case
  proof (cases "m < k")
    case True
    obtain l where l: "verify_path C algo m k (leaf_hash C algo x) rest = Some l"
      and eq: "node_hash C algo l lst = mth C algo d"
      using node.prems(3) node(1) True by (auto simp: p verify_path_snoc Let_def simp flip: node(2))
    have inp: "verify_path_inputs C algo m (length d) (leaf_hash C algo x) pf =
        (NODE_HASH_PREFIX # l @ lst) # verify_path_inputs C algo m k (leaf_hash C algo x) rest"
      using node(1) True l by (subst verify_path_inputs.simps) (simp add: p split_last_def Let_def flip: node(2))
    have "length l = 32" by (rule verify_path_len [OF ok leaf_hash_len [OF ok] len(2) l])
    then have "l = mth C algo (take k d) \<or> collision_in C algo ms"
      using node_hash_eq [OF eq [unfolded nodes(2)], of ms] node.prems(4,5)
      by (auto simp: inp nodes(1) mth_len [OF ok])
    then show ?thesis
      using node(5) [of rest m] node.prems True node(4) l len inp by (auto simp: nodes(1))
  next
    case False
    obtain r where r: "verify_path C algo (m - k) (length d - k) (leaf_hash C algo x) rest = Some r"
      and eq: "node_hash C algo lst r = mth C algo d"
      using node.prems(3) node(1) False by (auto simp: p verify_path_snoc Let_def simp flip: node(2))
    have inp: "verify_path_inputs C algo m (length d) (leaf_hash C algo x) pf =
        (NODE_HASH_PREFIX # lst @ r) # verify_path_inputs C algo (m - k) (length d - k) (leaf_hash C algo x) rest"
      using node(1) False r by (subst verify_path_inputs.simps) (simp add: p split_last_def Let_def flip: node(2))
    have "r = mth C algo (drop k d) \<or> collision_in C algo ms"
      using node_hash_eq [OF eq [unfolded nodes(2)], of ms] node.prems(4,5)
      by (auto simp: inp nodes(1) mth_len [OF ok] len)
    then show ?thesis
      using node(6) [of rest "m - k"] node.prems False node(4) r len inp by (auto simp: nodes(1))
  qed
qed

text \<open>C3. Soundness of inclusion proofs: an audit path that verifies against the root of a tree
  proves that the presented data is the leaf at that index, or the messages hashed by the
  verification and by the tree contain two different ones with the same digest.\<close>

theorem inclusion_proof_sound:
  assumes "sha256_ok C" and "\<forall>h\<in>set pf. length h = 32"
    and "verify_inclusion_proof C algo x i (length leaves) pf (mth C algo leaves)"
  shows "(i < length leaves \<and> leaves ! i = x) \<or>
    collision_in C algo ((LEAF_HASH_PREFIX # x) # mth_inputs C algo leaves @
      verify_path_inputs C algo i (length leaves) (leaf_hash C algo x) pf)"
proof -
  from assms(3) have i: "i < length leaves"
    and v: "verify_path C algo i (length leaves) (leaf_hash C algo x) pf = Some (mth C algo leaves)"
    by (auto simp: verify_inclusion_proof_def split: option.splits)
  show ?thesis
    using verify_path_sound [OF assms(1,2) i v, of "(LEAF_HASH_PREFIX # x) # mth_inputs C algo leaves @
      verify_path_inputs C algo i (length leaves) (leaf_hash C algo x) pf"] i by auto
qed

text \<open>Witness: the audit path of the second of three leaves.\<close>

definition demo_path :: "bytes list" where
  "demo_path = path demo_crates Sha256 1 demo_leaves"

theorem inclusion_proof_sound_witness:
  "verify_inclusion_proof demo_crates Sha256 [3] 1 (length demo_leaves) demo_path (mth demo_crates Sha256 demo_leaves) \<and>
   ((1 < length demo_leaves \<and> demo_leaves ! 1 = [3]) \<or>
    collision_in demo_crates Sha256 ((LEAF_HASH_PREFIX # [3]) # mth_inputs demo_crates Sha256 demo_leaves @
      verify_path_inputs demo_crates Sha256 1 (length demo_leaves) (leaf_hash demo_crates Sha256 [3]) demo_path))"
proof -
  have h: "list_all (\<lambda>h. length h = 32) demo_path" by code_simp
  have v: "verify_inclusion_proof demo_crates Sha256 [3] 1 (length demo_leaves) demo_path (mth demo_crates Sha256 demo_leaves)"
    by code_simp
  show ?thesis using inclusion_proof_sound [OF demo_sha256_ok _ v] h v by (simp add: list_all_iff)
qed

section \<open>Consistency proofs\<close>

lemma subproof_base: "m = length d \<Longrightarrow> subproof C algo m d b = (if b then [] else [mth C algo d])"
  by (subst subproof.simps) (simp add: Let_def)

lemma subproof_node:
  "2 \<le> length d \<Longrightarrow> k = split_point (length d) \<Longrightarrow> m \<noteq> length d \<Longrightarrow> subproof C algo m d b =
     (if m \<le> k then subproof C algo m (take k d) b @ [mth C algo (drop k d)]
      else subproof C algo (m - k) (drop k d) False @ [mth C algo (take k d)])"
  by (subst subproof.simps) (simp add: Let_def)

lemma verify_subproof_base:
  "verify_subproof C algo n n pf b old =
     (if b then (if pf = [] then Some (old, old) else None)
      else (case pf of [only] \<Rightarrow> Some (only, only) | _ \<Rightarrow> None))"
  by (subst verify_subproof.simps) simp

lemma verify_subproof_snoc:
  "2 \<le> n \<Longrightarrow> k = split_point n \<Longrightarrow> m < n \<Longrightarrow> verify_subproof C algo m n (rest @ [lst]) b old =
     (if m \<le> k
      then map_option (\<lambda>(old_l, new_l). (old_l, node_hash C algo new_l lst)) (verify_subproof C algo m k rest b old)
      else map_option (\<lambda>(old_r, new_r). (node_hash C algo lst old_r, node_hash C algo lst new_r))
             (verify_subproof C algo (m - k) (n - k) rest False old))"
  by (subst verify_subproof.simps) (simp add: split_last_def Let_def)

text \<open>A prefix that reaches past the split point shares the left subtree.\<close>

lemma mth_take_past_split:
  assumes "k = split_point (length d)" and "0 < k" and "k < m" and "m \<le> length d"
  shows "mth C algo (take m d) = node_hash C algo (mth C algo (take k d)) (mth C algo (take (m - k) (drop k d)))"
proof -
  have sp: "split_point m = k" using assms by (metis split_point_stable)
  have len: "length (take m d) = m" using assms(4) by simp
  have tk: "take k (take m d) = take k d" using assms(3) by (simp add: min_def)
  have "2 \<le> m" using assms(2,3) by linarith
  then show ?thesis
    by (rule mth_node [of "take m d" C algo, unfolded len sp tk drop_take])
qed

lemma verify_subproof_subproof:
  assumes "0 < m" and "m \<le> length d" and "b \<Longrightarrow> old = mth C algo (take m d)"
  shows "verify_subproof C algo m (length d) (subproof C algo m d b) b old =
    Some (mth C algo (take m d), mth C algo d)"
  using assms
proof (induction d arbitrary: m b rule: tree_induct)
  case (leaf d)
  then have "m = length d" by linarith
  with leaf show ?case by (simp add: subproof_base verify_subproof_base)
next
  case (node d k)
  show ?case
  proof (cases "m = length d")
    case True
    with node.prems show ?thesis by (simp add: subproof_base verify_subproof_base)
  next
    case ne: False
    note simps = subproof_node [OF node(1) node(2) ne] verify_subproof_snoc [OF node(1) node(2)]
      mth_node [OF node(1), folded node(2)]
    show ?thesis
    proof (cases "m \<le> k")
      case True
      with node(5) [of m b] node(4) node.prems ne show ?thesis
        by (simp add: simps min_def)
    next
      case False
      have "verify_subproof C algo (m - k) (length d - k) (subproof C algo (m - k) (drop k d) False) False old =
          Some (mth C algo (take (m - k) (drop k d)), mth C algo (drop k d))"
        using node(6) [of "m - k" False] False node.prems by simp
      with False ne node.prems show ?thesis
        by (simp add: simps mth_take_past_split [OF node(2,3)])
    qed
  qed
qed

text \<open>Completeness of consistency proofs: for every earlier size the generator succeeds and its
  proof verifies between the roots of the prefix and of the whole tree.\<close>

theorem consistency_proof_complete:
  assumes "m \<le> length leaves"
  shows "\<exists>pf. consistency_proof C algo m leaves = Ok pf \<and>
    verify_consistency_proof C algo m (length leaves) pf (mth C algo (take m leaves)) (mth C algo leaves)"
  using assms verify_subproof_subproof [of m leaves True "mth C algo (take m leaves)" C algo]
  by (auto simp: consistency_proof_def verify_consistency_proof_def Let_def)

text \<open>Witness: from the first two leaves to all three.\<close>

theorem consistency_proof_complete_witness:
  "2 \<le> length demo_leaves \<and> (\<exists>pf. consistency_proof demo_crates Sha256 2 demo_leaves = Ok pf \<and>
     verify_consistency_proof demo_crates Sha256 2 (length demo_leaves) pf
       (mth demo_crates Sha256 (take 2 demo_leaves)) (mth demo_crates Sha256 demo_leaves))"
proof -
  have "2 \<le> length demo_leaves" by (simp add: demo_leaves_def)
  then show ?thesis using consistency_proof_complete [of 2 demo_leaves demo_crates Sha256] by blast
qed

function verify_subproof_inputs ::
  "crates \<Rightarrow> HashAlgo \<Rightarrow> nat \<Rightarrow> nat \<Rightarrow> bytes list \<Rightarrow> bool \<Rightarrow> bytes \<Rightarrow> bytes list" where
  "verify_subproof_inputs C algo m n pf b old =
     (if n < 2 \<or> n \<le> m then []
      else (let k = split_point n in
        case split_last pf of
          None \<Rightarrow> []
        | Some (lst, rest) \<Rightarrow>
            if m \<le> k
            then (case verify_subproof C algo m k rest b old of
                    None \<Rightarrow> []
                  | Some (_, l) \<Rightarrow> (NODE_HASH_PREFIX # l @ lst) # verify_subproof_inputs C algo m k rest b old)
            else (case verify_subproof C algo (m - k) (n - k) rest False old of
                    None \<Rightarrow> []
                  | Some (_, r) \<Rightarrow> (NODE_HASH_PREFIX # lst @ r) #
                      verify_subproof_inputs C algo (m - k) (n - k) rest False old)))"
  by pat_completeness auto
termination
  by (relation "measure (\<lambda>(C, algo, m, n, pf, b, old). n)")
    (auto simp: not_less intro: split_point_less split_point_diff)

declare verify_subproof_inputs.simps [simp del]

lemma verify_subproof_inputs_snoc:
  "2 \<le> n \<Longrightarrow> k = split_point n \<Longrightarrow> m < n \<Longrightarrow> verify_subproof_inputs C algo m n (rest @ [lst]) b old =
     (if m \<le> k
      then (case verify_subproof C algo m k rest b old of
              None \<Rightarrow> []
            | Some (_, l) \<Rightarrow> (NODE_HASH_PREFIX # l @ lst) # verify_subproof_inputs C algo m k rest b old)
      else (case verify_subproof C algo (m - k) (n - k) rest False old of
              None \<Rightarrow> []
            | Some (_, r) \<Rightarrow> (NODE_HASH_PREFIX # lst @ r) #
                verify_subproof_inputs C algo (m - k) (n - k) rest False old))"
  by (subst verify_subproof_inputs.simps) (auto simp: split_last_def Let_def)

lemma verify_subproof_len:
  assumes "sha256_ok C" and "length old = 32" and "\<forall>h\<in>set pf. length h = 32"
    and "verify_subproof C algo m n pf b old = Some (o', nw)"
  shows "length nw = 32"
  using assms by (subst (asm) verify_subproof.simps)
    (auto simp: Let_def node_hash_len split: if_splits option.splits list.splits)

lemma verify_subproof_sound:
  assumes ok: "sha256_ok C" and old: "length old = 32" and "\<forall>h\<in>set pf. length h = 32"
    and "0 < m" and "m \<le> length d"
    and "verify_subproof C algo m (length d) pf b old = Some (o', mth C algo d)"
    and "set (verify_subproof_inputs C algo m (length d) pf b old) \<subseteq> set ms"
    and "set (mth_inputs C algo d) \<subseteq> set ms"
  shows "o' = mth C algo (take m d) \<or> collision_in C algo ms"
  using assms(3-)
proof (induction d arbitrary: m pf b o' rule: tree_induct)
  case (leaf d)
  then have "m = length d" by linarith
  with leaf show ?case by (auto simp: verify_subproof_base split: if_splits list.splits)
next
  case (node d k)
  show ?case
  proof (cases "m = length d")
    case True
    with node.prems show ?thesis by (auto simp: verify_subproof_base split: if_splits list.splits)
  next
    case False
    with node.prems(3) have m: "m < length d" by simp
    from node.prems(4) False node(1) obtain lst rest where p: "pf = rest @ [lst]"
      by (subst (asm) verify_subproof.simps) (auto simp: split_last_def split: if_splits, metis append_butlast_last_id)
    have len: "length lst = 32" "\<forall>h\<in>set rest. length h = 32" using node.prems(1) by (auto simp: p)
    note nodes = mth_inputs_node [OF node(1) node(2)] mth_node [OF node(1), folded node(2)]
    note inp = verify_subproof_inputs_snoc [OF node(1,2) m, of C algo rest lst b old, folded p]
    note ver = verify_subproof_snoc [OF node(1,2) m, of C algo rest lst b old, folded p]
    show ?thesis
    proof (cases "m \<le> k")
      case True
      obtain l where l: "verify_subproof C algo m k rest b old = Some (o', l)"
        and eq: "node_hash C algo l lst = mth C algo d"
        using node.prems(4) True by (auto simp: ver)
      have "length l = 32" by (rule verify_subproof_len [OF ok old len(2) l])
      then have "l = mth C algo (take k d) \<or> collision_in C algo ms"
        using node_hash_eq [OF eq [unfolded nodes(2)], of ms] node.prems(5,6) True l
        by (auto simp: inp nodes(1) mth_len [OF ok])
      then show ?thesis
        using node(5) [of rest m b o'] node.prems True node(4) l len inp by (auto simp: nodes(1) min_def)
    next
      case gt: False
      obtain r or where r: "verify_subproof C algo (m - k) (length d - k) rest False old = Some (or, r)"
        and eq: "node_hash C algo lst r = mth C algo d" and o': "o' = node_hash C algo lst or"
        using node.prems(4) gt by (auto simp: ver)
      have "(lst = mth C algo (take k d) \<and> r = mth C algo (drop k d)) \<or> collision_in C algo ms"
        using node_hash_eq [OF eq [unfolded nodes(2)], of ms] node.prems(5,6) gt r
        by (auto simp: inp nodes(1) mth_len [OF ok] len)
      moreover have "mth C algo (take m d) = node_hash C algo (mth C algo (take k d)) (mth C algo (take (m - k) (drop k d)))"
        using gt m by (intro mth_take_past_split [OF node(2,3)]) auto
      ultimately show ?thesis
        using node(6) [of rest "m - k" False or] node.prems gt r len inp o' by (auto simp: nodes(1))
    qed
  qed
qed

lemma consistency_binds:
  assumes "sha256_ok C" and "length old_root = 32" and "\<forall>h\<in>set pf. length h = 32"
    and "0 < m"
    and "verify_consistency_proof C algo m (length leaves) pf old_root (mth C algo leaves)"
  shows "(m \<le> length leaves \<and> old_root = mth C algo (take m leaves)) \<or>
    collision_in C algo (mth_inputs C algo leaves @
      verify_subproof_inputs C algo m (length leaves) pf True old_root)"
proof -
  from assms(4,5) have m: "m \<le> length leaves" by (auto simp: verify_consistency_proof_def split: if_splits)
  show ?thesis
  proof (cases "m = length leaves")
    case True
    with assms(4,5) show ?thesis by (auto simp: verify_consistency_proof_def)
  next
    case False
    with assms(4,5) m have "verify_subproof C algo m (length leaves) pf True old_root = Some (old_root, mth C algo leaves)"
      by (auto simp: verify_consistency_proof_def split: option.splits)
    from verify_subproof_sound [OF assms(1-4) m this, of "mth_inputs C algo leaves @
        verify_subproof_inputs C algo m (length leaves) pf True old_root"] m
    show ?thesis by auto
  qed
qed

text \<open>C4. Soundness of consistency proofs: if a proof from a claimed earlier root verifies against
  the root of the current leaves, the earlier root is the root of the first \<open>m\<close> of those leaves, so
  history was only appended to; or the hashed messages contain a collision.\<close>

theorem consistency_proof_sound:
  assumes "sha256_ok C" and "length old_root = 32" and "\<forall>h\<in>set pf. length h = 32"
    and "0 < m"
    and "verify_consistency_proof C algo m (length leaves) pf old_root (mth C algo leaves)"
  shows "(m \<le> length leaves \<and> old_root = mth C algo (take m leaves)) \<or>
    collision_in C algo (mth_inputs C algo leaves @
      verify_subproof_inputs C algo m (length leaves) pf True old_root)"
  using assms by (rule consistency_binds)

text \<open>Witness: the proof from the first leaf to all three.\<close>

definition demo_consistency :: "bytes list" where
  "demo_consistency = [leaf_hash demo_crates Sha256 [3], leaf_hash demo_crates Sha256 [5, 6, 7]]"

theorem consistency_proof_sound_witness:
  "verify_consistency_proof demo_crates Sha256 1 (length demo_leaves) demo_consistency
     (mth demo_crates Sha256 [[1, 2]]) (mth demo_crates Sha256 demo_leaves) \<and>
   ((1 \<le> length demo_leaves \<and> mth demo_crates Sha256 [[1, 2]] = mth demo_crates Sha256 (take 1 demo_leaves)) \<or>
    collision_in demo_crates Sha256 (mth_inputs demo_crates Sha256 demo_leaves @
      verify_subproof_inputs demo_crates Sha256 1 (length demo_leaves) demo_consistency True (mth demo_crates Sha256 [[1, 2]])))"
proof -
  have h: "list_all (\<lambda>h. length h = 32) demo_consistency" by code_simp
  have r: "length (mth demo_crates Sha256 [[1, 2]]) = 32" by code_simp
  have v: "verify_consistency_proof demo_crates Sha256 1 (length demo_leaves) demo_consistency
     (mth demo_crates Sha256 [[1, 2]]) (mth demo_crates Sha256 demo_leaves)"
    by code_simp
  show ?thesis using consistency_proof_sound [OF demo_sha256_ok r _ _ v] h v by (simp add: list_all_iff)
qed

section \<open>Binding\<close>

lemma mth_binding_aux:
  assumes ok: "sha256_ok C" and "length d = length e" and "mth C algo d = mth C algo e"
    and "set (mth_inputs C algo d) \<subseteq> set ms" and "set (mth_inputs C algo e) \<subseteq> set ms"
  shows "d = e \<or> collision_in C algo ms"
  using assms(2-)
proof (induction d arbitrary: e rule: tree_induct)
  case (leaf d)
  show ?case
  proof (cases d)
    case Nil
    with leaf show ?thesis by simp
  next
    case (Cons x xs)
    with leaf obtain y where "d = [x]" "e = [y]" by (cases xs; cases e) auto
    with leaf show ?thesis
      using leaf_hash_eq [of C algo x y ms] by (auto simp: mth_single mth_inputs_single)
  qed
next
  case (node d k)
  have e: "2 \<le> length e" "k = split_point (length e)" using node(1,2) node.prems(1) by simp_all
  have "(mth C algo (take k d) = mth C algo (take k e) \<and> mth C algo (drop k d) = mth C algo (drop k e)) \<or>
      collision_in C algo ms"
    by (rule node_hash_eq) (use node.prems in \<open>simp_all add: mth_node [OF node(1), folded node(2)]
        mth_node [OF e(1), folded e(2)] mth_inputs_node [OF node(1,2)] mth_inputs_node [OF e] mth_len [OF ok]\<close>)
  then show ?case
  proof
    assume eq: "mth C algo (take k d) = mth C algo (take k e) \<and> mth C algo (drop k d) = mth C algo (drop k e)"
    have "take k d = take k e \<or> collision_in C algo ms"
      by (rule node(5)) (use node.prems eq in \<open>auto simp: mth_inputs_node [OF node(1,2)] mth_inputs_node [OF e]\<close>)
    moreover have "drop k d = drop k e \<or> collision_in C algo ms"
      by (rule node(6)) (use node.prems eq in \<open>auto simp: mth_inputs_node [OF node(1,2)] mth_inputs_node [OF e]\<close>)
    ultimately show ?thesis by (metis append_take_drop_id)
  qed simp
qed

text \<open>The root binds the ledger: two ledgers of one size with one root are identical leaf by
  leaf, or the messages hashed for the two roots contain a collision.\<close>

theorem mth_binding:
  assumes "sha256_ok C" and "length d = length e" and "mth C algo d = mth C algo e"
  shows "d = e \<or> collision_in C algo (mth_inputs C algo d @ mth_inputs C algo e)"
  using mth_binding_aux [OF assms, of "mth_inputs C algo d @ mth_inputs C algo e"] by auto

text \<open>Witness: two ledgers of one leaf each whose roots agree because the digest of the instance keeps only the
  first 32 bytes; the theorem names the collision.\<close>

theorem mth_binding_witness:
  "mth demo_crates Sha256 [replicate 31 0 @ [1]] = mth demo_crates Sha256 [replicate 31 0 @ [2]] \<and>
   collision_in demo_crates Sha256 (mth_inputs demo_crates Sha256 [replicate 31 0 @ [1]] @
     mth_inputs demo_crates Sha256 [replicate 31 0 @ [2]])"
proof -
  have "mth demo_crates Sha256 [replicate 31 0 @ [1]] = mth demo_crates Sha256 [replicate 31 0 @ [2]]"
    by code_simp
  then show ?thesis using mth_binding [OF demo_sha256_ok, of "[replicate 31 0 @ [1]]" "[replicate 31 0 @ [2]]" Sha256] by simp
qed

text \<open>The bit-twiddled split point is RFC 6962's: for every length a 64-bit slice can have, it
  is the only power of two below \<open>n\<close> whose double reaches \<open>n\<close>.\<close>

lemma split_point_largest_power:
  assumes "2 \<le> n" and "n \<le> 2 ^ 64"
  shows "(\<exists>j. k = 2 ^ j \<and> k < n \<and> n \<le> 2 * k) \<longleftrightarrow> k = split_point n"
proof
  assume "\<exists>j. k = 2 ^ j \<and> k < n \<and> n \<le> 2 * k"
  then obtain j where k: "k = 2 ^ j" "2 ^ j < n" "n \<le> 2 ^ Suc j" by auto
  obtain i where i: "split_point n = 2 ^ i" "2 ^ i < n" "n \<le> 2 ^ Suc i"
    using split_point_power [OF assms] .
  have "(2::nat) ^ j < 2 ^ Suc i" "(2::nat) ^ i < 2 ^ Suc j" using k i by linarith+
  then have "j < Suc i" "i < Suc j" by (simp_all only: power_strict_increasing_iff [of "2::nat"] one_less_numeral_iff semiring_norm)
  then show "k = split_point n" by (simp add: k i)
next
  assume "k = split_point n"
  with split_point_power [OF assms] show "\<exists>j. k = 2 ^ j \<and> k < n \<and> n \<le> 2 * k" by (metis power_Suc)
qed

end
