(* ===== verification/Chain_Event.thy ===== *)
theory Chain_Event
  imports Identity_Chain_Wire Json_Wire Canonical_Facts Merkle_Facts Crates_Instance
begin

text \<open>
  The event side of \<open>crates/protocol/src/identity_chain_wire.rs\<close>: a chain position inside a ledger
  payload, the hash of a chained event, and the input it gives to the conflict rule;
  \<open>payload_hash\<close> of \<open>ledger_entry.rs\<close> and the two key payloads of \<open>event_payloads.rs\<close> it reads.
\<close>

section \<open>Events\<close>

record ProtocolEvent = ProtocolEventHead +
  ev_id :: bytes
  ev_payload :: json
  ev_timestamp :: time
  ev_version :: u32
  ev_identity_chain :: "IdentityChainPosition option"

definition payload_hash :: "crates \<Rightarrow> json \<Rightarrow> canonical_payload_error + bytes" where
  "payload_hash C payload = rbind (canonicalize payload) (\<lambda>t. Ok (sha256 C (as_bytes t)))"

datatype ChainEventError = NotChained | Payload canonical_payload_error | Timestamp TimestampError
  | MalformedPrevHash | OutOfRange | Layout SigningBytesError | KeyEvent

section \<open>Positions in payloads\<close>

definition PAYLOAD_KEY :: str where "PAYLOAD_KEY = ''_identity_chain''"

definition position_to_value :: "IdentityChainPosition \<Rightarrow> json" where
  "position_to_value p = JObject
     [(''seq'', ser_nat (unat (p_seq p))), (''prev_hash'', ser_opt JString (p_prev_hash p)),
      (''layout_version'', ser_nat (unat (p_layout_version p))),
      (''rules_version'', ser_nat (unat (p_rules_version p))),
      (''hash_algo'', ser_nat (unat (p_hash_algo p))), (''extensions'', JString (p_extensions p))]"

definition position_from_value :: "json \<Rightarrow> IdentityChainPosition option" where
  "position_from_value v =
     (case de_struct [''seq'', ''prev_hash'', ''layout_version'', ''rules_version'', ''hash_algo'', ''extensions''] v of
        Some (named, [sq, prev, lv, rv, ha, ext]) \<Rightarrow>
          Option.bind (de_req de_u64 sq) (\<lambda>sq. Option.bind (de_opt named de_str prev) (\<lambda>prev.
          Option.bind (de_req de_u16 lv) (\<lambda>lv. Option.bind (de_req de_u32 rv) (\<lambda>rv.
          Option.bind (de_req de_u8 ha) (\<lambda>ha. Option.bind (de_req de_str ext) (\<lambda>ext.
            Some \<lparr>p_seq = sq, p_prev_hash = prev, p_layout_version = lv, p_rules_version = rv,
                  p_hash_algo = ha, p_extensions = ext\<rparr>))))))
      | _ \<Rightarrow> None)"

definition embed_position :: "json \<Rightarrow> IdentityChainPosition \<Rightarrow> json" where
  "embed_position payload position =
     (case payload of
        JObject es \<Rightarrow> JObject (map_insert es PAYLOAD_KEY (position_to_value position))
      | _ \<Rightarrow> payload)"

definition split_position :: "json \<Rightarrow> json \<times> IdentityChainPosition option" where
  "split_position payload =
     (case payload of
        JObject es \<Rightarrow> (JObject (map_remove es PAYLOAD_KEY), Option.bind (map_of es PAYLOAD_KEY) position_from_value)
      | _ \<Rightarrow> (payload, None))"

section \<open>Key events\<close>

definition de_uuid :: "crates \<Rightarrow> json \<Rightarrow> bytes option" where
  "de_uuid C j = Option.bind (de_str j) (uuid_parse C)"

definition de_identity_id :: "crates \<Rightarrow> json \<Rightarrow> bytes option" where
  "de_identity_id C j = Option.bind (de_str j) (\<lambda>s. result_ok (identity_id_parse C s))"

record IdentitySigningKeyAddedPayload =
  added_signing_key_id :: bytes
  added_public_key :: str
  added_device_label :: "str option"
  added_approved_by :: bytes
  added_identity_id :: bytes
  added_kind :: str
  added_grant_id :: "bytes option"
  added_approval_signature :: "str option"

definition added_from_value :: "crates \<Rightarrow> json \<Rightarrow> IdentitySigningKeyAddedPayload option" where
  "added_from_value C v =
     (case de_struct [''signing_key_id'', ''public_key'', ''device_label'', ''approved_by_signing_key_id'',
         ''identity_id'', ''kind'', ''grant_id'', ''approval_signature''] v of
        Some (named, [kid, pk, label, by, ident, kind, grant, sg]) \<Rightarrow>
          Option.bind (de_req (de_uuid C) kid) (\<lambda>kid. Option.bind (de_req de_str pk) (\<lambda>pk.
          Option.bind (de_opt named de_str label) (\<lambda>label. Option.bind (de_req (de_uuid C) by) (\<lambda>by.
          Option.bind (de_req (de_identity_id C) ident) (\<lambda>ident. Option.bind (de_req de_str kind) (\<lambda>kind.
          Option.bind (de_opt_default (de_uuid C) grant) (\<lambda>grant. Option.bind (de_opt_default de_str sg) (\<lambda>sg.
            Some \<lparr>added_signing_key_id = kid, added_public_key = pk, added_device_label = label,
                  added_approved_by = by, added_identity_id = ident, added_kind = kind,
                  added_grant_id = grant, added_approval_signature = sg\<rparr>))))))))
      | _ \<Rightarrow> None)"

record IdentitySigningKeyRevokedPayload =
  revoked_identity_id :: bytes
  revoked_signing_key_id :: bytes
  revoked_by_signing_key_id :: bytes
  revoked_signature :: str

definition revoked_from_value :: "crates \<Rightarrow> json \<Rightarrow> IdentitySigningKeyRevokedPayload option" where
  "revoked_from_value C v =
     (case de_struct [''identity_id'', ''signing_key_id'', ''revoked_by_signing_key_id'', ''signature''] v of
        Some (named, [ident, kid, by, sg]) \<Rightarrow>
          Option.bind (de_req (de_identity_id C) ident) (\<lambda>ident. Option.bind (de_req (de_uuid C) kid) (\<lambda>kid.
          Option.bind (de_req (de_uuid C) by) (\<lambda>by. Option.bind (de_req de_str sg) (\<lambda>sg.
            Some \<lparr>revoked_identity_id = ident, revoked_signing_key_id = kid,
                  revoked_by_signing_key_id = by, revoked_signature = sg\<rparr>))))
      | _ \<Rightarrow> None)"

definition SIGNING_KEY_KIND_DEVICE_GRANT :: str where "SIGNING_KEY_KIND_DEVICE_GRANT = ''device_grant''"

text \<open>The inner \<open>raw::<N>\<close>.\<close>

definition raw_b64 :: "crates \<Rightarrow> nat \<Rightarrow> str \<Rightarrow> ChainEventError + bytes" where
  "raw_b64 C n b64 = ok_or KeyEvent (Option.bind (b64_decode C b64) (to_array n))"

definition key_event_content :: "crates \<Rightarrow> ProtocolEvent \<Rightarrow> bytes \<Rightarrow> ChainEventError + KeyEventContent option" where
  "key_event_content C event owner =
     (if ev_kind event = ''identity.signing_key_added'' then
        rbind (ok_or KeyEvent (added_from_value C (ev_payload event))) (\<lambda>added.
          case (added_grant_id added, added_approval_signature added) of
            (Some grant_id, Some sig) \<Rightarrow>
              if added_identity_id added \<noteq> owner \<or> added_kind added \<noteq> SIGNING_KEY_KIND_DEVICE_GRANT then Err KeyEvent
              else
                rbind (raw_b64 C 32 (added_public_key added)) (\<lambda>pk.
                rbind (raw_b64 C 64 sig) (\<lambda>sg.
                Ok (Some (DeviceGrant (added_signing_key_id added) pk (added_approved_by added) grant_id sg))))
          | _ \<Rightarrow> Err KeyEvent)
      else if ev_kind event = ''identity.signing_key_revoked'' then
        rbind (ok_or KeyEvent (revoked_from_value C (ev_payload event))) (\<lambda>revoked.
          if revoked_identity_id revoked \<noteq> owner then Err KeyEvent
          else
            rbind (raw_b64 C 64 (revoked_signature revoked)) (\<lambda>sg.
            Ok (Some (Revocation (revoked_signing_key_id revoked) (revoked_by_signing_key_id revoked) sg))))
      else Ok None)"

section \<open>The chain hash\<close>

definition parse_prev :: "crates \<Rightarrow> IdentityChainPosition \<Rightarrow> ChainEventError + bytes option" where
  "parse_prev C position =
     (case p_prev_hash position of
        None \<Rightarrow> Ok None
      | Some h \<Rightarrow> rbind (ok_or MalformedPrevHash (wire_parse_hash C h)) (\<lambda>b. Ok (Some b)))"

definition wire_event_hash :: "crates \<Rightarrow> ProtocolEvent \<Rightarrow> ChainEventError + bytes" where
  "wire_event_hash C event =
     rbind (ok_or NotChained (ev_identity_chain event)) (\<lambda>position.
     rbind (ok_or NotChained (chain_owner C event)) (\<lambda>owner.
     rbind (parse_prev C position) (\<lambda>prev.
     rbind (map_err Layout (position_envelope C position)) (\<lambda>envelope.
     rbind (key_event_content C event owner) (\<lambda>content.
     case content of
       Some content \<Rightarrow>
         map_err Layout (compute_key_event_hash C
           \<lparr>kh_identity_id = owner, kh_seq = p_seq position, kh_prev_hash = prev, kh_content = content\<rparr>)
     | None \<Rightarrow>
         rbind (map_err Payload (payload_hash C (ev_payload event))) (\<lambda>payload.
         rbind (map_err (\<lambda>_. OutOfRange) (timestamp_micros (ev_timestamp event))) (\<lambda>micros.
         map_err Layout (compute_event_hash C
           \<lparr>ch_identity_id = owner, ch_seq = p_seq position, ch_prev_hash = prev, ch_event_id = ev_id event,
            ch_kind = ev_kind event, ch_issuer = ev_issuer event, ch_subject = ev_subject event,
            ch_event_version = ev_version event, ch_timestamp_micros = i64_of micros,
            ch_payload_hash = payload, ch_envelope = envelope\<rparr>))))))))"

definition to_chained_event :: "crates \<Rightarrow> ProtocolEvent \<Rightarrow> time \<Rightarrow> ClockSkewBounds \<Rightarrow> ChainEventError + ChainedEvent" where
  "to_chained_event C event node_now bounds =
     rbind (ok_or NotChained (classify (kind_from_str (ev_kind event)))) (\<lambda>cls.
     rbind (ok_or NotChained (ev_identity_chain event)) (\<lambda>position.
     rbind (parse_prev C position) (\<lambda>prev.
     rbind (map_err Timestamp (clamp_timestamp (truncate_to_micros (ev_timestamp event)) node_now bounds)) (\<lambda>ts.
     rbind (wire_event_hash C event) (\<lambda>h.
     Ok \<lparr>seq = p_seq position, prev_hash = prev, event_hash = h, timestamp = ts,
         action_class = cls, authority = authority_of (ev_kind event)\<rparr>)))))"

section \<open>Facts\<close>

lemma position_value_roundtrip: "position_from_value (position_to_value p) = Some p"
  by (cases "p_prev_hash p")
    (simp_all add: position_from_value_def position_to_value_def de_struct_def de_req_def de_opt_def opt_value_def ser_opt_def)

text \<open>The input record of the hash of an event that is not a key event, and the byte strings hashed.\<close>

definition chain_input :: "crates \<Rightarrow> ProtocolEvent \<Rightarrow> ChainEventError + ChainHashInput" where
  "chain_input C event =
     rbind (ok_or NotChained (ev_identity_chain event)) (\<lambda>position.
     rbind (ok_or NotChained (chain_owner C event)) (\<lambda>owner.
     rbind (parse_prev C position) (\<lambda>prev.
     rbind (map_err Layout (position_envelope C position)) (\<lambda>envelope.
     rbind (map_err Payload (payload_hash C (ev_payload event))) (\<lambda>payload.
     rbind (map_err (\<lambda>_. OutOfRange) (timestamp_micros (ev_timestamp event))) (\<lambda>micros.
     Ok \<lparr>ch_identity_id = owner, ch_seq = p_seq position, ch_prev_hash = prev, ch_event_id = ev_id event,
         ch_kind = ev_kind event, ch_issuer = ev_issuer event, ch_subject = ev_subject event,
         ch_event_version = ev_version event, ch_timestamp_micros = i64_of micros,
         ch_payload_hash = payload, ch_envelope = envelope\<rparr>))))))"

definition chain_inputs :: "crates \<Rightarrow> ProtocolEvent \<Rightarrow> bytes list" where
  "chain_inputs C event =
     (case canonicalize (ev_payload event) of Inr t \<Rightarrow> [as_bytes t] | Inl _ \<Rightarrow> []) @
     (case rbind (chain_input C event) (\<lambda>i. map_err Layout (chain_event_signing_bytes i)) of
        Inr m \<Rightarrow> [m] | Inl _ \<Rightarrow> [])"

lemma hash_of_input:
  assumes "authority_of (ev_kind event) = AuthenticatedSession" and "wire_event_hash C event = Ok h"
  shows "\<exists>i m. chain_input C event = Ok i \<and> chain_event_signing_bytes i = Ok m \<and> h = digest C Sha256 m"
proof -
  have "key_event_content C event owner = Ok None" for owner
    using assms(1) by (auto simp: key_event_content_def authority_of_def split: if_splits)
  moreover have "hash_algo env = Sha256" for env :: Envelope by (cases "hash_algo env")
  ultimately show ?thesis
    using assms(2) by (auto simp: wire_event_hash_def rbind_eq_Inr chain_input_def compute_event_hash_def)
qed

lemma chain_owner_length: "hex_ok C \<Longrightarrow> chain_owner C e = Some owner \<Longrightarrow> length owner = 32"
  by (auto simp: chain_owner_def Option.bind_eq_Some_conv result_ok_eq_Some identity_id_parse_Ok Let_def
      split: list.splits if_splits)

lemma parse_prev_wf: "parse_prev C p = Ok prev \<Longrightarrow> wf_prev prev"
  by (auto simp: parse_prev_def wf_prev_def wire_parse_hash_def to_array_def rbind_eq_Inr Option.bind_eq_Some_conv
      split: option.splits if_splits)

lemma chain_input_wf:
  assumes "sha256_ok C" "hex_ok C" "length (ev_id e) = 16" "chain_input C e = Ok i"
  shows "wf_chain_input i"
  using assms
  by (auto simp: chain_input_def rbind_eq_Inr wf_chain_input_def payload_hash_def sha256_len
      dest: chain_owner_length parse_prev_wf)

lemma i64_micros_inject:
  assumes "timestamp_micros s = Ok m" "timestamp_micros t = Ok n" "i64_of m = i64_of n"
  shows "m = n"
proof -
  have "sint (word_of_int x :: i64) = x" if "timestamp_micros u = Ok x" for x u
    using that by (auto simp: timestamp_micros_def Let_def i64_min_def i64_max_def int_word_sint split: if_splits)
  with assms show ?thesis unfolding i64_of_def by metis
qed

lemma no_upper_in_lower_hex: "list_all is_lower_hex s \<Longrightarrow> \<not> list_ex is_ascii_uppercase s"
  by (induction s) (auto simp: is_lower_hex_def is_ascii_digit_def is_ascii_uppercase_def)

text \<open>A position written today carries an envelope every node reads.\<close>

lemma position_envelope_current:
  assumes "hex_ok C"
  shows "position_envelope C (position_current C s prev) = Ok (envelope_current IDENTITY_CHAIN_EVENT)"
proof -
  have "ext_decode (ext_encode []) rv = Ok []" for rv
    using ext_region_roundtrip [of "[]" rv "[]"] by (simp add: ext_decode_def)
  then show ?thesis
    using no_upper_in_lower_hex [OF hex_encode_lower [OF assms]] hex_roundtrip [OF assms]
    by (simp add: position_envelope_def position_current_def to_envelope_def decode_lower_hex_def
        envelope_from_parts_def envelope_current_def ext_none_def hash_algo_from_id_def Let_def)
qed

lemma chain_owner_issuer:
  assumes "hex_ok C" "length owner = 32" "classify (kind_from_str (ev_kind e)) \<noteq> None"
    and "ev_kind e \<noteq> ''identity.recovery_approved''" "ev_kind e \<noteq> ''identity.recovery_cancelled''"
    and "ev_issuer e = global_id_new ''identity'' (identity_id_display C owner) k x"
  shows "chain_owner C e = Some owner"
proof -
  have "CHR '':'' \<notin> set (hex_encode C owner)"
    using hex_encode_lower [OF assms(1), of owner] by (auto simp: list_all_iff is_lower_hex_def is_ascii_digit_def)
  then have "splitn 4 CHR '':'' (ev_issuer e) = [''identity'', identity_id_display C owner, k, x] \<or>
      (\<exists>r. splitn 4 CHR '':'' (ev_issuer e) = ''identity'' # identity_id_display C owner # r)"
    by (simp add: assms(6) global_id_new_def identity_id_display_def numeral_eq_Suc split_once_append)
  moreover have "result_ok (identity_id_parse C (identity_id_display C owner)) = Some owner"
    using identity_id_parse_Ok [OF assms(1)] assms(2) by (simp add: result_ok_eq_Some)
  ultimately show ?thesis using assms(3-5) by (auto simp: chain_owner_def Let_def)
qed

section \<open>Properties\<close>

text \<open>A chain position written into an object payload is read back exactly, and taking it out again
  leaves the other entries of the payload, even when the payload already had an entry under the
  reserved key.\<close>

theorem position_survives_payload:
  assumes "distinct (map fst es)"
  shows "\<exists>rest. split_position (embed_position (JObject es) p) = (JObject rest, Some p) \<and>
    mset rest = filter_mset (\<lambda>e. fst e \<noteq> PAYLOAD_KEY) (mset es)"
proof -
  let ?ins = "map_insert es PAYLOAD_KEY (position_to_value p)"
  have "mset (map_remove ?ins PAYLOAD_KEY) = filter_mset (\<lambda>e. fst e \<noteq> PAYLOAD_KEY) (mset ?ins)"
    by (rule mset_remove [OF distinct_insert [OF assms]])
  also have "\<dots> = filter_mset (\<lambda>e. fst e \<noteq> PAYLOAD_KEY) (mset es)"
    by (induction es PAYLOAD_KEY "position_to_value p" rule: map_insert.induct) auto
  finally show ?thesis
    by (simp add: split_position_def embed_position_def map_of_insert position_value_roundtrip)
qed

text \<open>Witness: a genesis position in a payload with one field.\<close>

theorem position_survives_payload_witness:
  "\<exists>rest. split_position (embed_position (JObject [(''bio'', JNull)]) (position_current demo_crates 1 None)) =
     (JObject rest, Some (position_current demo_crates 1 None)) \<and> mset rest = {#(''bio'', JNull)#}"
  using position_survives_payload [of "[(''bio'', JNull)]" "position_current demo_crates 1 None"]
  by (simp add: PAYLOAD_KEY_def)

text \<open>The chain hash of an event commits to everything the replay and its readers use: two events
  with one chain hash agree on owner, sequence number, predecessor, id, kind, issuer, subject,
  version, microsecond and canonical payload, or the bytes hashed for them exhibit a SHA-256 collision.\<close>

theorem chain_hash_commits:
  assumes "sha256_ok C" and "hex_ok C" and "length (ev_id a) = 16" and "length (ev_id b) = 16"
    and "wf_value (ev_payload a)" and "wf_value (ev_payload b)"
    and "authority_of (ev_kind a) = AuthenticatedSession" and "authority_of (ev_kind b) = AuthenticatedSession"
    and "wire_event_hash C a = Ok h" and "wire_event_hash C b = Ok h"
  shows "(chain_owner C a = chain_owner C b \<and> map_option p_seq (ev_identity_chain a) = map_option p_seq (ev_identity_chain b) \<and>
      map_option (parse_prev C) (ev_identity_chain a) = map_option (parse_prev C) (ev_identity_chain b) \<and>
      ev_id a = ev_id b \<and> ev_kind a = ev_kind b \<and> ev_issuer a = ev_issuer b \<and> ev_subject a = ev_subject b \<and>
      ev_version a = ev_version b \<and> timestamp_micros (ev_timestamp a) = timestamp_micros (ev_timestamp b) \<and>
      canon_value (ev_payload a) = canon_value (ev_payload b)) \<or>
    collision_in C Sha256 (chain_inputs C a @ chain_inputs C b)"
proof -
  from hash_of_input [OF assms(7,9)] obtain i m where
    i: "chain_input C a = Ok i" "chain_event_signing_bytes i = Ok m" "h = digest C Sha256 m" by blast
  from hash_of_input [OF assms(8,10)] obtain j n where
    j: "chain_input C b = Ok j" "chain_event_signing_bytes j = Ok n" "h = digest C Sha256 n" by blast
  obtain s t where st: "canonicalize (ev_payload a) = Ok s" "canonicalize (ev_payload b) = Ok t"
    "ch_payload_hash i = sha256 C (as_bytes s)" "ch_payload_hash j = sha256 C (as_bytes t)"
    using i(1) j(1) by (auto simp: chain_input_def rbind_eq_Inr payload_hash_def)
  let ?ms = "chain_inputs C a @ chain_inputs C b"
  have ins: "m \<in> set ?ms" "n \<in> set ?ms" "as_bytes s \<in> set ?ms" "as_bytes t \<in> set ?ms"
    using i j st by (simp_all add: chain_inputs_def)
  show ?thesis
  proof (cases "m = n \<and> s = t")
    case False
    have "digest C Sha256 (as_bytes s) = digest C Sha256 (as_bytes t)" if "m = n"
      using chain_event_fields_inject [OF chain_input_wf chain_input_wf, OF assms(1-3) i(1) assms(1,2,4) j(1) i(2)]
        that j(2) st(3,4) by simp
    with False i(3) j(3) ins show ?thesis by (metis collisionI as_bytes_inject)
  next
    case True
    then have "i = j"
      using chain_event_fields_inject [OF chain_input_wf chain_input_wf, OF assms(1-3) i(1) assms(1,2,4) j(1) i(2)] j(2) by simp
    moreover have "canon_value (ev_payload a) = canon_value (ev_payload b)"
      using parse_canonical [OF assms(5)] parse_canonical [OF assms(6)] st True by (simp add: canonicalize_def)
    ultimately show ?thesis using i(1) j(1)
      by (auto simp: chain_input_def rbind_eq_Inr dest: i64_micros_inject)
  qed
qed

text \<open>Witness: two profile edits whose payloads list their entries in different orders.\<close>

definition demo_owner :: bytes where "demo_owner = replicate 32 7"

definition demo_profile_event :: "json \<Rightarrow> ProtocolEvent" where
  "demo_profile_event payload = \<lparr>ev_kind = ''profile.updated'',
     ev_issuer = global_id_new ''identity'' (identity_id_display demo_crates demo_owner) ''profile'' ''self'',
     ev_subject = ''identity:x'', ev_id = replicate 16 1, ev_payload = payload, ev_timestamp = 0, ev_version = 1,
     ev_identity_chain = Some (position_current demo_crates 1 None)\<rparr>"

lemma demo_profile_hash: "\<exists>h. \<forall>p. canonicalize p = Ok demo_text \<longrightarrow> wire_event_hash demo_crates (demo_profile_event p) = Ok h"
proof -
  have "kind_from_str ''profile.updated'' = Known ProfileUpdated" using kind_from_known [of ProfileUpdated] by simp
  then have "chain_owner demo_crates (demo_profile_event p) = Some demo_owner" for p
    by (intro chain_owner_issuer [OF demo_hex_ok]) (simp_all add: demo_profile_event_def demo_owner_def classify_def)
  moreover have "key_event_content demo_crates (demo_profile_event p) demo_owner = Ok None" for p
    by (simp add: key_event_content_def demo_profile_event_def)
  moreover have "timestamp_micros 0 = Ok 0" by (simp add: timestamp_micros_def i64_min_def i64_max_def)
  moreover have "length (global_id_new ''identity'' (identity_id_display demo_crates demo_owner) ''profile'' ''self'') < 2 ^ 32"
    using length_hex_encode [OF demo_hex_ok, of demo_owner]
    by (simp add: global_id_new_def identity_id_display_def demo_owner_def)
  ultimately show ?thesis
    using position_envelope_current [OF demo_hex_ok]
    by (simp add: wire_event_hash_def demo_profile_event_def parse_prev_def position_current_def Let_def
        payload_hash_def compute_event_hash_def rbind_eq_Inr chain_event_signing_bytes_Ok)
qed

theorem chain_hash_commits_witness:
  "canon_value demo_payload = canon_value (JObject [(''a'', JArray [JBool True]), (''b'', JNull)]) \<or>
   collision_in demo_crates Sha256 (chain_inputs demo_crates (demo_profile_event demo_payload) @
     chain_inputs demo_crates (demo_profile_event (JObject [(''a'', JArray [JBool True]), (''b'', JNull)])))"
proof -
  let ?q = "JObject [(''a'', JArray [JBool True]), (''b'', JNull)]"
  have q: "canonicalize ?q = Ok demo_text"
    using write_value_canon [of 0 demo_payload demo_text] demo_canonicalizes
    by (simp add: canonicalize_def demo_payload_def encode_utf16_def encode_utf16_char_def str_chars_def)
  obtain h where h: "wire_event_hash demo_crates (demo_profile_event demo_payload) = Ok h"
    "wire_event_hash demo_crates (demo_profile_event ?q) = Ok h"
    using demo_profile_hash demo_canonicalizes q by blast
  have "wf_value ?q" by (simp add: valid_str_def)
  then show ?thesis
    using chain_hash_commits [OF demo_sha256_ok demo_hex_ok _ _ _ _ _ _ h] demo_wf
    by (auto simp: demo_profile_event_def authority_of_def)
qed

text \<open>The hash of an owner-signed key event covers what its signature covers and nothing more: the
  event's id, time and version do not change it.\<close>

theorem key_event_hash_ignores_envelope:
  assumes "authority_of (ev_kind event) = OwnerSigned" and "wire_event_hash C event = Ok h"
  shows "wire_event_hash C (event\<lparr>ev_id := i, ev_timestamp := t, ev_version := v\<rparr>) = Ok h"
proof -
  let ?e = "event\<lparr>ev_id := i, ev_timestamp := t, ev_version := v\<rparr>"
  have o: "chain_owner C ?e = chain_owner C event" by (simp add: chain_owner_def)
  have k: "key_event_content C ?e owner = key_event_content C event owner" for owner
    by (simp add: key_event_content_def)
  have n: "key_event_content C event owner \<noteq> Ok None" for owner
    using assms(1) by (auto simp: key_event_content_def authority_of_def rbind_eq_Inr split: if_splits option.splits)
  from assms(2) obtain p owner prev env c where "ev_identity_chain event = Some p" "chain_owner C event = Some owner"
    "parse_prev C p = Ok prev" "position_envelope C p = Ok env" and c: "key_event_content C event owner = Ok c"
    by (auto simp: wire_event_hash_def rbind_eq_Inr)
  moreover from c n obtain x where "c = Some x" by (cases c) auto
  ultimately show ?thesis using assms(2) by (simp add: wire_event_hash_def o k)
qed

text \<open>Witness: a revocation.\<close>

definition demo_revocation_event :: ProtocolEvent where
  "demo_revocation_event = \<lparr>ev_kind = ''identity.signing_key_revoked'',
     ev_issuer = global_id_new ''identity'' (identity_id_display demo_crates demo_owner) ''signing_key'' ''k'',
     ev_subject = ''identity:x'', ev_id = replicate 16 1,
     ev_payload = JObject [(''identity_id'', JString (identity_id_display demo_crates demo_owner)),
       (''signing_key_id'', JString (uuid_text demo_crates (replicate 16 2))),
       (''revoked_by_signing_key_id'', JString (uuid_text demo_crates (replicate 16 3))),
       (''signature'', JString (b64_encode demo_crates (replicate 64 4)))],
     ev_timestamp = 0, ev_version = 2, ev_identity_chain = Some (position_current demo_crates 1 None)\<rparr>"

lemma demo_revocation_hash: "\<exists>h. wire_event_hash demo_crates demo_revocation_event = Ok h"
proof -
  have "kind_from_str ''identity.signing_key_revoked'' = Known IdentitySigningKeyRevoked"
    using kind_from_known [of IdentitySigningKeyRevoked] by simp
  then have o: "chain_owner demo_crates demo_revocation_event = Some demo_owner"
    by (intro chain_owner_issuer [OF demo_hex_ok]) (simp_all add: demo_revocation_event_def demo_owner_def classify_def)
  have u: "uuid_parse demo_crates (uuid_text demo_crates (replicate 16 b)) = Some (replicate 16 b)" for b
    using demo_uuid_ok by (simp add: uuid_ok_def)
  have i: "identity_id_parse demo_crates (identity_id_display demo_crates demo_owner) = Ok demo_owner"
    using identity_id_parse_Ok [OF demo_hex_ok] by (simp add: demo_owner_def)
  have b: "b64_decode demo_crates (b64_encode demo_crates x) = Some x" for x
    by (simp add: demo_crates_def demo_decode_encode)
  have "key_event_content demo_crates demo_revocation_event demo_owner =
      Ok (Some (Revocation (replicate 16 2) (replicate 16 3) (replicate 64 4)))"
    by (simp add: key_event_content_def demo_revocation_event_def revoked_from_value_def de_struct_def de_req_def
        de_uuid_def de_identity_id_def u i b raw_b64_def to_array_def)
  with o show ?thesis
    using position_envelope_current [OF demo_hex_ok]
    by (simp add: wire_event_hash_def demo_revocation_event_def parse_prev_def position_current_def Let_def
        compute_key_event_hash_def key_event_signing_bytes_eq)
qed

theorem key_event_hash_ignores_envelope_witness:
  "wire_event_hash demo_crates (demo_revocation_event\<lparr>ev_id := replicate 16 9, ev_timestamp := 5, ev_version := 3\<rparr>) =
   wire_event_hash demo_crates demo_revocation_event"
proof -
  obtain h where h: "wire_event_hash demo_crates demo_revocation_event = Ok h" using demo_revocation_hash by blast
  show ?thesis
    using key_event_hash_ignores_envelope [OF _ h, where i = "replicate 16 9" and t = 5 and v = 3] h
    by (simp add: demo_revocation_event_def authority_of_def)
qed

end
