(* ===== verification/Incremental_Merkle.thy ===== *)
theory Incremental_Merkle
  imports Merkle_Facts
begin

text \<open>
  Model of \<open>crates/chain/src/incremental_merkle.rs\<close>: the tree kept up to date by O(log n) appends,
  and its refinement of the from-scratch \<open>merkle\<close> functions. The \<open>HashMap\<close> is a partial function,
  \<open>u32\<close>/\<open>u64\<close> coordinates are \<^typ>\<open>nat\<close> (fewer than \<open>2\<^sup>6\<^sup>4\<close> leaves, an hypothesis where the split
  point needs it), and a panicking \<open>expect\<close> is \<open>None\<close>.

  The locale \<open>proof_server\<close> is the contract a node's proof endpoints rely on; it is interpreted on
  the incremental tree and on the from-scratch functions.
\<close>

section \<open>Definitions\<close>

record IncrementalMerkleTree =
  imt_algo :: HashAlgo
  frontier :: "bytes option list"
  nodes :: "nat \<times> nat \<rightharpoonup> bytes"
  imt_size :: nat

definition imt_new :: "HashAlgo \<Rightarrow> IncrementalMerkleTree" where
  "imt_new algo = \<lparr>imt_algo = algo, frontier = [], nodes = Map.empty, imt_size = 0\<rparr>"

text \<open>The \<open>while\<close> loop of \<open>append\<close>: a full slot is emptied and merged into the next level.\<close>

function carry ::
  "crates \<Rightarrow> HashAlgo \<Rightarrow> nat \<Rightarrow> nat \<Rightarrow> bytes \<Rightarrow> bytes option list \<Rightarrow> (nat \<times> nat \<rightharpoonup> bytes) \<Rightarrow>
   nat \<times> bytes \<times> bytes option list \<times> (nat \<times> nat \<rightharpoonup> bytes)" where
  "carry C algo start level h fr nd =
     (if level < length fr then
        (case fr ! level of
           None \<Rightarrow> (level, h, fr, nd)
         | Some left \<Rightarrow>
             (let h' = node_hash C algo left h; level' = Suc level in
              carry C algo start level' h' (fr[level := None]) (nd((level', start div 2 ^ level') \<mapsto> h'))))
      else (level, h, fr, nd))"
  by pat_completeness auto
termination
  by (relation "measure (\<lambda>(C, algo, start, level, h, fr, nd). length fr - level)") auto

declare carry.simps [simp del]

definition imt_append :: "crates \<Rightarrow> bytes \<Rightarrow> IncrementalMerkleTree \<Rightarrow> IncrementalMerkleTree" where
  "imt_append C leaf_data t =
     (let start_size = imt_size t; h = leaf_hash C (imt_algo t) leaf_data;
          (level, h, fr, nd) = carry C (imt_algo t) start_size 0 h (frontier t) ((nodes t)((0, start_size) \<mapsto> h));
          fr' = (if level = length fr then fr @ [Some h] else fr[level := Some h])
      in t\<lparr>frontier := fr', nodes := nd, imt_size := start_size + 1\<rparr>)"

fun imt_from_leaves_loop :: "crates \<Rightarrow> IncrementalMerkleTree \<Rightarrow> bytes list \<Rightarrow> IncrementalMerkleTree" where
  "imt_from_leaves_loop C t [] = t"
| "imt_from_leaves_loop C t (leaf # leaves) = imt_from_leaves_loop C (imt_append C leaf t) leaves"

definition imt_from_leaves :: "crates \<Rightarrow> HashAlgo \<Rightarrow> bytes list \<Rightarrow> IncrementalMerkleTree" where
  "imt_from_leaves C algo leaves = imt_from_leaves_loop C (imt_new algo) leaves"

definition is_power_of_two :: "nat \<Rightarrow> bool" where
  "is_power_of_two n \<longleftrightarrow> n \<noteq> 0 \<and> 2 ^ (bit_len n - 1) = n"

fun trailing_zeros :: "nat \<Rightarrow> nat" where
  "trailing_zeros n = (if n = 0 then 64 else if odd n then 0 else Suc (trailing_zeros (n div 2)))"

declare trailing_zeros.simps [simp del]

function range_hash :: "crates \<Rightarrow> IncrementalMerkleTree \<Rightarrow> nat \<Rightarrow> nat \<Rightarrow> bytes option" where
  "range_hash C t start sz =
     (if sz = 0 then None
      else if sz = 1 then nodes t (0, start)
      else
        (case (if is_power_of_two sz \<and> start mod sz = 0
               then nodes t (trailing_zeros sz, start div sz) else None) of
           Some h \<Rightarrow> Some h
         | None \<Rightarrow>
             (let k = split_point sz in
              Option.bind (range_hash C t start k) (\<lambda>left.
              Option.bind (range_hash C t (start + k) (sz - k)) (\<lambda>right.
                Some (node_hash C (imt_algo t) left right))))))"
  by pat_completeness auto
termination
  by (relation "measure (\<lambda>(C, t, start, sz). sz)") (auto intro!: split_point_less)

declare range_hash.simps [simp del]

text \<open>The outer option is the panic inside \<open>range_hash\<close>; the inner one is the \<open>Option\<close> returned.\<close>

definition imt_root :: "crates \<Rightarrow> IncrementalMerkleTree \<Rightarrow> nat \<Rightarrow> bytes option option" where
  "imt_root C t tree_size =
     (if tree_size > imt_size t then Some None
      else if tree_size = 0 then Some (Some (empty_root C (imt_algo t)))
      else map_option Some (range_hash C t 0 tree_size))"

function imt_path :: "crates \<Rightarrow> IncrementalMerkleTree \<Rightarrow> nat \<Rightarrow> nat \<Rightarrow> nat \<Rightarrow> bytes list option" where
  "imt_path C t m start sz =
     (if sz \<le> 1 then Some []
      else (let k = split_point sz in
        if m < k then
          Option.bind (imt_path C t m start k) (\<lambda>pf.
          Option.bind (range_hash C t (start + k) (sz - k)) (\<lambda>h. Some (pf @ [h])))
        else
          Option.bind (imt_path C t (m - k) (start + k) (sz - k)) (\<lambda>pf.
          Option.bind (range_hash C t start k) (\<lambda>h. Some (pf @ [h])))))"
  by pat_completeness auto
termination
  by (relation "measure (\<lambda>(C, t, m, start, sz). sz)")
    (auto simp: not_le intro: split_point_less split_point_diff)

declare imt_path.simps [simp del]

definition imt_inclusion_proof ::
  "crates \<Rightarrow> IncrementalMerkleTree \<Rightarrow> nat \<Rightarrow> nat \<Rightarrow> (ProofError + bytes list) option" where
  "imt_inclusion_proof C t leaf_index tree_size =
     (if tree_size > imt_size t then Some (Err (TreeSizeExceedsLeaves tree_size (imt_size t)))
      else if leaf_index \<ge> tree_size then Some (Err (LeafIndexOutOfRange leaf_index tree_size))
      else map_option Ok (imt_path C t leaf_index 0 tree_size))"

function imt_subproof :: "crates \<Rightarrow> IncrementalMerkleTree \<Rightarrow> nat \<Rightarrow> nat \<Rightarrow> nat \<Rightarrow> bool \<Rightarrow> bytes list option" where
  "imt_subproof C t m start sz b =
     (if m = sz then
        (if b then Some [] else map_option (\<lambda>h. [h]) (range_hash C t start sz))
      else if sz < 2 then None
      else (let k = split_point sz in
        if m \<le> k then
          Option.bind (imt_subproof C t m start k b) (\<lambda>pf.
          Option.bind (range_hash C t (start + k) (sz - k)) (\<lambda>h. Some (pf @ [h])))
        else
          Option.bind (imt_subproof C t (m - k) (start + k) (sz - k) False) (\<lambda>pf.
          Option.bind (range_hash C t start k) (\<lambda>h. Some (pf @ [h])))))"
  by pat_completeness auto
termination
  by (relation "measure (\<lambda>(C, t, m, start, sz, b). sz)")
    (auto simp: not_less intro: split_point_less split_point_diff)

declare imt_subproof.simps [simp del]

definition imt_consistency_proof ::
  "crates \<Rightarrow> IncrementalMerkleTree \<Rightarrow> nat \<Rightarrow> nat \<Rightarrow> (ProofError + bytes list) option" where
  "imt_consistency_proof C t fst_size snd_size =
     (if snd_size > imt_size t then Some (Err (TreeSizeExceedsLeaves snd_size (imt_size t)))
      else if fst_size > snd_size then Some (Err (FirstExceedsTreeSize fst_size snd_size))
      else if fst_size = 0 \<or> fst_size = snd_size then Some (Ok [])
      else map_option Ok (imt_subproof C t fst_size 0 snd_size True))"

section \<open>The invariant\<close>

definition leaf_range :: "'a list \<Rightarrow> nat \<Rightarrow> nat \<Rightarrow> 'a list" where
  "leaf_range ls start len = take len (drop start ls)"

definition level_complete :: "crates \<Rightarrow> HashAlgo \<Rightarrow> bytes list \<Rightarrow> nat \<Rightarrow> (nat \<times> nat \<rightharpoonup> bytes) \<Rightarrow> bool" where
  "level_complete C algo ls lv nd \<longleftrightarrow>
     (\<forall>ix. nd (lv, ix) =
        (if ix < length ls div 2 ^ lv then Some (mth C algo (leaf_range ls (ix * 2 ^ lv) (2 ^ lv))) else None))"

definition frontier_slot :: "crates \<Rightarrow> HashAlgo \<Rightarrow> bytes list \<Rightarrow> nat \<Rightarrow> bytes option" where
  "frontier_slot C algo ls lv =
     (if odd (length ls div 2 ^ lv)
      then Some (mth C algo (leaf_range ls (length ls div 2 ^ Suc lv * 2 ^ Suc lv) (2 ^ lv))) else None)"

definition imt_inv :: "crates \<Rightarrow> HashAlgo \<Rightarrow> bytes list \<Rightarrow> IncrementalMerkleTree \<Rightarrow> bool" where
  "imt_inv C algo ls t \<longleftrightarrow>
     imt_algo t = algo \<and> imt_size t = length ls \<and>
     (\<forall>lv. level_complete C algo ls lv (nodes t)) \<and>
     length (frontier t) = bit_len (length ls) \<and>
     (\<forall>lv < bit_len (length ls). frontier t ! lv = frontier_slot C algo ls lv)"

lemma imt_new_inv: "imt_inv C algo [] (imt_new algo)"
  by (simp add: imt_inv_def imt_new_def level_complete_def)

section \<open>Perfect subtrees\<close>

lemma bit_len_power [simp]: "bit_len (2 ^ j) = Suc j"
proof (induction j)
  case (Suc j)
  then show ?case by (simp add: bit_len_pos)
qed (simp add: bit_len_pos)

lemma bit_len_power_minus: "bit_len (2 ^ j - 1) = j"
proof (cases j)
  case (Suc i)
  have "2 ^ i \<le> (2::nat) ^ j - 1" by (simp add: Suc)
  then have "i < bit_len (2 ^ j - 1)" by (rule bit_len_ge)
  moreover have "bit_len (2 ^ j - 1) \<le> j" by (rule bit_len_le) simp
  ultimately show ?thesis by (simp add: Suc)
qed simp

lemma split_point_perfect: "j < 64 \<Longrightarrow> split_point (2 ^ Suc j) = 2 ^ j"
  using bit_len_power_minus [of "Suc j"] by (simp add: split_point_eq)

lemma range_append_halves: "leaf_range ls a (m + n) = leaf_range ls a m @ leaf_range ls (a + m) n"
  by (simp add: leaf_range_def take_add add.commute)

lemma length_range: "a + n \<le> length ls \<Longrightarrow> length (leaf_range ls a n) = n"
  by (simp add: leaf_range_def)

lemma mth_perfect:
  assumes "j < 64" and "a + 2 ^ Suc j \<le> length ls"
  shows "mth C algo (leaf_range ls a (2 ^ Suc j)) =
    node_hash C algo (mth C algo (leaf_range ls a (2 ^ j))) (mth C algo (leaf_range ls (a + 2 ^ j) (2 ^ j)))"
proof -
  let ?d = "leaf_range ls a (2 ^ Suc j)"
  have len: "length ?d = 2 ^ Suc j" using assms by (simp add: length_range)
  then have sp: "split_point (length ?d) = 2 ^ j" using split_point_perfect [OF assms(1)] by simp
  have d: "?d = leaf_range ls a (2 ^ j) @ leaf_range ls (a + 2 ^ j) (2 ^ j)"
    by (simp add: mult_2 range_append_halves)
  have l: "length (leaf_range ls a (2 ^ j)) = 2 ^ j" using assms by (simp add: length_range)
  have "2 \<le> length ?d" unfolding len by simp
  from mth_node [OF this, of C algo, unfolded sp] show ?thesis by (simp add: d l del: power_Suc)
qed

section \<open>Appending\<close>

lemma range_append_old: "a + n \<le> length ls \<Longrightarrow> leaf_range (ls @ [x]) a n = leaf_range ls a n"
  by (simp add: leaf_range_def)

lemma block_bound: "ix < n div 2 ^ lv \<Longrightarrow> ix * 2 ^ lv + 2 ^ lv \<le> (n::nat)"
proof -
  assume "ix < n div 2 ^ lv"
  then have "Suc ix \<le> n div 2 ^ lv" by simp
  then have "Suc ix * 2 ^ lv \<le> n" by (simp only: less_eq_div_iff_mult_less_eq zero_less_power zero_less_numeral)
  then show ?thesis by simp
qed

lemma last_block:
  assumes "2 ^ l dvd Suc n"
  obtains q where "Suc n = Suc q * 2 ^ l" and "n div 2 ^ l = q" and "Suc n div 2 ^ l = Suc q"
    and "n = q * 2 ^ l + (2 ^ l - 1)"
proof -
  from assms obtain p where p: "Suc n = p * 2 ^ l" by (auto simp: mult.commute elim: dvdE)
  then obtain q where q: "p = Suc q" by (cases p) auto
  have n: "n = q * 2 ^ l + (2 ^ l - 1)" using p by (simp add: q)
  have "n div 2 ^ l = q" unfolding n by (subst div_mult_self3) simp_all
  moreover have "Suc n div 2 ^ l = Suc q" by (simp add: p q del: mult_Suc)
  ultimately show thesis using that p n by (simp add: q)
qed

lemma level_unchanged:
  assumes "\<not> 2 ^ lv dvd Suc (length ls)" and "level_complete C algo ls lv nd"
  shows "level_complete C algo (ls @ [x]) lv nd"
proof -
  have "Suc (length ls) div 2 ^ lv = length ls div 2 ^ lv"
    using assms(1) by (simp add: div_Suc dvd_eq_mod_eq_0)
  then show ?thesis
    using assms(2) block_bound [of _ "length ls" lv]
    by (auto simp: level_complete_def range_append_old)
qed

lemma level_extended:
  assumes dvd: "2 ^ lv dvd Suc (length ls)" and lc: "level_complete C algo ls lv nd"
    and h: "h = mth C algo (leaf_range (ls @ [x]) (Suc (length ls) - 2 ^ lv) (2 ^ lv))"
  shows "level_complete C algo (ls @ [x]) lv (nd((lv, length ls div 2 ^ lv) \<mapsto> h))"
proof -
  obtain q where q: "Suc (length ls) = Suc q * 2 ^ lv" "length ls div 2 ^ lv = q"
      "Suc (length ls) div 2 ^ lv = Suc q"
    using last_block [OF dvd] by metis
  have "Suc (length ls) - 2 ^ lv = q * 2 ^ lv" using q(1) by simp
  then show ?thesis
    using lc block_bound [of _ "length ls" lv]
    by (auto simp: level_complete_def q h less_Suc_eq range_append_old simp del: mult_Suc)
qed

lemma level_complete_other [simp]:
  "lv \<noteq> l \<Longrightarrow> level_complete C algo ls lv (nd((l, ix) \<mapsto> h)) = level_complete C algo ls lv nd"
  by (simp add: level_complete_def)

text \<open>The loop invariant of \<open>append\<close>: \<open>h\<close> is the hash of the last perfect block of the new
  leaves at this level; lower levels are up to date, higher ones are still the old ones.\<close>

definition carry_inv ::
  "crates \<Rightarrow> HashAlgo \<Rightarrow> bytes list \<Rightarrow> bytes \<Rightarrow> nat \<Rightarrow> bytes \<Rightarrow> bytes option list \<Rightarrow> (nat \<times> nat \<rightharpoonup> bytes) \<Rightarrow> bool" where
  "carry_inv C algo ls x l h fr nd \<longleftrightarrow>
     2 ^ l dvd Suc (length ls) \<and>
     h = mth C algo (leaf_range (ls @ [x]) (Suc (length ls) - 2 ^ l) (2 ^ l)) \<and>
     length fr = bit_len (length ls) \<and> l \<le> length fr \<and>
     (\<forall>j < length fr. fr ! j = (if j < l then None else frontier_slot C algo ls j)) \<and>
     (\<forall>j \<le> l. level_complete C algo (ls @ [x]) j nd) \<and>
     (\<forall>j > l. level_complete C algo ls j nd)"

lemma carry_inv_step:
  assumes inv: "carry_inv C algo ls x l h fr nd" and l: "l < length fr" and s: "fr ! l = Some left"
    and small: "length ls < 2 ^ 64"
  shows "carry_inv C algo ls x (Suc l) (node_hash C algo left h) (fr[l := None])
    (nd((Suc l, length ls div 2 ^ Suc l) \<mapsto> node_hash C algo left h))"
proof -
  let ?n = "length ls"
  note i = inv [unfolded carry_inv_def]
  have fs: "frontier_slot C algo ls l = Some left" using i l s by auto
  then have od: "odd (?n div 2 ^ l)"
    and left: "left = mth C algo (leaf_range ls (?n div 2 ^ Suc l * 2 ^ Suc l) (2 ^ l))"
    by (auto simp: frontier_slot_def split: if_splits)
  obtain q where q: "Suc ?n = Suc q * 2 ^ l" "?n div 2 ^ l = q" using last_block i by metis
  from od q obtain r where r: "q = 2 * r + 1" by (auto elim: oddE)
  have N: "Suc ?n = Suc r * 2 ^ Suc l" using q(1) by (simp add: r)
  then have dvd: "2 ^ Suc l dvd Suc ?n" by (metis dvd_triv_right)
  have start: "?n div 2 ^ Suc l * 2 ^ Suc l = Suc ?n - 2 ^ Suc l"
  proof -
    have "?n div 2 ^ Suc l = r" using q(2) r by (simp add: power_Suc2 div_mult2_eq del: power_Suc)
    then show ?thesis using N by simp
  qed
  have le: "2 ^ Suc l \<le> Suc ?n" using dvd by (rule dvd_imp_le) simp
  then have "(2::nat) ^ Suc l \<le> 2 ^ 64" using small by linarith
  then have l64: "l < 64" by (simp only: power_increasing_iff Suc_le_eq one_less_numeral_iff semiring_norm)
  have mid: "Suc ?n - 2 ^ Suc l + 2 ^ l = Suc ?n - 2 ^ l" using le by simp
  have "leaf_range (ls @ [x]) (Suc ?n - 2 ^ Suc l) (2 ^ l) = leaf_range ls (Suc ?n - 2 ^ Suc l) (2 ^ l)"
    by (rule range_append_old) (unfold mid, insert one_le_power [of "2::nat" l], linarith)
  then have h': "node_hash C algo left h = mth C algo (leaf_range (ls @ [x]) (Suc ?n - 2 ^ Suc l) (2 ^ Suc l))"
    using i le by (subst mth_perfect [OF l64]) (simp_all add: left start mid del: power_Suc)
  have "level_complete C algo (ls @ [x]) (Suc l) (nd((Suc l, ?n div 2 ^ Suc l) \<mapsto> node_hash C algo left h))"
    using i by (intro level_extended [OF dvd _ h']) simp
  then show ?thesis
    using i dvd h' l by (auto simp: carry_inv_def nth_list_update less_Suc_eq le_Suc_eq simp del: power_Suc)
qed

lemma carry_ends:
  assumes "carry_inv C algo ls x l h fr nd" and "length ls < 2 ^ 64"
    and "carry C algo (length ls) l h fr nd = (l', h', fr', nd')"
  shows "carry_inv C algo ls x l' h' fr' nd' \<and> (l' < length fr' \<longrightarrow> fr' ! l' = None)"
  using assms
proof (induction C algo "length ls" l h fr nd rule: carry.induct)
  case (1 C algo l h fr nd)
  show ?case
  proof (cases "l < length fr \<and> fr ! l \<noteq> None")
    case True
    then obtain left where s: "fr ! l = Some left" by blast
    with True 1(4) have "carry C algo (length ls) (Suc l) (node_hash C algo left h) (fr[l := None])
      (nd((Suc l, length ls div 2 ^ Suc l) \<mapsto> node_hash C algo left h)) = (l', h', fr', nd')"
      by (subst (asm) carry.simps) (simp add: Let_def)
    with 1(1) [OF _ s] carry_inv_step [OF 1(2) _ s 1(3)] True 1(3) show ?thesis by (simp add: Let_def)
  next
    case False
    with 1(4) have "l' = l" "h' = h" "fr' = fr" "nd' = nd"
      by (auto simp: carry.simps [of C algo _ l] split: if_splits option.splits)
    with False 1(2) show ?thesis by auto
  qed
qed

lemma bit_len_Suc:
  assumes dvd: "2 ^ l dvd Suc n" and even: "even (n div 2 ^ l)" and l: "l \<le> bit_len n"
  shows "bit_len (Suc n) = (if l = bit_len n then Suc l else bit_len n)"
proof (cases "l = bit_len n")
  case True
  have "n < 2 ^ l" using True bit_len_bounds [of n] by (cases "n = 0") auto
  moreover have "2 ^ l \<le> Suc n" using dvd by (rule dvd_imp_le) simp
  ultimately have "Suc n = 2 ^ l" by simp
  then show ?thesis using True by simp
next
  case False
  then have lt: "l < bit_len n" using l by simp
  then have n: "n < 2 ^ bit_len n" using bit_len_bounds [of n] by (cases "n = 0") auto
  have "Suc n \<noteq> 2 ^ bit_len n"
  proof
    assume eq: "Suc n = 2 ^ bit_len n"
    then have "n = 2 ^ bit_len n - 1" by simp
    moreover have "bit_len n = l + Suc (bit_len n - l - 1)" using lt by simp
    ultimately have "Suc n = 2 ^ l * (2 * 2 ^ (bit_len n - l - 1))"
      by (metis eq power_Suc power_add)
    moreover obtain q where "Suc n = Suc q * 2 ^ l" "n div 2 ^ l = q" using last_block [OF dvd] by metis
    ultimately have "Suc (n div 2 ^ l) = 2 * 2 ^ (bit_len n - l - 1)" by (simp del: mult_Suc)
    with even show False by (metis dvd_triv_left even_Suc)
  qed
  with n have "bit_len (Suc n) \<le> bit_len n" by (intro bit_len_le) simp
  moreover have "bit_len n \<le> bit_len (Suc n)" by (rule bit_len_mono) simp
  ultimately show ?thesis using False by simp
qed

lemma not_dvd_above:
  assumes "2 ^ l dvd Suc n" and "even (n div 2 ^ l)" and "l < j"
  shows "\<not> 2 ^ j dvd Suc n"
proof
  assume "2 ^ j dvd Suc n"
  moreover have "(2::nat) ^ Suc l dvd 2 ^ j" using assms(3) by (intro le_imp_power_dvd) simp
  ultimately have "2 ^ Suc l dvd Suc n" by (rule dvd_trans [rotated])
  moreover obtain q where q: "Suc n = Suc q * 2 ^ l" "n div 2 ^ l = q" using last_block [OF assms(1)] by metis
  ultimately have "even (Suc q)" by (simp add: q del: mult_Suc)
  with assms(2) q(2) show False by simp
qed

lemma frontier_slot_append:
  assumes dvd: "2 ^ l dvd Suc (length ls)" and even: "even (length ls div 2 ^ l)"
  shows "frontier_slot C algo (ls @ [x]) j =
    (if j < l then None
     else if j = l then Some (mth C algo (leaf_range (ls @ [x]) (Suc (length ls) - 2 ^ l) (2 ^ l)))
     else frontier_slot C algo ls j)"
proof -
  let ?n = "length ls"
  obtain q where q: "Suc ?n = Suc q * 2 ^ l" "?n div 2 ^ l = q" "Suc ?n div 2 ^ l = Suc q"
    using last_block [OF dvd] by metis
  consider "j < l" | "j = l" | "l < j" by linarith
  then show ?thesis
  proof cases
    case 1
    then obtain i where i: "l = j + Suc i" by (metis less_iff_Suc_add add_Suc_right)
    have "Suc ?n = 2 * (Suc q * 2 ^ i) * 2 ^ j" by (simp only: q(1) i power_add power_Suc ac_simps)
    then have "Suc ?n div 2 ^ j = 2 * (Suc q * 2 ^ i)" by simp
    then show ?thesis using 1 by (simp add: frontier_slot_def)
  next
    case 2
    from even q obtain r where r: "q = 2 * r" by (auto elim: evenE)
    have "Suc ?n div 2 ^ Suc l = r" using q(3) r by (simp add: power_Suc2 div_mult2_eq del: power_Suc)
    moreover have "r * 2 ^ Suc l = Suc ?n - 2 ^ l" using q(1) r by simp
    ultimately show ?thesis using 2 even q by (simp add: frontier_slot_def del: power_Suc)
  next
    case 3
    have same: "Suc ?n div 2 ^ i = ?n div 2 ^ i" if "l < i" for i
      using not_dvd_above [OF dvd even that] by (simp add: div_Suc dvd_eq_mod_eq_0)
    have "leaf_range (ls @ [x]) (?n div 2 ^ Suc j * 2 ^ Suc j) (2 ^ j) = leaf_range ls (?n div 2 ^ Suc j * 2 ^ Suc j) (2 ^ j)"
      if "odd (?n div 2 ^ j)"
    proof (rule range_append_old)
      from that obtain r where r: "?n div 2 ^ j = 2 * r + 1" by (auto elim: oddE)
      have "?n div 2 ^ Suc j = r" using r by (simp add: power_Suc2 div_mult2_eq del: power_Suc)
      moreover have "(2 * r + 1) * 2 ^ j \<le> ?n" using r by (metis div_times_less_eq_dividend)
      ultimately show "?n div 2 ^ Suc j * 2 ^ Suc j + 2 ^ j \<le> ?n" by (simp add: algebra_simps)
    qed
    with 3 show ?thesis using same [of j] same [of "Suc j"] by (simp add: frontier_slot_def del: power_Suc)
  qed
qed

lemma imt_append_inv:
  assumes inv: "imt_inv C algo ls t" and small: "length ls < 2 ^ 64"
  shows "imt_inv C algo (ls @ [x]) (imt_append C x t)"
proof -
  let ?n = "length ls" and ?h = "leaf_hash C algo x"
  note i = inv [unfolded imt_inv_def]
  obtain l h fr nd where c: "carry C algo ?n 0 ?h (frontier t) ((nodes t)((0, ?n) \<mapsto> ?h)) = (l, h, fr, nd)"
    by (metis prod_cases4)
  have leaf: "leaf_range (ls @ [x]) ?n 1 = [x]" by (simp add: leaf_range_def)
  have "carry_inv C algo ls x 0 ?h (frontier t) ((nodes t)((0, ?n) \<mapsto> ?h))"
    using i level_extended [of 0 ls C algo "nodes t" ?h x] leaf
    by (auto simp: carry_inv_def mth_single)
  from carry_ends [OF this small c] have ci: "carry_inv C algo ls x l h fr nd"
    and stop: "l < length fr \<longrightarrow> fr ! l = None" by auto
  note ci' = ci [unfolded carry_inv_def]
  have ev: "even (?n div 2 ^ l)"
  proof (cases "l < length fr")
    case True
    then show ?thesis using ci' stop by (auto simp: frontier_slot_def split: if_splits)
  next
    case False
    then have "l = bit_len ?n" using ci' by simp
    then have "?n < 2 ^ l" using bit_len_bounds [of ?n] by (cases "?n = 0") auto
    then show ?thesis by simp
  qed
  have t': "imt_append C x t = t\<lparr>frontier := if l = length fr then fr @ [Some h] else fr[l := Some h],
      nodes := nd, imt_size := Suc ?n\<rparr>"
    using c i by (simp add: imt_append_def Let_def)
  have dvd: "2 ^ l dvd Suc ?n" using ci' by simp
  have "level_complete C algo (ls @ [x]) j nd" for j
    using ci' level_unchanged [OF not_dvd_above [OF dvd ev]] by (cases "j \<le> l") auto
  moreover have "bit_len (Suc ?n) = (if l = length fr then Suc l else length fr)"
    using bit_len_Suc [OF dvd ev] ci' by simp
  ultimately show ?thesis
    using i ci' frontier_slot_append [OF dvd ev, of C algo x]
    by (auto simp: imt_inv_def t' nth_append nth_list_update less_Suc_eq)
qed

lemma imt_from_leaves_loop_inv:
  "imt_inv C algo ls t \<Longrightarrow> length ls + length xs \<le> 2 ^ 64 \<Longrightarrow> imt_inv C algo (ls @ xs) (imt_from_leaves_loop C t xs)"
proof (induction xs arbitrary: ls t)
  case (Cons x xs)
  have "imt_inv C algo (ls @ [x]) (imt_append C x t)"
    by (rule imt_append_inv [OF Cons.prems(1)]) (use Cons.prems(2) in simp)
  from Cons.IH [OF this] Cons.prems(2) show ?case by simp
qed simp

lemma imt_from_leaves_inv: "length ls \<le> 2 ^ 64 \<Longrightarrow> imt_inv C algo ls (imt_from_leaves C algo ls)"
  using imt_from_leaves_loop_inv [OF imt_new_inv, of ls] by (simp add: imt_from_leaves_def)

section \<open>Reading\<close>

lemma trailing_zeros_power: "trailing_zeros (2 ^ j) = j"
  by (induction j) (simp_all add: trailing_zeros.simps)

lemma range_hash_eq:
  assumes inv: "imt_inv C algo ls t" and small: "length ls \<le> 2 ^ 64"
  shows "0 < sz \<Longrightarrow> start + sz \<le> length ls \<Longrightarrow>
    range_hash C t start sz = Some (mth C algo (leaf_range ls start sz))"
proof (induction sz arbitrary: start rule: less_induct)
  case (less sz)
  have node: "nodes t (lv, ix) = Some (mth C algo (leaf_range ls (ix * 2 ^ lv) (2 ^ lv)))"
    if "ix * 2 ^ lv + 2 ^ lv \<le> length ls" for lv ix
  proof -
    have "Suc ix * 2 ^ lv \<le> length ls" using that by simp
    then have "Suc ix \<le> length ls div 2 ^ lv" by (simp only: less_eq_div_iff_mult_less_eq zero_less_power zero_less_numeral)
    with inv show ?thesis by (simp add: imt_inv_def level_complete_def)
  qed
  show ?case
  proof (cases "sz = 1 \<or> is_power_of_two sz \<and> start mod sz = 0")
    case True
    define lv where "lv = bit_len sz - 1"
    have sz: "sz = 2 ^ lv" using True by (auto simp: is_power_of_two_def lv_def bit_len_pos)
    have st: "start = start div 2 ^ lv * 2 ^ lv" using True by (auto simp: sz)
    have "nodes t (lv, start div 2 ^ lv) = Some (mth C algo (leaf_range ls start sz))"
      using node [of "start div 2 ^ lv" lv] less.prems(2) st by (simp add: sz)
    moreover have "lv = 0" if "sz = 1" using that by (simp add: lv_def bit_len_pos)
    ultimately show ?thesis
      using True less.prems(1) by (subst range_hash.simps) (auto simp: sz trailing_zeros_power)
  next
    case False
    then have two: "2 \<le> sz" using less.prems(1) by simp
    let ?k = "split_point sz" and ?d = "leaf_range ls start sz"
    have k: "0 < ?k" "?k < sz" using split_point_less [OF two] by simp_all
    have len: "length ?d = sz" using less.prems(2) by (rule length_range)
    have d: "?d = leaf_range ls start ?k @ leaf_range ls (start + ?k) (sz - ?k)"
      using k range_append_halves [of ls start ?k "sz - ?k"] by simp
    have "length (leaf_range ls start ?k) = ?k" using k less.prems(2) by (intro length_range) simp
    then have "mth C algo ?d = node_hash C algo (mth C algo (leaf_range ls start ?k)) (mth C algo (leaf_range ls (start + ?k) (sz - ?k)))"
      using mth_node [of ?d C algo] two len d by simp
    moreover have "range_hash C t start ?k = Some (mth C algo (leaf_range ls start ?k))"
      by (rule less.IH) (use k less.prems in simp_all)
    moreover have "range_hash C t (start + ?k) (sz - ?k) = Some (mth C algo (leaf_range ls (start + ?k) (sz - ?k)))"
      by (rule less.IH) (use k less.prems in simp_all)
    moreover have "imt_algo t = algo" using inv by (simp add: imt_inv_def)
    moreover have "range_hash C t start sz = Option.bind (range_hash C t start ?k) (\<lambda>left.
        Option.bind (range_hash C t (start + ?k) (sz - ?k)) (\<lambda>right. Some (node_hash C (imt_algo t) left right)))"
      using False two by (subst range_hash.simps) (auto simp: Let_def)
    ultimately show ?thesis by simp
  qed
qed

lemma imt_path_eq:
  assumes inv: "imt_inv C algo ls t" and small: "length ls \<le> 2 ^ 64"
  shows "start + sz \<le> length ls \<Longrightarrow> imt_path C t m start sz = Some (path C algo m (leaf_range ls start sz))"
proof (induction sz arbitrary: m start rule: less_induct)
  case (less sz)
  show ?case
  proof (cases "sz \<le> 1")
    case True
    then show ?thesis using less.prems
      by (subst imt_path.simps) (simp add: path_leaf length_range)
  next
    case False
    let ?k = "split_point sz" and ?d = "leaf_range ls start sz"
    have two: "2 \<le> sz" using False by simp
    have k: "0 < ?k" "?k < sz" using split_point_less [OF two] by simp_all
    have d: "take ?k ?d = leaf_range ls start ?k" "drop ?k ?d = leaf_range ls (start + ?k) (sz - ?k)"
      using k by (auto simp: leaf_range_def min_def drop_take add.commute)
    have len: "length ?d = sz" using less.prems by (rule length_range)
    have IH: "imt_path C t m' start ?k = Some (path C algo m' (leaf_range ls start ?k))"
      "imt_path C t m' (start + ?k) (sz - ?k) = Some (path C algo m' (leaf_range ls (start + ?k) (sz - ?k)))" for m'
      using k less.prems by (auto intro!: less.IH)
    have rh: "range_hash C t start ?k = Some (mth C algo (leaf_range ls start ?k))"
      "range_hash C t (start + ?k) (sz - ?k) = Some (mth C algo (leaf_range ls (start + ?k) (sz - ?k)))"
      using k less.prems by (auto intro!: range_hash_eq [OF inv small])
    show ?thesis
      using False two by (subst imt_path.simps) (simp add: Let_def IH rh path_node [of ?d, unfolded len] d)
  qed
qed

lemma imt_subproof_eq:
  assumes inv: "imt_inv C algo ls t" and small: "length ls \<le> 2 ^ 64"
  shows "start + sz \<le> length ls \<Longrightarrow> 1 \<le> m \<Longrightarrow> m \<le> sz \<Longrightarrow>
    imt_subproof C t m start sz b = Some (subproof C algo m (leaf_range ls start sz) b)"
proof (induction sz arbitrary: m start b rule: less_induct)
  case (less sz)
  let ?k = "split_point sz" and ?d = "leaf_range ls start sz"
  have len: "length ?d = sz" using less.prems by (intro length_range)
  show ?case
  proof (cases "m = sz")
    case True
    then show ?thesis using less.prems range_hash_eq [OF inv small, of sz start] len
      by (subst imt_subproof.simps) (simp add: subproof_base)
  next
    case False
    then have two: "2 \<le> sz" using less.prems by simp
    have k: "0 < ?k" "?k < sz" using split_point_less [OF two] by simp_all
    have d: "take ?k ?d = leaf_range ls start ?k" "drop ?k ?d = leaf_range ls (start + ?k) (sz - ?k)"
      using k by (auto simp: leaf_range_def min_def drop_take add.commute)
    have IH: "m \<le> ?k \<Longrightarrow> imt_subproof C t m start ?k b = Some (subproof C algo m (leaf_range ls start ?k) b)"
      "\<not> m \<le> ?k \<Longrightarrow> imt_subproof C t (m - ?k) (start + ?k) (sz - ?k) False =
         Some (subproof C algo (m - ?k) (leaf_range ls (start + ?k) (sz - ?k)) False)"
      using k less.prems by (auto intro!: less.IH)
    have rh: "range_hash C t start ?k = Some (mth C algo (leaf_range ls start ?k))"
      "range_hash C t (start + ?k) (sz - ?k) = Some (mth C algo (leaf_range ls (start + ?k) (sz - ?k)))"
      using k less.prems by (auto intro!: range_hash_eq [OF inv small])
    show ?thesis
      using False two by (subst imt_subproof.simps)
        (simp add: Let_def IH rh subproof_node [of ?d, unfolded len, OF two refl] d)
  qed
qed

lemma leaf_range_0: "leaf_range ls 0 n = take n ls"
  by (simp add: leaf_range_def)

section \<open>The proof endpoints\<close>

text \<open>What a node serves for a ledger of leaves \<open>ls\<close>: the root at every size it has reached,
  audit paths and consistency proofs that the verifiers of \<open>merkle.rs\<close> accept.\<close>

locale proof_server =
  fixes root_at :: "crates \<Rightarrow> HashAlgo \<Rightarrow> 's \<Rightarrow> nat \<Rightarrow> bytes option"
    and prove_inclusion :: "crates \<Rightarrow> HashAlgo \<Rightarrow> 's \<Rightarrow> nat \<Rightarrow> nat \<Rightarrow> bytes list option"
    and prove_consistency :: "crates \<Rightarrow> HashAlgo \<Rightarrow> 's \<Rightarrow> nat \<Rightarrow> nat \<Rightarrow> bytes list option"
    and serves :: "crates \<Rightarrow> HashAlgo \<Rightarrow> bytes list \<Rightarrow> 's \<Rightarrow> bool"
  assumes root: "serves C algo ls s \<Longrightarrow> n \<le> length ls \<Longrightarrow> root_at C algo s n = Some (mth C algo (take n ls))"
    and inclusion: "serves C algo ls s \<Longrightarrow> i < n \<Longrightarrow> n \<le> length ls \<Longrightarrow>
      prove_inclusion C algo s i n = Some (path C algo i (take n ls))"
    and consistency: "serves C algo ls s \<Longrightarrow> 0 < m \<Longrightarrow> m < n \<Longrightarrow> n \<le> length ls \<Longrightarrow>
      prove_consistency C algo s m n = Some (subproof C algo m (take n ls) True)"
begin

lemma inclusion_verifies:
  assumes "serves C algo ls s" and "i < n" and "n \<le> length ls"
  shows "\<exists>pf r. prove_inclusion C algo s i n = Some pf \<and> root_at C algo s n = Some r \<and>
    verify_inclusion_proof C algo (ls ! i) i n pf r"
  using assms verify_path_path [of i "take n ls" C algo]
  by (simp add: root inclusion verify_inclusion_proof_def min_absorb2)

lemma consistency_verifies:
  assumes "serves C algo ls s" and "0 < m" and "m < n" and "n \<le> length ls"
  shows "\<exists>pf q r. prove_consistency C algo s m n = Some pf \<and> root_at C algo s m = Some q \<and>
    root_at C algo s n = Some r \<and> verify_consistency_proof C algo m n pf q r"
  using assms verify_subproof_subproof [of m "take n ls" True "mth C algo (take m ls)" C algo]
  by (simp add: root consistency verify_consistency_proof_def min_absorb2)

end

definition inc_root_at :: "crates \<Rightarrow> HashAlgo \<Rightarrow> IncrementalMerkleTree \<Rightarrow> nat \<Rightarrow> bytes option" where
  "inc_root_at C algo t n = Option.bind (imt_root C t n) id"

definition inc_prove_inclusion ::
  "crates \<Rightarrow> HashAlgo \<Rightarrow> IncrementalMerkleTree \<Rightarrow> nat \<Rightarrow> nat \<Rightarrow> bytes list option" where
  "inc_prove_inclusion C algo t i n = Option.bind (imt_inclusion_proof C t i n) result_ok"

definition inc_prove_consistency ::
  "crates \<Rightarrow> HashAlgo \<Rightarrow> IncrementalMerkleTree \<Rightarrow> nat \<Rightarrow> nat \<Rightarrow> bytes list option" where
  "inc_prove_consistency C algo t m n = Option.bind (imt_consistency_proof C t m n) result_ok"

lemma imt_refines:
  assumes inv: "imt_inv C algo ls t" and small: "length ls \<le> 2 ^ 64" and n: "n \<le> length ls"
  shows "imt_root C t n = Some (Some (mth C algo (take n ls)))"
    and "imt_inclusion_proof C t i n = Some (inclusion_proof C algo i (take n ls))"
    and "imt_consistency_proof C t m n = Some (consistency_proof C algo m (take n ls))"
proof -
  have t: "imt_size t = length ls" "imt_algo t = algo" using inv by (simp_all add: imt_inv_def)
  show "imt_root C t n = Some (Some (mth C algo (take n ls)))"
    using n range_hash_eq [OF inv small, of n 0] t by (simp add: imt_root_def mth_Nil leaf_range_0)
  show "imt_inclusion_proof C t i n = Some (inclusion_proof C algo i (take n ls))"
    using n imt_path_eq [OF inv small, of 0 n i] t
    by (simp add: imt_inclusion_proof_def inclusion_proof_def leaf_range_0 min_absorb2 Let_def)
  show "imt_consistency_proof C t m n = Some (consistency_proof C algo m (take n ls))"
    using n imt_subproof_eq [OF inv small, of 0 n m True] t
    by (simp add: imt_consistency_proof_def consistency_proof_def leaf_range_0 min_absorb2 Let_def)
qed

interpretation inc: proof_server inc_root_at inc_prove_inclusion inc_prove_consistency
  "\<lambda>C algo ls t. length ls \<le> 2 ^ 64 \<and> imt_inv C algo ls t"
proof
  fix C algo ls t n i m
  assume s: "length (ls :: bytes list) \<le> 2 ^ 64 \<and> imt_inv C algo ls t"
  show "inc_root_at C algo t n = Some (mth C algo (take n ls))" if "n \<le> length ls"
    using imt_refines(1) [of C algo ls t n] s that by (simp add: inc_root_at_def)
  show "inc_prove_inclusion C algo t i n = Some (path C algo i (take n ls))" if "i < n" "n \<le> length ls"
    using imt_refines(2) [of C algo ls t n i] s that by (simp add: inc_prove_inclusion_def inclusion_proof_def Let_def)
  show "inc_prove_consistency C algo t m n = Some (subproof C algo m (take n ls) True)"
    if "0 < m" "m < n" "n \<le> length ls"
    using imt_refines(3) [of C algo ls t n m] s that by (simp add: inc_prove_consistency_def consistency_proof_def Let_def)
qed

interpretation full: proof_server
  "\<lambda>C algo ls n. if n \<le> length ls then Some (mth C algo (take n ls)) else None"
  "\<lambda>C algo ls i n. result_ok (inclusion_proof C algo i (take n ls))"
  "\<lambda>C algo ls m n. result_ok (consistency_proof C algo m (take n ls))"
  "\<lambda>C algo ls s. s = ls"
  by unfold_locales (simp_all add: inclusion_proof_def consistency_proof_def Let_def min_absorb2)

section \<open>Properties\<close>

text \<open>C6. The incremental tree refines the from-scratch functions: after appending any leaves one
  by one (fewer than \<open>2\<^sup>6\<^sup>4\<close> of them), for every size it has reached the root, every audit path
  and every consistency proof, errors included, are exactly those recomputed from the leaves.\<close>

theorem incremental_refines_merkle:
  assumes "length leaves \<le> 2 ^ 64" and "n \<le> length leaves"
  shows "imt_root C (imt_from_leaves C algo leaves) n = Some (Some (mth C algo (take n leaves))) \<and>
    imt_inclusion_proof C (imt_from_leaves C algo leaves) i n = Some (inclusion_proof C algo i (take n leaves)) \<and>
    imt_consistency_proof C (imt_from_leaves C algo leaves) m n = Some (consistency_proof C algo m (take n leaves))"
  using imt_refines [OF imt_from_leaves_inv assms] assms by simp

text \<open>Witness: five appends, read at size three.\<close>

definition demo_ledger :: "bytes list" where
  "demo_ledger = [[1], [2], [3], [4], [5]]"

theorem incremental_refines_merkle_witness:
  "imt_root demo_crates (imt_from_leaves demo_crates Sha256 demo_ledger) 3 =
     Some (Some (mth demo_crates Sha256 [[1], [2], [3]])) \<and>
   imt_inclusion_proof demo_crates (imt_from_leaves demo_crates Sha256 demo_ledger) 2 3 =
     Some (inclusion_proof demo_crates Sha256 2 [[1], [2], [3]]) \<and>
   imt_consistency_proof demo_crates (imt_from_leaves demo_crates Sha256 demo_ledger) 2 3 =
     Some (consistency_proof demo_crates Sha256 2 [[1], [2], [3]])"
proof -
  have "length demo_ledger \<le> 2 ^ 64" "3 \<le> length demo_ledger" "take 3 demo_ledger = [[1], [2], [3]]"
    by (simp_all add: demo_ledger_def)
  then show ?thesis using incremental_refines_merkle [of demo_ledger 3 demo_crates Sha256 2 2] by simp
qed

text \<open>Append preserves the structural invariant: one append to a tree that holds every
  completed perfect subtree of the leaves, and whose frontier slots spell the binary expansion of
  their number, gives such a tree for the leaves with the new one at the end.\<close>

lemma append_preserves_invariant:
  assumes "imt_inv C algo leaves t" and "length leaves < 2 ^ 64"
  shows "imt_inv C algo (leaves @ [leaf]) (imt_append C leaf t)"
  using assms by (rule imt_append_inv)

text \<open>What an incrementally grown node serves is accepted: between any two sizes it has
  reached, its consistency proof verifies between its own roots, and the audit path of every leaf
  verifies against the root of every size that covers it. No request of this shape panics.\<close>

theorem incremental_proofs_verify:
  assumes "length leaves \<le> 2 ^ 64" and "0 < m" and "m < n" and "n \<le> length leaves" and "i < n"
  shows "\<exists>ip cp q r. imt_inclusion_proof C (imt_from_leaves C algo leaves) i n = Some (Ok ip) \<and>
    imt_consistency_proof C (imt_from_leaves C algo leaves) m n = Some (Ok cp) \<and>
    imt_root C (imt_from_leaves C algo leaves) m = Some (Some q) \<and>
    imt_root C (imt_from_leaves C algo leaves) n = Some (Some r) \<and>
    verify_inclusion_proof C algo (leaves ! i) i n ip r \<and> verify_consistency_proof C algo m n cp q r"
proof -
  have s: "length leaves \<le> 2 ^ 64 \<and> imt_inv C algo leaves (imt_from_leaves C algo leaves)"
    using imt_from_leaves_inv assms(1) by blast
  from inc.inclusion_verifies [OF s assms(5,4)] inc.consistency_verifies [OF s assms(2-4)]
  show ?thesis
    by (auto simp: inc_prove_inclusion_def inc_prove_consistency_def inc_root_at_def bind_eq_Some_conv
        result_ok_eq_Some)
qed

text \<open>Witness: five appends, from size two to size four.\<close>

theorem incremental_proofs_verify_witness:
  "\<exists>ip cp q r. imt_inclusion_proof demo_crates (imt_from_leaves demo_crates Sha256 demo_ledger) 3 4 = Some (Ok ip) \<and>
    imt_consistency_proof demo_crates (imt_from_leaves demo_crates Sha256 demo_ledger) 2 4 = Some (Ok cp) \<and>
    imt_root demo_crates (imt_from_leaves demo_crates Sha256 demo_ledger) 2 = Some (Some q) \<and>
    imt_root demo_crates (imt_from_leaves demo_crates Sha256 demo_ledger) 4 = Some (Some r) \<and>
    verify_inclusion_proof demo_crates Sha256 [4] 3 4 ip r \<and> verify_consistency_proof demo_crates Sha256 2 4 cp q r"
proof -
  have "length demo_ledger \<le> 2 ^ 64" "4 \<le> length demo_ledger" "demo_ledger ! 3 = [4]" by (simp_all add: demo_ledger_def)
  then show ?thesis using incremental_proofs_verify [of demo_ledger 2 4 3 demo_crates Sha256] by simp
qed

end
