(* ===== verification/Settlement.thy ===== *)
theory Settlement
  imports Chain_Event Incremental_Merkle Witness
begin

text \<open>
  Model of \<open>crates/chain/src/postgres.rs\<close>, \<open>envelope_row.rs\<close> and the trait of \<open>lib.rs\<close>: the append-only
  ledger. The tables are lists of rows; \<open>ORDER BY seq\<close> is a sort. A statement succeeds or violates a
  constraint of its table (\<open>seq\<close>, \<open>entry_hash\<close>, \<open>batch_id\<close>, \<open>tree_size\<close> are unique); a transaction that
  does not commit leaves the tables as they were. \<open>jsonb\<close> is what PostgreSQL gives back for a stored
  payload, a parameter. \<open>i64\<close> and \<open>i32\<close> columns are \<^typ>\<open>int\<close>. The text of an error that the code only
  formats is left out. \<open>None\<close> is a panic.
\<close>

section \<open>Errors and envelopes\<close>

datatype SettlementError =
    BatchNotFound | VerificationFailed | Storage str | MirroredContentMismatch int | MirroredPayloadUnverifiable int
  | InvalidPayload canonical_payload_error | InvalidEntry | UnsupportedEntryVersion u32
  | EntryNeedsNewerVersion VersionKind u32

definition from_layout :: "SigningBytesError \<Rightarrow> SettlementError" where
  "from_layout e = (case needs_newer_version e of
     Some (what, req) \<Rightarrow> EntryNeedsNewerVersion what req | None \<Rightarrow> InvalidEntry)"

record EnvelopeRow =
  row_layout_version :: int
  row_rules_version :: int
  row_hash_algo :: int
  row_extensions :: bytes

definition row_from_wire :: "crates \<Rightarrow> EnvelopeWire \<Rightarrow> SettlementError + EnvelopeRow" where
  "row_from_wire C w =
     rbind (guard_err (unat (w_layout_version w) \<ge> 2 ^ 15) InvalidEntry) (\<lambda>_.
     rbind (guard_err (unat (w_rules_version w) \<ge> 2 ^ 31) InvalidEntry) (\<lambda>_.
     rbind (map_err from_layout (decode_lower_hex C (w_extensions w))) (\<lambda>ext.
     Ok \<lparr>row_layout_version = uint (w_layout_version w), row_rules_version = uint (w_rules_version w),
         row_hash_algo = uint (w_hash_algo w), row_extensions = ext\<rparr>)))"

definition row_from_envelope :: "crates \<Rightarrow> Envelope \<Rightarrow> SettlementError + EnvelopeRow" where
  "row_from_envelope C env = row_from_wire C (wire_of_envelope C env)"

definition try_word :: "int \<Rightarrow> 'a :: len word" where
  "try_word i = (if 0 \<le> i \<and> i < 2 ^ LENGTH('a) then word_of_int i else 0)"

definition row_to_wire :: "crates \<Rightarrow> EnvelopeRow \<Rightarrow> EnvelopeWire" where
  "row_to_wire C r = \<lparr>w_layout_version = try_word (row_layout_version r),
     w_rules_version = try_word (row_rules_version r), w_hash_algo = try_word (row_hash_algo r),
     w_extensions = hex_encode C (row_extensions r)\<rparr>"

definition row_to_envelope :: "crates \<Rightarrow> EnvelopeRow \<Rightarrow> DomainTag \<Rightarrow> SettlementError + Envelope" where
  "row_to_envelope C r tag = map_err from_layout (to_envelope C (row_to_wire C r) tag)"

section \<open>Entries\<close>

definition ledger_hash_algo :: HashAlgo where
  "ledger_hash_algo = hash_algo (envelope_current SETTLEMENT_STH)"

definition GENESIS_HASH :: str where "GENESIS_HASH = replicate 64 CHR ''0''"

record EntryContent =
  ec_seq :: int
  ec_event_id :: bytes
  ec_kind :: str
  ec_issuer :: str
  ec_subject :: str
  ec_payload_hash :: str
  ec_timestamp :: time
  ec_version :: int
  ec_envelope :: Envelope

definition payload_hash_hex :: "crates \<Rightarrow> json \<Rightarrow> canonical_payload_error + str" where
  "payload_hash_hex C payload = rbind (payload_hash C payload) (\<lambda>h. Ok (hex_encode C h))"

definition payload_matches :: "crates \<Rightarrow> json option \<Rightarrow> str \<Rightarrow> bool" where
  "payload_matches C payload h = (case payload of None \<Rightarrow> True | Some p \<Rightarrow> payload_hash_hex C p = Ok h)"

definition hash_entry :: "crates \<Rightarrow> str \<Rightarrow> str \<Rightarrow> str \<Rightarrow> EntryContent \<Rightarrow> EntryHashError + str" where
  "hash_entry C network_id shard_id prev content =
     rbind (parse_hash C ''prev_hash'' prev) (\<lambda>p.
     rbind (parse_hash C ''payload_hash'' (ec_payload_hash content)) (\<lambda>ph.
     rbind (guard_err (ec_seq content < 0) (EntryOutOfRange ''seq'')) (\<lambda>_.
     rbind (timestamp_micros (ec_timestamp content)) (\<lambda>micros.
     rbind (guard_err (ec_version content < 0) (EntryOutOfRange ''version'')) (\<lambda>_.
     rbind (entry_hash C
       \<lparr>e_network_id = network_id, e_shard_id = shard_id, e_seq = word_of_int (ec_seq content), e_prev_hash = p,
        e_event_id = ec_event_id content, e_kind = ec_kind content, e_issuer = ec_issuer content,
        e_subject = ec_subject content, e_payload_hash = ph, e_timestamp_micros = i64_of micros,
        e_event_version = word_of_int (ec_version content), e_envelope = ec_envelope content\<rparr>) (\<lambda>h.
     Ok (hex_encode C h)))))))"

definition entry_content_intact :: "crates \<Rightarrow> str \<Rightarrow> str \<Rightarrow> str \<Rightarrow> str \<Rightarrow> json option \<Rightarrow> EntryContent \<Rightarrow> bool" where
  "entry_content_intact C network_id shard_id prev entry payload content \<longleftrightarrow>
     payload_matches C payload (ec_payload_hash content) \<and> hash_entry C network_id shard_id prev content = Ok entry"

definition stored_payload :: "ProtocolEvent \<Rightarrow> json" where
  "stored_payload event = (case ev_identity_chain event of
     Some position \<Rightarrow> embed_position (ev_payload event) position | None \<Rightarrow> ev_payload event)"

record EventBatch =
  eb_id :: bytes
  eb_events :: "ProtocolEvent list"

fun check_events :: "ProtocolEvent list \<Rightarrow> SettlementError + unit" where
  "check_events [] = Ok ()"
| "check_events (event # events) =
     (if unat (ev_version event) \<ge> 2 ^ 31 then Err (UnsupportedEntryVersion (ev_version event)) else check_events events)"

definition check_batch :: "EventBatch \<Rightarrow> SettlementError + unit" where
  "check_batch batch = check_events (eb_events batch)"

definition stored_timestamp :: "ProtocolEvent \<Rightarrow> SettlementError + time" where
  "stored_timestamp event = map_err (\<lambda>_. InvalidEntry) (floor_to_micros (ev_timestamp event))"

definition hash_event :: "crates \<Rightarrow> str \<Rightarrow> str \<Rightarrow> int \<Rightarrow> str \<Rightarrow> ProtocolEvent \<Rightarrow> str \<Rightarrow> SettlementError + str" where
  "hash_event C network_id shard_id sq prev event ph =
     rbind (stored_timestamp event) (\<lambda>ts.
     map_err (\<lambda>_. InvalidEntry) (hash_entry C network_id shard_id prev
       \<lparr>ec_seq = sq, ec_event_id = ev_id event, ec_kind = ev_kind event, ec_issuer = ev_issuer event,
        ec_subject = ev_subject event, ec_payload_hash = ph, ec_timestamp = ts,
        ec_version = (if unat (ev_version event) < 2 ^ 31 then uint (ev_version event) else 2 ^ 31 - 1),
        ec_envelope = envelope_current LEDGER_ENTRY\<rparr>))"

section \<open>Tables\<close>

record ledger_row =
  l_seq :: int
  l_event_id :: bytes
  l_kind :: str
  l_issuer :: str
  l_subject :: str
  l_payload :: "json option"
  l_payload_hash :: str
  l_pruned_at :: "time option"
  l_timestamp :: time
  l_version :: int
  l_prev_hash :: str
  l_entry_hash :: str
  l_batch_id :: bytes
  l_envelope :: EnvelopeRow
  l_committed_at :: time

record batch_row =
  b_batch_id :: bytes
  b_first_seq :: int
  b_last_seq :: int
  b_batch_root :: str
  b_committed_at :: time

record head_row =
  h_head :: SignedTreeHead
  h_envelope :: EnvelopeRow

record cosig_row =
  g_shard_id :: str
  g_cosig :: WitnessCosignature
  g_envelope :: EnvelopeRow

record ledger_db =
  db_entries :: "ledger_row list"
  db_batches :: "batch_row list"
  db_heads :: "head_row list"
  db_cosigs :: "cosig_row list"

definition by_seq :: "ledger_db \<Rightarrow> ledger_row list" where
  "by_seq db = sort_key l_seq (db_entries db)"

definition row_content :: "ledger_row \<Rightarrow> Envelope \<Rightarrow> EntryContent" where
  "row_content r env = \<lparr>ec_seq = l_seq r, ec_event_id = l_event_id r, ec_kind = l_kind r, ec_issuer = l_issuer r,
     ec_subject = l_subject r, ec_payload_hash = l_payload_hash r, ec_timestamp = l_timestamp r,
     ec_version = l_version r, ec_envelope = env\<rparr>"

definition max_seq :: "ledger_db \<Rightarrow> int" where
  "max_seq db = Max (insert 0 (l_seq ` set (db_entries db)))"

definition tip_hash :: "ledger_db \<Rightarrow> str" where
  "tip_hash db = (case rev (by_seq db) of r # _ \<Rightarrow> l_entry_hash r | [] \<Rightarrow> GENESIS_HASH)"

section \<open>The leaf cache\<close>

record LedgerCache =
  lc_leaves :: "str list"
  lc_tree :: IncrementalMerkleTree

definition cache_default :: LedgerCache where
  "cache_default = \<lparr>lc_leaves = [], lc_tree = imt_new ledger_hash_algo\<rparr>"

fun cache_extend :: "crates \<Rightarrow> LedgerCache \<Rightarrow> str list \<Rightarrow> (str + unit) \<times> LedgerCache" where
  "cache_extend C cache [] = (Ok (), cache)"
| "cache_extend C cache (h # hs) =
     (case hex_decode C h of
        None \<Rightarrow> (Err ''hex'', cache)
      | Some b \<Rightarrow> cache_extend C (cache\<lparr>lc_tree := imt_append C b (lc_tree cache), lc_leaves := lc_leaves cache @ [h]\<rparr>) hs)"

definition cache_rebuild :: "crates \<Rightarrow> LedgerCache \<Rightarrow> str list \<Rightarrow> (str + unit) \<times> LedgerCache" where
  "cache_rebuild C cache hs =
     (case cache_extend C cache_default hs of
        (Inr u, c) \<Rightarrow> (Ok (), c)
      | (Inl e, _) \<Rightarrow> (Err e, cache))"

record settlement =
  st_network :: str
  st_shard :: str
  st_db :: ledger_db
  st_cache :: LedgerCache

definition ensure_cache_covers :: "crates \<Rightarrow> nat \<Rightarrow> settlement \<Rightarrow> (SettlementError + unit) \<times> settlement" where
  "ensure_cache_covers C tree_size st =
     (if length (lc_leaves (st_cache st)) \<ge> tree_size then (Ok (), st)
      else
        (let hashes = map l_entry_hash (take tree_size (by_seq (st_db st))) in
         if length hashes > length (lc_leaves (st_cache st)) then
           (case cache_rebuild C (st_cache st) hashes of (r, c) \<Rightarrow> (map_err Storage r, st\<lparr>st_cache := c\<rparr>))
         else (Ok (), st)))"

section \<open>Appending a batch\<close>

text \<open>The loop over the events: the rows with the new ones inserted, and the new hashes.\<close>

fun append_events ::
  "crates \<Rightarrow> (json \<Rightarrow> json) \<Rightarrow> settlement \<Rightarrow> bytes \<Rightarrow> time \<Rightarrow> ledger_row list \<Rightarrow> str \<Rightarrow> int \<Rightarrow> ProtocolEvent list \<Rightarrow>
   SettlementError + ledger_row list \<times> str list" where
  "append_events C jsonb st bid now rows prev next_seq [] = Ok (rows, [])"
| "append_events C jsonb st bid now rows prev next_seq (event # events) =
     rbind (row_from_envelope C (envelope_current LEDGER_ENTRY)) (\<lambda>env.
     rbind (map_err InvalidPayload (payload_hash_hex C (stored_payload event))) (\<lambda>ph.
     rbind (hash_event C (st_network st) (st_shard st) next_seq prev event ph) (\<lambda>eh.
     rbind (stored_timestamp event) (\<lambda>ts.
     if eh \<in> l_entry_hash ` set rows \<or> next_seq \<in> l_seq ` set rows then Err (Storage ''duplicate key'')
     else
       (let row = \<lparr>l_seq = next_seq, l_event_id = ev_id event, l_kind = ev_kind event, l_issuer = ev_issuer event,
              l_subject = ev_subject event, l_payload = Some (jsonb (stored_payload event)), l_payload_hash = ph,
              l_pruned_at = None, l_timestamp = ts, l_version = sint (ev_version event),
              l_prev_hash = prev, l_entry_hash = eh, l_batch_id = bid, l_envelope = env, l_committed_at = now\<rparr>
        in rbind (append_events C jsonb st bid now (rows @ [row]) eh (next_seq + 1) events) (\<lambda>(rows', hs).
           Ok (rows', eh # hs)))))))"

definition compute_root :: "crates \<Rightarrow> ledger_row list \<Rightarrow> str list \<Rightarrow> int \<Rightarrow> LedgerCache \<Rightarrow>
    ((SettlementError + nat \<times> bytes) \<times> LedgerCache) option" where
  "compute_root C rows batch_hashes last_seq c =
     (if length (lc_leaves c) + length batch_hashes = length rows then
        (case cache_extend C c batch_hashes of
           (Inl e, c') \<Rightarrow> Some (Err (Storage e), c')
         | (Inr _, c') \<Rightarrow>
             (case imt_root C (lc_tree c') (length (lc_leaves c')) of
                Some (Some root) \<Rightarrow> Some (Ok (length (lc_leaves c'), root), c')
              | _ \<Rightarrow> None))
      else
        (let fetched = map l_entry_hash (filter (\<lambda>r. l_seq r \<le> last_seq) (sort_key l_seq rows)) in
         case (if length fetched > length (lc_leaves c) then cache_rebuild C c fetched else (Ok (), c)) of
           (Inl e, c') \<Rightarrow> Some (Err (Storage e), c')
         | (Inr _, c') \<Rightarrow>
             Some (rbind (map_err Storage (mth_of_hex_hashes C ledger_hash_algo fetched)) (\<lambda>root.
               Ok (length fetched, root)), c')))"

definition insert_batch_and_compute_root ::
  "crates \<Rightarrow> (json \<Rightarrow> json) \<Rightarrow> time \<Rightarrow> settlement \<Rightarrow> EventBatch \<Rightarrow>
   ((SettlementError + nat \<times> str \<times> time) \<times> ledger_db \<times> LedgerCache) option" where
  "insert_batch_and_compute_root C jsonb now st batch =
     (if eb_events batch = [] then Some (Err (Storage ''cannot commit an empty batch''), st_db st, st_cache st)
      else
        (case rbind (check_batch batch) (\<lambda>_. append_events C jsonb st (eb_id batch) now (db_entries (st_db st))
            (tip_hash (st_db st)) (max_seq (st_db st) + 1) (eb_events batch)) of
           Inl e \<Rightarrow> Some (Err e, st_db st, st_cache st)
         | Inr (rows, hashes) \<Rightarrow>
             (let first = max_seq (st_db st) + 1; last = max_seq (st_db st) + int (length (eb_events batch)) in
              case compute_root C rows hashes last (st_cache st) of
                None \<Rightarrow> None
              | Some (Inl e, c) \<Rightarrow> Some (Err e, st_db st, c)
              | Some (Inr (tsz, root), c) \<Rightarrow>
                  if eb_id batch \<in> b_batch_id ` set (db_batches (st_db st)) then Some (Err (Storage ''duplicate key''), st_db st, c)
                  else
                    Some (Ok (tsz, hex_encode C root, now),
                      (st_db st)\<lparr>db_entries := rows, db_batches := db_batches (st_db st) @
                        [\<lparr>b_batch_id = eb_id batch, b_first_seq = first, b_last_seq = last,
                          b_batch_root = hex_encode C root, b_committed_at = now\<rparr>]\<rparr>, c))))"

definition insert_signed_tree_head :: "crates \<Rightarrow> SignedTreeHead \<Rightarrow> ledger_db \<Rightarrow> SettlementError + ledger_db" where
  "insert_signed_tree_head C head d =
     rbind (row_from_envelope C (sth_envelope head)) (\<lambda>env.
       if sth_tree_size head \<in> (sth_tree_size \<circ> h_head) ` set (db_heads d) then Err (Storage ''duplicate key'')
       else Ok (d\<lparr>db_heads := db_heads d @ [\<lparr>h_head = head, h_envelope = env\<rparr>]\<rparr>))"

section \<open>The provider\<close>

record Commitment =
  cm_batch_id :: bytes
  cm_proof :: bytes
  cm_committed_at :: time

definition get_commitment :: "settlement \<Rightarrow> bytes \<Rightarrow> SettlementError + Commitment" where
  "get_commitment st bid =
     (case find (\<lambda>b. b_batch_id b = bid) (db_batches (st_db st)) of
        None \<Rightarrow> Err BatchNotFound
      | Some b \<Rightarrow> Ok \<lparr>cm_batch_id = bid, cm_proof = as_bytes (b_batch_root b), cm_committed_at = b_committed_at b\<rparr>)"

definition existing_commitment :: "settlement \<Rightarrow> bytes \<Rightarrow> SettlementError + Commitment option" where
  "existing_commitment st bid =
     (case get_commitment st bid of
        Inr c \<Rightarrow> Ok (Some c)
      | Inl BatchNotFound \<Rightarrow> Ok None
      | Inl e \<Rightarrow> Err e)"

definition reset_leaf_cache :: "settlement \<Rightarrow> settlement" where
  "reset_leaf_cache st = st\<lparr>st_cache := cache_default\<rparr>"

definition commit ::
  "crates \<Rightarrow> (json \<Rightarrow> json) \<Rightarrow> (str \<Rightarrow> str option) \<Rightarrow> time \<Rightarrow> settlement \<Rightarrow> EventBatch \<Rightarrow>
   ((SettlementError + Commitment) \<times> settlement) option" where
  "commit C jsonb env now st batch =
     (case existing_commitment st (eb_id batch) of
        Inl e \<Rightarrow> Some (Err e, st)
      | Inr (Some existing) \<Rightarrow> Some (Ok existing, st)
      | Inr None \<Rightarrow>
          (case insert_batch_and_compute_root C jsonb now st batch of
             None \<Rightarrow> None
           | Some (Inl e, _, _) \<Rightarrow> Some (Err e, reset_leaf_cache st)
           | Some (Inr (tsz, root, at), d, c) \<Rightarrow>
               (case rbind (map_err (\<lambda>_. Storage ''signing key'') (load_signing_key_from_env C env)) (\<lambda>(key, key_id).
                     rbind (map_err (\<lambda>_. Storage ''signing'')
                       (sign_tree_head C key key_id (of_nat tsz) root (st_network st) at)) (\<lambda>head.
                     insert_signed_tree_head C head d)) of
                  Inl e \<Rightarrow> Some (Err e, reset_leaf_cache st)
                | Inr d' \<Rightarrow>
                    Some (Ok \<lparr>cm_batch_id = eb_id batch, cm_proof = as_bytes root, cm_committed_at = at\<rparr>,
                      st\<lparr>st_db := d', st_cache := c\<rparr>))))"

definition finalize ::
  "crates \<Rightarrow> (json \<Rightarrow> json) \<Rightarrow> time \<Rightarrow> settlement \<Rightarrow> EventBatch \<Rightarrow> time \<Rightarrow> str \<Rightarrow> str \<Rightarrow> bytes \<Rightarrow>
   ((SettlementError + Commitment) \<times> settlement) option" where
  "finalize C jsonb now st batch created_at key_id sig_hex verify_key =
     (case existing_commitment st (eb_id batch) of
        Inl e \<Rightarrow> Some (Err e, st)
      | Inr (Some existing) \<Rightarrow> Some (Ok (existing\<lparr>cm_committed_at := created_at\<rparr>), st)
      | Inr None \<Rightarrow>
          (case insert_batch_and_compute_root C jsonb now st batch of
             None \<Rightarrow> None
           | Some (Inl e, _, _) \<Rightarrow> Some (Err e, reset_leaf_cache st)
           | Some (Inr (tsz, root, at), d, c) \<Rightarrow>
               (let candidate = \<lparr>sth_tree_size = of_nat tsz, sth_root_hash = root, sth_network_id = st_network st,
                      sth_signing_key_id = key_id, sth_signature = sig_hex, sth_created_at = created_at,
                      sth_envelope = envelope_current SETTLEMENT_STH\<rparr> in
                if \<not> verify_tree_head C verify_key candidate
                then Some (Err (Storage ''finalize: signature does not verify''), reset_leaf_cache st)
                else
                  (case insert_signed_tree_head C candidate d of
                     Inl e \<Rightarrow> Some (Err e, reset_leaf_cache st)
                   | Inr d' \<Rightarrow>
                       Some (Ok \<lparr>cm_batch_id = eb_id batch, cm_proof = as_bytes root, cm_committed_at = created_at\<rparr>,
                         st\<lparr>st_db := d', st_cache := c\<rparr>)))))"

text \<open>A request dropped at an \<open>await\<close> after the cache was extended and before the transaction
  commits: the tables roll back and nothing runs that would reset the cache.\<close>

definition commit_cancelled ::
  "crates \<Rightarrow> (json \<Rightarrow> json) \<Rightarrow> time \<Rightarrow> settlement \<Rightarrow> EventBatch \<Rightarrow> settlement option" where
  "commit_cancelled C jsonb now st batch =
     (case insert_batch_and_compute_root C jsonb now st batch of
        None \<Rightarrow> None
      | Some (_, _, c) \<Rightarrow> Some (st\<lparr>st_cache := c\<rparr>))"

record PreparedTreeHead =
  pt_batch_id :: bytes
  pt_tree_size :: nat
  pt_root_hash :: str
  pt_network_id :: str
  pt_created_at :: time
  pt_envelope :: EnvelopeWire

fun prepare_hashes :: "crates \<Rightarrow> settlement \<Rightarrow> str \<Rightarrow> int \<Rightarrow> ProtocolEvent list \<Rightarrow> SettlementError + str list" where
  "prepare_hashes C st prev sq [] = Ok []"
| "prepare_hashes C st prev sq (event # events) =
     rbind (map_err InvalidPayload (payload_hash_hex C (stored_payload event))) (\<lambda>ph.
     rbind (hash_event C (st_network st) (st_shard st) (sq + 1) prev event ph) (\<lambda>eh.
     rbind (prepare_hashes C st eh (sq + 1) events) (\<lambda>hs. Ok (eh # hs))))"

definition prepare :: "crates \<Rightarrow> time \<Rightarrow> settlement \<Rightarrow> EventBatch \<Rightarrow> SettlementError + PreparedTreeHead" where
  "prepare C now st batch =
     (if eb_events batch = [] then Err (Storage ''cannot prepare an empty batch'')
      else
        rbind (check_batch batch) (\<lambda>_.
        rbind (prepare_hashes C st (tip_hash (st_db st)) (max_seq (st_db st)) (eb_events batch)) (\<lambda>hashes.
        (let all_hashes = map l_entry_hash (by_seq (st_db st)) @ hashes in
         rbind (map_err Storage (mth_of_hex_hashes C ledger_hash_algo all_hashes)) (\<lambda>root.
         Ok \<lparr>pt_batch_id = eb_id batch, pt_tree_size = length all_hashes, pt_root_hash = hex_encode C root,
             pt_network_id = st_network st, pt_created_at = now,
             pt_envelope = wire_of_envelope C (envelope_current SETTLEMENT_STH)\<rparr>)))))"

section \<open>Verification and reading\<close>

text \<open>One step of the loops of \<open>verify\<close> and \<open>list_entries\<close>: the link and the content of a row.\<close>

definition row_intact :: "crates \<Rightarrow> settlement \<Rightarrow> str \<Rightarrow> ledger_row \<Rightarrow> Envelope \<Rightarrow> bool" where
  "row_intact C st expected_prev r env \<longleftrightarrow>
     l_prev_hash r = expected_prev \<and>
     entry_content_intact C (st_network st) (st_shard st) (l_prev_hash r) (l_entry_hash r) (l_payload r) (row_content r env)"

fun verify_chain :: "crates \<Rightarrow> settlement \<Rightarrow> str \<Rightarrow> (ledger_row \<times> Envelope) list \<Rightarrow> bool" where
  "verify_chain C st expected_prev [] = True"
| "verify_chain C st expected_prev ((r, env) # rows) \<longleftrightarrow>
     row_intact C st expected_prev r env \<and> verify_chain C st (l_entry_hash r) rows"

fun read_envelopes :: "crates \<Rightarrow> ledger_row list \<Rightarrow> SettlementError + (ledger_row \<times> Envelope) list" where
  "read_envelopes C [] = Ok []"
| "read_envelopes C (r # rows) =
     rbind (row_to_envelope C (l_envelope r) LEDGER_ENTRY) (\<lambda>env.
     rbind (read_envelopes C rows) (\<lambda>rest. Ok ((r, env) # rest)))"

definition verify :: "crates \<Rightarrow> settlement \<Rightarrow> Commitment \<Rightarrow> SettlementError + bool" where
  "verify C st commitment =
     (case filter (\<lambda>r. l_batch_id r = cm_batch_id commitment) (by_seq (st_db st)) of
        [] \<Rightarrow> Ok False
      | first_row # others \<Rightarrow>
          rbind (read_envelopes C (first_row # others)) (\<lambda>owned.
          let chain_intact = verify_chain C st (l_prev_hash first_row) owned in
          case find (\<lambda>b. b_batch_id b = cm_batch_id commitment) (db_batches (st_db st)) of
            None \<Rightarrow> Ok False
          | Some b \<Rightarrow>
              (let leaf_hashes = map l_entry_hash (filter (\<lambda>r. l_seq r \<le> b_last_seq b) (by_seq (st_db st))) in
               rbind (map_err Storage (mth_of_hex_hashes C ledger_hash_algo leaf_hashes)) (\<lambda>root.
               Ok (chain_intact \<and> as_bytes (hex_encode C root) = cm_proof commitment)))))"

record LedgerEntryView =
  v_row :: ledger_row
  v_payload_pruned :: bool
  v_wire :: EnvelopeWire
  v_chain_intact :: bool

fun view_entries :: "crates \<Rightarrow> settlement \<Rightarrow> str \<Rightarrow> ledger_row list \<Rightarrow> LedgerEntryView list" where
  "view_entries C st expected_prev [] = []"
| "view_entries C st expected_prev (r # rows) =
     \<lparr>v_row = r, v_payload_pruned = (l_pruned_at r \<noteq> None), v_wire = row_to_wire C (l_envelope r),
      v_chain_intact =
        (case row_to_envelope C (l_envelope r) LEDGER_ENTRY of
           Inl _ \<Rightarrow> False | Inr env \<Rightarrow> row_intact C st expected_prev r env)\<rparr> #
     view_entries C st (l_entry_hash r) rows"

definition list_entries :: "crates \<Rightarrow> settlement \<Rightarrow> LedgerEntryView list" where
  "list_entries C st = view_entries C st GENESIS_HASH (by_seq (st_db st))"

definition list_entries_since_for_subject :: "crates \<Rightarrow> settlement \<Rightarrow> int \<Rightarrow> nat \<Rightarrow> str option \<Rightarrow> LedgerEntryView list" where
  "list_entries_since_for_subject C st since_seq limit subject =
     map (\<lambda>r. \<lparr>v_row = r, v_payload_pruned = (l_pruned_at r \<noteq> None), v_wire = row_to_wire C (l_envelope r),
              v_chain_intact = True\<rparr>)
       (take limit (filter (\<lambda>r. l_seq r > since_seq \<and> (subject = None \<or> subject = Some (l_subject r))) (by_seq (st_db st))))"

definition list_entries_since :: "crates \<Rightarrow> settlement \<Rightarrow> int \<Rightarrow> nat \<Rightarrow> LedgerEntryView list" where
  "list_entries_since C st since_seq limit = list_entries_since_for_subject C st since_seq limit None"

definition list_batches :: "settlement \<Rightarrow> batch_row list" where
  "list_batches st = sort_key b_first_seq (db_batches (st_db st))"

definition to_protocol_event :: "LedgerEntryView \<Rightarrow> ProtocolEvent option" where
  "to_protocol_event v =
     Option.bind (l_payload (v_row v)) (\<lambda>payload.
     if l_version (v_row v) < 0 then None
     else Some \<lparr>ev_kind = l_kind (v_row v), ev_issuer = l_issuer (v_row v), ev_subject = l_subject (v_row v),
       ev_id = l_event_id (v_row v), ev_payload = fst (split_position payload), ev_timestamp = l_timestamp (v_row v),
       ev_version = word_of_int (l_version (v_row v)), ev_identity_chain = snd (split_position payload)\<rparr>)"

definition entry_count :: "settlement \<Rightarrow> nat" where
  "entry_count st = length (db_entries (st_db st))"

definition leaf_index_for_seq :: "settlement \<Rightarrow> int \<Rightarrow> int option" where
  "leaf_index_for_seq st sq =
     (if sq \<in> l_seq ` set (db_entries (st_db st))
      then Some (int (length (filter (\<lambda>r. l_seq r \<le> sq) (db_entries (st_db st)))) - 1) else None)"

text \<open>\<open>sth_from_row\<close>: the stored columns, the envelope read back from its four columns.\<close>

definition sth_from_row :: "crates \<Rightarrow> head_row \<Rightarrow> SettlementError + SignedTreeHead" where
  "sth_from_row C h =
     rbind (row_to_envelope C (h_envelope h) SETTLEMENT_STH) (\<lambda>env. Ok ((h_head h)\<lparr>sth_envelope := env\<rparr>))"

definition heads_by_size :: "settlement \<Rightarrow> head_row list" where
  "heads_by_size st = sort_key (\<lambda>h. sint (sth_tree_size (h_head h)))
     (filter (\<lambda>h. sth_network_id (h_head h) = st_network st) (db_heads (st_db st)))"

fun readable_heads :: "crates \<Rightarrow> head_row list \<Rightarrow> SettlementError + SignedTreeHead list" where
  "readable_heads C [] = Ok []"
| "readable_heads C (h # hs) =
     (case sth_from_row C h of
        Inr head \<Rightarrow> rbind (readable_heads C hs) (\<lambda>rest. Ok (head # rest))
      | Inl (EntryNeedsNewerVersion what required) \<Rightarrow> readable_heads C hs
      | Inl e \<Rightarrow> Err e)"

definition list_signed_tree_heads :: "crates \<Rightarrow> settlement \<Rightarrow> SettlementError + SignedTreeHead list" where
  "list_signed_tree_heads C st = readable_heads C (heads_by_size st)"

definition opt_transpose :: "('e + 'a) option \<Rightarrow> 'e + 'a option" where
  "opt_transpose r = (case r of None \<Rightarrow> Ok None | Some q \<Rightarrow> rbind q (\<lambda>x. Ok (Some x)))"

definition latest_signed_tree_head :: "crates \<Rightarrow> settlement \<Rightarrow> SettlementError + SignedTreeHead option" where
  "latest_signed_tree_head C st =
     opt_transpose (map_option (sth_from_row C) (case rev (heads_by_size st) of h # _ \<Rightarrow> Some h | [] \<Rightarrow> None))"

definition signed_tree_head_at :: "crates \<Rightarrow> settlement \<Rightarrow> i64 \<Rightarrow> SettlementError + SignedTreeHead option" where
  "signed_tree_head_at C st tree_size =
     opt_transpose (map_option (sth_from_row C)
       (find (\<lambda>h. sth_tree_size (h_head h) = tree_size \<and> sth_network_id (h_head h) = st_network st) (db_heads (st_db st))))"

definition checkpoint :: "crates \<Rightarrow> settlement \<Rightarrow> SettlementError + SignedTreeHead option" where
  "checkpoint C st = latest_signed_tree_head C st"

text \<open>The cached reads. The outer option is a panic: an index out of range or a node the tree lacks.\<close>

definition entry_hashes_up_to :: "crates \<Rightarrow> nat \<Rightarrow> settlement \<Rightarrow> ((SettlementError + str list) \<times> settlement) option" where
  "entry_hashes_up_to C tree_size st =
     (case ensure_cache_covers C tree_size st of
        (Inl e, st') \<Rightarrow> Some (Err e, st')
      | (Inr _, st') \<Rightarrow>
          if tree_size \<le> length (lc_leaves (st_cache st')) then Some (Ok (take tree_size (lc_leaves (st_cache st'))), st')
          else None)"

definition root_at :: "crates \<Rightarrow> nat \<Rightarrow> settlement \<Rightarrow> ((SettlementError + bytes option) \<times> settlement) option" where
  "root_at C tree_size st =
     (case ensure_cache_covers C tree_size st of
        (Inl e, st') \<Rightarrow> Some (Err e, st')
      | (Inr _, st') \<Rightarrow> map_option (\<lambda>r. (Ok r, st')) (imt_root C (lc_tree (st_cache st')) tree_size))"

definition serve_inclusion_proof ::
  "crates \<Rightarrow> nat \<Rightarrow> nat \<Rightarrow> settlement \<Rightarrow> ((SettlementError + str \<times> bytes list) \<times> settlement) option" where
  "serve_inclusion_proof C leaf_index tree_size st =
     (case ensure_cache_covers C tree_size st of
        (Inl e, st') \<Rightarrow> Some (Err e, st')
      | (Inr _, st') \<Rightarrow>
          if leaf_index < length (lc_leaves (st_cache st')) then
            map_option (\<lambda>r. (rbind (map_err (\<lambda>_. Storage ''proof'') r) (\<lambda>pf.
                Ok (lc_leaves (st_cache st') ! leaf_index, pf)), st'))
              (imt_inclusion_proof C (lc_tree (st_cache st')) leaf_index tree_size)
          else None)"

definition serve_consistency_proof ::
  "crates \<Rightarrow> nat \<Rightarrow> nat \<Rightarrow> settlement \<Rightarrow> ((SettlementError + bytes list) \<times> settlement) option" where
  "serve_consistency_proof C first second st =
     (case ensure_cache_covers C second st of
        (Inl e, st') \<Rightarrow> Some (Err e, st')
      | (Inr _, st') \<Rightarrow>
          map_option (\<lambda>r. (map_err (\<lambda>_. Storage ''proof'') r, st'))
            (imt_consistency_proof C (lc_tree (st_cache st')) first second))"

section \<open>Retention and cosignatures\<close>

definition prunable :: "time \<Rightarrow> ledger_row \<Rightarrow> bool" where
  "prunable cutoff r \<longleftrightarrow> l_committed_at r < cutoff \<and> l_pruned_at r = None"

definition prunable_entry_count :: "settlement \<Rightarrow> time \<Rightarrow> nat" where
  "prunable_entry_count st cutoff = length (filter (prunable cutoff) (db_entries (st_db st)))"

definition max_seq_before :: "settlement \<Rightarrow> time \<Rightarrow> int option" where
  "max_seq_before st cutoff =
     (case filter (prunable cutoff) (db_entries (st_db st)) of [] \<Rightarrow> None | rs \<Rightarrow> Some (Max (l_seq ` set rs)))"

definition prune_row :: "time \<Rightarrow> time \<Rightarrow> ledger_row \<Rightarrow> ledger_row" where
  "prune_row now cutoff r = (if prunable cutoff r then r\<lparr>l_payload := None, l_pruned_at := Some now\<rparr> else r)"

definition prune_payloads_older_than :: "time \<Rightarrow> time \<Rightarrow> settlement \<Rightarrow> nat \<times> settlement" where
  "prune_payloads_older_than now cutoff st =
     (prunable_entry_count st cutoff,
      st\<lparr>st_db := (st_db st)\<lparr>db_entries := map (prune_row now cutoff) (db_entries (st_db st))\<rparr>\<rparr>)"

definition same_slot :: "str \<Rightarrow> WitnessCosignature \<Rightarrow> cosig_row \<Rightarrow> bool" where
  "same_slot shard cosig row \<longleftrightarrow> g_shard_id row = shard \<and> c_network_id (g_cosig row) = c_network_id cosig \<and>
     c_tree_size (g_cosig row) = c_tree_size cosig \<and> c_witness_key_id (g_cosig row) = c_witness_key_id cosig"

definition refreshes :: "str \<Rightarrow> WitnessCosignature \<Rightarrow> cosig_row \<Rightarrow> bool" where
  "refreshes shard cosig row \<longleftrightarrow> same_slot shard cosig row \<and>
     c_root_hash (g_cosig row) = c_root_hash cosig \<and> c_author_created_at (g_cosig row) = c_author_created_at cosig \<and>
     c_observed_at (g_cosig row) < c_observed_at cosig \<and> c_author_key_id (g_cosig row) = c_author_key_id cosig \<and>
     c_author_signature (g_cosig row) = c_author_signature cosig"

definition refresh_witness_cosignature :: "str \<Rightarrow> WitnessCosignature \<Rightarrow> cosig_row list \<Rightarrow> cosig_row list" where
  "refresh_witness_cosignature shard cosig rows =
     map (\<lambda>r. if refreshes shard cosig r
       then r\<lparr>g_cosig := (g_cosig r)\<lparr>c_observed_at := c_observed_at cosig, c_signature := c_signature cosig\<rparr>\<rparr>
       else r) rows"

definition store_witness_cosignature ::
  "crates \<Rightarrow> str \<Rightarrow> WitnessCosignature \<Rightarrow> cosig_row list \<Rightarrow> SettlementError + cosig_row list" where
  "store_witness_cosignature C shard cosig rows =
     rbind (row_from_envelope C (c_envelope cosig)) (\<lambda>env.
       case find (same_slot shard cosig) rows of
         None \<Rightarrow> Ok (rows @ [\<lparr>g_shard_id = shard, g_cosig = cosig, g_envelope = env\<rparr>])
       | Some row \<Rightarrow>
           (let existing = g_cosig row in
            if c_signature existing = c_signature cosig then Ok rows
            else if c_root_hash existing = c_root_hash cosig \<and> c_author_key_id existing = c_author_key_id cosig \<and>
              c_author_signature existing = c_author_signature cosig \<and> c_observed_at existing < c_observed_at cosig
            then Ok (refresh_witness_cosignature shard cosig rows)
            else Err (Storage ''refusing to overwrite a possible equivocation'')))"

fun readable_cosigs :: "crates \<Rightarrow> cosig_row list \<Rightarrow> SettlementError + WitnessCosignature list" where
  "readable_cosigs C [] = Ok []"
| "readable_cosigs C (r # rs) =
     (case row_to_envelope C (g_envelope r) WITNESS_COSIGN of
        Inr env \<Rightarrow> rbind (readable_cosigs C rs) (\<lambda>rest. Ok ((g_cosig r)\<lparr>c_envelope := env\<rparr> # rest))
      | Inl (EntryNeedsNewerVersion what required) \<Rightarrow> readable_cosigs C rs
      | Inl e \<Rightarrow> Err e)"

definition list_witness_cosignatures ::
  "crates \<Rightarrow> str \<Rightarrow> str \<Rightarrow> i64 \<Rightarrow> cosig_row list \<Rightarrow> SettlementError + WitnessCosignature list" where
  "list_witness_cosignatures C network shard tree_size rows =
     readable_cosigs C (filter (\<lambda>r. c_network_id (g_cosig r) = network \<and> g_shard_id r = shard \<and>
       c_tree_size (g_cosig r) = tree_size) rows)"

definition cosigned_tree_head_at :: "crates \<Rightarrow> settlement \<Rightarrow> str \<Rightarrow> i64 \<Rightarrow>
    SettlementError + (SignedTreeHead \<times> WitnessCosignature list) option" where
  "cosigned_tree_head_at C st shard tree_size =
     rbind (signed_tree_head_at C st tree_size) (\<lambda>head.
       case head of
         None \<Rightarrow> Ok None
       | Some sth \<Rightarrow>
           rbind (list_witness_cosignatures C (sth_network_id sth) shard tree_size (db_cosigs (st_db st))) (\<lambda>cosigs.
             Ok (Some (sth, cosigs))))"

section \<open>Genesis\<close>

datatype GenesisError = GenesisMismatch str str

definition connect_core_shard :: "str option \<Rightarrow> str \<Rightarrow> ledger_db \<Rightarrow> GenesisError + str option \<times> settlement" where
  "connect_core_shard existing expected d =
     (case existing of
        None \<Rightarrow> Ok (Some expected, \<lparr>st_network = expected, st_shard = ''core'', st_db = d, st_cache = cache_default\<rparr>)
      | Some stored \<Rightarrow>
          if stored = expected
          then Ok (existing, \<lparr>st_network = stored, st_shard = ''core'', st_db = d, st_cache = cache_default\<rparr>)
          else Err (GenesisMismatch stored expected))"

end
