(* ===== verification/Settlement_Facts.thy ===== *)
theory Settlement_Facts
  imports Settlement
begin

text \<open>
  The ledger's invariant, that every operation keeps it, and what follows from it: committed
  batches verify, tree heads sign the root of the whole ledger, cached proofs verify. \<open>ledger_step\<close> is an operation that
  ran to its end; \<open>node_step\<close> adds commits dropped half way, which keep the tables but not the leaf cache, and what they
  do to a later commit.
\<close>

section \<open>The invariant\<close>

abbreviation rows_of :: "settlement \<Rightarrow> ledger_row list" where
  "rows_of st \<equiv> db_entries (st_db st)"

abbreviation hashes_of :: "ledger_row list \<Rightarrow> str list" where
  "hashes_of rows \<equiv> map l_entry_hash rows"

definition leaf_bytes :: "crates \<Rightarrow> str list \<Rightarrow> bytes list" where
  "leaf_bytes C hs = map (\<lambda>h. the (hex_decode C h)) hs"

definition ledger_root :: "crates \<Rightarrow> ledger_row list \<Rightarrow> str" where
  "ledger_root C rows = hex_encode C (mth C ledger_hash_algo (leaf_bytes C (hashes_of rows)))"

definition chain_ok :: "crates \<Rightarrow> settlement \<Rightarrow> str \<Rightarrow> ledger_row list \<Rightarrow> bool" where
  "chain_ok C st prev rows \<longleftrightarrow> (\<exists>owned. read_envelopes C rows = Ok owned \<and> verify_chain C st prev owned)"

definition batch_ok :: "crates \<Rightarrow> ledger_row list \<Rightarrow> batch_row \<Rightarrow> bool" where
  "batch_ok C rows b \<longleftrightarrow>
     (\<exists>pre mid. filter (\<lambda>r. l_seq r \<le> b_last_seq b) rows = pre @ mid \<and> mid \<noteq> [] \<and>
        filter (\<lambda>r. l_batch_id r = b_batch_id b) rows = mid \<and> l_seq (last mid) = b_last_seq b \<and>
        b_batch_root b = ledger_root C (pre @ mid))"

definition head_ok :: "crates \<Rightarrow> str \<Rightarrow> ledger_row list \<Rightarrow> head_row \<Rightarrow> bool" where
  "head_ok C net rows h \<longleftrightarrow> sth_network_id (h_head h) = net \<and>
     (\<exists>n \<le> length rows. sth_tree_size (h_head h) = of_nat n \<and> sth_root_hash (h_head h) = ledger_root C (take n rows))"

definition ledger_ok :: "crates \<Rightarrow> settlement \<Rightarrow> bool" where
  "ledger_ok C st \<longleftrightarrow>
     sorted_wrt (<) (map l_seq (rows_of st)) \<and> (\<forall>r\<in>set (rows_of st). 0 < l_seq r) \<and>
     chain_ok C st GENESIS_HASH (rows_of st) \<and>
     distinct (map b_batch_id (db_batches (st_db st))) \<and>
     l_batch_id ` set (rows_of st) \<subseteq> b_batch_id ` set (db_batches (st_db st)) \<and>
     (\<forall>b\<in>set (db_batches (st_db st)). batch_ok C (rows_of st) b) \<and>
     (\<forall>h\<in>set (db_heads (st_db st)). head_ok C (st_network st) (rows_of st) h)"

definition cache_ok :: "crates \<Rightarrow> settlement \<Rightarrow> bool" where
  "cache_ok C st \<longleftrightarrow>
     (\<exists>n \<le> length (rows_of st). lc_leaves (st_cache st) = hashes_of (take n (rows_of st)) \<and>
        imt_inv C ledger_hash_algo (leaf_bytes C (lc_leaves (st_cache st))) (lc_tree (st_cache st)))"

definition jsonb_ok :: "(json \<Rightarrow> json) \<Rightarrow> bool" where
  "jsonb_ok jsonb \<longleftrightarrow> (\<forall>p t. canonicalize p = Ok t \<longrightarrow> canonicalize (jsonb p) = Ok t)"

section \<open>Envelopes\<close>

lemma ledger_hash_algo_Sha256 [simp]: "ledger_hash_algo = Sha256"
  by (cases ledger_hash_algo)

lemma ext_encode_nil: "ext_decode (ext_encode []) rv = Ok []"
  using ext_region_roundtrip [of "[]" rv "[]"] by (simp add: ext_decode_def)

lemma lower_hex_no_upper: "hex_ok C \<Longrightarrow> \<not> list_ex is_ascii_uppercase (hex_encode C b)"
  using no_upper_in_lower_hex hex_encode_lower by blast

lemma try_word_uint [simp]: "try_word (uint (x :: 'a :: len word)) = x"
  using uint_lt2p [of x] by (simp add: try_word_def)

lemma try_word_one [simp]: "try_word 1 = (1 :: u8)"
  by (simp add: try_word_def)

lemma current_row:
  assumes "hex_ok C"
  shows "\<exists>er. row_from_envelope C (envelope_current tag) = Ok er \<and> row_to_envelope C er tag = Ok (envelope_current tag)"
proof -
  define env where "env = envelope_current tag"
  have lv: "unat (layout_version env) < 2 ^ 15" "rules_version env = RULES_VERSION" "hash_algo env = Sha256" "extensions env = []"
    by (simp_all add: env_def envelope_current_def layout_versions_def ext_none_def)
  define er where "er = \<lparr>row_layout_version = uint (layout_version env), row_rules_version = uint (rules_version env),
    row_hash_algo = 1, row_extensions = ext_encode []\<rparr>"
  have "row_from_envelope C env = Ok er"
    using lv lower_hex_no_upper [OF assms] hex_roundtrip [OF assms]
    by (simp add: row_from_envelope_def row_from_wire_def wire_of_envelope_def decode_lower_hex_def er_def
        RULES_VERSION_def guard_err_def)
  then have "row_from_envelope C env = Ok er \<and> row_to_envelope C er tag = Ok env"
    using lower_hex_no_upper [OF assms] hex_roundtrip [OF assms] ext_encode_nil
    by (simp add: row_to_envelope_def row_to_wire_def er_def to_envelope_def decode_lower_hex_def
        envelope_from_parts_def hash_algo_from_id_def lv) (simp add: env_def envelope_current_def ext_none_def)
  then show ?thesis by (auto simp: env_def)
qed

section \<open>The hash chain\<close>

definition chain_tip :: "str \<Rightarrow> ledger_row list \<Rightarrow> str" where
  "chain_tip prev rows = (if rows = [] then prev else l_entry_hash (last rows))"

lemma chain_tip_simps [simp]:
  "chain_tip prev [] = prev" "chain_tip prev (r # rows) = chain_tip (l_entry_hash r) rows"
  by (simp_all add: chain_tip_def)

lemma chain_ok_simps [simp]:
  "chain_ok C st prev []"
  "chain_ok C st prev (r # rows) \<longleftrightarrow>
     (\<exists>env. row_to_envelope C (l_envelope r) LEDGER_ENTRY = Ok env \<and> row_intact C st prev r env) \<and>
     chain_ok C st (l_entry_hash r) rows"
  by (auto simp: chain_ok_def rbind_eq_Inr)

lemma chain_ok_append: "chain_ok C st prev (xs @ ys) \<longleftrightarrow> chain_ok C st prev xs \<and> chain_ok C st (chain_tip prev xs) ys"
  by (induction xs arbitrary: prev) auto

lemma chain_ok_cong:
  "st_network st = st_network st' \<Longrightarrow> st_shard st = st_shard st' \<Longrightarrow> chain_ok C st prev rows = chain_ok C st' prev rows"
  by (induction rows arbitrary: prev) (simp_all add: row_intact_def)

definition hash_text :: "crates \<Rightarrow> str \<Rightarrow> bool" where
  "hash_text C h \<longleftrightarrow> (\<exists>b. h = hex_encode C b)"

lemma hash_entry_text: "hash_entry C net shard prev content = Ok h \<Longrightarrow> hash_text C h"
  by (auto simp: hash_entry_def rbind_eq_Inr hash_text_def)

lemma chain_ok_hash_text: "chain_ok C st prev rows \<Longrightarrow> \<forall>h\<in>set (hashes_of rows). hash_text C h"
  by (induction rows arbitrary: prev)
    (auto simp: row_intact_def entry_content_intact_def dest: hash_entry_text)

lemma decode_hash_texts:
  assumes "hex_ok C" "\<forall>h\<in>set hs. hash_text C h"
  shows "decode_hex_leaves C hs = Ok (leaf_bytes C hs)"
  using assms(2) by (induction hs) (auto simp: leaf_bytes_def hash_text_def hex_roundtrip [OF assms(1)])

lemma read_sublist:
  "read_envelopes C (xs @ ys) = Ok owned \<Longrightarrow> \<exists>a b. owned = a @ b \<and> read_envelopes C xs = Ok a \<and> read_envelopes C ys = Ok b"
  by (induction xs arbitrary: owned) (fastforce simp: rbind_eq_Inr)+

section \<open>Appending\<close>

lemma event_row_intact:
  assumes "hex_ok C" "jsonb_ok jsonb" "unat (ev_version event) < 2 ^ 31"
    and "payload_hash_hex C (stored_payload event) = Ok ph"
    and "hash_event C (st_network st) (st_shard st) sq prev event ph = Ok eh"
    and "stored_timestamp event = Ok ts"
    and "row_to_envelope C er LEDGER_ENTRY = Ok (envelope_current LEDGER_ENTRY)"
  shows "row_intact C st prev \<lparr>l_seq = sq, l_event_id = ev_id event, l_kind = ev_kind event, l_issuer = ev_issuer event,
              l_subject = ev_subject event, l_payload = Some (jsonb (stored_payload event)), l_payload_hash = ph,
              l_pruned_at = None, l_timestamp = ts, l_version = sint (ev_version event),
              l_prev_hash = prev, l_entry_hash = eh, l_batch_id = bid, l_envelope = er, l_committed_at = now\<rparr>
      (envelope_current LEDGER_ENTRY)"
proof -
  have u: "uint (ev_version event) < 2 ^ 31"
    unfolding uint_nat using assms(3) by (simp only: of_nat_less_numeral_power_cancel_iff)
  have v: "sint (ev_version event) = uint (ev_version event)"
    unfolding sint_uint
  proof (rule signed_take_bit_int_eq_self)
    have "0 \<le> uint (ev_version event)" by (rule unsigned_greater_eq)
    then show "- (2 ^ (LENGTH(32) - Suc 0)) \<le> uint (ev_version event)" by (rule order_trans [rotated]) simp
  qed (use u in simp)
  have "payload_hash_hex C (jsonb (stored_payload event)) = Ok ph"
    using assms(2,4) by (auto simp: jsonb_ok_def payload_hash_hex_def payload_hash_def rbind_eq_Inr)
  then show ?thesis using assms(3,5,6)
    by (simp add: row_intact_def entry_content_intact_def payload_matches_def row_content_def hash_event_def v)
qed

lemma append_events_spec:
  assumes "hex_ok C" "jsonb_ok jsonb"
    and "append_events C jsonb st bid now rows prev next_seq events = Ok (rows', hs)"
    and "\<forall>e\<in>set events. unat (ev_version e) < 2 ^ 31"
  shows "\<exists>new. rows' = rows @ new \<and> hs = hashes_of new \<and> length new = length events \<and>
    (\<forall>r\<in>set new. l_batch_id r = bid) \<and> map l_seq new = map (\<lambda>i. next_seq + int i) [0..<length events] \<and>
    chain_ok C st prev new"
  using assms(3,4)
proof (induction events arbitrary: rows prev next_seq rows' hs)
  case (Cons event events)
  obtain er where er: "row_from_envelope C (envelope_current LEDGER_ENTRY) = Ok er"
    "row_to_envelope C er LEDGER_ENTRY = Ok (envelope_current LEDGER_ENTRY)" using current_row [OF assms(1)] by blast
  from Cons.prems(1) obtain ph eh ts hs' where
    ph: "payload_hash_hex C (stored_payload event) = Ok ph" and
    eh: "hash_event C (st_network st) (st_shard st) next_seq prev event ph = Ok eh" and
    ts: "stored_timestamp event = Ok ts" and hs: "hs = eh # hs'" and
    rec: "append_events C jsonb st bid now (rows @ [\<lparr>l_seq = next_seq, l_event_id = ev_id event, l_kind = ev_kind event,
       l_issuer = ev_issuer event, l_subject = ev_subject event, l_payload = Some (jsonb (stored_payload event)),
       l_payload_hash = ph, l_pruned_at = None, l_timestamp = ts, l_version = sint (ev_version event),
       l_prev_hash = prev, l_entry_hash = eh, l_batch_id = bid, l_envelope = er, l_committed_at = now\<rparr>])
       eh (next_seq + 1) events = Ok (rows', hs')" (is "append_events _ _ _ _ _ (rows @ [?row]) _ _ _ = _")
    by (auto simp: rbind_eq_Inr er(1) Let_def split: if_splits)
  from Cons.IH [OF rec] Cons.prems(2) obtain new where new: "rows' = (rows @ [?row]) @ new" "hs' = hashes_of new"
    "length new = length events" "\<forall>r\<in>set new. l_batch_id r = bid"
    "map l_seq new = map (\<lambda>i. next_seq + 1 + int i) [0..<length events]" "chain_ok C st eh new" by auto
  have "row_intact C st prev ?row (envelope_current LEDGER_ENTRY)"
    using event_row_intact [OF assms(1,2) _ ph eh ts er(2)] Cons.prems(2) by simp
  moreover have "map (\<lambda>i. next_seq + int i) [0..<length (event # events)] =
      next_seq # map (\<lambda>i. next_seq + 1 + int i) [0..<length events]"
    by (simp add: upt_conv_Cons map_Suc_upt [symmetric] comp_def algebra_simps del: upt_Suc)
  ultimately show ?case using new er(2) by (intro exI [of _ "?row # new"]) (auto simp: hs)
qed simp

section \<open>The cache\<close>

lemma leaf_bytes_snoc: "hex_ok C \<Longrightarrow> leaf_bytes C (hs @ [hex_encode C b]) = leaf_bytes C hs @ [b]"
  by (simp add: leaf_bytes_def hex_roundtrip)

lemma cache_extend_spec:
  assumes "hex_ok C" "\<forall>h\<in>set hs. hash_text C h" "length (lc_leaves c) + length hs \<le> 2 ^ 64"
    and "imt_inv C Sha256 (leaf_bytes C (lc_leaves c)) (lc_tree c)"
  shows "\<exists>c'. cache_extend C c hs = (Ok (), c') \<and> lc_leaves c' = lc_leaves c @ hs \<and>
    imt_inv C Sha256 (leaf_bytes C (lc_leaves c')) (lc_tree c')"
  using assms(2-4)
proof (induction hs arbitrary: c)
  case (Cons h hs)
  then obtain b where h: "h = hex_encode C b" by (auto simp: hash_text_def)
  let ?c = "c\<lparr>lc_tree := imt_append C b (lc_tree c), lc_leaves := lc_leaves c @ [h]\<rparr>"
  have "imt_inv C Sha256 (leaf_bytes C (lc_leaves ?c)) (lc_tree ?c)"
    using imt_append_inv [OF Cons.prems(3), of b] Cons.prems(2)
    by (simp add: h leaf_bytes_snoc [OF assms(1)]) (simp add: leaf_bytes_def)
  from Cons.IH [OF _ _ this] Cons.prems show ?case
    by (auto simp: h hex_roundtrip [OF assms(1)])
qed simp

lemma cache_default_inv: "imt_inv C Sha256 (leaf_bytes C (lc_leaves cache_default)) (lc_tree cache_default)"
  by (simp add: cache_default_def imt_new_inv leaf_bytes_def)

lemma cache_rebuild_spec:
  assumes "hex_ok C" "\<forall>h\<in>set hs. hash_text C h" "length hs \<le> 2 ^ 64"
  shows "\<exists>c'. cache_rebuild C c hs = (Ok (), c') \<and> lc_leaves c' = hs \<and>
    imt_inv C Sha256 (leaf_bytes C (lc_leaves c')) (lc_tree c')"
  using cache_extend_spec [OF assms(1,2) _ cache_default_inv] assms(3)
  by (auto simp: cache_rebuild_def cache_default_def)

definition cache_for :: "crates \<Rightarrow> ledger_row list \<Rightarrow> LedgerCache \<Rightarrow> bool" where
  "cache_for C rows c \<longleftrightarrow> (\<exists>n \<le> length rows. lc_leaves c = hashes_of (take n rows)) \<and>
     imt_inv C Sha256 (leaf_bytes C (lc_leaves c)) (lc_tree c)"

lemma cache_ok_for: "cache_ok C st \<longleftrightarrow> cache_for C (rows_of st) (st_cache st)"
  by (auto simp: cache_ok_def cache_for_def)

lemma cache_for_default: "cache_for C rows cache_default"
  using cache_default_inv by (auto simp: cache_for_def cache_default_def intro: exI [of _ 0])

lemma cache_for_full:
  assumes "cache_for C rows c"
  shows "length (lc_leaves c) \<le> length rows" "length rows \<le> length (lc_leaves c) \<Longrightarrow> lc_leaves c = hashes_of rows"
  using assms by (auto simp: cache_for_def)

lemma by_seq_sorted: "sorted_wrt (<) (map l_seq rows) \<Longrightarrow> sort_key l_seq rows = rows"
  by (simp add: sort_key_id_if_sorted strict_sorted_imp_sorted)

lemma compute_root_spec:
  assumes C: "hex_ok C" and rows: "sorted_wrt (<) (map l_seq (old @ new))" "\<forall>h\<in>set (hashes_of (old @ new)). hash_text C h"
    "\<forall>r\<in>set (old @ new). l_seq r \<le> last_seq" "new \<noteq> []" "length (old @ new) \<le> 2 ^ 64"
    and c: "cache_for C old c"
  shows "\<exists>c'. compute_root C (old @ new) (hashes_of new) last_seq c =
      Some (Ok (length (old @ new), mth C Sha256 (leaf_bytes C (hashes_of (old @ new)))), c') \<and> cache_for C (old @ new) c'"
proof -
  have inv: "imt_inv C Sha256 (leaf_bytes C (lc_leaves c)) (lc_tree c)" using c by (simp add: cache_for_def)
  have fetched: "filter (\<lambda>r. l_seq r \<le> last_seq) (sort_key l_seq (old @ new)) = old @ new"
    using rows(3) by (simp only: by_seq_sorted [OF rows(1)]) (intro filter_True, blast)
  show ?thesis
  proof (cases "length (lc_leaves c) = length old")
    case True
    then have lv: "lc_leaves c = hashes_of old" using cache_for_full(2) [OF c] by simp
    obtain c' where c': "cache_extend C c (hashes_of new) = (Ok (), c')" "lc_leaves c' = hashes_of (old @ new)"
      "imt_inv C Sha256 (leaf_bytes C (lc_leaves c')) (lc_tree c')"
      using cache_extend_spec [OF C _ _ inv, of "hashes_of new"] rows(2,5) lv by auto
    have "imt_root C (lc_tree c') (length (old @ new)) = Some (Some (mth C Sha256 (leaf_bytes C (hashes_of (old @ new)))))"
      using imt_refines [OF c'(3), of "length (old @ new)"] rows(5) by (simp add: c'(2) leaf_bytes_def)
    with True c' show ?thesis by (auto simp: compute_root_def cache_for_def intro: exI [of _ "length (old @ new)"])
  next
    case False
    have lt: "length (lc_leaves c) < length (old @ new)" using cache_for_full(1) [OF c] rows(4) by (cases new) auto
    obtain c' where c': "cache_rebuild C c (hashes_of (old @ new)) = (Ok (), c')" "lc_leaves c' = hashes_of (old @ new)"
      "imt_inv C Sha256 (leaf_bytes C (lc_leaves c')) (lc_tree c')"
      using cache_rebuild_spec [OF C rows(2), of c] rows(5) by auto
    with False lt fetched decode_hash_texts [OF C rows(2)] show ?thesis
      by (auto simp: compute_root_def mth_of_hex_hashes_def cache_for_def Let_def intro: exI [of _ "length (old @ new)"])
  qed
qed

section \<open>Inserting a batch\<close>

lemma tip_hash_chain: "sorted_wrt (<) (map l_seq (db_entries d)) \<Longrightarrow> tip_hash d = chain_tip GENESIS_HASH (db_entries d)"
  by (cases "db_entries d" rule: rev_cases) (simp_all add: tip_hash_def by_seq_def by_seq_sorted chain_tip_def)

lemma max_seq_ge: "r \<in> set (db_entries d) \<Longrightarrow> l_seq r \<le> max_seq d" and max_seq_nonneg: "0 \<le> max_seq d"
  by (simp_all add: max_seq_def)

lemma check_events_ok: "check_events es = Ok () \<Longrightarrow> \<forall>e\<in>set es. unat (ev_version e) < 2 ^ 31"
  by (induction es) (auto split: if_splits)

text \<open>What the tables say of themselves, without the roots: it does not mention the cache.\<close>

definition rows_ok :: "crates \<Rightarrow> settlement \<Rightarrow> bool" where
  "rows_ok C st \<longleftrightarrow>
     sorted_wrt (<) (map l_seq (rows_of st)) \<and> (\<forall>r\<in>set (rows_of st). 0 < l_seq r) \<and>
     chain_ok C st GENESIS_HASH (rows_of st) \<and>
     distinct (map b_batch_id (db_batches (st_db st))) \<and>
     l_batch_id ` set (rows_of st) \<subseteq> b_batch_id ` set (db_batches (st_db st))"

lemma ledger_ok_rows: "ledger_ok C st \<Longrightarrow> rows_ok C st"
  by (simp add: ledger_ok_def rows_ok_def)

lemma rows_ok_cong:
  "st_network st = st_network st' \<Longrightarrow> st_shard st = st_shard st' \<Longrightarrow> rows_of st = rows_of st' \<Longrightarrow>
   db_batches (st_db st) = db_batches (st_db st') \<Longrightarrow> rows_ok C st = rows_ok C st'"
  by (simp add: rows_ok_def chain_ok_cong [of st st'])

lemma append_rows:
  assumes C: "hex_ok C" "jsonb_ok jsonb" and inv: "rows_ok C st"
    and app: "rbind (check_batch batch) (\<lambda>_. append_events C jsonb st (eb_id batch) now (rows_of st)
            (tip_hash (st_db st)) (max_seq (st_db st) + 1) (eb_events batch)) = Ok (rows, hs)"
    and ne: "eb_events batch \<noteq> []"
  shows "\<exists>new. rows = rows_of st @ new \<and> hs = hashes_of new \<and> new \<noteq> [] \<and> (\<forall>r\<in>set new. l_batch_id r = eb_id batch) \<and>
    sorted_wrt (<) (map l_seq rows) \<and> (\<forall>r\<in>set rows. 0 < l_seq r) \<and> chain_ok C st GENESIS_HASH rows \<and>
    (\<forall>r\<in>set rows. l_seq r \<le> max_seq (st_db st) + int (length (eb_events batch))) \<and>
    (\<forall>r\<in>set new. max_seq (st_db st) < l_seq r) \<and>
    l_seq (last new) = max_seq (st_db st) + int (length (eb_events batch)) \<and> length new = length (eb_events batch)"
proof -
  have sorted: "sorted_wrt (<) (map l_seq (rows_of st))" and pos: "\<forall>r\<in>set (rows_of st). 0 < l_seq r"
    and chain: "chain_ok C st GENESIS_HASH (rows_of st)" using inv(1) by (auto simp: rows_ok_def)
  let ?m = "max_seq (st_db st)"
  from app have ev: "\<forall>e\<in>set (eb_events batch). unat (ev_version e) < 2 ^ 31"
    and ap: "append_events C jsonb st (eb_id batch) now (rows_of st) (tip_hash (st_db st)) (?m + 1) (eb_events batch) = Ok (rows, hs)"
    by (auto simp: rbind_eq_Inr check_batch_def dest: check_events_ok)
  from append_events_spec [OF C ap ev] obtain new where new: "rows = rows_of st @ new" "hs = hashes_of new"
    "length new = length (eb_events batch)" "\<forall>r\<in>set new. l_batch_id r = eb_id batch"
    "map l_seq new = map (\<lambda>i. ?m + 1 + int i) [0..<length (eb_events batch)]" "chain_ok C st (tip_hash (st_db st)) new"
    by blast
  have seqs: "?m < l_seq r \<and> l_seq r \<le> ?m + int (length (eb_events batch))" if "r \<in> set new" for r
  proof -
    have "l_seq r \<in> set (map l_seq new)" using that by simp
    then show ?thesis unfolding new(5) by auto
  qed
  have "sorted_wrt (<) (map l_seq new)" unfolding new(5) by (simp add: sorted_wrt_map)
  then have s: "sorted_wrt (<) (map l_seq rows)"
    using sorted seqs max_seq_ge [of _ "st_db st"] by (fastforce simp: new(1) sorted_wrt_append)
  have ch: "chain_ok C st GENESIS_HASH rows"
    using chain new(6) by (simp add: new(1) chain_ok_append tip_hash_chain [OF sorted])
  have le: "\<forall>r\<in>set rows. l_seq r \<le> ?m + int (length (eb_events batch))"
    using seqs max_seq_ge [of _ "st_db st"] by (fastforce simp: new(1))
  have p: "\<forall>r\<in>set rows. 0 < l_seq r" using pos seqs max_seq_nonneg [of "st_db st"] by (fastforce simp: new(1))
  have nn: "new \<noteq> []" using ne new(3) by auto
  have "l_seq (last new) = last (map l_seq new)" using nn by (simp add: last_map)
  then have lst: "l_seq (last new) = ?m + int (length (eb_events batch))"
    using ne unfolding new(5) by (cases "eb_events batch") (simp_all add: last_map)
  show ?thesis using new s ch le p nn seqs lst by blast
qed

lemma insert_batch_rows:
  assumes C: "hex_ok C" "jsonb_ok jsonb" and inv: "ledger_ok C st" "cache_ok C st"
    and small: "entry_count st + length (eb_events batch) \<le> 2 ^ 64"
    and app: "rbind (check_batch batch) (\<lambda>_. append_events C jsonb st (eb_id batch) now (rows_of st)
            (tip_hash (st_db st)) (max_seq (st_db st) + 1) (eb_events batch)) = Ok (rows, hs)"
    and ne: "eb_events batch \<noteq> []"
  shows "\<exists>new c. rows = rows_of st @ new \<and> hs = hashes_of new \<and> new \<noteq> [] \<and> (\<forall>r\<in>set new. l_batch_id r = eb_id batch) \<and>
    sorted_wrt (<) (map l_seq rows) \<and> (\<forall>r\<in>set rows. 0 < l_seq r) \<and> chain_ok C st GENESIS_HASH rows \<and>
    (\<forall>r\<in>set rows. l_seq r \<le> max_seq (st_db st) + int (length (eb_events batch))) \<and>
    (\<forall>r\<in>set new. max_seq (st_db st) < l_seq r) \<and>
    l_seq (last new) = max_seq (st_db st) + int (length (eb_events batch)) \<and> length new = length (eb_events batch) \<and>
    compute_root C rows hs (max_seq (st_db st) + int (length (eb_events batch))) (st_cache st) =
      Some (Ok (length rows, mth C Sha256 (leaf_bytes C (hashes_of rows))), c) \<and> cache_for C rows c"
proof -
  from append_rows [OF C ledger_ok_rows [OF inv(1)] app ne] obtain new where new: "rows = rows_of st @ new" "hs = hashes_of new" "new \<noteq> []"
    "\<forall>r\<in>set new. l_batch_id r = eb_id batch" "sorted_wrt (<) (map l_seq rows)" "\<forall>r\<in>set rows. 0 < l_seq r" "chain_ok C st GENESIS_HASH rows"
    "\<forall>r\<in>set rows. l_seq r \<le> max_seq (st_db st) + int (length (eb_events batch))" "\<forall>r\<in>set new. max_seq (st_db st) < l_seq r"
    "l_seq (last new) = max_seq (st_db st) + int (length (eb_events batch))" "length new = length (eb_events batch)" by blast
  have "length (rows_of st @ new) \<le> 2 ^ 64" using small new(11) by (simp add: entry_count_def)
  from compute_root_spec [OF C(1) new(5) [unfolded new(1)] chain_ok_hash_text [OF new(7), unfolded new(1)] new(8) [unfolded new(1)] new(3) this
      inv(2) [unfolded cache_ok_for]]
  show ?thesis using new by blast
qed

text \<open>A batch inserted under the invariant: the new rows extend the chain, the returned root is the
  root of the whole ledger, older batches keep theirs.\<close>

lemma batch_ok_extend:
  assumes b: "batch_ok C rows b" and new: "\<forall>r\<in>set new. m < l_seq r" "\<forall>r\<in>set rows. l_seq r \<le> m"
    and bid: "\<forall>r\<in>set new. l_batch_id r \<noteq> b_batch_id b"
  shows "batch_ok C (rows @ new) b"
proof -
  obtain pre mid where pm: "filter (\<lambda>r. l_seq r \<le> b_last_seq b) rows = pre @ mid" "mid \<noteq> []"
    "filter (\<lambda>r. l_batch_id r = b_batch_id b) rows = mid" "l_seq (last mid) = b_last_seq b" "b_batch_root b = ledger_root C (pre @ mid)"
    using b by (auto simp: batch_ok_def)
  have "last mid \<in> set rows" using pm(2,3) last_in_set by fastforce
  then have "b_last_seq b \<le> m" using new(2) pm(4) by auto
  then have "filter (\<lambda>r. l_seq r \<le> b_last_seq b) new = []" using new(1) by (fastforce simp: filter_empty_conv)
  moreover have "filter (\<lambda>r. l_batch_id r = b_batch_id b) new = []" using bid by (simp add: filter_empty_conv)
  ultimately show ?thesis using pm unfolding batch_ok_def by (intro exI [of _ pre] exI [of _ mid]) simp
qed

lemma head_ok_extend: "head_ok C net rows h \<Longrightarrow> head_ok C net (rows @ new) h"
  unfolding head_ok_def using take_append [of _ rows new]
  by (metis diff_is_0_eq length_append append_Nil2 take0 trans_le_add1)

definition inserted :: "crates \<Rightarrow> time \<Rightarrow> settlement \<Rightarrow> EventBatch \<Rightarrow> ledger_db \<Rightarrow> bool" where
  "inserted C now st batch d \<longleftrightarrow> db_heads d = db_heads (st_db st) \<and> db_cosigs d = db_cosigs (st_db st) \<and>
     (\<exists>new. db_entries d = rows_of st @ new \<and> length new = length (eb_events batch)) \<and>
     eb_id batch \<notin> b_batch_id ` set (db_batches (st_db st)) \<and>
     (\<exists>b. db_batches d = db_batches (st_db st) @ [b] \<and> b_batch_id b = eb_id batch \<and>
        b_batch_root b = ledger_root C (db_entries d) \<and> b_committed_at b = now) \<and>
     ledger_ok C (st\<lparr>st_db := d\<rparr>)"

lemma insert_batch_spec:
  assumes C: "hex_ok C" "jsonb_ok jsonb" and inv: "ledger_ok C st" "cache_ok C st"
    and small: "entry_count st + length (eb_events batch) \<le> 2 ^ 64"
  shows "(\<exists>e c. insert_batch_and_compute_root C jsonb now st batch = Some (Err e, st_db st, c)) \<or>
    (\<exists>d c. insert_batch_and_compute_root C jsonb now st batch = Some (Ok (length (db_entries d), ledger_root C (db_entries d), now), d, c) \<and>
       inserted C now st batch d \<and> cache_for C (db_entries d) c)"
proof (cases "eb_events batch = []")
  case True
  then show ?thesis by (simp add: insert_batch_and_compute_root_def)
next
  case ne: False
  show ?thesis
  proof (cases "rbind (check_batch batch) (\<lambda>_. append_events C jsonb st (eb_id batch) now (rows_of st)
            (tip_hash (st_db st)) (max_seq (st_db st) + 1) (eb_events batch))")
    case (Inl e)
    then show ?thesis using ne by (simp add: insert_batch_and_compute_root_def)
  next
    case (Inr x)
    obtain rows hs where x: "x = (rows, hs)" by force
    from insert_batch_rows [OF C inv small Inr [unfolded x] ne] obtain new c where
      rows: "rows = rows_of st @ new" "new \<noteq> []" "\<forall>r\<in>set new. l_batch_id r = eb_id batch"
        "sorted_wrt (<) (map l_seq rows)" "\<forall>r\<in>set rows. 0 < l_seq r" "chain_ok C st GENESIS_HASH rows"
        "\<forall>r\<in>set rows. l_seq r \<le> max_seq (st_db st) + int (length (eb_events batch))"
        "\<forall>r\<in>set new. max_seq (st_db st) < l_seq r"
        "l_seq (last new) = max_seq (st_db st) + int (length (eb_events batch))" "length new = length (eb_events batch)"
      and root: "compute_root C rows hs (max_seq (st_db st) + int (length (eb_events batch))) (st_cache st) =
        Some (Ok (length rows, mth C Sha256 (leaf_bytes C (hashes_of rows))), c)" "cache_for C rows c" by blast
    let ?b = "\<lparr>b_batch_id = eb_id batch, b_first_seq = max_seq (st_db st) + 1,
      b_last_seq = max_seq (st_db st) + int (length (eb_events batch)),
      b_batch_root = ledger_root C rows, b_committed_at = now\<rparr>"
    let ?d = "(st_db st)\<lparr>db_entries := rows, db_batches := db_batches (st_db st) @ [?b]\<rparr>"
    show ?thesis
    proof (cases "eb_id batch \<in> b_batch_id ` set (db_batches (st_db st))")
      case True
      then show ?thesis using ne Inr x root by (simp add: insert_batch_and_compute_root_def Let_def)
    next
      case fresh: False
      have res: "insert_batch_and_compute_root C jsonb now st batch = Some (Ok (length rows, ledger_root C rows, now), ?d, c)"
        using ne Inr x root fresh by (simp add: insert_batch_and_compute_root_def Let_def ledger_root_def)
      have old: "\<forall>b\<in>set (db_batches (st_db st)). batch_ok C rows b"
        using inv(1) fresh rows(3,8) max_seq_ge [of _ "st_db st"] unfolding ledger_ok_def rows(1)
        by (auto intro!: batch_ok_extend [where m = "max_seq (st_db st)"])
      have none: "filter (\<lambda>r. l_batch_id r = eb_id batch) (rows_of st) = []"
        using inv(1) fresh unfolding ledger_ok_def filter_empty_conv by (metis image_subset_iff)
      have "filter (\<lambda>r. l_seq r \<le> b_last_seq ?b) rows = rows_of st @ new" using rows(7) by (simp add: rows(1))
      then have "batch_ok C rows ?b" unfolding batch_ok_def
        using rows(2,3,9) none by (intro exI [of _ "rows_of st"] exI [of _ new]) (simp add: rows(1))
      moreover have "chain_ok C (st\<lparr>st_db := ?d\<rparr>) GENESIS_HASH rows" using rows(6) by (simp cong: chain_ok_cong)
      moreover have "l_batch_id ` set rows \<subseteq> insert (eb_id batch) (b_batch_id ` set (db_batches (st_db st)))"
        using inv(1) rows(3) by (auto simp: ledger_ok_def rows(1))
      ultimately have "ledger_ok C (st\<lparr>st_db := ?d\<rparr>)"
        using inv(1) rows(4,5) old fresh head_ok_extend [of C "st_network st" "rows_of st" _ new] by (simp add: ledger_ok_def rows(1))
      then have "inserted C now st batch ?d" using fresh rows(1,10) by (auto simp: inserted_def)
      with res root(2) show ?thesis by auto
    qed
  qed
qed

section \<open>Every operation keeps the invariant\<close>

lemma ledger_ok_cong:
  "st_network st = st_network st' \<Longrightarrow> st_shard st = st_shard st' \<Longrightarrow> st_db st = st_db st' \<Longrightarrow> ledger_ok C st = ledger_ok C st'"
  by (simp add: ledger_ok_def chain_ok_cong [of st st'])

lemma ledger_ok_cache [simp]: "ledger_ok C (st\<lparr>st_cache := c\<rparr>) = ledger_ok C st"
  by (rule ledger_ok_cong) simp_all

lemma cache_ok_cache [simp]: "cache_ok C (st\<lparr>st_cache := c\<rparr>) = cache_for C (rows_of st) c"
  by (simp add: cache_ok_for)

lemma reset_ok [simp]: "ledger_ok C (reset_leaf_cache st) = ledger_ok C st" "cache_ok C (reset_leaf_cache st)"
  "st_db (reset_leaf_cache st) = st_db st"
  by (simp_all add: reset_leaf_cache_def cache_for_default)

lemma insert_head_ok:
  assumes "insert_signed_tree_head C head d = Ok d'" and "ledger_ok C (st\<lparr>st_db := d\<rparr>)"
    and "head_ok C (st_network st) (db_entries d) \<lparr>h_head = head, h_envelope = env\<rparr>"
  shows "ledger_ok C (st\<lparr>st_db := d', st_cache := c\<rparr>)"
    "db_entries d' = db_entries d" "db_batches d' = db_batches d" "db_cosigs d' = db_cosigs d"
    "\<exists>env. db_heads d' = db_heads d @ [\<lparr>h_head = head, h_envelope = env\<rparr>]"
proof -
  from assms(1) obtain e where d': "d' = d\<lparr>db_heads := db_heads d @ [\<lparr>h_head = head, h_envelope = e\<rparr>]\<rparr>"
    by (auto simp: insert_signed_tree_head_def rbind_eq_Inr split: if_splits)
  then show "db_entries d' = db_entries d" "db_batches d' = db_batches d" "db_cosigs d' = db_cosigs d"
    "\<exists>env. db_heads d' = db_heads d @ [\<lparr>h_head = head, h_envelope = env\<rparr>]" by simp_all
  have "chain_ok C (st\<lparr>st_db := d'\<rparr>) GENESIS_HASH (db_entries d) = chain_ok C (st\<lparr>st_db := d\<rparr>) GENESIS_HASH (db_entries d)"
    by (rule chain_ok_cong) simp_all
  then have "ledger_ok C (st\<lparr>st_db := d'\<rparr>)" using assms(2,3) unfolding d' by (simp add: ledger_ok_def head_ok_def)
  then show "ledger_ok C (st\<lparr>st_db := d', st_cache := c\<rparr>)" by (simp add: ledger_ok_cong)
qed

text \<open>What an accepted head records of the ledger after the commit.\<close>

definition records_head :: "crates \<Rightarrow> settlement \<Rightarrow> settlement \<Rightarrow> bool" where
  "records_head C st st' \<longleftrightarrow>
     (\<exists>h. db_heads (st_db st') = db_heads (st_db st) @ [h] \<and> sth_tree_size (h_head h) = of_nat (entry_count st') \<and>
        sth_root_hash (h_head h) = ledger_root C (rows_of st') \<and> sth_network_id (h_head h) = st_network st)"

text \<open>A new batch is stored: its rows after the old ones, its root the ledger's, its head over both.\<close>

definition stored_batch :: "crates \<Rightarrow> settlement \<Rightarrow> EventBatch \<Rightarrow> Commitment \<Rightarrow> settlement \<Rightarrow> bool" where
  "stored_batch C st batch c st' \<longleftrightarrow>
     eb_id batch \<notin> b_batch_id ` set (db_batches (st_db st)) \<and>
     (\<exists>new. rows_of st' = rows_of st @ new \<and> length new = length (eb_events batch)) \<and>
     (\<exists>b. db_batches (st_db st') = db_batches (st_db st) @ [b] \<and> b_batch_id b = eb_id batch \<and>
        b_batch_root b = ledger_root C (rows_of st')) \<and>
     cm_batch_id c = eb_id batch \<and> cm_proof c = as_bytes (ledger_root C (rows_of st')) \<and> records_head C st st' \<and>
     st_network st' = st_network st \<and> st_shard st' = st_shard st"

definition outcome_ok ::
  "crates \<Rightarrow> settlement \<Rightarrow> EventBatch \<Rightarrow> (SettlementError + Commitment) \<times> settlement \<Rightarrow> bool" where
  "outcome_ok C st batch res \<longleftrightarrow> ledger_ok C (snd res) \<and> cache_ok C (snd res) \<and>
     (case fst res of
        Inl e \<Rightarrow> st_db (snd res) = st_db st \<and> st_network (snd res) = st_network st \<and> st_shard (snd res) = st_shard st
      | Inr c \<Rightarrow> (snd res = st \<and> (\<exists>c'. get_commitment st (eb_id batch) = Ok c' \<and> cm_proof c = cm_proof c' \<and> cm_batch_id c = eb_id batch)) \<or>
          stored_batch C st batch c (snd res))"

lemma existing_commitment_cases:
  "(existing_commitment st bid = Ok None \<and> bid \<notin> b_batch_id ` set (db_batches (st_db st))) \<or>
   (\<exists>c. existing_commitment st bid = Ok (Some c) \<and> get_commitment st bid = Ok c \<and> cm_batch_id c = bid)"
proof (cases "find (\<lambda>b. b_batch_id b = bid) (db_batches (st_db st))")
  case None
  then have "bid \<notin> b_batch_id ` set (db_batches (st_db st))" by (auto simp: find_None_iff)
  with None show ?thesis by (simp add: existing_commitment_def get_commitment_def)
qed (simp add: existing_commitment_def get_commitment_def)

lemma stored_outcome:
  assumes d: "inserted C now st batch d" "cache_for C (db_entries d) c"
    and head: "insert_signed_tree_head C head d = Ok d'" "sth_tree_size head = of_nat (length (db_entries d))"
      "sth_root_hash head = ledger_root C (db_entries d)" "sth_network_id head = st_network st"
    and cm: "cm_batch_id cm = eb_id batch" "cm_proof cm = as_bytes (ledger_root C (db_entries d))"
  shows "outcome_ok C st batch (Ok cm, st\<lparr>st_db := d', st_cache := c\<rparr>)"
proof -
  have "head_ok C (st_network st) (db_entries d) \<lparr>h_head = head, h_envelope = env\<rparr>" for env
    using head by (auto simp: head_ok_def intro: exI [of _ "length (db_entries d)"])
  note H = insert_head_ok [OF head(1) _ this]
  have L: "ledger_ok C (st\<lparr>st_db := d\<rparr>)" using d(1) by (simp add: inserted_def)
  show ?thesis using d cm head(2-4) H [OF L]
    by (auto simp: outcome_ok_def stored_batch_def inserted_def records_head_def entry_count_def cache_ok_for)
qed

lemma sign_tree_head_fields:
  "sign_tree_head C key key_id tsz root net at = Ok head \<Longrightarrow>
     sth_tree_size head = tsz \<and> sth_root_hash head = root \<and> sth_network_id head = net"
  by (auto simp: sign_tree_head_def sign_tree_head_with_def rbind_eq_Inr Let_def)

lemma commit_outcome:
  assumes "hex_ok C" "jsonb_ok jsonb" "ledger_ok C st" "cache_ok C st" "entry_count st + length (eb_events batch) \<le> 2 ^ 64"
  shows "\<exists>res. commit C jsonb env now st batch = Some res \<and> outcome_ok C st batch res"
proof -
  consider (old) c where "existing_commitment st (eb_id batch) = Ok (Some c)" "get_commitment st (eb_id batch) = Ok c" "cm_batch_id c = eb_id batch"
    | (new) "existing_commitment st (eb_id batch) = Ok None" using existing_commitment_cases by blast
  then show ?thesis
  proof cases
    case new
    from insert_batch_spec [OF assms, of now] show ?thesis
    proof (elim disjE exE conjE)
      fix d c
      assume ins: "insert_batch_and_compute_root C jsonb now st batch = Some (Ok (length (db_entries d), ledger_root C (db_entries d), now), d, c)"
        and d: "inserted C now st batch d" "cache_for C (db_entries d) c"
      let ?r = "rbind (map_err (\<lambda>_. Storage ''signing key'') (load_signing_key_from_env C env)) (\<lambda>(key, key_id).
                     rbind (map_err (\<lambda>_. Storage ''signing'')
                       (sign_tree_head C key key_id (of_nat (length (db_entries d))) (ledger_root C (db_entries d)) (st_network st) now)) (\<lambda>head.
                     insert_signed_tree_head C head d))"
      show ?thesis
      proof (cases ?r)
        case (Inr d')
        then obtain key key_id head where head: "sign_tree_head C key key_id (of_nat (length (db_entries d))) (ledger_root C (db_entries d)) (st_network st) now = Ok head"
          "insert_signed_tree_head C head d = Ok d'" by (auto simp: rbind_eq_Inr map_err_eq_Inr)
        with stored_outcome [OF d head(2)] sign_tree_head_fields [OF head(1)] Inr new ins show ?thesis
          by (simp add: commit_def)
      qed (use assms new ins in \<open>simp add: commit_def outcome_ok_def reset_leaf_cache_def cache_for_default\<close>)
    qed (use assms new in \<open>simp add: commit_def outcome_ok_def reset_leaf_cache_def cache_for_default\<close>)
  qed (use assms in \<open>simp add: commit_def outcome_ok_def\<close>)
qed

lemma finalize_outcome:
  assumes "hex_ok C" "jsonb_ok jsonb" "ledger_ok C st" "cache_ok C st" "entry_count st + length (eb_events batch) \<le> 2 ^ 64"
  shows "\<exists>res. finalize C jsonb now st batch created key_id sg vk = Some res \<and> outcome_ok C st batch res"
proof -
  consider (old) c where "existing_commitment st (eb_id batch) = Ok (Some c)" "get_commitment st (eb_id batch) = Ok c" "cm_batch_id c = eb_id batch"
    | (new) "existing_commitment st (eb_id batch) = Ok None" using existing_commitment_cases by blast
  then show ?thesis
  proof cases
    case new
    from insert_batch_spec [OF assms, of now] show ?thesis
    proof (elim disjE exE conjE)
      fix d c
      assume ins: "insert_batch_and_compute_root C jsonb now st batch = Some (Ok (length (db_entries d), ledger_root C (db_entries d), now), d, c)"
        and d: "inserted C now st batch d" "cache_for C (db_entries d) c"
      let ?h = "\<lparr>sth_tree_size = of_nat (length (db_entries d)), sth_root_hash = ledger_root C (db_entries d), sth_network_id = st_network st,
                      sth_signing_key_id = key_id, sth_signature = sg, sth_created_at = created,
                      sth_envelope = envelope_current SETTLEMENT_STH\<rparr>"
      show ?thesis
      proof (cases "verify_tree_head C vk ?h")
        case True
        show ?thesis
        proof (cases "insert_signed_tree_head C ?h d")
          case (Inr d')
          with stored_outcome [OF d Inr] True new ins show ?thesis by (simp add: finalize_def)
        qed (use True assms new ins in \<open>simp add: finalize_def outcome_ok_def reset_leaf_cache_def cache_for_default\<close>)
      qed (use assms new ins in \<open>simp add: finalize_def outcome_ok_def reset_leaf_cache_def cache_for_default\<close>)
    qed (use assms new in \<open>simp add: finalize_def outcome_ok_def reset_leaf_cache_def cache_for_default\<close>)
  qed (use assms in \<open>simp add: finalize_def outcome_ok_def\<close>)
qed

lemma prune_row_same [simp]:
  "l_seq (prune_row now cutoff r) = l_seq r" "l_entry_hash (prune_row now cutoff r) = l_entry_hash r"
  "l_batch_id (prune_row now cutoff r) = l_batch_id r" "l_envelope (prune_row now cutoff r) = l_envelope r"
  by (simp_all add: prune_row_def)

lemma prune_chain: "chain_ok C st prev rows \<Longrightarrow> chain_ok C st prev (map (prune_row now cutoff) rows)"
  by (induction rows arbitrary: prev)
    (auto simp: row_intact_def entry_content_intact_def payload_matches_def row_content_def prune_row_def)

lemma prune_root: "ledger_root C (map (prune_row now cutoff) rows) = ledger_root C rows"
  by (simp add: ledger_root_def comp_def)

lemma prune_batch:
  assumes "batch_ok C rows b"
  shows "batch_ok C (map (prune_row now cutoff) rows) b"
proof -
  let ?p = "prune_row now cutoff"
  obtain pre mid where pm: "filter (\<lambda>r. l_seq r \<le> b_last_seq b) rows = pre @ mid" "mid \<noteq> []"
    "filter (\<lambda>r. l_batch_id r = b_batch_id b) rows = mid" "l_seq (last mid) = b_last_seq b" "b_batch_root b = ledger_root C (pre @ mid)"
    using assms by (auto simp: batch_ok_def)
  then show ?thesis unfolding batch_ok_def
    by (intro exI [of _ "map ?p pre"] exI [of _ "map ?p mid"])
      (simp add: filter_map comp_def last_map prune_root flip: map_append)
qed

lemma prune_keeps:
  assumes "ledger_ok C st" "cache_ok C st" "prune_payloads_older_than now cutoff st = (n, st')"
  shows "ledger_ok C st'" "cache_ok C st'" "db_batches (st_db st') = db_batches (st_db st)"
    "hashes_of (rows_of st') = hashes_of (rows_of st)"
proof -
  let ?p = "prune_row now cutoff"
  have st': "st' = st\<lparr>st_db := (st_db st)\<lparr>db_entries := map ?p (rows_of st)\<rparr>\<rparr>"
    using assms(3) by (simp add: prune_payloads_older_than_def)
  have "chain_ok C st' GENESIS_HASH (rows_of st') = chain_ok C st GENESIS_HASH (rows_of st')"
    by (rule chain_ok_cong) (simp_all add: st')
  moreover have "head_ok C net rows hd \<Longrightarrow> head_ok C net (map ?p rows) hd" for net rows hd
    by (auto simp: head_ok_def take_map [of _ ?p] prune_root)
  ultimately show "ledger_ok C st'" using assms(1) prune_chain prune_batch
    by (auto simp: ledger_ok_def st' comp_def image_image)
  show "cache_ok C st'" using assms(2) by (simp add: cache_ok_def st' take_map comp_def)
  show "db_batches (st_db st') = db_batches (st_db st)" "hashes_of (rows_of st') = hashes_of (rows_of st)"
    by (simp_all add: st' comp_def)
qed

lemma ensure_cache_spec:
  assumes "hex_ok C" "ledger_ok C st" "cache_ok C st" "entry_count st \<le> 2 ^ 64"
  shows "\<exists>c. ensure_cache_covers C n st = (Ok (), st\<lparr>st_cache := c\<rparr>) \<and> cache_for C (rows_of st) c \<and>
    (n \<le> entry_count st \<longrightarrow> n \<le> length (lc_leaves c))"
proof -
  have sorted: "by_seq (st_db st) = rows_of st" using assms(2) by (simp add: by_seq_def by_seq_sorted ledger_ok_def)
  have texts: "\<forall>h\<in>set (hashes_of (rows_of st)). hash_text C h"
    using assms(2) chain_ok_hash_text by (fastforce simp: ledger_ok_def)
  let ?hs = "hashes_of (take n (rows_of st))"
  have "\<exists>c'. cache_rebuild C (st_cache st) ?hs = (Ok (), c') \<and> lc_leaves c' = ?hs \<and>
    imt_inv C Sha256 (leaf_bytes C (lc_leaves c')) (lc_tree c')"
    using texts assms(4) by (intro cache_rebuild_spec [OF assms(1)]) (auto simp: entry_count_def dest: in_set_takeD)
  then obtain c' where c': "cache_rebuild C (st_cache st) ?hs = (Ok (), c')" "lc_leaves c' = ?hs"
    "imt_inv C Sha256 (leaf_bytes C (lc_leaves c')) (lc_tree c')" by blast
  have full: "cache_for C (rows_of st) c'" using c'(2,3) unfolding cache_for_def
    by (intro conjI exI [of _ "min n (length (rows_of st))"]) (auto simp: min_def)
  have same: "st = st\<lparr>st_cache := st_cache st\<rparr>" by simp
  show ?thesis
  proof (cases "length ?hs > length (lc_leaves (st_cache st))")
    case True
    then show ?thesis using c' full assms(3) same
      by (auto simp: ensure_cache_covers_def Let_def sorted cache_ok_for entry_count_def)
  next
    case False
    then have "ensure_cache_covers C n st = (Ok (), st\<lparr>st_cache := st_cache st\<rparr>)"
      by (auto simp: ensure_cache_covers_def Let_def sorted)
    with False assms(3) show ?thesis unfolding cache_ok_for by (intro exI [of _ "st_cache st"]) (auto simp: entry_count_def)
  qed
qed

section \<open>Committed batches verify\<close>

lemma filter_seq_prefix:
  "sorted_wrt (<) (map l_seq rows) \<Longrightarrow> \<exists>rest. rows = filter (\<lambda>r. l_seq r \<le> (m :: int)) rows @ rest"
proof (induction rows)
  case (Cons r rows)
  show ?case
  proof (cases "l_seq r \<le> m")
    case False
    then have "filter (\<lambda>r. l_seq r \<le> m) rows = []" using Cons.prems by (fastforce simp: filter_empty_conv)
    with False show ?thesis by simp
  qed (use Cons in auto)
qed simp

lemma batch_verifies:
  assumes "hex_ok C" "rows_ok C st" "get_commitment st bid = Ok c"
    and "\<forall>b\<in>set (db_batches (st_db st)). b_batch_id b = bid \<longrightarrow> batch_ok C (rows_of st) b"
  shows "verify C st c = Ok True"
proof -
  from assms(3) obtain b where b: "find (\<lambda>b. b_batch_id b = bid) (db_batches (st_db st)) = Some b"
    "c = \<lparr>cm_batch_id = bid, cm_proof = as_bytes (b_batch_root b), cm_committed_at = b_committed_at b\<rparr>"
    by (auto simp: get_commitment_def split: option.splits)
  then have "b_batch_id b = bid" "b \<in> set (db_batches (st_db st))" by (auto simp: find_Some_iff)
  then obtain pre mid where pm: "filter (\<lambda>r. l_seq r \<le> b_last_seq b) (rows_of st) = pre @ mid" "mid \<noteq> []"
      "filter (\<lambda>r. l_batch_id r = bid) (rows_of st) = mid" "b_batch_root b = ledger_root C (pre @ mid)"
    using assms(4) by (auto simp: batch_ok_def)
  have sorted: "by_seq (st_db st) = rows_of st" using assms(2) by (simp add: by_seq_def by_seq_sorted rows_ok_def)
  obtain rest where rows: "rows_of st = pre @ mid @ rest"
    using filter_seq_prefix [of "rows_of st" "b_last_seq b"] assms(2) pm(1) by (auto simp: rows_ok_def)
  have chain: "chain_ok C st GENESIS_HASH (pre @ mid @ rest)" using assms(2) rows by (simp add: rows_ok_def)
  obtain r rs where mid: "mid = r # rs" using pm(2) by (cases mid) auto
  have "chain_ok C st (chain_tip GENESIS_HASH pre) mid" using chain by (simp add: chain_ok_append)
  moreover then have "l_prev_hash r = chain_tip GENESIS_HASH pre" by (auto simp: mid row_intact_def)
  ultimately obtain owned where owned: "read_envelopes C (r # rs) = Ok owned" "verify_chain C st (l_prev_hash r) owned"
    unfolding chain_ok_def mid by auto
  have "\<forall>h\<in>set (hashes_of (pre @ mid)). hash_text C h" using chain_ok_hash_text [OF chain] by auto
  from decode_hash_texts [OF assms(1) this]
  have root: "mth_of_hex_hashes C Sha256 (hashes_of (pre @ mid)) = Ok (mth C Sha256 (leaf_bytes C (hashes_of (pre @ mid))))"
    by (simp add: mth_of_hex_hashes_def)
  show ?thesis
    unfolding verify_def using b pm(1,3,4) owned root
    by (simp add: sorted mid Let_def ledger_root_def del: read_envelopes.simps)
qed

lemma committed_batch_verifies:
  assumes "hex_ok C" "ledger_ok C st" "get_commitment st bid = Ok c"
  shows "verify C st c = Ok True"
  using batch_verifies [OF assms(1) ledger_ok_rows assms(3)] assms(2) by (simp add: ledger_ok_def)

lemma intact_views:
  "chain_ok C st prev rows \<Longrightarrow> \<forall>v\<in>set (view_entries C st prev rows). v_chain_intact v"
  by (induction rows arbitrary: prev) auto

lemma get_commitment_append:
  assumes "get_commitment st i = Ok c" "db_batches (st_db st') = db_batches (st_db st) @ bs"
  shows "get_commitment st' i = Ok c"
proof -
  have "find P (xs @ ys) = (case find P xs of None \<Rightarrow> find P ys | Some x \<Rightarrow> Some x)" for P and xs ys :: "batch_row list"
    by (induction xs) auto
  with assms show ?thesis by (auto simp: get_commitment_def split: option.splits)
qed

lemma stored_batch_get:
  assumes "stored_batch C st batch c st'"
  shows "\<exists>c'. get_commitment st' (eb_id batch) = Ok c' \<and> cm_proof c' = cm_proof c"
proof -
  obtain b where b: "db_batches (st_db st') = db_batches (st_db st) @ [b]" "b_batch_id b = eb_id batch"
    "b_batch_root b = ledger_root C (rows_of st')" "cm_proof c = as_bytes (ledger_root C (rows_of st'))"
    "eb_id batch \<notin> b_batch_id ` set (db_batches (st_db st))"
    using assms by (auto simp: stored_batch_def)
  have "find (\<lambda>b. b_batch_id b = i) (xs @ [x]) = Some x" if "i \<notin> b_batch_id ` set xs" "b_batch_id x = i" for i xs x
    using that by (induction xs) auto
  from this [OF b(5,2)] show ?thesis by (simp add: get_commitment_def b(1,3,4))
qed

lemma verify_proof_only: "cm_batch_id c = cm_batch_id c' \<Longrightarrow> cm_proof c = cm_proof c' \<Longrightarrow> verify C st c = verify C st c'"
  unfolding verify_def by (simp only:)

lemma get_commitment_id: "get_commitment st i = Ok c \<Longrightarrow> cm_batch_id c = i"
  by (auto simp: get_commitment_def split: option.splits)

lemma outcome_verifies:
  assumes "hex_ok C" "outcome_ok C st batch (Ok c, st')"
  shows "verify C st' c = Ok True"
proof -
  from assms(2) have "(\<exists>c'. get_commitment st' (eb_id batch) = Ok c' \<and> cm_proof c' = cm_proof c) \<and> cm_batch_id c = eb_id batch \<and> ledger_ok C st'"
    using stored_batch_get by (fastforce simp: outcome_ok_def stored_batch_def)
  then obtain c' where c': "get_commitment st' (eb_id batch) = Ok c'" "cm_proof c' = cm_proof c" "cm_batch_id c = eb_id batch" "ledger_ok C st'"
    by blast
  have "verify C st' c = verify C st' c'" using c' get_commitment_id [OF c'(1)] by (intro verify_proof_only) auto
  then show ?thesis using committed_batch_verifies [OF assms(1) c'(4,1)] by simp
qed

section \<open>The ledger as a state machine\<close>

text \<open>The operations of a running node, each run to its end, and its restart, which connects with an empty
  cache. A commit runs while the tree has room for a 64-bit leaf count. A request that is dropped half
  way is not one of these steps; \<open>node_step\<close> below adds it.\<close>

inductive ledger_step :: "crates \<Rightarrow> (json \<Rightarrow> json) \<Rightarrow> settlement \<Rightarrow> settlement \<Rightarrow> bool" for C jsonb where
  step_commit: "entry_count st + length (eb_events batch) \<le> 2 ^ 64 \<Longrightarrow>
    commit C jsonb env now st batch = Some (r, st') \<Longrightarrow> ledger_step C jsonb st st'"
| step_finalize: "entry_count st + length (eb_events batch) \<le> 2 ^ 64 \<Longrightarrow>
    finalize C jsonb now st batch created key_id sg vk = Some (r, st') \<Longrightarrow> ledger_step C jsonb st st'"
| step_prune: "prune_payloads_older_than now cutoff st = (n, st') \<Longrightarrow> ledger_step C jsonb st st'"
| step_root: "root_at C n st = Some (r, st') \<Longrightarrow> ledger_step C jsonb st st'"
| step_inclusion: "serve_inclusion_proof C i n st = Some (r, st') \<Longrightarrow> ledger_step C jsonb st st'"
| step_consistency: "serve_consistency_proof C m n st = Some (r, st') \<Longrightarrow> ledger_step C jsonb st st'"
| step_cosign: "store_witness_cosignature C shard cosig (db_cosigs (st_db st)) = Ok rows \<Longrightarrow>
    ledger_step C jsonb st (st\<lparr>st_db := (st_db st)\<lparr>db_cosigs := rows\<rparr>\<rparr>)"
| step_restart: "ledger_step C jsonb st (reset_leaf_cache st)"

definition settled :: "crates \<Rightarrow> settlement \<Rightarrow> bool" where
  "settled C st \<longleftrightarrow> ledger_ok C st \<and> cache_ok C st \<and> entry_count st \<le> 2 ^ 64"

lemma outcome_settled:
  assumes "outcome_ok C st batch (r, st')" "settled C st" "entry_count st + length (eb_events batch) \<le> 2 ^ 64"
  shows "settled C st' \<and> (\<exists>bs. db_batches (st_db st') = db_batches (st_db st) @ bs) \<and>
    (\<exists>new. hashes_of (rows_of st') = hashes_of (rows_of st) @ new) \<and> st_network st' = st_network st"
  using assms by (auto simp: outcome_ok_def settled_def stored_batch_def entry_count_def split: sum.splits)

lemma cached_read_state:
  assumes "hex_ok C" "settled C st"
  shows "(\<exists>c. snd (ensure_cache_covers C n st) = st\<lparr>st_cache := c\<rparr> \<and> cache_for C (rows_of st) c)"
  using ensure_cache_spec [of C st n] assms by (auto simp: settled_def)

lemma cached_read_settled:
  assumes "hex_ok C" "settled C st" "st' = snd (ensure_cache_covers C n st)"
  shows "settled C st' \<and> st_db st' = st_db st \<and> st_network st' = st_network st"
  using cached_read_state [OF assms(1,2), of n] assms(2,3) by (auto simp: settled_def entry_count_def)

lemma cached_read_cases:
  "root_at C n st = Some (r1, st') \<Longrightarrow> st' = snd (ensure_cache_covers C n st)"
  "serve_inclusion_proof C i n st = Some (r2, st') \<Longrightarrow> st' = snd (ensure_cache_covers C n st)"
  "serve_consistency_proof C m n st = Some (r3, st') \<Longrightarrow> st' = snd (ensure_cache_covers C n st)"
  by (auto simp: root_at_def serve_inclusion_proof_def serve_consistency_proof_def split: prod.splits sum.splits if_splits)

text \<open>One step keeps the invariant, every stored commitment and every stored entry hash.\<close>

lemma step_keeps:
  assumes "ledger_step C jsonb st st'" "hex_ok C" "jsonb_ok jsonb" "settled C st"
  shows "settled C st' \<and> (\<exists>bs. db_batches (st_db st') = db_batches (st_db st) @ bs) \<and>
    (\<exists>new. hashes_of (rows_of st') = hashes_of (rows_of st) @ new) \<and> st_network st' = st_network st"
  using assms(1)
proof cases
  case (step_commit batch env now r)
  then obtain res where "commit C jsonb env now st batch = Some res" "outcome_ok C st batch res"
    using commit_outcome [OF assms(2,3)] assms(4) unfolding settled_def by blast
  with step_commit show ?thesis using outcome_settled assms(4) by simp
next
  case (step_finalize batch now created key_id sg vk r)
  then obtain res where "finalize C jsonb now st batch created key_id sg vk = Some res" "outcome_ok C st batch res"
    using finalize_outcome [OF assms(2,3)] assms(4) unfolding settled_def by blast
  with step_finalize show ?thesis using outcome_settled assms(4) by simp
next
  case (step_prune now cutoff n)
  then show ?thesis using prune_keeps [OF _ _ step_prune, of C] assms(4)
    by (auto simp: settled_def prune_payloads_older_than_def entry_count_def)
next
  case (step_root n r)
  from cached_read_settled [OF assms(2,4) cached_read_cases(1) [OF this]] show ?thesis by simp
next
  case (step_inclusion i n r)
  from cached_read_settled [OF assms(2,4) cached_read_cases(2) [OF this]] show ?thesis by simp
next
  case (step_consistency m n r)
  from cached_read_settled [OF assms(2,4) cached_read_cases(3) [OF this]] show ?thesis by simp
next
  case (step_cosign shard cosig rows)
  have "chain_ok C st' GENESIS_HASH (rows_of st) = chain_ok C st GENESIS_HASH (rows_of st)"
    by (rule chain_ok_cong) (simp_all add: step_cosign)
  then show ?thesis using assms(4) by (simp add: step_cosign(1) settled_def ledger_ok_def cache_ok_def entry_count_def)
next
  case step_restart
  then show ?thesis using assms(4) by (simp add: settled_def entry_count_def) (simp add: reset_leaf_cache_def)
qed

section \<open>What survives a dropped request\<close>

text \<open>A later state: the tables are still sound, the batches of before are all there in their order, and
  every batch whose root was right has the right root.\<close>

definition tables_grown :: "crates \<Rightarrow> settlement \<Rightarrow> settlement \<Rightarrow> bool" where
  "tables_grown C st st' \<longleftrightarrow> rows_ok C st' \<and> (\<exists>bs. db_batches (st_db st') = db_batches (st_db st) @ bs) \<and>
     (\<forall>b\<in>set (db_batches (st_db st)). batch_ok C (rows_of st) b \<longrightarrow> batch_ok C (rows_of st') b) \<and>
     st_network st' = st_network st \<and> st_shard st' = st_shard st"

lemma grown_trans: "tables_grown C a b \<Longrightarrow> tables_grown C b c \<Longrightarrow> tables_grown C a c"
  unfolding tables_grown_def by (metis append_assoc Un_iff set_append)

lemma grown_same:
  assumes "rows_ok C st" "st_network st' = st_network st" "st_shard st' = st_shard st" "rows_of st' = rows_of st"
    "db_batches (st_db st') = db_batches (st_db st)"
  shows "tables_grown C st st'"
  using assms rows_ok_cong [of st st' C] by (simp add: tables_grown_def)

text \<open>A batch inserted with whatever cache: the rows are right, its root need not be.\<close>

lemma insert_batch_grown:
  assumes C: "hex_ok C" "jsonb_ok jsonb" and inv: "rows_ok C st"
    and ins: "insert_batch_and_compute_root C jsonb now st batch = Some (Ok x, d, c)"
  shows "tables_grown C st (st\<lparr>st_db := d\<rparr>)"
proof -
  from ins obtain rows hs where ne: "eb_events batch \<noteq> []"
    and app: "rbind (check_batch batch) (\<lambda>_. append_events C jsonb st (eb_id batch) now (rows_of st)
            (tip_hash (st_db st)) (max_seq (st_db st) + 1) (eb_events batch)) = Ok (rows, hs)"
    and fresh: "eb_id batch \<notin> b_batch_id ` set (db_batches (st_db st))"
    and d: "db_entries d = rows" "\<exists>b. db_batches d = db_batches (st_db st) @ [b] \<and> b_batch_id b = eb_id batch"
    by (auto simp: insert_batch_and_compute_root_def Let_def split: if_splits sum.splits option.splits)
  from append_rows [OF C inv app ne] obtain new where
    rows: "rows = rows_of st @ new" "\<forall>r\<in>set new. l_batch_id r = eb_id batch"
      "sorted_wrt (<) (map l_seq rows)" "\<forall>r\<in>set rows. 0 < l_seq r" "chain_ok C st GENESIS_HASH rows"
      "\<forall>r\<in>set new. max_seq (st_db st) < l_seq r" by blast
  have "batch_ok C rows b" if "b \<in> set (db_batches (st_db st))" "batch_ok C (rows_of st) b" for b
    unfolding rows(1) using that fresh rows(2,6) max_seq_ge [of _ "st_db st"]
    by (intro batch_ok_extend [where m = "max_seq (st_db st)"]) auto
  moreover have "chain_ok C (st\<lparr>st_db := d\<rparr>) GENESIS_HASH rows" using rows(5) by (simp cong: chain_ok_cong)
  moreover have "l_batch_id ` set rows \<subseteq> insert (eb_id batch) (b_batch_id ` set (db_batches (st_db st)))"
    using inv rows(2) by (auto simp: rows_ok_def rows(1))
  ultimately show ?thesis using inv d fresh rows(3,4) by (auto simp: tables_grown_def rows_ok_def)
qed

lemma insert_head_tables:
  "insert_signed_tree_head C head d = Ok d' \<Longrightarrow> db_entries d' = db_entries d \<and> db_batches d' = db_batches d"
  by (auto simp: insert_signed_tree_head_def rbind_eq_Inr split: if_splits)

lemma stored_grown:
  assumes "hex_ok C" "jsonb_ok jsonb" "rows_ok C st"
    and "insert_batch_and_compute_root C jsonb now st batch = Some (Ok x, d, c)" "insert_signed_tree_head C head d = Ok d'"
  shows "tables_grown C st (st\<lparr>st_db := d', st_cache := c'\<rparr>)"
proof -
  note g = insert_batch_grown [OF assms(1-4)]
  then have "tables_grown C (st\<lparr>st_db := d\<rparr>) (st\<lparr>st_db := d', st_cache := c'\<rparr>)"
    using insert_head_tables [OF assms(5)] by (intro grown_same) (simp_all add: tables_grown_def)
  with g show ?thesis by (rule grown_trans)
qed

lemma kept_or_stored:
  "commit C jsonb env now st batch = Some (r, st') \<or> finalize C jsonb now st batch created key_id sg vk = Some (r, st') \<Longrightarrow>
   st' = st \<or> st' = reset_leaf_cache st \<or>
   (\<exists>x d c head d'. insert_batch_and_compute_root C jsonb now st batch = Some (Ok x, d, c) \<and>
      insert_signed_tree_head C head d = Ok d' \<and> st' = st\<lparr>st_db := d', st_cache := c\<rparr>)"
  by (elim disjE) (auto simp: commit_def finalize_def Let_def rbind_eq_Inr map_err_eq_Inr
      split: sum.splits option.splits if_splits, blast+)

lemma provider_grown:
  assumes "hex_ok C" "jsonb_ok jsonb" "rows_ok C st"
    and "commit C jsonb env now st batch = Some (r, st') \<or> finalize C jsonb now st batch created key_id sg vk = Some (r, st')"
  shows "tables_grown C st st'"
  using kept_or_stored [OF assms(4)] stored_grown [OF assms(1-3)] assms(3)
  by (elim disjE exE conjE) (simp_all add: grown_same reset_leaf_cache_def)

lemma prune_grown:
  assumes "rows_ok C st" "prune_payloads_older_than now cutoff st = (n, st')"
  shows "tables_grown C st st'"
proof -
  have st': "st' = st\<lparr>st_db := (st_db st)\<lparr>db_entries := map (prune_row now cutoff) (rows_of st)\<rparr>\<rparr>"
    using assms(2) by (simp add: prune_payloads_older_than_def)
  have "chain_ok C st' GENESIS_HASH (rows_of st') = chain_ok C st GENESIS_HASH (rows_of st')"
    by (rule chain_ok_cong) (simp_all add: st')
  then have "rows_ok C st'" using assms(1) prune_chain by (auto simp: rows_ok_def st' comp_def image_image)
  then show ?thesis using prune_batch by (auto simp: tables_grown_def st')
qed

lemma cache_read_db: "st_db (snd (ensure_cache_covers C n st)) = st_db st"
  "st_network (snd (ensure_cache_covers C n st)) = st_network st" "st_shard (snd (ensure_cache_covers C n st)) = st_shard st"
  by (simp_all add: ensure_cache_covers_def Let_def split: prod.splits)

text \<open>A step that ran to its end keeps the tables sound whatever the cache holds.\<close>

lemma completed_grown:
  assumes "ledger_step C jsonb st st'" "hex_ok C" "jsonb_ok jsonb" "rows_ok C st"
  shows "tables_grown C st st'"
  using assms(1)
proof cases
  case step_commit
  then show ?thesis using provider_grown [OF assms(2-4)] by blast
next
  case step_finalize
  then show ?thesis using provider_grown [OF assms(2-4)] by blast
next
  case step_prune
  with prune_grown [OF assms(4)] show ?thesis .
qed (use assms(4) in \<open>auto dest!: cached_read_cases simp: cache_read_db reset_leaf_cache_def intro!: grown_same\<close>)

text \<open>The steps of a node whose requests may also be dropped: a client that closes its connection ends
  the handler at the \<open>await\<close> it stands at, after the cache has been extended.\<close>

inductive node_step :: "crates \<Rightarrow> (json \<Rightarrow> json) \<Rightarrow> settlement \<Rightarrow> settlement \<Rightarrow> bool" for C jsonb where
  step_completed: "ledger_step C jsonb st st' \<Longrightarrow> node_step C jsonb st st'"
| step_dropped: "commit_cancelled C jsonb now st batch = Some st' \<Longrightarrow> node_step C jsonb st st'"

lemma node_step_grown:
  assumes "node_step C jsonb st st'" "hex_ok C" "jsonb_ok jsonb" "rows_ok C st"
  shows "tables_grown C st st'"
  using assms(1)
proof cases
  case step_completed
  with completed_grown assms(2-4) show ?thesis by blast
qed (use assms(4) in \<open>auto simp: commit_cancelled_def split: option.splits intro: grown_same\<close>)

lemma node_run_grown:
  assumes "(node_step C jsonb)\<^sup>*\<^sup>* st st'" "hex_ok C" "jsonb_ok jsonb" "rows_ok C st"
  shows "tables_grown C st st'"
  using assms(1)
proof (induction rule: rtranclp_induct)
  case (step y z)
  then have "rows_ok C y" by (simp add: tables_grown_def)
  with step node_step_grown assms(2,3) show ?case by (blast intro: grown_trans)
qed (use assms(4) in \<open>simp add: grown_same\<close>)

lemma durable_commitment:
  assumes "hex_ok C" "jsonb_ok jsonb" "rows_ok C st" "(node_step C jsonb)\<^sup>*\<^sup>* st st'" "get_commitment st bid = Ok c"
  shows "get_commitment st' bid = Ok c" "ledger_ok C st \<Longrightarrow> verify C st' c = Ok True"
proof -
  have g: "tables_grown C st st'" using node_run_grown [OF assms(4,1-3)] .
  then show get: "get_commitment st' bid = Ok c" using get_commitment_append [OF assms(5)] by (auto simp: tables_grown_def)
  obtain b where b: "b \<in> set (db_batches (st_db st))" "b_batch_id b = bid"
    using assms(5) by (auto simp: get_commitment_def find_Some_iff split: option.splits) (metis nth_mem)
  obtain bs where bs: "db_batches (st_db st') = db_batches (st_db st) @ bs" "distinct (map b_batch_id (db_batches (st_db st) @ bs))"
    using g by (auto simp: tables_grown_def rows_ok_def)
  have only: "x = b" if "x \<in> set (db_batches (st_db st'))" "b_batch_id x = bid" for x
    using that b bs by (metis UnCI distinct_map inj_onD set_append)
  assume "ledger_ok C st"
  then have "batch_ok C (rows_of st') b" using g b(1) by (simp add: ledger_ok_def tables_grown_def)
  then show "verify C st' c = Ok True" using batch_verifies [OF assms(1) _ get] g only by (auto simp: tables_grown_def)
qed

section \<open>The contract of a settlement provider\<close>

text \<open>\<open>SettlementProvider\<close>: whatever runs in between, a commitment that can be fetched can be fetched
  again and verifies.\<close>

locale settlement_provider =
  fixes ok :: "'s \<Rightarrow> bool" and step :: "'s \<Rightarrow> 's \<Rightarrow> bool" and fetch :: "'s \<Rightarrow> 'i \<Rightarrow> 'e + 'c" and check :: "'s \<Rightarrow> 'c \<Rightarrow> 'e + bool"
  assumes step_ok: "ok s \<Longrightarrow> step s s' \<Longrightarrow> ok s'"
    and step_fetch: "ok s \<Longrightarrow> step s s' \<Longrightarrow> fetch s i = Ok c \<Longrightarrow> fetch s' i = Ok c"
    and fetch_check: "ok s \<Longrightarrow> fetch s i = Ok c \<Longrightarrow> check s c = Ok True"
begin

lemma run_ok: "step\<^sup>*\<^sup>* s s' \<Longrightarrow> ok s \<Longrightarrow> ok s'"
  by (induction rule: rtranclp_induct) (auto intro: step_ok)

lemma run_fetch: "step\<^sup>*\<^sup>* s s' \<Longrightarrow> ok s \<Longrightarrow> fetch s i = Ok c \<Longrightarrow> fetch s' i = Ok c"
  by (induction rule: rtranclp_induct) (auto intro: step_fetch run_ok)

lemma durable: "step\<^sup>*\<^sup>* s s' \<Longrightarrow> ok s \<Longrightarrow> fetch s i = Ok c \<Longrightarrow> fetch s' i = Ok c \<and> check s' c = Ok True"
  using run_fetch run_ok fetch_check by blast

end

interpretation pg: settlement_provider
  "\<lambda>st. hex_ok C \<and> jsonb_ok jsonb \<and> settled C st" "ledger_step C jsonb" get_commitment "verify C" for C jsonb
proof unfold_locales
  fix st st' :: settlement and i c
  assume ok: "hex_ok C \<and> jsonb_ok jsonb \<and> settled C st"
  then show "get_commitment st i = Ok c \<Longrightarrow> verify C st c = Ok True"
    using committed_batch_verifies by (auto simp: settled_def)
  assume step: "ledger_step C jsonb st st'"
  from step_keeps [OF step] ok show "hex_ok C \<and> jsonb_ok jsonb \<and> settled C st'" by simp
  from step_keeps [OF step] ok obtain bs where "db_batches (st_db st') = db_batches (st_db st) @ bs" by auto
  then show "get_commitment st i = Ok c \<Longrightarrow> get_commitment st' i = Ok c" using get_commitment_append by blast
qed

definition empty_db :: ledger_db where
  "empty_db = \<lparr>db_entries = [], db_batches = [], db_heads = [], db_cosigs = []\<rparr>"

definition fresh_node :: "str \<Rightarrow> settlement" where
  "fresh_node network = \<lparr>st_network = network, st_shard = ''core'', st_db = empty_db, st_cache = cache_default\<rparr>"

lemma fresh_settled: "settled C (fresh_node network)"
  by (simp add: settled_def fresh_node_def ledger_ok_def empty_db_def cache_ok_for cache_for_default entry_count_def)

lemma reachable_settled:
  assumes "hex_ok C" "jsonb_ok jsonb" "(ledger_step C jsonb)\<^sup>*\<^sup>* (fresh_node network) st"
  shows "settled C st"
  using pg.run_ok [OF assms(3)] assms(1,2) fresh_settled by blast

lemma reachable_rows:
  assumes "hex_ok C" "jsonb_ok jsonb" "(node_step C jsonb)\<^sup>*\<^sup>* (fresh_node network) st"
  shows "rows_ok C st"
  using node_run_grown [OF assms(3,1,2)] ledger_ok_rows fresh_settled by (auto simp: tables_grown_def settled_def)

lemma completed_run: "(ledger_step C jsonb)\<^sup>*\<^sup>* st st' \<Longrightarrow> (node_step C jsonb)\<^sup>*\<^sup>* st st'"
  by (erule rtranclp_mono [THEN predicate2D, rotated]) (auto intro: step_completed)

section \<open>Properties\<close>

text \<open>C2. The ledger's invariant. In every state a node reaches from an empty database by committing,
  finalizing, pruning, serving proofs, storing cosignatures and restarting, also when commits are dropped half
  way, sequence numbers increase, batch ids are unique and the hash chain is intact from the genesis
  hash. When no commit was dropped, every batch root and every tree head is moreover the Merkle root of the
  ledger's prefix it names, and the leaf cache is a prefix of the ledger.\<close>

theorem ledger_invariant:
  assumes "hex_ok C" and "jsonb_ok jsonb" and "(node_step C jsonb)\<^sup>*\<^sup>* (fresh_node network) st"
  shows "rows_ok C st \<and> ((ledger_step C jsonb)\<^sup>*\<^sup>* (fresh_node network) st \<longrightarrow> ledger_ok C st \<and> cache_ok C st)"
  using reachable_rows [OF assms] reachable_settled [OF assms(1,2)] by (auto simp: settled_def)

text \<open>Witness: an empty node commits a profile edit.\<close>

definition demo_ledger_event :: ProtocolEvent where
  "demo_ledger_event = (demo_profile_event demo_payload)\<lparr>ev_issuer := ''identity:x'', ev_identity_chain := None\<rparr>"

definition demo_batch :: EventBatch where
  "demo_batch = \<lparr>eb_id = replicate 16 5, eb_events = [demo_ledger_event]\<rparr>"

definition demo_env :: "str \<Rightarrow> str option" where
  "demo_env name = (if name = ''AVALON_SETTLEMENT_SIGNING_KEY'' then Some (hex_encode demo_crates demo_seed) else None)"

abbreviation demo_node :: settlement where
  "demo_node \<equiv> fresh_node ''testnet''"

lemma demo_jsonb: "jsonb_ok id"
  by (simp add: jsonb_ok_def)

lemma demo_hex_zeros: "demo_hex_encode (replicate n 0) = replicate (2 * n) CHR ''0''"
proof -
  have "nibble_char 0 = CHR ''0''" by (simp add: nibble_char_def char_of_def bit_Suc_0_iff)
  then show ?thesis by (induction n) simp_all
qed

lemma demo_genesis: "parse_hash demo_crates name GENESIS_HASH = Ok (replicate 32 0)"
  using demo_hex_zeros [of 32] by (simp add: parse_hash_Ok [OF demo_hex_ok] GENESIS_HASH_def) (simp add: demo_crates_def)

lemma demo_appends:
  "\<exists>row. append_events demo_crates id demo_node (replicate 16 5) now [] GENESIS_HASH 1 [demo_ledger_event] = Ok ([row], [l_entry_hash row])"
proof -
  obtain er where er: "row_from_envelope demo_crates (envelope_current LEDGER_ENTRY) = Ok er"
    using current_row [OF demo_hex_ok] by blast
  have ph: "payload_hash_hex demo_crates demo_payload = Ok (hex_encode demo_crates (digest demo_crates Sha256 (as_bytes demo_text)))"
    using demo_canonicalizes by (simp add: payload_hash_hex_def payload_hash_def)
  have len: "length (digest demo_crates Sha256 m) = 32" for m using demo_sha256_ok by (simp add: sha256_ok_def)
  have micros: "timestamp_micros 0 = Ok 0" "floor_to_micros 0 = Ok 0"
    by (simp_all add: floor_to_micros_def timestamp_micros_def i64_min_def i64_max_def in_time_range_def nanos_per_sec_def)
  have "\<exists>eh. hash_event demo_crates ''testnet'' ''core'' 1 GENESIS_HASH demo_ledger_event
      (hex_encode demo_crates (digest demo_crates Sha256 (as_bytes demo_text))) = Ok eh"
    using parse_hash_Ok [OF demo_hex_ok] len micros
    by (simp add: hash_event_def hash_entry_def stored_timestamp_def demo_ledger_event_def demo_profile_event_def demo_genesis
        rbind_eq_Inr guard_err_def entry_hash_def entry_signing_bytes_Ok) blast
  then obtain eh where "hash_event demo_crates ''testnet'' ''core'' 1 GENESIS_HASH demo_ledger_event
      (hex_encode demo_crates (digest demo_crates Sha256 (as_bytes demo_text))) = Ok eh" ..
  with er ph micros show ?thesis
    by (simp add: fresh_node_def stored_payload_def demo_ledger_event_def demo_profile_event_def stored_timestamp_def)
qed

lemma demo_inserts:
  "\<exists>d c. insert_batch_and_compute_root demo_crates id now demo_node demo_batch =
      Some (Ok (1, ledger_root demo_crates (db_entries d), now), d, c) \<and> inserted demo_crates now demo_node demo_batch d \<and>
      length (db_entries d) = 1 \<and> db_heads d = []"
proof -
  have inv: "ledger_ok demo_crates demo_node" "cache_ok demo_crates demo_node"
    using fresh_settled by (simp_all add: settled_def)
  have small: "entry_count demo_node + length (eb_events demo_batch) \<le> 2 ^ 64"
    by (simp add: entry_count_def fresh_node_def empty_db_def demo_batch_def)
  obtain row where row: "append_events demo_crates id demo_node (replicate 16 5) now [] GENESIS_HASH 1 [demo_ledger_event] = Ok ([row], [l_entry_hash row])"
    using demo_appends by blast
  have cb: "check_batch demo_batch = Ok ()"
    by (simp add: check_batch_def demo_batch_def demo_ledger_event_def demo_profile_event_def)
  have app: "rbind (check_batch demo_batch) (\<lambda>_. append_events demo_crates id demo_node (eb_id demo_batch) now (rows_of demo_node)
        (tip_hash (st_db demo_node)) (max_seq (st_db demo_node) + 1) (eb_events demo_batch)) = Ok ([row], [l_entry_hash row])"
    using row cb by (simp add: demo_batch_def tip_hash_def by_seq_def max_seq_def) (simp add: fresh_node_def empty_db_def)
  have ne: "eb_events demo_batch \<noteq> []" by (simp add: demo_batch_def)
  from insert_batch_rows [OF demo_hex_ok demo_jsonb inv small app ne] obtain c where
    "compute_root demo_crates [row] [l_entry_hash row] (max_seq (st_db demo_node) + int (length (eb_events demo_batch))) (st_cache demo_node) =
      Some (Ok (1, mth demo_crates Sha256 (leaf_bytes demo_crates (hashes_of [row]))), c)" by auto
  with app ne have "\<exists>x d c. insert_batch_and_compute_root demo_crates id now demo_node demo_batch = Some (Ok x, d, c)"
    by (simp add: insert_batch_and_compute_root_def Let_def) (simp add: fresh_node_def empty_db_def)
  with insert_batch_spec [OF demo_hex_ok demo_jsonb inv small, of now] obtain d c where
    d: "insert_batch_and_compute_root demo_crates id now demo_node demo_batch = Some (Ok (length (db_entries d), ledger_root demo_crates (db_entries d), now), d, c)"
      "inserted demo_crates now demo_node demo_batch d" by auto
  then have "length (db_entries d) = 1 \<and> db_heads d = []" by (auto simp: inserted_def fresh_node_def empty_db_def demo_batch_def)
  with d show ?thesis by auto
qed

lemma demo_root_text: "\<exists>h. length h = 32 \<and> ledger_root demo_crates rows = hex_encode demo_crates h"
  using mth_len [OF demo_sha256_ok] by (auto simp: ledger_root_def)

lemma demo_head_inserts:
  "db_heads d = [] \<Longrightarrow> sth_envelope head = envelope_current SETTLEMENT_STH \<Longrightarrow> \<exists>d'. insert_signed_tree_head demo_crates head d = Ok d'"
  using current_row [OF demo_hex_ok, of SETTLEMENT_STH] by (auto simp: insert_signed_tree_head_def)

lemma demo_commits:
  "\<exists>c st'. commit demo_crates id demo_env 0 demo_node demo_batch = Some (Ok c, st') \<and> st' \<noteq> demo_node"
proof -
  obtain d c where d: "insert_batch_and_compute_root demo_crates id 0 demo_node demo_batch =
      Some (Ok (1, ledger_root demo_crates (db_entries d), 0), d, c)" "length (db_entries d) = 1" "db_heads d = []"
    using demo_inserts by blast
  have key: "load_signing_key_from_env demo_crates demo_env = Ok (demo_seed, DEFAULT_SIGNING_KEY_ID)"
    by (simp add: load_signing_key_from_env_def demo_env_def parse_key_bytes_def hex_roundtrip [OF demo_hex_ok] to_array_def demo_seed_def ok_or_def)
  have "\<exists>m. signing_message demo_crates 1 (ledger_root demo_crates (db_entries d)) ''testnet'' DEFAULT_SIGNING_KEY_ID 0 (envelope_current SETTLEMENT_STH) = Ok m"
    using demo_root_text [of "db_entries d"] by (auto simp: signing_message_Ok [OF demo_hex_ok] DEFAULT_SIGNING_KEY_ID_def)
  then obtain head where head: "sign_tree_head demo_crates demo_seed DEFAULT_SIGNING_KEY_ID 1 (ledger_root demo_crates (db_entries d)) ''testnet'' 0 = Ok head"
    "sth_envelope head = envelope_current SETTLEMENT_STH"
    by (auto simp: sign_tree_head_def sign_tree_head_with_def)
  obtain d' where d': "insert_signed_tree_head demo_crates head d = Ok d'" using demo_head_inserts d(3) head(2) by blast
  then have "db_entries d' = db_entries d" by (auto simp: insert_signed_tree_head_def rbind_eq_Inr split: if_splits)
  then have "demo_node\<lparr>st_db := d', st_cache := c\<rparr> \<noteq> demo_node" using d(2) by (auto simp: fresh_node_def empty_db_def)
  moreover have "existing_commitment demo_node (eb_id demo_batch) = Ok None"
    by (simp add: existing_commitment_def get_commitment_def fresh_node_def empty_db_def)
  ultimately show ?thesis using d(1) key head(1) d' by (auto simp: commit_def) (auto simp: fresh_node_def)
qed

lemma demo_small: "entry_count demo_node + length (eb_events demo_batch) \<le> 2 ^ 64"
  by (simp add: entry_count_def fresh_node_def empty_db_def demo_batch_def)

lemma demo_commit_step: "commit demo_crates id demo_env 0 demo_node demo_batch = Some (r, st') \<Longrightarrow> (ledger_step demo_crates id)\<^sup>*\<^sup>* demo_node st'"
  using step_commit [OF demo_small] by blast

lemma demo_stored:
  assumes "commit demo_crates id demo_env 0 demo_node demo_batch = Some (Ok c, st)" "st \<noteq> demo_node"
  shows "stored_batch demo_crates demo_node demo_batch c st"
  using commit_outcome [OF demo_hex_ok demo_jsonb _ _ demo_small, of demo_env 0] fresh_settled assms
  by (auto simp: settled_def outcome_ok_def)

theorem ledger_invariant_witness:
  "\<exists>c st. commit demo_crates id demo_env 0 demo_node demo_batch = Some (Ok c, st) \<and> st \<noteq> demo_node \<and>
     rows_ok demo_crates st \<and> ledger_ok demo_crates st \<and> cache_ok demo_crates st"
  using demo_commits demo_commit_step ledger_invariant [OF demo_hex_ok demo_jsonb completed_run [OF demo_commit_step]] by blast

text \<open>C9. A commitment is durable. Once it can be fetched it can be fetched after any later run, the same, also
  when requests are dropped half way. When it was fetched from a node none of whose commits had been
  dropped, it verifies after any later run, dropped requests included, and also when the payloads it covers
  have been pruned.\<close>

theorem commitments_durable:
  assumes "hex_ok C" and "jsonb_ok jsonb" and "(node_step C jsonb)\<^sup>*\<^sup>* (fresh_node network) st"
    and "get_commitment st bid = Ok c" and "(node_step C jsonb)\<^sup>*\<^sup>* st st'"
  shows "get_commitment st' bid = Ok c \<and> ((ledger_step C jsonb)\<^sup>*\<^sup>* (fresh_node network) st \<longrightarrow> verify C st' c = Ok True)"
  using durable_commitment [OF assms(1,2) reachable_rows [OF assms(1-3)] assms(5,4)] reachable_settled [OF assms(1,2)]
  by (auto simp: settled_def)

text \<open>Witness: the commitment of an empty node's first batch, after its payload has been pruned.\<close>

theorem commitments_durable_witness:
  "\<exists>c c' n st st'. commit demo_crates id demo_env 0 demo_node demo_batch = Some (Ok c, st) \<and>
     prune_payloads_older_than 9 9 st = (n, st') \<and> get_commitment st' (replicate 16 5) = Ok c' \<and> verify demo_crates st' c' = Ok True"
proof -
  obtain c st where st: "commit demo_crates id demo_env 0 demo_node demo_batch = Some (Ok c, st)" "st \<noteq> demo_node" using demo_commits by blast
  from demo_stored [OF st] obtain c' where c': "get_commitment st (replicate 16 5) = Ok c'"
    using stored_batch_get by (fastforce simp: demo_batch_def)
  obtain n st' where p: "prune_payloads_older_than 9 9 st = (n, st')" by force
  then have "(ledger_step demo_crates id)\<^sup>*\<^sup>* st st'" by (blast intro: step_prune)
  from commitments_durable [OF demo_hex_ok demo_jsonb completed_run [OF demo_commit_step [OF st(1)]] c' completed_run [OF this]]
    demo_commit_step [OF st(1)] st(1) p show ?thesis by blast
qed

text \<open>C27. On a ledger reached by operations that each ran to their end, so that no commit was dropped half way, a
  commit never panics. When it fails the tables are as before. When it
  succeeds the commitment verifies; either the batch was already there and nothing changed, or the
  events were appended and the one new tree head has the ledger's size and its Merkle root.\<close>

theorem commit_correct:
  assumes "hex_ok C" and "jsonb_ok jsonb" and "(ledger_step C jsonb)\<^sup>*\<^sup>* (fresh_node network) st"
    and "entry_count st + length (eb_events batch) \<le> 2 ^ 64"
  shows "\<exists>r st'. commit C jsonb env now st batch = Some (r, st') \<and>
    (case r of
       Inl e \<Rightarrow> st_db st' = st_db st
     | Inr c \<Rightarrow> verify C st' c = Ok True \<and>
         (st' = st \<or> (entry_count st' = entry_count st + length (eb_events batch) \<and> records_head C st st')))"
proof -
  from commit_outcome [OF assms(1,2) _ _ assms(4), of env now] reachable_settled [OF assms(1-3)] obtain r st' where
    res: "commit C jsonb env now st batch = Some (r, st')" "outcome_ok C st batch (r, st')"
    by (auto simp: settled_def)
  show ?thesis
  proof (cases r)
    case (Inr c)
    then have "verify C st' c = Ok True" using outcome_verifies [OF assms(1)] res(2) by blast
    then show ?thesis using res Inr
      by (auto simp: outcome_ok_def stored_batch_def entry_count_def)
  qed (use res in \<open>auto simp: outcome_ok_def\<close>)
qed

text \<open>Witness: the first commit of an empty node.\<close>

theorem commit_correct_witness:
  "\<exists>c st. commit demo_crates id demo_env 0 demo_node demo_batch = Some (Ok c, st) \<and> st \<noteq> demo_node \<and>
     verify demo_crates st c = Ok True \<and> entry_count st = 1"
proof -
  obtain c st where st: "commit demo_crates id demo_env 0 demo_node demo_batch = Some (Ok c, st)" "st \<noteq> demo_node" using demo_commits by blast
  moreover have "entry_count demo_node = 0" by (simp add: entry_count_def fresh_node_def empty_db_def)
  ultimately show ?thesis using commit_correct [OF demo_hex_ok demo_jsonb rtranclp.rtrancl_refl demo_small, of demo_env 0]
    by (auto simp: demo_batch_def)
qed

text \<open>Committing the same batch id again returns the stored commitment and changes nothing.\<close>

lemma replay_commit:
  assumes "get_commitment st (eb_id batch) = Ok c"
  shows "commit C jsonb env now st batch = Some (Ok c, st)"
  using assms by (simp add: commit_def existing_commitment_def)

text \<open>A retried batch is idempotent: after a commit that returned, and whatever ran since, committing a
  batch of the same id returns the same root and leaves the ledger as it is.\<close>

theorem commit_replay:
  assumes "hex_ok C" and "jsonb_ok jsonb" and "(ledger_step C jsonb)\<^sup>*\<^sup>* (fresh_node network) st"
    and "entry_count st + length (eb_events batch) \<le> 2 ^ 64"
    and "commit C jsonb env now st batch = Some (Ok c, st1)" and "(ledger_step C jsonb)\<^sup>*\<^sup>* st1 st2"
    and "eb_id retry = eb_id batch"
  shows "\<exists>c'. commit C jsonb env' now' st2 retry = Some (Ok c', st2) \<and> cm_proof c' = cm_proof c"
proof -
  from commit_outcome [OF assms(1,2) _ _ assms(4), of env now] reachable_settled [OF assms(1-3)] assms(5)
  have out: "outcome_ok C st batch (Ok c, st1)" by (auto simp: settled_def)
  then obtain c' where c': "get_commitment st1 (eb_id batch) = Ok c'" "cm_proof c' = cm_proof c"
    using stored_batch_get by (fastforce simp: outcome_ok_def)
  have "settled C st1" using outcome_settled [OF out _ assms(4)] reachable_settled [OF assms(1-3)] by blast
  then have "get_commitment st2 (eb_id retry) = Ok c'"
    using pg.run_fetch [OF assms(6) _ c'(1)] assms(1,2,7) by simp
  then show ?thesis using replay_commit c'(2) by blast
qed

text \<open>Witness: the first batch of an empty node, committed twice.\<close>

theorem commit_replay_witness:
  "\<exists>c c' st. commit demo_crates id demo_env 0 demo_node demo_batch = Some (Ok c, st) \<and>
     commit demo_crates id demo_env 7 st demo_batch = Some (Ok c', st) \<and> cm_proof c' = cm_proof c"
proof -
  obtain c st where st: "commit demo_crates id demo_env 0 demo_node demo_batch = Some (Ok c, st)" using demo_commits by blast
  from commit_replay [OF demo_hex_ok demo_jsonb rtranclp.rtrancl_refl demo_small st rtranclp.rtrancl_refl refl, of demo_env 7] st
  show ?thesis by blast
qed

text \<open>The head a node stores over a prefix, and the leaf bytes of that prefix.\<close>

lemma leaf_bytes_take: "leaf_bytes C (hashes_of (take n rows)) = take n (leaf_bytes C (hashes_of rows))"
  by (simp add: leaf_bytes_def take_map)

lemma cached_tree:
  assumes "hex_ok C" "settled C st" "n \<le> entry_count st"
  shows "\<exists>c. ensure_cache_covers C n st = (Ok (), st\<lparr>st_cache := c\<rparr>) \<and> n \<le> length (lc_leaves c) \<and>
    length (lc_leaves c) \<le> 2 ^ 64 \<and> (\<forall>i < n. lc_leaves c ! i = l_entry_hash (rows_of st ! i)) \<and>
    imt_inv C Sha256 (leaf_bytes C (lc_leaves c)) (lc_tree c) \<and>
    take n (leaf_bytes C (lc_leaves c)) = leaf_bytes C (hashes_of (take n (rows_of st)))"
proof -
  obtain c where c: "ensure_cache_covers C n st = (Ok (), st\<lparr>st_cache := c\<rparr>)" "cache_for C (rows_of st) c" "n \<le> length (lc_leaves c)"
    using ensure_cache_spec [of C st n] assms by (auto simp: settled_def)
  then obtain k where k: "lc_leaves c = hashes_of (take k (rows_of st))" "k \<le> entry_count st"
    by (auto simp: cache_for_def entry_count_def)
  then have "n \<le> k" using c(3) by (simp add: entry_count_def)
  moreover have "imt_inv C Sha256 (leaf_bytes C (lc_leaves c)) (lc_tree c)" using c(2) by (simp add: cache_for_def)
  moreover have "\<forall>i < n. lc_leaves c ! i = l_entry_hash (rows_of st ! i)" using \<open>n \<le> k\<close> k by (simp add: entry_count_def)
  moreover have "length (lc_leaves c) \<le> 2 ^ 64" using k assms(2) by (simp add: settled_def entry_count_def)
  ultimately show ?thesis using c(1,3) k by (intro exI [of _ c]) (simp add: leaf_bytes_take min_absorb1)
qed

text \<open>C28. What a node serves whose operations each ran to their end, so that no commit was dropped half way, is
  accepted by a client that holds its tree heads: between any two
  stored heads the consistency proof verifies, and every entry under a head has an inclusion proof
  that verifies against the head's root. Neither request panics or fails.\<close>

theorem served_proofs_verify:
  assumes "hex_ok C" and "jsonb_ok jsonb" and "(ledger_step C jsonb)\<^sup>*\<^sup>* (fresh_node network) st"
    and "entry_count st < 2 ^ 64" and "g \<in> set (db_heads (st_db st))" and "h \<in> set (db_heads (st_db st))"
    and "m = unat (sth_tree_size (h_head g))" and "n = unat (sth_tree_size (h_head h))" and "0 < m" and "m \<le> n" and "i < n"
  shows "\<exists>cp ip leaf data q r st1 st2.
    serve_consistency_proof C m n st = Some (Ok cp, st1) \<and> serve_inclusion_proof C i n st = Some (Ok (leaf, ip), st2) \<and>
    sth_root_hash (h_head g) = hex_encode C q \<and> sth_root_hash (h_head h) = hex_encode C r \<and>
    leaf = l_entry_hash (rows_of st ! i) \<and> hex_decode C leaf = Some data \<and>
    verify_consistency_proof C Sha256 m n cp q r \<and> verify_inclusion_proof C Sha256 data i n ip r"
proof -
  have S: "settled C st" by (rule reachable_settled [OF assms(1-3)])
  have head: "sth_root_hash (h_head x) = hex_encode C (mth C Sha256 (leaf_bytes C (hashes_of (take (unat (sth_tree_size (h_head x))) (rows_of st)))))
      \<and> unat (sth_tree_size (h_head x)) \<le> entry_count st" if x: "x \<in> set (db_heads (st_db st))" for x
  proof -
    from S x obtain k where k: "k \<le> entry_count st" "sth_tree_size (h_head x) = of_nat k" "sth_root_hash (h_head x) = ledger_root C (take k (rows_of st))"
      by (auto simp: settled_def ledger_ok_def head_ok_def entry_count_def)
    have "unat (of_nat k :: i64) = k" using k(1) assms(4) by (simp add: unat_of_nat)
    with k show ?thesis by (simp add: ledger_root_def)
  qed
  have n: "n \<le> entry_count st" using head [OF assms(6)] assms(8) by simp
  from cached_tree [OF assms(1) S n] obtain c where c: "ensure_cache_covers C n st = (Ok (), st\<lparr>st_cache := c\<rparr>)"
    "n \<le> length (lc_leaves c)" "length (leaf_bytes C (lc_leaves c)) \<le> 2 ^ 64" "lc_leaves c ! i = l_entry_hash (rows_of st ! i)"
    "imt_inv C Sha256 (leaf_bytes C (lc_leaves c)) (lc_tree c)"
    "take n (leaf_bytes C (lc_leaves c)) = leaf_bytes C (hashes_of (take n (rows_of st)))"
    using assms(11) by (auto simp: leaf_bytes_def)
  define ls where "ls = leaf_bytes C (lc_leaves c)"
  have len: "n \<le> length ls" using c(2) by (simp add: ls_def leaf_bytes_def)
  have roots: "sth_root_hash (h_head h) = hex_encode C (mth C Sha256 (take n ls))"
    "sth_root_hash (h_head g) = hex_encode C (mth C Sha256 (take m ls))"
    using head [OF assms(5)] head [OF assms(6)] assms(7,8,10) c(6) leaf_bytes_take [of C m "take n (rows_of st)"]
    by (simp_all add: ls_def min_absorb1) (metis min_absorb1 take_take)
  have texts: "\<forall>x\<in>set (hashes_of (rows_of st)). hash_text C x"
    using S chain_ok_hash_text by (auto simp: settled_def ledger_ok_def)
  have "hash_text C (l_entry_hash (rows_of st ! i))" using texts n assms(11) by (simp add: entry_count_def)
  then obtain data where data: "hex_decode C (l_entry_hash (rows_of st ! i)) = Some data"
    by (auto simp: hash_text_def hex_roundtrip [OF assms(1)])
  have li: "ls ! i = data" using data c(2,4) assms(11) by (simp add: ls_def leaf_bytes_def)
  have small: "length ls \<le> 2 ^ 64 \<and> imt_inv C Sha256 ls (lc_tree c)" using c(3,5) by (simp add: ls_def)
  from inc.inclusion_verifies [OF small assms(11) len] obtain ip where
    ip: "imt_inclusion_proof C (lc_tree c) i n = Some (Ok ip)" "verify_inclusion_proof C Sha256 data i n ip (mth C Sha256 (take n ls))"
    using imt_refines(1) [of C Sha256 ls "lc_tree c" n] small len
    by (auto simp: inc_prove_inclusion_def inc_root_at_def bind_eq_Some_conv result_ok_eq_Some li)
  obtain cp where cp: "imt_consistency_proof C (lc_tree c) m n = Some (Ok cp)"
      "verify_consistency_proof C Sha256 m n cp (mth C Sha256 (take m ls)) (mth C Sha256 (take n ls))"
  proof (cases "m = n")
    case True
    then show ?thesis using that [of "[]"] imt_refines(3) [of C Sha256 ls "lc_tree c" n m] small len
      by (simp add: consistency_proof_def verify_consistency_proof_def min_absorb2)
  next
    case False
    then show ?thesis using that inc.consistency_verifies [OF small assms(9) _ len] imt_refines(1) [of C Sha256 ls "lc_tree c"] small len assms(10)
      by (auto simp: inc_prove_consistency_def inc_root_at_def bind_eq_Some_conv result_ok_eq_Some)
  qed
  show ?thesis using ip cp roots c(1,2,4) data assms(11)
    by (auto simp: serve_consistency_proof_def serve_inclusion_proof_def)
qed

text \<open>Witness: the one head and the one entry of a node after its first commit.\<close>

theorem served_proofs_verify_witness:
  "\<exists>c st h cp ip leaf data r st1 st2. commit demo_crates id demo_env 0 demo_node demo_batch = Some (Ok c, st) \<and>
     db_heads (st_db st) = [h] \<and> serve_consistency_proof demo_crates 1 1 st = Some (Ok cp, st1) \<and>
     serve_inclusion_proof demo_crates 0 1 st = Some (Ok (leaf, ip), st2) \<and> sth_root_hash (h_head h) = hex_encode demo_crates r \<and>
     hex_decode demo_crates leaf = Some data \<and> verify_inclusion_proof demo_crates Sha256 data 0 1 ip r"
proof -
  obtain c st where st: "commit demo_crates id demo_env 0 demo_node demo_batch = Some (Ok c, st)" "st \<noteq> demo_node" using demo_commits by blast
  obtain h where h: "db_heads (st_db st) = [h]" "sth_tree_size (h_head h) = 1" "entry_count st = 1"
    using demo_stored [OF st]
    by (auto simp: stored_batch_def records_head_def entry_count_def fresh_node_def empty_db_def demo_batch_def)
  have hs: "h \<in> set (db_heads (st_db st))" "1 = unat (sth_tree_size (h_head h))" "entry_count st < 2 ^ 64" using h by simp_all
  from served_proofs_verify [OF demo_hex_ok demo_jsonb demo_commit_step [OF st(1)] hs(3,1,1,2,2), of 0] st(1) h(1)
  show ?thesis by auto
qed

text \<open>\<open>prepare\<close> computes the hashes that the appending loop computes.\<close>

lemma prepare_hashes_append:
  "append_events C jsonb st bid now rows prev next_seq events = Ok (rows', hs) \<Longrightarrow>
   prepare_hashes C st prev (next_seq - 1) events = Ok hs"
  by (induction events arbitrary: rows prev next_seq rows' hs)
    (fastforce simp: rbind_eq_Inr Let_def split: if_splits)+

lemma insert_batch_prepare:
  assumes "hex_ok C" "jsonb_ok jsonb" "settled C st" "entry_count st + length (eb_events batch) \<le> 2 ^ 64"
    and "insert_batch_and_compute_root C jsonb now st batch = Some (Ok (tsz, root, at), d, c)"
  shows "\<exists>pt. prepare C now' st batch = Ok pt \<and> pt_tree_size pt = tsz \<and> pt_root_hash pt = root \<and> pt_network_id pt = st_network st"
proof -
  have inv: "ledger_ok C st" "cache_ok C st" using assms(3) by (simp_all add: settled_def)
  from assms(5) obtain rows hs where ne: "eb_events batch \<noteq> []"
    and app: "rbind (check_batch batch) (\<lambda>_. append_events C jsonb st (eb_id batch) now (rows_of st)
            (tip_hash (st_db st)) (max_seq (st_db st) + 1) (eb_events batch)) = Ok (rows, hs)"
    by (auto simp: insert_batch_and_compute_root_def split: if_splits sum.splits)
  from insert_batch_rows [OF assms(1,2) inv assms(4) app ne] obtain new c' where
    rows: "rows = rows_of st @ new" "hs = hashes_of new" "chain_ok C st GENESIS_HASH rows"
    "compute_root C rows hs (max_seq (st_db st) + int (length (eb_events batch))) (st_cache st) =
      Some (Ok (length rows, mth C Sha256 (leaf_bytes C (hashes_of rows))), c')" by blast
  have res: "tsz = length rows" "root = hex_encode C (mth C Sha256 (leaf_bytes C (hashes_of rows)))"
    using assms(5) ne app rows(4) by (auto simp: insert_batch_and_compute_root_def Let_def split: if_splits)
  have sorted: "by_seq (st_db st) = rows_of st" using inv(1) by (simp add: by_seq_def by_seq_sorted ledger_ok_def)
  have ph: "prepare_hashes C st (tip_hash (st_db st)) (max_seq (st_db st)) (eb_events batch) = Ok hs"
    using app prepare_hashes_append [where next_seq = "max_seq (st_db st) + 1"] by (auto simp: rbind_eq_Inr)
  have cb: "check_batch batch = Ok ()" using app by (auto simp: rbind_eq_Inr)
  have "mth_of_hex_hashes C Sha256 (hashes_of (rows_of st) @ hs) = Ok (mth C Sha256 (leaf_bytes C (hashes_of rows)))"
    using decode_hash_texts [OF assms(1) chain_ok_hash_text [OF rows(3)]] by (simp add: mth_of_hex_hashes_def rows(1,2))
  then show ?thesis using ne ph cb res by (simp add: prepare_def sorted Let_def rows(1,2))
qed

text \<open>What \<open>prepare\<close> shows the operator is what \<open>finalize\<close> stores. If a new batch is finalized on the
  ledger it was prepared on, the stored head is the prepared size and root under the operator's
  signature, which verifies over exactly that head.\<close>

theorem finalize_stores_prepared:
  assumes "hex_ok C" and "jsonb_ok jsonb" and "(ledger_step C jsonb)\<^sup>*\<^sup>* (fresh_node network) st"
    and "entry_count st + length (eb_events batch) \<le> 2 ^ 64"
    and "prepare C now st batch = Ok pt" and "get_commitment st (eb_id batch) = Err BatchNotFound"
    and "finalize C jsonb now' st batch created key_id sg vk = Some (Ok c, st')"
  shows "\<exists>h. db_heads (st_db st') = db_heads (st_db st) @ [h] \<and> sth_tree_size (h_head h) = of_nat (pt_tree_size pt) \<and>
    sth_root_hash (h_head h) = pt_root_hash pt \<and> sth_signature (h_head h) = sg \<and> verify_tree_head C vk (h_head h) \<and>
    entry_count st' = pt_tree_size pt \<and> cm_proof c = as_bytes (pt_root_hash pt)"
proof -
  have S: "settled C st" by (rule reachable_settled [OF assms(1-3)])
  have new: "existing_commitment st (eb_id batch) = Ok None" using assms(6) by (simp add: existing_commitment_def)
  let ?h = "\<lambda>tsz root. \<lparr>sth_tree_size = of_nat tsz, sth_root_hash = root, sth_network_id = st_network st,
                      sth_signing_key_id = key_id, sth_signature = sg, sth_created_at = created,
                      sth_envelope = envelope_current SETTLEMENT_STH\<rparr>"
  from assms(7) obtain tsz root at d cc d' where ins: "insert_batch_and_compute_root C jsonb now' st batch = Some (Ok (tsz, root, at), d, cc)"
    and v: "verify_tree_head C vk (?h tsz root)"
    and hd: "insert_signed_tree_head C (?h tsz root) d = Ok d'" and st': "st' = st\<lparr>st_db := d', st_cache := cc\<rparr>"
    and c: "cm_proof c = as_bytes root"
    by (auto simp: finalize_def new Let_def split: option.splits sum.splits if_splits)
  from insert_batch_prepare [OF assms(1,2) S assms(4) ins, of now] assms(5)
  have pt: "pt_tree_size pt = tsz" "pt_root_hash pt = root" by auto
  have d: "tsz = length (db_entries d)" "db_heads d = db_heads (st_db st)"
    using insert_batch_spec [OF assms(1,2) _ _ assms(4), of now'] S ins by (auto simp: settled_def inserted_def)
  from hd obtain e where "d' = d\<lparr>db_heads := db_heads d @ [\<lparr>h_head = ?h tsz root, h_envelope = e\<rparr>]\<rparr>"
    by (auto simp: insert_signed_tree_head_def rbind_eq_Inr split: if_splits)
  with v c pt d show ?thesis by (simp add: st' entry_count_def)
qed

text \<open>Witness: an empty node prepares a batch, its operator signs the prepared head, the node finalizes it.\<close>

theorem finalize_stores_prepared_witness:
  "\<exists>pt sth c st h. prepare demo_crates 0 demo_node demo_batch = Ok pt \<and>
     sign_tree_head demo_crates demo_seed ''op'' (of_nat (pt_tree_size pt)) (pt_root_hash pt) (pt_network_id pt) 0 = Ok sth \<and>
     finalize demo_crates id 3 demo_node demo_batch 0 ''op'' (sth_signature sth) (verifying_key demo_crates demo_seed) = Some (Ok c, st) \<and>
     db_heads (st_db st) = [h] \<and> sth_root_hash (h_head h) = pt_root_hash pt \<and> verify_tree_head demo_crates (verifying_key demo_crates demo_seed) (h_head h)"
proof -
  obtain d c where d: "insert_batch_and_compute_root demo_crates id 3 demo_node demo_batch =
      Some (Ok (1, ledger_root demo_crates (db_entries d), 3), d, c)" "length (db_entries d) = 1" "db_heads d = []"
    using demo_inserts by blast
  obtain pt where pt: "prepare demo_crates 0 demo_node demo_batch = Ok pt" "pt_tree_size pt = 1"
    "pt_root_hash pt = ledger_root demo_crates (db_entries d)" "pt_network_id pt = ''testnet''"
    using insert_batch_prepare [OF demo_hex_ok demo_jsonb fresh_settled demo_small d(1), of 0] by (auto simp: fresh_node_def)
  have "\<exists>m. signing_message demo_crates 1 (pt_root_hash pt) ''testnet'' ''op'' 0 (envelope_current SETTLEMENT_STH) = Ok m"
    using demo_root_text [of "db_entries d"] by (auto simp: signing_message_Ok [OF demo_hex_ok] pt(3))
  then obtain sth where sth: "sign_tree_head demo_crates demo_seed ''op'' 1 (pt_root_hash pt) ''testnet'' 0 = Ok sth"
    by (auto simp: sign_tree_head_def sign_tree_head_with_def)
  then have sf: "sth = \<lparr>sth_tree_size = 1, sth_root_hash = ledger_root demo_crates (db_entries d), sth_network_id = ''testnet'',
      sth_signing_key_id = ''op'', sth_signature = sth_signature sth, sth_created_at = 0, sth_envelope = envelope_current SETTLEMENT_STH\<rparr>"
    by (auto simp: sign_tree_head_def sign_tree_head_with_def rbind_eq_Inr pt(3))
  have v: "verify_tree_head demo_crates (verifying_key demo_crates demo_seed) sth"
    using own_tree_head_verifies [OF demo_hex_ok demo_sig_ok demo_key] sth by (auto simp: sign_tree_head_def)
  obtain d' where d': "insert_signed_tree_head demo_crates sth d = Ok d'"
    using demo_head_inserts [OF d(3), of sth] sf by (metis SignedTreeHead.select_convs(7))
  have fresh: "get_commitment demo_node (eb_id demo_batch) = Err BatchNotFound"
    by (simp add: get_commitment_def fresh_node_def empty_db_def)
  have net: "st_network demo_node = ''testnet''" by (simp add: fresh_node_def)
  have "\<exists>c st. finalize demo_crates id 3 demo_node demo_batch 0 ''op'' (sth_signature sth) (verifying_key demo_crates demo_seed) = Some (Ok c, st)"
    using fresh d(1) v d' unfolding finalize_def existing_commitment_def Let_def net
    by (simp del: One_nat_def add: sf [symmetric])
  then obtain c st where fin: "finalize demo_crates id 3 demo_node demo_batch 0 ''op'' (sth_signature sth) (verifying_key demo_crates demo_seed) = Some (Ok c, st)"
    by blast
  have "db_heads (st_db demo_node) = []" by (simp add: fresh_node_def empty_db_def)
  with finalize_stores_prepared [OF demo_hex_ok demo_jsonb rtranclp.rtrancl_refl demo_small pt(1) fresh fin] pt sth fin
  show ?thesis by auto
qed

definition keeps_cosig :: "cosig_row \<Rightarrow> cosig_row \<Rightarrow> bool" where
  "keeps_cosig old new \<longleftrightarrow> g_shard_id new = g_shard_id old \<and> c_witness_key_id (g_cosig new) = c_witness_key_id (g_cosig old) \<and>
     c_network_id (g_cosig new) = c_network_id (g_cosig old) \<and> c_tree_size (g_cosig new) = c_tree_size (g_cosig old) \<and>
     c_root_hash (g_cosig new) = c_root_hash (g_cosig old) \<and> c_author_signature (g_cosig new) = c_author_signature (g_cosig old) \<and>
     c_observed_at (g_cosig old) \<le> c_observed_at (g_cosig new)"

definition cosig_slots_ok :: "cosig_row list \<Rightarrow> bool" where
  "cosig_slots_ok rows \<longleftrightarrow> distinct (map (\<lambda>r. (g_shard_id r, c_network_id (g_cosig r), c_tree_size (g_cosig r), c_witness_key_id (g_cosig r))) rows)"

text \<open>Storing a cosignature never replaces the evidence of an equivocation: after an accepted
  store every stored cosignature is still there with its root and author signature, its observation
  time has not gone back, and the witness's slot still holds one cosignature, over the root given or
  with the signature given.\<close>

theorem cosignature_store_keeps_evidence:
  assumes "cosig_slots_ok rows" and "store_witness_cosignature C shard cosig rows = Ok rows'"
  shows "cosig_slots_ok rows' \<and> list_all2 keeps_cosig rows (take (length rows) rows') \<and>
    (\<exists>r\<in>set rows'. same_slot shard cosig r \<and> (c_root_hash (g_cosig r) = c_root_hash cosig \<or> c_signature (g_cosig r) = c_signature cosig))"
proof -
  have refl: "list_all2 keeps_cosig rows rows" by (simp add: list_all2_refl keeps_cosig_def)
  show ?thesis
  proof (cases "find (same_slot shard cosig) rows")
    case None
    then have "\<forall>r\<in>set rows. \<not> same_slot shard cosig r" by (simp add: find_None_iff)
    moreover obtain env where "rows' = rows @ [\<lparr>g_shard_id = shard, g_cosig = cosig, g_envelope = env\<rparr>]"
      using assms(2) None by (auto simp: store_witness_cosignature_def rbind_eq_Inr)
    ultimately show ?thesis using assms(1) refl by (auto simp: cosig_slots_ok_def same_slot_def)
  next
    case (Some row)
    then have row: "row \<in> set rows" "same_slot shard cosig row" by (auto simp: find_Some_iff)
    from assms(2) Some consider "rows' = rows" "c_signature (g_cosig row) = c_signature cosig"
      | "rows' = refresh_witness_cosignature shard cosig rows" "c_root_hash (g_cosig row) = c_root_hash cosig"
      by (auto simp: store_witness_cosignature_def rbind_eq_Inr Let_def split: if_splits)
    then show ?thesis
    proof cases
      case 2
      let ?f = "\<lambda>r. if refreshes shard cosig r
        then r\<lparr>g_cosig := (g_cosig r)\<lparr>c_observed_at := c_observed_at cosig, c_signature := c_signature cosig\<rparr>\<rparr> else r"
      have rows': "rows' = map ?f rows" using 2(1) by (simp add: refresh_witness_cosignature_def)
      have slot: "(g_shard_id (?f r), c_network_id (g_cosig (?f r)), c_tree_size (g_cosig (?f r)), c_witness_key_id (g_cosig (?f r))) =
        (g_shard_id r, c_network_id (g_cosig r), c_tree_size (g_cosig r), c_witness_key_id (g_cosig r))" for r by simp
      have "keeps_cosig r (?f r)" for r by (simp add: keeps_cosig_def refreshes_def)
      then have "list_all2 keeps_cosig rows rows'" by (simp add: rows' list_all2_map2 list_all2_refl)
      moreover have "cosig_slots_ok rows'" using assms(1) unfolding rows' cosig_slots_ok_def map_map comp_def slot .
      moreover have "?f row \<in> set rows'" "same_slot shard cosig (?f row)" "c_root_hash (g_cosig (?f row)) = c_root_hash cosig"
        using row 2(2) by (simp_all add: rows' same_slot_def)
      moreover have "length rows' = length rows" by (simp add: rows')
      ultimately show ?thesis by auto
    qed (use row refl assms(1) in auto)
  qed
qed

text \<open>Witness: the cosignature of a witness, refreshed by a later observation.\<close>

definition demo_cosig_at :: "time \<Rightarrow> str \<Rightarrow> WitnessCosignature" where
  "demo_cosig_at t sg = \<lparr>c_tree_size = 3, c_root_hash = demo_root 7, c_network_id = ''testnet'',
     c_author_created_at = 5, c_author_key_id = ''op'', c_author_signature = ''aa'', c_witness_key_id = ''w'', c_observed_at = t, c_signature = sg,
     c_envelope = envelope_current WITNESS_COSIGN\<rparr>"

theorem cosignature_store_keeps_evidence_witness:
  "\<exists>one two. store_witness_cosignature demo_crates ''core'' (demo_cosig_at 5 ''01'') [] = Ok one \<and>
     store_witness_cosignature demo_crates ''core'' (demo_cosig_at 9 ''02'') one = Ok two \<and>
     length two = 1 \<and> list_all2 keeps_cosig one (take 1 two) \<and> cosig_slots_ok two"
proof -
  obtain er where er: "row_from_envelope demo_crates (envelope_current WITNESS_COSIGN) = Ok er"
    using current_row [OF demo_hex_ok] by blast
  let ?one = "[\<lparr>g_shard_id = ''core'', g_cosig = demo_cosig_at 5 ''01'', g_envelope = er\<rparr>]"
  have one: "store_witness_cosignature demo_crates ''core'' (demo_cosig_at 5 ''01'') [] = Ok ?one"
    by (simp add: store_witness_cosignature_def er demo_cosig_at_def)
  have two: "\<exists>two. store_witness_cosignature demo_crates ''core'' (demo_cosig_at 9 ''02'') ?one = Ok two \<and> length two = 1"
    by (simp add: store_witness_cosignature_def er demo_cosig_at_def same_slot_def Let_def refresh_witness_cosignature_def)
  then obtain two where "store_witness_cosignature demo_crates ''core'' (demo_cosig_at 9 ''02'') ?one = Ok two" "length two = 1" by blast
  moreover have "cosig_slots_ok ?one" by (simp add: cosig_slots_ok_def)
  ultimately show ?thesis using one cosignature_store_keeps_evidence [of ?one demo_crates "''core''" "demo_cosig_at 9 ''02''" two] by auto
qed

section \<open>A dropped commit\<close>

text \<open>The rows a batch adds, before any root is computed.\<close>

abbreviation appended ::
  "crates \<Rightarrow> (json \<Rightarrow> json) \<Rightarrow> time \<Rightarrow> settlement \<Rightarrow> EventBatch \<Rightarrow> SettlementError + ledger_row list \<times> str list" where
  "appended C jsonb now st batch \<equiv> rbind (check_batch batch) (\<lambda>_. append_events C jsonb st (eb_id batch) now (rows_of st)
     (tip_hash (st_db st)) (max_seq (st_db st) + 1) (eb_events batch))"

abbreviation last_seq_of :: "settlement \<Rightarrow> EventBatch \<Rightarrow> int" where
  "last_seq_of st batch \<equiv> max_seq (st_db st) + int (length (eb_events batch))"

text \<open>The tables after a batch whose root came out as \<open>root\<close>.\<close>

definition with_batch :: "settlement \<Rightarrow> EventBatch \<Rightarrow> time \<Rightarrow> ledger_row list \<Rightarrow> str \<Rightarrow> ledger_db" where
  "with_batch st batch now rows root = (st_db st)\<lparr>db_entries := rows, db_batches := db_batches (st_db st) @
     [\<lparr>b_batch_id = eb_id batch, b_first_seq = max_seq (st_db st) + 1, b_last_seq = last_seq_of st batch,
       b_batch_root = root, b_committed_at = now\<rparr>]\<rparr>"

lemma insert_batch_Ok:
  "insert_batch_and_compute_root C jsonb now st batch = Some (Ok (tsz, root, at), d, c) \<longleftrightarrow>
     eb_events batch \<noteq> [] \<and> eb_id batch \<notin> b_batch_id ` set (db_batches (st_db st)) \<and> at = now \<and>
     (\<exists>rows hs r. appended C jsonb now st batch = Ok (rows, hs) \<and>
        compute_root C rows hs (last_seq_of st batch) (st_cache st) = Some (Ok (tsz, r), c) \<and>
        root = hex_encode C r \<and> d = with_batch st batch now rows root)"
  by (auto simp: insert_batch_and_compute_root_def with_batch_def Let_def split: if_splits sum.splits option.splits)

lemma append_events_cong:
  "st_network st = st_network st' \<Longrightarrow> st_shard st = st_shard st' \<Longrightarrow>
   append_events C jsonb st bid now rows prev sq events = append_events C jsonb st' bid now rows prev sq events"
  by (induction events arbitrary: rows prev sq) (simp_all cong: if_cong)

lemma appended_cache [simp]: "append_events C jsonb (st\<lparr>st_cache := c\<rparr>) = append_events C jsonb st"
  by (intro ext append_events_cong) simp_all

lemma commit_new:
  "existing_commitment st (eb_id batch) = Ok None \<Longrightarrow>
   commit C jsonb env now st batch = Some (Ok cm, st') \<longleftrightarrow>
     (\<exists>tsz root at d c key kid head d'. insert_batch_and_compute_root C jsonb now st batch = Some (Ok (tsz, root, at), d, c) \<and>
        load_signing_key_from_env C env = Ok (key, kid) \<and>
        sign_tree_head C key kid (of_nat tsz) root (st_network st) at = Ok head \<and> insert_signed_tree_head C head d = Ok d' \<and>
        cm = \<lparr>cm_batch_id = eb_id batch, cm_proof = as_bytes root, cm_committed_at = at\<rparr> \<and> st' = st\<lparr>st_db := d', st_cache := c\<rparr>)"
  by (auto simp: commit_def rbind_eq_Inr map_err_eq_Inr split: sum.splits option.splits)

lemma existing_new:
  "existing_commitment st bid = Ok None \<longleftrightarrow> bid \<notin> b_batch_id ` set (db_batches (st_db st))"
  using existing_commitment_cases [of st bid] by (auto simp: get_commitment_def find_Some_iff split: option.splits)

lemma commit_was_new:
  "commit C jsonb env now st batch = Some (Ok cm, st') \<Longrightarrow> entry_count st \<noteq> entry_count st' \<Longrightarrow>
   existing_commitment st (eb_id batch) = Ok None"
  by (auto simp: commit_def split: sum.splits option.splits)

lemma compute_root_full:
  assumes "compute_root C rows hs lst c = Some (Ok (tsz, r), c')" "cache_for C old c" "rows = old @ new" "hs = hashes_of new"
    and "sorted_wrt (<) (map l_seq rows)" "\<forall>r\<in>set rows. l_seq r \<le> lst" "new \<noteq> []" "cache_for C rows c'"
  shows "lc_leaves c' = hashes_of rows"
proof -
  have f: "filter (\<lambda>r. l_seq r \<le> lst) (sort_key l_seq (old @ new)) = old @ new" unfolding assms(3) [symmetric]
    using assms(6) by (simp only: by_seq_sorted [OF assms(5)]) (intro filter_True, blast)
  have ext: "cache_extend C x ys = (Ok u, y) \<Longrightarrow> length (lc_leaves y) = length (lc_leaves x) + length ys" for x y ys u
    by (induction ys arbitrary: x) (auto split: option.splits)
  have "length (lc_leaves c') = length rows"
    using assms(1) cache_for_full(1) [OF assms(2)] assms(3,4,7) ext
    by (auto simp: compute_root_def Let_def f cache_rebuild_def cache_default_def split: if_splits sum.splits prod.splits option.splits)
  with cache_for_full(2) [OF assms(8)] show ?thesis by simp
qed

text \<open>A commit that would store its batch and is dropped instead: the tables as they were, the cache as
  if the batch were in them.\<close>

lemma dropped_commit:
  assumes "hex_ok C" "jsonb_ok jsonb" "settled C st" "entry_count st + length (eb_events a) \<le> 2 ^ 64"
    and "commit C jsonb env t st a = Some (Ok ca, sta)" "entry_count st < entry_count sta"
  shows "commit_cancelled C jsonb t st a = Some (st\<lparr>st_cache := st_cache sta\<rparr>)"
    "lc_leaves (st_cache sta) = hashes_of (rows_of sta)" "imt_inv C Sha256 (leaf_bytes C (lc_leaves (st_cache sta))) (lc_tree (st_cache sta))"
    "\<exists>new hs. appended C jsonb t st a = Ok (rows_of sta, hs) \<and> rows_of sta = rows_of st @ new \<and> hs = hashes_of new"
proof -
  have inv: "ledger_ok C st" "cache_ok C st" using assms(3) by (simp_all add: settled_def)
  have new: "existing_commitment st (eb_id a) = Ok None" using commit_was_new [OF assms(5)] assms(6) by simp
  from assms(5) [unfolded commit_new [OF new]] obtain tsz root d c head d' where
    ins: "insert_batch_and_compute_root C jsonb t st a = Some (Ok (tsz, root, t), d, c)"
    and hd: "insert_signed_tree_head C head d = Ok d'" and sta: "sta = st\<lparr>st_db := d', st_cache := c\<rparr>"
    by (auto simp: insert_batch_Ok)
  from ins show "commit_cancelled C jsonb t st a = Some (st\<lparr>st_cache := st_cache sta\<rparr>)"
    by (simp add: commit_cancelled_def sta)
  from ins [unfolded insert_batch_Ok] obtain rows hs r where ne: "eb_events a \<noteq> []" and app: "appended C jsonb t st a = Ok (rows, hs)"
    and root: "compute_root C rows hs (last_seq_of st a) (st_cache st) = Some (Ok (tsz, r), c)" and d: "db_entries d = rows"
    by (auto simp: with_batch_def)
  have rows: "rows_of sta = rows" using insert_head_tables [OF hd] d by (simp add: sta)
  from insert_batch_rows [OF assms(1,2) inv assms(4) app ne] obtain new where
    n: "rows = rows_of st @ new" "hs = hashes_of new" "new \<noteq> []" "sorted_wrt (<) (map l_seq rows)"
      "\<forall>r\<in>set rows. l_seq r \<le> last_seq_of st a" and c: "cache_for C rows c" using root by auto
  show "lc_leaves (st_cache sta) = hashes_of (rows_of sta)"
    unfolding rows using compute_root_full [OF root _ n(1,2,4,5,3) c] inv(2) by (simp add: sta cache_ok_for)
  show "imt_inv C Sha256 (leaf_bytes C (lc_leaves (st_cache sta))) (lc_tree (st_cache sta))"
    using c by (simp add: sta cache_for_def)
  show "\<exists>new hs. appended C jsonb t st a = Ok (rows_of sta, hs) \<and> rows_of sta = rows_of st @ new \<and> hs = hashes_of new"
    using app n by (simp add: rows)
qed

text \<open>The next commit: a cache that is exactly as long as the ledger will be is neither used nor replaced.\<close>

lemma stale_cache_kept:
  assumes "hex_ok C" "jsonb_ok jsonb" "settled C st" "entry_count st + length (eb_events b) \<le> 2 ^ 64"
    and "commit C jsonb env t st b = Some (Ok cb, stb)" "entry_count st < entry_count stb" "length (lc_leaves c) = entry_count stb"
  shows "commit C jsonb env t (st\<lparr>st_cache := c\<rparr>) b = Some (Ok cb, stb\<lparr>st_cache := c\<rparr>)"
proof -
  have inv: "ledger_ok C st" "cache_ok C st" using assms(3) by (simp_all add: settled_def)
  have new: "existing_commitment st (eb_id b) = Ok None" using commit_was_new [OF assms(5)] assms(6) by simp
  then have new': "existing_commitment (st\<lparr>st_cache := c\<rparr>) (eb_id b) = Ok None" by (simp add: existing_new)
  from assms(5) [unfolded commit_new [OF new]] obtain tsz root d c0 key kid head d' where
    ins: "insert_batch_and_compute_root C jsonb t st b = Some (Ok (tsz, root, t), d, c0)"
    and sg: "load_signing_key_from_env C env = Ok (key, kid)" "sign_tree_head C key kid (of_nat tsz) root (st_network st) t = Ok head"
      "insert_signed_tree_head C head d = Ok d'"
    and cb: "cb = \<lparr>cm_batch_id = eb_id b, cm_proof = as_bytes root, cm_committed_at = t\<rparr>" and stb: "stb = st\<lparr>st_db := d', st_cache := c0\<rparr>"
    by (auto simp: insert_batch_Ok)
  from ins [unfolded insert_batch_Ok] obtain rows hs r where ne: "eb_events b \<noteq> []" and app: "appended C jsonb t st b = Ok (rows, hs)"
    and root: "compute_root C rows hs (last_seq_of st b) (st_cache st) = Some (Ok (tsz, r), c0)" "root = hex_encode C r"
    and d: "d = with_batch st b t rows root" and fresh: "eb_id b \<notin> b_batch_id ` set (db_batches (st_db st))" by auto
  from insert_batch_rows [OF assms(1,2) inv assms(4) app ne] obtain n where
    n: "rows = rows_of st @ n" "hs = hashes_of n" "n \<noteq> []" "sorted_wrt (<) (map l_seq rows)" "chain_ok C st GENESIS_HASH rows"
      "\<forall>r\<in>set rows. l_seq r \<le> last_seq_of st b" "tsz = length rows" "r = mth C Sha256 (leaf_bytes C (hashes_of rows))" using root(1) by auto
  have f: "filter (\<lambda>r. l_seq r \<le> last_seq_of st b) (sort_key l_seq rows) = rows"
    using n(6) by (simp only: by_seq_sorted [OF n(4)]) (intro filter_True, blast)
  have len: "length (lc_leaves c) = length rows" using assms(7) insert_head_tables [OF sg(3)]
    by (simp add: stb entry_count_def d with_batch_def)
  have "length (lc_leaves c) + length hs \<noteq> length rows" using n(2,3) len by simp
  then have "compute_root C rows hs (last_seq_of st b) c = Some (Ok (tsz, r), c)"
    using n(7,8) len decode_hash_texts [OF assms(1) chain_ok_hash_text [OF n(5)]]
    by (simp add: compute_root_def Let_def f mth_of_hex_hashes_def)
  then have "insert_batch_and_compute_root C jsonb t (st\<lparr>st_cache := c\<rparr>) b = Some (Ok (tsz, root, t), d, c)"
    using ne app root(2) fresh by (simp add: insert_batch_Ok d with_batch_def)
  then show ?thesis unfolding commit_new [OF new'] using sg cb stb by auto
qed

lemma verify_other_proof:
  "verify C st c = Ok True \<Longrightarrow> cm_batch_id c' = cm_batch_id c \<Longrightarrow> verify C st c' = Ok (cm_proof c' = cm_proof c)"
  by (auto simp: verify_def rbind_eq_Inr Let_def split: list.splits option.splits)

lemma verify_chain_cong:
  "st_network st = st_network st' \<Longrightarrow> st_shard st = st_shard st' \<Longrightarrow> verify_chain C st prev owned = verify_chain C st' prev owned"
  by (induction C st prev owned rule: verify_chain.induct) (simp_all add: row_intact_def)

lemma verify_root_cong:
  assumes "st_network st = st_network st'" "st_shard st = st_shard st'" "rows_of st = rows_of st'"
    and "db_batches (st_db st) = bs @ [b]" "db_batches (st_db st') = bs @ [b\<lparr>b_batch_root := root\<rparr>]"
  shows "verify C st c = verify C st' c"
proof -
  let ?f = "find (\<lambda>b. b_batch_id b = cm_batch_id c)"
  have "rel_option (\<lambda>x y. b_last_seq x = b_last_seq y) (?f (bs @ [b])) (?f (bs @ [b\<lparr>b_batch_root := root\<rparr>]))"
    by (induction bs) (auto simp: option.rel_refl)
  moreover have "by_seq (st_db st) = by_seq (st_db st')" by (simp add: by_seq_def assms(3))
  ultimately show ?thesis unfolding verify_def assms(4,5) verify_chain_cong [OF assms(1,2)]
    by (cases "?f (bs @ [b])"; cases "?f (bs @ [b\<lparr>b_batch_root := root\<rparr>])") (simp_all add: Let_def cong: list.case_cong)
qed

lemma stale_compute_root:
  assumes "hex_ok C" "\<forall>h\<in>set hs. hash_text C h" "length (lc_leaves c) + length hs = length rows" "length rows \<le> 2 ^ 64"
    and "imt_inv C Sha256 (leaf_bytes C (lc_leaves c)) (lc_tree c)"
  shows "\<exists>c'. compute_root C rows hs lst c = Some (Ok (length rows, mth C Sha256 (leaf_bytes C (lc_leaves c @ hs))), c')"
proof -
  from cache_extend_spec [OF assms(1,2) _ assms(5)] assms(3,4) obtain c' where
    c': "cache_extend C c hs = (Ok (), c')" "lc_leaves c' = lc_leaves c @ hs" "imt_inv C Sha256 (leaf_bytes C (lc_leaves c')) (lc_tree c')" by auto
  have "length (leaf_bytes C (lc_leaves c @ hs)) \<le> 2 ^ 64" using assms(3,4) by (simp add: leaf_bytes_def)
  then have "imt_root C (lc_tree c') (length (lc_leaves c')) = Some (Some (mth C Sha256 (leaf_bytes C (lc_leaves c @ hs))))"
    using imt_refines(1) [OF c'(3), of "length (lc_leaves c')"] by (simp add: c'(2) leaf_bytes_def)
  with c' assms(3) show ?thesis by (simp add: compute_root_def)
qed

lemma sign_other_root:
  assumes "hex_ok C" "sign_tree_head C key kid tsz root net at = Ok head" "length q = 32"
  shows "\<exists>head'. sign_tree_head C key kid tsz (hex_encode C q) net at = Ok head' \<and> sth_envelope head' = sth_envelope head"
proof -
  from assms have "\<exists>m. signing_message C tsz (hex_encode C q) net kid at (envelope_current SETTLEMENT_STH) = Ok m"
    unfolding sign_tree_head_def sign_tree_head_with_def rbind_eq_Inr signing_message_Ok [OF assms(1)] by blast
  then show ?thesis using assms(2) by (auto simp: sign_tree_head_def sign_tree_head_with_def rbind_eq_Inr)
qed

text \<open>The commit after that: the cache has the length of the ledger and other leaves, and is extended.\<close>

lemma stale_cache_signed:
  assumes "hex_ok C" "sha256_ok C" "jsonb_ok jsonb" "settled C st" "entry_count st + length (eb_events d) \<le> 2 ^ 64"
    and "commit C jsonb env t st d = Some (Ok cd, std)" "entry_count st < entry_count std"
    and "length (lc_leaves c) = entry_count st" "imt_inv C Sha256 (leaf_bytes C (lc_leaves c)) (lc_tree c)"
    and "R = hex_encode C (mth C Sha256 (leaf_bytes C (lc_leaves c @ drop (entry_count st) (hashes_of (rows_of std)))))"
  shows "\<exists>cd' st3 h. commit C jsonb env t (st\<lparr>st_cache := c\<rparr>) d = Some (Ok cd', st3) \<and> rows_of st3 = rows_of std \<and>
    db_heads (st_db st3) = db_heads (st_db st) @ [h] \<and> sth_tree_size (h_head h) = of_nat (entry_count std) \<and>
    sth_root_hash (h_head h) = R \<and> verify C st3 cd' = Ok (R = ledger_root C (rows_of std))"
proof -
  have inv: "ledger_ok C st" "cache_ok C st" using assms(4) by (simp_all add: settled_def)
  have new: "existing_commitment st (eb_id d) = Ok None" using commit_was_new [OF assms(6)] assms(7) by simp
  then have new': "existing_commitment (st\<lparr>st_cache := c\<rparr>) (eb_id d) = Ok None" by (simp add: existing_new)
  from assms(6) [unfolded commit_new [OF new]] obtain tsz root e c0 key kid head e' where
    ins: "insert_batch_and_compute_root C jsonb t st d = Some (Ok (tsz, root, t), e, c0)"
    and sg: "load_signing_key_from_env C env = Ok (key, kid)" "sign_tree_head C key kid (of_nat tsz) root (st_network st) t = Ok head"
      "insert_signed_tree_head C head e = Ok e'"
    and cd: "cd = \<lparr>cm_batch_id = eb_id d, cm_proof = as_bytes root, cm_committed_at = t\<rparr>" and std: "std = st\<lparr>st_db := e', st_cache := c0\<rparr>"
    by (auto simp: insert_batch_Ok)
  from ins [unfolded insert_batch_Ok] obtain rows hs r where ne: "eb_events d \<noteq> []" and app: "appended C jsonb t st d = Ok (rows, hs)"
    and root: "compute_root C rows hs (last_seq_of st d) (st_cache st) = Some (Ok (tsz, r), c0)" "root = hex_encode C r"
    and e: "e = with_batch st d t rows root" and fresh: "eb_id d \<notin> b_batch_id ` set (db_batches (st_db st))" by auto
  have rows: "rows_of std = rows" using insert_head_tables [OF sg(3)] by (simp add: std e with_batch_def)
  from insert_batch_rows [OF assms(1,3) inv assms(5) app ne] obtain n where
    n: "rows = rows_of st @ n" "hs = hashes_of n" "chain_ok C st GENESIS_HASH rows" "length n = length (eb_events d)"
      "tsz = length rows" "r = mth C Sha256 (leaf_bytes C (hashes_of rows))" using root(1) by auto
  have hs: "drop (entry_count st) (hashes_of rows) = hs" by (simp add: n(1,2) entry_count_def)
  have "\<forall>h\<in>set hs. hash_text C h" using chain_ok_hash_text [OF n(3)] by (simp add: n(1,2))
  moreover have "length (lc_leaves c) + length hs = length rows" "length rows \<le> 2 ^ 64"
    using assms(5,8) n(1,2,4) by (simp_all add: entry_count_def)
  moreover define q where "q = mth C Sha256 (leaf_bytes C (lc_leaves c @ hs))"
  ultimately obtain c' where cr: "compute_root C rows hs (last_seq_of st d) c = Some (Ok (tsz, q), c')"
    using stale_compute_root [OF assms(1) _ _ _ assms(9)] n(5) by blast
  define f where "f = with_batch st d t rows R"
  have R: "R = hex_encode C q" using assms(10) by (simp add: rows hs q_def)
  have ins': "insert_batch_and_compute_root C jsonb t (st\<lparr>st_cache := c\<rparr>) d = Some (Ok (tsz, R, t), f, c')"
    using ne app fresh cr by (simp add: insert_batch_Ok f_def R with_batch_def)
  from sign_other_root [OF assms(1) sg(2), of q] obtain head' where
    h': "sign_tree_head C key kid (of_nat tsz) R (st_network st) t = Ok head'" "sth_envelope head' = sth_envelope head"
    using mth_len [OF assms(2)] by (auto simp: R q_def)
  note hf = sign_tree_head_fields [OF h'(1)] sign_tree_head_fields [OF sg(2)]
  obtain er where er: "row_from_envelope C (sth_envelope head) = Ok er" "e' = e\<lparr>db_heads := db_heads e @ [\<lparr>h_head = head, h_envelope = er\<rparr>]\<rparr>"
    "of_nat tsz \<notin> (sth_tree_size \<circ> h_head) ` set (db_heads e)"
    using sg(3) hf by (auto simp: insert_signed_tree_head_def rbind_eq_Inr split: if_splits)
  let ?h = "\<lparr>h_head = head', h_envelope = er\<rparr>"
  have hd: "insert_signed_tree_head C head' f = Ok (f\<lparr>db_heads := db_heads f @ [?h]\<rparr>)"
    using er hf h'(2) by (simp add: insert_signed_tree_head_def f_def e with_batch_def)
  let ?cd = "\<lparr>cm_batch_id = eb_id d, cm_proof = as_bytes R, cm_committed_at = t\<rparr>"
  let ?st3 = "st\<lparr>st_db := f\<lparr>db_heads := db_heads f @ [?h]\<rparr>, st_cache := c'\<rparr>"
  have com: "commit C jsonb env t (st\<lparr>st_cache := c\<rparr>) d = Some (Ok ?cd, ?st3)"
    unfolding commit_new [OF new'] using ins' sg(1) h'(1) hd by auto
  from commit_outcome [OF assms(1,3) inv assms(5), of env t] assms(6) have "outcome_ok C st d (Ok cd, std)" by auto
  from outcome_verifies [OF assms(1) this] verify_other_proof [of C std cd ?cd] cd
  have "verify C std ?cd = Ok (R = root)" by simp
  moreover have "verify C std ?cd = verify C ?st3 ?cd"
    by (rule verify_root_cong [where root = R and bs = "db_batches (st_db st)" and b = "\<lparr>b_batch_id = eb_id d,
        b_first_seq = max_seq (st_db st) + 1, b_last_seq = last_seq_of st d, b_batch_root = root, b_committed_at = t\<rparr>"])
      (simp_all add: std er(2) e f_def with_batch_def)
  ultimately show ?thesis using com hf n(5,6) root(2) rows
    by (intro exI [of _ ?cd] exI [of _ ?st3] exI [of _ ?h]) (simp add: f_def with_batch_def entry_count_def ledger_root_def)
qed

lemma commit_count:
  assumes "hex_ok C" "jsonb_ok jsonb" "rows_ok C st" "commit C jsonb env t st a = Some (Ok ca, sta)" "entry_count st < entry_count sta"
  shows "entry_count sta = entry_count st + length (eb_events a)"
proof -
  have new: "existing_commitment st (eb_id a) = Ok None" using commit_was_new [OF assms(4)] assms(5) by simp
  from assms(4) [unfolded commit_new [OF new]] obtain rows hs root c head d' where ne: "eb_events a \<noteq> []"
    and app: "appended C jsonb t st a = Ok (rows, hs)"
    and hd: "insert_signed_tree_head C head (with_batch st a t rows root) = Ok d'" and sta: "sta = st\<lparr>st_db := d', st_cache := c\<rparr>"
    by (auto simp: insert_batch_Ok)
  have "rows_of sta = rows" using insert_head_tables [OF hd] by (simp add: sta with_batch_def)
  with append_rows [OF assms(1-3) app ne] show ?thesis by (auto simp: entry_count_def)
qed

lemma leaf_bytes_inject:
  assumes "hex_ok C" "\<forall>h\<in>set xs. hash_text C h" "\<forall>h\<in>set ys. hash_text C h" "leaf_bytes C xs = leaf_bytes C ys"
  shows "xs = ys"
proof -
  have "map (hex_encode C) (leaf_bytes C zs) = zs" if "\<forall>h\<in>set zs. hash_text C h" for zs
    using that by (induction zs) (auto simp: leaf_bytes_def hash_text_def hex_roundtrip [OF assms(1)])
  from this [OF assms(2)] this [OF assms(3)] show ?thesis unfolding assms(4) by (rule trans [OF sym])
qed

lemma leaf_bytes_append: "leaf_bytes C (xs @ ys) = leaf_bytes C xs @ leaf_bytes C ys"
  by (simp add: leaf_bytes_def)

lemma length_leaf_bytes: "length (leaf_bytes C xs) = length xs"
  by (simp add: leaf_bytes_def)

lemma reachable_hash_texts: "settled C st \<Longrightarrow> \<forall>h\<in>set (hashes_of (rows_of st)). hash_text C h"
  using chain_ok_hash_text by (auto simp: settled_def ledger_ok_def)


text \<open>Witness: a digest that sums the bytes of a message tells three one-event batches apart.\<close>

definition sum_crates :: crates where
  "sum_crates = demo_crates\<lparr>sha256 := \<lambda>m. replicate 32 (sum_list m)\<rparr>"

definition demo_event_id :: "u8 \<Rightarrow> bytes" where
  "demo_event_id x = replicate 15 0 @ [x]"

definition demo_event_of :: "u8 \<Rightarrow> ProtocolEvent" where
  "demo_event_of x = demo_ledger_event\<lparr>ev_id := demo_event_id x\<rparr>"

definition demo_batch_of :: "u8 \<Rightarrow> u8 \<Rightarrow> EventBatch" where
  "demo_batch_of i x = \<lparr>eb_id = replicate 16 i, eb_events = [demo_event_of x]\<rparr>"

lemma sum_crates_ok: "hex_ok sum_crates" "sha256_ok sum_crates"
  using demo_hex_ok by (simp_all add: hex_ok_def sha256_ok_def sum_crates_def)

lemma sum_digest: "digest sum_crates algo m = replicate 32 (sum_list m)"
  by (cases algo) (simp add: sum_crates_def)

definition sum_payload_hash :: bytes where
  "sum_payload_hash = replicate 32 (sum_list (as_bytes demo_text))"

lemma sum_payload: "payload_hash_hex sum_crates (stored_payload (demo_event_of x)) = Ok (hex_encode sum_crates sum_payload_hash)"
  using demo_canonicalizes
  by (simp add: payload_hash_hex_def payload_hash_def stored_payload_def demo_event_of_def demo_ledger_event_def demo_profile_event_def
      sum_digest [of Sha256, simplified] sum_payload_hash_def)

lemma demo_micros: "timestamp_micros 0 = Ok 0" "floor_to_micros 0 = Ok 0"
  by (simp_all add: floor_to_micros_def timestamp_micros_def i64_min_def i64_max_def in_time_range_def nanos_per_sec_def)

lemma sum_be_nat: "v < 256 \<Longrightarrow> sum_list (be_nat (Suc n) v) = of_nat v"
proof -
  have "sum_list (be_nat n 0) = 0" by (induction n) simp_all
  then show "v < 256 \<Longrightarrow> ?thesis" by simp
qed

lemma sum_u64: "n < 256 \<Longrightarrow> sum_list (u64_be (word_of_int (int n))) = of_nat n"
proof -
  assume n: "n < 256"
  have "unat (word_of_int (int n) :: u64) = n" using n by (simp add: unat_of_nat)
  moreover have "(8 :: nat) = Suc 7" by simp
  ultimately show ?thesis unfolding u64_be_def using sum_be_nat [OF n, of 7] by metis
qed

lemma sum_hash:
  "\<exists>K. \<forall>n x p. n < 256 \<longrightarrow> hash_event sum_crates ''testnet'' ''core'' (int n) (hex_encode sum_crates (replicate 32 p)) (demo_event_of x)
     (hex_encode sum_crates sum_payload_hash) = Ok (hex_encode sum_crates (replicate 32 (K + of_nat n + x + 32 * p)))"
proof -
  define A where "A = tag_bytes LEDGER_ENTRY @ u16_be (layout_version (envelope_current LEDGER_ENTRY)) @
     u32_be (rules_version (envelope_current LEDGER_ENTRY)) @ lp (as_bytes ''testnet'') @ lp (as_bytes ''core'')"
  define B where "B = lp (as_bytes ''profile.updated'') @ lp (as_bytes ''identity:x'') @ lp (as_bytes ''identity:x'') @
     u32_be 1 @ u64_be 0 @ [hash_algo_id Sha256]"
  define D where "D = sum_payload_hash @ ext_encode []"
  have len: "length sum_payload_hash = 32" by (simp add: sum_payload_hash_def)
  have algo: "hash_algo (envelope_current LEDGER_ENTRY) = Sha256" by (cases "hash_algo (envelope_current LEDGER_ENTRY)")
  have "hash_event sum_crates ''testnet'' ''core'' (int n) (hex_encode sum_crates (replicate 32 p)) (demo_event_of x)
     (hex_encode sum_crates sum_payload_hash) = Ok (hex_encode sum_crates (replicate 32 (sum_list A + sum_list B + sum_list D + of_nat n + x + 32 * p)))"
    if "n < 256" for n x p
  proof -
    let ?e = "\<lparr>e_network_id = ''testnet'', e_shard_id = ''core'', e_seq = word_of_int (int n), e_prev_hash = replicate 32 p,
        e_event_id = demo_event_id x, e_kind = ''profile.updated'', e_issuer = ''identity:x'',
        e_subject = ''identity:x'', e_payload_hash = sum_payload_hash, e_timestamp_micros = i64_of 0,
        e_event_version = word_of_int 1, e_envelope = envelope_current LEDGER_ENTRY\<rparr>"
    have "entry_signing_bytes ?e = Ok (A @ u64_be (word_of_int (int n)) @ demo_event_id x @ B @ replicate 32 p @ D)"
      unfolding entry_signing_bytes_Ok using algo by (simp add: A_def B_def D_def raw_def i64_of_def)
    moreover have "sum_list (A @ u64_be (word_of_int (int n)) @ demo_event_id x @ B @ replicate 32 p @ D) =
        sum_list A + sum_list B + sum_list D + of_nat n + x + 32 * p"
      by (simp only: sum_list.append sum_u64 [OF that]) (simp add: demo_event_id_def sum_list_replicate)
    ultimately have "entry_hash sum_crates ?e = Ok (replicate 32 (sum_list A + sum_list B + sum_list D + of_nat n + x + 32 * p))"
      unfolding entry_hash_def sum_digest by (simp only: rbind_simps EntryHashInput.select_convs)
    moreover have "parse_hash sum_crates nm (hex_encode sum_crates (replicate 32 p)) = Ok (replicate 32 p)"
      "parse_hash sum_crates nm (hex_encode sum_crates sum_payload_hash) = Ok sum_payload_hash" for nm
      by (simp_all add: parse_hash_Ok [OF sum_crates_ok(1)] len)
    ultimately show ?thesis
      by (simp add: hash_event_def hash_entry_def stored_timestamp_def demo_event_of_def demo_ledger_event_def demo_profile_event_def demo_micros)
  qed
  then show ?thesis by blast
qed


definition sum_appends :: "u8 \<Rightarrow> bool" where
  "sum_appends K \<longleftrightarrow> (\<forall>st n x p bid now rows. st_network st = ''testnet'' \<longrightarrow> st_shard st = ''core'' \<longrightarrow> n < 256 \<longrightarrow>
     hex_encode sum_crates (replicate 32 (K + of_nat n + x + 32 * p)) \<notin> l_entry_hash ` set rows \<longrightarrow> int n \<notin> l_seq ` set rows \<longrightarrow>
     (\<exists>row. append_events sum_crates id st bid now rows (hex_encode sum_crates (replicate 32 p)) (int n) [demo_event_of x] =
        Ok (rows @ [row], [l_entry_hash row]) \<and> l_entry_hash row = hex_encode sum_crates (replicate 32 (K + of_nat n + x + 32 * p)) \<and> l_seq row = int n))"

lemma sum_appends_ex: "\<exists>K. sum_appends K"
proof -
  obtain er where er: "row_from_envelope sum_crates (envelope_current LEDGER_ENTRY) = Ok er"
    using current_row [OF sum_crates_ok(1)] by blast
  obtain K where K: "\<And>n x p. n < 256 \<Longrightarrow> hash_event sum_crates ''testnet'' ''core'' (int n) (hex_encode sum_crates (replicate 32 p)) (demo_event_of x)
     (hex_encode sum_crates sum_payload_hash) = Ok (hex_encode sum_crates (replicate 32 (K + of_nat n + x + 32 * p)))" using sum_hash by blast
  have ts: "stored_timestamp (demo_event_of x) = Ok 0" for x
    by (simp add: stored_timestamp_def demo_event_of_def demo_ledger_event_def demo_profile_event_def demo_micros)
  show ?thesis by (rule exI [of _ K]) (simp add: sum_appends_def er sum_payload K ts Let_def del: of_nat_add)
qed

text \<open>A batch whose rows are accepted on a settled ledger is committed.\<close>

lemma demo_commit_lands:
  assumes "settled sum_crates st" "st_network st = ''testnet''" "entry_count st + length (eb_events batch) \<le> 2 ^ 64"
    and "appended sum_crates id t st batch = Ok (rows, hs)" "eb_events batch \<noteq> []"
    and "eb_id batch \<notin> b_batch_id ` set (db_batches (st_db st))" "of_nat (length rows) \<notin> (sth_tree_size \<circ> h_head) ` set (db_heads (st_db st))"
  shows "\<exists>c st'. commit sum_crates id demo_env t st batch = Some (Ok c, st') \<and> rows_of st' = rows \<and> st_network st' = ''testnet'' \<and>
    st_shard st' = st_shard st \<and> b_batch_id ` set (db_batches (st_db st')) = insert (eb_id batch) (b_batch_id ` set (db_batches (st_db st))) \<and>
    (sth_tree_size \<circ> h_head) ` set (db_heads (st_db st')) = insert (of_nat (length rows)) ((sth_tree_size \<circ> h_head) ` set (db_heads (st_db st)))"
proof -
  note C = sum_crates_ok
  have inv: "ledger_ok sum_crates st" "cache_ok sum_crates st" using assms(1) by (simp_all add: settled_def)
  from insert_batch_rows [OF C(1) demo_jsonb inv assms(3,4,5)] obtain c where
    "compute_root sum_crates rows hs (last_seq_of st batch) (st_cache st) =
      Some (Ok (length rows, mth sum_crates Sha256 (leaf_bytes sum_crates (hashes_of rows))), c)" by blast
  then have ins: "insert_batch_and_compute_root sum_crates id t st batch = Some (Ok (length rows, ledger_root sum_crates rows, t),
      with_batch st batch t rows (ledger_root sum_crates rows), c)"
    using assms(4-6) by (simp add: insert_batch_Ok ledger_root_def)
  have key: "load_signing_key_from_env sum_crates demo_env = Ok (demo_seed, DEFAULT_SIGNING_KEY_ID)"
    by (simp add: load_signing_key_from_env_def demo_env_def parse_key_bytes_def to_array_def demo_seed_def ok_or_def)
      (simp add: sum_crates_def hex_roundtrip [OF demo_hex_ok])
  have "\<exists>m. signing_message sum_crates (of_nat (length rows)) (ledger_root sum_crates rows) ''testnet'' DEFAULT_SIGNING_KEY_ID t (envelope_current SETTLEMENT_STH) = Ok m"
    using mth_len [OF C(2)] by (auto simp: signing_message_Ok [OF C(1)] DEFAULT_SIGNING_KEY_ID_def ledger_root_def)
  then obtain head where head: "sign_tree_head sum_crates demo_seed DEFAULT_SIGNING_KEY_ID (of_nat (length rows)) (ledger_root sum_crates rows) ''testnet'' t = Ok head"
    "sth_envelope head = envelope_current SETTLEMENT_STH"
    by (auto simp: sign_tree_head_def sign_tree_head_with_def)
  note sz = sign_tree_head_fields [OF head(1)]
  obtain er where er: "row_from_envelope sum_crates (envelope_current SETTLEMENT_STH) = Ok er"
    using current_row [OF C(1)] by blast
  let ?d = "with_batch st batch t rows (ledger_root sum_crates rows)" and ?h = "\<lparr>h_head = head, h_envelope = er\<rparr>"
  have hd: "insert_signed_tree_head sum_crates head ?d = Ok (?d\<lparr>db_heads := db_heads ?d @ [?h]\<rparr>)"
    using assms(7) sz head(2) er by (simp add: insert_signed_tree_head_def with_batch_def)
  have "existing_commitment st (eb_id batch) = Ok None" using assms(6) by (simp add: existing_new)
  from commit_new [OF this, of sum_crates id demo_env t] show ?thesis
    using ins key head(1) hd assms(2) sz
    by (intro exI [of _ "\<lparr>cm_batch_id = eb_id batch, cm_proof = as_bytes (ledger_root sum_crates rows), cm_committed_at = t\<rparr>"]
        exI [of _ "st\<lparr>st_db := ?d\<lparr>db_heads := db_heads ?d @ [?h]\<rparr>, st_cache := c\<rparr>"]) (auto simp: with_batch_def)
qed


lemma demo_batch_of_simps: "check_batch (demo_batch_of i x) = Ok ()" "eb_events (demo_batch_of i x) = [demo_event_of x]"
  "eb_id (demo_batch_of i x) = replicate 16 i"
  by (simp_all add: check_batch_def demo_batch_of_def demo_event_of_def demo_ledger_event_def demo_profile_event_def)

lemma demo_first_fits: "entry_count demo_node + length (eb_events (demo_batch_of i x)) \<le> 2 ^ 64"
  by (simp add: demo_batch_of_simps entry_count_def fresh_node_def empty_db_def)

lemma demo_first_commit:
  assumes "sum_appends K"
  shows "\<exists>c st row. commit sum_crates id demo_env 0 demo_node (demo_batch_of i x) = Some (Ok c, st) \<and> rows_of st = [row] \<and>
      l_entry_hash row = hex_encode sum_crates (replicate 32 (K + 1 + x)) \<and> l_seq row = 1 \<and> st_network st = ''testnet'' \<and> st_shard st = ''core'' \<and>
      b_batch_id ` set (db_batches (st_db st)) = {replicate 16 i} \<and> (sth_tree_size \<circ> h_head) ` set (db_heads (st_db st)) = {1}"
proof -
  have gen: "GENESIS_HASH = hex_encode sum_crates (replicate 32 0)"
    using demo_hex_zeros [of 32] by (simp add: GENESIS_HASH_def sum_crates_def demo_crates_def)
  obtain row where row: "append_events sum_crates id demo_node (replicate 16 i) 0 [] GENESIS_HASH 1 [demo_event_of x] = Ok ([row], [l_entry_hash row])"
    "l_entry_hash row = hex_encode sum_crates (replicate 32 (K + 1 + x))" "l_seq row = 1"
    using assms [unfolded sum_appends_def, rule_format, of demo_node 1 x 0 "[]" "replicate 16 i" 0] by (auto simp: gen fresh_node_def)
  then have "appended sum_crates id 0 demo_node (demo_batch_of i x) = Ok ([row], [l_entry_hash row])"
    using demo_batch_of_simps by (simp add: tip_hash_def by_seq_def max_seq_def) (simp add: fresh_node_def empty_db_def)
  from demo_commit_lands [OF fresh_settled _ demo_first_fits this] row demo_batch_of_simps show ?thesis by (auto simp: fresh_node_def empty_db_def)
qed

lemma demo_second_commit:
  assumes "sum_appends K" "settled sum_crates stb" "rows_of stb = [rb]" "l_entry_hash rb = hex_encode sum_crates (replicate 32 (K + 1 + 9))" "l_seq rb = 1"
    and "st_network stb = ''testnet''" "st_shard stb = ''core''"
    and "b_batch_id ` set (db_batches (st_db stb)) = {replicate 16 6}" "(sth_tree_size \<circ> h_head) ` set (db_heads (st_db stb)) = {1}"
  shows "\<exists>cd std rd. commit sum_crates id demo_env 0 stb (demo_batch_of 8 9) = Some (Ok cd, std) \<and> rows_of std = [rb, rd]"
proof -
  have odd: "K + 2 + 9 + 32 * y \<noteq> K + 1 + 9" for y :: u8
  proof
    assume "K + 2 + 9 + 32 * y = K + 1 + 9"
    then have "1 + 32 * y = 0" by (simp add: algebra_simps)
    moreover have "odd (1 + 32 * y)" by simp
    ultimately show False by simp
  qed
  have new: "hex_encode sum_crates (replicate 32 (K + of_nat 2 + 9 + 32 * (K + 1 + 9))) \<notin> l_entry_hash ` set [rb]" "int 2 \<notin> l_seq ` set [rb]"
    using odd [of "K + 1 + 9"] assms(4,5) by (simp_all add: hex_encode_inject [OF sum_crates_ok(1)] del: distrib_left_numeral)
  obtain rd where rd: "append_events sum_crates id stb (replicate 16 8) 0 [rb] (l_entry_hash rb) 2 [demo_event_of 9] = Ok ([rb] @ [rd], [l_entry_hash rd])"
    using assms(1) [unfolded sum_appends_def, rule_format, OF assms(6,7) _ new] assms(4)
    by (auto simp del: append_events.simps distrib_left_numeral)
  have "max_seq (st_db stb) = 1" "tip_hash (st_db stb) = l_entry_hash rb" using assms(3,5) by (simp_all add: max_seq_def tip_hash_def by_seq_def)
  then have "appended sum_crates id 0 stb (demo_batch_of 8 9) = Ok ([rb, rd], [l_entry_hash rd])" using rd demo_batch_of_simps assms(3) by simp
  from demo_commit_lands [OF assms(2,6) _ this] assms(3,8,9) demo_batch_of_simps show ?thesis by (auto simp: entry_count_def)
qed


end
