(* ===== verification/Mirror.thy ===== *)
theory Mirror
  imports Settlement_Facts Cosigned_Sth
begin

text \<open>
  Model of \<open>crates/chain/src/mirror.rs\<close>: what a node keeps of other nodes' ledgers. Observed tree heads,
  mirrored entries, equivocation findings and evidence, and the witness's own checkpoints are tables,
  as lists of rows in insertion order; \<open>ORDER BY detected_at DESC\<close> is the reverse of it. Where a query
  has \<open>LIMIT 1\<close> without a total order the model takes the first match, or the last among equals. The
  JSON columns of the evidence table hold the records that \<open>serde\<close> derives them from. The event time of a mirrored
  entry is what the driver stores of it (\<open>pg_time\<close>); other times are kept as given.
\<close>

section \<open>Observed tree heads\<close>

definition SELF_SIGNED_SOURCE :: str where "SELF_SIGNED_SOURCE = ''self:signed-history''"

definition ledger_tree_algo :: HashAlgo where
  "ledger_tree_algo = hash_algo (envelope_current SETTLEMENT_STH)"

record ObservedSth =
  ob_source_url :: str
  ob_network_id :: str
  ob_shard_id :: str
  ob_tree_size :: i64
  ob_root_hash :: str
  ob_signature :: str
  ob_signing_key_id :: str
  ob_created_at :: time
  ob_observed_at :: time
  ob_envelope :: Envelope

definition observed_from_sth :: "str \<Rightarrow> str \<Rightarrow> SignedTreeHead \<Rightarrow> time \<Rightarrow> ObservedSth" where
  "observed_from_sth source_url shard_id sth observed_at =
     \<lparr>ob_source_url = source_url, ob_network_id = sth_network_id sth, ob_shard_id = shard_id,
      ob_tree_size = sth_tree_size sth, ob_root_hash = sth_root_hash sth, ob_signature = sth_signature sth,
      ob_signing_key_id = sth_signing_key_id sth, ob_created_at = sth_created_at sth, ob_observed_at = observed_at,
      ob_envelope = sth_envelope sth\<rparr>"

definition sth_of_observed :: "ObservedSth \<Rightarrow> SignedTreeHead" where
  "sth_of_observed obs = \<lparr>sth_tree_size = ob_tree_size obs, sth_root_hash = ob_root_hash obs,
     sth_network_id = ob_network_id obs, sth_signing_key_id = ob_signing_key_id obs, sth_signature = ob_signature obs,
     sth_created_at = ob_created_at obs, sth_envelope = ob_envelope obs\<rparr>"

record EquivocationFinding =
  ef_network_id :: str
  ef_shard_id :: str
  ef_tree_size :: i64
  ef_source_a :: str
  ef_root_hash_a :: str
  ef_source_b :: str
  ef_root_hash_b :: str
  ef_resolved_at :: "time option"
  ef_resolved_root_hash :: "str option"

definition disagrees :: "ObservedSth \<Rightarrow> ObservedSth \<Rightarrow> bool" where
  "disagrees candidate e \<longleftrightarrow> ob_network_id e = ob_network_id candidate \<and> ob_shard_id e = ob_shard_id candidate \<and>
     ob_tree_size e = ob_tree_size candidate \<and> ob_source_url e \<noteq> ob_source_url candidate \<and>
     ob_root_hash e \<noteq> ob_root_hash candidate"

definition detect_equivocation :: "ObservedSth list \<Rightarrow> ObservedSth \<Rightarrow> EquivocationFinding list" where
  "detect_equivocation existing candidate =
     map (\<lambda>e. \<lparr>ef_network_id = ob_network_id candidate, ef_shard_id = ob_shard_id candidate,
       ef_tree_size = ob_tree_size candidate, ef_source_a = ob_source_url e, ef_root_hash_a = ob_root_hash e,
       ef_source_b = ob_source_url candidate, ef_root_hash_b = ob_root_hash candidate,
       ef_resolved_at = None, ef_resolved_root_hash = None\<rparr>)
       (filter (disagrees candidate) existing)"

record observed_row =
  or_sth :: ObservedSth
  or_envelope :: EnvelopeRow

definition observed_key :: "ObservedSth \<Rightarrow> str \<times> str \<times> str \<times> i64" where
  "observed_key obs = (ob_source_url obs, ob_network_id obs, ob_shard_id obs, ob_tree_size obs)"

definition insert_observation ::
  "crates \<Rightarrow> ObservedSth \<Rightarrow> observed_row list \<Rightarrow> SettlementError + bool \<times> observed_row list" where
  "insert_observation C obs rows =
     rbind (row_from_envelope C (ob_envelope obs)) (\<lambda>env.
       if observed_key obs \<in> (observed_key \<circ> or_sth) ` set rows then Ok (False, rows)
       else Ok (True, rows @ [\<lparr>or_sth = obs, or_envelope = env\<rparr>]))"

definition observed_sth_from_row :: "crates \<Rightarrow> observed_row \<Rightarrow> SettlementError + ObservedSth" where
  "observed_sth_from_row C r =
     rbind (row_to_envelope C (or_envelope r) SETTLEMENT_STH) (\<lambda>env. Ok ((or_sth r)\<lparr>ob_envelope := env\<rparr>))"

fun read_observed :: "crates \<Rightarrow> observed_row list \<Rightarrow> SettlementError + ObservedSth list" where
  "read_observed C [] = Ok []"
| "read_observed C (r # rs) =
     rbind (observed_sth_from_row C r) (\<lambda>obs. rbind (read_observed C rs) (\<lambda>rest. Ok (obs # rest)))"

definition in_log :: "str \<Rightarrow> str \<Rightarrow> str option \<Rightarrow> ObservedSth \<Rightarrow> bool" where
  "in_log network_id shard_id source_url obs \<longleftrightarrow> ob_network_id obs = network_id \<and> ob_shard_id obs = shard_id \<and>
     (source_url = None \<or> source_url = Some (ob_source_url obs))"

definition observations_at ::
  "crates \<Rightarrow> str \<Rightarrow> str \<Rightarrow> i64 \<Rightarrow> observed_row list \<Rightarrow> SettlementError + ObservedSth list" where
  "observations_at C network_id shard_id tree_size rows =
     read_observed C (filter (\<lambda>r. in_log network_id shard_id None (or_sth r) \<and> ob_tree_size (or_sth r) = tree_size) rows)"

definition observed_sth_matching_root ::
  "crates \<Rightarrow> str \<Rightarrow> str \<Rightarrow> i64 \<Rightarrow> str \<Rightarrow> str option \<Rightarrow> observed_row list \<Rightarrow> SettlementError + ObservedSth option" where
  "observed_sth_matching_root C network_id shard_id tree_size root_hash source_url rows =
     opt_transpose (map_option (observed_sth_from_row C)
       (find (\<lambda>r. in_log network_id shard_id source_url (or_sth r) \<and> ob_tree_size (or_sth r) = tree_size \<and>
          ob_root_hash (or_sth r) = root_hash) rows))"

definition latest_observed_tree_size :: "str \<Rightarrow> str \<Rightarrow> str \<Rightarrow> observed_row list \<Rightarrow> int" where
  "latest_observed_tree_size source_url network_id shard_id rows =
     (case filter (\<lambda>r. in_log network_id shard_id (Some source_url) (or_sth r)) rows of
        [] \<Rightarrow> 0 | rs \<Rightarrow> Max ((\<lambda>r. sint (ob_tree_size (or_sth r))) ` set rs))"

definition latest_observed_sth ::
  "crates \<Rightarrow> str \<Rightarrow> str \<Rightarrow> str option \<Rightarrow> observed_row list \<Rightarrow> SettlementError + ObservedSth option" where
  "latest_observed_sth C network_id shard_id source_url rows =
     opt_transpose (map_option (observed_sth_from_row C)
       (case rev (sort_key (\<lambda>r. sint (ob_tree_size (or_sth r))) (filter (in_log network_id shard_id source_url \<circ> or_sth) rows)) of
          r # _ \<Rightarrow> Some r | [] \<Rightarrow> None))"

section \<open>Findings\<close>

text \<open>Recording, listing and resolving. \<open>now\<close> is the database's clock.\<close>

definition record_equivocation :: "EquivocationFinding \<Rightarrow> EquivocationFinding list \<Rightarrow> EquivocationFinding list" where
  "record_equivocation finding rows = rows @ [finding\<lparr>ef_resolved_at := None, ef_resolved_root_hash := None\<rparr>]"

definition list_equivocations :: "str \<Rightarrow> EquivocationFinding list \<Rightarrow> EquivocationFinding list" where
  "list_equivocations network_id rows = rev (filter (\<lambda>f. ef_network_id f = network_id) rows)"

definition unresolved_equivocations :: "str \<Rightarrow> str \<Rightarrow> EquivocationFinding list \<Rightarrow> EquivocationFinding list" where
  "unresolved_equivocations network_id shard_id rows =
     rev (filter (\<lambda>f. ef_network_id f = network_id \<and> ef_shard_id f = shard_id \<and> ef_resolved_at f = None) rows)"

definition open_finding :: "str \<Rightarrow> str \<Rightarrow> i64 \<Rightarrow> EquivocationFinding \<Rightarrow> bool" where
  "open_finding network_id shard_id tree_size f \<longleftrightarrow> ef_network_id f = network_id \<and> ef_shard_id f = shard_id \<and>
     ef_tree_size f = tree_size \<and> ef_resolved_at f = None"

definition resolve_equivocation ::
  "time \<Rightarrow> str \<Rightarrow> str \<Rightarrow> i64 \<Rightarrow> str \<Rightarrow> EquivocationFinding list \<Rightarrow> nat \<times> EquivocationFinding list" where
  "resolve_equivocation now network_id shard_id tree_size legitimate rows =
     (length (filter (open_finding network_id shard_id tree_size) rows),
      map (\<lambda>f. if open_finding network_id shard_id tree_size f
        then f\<lparr>ef_resolved_at := Some now, ef_resolved_root_hash := Some legitimate\<rparr> else f) rows)"

section \<open>Evidence\<close>

datatype EquivocationEvidenceKind = Author | WitnessKind

fun evidence_as_str :: "EquivocationEvidenceKind \<Rightarrow> str" where
  "evidence_as_str Author = ''author''"
| "evidence_as_str WitnessKind = ''witness''"

definition evidence_parse :: "str \<Rightarrow> SettlementError + EquivocationEvidenceKind" where
  "evidence_parse value =
     (if value = ''author'' then Ok Author else if value = ''witness'' then Ok WitnessKind
      else Err (Storage ''unknown equivocation evidence kind''))"

record WitnessEquivocationEvidence =
  ee_kind :: EquivocationEvidenceKind
  ee_network_id :: str
  ee_shard_id :: str
  ee_tree_size :: i64
  ee_head_a :: CosignedTreeHead
  ee_head_b :: CosignedTreeHead
  ee_witnesses :: "str list"
  ee_detected_at :: "time option"

record CosignatureRecord =
  cr_witness_key_id :: str
  cr_observed_at :: time
  cr_signature :: str
  cr_envelope :: EnvelopeWire

definition cosignatures_to_json :: "crates \<Rightarrow> WitnessCosignature list \<Rightarrow> CosignatureRecord list" where
  "cosignatures_to_json C cosigs =
     map (\<lambda>c. \<lparr>cr_witness_key_id = c_witness_key_id c, cr_observed_at = c_observed_at c, cr_signature = c_signature c,
       cr_envelope = wire_of_envelope C (c_envelope c)\<rparr>) cosigs"

fun cosignatures_from_json ::
  "crates \<Rightarrow> CosignatureRecord list \<Rightarrow> SignedTreeHead \<Rightarrow> SettlementError + WitnessCosignature list" where
  "cosignatures_from_json C [] sth = Ok []"
| "cosignatures_from_json C (r # rs) sth =
     rbind (map_err from_layout (to_envelope C (cr_envelope r) WITNESS_COSIGN)) (\<lambda>env.
     rbind (cosignatures_from_json C rs sth) (\<lambda>rest.
     Ok (\<lparr>c_tree_size = sth_tree_size sth, c_root_hash = sth_root_hash sth, c_network_id = sth_network_id sth,
          c_author_created_at = sth_created_at sth, c_author_key_id = sth_signing_key_id sth,
          c_author_signature = sth_signature sth, c_witness_key_id = cr_witness_key_id r,
          c_observed_at = cr_observed_at r, c_signature = cr_signature r, c_envelope = env\<rparr> # rest)))"

record head_columns =
  hc_root_hash :: str
  hc_signing_key_id :: str
  hc_signature :: str
  hc_created_at :: time
  hc_cosignatures :: "CosignatureRecord list"
  hc_envelope :: EnvelopeWire

record evidence_row =
  er_network_id :: str
  er_shard_id :: str
  er_tree_size :: i64
  er_a :: head_columns
  er_b :: head_columns
  er_witnesses :: "str list"
  er_kind :: str
  er_detected_at :: time

definition head_to_columns :: "crates \<Rightarrow> CosignedTreeHead \<Rightarrow> head_columns" where
  "head_to_columns C h = \<lparr>hc_root_hash = sth_root_hash (head_sth h), hc_signing_key_id = sth_signing_key_id (head_sth h),
     hc_signature = sth_signature (head_sth h), hc_created_at = sth_created_at (head_sth h),
     hc_cosignatures = cosignatures_to_json C (cosignatures h), hc_envelope = wire_of_envelope C (sth_envelope (head_sth h))\<rparr>"

text \<open>The root hashes are compared as strings, byte by byte.\<close>

definition record_witness_equivocation_evidence ::
  "crates \<Rightarrow> time \<Rightarrow> WitnessEquivocationEvidence \<Rightarrow> evidence_row list \<Rightarrow> evidence_row list" where
  "record_witness_equivocation_evidence C now ev rows =
     (let a = ee_head_a ev; b = ee_head_b ev;
          in_order = map ord (sth_root_hash (head_sth a)) \<le> map ord (sth_root_hash (head_sth b));
          first = (if in_order then a else b); second = (if in_order then b else a);
          key = (ee_network_id ev, ee_shard_id ev, ee_tree_size ev, sth_root_hash (head_sth first), sth_root_hash (head_sth second))
      in if key \<in> (\<lambda>r. (er_network_id r, er_shard_id r, er_tree_size r, hc_root_hash (er_a r), hc_root_hash (er_b r))) ` set rows
         then rows
         else rows @ [\<lparr>er_network_id = ee_network_id ev, er_shard_id = ee_shard_id ev, er_tree_size = ee_tree_size ev,
           er_a = head_to_columns C first, er_b = head_to_columns C second, er_witnesses = ee_witnesses ev,
           er_kind = evidence_as_str (ee_kind ev), er_detected_at = now\<rparr>])"

definition head_from_columns ::
  "crates \<Rightarrow> str \<Rightarrow> i64 \<Rightarrow> head_columns \<Rightarrow> SettlementError + CosignedTreeHead" where
  "head_from_columns C network_id tree_size h =
     rbind (map_err from_layout (to_envelope C (hc_envelope h) SETTLEMENT_STH)) (\<lambda>env.
     let sth = \<lparr>sth_tree_size = tree_size, sth_root_hash = hc_root_hash h, sth_network_id = network_id,
           sth_signing_key_id = hc_signing_key_id h, sth_signature = hc_signature h, sth_created_at = hc_created_at h,
           sth_envelope = env\<rparr>
     in rbind (cosignatures_from_json C (hc_cosignatures h) sth) (\<lambda>cosigs.
        Ok \<lparr>head_sth = sth, cosignatures = cosigs\<rparr>))"

fun read_evidence :: "crates \<Rightarrow> evidence_row list \<Rightarrow> SettlementError + WitnessEquivocationEvidence list" where
  "read_evidence C [] = Ok []"
| "read_evidence C (r # rs) =
     rbind (evidence_parse (er_kind r)) (\<lambda>kind.
     rbind (head_from_columns C (er_network_id r) (er_tree_size r) (er_a r)) (\<lambda>head_a.
     rbind (head_from_columns C (er_network_id r) (er_tree_size r) (er_b r)) (\<lambda>head_b.
     rbind (read_evidence C rs) (\<lambda>rest.
     Ok (\<lparr>ee_kind = kind, ee_network_id = er_network_id r, ee_shard_id = er_shard_id r, ee_tree_size = er_tree_size r,
          ee_head_a = head_a, ee_head_b = head_b, ee_witnesses = er_witnesses r, ee_detected_at = Some (er_detected_at r)\<rparr> # rest)))))"

definition witness_equivocation_evidence_for ::
  "crates \<Rightarrow> str \<Rightarrow> str \<Rightarrow> evidence_row list \<Rightarrow> SettlementError + WitnessEquivocationEvidence list" where
  "witness_equivocation_evidence_for C network_id shard_id rows =
     read_evidence C (rev (filter (\<lambda>r. er_network_id r = network_id \<and> er_shard_id r = shard_id) rows))"

section \<open>Mirrored entries\<close>

record MirroredEntry =
  me_source_url :: str
  me_network_id :: str
  me_shard_id :: str
  me_seq :: int
  me_event_id :: bytes
  me_kind :: str
  me_issuer :: str
  me_subject :: str
  me_payload :: "json option"
  me_payload_hash :: str
  me_event_timestamp :: time
  me_version :: int
  me_prev_hash :: str
  me_entry_hash :: str
  me_batch_id :: bytes
  me_verified_tree_size :: int
  me_envelope :: EnvelopeWire

definition entry_content :: "MirroredEntry \<Rightarrow> Envelope \<Rightarrow> EntryContent" where
  "entry_content e env = \<lparr>ec_seq = me_seq e, ec_event_id = me_event_id e, ec_kind = me_kind e, ec_issuer = me_issuer e,
     ec_subject = me_subject e, ec_payload_hash = me_payload_hash e, ec_timestamp = me_event_timestamp e,
     ec_version = me_version e, ec_envelope = env\<rparr>"

definition recomputed_hash :: "crates \<Rightarrow> MirroredEntry \<Rightarrow> SettlementError + str option" where
  "recomputed_hash C e =
     rbind (map_err from_layout (to_envelope C (me_envelope e) LEDGER_ENTRY)) (\<lambda>env.
       if \<not> payload_matches C (me_payload e) (me_payload_hash e) then Ok None
       else Ok (result_ok (hash_entry C (me_network_id e) (me_shard_id e) (me_prev_hash e) (entry_content e env))))"

record mirrored_row =
  mr_entry :: MirroredEntry
  mr_envelope :: EnvelopeRow
  mr_mirrored_at :: time

definition mirrored_key :: "MirroredEntry \<Rightarrow> str \<times> str \<times> int" where
  "mirrored_key e = (me_network_id e, me_shard_id e, me_seq e)"

definition insert_mirrored_entry ::
  "crates \<Rightarrow> (json \<Rightarrow> json) \<Rightarrow> time \<Rightarrow> MirroredEntry \<Rightarrow> mirrored_row list \<Rightarrow> SettlementError + bool \<times> mirrored_row list" where
  "insert_mirrored_entry C jsonb now entry rows =
     rbind (case me_payload entry of Some p \<Rightarrow> map_err InvalidPayload (validate p) | None \<Rightarrow> Ok ()) (\<lambda>_.
     if me_payload entry = None then Err (MirroredPayloadUnverifiable (me_seq entry))
     else
       rbind (recomputed_hash C entry) (\<lambda>h.
       if h \<noteq> Some (me_entry_hash entry) then Err (MirroredContentMismatch (me_seq entry))
       else
         rbind (row_from_wire C (me_envelope entry)) (\<lambda>env.
         if mirrored_key entry \<in> (mirrored_key \<circ> mr_entry) ` set rows then Ok (False, rows)
         else Ok (True, rows @ [\<lparr>mr_entry = entry\<lparr>me_payload := map_option jsonb (me_payload entry),
             me_event_timestamp := pg_time (me_event_timestamp entry)\<rparr>,
           mr_envelope = env, mr_mirrored_at = now\<rparr>]))))"

definition mirrored_entry_from_row :: "crates \<Rightarrow> mirrored_row \<Rightarrow> MirroredEntry" where
  "mirrored_entry_from_row C r = (mr_entry r)\<lparr>me_envelope := row_to_wire C (mr_envelope r)\<rparr>"

text \<open>The rows of one shard's log, in the order of their sequence numbers.\<close>

definition of_log :: "str \<Rightarrow> str \<Rightarrow> str option \<Rightarrow> MirroredEntry \<Rightarrow> bool" where
  "of_log network_id shard_id source_url e \<longleftrightarrow> me_network_id e = network_id \<and> me_shard_id e = shard_id \<and>
     (source_url = None \<or> source_url = Some (me_source_url e))"

definition log_rows :: "str \<Rightarrow> str \<Rightarrow> str option \<Rightarrow> mirrored_row list \<Rightarrow> mirrored_row list" where
  "log_rows network_id shard_id source_url rows =
     sort_key (me_seq \<circ> mr_entry) (filter (of_log network_id shard_id source_url \<circ> mr_entry) rows)"

definition discard_mirrored_entries_from :: "str \<Rightarrow> str \<Rightarrow> int \<Rightarrow> mirrored_row list \<Rightarrow> nat \<times> mirrored_row list" where
  "discard_mirrored_entries_from network_id shard_id from_tree_size rows =
     (let dropped = (\<lambda>r. of_log network_id shard_id None (mr_entry r) \<and> me_verified_tree_size (mr_entry r) \<ge> from_tree_size)
      in (length (filter dropped rows), filter (\<lambda>r. \<not> dropped r) rows))"

record MirrorProgress =
  mp_last_seq :: int
  mp_verified_count :: nat

definition mirrored_progress :: "str \<Rightarrow> str \<Rightarrow> str option \<Rightarrow> mirrored_row list \<Rightarrow> MirrorProgress" where
  "mirrored_progress network_id shard_id source_url rows =
     (let log = log_rows network_id shard_id source_url rows in
      \<lparr>mp_last_seq = (if log = [] then 0 else Max ((me_seq \<circ> mr_entry) ` set log)), mp_verified_count = length log\<rparr>)"

definition mirrored_entry_hash_at :: "str \<Rightarrow> str \<Rightarrow> int \<Rightarrow> mirrored_row list \<Rightarrow> str option" where
  "mirrored_entry_hash_at network_id shard_id sq rows =
     map_option (me_entry_hash \<circ> mr_entry)
       (find (\<lambda>r. of_log network_id shard_id None (mr_entry r) \<and> me_seq (mr_entry r) = sq) rows)"

definition last_mirrored_at :: "str \<Rightarrow> str \<Rightarrow> mirrored_row list \<Rightarrow> time option" where
  "last_mirrored_at network_id shard_id rows =
     (case filter (of_log network_id shard_id None \<circ> mr_entry) rows of
        [] \<Rightarrow> None | rs \<Rightarrow> Some (Max (mr_mirrored_at ` set rs)))"

definition mirrored_entries_since ::
  "crates \<Rightarrow> str \<Rightarrow> str \<Rightarrow> int \<Rightarrow> nat \<Rightarrow> str option \<Rightarrow> str option \<Rightarrow> mirrored_row list \<Rightarrow> MirroredEntry list" where
  "mirrored_entries_since C network_id shard_id since_seq limit subject source_url rows =
     map (mirrored_entry_from_row C) (take limit
       (filter (\<lambda>r. me_seq (mr_entry r) > since_seq \<and> (subject = None \<or> subject = Some (me_subject (mr_entry r))))
         (log_rows network_id shard_id source_url rows)))"

definition mirrored_entry_hashes_up_to :: "str \<Rightarrow> str \<Rightarrow> nat \<Rightarrow> str option \<Rightarrow> mirrored_row list \<Rightarrow> str list" where
  "mirrored_entry_hashes_up_to network_id shard_id tree_size source_url rows =
     map (me_entry_hash \<circ> mr_entry) (take tree_size (log_rows network_id shard_id source_url rows))"

definition mirrored_leaf_index_for_seq :: "str \<Rightarrow> str \<Rightarrow> int \<Rightarrow> str option \<Rightarrow> mirrored_row list \<Rightarrow> int option" where
  "mirrored_leaf_index_for_seq network_id shard_id sq source_url rows =
     (let log = log_rows network_id shard_id source_url rows in
      if sq \<in> (me_seq \<circ> mr_entry) ` set log
      then Some (int (length (filter (\<lambda>r. me_seq (mr_entry r) \<le> sq) log)) - 1) else None)"

text \<open>\<open>LAG(entry_hash) OVER (ORDER BY seq)\<close>: each row against the one before it.\<close>

fun chain_breaks_from :: "str option \<Rightarrow> mirrored_row list \<Rightarrow> int list" where
  "chain_breaks_from expected [] = []"
| "chain_breaks_from expected (r # rs) =
     (if expected \<noteq> None \<and> expected \<noteq> Some (me_prev_hash (mr_entry r)) then [me_seq (mr_entry r)] else []) @
     chain_breaks_from (Some (me_entry_hash (mr_entry r))) rs"

definition mirrored_chain_breaks :: "str \<Rightarrow> str \<Rightarrow> str option \<Rightarrow> mirrored_row list \<Rightarrow> int list" where
  "mirrored_chain_breaks network_id shard_id source_url rows =
     chain_breaks_from None (log_rows network_id shard_id source_url rows)"

section \<open>Convergence\<close>

record ConvergenceInputs =
  ci_mirrored_count :: nat
  ci_latest_observed :: "int option"
  ci_matching :: bool
  ci_chain_breaks :: "int list"
  ci_unresolved :: nat

datatype ConvergenceVerdict =
    Converged nat | NothingMirrored | Behind nat int | NoObservedSth | RootMismatch nat | ChainBroken nat
  | BlockedByEquivocation nat

definition evaluate_convergence :: "ConvergenceInputs \<Rightarrow> ConvergenceVerdict" where
  "evaluate_convergence i =
     (if ci_unresolved i > 0 then BlockedByEquivocation (ci_unresolved i)
      else if ci_chain_breaks i \<noteq> [] then ChainBroken (length (ci_chain_breaks i))
      else if ci_mirrored_count i = 0 then NothingMirrored
      else
        case ci_latest_observed i of
          None \<Rightarrow> NoObservedSth
        | Some observed \<Rightarrow>
            if observed > int (ci_mirrored_count i) then Behind (ci_mirrored_count i) observed
            else if ci_matching i then Converged (ci_mirrored_count i)
            else RootMismatch (ci_mirrored_count i))"

record ConvergenceReport =
  cv_mirrored_count :: nat
  cv_recomputed_root :: "str option"
  cv_latest_observed :: "ObservedSth option"
  cv_chain_breaks :: "int list"
  cv_unresolved :: nat
  cv_verdict :: ConvergenceVerdict

record mirror_db =
  md_observed :: "observed_row list"
  md_entries :: "mirrored_row list"
  md_findings :: "EquivocationFinding list"

definition check_convergence :: "crates \<Rightarrow> mirror_db \<Rightarrow> str \<Rightarrow> str \<Rightarrow> str option \<Rightarrow> SettlementError + ConvergenceReport" where
  "check_convergence C d network_id shard_id source_url =
     (let progress = mirrored_progress network_id shard_id source_url (md_entries d);
          hashes = mirrored_entry_hashes_up_to network_id shard_id (mp_verified_count progress) source_url (md_entries d)
      in rbind (if hashes = [] then Ok None
           else rbind (map_err Storage (mth_of_hex_hashes C ledger_tree_algo hashes)) (\<lambda>root. Ok (Some (hex_encode C root)))) (\<lambda>root.
         rbind (latest_observed_sth C network_id shard_id source_url (md_observed d)) (\<lambda>latest.
         rbind (case root of
             Some r \<Rightarrow> observed_sth_matching_root C network_id shard_id (of_nat (mp_verified_count progress)) r source_url (md_observed d)
           | None \<Rightarrow> Ok None) (\<lambda>matching.
         let breaks = mirrored_chain_breaks network_id shard_id source_url (md_entries d);
             unresolved = length (unresolved_equivocations network_id shard_id (md_findings d))
         in Ok \<lparr>cv_mirrored_count = mp_verified_count progress, cv_recomputed_root = root, cv_latest_observed = latest,
              cv_chain_breaks = breaks, cv_unresolved = unresolved,
              cv_verdict = evaluate_convergence \<lparr>ci_mirrored_count = mp_verified_count progress,
                ci_latest_observed = map_option (sint \<circ> ob_tree_size) latest, ci_matching = (matching \<noteq> None),
                ci_chain_breaks = breaks, ci_unresolved = unresolved\<rparr>\<rparr>))))"

section \<open>Witness checkpoints\<close>

record WitnessCheckpoint =
  wc_network_id :: str
  wc_shard_id :: str
  wc_tree_size :: i64
  wc_root_hash :: str
  wc_witness_key_id :: str
  wc_cosigned_at :: time

definition checkpoint_of :: "str \<Rightarrow> str \<Rightarrow> WitnessCheckpoint \<Rightarrow> bool" where
  "checkpoint_of network_id shard_id c \<longleftrightarrow> wc_network_id c = network_id \<and> wc_shard_id c = shard_id"

definition witness_checkpoint_for :: "str \<Rightarrow> str \<Rightarrow> WitnessCheckpoint list \<Rightarrow> WitnessCheckpoint option" where
  "witness_checkpoint_for network_id shard_id rows = find (checkpoint_of network_id shard_id) rows"

definition record_witness_checkpoint ::
  "time \<Rightarrow> str \<Rightarrow> str \<Rightarrow> i64 \<Rightarrow> str \<Rightarrow> str \<Rightarrow> WitnessCheckpoint list \<Rightarrow> WitnessCheckpoint list" where
  "record_witness_checkpoint now network_id shard_id tree_size root_hash key_id rows =
     (let new = \<lparr>wc_network_id = network_id, wc_shard_id = shard_id, wc_tree_size = tree_size, wc_root_hash = root_hash,
            wc_witness_key_id = key_id, wc_cosigned_at = now\<rparr> in
      if \<exists>c\<in>set rows. checkpoint_of network_id shard_id c
      then map (\<lambda>c. if checkpoint_of network_id shard_id c \<and> sint (wc_tree_size c) < sint tree_size then new else c) rows
      else rows @ [new])"

end
