(* ===== verification/Promotion.thy ===== *)
theory Promotion
  imports Mirror
begin

text \<open>
  Model of \<open>crates/chain/src/promotion.rs\<close>: a mirror's copy of a shard becomes the ledger of a
  replacement node. The plan builder checks and hashes the entries one by one, the promotion writes
  them in one transaction and checks the result. \<open>None\<close> is a panic.
\<close>

section \<open>The plan\<close>

datatype PromotionError =
    NotConverged ConvergenceVerdict | TargetNotFresh str | PromotionGenesisMismatch str str | SameDatabase
  | FirstEntryNotGenesis int str | BrokenLink int | HashMismatch int | InvalidHash int str | SeqOrder int
  | BatchNotContiguous bytes int | PlanNothingMirrored | PlanRootMismatch nat str str | NoFinalSth nat
  | PostCommitVerification str | PromotionSettlement SettlementError | PromotionStorage str

record PlannedBatch =
  pl_batch_id :: bytes
  pl_first_seq :: int
  pl_last_seq :: int
  pl_tree_size :: nat
  pl_batch_root :: str

record PlanBuilder =
  pb_network_id :: str
  pb_shard_id :: str
  pb_tree :: IncrementalMerkleTree
  pb_prev_hash :: str
  pb_last_seq :: "int option"
  pb_batches :: "(bytes \<times> int \<times> int \<times> nat) list"
  pb_seen :: "bytes list"
  pb_pruned :: nat

record PromotionPlan =
  pp_batches :: "PlannedBatch list"
  pp_tree_size :: nat
  pp_highest_seq :: int
  pp_pruned :: nat
  pp_tree :: IncrementalMerkleTree

definition builder_new :: "str \<Rightarrow> str \<Rightarrow> PlanBuilder" where
  "builder_new network_id shard_id =
     \<lparr>pb_network_id = network_id, pb_shard_id = shard_id,
      pb_tree = imt_new (hash_algo (envelope_current SETTLEMENT_STH)), pb_prev_hash = GENESIS_HASH,
      pb_last_seq = None, pb_batches = [], pb_seen = [], pb_pruned = 0\<rparr>"

definition push_batch :: "bytes \<Rightarrow> int \<Rightarrow> nat \<Rightarrow> PlanBuilder \<Rightarrow> PromotionError + PlanBuilder" where
  "push_batch bid sq tsz b =
     (case rev (pb_batches b) of
        (current, first, last_seq, tree_size) # earlier \<Rightarrow>
          if current = bid then Ok (b\<lparr>pb_batches := rev earlier @ [(current, first, sq, tsz)]\<rparr>)
          else if bid \<in> set (pb_seen b) then Err (BatchNotContiguous bid sq)
          else Ok (b\<lparr>pb_seen := bid # pb_seen b, pb_batches := pb_batches b @ [(bid, sq, sq, tsz)]\<rparr>)
      | [] \<Rightarrow>
          if bid \<in> set (pb_seen b) then Err (BatchNotContiguous bid sq)
          else Ok (b\<lparr>pb_seen := bid # pb_seen b, pb_batches := pb_batches b @ [(bid, sq, sq, tsz)]\<rparr>))"

definition plan_push :: "crates \<Rightarrow> PlanBuilder \<Rightarrow> MirroredEntry \<Rightarrow> PromotionError + PlanBuilder" where
  "plan_push C b entry =
     (if (case pb_last_seq b of Some l \<Rightarrow> me_seq entry \<le> l | None \<Rightarrow> False) then Err (SeqOrder (me_seq entry))
      else if me_prev_hash entry \<noteq> pb_prev_hash b then
        (if pb_last_seq b = None then Err (FirstEntryNotGenesis (me_seq entry) (me_prev_hash entry))
         else Err (BrokenLink (me_seq entry)))
      else
        rbind (map_err PromotionSettlement (recomputed_hash C entry)) (\<lambda>recomputed.
        if me_network_id entry \<noteq> pb_network_id b \<or> me_shard_id entry \<noteq> pb_shard_id b \<or> recomputed \<noteq> Some (me_entry_hash entry)
        then Err (HashMismatch (me_seq entry))
        else
          let pruned = (if me_payload entry = None then pb_pruned b + 1 else pb_pruned b) in
          rbind (ok_or (InvalidHash (me_seq entry) ''hex'') (hex_decode C (me_entry_hash entry))) (\<lambda>leaf.
          if length leaf \<noteq> 32 then Err (InvalidHash (me_seq entry) ''length'')
          else
            let grown = imt_append C leaf (pb_tree b) in
            rbind (push_batch (me_batch_id entry) (me_seq entry) (imt_size grown) (b\<lparr>pb_pruned := pruned, pb_tree := grown\<rparr>)) (\<lambda>b'.
            Ok (b'\<lparr>pb_prev_hash := me_entry_hash entry, pb_last_seq := Some (me_seq entry)\<rparr>)))))"

fun planned_batches :: "crates \<Rightarrow> IncrementalMerkleTree \<Rightarrow> (bytes \<times> int \<times> int \<times> nat) list \<Rightarrow> PlannedBatch list option" where
  "planned_batches C t [] = Some []"
| "planned_batches C t ((bid, f, l, n) # bs) =
     (case imt_root C t n of
        Some (Some root) \<Rightarrow>
          map_option (\<lambda>rest. \<lparr>pl_batch_id = bid, pl_first_seq = f, pl_last_seq = l, pl_tree_size = n,
            pl_batch_root = hex_encode C root\<rparr> # rest) (planned_batches C t bs)
      | _ \<Rightarrow> None)"

definition plan_finish :: "crates \<Rightarrow> PlanBuilder \<Rightarrow> (PromotionError + PromotionPlan) option" where
  "plan_finish C b =
     (case pb_last_seq b of
        None \<Rightarrow> Some (Err PlanNothingMirrored)
      | Some highest \<Rightarrow>
          map_option (\<lambda>bs. Ok \<lparr>pp_batches = bs, pp_tree_size = imt_size (pb_tree b), pp_highest_seq = highest,
            pp_pruned = pb_pruned b, pp_tree = pb_tree b\<rparr>) (planned_batches C (pb_tree b) (pb_batches b)))"

definition plan_root_at :: "crates \<Rightarrow> PromotionPlan \<Rightarrow> int \<Rightarrow> str option option" where
  "plan_root_at C plan tree_size =
     (if tree_size < 1 then Some None
      else map_option (map_option (hex_encode C)) (imt_root C (pp_tree plan) (nat tree_size)))"

definition plan_final_root :: "crates \<Rightarrow> PromotionPlan \<Rightarrow> str option" where
  "plan_final_root C plan = Option.bind (plan_root_at C plan (int (pp_tree_size plan))) id"

fun choose_sths :: "crates \<Rightarrow> PromotionPlan \<Rightarrow> i64 list \<Rightarrow> ObservedSth list \<Rightarrow> ObservedSth list option" where
  "choose_sths C plan sizes [] = Some []"
| "choose_sths C plan sizes (sth # rest) =
     (if sint (ob_tree_size sth) < 1 \<or> sint (ob_tree_size sth) > int (pp_tree_size plan) \<or> ob_tree_size sth \<in> set sizes
      then choose_sths C plan sizes rest
      else
        case plan_root_at C plan (sint (ob_tree_size sth)) of
          None \<Rightarrow> None
        | Some root \<Rightarrow>
            if root = Some (ob_root_hash sth)
            then map_option (Cons sth) (choose_sths C plan (ob_tree_size sth # sizes) rest)
            else choose_sths C plan sizes rest)"

definition select_sths :: "crates \<Rightarrow> PromotionPlan \<Rightarrow> ObservedSth list \<Rightarrow> ObservedSth list option" where
  "select_sths C plan observed = map_option (sort_key (sint \<circ> ob_tree_size)) (choose_sths C plan [] observed)"

section \<open>The promotion\<close>

record PromoteParams =
  pr_network_id :: str
  pr_shard_id :: str
  pr_source_url :: "str option"
  pr_dry_run :: bool

record PromotionReport =
  rp_network_id :: str
  rp_shard_id :: str
  rp_dry_run :: bool
  rp_entries :: nat
  rp_batches :: nat
  rp_highest_seq :: int
  rp_pruned_entries :: nat
  rp_root :: str
  rp_sths_carried :: nat
  rp_sths_missing :: nat
  rp_genesis_written :: bool
  rp_next_seq :: int

record promotion_target =
  tg_genesis :: "str option"
  tg_db :: ledger_db

definition check_target_fresh :: "promotion_target \<Rightarrow> str \<Rightarrow> PromotionError + bool" where
  "check_target_fresh t network_id =
     (if db_entries (tg_db t) \<noteq> [] then Err (TargetNotFresh ''ledger_entries'')
      else if db_batches (tg_db t) \<noteq> [] then Err (TargetNotFresh ''ledger_batches'')
      else if db_heads (tg_db t) \<noteq> [] then Err (TargetNotFresh ''signed_tree_heads'')
      else
        case tg_genesis t of
          None \<Rightarrow> Ok True
        | Some stored \<Rightarrow> if stored = network_id then Ok False else Err (PromotionGenesisMismatch stored network_id))"

definition PAGE_SIZE :: nat where "PAGE_SIZE = 2000"

definition entry_row :: "(json \<Rightarrow> json) \<Rightarrow> time \<Rightarrow> MirroredEntry \<Rightarrow> EnvelopeRow \<Rightarrow> ledger_row" where
  "entry_row jsonb now e env = \<lparr>l_seq = me_seq e, l_event_id = me_event_id e, l_kind = me_kind e, l_issuer = me_issuer e,
     l_subject = me_subject e, l_payload = map_option jsonb (me_payload e), l_payload_hash = me_payload_hash e,
     l_pruned_at = (if me_payload e = None then Some now else None), l_timestamp = me_event_timestamp e,
     l_version = me_version e, l_prev_hash = me_prev_hash e, l_entry_hash = me_entry_hash e, l_batch_id = me_batch_id e,
     l_envelope = env, l_committed_at = now\<rparr>"

definition promote_insert_entry ::
  "crates \<Rightarrow> (json \<Rightarrow> json) \<Rightarrow> time \<Rightarrow> MirroredEntry \<Rightarrow> ledger_row list \<Rightarrow> PromotionError + ledger_row list" where
  "promote_insert_entry C jsonb now e rows =
     rbind (map_err (\<lambda>_. PromotionStorage ''envelope'') (row_from_wire C (me_envelope e))) (\<lambda>env.
       if me_seq e \<in> l_seq ` set rows \<or> me_entry_hash e \<in> l_entry_hash ` set rows then Err (PromotionStorage ''duplicate key'')
       else Ok (rows @ [entry_row jsonb now e env]))"

fun push_page ::
  "crates \<Rightarrow> (json \<Rightarrow> json) \<Rightarrow> time \<Rightarrow> bool \<Rightarrow> MirroredEntry list \<Rightarrow> PlanBuilder \<Rightarrow> ledger_row list \<Rightarrow>
   PromotionError + PlanBuilder \<times> ledger_row list" where
  "push_page C jsonb now dry [] b rows = Ok (b, rows)"
| "push_page C jsonb now dry (e # es) b rows =
     rbind (plan_push C b e) (\<lambda>b'.
     rbind (if dry then Ok rows else promote_insert_entry C jsonb now e rows) (\<lambda>rows'.
     push_page C jsonb now dry es b' rows'))"

lemma page_entry:
  assumes "e \<in> set (mirrored_entries_since C net shard since limit subject source_url rows)"
  shows "\<exists>r\<in>set rows. since < me_seq (mr_entry r) \<and> me_seq (mr_entry r) = me_seq e"
proof -
  obtain r where r: "r \<in> set (take limit (filter (\<lambda>r. since < me_seq (mr_entry r) \<and> (subject = None \<or> subject = Some (me_subject (mr_entry r))))
      (log_rows net shard source_url rows)))" "e = mirrored_entry_from_row C r"
    using assms by (auto simp: mirrored_entries_since_def)
  from in_set_takeD [OF r(1)] show ?thesis by (auto simp: log_rows_def r(2) mirrored_entry_from_row_def)
qed

text \<open>The paging loop. Every page is beyond the last sequence number read, so the loop ends.\<close>

function push_pages ::
  "crates \<Rightarrow> (json \<Rightarrow> json) \<Rightarrow> time \<Rightarrow> PromoteParams \<Rightarrow> mirrored_row list \<Rightarrow> int \<Rightarrow> PlanBuilder \<Rightarrow> ledger_row list \<Rightarrow>
   PromotionError + PlanBuilder \<times> ledger_row list" where
  "push_pages C jsonb now params source since b rows =
     (let page = mirrored_entries_since C (pr_network_id params) (pr_shard_id params) since PAGE_SIZE None (pr_source_url params) source
      in if page = [] then Ok (b, rows)
         else
           case push_page C jsonb now (pr_dry_run params) page b rows of
             Inl e \<Rightarrow> Err e
           | Inr (b', rows') \<Rightarrow> push_pages C jsonb now params source (me_seq (last page)) b' rows')"
  by pat_completeness auto
termination
proof (relation "measure (\<lambda>(C, jsonb, now, params, source, since, b, rows).
    length (filter (\<lambda>r. me_seq (mr_entry r) > since) source))", goal_cases)
  case (2 C jsonb now params source since b rows page)
  then obtain r where r: "r \<in> set source" "since < me_seq (mr_entry r)" "me_seq (mr_entry r) = me_seq (last page)"
    using page_entry [of "last page"] last_in_set by metis
  have "length (filter (\<lambda>r. me_seq (last page) < me_seq (mr_entry r)) (filter (\<lambda>r. since < me_seq (mr_entry r)) source)) <
      length (filter (\<lambda>r. since < me_seq (mr_entry r)) source)"
    using r by (intro length_filter_less [of r]) auto
  moreover have "filter (\<lambda>r. me_seq (last page) < me_seq (mr_entry r)) (filter (\<lambda>r. since < me_seq (mr_entry r)) source) =
      filter (\<lambda>r. me_seq (last page) < me_seq (mr_entry r)) source"
    using r(2,3) by (auto intro!: filter_cong)
  ultimately show ?case by simp
qed simp

declare push_pages.simps [simp del]

text \<open>The commit times of the batches come from the carried heads.\<close>

definition batch_time :: "ObservedSth list \<Rightarrow> time \<Rightarrow> nat \<Rightarrow> time" where
  "batch_time sths now tree_size =
     (case find (\<lambda>s. ob_tree_size s = of_nat tree_size) sths of Some s \<Rightarrow> ob_created_at s | None \<Rightarrow> now)"

definition planned_row :: "ObservedSth list \<Rightarrow> time \<Rightarrow> PlannedBatch \<Rightarrow> batch_row" where
  "planned_row sths now b = \<lparr>b_batch_id = pl_batch_id b, b_first_seq = pl_first_seq b, b_last_seq = pl_last_seq b,
     b_batch_root = pl_batch_root b, b_committed_at = batch_time sths now (pl_tree_size b)\<rparr>"

definition stamp_row :: "batch_row list \<Rightarrow> ledger_row \<Rightarrow> ledger_row" where
  "stamp_row batches r =
     (case find (\<lambda>b. b_batch_id b = l_batch_id r) batches of
        Some b \<Rightarrow> r\<lparr>l_committed_at := b_committed_at b\<rparr> | None \<Rightarrow> r)"

fun carried_heads :: "crates \<Rightarrow> ObservedSth list \<Rightarrow> PromotionError + head_row list" where
  "carried_heads C [] = Ok []"
| "carried_heads C (s # ss) =
     rbind (map_err (\<lambda>_. PromotionStorage ''envelope'') (row_from_envelope C (ob_envelope s))) (\<lambda>env.
     rbind (carried_heads C ss) (\<lambda>rest. Ok (\<lparr>h_head = sth_of_observed s, h_envelope = env\<rparr> # rest)))"

definition target_ledger :: "str \<Rightarrow> str \<Rightarrow> ledger_db \<Rightarrow> settlement" where
  "target_ledger network_id shard_id d = \<lparr>st_network = network_id, st_shard = shard_id, st_db = d, st_cache = cache_default\<rparr>"

definition verify_target :: "crates \<Rightarrow> promotion_target \<Rightarrow> str \<Rightarrow> PromotionPlan \<Rightarrow> (str + unit) option" where
  "verify_target C t shard_id plan =
     (case tg_genesis t of
        None \<Rightarrow> Some (Err ''target has no genesis'')
      | Some network_id \<Rightarrow>
          (let st = target_ledger network_id shard_id (tg_db t); entries = list_entries C st in
           if \<exists>v\<in>set entries. \<not> v_chain_intact v then Some (Err ''not chain-intact'')
           else if length entries \<noteq> pp_tree_size plan then Some (Err ''entry count'')
           else
             case root_at C (pp_tree_size plan) st of
               None \<Rightarrow> None
             | Some (Inl e, _) \<Rightarrow> Some (Err ''root'')
             | Some (Inr root, st') \<Rightarrow>
                 if map_option (hex_encode C) root \<noteq> plan_final_root C plan then Some (Err ''tree root differs'')
                 else if map b_batch_root (list_batches st) \<noteq> map pl_batch_root (pp_batches plan)
                 then Some (Err ''batch roots differ'')
                 else Some (Ok ())))"

definition observed_sths_for :: "crates \<Rightarrow> observed_row list \<Rightarrow> PromoteParams \<Rightarrow> SettlementError + ObservedSth list" where
  "observed_sths_for C rows params =
     read_observed C (sort_key (sint \<circ> ob_tree_size \<circ> or_sth) (sort_key (ob_observed_at \<circ> or_sth)
       (filter (in_log (pr_network_id params) (pr_shard_id params) (pr_source_url params) \<circ> or_sth) rows)))"

text \<open>The part of \<open>promote_mirror\<close> after the plan matched the converged root.\<close>

definition promote_plan ::
  "crates \<Rightarrow> time \<Rightarrow> mirror_db \<Rightarrow> promotion_target \<Rightarrow> PromoteParams \<Rightarrow> bool \<Rightarrow> ledger_row list \<Rightarrow> PromotionPlan \<Rightarrow> str \<Rightarrow>
   ((PromotionError + PromotionReport) \<times> promotion_target) option" where
  "promote_plan C now source target params write_genesis rows plan final_root =
     (case observed_sths_for C (md_observed source) params of
        Inl e \<Rightarrow> Some (Err (PromotionSettlement e), target)
      | Inr observed \<Rightarrow>
          (case select_sths C plan observed of
             None \<Rightarrow> None
           | Some sths \<Rightarrow>
               if sths = [] \<or> sint (ob_tree_size (last sths)) \<noteq> int (pp_tree_size plan)
               then Some (Err (NoFinalSth (pp_tree_size plan)), target)
               else
                 (let report = \<lparr>rp_network_id = pr_network_id params, rp_shard_id = pr_shard_id params, rp_dry_run = pr_dry_run params,
                        rp_entries = pp_tree_size plan, rp_batches = length (pp_batches plan), rp_highest_seq = pp_highest_seq plan,
                        rp_pruned_entries = pp_pruned plan, rp_root = final_root, rp_sths_carried = length sths,
                        rp_sths_missing = length (filter (\<lambda>b. \<forall>s\<in>set sths. sint (ob_tree_size s) \<noteq> int (pl_tree_size b)) (pp_batches plan)),
                        rp_genesis_written = write_genesis, rp_next_seq = pp_highest_seq plan + 1\<rparr> in
                  if pr_dry_run params then Some (Ok report, target)
                  else
                    case carried_heads C sths of
                      Inl e \<Rightarrow> Some (Err e, target)
                    | Inr heads \<Rightarrow>
                        (let batches = map (planned_row sths now) (pp_batches plan);
                             t' = \<lparr>tg_genesis = (if write_genesis then Some (pr_network_id params) else tg_genesis target),
                                   tg_db = \<lparr>db_entries = map (stamp_row batches) rows, db_batches = batches, db_heads = heads,
                                            db_cosigs = db_cosigs (tg_db target)\<rparr>\<rparr> in
                         case verify_target C t' (pr_shard_id params) plan of
                           None \<Rightarrow> None
                         | Some (Inl m) \<Rightarrow> Some (Err (PostCommitVerification m), t')
                         | Some (Inr _) \<Rightarrow> Some (Ok report, t')))))"

definition promote_mirror ::
  "crates \<Rightarrow> (json \<Rightarrow> json) \<Rightarrow> time \<Rightarrow> bool \<Rightarrow> mirror_db \<Rightarrow> promotion_target \<Rightarrow> PromoteParams \<Rightarrow>
   ((PromotionError + PromotionReport) \<times> promotion_target) option" where
  "promote_mirror C jsonb now same_database source target params =
     (if same_database then Some (Err SameDatabase, target)
      else
        case check_convergence C source (pr_network_id params) (pr_shard_id params) (pr_source_url params) of
          Inl e \<Rightarrow> Some (Err (PromotionSettlement e), target)
        | Inr conv \<Rightarrow>
            (case cv_verdict conv of
               Converged converged_size \<Rightarrow>
                 (case cv_recomputed_root conv of
                    None \<Rightarrow> None
                  | Some converged_root \<Rightarrow>
                      (case rbind (check_target_fresh target (pr_network_id params)) (\<lambda>write_genesis.
                              rbind (push_pages C jsonb now params (md_entries source) 0
                                (builder_new (pr_network_id params) (pr_shard_id params)) []) (\<lambda>(b, rows).
                              Ok (write_genesis, b, rows))) of
                         Inl e \<Rightarrow> Some (Err e, target)
                       | Inr (write_genesis, b, rows) \<Rightarrow>
                           (case plan_finish C b of
                              None \<Rightarrow> None
                            | Some (Inl e) \<Rightarrow> Some (Err e, target)
                            | Some (Inr plan) \<Rightarrow>
                                (case plan_final_root C plan of
                                   None \<Rightarrow> None
                                 | Some final_root \<Rightarrow>
                                     if pp_tree_size plan \<noteq> converged_size \<or> final_root \<noteq> converged_root
                                     then Some (Err (PlanRootMismatch (pp_tree_size plan) final_root converged_root), target)
                                     else promote_plan C now source target params write_genesis rows plan final_root))))
             | verdict \<Rightarrow> Some (Err (NotConverged verdict), target)))"

end
