(* ===== verification/Mirror_Facts.thy ===== *)
theory Mirror_Facts
  imports Mirror
begin

text \<open>
  What a mirror can be trusted for. Every entry it keeps re-hashes to the hash it is stored under, up to a
  microsecond of an event time before the year 2000, a
  mirror that reports convergence holds the author's log entry by entry, and the checkpoints and
  evidence a witness keeps never move backwards or change.
\<close>

section \<open>Stored entries\<close>

lemma lowercase_id: "\<not> list_ex is_ascii_uppercase s \<Longrightarrow> to_ascii_lowercase s = s"
  by (induction s) (simp_all add: to_ascii_lowercase_def)

lemma decode_lower_hex_inverse:
  assumes "hex_ok C" "decode_lower_hex C s = Ok b"
  shows "hex_encode C b = s"
  using assms lowercase_id by (auto simp: decode_lower_hex_def hex_ok_def split: if_splits)

lemma wire_row_roundtrip:
  assumes "hex_ok C" "row_from_wire C w = Ok er"
  shows "row_to_wire C er = w"
proof -
  from assms(2) obtain ext where ext: "decode_lower_hex C (w_extensions w) = Ok ext" and
    er: "er = \<lparr>row_layout_version = uint (w_layout_version w), row_rules_version = uint (w_rules_version w),
         row_hash_algo = uint (w_hash_algo w), row_extensions = ext\<rparr>"
    by (auto simp: row_from_wire_def rbind_eq_Inr)
  have "hex_encode C ext = w_extensions w" using decode_lower_hex_inverse [OF assms(1) ext] .
  then show ?thesis by (simp add: row_to_wire_def er)
qed

text \<open>The column keeps the event time to the microsecond, and before the year 2000 it is rounded up where
  the hash rounds down. A row's content then hashes to the entry hash with its time one microsecond
  earlier.\<close>

definition row_rehashes :: "crates \<Rightarrow> mirrored_row \<Rightarrow> bool" where
  "row_rehashes C r \<longleftrightarrow>
     (let e = mirrored_entry_from_row C r in
      recomputed_hash C e = Ok (Some (me_entry_hash e)) \<or>
      me_event_timestamp e \<le> pg_epoch \<and>
        recomputed_hash C (e\<lparr>me_event_timestamp := me_event_timestamp e - 1000\<rparr>) = Ok (Some (me_entry_hash e)))"

definition mirror_ok :: "crates \<Rightarrow> mirrored_row list \<Rightarrow> bool" where
  "mirror_ok C rows \<longleftrightarrow> distinct (map (mirrored_key \<circ> mr_entry) rows) \<and> (\<forall>r\<in>set rows. row_rehashes C r)"

inductive mirror_step :: "crates \<Rightarrow> (json \<Rightarrow> json) \<Rightarrow> mirrored_row list \<Rightarrow> mirrored_row list \<Rightarrow> bool" for C jsonb where
  step_insert: "insert_mirrored_entry C jsonb now e rows = Ok (fresh, rows') \<Longrightarrow> mirror_step C jsonb rows rows'"
| step_discard: "mirror_step C jsonb rows (snd (discard_mirrored_entries_from net shard from_size rows))"

lemma payload_matches_jsonb:
  "jsonb_ok jsonb \<Longrightarrow> payload_matches C p h \<Longrightarrow> payload_matches C (map_option jsonb p) h"
  by (auto simp: payload_matches_def payload_hash_hex_def payload_hash_def jsonb_ok_def rbind_eq_Inr split: option.splits)

lemma recomputed_hash_micros:
  assumes "t div 1000 = me_event_timestamp e div 1000"
  shows "recomputed_hash C (e\<lparr>me_event_timestamp := t\<rparr>) = recomputed_hash C e"
  using assms by (simp add: recomputed_hash_def hash_entry_def entry_content_def timestamp_micros_def Let_def cong: if_cong)

lemma stored_payload_rehashes:
  assumes C: "hex_ok C" "jsonb_ok jsonb" and h: "recomputed_hash C e = Ok (Some (me_entry_hash e))"
  shows "recomputed_hash C (e\<lparr>me_payload := map_option jsonb (me_payload e)\<rparr>) = Ok (Some (me_entry_hash e))"
proof -
  have "entry_content (e\<lparr>me_payload := p\<rparr>) env = entry_content e env" for p env
    by (simp add: entry_content_def)
  with h payload_matches_jsonb [OF C(2)] show ?thesis
    by (auto simp: recomputed_hash_def rbind_eq_Inr result_ok_eq_Some split: if_splits)
qed

lemma stored_rehashes:
  assumes C: "hex_ok C" "jsonb_ok jsonb" and h: "recomputed_hash C e = Ok (Some (me_entry_hash e))"
    and er: "row_from_wire C (me_envelope e) = Ok er"
  shows "row_rehashes C \<lparr>mr_entry = e\<lparr>me_payload := map_option jsonb (me_payload e), me_event_timestamp := pg_time (me_event_timestamp e)\<rparr>,
    mr_envelope = er, mr_mirrored_at = now\<rparr>"
proof -
  let ?e = "e\<lparr>me_payload := map_option jsonb (me_payload e)\<rparr>" and ?t = "pg_time (me_event_timestamp e)"
  have "mirrored_entry_from_row C \<lparr>mr_entry = ?e\<lparr>me_event_timestamp := ?t\<rparr>, mr_envelope = er, mr_mirrored_at = now\<rparr> =
      ?e\<lparr>me_event_timestamp := ?t\<rparr>"
    using wire_row_roundtrip [OF C(1) er] by (simp add: mirrored_entry_from_row_def)
  moreover have "recomputed_hash C (?e\<lparr>me_event_timestamp := t\<rparr>) = Ok (Some (me_entry_hash e))"
    if "t div 1000 = me_event_timestamp e div 1000" for t
    using stored_payload_rehashes [OF C h] recomputed_hash_micros [of t ?e C] that by simp
  ultimately show ?thesis using pg_time_micros [of "me_event_timestamp e"] by (auto simp: row_rehashes_def Let_def)
qed

lemma mirror_step_ok:
  assumes C: "hex_ok C" "jsonb_ok jsonb" and "mirror_step C jsonb rows rows'" "mirror_ok C rows"
  shows "mirror_ok C rows'"
  using assms(3,4)
proof cases
  case (step_insert now e fresh)
  show ?thesis
  proof (cases "rows' = rows")
    case False
    with step_insert obtain env where h: "recomputed_hash C e = Ok (Some (me_entry_hash e))" "row_from_wire C (me_envelope e) = Ok env"
      and new: "mirrored_key e \<notin> (mirrored_key \<circ> mr_entry) ` set rows"
      and rows': "rows' = rows @ [\<lparr>mr_entry = e\<lparr>me_payload := map_option jsonb (me_payload e), me_event_timestamp := pg_time (me_event_timestamp e)\<rparr>,
        mr_envelope = env, mr_mirrored_at = now\<rparr>]"
      by (auto simp: insert_mirrored_entry_def rbind_eq_Inr split: if_splits)
    have "mirrored_key (e\<lparr>me_payload := p, me_event_timestamp := t\<rparr>) = mirrored_key e" for p t by (simp add: mirrored_key_def)
    with assms(4) new stored_rehashes [OF C h] show ?thesis by (auto simp: mirror_ok_def rows')
  qed (use assms(4) in simp)
qed (use assms(4) in \<open>auto simp: mirror_ok_def discard_mirrored_entries_from_def Let_def distinct_map_filter\<close>)

text \<open>An entry of the log of a concrete node, and its observed head.\<close>

definition demo_wire :: "str \<Rightarrow> MirroredEntry" where
  "demo_wire eh = \<lparr>me_source_url = ''https://n'', me_network_id = ''testnet'', me_shard_id = ''core'', me_seq = 1,
     me_event_id = replicate 16 7, me_kind = ''k'', me_issuer = ''i'', me_subject = ''s'', me_payload = Some demo_payload,
     me_payload_hash = hex_encode demo_crates (digest demo_crates Sha256 (as_bytes demo_text)), me_event_timestamp = 0, me_version = 1, me_prev_hash = GENESIS_HASH,
     me_entry_hash = eh, me_batch_id = replicate 16 5, me_verified_tree_size = 1,
     me_envelope = wire_of_envelope demo_crates (envelope_current LEDGER_ENTRY)\<rparr>"

definition demo_observed :: "str \<Rightarrow> ObservedSth" where
  "demo_observed root = \<lparr>ob_source_url = ''https://n'', ob_network_id = ''testnet'', ob_shard_id = ''core'', ob_tree_size = 1,
     ob_root_hash = root, ob_signature = [], ob_signing_key_id = ''key'', ob_created_at = 0, ob_observed_at = 0,
     ob_envelope = envelope_current SETTLEMENT_STH\<rparr>"

lemma demo_wire_hash:
  "\<exists>eh h. recomputed_hash demo_crates (demo_wire eh) = Ok (Some eh) \<and> hex_decode demo_crates eh = Some h \<and> length h = 32"
proof -
  have t: "to_envelope demo_crates (wire_of_envelope demo_crates (envelope_current LEDGER_ENTRY)) LEDGER_ENTRY = Ok (envelope_current LEDGER_ENTRY)"
    using current_row [OF demo_hex_ok, of LEDGER_ENTRY] wire_row_roundtrip [OF demo_hex_ok]
    by (auto simp: row_from_envelope_def row_to_envelope_def)
  have ph: "payload_hash_hex demo_crates demo_payload = Ok (hex_encode demo_crates (digest demo_crates Sha256 (as_bytes demo_text)))"
    using demo_canonicalizes by (simp add: payload_hash_hex_def payload_hash_def)
  have len: "length (digest demo_crates Sha256 m) = 32" for m using demo_sha256_ok by (simp add: sha256_ok_def)
  have micros: "timestamp_micros 0 = Ok 0" by (simp add: timestamp_micros_def i64_min_def i64_max_def)
  have "\<exists>eh. \<forall>x. hash_entry demo_crates ''testnet'' ''core'' GENESIS_HASH (entry_content (demo_wire x) (envelope_current LEDGER_ENTRY)) = Ok eh"
    using micros parse_hash_Ok [OF demo_hex_ok] len by (simp add: hash_entry_def entry_content_def demo_wire_def demo_genesis guard_err_def rbind_eq_Inr entry_hash_def entry_signing_bytes_Ok) blast
  then obtain eh where eh: "\<And>x. hash_entry demo_crates ''testnet'' ''core'' GENESIS_HASH (entry_content (demo_wire x) (envelope_current LEDGER_ENTRY)) = Ok eh" by blast
  have "recomputed_hash demo_crates (demo_wire eh) = Ok (Some eh)"
    using t eh [of eh] ph by (simp add: recomputed_hash_def payload_matches_def) (simp add: demo_wire_def)
  moreover have "\<exists>m. eh = hex_encode demo_crates (sha256 demo_crates m)"
    using eh [of eh] by (auto simp: hash_entry_def entry_hash_def rbind_eq_Inr entry_content_def envelope_current_def)
  ultimately show ?thesis using demo_sha256_ok hex_roundtrip [OF demo_hex_ok] by (metis sha256_ok_def)
qed

lemma demo_mirrors:
  "\<exists>eh rows. insert_mirrored_entry demo_crates id 0 (demo_wire eh) [] = Ok (True, rows) \<and> length rows = 1"
proof -
  obtain eh where eh: "recomputed_hash demo_crates (demo_wire eh) = Ok (Some eh)" using demo_wire_hash by blast
  obtain er where er: "row_from_wire demo_crates (wire_of_envelope demo_crates (envelope_current LEDGER_ENTRY)) = Ok er"
    using current_row [OF demo_hex_ok, of LEDGER_ENTRY] by (auto simp: row_from_envelope_def)
  have "me_payload (demo_wire eh) = Some demo_payload" "me_entry_hash (demo_wire eh) = eh"
    "me_envelope (demo_wire eh) = wire_of_envelope demo_crates (envelope_current LEDGER_ENTRY)" by (simp_all add: demo_wire_def)
  with eh er demo_canonicalizes show ?thesis by (intro exI [of _ eh]) (simp add: insert_mirrored_entry_def validate_def)
qed

text \<open>C23. Whatever a mirror accepts and discards, no two stored entries share a position of one log, and every stored
  entry, read back, re-hashes to the entry hash it is stored under, its event time taken as stored or, when
  that time is not after the year 2000, one microsecond earlier, for the column rounds such times up and the
  hash rounds them down. So no peer can plant an entry whose content does not match its hash, and an
  entry with a time after 2000 re-hashes as it stands.\<close>

theorem mirror_invariant:
  assumes "hex_ok C" and "jsonb_ok jsonb" and "(mirror_step C jsonb)\<^sup>*\<^sup>* [] rows"
  shows "distinct (map (mirrored_key \<circ> mr_entry) rows) \<and>
    (\<forall>r\<in>set rows. \<exists>t. (t = me_event_timestamp (mr_entry r) \<or> t = me_event_timestamp (mr_entry r) - 1000 \<and> t < pg_epoch) \<and>
       recomputed_hash C ((mirrored_entry_from_row C r)\<lparr>me_event_timestamp := t\<rparr>) = Ok (Some (me_entry_hash (mr_entry r))))"
proof -
  have "mirror_ok C rows" using assms(3)
    by (induction rule: rtranclp_induct) (auto simp: mirror_ok_def [of C "[]"] intro: mirror_step_ok [OF assms(1,2)])
  then show ?thesis by (fastforce simp: mirror_ok_def row_rehashes_def mirrored_entry_from_row_def Let_def)
qed

text \<open>Witness: one entry is mirrored.\<close>

theorem mirror_invariant_witness:
  "\<exists>eh rows. insert_mirrored_entry demo_crates id 0 (demo_wire eh) [] = Ok (True, rows) \<and> length rows = 1 \<and>
     (\<forall>r\<in>set rows. \<exists>t. (t = me_event_timestamp (mr_entry r) \<or> t = me_event_timestamp (mr_entry r) - 1000 \<and> t < pg_epoch) \<and>
       recomputed_hash demo_crates ((mirrored_entry_from_row demo_crates r)\<lparr>me_event_timestamp := t\<rparr>) = Ok (Some (me_entry_hash (mr_entry r))))"
proof -
  obtain eh rows where d: "insert_mirrored_entry demo_crates id 0 (demo_wire eh) [] = Ok (True, rows)" "length rows = 1"
    using demo_mirrors by blast
  from mirror_invariant [OF demo_hex_ok demo_jsonb r_into_rtranclp [of "mirror_step demo_crates id", OF step_insert [OF d(1)]]] d
  show ?thesis by blast
qed

section \<open>Convergence\<close>

definition demo_mirror :: "str \<Rightarrow> str \<Rightarrow> EnvelopeRow \<Rightarrow> EnvelopeRow \<Rightarrow> mirror_db" where
  "demo_mirror eh root er sr = \<lparr>md_observed = [\<lparr>or_sth = demo_observed root, or_envelope = sr\<rparr>],
     md_entries = [\<lparr>mr_entry = demo_wire eh, mr_envelope = er, mr_mirrored_at = 0\<rparr>], md_findings = []\<rparr>"

lemma recomputed_text: "recomputed_hash C e = Ok (Some h) \<Longrightarrow> hash_text C h"
  by (auto simp: recomputed_hash_def rbind_eq_Inr result_ok_eq_Some split: if_splits dest: hash_entry_text)

lemma log_texts:
  assumes "mirror_ok C rows" "h \<in> set (map (me_entry_hash \<circ> mr_entry) (log_rows net shard src rows))"
  shows "hash_text C h"
  using assms recomputed_text by (fastforce simp: mirror_ok_def row_rehashes_def mirrored_entry_from_row_def log_rows_def Let_def)

lemma converged_report:
  assumes "hex_ok C" "mirror_ok C (md_entries d)" "check_convergence C d net shard src = Ok conv" "cv_verdict conv = Converged n"
    "hs = map (me_entry_hash \<circ> mr_entry) (log_rows net shard src (md_entries d))"
  shows "n = length hs" "unresolved_equivocations net shard (md_findings d) = []"
    "chain_breaks_from None (log_rows net shard src (md_entries d)) = []"
    "\<exists>r\<in>set (md_observed d). in_log net shard src (or_sth r) \<and> ob_tree_size (or_sth r) = of_nat n \<and>
       ob_root_hash (or_sth r) = hex_encode C (mth C Sha256 (leaf_bytes C hs))"
proof -
  have "mth_of_hex_hashes C ledger_tree_algo hs = Ok (mth C Sha256 (leaf_bytes C hs))"
    using decode_hash_texts [OF assms(1)] log_texts [OF assms(2)]
    by (simp add: mth_of_hex_hashes_def ledger_tree_algo_def envelope_current_def assms(5))
  with assms(3-5) show "n = length hs" "unresolved_equivocations net shard (md_findings d) = []"
    "chain_breaks_from None (log_rows net shard src (md_entries d)) = []"
    "\<exists>r\<in>set (md_observed d). in_log net shard src (or_sth r) \<and> ob_tree_size (or_sth r) = of_nat n \<and>
       ob_root_hash (or_sth r) = hex_encode C (mth C Sha256 (leaf_bytes C hs))"
    by (auto simp: check_convergence_def mirrored_progress_def mirrored_entry_hashes_up_to_def mirrored_chain_breaks_def
        observed_sth_matching_root_def evaluate_convergence_def opt_transpose_def Let_def rbind_eq_Inr find_Some_iff
        split: if_splits option.splits)
qed


lemma chain_breaks_linked:
  assumes "chain_breaks_from expected rows = []" "Suc i < length rows"
  shows "me_prev_hash (mr_entry (rows ! Suc i)) = me_entry_hash (mr_entry (rows ! i))"
  using assms
proof (induction rows arbitrary: expected i)
  case (Cons r rows)
  then have rest: "chain_breaks_from (Some (me_entry_hash (mr_entry r))) rows = []" by simp
  show ?case
  proof (cases i)
    case 0
    with Cons.prems(2) rest show ?thesis by (cases rows) (auto split: if_splits)
  qed (use Cons.IH [OF rest] Cons.prems(2) in simp)
qed simp

text \<open>C22. A mirror that reports convergence holds the author's log. If the heads it observed at its size carry the root of
  the author's entry hashes, the mirrored hashes in sequence order are the author's, one by one, and
  each entry names the one before it; otherwise the messages hashed for the two roots contain a collision.\<close>

theorem convergence_pins_log:
  assumes "sha256_ok C" and "hex_ok C" and "mirror_ok C (md_entries d)"
    and "check_convergence C d net shard src = Ok conv" and "cv_verdict conv = Converged (length ledger)"
    and "\<forall>h\<in>set ledger. \<exists>b. h = hex_encode C b"
    and "\<forall>r\<in>set (md_observed d). in_log net shard src (or_sth r) \<and> ob_tree_size (or_sth r) = of_nat (length ledger) \<longrightarrow>
      ob_root_hash (or_sth r) = hex_encode C (mth C Sha256 (leaf_bytes C ledger))"
  shows "map (me_entry_hash \<circ> mr_entry) (log_rows net shard src (md_entries d)) = ledger \<and>
      (\<forall>i. Suc i < length ledger \<longrightarrow> me_prev_hash (mr_entry (log_rows net shard src (md_entries d) ! Suc i)) = ledger ! i) \<or>
    collision_in C Sha256 (mth_inputs C Sha256 (leaf_bytes C (map (me_entry_hash \<circ> mr_entry) (log_rows net shard src (md_entries d)))) @
      mth_inputs C Sha256 (leaf_bytes C ledger))"
proof -
  let ?log = "log_rows net shard src (md_entries d)"
  define hs where "hs = map (me_entry_hash \<circ> mr_entry) ?log"
  let ?ms = "mth_inputs C Sha256 (leaf_bytes C hs) @ mth_inputs C Sha256 (leaf_bytes C ledger)"
  note rep = converged_report [OF assms(2-5) hs_def]
  have "hex_encode C (mth C Sha256 (leaf_bytes C hs)) = hex_encode C (mth C Sha256 (leaf_bytes C ledger))"
    using rep(4) assms(7) by auto
  then have m: "mth C Sha256 (leaf_bytes C hs) = mth C Sha256 (leaf_bytes C ledger)"
    using hex_roundtrip [OF assms(2)] by (metis option.inject)
  have "length (leaf_bytes C hs) = length (leaf_bytes C ledger)" using rep(1) by (simp add: leaf_bytes_def)
  from mth_binding_aux [OF assms(1) this m, of ?ms]
  have "leaf_bytes C hs = leaf_bytes C ledger \<or> collision_in C Sha256 ?ms" by auto
  moreover have "\<forall>h\<in>set hs. hash_text C h" using log_texts [OF assms(3)] by (auto simp: hs_def)
  ultimately have "hs = ledger \<or> collision_in C Sha256 ?ms"
    using leaf_bytes_inject [OF assms(2)] assms(6) by (auto simp: hash_text_def)
  moreover have "me_prev_hash (mr_entry (?log ! Suc i)) = hs ! i" if "Suc i < length hs" for i
    using chain_breaks_linked [OF rep(3)] that by (simp add: hs_def)
  ultimately show ?thesis by (auto simp: hs_def)
qed

text \<open>Witness: the mirror of one entry has converged to the head over it.\<close>

lemma demo_converges:
  assumes h: "hex_decode demo_crates eh = Some h" "length h = 32" and root: "root = hex_encode demo_crates (mth demo_crates Sha256 [h])"
    and sr: "row_to_envelope demo_crates sr SETTLEMENT_STH = Ok (envelope_current SETTLEMENT_STH)"
  shows "\<exists>conv. check_convergence demo_crates (demo_mirror eh root er sr) ''testnet'' ''core'' None = Ok conv \<and>
    cv_verdict conv = Converged 1 \<and> cv_recomputed_root conv = Some root"
proof -
  have "observed_sth_from_row demo_crates \<lparr>or_sth = demo_observed root, or_envelope = sr\<rparr> = Ok (demo_observed root)"
    using sr by (simp add: observed_sth_from_row_def demo_observed_def)
  moreover have "mth_of_hex_hashes demo_crates ledger_tree_algo [eh] = Ok (mth demo_crates Sha256 [h])"
    using h by (simp add: mth_of_hex_hashes_def ledger_tree_algo_def envelope_current_def to_array_def)
  moreover have "log_rows ''testnet'' ''core'' None (md_entries (demo_mirror eh root er sr)) =
      [\<lparr>mr_entry = demo_wire eh, mr_envelope = er, mr_mirrored_at = 0\<rparr>]" "me_entry_hash (demo_wire eh) = eh"
    by (simp_all add: log_rows_def of_log_def demo_mirror_def) (simp_all add: demo_wire_def)
  moreover have "md_observed (demo_mirror eh root er sr) = [\<lparr>or_sth = demo_observed root, or_envelope = sr\<rparr>]"
    "md_findings (demo_mirror eh root er sr) = []" by (simp_all add: demo_mirror_def)
  moreover have "in_log ''testnet'' ''core'' None (demo_observed root)" "ob_tree_size (demo_observed root) = 1"
    "ob_root_hash (demo_observed root) = root" by (simp_all add: in_log_def demo_observed_def)
  ultimately show ?thesis
    by (simp add: check_convergence_def mirrored_progress_def mirrored_entry_hashes_up_to_def latest_observed_sth_def
        observed_sth_matching_root_def mirrored_chain_breaks_def unresolved_equivocations_def evaluate_convergence_def opt_transpose_def Let_def root)
qed

lemma demo_mirror_ok:
  assumes "recomputed_hash demo_crates (demo_wire eh) = Ok (Some eh)"
    and "row_from_wire demo_crates (wire_of_envelope demo_crates (envelope_current LEDGER_ENTRY)) = Ok er"
  shows "mirror_ok demo_crates (md_entries (demo_mirror eh root er sr))"
proof -
  have "mirrored_entry_from_row demo_crates \<lparr>mr_entry = demo_wire eh, mr_envelope = er, mr_mirrored_at = 0\<rparr> = demo_wire eh"
    using wire_row_roundtrip [OF demo_hex_ok assms(2)] by (simp add: mirrored_entry_from_row_def demo_wire_def)
  moreover have "me_entry_hash (demo_wire eh) = eh" by (simp add: demo_wire_def)
  ultimately show ?thesis using assms(1) by (simp add: mirror_ok_def row_rehashes_def demo_mirror_def)
qed

theorem convergence_pins_log_witness:
  "\<exists>eh d conv. check_convergence demo_crates d ''testnet'' ''core'' None = Ok conv \<and> cv_verdict conv = Converged 1 \<and>
     (map (me_entry_hash \<circ> mr_entry) (log_rows ''testnet'' ''core'' None (md_entries d)) = [eh] \<or>
      collision_in demo_crates Sha256 (mth_inputs demo_crates Sha256 (leaf_bytes demo_crates (map (me_entry_hash \<circ> mr_entry)
        (log_rows ''testnet'' ''core'' None (md_entries d)))) @ mth_inputs demo_crates Sha256 (leaf_bytes demo_crates [eh])))"
proof -
  obtain eh h where eh: "recomputed_hash demo_crates (demo_wire eh) = Ok (Some eh)" "hex_decode demo_crates eh = Some h" "length h = 32"
    using demo_wire_hash by blast
  obtain er where er: "row_from_wire demo_crates (wire_of_envelope demo_crates (envelope_current LEDGER_ENTRY)) = Ok er"
    using current_row [OF demo_hex_ok, of LEDGER_ENTRY] by (auto simp: row_from_envelope_def)
  obtain sr where sr: "row_to_envelope demo_crates sr SETTLEMENT_STH = Ok (envelope_current SETTLEMENT_STH)" using current_row [OF demo_hex_ok] by blast
  define d where "d = demo_mirror eh (hex_encode demo_crates (mth demo_crates Sha256 [h])) er sr"
  from demo_converges [OF eh(2,3) refl sr, of er] obtain conv where
    conv: "check_convergence demo_crates d ''testnet'' ''core'' None = Ok conv" "cv_verdict conv = Converged (length [eh])" by (auto simp: d_def)
  have ok: "mirror_ok demo_crates (md_entries d)" unfolding d_def by (rule demo_mirror_ok [OF eh(1) er])
  have t: "\<forall>h\<in>set [eh]. \<exists>b. h = hex_encode demo_crates b" using recomputed_text [OF eh(1)] by (simp add: hash_text_def)
  have "\<forall>r\<in>set (md_observed d). in_log ''testnet'' ''core'' None (or_sth r) \<and> ob_tree_size (or_sth r) = of_nat (length [eh]) \<longrightarrow>
      ob_root_hash (or_sth r) = hex_encode demo_crates (mth demo_crates Sha256 (leaf_bytes demo_crates [eh]))"
    by (simp add: d_def demo_mirror_def demo_observed_def leaf_bytes_def eh(2))
  from convergence_pins_log [OF demo_sha256_ok demo_hex_ok ok conv t this]
  have "map (me_entry_hash \<circ> mr_entry) (log_rows ''testnet'' ''core'' None (md_entries d)) = [eh] \<or>
      collision_in demo_crates Sha256 (mth_inputs demo_crates Sha256 (leaf_bytes demo_crates (map (me_entry_hash \<circ> mr_entry)
        (log_rows ''testnet'' ''core'' None (md_entries d)))) @ mth_inputs demo_crates Sha256 (leaf_bytes demo_crates [eh]))" by blast
  with conv show ?thesis by (intro exI [of _ eh] exI [of _ d] exI [of _ conv]) simp
qed

section \<open>Witness checkpoints\<close>

definition checkpoints_ok :: "WitnessCheckpoint list \<Rightarrow> bool" where
  "checkpoints_ok rows \<longleftrightarrow> distinct (map (\<lambda>c. (wc_network_id c, wc_shard_id c)) rows)"

inductive checkpoint_step :: "WitnessCheckpoint list \<Rightarrow> WitnessCheckpoint list \<Rightarrow> bool" where
  "checkpoint_step rows (record_witness_checkpoint now net shard tree_size root key rows)"

lemma find_append: "find P (xs @ ys) = (case find P xs of None \<Rightarrow> find P ys | Some x \<Rightarrow> Some x)"
  by (induction xs) auto

lemma find_map: "(\<And>x. P (f x) = P x) \<Longrightarrow> find P (map f xs) = map_option f (find P xs)"
  by (induction xs) auto

lemma checkpoint_step_for:
  assumes "checkpoint_step rows rows'" "witness_checkpoint_for net shard rows = Some c"
  shows "\<exists>c'. witness_checkpoint_for net shard rows' = Some c' \<and> (c' = c \<or> sint (wc_tree_size c) < sint (wc_tree_size c'))"
  using assms(1)
proof cases
  case (1 now net' shard' n root key)
  define new where "new = \<lparr>wc_network_id = net', wc_shard_id = shard', wc_tree_size = n, wc_root_hash = root,
    wc_witness_key_id = key, wc_cosigned_at = now\<rparr>"
  let ?f = "\<lambda>c. if checkpoint_of net' shard' c \<and> sint (wc_tree_size c) < sint n then new else c"
  have "checkpoint_of net shard (?f x) = checkpoint_of net shard x" for x
    by (auto simp: new_def checkpoint_of_def)
  then have "find (checkpoint_of net shard) (map ?f rows) = Some (?f c)"
    using assms(2) find_map [of "checkpoint_of net shard" ?f rows] by (simp add: witness_checkpoint_for_def)
  with assms(2) show ?thesis
    by (auto simp: 1 record_witness_checkpoint_def witness_checkpoint_for_def find_append new_def [symmetric] Let_def)
      (auto simp: new_def)
qed

text \<open>A witness's checkpoint never moves backwards. Once a checkpoint for a log is recorded, every later one is
  that same checkpoint or has a strictly larger tree: the root recorded for a size is never replaced.\<close>

theorem checkpoint_monotone:
  assumes "checkpoint_step\<^sup>*\<^sup>* rows rows'" and "witness_checkpoint_for net shard rows = Some c"
  shows "\<exists>c'. witness_checkpoint_for net shard rows' = Some c' \<and> (c' = c \<or> sint (wc_tree_size c) < sint (wc_tree_size c'))"
  using assms
proof (induction rule: rtranclp_induct)
  case (step rows1 rows2)
  then obtain c1 where c1: "witness_checkpoint_for net shard rows1 = Some c1" "c1 = c \<or> sint (wc_tree_size c) < sint (wc_tree_size c1)" by blast
  from checkpoint_step_for [OF step.hyps(2) c1(1)] c1(2) show ?case by auto
qed simp


text \<open>Witness: a checkpoint at size 1, then a head of size 1 with another root.\<close>

theorem checkpoint_monotone_witness:
  "\<exists>rows c c'. witness_checkpoint_for ''net'' ''core'' rows = Some c \<and>
     witness_checkpoint_for ''net'' ''core'' (record_witness_checkpoint 5 ''net'' ''core'' 1 ''b'' ''k'' rows) = Some c' \<and>
     (c' = c \<or> sint (wc_tree_size c) < sint (wc_tree_size c'))"
proof -
  let ?rows = "record_witness_checkpoint 4 ''net'' ''core'' 1 ''a'' ''k'' []"
  obtain c where c: "witness_checkpoint_for ''net'' ''core'' ?rows = Some c"
    by (simp add: record_witness_checkpoint_def witness_checkpoint_for_def checkpoint_of_def)
  show ?thesis using checkpoint_monotone [OF r_into_rtranclp [of checkpoint_step, OF checkpoint_step.intros] c] c by blast
qed

section \<open>Equivocation evidence\<close>

text \<open>A head as \<open>find_equivocations\<close> hands it over: it is of the log and size of the evidence, its envelopes are
  readable and its cosignatures are over it.\<close>

definition evidence_head :: "crates \<Rightarrow> str \<Rightarrow> i64 \<Rightarrow> CosignedTreeHead \<Rightarrow> bool" where
  "evidence_head C net tsz h \<longleftrightarrow> sth_network_id (head_sth h) = net \<and> sth_tree_size (head_sth h) = tsz \<and>
     to_envelope C (wire_of_envelope C (sth_envelope (head_sth h))) SETTLEMENT_STH = Ok (sth_envelope (head_sth h)) \<and>
     (\<forall>c\<in>set (cosignatures h).
        to_envelope C (wire_of_envelope C (c_envelope c)) WITNESS_COSIGN = Ok (c_envelope c) \<and>
        c_tree_size c = tsz \<and> c_root_hash c = sth_root_hash (head_sth h) \<and> c_network_id c = net \<and>
        c_author_created_at c = sth_created_at (head_sth h) \<and> c_author_key_id c = sth_signing_key_id (head_sth h) \<and>
        c_author_signature c = sth_signature (head_sth h))"

lemma cosignatures_roundtrip:
  assumes "\<forall>c\<in>set cs. to_envelope C (wire_of_envelope C (c_envelope c)) WITNESS_COSIGN = Ok (c_envelope c) \<and>
    c_tree_size c = sth_tree_size sth \<and> c_root_hash c = sth_root_hash sth \<and> c_network_id c = sth_network_id sth \<and>
    c_author_created_at c = sth_created_at sth \<and> c_author_key_id c = sth_signing_key_id sth \<and> c_author_signature c = sth_signature sth"
  shows "cosignatures_from_json C (cosignatures_to_json C cs) sth = Ok cs"
  using assms
proof (induction cs)
  case (Cons c cs)
  have "cosignatures_to_json C (c # cs) = \<lparr>cr_witness_key_id = c_witness_key_id c, cr_observed_at = c_observed_at c,
      cr_signature = c_signature c, cr_envelope = wire_of_envelope C (c_envelope c)\<rparr> # cosignatures_to_json C cs"
    by (simp add: cosignatures_to_json_def)
  with Cons show ?case by (cases c) simp
qed (simp add: cosignatures_to_json_def)

lemma head_roundtrip:
  assumes "evidence_head C net tsz h"
  shows "head_from_columns C net tsz (head_to_columns C h) = Ok h"
proof -
  obtain sth cs where h: "h = \<lparr>head_sth = sth, cosignatures = cs\<rparr>" by (cases h)
  have "cosignatures_from_json C (cosignatures_to_json C cs) sth = Ok cs"
    using assms by (intro cosignatures_roundtrip) (simp add: evidence_head_def h)
  with assms show ?thesis
    by (cases sth) (simp add: head_from_columns_def head_to_columns_def evidence_head_def h Let_def)
qed

lemma evidence_kind_roundtrip: "evidence_parse (evidence_as_str k) = Ok k"
  by (cases k) (simp_all add: evidence_parse_def)

definition evidence_key :: "evidence_row \<Rightarrow> str \<times> str \<times> i64 \<times> str \<times> str" where
  "evidence_key r = (er_network_id r, er_shard_id r, er_tree_size r, hc_root_hash (er_a r), hc_root_hash (er_b r))"

definition ordered_heads :: "WitnessEquivocationEvidence \<Rightarrow> CosignedTreeHead \<times> CosignedTreeHead" where
  "ordered_heads ev =
     (if map ord (sth_root_hash (head_sth (ee_head_a ev))) \<le> map ord (sth_root_hash (head_sth (ee_head_b ev)))
      then (ee_head_a ev, ee_head_b ev) else (ee_head_b ev, ee_head_a ev))"

lemma ordered_heads_swap:
  assumes "sth_root_hash (head_sth (ee_head_a ev)) \<noteq> sth_root_hash (head_sth (ee_head_b ev))"
  shows "ordered_heads (ev\<lparr>ee_head_a := ee_head_b ev, ee_head_b := ee_head_a ev\<rparr>) = ordered_heads ev"
proof -
  have inv: "map char_of (map ord xs) = xs" for xs :: str by (induction xs) simp_all
  have "map ord (sth_root_hash (head_sth (ee_head_a ev))) \<noteq> map ord (sth_root_hash (head_sth (ee_head_b ev)))"
    using assms inv by metis
  then show ?thesis by (auto simp: ordered_heads_def)
qed

lemma record_evidence_alt:
  "record_witness_equivocation_evidence C now ev rows =
     (let (a, b) = ordered_heads ev; row = \<lparr>er_network_id = ee_network_id ev, er_shard_id = ee_shard_id ev, er_tree_size = ee_tree_size ev,
           er_a = head_to_columns C a, er_b = head_to_columns C b, er_witnesses = ee_witnesses ev,
           er_kind = evidence_as_str (ee_kind ev), er_detected_at = now\<rparr>
      in if evidence_key row \<in> evidence_key ` set rows then rows else rows @ [row])"
proof -
  have key: "evidence_key = (\<lambda>r. (er_network_id r, er_shard_id r, er_tree_size r, hc_root_hash (er_a r), hc_root_hash (er_b r)))"
    by (simp add: fun_eq_iff evidence_key_def)
  show ?thesis
    by (cases "map ord (sth_root_hash (head_sth (ee_head_a ev))) \<le> map ord (sth_root_hash (head_sth (ee_head_b ev)))")
      (simp_all add: record_witness_equivocation_evidence_def ordered_heads_def key head_to_columns_def Let_def del: image_iff cong: if_cong)
qed

text \<open>Equivocation evidence survives storage. Evidence recorded for the first time is read back first, with both
  cosigned heads, every cosignature, the kind and the witnesses as recorded, and recording the same
  pair again, in either order, changes nothing.\<close>

theorem evidence_round_trip:
  assumes "evidence_head C (ee_network_id ev) (ee_tree_size ev) (ee_head_a ev)"
    and "evidence_head C (ee_network_id ev) (ee_tree_size ev) (ee_head_b ev)"
    and "sth_root_hash (head_sth (ee_head_a ev)) \<noteq> sth_root_hash (head_sth (ee_head_b ev))"
    and "record_witness_equivocation_evidence C now ev rows \<noteq> rows"
    and "witness_equivocation_evidence_for C (ee_network_id ev) (ee_shard_id ev) rows = Ok old"
  shows "\<exists>a b. {a, b} = {ee_head_a ev, ee_head_b ev} \<and>
      witness_equivocation_evidence_for C (ee_network_id ev) (ee_shard_id ev) (record_witness_equivocation_evidence C now ev rows) =
        Ok (ev\<lparr>ee_head_a := a, ee_head_b := b, ee_detected_at := Some now\<rparr> # old) \<and>
      (\<forall>ev' \<in> {ev, ev\<lparr>ee_head_a := ee_head_b ev, ee_head_b := ee_head_a ev\<rparr>}.
        record_witness_equivocation_evidence C now' ev' (record_witness_equivocation_evidence C now ev rows) =
          record_witness_equivocation_evidence C now ev rows)"
proof -
  obtain a b where ab: "ordered_heads ev = (a, b)" by (cases "ordered_heads ev")
  then have set: "{a, b} = {ee_head_a ev, ee_head_b ev}" by (auto simp: ordered_heads_def split: if_splits)
  then have heads: "evidence_head C (ee_network_id ev) (ee_tree_size ev) a" "evidence_head C (ee_network_id ev) (ee_tree_size ev) b"
    using assms(1,2) by (metis insert_iff singletonD)+
  define row where "row = \<lparr>er_network_id = ee_network_id ev, er_shard_id = ee_shard_id ev, er_tree_size = ee_tree_size ev,
    er_a = head_to_columns C a, er_b = head_to_columns C b, er_witnesses = ee_witnesses ev,
    er_kind = evidence_as_str (ee_kind ev), er_detected_at = now\<rparr>"
  have rows': "record_witness_equivocation_evidence C now ev rows = rows @ [row]"
    using assms(4) by (auto simp: record_evidence_alt ab row_def [symmetric] Let_def split: if_splits)
  have "read_evidence C (rev (filter (\<lambda>r. er_network_id r = ee_network_id ev \<and> er_shard_id r = ee_shard_id ev) (rows @ [row]))) =
      Ok (ev\<lparr>ee_head_a := a, ee_head_b := b, ee_detected_at := Some now\<rparr> # old)"
    using assms(5) heads by (simp add: row_def witness_equivocation_evidence_for_def head_roundtrip evidence_kind_roundtrip)
  moreover have "record_witness_equivocation_evidence C now' ev' (rows @ [row]) = rows @ [row]"
    if "ev' \<in> {ev, ev\<lparr>ee_head_a := ee_head_b ev, ee_head_b := ee_head_a ev\<rparr>}" for ev'
  proof -
    have "ordered_heads ev' = (a, b)" using that ab ordered_heads_swap [OF assms(3)] by auto
    then show ?thesis using that by (auto simp: record_evidence_alt row_def evidence_key_def Let_def)
  qed
  ultimately show ?thesis using set unfolding rows' witness_equivocation_evidence_for_def by blast
qed

text \<open>Witness: two heads of one size with different roots.\<close>

definition demo_evidence_head :: "str \<Rightarrow> CosignedTreeHead" where
  "demo_evidence_head root = \<lparr>head_sth = \<lparr>sth_tree_size = 1, sth_root_hash = root, sth_network_id = ''net'', sth_signing_key_id = ''key'',
     sth_signature = [], sth_created_at = 0, sth_envelope = envelope_current SETTLEMENT_STH\<rparr>, cosignatures = []\<rparr>"

definition demo_evidence :: WitnessEquivocationEvidence where
  "demo_evidence = \<lparr>ee_kind = Author, ee_network_id = ''net'', ee_shard_id = ''core'', ee_tree_size = 1,
     ee_head_a = demo_evidence_head ''b'', ee_head_b = demo_evidence_head ''a'', ee_witnesses = [], ee_detected_at = None\<rparr>"

theorem evidence_round_trip_witness:
  "\<exists>a b. {a, b} = {demo_evidence_head ''b'', demo_evidence_head ''a''} \<and>
     witness_equivocation_evidence_for demo_crates ''net'' ''core'' (record_witness_equivocation_evidence demo_crates 9 demo_evidence []) =
       Ok [demo_evidence\<lparr>ee_head_a := a, ee_head_b := b, ee_detected_at := Some 9\<rparr>]"
proof -
  have h: "evidence_head demo_crates ''net'' 1 (demo_evidence_head r)" for r
    using current_row [OF demo_hex_ok, of SETTLEMENT_STH] wire_row_roundtrip [OF demo_hex_ok]
    by (auto simp: evidence_head_def demo_evidence_head_def row_from_envelope_def row_to_envelope_def)
  have "record_witness_equivocation_evidence demo_crates 9 demo_evidence [] \<noteq> []"
    by (simp add: record_witness_equivocation_evidence_def Let_def)
  moreover have "sth_root_hash (head_sth (demo_evidence_head r)) = r" for r by (simp add: demo_evidence_head_def)
  moreover have "ee_network_id demo_evidence = ''net''" "ee_shard_id demo_evidence = ''core''" "ee_tree_size demo_evidence = 1"
    "ee_head_a demo_evidence = demo_evidence_head ''b''" "ee_head_b demo_evidence = demo_evidence_head ''a''"
    by (simp_all add: demo_evidence_def)
  moreover have "witness_equivocation_evidence_for demo_crates ''net'' ''core'' [] = Ok []" by (simp add: witness_equivocation_evidence_for_def)
  ultimately show ?thesis
    using evidence_round_trip [of demo_crates demo_evidence 9 "[]" "[]" 9] h by auto
qed

end
