(* ===== verification/Promotion_Facts.thy ===== *)
theory Promotion_Facts
  imports Promotion Mirror_Facts
begin

text \<open>
  What a promoted ledger is worth: the entries a plan accepts form an intact chain whose batch roots
  and tree heads are those of the ledger's own Merkle tree, so the promoted node starts in a state
  that satisfies the ledger's invariant and everything proved of reachable ledgers holds of it.
\<close>

section \<open>Rows and their envelopes\<close>

lemma entry_row_intact:
  assumes C: "hex_ok C" "jsonb_ok jsonb" and h: "recomputed_hash C e = Ok (Some (me_entry_hash e))"
    and er: "row_from_wire C (me_envelope e) = Ok er" and st: "st_network st = me_network_id e" "st_shard st = me_shard_id e"
  shows "\<exists>env. row_to_envelope C er LEDGER_ENTRY = Ok env \<and> row_intact C st (me_prev_hash e) (entry_row jsonb now e er) env"
proof -
  from h obtain env where env: "map_err from_layout (to_envelope C (me_envelope e) LEDGER_ENTRY) = Ok env"
    and pm: "payload_matches C (me_payload e) (me_payload_hash e)"
    and he: "hash_entry C (me_network_id e) (me_shard_id e) (me_prev_hash e) (entry_content e env) = Ok (me_entry_hash e)"
    by (auto simp: recomputed_hash_def rbind_eq_Inr result_ok_eq_Some split: if_splits)
  have "row_to_envelope C er LEDGER_ENTRY = Ok env" using env wire_row_roundtrip [OF C(1) er] by (simp add: row_to_envelope_def)
  moreover have "row_content (entry_row jsonb now e er) env = entry_content e env"
    by (simp add: row_content_def entry_row_def entry_content_def)
  moreover have "payload_matches C (map_option jsonb (me_payload e)) (me_payload_hash e)" by (rule payload_matches_jsonb [OF C(2) pm])
  ultimately show ?thesis using he st by (auto simp: row_intact_def entry_content_intact_def entry_row_def entry_content_def)
qed

section \<open>The plan's invariant\<close>

definition batch_part :: "ledger_row list \<Rightarrow> bytes \<times> int \<times> int \<times> nat \<Rightarrow> bool" where
  "batch_part rows = (\<lambda>(bid, f, l, n). n \<le> length rows \<and> f \<in> l_seq ` set rows \<and>
     (\<exists>pre mid. take n rows = pre @ mid \<and> mid \<noteq> [] \<and> filter (\<lambda>r. l_batch_id r = bid) rows = mid \<and> l_seq (last mid) = l))"

definition batches_inv :: "(bytes \<times> int \<times> int \<times> nat) list \<Rightarrow> ledger_row list \<Rightarrow> bool" where
  "batches_inv bs rows \<longleftrightarrow>
     distinct (map fst bs) \<and> l_batch_id ` set rows = fst ` set bs \<and> sorted_wrt (<) (map (fst \<circ> snd) bs) \<and>
     (\<forall>p\<in>set bs. batch_part rows p) \<and>
     (bs = [] \<longleftrightarrow> rows = []) \<and> (bs \<noteq> [] \<longrightarrow> snd (snd (snd (last bs))) = length rows)"

definition plan_inv :: "crates \<Rightarrow> str \<Rightarrow> str \<Rightarrow> PlanBuilder \<Rightarrow> ledger_row list \<Rightarrow> bool" where
  "plan_inv C net shard b rows \<longleftrightarrow>
     pb_network_id b = net \<and> pb_shard_id b = shard \<and> pb_prev_hash b = chain_tip GENESIS_HASH rows \<and>
     pb_last_seq b = (if rows = [] then None else Some (l_seq (last rows))) \<and>
     sorted_wrt (<) (map l_seq rows) \<and> (\<forall>r\<in>set rows. 0 < l_seq r) \<and>
     chain_ok C (target_ledger net shard empty_db) GENESIS_HASH rows \<and>
     imt_inv C Sha256 (leaf_bytes C (hashes_of rows)) (pb_tree b) \<and>
     batches_inv (pb_batches b) rows \<and> set (pb_seen b) = fst ` set (pb_batches b)"

lemma builder_new_inv: "plan_inv C net shard (builder_new net shard) []"
  by (simp add: plan_inv_def builder_new_def batches_inv_def leaf_bytes_def envelope_current_def imt_new_inv)

lemma batch_part_snoc: "batch_part rows p \<Longrightarrow> l_batch_id r \<noteq> fst p \<Longrightarrow> batch_part (rows @ [r]) p"
  by (cases p) (auto simp: batch_part_def)

lemma batch_part_grows:
  assumes "batch_part rows (bid, f, l, length rows)" "l_batch_id r = bid"
  shows "batch_part (rows @ [r]) (bid, f, l_seq r, Suc (length rows))"
proof -
  obtain pre mid where pm: "rows = pre @ mid" "filter (\<lambda>x. l_batch_id x = bid) rows = mid" "f \<in> l_seq ` set rows"
    using assms(1) unfolding batch_part_def prod.case by (elim conjE exE) (rule that, simp_all)
  have "take (Suc (length rows)) (rows @ [r]) = pre @ (mid @ [r]) \<and> mid @ [r] \<noteq> [] \<and>
      filter (\<lambda>x. l_batch_id x = bid) (rows @ [r]) = mid @ [r] \<and> l_seq (last (mid @ [r])) = l_seq r"
    using pm assms(2) by simp
  then show ?thesis using pm(3) unfolding batch_part_def by auto
qed

lemma batch_part_new:
  assumes "\<forall>x\<in>set rows. l_batch_id x \<noteq> l_batch_id r"
  shows "batch_part (rows @ [r]) (l_batch_id r, l_seq r, l_seq r, Suc (length rows))"
proof -
  have "filter (\<lambda>x. l_batch_id x = l_batch_id r) rows = []" using assms by (simp add: filter_empty_conv)
  then have "take (Suc (length rows)) (rows @ [r]) = rows @ [r] \<and> [r] \<noteq> [] \<and>
      filter (\<lambda>x. l_batch_id x = l_batch_id r) (rows @ [r]) = [r] \<and> l_seq (last [r]) = l_seq r" by simp
  then show ?thesis unfolding batch_part_def by auto
qed

lemma batches_inv_new:
  assumes inv: "batches_inv bs rows" and bid: "l_batch_id r \<notin> fst ` set bs" and new: "\<forall>x\<in>set rows. l_seq x < l_seq r"
  shows "batches_inv (bs @ [(l_batch_id r, l_seq r, l_seq r, Suc (length rows))]) (rows @ [r])"
proof -
  have d: "distinct (map fst bs)" and ids: "l_batch_id ` set rows = fst ` set bs" and so: "sorted_wrt (<) (map (fst \<circ> snd) bs)"
    and parts: "\<forall>p\<in>set bs. batch_part rows p"
    using inv by (simp_all add: batches_inv_def)
  have "\<forall>x\<in>set rows. l_batch_id x \<noteq> l_batch_id r" using ids bid by (metis imageI)
  from batch_part_new [OF this] parts bid
  have "\<forall>p\<in>set (bs @ [(l_batch_id r, l_seq r, l_seq r, Suc (length rows))]). batch_part (rows @ [r]) p"
    by (auto intro!: batch_part_snoc)
  moreover have "fst (snd p) < l_seq r" if "p \<in> set bs" for p
    using parts that new by (cases p) (auto simp: batch_part_def)
  ultimately show ?thesis using d ids so bid by (simp add: batches_inv_def sorted_wrt_append)
qed

lemma batches_inv_same:
  assumes inv: "batches_inv (bs @ [(l_batch_id r, f, l, n)]) rows"
  shows "batches_inv (bs @ [(l_batch_id r, f, l_seq r, Suc (length rows))]) (rows @ [r])"
proof -
  have d: "distinct (map fst bs)" "l_batch_id r \<notin> fst ` set bs" and ids: "l_batch_id ` set rows = fst ` set (bs @ [(l_batch_id r, f, l, n)])"
    and so: "sorted_wrt (<) (map (fst \<circ> snd) bs @ [f])" and parts: "\<forall>p\<in>set bs. batch_part rows p"
    and last: "batch_part rows (l_batch_id r, f, l, n)" "n = length rows"
    using inv by (auto simp: batches_inv_def)
  have "\<forall>p\<in>set (bs @ [(l_batch_id r, f, l_seq r, Suc (length rows))]). batch_part (rows @ [r]) p"
    using parts d(2) batch_part_grows [OF last(1) [unfolded last(2)] refl] by (auto intro!: batch_part_snoc)
  with d ids so show ?thesis by (simp add: batches_inv_def)
qed

lemma push_batch_inv:
  assumes "push_batch (l_batch_id r) (l_seq r) (Suc (length rows)) b = Ok b'"
    and "batches_inv (pb_batches b) rows" "set (pb_seen b) = fst ` set (pb_batches b)" "\<forall>x\<in>set rows. l_seq x < l_seq r"
  shows "batches_inv (pb_batches b') (rows @ [r]) \<and> set (pb_seen b') = fst ` set (pb_batches b') \<and>
    pb_network_id b' = pb_network_id b \<and> pb_shard_id b' = pb_shard_id b \<and> pb_tree b' = pb_tree b"
proof (cases "pb_batches b" rule: rev_cases)
  case Nil
  then have "l_batch_id r \<notin> fst ` set (pb_batches b)" by simp
  from batches_inv_new [OF assms(2) this assms(4)] assms(1,3) Nil show ?thesis
    by (auto simp: push_batch_def split: if_splits)
next
  case (snoc bs last)
  obtain bid f l n where last: "last = (bid, f, l, n)" by (cases last)
  show ?thesis
  proof (cases "bid = l_batch_id r")
    case True
    with assms(1) snoc last have b': "b' = b\<lparr>pb_batches := bs @ [(l_batch_id r, f, l_seq r, Suc (length rows))]\<rparr>"
      by (simp add: push_batch_def)
    show ?thesis using batches_inv_same [of bs r f l n rows] assms(2,3) snoc last True
      by (auto simp: b')
  next
    case False
    with assms(1) snoc last have new: "l_batch_id r \<notin> fst ` set (pb_batches b)" and
      b': "b' = b\<lparr>pb_seen := l_batch_id r # pb_seen b, pb_batches := pb_batches b @ [(l_batch_id r, l_seq r, l_seq r, Suc (length rows))]\<rparr>"
      using assms(3) by (auto simp: push_batch_def split: if_splits)
    show ?thesis using batches_inv_new [OF assms(2) new assms(4)] assms(3)
      by (auto simp: b')
  qed
qed

lemma plan_push_inv:
  assumes C: "hex_ok C" "jsonb_ok jsonb" and inv: "plan_inv C net shard b rows"
    and push: "plan_push C b e = Ok b'" and ins: "promote_insert_entry C jsonb now e rows = Ok rows'"
    and e: "0 < me_seq e" and small: "length rows < 2 ^ 64"
  shows "plan_inv C net shard b' rows' \<and> (\<exists>er. rows' = rows @ [entry_row jsonb now e er])"
proof -
  obtain er where er: "row_from_wire C (me_envelope e) = Ok er" and rows': "rows' = rows @ [entry_row jsonb now e er]"
    using ins by (auto simp: promote_insert_entry_def rbind_eq_Inr split: if_splits)
  let ?r = "entry_row jsonb now e er"
  from push obtain leaf b1 where
    seq: "\<not> (case pb_last_seq b of Some l \<Rightarrow> me_seq e \<le> l | None \<Rightarrow> False)" and prev: "me_prev_hash e = pb_prev_hash b"
    and rec: "recomputed_hash C e = Ok (Some (me_entry_hash e))" and net: "me_network_id e = pb_network_id b" "me_shard_id e = pb_shard_id b"
    and leaf: "hex_decode C (me_entry_hash e) = Some leaf"
    and b1: "push_batch (me_batch_id e) (me_seq e) (imt_size (imt_append C leaf (pb_tree b)))
      (b\<lparr>pb_pruned := (if me_payload e = None then pb_pruned b + 1 else pb_pruned b), pb_tree := imt_append C leaf (pb_tree b)\<rparr>) = Ok b1"
    and b': "b' = b1\<lparr>pb_prev_hash := me_entry_hash e, pb_last_seq := Some (me_seq e)\<rparr>"
    unfolding plan_push_def Let_def by (auto simp: rbind_eq_Inr split: if_splits)
  have tree: "imt_inv C Sha256 (leaf_bytes C (hashes_of (rows @ [?r]))) (imt_append C leaf (pb_tree b))"
    using imt_append_inv [of C Sha256 "leaf_bytes C (hashes_of rows)" "pb_tree b" leaf] inv small leaf
    by (simp add: plan_inv_def leaf_bytes_def entry_row_def)
  then have sz: "imt_size (imt_append C leaf (pb_tree b)) = Suc (length rows)" by (simp add: imt_inv_def leaf_bytes_def)
  have above: "\<forall>x\<in>set rows. l_seq x < me_seq e"
  proof (cases rows rule: rev_cases)
    case (snoc xs x)
    have "l_seq x < me_seq e" using seq inv snoc by (simp add: plan_inv_def)
    moreover have "\<forall>y\<in>set xs. l_seq y < l_seq x" using inv snoc by (simp add: plan_inv_def sorted_wrt_append)
    ultimately show ?thesis using snoc by auto
  qed simp
  let ?b = "b\<lparr>pb_pruned := (if me_payload e = None then pb_pruned b + 1 else pb_pruned b), pb_tree := imt_append C leaf (pb_tree b)\<rparr>"
  have "push_batch (l_batch_id ?r) (l_seq ?r) (Suc (length rows)) ?b = Ok b1" using b1 sz by (simp add: entry_row_def)
  from push_batch_inv [OF this] inv above have
    bi: "batches_inv (pb_batches b1) (rows @ [?r])" "set (pb_seen b1) = fst ` set (pb_batches b1)" and
    b1': "pb_network_id b1 = net" "pb_shard_id b1 = shard" "pb_tree b1 = imt_append C leaf (pb_tree b)"
    by (simp_all add: plan_inv_def entry_row_def)
  let ?st = "target_ledger net shard empty_db"
  have "\<exists>env. row_to_envelope C er LEDGER_ENTRY = Ok env \<and> row_intact C ?st (me_prev_hash e) ?r env"
    using inv net by (intro entry_row_intact [OF C rec er]) (simp_all add: target_ledger_def plan_inv_def)
  then have "chain_ok C ?st GENESIS_HASH (rows @ [?r])"
    using inv prev by (auto simp: chain_ok_append plan_inv_def entry_row_def)
  moreover have "sorted_wrt (<) (map l_seq (rows @ [?r]))" using inv above by (auto simp: plan_inv_def sorted_wrt_append entry_row_def)
  ultimately show ?thesis using inv tree bi e unfolding rows' b'
    by (auto simp: plan_inv_def b1' chain_tip_def entry_row_def)
qed

section \<open>Reading the mirror page by page\<close>

lemma plan_push_above:
  assumes "plan_push C b e = Ok b'" "plan_inv C net shard b rows"
  shows "\<forall>x\<in>set rows. l_seq x < me_seq e"
proof (cases rows rule: rev_cases)
  case (snoc xs x)
  have "l_seq x < me_seq e" using assms snoc by (auto simp: plan_inv_def plan_push_def split: if_splits)
  moreover have "\<forall>y\<in>set xs. l_seq y < l_seq x" using assms(2) snoc by (simp add: plan_inv_def sorted_wrt_append)
  ultimately show ?thesis using snoc by auto
qed simp

lemma plan_rows_distinct: "plan_inv C net shard b rows \<Longrightarrow> distinct (map l_seq rows)"
  by (auto simp: plan_inv_def strict_sorted_iff)

lemma push_page_inv:
  assumes C: "hex_ok C" "jsonb_ok jsonb" and S: "finite S" "card S \<le> 2 ^ 64"
  shows "push_page C jsonb now False es b rows = Ok (b', rows') \<Longrightarrow> plan_inv C net shard b rows \<Longrightarrow>
    l_seq ` set rows \<subseteq> S \<Longrightarrow> \<forall>e\<in>set es. 0 < me_seq e \<and> me_seq e \<in> S \<Longrightarrow>
    plan_inv C net shard b' rows' \<and> l_seq ` set rows' \<subseteq> S"
proof (induction es arbitrary: b rows)
  case (Cons e es)
  then obtain b1 rows1 where push: "plan_push C b e = Ok b1" and ins: "promote_insert_entry C jsonb now e rows = Ok rows1"
    and rest: "push_page C jsonb now False es b1 rows1 = Ok (b', rows')"
    by (auto simp: rbind_eq_Inr)
  note above = plan_push_above [OF push Cons.prems(2)]
  have "card (insert (me_seq e) (l_seq ` set rows)) \<le> card S"
    using Cons.prems(3,4) S(1) by (intro card_mono) auto
  moreover have "card (l_seq ` set rows) = length rows"
    using distinct_card [OF plan_rows_distinct [OF Cons.prems(2)]] by simp
  moreover have "me_seq e \<notin> l_seq ` set rows" using above by force
  ultimately have small: "length rows < 2 ^ 64" using S(2) by simp
  from plan_push_inv [OF C Cons.prems(2) push ins _ small] Cons.prems(4)
  obtain er where inv: "plan_inv C net shard b1 rows1" and rows1: "rows1 = rows @ [entry_row jsonb now e er]" by auto
  have "l_seq ` set rows1 \<subseteq> S" using Cons.prems(3,4) by (auto simp: rows1 entry_row_def)
  from Cons.IH [OF rest inv this] Cons.prems(4) show ?case by simp
qed simp

lemma push_pages_inv:
  assumes "hex_ok C" "jsonb_ok jsonb" "length source \<le> 2 ^ 64" "\<not> pr_dry_run params"
    and "push_pages C jsonb now params source since b rows = Ok (b', rows')" "0 \<le> since" "plan_inv C net shard b rows"
    and "l_seq ` set rows \<subseteq> (me_seq \<circ> mr_entry) ` set source"
  shows "plan_inv C net shard b' rows' \<and> l_seq ` set rows' \<subseteq> (me_seq \<circ> mr_entry) ` set source"
  using assms
proof (induction C jsonb now params source since b rows rule: push_pages.induct)
  case (1 C jsonb now params source since b rows)
  let ?page = "mirrored_entries_since C (pr_network_id params) (pr_shard_id params) since PAGE_SIZE None (pr_source_url params) source"
  let ?S = "(me_seq \<circ> mr_entry) ` set source"
  show ?case
  proof (cases "?page = []")
    case True
    with 1(6) have "(b', rows') = (b, rows)" by (subst (asm) push_pages.simps) (simp add: Let_def)
    with 1(8,9) show ?thesis by simp
  next
    case False
    with 1(5,6) obtain b1 rows1 where page: "push_page C jsonb now False ?page b rows = Ok (b1, rows1)"
      and rest: "push_pages C jsonb now params source (me_seq (last ?page)) b1 rows1 = Ok (b', rows')"
      by (subst (asm) push_pages.simps) (auto simp: Let_def split: sum.splits)
    have S: "finite ?S" "card ?S \<le> 2 ^ 64"
      using card_image_le [of "set source" "me_seq \<circ> mr_entry"] card_length [of source] 1(4) by auto
    have mem: "since < me_seq e \<and> me_seq e \<in> ?S" if "e \<in> set ?page" for e
      using page_entry [OF that] by force
    have inv: "plan_inv C net shard b1 rows1 \<and> l_seq ` set rows1 \<subseteq> ?S"
      using push_page_inv [OF 1(2,3) S page 1(8,9)] mem 1(7) by fastforce
    have pos: "0 \<le> me_seq (last ?page)" using mem [of "last ?page"] False 1(7) last_in_set by fastforce
    have "push_page C jsonb now (pr_dry_run params) ?page b rows = Ok (b1, rows1)" using page 1(5) by simp
    from "1.IH" [OF refl False this refl 1(2-5) rest pos] inv show ?thesis by blast
  qed
qed

section \<open>The finished plan\<close>

lemma planned_batches_Some:
  assumes "imt_inv C Sha256 (leaf_bytes C (hashes_of rows)) t" "length rows \<le> 2 ^ 64" "\<forall>(bid, f, l, n)\<in>set bs. n \<le> length rows"
  shows "planned_batches C t bs = Some (map (\<lambda>(bid, f, l, n). \<lparr>pl_batch_id = bid, pl_first_seq = f, pl_last_seq = l,
    pl_tree_size = n, pl_batch_root = ledger_root C (take n rows)\<rparr>) bs)"
  using assms(3)
proof (induction bs)
  case (Cons p bs)
  obtain bid f l n where p: "p = (bid, f, l, n)" by (cases p)
  have "imt_root C t n = Some (Some (mth C Sha256 (take n (leaf_bytes C (hashes_of rows)))))"
    using imt_refines(1) [OF assms(1)] assms(2) Cons.prems p by (simp add: leaf_bytes_def)
  with Cons p show ?case by (simp add: ledger_root_def leaf_bytes_take)
qed simp

lemma plan_root_at_Some:
  assumes "imt_inv C Sha256 (leaf_bytes C (hashes_of rows)) (pp_tree plan)" "length rows \<le> 2 ^ 64" "1 \<le> n" "n \<le> int (length rows)"
  shows "plan_root_at C plan n = Some (Some (ledger_root C (take (nat n) rows)))"
  using imt_refines(1) [OF assms(1), of "nat n"] assms(2-4)
  by (simp add: plan_root_at_def leaf_bytes_take ledger_root_def) (simp add: leaf_bytes_def)

lemma plan_finish_spec:
  assumes inv: "plan_inv C net shard b rows" and ne: "rows \<noteq> []" and small: "length rows \<le> 2 ^ 64"
  shows "\<exists>plan. plan_finish C b = Some (Ok plan) \<and> pp_tree_size plan = length rows \<and> pp_tree plan = pb_tree b \<and>
    pp_highest_seq plan = l_seq (last rows) \<and> plan_final_root C plan = Some (ledger_root C rows) \<and>
    pp_batches plan = map (\<lambda>(bid, f, l, n). \<lparr>pl_batch_id = bid, pl_first_seq = f, pl_last_seq = l,
      pl_tree_size = n, pl_batch_root = ledger_root C (take n rows)\<rparr>) (pb_batches b)"
proof -
  have t: "imt_inv C Sha256 (leaf_bytes C (hashes_of rows)) (pb_tree b)" using inv by (simp add: plan_inv_def)
  have "\<forall>(bid, f, l, n)\<in>set (pb_batches b). n \<le> length rows"
    using inv by (auto simp: plan_inv_def batches_inv_def batch_part_def)
  note bs = planned_batches_Some [OF t small this]
  have sz: "imt_size (pb_tree b) = length rows" using t by (simp add: imt_inv_def leaf_bytes_def)
  have "plan_root_at C plan (int (length rows)) = Some (Some (ledger_root C rows))" if "pp_tree plan = pb_tree b" for plan
    using plan_root_at_Some [of C rows plan "int (length rows)"] t small ne that by (cases rows) simp_all
  with inv ne bs sz show ?thesis by (simp add: plan_finish_def plan_inv_def plan_final_root_def)
qed

section \<open>The carried heads\<close>

lemma choose_sths_spec:
  assumes tree: "imt_inv C Sha256 (leaf_bytes C (hashes_of rows)) (pp_tree plan)" "length rows \<le> 2 ^ 64" "pp_tree_size plan = length rows"
  shows "\<exists>chosen. choose_sths C plan sizes observed = Some chosen \<and> set chosen \<subseteq> set observed \<and>
    (\<forall>s\<in>set chosen. 1 \<le> sint (ob_tree_size s) \<and> sint (ob_tree_size s) \<le> int (length rows) \<and>
       ob_root_hash s = ledger_root C (take (nat (sint (ob_tree_size s))) rows)) \<and>
    distinct (map ob_tree_size chosen) \<and> ob_tree_size ` set chosen \<inter> set sizes = {}"
proof (induction observed arbitrary: sizes)
  case (Cons s rest)
  show ?case
  proof (cases "sint (ob_tree_size s) < 1 \<or> sint (ob_tree_size s) > int (length rows) \<or> ob_tree_size s \<in> set sizes")
    case True
    with Cons.IH [of sizes] assms(3) show ?thesis by auto
  next
    case False
    then have r: "plan_root_at C plan (sint (ob_tree_size s)) = Some (Some (ledger_root C (take (nat (sint (ob_tree_size s))) rows)))"
      using plan_root_at_Some [OF tree(1,2), of "sint (ob_tree_size s)"] by simp
    show ?thesis
    proof (cases "ob_root_hash s = ledger_root C (take (nat (sint (ob_tree_size s))) rows)")
      case True
      from Cons.IH [of "ob_tree_size s # sizes"] obtain chosen where
        "choose_sths C plan (ob_tree_size s # sizes) rest = Some chosen" "set chosen \<subseteq> set rest"
        "\<forall>s\<in>set chosen. 1 \<le> sint (ob_tree_size s) \<and> sint (ob_tree_size s) \<le> int (length rows) \<and>
           ob_root_hash s = ledger_root C (take (nat (sint (ob_tree_size s))) rows)"
        "distinct (map ob_tree_size chosen)" "ob_tree_size ` set chosen \<inter> set (ob_tree_size s # sizes) = {}" by blast
      with False True r assms(3) show ?thesis by auto
    qed (use Cons.IH [of sizes] False r assms(3) in auto)
  qed
qed simp

lemma carried_heads_ok:
  assumes "carried_heads C ss = Ok heads" "h \<in> set heads"
  shows "\<exists>s\<in>set ss. h_head h = sth_of_observed s"
  using assms by (induction ss arbitrary: heads) (auto simp: rbind_eq_Inr)

lemma read_observed_fields:
  assumes "read_observed C rs = Ok observed" "s \<in> set observed"
  shows "\<exists>r\<in>set rs. \<exists>env. s = (or_sth r)\<lparr>ob_envelope := env\<rparr>"
  using assms by (induction rs arbitrary: observed) (auto simp: rbind_eq_Inr observed_sth_from_row_def)

section \<open>The promoted ledger\<close>

lemma filter_to_last:
  assumes "sorted_wrt (<) (map l_seq rows)" "take n rows = pre @ mid" "mid \<noteq> []"
  shows "filter (\<lambda>r. l_seq r \<le> l_seq (last mid)) rows = take n rows"
proof -
  obtain ms m where mid: "mid = ms @ [m]" using assms(3) by (cases mid rule: rev_cases) auto
  have rows: "rows = (pre @ ms) @ m # drop n rows" using assms(2) mid append_take_drop_id [of n rows] by simp
  have s: "sorted_wrt (<) (map l_seq ((pre @ ms) @ m # drop n rows))" using assms(1) rows by simp
  have "\<forall>x\<in>set (pre @ ms). l_seq x < l_seq m" using s by (simp add: sorted_wrt_append ball_Un)
  then have a: "filter (\<lambda>r. l_seq r \<le> l_seq m) (pre @ ms) = pre @ ms" by (intro filter_True) (meson less_imp_le)
  have b: "filter (\<lambda>r. l_seq r \<le> l_seq m) (drop n rows) = []" using s by (auto simp: sorted_wrt_append filter_empty_conv)
  have "filter (\<lambda>r. l_seq r \<le> l_seq m) rows = (pre @ ms) @ [m]"
    using a b by (subst rows) (simp only: filter_append [of _ "pre @ ms"] filter.simps order_refl if_True)
  then show ?thesis using assms(2) mid by simp
qed

lemma stamp_fields [simp]:
  "l_seq (stamp_row bs r) = l_seq r" "l_entry_hash (stamp_row bs r) = l_entry_hash r" "l_batch_id (stamp_row bs r) = l_batch_id r"
  "l_envelope (stamp_row bs r) = l_envelope r" "row_intact C st prev (stamp_row bs r) env = row_intact C st prev r env"
  by (simp_all add: stamp_row_def row_intact_def row_content_def split: option.splits)

lemma stamp_rows [simp]:
  "map l_seq (map (stamp_row bs) rows) = map l_seq rows" "hashes_of (map (stamp_row bs) rows) = hashes_of rows"
  "chain_ok C st prev (map (stamp_row bs) rows) = chain_ok C st prev rows"
  "ledger_root C (map (stamp_row bs) rows) = ledger_root C rows" "chain_tip prev (map (stamp_row bs) rows) = chain_tip prev rows"
proof -
  show h: "hashes_of (map (stamp_row bs) rows) = hashes_of rows" by simp
  show "ledger_root C (map (stamp_row bs) rows) = ledger_root C rows" by (simp only: ledger_root_def h)
  show "chain_ok C st prev (map (stamp_row bs) rows) = chain_ok C st prev rows"
    by (induction rows arbitrary: prev) simp_all
qed (simp_all add: chain_tip_def last_map)

lemma planned_batch_ok:
  assumes s: "sorted_wrt (<) (map l_seq rows)" and part: "batch_part rows (bid, f, l, n)"
    and b: "b_batch_id b = bid" "b_last_seq b = l" "b_batch_root b = ledger_root C (take n rows)"
  shows "batch_ok C (map (stamp_row bs) rows) b"
proof -
  obtain pre mid where pm: "take n rows = pre @ mid" "mid \<noteq> []" "filter (\<lambda>r. l_batch_id r = bid) rows = mid" "l_seq (last mid) = l"
    using part unfolding batch_part_def prod.case by blast
  have "filter (\<lambda>r. l_seq r \<le> l) rows = pre @ mid" using filter_to_last [OF s pm(1,2)] pm(1,4) by simp
  then show ?thesis unfolding batch_ok_def
    using pm b by (intro exI [of _ "map (stamp_row bs) pre"] exI [of _ "map (stamp_row bs) mid"])
      (simp add: filter_map comp_def last_map flip: map_append)
qed

lemma promoted_settled:
  assumes inv: "plan_inv C net shard b rows" and small: "length rows \<le> 2 ^ 64"
    and bs: "db_batches d = map (\<lambda>(bid, f, l, n). planned_row sths now \<lparr>pl_batch_id = bid, pl_first_seq = f, pl_last_seq = l,
      pl_tree_size = n, pl_batch_root = ledger_root C (take n rows)\<rparr>) (pb_batches b)"
    and rows: "db_entries d = map (stamp_row (db_batches d)) rows"
    and heads: "\<forall>h\<in>set (db_heads d). head_ok C net rows h"
  shows "settled C (target_ledger net shard d)"
proof -
  have s: "sorted_wrt (<) (map l_seq rows)" and pos: "\<forall>r\<in>set rows. 0 < l_seq r" and bi: "batches_inv (pb_batches b) rows"
    and chain: "chain_ok C (target_ledger net shard empty_db) GENESIS_HASH rows"
    using inv by (simp_all add: plan_inv_def)
  have c: "chain_ok C (target_ledger net shard d) GENESIS_HASH (db_entries d)"
    using chain chain_ok_cong [of "target_ledger net shard d" "target_ledger net shard empty_db"]
    by (simp add: rows target_ledger_def)
  have ids: "map b_batch_id (db_batches d) = map fst (pb_batches b)"
    by (simp add: bs comp_def case_prod_unfold planned_row_def)
  have "batch_ok C (db_entries d) x" if "x \<in> set (db_batches d)" for x
  proof -
    obtain bid f l n where p: "(bid, f, l, n) \<in> set (pb_batches b)" and
      x: "x = planned_row sths now \<lparr>pl_batch_id = bid, pl_first_seq = f, pl_last_seq = l,
        pl_tree_size = n, pl_batch_root = ledger_root C (take n rows)\<rparr>" using \<open>x \<in> _\<close> by (auto simp: bs)
    have "batch_part rows (bid, f, l, n)" using bi p by (simp add: batches_inv_def)
    from planned_batch_ok [OF s this, of x C "db_batches d"] show ?thesis by (simp add: rows x planned_row_def)
  qed
  moreover have "head_ok C net (db_entries d) h" if "h \<in> set (db_heads d)" for h
    using heads that by (auto simp: head_ok_def rows take_map)
  moreover have "l_batch_id ` set (db_entries d) \<subseteq> b_batch_id ` set (db_batches d)"
  proof -
    have "b_batch_id ` set (db_batches d) = fst ` set (pb_batches b)" using arg_cong [OF ids, of set] by simp
    moreover have "l_batch_id ` set (db_entries d) = l_batch_id ` set rows" by (simp add: rows image_image)
    ultimately show ?thesis using bi by (simp add: batches_inv_def)
  qed
  moreover have "distinct (map b_batch_id (db_batches d))" using bi ids by (simp add: batches_inv_def)
  moreover have "map l_seq (db_entries d) = map l_seq rows" by (simp add: rows)
  moreover have "\<forall>r\<in>set (db_entries d). 0 < l_seq r" using pos by (simp add: rows)
  ultimately have "ledger_ok C (target_ledger net shard d)"
    using s c by (simp add: ledger_ok_def target_ledger_def)
  then show ?thesis using small
    by (simp add: settled_def cache_ok_for cache_for_default target_ledger_def entry_count_def rows)
qed

lemma length_view_entries [simp]: "length (view_entries C st prev rows) = length rows"
  by (induction rows arbitrary: prev) simp_all

lemma sort_key_strict: "sorted_wrt (<) (map f xs) \<Longrightarrow> sort_key f xs = xs"
  by (simp add: sort_key_id_if_sorted sorted_wrt_mono_rel [of _ "(<)" "(\<le>)"])

lemma root_at_settled:
  assumes "hex_ok C" "settled C st" "n \<le> entry_count st"
  shows "\<exists>h st'. root_at C n st = Some (Ok (Some h), st') \<and> hex_encode C h = ledger_root C (take n (rows_of st))"
proof -
  from cached_tree [OF assms] obtain c where c: "ensure_cache_covers C n st = (Ok (), st\<lparr>st_cache := c\<rparr>)" "n \<le> length (lc_leaves c)"
    "length (lc_leaves c) \<le> 2 ^ 64" "imt_inv C Sha256 (leaf_bytes C (lc_leaves c)) (lc_tree c)"
    "take n (leaf_bytes C (lc_leaves c)) = leaf_bytes C (hashes_of (take n (rows_of st)))" by blast
  then have "imt_root C (lc_tree c) n = Some (Some (mth C Sha256 (take n (leaf_bytes C (lc_leaves c)))))"
    by (intro imt_refines(1) [OF c(4)]) (simp_all add: leaf_bytes_def)
  with c(1,5) show ?thesis by (simp add: root_at_def ledger_root_def)
qed

lemma verify_target_settled:
  assumes "hex_ok C" and S: "settled C (target_ledger net shard (tg_db t))" and "tg_genesis t = Some net"
    and "length (db_entries (tg_db t)) = pp_tree_size plan" "plan_final_root C plan = Some (ledger_root C (db_entries (tg_db t)))"
    and "sorted_wrt (<) (map b_first_seq (db_batches (tg_db t)))"
    and "map b_batch_root (db_batches (tg_db t)) = map pl_batch_root (pp_batches plan)"
  shows "verify_target C t shard plan = Some (Ok ())"
proof -
  let ?st = "target_ledger net shard (tg_db t)"
  have rows: "rows_of ?st = db_entries (tg_db t)" by (simp add: target_ledger_def)
  have "chain_ok C ?st GENESIS_HASH (db_entries (tg_db t))" "sorted_wrt (<) (map l_seq (db_entries (tg_db t)))"
    using S by (auto simp: settled_def ledger_ok_def rows)
  then have intact: "\<forall>v\<in>set (list_entries C ?st). v_chain_intact v" "length (list_entries C ?st) = pp_tree_size plan"
    using intact_views [of C ?st] by (simp_all add: list_entries_def by_seq_def by_seq_sorted target_ledger_def assms(4))
  obtain h st' where r: "root_at C (pp_tree_size plan) ?st = Some (Ok (Some h), st')" "hex_encode C h = ledger_root C (db_entries (tg_db t))"
    using root_at_settled [OF assms(1) S, of "pp_tree_size plan"] by (auto simp: entry_count_def rows assms(4) [symmetric])
  have "list_batches ?st = db_batches (tg_db t)" by (simp add: list_batches_def target_ledger_def sort_key_strict assms(6))
  with intact r assms(3,5,7) show ?thesis by (auto simp: verify_target_def Let_def)
qed

lemma carried_head_ok:
  assumes "ob_network_id s = net" "1 \<le> sint (ob_tree_size s)" "sint (ob_tree_size s) \<le> int (length rows)"
    "ob_root_hash s = ledger_root C (take (nat (sint (ob_tree_size s))) rows)" "h_head h = sth_of_observed s"
  shows "head_ok C net rows h"
  unfolding head_ok_def using assms
  by (auto simp: sth_of_observed_def intro!: exI [of _ "nat (sint (ob_tree_size s))"])

text \<open>The outcome of a promotion: an error that leaves the target as it was, or a target whose ledger is
  settled and whose root is the one the source signed at that size.\<close>

definition promoted :: "crates \<Rightarrow> mirror_db \<Rightarrow> PromoteParams \<Rightarrow> promotion_target \<Rightarrow> PromotionReport \<Rightarrow> bool" where
  "promoted C source params t report \<longleftrightarrow>
     tg_genesis t = Some (pr_network_id params) \<and>
     settled C (target_ledger (pr_network_id params) (pr_shard_id params) (tg_db t)) \<and>
     length (db_entries (tg_db t)) = rp_entries report \<and> 0 < rp_entries report \<and>
     ledger_root C (db_entries (tg_db t)) = rp_root report \<and>
     rp_next_seq report = max_seq (tg_db t) + 1 \<and>
     (\<exists>o'\<in>or_sth ` set (md_observed source). in_log (pr_network_id params) (pr_shard_id params) (pr_source_url params) o' \<and>
        sint (ob_tree_size o') = int (rp_entries report) \<and> ob_root_hash o' = rp_root report)"

definition promotion_outcome ::
  "crates \<Rightarrow> mirror_db \<Rightarrow> PromoteParams \<Rightarrow> promotion_target \<Rightarrow> (PromotionError + PromotionReport) \<times> promotion_target \<Rightarrow> bool" where
  "promotion_outcome C source params target = (\<lambda>(r, t).
     case r of
       Inl e \<Rightarrow> t = target \<and> (\<forall>m. e \<noteq> PostCommitVerification m)
     | Inr report \<Rightarrow> promoted C source params t report)"

lemma read_observed_sorted:
  assumes "observed_sths_for C rows params = Ok observed" "s \<in> set observed"
  shows "\<exists>r\<in>set rows. in_log (pr_network_id params) (pr_shard_id params) (pr_source_url params) (or_sth r) \<and>
    ob_network_id s = pr_network_id params \<and> ob_tree_size s = ob_tree_size (or_sth r) \<and> ob_root_hash s = ob_root_hash (or_sth r)"
  using read_observed_fields [OF assms(1) [unfolded observed_sths_for_def] assms(2)]
  by (auto simp: in_log_def)

lemma max_seq_last:
  assumes "sorted_wrt (<) (map l_seq (db_entries d))" "\<forall>r\<in>set (db_entries d). 0 < l_seq r" "db_entries d \<noteq> []"
  shows "max_seq d = l_seq (last (db_entries d))"
proof -
  obtain xs x where d: "db_entries d = xs @ [x]" using assms(3) by (cases "db_entries d" rule: rev_cases) auto
  have "\<forall>y\<in>set xs. l_seq y \<le> l_seq x" using assms(1) d by (auto simp: sorted_wrt_append intro: less_imp_le)
  moreover have "0 < l_seq x" using assms(2) d by simp
  ultimately show ?thesis unfolding max_seq_def d by (intro Max_eqI) auto
qed

lemma promoted_target:
  assumes C: "hex_ok C" and inv: "plan_inv C net shard b rows" and ne: "rows \<noteq> []" and small: "length rows \<le> 2 ^ 64"
    and plan: "plan_finish C b = Some (Ok plan)" and heads: "\<forall>h\<in>set heads. head_ok C net rows h"
    and bs: "bs = map (planned_row sths now) (pp_batches plan)"
    and d: "d = \<lparr>db_entries = map (stamp_row bs) rows, db_batches = bs, db_heads = heads, db_cosigs = cosigs\<rparr>"
  shows "settled C (target_ledger net shard d)" "verify_target C \<lparr>tg_genesis = Some net, tg_db = d\<rparr> shard plan = Some (Ok ())"
    "max_seq d = pp_highest_seq plan"
proof -
  from plan_finish_spec [OF inv ne small] plan have
    p: "pp_tree_size plan = length rows" "pp_highest_seq plan = l_seq (last rows)" "plan_final_root C plan = Some (ledger_root C rows)" and
    pbs: "pp_batches plan = map (\<lambda>(bid, f, l, n). \<lparr>pl_batch_id = bid, pl_first_seq = f, pl_last_seq = l,
      pl_tree_size = n, pl_batch_root = ledger_root C (take n rows)\<rparr>) (pb_batches b)" by auto
  show S: "settled C (target_ledger net shard d)"
    by (rule promoted_settled [OF inv small, where sths = sths and now = now]) (simp_all add: heads bs pbs d comp_def case_prod_unfold)
  have "sorted_wrt (<) (map b_first_seq bs)"
    using inv by (simp add: bs pbs comp_def case_prod_unfold planned_row_def plan_inv_def batches_inv_def)
  then show "verify_target C \<lparr>tg_genesis = Some net, tg_db = d\<rparr> shard plan = Some (Ok ())"
    using p S by (intro verify_target_settled [OF C, of net]) (simp_all add: d bs planned_row_def comp_def)
  have "map l_seq (db_entries d) = map l_seq rows" by (simp add: d)
  moreover have "\<forall>r\<in>set (db_entries d). 0 < l_seq r" using inv by (simp add: d plan_inv_def)
  moreover have "l_seq (last (db_entries d)) = l_seq (last rows)" using ne by (simp add: d last_map)
  ultimately show "max_seq d = pp_highest_seq plan"
    using max_seq_last [of d] inv ne p(2) by (simp add: plan_inv_def d comp_def)
qed

text \<open>The steps before the transaction never report a failed check of the promoted ledger.\<close>

lemma rbind_Inl_iff: "rbind x f = Inl e \<longleftrightarrow> x = Inl e \<or> (\<exists>v. x = Inr v \<and> f v = Inl e)"
  by (cases x) auto

lemma map_err_Inl_iff: "map_err f r = Inl e \<longleftrightarrow> (\<exists>x. r = Inl x \<and> f x = e)"
  by (cases r) auto

lemma ok_or_Inl_iff: "ok_or e' r = Inl e \<longleftrightarrow> r = None \<and> e' = e"
  by (cases r) auto

lemmas Inl_iffs = rbind_Inl_iff map_err_Inl_iff ok_or_Inl_iff

lemma carried_heads_error: "carried_heads C ss \<noteq> Inl (PostCommitVerification m)"
  by (induction ss) (simp_all add: Inl_iffs)

lemma check_target_error: "check_target_fresh t net \<noteq> Inl (PostCommitVerification m)"
  by (simp add: check_target_fresh_def split: option.splits)

lemma push_page_error: "push_page C jsonb now dry es b rows \<noteq> Inl (PostCommitVerification m)"
proof (induction es arbitrary: b rows)
  case (Cons e es)
  have "plan_push C b e \<noteq> Inl (PostCommitVerification m)"
    by (simp add: plan_push_def push_batch_def Let_def Inl_iffs split: list.splits prod.splits)
  moreover have "promote_insert_entry C jsonb now e rows \<noteq> Inl (PostCommitVerification m)"
    by (simp add: promote_insert_entry_def Inl_iffs)
  ultimately show ?case using Cons.IH by (simp add: Inl_iffs)
qed simp

lemma push_pages_error: "push_pages C jsonb now params source since b rows \<noteq> Inl (PostCommitVerification m)"
  by (induction C jsonb now params source since b rows rule: push_pages.induct)
    (subst push_pages.simps, auto simp: Let_def push_page_error split: sum.splits)

lemma promote_plan_outcome:
  assumes C: "hex_ok C" and inv: "plan_inv C net shard b rows" and ne: "rows \<noteq> []" and small: "length rows \<le> 2 ^ 64"
    and plan: "plan_finish C b = Some (Ok plan)" and fin: "plan_final_root C plan = Some final_root"
    and params: "pr_network_id params = net" "pr_shard_id params = shard" "\<not> pr_dry_run params"
    and gen: "(if write_genesis then Some net else tg_genesis target) = Some net"
  shows "\<exists>x. promote_plan C now source target params write_genesis rows plan final_root = Some x \<and>
    promotion_outcome C source params target x"
proof (cases "observed_sths_for C (md_observed source) params")
  case obs: (Inr observed)
  from plan_finish_spec [OF inv ne small] plan fin have p: "pp_tree_size plan = length rows" "pp_tree plan = pb_tree b"
    and fr: "final_root = ledger_root C rows" by auto
  have tree: "imt_inv C Sha256 (leaf_bytes C (hashes_of rows)) (pp_tree plan)" using inv p(2) by (simp add: plan_inv_def)
  from choose_sths_spec [OF tree small p(1), of "[]" observed] obtain chosen where
    ch: "choose_sths C plan [] observed = Some chosen" "set chosen \<subseteq> set observed"
      "\<forall>s\<in>set chosen. 1 \<le> sint (ob_tree_size s) \<and> sint (ob_tree_size s) \<le> int (length rows) \<and>
         ob_root_hash s = ledger_root C (take (nat (sint (ob_tree_size s))) rows)" by blast
  define sths where "sths = sort_key (sint \<circ> ob_tree_size) chosen"
  have sel: "select_sths C plan observed = Some sths" "set sths = set chosen" using ch(1) by (simp_all add: select_sths_def sths_def)
  have seen: "\<exists>r\<in>set (md_observed source). in_log (pr_network_id params) (pr_shard_id params) (pr_source_url params) (or_sth r) \<and>
      ob_network_id s = net \<and> ob_tree_size s = ob_tree_size (or_sth r) \<and> ob_root_hash s = ob_root_hash (or_sth r)" if "s \<in> set sths" for s
    using read_observed_sorted [OF obs, of s] that sel(2) ch(2) params(1) by auto
  show ?thesis
  proof (cases "sths = [] \<or> sint (ob_tree_size (last sths)) \<noteq> int (length rows) \<or> (\<exists>e. carried_heads C sths = Inl e)")
    case True
    then show ?thesis using sel p params by (auto simp: promote_plan_def obs promotion_outcome_def carried_heads_error Let_def)
  next
    case False
    then obtain heads where heads: "carried_heads C sths = Inr heads" by (cases "carried_heads C sths") auto
    have "\<forall>h\<in>set heads. head_ok C net rows h"
      using carried_heads_ok [OF heads] seen ch(3) sel(2) carried_head_ok by metis
    note t = promoted_target [OF C inv ne small plan this refl refl, where sths = sths and now = now and cosigs = "db_cosigs (tg_db target)"]
    from False seen [of "last sths"] obtain r where "r \<in> set (md_observed source)"
      "in_log (pr_network_id params) (pr_shard_id params) (pr_source_url params) (or_sth r)"
      "ob_tree_size (last sths) = ob_tree_size (or_sth r)" "ob_root_hash (last sths) = ob_root_hash (or_sth r)" by auto
    moreover have "ob_root_hash (last sths) = ledger_root C rows" using False ch(3) sel(2) last_in_set [of sths] by auto
    ultimately show ?thesis using sel False heads t gen params p fr ne
      by (auto simp: promote_plan_def obs promotion_outcome_def promoted_def Let_def)
  qed
qed (simp add: promote_plan_def promotion_outcome_def)

lemma check_convergence_root:
  assumes "check_convergence C d network_id shard_id source_url = Ok conv" "cv_verdict conv = Converged n"
  shows "\<exists>root. cv_recomputed_root conv = Some root"
  using assms by (auto simp: check_convergence_def Let_def rbind_eq_Inr evaluate_convergence_def split: if_splits option.splits)

lemma plan_empty: "plan_inv C net shard b [] \<Longrightarrow> plan_finish C b = Some (Err PlanNothingMirrored)"
  by (simp add: plan_inv_def plan_finish_def)

lemma pages_outcome:
  assumes C: "hex_ok C" "jsonb_ok jsonb" and small: "length (md_entries source) \<le> 2 ^ 64" and dry: "\<not> pr_dry_run params"
    and pages: "push_pages C jsonb now params (md_entries source) 0 (builder_new (pr_network_id params) (pr_shard_id params)) [] = Ok (b, rows)"
  shows "plan_inv C (pr_network_id params) (pr_shard_id params) b rows \<and> length rows \<le> 2 ^ 64"
proof -
  from push_pages_inv [OF C small dry pages _ builder_new_inv]
  have inv: "plan_inv C (pr_network_id params) (pr_shard_id params) b rows" and
    sub: "l_seq ` set rows \<subseteq> (me_seq \<circ> mr_entry) ` set (md_entries source)" by simp_all
  have "length rows = card (set (map l_seq rows))" using distinct_card [OF plan_rows_distinct [OF inv]] by simp
  also have "\<dots> \<le> card ((me_seq \<circ> mr_entry) ` set (md_entries source))" using sub by (intro card_mono) simp_all
  also have "\<dots> \<le> length (md_entries source)" using card_image_le card_length le_trans by blast
  finally show ?thesis using inv small by simp
qed

text \<open>C10. Promoting a mirror never panics, and it is all or nothing: every error leaves the target database as
  it was, the check after the commit never fails, and a successful promotion leaves a ledger that satisfies the
  invariant of a node that committed those entries itself. Its chain, batch roots and tree heads are intact,
  its root is the one a tree head observed from the source at that size carries, and the next sequence
  number follows the highest promoted one.\<close>

theorem promotion_correct:
  assumes "hex_ok C" and "jsonb_ok jsonb" and "length (md_entries source) \<le> 2 ^ 64" and "\<not> pr_dry_run params"
  shows "\<exists>x. promote_mirror C jsonb now same_database source target params = Some x \<and> promotion_outcome C source params target x"
proof (cases "same_database \<or> (\<exists>e. check_convergence C source (pr_network_id params) (pr_shard_id params) (pr_source_url params) = Inl e)")
  case False
  then obtain conv where conv: "\<not> same_database" "check_convergence C source (pr_network_id params) (pr_shard_id params) (pr_source_url params) = Inr conv"
    by (cases "check_convergence C source (pr_network_id params) (pr_shard_id params) (pr_source_url params)") auto
  show ?thesis
  proof (cases "cv_verdict conv")
    case (Converged n)
    from check_convergence_root [OF conv(2) this] obtain root where root: "cv_recomputed_root conv = Some root" by blast
    note conv = conv Converged root
    let ?prep = "rbind (check_target_fresh target (pr_network_id params)) (\<lambda>write_genesis.
        rbind (push_pages C jsonb now params (md_entries source) 0 (builder_new (pr_network_id params) (pr_shard_id params)) []) (\<lambda>(b, rows).
        Ok (write_genesis, b, rows)))"
    show ?thesis
    proof (cases ?prep)
      case (Inl e)
      have "e \<noteq> PostCommitVerification m" for m
        using Inl check_target_error push_pages_error by (auto simp: Inl_iffs)
      then show ?thesis using conv Inl by (simp add: promote_mirror_def promotion_outcome_def)
    next
      case (Inr prep)
      then obtain wg b rows where prep: "prep = (wg, b, rows)" "check_target_fresh target (pr_network_id params) = Ok wg"
        "push_pages C jsonb now params (md_entries source) 0 (builder_new (pr_network_id params) (pr_shard_id params)) [] = Ok (b, rows)"
        by (auto simp: rbind_eq_Inr)
      from pages_outcome [OF assms prep(3)] have inv: "plan_inv C (pr_network_id params) (pr_shard_id params) b rows" "length rows \<le> 2 ^ 64" by simp_all
      have gen: "(if wg then Some (pr_network_id params) else tg_genesis target) = Some (pr_network_id params)"
        using prep(2) by (auto simp: check_target_fresh_def split: if_splits option.splits)
      show ?thesis
      proof (cases "rows = []")
        case True
        with plan_empty inv(1) conv Inr prep(1) show ?thesis by (simp add: promote_mirror_def promotion_outcome_def)
      next
        case False
        from plan_finish_spec [OF inv(1) False inv(2)] obtain plan where
          plan: "plan_finish C b = Some (Ok plan)" "plan_final_root C plan = Some (ledger_root C rows)" by blast
        from promote_plan_outcome [OF assms(1) inv(1) False inv(2) plan refl refl assms(4) gen, of now source]
        show ?thesis using conv Inr prep(1) plan by (auto simp: promote_mirror_def promotion_outcome_def)
      qed
    qed
  qed (use conv in \<open>simp_all add: promote_mirror_def promotion_outcome_def\<close>)
qed (auto simp: promote_mirror_def promotion_outcome_def)

text \<open>Witness: a mirror of a ledger with one entry is promoted into an empty database.\<close>

definition demo_params :: PromoteParams where
  "demo_params = \<lparr>pr_network_id = ''testnet'', pr_shard_id = ''core'', pr_source_url = None, pr_dry_run = False\<rparr>"

lemma demo_pages:
  assumes "recomputed_hash demo_crates (demo_wire eh) = Ok (Some eh)" "hex_decode demo_crates eh = Some h" "length h = 32"
    and er: "row_from_wire demo_crates (wire_of_envelope demo_crates (envelope_current LEDGER_ENTRY)) = Ok er"
    and sr: "row_from_envelope demo_crates (envelope_current SETTLEMENT_STH) = Ok sr" "row_to_envelope demo_crates sr SETTLEMENT_STH = Ok (envelope_current SETTLEMENT_STH)"
    and root: "root = hex_encode demo_crates (mth demo_crates Sha256 [h])"
  shows "\<exists>b rows. push_pages demo_crates id 0 demo_params (md_entries (demo_mirror eh root er sr)) 0 (builder_new ''testnet'' ''core'') [] =
    Ok (b, rows) \<and> hashes_of rows = [eh]"
proof -
  have wire: "mirrored_entry_from_row demo_crates \<lparr>mr_entry = demo_wire eh, mr_envelope = er, mr_mirrored_at = 0\<rparr> = demo_wire eh"
    using wire_row_roundtrip [OF demo_hex_ok er] by (simp add: mirrored_entry_from_row_def demo_wire_def)
  have page: "mirrored_entries_since demo_crates ''testnet'' ''core'' k PAGE_SIZE None None (md_entries (demo_mirror eh root er sr)) =
      (if k < 1 then [demo_wire eh] else [])" for k
    by (simp add: mirrored_entries_since_def log_rows_def of_log_def demo_mirror_def demo_wire_def PAGE_SIZE_def)
      (use wire in \<open>simp add: demo_wire_def\<close>)
  have "\<exists>b. plan_push demo_crates (builder_new ''testnet'' ''core'') (demo_wire eh) = Ok b"
    using assms(1-3) by (simp add: plan_push_def builder_new_def push_batch_def Let_def) (simp add: demo_wire_def)
  then obtain b where b: "plan_push demo_crates (builder_new ''testnet'' ''core'') (demo_wire eh) = Ok b" ..
  have ins: "promote_insert_entry demo_crates id 0 (demo_wire eh) [] = Ok [entry_row id 0 (demo_wire eh) er]"
    using er by (simp add: promote_insert_entry_def) (simp add: demo_wire_def)
  have seq: "me_seq (demo_wire eh) = 1" by (simp add: demo_wire_def)
  have "push_pages demo_crates id 0 demo_params (md_entries (demo_mirror eh root er sr)) 1 b rows = Ok (b, rows)" for rows
    by (subst push_pages.simps) (simp add: demo_params_def page)
  then have "push_pages demo_crates id 0 demo_params (md_entries (demo_mirror eh root er sr)) 0 (builder_new ''testnet'' ''core'') [] =
      Ok (b, [entry_row id 0 (demo_wire eh) er])"
    using b ins by (subst push_pages.simps) (simp add: demo_params_def page seq)
  then show ?thesis by (simp add: entry_row_def) (simp add: demo_wire_def)
qed

definition demo_target :: promotion_target where
  "demo_target = \<lparr>tg_genesis = None, tg_db = empty_db\<rparr>"

lemma demo_promoted:
  "\<exists>source report t. length (md_entries source) = 1 \<and>
     promote_mirror demo_crates id 0 False source demo_target demo_params = Some (Ok report, t)"
proof -
  obtain eh h where eh: "recomputed_hash demo_crates (demo_wire eh) = Ok (Some eh)" "hex_decode demo_crates eh = Some h" "length h = 32"
    using demo_wire_hash by blast
  obtain er where er: "row_from_wire demo_crates (wire_of_envelope demo_crates (envelope_current LEDGER_ENTRY)) = Ok er"
    using current_row [OF demo_hex_ok, of LEDGER_ENTRY] by (auto simp: row_from_envelope_def)
  obtain sr where sr: "row_from_envelope demo_crates (envelope_current SETTLEMENT_STH) = Ok sr"
    "row_to_envelope demo_crates sr SETTLEMENT_STH = Ok (envelope_current SETTLEMENT_STH)" using current_row [OF demo_hex_ok] by blast
  define root where "root = hex_encode demo_crates (mth demo_crates Sha256 [h])"
  let ?src = "demo_mirror eh root er sr"
  have pr: "pr_network_id demo_params = ''testnet''" "pr_shard_id demo_params = ''core''" "pr_source_url demo_params = None" "\<not> pr_dry_run demo_params"
    and len: "length (md_entries ?src) = 1" by (simp_all add: demo_params_def demo_mirror_def)
  obtain b rows where pages: "push_pages demo_crates id 0 demo_params (md_entries ?src) 0 (builder_new ''testnet'' ''core'') [] = Ok (b, rows)"
    "hashes_of rows = [eh]" using demo_pages [OF eh er sr root_def] by (elim exE conjE) (rule that)
  have inv: "plan_inv demo_crates ''testnet'' ''core'' b rows" "length rows \<le> 2 ^ 64"
    using pages_outcome [OF demo_hex_ok demo_jsonb _ pr(4), of ?src] pages(1) by (simp_all add: pr len)
  have ne: "rows \<noteq> []" "length rows = 1" using pages(2) by auto
  from plan_finish_spec [OF inv(1) ne(1) inv(2)] obtain plan where plan: "plan_finish demo_crates b = Some (Ok plan)" "pp_tree_size plan = 1"
    "pp_tree plan = pb_tree b" "plan_final_root demo_crates plan = Some (ledger_root demo_crates rows)" using ne(2) by auto
  have root: "ledger_root demo_crates rows = root" by (simp only: ledger_root_def pages(2)) (simp add: root_def leaf_bytes_def eh(2))
  have obs: "observed_sths_for demo_crates (md_observed ?src) demo_params = Ok [demo_observed root]"
    using sr(2) by (simp add: observed_sths_for_def demo_mirror_def pr in_log_def observed_sth_from_row_def) (simp add: demo_observed_def observed_sth_from_row_def)
  have "plan_root_at demo_crates plan 1 = Some (Some root)"
    using plan_root_at_Some [of demo_crates rows plan 1] inv ne plan(3) root by (simp add: plan_inv_def)
  then have sel: "select_sths demo_crates plan [demo_observed root] = Some [demo_observed root]"
    by (simp add: select_sths_def demo_observed_def plan(2))
  have heads: "carried_heads demo_crates [demo_observed root] = Ok [\<lparr>h_head = sth_of_observed (demo_observed root), h_envelope = sr\<rparr>]"
    using sr(1) by (simp add: demo_observed_def)
  have "head_ok demo_crates ''testnet'' rows \<lparr>h_head = sth_of_observed (demo_observed root), h_envelope = sr\<rparr>"
    using ne root by (intro carried_head_ok [of "demo_observed root"]) (simp_all add: demo_observed_def)
  then have "\<forall>h\<in>set [\<lparr>h_head = sth_of_observed (demo_observed root), h_envelope = sr\<rparr>]. head_ok demo_crates ''testnet'' rows h" by simp
  note ok = promoted_target(2) [OF demo_hex_ok inv(1) ne(1) inv(2) plan(1) this refl refl]
  have "\<exists>report t. promote_plan demo_crates 0 ?src demo_target demo_params True rows plan root = Some (Ok report, t)"
    using sel heads ok plan(2) by (simp add: promote_plan_def obs pr Let_def) (simp add: demo_observed_def)
  moreover obtain conv where "check_convergence demo_crates ?src ''testnet'' ''core'' None = Ok conv" "cv_verdict conv = Converged 1"
    "cv_recomputed_root conv = Some root" using demo_converges [OF eh(2,3) root_def sr(2)] by blast
  moreover have "check_target_fresh demo_target ''testnet'' = Ok True" by (simp add: check_target_fresh_def demo_target_def empty_db_def)
  ultimately show ?thesis using pages(1) plan len root
    by (intro exI [of _ ?src]) (simp add: promote_mirror_def pr)
qed

theorem promotion_correct_witness:
  "\<exists>source report t. promote_mirror demo_crates id 0 False source demo_target demo_params = Some (Ok report, t) \<and>
     promoted demo_crates source demo_params t report"
proof -
  obtain source report t where d: "length (md_entries source) = 1" "promote_mirror demo_crates id 0 False source demo_target demo_params = Some (Ok report, t)"
    using demo_promoted by blast
  then show ?thesis using promotion_correct [OF demo_hex_ok demo_jsonb, of source demo_params 0 False demo_target]
    by (auto simp: promotion_outcome_def demo_params_def)
qed

end
