(* ===== verification/Shard.thy ===== *)
theory Shard
  imports Sth
begin

text \<open>
  Models of \<open>crates/protocol/src/shard.rs\<close> (the shard id grammar) and
  \<open>crates/protocol/src/shard_identity.rs\<close> (self-certifying shard ids and name-binding claims). The
  borrowed parts of a parsed id are strings; \<open>display_shard_id\<close> is the text a parsed id came from.
\<close>

section \<open>The grammar\<close>

definition CORE_SHARD_ID :: str where "CORE_SHARD_ID = ''core''"
definition MAX_INSTANCE_LEN :: nat where "MAX_INSTANCE_LEN = 64"
definition SELF_CERTIFYING_NAMESPACE :: str where "SELF_CERTIFYING_NAMESPACE = ''node''"
definition KEY_HASH_HEX_LEN :: nat where "KEY_HASH_HEX_LEN = 64"

datatype ParsedShardId = Core | Owned str str "str option" | SelfCertifying str

datatype ShardIdError =
    ShardEmpty | UnknownNamespace str | EmptyOwner | InvalidOwner str | InvalidInstance str | InvalidKeyHash str

text \<open>The accepted characters are ASCII, so testing bytes and testing characters agree.\<close>

definition valid_instance :: "str \<Rightarrow> bool" where
  "valid_instance s = (case s of
     [] \<Rightarrow> False
   | c # cs \<Rightarrow> length s \<le> MAX_INSTANCE_LEN \<and> (is_ascii_lowercase c \<or> is_ascii_digit c) \<and>
       list_all (\<lambda>c. is_ascii_lowercase c \<or> is_ascii_digit c \<or> c = CHR ''-'') cs)"

definition valid_key_hash_hex :: "str \<Rightarrow> bool" where
  "valid_key_hash_hex s \<longleftrightarrow> length s = KEY_HASH_HEX_LEN \<and>
     list_all (\<lambda>b. is_ascii_hexdigit b \<and> \<not> is_ascii_uppercase b) s"

definition owner_has_bad_char :: "str \<Rightarrow> bool" where
  "owner_has_bad_char owner \<longleftrightarrow>
     list_ex (\<lambda>c. is_whitespace c \<or> c = ord (CHR '':'') \<or> c = ord (CHR ''/'')) (str_chars owner)"

definition parse_shard_id :: "str \<Rightarrow> ShardIdError + ParsedShardId" where
  "parse_shard_id s =
     (if s = [] then Err ShardEmpty
      else if s = CORE_SHARD_ID then Ok Core
      else (case split_once (CHR '':'') s of
          None \<Rightarrow> Err (UnknownNamespace s)
        | Some (namespace, rest) \<Rightarrow>
            if namespace = SELF_CERTIFYING_NAMESPACE then
              (if valid_key_hash_hex rest then Ok (SelfCertifying rest) else Err (InvalidKeyHash rest))
            else if namespace \<notin> set [''game'', ''app'', ''service''] then Err (UnknownNamespace namespace)
            else
              (let (owner, inst) = (case split_once (CHR ''/'') rest of
                   Some (owner, inst) \<Rightarrow> (owner, Some inst) | None \<Rightarrow> (rest, None))
               in if owner = [] then Err EmptyOwner
                  else if owner_has_bad_char owner then Err (InvalidOwner owner)
                  else (case inst of
                      Some i \<Rightarrow> if \<not> valid_instance i then Err (InvalidInstance i)
                                 else Ok (Owned namespace owner inst)
                    | None \<Rightarrow> Ok (Owned namespace owner inst)))))"

definition shard_authority :: "str \<Rightarrow> (str \<times> str) option" where
  "shard_authority s = (case parse_shard_id s of
     Inr (Owned namespace owner _) \<Rightarrow> Some (namespace, owner) | _ \<Rightarrow> None)"

definition shard_family_owner :: "str \<Rightarrow> str option" where
  "shard_family_owner s =
     Option.bind (shard_authority s) (\<lambda>(namespace, owner). Some (namespace @ '':'' @ owner))"

definition is_family_owner_id :: "str \<Rightarrow> bool" where
  "is_family_owner_id owner = (case parse_shard_id owner of Inr (Owned _ _ None) \<Rightarrow> True | _ \<Rightarrow> False)"

section \<open>Self-certifying ids\<close>

definition derive_self_certifying_id :: "crates \<Rightarrow> bytes \<Rightarrow> str" where
  "derive_self_certifying_id C key = SELF_CERTIFYING_NAMESPACE @ '':'' @ hex_encode C (sha256 C key)"

definition is_self_certifying :: "str \<Rightarrow> bool" where
  "is_self_certifying s = (case parse_shard_id s of Inr (SelfCertifying _) \<Rightarrow> True | _ \<Rightarrow> False)"

definition resolve_self_certifying_key :: "crates \<Rightarrow> str \<Rightarrow> bytes \<Rightarrow> bytes option" where
  "resolve_self_certifying_key C s candidate_key =
     (case parse_shard_id s of
        Inr (SelfCertifying _) \<Rightarrow>
          if \<not> is_acceptable_ed25519_key C candidate_key then None
          else if derive_self_certifying_id C candidate_key = s then Some candidate_key else None
      | _ \<Rightarrow> None)"

definition verify_self_certifying_tree_head :: "crates \<Rightarrow> str \<Rightarrow> bytes \<Rightarrow> SignedTreeHead \<Rightarrow> bool" where
  "verify_self_certifying_tree_head C s candidate_key sth \<longleftrightarrow>
     resolve_self_certifying_key C s candidate_key \<noteq> None \<and> verify_tree_head C candidate_key sth"

section \<open>Name-binding claims\<close>

definition name_binding_signing_message :: "str \<Rightarrow> bytes \<Rightarrow> str \<Rightarrow> time \<Rightarrow> bytes" where
  "name_binding_signing_message sid key name created_at =
     as_bytes ''avalon-name-binding-v1'' @ u32_be (of_nat (length sid)) @ as_bytes sid @ key @
     u32_be (of_nat (length name)) @ as_bytes name @ u64_be (i64_of (unix_timestamp created_at))"

record NameBindingClaim =
  n_self_certifying_id :: str
  n_public_key :: str
  n_name :: str
  n_created_at :: time
  n_signature :: str

definition sign_name_binding_claim :: "crates \<Rightarrow> bytes \<Rightarrow> str \<Rightarrow> time \<Rightarrow> NameBindingClaim" where
  "sign_name_binding_claim C signing_key name created_at =
     (let vk = verifying_key C signing_key; sid = derive_self_certifying_id C vk;
          message = name_binding_signing_message sid vk name created_at
      in \<lparr>n_self_certifying_id = sid, n_public_key = hex_encode C vk, n_name = name, n_created_at = created_at,
          n_signature = hex_encode C (ed_sign C signing_key message)\<rparr>)"

definition verify_name_binding_claim :: "crates \<Rightarrow> NameBindingClaim \<Rightarrow> bool" where
  "verify_name_binding_claim C claim =
     (case Option.bind (Option.bind (hex_decode C (n_public_key claim)) (to_array 32)) (parse_ed25519_public_key C) of
        None \<Rightarrow> False
      | Some key \<Rightarrow>
          if derive_self_certifying_id C key \<noteq> n_self_certifying_id claim then False
          else verify_hex_signature C key
            (name_binding_signing_message (n_self_certifying_id claim) key (n_name claim) (n_created_at claim))
            (n_signature claim))"

section \<open>Facts\<close>

fun display_shard_id :: "ParsedShardId \<Rightarrow> str" where
  "display_shard_id Core = ''core''"
| "display_shard_id (Owned namespace owner None) = namespace @ '':'' @ owner"
| "display_shard_id (Owned namespace owner (Some i)) = namespace @ '':'' @ owner @ ''/'' @ i"
| "display_shard_id (SelfCertifying h) = ''node:'' @ h"

fun wf_shard_id :: "ParsedShardId \<Rightarrow> bool" where
  "wf_shard_id Core \<longleftrightarrow> True"
| "wf_shard_id (Owned namespace owner inst) \<longleftrightarrow>
     namespace \<in> set [''game'', ''app'', ''service''] \<and> owner \<noteq> [] \<and> \<not> owner_has_bad_char owner \<and>
     CHR ''/'' \<notin> set owner \<and> (\<forall>i. inst = Some i \<longrightarrow> valid_instance i)"
| "wf_shard_id (SelfCertifying h) \<longleftrightarrow> valid_key_hash_hex h"

lemma parse_shard_id_sound:
  assumes "parse_shard_id s = Ok p"
  shows "wf_shard_id p \<and> display_shard_id p = s"
proof (cases "s = CORE_SHARD_ID")
  case True
  with assms show ?thesis by (auto simp: parse_shard_id_def CORE_SHARD_ID_def)
next
  case False
  with assms obtain ns rest where sp: "split_once (CHR '':'') s = Some (ns, rest)"
    by (auto simp: parse_shard_id_def split: if_splits option.splits)
  then have s: "s = ns @ '':'' @ rest" by (auto simp: split_once_Some)
  show ?thesis
  proof (cases "ns = SELF_CERTIFYING_NAMESPACE")
    case True
    with assms False sp show ?thesis
      by (auto simp: parse_shard_id_def s SELF_CERTIFYING_NAMESPACE_def split: if_splits)
  next
    case ns: False
    show ?thesis
    proof (cases "split_once (CHR ''/'') rest")
      case None
      then have "CHR ''/'' \<notin> set rest" by (simp add: split_once_None)
      with None assms False sp ns show ?thesis
        by (auto simp: parse_shard_id_def s Let_def split: if_splits)
    next
      case (Some oi)
      then obtain ow i where oi: "split_once (CHR ''/'') rest = Some (ow, i)" by (cases oi) auto
      then have "rest = ow @ ''/'' @ i" "CHR ''/'' \<notin> set ow" by (auto simp: split_once_Some)
      with assms False sp ns oi show ?thesis
        by (auto simp: parse_shard_id_def s Let_def split: if_splits)
    qed
  qed
qed

lemma split_once_first: "d \<notin> set a \<Longrightarrow> split_once d (a @ [d] @ b) = Some (a, b)"
  by (simp add: split_once_append)

lemma parse_shard_id_complete:
  assumes "wf_shard_id p"
  shows "parse_shard_id (display_shard_id p) = Ok p"
proof (cases p)
  case Core
  then show ?thesis by (simp add: parse_shard_id_def CORE_SHARD_ID_def)
next
  case (SelfCertifying h)
  have "split_once (CHR '':'') (''node:'' @ h) = Some (''node'', h)" by (simp add: split_once_Some)
  with SelfCertifying assms show ?thesis
    by (simp add: parse_shard_id_def CORE_SHARD_ID_def SELF_CERTIFYING_NAMESPACE_def)
next
  case (Owned ns ow inst)
  let ?rest = "ow @ (case inst of None \<Rightarrow> [] | Some i \<Rightarrow> ''/'' @ i)"
  have d: "display_shard_id p = ns @ '':'' @ ?rest" by (cases inst) (simp_all add: Owned)
  have ns: "ns = ''game'' \<or> ns = ''app'' \<or> ns = ''service''" using assms by (simp add: Owned)
  then have "CHR '':'' \<notin> set ns" and not_node: "ns \<noteq> SELF_CERTIFYING_NAMESPACE"
    and not_core: "ns @ '':'' @ ?rest \<noteq> CORE_SHARD_ID"
    by (auto simp: SELF_CERTIFYING_NAMESPACE_def CORE_SHARD_ID_def)
  then have sp: "split_once (CHR '':'') (ns @ '':'' @ ?rest) = Some (ns, ?rest)" by (intro split_once_first)
  have slash: "CHR ''/'' \<notin> set ow" using assms by (simp add: Owned)
  have "split_once (CHR ''/'') ?rest = (case inst of None \<Rightarrow> None | Some i \<Rightarrow> Some (ow, i))"
    using slash by (cases inst) (simp_all add: split_once_None split_once_append)
  then show ?thesis
    using assms ns not_node not_core sp unfolding d
    by (cases inst) (auto simp: parse_shard_id_def Owned Let_def)
qed

lemma key_hash_lower: "list_all is_lower_hex s \<Longrightarrow> list_all (\<lambda>b. is_ascii_hexdigit b \<and> \<not> is_ascii_uppercase b) s"
  by (induction s) (auto simp: is_lower_hex_def is_ascii_hexdigit_def is_ascii_uppercase_def is_ascii_digit_def)

lemma derived_id_parses:
  assumes "hex_ok C" and "sha256_ok C"
  shows "parse_shard_id (derive_self_certifying_id C key) = Ok (SelfCertifying (hex_encode C (sha256 C key)))"
proof -
  have "wf_shard_id (SelfCertifying (hex_encode C (sha256 C key)))"
    using assms by (simp add: valid_key_hash_hex_def KEY_HASH_HEX_LEN_def length_hex_encode sha256_len
        key_hash_lower hex_encode_lower)
  from parse_shard_id_complete [OF this] show ?thesis
    by (simp add: derive_self_certifying_id_def SELF_CERTIFYING_NAMESPACE_def)
qed

lemma derived_id_length:
  "hex_ok C \<Longrightarrow> sha256_ok C \<Longrightarrow> length (derive_self_certifying_id C key) = 69"
  by (simp add: derive_self_certifying_id_def SELF_CERTIFYING_NAMESPACE_def length_hex_encode sha256_len)

section \<open>Properties\<close>

text \<open>The shard id grammar is unambiguous: a string parses to an id exactly when that id is
  well-formed and the string is its text, so no two ids share a text and no id has two texts.\<close>

theorem shard_id_parse_print:
  "parse_shard_id s = Ok p \<longleftrightarrow> wf_shard_id p \<and> s = display_shard_id p"
  using parse_shard_id_sound parse_shard_id_complete by metis

text \<open>Families: a shard and all its instances share one family owner, the owner id is itself an
  instance-free owned id and its own family; \<open>core\<close> and self-certifying ids belong to none.\<close>

theorem shard_family_owner_stable:
  "(shard_family_owner s = Some f \<longrightarrow> is_family_owner_id f \<and> shard_family_owner f = Some f) \<and>
   (wf_shard_id (Owned ns ow inst) \<longrightarrow> shard_family_owner (display_shard_id (Owned ns ow inst)) = Some (ns @ '':'' @ ow)) \<and>
   (is_self_certifying s \<longrightarrow> shard_family_owner s = None) \<and> shard_family_owner CORE_SHARD_ID = None"
proof (intro conjI impI)
  have fam: "parse_shard_id (ns @ '':'' @ ow) = Ok (Owned ns ow None)" if "wf_shard_id (Owned ns ow inst)" for ns ow inst
    using parse_shard_id_complete [of "Owned ns ow None"] that by auto
  assume "shard_family_owner s = Some f"
  then obtain ns ow inst where p: "parse_shard_id s = Ok (Owned ns ow inst)" and f: "f = ns @ '':'' @ ow"
    by (auto simp: shard_family_owner_def shard_authority_def bind_eq_Some_conv split: sum.splits ParsedShardId.splits)
  from parse_shard_id_sound [OF p] have "parse_shard_id f = Ok (Owned ns ow None)" unfolding f by (blast intro: fam)
  then show "is_family_owner_id f" "shard_family_owner f = Some f"
    by (simp_all add: is_family_owner_id_def shard_family_owner_def shard_authority_def f)
next
  assume "wf_shard_id (Owned ns ow inst)"
  from parse_shard_id_complete [OF this]
  show "shard_family_owner (display_shard_id (Owned ns ow inst)) = Some (ns @ '':'' @ ow)"
    by (simp add: shard_family_owner_def shard_authority_def)
next
  assume "is_self_certifying s"
  then show "shard_family_owner s = None"
    by (auto simp: is_self_certifying_def shard_family_owner_def shard_authority_def
        split: sum.splits ParsedShardId.splits)
next
  show "shard_family_owner CORE_SHARD_ID = None"
    by (simp add: shard_family_owner_def shard_authority_def parse_shard_id_def CORE_SHARD_ID_def)
qed

text \<open>Witness: an instance of a game shard belongs to the family of the game.\<close>

theorem shard_family_owner_stable_witness:
  "shard_family_owner ''game:chess/eu-1'' = Some ''game:chess'' \<and> is_family_owner_id ''game:chess'' \<and>
   shard_family_owner ''game:chess'' = Some ''game:chess''"
proof -
  have "wf_shard_id (Owned ''game'' ''chess'' (Some ''eu-1''))"
    by (simp add: owner_has_bad_char_def valid_instance_def MAX_INSTANCE_LEN_def str_chars_def is_whitespace_def
        is_ascii_lowercase_def is_ascii_digit_def)
  then have f: "shard_family_owner ''game:chess/eu-1'' = Some ''game:chess''"
    using shard_family_owner_stable [where ns = "''game''" and ow = "''chess''" and inst = "Some ''eu-1''"] by simp
  then show ?thesis using shard_family_owner_stable [where s = "''game:chess/eu-1''" and f = "''game:chess''"] by blast
qed

text \<open>Self-certification: an id resolves to a presented key exactly when the key is acceptable
  and the id is the one derived from it; two keys resolving for one id are equal or their SHA-256
  digests collide.\<close>

theorem self_certifying_key_binding:
  assumes "hex_ok C" and "sha256_ok C"
  shows "(resolve_self_certifying_key C s k = Some k' \<longleftrightarrow>
      k' = k \<and> is_acceptable_ed25519_key C k \<and> s = derive_self_certifying_id C k) \<and>
    (resolve_self_certifying_key C s k \<noteq> None \<and> resolve_self_certifying_key C s l \<noteq> None \<longrightarrow>
      k = l \<or> sha256 C k = sha256 C l)"
proof -
  have iff: "resolve_self_certifying_key C s k = Some k' \<longleftrightarrow>
      k' = k \<and> is_acceptable_ed25519_key C k \<and> s = derive_self_certifying_id C k" for k k'
    using derived_id_parses [OF assms]
    by (auto simp: resolve_self_certifying_key_def split: sum.splits ParsedShardId.splits if_splits)
  have "sha256 C k = sha256 C l"
    if "s = derive_self_certifying_id C k" "s = derive_self_certifying_id C l"
    using that by (simp add: derive_self_certifying_id_def hex_encode_inject [OF assms(1)])
  with iff [of k] iff [of l] show ?thesis by auto
qed

text \<open>Witness: a key resolves for the id derived from it.\<close>

definition demo_public :: bytes where "demo_public = replicate 32 1"

lemma demo_public_acceptable: "is_acceptable_ed25519_key demo_crates demo_public"
  by (simp add: is_acceptable_ed25519_key_def demo_public_def demo_crates_def)

theorem self_certifying_key_binding_witness:
  "resolve_self_certifying_key demo_crates (derive_self_certifying_id demo_crates demo_public) demo_public = Some demo_public"
  using self_certifying_key_binding [OF demo_hex_ok demo_sha256_ok, where k = demo_public and k' = demo_public]
    demo_public_acceptable by blast

text \<open>A name-binding claim signed by an acceptable key verifies on its own, carries the id
  derived from that key, and the signed bytes determine the id, the key, the name and the second
  of creation.\<close>

theorem name_binding_claim_verifies:
  assumes "hex_ok C" and "sha256_ok C" and "sig_ok C" and "is_acceptable_ed25519_key C (verifying_key C sk)"
    and "length k = 32" and "length k' = 32" and "in_time_range t" and "in_time_range t'"
    and "fits name" and "fits name'"
  shows "verify_name_binding_claim C (sign_name_binding_claim C sk name t) \<and>
    n_self_certifying_id (sign_name_binding_claim C sk name t) = derive_self_certifying_id C (verifying_key C sk) \<and>
    (name_binding_signing_message (derive_self_certifying_id C k) k name t =
       name_binding_signing_message (derive_self_certifying_id C k') k' name' t' \<longrightarrow>
     k = k' \<and> name = name' \<and> unix_timestamp t = unix_timestamp t')"
proof -
  have weak: "\<not> key_is_weak C (verifying_key C sk)"
    using assms(4) by (simp add: is_acceptable_ed25519_key_def Let_def)
  have vk: "length (verifying_key C sk) = 32" "key_from_bytes_ok C (verifying_key C sk)"
    using assms(3) by (simp_all add: sig_ok_def)
  have "verify_name_binding_claim C (sign_name_binding_claim C sk name t)"
    using verify_own_hex_signature [OF assms(1,3) weak] vk assms(4)
    by (simp add: verify_name_binding_claim_def sign_name_binding_claim_def Let_def hex_roundtrip [OF assms(1)]
        to_array_def parse_ed25519_public_key_def)
  moreover have "k = k' \<and> name = name' \<and> unix_timestamp t = unix_timestamp t'"
    if "name_binding_signing_message (derive_self_certifying_id C k) k name t =
       name_binding_signing_message (derive_self_certifying_id C k') k' name' t'"
  proof -
    from that have "lp (as_bytes (derive_self_certifying_id C k)) @ raw k @ lp (as_bytes name) @
          u64_be (i64_of (unix_timestamp t)) =
        lp (as_bytes (derive_self_certifying_id C k')) @ raw k' @ lp (as_bytes name') @
          u64_be (i64_of (unix_timestamp t'))"
      by (simp add: name_binding_signing_message_def lp_def raw_def)
    then show ?thesis
      using assms(5,6,9,10) i64_unix_inject [OF assms(7,8)]
      by (simp add: layout_eqs lp_code.enc_eq derived_id_length [OF assms(1,2)])
  qed
  ultimately show ?thesis by (simp add: sign_name_binding_claim_def Let_def)
qed

text \<open>Witness: the name of a concrete node.\<close>

theorem name_binding_claim_verifies_witness:
  "verify_name_binding_claim demo_crates (sign_name_binding_claim demo_crates demo_public ''tavern'' 5) \<and>
   name_binding_signing_message (derive_self_certifying_id demo_crates demo_public) demo_public ''tavern'' 5 \<noteq>
     name_binding_signing_message (derive_self_certifying_id demo_crates demo_public) demo_public ''harbour'' 5"
proof -
  have "verifying_key demo_crates demo_public = demo_public"
    by (simp add: demo_crates_def demo_public_def pad32_def)
  then have k: "is_acceptable_ed25519_key demo_crates (verifying_key demo_crates demo_public)"
    using demo_public_acceptable by simp
  have l: "length demo_public = 32" by (simp add: demo_public_def)
  have t: "in_time_range 5" by (simp add: in_time_range_def nanos_per_sec_def)
  show ?thesis
    using name_binding_claim_verifies [OF demo_hex_ok demo_sha256_ok demo_sig_ok k l l t t,
        where name = "''tavern''" and name' = "''harbour''"]
    by auto
qed

end
