(* ===== verification/Cross_Shard.thy ===== *)
theory Cross_Shard
  imports Merkle_Facts Shard "HOL-Library.Char_ord" "HOL-Library.List_Lexorder" "HOL-Library.Multiset"
begin

text \<open>
  Model of \<open>crates/chain/src/cross_shard.rs\<close>: the tree over the heads of all shards a node knows, and the
  tree over the shards of one owner. Strings compare byte by byte, as the order on \<open>char\<close> does; a
  \<open>BTreeSet\<close> is the ascending list of its elements. The locale states what both trees need of their
  leaf layout; the two layouts are its instances.
\<close>

section \<open>The network tree\<close>

definition TREE_ALGO :: HashAlgo where "TREE_ALGO = Sha256"

record ShardTreeHead =
  sh_shard_id :: str
  sh_sth :: SignedTreeHead

record CrossShardRoot =
  cs_root_hash :: str
  cs_shard_count :: nat
  cs_computed_at :: time
  cs_partial :: bool
  cs_missing_shard_ids :: "str list"

text \<open>\<open>len() as u32\<close> keeps the low 32 bits of the length.\<close>

definition append_shard_fields :: "str \<Rightarrow> SignedTreeHead \<Rightarrow> bytes" where
  "append_shard_fields shard_id sth =
     u32_be (of_nat (length shard_id)) @ as_bytes shard_id @
     u64_be (sth_tree_size sth) @
     u32_be (of_nat (length (sth_root_hash sth))) @ as_bytes (sth_root_hash sth) @
     u32_be (of_nat (length (sth_signing_key_id sth))) @ as_bytes (sth_signing_key_id sth) @
     u32_be (of_nat (length (sth_signature sth))) @ as_bytes (sth_signature sth)"

definition shard_leaf_bytes :: "str \<Rightarrow> SignedTreeHead \<Rightarrow> bytes" where
  "shard_leaf_bytes shard_id sth = as_bytes ''avalon-cross-shard-leaf-v1'' @ append_shard_fields shard_id sth"

definition canonical_order :: "ShardTreeHead list \<Rightarrow> ShardTreeHead list" where
  "canonical_order shards = sort_key sh_shard_id shards"

definition compute_cross_shard_root :: "crates \<Rightarrow> ShardTreeHead list \<Rightarrow> time \<Rightarrow> CrossShardRoot" where
  "compute_cross_shard_root C shards computed_at =
     (let ordered = canonical_order shards;
          leaves = map (\<lambda>s. shard_leaf_bytes (sh_shard_id s) (sh_sth s)) ordered;
          root = mth C TREE_ALGO leaves
      in \<lparr>cs_root_hash = hex_encode C root, cs_shard_count = length ordered, cs_computed_at = computed_at,
          cs_partial = False, cs_missing_shard_ids = []\<rparr>)"

definition compute_cross_shard_root_checked :: "crates \<Rightarrow> str list \<Rightarrow> ShardTreeHead list \<Rightarrow> time \<Rightarrow> CrossShardRoot" where
  "compute_cross_shard_root_checked C known_shard_ids shards computed_at =
     (let present = set (map sh_shard_id shards);
          missing = sort (filter (\<lambda>i. i \<notin> present) known_shard_ids)
      in (compute_cross_shard_root C shards computed_at)\<lparr>cs_partial := (missing \<noteq> []), cs_missing_shard_ids := missing\<rparr>)"

primrec position :: "('a \<Rightarrow> bool) \<Rightarrow> 'a list \<Rightarrow> nat option" where
  "position P [] = None"
| "position P (x # xs) = (if P x then Some 0 else map_option Suc (position P xs))"

definition inclusion_proof_for_shard :: "crates \<Rightarrow> ShardTreeHead list \<Rightarrow> str \<Rightarrow> (ProofError + bytes list) option" where
  "inclusion_proof_for_shard C shards shard_id =
     (let ordered = canonical_order shards in
      Option.bind (position (\<lambda>s. sh_shard_id s = shard_id) ordered) (\<lambda>index.
      Some (inclusion_proof C TREE_ALGO index (map (\<lambda>s. shard_leaf_bytes (sh_shard_id s) (sh_sth s)) ordered))))"

definition decode_root :: "crates \<Rightarrow> str \<Rightarrow> str + bytes" where
  "decode_root C root_hash =
     rbind (ok_or ''invalid hex'' (hex_decode C root_hash)) (\<lambda>root_bytes.
     ok_or ''root_hash must be exactly 32 bytes'' (to_array 32 root_bytes))"

definition verify_shard_inclusion ::
  "crates \<Rightarrow> str \<Rightarrow> nat \<Rightarrow> nat \<Rightarrow> str \<Rightarrow> SignedTreeHead \<Rightarrow> bytes list \<Rightarrow> str + bool" where
  "verify_shard_inclusion C root_hash tree_size leaf_index shard_id sth proof =
     rbind (decode_root C root_hash) (\<lambda>root.
     Ok (verify_inclusion_proof C TREE_ALGO (shard_leaf_bytes shard_id sth) leaf_index tree_size proof root))"

section \<open>Shard families\<close>

definition FAMILY_LEAF_TAG :: bytes where "FAMILY_LEAF_TAG = as_bytes ''avalon-shard-family-leaf-v1''"
definition FAMILY_EMPTY_TAG :: bytes where "FAMILY_EMPTY_TAG = as_bytes ''avalon-shard-family-empty-v1''"

definition family_leaf_bytes :: "str \<Rightarrow> str \<Rightarrow> SignedTreeHead \<Rightarrow> bytes" where
  "family_leaf_bytes owner shard_id sth =
     FAMILY_LEAF_TAG @ u32_be (of_nat (length owner)) @ as_bytes owner @ append_shard_fields shard_id sth"

definition is_family_member :: "str \<Rightarrow> str \<Rightarrow> bool" where
  "is_family_member owner shard_id \<longleftrightarrow> shard_family_owner shard_id = Some owner"

definition family_members :: "str \<Rightarrow> ShardTreeHead list \<Rightarrow> ShardTreeHead list" where
  "family_members owner shards = canonical_order (filter (\<lambda>s. is_family_member owner (sh_shard_id s)) shards)"

definition family_leaves :: "str \<Rightarrow> ShardTreeHead list \<Rightarrow> bytes list" where
  "family_leaves owner ordered = map (\<lambda>s. family_leaf_bytes owner (sh_shard_id s) (sh_sth s)) ordered"

record ShardFamilyHead =
  fh_owner :: str
  fh_root_hash :: str
  fh_shard_count :: nat
  fh_members :: "ShardTreeHead list"
  fh_partial :: bool
  fh_missing_shard_ids :: "str list"

definition compute_shard_family_head :: "crates \<Rightarrow> str \<Rightarrow> str list \<Rightarrow> ShardTreeHead list \<Rightarrow> ShardFamilyHead" where
  "compute_shard_family_head C owner known_shard_ids shards =
     (let members = family_members owner shards;
          root = (if members = [] then sha256 C (FAMILY_EMPTY_TAG @ u32_be (of_nat (length owner)) @ as_bytes owner)
                  else mth C TREE_ALGO (family_leaves owner members));
          present = set (map sh_shard_id members);
          missing = filter (\<lambda>i. is_family_member owner i \<and> i \<notin> present) known_shard_ids
      in \<lparr>fh_owner = owner, fh_root_hash = hex_encode C root, fh_shard_count = length members, fh_members = members,
          fh_partial = (missing \<noteq> []), fh_missing_shard_ids = missing\<rparr>)"

record FamilyInclusionProof =
  fp_leaf_index :: nat
  fp_tree_size :: nat
  fp_path :: "bytes list"

definition family_inclusion_proof :: "crates \<Rightarrow> str \<Rightarrow> ShardTreeHead list \<Rightarrow> str \<Rightarrow> (ProofError + FamilyInclusionProof) option" where
  "family_inclusion_proof C owner shards shard_id =
     (let members = family_members owner shards in
      Option.bind (position (\<lambda>s. sh_shard_id s = shard_id) members) (\<lambda>leaf_index.
      let leaves = family_leaves owner members; tree_size = length leaves in
      Some (rbind (inclusion_proof C TREE_ALGO leaf_index leaves) (\<lambda>p.
        Ok \<lparr>fp_leaf_index = leaf_index, fp_tree_size = tree_size, fp_path = p\<rparr>))))"

definition verify_family_inclusion :: "crates \<Rightarrow> str \<Rightarrow> str \<Rightarrow> FamilyInclusionProof \<Rightarrow> str \<Rightarrow> SignedTreeHead \<Rightarrow> str + bool" where
  "verify_family_inclusion C owner root_hash proof shard_id sth =
     (if \<not> is_family_member owner shard_id then Ok False
      else
        rbind (decode_root C root_hash) (\<lambda>root.
        Ok (verify_inclusion_proof C TREE_ALGO (family_leaf_bytes owner shard_id sth) (fp_leaf_index proof) (fp_tree_size proof)
          (fp_path proof) root)))"

section \<open>Canonical order\<close>

lemma mset_canonical_order [simp]: "mset (canonical_order shards) = mset shards" "set (canonical_order shards) = set shards"
  "length (canonical_order shards) = length shards"
  by (simp_all add: canonical_order_def)

lemma canonical_order_perm:
  assumes "distinct (map sh_shard_id shards)" "mset shards = mset shards'"
  shows "canonical_order shards = canonical_order shards'"
  unfolding canonical_order_def
  by (rule sort_key_inj_key_eq) (use assms in \<open>simp_all add: distinct_map\<close>)

lemma position_Some:
  "position P xs = Some i \<Longrightarrow> i < length xs \<and> P (xs ! i)"
  by (induction xs arbitrary: i) (auto split: if_splits simp: less_Suc_eq_0_disj)

lemma position_found: "x \<in> set xs \<Longrightarrow> P x \<Longrightarrow> \<exists>i. position P xs = Some i"
  by (induction xs) auto

section \<open>Leaf layouts\<close>

text \<open>What a leaf commits to.\<close>

definition committed :: "SignedTreeHead \<Rightarrow> i64 \<times> str \<times> str \<times> str" where
  "committed sth = (sth_tree_size sth, sth_root_hash sth, sth_signing_key_id sth, sth_signature sth)"

definition head_fits :: "str \<Rightarrow> SignedTreeHead \<Rightarrow> bool" where
  "head_fits shard_id sth \<longleftrightarrow> fits shard_id \<and> fits (sth_root_hash sth) \<and> fits (sth_signing_key_id sth) \<and> fits (sth_signature sth)"

lemma append_shard_fields_inject:
  assumes "head_fits i s" "head_fits j t" "append_shard_fields i s = append_shard_fields j t"
  shows "i = j \<and> committed s = committed t"
proof -
  have lp: "append_shard_fields k u = lp (as_bytes k) @ u64_be (sth_tree_size u) @ lp (as_bytes (sth_root_hash u)) @
      lp (as_bytes (sth_signing_key_id u)) @ lp (as_bytes (sth_signature u))" for k u
    by (simp add: append_shard_fields_def lp_def)
  show ?thesis using assms unfolding lp by (simp add: head_fits_def committed_def layout_eqs lp_code.enc_eq)
qed

locale head_tree =
  fixes leaf :: "str \<Rightarrow> SignedTreeHead \<Rightarrow> bytes"
  assumes leaf_inject: "head_fits i s \<Longrightarrow> head_fits j t \<Longrightarrow> leaf i s = leaf j t \<Longrightarrow> i = j \<and> committed s = committed t"
begin

abbreviation leaves :: "ShardTreeHead list \<Rightarrow> bytes list" where
  "leaves hs \<equiv> map (\<lambda>s. leaf (sh_shard_id s) (sh_sth s)) hs"

lemma proof_verifies:
  assumes "position (\<lambda>s. sh_shard_id s = shard_id) hs = Some i"
  shows "\<exists>pf. inclusion_proof C algo i (leaves hs) = Ok pf \<and>
    verify_inclusion_proof C algo (leaf shard_id (sh_sth (hs ! i))) i (length hs) pf (mth C algo (leaves hs))"
proof -
  have i: "i < length hs" and id: "sh_shard_id (hs ! i) = shard_id" using position_Some [OF assms] by simp_all
  have "leaf shard_id (sh_sth (hs ! i)) = leaves hs ! i" using i id by simp
  then show ?thesis using i verify_path_path [of i "leaves hs" C algo]
    by (simp add: inclusion_proof_def verify_inclusion_proof_def Let_def)
qed

lemma proof_binds:
  assumes "sha256_ok C" "\<forall>h\<in>set pf. length h = 32" "\<forall>s\<in>set hs. head_fits (sh_shard_id s) (sh_sth s)" "head_fits shard_id sth"
    and v: "verify_inclusion_proof C algo (leaf shard_id sth) i (length hs) pf (mth C algo (leaves hs))"
  shows "(i < length hs \<and> sh_shard_id (hs ! i) = shard_id \<and> committed (sh_sth (hs ! i)) = committed sth) \<or>
    collision_in C algo ((LEAF_HASH_PREFIX # leaf shard_id sth) # mth_inputs C algo (leaves hs) @
      verify_path_inputs C algo i (length hs) (leaf_hash C algo (leaf shard_id sth)) pf)"
    (is "_ \<or> collision_in C algo ?ms")
proof -
  have i: "i < length hs" and p: "verify_path C algo i (length (leaves hs)) (leaf_hash C algo (leaf shard_id sth)) pf = Some (mth C algo (leaves hs))"
    using v by (auto simp: verify_inclusion_proof_def split: option.splits)
  from verify_path_sound [OF assms(1,2) _ p, of ?ms] i
  have "leaf shard_id sth = leaf (sh_shard_id (hs ! i)) (sh_sth (hs ! i)) \<or> collision_in C algo ?ms" by auto
  then show ?thesis using leaf_inject [OF assms(4), of "sh_shard_id (hs ! i)" "sh_sth (hs ! i)"] assms(3) i by auto
qed

end

interpretation net: head_tree shard_leaf_bytes
  by unfold_locales (rule append_shard_fields_inject, simp_all add: shard_leaf_bytes_def)

interpretation fam: head_tree "family_leaf_bytes owner" for owner
  by unfold_locales (rule append_shard_fields_inject, simp_all add: family_leaf_bytes_def)

section \<open>What the trees guarantee\<close>

lemma decode_root_hex: "hex_ok C \<Longrightarrow> length r = 32 \<Longrightarrow> decode_root C (hex_encode C r) = Ok r"
  by (simp add: decode_root_def hex_roundtrip to_array_def)

lemma family_members_perm:
  assumes "distinct (map sh_shard_id shards)" "mset shards = mset shards'"
  shows "family_members owner shards = family_members owner shards'"
  unfolding family_members_def
proof (rule canonical_order_perm)
  show "distinct (map sh_shard_id (filter (\<lambda>s. is_family_member owner (sh_shard_id s)) shards))"
    using assms(1) by (simp add: distinct_map_filter)
  show "mset (filter (\<lambda>s. is_family_member owner (sh_shard_id s)) shards) = mset (filter (\<lambda>s. is_family_member owner (sh_shard_id s)) shards')"
    using assms(2) by (simp only: mset_filter)
qed

text \<open>Aggregation needs no coordinator: with one head per shard, every node that holds the same heads computes the
  same network root and the same family heads, whatever order it learned them in, and a family head
  does not depend on heads of other owners.\<close>

theorem cross_shard_deterministic:
  assumes "distinct (map sh_shard_id shards)" and "mset shards = mset shards'"
  shows "compute_cross_shard_root_checked C known shards t = compute_cross_shard_root_checked C known shards' t \<and>
    compute_shard_family_head C owner known shards = compute_shard_family_head C owner known shards' \<and>
    compute_shard_family_head C owner known (filter (\<lambda>s. is_family_member owner (sh_shard_id s)) shards) =
      compute_shard_family_head C owner known shards"
proof -
  have "set shards = set shards'" using assms(2) by (metis set_mset_mset)
  then have "compute_cross_shard_root_checked C known shards t = compute_cross_shard_root_checked C known shards' t"
    using canonical_order_perm [OF assms] mset_eq_length [OF assms(2)]
    by (simp add: compute_cross_shard_root_checked_def compute_cross_shard_root_def Let_def)
  moreover have "family_members owner (filter (\<lambda>s. is_family_member owner (sh_shard_id s)) shards) = family_members owner shards"
    by (simp add: family_members_def)
  ultimately show ?thesis using family_members_perm [OF assms, of owner]
    by (simp add: compute_shard_family_head_def)
qed

lemma position_unique:
  assumes "position (\<lambda>x. sh_shard_id x = sh_shard_id s) hs = Some i" "set hs \<subseteq> set shards" "s \<in> set shards" "distinct (map sh_shard_id shards)"
  shows "hs ! i = s"
proof -
  have "hs ! i \<in> set shards" "sh_shard_id (hs ! i) = sh_shard_id s" using position_Some [OF assms(1)] assms(2) by auto
  then show ?thesis using assms(3,4) by (simp add: distinct_map inj_on_def)
qed

lemma position_absent:
  "shard_id \<notin> sh_shard_id ` set hs \<Longrightarrow> position (\<lambda>x. sh_shard_id x = shard_id) hs = None"
  by (induction hs) auto

lemma network_proof_verifies:
  assumes "hex_ok C" "sha256_ok C" "distinct (map sh_shard_id shards)" "s \<in> set shards"
  shows "\<exists>pf i. inclusion_proof_for_shard C shards (sh_shard_id s) = Some (Ok pf) \<and>
    verify_shard_inclusion C (cs_root_hash (compute_cross_shard_root C shards t)) (length shards) i (sh_shard_id s) (sh_sth s) pf = Ok True"
proof -
  obtain i where i: "position (\<lambda>x. sh_shard_id x = sh_shard_id s) (canonical_order shards) = Some i"
    using position_found [of s "canonical_order shards" "\<lambda>x. sh_shard_id x = sh_shard_id s"] assms(4) by auto
  have "canonical_order shards ! i = s" using position_unique [OF i _ assms(4,3)] by simp
  then show ?thesis using net.proof_verifies [where C = C and algo = TREE_ALGO, OF i] i
    by (auto simp: inclusion_proof_for_shard_def verify_shard_inclusion_def compute_cross_shard_root_def Let_def
        decode_root_hex [OF assms(1)] mth_len [OF assms(2)])
qed

lemma family_proof_verifies:
  assumes "hex_ok C" "sha256_ok C" "distinct (map sh_shard_id shards)" "s \<in> set shards" "is_family_member owner (sh_shard_id s)"
  shows "\<exists>fp. family_inclusion_proof C owner shards (sh_shard_id s) = Some (Ok fp) \<and>
    verify_family_inclusion C owner (fh_root_hash (compute_shard_family_head C owner known shards)) fp (sh_shard_id s) (sh_sth s) = Ok True"
proof -
  have mem: "s \<in> set (family_members owner shards)" "set (family_members owner shards) \<subseteq> set shards"
    using assms(4,5) by (auto simp: family_members_def)
  obtain j where j: "position (\<lambda>x. sh_shard_id x = sh_shard_id s) (family_members owner shards) = Some j"
    using position_found [of s "family_members owner shards" "\<lambda>x. sh_shard_id x = sh_shard_id s"] mem by auto
  have "family_members owner shards ! j = s" using position_unique [OF j mem(2) assms(4,3)] .
  then show ?thesis using fam.proof_verifies [where owner = owner and C = C and algo = TREE_ALGO, OF j] j mem(1) assms(5)
    by (auto simp: family_inclusion_proof_def verify_family_inclusion_def compute_shard_family_head_def family_leaves_def Let_def
        decode_root_hex [OF assms(1)] mth_len [OF assms(2)])
qed

text \<open>A node proves each head it aggregated. The proof for a shard that is present verifies against the
  network root, and for a member against its family root; for any other shard there is no proof.\<close>

theorem shard_inclusion_complete:
  assumes "hex_ok C" and "sha256_ok C" and "distinct (map sh_shard_id shards)"
  shows "(\<forall>s\<in>set shards. \<exists>pf i. inclusion_proof_for_shard C shards (sh_shard_id s) = Some (Ok pf) \<and>
      verify_shard_inclusion C (cs_root_hash (compute_cross_shard_root C shards t)) (length shards) i (sh_shard_id s) (sh_sth s) pf = Ok True) \<and>
    (\<forall>s\<in>set shards. is_family_member owner (sh_shard_id s) \<longrightarrow>
      (\<exists>fp. family_inclusion_proof C owner shards (sh_shard_id s) = Some (Ok fp) \<and>
        verify_family_inclusion C owner (fh_root_hash (compute_shard_family_head C owner known shards)) fp (sh_shard_id s) (sh_sth s) = Ok True)) \<and>
    (\<forall>shard_id. shard_id \<notin> sh_shard_id ` set shards \<longrightarrow>
      inclusion_proof_for_shard C shards shard_id = None \<and> family_inclusion_proof C owner shards shard_id = None)"
proof -
  have "inclusion_proof_for_shard C shards x = None \<and> family_inclusion_proof C owner shards x = None" if "x \<notin> sh_shard_id ` set shards" for x
  proof -
    have "x \<notin> sh_shard_id ` set (canonical_order shards)" "x \<notin> sh_shard_id ` set (family_members owner shards)"
      using that by (auto simp: family_members_def)
    then show ?thesis by (simp add: inclusion_proof_for_shard_def family_inclusion_proof_def Let_def position_absent)
  qed
  then show ?thesis using network_proof_verifies [OF assms] family_proof_verifies [OF assms] by blast
qed

text \<open>A proof that verifies against a root names a head that is in the aggregated set, at that index, with that shard,
  size, root, key and signature, or the hashed messages contain a collision; a shard outside the
  family never verifies.\<close>

theorem family_inclusion_sound:
  assumes "hex_ok C" and "sha256_ok C" and "\<forall>s\<in>set shards. head_fits (sh_shard_id s) (sh_sth s)" and "head_fits shard_id sth"
    and "\<forall>h\<in>set (fp_path fp). length h = 32" and "fp_tree_size fp = length (family_members owner shards)"
    and "verify_family_inclusion C owner (fh_root_hash (compute_shard_family_head C owner known shards)) fp shard_id sth = Ok True"
  shows "is_family_member owner shard_id \<and>
    ((fp_leaf_index fp < length (family_members owner shards) \<and> sh_shard_id (family_members owner shards ! fp_leaf_index fp) = shard_id \<and>
      committed (sh_sth (family_members owner shards ! fp_leaf_index fp)) = committed sth) \<or>
     collision_in C Sha256 ((LEAF_HASH_PREFIX # family_leaf_bytes owner shard_id sth) #
       mth_inputs C Sha256 (family_leaves owner (family_members owner shards)) @
       verify_path_inputs C Sha256 (fp_leaf_index fp) (length (family_members owner shards))
         (leaf_hash C Sha256 (family_leaf_bytes owner shard_id sth)) (fp_path fp)))"
proof -
  let ?ms = "family_members owner shards"
  have fits: "\<forall>s\<in>set ?ms. head_fits (sh_shard_id s) (sh_sth s)" using assms(3) by (simp add: family_members_def)
  have m: "is_family_member owner shard_id" using assms(7) by (auto simp: verify_family_inclusion_def split: if_splits)
  have i: "fp_leaf_index fp < length ?ms" using assms(6,7) m
    by (auto simp: verify_family_inclusion_def rbind_eq_Inr verify_inclusion_proof_def)
  then have "?ms \<noteq> []" by auto
  then have "verify_inclusion_proof C TREE_ALGO (family_leaf_bytes owner shard_id sth) (fp_leaf_index fp) (length ?ms) (fp_path fp)
      (mth C TREE_ALGO (family_leaves owner ?ms))"
    using assms(6,7) m by (simp add: verify_family_inclusion_def compute_shard_family_head_def Let_def decode_root_hex [OF assms(1)] mth_len [OF assms(2)])
  from fam.proof_binds [OF assms(2,5) fits assms(4) this [unfolded family_leaves_def]] m show ?thesis
    by (simp add: TREE_ALGO_def family_leaves_def)
qed

lemma network_inclusion_sound:
  assumes "hex_ok C" and "sha256_ok C" and "\<forall>s\<in>set shards. head_fits (sh_shard_id s) (sh_sth s)" and "head_fits shard_id sth"
    and "\<forall>h\<in>set pf. length h = 32"
    and "verify_shard_inclusion C (cs_root_hash (compute_cross_shard_root C shards t)) (length shards) i shard_id sth pf = Ok True"
  shows "(i < length shards \<and> sh_shard_id (canonical_order shards ! i) = shard_id \<and> committed (sh_sth (canonical_order shards ! i)) = committed sth) \<or>
    collision_in C Sha256 ((LEAF_HASH_PREFIX # shard_leaf_bytes shard_id sth) # mth_inputs C Sha256 (net.leaves (canonical_order shards)) @
      verify_path_inputs C Sha256 i (length shards) (leaf_hash C Sha256 (shard_leaf_bytes shard_id sth)) pf)"
proof -
  have "verify_inclusion_proof C Sha256 (shard_leaf_bytes shard_id sth) i (length (canonical_order shards)) pf
      (mth C Sha256 (net.leaves (canonical_order shards)))"
    using assms(6) by (simp add: verify_shard_inclusion_def compute_cross_shard_root_def Let_def decode_root_hex [OF assms(1)]
        mth_len [OF assms(2)] TREE_ALGO_def)
  from net.proof_binds [OF assms(2,5) _ assms(4) this] assms(3) show ?thesis by simp
qed

text \<open>The tags of the two layouts.\<close>

lemma leaf_tags_differ: "shard_leaf_bytes i s \<noteq> family_leaf_bytes owner j t"
proof
  assume "shard_leaf_bytes i s = family_leaf_bytes owner j t"
  then have "shard_leaf_bytes i s ! 7 = family_leaf_bytes owner j t ! 7" by simp
  then have "as_bytes ''c'' = as_bytes ''s''"
    by (simp add: shard_leaf_bytes_def family_leaf_bytes_def FAMILY_LEAF_TAG_def as_bytes_def)
  then show False unfolding as_bytes_inject by simp
qed

text \<open>A family head cannot pass for a network root. Over the same heads, empty or not, the two roots differ, or the
  messages hashed for them contain a collision.\<close>

theorem family_root_separated:
  assumes "hex_ok C" and "sha256_ok C"
    and "fh_root_hash (compute_shard_family_head C owner known shards) = cs_root_hash (compute_cross_shard_root C shards t)"
    and "\<forall>s\<in>set shards. is_family_member owner (sh_shard_id s)"
  shows "collision_in C Sha256 ((FAMILY_EMPTY_TAG @ u32_be (of_nat (length owner)) @ as_bytes owner) #
    mth_inputs C Sha256 (family_leaves owner (family_members owner shards)) @
    mth_inputs C Sha256 (map (\<lambda>s. shard_leaf_bytes (sh_shard_id s) (sh_sth s)) (canonical_order shards)))" (is "collision_in C Sha256 ?ms")
proof -
  have members: "family_members owner shards = canonical_order shards"
    using assms(4) by (simp add: family_members_def)
  have inj: "a = b" if "hex_encode C a = hex_encode C b" for a b using that hex_roundtrip [OF assms(1)] by (metis option.inject)
  show ?thesis
  proof (cases shards)
    case Nil
    then have "digest C Sha256 (FAMILY_EMPTY_TAG @ u32_be (of_nat (length owner)) @ as_bytes owner) = digest C Sha256 []"
      using inj [OF assms(3) [unfolded compute_shard_family_head_def compute_cross_shard_root_def Let_def, simplified]] members
      by (simp add: canonical_order_def TREE_ALGO_def mth.simps [of C Sha256 "[]"] empty_root_def)
    moreover have "[] \<in> set ?ms" using Nil by (simp add: canonical_order_def mth_inputs.simps [of C Sha256 "[]"])
    moreover have "FAMILY_EMPTY_TAG @ u32_be (of_nat (length owner)) @ as_bytes owner \<noteq> []" by (simp add: FAMILY_EMPTY_TAG_def as_bytes_def)
    ultimately show ?thesis by (intro collisionI [of "FAMILY_EMPTY_TAG @ u32_be (of_nat (length owner)) @ as_bytes owner" ?ms "[]"]) simp_all
  next
    case (Cons s rest)
    then have ne: "canonical_order shards \<noteq> []" by (metis length_0_conv list.distinct(1) mset_canonical_order(3))
    let ?f = "family_leaves owner (canonical_order shards)" and ?n = "net.leaves (canonical_order shards)"
    have "mth C Sha256 ?f = mth C Sha256 ?n"
      using inj [OF assms(3) [unfolded compute_shard_family_head_def compute_cross_shard_root_def Let_def, simplified]] members ne
      by (simp add: TREE_ALGO_def)
    from mth_binding_aux [OF assms(2) _ this, of ?ms] have "?f = ?n \<or> collision_in C Sha256 ?ms"
      by (auto simp: family_leaves_def members)
    moreover have "?f \<noteq> ?n" using ne leaf_tags_differ by (cases "canonical_order shards") (auto simp: family_leaves_def dest: sym)
    ultimately show ?thesis by simp
  qed
qed

text \<open>A root over fewer shards than the node knows of says so: it is marked partial exactly when some known shard has
  no head, and the missing ids are those, ascending; the same holds of a family.\<close>

theorem missing_shards_reported:
  "(let r = compute_cross_shard_root_checked C known shards t in
     (cs_partial r \<longleftrightarrow> \<not> set known \<subseteq> sh_shard_id ` set shards) \<and> sorted (cs_missing_shard_ids r) \<and>
     set (cs_missing_shard_ids r) = set known - sh_shard_id ` set shards \<and> cs_root_hash r = cs_root_hash (compute_cross_shard_root C shards t)) \<and>
   (let f = compute_shard_family_head C owner known shards in
     (fh_partial f \<longleftrightarrow> fh_missing_shard_ids f \<noteq> []) \<and>
     set (fh_missing_shard_ids f) = {i \<in> set known. is_family_member owner i \<and> i \<notin> sh_shard_id ` set shards})"
proof -
  have "sort xs = [] \<longleftrightarrow> xs = []" for xs :: "str list" by (metis set_empty set_sort)
  then show ?thesis
    by (auto simp: compute_cross_shard_root_checked_def compute_cross_shard_root_def compute_shard_family_head_def family_members_def
        filter_empty_conv Let_def)
qed

text \<open>The determinism needs one head per shard: the sort is stable and compares shard ids only, so two heads of one shard
  stay in the order in which they arrived, and the leaves differ.\<close>

theorem duplicate_heads_order_matters:
  assumes "head_fits i s" and "head_fits i s'" and "committed s \<noteq> committed s'"
  shows "mset [\<lparr>sh_shard_id = i, sh_sth = s\<rparr>, \<lparr>sh_shard_id = i, sh_sth = s'\<rparr>] = mset [\<lparr>sh_shard_id = i, sh_sth = s'\<rparr>, \<lparr>sh_shard_id = i, sh_sth = s\<rparr>] \<and>
    net.leaves (canonical_order [\<lparr>sh_shard_id = i, sh_sth = s\<rparr>, \<lparr>sh_shard_id = i, sh_sth = s'\<rparr>]) \<noteq>
    net.leaves (canonical_order [\<lparr>sh_shard_id = i, sh_sth = s'\<rparr>, \<lparr>sh_shard_id = i, sh_sth = s\<rparr>])"
  using net.leaf_inject [OF assms(1,2)] assms(3) by (auto simp: canonical_order_def)

text \<open>Witness: two shards learned in either order.\<close>

definition demo_shard_sth :: "str \<Rightarrow> SignedTreeHead" where
  "demo_shard_sth root = \<lparr>sth_tree_size = 1, sth_root_hash = root, sth_network_id = ''net'', sth_signing_key_id = ''key'',
     sth_signature = ''sig'', sth_created_at = 0, sth_envelope = envelope_current SETTLEMENT_STH\<rparr>"

definition demo_shard_heads :: "ShardTreeHead list" where
  "demo_shard_heads = [\<lparr>sh_shard_id = ''game:acme/one'', sh_sth = demo_shard_sth ''a''\<rparr>, \<lparr>sh_shard_id = ''core'', sh_sth = demo_shard_sth ''b''\<rparr>]"

theorem cross_shard_deterministic_witness:
  "compute_cross_shard_root_checked demo_crates [''core''] demo_shard_heads 0 =
     compute_cross_shard_root_checked demo_crates [''core''] (rev demo_shard_heads) 0"
  using cross_shard_deterministic [of demo_shard_heads "rev demo_shard_heads" demo_crates "[''core'']" 0]
  by (simp add: demo_shard_heads_def)

theorem shard_inclusion_complete_witness:
  "\<exists>pf i. inclusion_proof_for_shard demo_crates demo_shard_heads ''core'' = Some (Ok pf) \<and>
     verify_shard_inclusion demo_crates (cs_root_hash (compute_cross_shard_root demo_crates demo_shard_heads 0)) 2 i ''core'' (demo_shard_sth ''b'') pf = Ok True"
proof -
  have d: "distinct (map sh_shard_id demo_shard_heads)" "\<lparr>sh_shard_id = ''core'', sh_sth = demo_shard_sth ''b''\<rparr> \<in> set demo_shard_heads"
    "length demo_shard_heads = 2" by (simp_all add: demo_shard_heads_def)
  from conjunct1 [OF shard_inclusion_complete [OF demo_hex_ok demo_sha256_ok d(1), of 0]] d(2,3) show ?thesis by fastforce
qed

lemma demo_family: "is_family_member ''game:acme'' ''game:acme/one''" "\<not> is_family_member ''game:acme'' ''core''"
proof -
  have "wf_shard_id (Owned ''game'' ''acme'' (Some ''one''))"
    by (simp add: owner_has_bad_char_def valid_instance_def MAX_INSTANCE_LEN_def str_chars_def is_whitespace_def
        is_ascii_lowercase_def is_ascii_digit_def)
  from parse_shard_id_complete [OF this] show "is_family_member ''game:acme'' ''game:acme/one''"
    by (simp add: is_family_member_def shard_family_owner_def shard_authority_def)
  from parse_shard_id_complete [of Core] show "\<not> is_family_member ''game:acme'' ''core''"
    by (simp add: is_family_member_def shard_family_owner_def shard_authority_def CORE_SHARD_ID_def)
qed

theorem family_inclusion_sound_witness:
  "\<exists>fp. verify_family_inclusion demo_crates ''game:acme'' (fh_root_hash (compute_shard_family_head demo_crates ''game:acme'' [] demo_shard_heads)) fp
      ''game:acme/one'' (demo_shard_sth ''a'') = Ok True \<and>
    (fp_leaf_index fp < length (family_members ''game:acme'' demo_shard_heads) \<or>
     collision_in demo_crates Sha256 ((LEAF_HASH_PREFIX # family_leaf_bytes ''game:acme'' ''game:acme/one'' (demo_shard_sth ''a'')) #
       mth_inputs demo_crates Sha256 (family_leaves ''game:acme'' (family_members ''game:acme'' demo_shard_heads)) @
       verify_path_inputs demo_crates Sha256 (fp_leaf_index fp) (length (family_members ''game:acme'' demo_shard_heads))
         (leaf_hash demo_crates Sha256 (family_leaf_bytes ''game:acme'' ''game:acme/one'' (demo_shard_sth ''a''))) (fp_path fp)))"
proof -
  have d: "distinct (map sh_shard_id demo_shard_heads)" "\<lparr>sh_shard_id = ''game:acme/one'', sh_sth = demo_shard_sth ''a''\<rparr> \<in> set demo_shard_heads"
    by (simp_all add: demo_shard_heads_def)
  have ms: "family_members ''game:acme'' demo_shard_heads = [\<lparr>sh_shard_id = ''game:acme/one'', sh_sth = demo_shard_sth ''a''\<rparr>]"
    using demo_family by (simp add: family_members_def demo_shard_heads_def canonical_order_def)
  from family_proof_verifies [OF demo_hex_ok demo_sha256_ok d, of "''game:acme''" "[]"] demo_family(1)
  obtain fp where fp: "family_inclusion_proof demo_crates ''game:acme'' demo_shard_heads ''game:acme/one'' = Some (Ok fp)"
    and v: "verify_family_inclusion demo_crates ''game:acme'' (fh_root_hash (compute_shard_family_head demo_crates ''game:acme'' [] demo_shard_heads)) fp
      ''game:acme/one'' (demo_shard_sth ''a'') = Ok True" by auto
  have "fp_path fp = []" "fp_tree_size fp = 1"
    using fp by (auto simp: family_inclusion_proof_def ms family_leaves_def inclusion_proof_def path_leaf)
  then have s: "\<forall>h\<in>set (fp_path fp). length h = 32" "fp_tree_size fp = length (family_members ''game:acme'' demo_shard_heads)"
    by (simp_all add: ms)
  have fits: "\<forall>s\<in>set demo_shard_heads. head_fits (sh_shard_id s) (sh_sth s)" "head_fits ''game:acme/one'' (demo_shard_sth ''a'')"
    by (simp_all add: demo_shard_heads_def head_fits_def demo_shard_sth_def)
  from family_inclusion_sound [OF demo_hex_ok demo_sha256_ok fits s v] v show ?thesis by blast
qed

end
