(* ===== verification/Known_List.thy ===== *)
theory Known_List
  imports Crates_Instance
begin

text \<open>
  Models of \<open>crates/protocol/src/known_list.rs\<close> (the bounded witness list) and
  \<open>crates/protocol/src/client_known_list.rs\<close> (the diversity prefix of a node URL and the selection of
  a list). The locale \<open>bounded_admission\<close> is what the selection needs of the list: admission keeps
  the invariant, appends at most the candidate, and a refusal stays a refusal.
\<close>

section \<open>The bounded list\<close>

record WitnessSlot =
  witness_key_id :: str
  slot_prefix :: str
  is_anchor :: bool

record KnownList =
  capacity :: nat
  anchor_capacity :: nat
  max_per_prefix :: nat
  slots :: "WitnessSlot list"

text \<open>\<open>None\<close> is the panic of the \<open>assert!\<close>.\<close>

definition kl_new :: "nat \<Rightarrow> nat \<Rightarrow> nat \<Rightarrow> KnownList option" where
  "kl_new cap acap per =
     (if acap \<le> cap then Some \<lparr>capacity = cap, anchor_capacity = acap, max_per_prefix = per, slots = []\<rparr> else None)"

definition anchor_count :: "KnownList \<Rightarrow> nat" where
  "anchor_count l = length (filter is_anchor (slots l))"

definition prefix_count :: "KnownList \<Rightarrow> str \<Rightarrow> nat" where
  "prefix_count l p = length (filter (\<lambda>s. slot_prefix s = p) (slots l))"

definition kl_contains :: "KnownList \<Rightarrow> str \<Rightarrow> bool" where
  "kl_contains l w = list_ex (\<lambda>s. witness_key_id s = w) (slots l)"

definition try_admit :: "KnownList \<Rightarrow> WitnessSlot \<Rightarrow> bool \<times> KnownList" where
  "try_admit l candidate =
     (if kl_contains l (witness_key_id candidate) then (False, l)
      else if is_anchor candidate \<and> anchor_count l \<ge> anchor_capacity l then (False, l)
      else if length (slots l) \<ge> capacity l then (False, l)
      else if prefix_count l (slot_prefix candidate) \<ge> max_per_prefix l then (False, l)
      else (True, l\<lparr>slots := slots l @ [candidate]\<rparr>))"

definition kl_remove :: "KnownList \<Rightarrow> str \<Rightarrow> bool \<times> KnownList" where
  "kl_remove l w =
     (let l' = l\<lparr>slots := filter (\<lambda>s. witness_key_id s \<noteq> w) (slots l)\<rparr>
      in (length (slots l') \<noteq> length (slots l), l'))"

definition kl_len :: "KnownList \<Rightarrow> nat" where "kl_len l = length (slots l)"
definition kl_is_empty :: "KnownList \<Rightarrow> bool" where "kl_is_empty l = (slots l = [])"
definition witness_key_ids :: "KnownList \<Rightarrow> str list" where "witness_key_ids l = map witness_key_id (slots l)"

section \<open>Addresses in host text\<close>

text \<open>\<open>Ipv4Addr::from_str\<close>: four decimal octets, no leading zeros.\<close>

definition parse_octet :: "str \<Rightarrow> nat option" where
  "parse_octet s =
     (if s \<noteq> [] \<and> length s \<le> 3 \<and> list_all is_ascii_digit s \<and> (length s = 1 \<or> hd s \<noteq> CHR ''0'') \<and> radix_val 10 s \<le> 255
      then Some (radix_val 10 s) else None)"

definition parse_ipv4 :: "str \<Rightarrow> (nat \<times> nat \<times> nat \<times> nat) option" where
  "parse_ipv4 s = (case map parse_octet (split_char (CHR ''.'') s) of
     [Some a, Some b, Some c, Some d] \<Rightarrow> Some (a, b, c, d) | _ \<Rightarrow> None)"

text \<open>\<open>Ipv6Addr::from_str\<close> on a text with no dot: eight groups of one to four hex digits, or fewer
  around one \<open>::\<close> that stands for at least one zero group.\<close>

fun split_double :: "str \<Rightarrow> (str \<times> str) option" where
  "split_double (a # b # cs) =
     (if a = CHR '':'' \<and> b = CHR '':'' then Some ([], cs)
      else map_option (\<lambda>(x, y). (a # x, y)) (split_double (b # cs)))"
| "split_double _ = None"

definition parse_groups :: "str \<Rightarrow> nat list option" where
  "parse_groups s =
     (if s = [] then Some []
      else (let gs = split_char (CHR '':'') s in
        if list_all (\<lambda>g. g \<noteq> [] \<and> length g \<le> 4 \<and> list_all is_ascii_hexdigit g) gs
        then Some (map (radix_val 16) gs) else None))"

definition parse_ipv6 :: "str \<Rightarrow> nat list option" where
  "parse_ipv6 s = (case split_double s of
     Some (a, b) \<Rightarrow>
       (case (parse_groups a, parse_groups b) of
          (Some x, Some y) \<Rightarrow>
            if length x + length y \<le> 7 then Some (x @ replicate (8 - length x - length y) 0 @ y) else None
        | _ \<Rightarrow> None)
   | None \<Rightarrow> (case parse_groups s of Some x \<Rightarrow> if length x = 8 then Some x else None | None \<Rightarrow> None))"

section \<open>The diversity prefix\<close>

definition DEFAULT_CAPACITY :: nat where "DEFAULT_CAPACITY = 5"
definition DEFAULT_ANCHOR_CAPACITY :: nat where "DEFAULT_ANCHOR_CAPACITY = 2"
definition DEFAULT_MAX_PER_PREFIX :: nat where "DEFAULT_MAX_PER_PREFIX = 2"

record Candidate =
  cand_witness_key_id :: str
  cand_base_url :: str
  cand_is_anchor :: bool

definition valid_port :: "str \<Rightarrow> bool" where
  "valid_port port \<longleftrightarrow> port \<noteq> [] \<and> length port \<le> 5 \<and> list_all is_ascii_digit port \<and>
     1 \<le> radix_val 10 port \<and> radix_val 10 port \<le> 65535"

definition valid_hostname :: "str \<Rightarrow> bool" where
  "valid_hostname host \<longleftrightarrow> host \<noteq> [] \<and>
     list_all (\<lambda>label. label \<noteq> [] \<and>
         list_all (\<lambda>b. is_ascii_lowercase b \<or> is_ascii_digit b \<or> b = CHR ''-'') label \<and>
         hd label \<noteq> CHR ''-'' \<and> last label \<noteq> CHR ''-'')
       (split_char (CHR ''.'') host)"

definition strip_suffix_char :: "char \<Rightarrow> str \<Rightarrow> str option" where
  "strip_suffix_char c s = (if s \<noteq> [] \<and> last s = c then Some (butlast s) else None)"

fun join_dot :: "str list \<Rightarrow> str" where
  "join_dot [] = []"
| "join_dot [s] = s"
| "join_dot (s # ss) = s @ ''.'' @ join_dot ss"

text \<open>The host and optional port of an authority; a bracketed host keeps its brackets.\<close>

definition host_port :: "str \<Rightarrow> (str \<times> str option) option" where
  "host_port authority = (case strip_prefix ''['' authority of
     Some after \<Rightarrow>
       (case split_once (CHR '']'') after of
          None \<Rightarrow> None
        | Some (host, tail) \<Rightarrow>
            if tail = [] then Some (''['' @ host @ '']'', None)
            else map_option (\<lambda>port. (''['' @ host @ '']'', Some port)) (strip_prefix '':'' tail))
   | None \<Rightarrow>
       (case split_char (CHR '':'') authority of
          [host] \<Rightarrow> Some (host, None) | [host, port] \<Rightarrow> Some (host, Some port) | _ \<Rightarrow> None))"

definition host_prefix :: "str \<Rightarrow> str option" where
  "host_prefix host0 =
     (case Option.bind (strip_prefix ''['' host0) (strip_suffix_char (CHR '']'')) of
        Some inner \<Rightarrow>
          if CHR ''.'' \<in> set inner then None
          else map_option (\<lambda>s. ''v6:'' @ radix_str 16 (s ! 0) @ '':'' @ radix_str 16 (s ! 1) @ '':'' @
                 radix_str 16 (s ! 2) @ ''::/48'') (parse_ipv6 inner)
      | None \<Rightarrow>
          (let host = (case strip_suffix_char (CHR ''.'') host0 of Some h \<Rightarrow> h | None \<Rightarrow> host0) in
           if list_all (\<lambda>b. is_ascii_digit b \<or> b = CHR ''.'') host \<and> CHR ''.'' \<in> set host then
             map_option (\<lambda>(a, b, c, d). ''v4:'' @ radix_str 10 a @ ''.'' @ radix_str 10 b @ ''.'' @
               radix_str 10 c @ ''.0/24'') (parse_ipv4 host)
           else if \<not> valid_hostname host then None
           else (let labels = split_char (CHR ''.'') host;
                     keep = (if length labels \<ge> 2 then drop (length labels - 2) labels else labels)
                 in Some (''host:'' @ join_dot keep))))"

definition diversity_prefix_for_url :: "str \<Rightarrow> str option" where
  "diversity_prefix_for_url base_url =
     (if \<not> is_ascii base_url \<or> list_ex (\<lambda>b. ord b \<le> 32 \<or> ord b = 127) base_url then None
      else (let lower = to_ascii_lowercase base_url in
        case (case strip_prefix ''http://'' lower of Some r \<Rightarrow> Some r | None \<Rightarrow> strip_prefix ''https://'' lower) of
          None \<Rightarrow> None
        | Some rest \<Rightarrow>
            (let authority = takeWhile (\<lambda>c. c \<notin> set ''/?#'') rest; tail = dropWhile (\<lambda>c. c \<notin> set ''/?#'') rest in
             if tail \<noteq> [] \<and> tail \<noteq> ''/'' then None
             else if authority = [] \<or> CHR ''@'' \<in> set authority then None
             else (case host_port authority of
                 None \<Rightarrow> None
               | Some (host, port) \<Rightarrow>
                   if (case port of Some p \<Rightarrow> \<not> valid_port p | None \<Rightarrow> False) then None
                   else host_prefix host))))"

section \<open>Selection\<close>

definition admit_candidate :: "KnownList \<Rightarrow> Candidate \<Rightarrow> KnownList" where
  "admit_candidate l c =
     (case diversity_prefix_for_url (cand_base_url c) of
        None \<Rightarrow> l
      | Some p \<Rightarrow> snd (try_admit l \<lparr>witness_key_id = cand_witness_key_id c, slot_prefix = p, is_anchor = cand_is_anchor c\<rparr>))"

text \<open>The two passes, anchors first. \<open>KnownList::new\<close> is given \<open>anchor_capacity.min(capacity)\<close>.\<close>

definition select_list :: "Candidate list \<Rightarrow> nat \<Rightarrow> nat \<Rightarrow> nat \<Rightarrow> KnownList option" where
  "select_list candidates cap acap per =
     map_option (\<lambda>l. foldl admit_candidate (foldl admit_candidate l (filter cand_is_anchor candidates))
                        (filter (\<lambda>c. \<not> cand_is_anchor c) candidates))
       (kl_new cap (min acap cap) per)"

definition select_known_list :: "Candidate list \<Rightarrow> nat \<Rightarrow> nat \<Rightarrow> nat \<Rightarrow> str list option" where
  "select_known_list candidates cap acap per = map_option witness_key_ids (select_list candidates cap acap per)"

section \<open>The invariant\<close>

definition kl_inv :: "KnownList \<Rightarrow> bool" where
  "kl_inv l \<longleftrightarrow> length (slots l) \<le> capacity l \<and> anchor_count l \<le> anchor_capacity l \<and>
     (\<forall>p. prefix_count l p \<le> max_per_prefix l) \<and> distinct (witness_key_ids l)"

text \<open>What the selection relies on: admission is an append guarded by a refusal that, once it
  applies, keeps applying as the list grows.\<close>

locale bounded_admission =
  fixes inv :: "'s \<Rightarrow> bool" and contents :: "'s \<Rightarrow> 'c list" and admit :: "'s \<Rightarrow> 'c \<Rightarrow> 's" and refuses :: "'s \<Rightarrow> 'c \<Rightarrow> bool"
  assumes inv_admit: "inv s \<Longrightarrow> inv (admit s c)"
    and admit_contents: "contents (admit s c) = (if refuses s c then contents s else contents s @ [c])"
    and refuses_again: "refuses s c \<Longrightarrow> refuses (admit s d) c"
    and refuses_admitted: "refuses (admit s c) c"
begin

lemma inv_all: "inv s \<Longrightarrow> inv (foldl admit s cs)"
  by (induction cs arbitrary: s) (simp_all add: inv_admit)

lemma contents_all: "\<exists>ds. contents (foldl admit s cs) = contents s @ ds \<and> set ds \<subseteq> set cs"
proof (induction cs arbitrary: s)
  case (Cons c cs)
  from Cons [of "admit s c"] show ?case by (auto simp: admit_contents split: if_splits)
qed simp

lemma refuses_stays: "refuses s c \<Longrightarrow> refuses (foldl admit s cs) c"
  by (induction cs arbitrary: s) (simp_all add: refuses_again)

lemma all_decided: "c \<in> set cs \<Longrightarrow> refuses (foldl admit s cs) c"
  by (induction cs arbitrary: s) (auto simp: refuses_admitted refuses_stays)

end

lemma try_admit_True:
  "fst (try_admit l c) \<longleftrightarrow>
     \<not> kl_contains l (witness_key_id c) \<and> (is_anchor c \<longrightarrow> anchor_count l < anchor_capacity l) \<and>
     length (slots l) < capacity l \<and> prefix_count l (slot_prefix c) < max_per_prefix l"
  by (auto simp: try_admit_def)

lemma try_admit_snd:
  "snd (try_admit l c) = (if fst (try_admit l c) then l\<lparr>slots := slots l @ [c]\<rparr> else l)"
  by (auto simp: try_admit_def)

lemma kl_inv_append:
  assumes "kl_inv l" and "fst (try_admit l c)"
  shows "kl_inv (l\<lparr>slots := slots l @ [c]\<rparr>)"
  using assms unfolding try_admit_True
  by (auto simp: kl_inv_def anchor_count_def prefix_count_def witness_key_ids_def kl_contains_def list_ex_iff)

interpretation kl: bounded_admission kl_inv slots "\<lambda>l c. snd (try_admit l c)" "\<lambda>l c. \<not> fst (try_admit l c)"
proof
  show "kl_inv (snd (try_admit l c))" if "kl_inv l" for l c
    using kl_inv_append [OF that] that by (simp add: try_admit_snd)
  show "slots (snd (try_admit l c)) = (if \<not> fst (try_admit l c) then slots l else slots l @ [c])" for l c
    by (simp add: try_admit_snd)
  show "\<not> fst (try_admit (snd (try_admit l d)) c)" if "\<not> fst (try_admit l c)" for l c d
    using that by (simp add: try_admit_snd)
      (auto simp: try_admit_True kl_contains_def anchor_count_def prefix_count_def)
  show "\<not> fst (try_admit (snd (try_admit l c)) c)" for l c
    by (simp add: try_admit_snd) (simp add: try_admit_True kl_contains_def)
qed

section \<open>Selection through the interface\<close>

definition slot_of :: "Candidate \<Rightarrow> WitnessSlot option" where
  "slot_of c = map_option (\<lambda>p. \<lparr>witness_key_id = cand_witness_key_id c, slot_prefix = p, is_anchor = cand_is_anchor c\<rparr>)
     (diversity_prefix_for_url (cand_base_url c))"

lemma foldl_admit_candidate:
  "foldl admit_candidate l cs = foldl (\<lambda>l c. snd (try_admit l c)) l (List.map_filter slot_of cs)"
  by (induction cs arbitrary: l) (auto simp: admit_candidate_def slot_of_def List.map_filter_simps split: option.splits)

lemma try_admit_caps:
  "capacity (snd (try_admit l c)) = capacity l" "anchor_capacity (snd (try_admit l c)) = anchor_capacity l"
  "max_per_prefix (snd (try_admit l c)) = max_per_prefix l"
  by (simp_all add: try_admit_snd)

lemma foldl_admit_caps:
  "capacity (foldl (\<lambda>l c. snd (try_admit l c)) l cs) = capacity l"
  "anchor_capacity (foldl (\<lambda>l c. snd (try_admit l c)) l cs) = anchor_capacity l"
  "max_per_prefix (foldl (\<lambda>l c. snd (try_admit l c)) l cs) = max_per_prefix l"
  by (induction cs arbitrary: l) (simp_all add: try_admit_caps)

lemma map_filter_slots: "s \<in> set (List.map_filter slot_of cs) \<longleftrightarrow> (\<exists>c\<in>set cs. slot_of c = Some s)"
  by (induction cs) (auto simp: List.map_filter_simps split: option.splits)

section \<open>Properties\<close>

text \<open>Admission and removal keep the list's bounds: never more slots than the capacity, more
  anchors than their share, more slots of one prefix than its cap, or one witness twice. A refused
  candidate changes nothing; removal reports exactly whether the witness was there and leaves
  every other slot in place.\<close>

theorem known_list_invariant:
  assumes "kl_inv l"
  shows "kl_inv (snd (try_admit l c)) \<and> kl_inv (snd (kl_remove l w)) \<and>
    (\<not> fst (try_admit l c) \<longrightarrow> snd (try_admit l c) = l) \<and>
    (fst (try_admit l c) \<longrightarrow> witness_key_ids (snd (try_admit l c)) = witness_key_ids l @ [witness_key_id c]) \<and>
    (fst (kl_remove l w) \<longleftrightarrow> w \<in> set (witness_key_ids l)) \<and>
    witness_key_ids (snd (kl_remove l w)) = filter (\<lambda>v. v \<noteq> w) (witness_key_ids l)"
proof -
  let ?keep = "filter (\<lambda>s. witness_key_id s \<noteq> w) (slots l)"
  have le: "length (filter P ?keep) \<le> length (filter P (slots l))" for P
    using length_filter_le [of "\<lambda>s. witness_key_id s \<noteq> w" "filter P (slots l)"] by (simp add: conj_commute)
  have ids: "map witness_key_id ?keep = filter (\<lambda>v. v \<noteq> w) (witness_key_ids l)"
    by (simp add: witness_key_ids_def filter_map comp_def)
  have "kl_inv (snd (kl_remove l w))"
    using assms le [of is_anchor] le [of "\<lambda>s. slot_prefix s = _"] ids
    unfolding kl_inv_def kl_remove_def Let_def
    by (auto simp: anchor_count_def prefix_count_def witness_key_ids_def intro: le_trans le_trans [OF length_filter_le])
  moreover have "length ?keep \<noteq> length (slots l) \<longleftrightarrow> w \<in> set (witness_key_ids l)"
    using length_filter_less [of _ "slots l" "\<lambda>s. witness_key_id s \<noteq> w"] filter_True [of "slots l" "\<lambda>s. witness_key_id s \<noteq> w"]
    by (fastforce simp: witness_key_ids_def)
  ultimately show ?thesis
    using kl.inv_admit [OF assms] ids
    by (simp add: try_admit_snd kl_remove_def Let_def) (simp add: witness_key_ids_def)
qed

text \<open>Witness: a list of capacity two with one anchor.\<close>

definition demo_list :: KnownList where
  "demo_list = \<lparr>capacity = 2, anchor_capacity = 1, max_per_prefix = 1,
     slots = [\<lparr>witness_key_id = ''w1'', slot_prefix = ''198.51'', is_anchor = True\<rparr>]\<rparr>"

definition demo_slot :: WitnessSlot where
  "demo_slot = \<lparr>witness_key_id = ''w2'', slot_prefix = ''203.0'', is_anchor = False\<rparr>"

theorem known_list_invariant_witness:
  "kl_inv demo_list \<and> kl_inv (snd (try_admit demo_list demo_slot)) \<and> kl_inv (snd (kl_remove demo_list ''w1'')) \<and>
   witness_key_ids (snd (try_admit demo_list demo_slot)) = [''w1'', ''w2'']"
proof -
  have inv: "kl_inv demo_list" by (simp add: kl_inv_def demo_list_def anchor_count_def prefix_count_def witness_key_ids_def)
  have adm: "fst (try_admit demo_list demo_slot)" by code_simp
  have ids: "witness_key_ids demo_list = [''w1'']" by (simp add: witness_key_ids_def demo_list_def)
  show ?thesis using known_list_invariant [OF inv, of demo_slot "''w1''"] adm inv ids by (simp add: demo_slot_def)
qed

text \<open>The client's selection never panics, respects every bound of the list, picks only
  candidates whose URL has a diversity prefix, and is exhaustive: any candidate with a prefix that
  was not picked is refused by the final list, for one of the caps or because its key is in it.\<close>

theorem selection_bounded_and_maximal:
  "\<exists>l. select_list cands cap acap per = Some l \<and> select_known_list cands cap acap per = Some (witness_key_ids l) \<and>
     kl_inv l \<and> capacity l = cap \<and> anchor_capacity l = min acap cap \<and> max_per_prefix l = per \<and>
     (\<forall>s\<in>set (slots l). \<exists>c\<in>set cands. slot_of c = Some s) \<and>
     (\<forall>c\<in>set cands. \<forall>s. slot_of c = Some s \<longrightarrow> \<not> fst (try_admit l s))"
proof -
  define start where "start = \<lparr>capacity = cap, anchor_capacity = min acap cap, max_per_prefix = per, slots = []\<rparr>"
  define ss where "ss = List.map_filter slot_of (filter cand_is_anchor cands) @
    List.map_filter slot_of (filter (\<lambda>c. \<not> cand_is_anchor c) cands)"
  define l where "l = foldl (\<lambda>l c. snd (try_admit l c)) start ss"
  have sel: "select_list cands cap acap per = Some l"
    by (simp add: select_list_def kl_new_def foldl_admit_candidate l_def start_def ss_def)
  have "kl_inv start" by (simp add: start_def kl_inv_def anchor_count_def prefix_count_def witness_key_ids_def)
  then have inv: "kl_inv l" unfolding l_def by (rule kl.inv_all)
  have mem: "s \<in> set ss \<longleftrightarrow> (\<exists>c\<in>set cands. slot_of c = Some s)" for s
    by (auto simp: ss_def map_filter_slots)
  have picked: "s \<in> set ss" if "s \<in> set (slots l)" for s
    using kl.contents_all [of start ss] that by (auto simp: l_def start_def)
  have decided: "\<not> fst (try_admit l s)" if "s \<in> set ss" for s
    unfolding l_def using that by (rule kl.all_decided)
  have caps: "capacity l = cap" "anchor_capacity l = min acap cap" "max_per_prefix l = per"
    by (simp_all add: l_def foldl_admit_caps start_def)
  have known: "select_known_list cands cap acap per = Some (witness_key_ids l)"
    by (simp add: select_known_list_def sel)
  have "\<forall>s\<in>set (slots l). \<exists>c\<in>set cands. slot_of c = Some s" using picked mem by blast
  moreover have "\<forall>c\<in>set cands. \<forall>s. slot_of c = Some s \<longrightarrow> \<not> fst (try_admit l s)" using decided mem by blast
  ultimately show ?thesis using sel known inv caps by blast
qed

text \<open>Witness: three candidates, two of one prefix.\<close>

definition demo_candidates :: "Candidate list" where
  "demo_candidates = map (\<lambda>(w, u). \<lparr>cand_witness_key_id = w, cand_base_url = u, cand_is_anchor = False\<rparr>)
     [(''w1'', ''https://a.example.org''), (''w2'', ''https://b.example.org''), (''w3'', ''https://c.other.net'')]"

theorem selection_bounded_and_maximal_witness:
  "\<exists>l. select_known_list demo_candidates 2 1 1 = Some (witness_key_ids l) \<and> kl_inv l \<and> capacity l = 2"
  using selection_bounded_and_maximal [of demo_candidates 2 1 1] by blast

end
