(* ===== verification/Node_Request.thy ===== *)
theory Node_Request
  imports Identity_Id
begin

text \<open>
  Model of \<open>crates/protocol/src/node_request.rs\<close>: the signed node-to-node request credential, its
  header text and its verification. An \<open>i64\<close> second count is an \<^typ>\<open>int\<close> in the range of \<open>i64\<close>;
  saturating arithmetic is written out.
\<close>

section \<open>Definitions\<close>

definition NODE_REQUEST_DOMAIN :: bytes where
  "NODE_REQUEST_DOMAIN = as_bytes ''avalon-node-request-v1''"

definition NODE_REQUEST_MAX_HEADER_LEN :: nat where "NODE_REQUEST_MAX_HEADER_LEN = 512"
definition MAX_PEER_ID_LEN :: nat where "MAX_PEER_ID_LEN = 128"
definition MAX_METHOD_LEN :: nat where "MAX_METHOD_LEN = 16"
definition MAX_PATH_LEN :: nat where "MAX_PATH_LEN = 2048"
definition MAX_NAME_LEN :: nat where "MAX_NAME_LEN = 256"

datatype NodeRequestError =
    Malformed str | InvalidRequest str | InvalidKey | Stale | Future | BadSignature | BodyMismatch

fun node_error_code :: "NodeRequestError \<Rightarrow> str" where
  "node_error_code (Malformed _) = ''malformed''"
| "node_error_code (InvalidRequest _) = ''invalid_request''"
| "node_error_code InvalidKey = ''invalid_key''"
| "node_error_code Stale = ''stale''"
| "node_error_code Future = ''future''"
| "node_error_code BadSignature = ''bad_signature''"
| "node_error_code BodyMismatch = ''body_hash''"

record NodeRequestHead =
  h_method :: str
  h_path :: str
  h_network_id :: str

record NodeRequestTarget = NodeRequestHead +
  t_body :: bytes

record NodeRequestAuth =
  a_peer_id :: str
  a_public_key :: bytes
  a_timestamp :: int
  a_nonce :: bytes
  a_body_hash :: bytes
  a_signature :: bytes

definition head_of_target :: "NodeRequestTarget \<Rightarrow> NodeRequestHead" where
  "head_of_target t = NodeRequestHead.truncate t"

definition push_lp :: "bytes \<Rightarrow> bytes \<Rightarrow> bytes" where
  "push_lp out bs = out @ u32_be (of_nat (length bs)) @ bs"

definition valid_peer_id :: "str \<Rightarrow> bool" where
  "valid_peer_id p \<longleftrightarrow> p \<noteq> [] \<and> length p \<le> MAX_PEER_ID_LEN \<and> list_all is_ascii_alphanumeric p"

definition validate_name :: "str \<Rightarrow> str \<Rightarrow> NodeRequestError + unit" where
  "validate_name v what = (if v = [] \<or> length v > MAX_NAME_LEN then Err (InvalidRequest what) else Ok ())"

fun has_double_slash :: "str \<Rightarrow> bool" where
  "has_double_slash (a # b # cs) \<longleftrightarrow> (a = CHR ''/'' \<and> b = CHR ''/'') \<or> has_double_slash (b # cs)"
| "has_double_slash _ \<longleftrightarrow> False"

definition validate_path :: "str \<Rightarrow> NodeRequestError + unit" where
  "validate_path p =
     (let printable = list_all (\<lambda>b. 0x21 \<le> ord b \<and> ord b \<le> 0x7e \<and> b \<noteq> CHR 0x5C) p;
          query_free = (\<not> list_ex (\<lambda>b. b = CHR ''?'' \<or> b = CHR ''#'') p);
          canonical = (\<not> has_double_slash p \<and> \<not> list_ex (\<lambda>seg. seg = ''.'' \<or> seg = ''..'') (split_char (CHR ''/'') p))
      in if length p > MAX_PATH_LEN \<or> strip_prefix ''/'' p = None \<or> \<not> printable \<or> \<not> query_free \<or> \<not> canonical
         then Err (InvalidRequest ''path'') else Ok ())"

definition validate_head :: "NodeRequestHead \<Rightarrow> str \<Rightarrow> NodeRequestError + unit" where
  "validate_head h peer_id =
     (let m = h_method h;
          method_ok = (m \<noteq> [] \<and> length m \<le> MAX_METHOD_LEN \<and> list_all is_ascii_uppercase m)
      in rbind (guard_err (\<not> method_ok) (InvalidRequest ''method'')) (\<lambda>_.
         rbind (validate_path (h_path h)) (\<lambda>_.
         rbind (validate_name (h_network_id h) ''network_id'') (\<lambda>_.
           guard_err (\<not> valid_peer_id peer_id) (InvalidRequest ''peer_id'')))))"

definition message_prefix :: "NodeRequestHead \<Rightarrow> bytes \<Rightarrow> bytes" where
  "message_prefix h body_hash =
     push_lp (push_lp (push_lp (push_lp NODE_REQUEST_DOMAIN (as_bytes (h_method h))) (as_bytes (h_path h))) body_hash)
       (as_bytes (h_network_id h))"

definition message_with_recipient :: "bytes \<Rightarrow> str \<Rightarrow> str \<Rightarrow> int \<Rightarrow> bytes \<Rightarrow> bytes" where
  "message_with_recipient prefix recipient peer_id ts nonce =
     push_lp (push_lp prefix (as_bytes recipient)) (as_bytes peer_id) @ u64_be (i64_of ts) @ nonce"

definition node_request_signing_message ::
  "crates \<Rightarrow> NodeRequestTarget \<Rightarrow> str \<Rightarrow> str \<Rightarrow> int \<Rightarrow> bytes \<Rightarrow> NodeRequestError + bytes" where
  "node_request_signing_message C target recipient peer_id ts nonce =
     rbind (validate_head (head_of_target target) peer_id) (\<lambda>_.
     rbind (validate_name recipient ''recipient'') (\<lambda>_.
       Ok (message_with_recipient (message_prefix (head_of_target target) (sha256 C (t_body target)))
             recipient peer_id ts nonce)))"

definition sign_node_request ::
  "crates \<Rightarrow> bytes \<Rightarrow> str \<Rightarrow> NodeRequestTarget \<Rightarrow> str \<Rightarrow> int \<Rightarrow> bytes \<Rightarrow> NodeRequestError + NodeRequestAuth" where
  "sign_node_request C k peer_id target recipient ts nonce =
     rbind (node_request_signing_message C target recipient peer_id ts nonce) (\<lambda>message.
       Ok \<lparr>a_peer_id = peer_id, a_public_key = verifying_key C k, a_timestamp = ts, a_nonce = nonce,
           a_body_hash = sha256 C (t_body target), a_signature = ed_sign C k message\<rparr>)"

definition encode_node_request_header :: "crates \<Rightarrow> NodeRequestAuth \<Rightarrow> str" where
  "encode_node_request_header C a =
     ''v1; peer='' @ a_peer_id a @ ''; key='' @ hex_encode C (a_public_key a) @ ''; ts='' @ dec_int_str (a_timestamp a) @
     ''; nonce='' @ hex_encode C (a_nonce a) @ ''; bh='' @ hex_encode C (a_body_hash a) @
     ''; sig='' @ hex_encode C (a_signature a)"

definition lower_hex :: "crates \<Rightarrow> nat \<Rightarrow> str \<Rightarrow> str \<Rightarrow> NodeRequestError + bytes" where
  "lower_hex C n v what =
     (if length v \<noteq> n * 2 \<or> \<not> list_all is_lower_hex v then Err (Malformed what)
      else ok_or (Malformed what) (hex_decode C v))"

text \<open>\<open>str::split("; ")\<close>\<close>

fun split_semi :: "str \<Rightarrow> str list" where
  "split_semi [] = [[]]"
| "split_semi [c] = [[c]]"
| "split_semi (c # d # cs) =
     (if c = CHR '';'' \<and> d = CHR '' '' then [] # split_semi cs
      else (case split_semi (d # cs) of p # ps \<Rightarrow> (c # p) # ps | [] \<Rightarrow> [[c]]))"

text \<open>The closure \<open>next\<close>: the next part without its prefix, and the parts after it.\<close>

definition next_field :: "str \<Rightarrow> str list \<Rightarrow> NodeRequestError + str \<times> str list" where
  "next_field prefix parts = (case parts of
     [] \<Rightarrow> Err (Malformed ''field order'')
   | p # ps \<Rightarrow> (case strip_prefix prefix p of
       None \<Rightarrow> Err (Malformed ''field order'') | Some v \<Rightarrow> Ok (v, ps)))"

definition parse_i64_digits :: "str \<Rightarrow> NodeRequestError + int" where
  "parse_i64_digits ts = (if radix_val 10 ts < 2 ^ 63 then Ok (int (radix_val 10 ts)) else Err (Malformed ''ts''))"

definition parse_node_request_header :: "crates \<Rightarrow> str \<Rightarrow> NodeRequestError + NodeRequestAuth" where
  "parse_node_request_header C header =
     (if length header > NODE_REQUEST_MAX_HEADER_LEN then Err (Malformed ''too long'')
      else if \<not> is_ascii header then Err (Malformed ''non-ascii'')
      else
        rbind (next_field ''v'' (split_semi header)) (\<lambda>(v, ps).
        rbind (guard_err (v \<noteq> ''1'') (Malformed ''version'')) (\<lambda>_.
        rbind (next_field ''peer='' ps) (\<lambda>(peer_id, ps).
        rbind (next_field ''key='' ps) (\<lambda>(key, ps).
        rbind (next_field ''ts='' ps) (\<lambda>(ts, ps).
        rbind (next_field ''nonce='' ps) (\<lambda>(nonce, ps).
        rbind (next_field ''bh='' ps) (\<lambda>(bh, ps).
        rbind (next_field ''sig='' ps) (\<lambda>(sig, ps).
        rbind (guard_err (ps \<noteq> []) (Malformed ''extra field'')) (\<lambda>_.
        rbind (guard_err (\<not> valid_peer_id peer_id) (Malformed ''peer'')) (\<lambda>_.
        rbind (guard_err (\<not> plain_decimal ts) (Malformed ''ts'')) (\<lambda>_.
        rbind (lower_hex C 32 key ''key'') (\<lambda>key.
        rbind (parse_i64_digits ts) (\<lambda>ts.
        rbind (lower_hex C 16 nonce ''nonce'') (\<lambda>nonce.
        rbind (lower_hex C 32 bh ''bh'') (\<lambda>bh.
        rbind (lower_hex C 64 sig ''sig'') (\<lambda>sig.
          Ok \<lparr>a_peer_id = peer_id, a_public_key = key, a_timestamp = ts, a_nonce = nonce,
              a_body_hash = bh, a_signature = sig\<rparr>)))))))))))))))))"

definition i64_saturate :: "int \<Rightarrow> int" where
  "i64_saturate x = max (- (2 ^ 63)) (min (2 ^ 63 - 1) x)"

fun validate_all :: "str list \<Rightarrow> NodeRequestError + unit" where
  "validate_all [] = Ok ()"
| "validate_all (r # rs) = rbind (validate_name r ''recipient'') (\<lambda>_. validate_all rs)"

definition verify_node_request_head ::
  "crates \<Rightarrow> NodeRequestAuth \<Rightarrow> NodeRequestHead \<Rightarrow> str list \<Rightarrow> int \<Rightarrow> int \<Rightarrow> NodeRequestError + unit" where
  "verify_node_request_head C a head recipients now max_skew =
     rbind (validate_head head (a_peer_id a)) (\<lambda>_.
     rbind (guard_err (recipients = []) (InvalidRequest ''recipients'')) (\<lambda>_.
     rbind (validate_all recipients) (\<lambda>_.
     rbind (guard_err (max_skew < 0) (InvalidRequest ''max_skew'')) (\<lambda>_.
     rbind (guard_err (a_timestamp a < i64_saturate (now - max_skew)) Stale) (\<lambda>_.
     rbind (guard_err (a_timestamp a > i64_saturate (now + max_skew)) Future) (\<lambda>_.
     rbind (guard_err (\<not> key_from_bytes_ok C (a_public_key a)) InvalidKey) (\<lambda>_.
       (let prefix = message_prefix head (a_body_hash a) in
        if list_ex (\<lambda>recipient. ed_verify_strict C (a_public_key a)
             (message_with_recipient prefix recipient (a_peer_id a) (a_timestamp a) (a_nonce a)) (a_signature a)) recipients
        then Ok () else Err BadSignature))))))))"

definition verify_node_request_body :: "crates \<Rightarrow> NodeRequestAuth \<Rightarrow> bytes \<Rightarrow> NodeRequestError + unit" where
  "verify_node_request_body C a body = (if sha256 C body = a_body_hash a then Ok () else Err BodyMismatch)"

definition verify_node_request ::
  "crates \<Rightarrow> NodeRequestAuth \<Rightarrow> NodeRequestTarget \<Rightarrow> str list \<Rightarrow> int \<Rightarrow> int \<Rightarrow> NodeRequestError + unit" where
  "verify_node_request C a target recipients now max_skew =
     rbind (verify_node_request_head C a (head_of_target target) recipients now max_skew) (\<lambda>_.
       verify_node_request_body C a (t_body target))"

definition verify_node_request_header_head ::
  "crates \<Rightarrow> str \<Rightarrow> NodeRequestHead \<Rightarrow> str list \<Rightarrow> int \<Rightarrow> int \<Rightarrow> NodeRequestError + NodeRequestAuth" where
  "verify_node_request_header_head C header head recipients now max_skew =
     rbind (parse_node_request_header C header) (\<lambda>a.
     rbind (verify_node_request_head C a head recipients now max_skew) (\<lambda>_. Ok a))"

definition verify_node_request_header ::
  "crates \<Rightarrow> str \<Rightarrow> NodeRequestTarget \<Rightarrow> str list \<Rightarrow> int \<Rightarrow> int \<Rightarrow> NodeRequestError + NodeRequestAuth" where
  "verify_node_request_header C header target recipients now max_skew =
     rbind (parse_node_request_header C header) (\<lambda>a.
     rbind (verify_node_request C a target recipients now max_skew) (\<lambda>_. Ok a))"

section \<open>Facts\<close>

definition wf_auth :: "NodeRequestAuth \<Rightarrow> bool" where
  "wf_auth a \<longleftrightarrow> valid_peer_id (a_peer_id a) \<and> length (a_public_key a) = 32 \<and> length (a_nonce a) = 16 \<and>
     length (a_body_hash a) = 32 \<and> length (a_signature a) = 64 \<and> 0 \<le> a_timestamp a \<and> a_timestamp a < 2 ^ 63"

lemma lower_hex_Ok:
  assumes "hex_ok C"
  shows "lower_hex C n v what = Ok b \<longleftrightarrow> length b = n \<and> v = hex_encode C b"
proof
  assume "lower_hex C n v what = Ok b"
  then have t: "length v = n * 2" "list_all is_lower_hex v" and d: "hex_decode C v = Some b"
    by (auto simp: lower_hex_def split: if_splits)
  obtain c where "hex_decode C v = Some c" "hex_encode C c = v" "2 * length c = length v"
    by (rule hex_decode_lower [OF assms t(2)]) (use t(1) in simp)+
  with d t(1) show "length b = n \<and> v = hex_encode C b" by simp
next
  assume "length b = n \<and> v = hex_encode C b"
  then show "lower_hex C n v what = Ok b"
    using assms by (simp add: lower_hex_def length_hex_encode hex_encode_lower hex_roundtrip)
qed

lemma split_semi_part: "CHR '';'' \<notin> set a \<Longrightarrow> split_semi a = [a]"
  by (induction a rule: split_semi.induct) auto

lemma split_semi_append: "CHR '';'' \<notin> set a \<Longrightarrow> split_semi (a @ CHR '';'' # CHR '' '' # b) = a # split_semi b"
proof (induction a rule: split_semi.induct)
  case (3 c d cs)
  then have "split_semi ((d # cs) @ CHR '';'' # CHR '' '' # b) = (d # cs) # split_semi b" by auto
  with 3 show ?case by auto
qed auto

fun join_semi :: "str list \<Rightarrow> str" where
  "join_semi [] = []"
| "join_semi [p] = p"
| "join_semi (p # ps) = p @ ''; '' @ join_semi ps"

lemma split_semi_nonempty: "split_semi s \<noteq> []"
  by (induction s rule: split_semi.induct) (auto split: list.splits)

lemma join_split_semi: "join_semi (split_semi s) = s"
proof (induction s rule: split_semi.induct)
  case (3 c d cs)
  show ?case
  proof (cases "c = CHR '';'' \<and> d = CHR '' ''")
    case True
    obtain p ps where "split_semi cs = p # ps" using split_semi_nonempty [of cs] by (cases "split_semi cs") auto
    with True 3(1) show ?thesis by simp
  next
    case False
    obtain p ps where ps: "split_semi (d # cs) = p # ps" using split_semi_nonempty [of "d # cs"] by (cases "split_semi (d # cs)") auto
    have "join_semi (p # ps) = d # cs" using 3(2) [OF False] ps by simp
    then have "join_semi ((c # p) # ps) = c # d # cs" by (cases ps) simp_all
    with False ps show ?thesis by auto
  qed
qed simp_all

lemma strip_prefix_append [simp]: "strip_prefix p (p @ v) = Some v"
  by (simp add: strip_prefix_Some)

lemma next_field_Ok: "next_field prefix parts = Ok (v, ps) \<longleftrightarrow> parts = (prefix @ v) # ps"
  by (auto simp: next_field_def strip_prefix_Some split: list.splits option.splits)

lemma push_lp_eq: "push_lp out bs = out @ lp bs"
  by (simp add: push_lp_def lp_def)

lemma alnum_no_semi: "list_all is_ascii_alphanumeric p \<Longrightarrow> CHR '';'' \<notin> set p"
  by (auto simp: list_all_iff is_ascii_alphanumeric_def is_ascii_digit_def is_ascii_lowercase_def is_ascii_uppercase_def)

lemma hex_no_semi: "list_all is_lower_hex p \<Longrightarrow> CHR '';'' \<notin> set p"
  by (auto simp: list_all_iff is_lower_hex_def is_ascii_digit_def)

lemma dec_no_semi: "CHR '';'' \<notin> set (radix_str 10 n)"
  using dec_facts [of n] by (auto simp: list_all_iff is_ascii_digit_def)

lemma dec_is_ascii: "c \<in> set (radix_str 10 n) \<Longrightarrow> ord c < 128"
  using dec_facts [of n] by (auto simp: list_all_iff is_ascii_digit_def)

lemma header_parts:
  assumes "hex_ok C" and "wf_auth a"
  shows "split_semi (encode_node_request_header C a) =
    [''v1'', ''peer='' @ a_peer_id a, ''key='' @ hex_encode C (a_public_key a), ''ts='' @ radix_str 10 (nat (a_timestamp a)),
     ''nonce='' @ hex_encode C (a_nonce a), ''bh='' @ hex_encode C (a_body_hash a), ''sig='' @ hex_encode C (a_signature a)]"
proof -
  have no: "CHR '';'' \<notin> set (a_peer_id a)" "CHR '';'' \<notin> set (hex_encode C x)" for x
    using assms(2) alnum_no_semi hex_no_semi [OF hex_encode_lower [OF assms(1)]]
    by (simp_all add: wf_auth_def valid_peer_id_def)
  have eq: "encode_node_request_header C a =
    ''v1'' @ CHR '';'' # CHR '' '' # (''peer='' @ a_peer_id a) @ CHR '';'' # CHR '' '' #
    (''key='' @ hex_encode C (a_public_key a)) @ CHR '';'' # CHR '' '' # (''ts='' @ radix_str 10 (nat (a_timestamp a))) @
    CHR '';'' # CHR '' '' # (''nonce='' @ hex_encode C (a_nonce a)) @ CHR '';'' # CHR '' '' #
    (''bh='' @ hex_encode C (a_body_hash a)) @ CHR '';'' # CHR '' '' # (''sig='' @ hex_encode C (a_signature a))"
    using assms(2) by (simp add: encode_node_request_header_def dec_int_str_def wf_auth_def)
  show ?thesis
    unfolding eq by (subst split_semi_append split_semi_part, simp add: no dec_no_semi)+ simp
qed

lemma header_bounds:
  assumes "hex_ok C" and "wf_auth a"
  shows "length (encode_node_request_header C a) \<le> 512" and "is_ascii (encode_node_request_header C a)"
proof -
  have "nat (a_timestamp a) < 10 ^ Suc 18" using assms(2) by (simp add: wf_auth_def nat_less_iff)
  then have "length (radix_str 10 (nat (a_timestamp a))) \<le> 19" using dec_length [of _ 18] by simp
  then show "length (encode_node_request_header C a) \<le> 512"
    using assms by (simp add: encode_node_request_header_def dec_int_str_def wf_auth_def length_hex_encode
        valid_peer_id_def MAX_PEER_ID_LEN_def)
  have hex: "ord c < 128" if "c \<in> set (hex_encode C x)" for c x
    using hex_encode_lower [OF assms(1), of x] that by (auto simp: list_all_iff is_lower_hex_def is_ascii_digit_def)
  have peer: "ord c < 128" if "c \<in> set (a_peer_id a)" for c
    using assms(2) that by (auto simp: wf_auth_def valid_peer_id_def list_all_iff is_ascii_alphanumeric_def
        is_ascii_digit_def is_ascii_lowercase_def is_ascii_uppercase_def)
  show "is_ascii (encode_node_request_header C a)"
    using assms(2) hex peer dec_is_ascii
    by (auto simp: is_ascii_def encode_node_request_header_def dec_int_str_def wf_auth_def)
qed

lemma header_roundtrip:
  assumes "hex_ok C" and "wf_auth a"
  shows "parse_node_request_header C (encode_node_request_header C a) = Ok a"
proof -
  have hx: "lower_hex C (length b) (hex_encode C b) what = Ok b" for b what by (simp add: lower_hex_Ok [OF assms(1)])
  have ts: "parse_i64_digits (radix_str 10 (nat (a_timestamp a))) = Ok (a_timestamp a)"
    using assms(2) dec_facts [of "nat (a_timestamp a)"] by (simp add: parse_i64_digits_def wf_auth_def nat_less_iff)
  show ?thesis
    using header_bounds [OF assms] assms(2) hx [of "a_public_key a"] hx [of "a_nonce a"] hx [of "a_body_hash a"]
      hx [of "a_signature a"]
    by (simp add: parse_node_request_header_def NODE_REQUEST_MAX_HEADER_LEN_def header_parts [OF assms] next_field_def ts
        plain_decimal_str wf_auth_def)
qed

lemma header_canonical:
  assumes "hex_ok C" and "parse_node_request_header C header = Ok a"
  shows "wf_auth a \<and> header = encode_node_request_header C a"
proof -
  from assms(2) obtain peer key ts nonce bh sig where
    parts: "split_semi header = [''v'' @ ''1'', ''peer='' @ peer, ''key='' @ key, ''ts='' @ ts, ''nonce='' @ nonce,
      ''bh='' @ bh, ''sig='' @ sig]"
    and p: "valid_peer_id peer" "plain_decimal ts" "lower_hex C 32 key ''key'' = Ok (a_public_key a)"
      "parse_i64_digits ts = Ok (a_timestamp a)" "lower_hex C 16 nonce ''nonce'' = Ok (a_nonce a)"
      "lower_hex C 32 bh ''bh'' = Ok (a_body_hash a)" "lower_hex C 64 sig ''sig'' = Ok (a_signature a)"
      "a_peer_id a = peer"
    by (auto simp: parse_node_request_header_def rbind_eq_Inr next_field_Ok split: if_splits)
  have ts: "a_timestamp a = int (radix_val 10 ts)" "radix_val 10 ts < 2 ^ 63"
    using p(4) by (auto simp: parse_i64_digits_def split: if_splits)
  have "dec_int_str (a_timestamp a) = ts" using dec_str_val [OF p(2)] by (simp add: ts dec_int_str_def)
  moreover have "header = join_semi (split_semi header)" by (simp add: join_split_semi)
  ultimately have "header = encode_node_request_header C a"
    unfolding parts using p lower_hex_Ok [OF assms(1)] by (simp add: encode_node_request_header_def)
  moreover have "wf_auth a" using p ts lower_hex_Ok [OF assms(1)] by (simp add: wf_auth_def)
  ultimately show ?thesis by simp
qed

text \<open>The names and lengths that pass validation fit their length prefixes.\<close>

lemma validate_head_Ok:
  "validate_head h p = Ok u \<longleftrightarrow>
     h_method h \<noteq> [] \<and> length (h_method h) \<le> 16 \<and> list_all is_ascii_uppercase (h_method h) \<and>
     validate_path (h_path h) = Ok () \<and> validate_name (h_network_id h) ''network_id'' = Ok () \<and> valid_peer_id p"
  by (auto simp: validate_head_def rbind_eq_Inr Let_def MAX_METHOD_LEN_def)

lemma validated_lengths:
  assumes "validate_head h p = Ok u" and "validate_name r what = Ok v"
  shows "fits (h_method h)" "fits (h_path h)" "fits (h_network_id h)" "fits p" "fits r"
  using assms unfolding validate_head_Ok
  by (auto simp: validate_path_def validate_name_def valid_peer_id_def Let_def MAX_PATH_LEN_def MAX_NAME_LEN_def
      MAX_PEER_ID_LEN_def split: if_splits)

lemma message_eq:
  "message_with_recipient (message_prefix h bh) r p ts nonce =
     NODE_REQUEST_DOMAIN @ lp (as_bytes (h_method h)) @ lp (as_bytes (h_path h)) @ lp bh @
     lp (as_bytes (h_network_id h)) @ lp (as_bytes r) @ lp (as_bytes p) @ u64_be (i64_of ts) @ raw nonce"
  by (simp add: message_with_recipient_def message_prefix_def push_lp_eq raw_def)

lemma i64_of_inject:
  assumes "- (2 ^ 63) \<le> x" "x < 2 ^ 63" "- (2 ^ 63) \<le> y" "y < 2 ^ 63"
  shows "i64_of x = i64_of y \<longleftrightarrow> x = y"
proof
  assume "i64_of x = i64_of y"
  then have "sint (word_of_int x :: i64) = sint (word_of_int y :: i64)" by (simp add: i64_of_def)
  with assms show "x = y" by (simp add: int_word_sint)
qed simp

lemma node_message_inject:
  assumes "validate_head h p = Ok u" "validate_head h' p' = Ok u'" "validate_name r w = Ok v" "validate_name r' w' = Ok v'"
    and "length bh = 32" "length bh' = 32" "length nonce = 16" "length nonce' = 16"
    and "- (2 ^ 63) \<le> ts" "ts < 2 ^ 63" "- (2 ^ 63) \<le> ts'" "ts' < 2 ^ 63"
    and "message_with_recipient (message_prefix h bh) r p ts nonce =
         message_with_recipient (message_prefix h' bh') r' p' ts' nonce'"
  shows "h = h' \<and> bh = bh' \<and> r = r' \<and> p = p' \<and> ts = ts' \<and> nonce = nonce'"
proof -
  note fit = validated_lengths [OF assms(1,3)] validated_lengths [OF assms(2,4)]
  have "lp (as_bytes (h_method h)) @ lp (as_bytes (h_path h)) @ lp bh @ lp (as_bytes (h_network_id h)) @
      lp (as_bytes r) @ lp (as_bytes p) @ u64_be (i64_of ts) @ raw nonce =
    lp (as_bytes (h_method h')) @ lp (as_bytes (h_path h')) @ lp bh' @ lp (as_bytes (h_network_id h')) @
      lp (as_bytes r') @ lp (as_bytes p') @ u64_be (i64_of ts') @ raw nonce'"
    using assms(13) unfolding message_eq by (simp only: append_same_eq same_append_eq)
  then have "h_method h = h_method h' \<and> h_path h = h_path h' \<and> bh = bh' \<and> h_network_id h = h_network_id h' \<and>
      r = r' \<and> p = p' \<and> i64_of ts = i64_of ts' \<and> nonce = nonce'"
    using fit assms(5-8) by (simp add: layout_eqs lp_code.enc_eq)
  then show ?thesis using i64_of_inject [OF assms(9-12)] by (simp add: NodeRequestHead.equality)
qed

lemma validate_all_Ok: "validate_all rs = Ok u \<longleftrightarrow> (\<forall>r\<in>set rs. validate_name r ''recipient'' = Ok ())"
  by (induction rs) (auto simp: rbind_eq_Inr)

section \<open>Properties\<close>

text \<open>The header has exactly one form: a header parses to a credential precisely when the
  credential's fields are in range and the header is its encoding; every such encoding is ASCII and
  within the length cap.\<close>

theorem node_header_parse_print:
  assumes "hex_ok C"
  shows "parse_node_request_header C header = Ok a \<longleftrightarrow> wf_auth a \<and> header = encode_node_request_header C a"
  using header_roundtrip [OF assms] header_canonical [OF assms] by blast

text \<open>Witness: a concrete credential.\<close>

definition demo_auth :: NodeRequestAuth where
  "demo_auth = \<lparr>a_peer_id = ''12D3KooW'', a_public_key = replicate 32 1, a_timestamp = 1700000000,
     a_nonce = replicate 16 2, a_body_hash = replicate 32 3, a_signature = replicate 64 4\<rparr>"

theorem node_header_parse_print_witness:
  "parse_node_request_header demo_crates (encode_node_request_header demo_crates demo_auth) = Ok demo_auth"
proof -
  have "wf_auth demo_auth" by code_simp
  then show ?thesis using node_header_parse_print [OF demo_hex_ok, of "encode_node_request_header demo_crates demo_auth" demo_auth]
    by simp
qed

lemma signed_request_checks:
  assumes "hex_ok C" and "sha256_ok C" and "sig_ok C" and "\<not> key_is_weak C (verifying_key C k)"
    and "sign_node_request C k peer target recipient ts nonce = Ok a" and "length nonce = 16"
    and "0 \<le> ts" and "ts < 2 ^ 63" and "recipient \<in> set recipients"
    and "\<forall>r\<in>set recipients. validate_name r ''recipient'' = Ok ()" and "0 \<le> skew"
    and "- (2 ^ 63) \<le> now - skew" and "now + skew < 2 ^ 63"
  shows "parse_node_request_header C (encode_node_request_header C a) = Ok a"
    and "a = \<lparr>a_peer_id = peer, a_public_key = verifying_key C k, a_timestamp = ts, a_nonce = nonce,
      a_body_hash = sha256 C (t_body target), a_signature = a_signature a\<rparr>"
    and "verify_node_request_head C a (head_of_target target) recipients now skew =
      (if ts < now - skew then Err Stale else if ts > now + skew then Err Future else Ok ())"
proof -
  from assms(5) obtain m where m: "node_request_signing_message C target recipient peer ts nonce = Ok m"
    and a: "a = \<lparr>a_peer_id = peer, a_public_key = verifying_key C k, a_timestamp = ts, a_nonce = nonce,
           a_body_hash = sha256 C (t_body target), a_signature = ed_sign C k m\<rparr>"
    by (auto simp: sign_node_request_def rbind_eq_Inr)
  have head: "validate_head (head_of_target target) peer = Ok ()"
    and msg: "m = message_with_recipient (message_prefix (head_of_target target) (sha256 C (t_body target))) recipient peer ts nonce"
    using m by (auto simp: node_request_signing_message_def rbind_eq_Inr)
  have wf: "wf_auth a"
    using head assms(2,3,6-8) by (simp add: wf_auth_def a validate_head_Ok sig_ok_def sha256_len)
  have key: "key_from_bytes_ok C (verifying_key C k)" and good: "ed_verify_strict C (verifying_key C k) m (ed_sign C k m)"
    using assms(3,4) by (simp_all add: sig_ok_def)
  have any: "list_ex (\<lambda>r. ed_verify_strict C (a_public_key a)
      (message_with_recipient (message_prefix (head_of_target target) (a_body_hash a)) r (a_peer_id a) (a_timestamp a) (a_nonce a))
      (a_signature a)) recipients"
    using good msg assms(9) by (auto simp: list_ex_iff a)
  have ne: "recipients \<noteq> []" and all: "validate_all recipients = Ok ()"
    using assms(9,10) by (auto simp: validate_all_Ok)
  have sat: "i64_saturate (now - skew) = now - skew" "i64_saturate (now + skew) = now + skew"
    using assms(11-13) by (auto simp: i64_saturate_def)
  show "verify_node_request_head C a (head_of_target target) recipients now skew =
      (if ts < now - skew then Err Stale else if ts > now + skew then Err Future else Ok ())"
    using head ne all assms(11) key any by (simp add: verify_node_request_head_def Let_def sat a)
  show "parse_node_request_header C (encode_node_request_header C a) = Ok a" by (rule header_roundtrip [OF assms(1) wf])
  show "a = \<lparr>a_peer_id = peer, a_public_key = verifying_key C k, a_timestamp = ts, a_nonce = nonce,
      a_body_hash = sha256 C (t_body target), a_signature = a_signature a\<rparr>" by (simp add: a)
qed

text \<open>A request signed for one of the receiver's names is accepted within the clock window, from
  the header text on: signing, encoding, parsing and verifying succeed end to end, and the same
  credential is refused as stale or future outside the window.\<close>

theorem signed_node_request_accepted:
  assumes "hex_ok C" and "sha256_ok C" and "sig_ok C" and "\<not> key_is_weak C (verifying_key C k)"
    and "sign_node_request C k peer target recipient ts nonce = Ok a" and "length nonce = 16"
    and "0 \<le> ts" and "ts < 2 ^ 63" and "recipient \<in> set recipients"
    and "\<forall>r\<in>set recipients. validate_name r ''recipient'' = Ok ()" and "0 \<le> skew"
    and "- (2 ^ 63) \<le> now - skew" and "now + skew < 2 ^ 63"
  shows "verify_node_request_header C (encode_node_request_header C a) target recipients now skew =
    (if ts < now - skew then Err Stale else if ts > now + skew then Err Future else Ok a)"
proof -
  note ok = signed_request_checks [OF assms]
  have "verify_node_request_body C a (t_body target) = Ok ()" by (subst ok(2)) (simp add: verify_node_request_body_def)
  with ok(1,3) show ?thesis by (simp add: verify_node_request_header_def verify_node_request_def)
qed

text \<open>Witness: a request to a node known under two names, verified two seconds later and, again, after an hour.\<close>

definition demo_target :: NodeRequestTarget where
  "demo_target = \<lparr>h_method = ''POST'', h_path = ''/sync'', h_network_id = ''testnet'', t_body = [1, 2]\<rparr>"

definition demo_signing_key :: bytes where "demo_signing_key = replicate 32 1"

definition demo_nonce :: bytes where "demo_nonce = replicate 16 2"

lemma demo_request_message:
  "\<exists>m. node_request_signing_message demo_crates demo_target ''node-b'' ''12D3KooW'' 1000 demo_nonce = Ok m"
proof -
  have "validate_head (head_of_target demo_target) ''12D3KooW'' = Ok ()" by code_simp
  moreover have "validate_name ''node-b'' ''recipient'' = Ok ()" by code_simp
  ultimately show ?thesis by (simp add: node_request_signing_message_def)
qed

theorem signed_node_request_accepted_witness:
  "\<exists>a. sign_node_request demo_crates demo_signing_key ''12D3KooW'' demo_target ''node-b'' 1000 demo_nonce = Ok a \<and>
     verify_node_request_header demo_crates (encode_node_request_header demo_crates a) demo_target
       [''node-a'', ''node-b''] 1002 30 = Ok a \<and>
     verify_node_request_header demo_crates (encode_node_request_header demo_crates a) demo_target
       [''node-a'', ''node-b''] 4600 30 = Err Stale"
proof -
  have k: "\<not> key_is_weak demo_crates (verifying_key demo_crates demo_signing_key)"
    by (simp add: demo_crates_def demo_signing_key_def pad32_def)
  obtain a where a: "sign_node_request demo_crates demo_signing_key ''12D3KooW'' demo_target ''node-b'' 1000 demo_nonce = Ok a"
    using demo_request_message by (auto simp: sign_node_request_def)
  have n: "length demo_nonce = 16" by (simp add: demo_nonce_def)
  have r: "\<forall>r\<in>set [''node-a'', ''node-b'']. validate_name r ''recipient'' = Ok ()"
    by (simp add: validate_name_def MAX_NAME_LEN_def)
  note acc = signed_node_request_accepted [OF demo_hex_ok demo_sha256_ok demo_sig_ok k a n _ _ _ r]
  show ?thesis using a acc [of 30 1002] acc [of 30 4600] by (intro exI [of _ a]) simp
qed

text \<open>What the signature binds: two valid requests with the same signed bytes have the same
  method, path, network, body hash, recipient, peer, timestamp and nonce, so a captured header is
  useless on another route, body, network or recipient.\<close>

theorem node_request_message_binds:
  assumes "sha256_ok C" and "length nonce = 16" and "length nonce' = 16"
    and "- (2 ^ 63) \<le> ts" "ts < 2 ^ 63" "- (2 ^ 63) \<le> ts'" "ts' < 2 ^ 63"
    and "node_request_signing_message C target r p ts nonce = Ok m"
    and "node_request_signing_message C target' r' p' ts' nonce' = Ok m"
  shows "head_of_target target = head_of_target target' \<and> sha256 C (t_body target) = sha256 C (t_body target') \<and>
    r = r' \<and> p = p' \<and> ts = ts' \<and> nonce = nonce'"
  using assms node_message_inject [of "head_of_target target" p _ "head_of_target target'" p' _ r _ _ r' _ _
      "sha256 C (t_body target)" "sha256 C (t_body target')" nonce nonce' ts ts']
  by (auto simp: node_request_signing_message_def rbind_eq_Inr sha256_len)

text \<open>Witness: no other recipient has the bytes of a concrete request.\<close>

theorem node_request_message_binds_witness:
  "\<exists>m. node_request_signing_message demo_crates demo_target ''node-b'' ''12D3KooW'' 1000 demo_nonce = Ok m \<and>
     {r. node_request_signing_message demo_crates demo_target r ''12D3KooW'' 1000 demo_nonce = Ok m} = {''node-b''}"
proof -
  obtain m where m: "node_request_signing_message demo_crates demo_target ''node-b'' ''12D3KooW'' 1000 demo_nonce = Ok m"
    using demo_request_message by blast
  have n: "length demo_nonce = 16" by (simp add: demo_nonce_def)
  have "r = ''node-b''" if "node_request_signing_message demo_crates demo_target r ''12D3KooW'' 1000 demo_nonce = Ok m" for r
    using node_request_message_binds [OF demo_sha256_ok n n _ _ _ _ that m] by simp
  with m show ?thesis by blast
qed

end
