(* ===== verification/Vocabulary.thy ===== *)
theory Vocabulary
  imports Rust_Str
begin

text \<open>
  Models of \<open>crates/protocol/src/permissions.rs\<close>, \<open>crates/protocol/src/revocation.rs\<close> and
  \<open>crates/protocol/src/integrators.rs\<close>: the durable vocabularies with their wire strings, permission
  grants, and the point-in-time validity of issuer keys. A \<open>match\<close> on string literals is a lookup in
  the table of its arms; a \<open>Uuid\<close> is its 16 bytes.
\<close>

section \<open>Capabilities and grants\<close>

datatype Capability =
    IdentityRead | ProfileRead | FriendsRead | PresenceRead | PresencePublish | GuildsRead |
    GuildsChat | GuildsIssue | AchievementsRead | AchievementsIssue | MilestonesIssue |
    AssetsRead | AssetsIssue | WalletRead | WalletWrite | MessagesRead | MessagesSend |
    CapOther str

definition cap_KNOWN :: "Capability list" where
  "cap_KNOWN = [
     IdentityRead, ProfileRead, FriendsRead, PresenceRead, PresencePublish, GuildsRead,
     GuildsChat, GuildsIssue, AchievementsRead, AchievementsIssue, MilestonesIssue, AssetsRead,
     AssetsIssue, WalletRead, WalletWrite, MessagesRead, MessagesSend]"

fun cap_as_str :: "Capability \<Rightarrow> str" where
  "cap_as_str IdentityRead = ''identity.read''"
| "cap_as_str ProfileRead = ''profile.read''"
| "cap_as_str FriendsRead = ''friends.read''"
| "cap_as_str PresenceRead = ''presence.read''"
| "cap_as_str PresencePublish = ''presence.publish''"
| "cap_as_str GuildsRead = ''guilds.read''"
| "cap_as_str GuildsChat = ''guilds.chat''"
| "cap_as_str GuildsIssue = ''guilds.issue''"
| "cap_as_str AchievementsRead = ''achievements.read''"
| "cap_as_str AchievementsIssue = ''achievements.issue''"
| "cap_as_str MilestonesIssue = ''milestones.issue''"
| "cap_as_str AssetsRead = ''assets.read''"
| "cap_as_str AssetsIssue = ''assets.issue''"
| "cap_as_str WalletRead = ''wallet.read''"
| "cap_as_str WalletWrite = ''wallet.write''"
| "cap_as_str MessagesRead = ''messages.read''"
| "cap_as_str MessagesSend = ''messages.send''"
| "cap_as_str (CapOther s) = s"

definition cap_table :: "(str \<times> Capability) list" where
  "cap_table = [
     (''identity.read'', IdentityRead), (''profile.read'', ProfileRead),
     (''friends.read'', FriendsRead), (''presence.read'', PresenceRead),
     (''presence.publish'', PresencePublish), (''guilds.read'', GuildsRead),
     (''guilds.chat'', GuildsChat), (''guilds.issue'', GuildsIssue),
     (''achievements.read'', AchievementsRead), (''achievements.issue'', AchievementsIssue),
     (''milestones.issue'', MilestonesIssue), (''assets.read'', AssetsRead),
     (''assets.issue'', AssetsIssue), (''wallet.read'', WalletRead),
     (''wallet.write'', WalletWrite), (''messages.read'', MessagesRead),
     (''messages.send'', MessagesSend)]"

definition cap_from_str :: "str \<Rightarrow> Capability" where
  "cap_from_str s = (case map_of cap_table s of Some c \<Rightarrow> c | None \<Rightarrow> CapOther s)"

record PermissionGrant =
  pg_identity_id :: bytes
  pg_integrator_id :: bytes
  pg_capability :: Capability
  pg_granted_at :: time
  pg_revoked_at :: "time option"

definition grant_is_active :: "PermissionGrant \<Rightarrow> time \<Rightarrow> bool" where
  "grant_is_active g now = (case pg_revoked_at g of Some revoked \<Rightarrow> revoked > now | None \<Rightarrow> True)"

section \<open>Visibility\<close>

datatype Visibility = Public | AuthenticatedOnly | Friends | GuildMembers | Private

fun visibility_as_str :: "Visibility \<Rightarrow> str" where
  "visibility_as_str Public = ''public''"
| "visibility_as_str AuthenticatedOnly = ''authenticated_only''"
| "visibility_as_str Friends = ''friends''"
| "visibility_as_str GuildMembers = ''guild_members''"
| "visibility_as_str Private = ''private''"

definition visibility_from_str :: "str \<Rightarrow> Visibility option" where
  "visibility_from_str s = map_of [(''public'', Public), (''authenticated_only'', AuthenticatedOnly), (''friends'', Friends), (''guild_members'', GuildMembers), (''private'', Private)] s"

section \<open>Revocation reasons\<close>

datatype RevocationReasonCodeVariant = Cheating | Mistake | Duplicate | PolicyChange

fun reason_variant_as_str :: "RevocationReasonCodeVariant \<Rightarrow> str" where
  "reason_variant_as_str Cheating = ''cheating''"
| "reason_variant_as_str Mistake = ''mistake''"
| "reason_variant_as_str Duplicate = ''duplicate''"
| "reason_variant_as_str PolicyChange = ''policy_change''"

definition reason_KNOWN :: "RevocationReasonCodeVariant list" where
  "reason_KNOWN = [Cheating, Mistake, Duplicate, PolicyChange]"

definition variant_hides :: "RevocationReasonCodeVariant \<Rightarrow> bool" where
  "variant_hides v \<longleftrightarrow> v = Mistake \<or> v = Duplicate"

datatype RevocationReasonCode = KnownReason RevocationReasonCodeVariant | OtherReason str

fun reason_as_str :: "RevocationReasonCode \<Rightarrow> str" where
  "reason_as_str (KnownReason v) = reason_variant_as_str v"
| "reason_as_str (OtherReason s) = s"

fun hides_after_revocation :: "RevocationReasonCode \<Rightarrow> bool" where
  "hides_after_revocation (KnownReason v) = variant_hides v"
| "hides_after_revocation (OtherReason s) = False"

definition reason_from_str :: "str \<Rightarrow> RevocationReasonCode" where
  "reason_from_str s = (case find (\<lambda>known. reason_variant_as_str known = s) reason_KNOWN of
     Some known \<Rightarrow> KnownReason known | None \<Rightarrow> OtherReason s)"

section \<open>Integrators and their keys\<close>

datatype IntegratorStatus = IActive | ISuspended | IRevoked | IDeprecated

fun status_as_str :: "IntegratorStatus \<Rightarrow> str" where
  "status_as_str IActive = ''active''"
| "status_as_str ISuspended = ''suspended''"
| "status_as_str IRevoked = ''revoked''"
| "status_as_str IDeprecated = ''deprecated''"

definition status_parse :: "str \<Rightarrow> IntegratorStatus option" where
  "status_parse s = map_of [(''active'', IActive), (''suspended'', ISuspended), (''revoked'', IRevoked), (''deprecated'', IDeprecated)] s"

datatype KeyRole = Root | Operational

fun role_as_str :: "KeyRole \<Rightarrow> str" where
  "role_as_str Root = ''root''"
| "role_as_str Operational = ''operational''"

definition role_parse :: "str \<Rightarrow> KeyRole option" where
  "role_parse s = map_of [(''root'', Root), (''operational'', Operational)] s"

datatype KeyPurpose = Attestation | ShardSettlement

fun purpose_as_str :: "KeyPurpose \<Rightarrow> str" where
  "purpose_as_str Attestation = ''attestation''"
| "purpose_as_str ShardSettlement = ''shard_settlement''"

definition purpose_parse :: "str \<Rightarrow> KeyPurpose option" where
  "purpose_parse s = map_of [(''attestation'', Attestation), (''shard_settlement'', ShardSettlement)] s"

datatype IntegratorCategory = CatGame | CatApp | CatService

fun category_as_str :: "IntegratorCategory \<Rightarrow> str" where
  "category_as_str CatGame = ''game''"
| "category_as_str CatApp = ''app''"
| "category_as_str CatService = ''service''"

definition category_parse :: "str \<Rightarrow> IntegratorCategory option" where
  "category_parse s = map_of [(''game'', CatGame), (''app'', CatApp), (''service'', CatService)] s"

definition category_claim_kind :: "IntegratorCategory \<Rightarrow> str" where
  "category_claim_kind c = (case c of CatGame \<Rightarrow> ''achievement'' | CatApp \<Rightarrow> ''milestone'' | CatService \<Rightarrow> ''milestone'')"

record IssuerKey =
  key_id :: bytes
  algorithm :: str
  public_key :: bytes
  role :: KeyRole
  purpose :: KeyPurpose
  valid_from :: time
  valid_until :: "time option"
  revoked_at :: "time option"

definition is_valid_at :: "IssuerKey \<Rightarrow> time \<Rightarrow> bool" where
  "is_valid_at k at_time =
     (if at_time < valid_from k then False
      else if (case revoked_at k of Some r \<Rightarrow> at_time \<ge> r | None \<Rightarrow> False) then False
      else if (case valid_until k of Some u \<Rightarrow> at_time \<ge> u | None \<Rightarrow> False) then False
      else True)"

definition authorizes_key_changes :: "IssuerKey \<Rightarrow> bool" where
  "authorizes_key_changes k \<longleftrightarrow> role k = Root"

definition may_sign_attestations :: "IssuerKey \<Rightarrow> bool" where
  "may_sign_attestations k \<longleftrightarrow> purpose k = Attestation"

definition may_sign_shard_settlement :: "IssuerKey \<Rightarrow> bool" where
  "may_sign_shard_settlement k \<longleftrightarrow> purpose k = ShardSettlement"

definition resolve_valid_signing_key :: "IssuerKey list \<Rightarrow> bytes \<Rightarrow> time \<Rightarrow> IssuerKey option" where
  "resolve_valid_signing_key keys kid at_time =
     find (\<lambda>k. key_id k = kid \<and> is_valid_at k at_time \<and> may_sign_attestations k) keys"

definition resolve_valid_root_key :: "IssuerKey list \<Rightarrow> bytes \<Rightarrow> time \<Rightarrow> IssuerKey option" where
  "resolve_valid_root_key keys kid at_time =
     find (\<lambda>k. key_id k = kid \<and> is_valid_at k at_time \<and> authorizes_key_changes k) keys"

record IntegratorBinding =
  bind_identity_id :: bytes
  bind_integrator_id :: bytes
  established_at :: time
  ended_at :: "time option"

definition binding_is_active :: "IntegratorBinding \<Rightarrow> bool" where
  "binding_is_active b \<longleftrightarrow> ended_at b = None"

section \<open>Facts\<close>

interpretation visibilities: wire_enum visibility_as_str visibility_from_str
proof (unfold visibility_from_str_def, rule wire_enum_table, goal_cases)
  case (1 v)
  show ?case by (cases v) simp_all
qed simp_all

interpretation statuses: wire_enum status_as_str status_parse
proof (unfold status_parse_def, rule wire_enum_table, goal_cases)
  case (1 v)
  show ?case by (cases v) simp_all
qed simp_all

interpretation roles: wire_enum role_as_str role_parse
proof (unfold role_parse_def, rule wire_enum_table, goal_cases)
  case (1 v)
  show ?case by (cases v) simp_all
qed simp_all

interpretation purposes: wire_enum purpose_as_str purpose_parse
proof (unfold purpose_parse_def, rule wire_enum_table, goal_cases)
  case (1 v)
  show ?case by (cases v) simp_all
qed simp_all

interpretation categories: wire_enum category_as_str category_parse
proof (unfold category_parse_def, rule wire_enum_table, goal_cases)
  case (1 v)
  show ?case by (cases v) simp_all
qed simp_all

lemma reason_KNOWN_complete: "v \<in> set reason_KNOWN"
  by (cases v) (simp_all add: reason_KNOWN_def)

interpretation reasons: wire_enum reason_variant_as_str "\<lambda>s. find (\<lambda>known. reason_variant_as_str known = s) reason_KNOWN"
  by (rule wire_enum_find [OF reason_KNOWN_complete]) (simp add: reason_KNOWN_def)

lemma cap_table_facts: "distinct (map fst cap_table)" "list_all (\<lambda>(s, c). cap_as_str c = s \<and> c \<in> set cap_KNOWN) cap_table"
  "map snd cap_table = cap_KNOWN"
  by code_simp+

lemma cap_from_known: "c \<in> set cap_KNOWN \<Longrightarrow> cap_from_str (cap_as_str c) = c"
proof -
  assume "c \<in> set cap_KNOWN"
  then obtain s where "(s, c) \<in> set cap_table" unfolding cap_table_facts(3) [symmetric] by auto
  moreover from this have "cap_as_str c = s" using cap_table_facts(2) by (auto simp: list_all_iff)
  ultimately show ?thesis using cap_table_facts(1) by (simp add: cap_from_str_def)
qed

lemma cap_lookup: "map_of cap_table s = Some c \<Longrightarrow> cap_as_str c = s \<and> c \<in> set cap_KNOWN"
  using cap_table_facts(2) by (auto simp: list_all_iff dest!: map_of_SomeD)

text \<open>The same key history with one key revoked at \<open>r\<close>.\<close>

definition with_revocation :: "bytes \<Rightarrow> time \<Rightarrow> IssuerKey list \<Rightarrow> IssuerKey list" where
  "with_revocation kid r keys = map (\<lambda>k. if key_id k = kid then k\<lparr>revoked_at := Some r\<rparr> else k) keys"

lemma is_valid_at_iff:
  "is_valid_at k t \<longleftrightarrow> valid_from k \<le> t \<and> (\<forall>r. revoked_at k = Some r \<longrightarrow> t < r) \<and>
     (\<forall>u. valid_until k = Some u \<longrightarrow> t < u)"
  by (auto simp: is_valid_at_def split: option.splits)

lemma find_map_same:
  assumes "\<And>x. x \<in> set xs \<Longrightarrow> P (f x) = Q x"
  shows "find P (map f xs) = map_option f (find Q xs)"
  using assms by (induction xs) auto

section \<open>Properties\<close>

text \<open>The open vocabularies survive the wire: a capability or a revocation reason parses from
  any string and prints it back; the known ones parse to themselves; an unknown reason never hides
  history.\<close>

theorem open_vocabularies_wire:
  "cap_as_str (cap_from_str s) = s \<and> (c \<in> set cap_KNOWN \<longrightarrow> cap_from_str (cap_as_str c) = c) \<and>
   (c \<notin> set cap_KNOWN \<longrightarrow> (\<exists>u. c = CapOther u)) \<and>
   reason_as_str (reason_from_str s) = s \<and> reason_from_str (reason_variant_as_str v) = KnownReason v \<and>
   (hides_after_revocation (reason_from_str s) \<longleftrightarrow> s = ''mistake'' \<or> s = ''duplicate'')"
proof (intro conjI impI)
  show "cap_as_str (cap_from_str s) = s" by (auto simp: cap_from_str_def split: option.splits dest: cap_lookup)
  show "c \<in> set cap_KNOWN \<Longrightarrow> cap_from_str (cap_as_str c) = c" by (rule cap_from_known)
  show "c \<notin> set cap_KNOWN \<Longrightarrow> \<exists>u. c = CapOther u" by (cases c) (simp_all add: cap_KNOWN_def)
  show "reason_as_str (reason_from_str s) = s"
    by (auto simp: reason_from_str_def split: option.splits dest: reasons.print_parse)
  show "reason_from_str (reason_variant_as_str v) = KnownReason v"
    by (simp add: reason_from_str_def reasons.parse_print)
  show "hides_after_revocation (reason_from_str s) \<longleftrightarrow> s = ''mistake'' \<or> s = ''duplicate''"
    by (auto simp: reason_from_str_def reason_KNOWN_def variant_hides_def)
qed

text \<open>Witness: a known capability and two revocation reasons.\<close>

theorem open_vocabularies_wire_witness:
  "(\<forall>c. if c \<in> set cap_KNOWN then cap_from_str (cap_as_str c) = c else \<exists>u. c = CapOther u) \<and>
   hides_after_revocation (reason_from_str ''mistake'') \<and> \<not> hides_after_revocation (reason_from_str ''fraud'')"
proof (intro conjI allI)
  fix c show "if c \<in> set cap_KNOWN then cap_from_str (cap_as_str c) = c else \<exists>u. c = CapOther u"
    using open_vocabularies_wire [where c = c] by simp
qed (use open_vocabularies_wire [where s = "''mistake''"] open_vocabularies_wire [where s = "''fraud''"] in simp_all)

text \<open>Revoking an issuer key is not retroactive and is final: for any instant before the
  revocation the key resolves exactly as it did, from that instant on it never does, and other
  keys are untouched; a resolved key is in the history, is within its window and is registered for
  attestations.\<close>

theorem key_revocation_point_in_time:
  assumes "\<forall>k\<in>set keys. key_id k = kid \<longrightarrow> revoked_at k = None"
  shows "resolve_valid_signing_key (with_revocation kid r keys) kid' t =
      (if kid' \<noteq> kid then resolve_valid_signing_key keys kid' t
       else if t < r then map_option (\<lambda>k. k\<lparr>revoked_at := Some r\<rparr>) (resolve_valid_signing_key keys kid' t)
       else None) \<and>
    (\<forall>k. resolve_valid_signing_key keys kid' t = Some k \<longrightarrow>
       k \<in> set keys \<and> key_id k = kid' \<and> valid_from k \<le> t \<and> may_sign_attestations k \<and> \<not> may_sign_shard_settlement k)"
proof (intro conjI allI impI)
  let ?f = "\<lambda>k. if key_id k = kid then k\<lparr>revoked_at := Some r\<rparr> else k"
  let ?P = "\<lambda>k. key_id k = kid' \<and> is_valid_at k t \<and> may_sign_attestations k"
  consider "kid' \<noteq> kid" | "kid' = kid" "t < r" | "kid' = kid" "r \<le> t" by linarith
  then show "resolve_valid_signing_key (with_revocation kid r keys) kid' t =
      (if kid' \<noteq> kid then resolve_valid_signing_key keys kid' t
       else if t < r then map_option (\<lambda>k. k\<lparr>revoked_at := Some r\<rparr>) (resolve_valid_signing_key keys kid' t)
       else None)"
  proof cases
    case 1
    then have "find ?P (map ?f keys) = map_option ?f (find ?P keys)" by (intro find_map_same) auto
    also have "\<dots> = find ?P keys" using 1 by (cases "find ?P keys") (simp_all, auto dest: find_in_set)
    finally show ?thesis using 1 by (simp add: resolve_valid_signing_key_def with_revocation_def)
  next
    case 2
    then have "find ?P (map ?f keys) = map_option ?f (find ?P keys)"
      using assms by (intro find_map_same) (auto simp: is_valid_at_iff may_sign_attestations_def)
    also have "\<dots> = map_option (\<lambda>k. k\<lparr>revoked_at := Some r\<rparr>) (find ?P keys)"
      using 2 by (cases "find ?P keys") (simp_all, auto dest: find_in_set)
    finally show ?thesis using 2 by (simp add: resolve_valid_signing_key_def with_revocation_def)
  next
    case 3
    have "\<not> ?P (?f k)" for k using 3 by (cases "key_id k = kid") (auto simp: is_valid_at_iff)
    then have "find ?P (map ?f keys) = None" unfolding find_None_iff set_map by blast
    then show ?thesis using 3 by (simp add: resolve_valid_signing_key_def with_revocation_def)
  qed
next
  fix k assume "resolve_valid_signing_key keys kid' t = Some k"
  then have "k \<in> set keys \<and> key_id k = kid' \<and> is_valid_at k t \<and> may_sign_attestations k"
    unfolding resolve_valid_signing_key_def by (rule find_in_set)
  then show "k \<in> set keys" "key_id k = kid'" "valid_from k \<le> t" "may_sign_attestations k" "\<not> may_sign_shard_settlement k"
    by (auto simp: is_valid_at_iff may_sign_attestations_def may_sign_shard_settlement_def)
qed

text \<open>Witness: one attestation key, revoked at second 50.\<close>

definition demo_issuer_key :: IssuerKey where
  "demo_issuer_key = \<lparr>key_id = [1], algorithm = ''ed25519'', public_key = [2], role = Operational, purpose = Attestation,
     valid_from = 10, valid_until = None, revoked_at = None\<rparr>"

theorem key_revocation_point_in_time_witness:
  "resolve_valid_signing_key (with_revocation [1] 50 [demo_issuer_key]) [1] 20 = Some (demo_issuer_key\<lparr>revoked_at := Some 50\<rparr>) \<and>
   resolve_valid_signing_key (with_revocation [1] 50 [demo_issuer_key]) [1] 60 = None"
proof -
  have h: "\<forall>k\<in>set [demo_issuer_key]. key_id k = [1] \<longrightarrow> revoked_at k = None" by (simp add: demo_issuer_key_def)
  have r: "resolve_valid_signing_key [demo_issuer_key] [1] 20 = Some demo_issuer_key" by code_simp
  show ?thesis
    using key_revocation_point_in_time [OF h, of 50 "[1]" 20] key_revocation_point_in_time [OF h, of 50 "[1]" 60] r by simp
qed

end
