(* ===== verification/Attestations.thy ===== *)
theory Attestations
  imports Identity_Id Ledger_Entry Vocabulary
begin

text \<open>
  Model of \<open>crates/protocol/src/achievements.rs\<close>: the bytes an issuer signs to issue, bulk-issue and
  revoke attestations, and the three separate questions about a claim: its status at an instant,
  its validity, and a consumer's recognition of it. \<open>None\<close> is the panic of an \<open>expect\<close>.
\<close>

section \<open>Issuers and signed bytes\<close>

datatype Issuer = Game bytes | App bytes | Service bytes

fun issuer_namespace :: "Issuer \<Rightarrow> str" where
  "issuer_namespace (Game _) = ''game''"
| "issuer_namespace (App _) = ''app''"
| "issuer_namespace (Service _) = ''service''"

fun issuer_claim_kind :: "Issuer \<Rightarrow> str" where
  "issuer_claim_kind (Game _) = ''achievement''"
| "issuer_claim_kind (App _) = ''milestone''"
| "issuer_claim_kind (Service _) = ''milestone''"

fun issuer_id :: "Issuer \<Rightarrow> bytes" where
  "issuer_id (Game i) = i"
| "issuer_id (App i) = i"
| "issuer_id (Service i) = i"

definition ISSUED_AT_MAX_SKEW_SECS :: int where "ISSUED_AT_MAX_SKEW_SECS = 300"

record AttestationSigner =
  s_network_id :: str
  s_claim_kind :: str
  s_issuer_ref :: str
  s_signing_key_id :: bytes

definition signer_fields :: "AttestationSigner \<Rightarrow> (Builder \<Rightarrow> Builder) list" where
  "signer_fields s = [b_str (s_network_id s), b_str (s_claim_kind s), b_str (s_issuer_ref s), b_uuid (s_signing_key_id s)]"

text \<open>\<open>i128\<close> division truncates toward zero; \<open>as i64\<close> wraps.\<close>

definition issued_at_micros :: "time \<Rightarrow> i64" where
  "issued_at_micros t = i64_of (if 0 \<le> t then t div 1000 else - ((- t) div 1000))"

definition attestation_signing_bytes :: "AttestationSigner \<Rightarrow> bytes \<Rightarrow> str \<Rightarrow> i64 \<Rightarrow> bytes option" where
  "attestation_signing_bytes s subject achievement micros =
     result_ok (b_finish (build (b_new ATTESTATION_ISSUE 1)
       (signer_fields s @ [b_fixed subject, b_str achievement, b_i64 micros])))"

definition bulk_attestation_signing_bytes :: "AttestationSigner \<Rightarrow> bytes \<Rightarrow> str list \<Rightarrow> i64 \<Rightarrow> bytes option" where
  "bulk_attestation_signing_bytes s subject achievements micros =
     (if length achievements > 4294967295 then None
      else result_ok (b_finish (build (b_new ATTESTATION_BULK_ISSUE 1)
        (signer_fields s @ [b_fixed subject, b_i64 micros, b_u32 (of_nat (length achievements))] @ map b_str achievements))))"

definition reason_hash :: "crates \<Rightarrow> str \<Rightarrow> bytes" where
  "reason_hash C reason = sha256 C (as_bytes reason)"

definition revocation_signing_bytes :: "AttestationSigner \<Rightarrow> bytes \<Rightarrow> str \<Rightarrow> bytes \<Rightarrow> bytes option" where
  "revocation_signing_bytes s attestation_id reason_code rhash =
     result_ok (b_finish (build (b_new ATTESTATION_REVOKE 1)
       (signer_fields s @ [b_uuid attestation_id, b_str reason_code, b_hash_algo Sha256, b_hash rhash])))"

section \<open>Status, validity, recognition\<close>

datatype AttestationStatus = AActive | ARevoked

definition attestation_status_at :: "time option \<Rightarrow> time \<Rightarrow> AttestationStatus" where
  "attestation_status_at revoked at_time =
     (case revoked of Some r \<Rightarrow> if at_time \<ge> r then ARevoked else AActive | None \<Rightarrow> AActive)"

datatype Validity = Valid | Invalid str

definition validity :: "IntegratorStatus \<Rightarrow> AttestationStatus \<Rightarrow> Validity" where
  "validity issuer_status attestation_status =
     (if attestation_status = ARevoked then Invalid ''attestation has been revoked''
      else (case issuer_status of
          IActive \<Rightarrow> Valid
        | ISuspended \<Rightarrow> Invalid ''issuer is currently suspended''
        | IRevoked \<Rightarrow> Invalid ''issuer has been revoked''
        | IDeprecated \<Rightarrow> Invalid ''issuer is deprecated''))"

record RecognitionScope =
  rs_claim_kind :: "str option"
  rs_schema :: "str option"
  rs_min_version :: "u32 option"
  rs_issued_after :: "time option"

definition scope_matches :: "RecognitionScope \<Rightarrow> str \<Rightarrow> str option \<Rightarrow> u32 \<Rightarrow> time \<Rightarrow> bool" where
  "scope_matches s claim_kind schema version issued_at =
     (if (case rs_claim_kind s of Some want \<Rightarrow> want \<noteq> claim_kind | None \<Rightarrow> False) then False
      else if (case rs_schema s of Some want \<Rightarrow> Some want \<noteq> schema | None \<Rightarrow> False) then False
      else if (case rs_min_version s of Some m \<Rightarrow> version < m | None \<Rightarrow> False) then False
      else if (case rs_issued_after s of Some after \<Rightarrow> issued_at < after | None \<Rightarrow> False) then False
      else True)"

record TrustRelationship =
  truster :: bytes
  trusted_issuer :: Issuer
  tr_established_at :: time
  scopes :: "RecognitionScope list"

datatype Recognition = Recognized | NotRecognized str

definition recognize :: "TrustRelationship \<Rightarrow> Issuer \<Rightarrow> str \<Rightarrow> str option \<Rightarrow> u32 \<Rightarrow> time \<Rightarrow> Recognition" where
  "recognize policy issuer claim_kind schema version issued_at =
     (if trusted_issuer policy \<noteq> issuer then NotRecognized ''no trust relationship with this issuer''
      else if scopes policy = [] \<or> list_ex (\<lambda>s. scope_matches s claim_kind schema version issued_at) (scopes policy)
      then Recognized
      else NotRecognized ''issuer is trusted, but this claim falls outside every recognized scope'')"

section \<open>Facts\<close>

definition signer_bytes :: "AttestationSigner \<Rightarrow> bytes" where
  "signer_bytes s = lp (as_bytes (s_network_id s)) @ lp (as_bytes (s_claim_kind s)) @ lp (as_bytes (s_issuer_ref s)) @
     raw (s_signing_key_id s)"

definition wf_signer :: "AttestationSigner \<Rightarrow> bool" where
  "wf_signer s \<longleftrightarrow> fits (s_network_id s) \<and> fits (s_claim_kind s) \<and> fits (s_issuer_ref s) \<and> length (s_signing_key_id s) = 16"

interpretation signer_code: prefix_code signer_bytes wf_signer
proof
  fix x y r s
  assume "wf_signer x" "wf_signer y" "signer_bytes x @ r = signer_bytes y @ s"
  then show "x = y \<and> r = s"
    by (simp add: signer_bytes_def wf_signer_def layout_eqs AttestationSigner.equality)
qed

declare signer_code.append_eq [layout_eqs]

lemma build_append: "build b (fs @ gs) = build (build b fs) gs"
  by (induction fs arbitrary: b) simp_all

lemma build_strs:
  "b_error (build b (map b_str xs)) = None \<longleftrightarrow> b_error b = None \<and> (\<forall>x\<in>set xs. fits x)"
  "\<forall>x\<in>set xs. fits x \<Longrightarrow> b_out (build b (map b_str xs)) = b_out b @ concat (map (\<lambda>x. lp (as_bytes x)) xs)"
  "b_exts (build b (map b_str xs)) = b_exts b" "b_tag (build b (map b_str xs)) = b_tag b"
  "b_rules (build b (map b_str xs)) = b_rules b"
  by (induction xs arbitrary: b) (auto simp: b_str_def b_bytes_out)

lemma attestation_Some:
  assumes "wf_signer s"
  shows "attestation_signing_bytes s subject ach t = Some m \<longleftrightarrow> fits ach \<and>
    m = tag_bytes ATTESTATION_ISSUE @ u16_be 1 @ u32_be 1 @ signer_bytes s @ raw subject @ lp (as_bytes ach) @
      raw (u64_be t) @ ext_encode []"
  using assms by (auto simp: attestation_signing_bytes_def signer_fields_def signer_bytes_def wf_signer_def
      result_ok_eq_Some b_finish_Ok builder_ops)

lemma revocation_Some:
  assumes "wf_signer s"
  shows "revocation_signing_bytes s aid code rh = Some m \<longleftrightarrow> fits code \<and>
    m = tag_bytes ATTESTATION_REVOKE @ u16_be 1 @ u32_be 1 @ signer_bytes s @ raw aid @ lp (as_bytes code) @
      raw [1] @ raw rh @ ext_encode []"
  using assms by (auto simp: revocation_signing_bytes_def signer_fields_def signer_bytes_def wf_signer_def
      result_ok_eq_Some b_finish_Ok builder_ops)

lemma bulk_Some:
  assumes "wf_signer s"
  shows "bulk_attestation_signing_bytes s subject achs t = Some m \<longleftrightarrow>
    length achs \<le> 4294967295 \<and> (\<forall>x\<in>set achs. fits x) \<and>
    m = tag_bytes ATTESTATION_BULK_ISSUE @ u16_be 1 @ u32_be 1 @ signer_bytes s @ raw subject @ raw (u64_be t) @
      raw (u32_be (of_nat (length achs))) @ concat (map (\<lambda>x. lp (as_bytes x)) achs) @ ext_encode []"
  using assms by (auto simp: bulk_attestation_signing_bytes_def signer_fields_def signer_bytes_def wf_signer_def
      result_ok_eq_Some b_finish_Ok builder_ops build_append build_strs)

lemma concat_lp_inject:
  "length xs = length ys \<Longrightarrow> \<forall>x\<in>set xs. fits x \<Longrightarrow> \<forall>y\<in>set ys. fits y \<Longrightarrow>
   concat (map (\<lambda>x. lp (as_bytes x)) xs) @ r = concat (map (\<lambda>x. lp (as_bytes x)) ys) @ s \<Longrightarrow> xs = ys \<and> r = s"
  by (induction xs ys rule: list_induct2) (auto simp: layout_eqs)

lemma bulk_inject:
  assumes "wf_signer s" "wf_signer s'" "length u = 32" "length u' = 32"
    and "bulk_attestation_signing_bytes s u as t = Some m" "bulk_attestation_signing_bytes s' u' as' t' = Some m"
  shows "s = s' \<and> u = u' \<and> as = as' \<and> t = t'"
proof -
  note b = assms(5) [unfolded bulk_Some [OF assms(1)]] and b' = assms(6) [unfolded bulk_Some [OF assms(2)]]
  then have eq: "s = s' \<and> u = u' \<and> t = t' \<and> (of_nat (length as) :: u32) = of_nat (length as') \<and>
      concat (map (\<lambda>x. lp (as_bytes x)) as) @ ext_encode [] = concat (map (\<lambda>x. lp (as_bytes x)) as') @ ext_encode []"
    using assms(1-4) by (elim conjE) (simp add: layout_eqs del: append_same_eq)
  then have "unat (of_nat (length as) :: u32) = unat (of_nat (length as') :: u32)" by simp
  then have "length as = length as'" using b b' by (simp add: unat_of_nat)
  with eq b b' concat_lp_inject [of as as'] show ?thesis by blast
qed

section \<open>Properties\<close>

text \<open>Attestation signatures bind every field: equal single issuances agree in signer, subject,
  claim and time; equal bulk issuances agree in signer, subject, time and the whole ordered list of
  claims; equal revocations agree in signer, attestation, reason code and reason hash.\<close>

theorem attestation_bytes_inject:
  assumes "wf_signer s" "wf_signer s'" "length u = 32" "length u' = 32" "length i = 16" "length i' = 16"
    and "length h = 32" "length h' = 32"
  shows "(attestation_signing_bytes s u a t = Some m \<and> attestation_signing_bytes s' u' a' t' = Some m \<longrightarrow>
      s = s' \<and> u = u' \<and> a = a' \<and> t = t') \<and>
    (bulk_attestation_signing_bytes s u as t = Some m \<and> bulk_attestation_signing_bytes s' u' as' t' = Some m \<longrightarrow>
      s = s' \<and> u = u' \<and> as = as' \<and> t = t') \<and>
    (revocation_signing_bytes s i c h = Some m \<and> revocation_signing_bytes s' i' c' h' = Some m \<longrightarrow>
      s = s' \<and> i = i' \<and> c = c' \<and> h = h')"
proof -
  have "s = s' \<and> u = u' \<and> a = a' \<and> t = t'"
    if "attestation_signing_bytes s u a t = Some m" "attestation_signing_bytes s' u' a' t' = Some m"
    using that assms unfolding attestation_Some [OF assms(1)] attestation_Some [OF assms(2)]
    by (elim conjE) (simp add: layout_eqs lp_code.enc_eq)
  moreover have "s = s' \<and> i = i' \<and> c = c' \<and> h = h'"
    if "revocation_signing_bytes s i c h = Some m" "revocation_signing_bytes s' i' c' h' = Some m"
    using that assms unfolding revocation_Some [OF assms(1)] revocation_Some [OF assms(2)]
    by (elim conjE) (simp add: layout_eqs lp_code.enc_eq)
  ultimately show ?thesis using bulk_inject [OF assms(1-4)] by blast
qed

text \<open>Witness: a concrete issuance is the issuance of no other claim.\<close>

definition demo_signer :: AttestationSigner where
  "demo_signer = \<lparr>s_network_id = ''testnet'', s_claim_kind = ''achievement'', s_issuer_ref = ''game:chess'',
     s_signing_key_id = replicate 16 1\<rparr>"

theorem attestation_bytes_inject_witness:
  "\<exists>m. attestation_signing_bytes demo_signer (replicate 32 2) ''winner'' 7 = Some m \<and>
     {a. attestation_signing_bytes demo_signer (replicate 32 2) a 7 = Some m} = {''winner''}"
proof -
  have wf: "wf_signer demo_signer" by (simp add: wf_signer_def demo_signer_def)
  have "\<exists>m. attestation_signing_bytes demo_signer (replicate 32 2) ''winner'' 7 = Some m"
    by (simp add: attestation_Some [OF wf])
  then obtain m where m: "attestation_signing_bytes demo_signer (replicate 32 2) ''winner'' 7 = Some m" ..
  have l: "length (replicate 32 (2 :: u8)) = 32" "length (replicate 16 (1 :: u8)) = 16" by simp_all
  note inj = attestation_bytes_inject [OF wf wf l(1) l(1) l(2) l(2) l(1) l(1)]
  have "a = ''winner''" if "attestation_signing_bytes demo_signer (replicate 32 2) a 7 = Some m" for a
    using inj that m by blast
  with m show ?thesis by blast
qed

text \<open>The three questions about a claim stay separate: a claim is valid exactly when it is not
  revoked yet at that instant and its issuer is active, whatever policy is asked; it is recognized
  exactly when the policy trusts its issuer and is unscoped or has a scope whose every set
  restriction it meets.\<close>

theorem validity_and_recognition:
  "(validity st (attestation_status_at rv t) = Valid \<longleftrightarrow> st = IActive \<and> (\<forall>r. rv = Some r \<longrightarrow> t < r)) \<and>
   (recognize p iss ck sch v issued = Recognized \<longleftrightarrow> trusted_issuer p = iss \<and>
     (scopes p = [] \<or> (\<exists>s\<in>set (scopes p). rs_claim_kind s \<in> {None, Some ck} \<and>
        (rs_schema s = None \<or> rs_schema s = sch) \<and>
        (\<forall>m. rs_min_version s = Some m \<longrightarrow> m \<le> v) \<and> (\<forall>a. rs_issued_after s = Some a \<longrightarrow> a \<le> issued))))"
proof
  show "validity st (attestation_status_at rv t) = Valid \<longleftrightarrow> st = IActive \<and> (\<forall>r. rv = Some r \<longrightarrow> t < r)"
    by (auto simp: validity_def attestation_status_at_def split: option.splits IntegratorStatus.splits)
  have "scope_matches s ck sch v issued \<longleftrightarrow> rs_claim_kind s \<in> {None, Some ck} \<and>
      (rs_schema s = None \<or> rs_schema s = sch) \<and>
      (\<forall>m. rs_min_version s = Some m \<longrightarrow> m \<le> v) \<and> (\<forall>a. rs_issued_after s = Some a \<longrightarrow> a \<le> issued)" for s
    by (auto simp: scope_matches_def not_less split: option.splits)
  then show "recognize p iss ck sch v issued = Recognized \<longleftrightarrow> trusted_issuer p = iss \<and>
     (scopes p = [] \<or> (\<exists>s\<in>set (scopes p). rs_claim_kind s \<in> {None, Some ck} \<and>
        (rs_schema s = None \<or> rs_schema s = sch) \<and>
        (\<forall>m. rs_min_version s = Some m \<longrightarrow> m \<le> v) \<and> (\<forall>a. rs_issued_after s = Some a \<longrightarrow> a \<le> issued)))"
    by (auto simp: recognize_def list_ex_iff)
qed

text \<open>Witness: an active issuer's claim before and after its revocation, under an unscoped policy.\<close>

definition demo_policy :: TrustRelationship where
  "demo_policy = \<lparr>truster = [1], trusted_issuer = Game [2], tr_established_at = 0, scopes = []\<rparr>"

theorem validity_and_recognition_witness:
  "validity IActive (attestation_status_at (Some 10) 9) = Valid \<and> validity IActive (attestation_status_at (Some 10) 10) \<noteq> Valid \<and>
   recognize demo_policy (Game [2]) ''achievement'' None 1 9 = Recognized"
  using validity_and_recognition [of IActive "Some 10" 9 demo_policy "Game [2]" "''achievement''" None 1]
    validity_and_recognition [of IActive "Some 10" 10 demo_policy "Game [2]" "''achievement''" None 1]
  by (simp add: demo_policy_def)

text \<open>The signed time of an attestation rounds toward zero, the ledger's toward the past: before the
  epoch the two differ.\<close>

lemma issued_at_rounding: "issued_at_micros (-1) = 0" "timestamp_micros (-1) = Ok (-1)"
  by (simp_all add: issued_at_micros_def i64_of_def timestamp_micros_def i64_min_def i64_max_def)

end
