(* ===== verification/Authenticity.thy ===== *)
theory Authenticity
  imports Attestations Shard
begin

text \<open>
  Model of \<open>crates/chain/src/attestations.rs\<close>: is a signature one of the issuer's, by a key that was
  valid at that instant? \<open>None\<close> is the panic of the signing-byte builder.
\<close>

datatype Authenticity = Authentic str | NotAuthentic str

record Signature =
  sg_key_id :: str
  sg_algorithm :: str
  sg_bytes :: bytes

record AchievementAttestation =
  at_id :: bytes
  at_issuer :: Issuer
  at_subject :: bytes
  at_achievement :: str
  at_issued_at :: time
  at_proof :: Signature

definition verify_signature :: "crates \<Rightarrow> str \<Rightarrow> bytes \<Rightarrow> bytes \<Rightarrow> time \<Rightarrow> IssuerKey list \<Rightarrow> Authenticity" where
  "verify_signature C kid signing_bytes signature_bytes at_time issuer_keys =
     (case uuid_parse C kid of
        None \<Rightarrow> NotAuthentic ''key_id is not a valid key id''
      | Some key_id_uuid \<Rightarrow>
          (case resolve_valid_signing_key issuer_keys key_id_uuid at_time of
             None \<Rightarrow> NotAuthentic ''no key in the issuer's history resolves as valid at this point in time''
           | Some key \<Rightarrow>
               (case to_array 32 (public_key key) of
                  None \<Rightarrow> NotAuthentic ''issuer key is malformed''
                | Some key_array \<Rightarrow>
                    if \<not> key_from_bytes_ok C key_array then NotAuthentic ''issuer key is malformed''
                    else
                      (case to_array 64 signature_bytes of
                         None \<Rightarrow> NotAuthentic ''signature is malformed''
                       | Some sig_array \<Rightarrow>
                           if ed_verify_strict C key_array signing_bytes sig_array then Authentic kid
                           else NotAuthentic ''signature does not verify against the resolved key''))))"

definition verify_authenticity ::
  "crates \<Rightarrow> AchievementAttestation \<Rightarrow> str \<Rightarrow> str \<Rightarrow> str \<Rightarrow> IssuerKey list \<Rightarrow> Authenticity option" where
  "verify_authenticity C attestation network_id claim_kind issuer_ref issuer_keys =
     (case uuid_parse C (sg_key_id (at_proof attestation)) of
        None \<Rightarrow> Some (NotAuthentic ''key_id is not a valid key id'')
      | Some signing_key_id \<Rightarrow>
          map_option (\<lambda>signing_bytes.
            verify_signature C (sg_key_id (at_proof attestation)) signing_bytes (sg_bytes (at_proof attestation))
              (at_issued_at attestation) issuer_keys)
            (attestation_signing_bytes
               \<lparr>s_network_id = network_id, s_claim_kind = claim_kind, s_issuer_ref = issuer_ref, s_signing_key_id = signing_key_id\<rparr>
               (at_subject attestation) (at_achievement attestation) (issued_at_micros (at_issued_at attestation))))"

section \<open>What an authentic attestation is\<close>

lemma verify_signature_Authentic:
  "verify_signature C kid m sig t keys = Authentic k \<longleftrightarrow> k = kid \<and>
     (\<exists>u key. uuid_parse C kid = Some u \<and> resolve_valid_signing_key keys u t = Some key \<and> length (public_key key) = 32 \<and>
        key_from_bytes_ok C (public_key key) \<and> length sig = 64 \<and> ed_verify_strict C (public_key key) m sig)"
  by (auto simp: verify_signature_def to_array_def split: option.splits)

lemma resolved_key:
  "resolve_valid_signing_key keys u t = Some key \<Longrightarrow> key \<in> set keys \<and> key_id key = u \<and> is_valid_at key t \<and> may_sign_attestations key"
  by (auto simp: resolve_valid_signing_key_def find_Some_iff)

text \<open>Authenticity is the issuer's signature by a key that could sign attestations at the moment of issue: the
  verdict is authentic exactly when the proof names a key of the issuer that was valid at that instant and its
  signature over the network, claim kind, issuer, key, subject, achievement and instant verifies
  strictly. A key revoked or expired by then, of another purpose or of another issuer gives the
  verdict not authentic, and the check never panics on fields within their bounds.\<close>

theorem authenticity_decides:
  assumes "uuid_ok C" and "length (at_subject a) = 32" and "fits (at_achievement a)" and "fits net" and "fits kind" and "fits ref"
  shows "\<exists>v. verify_authenticity C a net kind ref keys = Some v \<and>
    ((\<exists>kid. v = Authentic kid) \<longleftrightarrow>
      (\<exists>u key m. uuid_parse C (sg_key_id (at_proof a)) = Some u \<and> resolve_valid_signing_key keys u (at_issued_at a) = Some key \<and>
        attestation_signing_bytes \<lparr>s_network_id = net, s_claim_kind = kind, s_issuer_ref = ref, s_signing_key_id = u\<rparr>
          (at_subject a) (at_achievement a) (issued_at_micros (at_issued_at a)) = Some m \<and>
        length (public_key key) = 32 \<and> key_from_bytes_ok C (public_key key) \<and> length (sg_bytes (at_proof a)) = 64 \<and>
        ed_verify_strict C (public_key key) m (sg_bytes (at_proof a)))) \<and>
    (\<forall>kid. v = Authentic kid \<longrightarrow> kid = sg_key_id (at_proof a) \<and>
      (\<exists>key\<in>set keys. uuid_parse C kid = Some (key_id key) \<and> purpose key = Attestation \<and> valid_from key \<le> at_issued_at a \<and>
        (\<forall>r. revoked_at key = Some r \<longrightarrow> at_issued_at a < r) \<and> (\<forall>e. valid_until key = Some e \<longrightarrow> at_issued_at a < e)))"
proof (cases "uuid_parse C (sg_key_id (at_proof a))")
  case (Some u)
  let ?s = "\<lparr>s_network_id = net, s_claim_kind = kind, s_issuer_ref = ref, s_signing_key_id = u\<rparr>"
  have "length u = 16" using assms(1) Some by (auto simp: uuid_ok_def)
  then have "wf_signer ?s" using assms(4-6) by (simp add: wf_signer_def)
  from attestation_Some [OF this] assms(2,3) obtain m where
    m: "attestation_signing_bytes ?s (at_subject a) (at_achievement a) (issued_at_micros (at_issued_at a)) = Some m" by blast
  define v where "v = verify_signature C (sg_key_id (at_proof a)) m (sg_bytes (at_proof a)) (at_issued_at a) keys"
  have va: "verify_authenticity C a net kind ref keys = Some v" by (simp add: verify_authenticity_def Some m v_def)
  have "\<exists>key\<in>set keys. uuid_parse C kid = Some (key_id key) \<and> purpose key = Attestation \<and> valid_from key \<le> at_issued_at a \<and>
      (\<forall>r. revoked_at key = Some r \<longrightarrow> at_issued_at a < r) \<and> (\<forall>e. valid_until key = Some e \<longrightarrow> at_issued_at a < e)"
    if "v = Authentic kid" for kid
    using that Some resolved_key
    by (fastforce simp: v_def verify_signature_Authentic is_valid_at_def may_sign_attestations_def split: if_splits)
  then show ?thesis using va m Some by (auto simp: v_def verify_signature_Authentic)
qed (simp add: verify_authenticity_def)

text \<open>Witness: a game issues an achievement.\<close>

definition demo_issuer_key :: IssuerKey where
  "demo_issuer_key = \<lparr>key_id = replicate 16 1, algorithm = ''ed25519'', public_key = demo_public, role = Operational, purpose = Attestation,
     valid_from = 0, valid_until = None, revoked_at = None\<rparr>"

definition demo_issue_bytes :: bytes where
  "demo_issue_bytes = the (attestation_signing_bytes
     \<lparr>s_network_id = ''net'', s_claim_kind = ''achievement'', s_issuer_ref = ''game:chess'', s_signing_key_id = replicate 16 1\<rparr>
     (replicate 32 2) ''game:chess:first-win'' (issued_at_micros 5))"

definition demo_attestation :: AchievementAttestation where
  "demo_attestation = \<lparr>at_id = replicate 16 3, at_issuer = Game (replicate 16 4), at_subject = replicate 32 2,
     at_achievement = ''game:chess:first-win'', at_issued_at = 5,
     at_proof = \<lparr>sg_key_id = uuid_text demo_crates (replicate 16 1), sg_algorithm = ''ed25519'', sg_bytes = ed_sign demo_crates demo_public demo_issue_bytes\<rparr>\<rparr>"

theorem authenticity_decides_witness:
  "\<exists>kid. verify_authenticity demo_crates demo_attestation ''net'' ''achievement'' ''game:chess'' [demo_issuer_key] = Some (Authentic kid)"
proof -
  let ?s = "\<lparr>s_network_id = ''net'', s_claim_kind = ''achievement'', s_issuer_ref = ''game:chess'', s_signing_key_id = replicate 16 1\<rparr>"
  have u: "uuid_parse demo_crates (uuid_text demo_crates (replicate 16 1)) = Some (replicate 16 1)"
    using demo_uuid_ok by (simp add: uuid_ok_def)
  have "wf_signer ?s" by (simp add: wf_signer_def)
  then have m: "attestation_signing_bytes ?s (replicate 32 2) ''game:chess:first-win'' (issued_at_micros 5) = Some demo_issue_bytes"
    using attestation_Some by (simp add: demo_issue_bytes_def)
  have k: "resolve_valid_signing_key [demo_issuer_key] (replicate 16 1) 5 = Some demo_issuer_key"
    by (simp add: resolve_valid_signing_key_def demo_issuer_key_def is_valid_at_def may_sign_attestations_def)
  have vk: "verifying_key demo_crates demo_public = demo_public" by (simp add: demo_crates_def demo_public_def pad32_def)
  have "\<not> key_is_weak demo_crates demo_public" using demo_public_acceptable by (simp add: is_acceptable_ed25519_key_def)
  then have sig: "ed_verify_strict demo_crates demo_public demo_issue_bytes (ed_sign demo_crates demo_public demo_issue_bytes)"
    "length (ed_sign demo_crates demo_public demo_issue_bytes) = 64" "key_from_bytes_ok demo_crates demo_public"
    using demo_sig_ok vk unfolding sig_ok_def by metis+
  have a: "at_subject demo_attestation = replicate 32 2" "at_achievement demo_attestation = ''game:chess:first-win''"
    "at_issued_at demo_attestation = 5" "sg_key_id (at_proof demo_attestation) = uuid_text demo_crates (replicate 16 1)"
    "sg_bytes (at_proof demo_attestation) = ed_sign demo_crates demo_public demo_issue_bytes" "public_key demo_issuer_key = demo_public"
    by (simp_all add: demo_attestation_def demo_issuer_key_def)
  have "length demo_public = 32" by (simp add: demo_public_def)
  with authenticity_decides [OF demo_uuid_ok, of demo_attestation "''net''" "''achievement''" "''game:chess''" "[demo_issuer_key]"] u m k sig
  show ?thesis by (auto simp: a)
qed

end
