(* ===== verification/Retention.thy ===== *)
theory Retention
  imports Settlement_Facts
begin

text \<open>
  Model of \<open>crates/chain/src/retention.rs\<close>, the retention configuration, and of \<open>crates/server/src/retention.rs\<close>,
  the worker that prunes payloads once enough archive peers hold them. What a peer answers to a progress
  request is a parameter: \<open>progress peer network source\<close> is the last sequence number of its answer, or
  \<open>None\<close> for any failure. \<open>None\<close> as the outcome of an operation is a panic of the \<open>time\<close> crate.
\<close>

section \<open>Configuration\<close>

datatype RetentionTier = Full | Hot i64

record RetentionConfig =
  rc_tier :: RetentionTier
  rc_pruning_enabled :: bool
  rc_archive_peers :: "str list"
  rc_min_archive_confirmations :: nat

datatype RetentionConfigError =
    MissingHotWindow | InvalidHotWindow str | UnknownTier str | InvalidPruningFlag str | InvalidMinArchiveConfirmations str

text \<open>\<open>Duration::days\<close> multiplies in \<open>i64\<close> seconds and panics on overflow; the subtraction panics outside the
  range of the date type.\<close>

definition sub_days :: "time \<Rightarrow> int \<Rightarrow> time option" where
  "sub_days now days =
     (if \<not> (- (2 ^ 63) \<le> days * 86400 \<and> days * 86400 < 2 ^ 63) then None
      else if in_time_range (now - days * 86400 * nanos_per_sec) then Some (now - days * 86400 * nanos_per_sec) else None)"

definition cutoff :: "RetentionTier \<Rightarrow> time \<Rightarrow> time option option" where
  "cutoff tier now = (case tier of Full \<Rightarrow> Some None | Hot window_days \<Rightarrow> map_option Some (sub_days now (sint window_days)))"

definition full_config :: RetentionConfig where
  "full_config = \<lparr>rc_tier = Full, rc_pruning_enabled = False, rc_archive_peers = [], rc_min_archive_confirmations = 0\<rparr>"

definition requires_archive_confirmation :: "RetentionConfig \<Rightarrow> bool" where
  "requires_archive_confirmation c \<longleftrightarrow> rc_archive_peers c \<noteq> [] \<and> rc_min_archive_confirmations c > 0"

definition should_prune :: "RetentionConfig \<Rightarrow> bool" where
  "should_prune c \<longleftrightarrow> (case rc_tier c of Hot _ \<Rightarrow> True | Full \<Rightarrow> False) \<and> rc_pruning_enabled c"

definition prune_cutoff :: "RetentionConfig \<Rightarrow> time \<Rightarrow> time option option" where
  "prune_cutoff c now = (if \<not> should_prune c then Some None else cutoff (rc_tier c) now)"

text \<open>\<open>str::trim\<close>, and \<open>str::parse\<close> for integers: an optional sign (\<open>-\<close> for signed types only), then one or more
  digits, within the range of the type.\<close>

definition trim :: "str \<Rightarrow> str" where
  "trim s = str_of_chars (trim_chars (str_chars s))"

definition digits_value :: "str \<Rightarrow> nat option" where
  "digits_value s = (if s = [] \<or> \<not> list_all is_ascii_digit s then None else Some (radix_val 10 s))"

definition parse_i64 :: "str \<Rightarrow> i64 option" where
  "parse_i64 s =
     (case (case s of c # r \<Rightarrow> if c = CHR ''-'' then map_option (\<lambda>n. - int n) (digits_value r)
                               else if c = CHR ''+'' then map_option int (digits_value r)
                               else map_option int (digits_value s)
                    | [] \<Rightarrow> None) of
        Some v \<Rightarrow> if - (2 ^ 63) \<le> v \<and> v < 2 ^ 63 then Some (word_of_int v) else None
      | None \<Rightarrow> None)"

definition parse_usize :: "str \<Rightarrow> nat option" where
  "parse_usize s =
     (case (case s of c # r \<Rightarrow> if c = CHR ''+'' then digits_value r else digits_value s | [] \<Rightarrow> None) of
        Some v \<Rightarrow> if v < 2 ^ 64 then Some v else None
      | None \<Rightarrow> None)"

definition trim_end_slashes :: "str \<Rightarrow> str" where
  "trim_end_slashes s = rev (dropWhile (\<lambda>c. c = CHR ''/'') (rev s))"

definition tier_from_vars :: "str option \<Rightarrow> str option \<Rightarrow> RetentionConfigError + RetentionTier" where
  "tier_from_vars tier_var window_var =
     (case map_option trim tier_var of
        None \<Rightarrow> Ok Full
      | Some t \<Rightarrow>
          if t = [] \<or> t = ''full'' then Ok Full
          else if t = ''hot'' then
            (case window_var of
               None \<Rightarrow> Err MissingHotWindow
             | Some window_raw \<Rightarrow>
                 (case parse_i64 (trim window_raw) of
                    None \<Rightarrow> Err (InvalidHotWindow window_raw)
                  | Some window_days \<Rightarrow> if sint window_days \<le> 0 then Err (InvalidHotWindow window_raw) else Ok (Hot window_days)))
          else Err (UnknownTier t))"

definition pruning_from_var :: "str option \<Rightarrow> RetentionConfigError + bool" where
  "pruning_from_var pruning_var =
     (case map_option trim pruning_var of
        None \<Rightarrow> Ok False
      | Some p \<Rightarrow>
          if p = [] then Ok False
          else if p = ''true'' \<or> p = ''1'' then Ok True
          else if p = ''false'' \<or> p = ''0'' then Ok False
          else Err (InvalidPruningFlag p))"

definition peers_from_var :: "str option \<Rightarrow> str list" where
  "peers_from_var v =
     filter (\<lambda>s. s \<noteq> []) (map (\<lambda>s. trim_end_slashes (trim s)) (split_char CHR '','' (case v of Some s \<Rightarrow> s | None \<Rightarrow> [])))"

definition confirmations_from_var :: "str list \<Rightarrow> str option \<Rightarrow> RetentionConfigError + nat" where
  "confirmations_from_var archive_peers v =
     (if archive_peers = [] then Ok 0
      else case map_option trim v of
        None \<Rightarrow> Ok 1
      | Some n \<Rightarrow> if n = [] then Ok 1 else ok_or (InvalidMinArchiveConfirmations n) (parse_usize n))"

definition config_from_vars ::
  "str option \<Rightarrow> str option \<Rightarrow> str option \<Rightarrow> str option \<Rightarrow> str option \<Rightarrow> RetentionConfigError + RetentionConfig" where
  "config_from_vars tier_var window_var pruning_var archive_peers_var min_confirmations_var =
     rbind (tier_from_vars tier_var window_var) (\<lambda>tier.
     rbind (pruning_from_var pruning_var) (\<lambda>pruning_enabled.
     let archive_peers = peers_from_var archive_peers_var in
     rbind (confirmations_from_var archive_peers min_confirmations_var) (\<lambda>min_confirmations.
     Ok \<lparr>rc_tier = tier, rc_pruning_enabled = pruning_enabled, rc_archive_peers = archive_peers,
         rc_min_archive_confirmations = min_confirmations\<rparr>)))"

section \<open>The worker\<close>

type_synonym peer_progress = "str \<Rightarrow> str \<Rightarrow> str option \<Rightarrow> int option"

definition peer_confirms_coverage :: "peer_progress \<Rightarrow> str \<Rightarrow> str \<Rightarrow> int \<Rightarrow> str option \<Rightarrow> bool" where
  "peer_confirms_coverage progress peer network_id boundary_seq own_base_url =
     (case progress peer network_id own_base_url of Some last_seq \<Rightarrow> last_seq \<ge> boundary_seq | None \<Rightarrow> False)"

fun confirm_peers :: "(str \<Rightarrow> bool) \<Rightarrow> nat \<Rightarrow> nat \<Rightarrow> str list \<Rightarrow> bool" where
  "confirm_peers confirms needed confirmations [] = False"
| "confirm_peers confirms needed confirmations (peer # peers) =
     (if confirms peer then
        (if confirmations + 1 \<ge> needed then True else confirm_peers confirms needed (confirmations + 1) peers)
      else confirm_peers confirms needed confirmations peers)"

definition confirm_archive_coverage :: "peer_progress \<Rightarrow> RetentionConfig \<Rightarrow> str \<Rightarrow> int \<Rightarrow> str option \<Rightarrow> bool" where
  "confirm_archive_coverage progress config network_id boundary_seq own_base_url =
     (if \<not> requires_archive_confirmation config then True
      else confirm_peers (\<lambda>peer. peer_confirms_coverage progress peer network_id boundary_seq own_base_url)
        (rc_min_archive_confirmations config) 0 (rc_archive_peers config))"

record PruneReport =
  prr_cutoff :: time
  prr_pruned_count :: nat

definition prune_now :: "time \<Rightarrow> time \<Rightarrow> settlement \<Rightarrow> PruneReport option \<times> settlement" where
  "prune_now now bound st =
     (let (n, st') = prune_payloads_older_than now bound st in (Some \<lparr>prr_cutoff = bound, prr_pruned_count = n\<rparr>, st'))"

definition prune_once ::
  "peer_progress \<Rightarrow> time \<Rightarrow> RetentionConfig \<Rightarrow> str option \<Rightarrow> settlement \<Rightarrow> (PruneReport option \<times> settlement) option" where
  "prune_once progress now config own_base_url st =
     (case prune_cutoff config now of
        None \<Rightarrow> None
      | Some None \<Rightarrow> Some (None, st)
      | Some (Some bound) \<Rightarrow>
          if requires_archive_confirmation config then
            (case max_seq_before st bound of
               None \<Rightarrow> Some (None, st)
             | Some boundary_seq \<Rightarrow>
                 if \<not> confirm_archive_coverage progress config (st_network st) boundary_seq own_base_url then Some (None, st)
                 else Some (prune_now now bound st))
          else Some (prune_now now bound st))"

section \<open>What a prune pass may discard\<close>

lemma confirm_peers_iff:
  "k < needed \<Longrightarrow> confirm_peers p needed k peers \<longleftrightarrow> needed \<le> k + length (filter p peers)"
  by (induction p needed k peers rule: confirm_peers.induct) auto

lemma confirm_archive_coverage_iff:
  "confirm_archive_coverage progress c net b url \<longleftrightarrow> \<not> requires_archive_confirmation c \<or>
     rc_min_archive_confirmations c \<le> length (filter (\<lambda>p. peer_confirms_coverage progress p net b url) (rc_archive_peers c))"
  by (simp add: confirm_archive_coverage_def confirm_peers_iff requires_archive_confirmation_def)

lemma max_seq_before_ge:
  assumes "max_seq_before st bound = Some b" "r \<in> set (rows_of st)" "prunable bound r"
  shows "l_seq r \<le> b"
proof -
  have "r \<in> set (filter (prunable bound) (rows_of st))" using assms(2,3) by simp
  then show ?thesis using assms(1) by (auto simp: max_seq_before_def simp del: set_filter split: list.splits intro!: Max_ge)
qed

text \<open>C29. A prune pass discards only what it may. It runs only on a hot node with pruning enabled; a row it changes was
  committed before the window, keeps its sequence number and hashes and loses only its payload. Where archives are
  listed and a positive number of confirmations is configured, at least that number of entries of the list reported
  having mirrored past that row, which are that many different archives when the list names none twice. With no
  archives listed or a minimum of zero there is no such gate.\<close>

theorem prune_pass_confirmed:
  assumes "prune_once progress now config url st = Some (report, st')" and "i < length (rows_of st)"
    and "rows_of st' ! i \<noteq> rows_of st ! i"
  shows "(\<exists>w. rc_tier config = Hot w \<and> l_committed_at (rows_of st ! i) < now - sint w * 86400 * nanos_per_sec) \<and> rc_pruning_enabled config \<and>
    rows_of st' ! i = (rows_of st ! i)\<lparr>l_payload := None, l_pruned_at := Some now\<rparr> \<and>
    (rc_archive_peers config \<noteq> [] \<and> 0 < rc_min_archive_confirmations config \<longrightarrow>
      rc_min_archive_confirmations config \<le>
        length (filter (\<lambda>p. \<exists>l. progress p (st_network st) url = Some l \<and> l_seq (rows_of st ! i) \<le> l) (rc_archive_peers config)) \<and>
      (distinct (rc_archive_peers config) \<longrightarrow> rc_min_archive_confirmations config \<le>
        card {p \<in> set (rc_archive_peers config). \<exists>l. progress p (st_network st) url = Some l \<and> l_seq (rows_of st ! i) \<le> l}))"
proof -
  let ?r = "rows_of st ! i"
  have ne: "st' \<noteq> st" using assms(3) by auto
  from assms(1) ne obtain w bound where w: "rc_tier config = Hot w" "rc_pruning_enabled config" and bound: "sub_days now (sint w) = Some bound"
    and st': "st' = snd (prune_now now bound st)"
    and conf: "requires_archive_confirmation config \<longrightarrow> (\<exists>b. max_seq_before st bound = Some b \<and> confirm_archive_coverage progress config (st_network st) b url)"
    by (auto simp: prune_once_def prune_cutoff_def should_prune_def cutoff_def split: option.splits if_splits RetentionTier.splits)
  have row: "rows_of st' ! i = prune_row now bound ?r" using assms(2) by (simp add: st' prune_now_def prune_payloads_older_than_def)
  then have p: "prunable bound ?r" using assms(3) by (cases "prunable bound ?r") (simp_all add: prune_row_def)
  have "bound = now - sint w * 86400 * nanos_per_sec" using bound by (auto simp: sub_days_def split: if_splits)
  moreover have "rc_min_archive_confirmations config \<le>
      length (filter (\<lambda>p. \<exists>l. progress p (st_network st) url = Some l \<and> l_seq ?r \<le> l) (rc_archive_peers config))"
    if req: "rc_archive_peers config \<noteq> [] \<and> 0 < rc_min_archive_confirmations config"
  proof -
    from req conf obtain b where b: "max_seq_before st bound = Some b" "confirm_archive_coverage progress config (st_network st) b url"
      by (auto simp: requires_archive_confirmation_def)
    have "l_seq ?r \<le> b" using max_seq_before_ge [OF b(1) _ p] assms(2) by simp
    then have "length (filter (\<lambda>p. peer_confirms_coverage progress p (st_network st) b url) (rc_archive_peers config)) \<le>
        length (filter (\<lambda>p. \<exists>l. progress p (st_network st) url = Some l \<and> l_seq ?r \<le> l) (rc_archive_peers config))"
      unfolding length_filter_conv_card
      by (intro card_mono) (auto simp: peer_confirms_coverage_def split: option.splits)
    with b(2) req show ?thesis by (auto simp: confirm_archive_coverage_iff requires_archive_confirmation_def)
  qed
  moreover have "length (filter (\<lambda>p. \<exists>l. progress p (st_network st) url = Some l \<and> l_seq ?r \<le> l) (rc_archive_peers config)) =
      card {p \<in> set (rc_archive_peers config). \<exists>l. progress p (st_network st) url = Some l \<and> l_seq ?r \<le> l}"
    if "distinct (rc_archive_peers config)"
    using that by (simp add: distinct_card [symmetric])
  ultimately show ?thesis using w p row by (auto simp: prune_row_def prunable_def)
qed

text \<open>Witness: a hot node with a window of one day, two archives of which one must confirm, and one old entry.\<close>

definition demo_row :: "int \<Rightarrow> u8 \<Rightarrow> ledger_row" where
  "demo_row sq b = \<lparr>l_seq = sq, l_event_id = [], l_kind = [], l_issuer = [], l_subject = [], l_payload = None,
     l_payload_hash = [], l_pruned_at = None, l_timestamp = 0, l_version = 1, l_prev_hash = [],
     l_entry_hash = demo_root b, l_batch_id = [], l_envelope = \<lparr>row_layout_version = 1, row_rules_version = 1, row_hash_algo = 1, row_extensions = []\<rparr>,
     l_committed_at = 0\<rparr>"

definition demo_old_node :: settlement where
  "demo_old_node = (fresh_node ''net'')\<lparr>st_db := empty_db\<lparr>db_entries := [(demo_row 7 0)\<lparr>l_payload := Some JNull, l_pruned_at := None, l_committed_at := 0\<rparr>]\<rparr>\<rparr>"

definition demo_hot_config :: RetentionConfig where
  "demo_hot_config = \<lparr>rc_tier = Hot 1, rc_pruning_enabled = True, rc_archive_peers = [''a'', ''b''], rc_min_archive_confirmations = 1\<rparr>"

theorem prune_pass_confirmed_witness:
  "\<exists>report st'. prune_once (\<lambda>p _ _. if p = ''b'' then Some 9 else None) (2 * 86400 * nanos_per_sec) demo_hot_config None demo_old_node = Some (report, st') \<and>
     l_payload (rows_of st' ! 0) = None \<and> l_payload (rows_of demo_old_node ! 0) = Some JNull"
proof -
  let ?now = "2 * 86400 * nanos_per_sec" and ?prog = "\<lambda>p (_ :: str) (_ :: str option). if p = ''b'' then Some (9 :: int) else None"
  have "prune_cutoff demo_hot_config ?now = Some (Some (86400 * nanos_per_sec))"
    by (simp add: prune_cutoff_def should_prune_def cutoff_def demo_hot_config_def sub_days_def in_time_range_def nanos_per_sec_def)
  moreover have "max_seq_before demo_old_node (86400 * nanos_per_sec) = Some 7"
    by (simp add: max_seq_before_def demo_old_node_def prunable_def demo_row_def nanos_per_sec_def)
  moreover have "requires_archive_confirmation demo_hot_config" by (simp add: requires_archive_confirmation_def demo_hot_config_def)
  moreover have "confirm_archive_coverage ?prog demo_hot_config (st_network demo_old_node) 7 None"
    by (simp add: confirm_archive_coverage_def requires_archive_confirmation_def demo_hot_config_def peer_confirms_coverage_def)
  ultimately have e: "prune_once ?prog ?now demo_hot_config None demo_old_node = Some (prune_now ?now (86400 * nanos_per_sec) demo_old_node)"
    by (simp add: prune_once_def)
  obtain report st' where s: "prune_now ?now (86400 * nanos_per_sec) demo_old_node = (report, st')" by fastforce
  have st': "st' = snd (prune_now ?now (86400 * nanos_per_sec) demo_old_node)" by (simp only: s snd_conv)
  have l: "0 < length (rows_of demo_old_node)" "l_payload (rows_of demo_old_node ! 0) = Some JNull" by (simp_all add: demo_old_node_def)
  have "l_payload (rows_of st' ! 0) = None"
    by (simp add: st' prune_now_def prune_payloads_older_than_def prune_row_def prunable_def demo_old_node_def nanos_per_sec_def)
  then have "rows_of st' ! 0 \<noteq> rows_of demo_old_node ! 0" using l(2) by auto
  from prune_pass_confirmed [OF e [unfolded s] l(1) this] e s l(2) show ?thesis by auto
qed

section \<open>Configurations that are accepted but unsafe\<close>

text \<open>A peer that is listed twice counts twice: with two confirmations required, one archive is enough.\<close>

theorem duplicate_peer_counts_twice:
  "config_from_vars (Some ''hot'') (Some ''1'') (Some ''1'') (Some ''a,a/'') (Some ''2'') =
     Ok \<lparr>rc_tier = Hot 1, rc_pruning_enabled = True, rc_archive_peers = [''a'', ''a''], rc_min_archive_confirmations = 2\<rparr> \<and>
   confirm_archive_coverage (\<lambda>p _ _. if p = ''a'' then Some b else None)
     \<lparr>rc_tier = Hot 1, rc_pruning_enabled = True, rc_archive_peers = [''a'', ''a''], rc_min_archive_confirmations = 2\<rparr> net b url"
  by (simp add: config_from_vars_def tier_from_vars_def pruning_from_var_def peers_from_var_def confirmations_from_var_def
      trim_def str_chars_def str_of_chars_def trim_chars_def is_whitespace_def parse_i64_def parse_usize_def digits_value_def
      is_ascii_digit_def radix_val_def digit_val_def trim_end_slashes_def utf8_encode_char_def char_of_def bit_Suc_0_iff
      confirm_archive_coverage_def requires_archive_confirmation_def peer_confirms_coverage_def Let_def)

text \<open>A window that is a positive integer is accepted whatever its size, and a window beyond the range of dates panics
  at every tick of the worker.\<close>

theorem large_window_panics:
  "config_from_vars (Some ''hot'') (Some ''9999999'') (Some ''1'') None None =
     Ok \<lparr>rc_tier = Hot 9999999, rc_pruning_enabled = True, rc_archive_peers = [], rc_min_archive_confirmations = 0\<rparr> \<and>
   (in_time_range now \<longrightarrow> prune_once progress now
     \<lparr>rc_tier = Hot 9999999, rc_pruning_enabled = True, rc_archive_peers = [], rc_min_archive_confirmations = 0\<rparr> url st = None)"
  by (simp add: config_from_vars_def tier_from_vars_def pruning_from_var_def peers_from_var_def confirmations_from_var_def
      trim_def str_chars_def str_of_chars_def trim_chars_def is_whitespace_def parse_i64_def parse_usize_def digits_value_def
      is_ascii_digit_def radix_val_def digit_val_def trim_end_slashes_def utf8_encode_char_def char_of_def bit_Suc_0_iff
      prune_once_def prune_cutoff_def should_prune_def cutoff_def sub_days_def in_time_range_def nanos_per_sec_def Let_def)

end
