(* ===== verification/Tokens.thy ===== *)
theory Tokens
  imports Shard
begin

text \<open>
  Model of \<open>crates/protocol/src/continuation.rs\<close>, \<open>cross_node_login.rs\<close> and \<open>interest_claim.rs\<close>: the three
  self-signed assertions of an identity and the text each signature covers. Fields are joined by
  colons; timestamps enter as whole Unix seconds, printed in decimal.
\<close>

section \<open>Decimal text\<close>

definition int_str :: "int \<Rightarrow> str" where
  "int_str i = (if i < 0 then CHR ''-'' # radix_str 10 (nat (- i)) else radix_str 10 (nat i))"

lemma digits_no_sign: "list_all is_ascii_digit s \<Longrightarrow> CHR '':'' \<notin> set s \<and> CHR ''-'' \<notin> set s"
  by (induction s) (auto simp: is_ascii_digit_def)

lemma int_str_no_colon [simp]: "CHR '':'' \<notin> set (int_str i)"
  using dec_facts digits_no_sign by (simp add: int_str_def)

lemma radix_str_inject: "radix_str 10 m = radix_str 10 n \<longleftrightarrow> m = n"
  using dec_facts by metis

lemma int_str_inject [simp]: "int_str i = int_str j \<longleftrightarrow> i = j"
proof -
  have ne: "radix_str 10 n \<noteq> CHR ''-'' # s" for n s using dec_facts [of n] digits_no_sign [of "radix_str 10 n"] by auto
  show ?thesis using ne ne [symmetric] by (auto simp: int_str_def radix_str_inject)
qed

section \<open>Session continuation\<close>

definition WIRE_PREFIX :: str where "WIRE_PREFIX = ''AVCT1.''"
definition CONTINUATION_TTL_SECONDS :: int where "CONTINUATION_TTL_SECONDS = 60"

record ContinuationToken =
  ct_identity_id :: bytes
  ct_signing_key_id :: bytes
  ct_nonce :: bytes
  ct_issued_at :: time
  ct_expires_at :: time
  ct_signature :: str

definition continuation_signing_bytes :: "crates \<Rightarrow> bytes \<Rightarrow> bytes \<Rightarrow> bytes \<Rightarrow> time \<Rightarrow> time \<Rightarrow> bytes" where
  "continuation_signing_bytes C identity_id signing_key_id nonce issued_at expires_at =
     as_bytes (''avalon:continuation:v1:'' @ identity_id_display C identity_id @ '':'' @ uuid_text C signing_key_id @ '':'' @
       uuid_text C nonce @ '':'' @ int_str (unix_timestamp issued_at) @ '':'' @ int_str (unix_timestamp expires_at))"

definition ct_signing_bytes :: "crates \<Rightarrow> ContinuationToken \<Rightarrow> bytes" where
  "ct_signing_bytes C t =
     continuation_signing_bytes C (ct_identity_id t) (ct_signing_key_id t) (ct_nonce t) (ct_issued_at t) (ct_expires_at t)"

section \<open>Cross-node login\<close>

definition GRANT_TTL_SECONDS :: int where "GRANT_TTL_SECONDS = 60"

record CrossNodeLoginGrant =
  gr_identity_id :: bytes
  gr_signing_key_id :: bytes
  gr_destination_base_url :: str
  gr_requesting_context :: str
  gr_nonce :: bytes
  gr_issued_at :: time
  gr_expires_at :: time
  gr_signature :: str

definition grant_signing_bytes :: "crates \<Rightarrow> bytes \<Rightarrow> bytes \<Rightarrow> str \<Rightarrow> str \<Rightarrow> bytes \<Rightarrow> time \<Rightarrow> time \<Rightarrow> bytes" where
  "grant_signing_bytes C identity_id signing_key_id destination_base_url requesting_context nonce issued_at expires_at =
     as_bytes (''avalon:cross-node-login:v1:'' @ identity_id_display C identity_id @ '':'' @ uuid_text C signing_key_id @ '':'' @
       destination_base_url @ '':'' @ requesting_context @ '':'' @ uuid_text C nonce @ '':'' @
       int_str (unix_timestamp issued_at) @ '':'' @ int_str (unix_timestamp expires_at))"

definition gr_signing_bytes :: "crates \<Rightarrow> CrossNodeLoginGrant \<Rightarrow> bytes" where
  "gr_signing_bytes C g =
     grant_signing_bytes C (gr_identity_id g) (gr_signing_key_id g) (gr_destination_base_url g) (gr_requesting_context g)
       (gr_nonce g) (gr_issued_at g) (gr_expires_at g)"

section \<open>Interest claims\<close>

datatype ClaimedScope = Channel bytes | Conversation bytes

definition CLAIM_TTL_SECONDS :: int where "CLAIM_TTL_SECONDS = 24 * 60 * 60"

record InterestClaim =
  ic_identity_id :: bytes
  ic_signing_key_id :: bytes
  ic_scope :: ClaimedScope
  ic_base_url :: str
  ic_nonce :: bytes
  ic_issued_at :: time
  ic_expires_at :: time
  ic_signature :: str

fun scope_tag :: "crates \<Rightarrow> ClaimedScope \<Rightarrow> str" where
  "scope_tag C (Channel channel_id) = ''channel:'' @ uuid_text C channel_id"
| "scope_tag C (Conversation conversation_id) = ''conversation:'' @ uuid_text C conversation_id"

definition claim_signing_bytes :: "crates \<Rightarrow> bytes \<Rightarrow> bytes \<Rightarrow> ClaimedScope \<Rightarrow> str \<Rightarrow> bytes \<Rightarrow> time \<Rightarrow> time \<Rightarrow> bytes" where
  "claim_signing_bytes C identity_id signing_key_id scope base_url nonce issued_at expires_at =
     as_bytes (''avalon:interest-claim:v1:'' @ identity_id_display C identity_id @ '':'' @ uuid_text C signing_key_id @ '':'' @
       scope_tag C scope @ '':'' @ base_url @ '':'' @ uuid_text C nonce @ '':'' @
       int_str (unix_timestamp issued_at) @ '':'' @ int_str (unix_timestamp expires_at))"

definition ic_signing_bytes :: "crates \<Rightarrow> InterestClaim \<Rightarrow> bytes" where
  "ic_signing_bytes C c =
     claim_signing_bytes C (ic_identity_id c) (ic_signing_key_id c) (ic_scope c) (ic_base_url c) (ic_nonce c) (ic_issued_at c) (ic_expires_at c)"

section \<open>What the signatures bind\<close>

lemma uuid_text_append:
  assumes "uuid_ok C" "length u = 16" "length v = 16"
  shows "uuid_text C u @ r = uuid_text C v @ s \<longleftrightarrow> u = v \<and> r = s"
proof -
  have "uuid_parse C (uuid_text C u) = Some u" "uuid_parse C (uuid_text C v) = Some v" "length (uuid_text C u) = length (uuid_text C v)"
    using assms by (simp_all add: uuid_ok_def)
  then show ?thesis by (metis append_eq_append_conv option.inject)
qed

lemma identity_text_append:
  assumes "hex_ok C" "length i = 32" "length j = 32"
  shows "identity_id_display C i @ r = identity_id_display C j @ s \<longleftrightarrow> i = j \<and> r = s"
  using assms length_hex_encode [OF assms(1)] by (auto simp: identity_id_display_def hex_encode_inject)

lemma split_first_colon:
  assumes "CHR '':'' \<notin> set a" "CHR '':'' \<notin> set b" "a @ CHR '':'' # r = b @ CHR '':'' # s"
  shows "a = b \<and> r = s"
  using assms by (induction a arbitrary: b) (auto simp: Cons_eq_append_conv append_eq_Cons_conv)

lemma split_last_colon:
  assumes "CHR '':'' \<notin> set a" "CHR '':'' \<notin> set b" "r @ CHR '':'' # a = s @ CHR '':'' # b"
  shows "r = s \<and> a = b"
proof -
  have "rev a @ CHR '':'' # rev r = rev b @ CHR '':'' # rev s" using arg_cong [OF assms(3), of rev] by simp
  then show ?thesis using split_first_colon [of "rev a" "rev b" "rev r" "rev s"] assms(1,2) by simp
qed

text \<open>The tail every assertion has: a nonce and the two instants.\<close>

definition token_tail :: "crates \<Rightarrow> bytes \<Rightarrow> int \<Rightarrow> int \<Rightarrow> str" where
  "token_tail C nonce i e = '':'' @ uuid_text C nonce @ '':'' @ int_str i @ '':'' @ int_str e"

lemma token_tail_inject:
  assumes "uuid_ok C" "length n = 16" "length n' = 16" "r @ token_tail C n i e = s @ token_tail C n' i' e'"
  shows "r = s \<and> n = n' \<and> i = i' \<and> e = e'"
proof -
  have tail: "r @ token_tail C m j f = ((r @ '':'' @ uuid_text C m) @ CHR '':'' # int_str j) @ CHR '':'' # int_str f" for r m j f
    by (simp add: token_tail_def)
  from assms(4) split_last_colon [of "int_str e" "int_str e'"]
  have e: "(r @ '':'' @ uuid_text C n) @ CHR '':'' # int_str i = (s @ '':'' @ uuid_text C n') @ CHR '':'' # int_str i'" "e = e'"
    unfolding tail by fastforce+
  from split_last_colon [OF _ _ e(1)] have i: "r @ '':'' @ uuid_text C n = s @ '':'' @ uuid_text C n'" "i = i'" by simp_all
  have "length (uuid_text C n) = length (uuid_text C n')" using assms(1-3) by (simp add: uuid_ok_def)
  with i(1) have "r = s" "uuid_text C n = uuid_text C n'" by simp_all
  then show ?thesis using uuid_text_append [OF assms(1-3), of "[]" "[]"] i(2) e(2) by simp
qed

lemma token_head_inject:
  assumes "hex_ok C" "uuid_ok C" "length i = 32" "length i' = 32" "length k = 16" "length k' = 16"
    "identity_id_display C i @ '':'' @ uuid_text C k @ r = identity_id_display C i' @ '':'' @ uuid_text C k' @ s"
  shows "i = i' \<and> k = k' \<and> r = s"
  using assms(7) by (auto simp: identity_text_append [OF assms(1,3,4)] uuid_text_append [OF assms(2,5,6)])

fun scope_id :: "ClaimedScope \<Rightarrow> bytes" where
  "scope_id (Channel c) = c"
| "scope_id (Conversation c) = c"

lemma scope_tag_inject:
  assumes "uuid_ok C" "length (scope_id a) = 16" "length (scope_id b) = 16" "scope_tag C a @ r = scope_tag C b @ s"
  shows "a = b \<and> r = s"
  using assms(2-4) uuid_text_append [OF assms(1)] by (cases a; cases b) auto

text \<open>The signature of a continuation token covers the identity, the key, the nonce and the seconds of its window, and
  the signature of an interest claim covers its scope and delivery address too: equal signed bytes mean
  equal fields, so a claim observed in the overlay cannot be republished for another node.\<close>

theorem self_signed_bytes_bind:
  assumes "hex_ok C" and "uuid_ok C" and "length i = 32" and "length i' = 32" and "length k = 16" and "length k' = 16"
    and "length n = 16" and "length n' = 16" and "length (scope_id scope) = 16" and "length (scope_id scope') = 16"
  shows "(continuation_signing_bytes C i k n t e = continuation_signing_bytes C i' k' n' t' e' \<longleftrightarrow>
      i = i' \<and> k = k' \<and> n = n' \<and> unix_timestamp t = unix_timestamp t' \<and> unix_timestamp e = unix_timestamp e') \<and>
    (claim_signing_bytes C i k scope url n t e = claim_signing_bytes C i' k' scope' url' n' t' e' \<longleftrightarrow>
      i = i' \<and> k = k' \<and> scope = scope' \<and> url = url' \<and> n = n' \<and> unix_timestamp t = unix_timestamp t' \<and> unix_timestamp e = unix_timestamp e')"
proof -
  let ?tail = "token_tail C n (unix_timestamp t) (unix_timestamp e)" and ?tail' = "token_tail C n' (unix_timestamp t') (unix_timestamp e')"
  note head = token_head_inject [OF assms(1-6)]
  have a: "i = i' \<and> k = k' \<and> n = n' \<and> unix_timestamp t = unix_timestamp t' \<and> unix_timestamp e = unix_timestamp e'"
    if "continuation_signing_bytes C i k n t e = continuation_signing_bytes C i' k' n' t' e'"
  proof -
    have "identity_id_display C i @ '':'' @ uuid_text C k @ ?tail = identity_id_display C i' @ '':'' @ uuid_text C k' @ ?tail'"
      using that by (simp add: continuation_signing_bytes_def token_tail_def)
    from head [OF this] show ?thesis using token_tail_inject [OF assms(2,7,8), of "[]" _ _ "[]"] by auto
  qed
  have b: "i = i' \<and> k = k' \<and> scope = scope' \<and> url = url' \<and> n = n' \<and> unix_timestamp t = unix_timestamp t' \<and> unix_timestamp e = unix_timestamp e'"
    if "claim_signing_bytes C i k scope url n t e = claim_signing_bytes C i' k' scope' url' n' t' e'"
  proof -
    have "identity_id_display C i @ '':'' @ uuid_text C k @ '':'' @ scope_tag C scope @ '':'' @ url @ ?tail =
        identity_id_display C i' @ '':'' @ uuid_text C k' @ '':'' @ scope_tag C scope' @ '':'' @ url' @ ?tail'"
      using that by (simp add: claim_signing_bytes_def token_tail_def)
    from head [OF this] have ik: "i = i'" "k = k'" and st: "scope_tag C scope @ '':'' @ url @ ?tail = scope_tag C scope' @ '':'' @ url' @ ?tail'" by simp_all
    from scope_tag_inject [OF assms(2,9,10) st] have "scope = scope'" "url @ ?tail = url' @ ?tail'" by simp_all
    then show ?thesis using ik token_tail_inject [OF assms(2,7,8)] by blast
  qed
  show ?thesis
    by (rule conjI; rule iffI) (erule a, simp add: continuation_signing_bytes_def, erule b, simp add: claim_signing_bytes_def)
qed

text \<open>Witness: two claims that differ in their delivery address.\<close>

theorem self_signed_bytes_bind_witness:
  "claim_signing_bytes demo_crates (replicate 32 1) (replicate 16 2) (Channel (replicate 16 3)) ''https://a'' (replicate 16 4) 0 0 \<noteq>
   claim_signing_bytes demo_crates (replicate 32 1) (replicate 16 2) (Channel (replicate 16 3)) ''https://b'' (replicate 16 4) 0 0"
  using self_signed_bytes_bind [OF demo_hex_ok demo_uuid_ok, of "replicate 32 1" "replicate 32 1" "replicate 16 2" "replicate 16 2"
      "replicate 16 4" "replicate 16 4" "Channel (replicate 16 3)" "Channel (replicate 16 3)"] by simp

text \<open>The bytes of a login grant join two free texts, so they do not separate them: a signature for one destination
  and context is a signature for another destination and context.\<close>

theorem grant_bytes_ambiguous:
  "grant_signing_bytes C i k (dest @ '':'' @ port) context n t e = grant_signing_bytes C i k dest (port @ '':'' @ context) n t e"
  by (simp add: grant_signing_bytes_def)

text \<open>No signature covers a fraction of a second: a token whose expiry moves within its second keeps its signed bytes.\<close>

theorem fraction_not_signed:
  assumes "unix_timestamp t = unix_timestamp t'" and "unix_timestamp e = unix_timestamp e'"
  shows "continuation_signing_bytes C i k n t e = continuation_signing_bytes C i k n t' e' \<and>
    grant_signing_bytes C i k dest context n t e = grant_signing_bytes C i k dest context n t' e'"
  using assms by (simp add: continuation_signing_bytes_def grant_signing_bytes_def)

end
