(* ===== verification/Login.thy ===== *)
theory Login
  imports Tokens
begin

text \<open>
  Model of \<open>crates/server/src/continuation.rs\<close>, \<open>cross_node_login.rs\<close> and \<open>sessions.rs\<close>: the sessions of a node, the
  self-signed tokens that stand in for one, and the request, grant and poll steps of a login approved
  on another node. The tables are lists of rows. A handler reads two clocks: \<open>now\<close> is the process's,
  \<open>db_now\<close> the database's \<open>now()\<close>. Random values (codes, tokens) are arguments, and so is \<open>remote\<close>, the
  key another node serves for an identity, as \<open>resolve_signing_key_cross_shard\<close> returns it; the stub
  profile that \<open>provision_local_identity_stub\<close> writes for such an identity is in tables no step here
  reads. A connection error of the database is not an outcome.
\<close>

section \<open>Tables\<close>

record SigningKeyRow =
  sk_signing_key_id :: bytes
  sk_identity_id :: bytes
  sk_public_key :: bytes
  sk_revoked_at :: "time option"

datatype request_status = Pending | Approved | Denied | Expired

record login_request =
  lr_request_code_hash :: str
  lr_user_code :: str
  lr_status :: request_status
  lr_requesting_base_url :: str
  lr_expires_at :: time
  lr_last_polled_at :: "time option"
  lr_identity_id :: "bytes option"
  lr_approved_by :: "bytes option"

record session_row =
  ss_id :: bytes
  ss_token_hash :: bytes
  ss_identity_id :: bytes
  ss_expires_at :: time
  ss_origin_passkey_id :: "bytes option"
  ss_origin_signing_key_id :: "bytes option"

record login_db =
  ld_signing_keys :: "SigningKeyRow list"
  ld_local_keys :: "SigningKeyRow list"
  ld_key_revocations :: "(bytes \<times> bytes) list"
  ld_passkey_revocations :: "(bytes \<times> bytes) list"
  ld_continuation_nonces :: "(bytes \<times> time) list"
  ld_grant_nonces :: "(bytes \<times> time) list"
  ld_requests :: "login_request list"
  ld_sessions :: "session_row list"

datatype AppError = Unauthorized | LoginRequestNotFound | CodeGenerationFailed | SessionNotFound | Database

section \<open>Keys and signatures\<close>

definition find_active_by_id :: "SigningKeyRow list \<Rightarrow> bytes \<Rightarrow> bytes \<Rightarrow> SigningKeyRow option" where
  "find_active_by_id rows identity_id signing_key_id =
     find (\<lambda>r. sk_identity_id r = identity_id \<and> sk_signing_key_id r = signing_key_id \<and> sk_revoked_at r = None) rows"

definition verify_event_signature :: "crates \<Rightarrow> bytes \<Rightarrow> bytes \<Rightarrow> bytes \<Rightarrow> bool" where
  "verify_event_signature C public_key_bytes message signature_bytes =
     (case to_array 32 public_key_bytes of
        None \<Rightarrow> False
      | Some key_array \<Rightarrow>
          (case parse_ed25519_public_key C key_array of
             None \<Rightarrow> False
           | Some key \<Rightarrow>
               (case to_array 64 signature_bytes of
                  None \<Rightarrow> False
                | Some sig_array \<Rightarrow> verify_strict_signature C key message sig_array)))"

definition signing_key_usable :: "login_db \<Rightarrow> bytes \<Rightarrow> bytes \<Rightarrow> bool \<Rightarrow> bool" where
  "signing_key_usable d identity_id signing_key_id require_local =
     (let revoked = (identity_id, signing_key_id) \<in> set (ld_key_revocations d) in
      case find (\<lambda>r. sk_signing_key_id r = signing_key_id \<and> sk_identity_id r = identity_id) (ld_local_keys d) of
        Some r \<Rightarrow> if sk_revoked_at r \<noteq> None then False else \<not> revoked
      | None \<Rightarrow> if require_local then False else \<not> revoked)"

section \<open>Sessions\<close>

definition SESSION_LIFETIME_DAYS :: int where "SESSION_LIFETIME_DAYS = 30"

definition hash_token :: "crates \<Rightarrow> str \<Rightarrow> bytes" where
  "hash_token C token = sha256 C (as_bytes token)"

record SessionOrigin =
  so_passkey_id :: "bytes option"
  so_signing_key_id :: "bytes option"

definition mint ::
  "crates \<Rightarrow> time \<Rightarrow> bytes \<Rightarrow> str \<Rightarrow> bytes \<Rightarrow> SessionOrigin \<Rightarrow> login_db \<Rightarrow> AppError + (str \<times> time) \<times> login_db" where
  "mint C now row_id token identity_id origin d =
     (if so_passkey_id origin = None \<and> so_signing_key_id origin = None then Err Unauthorized
      else
        let expires_at = now + SESSION_LIFETIME_DAYS * 86400 * nanos_per_sec in
        if hash_token C token \<in> ss_token_hash ` set (ld_sessions d) then Err Database
        else Ok ((token, expires_at), d\<lparr>ld_sessions := ld_sessions d @
          [\<lparr>ss_id = row_id, ss_token_hash = hash_token C token, ss_identity_id = identity_id, ss_expires_at = pg_time expires_at,
            ss_origin_passkey_id = so_passkey_id origin, ss_origin_signing_key_id = so_signing_key_id origin\<rparr>]\<rparr>))"

definition live_session :: "login_db \<Rightarrow> time \<Rightarrow> bytes \<Rightarrow> session_row \<Rightarrow> bool" where
  "live_session d db_now h s \<longleftrightarrow> ss_token_hash s = h \<and> ss_expires_at s > db_now \<and>
     (case ss_origin_signing_key_id s of Some k \<Rightarrow> (ss_identity_id s, k) \<notin> set (ld_key_revocations d) | None \<Rightarrow> True) \<and>
     (case ss_origin_passkey_id s of Some k \<Rightarrow> (ss_identity_id s, k) \<notin> set (ld_passkey_revocations d) | None \<Rightarrow> True)"

definition resolve_session :: "crates \<Rightarrow> time \<Rightarrow> str \<Rightarrow> login_db \<Rightarrow> AppError + bytes" where
  "resolve_session C db_now token d =
     (case find (live_session d db_now (hash_token C token)) (ld_sessions d) of
        None \<Rightarrow> Err Unauthorized
      | Some s \<Rightarrow> if ss_token_hash s \<noteq> hash_token C token then Err Unauthorized else Ok (ss_identity_id s))"

definition delete_sessions :: "(session_row \<Rightarrow> bool) \<Rightarrow> login_db \<Rightarrow> nat \<times> login_db" where
  "delete_sessions P d = (length (filter P (ld_sessions d)), d\<lparr>ld_sessions := filter (\<lambda>s. \<not> P s) (ld_sessions d)\<rparr>)"

definition end_for_passkey :: "bytes \<Rightarrow> bytes \<Rightarrow> login_db \<Rightarrow> nat \<times> login_db" where
  "end_for_passkey identity_id passkey_id =
     delete_sessions (\<lambda>s. ss_identity_id s = identity_id \<and> ss_origin_passkey_id s = Some passkey_id)"

definition end_for_signing_key :: "bytes \<Rightarrow> bytes \<Rightarrow> login_db \<Rightarrow> nat \<times> login_db" where
  "end_for_signing_key identity_id signing_key_id =
     delete_sessions (\<lambda>s. ss_identity_id s = identity_id \<and> ss_origin_signing_key_id s = Some signing_key_id)"

definition end_all_for_identity :: "bytes \<Rightarrow> login_db \<Rightarrow> nat \<times> login_db" where
  "end_all_for_identity identity_id d =
     delete_sessions (\<lambda>s. ss_identity_id s = identity_id)
       (d\<lparr>ld_requests := filter (\<lambda>r. lr_identity_id r \<noteq> Some identity_id) (ld_requests d)\<rparr>)"

definition revoke_session :: "bytes \<Rightarrow> bytes \<Rightarrow> login_db \<Rightarrow> AppError + login_db" where
  "revoke_session identity_id session_id d =
     (let (n, d') = delete_sessions (\<lambda>s. ss_id s = session_id \<and> ss_identity_id s = identity_id) d
      in if n = 0 then Err SessionNotFound else Ok d')"

section \<open>Continuation tokens\<close>

definition CLOCK_SKEW_ALLOWANCE :: int where "CLOCK_SKEW_ALLOWANCE = 5 * nanos_per_sec"

text \<open>The sweep and the insert with \<open>ON CONFLICT DO NOTHING\<close>; the result says whether a row was inserted.\<close>

definition consume_nonce :: "time \<Rightarrow> bytes \<Rightarrow> time \<Rightarrow> (bytes \<times> time) list \<Rightarrow> bool \<times> (bytes \<times> time) list" where
  "consume_nonce db_now nonce expires_at rows =
     (let kept = filter (\<lambda>(n, e). \<not> e < db_now) rows
      in if nonce \<in> fst ` set kept then (False, kept) else (True, kept @ [(nonce, pg_time expires_at)]))"

definition continuation_verify :: "crates \<Rightarrow> time \<Rightarrow> time \<Rightarrow> ContinuationToken \<Rightarrow> login_db \<Rightarrow> (AppError + bytes) \<times> login_db" where
  "continuation_verify C now db_now token d =
     (if ct_expires_at token < now \<or> ct_issued_at token > now + CLOCK_SKEW_ALLOWANCE then (Err Unauthorized, d)
      else if ct_expires_at token - ct_issued_at token > CONTINUATION_TTL_SECONDS * nanos_per_sec then (Err Unauthorized, d)
      else
        case find_active_by_id (ld_signing_keys d) (ct_identity_id token) (ct_signing_key_id token) of
          None \<Rightarrow> (Err Unauthorized, d)
        | Some key \<Rightarrow>
            (case hex_decode C (ct_signature token) of
               None \<Rightarrow> (Err Unauthorized, d)
             | Some sig \<Rightarrow>
                 if \<not> verify_event_signature C (sk_public_key key) (ct_signing_bytes C token) sig then (Err Unauthorized, d)
                 else
                   let (inserted, nonces) = consume_nonce db_now (ct_nonce token) (ct_expires_at token) (ld_continuation_nonces d);
                       d' = d\<lparr>ld_continuation_nonces := nonces\<rparr>
                   in if \<not> inserted then (Err Unauthorized, d') else (Ok (sk_identity_id key), d')))"

section \<open>Cross-node login\<close>

definition REQUEST_TTL_MINUTES :: int where "REQUEST_TTL_MINUTES = 10"
definition POLL_MIN_INTERVAL_SECONDS :: int where "POLL_MIN_INTERVAL_SECONDS = 5"
definition MAX_ATTEMPTS :: nat where "MAX_ATTEMPTS = 20"

text \<open>\<open>codes\<close> are the random codes of the attempts.\<close>

fun start_attempts :: "crates \<Rightarrow> str \<Rightarrow> time \<Rightarrow> (str \<times> str) list \<Rightarrow> login_db \<Rightarrow> AppError + (str \<times> str) \<times> login_db" where
  "start_attempts C base_url expires_at [] d = Err CodeGenerationFailed"
| "start_attempts C base_url expires_at ((request_code, user_code) # codes) d =
     (let h = hex_encode C (hash_token C request_code) in
      if h \<in> lr_request_code_hash ` set (ld_requests d) \<or> user_code \<in> lr_user_code ` set (ld_requests d)
      then start_attempts C base_url expires_at codes d
      else Ok ((request_code, user_code), d\<lparr>ld_requests := ld_requests d @
        [\<lparr>lr_request_code_hash = h, lr_user_code = user_code, lr_status = Pending, lr_requesting_base_url = base_url,
          lr_expires_at = pg_time expires_at, lr_last_polled_at = None, lr_identity_id = None, lr_approved_by = None\<rparr>]\<rparr>))"

definition login_start :: "crates \<Rightarrow> str option \<Rightarrow> time \<Rightarrow> (str \<times> str) list \<Rightarrow> login_db \<Rightarrow> AppError + (str \<times> str) \<times> login_db" where
  "login_start C own_base_url now codes d =
     rbind (ok_or Unauthorized own_base_url) (\<lambda>base_url.
     start_attempts C base_url (now + REQUEST_TTL_MINUTES * 60 * nanos_per_sec) (take MAX_ATTEMPTS codes) d)"

definition lookup_status :: "time \<Rightarrow> login_request \<Rightarrow> request_status" where
  "lookup_status now r = (if lr_status r = Pending \<and> lr_expires_at r < now then Expired else lr_status r)"

definition login_lookup :: "time \<Rightarrow> str \<Rightarrow> login_db \<Rightarrow> AppError + request_status \<times> str \<times> int" where
  "login_lookup now user_code d =
     (case find (\<lambda>r. lr_user_code r = user_code) (ld_requests d) of
        None \<Rightarrow> Err LoginRequestNotFound
      | Some r \<Rightarrow>
          let left = lr_expires_at r - now;
              secs = (if 0 \<le> left then left div nanos_per_sec else - ((- left) div nanos_per_sec))
          in Ok (lookup_status now r, lr_requesting_base_url r, max secs 0))"

datatype poll_status = PollExpired | PollDenied | PollPending | PollSlowDown | PollApproved "str \<times> time"

definition update_requests :: "(login_request \<Rightarrow> bool) \<Rightarrow> (login_request \<Rightarrow> login_request) \<Rightarrow> login_db \<Rightarrow> login_db" where
  "update_requests P f d = d\<lparr>ld_requests := map (\<lambda>r. if P r then f r else r) (ld_requests d)\<rparr>"

definition set_expired :: "str \<Rightarrow> request_status \<Rightarrow> login_db \<Rightarrow> login_db" where
  "set_expired h s = update_requests (\<lambda>r. lr_request_code_hash r = h \<and> lr_status r = s) (\<lambda>r. r\<lparr>lr_status := Expired\<rparr>)"

text \<open>The transaction of an approved poll: it commits in every case but a failed insert.\<close>

definition poll_consume :: "crates \<Rightarrow> time \<Rightarrow> bytes \<Rightarrow> str \<Rightarrow> str \<Rightarrow> login_db \<Rightarrow> (AppError + poll_status) \<times> login_db" where
  "poll_consume C now row_id token h d =
     (case find (\<lambda>r. lr_request_code_hash r = h \<and> lr_status r = Approved) (ld_requests d) of
        None \<Rightarrow> (Ok PollExpired, d)
      | Some consumed \<Rightarrow>
          let d' = set_expired h Approved d in
          case lr_identity_id consumed of
            None \<Rightarrow> (Ok PollExpired, d')
          | Some identity_id \<Rightarrow>
              (case lr_approved_by consumed of
                 None \<Rightarrow> (Ok PollExpired, d')
               | Some key_id \<Rightarrow>
                   if \<not> signing_key_usable d' identity_id key_id False then (Ok PollExpired, d')
                   else
                     case mint C now row_id token identity_id \<lparr>so_passkey_id = None, so_signing_key_id = Some key_id\<rparr> d' of
                       Inl e \<Rightarrow> (Err e, d)
                     | Inr (session, d'') \<Rightarrow> (Ok (PollApproved session), d'')))"

text \<open>What a poll does once it has read the row \<open>r\<close>; other requests may have run since.\<close>

definition poll_act :: "crates \<Rightarrow> time \<Rightarrow> bytes \<Rightarrow> str \<Rightarrow> str \<Rightarrow> login_request \<Rightarrow> login_db \<Rightarrow> (AppError + poll_status) \<times> login_db" where
  "poll_act C now row_id token h r d =
     (if lr_status r = Pending \<and> lr_expires_at r < now then (Ok PollExpired, set_expired h Pending d)
      else
        case lr_status r of
          Expired \<Rightarrow> (Ok PollExpired, d)
        | Denied \<Rightarrow> (Ok PollDenied, d)
        | Pending \<Rightarrow>
            let d' = update_requests (\<lambda>r. lr_request_code_hash r = h) (\<lambda>r. r\<lparr>lr_last_polled_at := Some (pg_time now)\<rparr>) d in
            (case lr_last_polled_at r of
               Some polled \<Rightarrow> if now - polled < POLL_MIN_INTERVAL_SECONDS * nanos_per_sec then (Ok PollSlowDown, d') else (Ok PollPending, d')
             | None \<Rightarrow> (Ok PollPending, d'))
        | Approved \<Rightarrow>
            if lr_expires_at r < now then (Ok PollExpired, set_expired h Approved d)
            else poll_consume C now row_id token h d)"

definition login_poll :: "crates \<Rightarrow> time \<Rightarrow> bytes \<Rightarrow> str \<Rightarrow> str option \<Rightarrow> login_db \<Rightarrow> (AppError + poll_status) \<times> login_db" where
  "login_poll C now row_id token bearer d =
     (case bearer of
        None \<Rightarrow> (Err Unauthorized, d)
      | Some code \<Rightarrow>
          let h = hex_encode C (hash_token C code) in
          (case find (\<lambda>r. lr_request_code_hash r = h) (ld_requests d) of
             None \<Rightarrow> (Err Unauthorized, d)
           | Some r \<Rightarrow> poll_act C now row_id token h r d))"

definition verify_grant ::
  "crates \<Rightarrow> (bytes \<Rightarrow> bytes \<Rightarrow> bytes option) \<Rightarrow> str option \<Rightarrow> time \<Rightarrow> time \<Rightarrow> CrossNodeLoginGrant \<Rightarrow> login_db \<Rightarrow> (AppError + bytes) \<times> login_db" where
  "verify_grant C remote own_base_url now db_now grant d =
     (if gr_expires_at grant < now \<or> gr_issued_at grant > now + CLOCK_SKEW_ALLOWANCE then (Err Unauthorized, d)
      else if gr_expires_at grant - gr_issued_at grant > GRANT_TTL_SECONDS * nanos_per_sec then (Err Unauthorized, d)
      else if own_base_url \<noteq> Some (gr_destination_base_url grant) then (Err Unauthorized, d)
      else
        case (case find_active_by_id (ld_signing_keys d) (gr_identity_id grant) (gr_signing_key_id grant) of
                Some key \<Rightarrow> if sk_identity_id key \<noteq> gr_identity_id grant then None else Some (sk_public_key key)
              | None \<Rightarrow> remote (gr_identity_id grant) (gr_signing_key_id grant)) of
          None \<Rightarrow> (Err Unauthorized, d)
        | Some public_key \<Rightarrow>
            (case hex_decode C (gr_signature grant) of
               None \<Rightarrow> (Err Unauthorized, d)
             | Some sig \<Rightarrow>
                 if \<not> verify_event_signature C public_key (gr_signing_bytes C grant) sig then (Err Unauthorized, d)
                 else
                   let (inserted, nonces) = consume_nonce db_now (gr_nonce grant) (gr_expires_at grant) (ld_grant_nonces d);
                       d' = d\<lparr>ld_grant_nonces := nonces\<rparr>
                   in if \<not> inserted then (Err Unauthorized, d') else (Ok (gr_identity_id grant), d')))"

definition login_submit ::
  "crates \<Rightarrow> (bytes \<Rightarrow> bytes \<Rightarrow> bytes option) \<Rightarrow> str option \<Rightarrow> time \<Rightarrow> time \<Rightarrow> bytes \<Rightarrow> str \<Rightarrow> str option \<Rightarrow> CrossNodeLoginGrant \<Rightarrow>
   login_db \<Rightarrow> (AppError + (str \<times> time) option) \<times> login_db" where
  "login_submit C remote own_base_url now db_now row_id token user_code grant d =
     (case verify_grant C remote own_base_url now db_now grant d of
        (Inl e, d') \<Rightarrow> (Err e, d')
      | (Inr identity_id, d') \<Rightarrow>
          (case user_code of
             None \<Rightarrow>
               if \<not> signing_key_usable d' identity_id (gr_signing_key_id grant) False then (Err Unauthorized, d')
               else
                 (case mint C now row_id token identity_id \<lparr>so_passkey_id = None, so_signing_key_id = Some (gr_signing_key_id grant)\<rparr> d' of
                    Inl e \<Rightarrow> (Err e, d')
                  | Inr (session, d'') \<Rightarrow> (Ok (Some session), d''))
           | Some code \<Rightarrow>
               let P = (\<lambda>r. lr_user_code r = code \<and> lr_status r = Pending \<and> lr_expires_at r > db_now) in
               if \<not> list_ex P (ld_requests d') then (Err LoginRequestNotFound, d')
               else (Ok None, update_requests P
                 (\<lambda>r. r\<lparr>lr_status := Approved, lr_identity_id := Some identity_id, lr_approved_by := Some (gr_signing_key_id grant)\<rparr>) d')))"

definition login_deny :: "time \<Rightarrow> str \<Rightarrow> login_db \<Rightarrow> AppError + login_db" where
  "login_deny db_now user_code d =
     (let P = (\<lambda>r. lr_user_code r = user_code \<and> lr_status r = Pending \<and> lr_expires_at r > db_now) in
      if \<not> list_ex P (ld_requests d) then Err LoginRequestNotFound
      else Ok (update_requests P (\<lambda>r. r\<lparr>lr_status := Denied\<rparr>) d))"

end
