(* ===== verification/Login_Facts.thy ===== *)
theory Login_Facts
  imports Login
begin

text \<open>
  What the login steps guarantee, also when requests interleave: a poll acts on the row it read
  before, which may be stale. A run carries the list of what happened, so that a theorem can count.
\<close>

section \<open>Runs\<close>

datatype login_label = Started str | ApprovedBy str bytes bytes | Minted str bytes bytes | Other

text \<open>A step of the node. Key tables and sessions may change in between in any way.\<close>

inductive login_step ::
  "crates \<Rightarrow> (bytes \<Rightarrow> bytes \<Rightarrow> bytes option) \<Rightarrow> str option \<Rightarrow> login_db \<Rightarrow> login_label \<Rightarrow> login_db \<Rightarrow> bool" for C remote own where
  start: "login_start C own now codes d = Ok ((rc, uc), d') \<Longrightarrow>
    login_step C remote own d (Started (hex_encode C (hash_token C rc))) d'"
| approve: "login_submit C remote own now db_now row_id token (Some code) g d = (Ok None, d') \<Longrightarrow>
    r \<in> set (ld_requests d) \<Longrightarrow> lr_user_code r = code \<Longrightarrow> lr_status r = Pending \<Longrightarrow>
    login_step C remote own d (ApprovedBy (lr_request_code_hash r) (gr_identity_id g) (gr_signing_key_id g)) d'"
| submit_other: "login_submit C remote own now db_now row_id token uc g d = (res, d') \<Longrightarrow> res \<noteq> Ok None \<Longrightarrow> login_step C remote own d Other d'"
| deny: "login_deny db_now code d = Ok d' \<Longrightarrow> login_step C remote own d Other d'"
| poll_minted: "poll_act C now row_id token h stale d = (Ok (PollApproved s), d') \<Longrightarrow>
    r \<in> set (ld_requests d) \<Longrightarrow> lr_request_code_hash r = h \<Longrightarrow> lr_status r = Approved \<Longrightarrow>
    lr_identity_id r = Some i \<Longrightarrow> lr_approved_by r = Some k \<Longrightarrow> login_step C remote own d (Minted h i k) d'"
| poll_other: "poll_act C now row_id token h stale d = (res, d') \<Longrightarrow> (\<And>s. res \<noteq> Ok (PollApproved s)) \<Longrightarrow> login_step C remote own d Other d'"
| removed: "ld_requests d' = filter P (ld_requests d) \<Longrightarrow> login_step C remote own d Other d'"

inductive login_run ::
  "crates \<Rightarrow> (bytes \<Rightarrow> bytes \<Rightarrow> bytes option) \<Rightarrow> str option \<Rightarrow> login_db \<Rightarrow> login_label list \<Rightarrow> login_db \<Rightarrow> bool" for C remote own where
  run_nil: "login_run C remote own d [] d"
| run_snoc: "login_run C remote own d ls d' \<Longrightarrow> login_step C remote own d' l d'' \<Longrightarrow> login_run C remote own d (ls @ [l]) d''"

section \<open>Request rows\<close>

lemma update_requests_set:
  "ld_requests (update_requests P f d) = map (\<lambda>r. if P r then f r else r) (ld_requests d)"
  by (simp add: update_requests_def)

lemma mint_requests: "mint C now row_id token i origin d = Ok (s, d') \<Longrightarrow> ld_requests d' = ld_requests d"
  by (auto simp: mint_def Let_def split: if_splits)

lemma verify_grant_requests: "verify_grant C remote own now db_now g d = (res, d') \<Longrightarrow> ld_requests d' = ld_requests d"
  by (auto simp: verify_grant_def Let_def split: if_splits option.splits prod.splits)

text \<open>How the request table changes in a step.\<close>

abbreviation codes :: "login_db \<Rightarrow> str list" where
  "codes d \<equiv> map lr_request_code_hash (ld_requests d)"

abbreviation user_codes :: "login_db \<Rightarrow> str list" where
  "user_codes d \<equiv> map lr_user_code (ld_requests d)"

abbreviation unique_codes :: "login_db \<Rightarrow> bool" where
  "unique_codes d \<equiv> distinct (codes d) \<and> distinct (user_codes d)"

definition only_closes :: "login_db \<Rightarrow> login_db \<Rightarrow> bool" where
  "only_closes d d' \<longleftrightarrow> (\<forall>r'\<in>set (ld_requests d'). \<exists>r\<in>set (ld_requests d). lr_request_code_hash r' = lr_request_code_hash r \<and>
     (lr_status r' = Approved \<longrightarrow> lr_status r = Approved \<and> lr_identity_id r' = lr_identity_id r \<and> lr_approved_by r' = lr_approved_by r) \<and>
     (lr_status r = Expired \<longrightarrow> lr_status r' = Expired))"

lemma only_closes_refl: "ld_requests d' = ld_requests d \<Longrightarrow> only_closes d d'"
  by (auto simp: only_closes_def)

lemma only_closes_filter: "ld_requests d' = filter P (ld_requests d) \<Longrightarrow> only_closes d d'"
  by (auto simp: only_closes_def)

lemma only_closes_update:
  assumes "\<And>r. P r \<Longrightarrow> lr_request_code_hash (f r) = lr_request_code_hash r \<and>
      (lr_status (f r) = Approved \<longrightarrow> lr_status r = Approved \<and> lr_identity_id (f r) = lr_identity_id r \<and> lr_approved_by (f r) = lr_approved_by r) \<and>
      (lr_status r = Expired \<longrightarrow> lr_status (f r) = Expired)"
  shows "only_closes d (update_requests P f d)"
  using assms by (fastforce simp: only_closes_def update_requests_def)

lemma codes_update:
  "(\<And>r. P r \<Longrightarrow> lr_request_code_hash (f r) = lr_request_code_hash r \<and> lr_user_code (f r) = lr_user_code r) \<Longrightarrow>
   codes (update_requests P f d) = codes d \<and> user_codes (update_requests P f d) = user_codes d"
  by (auto simp: update_requests_def)

lemma only_closes_expired: "only_closes d (set_expired h s d)"
  unfolding set_expired_def by (rule only_closes_update) simp

lemma codes_expired [simp]: "codes (set_expired h s d) = codes d" "user_codes (set_expired h s d) = user_codes d"
  by (simp_all add: set_expired_def update_requests_def)

lemma submit_other_requests:
  assumes "login_submit C remote own now db_now row_id token uc g d = (res, d')" "res \<noteq> Ok None"
  shows "ld_requests d' = ld_requests d"
proof -
  obtain v d1 where v: "verify_grant C remote own now db_now g d = (v, d1)" by fastforce
  note r1 = verify_grant_requests [OF v]
  show ?thesis
  proof (cases v)
    case (Inr i)
    then show ?thesis using assms v r1
      by (cases uc) (auto simp: login_submit_def Let_def split: if_splits sum.splits prod.splits dest: mint_requests)
  qed (use assms v r1 in \<open>auto simp: login_submit_def\<close>)
qed

lemma poll_consume_other:
  assumes "poll_consume C now row_id token h d = (res, d')" "\<And>s. res \<noteq> Ok (PollApproved s)"
  shows "d' = d \<or> d' = set_expired h Approved d"
  using assms by (auto simp: poll_consume_def Let_def split: option.splits if_splits sum.splits)

lemma poll_other_requests:
  assumes "poll_act C now row_id token h stale d = (res, d')" "\<And>s. res \<noteq> Ok (PollApproved s)"
  shows "only_closes d d' \<and> codes d' = codes d \<and> user_codes d' = user_codes d"
proof -
  have polled: "only_closes d (update_requests P (\<lambda>r. r\<lparr>lr_last_polled_at := t\<rparr>) d) \<and> 
      codes (update_requests P (\<lambda>r. r\<lparr>lr_last_polled_at := t\<rparr>) d) = codes d \<and> user_codes (update_requests P (\<lambda>r. r\<lparr>lr_last_polled_at := t\<rparr>) d) = user_codes d" for P t
    by (auto simp: update_requests_def intro!: only_closes_update [unfolded update_requests_def])
  show ?thesis using assms polled only_closes_expired only_closes_refl poll_consume_other [of C now row_id token h d res d']
    by (auto simp: poll_act_def Let_def split: if_splits request_status.splits option.splits)
qed

lemma other_step:
  assumes "login_step C remote own d Other d'"
  shows "only_closes d d' \<and> (unique_codes d \<longrightarrow> unique_codes d')"
  using assms
proof cases
  case (submit_other now db_now row_id token uc g res)
  then show ?thesis using submit_other_requests [OF submit_other(1)] only_closes_refl by simp
next
  case (deny db_now code)
  then have d': "d' = update_requests (\<lambda>r. lr_user_code r = code \<and> lr_status r = Pending \<and> lr_expires_at r > db_now) (\<lambda>r. r\<lparr>lr_status := Denied\<rparr>) d"
    by (auto simp: login_deny_def Let_def split: if_splits)
  have "only_closes d d'" unfolding d' by (rule only_closes_update) auto
  moreover have "codes d' = codes d \<and> user_codes d' = user_codes d" unfolding d' by (rule codes_update) simp
  ultimately show ?thesis by simp
next
  case (poll_other now row_id token h stale res)
  then show ?thesis using poll_other_requests [OF poll_other(1)] by simp
next
  case (removed P)
  then show ?thesis using only_closes_filter [OF removed] by (simp add: distinct_map_filter)
qed

section \<open>One login per request\<close>

definition minted :: "str \<Rightarrow> login_label \<Rightarrow> bool" where
  "minted h l \<longleftrightarrow> (\<exists>i k. l = Minted h i k)"

definition run_ok :: "login_label list \<Rightarrow> login_db \<Rightarrow> bool" where
  "run_ok tr d \<longleftrightarrow> unique_codes d \<and>
     (\<forall>r\<in>set (ld_requests d). Started (lr_request_code_hash r) \<in> set tr \<and>
        (lr_status r = Approved \<longrightarrow> (\<exists>i k. lr_identity_id r = Some i \<and> lr_approved_by r = Some k \<and> ApprovedBy (lr_request_code_hash r) i k \<in> set tr))) \<and>
     (\<forall>h i k. Minted h i k \<in> set tr \<longrightarrow> Started h \<in> set tr \<and> (\<forall>r\<in>set (ld_requests d). lr_request_code_hash r = h \<longrightarrow> lr_status r = Expired))"

definition trace_ok :: "login_label list \<Rightarrow> bool" where
  "trace_ok tr \<longleftrightarrow> (\<forall>h. length (filter (minted h) tr) \<le> 1) \<and>
     (\<forall>a h i k b. tr = a @ Minted h i k # b \<longrightarrow> ApprovedBy h i k \<in> set a)"

definition starts :: "login_label list \<Rightarrow> str list" where
  "starts tr = List.map_filter (\<lambda>l. case l of Started h \<Rightarrow> Some h | _ \<Rightarrow> None) tr"

lemma starts_snoc: "starts (tr @ [l]) = starts tr @ (case l of Started h \<Rightarrow> [h] | _ \<Rightarrow> [])"
  by (simp add: starts_def map_filter_def split: login_label.splits)

lemma in_starts: "h \<in> set (starts tr) \<longleftrightarrow> Started h \<in> set tr"
  by (auto simp: starts_def map_filter_def split: login_label.splits) force

lemma trace_ok_snoc:
  assumes "trace_ok tr"
    and "\<And>h i k. l = Minted h i k \<Longrightarrow> ApprovedBy h i k \<in> set tr \<and> (\<forall>x\<in>set tr. \<not> minted h x)"
  shows "trace_ok (tr @ [l])"
proof -
  have "length (filter (minted h) (tr @ [l])) \<le> 1" for h
  proof (cases "minted h l")
    case True
    then obtain i k where "l = Minted h i k" by (auto simp: minted_def)
    from assms(2) [OF this] have "filter (minted h) tr = []" by (simp add: filter_empty_conv)
    with True show ?thesis by simp
  qed (use assms(1) in \<open>simp add: trace_ok_def\<close>)
  moreover have "ApprovedBy h i k \<in> set a" if "tr @ [l] = a @ Minted h i k # b" for a h i k b
  proof (cases b rule: rev_cases)
    case Nil
    with that assms(2) show ?thesis by auto
  next
    case (snoc ys y)
    with that have "tr = a @ Minted h i k # ys" by simp
    with assms(1) show ?thesis unfolding trace_ok_def by blast
  qed
  ultimately show ?thesis by (simp add: trace_ok_def)
qed

lemma run_ok_other:
  assumes "run_ok tr d" "only_closes d d' \<and> (unique_codes d \<longrightarrow> unique_codes d')"
  shows "run_ok (tr @ [Other]) d'"
proof -
  have "Started (lr_request_code_hash r') \<in> set tr \<and>
      (lr_status r' = Approved \<longrightarrow> (\<exists>i k. lr_identity_id r' = Some i \<and> lr_approved_by r' = Some k \<and> ApprovedBy (lr_request_code_hash r') i k \<in> set tr)) \<and>
      (\<forall>i k. Minted (lr_request_code_hash r') i k \<in> set tr \<longrightarrow> lr_status r' = Expired)" if "r' \<in> set (ld_requests d')" for r'
  proof -
    from assms(2) that obtain r where "r \<in> set (ld_requests d)" "lr_request_code_hash r' = lr_request_code_hash r"
      "lr_status r' = Approved \<longrightarrow> lr_status r = Approved \<and> lr_identity_id r' = lr_identity_id r \<and> lr_approved_by r' = lr_approved_by r"
      "lr_status r = Expired \<longrightarrow> lr_status r' = Expired" unfolding only_closes_def by blast
    with assms(1) show ?thesis unfolding run_ok_def by metis
  qed
  with assms show ?thesis unfolding run_ok_def by auto
qed

lemma start_attempts_row:
  assumes "start_attempts C url e cs d = Ok ((rc, uc), d')"
  shows "\<exists>r. ld_requests d' = ld_requests d @ [r] \<and> lr_request_code_hash r = hex_encode C (hash_token C rc) \<and> lr_status r = Pending \<and>
    lr_request_code_hash r \<notin> set (codes d) \<and> lr_user_code r \<notin> set (user_codes d)"
  using assms by (induction C url e cs d rule: start_attempts.induct) (auto simp: Let_def split: if_splits)

lemma submit_approves:
  assumes "login_submit C remote own now db_now row_id token (Some code) g d = (Ok None, d')"
  shows "\<exists>P. ld_requests d' = map (\<lambda>r. if P r then r\<lparr>lr_status := Approved, lr_identity_id := Some (gr_identity_id g),
      lr_approved_by := Some (gr_signing_key_id g)\<rparr> else r) (ld_requests d) \<and> (\<forall>r. P r \<longrightarrow> lr_user_code r = code \<and> lr_status r = Pending)"
proof -
  obtain v d1 where v: "verify_grant C remote own now db_now g d = (v, d1)" by fastforce
  then obtain i where i: "v = Ok i" using assms by (cases v) (auto simp: login_submit_def)
  have "i = gr_identity_id g" using v i by (auto simp: verify_grant_def Let_def split: if_splits option.splits prod.splits)
  then show ?thesis using assms v i verify_grant_requests [OF v]
    by (auto simp: login_submit_def update_requests_def Let_def split: if_splits
        intro!: exI [of _ "\<lambda>r. lr_user_code r = code \<and> lr_status r = Pending \<and> lr_expires_at r > db_now"])
qed

lemma poll_minted_requests:
  assumes "poll_act C now row_id token h stale d = (Ok (PollApproved s), d')"
  shows "ld_requests d' = ld_requests (set_expired h Approved d)"
  using assms by (auto simp: poll_act_def poll_consume_def Let_def split: if_splits request_status.splits option.splits sum.splits prod.splits
      dest: mint_requests)

lemma started_step:
  assumes "login_step C remote own d (Started h) d'" "run_ok tr d" "Started h \<notin> set tr"
  shows "run_ok (tr @ [Started h]) d'"
proof -
  from assms(1) obtain r where r: "ld_requests d' = ld_requests d @ [r]" "lr_request_code_hash r = h" "lr_status r = Pending"
    "lr_request_code_hash r \<notin> set (codes d)" "lr_user_code r \<notin> set (user_codes d)"
    by cases (auto simp: login_start_def rbind_eq_Inr dest!: start_attempts_row)
  have "\<forall>i k. Minted h i k \<notin> set tr" using assms(2,3) unfolding run_ok_def by blast
  then show ?thesis using assms(2) r unfolding run_ok_def by auto
qed

lemma approved_step:
  assumes step: "login_step C remote own d (ApprovedBy h i k) d'" and inv: "run_ok tr d"
  shows "run_ok (tr @ [ApprovedBy h i k]) d'"
proof -
  let ?f = "\<lambda>r. r\<lparr>lr_status := Approved, lr_identity_id := Some i, lr_approved_by := Some k\<rparr>"
  from step obtain code P r0 where r0: "r0 \<in> set (ld_requests d)" "lr_user_code r0 = code" "lr_request_code_hash r0 = h"
    and d': "ld_requests d' = map (\<lambda>r. if P r then ?f r else r) (ld_requests d)"
    and P: "\<forall>r. P r \<longrightarrow> lr_user_code r = code \<and> lr_status r = Pending"
    by cases (drule submit_approves, blast)
  have hash: "lr_request_code_hash r = h" if "r \<in> set (ld_requests d)" "P r" for r
  proof -
    have "lr_user_code r = lr_user_code r0" using P r0(2) that(2) by simp
    then have "r = r0" using inv r0(1) that(1) by (auto simp: run_ok_def distinct_map inj_on_def)
    then show ?thesis using r0(3) by simp
  qed
  have "codes d' = codes d \<and> user_codes d' = user_codes d" by (auto simp: d')
  then have uniq: "unique_codes d'" using inv by (simp add: run_ok_def)
  have "Started (lr_request_code_hash r') \<in> set tr \<and>
      (lr_status r' = Approved \<longrightarrow> (\<exists>i' k'. lr_identity_id r' = Some i' \<and> lr_approved_by r' = Some k' \<and>
        ApprovedBy (lr_request_code_hash r') i' k' \<in> set (tr @ [ApprovedBy h i k]))) \<and>
      (\<forall>i' k'. Minted (lr_request_code_hash r') i' k' \<in> set tr \<longrightarrow> lr_status r' = Expired)" if r': "r' \<in> set (ld_requests d')" for r'
  proof -
    from r' obtain r where r: "r \<in> set (ld_requests d)" "r' = (if P r then ?f r else r)" by (auto simp: d')
    have old: "Started (lr_request_code_hash r) \<in> set tr"
      "lr_status r = Approved \<longrightarrow> (\<exists>i k. lr_identity_id r = Some i \<and> lr_approved_by r = Some k \<and> ApprovedBy (lr_request_code_hash r) i k \<in> set tr)"
      "\<forall>i k. Minted (lr_request_code_hash r) i k \<in> set tr \<longrightarrow> lr_status r = Expired"
      using inv r(1) unfolding run_ok_def by blast+
    show ?thesis
    proof (cases "P r")
      case True
      then have "lr_status r = Pending" "lr_request_code_hash r = h" using P hash r(1) by simp_all
      then show ?thesis using True r(2) old(1,3) by simp
    qed (use r(2) old in auto)
  qed
  with uniq show ?thesis using inv unfolding run_ok_def by simp
qed

lemma minted_step:
  assumes step: "login_step C remote own d (Minted h i k) d'" and inv: "run_ok tr d"
  shows "run_ok (tr @ [Minted h i k]) d' \<and> ApprovedBy h i k \<in> set tr \<and> (\<forall>x\<in>set tr. \<not> minted h x)"
proof -
  from step obtain r where r: "r \<in> set (ld_requests d)" "lr_request_code_hash r = h" "lr_status r = Approved"
      "lr_identity_id r = Some i" "lr_approved_by r = Some k" and d': "ld_requests d' = ld_requests (set_expired h Approved d)"
    by cases (auto dest: poll_minted_requests)
  have old: "Started h \<in> set tr" "\<exists>i' k'. lr_identity_id r = Some i' \<and> lr_approved_by r = Some k' \<and> ApprovedBy h i' k' \<in> set tr"
    "\<forall>i k. Minted h i k \<in> set tr \<longrightarrow> lr_status r = Expired" using inv r unfolding run_ok_def by blast+
  have "only_closes d d' \<and> (unique_codes d \<longrightarrow> unique_codes d')"
    using only_closes_expired [of d h Approved] codes_expired [of h Approved d] d' by (simp add: only_closes_def)
  from run_ok_other [OF inv this] have other: "run_ok (tr @ [Other]) d'" .
  have "lr_status x = Expired" if "x \<in> set (ld_requests d')" "lr_request_code_hash x = h" for x
  proof -
    from that(1) obtain y where y: "y \<in> set (ld_requests d)" "x = (if lr_request_code_hash y = h \<and> lr_status y = Approved then y\<lparr>lr_status := Expired\<rparr> else y)"
      by (auto simp: d' set_expired_def update_requests_def)
    have "lr_request_code_hash y = h" using y(2) that(2) by (auto split: if_splits)
    then have "y = r" using y(1) r(1,2) inv by (auto simp: run_ok_def distinct_map inj_on_def)
    then show ?thesis using y(2) r(2,3) by simp
  qed
  then have "run_ok (tr @ [Minted h i k]) d'" using other old(1) unfolding run_ok_def by simp
  then show ?thesis using old(2,3) r(3-5) by (auto simp: minted_def)
qed

lemma run_step:
  assumes step: "login_step C remote own d l d'" and inv: "run_ok tr d" "trace_ok tr" and fresh: "distinct (starts (tr @ [l]))"
  shows "run_ok (tr @ [l]) d' \<and> trace_ok (tr @ [l])"
proof (cases l)
  case Other
  then show ?thesis using run_ok_other [OF inv(1) other_step] trace_ok_snoc [OF inv(2), of l] step by simp
next
  case (Started h)
  then have "Started h \<notin> set tr" using fresh by (simp add: starts_snoc in_starts)
  then show ?thesis using started_step [OF _ inv(1)] trace_ok_snoc [OF inv(2), of l] step Started by simp
next
  case (ApprovedBy h i k)
  then show ?thesis using approved_step [OF _ inv(1)] trace_ok_snoc [OF inv(2), of l] step by simp
next
  case (Minted h i k)
  then show ?thesis using minted_step [OF _ inv(1)] trace_ok_snoc [OF inv(2), of l] step by simp
qed

lemma run_invariant:
  assumes "login_run C remote own d tr d'" "ld_requests d = []" "distinct (starts tr)"
  shows "run_ok tr d' \<and> trace_ok tr"
  using assms
proof (induction rule: login_run.induct)
  case (run_nil d)
  then show ?case by (simp add: run_ok_def trace_ok_def)
next
  case (run_snoc d ls d' l d'')
  have "distinct (starts ls)" using run_snoc.prems(2) by (simp add: starts_snoc)
  with run_snoc.IH [OF run_snoc.prems(1)] show ?case using run_step [OF run_snoc.hyps(2) _ _ run_snoc.prems(2)] by blast
qed

text \<open>C11. An approved login is used once. However start, approval, denial, polls on stale reads, revocations and clean-up
  interleave, at most one session is ever minted for a request, and only after a grant of that very
  identity, signed by that very key, approved the request.\<close>

theorem login_single_use:
  assumes "login_run C remote own d tr d'" and "ld_requests d = []" and "distinct (starts tr)"
  shows "(\<forall>h. length (filter (minted h) tr) \<le> 1) \<and> (\<forall>a h i k b. tr = a @ Minted h i k # b \<longrightarrow> ApprovedBy h i k \<in> set a)"
  using run_invariant [OF assms] by (simp add: trace_ok_def)

section \<open>Grants and tokens\<close>

lemma consume_nonce_spec:
  assumes "consume_nonce t n e rows = (b, rows')"
  shows "set rows' = {x \<in> set rows. \<not> snd x < t} \<union> (if b then {(n, pg_time e)} else {}) \<and> (b \<longleftrightarrow> (\<forall>e'. (n, e') \<in> set rows \<longrightarrow> e' < t))"
proof -
  let ?kept = "filter (\<lambda>(n, e). \<not> e < t) rows"
  have k: "set ?kept = {x \<in> set rows. \<not> snd x < t}" by auto
  have "n \<in> fst ` set ?kept \<longleftrightarrow> \<not> (\<forall>e'. (n, e') \<in> set rows \<longrightarrow> e' < t)" by force
  moreover have "(b, rows') = (if n \<in> fst ` set ?kept then (False, ?kept) else (True, ?kept @ [(n, pg_time e)]))"
    using assms by (simp only: consume_nonce_def Let_def)
  ultimately show ?thesis using k by (auto split: if_splits)
qed

lemmas consume_nonce_True = consume_nonce_spec [where b = True, simplified]

text \<open>C34. A grant that is accepted names this node, is current, and is signed by an active key of the identity. A
  submission that succeeds had, over the signing bytes of the grant as it was submitted, a strict signature of a key
  that the node's own table or the identity's home lists as active; the destination of the grant is this node's
  address; the node's clock lies in its window, of at most a minute; its nonce was not stored with an expiry that the
  database clock had not passed, and is stored now. (The bytes join destination and context with a colon and do
  not tell where one ends, \<open>Tokens.grant_bytes_ambiguous\<close>; a nonce whose stored expiry has passed may come again.)\<close>

theorem grant_accepted:
  assumes "login_submit C remote own now db_now row_id token uc g d = (Ok s, d')"
  shows "own = Some (gr_destination_base_url g) \<and> now \<le> gr_expires_at g \<and> gr_issued_at g \<le> now + 5 * nanos_per_sec \<and>
    gr_expires_at g \<le> gr_issued_at g + 60 * nanos_per_sec \<and>
    (\<exists>key sig. ((\<exists>r\<in>set (ld_signing_keys d). sk_identity_id r = gr_identity_id g \<and> sk_signing_key_id r = gr_signing_key_id g \<and>
        sk_revoked_at r = None \<and> sk_public_key r = key) \<or> remote (gr_identity_id g) (gr_signing_key_id g) = Some key) \<and>
      hex_decode C (gr_signature g) = Some sig \<and> length key = 32 \<and> length sig = 64 \<and> is_acceptable_ed25519_key C key \<and>
      ed_verify_strict C key (gr_signing_bytes C g) sig) \<and>
    (\<forall>e. (gr_nonce g, e) \<in> set (ld_grant_nonces d) \<longrightarrow> e < db_now) \<and> (gr_nonce g, pg_time (gr_expires_at g)) \<in> set (ld_grant_nonces d')"
proof -
  obtain i d1 where v: "verify_grant C remote own now db_now g d = (Ok i, d1)"
    using assms by (cases "verify_grant C remote own now db_now g d") (auto simp: login_submit_def split: sum.splits)
  let ?key = "case find_active_by_id (ld_signing_keys d) (gr_identity_id g) (gr_signing_key_id g) of
                Some key \<Rightarrow> if sk_identity_id key \<noteq> gr_identity_id g then None else Some (sk_public_key key)
              | None \<Rightarrow> remote (gr_identity_id g) (gr_signing_key_id g)"
  from v obtain key sig nonces where key: "?key = Some key" and sig: "hex_decode C (gr_signature g) = Some sig"
    "verify_event_signature C key (gr_signing_bytes C g) sig"
    and n: "consume_nonce db_now (gr_nonce g) (gr_expires_at g) (ld_grant_nonces d) = (True, nonces)"
    and w: "now \<le> gr_expires_at g" "gr_issued_at g \<le> now + CLOCK_SKEW_ALLOWANCE"
      "gr_expires_at g - gr_issued_at g \<le> GRANT_TTL_SECONDS * nanos_per_sec" "own = Some (gr_destination_base_url g)"
    by (auto simp: verify_grant_def Let_def split: if_splits option.splits prod.splits)
  have "(\<exists>r\<in>set (ld_signing_keys d). sk_identity_id r = gr_identity_id g \<and> sk_signing_key_id r = gr_signing_key_id g \<and>
      sk_revoked_at r = None \<and> sk_public_key r = key) \<or> remote (gr_identity_id g) (gr_signing_key_id g) = Some key"
    using key by (auto simp: find_active_by_id_def find_Some_iff split: option.splits if_splits)
  moreover have "length key = 32 \<and> length sig = 64 \<and> is_acceptable_ed25519_key C key \<and> ed_verify_strict C key (gr_signing_bytes C g) sig"
    using sig(2) by (auto simp: verify_event_signature_def to_array_def parse_ed25519_public_key_def verify_strict_signature_def split: option.splits if_splits)
  moreover have "ld_grant_nonces d1 = nonces"
    using v n by (auto simp: verify_grant_def Let_def split: if_splits option.splits)
  then have "ld_grant_nonces d' = nonces"
    using assms v by (auto simp: login_submit_def mint_def update_requests_def Let_def split: if_splits option.splits sum.splits)
  moreover have "(gr_nonce g, pg_time (gr_expires_at g)) \<in> set nonces" using n by (auto simp: consume_nonce_def Let_def split: if_splits)
  ultimately show ?thesis using w sig(1) consume_nonce_True [OF n]
    by (auto simp: CLOCK_SKEW_ALLOWANCE_def GRANT_TTL_SECONDS_def)
qed

text \<open>Runs of continuation checks with the database clock never past \<open>bound\<close>.\<close>

inductive continuation_run :: "crates \<Rightarrow> time \<Rightarrow> login_db \<Rightarrow> login_db \<Rightarrow> bool" for C bound where
  cont_nil: "continuation_run C bound d d"
| cont_step: "continuation_run C bound d d' \<Longrightarrow> db_now \<le> bound \<Longrightarrow> continuation_verify C now db_now token d' = (res, d'') \<Longrightarrow>
    continuation_run C bound d d''"

lemma continuation_nonces:
  assumes "continuation_verify C now db_now token d = (res, d')"
  shows "ld_continuation_nonces d' = ld_continuation_nonces d \<and> (\<exists>e. res = Inl e) \<or>
    (\<exists>inserted. consume_nonce db_now (ct_nonce token) (ct_expires_at token) (ld_continuation_nonces d) = (inserted, ld_continuation_nonces d') \<and>
      (inserted \<longleftrightarrow> (\<exists>i. res = Inr i)))"
  using assms by (auto simp: continuation_verify_def Let_def split: if_splits option.splits prod.splits)

lemma continuation_keeps_nonce:
  assumes "continuation_verify C now db_now token d = (res, d')" "db_now \<le> e" "(n, e) \<in> set (ld_continuation_nonces d)"
  shows "(n, e) \<in> set (ld_continuation_nonces d')"
  using continuation_nonces [OF assms(1)] assms(2,3) by (auto dest!: consume_nonce_spec)

text \<open>A continuation token is accepted once, as long as the database clock has not passed the stored expiry: after an
  acceptance, and whatever other tokens are checked meanwhile, no token with that nonce is accepted again.\<close>

theorem continuation_single_use:
  assumes "continuation_verify C now1 db1 token d = (Ok i, d1)"
    and "continuation_run C (pg_time (ct_expires_at token)) d1 d2"
    and "db2 \<le> pg_time (ct_expires_at token)" and "ct_nonce token' = ct_nonce token"
    and "continuation_verify C now2 db2 token' d2 = (res, d3)"
  shows "res = Err Unauthorized"
proof -
  have stored: "(ct_nonce token, pg_time (ct_expires_at token)) \<in> set (ld_continuation_nonces d1)"
    using continuation_nonces [OF assms(1)] consume_nonce_True by auto
  from assms(2) stored have kept: "(ct_nonce token, pg_time (ct_expires_at token)) \<in> set (ld_continuation_nonces d2)"
    by (induction rule: continuation_run.induct) (auto dest: continuation_keeps_nonce)
  have "\<not> (\<exists>j. res = Ok j)"
  proof
    assume "\<exists>j. res = Ok j"
    with continuation_nonces [OF assms(5)]
    have "consume_nonce db2 (ct_nonce token') (ct_expires_at token') (ld_continuation_nonces d2) = (True, ld_continuation_nonces d3)" by auto
    from consume_nonce_True [OF this] kept assms(4) have "pg_time (ct_expires_at token) < db2" by simp
    then show False using assms(3) by simp
  qed
  moreover have "res = Err Unauthorized \<or> (\<exists>j. res = Ok j)"
    using assms(5) by (auto simp: continuation_verify_def Let_def split: if_splits option.splits prod.splits)
  ultimately show ?thesis by simp
qed

text \<open>Past that instant it is accepted again. The signature does not cover the fraction of the expiry, so the same token with a
  later fraction is still in its window when the sweep has dropped its nonce.\<close>

theorem continuation_replay:
  assumes "continuation_verify C now1 db1 token d = (Ok i, d1)" and "unix_timestamp e = unix_timestamp (ct_expires_at token)"
    and "pg_time (ct_expires_at token) < now2" and "now2 \<le> e" and "e \<le> ct_issued_at token + 60 * nanos_per_sec"
    and "now1 \<le> now2"
  shows "\<exists>d2. continuation_verify C now2 now2 (token\<lparr>ct_expires_at := e\<rparr>) d1 = (Ok i, d2)"
proof -
  from assms(1) obtain key sig where k: "find_active_by_id (ld_signing_keys d) (ct_identity_id token) (ct_signing_key_id token) = Some key"
    "hex_decode C (ct_signature token) = Some sig" "verify_event_signature C (sk_public_key key) (ct_signing_bytes C token) sig" "i = sk_identity_id key"
    "ct_issued_at token \<le> now1 + CLOCK_SKEW_ALLOWANCE" "ld_signing_keys d1 = ld_signing_keys d"
    by (auto simp: continuation_verify_def Let_def split: if_splits option.splits prod.splits)
  have b: "ct_signing_bytes C (token\<lparr>ct_expires_at := e\<rparr>) = ct_signing_bytes C token"
    using assms(2) by (simp add: ct_signing_bytes_def continuation_signing_bytes_def)
  have "consume_nonce db1 (ct_nonce token) (ct_expires_at token) (ld_continuation_nonces d) = (True, ld_continuation_nonces d1)"
    using continuation_nonces [OF assms(1)] by auto
  then have "\<forall>e'. (ct_nonce token, e') \<in> set (ld_continuation_nonces d1) \<longrightarrow> e' = pg_time (ct_expires_at token)"
    using consume_nonce_True by fastforce
  then have "ct_nonce token \<notin> fst ` set (filter (\<lambda>(n, x). \<not> x < now2) (ld_continuation_nonces d1))" using assms(3) by auto
  then show ?thesis using k b assms(4-6)
    by (simp add: continuation_verify_def consume_nonce_def CONTINUATION_TTL_SECONDS_def)
qed

section \<open>A concrete login\<close>

text \<open>A node at \<open>u\<close> with one signing key, a request, a grant for it and the poll that collects the session.\<close>

definition demo_login_db :: login_db where
  "demo_login_db = \<lparr>ld_signing_keys = [\<lparr>sk_signing_key_id = replicate 16 1, sk_identity_id = replicate 32 9, sk_public_key = demo_public, sk_revoked_at = None\<rparr>],
     ld_local_keys = [], ld_key_revocations = [], ld_passkey_revocations = [], ld_continuation_nonces = [], ld_grant_nonces = [],
     ld_requests = [], ld_sessions = []\<rparr>"

definition demo_grant :: CrossNodeLoginGrant where
  "demo_grant = \<lparr>gr_identity_id = replicate 32 9, gr_signing_key_id = replicate 16 1, gr_destination_base_url = ''u'', gr_requesting_context = ''u'',
     gr_nonce = replicate 16 2, gr_issued_at = 0, gr_expires_at = 0,
     gr_signature = hex_encode demo_crates (ed_sign demo_crates demo_public
       (grant_signing_bytes demo_crates (replicate 32 9) (replicate 16 1) ''u'' ''u'' (replicate 16 2) 0 0))\<rparr>"

definition demo_token :: ContinuationToken where
  "demo_token = \<lparr>ct_identity_id = replicate 32 9, ct_signing_key_id = replicate 16 1, ct_nonce = replicate 16 2, ct_issued_at = 0, ct_expires_at = 0,
     ct_signature = hex_encode demo_crates (ed_sign demo_crates demo_public
       (continuation_signing_bytes demo_crates (replicate 32 9) (replicate 16 1) (replicate 16 2) 0 0))\<rparr>"

definition demo_code_hash :: str where
  "demo_code_hash = hex_encode demo_crates (hash_token demo_crates ''c'')"

definition demo_request :: "request_status \<Rightarrow> bytes option \<Rightarrow> bytes option \<Rightarrow> login_request" where
  "demo_request st i k = \<lparr>lr_request_code_hash = demo_code_hash, lr_user_code = ''U'', lr_status = st, lr_requesting_base_url = ''u'',
     lr_expires_at = 600 * nanos_per_sec, lr_last_polled_at = None, lr_identity_id = i, lr_approved_by = k\<rparr>"

lemma pg_time_small [simp]: "pg_time 0 = 0" "pg_time (600 * nanos_per_sec) = 600 * nanos_per_sec"
  by (simp_all add: pg_time_def pg_epoch_def nanos_per_sec_def)

lemma demo_signs: "verify_event_signature demo_crates demo_public m (ed_sign demo_crates demo_public m)"
proof -
  have vk: "verifying_key demo_crates demo_public = demo_public" by (simp add: demo_crates_def demo_public_def pad32_def)
  have "\<not> key_is_weak demo_crates demo_public" using demo_public_acceptable by (simp add: is_acceptable_ed25519_key_def)
  then have "ed_verify_strict demo_crates demo_public m (ed_sign demo_crates demo_public m)"
    "length (ed_sign demo_crates demo_public m) = 64" "key_from_bytes_ok demo_crates demo_public"
    using demo_sig_ok vk unfolding sig_ok_def by metis+
  moreover have "length demo_public = 32" by (simp add: demo_public_def)
  ultimately show ?thesis using demo_public_acceptable
    by (simp add: verify_event_signature_def to_array_def parse_ed25519_public_key_def verify_strict_signature_def)
qed

lemma demo_starts:
  "login_start demo_crates (Some ''u'') 0 [(''c'', ''U'')] demo_login_db = Ok ((''c'', ''U''), demo_login_db\<lparr>ld_requests := [demo_request Pending None None]\<rparr>)"
  by (simp add: login_start_def MAX_ATTEMPTS_def demo_login_db_def demo_request_def demo_code_hash_def REQUEST_TTL_MINUTES_def)

lemma demo_grant_verifies:
  "verify_grant demo_crates (\<lambda>_ _. None) (Some ''u'') 0 0 demo_grant (demo_login_db\<lparr>ld_requests := rs\<rparr>) =
    (Ok (replicate 32 9), demo_login_db\<lparr>ld_requests := rs, ld_grant_nonces := [(replicate 16 2, 0)]\<rparr>)"
  using demo_signs
  by (simp add: verify_grant_def demo_grant_def demo_login_db_def find_active_by_id_def gr_signing_bytes_def hex_roundtrip [OF demo_hex_ok]
      consume_nonce_def CLOCK_SKEW_ALLOWANCE_def GRANT_TTL_SECONDS_def nanos_per_sec_def)

lemma demo_submits:
  "login_submit demo_crates (\<lambda>_ _. None) (Some ''u'') 0 0 [] [] (Some ''U'') demo_grant (demo_login_db\<lparr>ld_requests := [demo_request Pending None None]\<rparr>) =
    (Ok None, demo_login_db\<lparr>ld_requests := [demo_request Approved (Some (replicate 32 9)) (Some (replicate 16 1))], ld_grant_nonces := [(replicate 16 2, 0)]\<rparr>)"
  by (simp add: login_submit_def demo_grant_verifies update_requests_def demo_request_def nanos_per_sec_def) (simp add: demo_grant_def)

lemma demo_polls:
  "\<exists>s d'. poll_act demo_crates 0 [] ''t'' demo_code_hash (demo_request Approved (Some (replicate 32 9)) (Some (replicate 16 1)))
     (demo_login_db\<lparr>ld_requests := [demo_request Approved (Some (replicate 32 9)) (Some (replicate 16 1))], ld_grant_nonces := [(replicate 16 2, 0)]\<rparr>) =
     (Ok (PollApproved s), d')"
  by (simp add: poll_act_def poll_consume_def demo_request_def demo_login_db_def signing_key_usable_def set_expired_def update_requests_def
      mint_def nanos_per_sec_def Let_def SESSION_LIFETIME_DAYS_def)

theorem login_single_use_witness:
  "\<exists>d tr. login_run demo_crates (\<lambda>_ _. None) (Some ''u'') demo_login_db tr d \<and>
     Minted demo_code_hash (replicate 32 9) (replicate 16 1) \<in> set tr \<and> length (filter (minted demo_code_hash) tr) \<le> 1"
proof -
  let ?d1 = "demo_login_db\<lparr>ld_requests := [demo_request Pending None None]\<rparr>"
  let ?d2 = "demo_login_db\<lparr>ld_requests := [demo_request Approved (Some (replicate 32 9)) (Some (replicate 16 1))], ld_grant_nonces := [(replicate 16 2, 0)]\<rparr>"
  let ?step = "login_step demo_crates (\<lambda>_ _. None) (Some ''u'')"
  have s1: "?step demo_login_db (Started demo_code_hash) ?d1"
    using login_step.start [OF demo_starts] by (simp add: demo_code_hash_def)
  have s2: "?step ?d1 (ApprovedBy demo_code_hash (replicate 32 9) (replicate 16 1)) ?d2"
    using login_step.approve [OF demo_submits, of "demo_request Pending None None"] by (simp add: demo_request_def demo_grant_def)
  obtain s d3 where p: "poll_act demo_crates 0 [] ''t'' demo_code_hash (demo_request Approved (Some (replicate 32 9)) (Some (replicate 16 1))) ?d2 =
     (Ok (PollApproved s), d3)" using demo_polls by blast
  have s3: "?step ?d2 (Minted demo_code_hash (replicate 32 9) (replicate 16 1)) d3"
    using login_step.poll_minted [OF p, of "demo_request Approved (Some (replicate 32 9)) (Some (replicate 16 1))"] by (simp add: demo_request_def)
  let ?tr = "[Started demo_code_hash, ApprovedBy demo_code_hash (replicate 32 9) (replicate 16 1), Minted demo_code_hash (replicate 32 9) (replicate 16 1)]"
  have run: "login_run demo_crates (\<lambda>_ _. None) (Some ''u'') demo_login_db ?tr d3"
    using login_run.run_snoc [OF login_run.run_snoc [OF login_run.run_snoc [OF login_run.run_nil s1] s2] s3] by simp
  have "ld_requests demo_login_db = []" "distinct (starts ?tr)" by (simp_all add: demo_login_db_def starts_def map_filter_def)
  from login_single_use [OF run this] run show ?thesis by (intro exI [of _ d3] exI [of _ ?tr]) simp
qed

theorem grant_accepted_witness:
  "\<exists>sig. hex_decode demo_crates (gr_signature demo_grant) = Some sig \<and> gr_destination_base_url demo_grant = ''u'' \<and> length sig = 64"
  using grant_accepted [OF demo_submits] by auto

theorem continuation_single_use_witness:
  "\<exists>d1 d2. continuation_verify demo_crates 0 0 demo_token demo_login_db = (Ok (replicate 32 9), d1) \<and>
     continuation_verify demo_crates 0 0 demo_token d1 = (Err Unauthorized, d2)"
proof -
  obtain d1 where a: "continuation_verify demo_crates 0 0 demo_token demo_login_db = (Ok (replicate 32 9), d1)"
    using demo_signs
    by (simp add: continuation_verify_def demo_token_def demo_login_db_def find_active_by_id_def ct_signing_bytes_def hex_roundtrip [OF demo_hex_ok]
        consume_nonce_def CLOCK_SKEW_ALLOWANCE_def CONTINUATION_TTL_SECONDS_def nanos_per_sec_def)
  obtain res d2 where b: "continuation_verify demo_crates 0 0 demo_token d1 = (res, d2)" by fastforce
  have "0 \<le> pg_time (ct_expires_at demo_token)" by (simp add: demo_token_def)
  from continuation_single_use [OF a cont_nil this refl b] a b show ?thesis by blast
qed

end
