(* ===== verification/Cosigning.thy ===== *)
theory Cosigning
  imports Mirror
begin

text \<open>
  The cosigning decision of a witness (the server's \<open>witness_cosign.rs\<close>). The node's state is its ledger
  provider, which stores cosignatures, and its table of checkpoints, one per log. What a peer answers to a
  request for a consistency proof is the argument \<open>fetch\<close>; shards with a recorded equivocation are the argument
  \<open>equivocating\<close>. Log output, and the memory that keeps it from repeating itself, are left out.
\<close>

record WitnessCosignConfig =
  wg_signing_key :: bytes
  wg_witness_key_id :: str

definition config_from_env :: "crates \<Rightarrow> (str \<Rightarrow> str option) \<Rightarrow> WitnessCosignConfig option" where
  "config_from_env C env =
     (let enabled = (case env ''AVALON_WITNESS_COSIGNING_ENABLED'' of
                       Some v \<Rightarrow> \<not> (eq_ignore_ascii_case v ''false'' \<or> v = ''0'') | None \<Rightarrow> True) in
      if \<not> enabled then None
      else
        case load_witness_signing_key_from_env C env of
          Inr (signing_key, witness_key_id) \<Rightarrow> Some \<lparr>wg_signing_key = signing_key, wg_witness_key_id = witness_key_id\<rparr>
        | Inl _ \<Rightarrow> None)"

datatype CheckpointDecision = Bootstrap | AlreadyCheckpointed | ConflictingRootAtSameSize | BehindCheckpoint | NeedsConsistencyProof

definition classify_against_checkpoint :: "WitnessCheckpoint option \<Rightarrow> i64 \<Rightarrow> str \<Rightarrow> CheckpointDecision" where
  "classify_against_checkpoint ckpt tree_size root_hash =
     (case ckpt of
        None \<Rightarrow> Bootstrap
      | Some c \<Rightarrow>
          if sint tree_size = sint (wc_tree_size c)
          then (if wc_root_hash c = root_hash then AlreadyCheckpointed else ConflictingRootAtSameSize)
          else if sint tree_size < sint (wc_tree_size c) then BehindCheckpoint
          else NeedsConsistencyProof)"

datatype CosignOutcome = Disabled | NoHead | Equivocating | Cosigned | AlreadyCosigned | ConflictingRoot | NotForward
  | ConsistencyFailed | StorageError

datatype ProofSource = Peer str | OwnLedger

record ConsistencyProofDto =
  cp_first_root_hash :: str
  cp_second_root_hash :: str
  cp_proof :: "str list"

text \<open>A request: base URL, first size, second size, shard. \<open>None\<close> is a failed request or an answer that does not parse.\<close>

type_synonym proof_fetch = "str \<Rightarrow> i64 \<Rightarrow> i64 \<Rightarrow> str \<Rightarrow> ConsistencyProofDto option"

section \<open>Extending a checkpoint\<close>

definition decode_root32 :: "crates \<Rightarrow> str \<Rightarrow> bytes option" where
  "decode_root32 C hex_value = Option.bind (hex_decode C hex_value) (to_array 32)"

definition decode_proof_nodes :: "crates \<Rightarrow> str list \<Rightarrow> bytes list option" where
  "decode_proof_nodes C hex_nodes = those (map (decode_root32 C) hex_nodes)"

definition proof_extends_checkpoint :: "crates \<Rightarrow> HashAlgo \<Rightarrow> WitnessCheckpoint \<Rightarrow> i64 \<Rightarrow> str \<Rightarrow> bytes list \<Rightarrow> bool" where
  "proof_extends_checkpoint C algo ckpt tree_size root_hash proof =
     (case (decode_root32 C (wc_root_hash ckpt), decode_root32 C root_hash) of
        (Some old_root, Some new_root) \<Rightarrow>
          verify_consistency_proof C algo (unat (wc_tree_size ckpt)) (unat tree_size) proof old_root new_root
      | _ \<Rightarrow> False)"

definition verify_consistency_extends_checkpoint ::
  "crates \<Rightarrow> proof_fetch \<Rightarrow> str \<Rightarrow> str \<Rightarrow> WitnessCheckpoint \<Rightarrow> i64 \<Rightarrow> str \<Rightarrow> HashAlgo \<Rightarrow> bool" where
  "verify_consistency_extends_checkpoint C fetch peer_base_url shard_id ckpt tree_size root_hash algo =
     (case fetch peer_base_url (wc_tree_size ckpt) tree_size shard_id of
        None \<Rightarrow> False
      | Some dto \<Rightarrow>
          if cp_first_root_hash dto \<noteq> wc_root_hash ckpt \<or> cp_second_root_hash dto \<noteq> root_hash then False
          else
            case (decode_root32 C (cp_first_root_hash dto), decode_root32 C (cp_second_root_hash dto), decode_proof_nodes C (cp_proof dto)) of
              (Some old_root, Some new_root, Some proof) \<Rightarrow>
                verify_consistency_proof C algo (unat (wc_tree_size ckpt)) (unat tree_size) proof old_root new_root
            | _ \<Rightarrow> False)"

definition own_ledger_extends_checkpoint ::
  "crates \<Rightarrow> settlement \<Rightarrow> WitnessCheckpoint \<Rightarrow> i64 \<Rightarrow> str \<Rightarrow> HashAlgo \<Rightarrow> (bool \<times> settlement) option" where
  "own_ledger_extends_checkpoint C chain ckpt tree_size root_hash algo =
     (case serve_consistency_proof C (unat (wc_tree_size ckpt)) (unat tree_size) chain of
        None \<Rightarrow> None
      | Some (Inr proof, chain') \<Rightarrow> Some (proof_extends_checkpoint C algo ckpt tree_size root_hash proof, chain')
      | Some (Inl _, chain') \<Rightarrow> Some (False, chain'))"

section \<open>The decision\<close>

record witness_state =
  ws_chain :: settlement
  ws_checkpoints :: "WitnessCheckpoint list"

definition cosigs_of :: "settlement \<Rightarrow> cosig_row list" where
  "cosigs_of st = db_cosigs (st_db st)"

definition with_cosigs :: "cosig_row list \<Rightarrow> settlement \<Rightarrow> settlement" where
  "with_cosigs rows st = st\<lparr>st_db := (st_db st)\<lparr>db_cosigs := rows\<rparr>\<rparr>"

definition ensure_own_cosignature_stored ::
  "crates \<Rightarrow> time \<Rightarrow> WitnessCosignConfig \<Rightarrow> str \<Rightarrow> str \<Rightarrow> CosignedTreeHead \<Rightarrow> settlement \<Rightarrow> bool \<times> settlement" where
  "ensure_own_cosignature_stored C now config network_id shard_id head chain =
     (case list_witness_cosignatures C network_id shard_id (sth_tree_size (head_sth head)) (cosigs_of chain) of
        Inl _ \<Rightarrow> (False, chain)
      | Inr existing \<Rightarrow>
          if \<exists>c\<in>set existing. c_witness_key_id c = wg_witness_key_id config then (True, chain)
          else
            case sign_witness_cosignature C (wg_signing_key config) (wg_witness_key_id config) (head_sth head) now of
              Inl _ \<Rightarrow> (False, chain)
            | Inr cosig \<Rightarrow>
                (case store_witness_cosignature C shard_id cosig (cosigs_of chain) of
                   Inl _ \<Rightarrow> (False, chain)
                 | Inr rows \<Rightarrow> (True, with_cosigs rows chain)))"

definition cosign_and_record ::
  "crates \<Rightarrow> time \<Rightarrow> WitnessCosignConfig \<Rightarrow> str \<Rightarrow> str \<Rightarrow> CosignedTreeHead \<Rightarrow> witness_state \<Rightarrow> CosignOutcome \<times> witness_state" where
  "cosign_and_record C now config network_id shard_id head ws =
     (let ws = ws\<lparr>ws_checkpoints := record_witness_checkpoint now network_id shard_id (sth_tree_size (head_sth head))
                   (sth_root_hash (head_sth head)) (wg_witness_key_id config) (ws_checkpoints ws)\<rparr> in
      case ensure_own_cosignature_stored C now config network_id shard_id head (ws_chain ws) of
        (True, chain) \<Rightarrow> (Cosigned, ws\<lparr>ws_chain := chain\<rparr>)
      | (False, chain) \<Rightarrow> (StorageError, ws\<lparr>ws_chain := chain\<rparr>))"

definition decide ::
  "crates \<Rightarrow> proof_fetch \<Rightarrow> time \<Rightarrow> WitnessCosignConfig option \<Rightarrow> (str \<Rightarrow> bool) \<Rightarrow> ProofSource \<Rightarrow> str \<Rightarrow> CosignedTreeHead \<Rightarrow>
   witness_state \<Rightarrow> (CosignOutcome \<times> witness_state) option" where
  "decide C fetch now config equivocating proof shard_id head ws =
     (case config of
        None \<Rightarrow> Some (Disabled, ws)
      | Some config \<Rightarrow>
          let tree_size = sth_tree_size (head_sth head); root = sth_root_hash (head_sth head);
              network_id = sth_network_id (head_sth head) in
          if equivocating shard_id then Some (Equivocating, ws)
          else
            let ckpt = witness_checkpoint_for network_id shard_id (ws_checkpoints ws) in
            case classify_against_checkpoint ckpt tree_size root of
              AlreadyCheckpointed \<Rightarrow>
                Some (AlreadyCosigned,
                  ws\<lparr>ws_chain := snd (ensure_own_cosignature_stored C now config network_id shard_id head (ws_chain ws))\<rparr>)
            | ConflictingRootAtSameSize \<Rightarrow> Some (ConflictingRoot, ws)
            | BehindCheckpoint \<Rightarrow> Some (NotForward, ws)
            | Bootstrap \<Rightarrow> Some (cosign_and_record C now config network_id shard_id head ws)
            | NeedsConsistencyProof \<Rightarrow>
                (case ckpt of
                   None \<Rightarrow> Some (StorageError, ws)
                 | Some c \<Rightarrow>
                     (case (case proof of
                              Peer base_url \<Rightarrow>
                                Some (verify_consistency_extends_checkpoint C fetch base_url shard_id c tree_size root
                                  (hash_algo (sth_envelope (head_sth head))), ws_chain ws)
                            | OwnLedger \<Rightarrow>
                                own_ledger_extends_checkpoint C (ws_chain ws) c tree_size root
                                  (hash_algo (sth_envelope (head_sth head)))) of
                        None \<Rightarrow> None
                      | Some (extended, chain) \<Rightarrow>
                          let ws = ws\<lparr>ws_chain := chain\<rparr> in
                          if extended then Some (cosign_and_record C now config network_id shard_id head ws)
                          else Some (ConsistencyFailed, ws))))"

definition decide_and_cosign ::
  "crates \<Rightarrow> proof_fetch \<Rightarrow> time \<Rightarrow> WitnessCosignConfig option \<Rightarrow> (str \<Rightarrow> bool) \<Rightarrow> str \<Rightarrow> str \<Rightarrow> CosignedTreeHead \<Rightarrow>
   witness_state \<Rightarrow> witness_state option" where
  "decide_and_cosign C fetch now config equivocating peer_base_url shard_id head ws =
     map_option snd (decide C fetch now config equivocating (Peer peer_base_url) shard_id head ws)"

definition cosign_own_latest_head ::
  "crates \<Rightarrow> proof_fetch \<Rightarrow> time \<Rightarrow> WitnessCosignConfig option \<Rightarrow> (str \<Rightarrow> bool) \<Rightarrow> str \<Rightarrow> witness_state \<Rightarrow>
   (CosignOutcome \<times> witness_state) option" where
  "cosign_own_latest_head C fetch now config equivocating own_shard_id ws =
     (if config = None then Some (Disabled, ws)
      else
        case latest_signed_tree_head C (ws_chain ws) of
          Inl _ \<Rightarrow> Some (StorageError, ws)
        | Inr None \<Rightarrow> Some (NoHead, ws)
        | Inr (Some sth) \<Rightarrow>
            decide C fetch now config equivocating OwnLedger own_shard_id \<lparr>head_sth = sth, cosignatures = []\<rparr> ws)"

section \<open>Re-attestation\<close>

definition reattested :: "crates \<Rightarrow> WitnessCosignConfig \<Rightarrow> WitnessCosignature \<Rightarrow> time \<Rightarrow> WitnessCosignature option" where
  "reattested C config existing now =
     result_ok (reattest_witness_cosignature C (wg_signing_key config) (wg_witness_key_id config) existing now)"

definition reattest_checkpoint ::
  "crates \<Rightarrow> WitnessCosignConfig \<Rightarrow> (str \<Rightarrow> bool) \<Rightarrow> time \<Rightarrow> WitnessCheckpoint \<Rightarrow> nat \<times> cosig_row list \<Rightarrow> nat \<times> cosig_row list" where
  "reattest_checkpoint C config equivocating now ckpt = (\<lambda>(refreshed, rows).
     if wc_witness_key_id ckpt \<noteq> wg_witness_key_id config \<or> equivocating (wc_shard_id ckpt) then (refreshed, rows)
     else
       case list_witness_cosignatures C (wc_network_id ckpt) (wc_shard_id ckpt) (wc_tree_size ckpt) rows of
         Inl _ \<Rightarrow> (refreshed, rows)
       | Inr existing \<Rightarrow>
           (case find (\<lambda>c. c_witness_key_id c = wg_witness_key_id config \<and> c_root_hash c = wc_root_hash ckpt) existing of
              None \<Rightarrow> (refreshed, rows)
            | Some own \<Rightarrow>
                (case reattested C config own now of
                   None \<Rightarrow> (refreshed, rows)
                 | Some fresh \<Rightarrow>
                     (if \<exists>r\<in>set rows. refreshes (wc_shard_id ckpt) fresh r then refreshed + 1 else refreshed,
                      refresh_witness_cosignature (wc_shard_id ckpt) fresh rows))))"

definition reattest_once ::
  "crates \<Rightarrow> WitnessCosignConfig \<Rightarrow> (str \<Rightarrow> bool) \<Rightarrow> time \<Rightarrow> witness_state \<Rightarrow> nat \<times> witness_state" where
  "reattest_once C config equivocating now ws =
     (case fold (reattest_checkpoint C config equivocating now) (ws_checkpoints ws) (0, cosigs_of (ws_chain ws)) of
        (refreshed, rows) \<Rightarrow> (refreshed, ws\<lparr>ws_chain := with_cosigs rows (ws_chain ws)\<rparr>))"

end
