(* ===== verification/Cosigning_Facts.thy ===== *)
theory Cosigning_Facts
  imports Cosigning Mirror_Facts
begin

text \<open>
  What a witness's cosignatures add up to: over any run of decisions, crashes between the two writes of a
  decision, re-attestations and unrelated changes, the heads a witness has cosigned for a log are the
  prefixes of one append-only history.
\<close>

section \<open>The history a witness vouched for\<close>

text \<open>One advance of a checkpoint: the log, the head, and the proof from the checkpoint before it.\<close>

record vouch =
  v_network :: str
  v_shard :: str
  v_size :: i64
  v_root :: str
  v_proof :: "bytes list"

definition own_row :: "str \<Rightarrow> str \<Rightarrow> str \<Rightarrow> cosig_row \<Rightarrow> bool" where
  "own_row key net shard r \<longleftrightarrow> g_shard_id r = shard \<and> c_network_id (g_cosig r) = net \<and> c_witness_key_id (g_cosig r) = key"

definition log_history :: "str \<Rightarrow> str \<Rightarrow> vouch list \<Rightarrow> vouch list" where
  "log_history net shard tr = filter (\<lambda>v. v_network v = net \<and> v_shard v = shard) tr"

text \<open>The proof a decision checks.\<close>

definition proof_used :: "crates \<Rightarrow> proof_fetch \<Rightarrow> ProofSource \<Rightarrow> str \<Rightarrow> WitnessCheckpoint option \<Rightarrow> i64 \<Rightarrow> settlement \<Rightarrow> bytes list" where
  "proof_used C fetch src shard ckpt n chain =
     (case ckpt of
        None \<Rightarrow> []
      | Some c \<Rightarrow>
          (case src of
             Peer u \<Rightarrow>
               (case fetch u (wc_tree_size c) n shard of
                  None \<Rightarrow> []
                | Some dto \<Rightarrow> (case decode_proof_nodes C (cp_proof dto) of None \<Rightarrow> [] | Some pf \<Rightarrow> pf))
           | OwnLedger \<Rightarrow>
               (case serve_consistency_proof C (unat (wc_tree_size c)) (unat n) chain of Some (Inr pf, _) \<Rightarrow> pf | _ \<Rightarrow> [])))"

definition vouch_of :: "crates \<Rightarrow> proof_fetch \<Rightarrow> ProofSource \<Rightarrow> str \<Rightarrow> SignedTreeHead \<Rightarrow> witness_state \<Rightarrow> vouch" where
  "vouch_of C fetch src shard sth ws = \<lparr>v_network = sth_network_id sth, v_shard = shard, v_size = sth_tree_size sth,
     v_root = sth_root_hash sth,
     v_proof = proof_used C fetch src shard (witness_checkpoint_for (sth_network_id sth) shard (ws_checkpoints ws))
       (sth_tree_size sth) (ws_chain ws)\<rparr>"

text \<open>Runs of one witness. A decision is one step, since each log is handled by one worker; a crash may lose its second
  write. The proof nodes are \<open>[u8; 32]\<close> arrays. Anything else the node does leaves the checkpoints and the
  witness's own cosignatures alone.\<close>

inductive witness_run :: "crates \<Rightarrow> WitnessCosignConfig \<Rightarrow> vouch list \<Rightarrow> witness_state \<Rightarrow> bool" for C config where
  fresh: "ws_checkpoints ws = [] \<Longrightarrow> (\<And>r net shard. r \<in> set (cosigs_of (ws_chain ws)) \<Longrightarrow> \<not> own_row (wg_witness_key_id config) net shard r) \<Longrightarrow>
    witness_run C config [] ws"
| decided: "witness_run C config tr ws \<Longrightarrow>
    decide C fetch now (Some config) equivocating src shard head ws = Some (outcome, ws') \<Longrightarrow>
    v = vouch_of C fetch src shard (head_sth head) ws \<Longrightarrow> (\<And>h. h \<in> set (v_proof v) \<Longrightarrow> length h = 32) \<Longrightarrow>
    ws'' \<in> {ws', ws\<lparr>ws_checkpoints := ws_checkpoints ws'\<rparr>} \<Longrightarrow>
    witness_run C config (if ws_checkpoints ws' = ws_checkpoints ws then tr else v # tr) ws''"
| reattest: "witness_run C config tr ws \<Longrightarrow> reattest_once C config equivocating now ws = (n, ws') \<Longrightarrow> witness_run C config tr ws'"
| other: "witness_run C config tr ws \<Longrightarrow> ws_checkpoints ws' = ws_checkpoints ws \<Longrightarrow>
    (\<And>net shard. filter (own_row (wg_witness_key_id config) net shard) (cosigs_of (ws_chain ws')) =
      filter (own_row (wg_witness_key_id config) net shard) (cosigs_of (ws_chain ws))) \<Longrightarrow>
    witness_run C config tr ws'"

section \<open>What a decision did\<close>

definition links :: "crates \<Rightarrow> vouch \<Rightarrow> vouch \<Rightarrow> bool" where
  "links C u v \<longleftrightarrow> sint (v_size u) < sint (v_size v) \<and> (\<forall>h\<in>set (v_proof v). length h = 32) \<and>
     (\<exists>old new. decode_root32 C (v_root u) = Some old \<and> decode_root32 C (v_root v) = Some new \<and>
       verify_consistency_proof C Sha256 (unat (v_size u)) (unat (v_size v)) (v_proof v) old new)"

fun history_ok :: "crates \<Rightarrow> vouch list \<Rightarrow> bool" where
  "history_ok C (v # u # vs) \<longleftrightarrow> links C u v \<and> history_ok C (u # vs)"
| "history_ok C _ \<longleftrightarrow> True"

lemma only_algo: "(a :: HashAlgo) = Sha256"
  by (cases a) simp

lemma sint_eq_iff: "sint (a :: i64) = sint b \<longleftrightarrow> a = b"
  by (auto intro: signed_word_eqI)

lemma cosigs_with_cosigs [simp]: "cosigs_of (with_cosigs rows st) = rows"
  by (simp add: cosigs_of_def with_cosigs_def)

lemma own_row_unique: "own_row key net shard r \<Longrightarrow> own_row key net' shard' r \<Longrightarrow> net' = net \<and> shard' = shard"
  by (auto simp: own_row_def)

text \<open>A row of the cosignature table after an operation comes from one before it, of the same slot and root, or is new.\<close>

definition same_head :: "cosig_row \<Rightarrow> cosig_row \<Rightarrow> bool" where
  "same_head r r' \<longleftrightarrow> g_shard_id r' = g_shard_id r \<and> c_network_id (g_cosig r') = c_network_id (g_cosig r) \<and>
     c_tree_size (g_cosig r') = c_tree_size (g_cosig r) \<and> c_witness_key_id (g_cosig r') = c_witness_key_id (g_cosig r) \<and>
     c_root_hash (g_cosig r') = c_root_hash (g_cosig r)"

lemma refresh_rows: "r' \<in> set (refresh_witness_cosignature shard cosig rows) \<Longrightarrow> \<exists>r\<in>set rows. same_head r r'"
  by (auto simp: refresh_witness_cosignature_def same_head_def split: if_splits)

lemma store_rows:
  assumes "store_witness_cosignature C shard cosig rows = Ok rows'" "r' \<in> set rows'"
  shows "(\<exists>r\<in>set rows. same_head r r') \<or> (g_shard_id r' = shard \<and> g_cosig r' = cosig)"
proof -
  from assms(1) consider "rows' = rows" | "rows' = refresh_witness_cosignature shard cosig rows"
    | env where "rows' = rows @ [\<lparr>g_shard_id = shard, g_cosig = cosig, g_envelope = env\<rparr>]"
    by (auto simp: store_witness_cosignature_def rbind_eq_Inr Let_def split: option.splits if_splits)
  then show ?thesis using assms(2) refresh_rows by cases (auto simp: same_head_def)
qed

lemma sign_cosig_fields:
  assumes "sign_witness_cosignature C k w sth t = Ok c"
  shows "c_tree_size c = sth_tree_size sth \<and> c_root_hash c = sth_root_hash sth \<and> c_network_id c = sth_network_id sth \<and> c_witness_key_id c = w"
  using assms by (auto simp: sign_witness_cosignature_def sign_unsigned_def rbind_eq_Inr Let_def)

lemma ensure_rows:
  assumes "ensure_own_cosignature_stored C now config net shard head chain = (ok, chain')" "r' \<in> set (cosigs_of chain')"
  shows "(\<exists>r\<in>set (cosigs_of chain). same_head r r') \<or>
    (own_row (wg_witness_key_id config) (sth_network_id (head_sth head)) shard r' \<and>
     c_tree_size (g_cosig r') = sth_tree_size (head_sth head) \<and> c_root_hash (g_cosig r') = sth_root_hash (head_sth head))"
  using assms store_rows [of C shard _ "cosigs_of chain" _ r'] sign_cosig_fields
  by (auto simp: ensure_own_cosignature_stored_def own_row_def same_head_def split: sum.splits if_splits)


lemma serve_consistency_db: "serve_consistency_proof C m n st = Some (x, st') \<Longrightarrow> st_db st' = st_db st"
  by (auto simp: serve_consistency_proof_def ensure_cache_covers_def Let_def split: prod.splits sum.splits if_splits)

definition head_row_of :: "str \<Rightarrow> str \<Rightarrow> SignedTreeHead \<Rightarrow> cosig_row \<Rightarrow> bool" where
  "head_row_of key shard sth r \<longleftrightarrow> own_row key (sth_network_id sth) shard r \<and>
     c_tree_size (g_cosig r) = sth_tree_size sth \<and> c_root_hash (g_cosig r) = sth_root_hash sth"

definition head_ckpt :: "SignedTreeHead \<Rightarrow> WitnessCheckpoint \<Rightarrow> bool" where
  "head_ckpt sth c \<longleftrightarrow> wc_tree_size c = sth_tree_size sth \<and> wc_root_hash c = sth_root_hash sth"

lemma extension_links:
  assumes "(case src of
        Peer base_url \<Rightarrow> Some (verify_consistency_extends_checkpoint C fetch base_url shard c n root algo, chain)
      | OwnLedger \<Rightarrow> own_ledger_extends_checkpoint C chain c n root algo) = Some (True, chain')"
  shows "\<exists>old new. decode_root32 C (wc_root_hash c) = Some old \<and> decode_root32 C root = Some new \<and>
      verify_consistency_proof C Sha256 (unat (wc_tree_size c)) (unat n) (proof_used C fetch src shard (Some c) n chain) old new \<and>
      st_db chain' = st_db chain"
proof (cases src)
  case (Peer u)
  with assms show ?thesis
    by (auto simp: verify_consistency_extends_checkpoint_def proof_used_def only_algo [of algo] split: option.splits if_splits)
next
  case OwnLedger
  with assms show ?thesis
    by (auto simp: own_ledger_extends_checkpoint_def proof_extends_checkpoint_def proof_used_def only_algo [of algo]
        split: option.splits sum.splits prod.splits dest: serve_consistency_db)
qed

lemma cosign_and_record_effect:
  assumes "cosign_and_record C now config net shard head ws = (outcome, ws')"
  shows "ws_checkpoints ws' = record_witness_checkpoint now net shard (sth_tree_size (head_sth head)) (sth_root_hash (head_sth head))
      (wg_witness_key_id config) (ws_checkpoints ws)"
    and "ws_chain ws' = snd (ensure_own_cosignature_stored C now config net shard head (ws_chain ws))"
  using assms by (auto simp: cosign_and_record_def Let_def split: prod.splits bool.splits)

text \<open>The two effects a decision can have: it leaves the checkpoints alone, and then signs at most the head of the
  current checkpoint; or it advances the checkpoint of the log to the head, by a verified extension.\<close>

lemma decide_effect:
  assumes "decide C fetch now (Some config) equivocating src shard head ws = Some (outcome, ws')"
  defines "sth \<equiv> head_sth head" and "cps \<equiv> ws_checkpoints ws"
  defines "ckpt \<equiv> witness_checkpoint_for (sth_network_id sth) shard cps"
  defines "new \<equiv> record_witness_checkpoint now (sth_network_id sth) shard (sth_tree_size sth) (sth_root_hash sth) (wg_witness_key_id config) cps"
  shows "(ws_checkpoints ws' = cps \<and> (\<forall>r'\<in>set (cosigs_of (ws_chain ws')). (\<exists>r\<in>set (cosigs_of (ws_chain ws)). same_head r r') \<or>
        (head_row_of (wg_witness_key_id config) shard sth r' \<and> (\<exists>c. ckpt = Some c \<and> head_ckpt sth c)))) \<or>
    (ws_checkpoints ws' = new \<and> (\<forall>r'\<in>set (cosigs_of (ws_chain ws')). (\<exists>r\<in>set (cosigs_of (ws_chain ws)). same_head r r') \<or>
        head_row_of (wg_witness_key_id config) shard sth r') \<and>
      (\<forall>c. ckpt = Some c \<longrightarrow> sint (wc_tree_size c) < sint (sth_tree_size sth) \<and>
        (\<exists>old root. decode_root32 C (wc_root_hash c) = Some old \<and> decode_root32 C (sth_root_hash sth) = Some root \<and>
          verify_consistency_proof C Sha256 (unat (wc_tree_size c)) (unat (sth_tree_size sth))
            (v_proof (vouch_of C fetch src shard sth ws)) old root)))"
proof -
  let ?net = "sth_network_id sth"
  let ?rows = "\<lambda>chain. set (cosigs_of chain)"
  have refl: "\<exists>r\<in>?rows (ws_chain ws). same_head r r'" if "r' \<in> ?rows (ws_chain ws)" for r'
    using that by (auto simp: same_head_def)
  have ensure: "(\<exists>r\<in>?rows chain. same_head r r') \<or> head_row_of (wg_witness_key_id config) shard sth r'"
    if "r' \<in> ?rows (snd (ensure_own_cosignature_stored C now config ?net shard head chain))" for r' chain
    using that ensure_rows [of C now config ?net shard head chain] unfolding head_row_of_def sth_def by (metis prod.collapse)
  show ?thesis
  proof (cases "equivocating shard")
    case True
    with assms(1) refl show ?thesis by (auto simp: decide_def cps_def)
  next
    case False
    note d = assms(1) [unfolded decide_def Let_def, folded sth_def cps_def, folded ckpt_def]
    show ?thesis
    proof (cases "classify_against_checkpoint ckpt (sth_tree_size sth) (sth_root_hash sth)")
      case Bootstrap
      then have none: "ckpt = None" by (auto simp: classify_against_checkpoint_def split: option.splits if_splits)
      from d False Bootstrap have "cosign_and_record C now config ?net shard head ws = (outcome, ws')" by simp
      from cosign_and_record_effect [OF this] ensure [of _ "ws_chain ws"] none show ?thesis
        by (auto simp: new_def cps_def sth_def)
    next
      case AlreadyCheckpointed
      then obtain c where c: "ckpt = Some c" "head_ckpt sth c"
        by (auto simp: classify_against_checkpoint_def head_ckpt_def sint_eq_iff split: option.splits if_splits)
      from d False AlreadyCheckpointed
      have ws': "ws' = ws\<lparr>ws_chain := snd (ensure_own_cosignature_stored C now config ?net shard head (ws_chain ws))\<rparr>" by simp
      show ?thesis using ensure [of _ "ws_chain ws"] c unfolding ws' by (intro disjI1) (auto simp: cps_def)
    next
      case NeedsConsistencyProof
      then obtain c where c: "ckpt = Some c" "sint (wc_tree_size c) < sint (sth_tree_size sth)"
        by (auto simp: classify_against_checkpoint_def split: option.splits if_splits)
      from d False NeedsConsistencyProof c(1) obtain ext chain where
        ext: "(case src of Peer u \<Rightarrow> Some (verify_consistency_extends_checkpoint C fetch u shard c (sth_tree_size sth) (sth_root_hash sth)
              (hash_algo (sth_envelope sth)), ws_chain ws)
            | OwnLedger \<Rightarrow> own_ledger_extends_checkpoint C (ws_chain ws) c (sth_tree_size sth) (sth_root_hash sth) (hash_algo (sth_envelope sth))) =
            Some (ext, chain)"
        and res: "(if ext then cosign_and_record C now config ?net shard head (ws\<lparr>ws_chain := chain\<rparr>) else (ConsistencyFailed, ws\<lparr>ws_chain := chain\<rparr>)) =
            (outcome, ws')"
        by (auto split: option.splits if_splits)
      have db: "cosigs_of chain = cosigs_of (ws_chain ws)"
        using ext by (auto simp: own_ledger_extends_checkpoint_def cosigs_of_def split: ProofSource.splits option.splits sum.splits prod.splits
            dest: serve_consistency_db)
      show ?thesis
      proof (cases ext)
        case True
        with ext have ext': "(case src of Peer u \<Rightarrow> Some (verify_consistency_extends_checkpoint C fetch u shard c (sth_tree_size sth) (sth_root_hash sth)
              (hash_algo (sth_envelope sth)), ws_chain ws)
            | OwnLedger \<Rightarrow> own_ledger_extends_checkpoint C (ws_chain ws) c (sth_tree_size sth) (sth_root_hash sth) (hash_algo (sth_envelope sth))) =
            Some (True, chain)" by simp
        from res True have "cosign_and_record C now config ?net shard head (ws\<lparr>ws_chain := chain\<rparr>) = (outcome, ws')" by simp
        note eff = cosign_and_record_effect [OF this]
        have "v_proof (vouch_of C fetch src shard sth ws) = proof_used C fetch src shard (Some c) (sth_tree_size sth) (ws_chain ws)"
          using c(1) by (simp add: vouch_of_def ckpt_def cps_def)
        then show ?thesis using eff ensure [of _ chain] extension_links [OF ext'] c db
          by (intro disjI2) (auto simp: new_def cps_def sth_def)
      next
        case False
        with res db refl show ?thesis by (intro disjI1) (auto simp: cps_def)
      qed
    qed (use d False refl in \<open>auto simp: cps_def\<close>)
  qed
qed


section \<open>The invariant\<close>

lemma record_checkpoint_for:
  "witness_checkpoint_for net shard (record_witness_checkpoint now net' shard' n root key rows) =
     (if net' = net \<and> shard' = shard then
        (case witness_checkpoint_for net shard rows of
           Some c \<Rightarrow> if sint (wc_tree_size c) < sint n
             then Some \<lparr>wc_network_id = net, wc_shard_id = shard, wc_tree_size = n, wc_root_hash = root, wc_witness_key_id = key, wc_cosigned_at = now\<rparr>
             else Some c
         | None \<Rightarrow> Some \<lparr>wc_network_id = net, wc_shard_id = shard, wc_tree_size = n, wc_root_hash = root, wc_witness_key_id = key, wc_cosigned_at = now\<rparr>)
      else witness_checkpoint_for net shard rows)"
proof -
  define new where "new = \<lparr>wc_network_id = net', wc_shard_id = shard', wc_tree_size = n, wc_root_hash = root,
    wc_witness_key_id = key, wc_cosigned_at = now\<rparr>"
  let ?f = "\<lambda>c. if checkpoint_of net' shard' c \<and> sint (wc_tree_size c) < sint n then new else c"
  have f: "find (checkpoint_of net shard) (map ?f rows) = map_option ?f (find (checkpoint_of net shard) rows)"
    by (rule find_map) (auto simp: checkpoint_of_def new_def)
  have here: "checkpoint_of net shard c" if "find (checkpoint_of net shard) rows = Some c" for c
    using that by (auto simp: find_Some_iff)
  have none: "find (checkpoint_of net' shard') rows = None" if "\<not> (\<exists>c\<in>set rows. checkpoint_of net' shard' c)"
    using that by (auto simp: find_None_iff)
  show ?thesis unfolding record_witness_checkpoint_def witness_checkpoint_for_def Let_def new_def [symmetric]
    using f none here find_None_iff [of "checkpoint_of net shard" rows]
    by (cases "find (checkpoint_of net shard) rows") (auto simp: find_append new_def checkpoint_of_def split: option.splits)
qed

definition tip_matches :: "vouch list \<Rightarrow> WitnessCheckpoint option \<Rightarrow> bool" where
  "tip_matches vs ckpt \<longleftrightarrow>
     map_option (\<lambda>c. (wc_tree_size c, wc_root_hash c)) ckpt = (case vs of [] \<Rightarrow> None | v # _ \<Rightarrow> Some (v_size v, v_root v))"

lemma tip_matches_simps [simp]:
  "tip_matches [] ckpt \<longleftrightarrow> ckpt = None"
  "tip_matches (v # vs) ckpt \<longleftrightarrow> (\<exists>c. ckpt = Some c \<and> wc_tree_size c = v_size v \<and> wc_root_hash c = v_root v)"
  by (auto simp: tip_matches_def)

definition witness_inv :: "crates \<Rightarrow> str \<Rightarrow> vouch list \<Rightarrow> witness_state \<Rightarrow> bool" where
  "witness_inv C key tr ws \<longleftrightarrow> (\<forall>net shard. history_ok C (log_history net shard tr) \<and>
     tip_matches (log_history net shard tr) (witness_checkpoint_for net shard (ws_checkpoints ws)) \<and>
     (\<forall>r\<in>set (cosigs_of (ws_chain ws)). own_row key net shard r \<longrightarrow>
        (\<exists>v\<in>set (log_history net shard tr). v_size v = c_tree_size (g_cosig r) \<and> v_root v = c_root_hash (g_cosig r))))"

lemma inv_rows:
  assumes "witness_inv C key tr ws" "ws_checkpoints ws' = ws_checkpoints ws"
    and "\<And>r'. r' \<in> set (cosigs_of (ws_chain ws')) \<Longrightarrow> (\<exists>r\<in>set (cosigs_of (ws_chain ws)). same_head r r') \<or>
      (\<exists>sth c shard. head_row_of key shard sth r' \<and> witness_checkpoint_for (sth_network_id sth) shard (ws_checkpoints ws) = Some c \<and> head_ckpt sth c)"
  shows "witness_inv C key tr ws'"
  unfolding witness_inv_def
proof (intro allI conjI ballI impI)
  fix net shard
  note inv = assms(1) [unfolded witness_inv_def, rule_format, of net shard]
  show "history_ok C (log_history net shard tr)" using inv by blast
  show "tip_matches (log_history net shard tr) (witness_checkpoint_for net shard (ws_checkpoints ws'))"
    using inv by (simp add: assms(2))
  fix r' assume r': "r' \<in> set (cosigs_of (ws_chain ws'))" "own_row key net shard r'"
  from assms(3) [OF r'(1)] show "\<exists>v\<in>set (log_history net shard tr). v_size v = c_tree_size (g_cosig r') \<and> v_root v = c_root_hash (g_cosig r')"
  proof
    assume "\<exists>r\<in>set (cosigs_of (ws_chain ws)). same_head r r'"
    then show ?thesis using inv r'(2) by (fastforce simp: same_head_def own_row_def)
  next
    assume "\<exists>sth c shard. head_row_of key shard sth r' \<and> witness_checkpoint_for (sth_network_id sth) shard (ws_checkpoints ws) = Some c \<and> head_ckpt sth c"
    then obtain sth c where "head_row_of key shard sth r'" "witness_checkpoint_for net shard (ws_checkpoints ws) = Some c" "head_ckpt sth c"
      using r'(2) by (auto simp: head_row_of_def own_row_def)
    then show ?thesis using inv by (cases "log_history net shard tr") (auto simp: head_row_of_def head_ckpt_def)
  qed
qed

lemma inv_advance:
  assumes "witness_inv C key tr ws" and v: "v_size v = sth_tree_size sth" "v_root v = sth_root_hash sth" "v_network v = sth_network_id sth" "v_shard v = shard"
    and "\<forall>h\<in>set (v_proof v). length h = 32"
    and "ws_checkpoints ws' = record_witness_checkpoint now (sth_network_id sth) shard (sth_tree_size sth) (sth_root_hash sth) key (ws_checkpoints ws)"
    and "\<And>c. witness_checkpoint_for (sth_network_id sth) shard (ws_checkpoints ws) = Some c \<Longrightarrow> sint (wc_tree_size c) < sint (sth_tree_size sth) \<and>
      (\<exists>old root. decode_root32 C (wc_root_hash c) = Some old \<and> decode_root32 C (sth_root_hash sth) = Some root \<and>
        verify_consistency_proof C Sha256 (unat (wc_tree_size c)) (unat (sth_tree_size sth)) (v_proof v) old root)"
    and rows: "\<And>r'. r' \<in> set (cosigs_of (ws_chain ws')) \<Longrightarrow> (\<exists>r\<in>set (cosigs_of (ws_chain ws)). same_head r r') \<or> head_row_of key shard sth r'"
  shows "witness_inv C key (v # tr) ws'"
  unfolding witness_inv_def
proof (intro allI conjI ballI impI)
  fix net sh
  let ?here = "net = sth_network_id sth \<and> sh = shard"
  note inv = assms(1) [unfolded witness_inv_def, rule_format, of net sh]
  have hist: "log_history net sh (v # tr) = (if ?here then v # log_history net sh tr else log_history net sh tr)"
    using v by (auto simp: log_history_def)
  show "history_ok C (log_history net sh (v # tr))"
  proof (cases ?here)
    case True
    then show ?thesis using inv assms(6,8) v hist
      by (cases "log_history net sh tr") (auto simp: links_def)
  qed (use inv hist in auto)
  show "tip_matches (log_history net sh (v # tr)) (witness_checkpoint_for net sh (ws_checkpoints ws'))"
  proof (cases ?here)
    case True
    then have h: "log_history net sh (v # tr) = v # log_history net sh tr" using hist by simp
    show ?thesis using True assms(8) v unfolding h by (auto simp: assms(7) record_checkpoint_for split: option.splits)
  next
    case False
    then show ?thesis using inv unfolding assms(7) hist record_checkpoint_for by (auto split: if_splits)
  qed
  fix r' assume r': "r' \<in> set (cosigs_of (ws_chain ws'))" "own_row key net sh r'"
  from rows [OF r'(1)] show "\<exists>u\<in>set (log_history net sh (v # tr)). v_size u = c_tree_size (g_cosig r') \<and> v_root u = c_root_hash (g_cosig r')"
  proof
    assume "\<exists>r\<in>set (cosigs_of (ws_chain ws)). same_head r r'"
    then have "\<exists>u\<in>set (log_history net sh tr). v_size u = c_tree_size (g_cosig r') \<and> v_root u = c_root_hash (g_cosig r')"
      using inv r'(2) by (fastforce simp: same_head_def own_row_def)
    then show ?thesis by (auto simp: hist)
  next
    assume "head_row_of key shard sth r'"
    then show ?thesis using r'(2) v by (auto simp: hist head_row_of_def own_row_def)
  qed
qed

lemma reattest_rows:
  assumes "r' \<in> set (snd (fold (reattest_checkpoint C config equivocating now) cs (n, rows)))"
  shows "\<exists>r\<in>set rows. same_head r r'"
  using assms
proof (induction cs arbitrary: n rows)
  case Nil
  then show ?case by (auto simp: same_head_def)
next
  case (Cons c cs)
  obtain n' rows' where step: "reattest_checkpoint C config equivocating now c (n, rows) = (n', rows')" by fastforce
  then have "rows' = rows \<or> (\<exists>shard fresh. rows' = refresh_witness_cosignature shard fresh rows)"
    by (auto simp: reattest_checkpoint_def split: if_splits sum.splits option.splits)
  moreover from Cons step obtain r where "r \<in> set rows'" "same_head r r'" by fastforce
  ultimately show ?case using refresh_rows by (fastforce simp: same_head_def)
qed

lemma witness_run_inv:
  assumes "witness_run C config tr ws"
  shows "witness_inv C (wg_witness_key_id config) tr ws"
  using assms
proof induction
  case (fresh ws)
  then show ?case by (auto simp: witness_inv_def log_history_def witness_checkpoint_for_def)
next
  case (decided tr ws fetch now equivocating src shard head outcome ws' v ws'')
  let ?key = "wg_witness_key_id config" and ?sth = "head_sth head"
  have same: "\<exists>r\<in>set (cosigs_of (ws_chain ws)). same_head r r'" if "r' \<in> set (cosigs_of (ws_chain ws))" for r'
    using that by (auto simp: same_head_def)
  have cps: "ws_checkpoints ws'' = ws_checkpoints ws'" and chain: "ws_chain ws'' \<in> {ws_chain ws', ws_chain ws}"
    using decided(5) by auto
  consider (keep) "ws_checkpoints ws' = ws_checkpoints ws" | (move) "ws_checkpoints ws' \<noteq> ws_checkpoints ws" by blast
  then show ?case
  proof cases
    case keep
    have "witness_inv C ?key tr ws''"
    proof (rule inv_rows [OF decided.IH])
      show "ws_checkpoints ws'' = ws_checkpoints ws" by (simp add: cps keep)
      fix r' assume "r' \<in> set (cosigs_of (ws_chain ws''))"
      with chain consider "r' \<in> set (cosigs_of (ws_chain ws))" | "r' \<in> set (cosigs_of (ws_chain ws'))" by auto
      then show "(\<exists>r\<in>set (cosigs_of (ws_chain ws)). same_head r r') \<or> (\<exists>sth c shard. head_row_of ?key shard sth r' \<and>
          witness_checkpoint_for (sth_network_id sth) shard (ws_checkpoints ws) = Some c \<and> head_ckpt sth c)"
      proof cases
        case 2
        from decide_effect [OF decided.hyps(2)] keep show ?thesis
        proof (elim disjE conjE)
          assume new: "ws_checkpoints ws' = record_witness_checkpoint now (sth_network_id ?sth) shard (sth_tree_size ?sth) (sth_root_hash ?sth) ?key (ws_checkpoints ws)"
            and rows: "\<forall>r'\<in>set (cosigs_of (ws_chain ws')). (\<exists>r\<in>set (cosigs_of (ws_chain ws)). same_head r r') \<or> head_row_of ?key shard ?sth r'"
            and fwd: "\<forall>c. witness_checkpoint_for (sth_network_id ?sth) shard (ws_checkpoints ws) = Some c \<longrightarrow>
              sint (wc_tree_size c) < sint (sth_tree_size ?sth) \<and> (\<exists>old root. decode_root32 C (wc_root_hash c) = Some old \<and>
                decode_root32 C (sth_root_hash ?sth) = Some root \<and> verify_consistency_proof C Sha256 (unat (wc_tree_size c)) (unat (sth_tree_size ?sth))
                  (v_proof (vouch_of C fetch src shard ?sth ws)) old root)"
          from new keep have "\<exists>c. witness_checkpoint_for (sth_network_id ?sth) shard (ws_checkpoints ws) = Some c \<and> head_ckpt ?sth c"
            using record_checkpoint_for [of "sth_network_id ?sth" shard now "sth_network_id ?sth" shard "sth_tree_size ?sth" "sth_root_hash ?sth" ?key "ws_checkpoints ws"] fwd
            by (auto simp: head_ckpt_def split: option.splits if_splits)
          with rows 2 show ?thesis by blast
        qed (use 2 in blast)
      qed (use same in blast)
    qed
    with keep show ?thesis by simp
  next
    case move
    from decide_effect [OF decided.hyps(2)] move
    have new: "ws_checkpoints ws' = record_witness_checkpoint now (sth_network_id ?sth) shard (sth_tree_size ?sth) (sth_root_hash ?sth) ?key (ws_checkpoints ws)"
      and rows: "\<forall>r'\<in>set (cosigs_of (ws_chain ws')). (\<exists>r\<in>set (cosigs_of (ws_chain ws)). same_head r r') \<or> head_row_of ?key shard ?sth r'"
      and fwd: "\<forall>c. witness_checkpoint_for (sth_network_id ?sth) shard (ws_checkpoints ws) = Some c \<longrightarrow>
        sint (wc_tree_size c) < sint (sth_tree_size ?sth) \<and> (\<exists>old root. decode_root32 C (wc_root_hash c) = Some old \<and>
          decode_root32 C (sth_root_hash ?sth) = Some root \<and> verify_consistency_proof C Sha256 (unat (wc_tree_size c)) (unat (sth_tree_size ?sth))
            (v_proof v) old root)"
      by (auto simp: decided.hyps(3))
    have "witness_inv C ?key (v # tr) ws''"
    proof (rule inv_advance [OF decided.IH, where sth = ?sth and shard = shard and now = now])
      fix r' assume "r' \<in> set (cosigs_of (ws_chain ws''))"
      with chain rows same show "(\<exists>r\<in>set (cosigs_of (ws_chain ws)). same_head r r') \<or> head_row_of ?key shard ?sth r'" by auto
    qed (use fwd new cps decided.hyps(3,4) in \<open>auto simp: vouch_of_def\<close>)
    with move show ?thesis by simp
  qed
next
  case (reattest tr ws equivocating now n ws')
  show ?case
  proof (rule inv_rows [OF reattest.IH])
    fix r' assume "r' \<in> set (cosigs_of (ws_chain ws'))"
    then show "(\<exists>r\<in>set (cosigs_of (ws_chain ws)). same_head r r') \<or> (\<exists>sth c shard. head_row_of (wg_witness_key_id config) shard sth r' \<and>
        witness_checkpoint_for (sth_network_id sth) shard (ws_checkpoints ws) = Some c \<and> head_ckpt sth c)"
      using reattest.hyps(2) reattest_rows [of r' C config equivocating now "ws_checkpoints ws" 0 "cosigs_of (ws_chain ws)"]
      by (auto simp: reattest_once_def split: prod.splits)
  qed (use reattest.hyps(2) in \<open>auto simp: reattest_once_def split: prod.splits\<close>)
next
  case (other tr ws ws')
  have "(\<exists>v\<in>set (log_history net shard tr). v_size v = c_tree_size (g_cosig r) \<and> v_root v = c_root_hash (g_cosig r))"
    if "r \<in> set (cosigs_of (ws_chain ws'))" "own_row (wg_witness_key_id config) net shard r" for net shard r
  proof -
    from that have "r \<in> set (filter (own_row (wg_witness_key_id config) net shard) (cosigs_of (ws_chain ws')))" by simp
    then have "r \<in> set (cosigs_of (ws_chain ws))" unfolding other.hyps(3) by simp
    with other.IH that(2) show ?thesis by (auto simp: witness_inv_def)
  qed
  with other.IH show ?case by (auto simp: witness_inv_def other.hyps(2))
qed


section \<open>One history\<close>

text \<open>The messages hashed while checking the links of a history against the leaves of its newest head.\<close>

fun history_inputs :: "crates \<Rightarrow> vouch list \<Rightarrow> bytes list \<Rightarrow> bytes list" where
  "history_inputs C (v # u # vs) leaves = mth_inputs C Sha256 leaves @
     verify_subproof_inputs C Sha256 (unat (v_size u)) (length leaves) (v_proof v) True (the (decode_root32 C (v_root u))) @
     history_inputs C (u # vs) (take (unat (v_size u)) leaves)"
| "history_inputs C _ leaves = []"

lemma links_size:
  assumes "links C u v"
  shows "unat (v_size u) < unat (v_size v)"
proof -
  from assms have "unat (v_size u) \<le> unat (v_size v)" "v_size u \<noteq> v_size v"
    by (auto simp: links_def verify_consistency_proof_def split: if_splits)
  moreover have "unat (v_size u) \<noteq> unat (v_size v)" using calculation(2) by (auto dest: unsigned_word_eqI)
  ultimately show ?thesis by simp
qed

lemma history_prefixes:
  assumes "sha256_ok C" "history_ok C (v # vs)" "decode_root32 C (v_root v) = Some (mth C Sha256 leaves)" "length leaves = unat (v_size v)"
  shows "(\<forall>u\<in>set (v # vs). 0 < unat (v_size u) \<longrightarrow> unat (v_size u) \<le> length leaves \<and>
      decode_root32 C (v_root u) = Some (mth C Sha256 (take (unat (v_size u)) leaves))) \<or>
    collision_in C Sha256 (history_inputs C (v # vs) leaves)"
  using assms(2-)
proof (induction vs arbitrary: v leaves)
  case Nil
  then show ?case by simp
next
  case (Cons u vs)
  let ?m = "unat (v_size u)"
  from Cons.prems(1) obtain old where l: "links C u v" and ok: "history_ok C (u # vs)" and old: "decode_root32 C (v_root u) = Some old"
    and ver: "verify_consistency_proof C Sha256 ?m (length leaves) (v_proof v) old (mth C Sha256 leaves)"
    and pf: "\<forall>h\<in>set (v_proof v). length h = 32"
    using Cons.prems(2,3) by (auto simp: links_def)
  have m: "?m < length leaves" using links_size [OF l] Cons.prems(3) by simp
  show ?case
  proof (cases "?m = 0")
    case True
    then have "vs = []" using ok links_size by (cases vs) fastforce+
    then show ?thesis using True Cons.prems(2,3) by simp
  next
    case False
    have "length old = 32" using old by (auto simp: decode_root32_def to_array_def split: if_splits bind_splits)
    from consistency_binds [OF assms(1) this pf _ ver] False
    consider "old = mth C Sha256 (take ?m leaves)"
      | "collision_in C Sha256 (mth_inputs C Sha256 leaves @ verify_subproof_inputs C Sha256 ?m (length leaves) (v_proof v) True old)" by auto
    then show ?thesis
    proof cases
      case 1
      from Cons.IH [OF ok, of "take ?m leaves"] old m 1
      consider "\<forall>w\<in>set (u # vs). 0 < unat (v_size w) \<longrightarrow> unat (v_size w) \<le> ?m \<and>
          decode_root32 C (v_root w) = Some (mth C Sha256 (take (unat (v_size w)) (take ?m leaves)))"
        | "collision_in C Sha256 (history_inputs C (u # vs) (take ?m leaves))" by auto
      then show ?thesis
      proof cases
        case 1
        then show ?thesis using m Cons.prems(2,3) by (fastforce simp: min_def)
      next
        case 2
        then show ?thesis by (intro disjI2) (erule collision_mono, auto)
      qed
    next
      case 2
      then show ?thesis using old by (intro disjI2) (erule collision_mono, auto)
    qed
  qed
qed

text \<open>C12. A witness vouches for one append-only history. However decisions, crashes between their two writes,
  re-attestations and everything else the node does follow each other, all heads the witness has cosigned
  for a log are prefixes of the tree of its newest checkpoint: a cosigned root of size \<open>n\<close> is the Merkle root
  of the first \<open>n\<close> leaves. Otherwise the hashed messages contain a collision.\<close>

theorem witness_vouches_one_history:
  assumes "sha256_ok C" and "witness_run C config tr ws"
    and "witness_checkpoint_for net shard (ws_checkpoints ws) = Some c"
    and "decode_root32 C (wc_root_hash c) = Some (mth C Sha256 leaves)" and "length leaves = unat (wc_tree_size c)"
  shows "(\<forall>r\<in>set (cosigs_of (ws_chain ws)). own_row (wg_witness_key_id config) net shard r \<and> 0 < unat (c_tree_size (g_cosig r)) \<longrightarrow>
      unat (c_tree_size (g_cosig r)) \<le> length leaves \<and>
      decode_root32 C (c_root_hash (g_cosig r)) = Some (mth C Sha256 (take (unat (c_tree_size (g_cosig r))) leaves))) \<or>
    collision_in C Sha256 (history_inputs C (log_history net shard tr) leaves)"
proof -
  have inv: "history_ok C (log_history net shard tr)" "tip_matches (log_history net shard tr) (Some c)"
    and rows: "\<And>r. r \<in> set (cosigs_of (ws_chain ws)) \<Longrightarrow> own_row (wg_witness_key_id config) net shard r \<Longrightarrow>
      \<exists>v\<in>set (log_history net shard tr). v_size v = c_tree_size (g_cosig r) \<and> v_root v = c_root_hash (g_cosig r)"
    using witness_run_inv [OF assms(2)] assms(3) unfolding witness_inv_def by metis+
  from inv(2) obtain v vs where h: "log_history net shard tr = v # vs" and v: "v_size v = wc_tree_size c" "v_root v = wc_root_hash c"
    by (cases "log_history net shard tr") auto
  from history_prefixes [OF assms(1), of v vs leaves] inv(1) assms(4,5) v
  show ?thesis unfolding h using rows [unfolded h] by fastforce
qed


section \<open>Honest heads are cosigned\<close>

lemma decide_bootstrap:
  assumes "\<not> equivocating shard" "witness_checkpoint_for (sth_network_id (head_sth head)) shard (ws_checkpoints ws) = None"
  shows "decide C fetch now (Some config) equivocating src shard head ws =
    Some (cosign_and_record C now config (sth_network_id (head_sth head)) shard head ws)"
  using assms by (simp add: decide_def classify_against_checkpoint_def)

lemma decide_extends:
  assumes "\<not> equivocating shard" "witness_checkpoint_for (sth_network_id (head_sth head)) shard (ws_checkpoints ws) = Some c"
    and "sint (wc_tree_size c) < sint (sth_tree_size (head_sth head))"
    and "verify_consistency_extends_checkpoint C fetch u shard c (sth_tree_size (head_sth head)) (sth_root_hash (head_sth head)) Sha256"
  shows "decide C fetch now (Some config) equivocating (Peer u) shard head ws =
    Some (cosign_and_record C now config (sth_network_id (head_sth head)) shard head ws)"
  using assms by (simp add: decide_def classify_against_checkpoint_def Let_def only_algo [of "hash_algo _"])

lemma decode_root32_hex: "hex_ok C \<Longrightarrow> length b = 32 \<Longrightarrow> decode_root32 C (hex_encode C b) = Some b"
  by (simp add: decode_root32_def hex_roundtrip to_array_def)

lemma decode_proof_nodes_hex:
  assumes "hex_ok C" "\<forall>h\<in>set pf. length h = 32"
  shows "decode_proof_nodes C (map (hex_encode C) pf) = Some pf"
  using assms(2) by (induction pf) (simp_all add: decode_proof_nodes_def decode_root32_hex [OF assms(1)])

lemma subproof_len:
  assumes "sha256_ok C"
  shows "0 < m \<Longrightarrow> m \<le> length d \<Longrightarrow> h \<in> set (subproof C algo m d b) \<Longrightarrow> length h = 32"
proof (induction d arbitrary: m b rule: tree_induct)
  case (leaf d)
  then have "m = length d" by linarith
  with leaf show ?case by (auto simp: subproof_base mth_len [OF assms] split: if_splits)
next
  case (node d k)
  show ?case
  proof (cases "m = length d")
    case True
    with node.prems show ?thesis by (auto simp: subproof_base mth_len [OF assms] split: if_splits)
  next
    case False
    show ?thesis
    proof (cases "m \<le> k")
      case True
      with node show ?thesis by (auto simp: subproof_node [OF node(1,2) False] mth_len [OF assms])
    next
      case gt: False
      with node.prems node(6) [of "m - k" False] show ?thesis
        by (auto simp: subproof_node [OF node(1,2) False] mth_len [OF assms])
    qed
  qed
qed

text \<open>The answer of a peer that holds the leaves.\<close>

definition honest_proof :: "crates \<Rightarrow> bytes list \<Rightarrow> nat \<Rightarrow> bytes list \<Rightarrow> ConsistencyProofDto" where
  "honest_proof C leaves m pf = \<lparr>cp_first_root_hash = hex_encode C (mth C Sha256 (take m leaves)),
     cp_second_root_hash = hex_encode C (mth C Sha256 leaves), cp_proof = map (hex_encode C) pf\<rparr>"

lemma size_of_nat:
  assumes "n < 2 ^ 63"
  shows "sint (of_nat n :: i64) = int n \<and> unat (of_nat n :: i64) = n"
proof -
  have "take_bit 64 n = n" using assms by (simp add: take_bit_nat_eq_self_iff)
  moreover have "signed_take_bit 63 (int n) = int n" using assms by (simp add: signed_take_bit_int_eq_self_iff)
  ultimately show ?thesis by (simp add: sint_uint unsigned_of_nat)
qed

lemma honest_extension:
  assumes "hex_ok C" "sha256_ok C" "0 < m" "m < length leaves" "length leaves < 2 ^ 63"
    and "wc_tree_size c = of_nat m" "wc_root_hash c = hex_encode C (mth C Sha256 (take m leaves))"
    and "consistency_proof C Sha256 m leaves = Ok pf" "fetch u (of_nat m) (of_nat (length leaves)) shard = Some (honest_proof C leaves m pf)"
  shows "verify_consistency_extends_checkpoint C fetch u shard c (of_nat (length leaves)) (hex_encode C (mth C Sha256 leaves)) Sha256"
    and "sint (wc_tree_size c) < sint (of_nat (length leaves) :: i64)" and "\<forall>h\<in>set pf. length h = 32"
proof -
  have n: "unat (of_nat m :: i64) = m" "unat (of_nat (length leaves) :: i64) = length leaves"
    "sint (of_nat m :: i64) = int m" "sint (of_nat (length leaves) :: i64) = int (length leaves)"
    using assms(4,5) size_of_nat [of m] size_of_nat [of "length leaves"] by auto
  show pf: "\<forall>h\<in>set pf. length h = 32"
    using assms(3,4,8) subproof_len [OF assms(2) assms(3), of leaves _ Sha256 True] by (auto simp: consistency_proof_def Let_def)
  show "sint (wc_tree_size c) < sint (of_nat (length leaves) :: i64)" using assms(4,6) n by simp
  show "verify_consistency_extends_checkpoint C fetch u shard c (of_nat (length leaves)) (hex_encode C (mth C Sha256 leaves)) Sha256"
    using assms(3,4,6-9) consistency_proof_complete [of m leaves C Sha256] n
    by (simp add: verify_consistency_extends_checkpoint_def honest_proof_def decode_root32_hex [OF assms(1)] mth_len [OF assms(2)]
        decode_proof_nodes_hex [OF assms(1) pf])
qed

lemma envelope_current_algo: "(envelope_current tag)\<lparr>hash_algo := a\<rparr> = envelope_current tag"
  by (simp add: envelope_current_def only_algo [of a])

lemma cosign_stores:
  assumes "hex_ok C" "sig_ok C" "\<not> key_is_weak C (verifying_key C (wg_signing_key config))"
    and "sign_witness_cosignature C (wg_signing_key config) (wg_witness_key_id config) (head_sth head) now = Ok cosig"
    and "list_witness_cosignatures C net shard (sth_tree_size (head_sth head)) (cosigs_of (ws_chain ws)) = Ok existing"
    and "\<forall>r\<in>set (cosigs_of (ws_chain ws)). \<not> same_slot shard cosig r" "net = sth_network_id (head_sth head)"
    and none: "\<forall>x\<in>set existing. c_witness_key_id x \<noteq> wg_witness_key_id config"
  shows "\<exists>ws' r. cosign_and_record C now config net shard head ws = (Cosigned, ws') \<and> r \<in> set (cosigs_of (ws_chain ws')) \<and>
    head_row_of (wg_witness_key_id config) shard (head_sth head) r \<and>
    verify_witness_cosignature C (verifying_key C (wg_signing_key config)) (g_cosig r)"
proof -
  have fields: "c_envelope cosig = envelope_current WITNESS_COSIGN"
    using assms(4) by (auto simp: sign_witness_cosignature_def sign_unsigned_def rbind_eq_Inr Let_def envelope_current_algo)
  obtain er where er: "row_from_envelope C (c_envelope cosig) = Ok er" using current_row [OF assms(1)] fields by metis
  let ?row = "\<lparr>g_shard_id = shard, g_cosig = cosig, g_envelope = er\<rparr>"
  have "find (same_slot shard cosig) (cosigs_of (ws_chain ws)) = None" using assms(6) by (simp add: find_None_iff)
  then have st: "store_witness_cosignature C shard cosig (cosigs_of (ws_chain ws)) = Ok (cosigs_of (ws_chain ws) @ [?row])"
    by (simp add: store_witness_cosignature_def er)
  have "verify_witness_cosignature C (verifying_key C (wg_signing_key config)) cosig"
    using sign_unsigned_verifies [OF assms(1-3)] assms(4) by (auto simp: sign_witness_cosignature_def)
  moreover have "head_row_of (wg_witness_key_id config) shard (head_sth head) ?row"
    using sign_cosig_fields [OF assms(4)] by (simp add: head_row_of_def own_row_def)
  moreover have "\<exists>ws'. cosign_and_record C now config net shard head ws = (Cosigned, ws') \<and> cosigs_of (ws_chain ws') = cosigs_of (ws_chain ws) @ [?row]"
    using assms(4,5) st none by (auto simp: cosign_and_record_def ensure_own_cosignature_stored_def Let_def)
  ultimately show ?thesis by fastforce
qed

text \<open>C20. An honest log keeps being witnessed: when the witness's checkpoint is a prefix of the author's leaves and the
  peer it asks serves the proof the author's tree has, the witness cosigns the new head, its cosignature is
  stored and verifies under the witness key, and the checkpoint moves to the new head.\<close>

theorem honest_head_cosigned:
  assumes "hex_ok C" and "sha256_ok C" and "sig_ok C" and "\<not> key_is_weak C (verifying_key C (wg_signing_key config))"
    and "\<not> equivocating shard" and "0 < m" and "m < length leaves" and "length leaves < 2 ^ 63"
    and "witness_checkpoint_for (sth_network_id (head_sth head)) shard (ws_checkpoints ws) = Some c"
    and "wc_tree_size c = of_nat m" and "wc_root_hash c = hex_encode C (mth C Sha256 (take m leaves))"
    and "sth_tree_size (head_sth head) = of_nat (length leaves)" and "sth_root_hash (head_sth head) = hex_encode C (mth C Sha256 leaves)"
    and "consistency_proof C Sha256 m leaves = Ok pf"
    and "fetch u (of_nat m) (of_nat (length leaves)) shard = Some (honest_proof C leaves m pf)"
    and "sign_witness_cosignature C (wg_signing_key config) (wg_witness_key_id config) (head_sth head) now = Ok cosig"
    and "list_witness_cosignatures C (sth_network_id (head_sth head)) shard (sth_tree_size (head_sth head)) (cosigs_of (ws_chain ws)) = Ok existing"
    and "\<forall>x\<in>set existing. c_witness_key_id x \<noteq> wg_witness_key_id config" and "\<forall>r\<in>set (cosigs_of (ws_chain ws)). \<not> same_slot shard cosig r"
  shows "\<exists>ws' r c'. decide C fetch now (Some config) equivocating (Peer u) shard head ws = Some (Cosigned, ws') \<and>
    r \<in> set (cosigs_of (ws_chain ws')) \<and> head_row_of (wg_witness_key_id config) shard (head_sth head) r \<and>
    verify_witness_cosignature C (verifying_key C (wg_signing_key config)) (g_cosig r) \<and>
    witness_checkpoint_for (sth_network_id (head_sth head)) shard (ws_checkpoints ws') = Some c' \<and> head_ckpt (head_sth head) c'"
proof -
  note ext = honest_extension [OF assms(1,2,6-8,10,11,14), of fetch u shard, OF assms(15)]
  have d: "decide C fetch now (Some config) equivocating (Peer u) shard head ws =
      Some (cosign_and_record C now config (sth_network_id (head_sth head)) shard head ws)"
    using decide_extends [of equivocating shard, OF assms(5,9)] ext assms(12,13) by simp
  from cosign_stores [OF assms(1,3,4,16,17,19) refl assms(18)] obtain ws' r where
    res: "cosign_and_record C now config (sth_network_id (head_sth head)) shard head ws = (Cosigned, ws')"
      "r \<in> set (cosigs_of (ws_chain ws'))" "head_row_of (wg_witness_key_id config) shard (head_sth head) r"
      "verify_witness_cosignature C (verifying_key C (wg_signing_key config)) (g_cosig r)" by blast
  have "\<exists>c'. witness_checkpoint_for (sth_network_id (head_sth head)) shard (ws_checkpoints ws') = Some c' \<and> head_ckpt (head_sth head) c'"
    using ext(2) assms(9,12) by (simp add: cosign_and_record_effect(1) [OF res(1)] record_checkpoint_for head_ckpt_def)
  with d res show ?thesis by auto
qed


section \<open>Witnesses\<close>

text \<open>Cosigning a head its author signed never fails.\<close>

lemma author_head_cosignable:
  assumes "hex_ok C" and "sig_ok C" and "sign_tree_head_with C k kid ts root net created env = Ok sth" and "fits w"
  shows "\<exists>c. sign_witness_cosignature C wk w sth t = Ok c"
proof -
  from assms(3) obtain m where m: "signing_message C ts root net kid created env = Ok m"
    and sth: "sth = \<lparr>sth_tree_size = ts, sth_root_hash = root, sth_network_id = net, sth_signing_key_id = kid,
      sth_signature = hex_encode C (ed_sign C k m), sth_created_at = created, sth_envelope = env\<rparr>"
    by (auto simp: sign_tree_head_with_def rbind_eq_Inr)
  from m obtain h where "length h = 32" "root = hex_encode C h" "fits net" "fits kid"
    by (auto simp: signing_message_Ok [OF assms(1)])
  moreover have "length (ed_sign C k m) = 64" using assms(2) by (simp add: sig_ok_def)
  ultimately show ?thesis
    using assms(4)
    by (auto simp: sign_witness_cosignature_def sign_unsigned_def rbind_eq_Inr Let_def decode_author_signature_Ok sth
        hex_roundtrip [OF assms(1)] witness_signing_message_Ok [OF assms(1)] hex_encode_inject [OF assms(1)])
qed

definition demo_witness_config :: WitnessCosignConfig where
  "demo_witness_config = \<lparr>wg_signing_key = demo_seed, wg_witness_key_id = ''w1''\<rparr>"

definition demo_witness_state :: witness_state where
  "demo_witness_state = \<lparr>ws_chain = \<lparr>st_network = ''testnet'', st_shard = ''core'',
     st_db = \<lparr>db_entries = [], db_batches = [], db_heads = [], db_cosigs = []\<rparr>, st_cache = cache_default\<rparr>, ws_checkpoints = []\<rparr>"

lemma demo_prefix_head:
  obtains sth where "sign_tree_head_with demo_crates demo_seed ''op'' (of_nat n) (hex_encode demo_crates (mth demo_crates Sha256 (take n demo_leaves)))
      ''testnet'' 5 (envelope_current SETTLEMENT_STH) = Ok sth"
    and "sth_tree_size sth = of_nat n" and "sth_root_hash sth = hex_encode demo_crates (mth demo_crates Sha256 (take n demo_leaves))"
    and "sth_network_id sth = ''testnet''"
proof -
  have "\<exists>m. signing_message demo_crates (of_nat n) (hex_encode demo_crates (mth demo_crates Sha256 (take n demo_leaves))) ''testnet'' ''op'' 5
      (envelope_current SETTLEMENT_STH) = Ok m"
    by (auto simp: signing_message_Ok [OF demo_hex_ok] hex_encode_inject [OF demo_hex_ok] mth_len [OF demo_sha256_ok])
  with that show ?thesis by (auto simp: sign_tree_head_with_def)
qed

text \<open>The witness cosigns the head over the first leaf, then the one over all three.\<close>

theorem honest_head_cosigned_witness:
  "\<exists>fetch head ws ws'. decide demo_crates fetch 8 (Some demo_witness_config) (\<lambda>_. False) (Peer ''u'') ''core'' head ws = Some (Cosigned, ws') \<and>
     length (cosigs_of (ws_chain ws')) > 0"
proof -
  obtain sth where sth: "sign_tree_head_with demo_crates demo_seed ''op'' (of_nat 3) (hex_encode demo_crates (mth demo_crates Sha256 (take 3 demo_leaves)))
      ''testnet'' 5 (envelope_current SETTLEMENT_STH) = Ok sth" "sth_tree_size sth = of_nat 3"
      "sth_root_hash sth = hex_encode demo_crates (mth demo_crates Sha256 (take 3 demo_leaves))" "sth_network_id sth = ''testnet''"
    by (rule demo_prefix_head)
  let ?head = "\<lparr>head_sth = sth, cosignatures = []\<rparr>"
  let ?ws = "demo_witness_state\<lparr>ws_checkpoints := record_witness_checkpoint 6 ''testnet'' ''core'' (of_nat 1)
      (hex_encode demo_crates (mth demo_crates Sha256 (take 1 demo_leaves))) ''w1'' []\<rparr>"
  have len: "length demo_leaves = 3" by (simp add: demo_leaves_def)
  obtain pf where pf: "consistency_proof demo_crates Sha256 1 demo_leaves = Ok pf"
    using consistency_proof_complete [of 1 demo_leaves demo_crates Sha256] len by auto
  let ?fetch = "\<lambda>u a b s. Some (honest_proof demo_crates demo_leaves 1 pf)"
  obtain cosig where cosig: "sign_witness_cosignature demo_crates demo_seed ''w1'' sth 8 = Ok cosig"
    using author_head_cosignable [OF demo_hex_ok demo_sig_ok sth(1), of "''w1''" demo_seed 8] by auto
  obtain c where c: "witness_checkpoint_for ''testnet'' ''core'' (ws_checkpoints ?ws) = Some c" "wc_tree_size c = of_nat 1"
      "wc_root_hash c = hex_encode demo_crates (mth demo_crates Sha256 (take 1 demo_leaves))"
    by (simp add: record_witness_checkpoint_def witness_checkpoint_for_def checkpoint_of_def)
  have rows: "cosigs_of (ws_chain ?ws) = []" by (simp add: demo_witness_state_def cosigs_of_def)
  have list: "list_witness_cosignatures demo_crates ''testnet'' ''core'' n (cosigs_of (ws_chain ?ws)) = Ok []" for n
    unfolding rows by (simp add: list_witness_cosignatures_def)
  have key: "wg_signing_key demo_witness_config = demo_seed" "wg_witness_key_id demo_witness_config = ''w1''"
    by (simp_all add: demo_witness_config_def)
  have "\<exists>ws' r c'. decide demo_crates ?fetch 8 (Some demo_witness_config) (\<lambda>_. False) (Peer ''u'') ''core'' ?head ?ws = Some (Cosigned, ws') \<and>
    r \<in> set (cosigs_of (ws_chain ws')) \<and> head_row_of (wg_witness_key_id demo_witness_config) ''core'' (head_sth ?head) r \<and>
    verify_witness_cosignature demo_crates (verifying_key demo_crates (wg_signing_key demo_witness_config)) (g_cosig r) \<and>
    witness_checkpoint_for (sth_network_id (head_sth ?head)) ''core'' (ws_checkpoints ws') = Some c' \<and> head_ckpt (head_sth ?head) c'"
    by (rule honest_head_cosigned [OF demo_hex_ok demo_sha256_ok demo_sig_ok, where m = 1 and leaves = demo_leaves and c = c and pf = pf
          and cosig = cosig and existing = "[]"])
      (use sth c cosig list rows key len pf demo_key in simp_all)
  then show ?thesis by fastforce
qed

text \<open>The run of the two decisions, and what it says about the cosigned heads.\<close>

theorem witness_vouches_one_history_witness:
  "\<exists>tr ws c. witness_run demo_crates demo_witness_config tr ws \<and> length tr = 2 \<and>
     witness_checkpoint_for ''testnet'' ''core'' (ws_checkpoints ws) = Some c \<and> wc_tree_size c = 3 \<and>
     ((\<forall>r\<in>set (cosigs_of (ws_chain ws)). own_row ''w1'' ''testnet'' ''core'' r \<and> 0 < unat (c_tree_size (g_cosig r)) \<longrightarrow>
        unat (c_tree_size (g_cosig r)) \<le> length demo_leaves \<and>
        decode_root32 demo_crates (c_root_hash (g_cosig r)) = Some (mth demo_crates Sha256 (take (unat (c_tree_size (g_cosig r))) demo_leaves))) \<or>
      collision_in demo_crates Sha256 (history_inputs demo_crates (log_history ''testnet'' ''core'' tr) demo_leaves))"
proof -
  have len: "length demo_leaves = 3" by (simp add: demo_leaves_def)
  obtain pf where pf: "consistency_proof demo_crates Sha256 1 demo_leaves = Ok pf"
    using consistency_proof_complete [of 1 demo_leaves demo_crates Sha256] len by auto
  let ?fetch = "\<lambda>u a b s. Some (honest_proof demo_crates demo_leaves 1 pf)"
  obtain s1 where "sign_tree_head_with demo_crates demo_seed ''op'' (of_nat 1) (hex_encode demo_crates (mth demo_crates Sha256 (take 1 demo_leaves)))
      ''testnet'' 5 (envelope_current SETTLEMENT_STH) = Ok s1" and s1: "sth_tree_size s1 = of_nat 1" "sth_root_hash s1 = hex_encode demo_crates (mth demo_crates Sha256 (take 1 demo_leaves))"
      "sth_network_id s1 = ''testnet''" by (rule demo_prefix_head)
  obtain s3 where "sign_tree_head_with demo_crates demo_seed ''op'' (of_nat 3) (hex_encode demo_crates (mth demo_crates Sha256 (take 3 demo_leaves)))
      ''testnet'' 5 (envelope_current SETTLEMENT_STH) = Ok s3" and s3: "sth_tree_size s3 = of_nat 3" "sth_root_hash s3 = hex_encode demo_crates (mth demo_crates Sha256 (take 3 demo_leaves))"
      "sth_network_id s3 = ''testnet''" by (rule demo_prefix_head)
  let ?h1 = "\<lparr>head_sth = s1, cosignatures = []\<rparr>" and ?h3 = "\<lparr>head_sth = s3, cosignatures = []\<rparr>"
  let ?key = "wg_witness_key_id demo_witness_config"
  have none: "witness_checkpoint_for ''testnet'' ''core'' (ws_checkpoints demo_witness_state) = None"
    by (simp add: demo_witness_state_def witness_checkpoint_for_def)
  obtain o1 w1 where r1: "cosign_and_record demo_crates 6 demo_witness_config ''testnet'' ''core'' ?h1 demo_witness_state = (o1, w1)" by fastforce
  have d1: "decide demo_crates ?fetch 6 (Some demo_witness_config) (\<lambda>_. False) (Peer ''u'') ''core'' ?h1 demo_witness_state = Some (o1, w1)"
    using decide_bootstrap [of "\<lambda>_. False" "''core''" ?h1 demo_witness_state] none s1(3) r1 by simp
  obtain c1 where c1: "witness_checkpoint_for ''testnet'' ''core'' (ws_checkpoints w1) = Some c1" "wc_tree_size c1 = of_nat 1"
      "wc_root_hash c1 = hex_encode demo_crates (mth demo_crates Sha256 (take 1 demo_leaves))"
    using none s1 by (simp add: cosign_and_record_effect(1) [OF r1] record_checkpoint_for)
  have ext: "verify_consistency_extends_checkpoint demo_crates ?fetch ''u'' ''core'' c1 (of_nat (length demo_leaves))
      (hex_encode demo_crates (mth demo_crates Sha256 demo_leaves)) Sha256"
    "sint (wc_tree_size c1) < sint (of_nat (length demo_leaves) :: i64)" "\<forall>h\<in>set pf. length h = 32"
    using honest_extension [OF demo_hex_ok demo_sha256_ok, of 1 demo_leaves c1 pf ?fetch "''u''" "''core''"] c1 pf len by simp_all
  obtain o3 w3 where r3: "cosign_and_record demo_crates 8 demo_witness_config ''testnet'' ''core'' ?h3 w1 = (o3, w3)" by fastforce
  have d3: "decide demo_crates ?fetch 8 (Some demo_witness_config) (\<lambda>_. False) (Peer ''u'') ''core'' ?h3 w1 = Some (o3, w3)"
    using decide_extends [of "\<lambda>_. False" "''core''" ?h3 w1 c1 demo_crates ?fetch "''u''"] c1(1) ext len s3 r3 by simp
  obtain c3 where c3: "witness_checkpoint_for ''testnet'' ''core'' (ws_checkpoints w3) = Some c3" "wc_tree_size c3 = of_nat 3"
      "wc_root_hash c3 = hex_encode demo_crates (mth demo_crates Sha256 (take 3 demo_leaves))"
    using c1(1) ext(2) len s3 by (simp add: cosign_and_record_effect(1) [OF r3] record_checkpoint_for)
  have ne: "ws_checkpoints w1 \<noteq> ws_checkpoints demo_witness_state" "ws_checkpoints w3 \<noteq> ws_checkpoints w1"
    using none c1 c3 by auto
  have start: "witness_run demo_crates demo_witness_config [] demo_witness_state"
    by (rule witness_run.fresh) (simp_all add: demo_witness_state_def cosigs_of_def)
  have run1: "witness_run demo_crates demo_witness_config [vouch_of demo_crates ?fetch (Peer ''u'') ''core'' s1 demo_witness_state] w1"
    using witness_run.decided [OF start d1 refl, of w1] ne(1) none s1(3) by (simp add: vouch_of_def proof_used_def)
  have "v_proof (vouch_of demo_crates ?fetch (Peer ''u'') ''core'' s3 w1) = pf"
    using c1(1) s3(3) decode_proof_nodes_hex [OF demo_hex_ok ext(3)] by (simp add: vouch_of_def proof_used_def honest_proof_def)
  then have run3: "witness_run demo_crates demo_witness_config
      [vouch_of demo_crates ?fetch (Peer ''u'') ''core'' s3 w1, vouch_of demo_crates ?fetch (Peer ''u'') ''core'' s1 demo_witness_state] w3"
    using witness_run.decided [OF run1 d3 refl, of w3] ne(2) ext(3) by simp
  have root: "decode_root32 demo_crates (wc_root_hash c3) = Some (mth demo_crates Sha256 demo_leaves)"
    using c3(3) len by (simp add: decode_root32_hex [OF demo_hex_ok] mth_len [OF demo_sha256_ok])
  have "length demo_leaves = unat (wc_tree_size c3)" by (simp add: c3(2) len)
  from witness_vouches_one_history [OF demo_sha256_ok run3 c3(1) root this] run3 c3 show ?thesis
    by (intro exI conjI) (auto simp: demo_witness_config_def)
qed

end
