(* ===== verification/Witness_List.thy ===== *)
theory Witness_List
  imports Known_List F64 Witness "HOL-Library.Char_ord" "HOL-Library.List_Lexorder" "HOL-Library.Product_Lexorder"
begin

text \<open>
  The known list a node keeps (the server's \<open>known_list.rs\<close>): slots with tenure, probation and freshness, the
  maintenance tick, what is read back after a restart, and how candidates are collected from the peer table.
  Address resolution under the outbound policy is the argument \<open>resolve\<close>; bundled anchors and the peer table
  are arguments too. Files are not modelled: a saved list is the value it holds.
\<close>

section \<open>Doubles\<close>

text \<open>The arithmetic of non-negative doubles that \<open>Duration::mul_f64\<close> uses, as magnitudes; a duration is whole nanoseconds.\<close>

definition mag_of_nat :: "nat \<Rightarrow> nat" where "mag_of_nat n = round_mag n 1"
definition mag_div :: "nat \<Rightarrow> nat \<Rightarrow> nat" where "mag_div a b = round_mag (mag_units a) (mag_units b)"
definition mag_mul :: "nat \<Rightarrow> nat \<Rightarrow> nat" where "mag_mul a b = round_mag (mag_units a * mag_units b) (SCALE * SCALE)"
definition mag_add :: "nat \<Rightarrow> nat \<Rightarrow> nat" where "mag_add a b = round_mag (mag_units a + mag_units b) SCALE"

definition ONE_MAG :: nat where "ONE_MAG = 1023 * FRAC"

definition round_half_even :: "nat \<Rightarrow> nat \<Rightarrow> nat" where
  "round_half_even p q =
     (let d = p div q; r = p mod q in if 2 * r < q \<or> (2 * r = q \<and> even d) then d else d + 1)"

definition as_secs_f64 :: "duration \<Rightarrow> nat" where
  "as_secs_f64 w = mag_add (mag_of_nat (nat w div 1000000000)) (mag_div (mag_of_nat (nat w mod 1000000000)) (mag_of_nat 1000000000))"

text \<open>\<open>None\<close> is the panic on a value that does not fit.\<close>

definition from_secs_f64 :: "nat \<Rightarrow> duration option" where
  "from_secs_f64 m =
     (let n = round_half_even (mag_units m * 1000000000) SCALE in
      if INF_MAG \<le> m \<or> 2 ^ 64 * 1000000000 \<le> n then None else Some (int n))"

definition mul_f64 :: "duration \<Rightarrow> nat \<Rightarrow> duration option" where
  "mul_f64 w m = from_secs_f64 (mag_mul m (as_secs_f64 w))"

section \<open>The list\<close>

datatype SlotStatus = Probationary | Confirmed

record KnownSlot =
  ks_witness_key_id :: str
  ks_prefix :: str
  ks_is_anchor :: bool
  ks_admitted_at :: time
  ks_last_observed_at :: time
  ks_status :: SlotStatus

record DiscoveredCandidate =
  dc_witness_key_id :: str
  dc_prefix :: str
  dc_is_anchor :: bool

record KnownListConfig =
  kc_capacity :: nat
  kc_anchor_capacity :: nat
  kc_max_per_prefix :: nat
  kc_freshness_window :: duration
  kc_probation_window :: duration
  kc_freshness_floor :: f64

definition DEFAULT_FRESHNESS_FLOOR :: f64 where "DEFAULT_FRESHNESS_FLOOR = f64_make False (round_dec 4 (-1))"

definition default_config :: KnownListConfig where
  "default_config = \<lparr>kc_capacity = 5, kc_anchor_capacity = 2, kc_max_per_prefix = 2,
     kc_freshness_window = 10 * 60 * nanos_per_sec, kc_probation_window = 30 * 60 * nanos_per_sec,
     kc_freshness_floor = DEFAULT_FRESHNESS_FLOOR\<rparr>"

record KnownListInner =
  ki_capacity :: nat
  ki_anchor_capacity :: nat
  ki_max_per_prefix :: nat
  ki_freshness_window :: duration
  ki_probation_window :: duration
  ki_freshness_floor :: f64
  ki_slots :: "KnownSlot list"
  ki_candidate_first_seen :: "str \<rightharpoonup> time"

definition floor_ok :: "f64 \<Rightarrow> bool" where
  "floor_ok f \<longleftrightarrow> \<not> f64_neg f \<and> 0 < f64_mag f \<and> f64_mag f \<le> ONE_MAG"

definition ki_new :: "KnownListConfig \<Rightarrow> KnownListInner" where
  "ki_new cfg = \<lparr>ki_capacity = kc_capacity cfg, ki_anchor_capacity = min (kc_anchor_capacity cfg) (kc_capacity cfg),
     ki_max_per_prefix = kc_max_per_prefix cfg, ki_freshness_window = kc_freshness_window cfg,
     ki_probation_window = kc_probation_window cfg,
     ki_freshness_floor = (if floor_ok (kc_freshness_floor cfg) then kc_freshness_floor cfg else DEFAULT_FRESHNESS_FLOOR),
     ki_slots = [], ki_candidate_first_seen = Map.empty\<rparr>"

definition from_persisted :: "KnownListConfig \<Rightarrow> KnownSlot list \<Rightarrow> KnownListInner" where
  "from_persisted cfg loaded = (ki_new cfg)\<lparr>ki_slots := loaded\<rparr>"

definition ki_anchor_count :: "KnownListInner \<Rightarrow> nat" where
  "ki_anchor_count l = length (filter ks_is_anchor (ki_slots l))"

definition ki_prefix_count :: "KnownListInner \<Rightarrow> str \<Rightarrow> nat" where
  "ki_prefix_count l p = length (filter (\<lambda>s. ks_prefix s = p) (ki_slots l))"

definition ki_contains :: "KnownListInner \<Rightarrow> str \<Rightarrow> bool" where
  "ki_contains l w \<longleftrightarrow> (\<exists>s\<in>set (ki_slots l). ks_witness_key_id s = w)"

definition ki_try_admit :: "time \<Rightarrow> DiscoveredCandidate \<Rightarrow> KnownListInner \<Rightarrow> bool \<times> KnownListInner" where
  "ki_try_admit now c l =
     (if ki_contains l (dc_witness_key_id c) then (False, l)
      else if dc_is_anchor c \<and> ki_anchor_count l \<ge> ki_anchor_capacity l then (False, l)
      else if length (ki_slots l) \<ge> ki_capacity l then (False, l)
      else if ki_prefix_count l (dc_prefix c) \<ge> ki_max_per_prefix l then (False, l)
      else (True, l\<lparr>ki_slots := ki_slots l @ [\<lparr>ks_witness_key_id = dc_witness_key_id c, ks_prefix = dc_prefix c,
              ks_is_anchor = dc_is_anchor c, ks_admitted_at = now, ks_last_observed_at = now,
              ks_status = (if dc_is_anchor c then Confirmed else Probationary)\<rparr>]\<rparr>))"

definition ki_remove :: "str \<Rightarrow> KnownListInner \<Rightarrow> bool \<times> KnownListInner" where
  "ki_remove w l =
     (let kept = filter (\<lambda>s. ks_witness_key_id s \<noteq> w) (ki_slots l) in
      (length kept \<noteq> length (ki_slots l), l\<lparr>ki_slots := kept, ki_candidate_first_seen := (ki_candidate_first_seen l)(w := None)\<rparr>))"

fun observe_slots :: "str \<Rightarrow> time \<Rightarrow> KnownSlot list \<Rightarrow> KnownSlot list" where
  "observe_slots w now [] = []"
| "observe_slots w now (s # ss) =
     (if ks_witness_key_id s = w then s\<lparr>ks_last_observed_at := now\<rparr> # ss else s # observe_slots w now ss)"

definition observe :: "str \<Rightarrow> time \<Rightarrow> KnownListInner \<Rightarrow> bool \<times> KnownListInner" where
  "observe w now l = (ki_contains l w, l\<lparr>ki_slots := observe_slots w now (ki_slots l)\<rparr>)"

definition due :: "KnownListInner \<Rightarrow> time \<Rightarrow> KnownSlot \<Rightarrow> bool" where
  "due l now s \<longleftrightarrow> ks_status s = Probationary \<and> now - ks_admitted_at s \<ge> ki_probation_window l \<and>
     now - ks_last_observed_at s \<le> ki_freshness_window l"

definition confirm_due :: "time \<Rightarrow> KnownListInner \<Rightarrow> str list \<times> KnownListInner" where
  "confirm_due now l =
     (map ks_witness_key_id (filter (due l now) (ki_slots l)),
      l\<lparr>ki_slots := map (\<lambda>s. if due l now s then s\<lparr>ks_status := Confirmed\<rparr> else s) (ki_slots l)\<rparr>)"

definition tolerance :: "nat \<Rightarrow> nat" where
  "tolerance n = n - majority_threshold n"

definition effective_freshness_window :: "KnownListInner \<Rightarrow> nat \<Rightarrow> duration option" where
  "effective_freshness_window l confirmed =
     (let max_tolerance = tolerance (ki_capacity l) in
      if confirmed \<le> 1 \<or> max_tolerance = 0 then Some (ki_freshness_window l)
      else
        (let ratio = mag_div (mag_of_nat (tolerance confirmed)) (mag_of_nat max_tolerance) in
         mul_f64 (ki_freshness_window l) (min (max ratio (f64_mag (ki_freshness_floor l))) ONE_MAG)))"

definition stale :: "KnownListInner \<Rightarrow> duration \<Rightarrow> time \<Rightarrow> KnownSlot \<Rightarrow> bool" where
  "stale l confirmed_window now s \<longleftrightarrow>
     now - ks_last_observed_at s > (if ks_status s = Confirmed then confirmed_window else ki_freshness_window l)"

definition prune_stale :: "time \<Rightarrow> KnownListInner \<Rightarrow> (KnownSlot list \<times> KnownListInner) option" where
  "prune_stale now l =
     map_option (\<lambda>w.
       let removed = filter (stale l w now) (ki_slots l) in
       (removed, l\<lparr>ki_slots := filter (\<lambda>s. \<not> stale l w now s) (ki_slots l),
          ki_candidate_first_seen := (\<lambda>k. if k \<in> ks_witness_key_id ` set removed then None else ki_candidate_first_seen l k)\<rparr>))
     (effective_freshness_window l (length (filter (\<lambda>s. ks_status s = Confirmed) (ki_slots l))))"

definition note_candidate :: "time \<Rightarrow> KnownListInner \<Rightarrow> DiscoveredCandidate \<Rightarrow> KnownListInner" where
  "note_candidate now l c =
     (let l = snd (observe (dc_witness_key_id c) now l) in
      if ki_candidate_first_seen l (dc_witness_key_id c) = None
      then l\<lparr>ki_candidate_first_seen := (ki_candidate_first_seen l)(dc_witness_key_id c \<mapsto> now)\<rparr> else l)"

definition rank_key :: "time \<Rightarrow> KnownListInner \<Rightarrow> DiscoveredCandidate \<Rightarrow> time \<times> str" where
  "rank_key now l c =
     (case ki_candidate_first_seen l (dc_witness_key_id c) of Some t \<Rightarrow> t | None \<Rightarrow> now, dc_witness_key_id c)"

fun admit_all :: "time \<Rightarrow> DiscoveredCandidate list \<Rightarrow> KnownListInner \<Rightarrow> str list \<times> KnownListInner" where
  "admit_all now [] l = ([], l)"
| "admit_all now (c # cs) l =
     (case ki_try_admit now c l of
        (ok, l') \<Rightarrow> (case admit_all now cs l' of (ids, l'') \<Rightarrow> (if ok then dc_witness_key_id c # ids else ids, l'')))"

definition refill :: "DiscoveredCandidate list \<Rightarrow> time \<Rightarrow> KnownListInner \<Rightarrow> str list \<times> KnownListInner" where
  "refill candidates now l =
     (let l = foldl (note_candidate now) l candidates;
          offered = set (map dc_witness_key_id candidates);
          slot_ids = set (map ks_witness_key_id (ki_slots l));
          l = l\<lparr>ki_candidate_first_seen := (\<lambda>k. if k \<in> offered \<or> k \<in> slot_ids then ki_candidate_first_seen l k else None)\<rparr>;
          ranked = sort_key (rank_key now l) (filter (\<lambda>c. \<not> ki_contains l (dc_witness_key_id c)) candidates)
      in admit_all now ranked l)"

definition confirmed_witness_key_ids :: "KnownListInner \<Rightarrow> str list" where
  "confirmed_witness_key_ids l = map ks_witness_key_id (filter (\<lambda>s. ks_status s = Confirmed) (ki_slots l))"

record TickReport =
  tr_admitted :: "str list"
  tr_promoted :: "str list"
  tr_removed :: "str list"

definition tick :: "DiscoveredCandidate list \<Rightarrow> time \<Rightarrow> KnownListInner \<Rightarrow> (TickReport \<times> KnownListInner) option" where
  "tick candidates now l =
     (case confirm_due now l of (promoted, l) \<Rightarrow>
      case prune_stale now l of
        None \<Rightarrow> None
      | Some (removed, l) \<Rightarrow>
          (case refill candidates now l of
             (admitted, l) \<Rightarrow> Some (\<lparr>tr_admitted = admitted, tr_promoted = promoted, tr_removed = map ks_witness_key_id removed\<rparr>, l)))"

section \<open>Persistence\<close>

definition PERSISTED_FORMAT_VERSION :: u32 where "PERSISTED_FORMAT_VERSION = 2"

record PersistedKnownList =
  pk_version :: u32
  pk_slots :: "KnownSlot list"

text \<open>The file: missing, unreadable or not parseable is \<open>None\<close>.\<close>

definition load_slots :: "PersistedKnownList option \<Rightarrow> KnownSlot list" where
  "load_slots file =
     (case file of Some p \<Rightarrow> if pk_version p = PERSISTED_FORMAT_VERSION then pk_slots p else [] | None \<Rightarrow> [])"

definition load_or_new :: "KnownListConfig \<Rightarrow> PersistedKnownList option \<Rightarrow> KnownListInner" where
  "load_or_new cfg file = from_persisted cfg (load_slots file)"

definition save :: "KnownListInner \<Rightarrow> PersistedKnownList" where
  "save l = \<lparr>pk_version = PERSISTED_FORMAT_VERSION, pk_slots = ki_slots l\<rparr>"


definition changed :: "TickReport \<Rightarrow> bool" where
  "changed r \<longleftrightarrow> tr_admitted r \<noteq> [] \<or> tr_promoted r \<noteq> [] \<or> tr_removed r \<noteq> []"

text \<open>The tick of a handle: the list in memory and the saved file.\<close>

definition handle_tick ::
  "DiscoveredCandidate list \<Rightarrow> time \<Rightarrow> KnownListInner \<Rightarrow> PersistedKnownList option \<Rightarrow>
   (TickReport \<times> KnownListInner \<times> PersistedKnownList option) option" where
  "handle_tick candidates now l file =
     map_option (\<lambda>(report, l'). (report, l', if changed report then Some (save l') else file)) (tick candidates now l)"

end
