(* ===== verification/Witness_List_Facts.thy ===== *)
theory Witness_List_Facts
  imports Witness_List
begin

text \<open>
  What the maintenance of the known list guarantees over every run of ticks and restarts: its bounds, the
  tenure a witness must have before it counts, and what a restart does to a list that had settled.
\<close>

section \<open>The scaled window\<close>

lemma round_mag_le:
  assumes "0 < q" and "m \<le> INF_MAG" and "p * SCALE \<le> mag_units m * q"
  shows "round_mag p q \<le> m"
proof (cases "p * SCALE = mag_units m * q")
  case True
  then show ?thesis using round_mag_exact [of q m p] assms by simp
next
  case False
  let ?l = "bit_search (mag_le p q) 63 0"
  have "mag_units ?l * q < mag_units m * q" using lo_props(2) [OF assms(1), of p] assms(3) False by linarith
  then have "?l < m" using assms(1) by (simp add: mag_units_mono)
  then show ?thesis by (auto simp: round_mag_def Let_def)
qed

lemma ONE_units: "mag_units ONE_MAG = SCALE"
proof -
  have "mag_units ONE_MAG = FRAC * 2 ^ 1022" using mag_units_normal [of 0 1022] by (simp add: ONE_MAG_def)
  also have "\<dots> = SCALE" unfolding FRAC_def SCALE_def by (rule power_split) simp
  finally show ?thesis .
qed

lemma mul_one_le:
  assumes "r \<le> ONE_MAG" "s \<le> INF_MAG"
  shows "mag_mul r s \<le> s"
proof -
  have "mag_units r \<le> SCALE" using assms(1) ONE_units by (metis mag_units_le)
  then have "mag_units r * mag_units s * SCALE \<le> mag_units s * (SCALE * SCALE)"
    by (metis mult.assoc mult.commute mult_le_mono1)
  then show ?thesis unfolding mag_mul_def using assms(2) by (intro round_mag_le) simp_all
qed

lemma round_half_even_mono_whole:
  assumes "0 < q" "p \<le> n * q"
  shows "round_half_even p q \<le> n"
proof -
  have "p div q \<le> n" using assms by (metis div_le_mono div_mult_self_is_m)
  moreover have "p div q < n" if "0 < p mod q"
  proof -
    have "p div q * q + p mod q = p" by simp
    with that assms(2) have "p div q * q < n * q" by linarith
    then show ?thesis using assms(1) by simp
  qed
  ultimately show ?thesis using assms(1) by (auto simp: round_half_even_def Let_def)
qed

lemma whole_mag:
  assumes "secs \<le> MAX_SAFE_INTEGER"
  shows "mag_units (round_dec secs 0) = secs * SCALE" and "round_dec secs 0 < INF_MAG"
proof -
  show u: "mag_units (round_dec secs 0) = secs * SCALE" using whole_reads_exactly [OF assms refl] .
  obtain m where "m \<le> SAFE_MAG" "mag_units m = secs * SCALE" using int_representable [OF assms] by blast
  then have "round_dec secs 0 \<le> SAFE_MAG" using u mag_units_inject by metis
  then show "round_dec secs 0 < INF_MAG" using SAFE_le_INF by linarith
qed

lemma mag_of_nat_dec: "mag_of_nat n = round_dec n 0"
  by (simp add: mag_of_nat_def round_dec_def)

lemma units_zero: "mag_units 0 = 0"
  by (simp add: mag_units_def)

lemma whole_seconds:
  assumes "secs \<le> MAX_SAFE_INTEGER"
  shows "as_secs_f64 (int secs * 1000000000) = round_dec secs 0"
proof -
  have n: "nat (int secs * 1000000000) = secs * 1000000000" by (simp add: nat_mult_distrib)
  have "1000000000 \<le> MAX_SAFE_INTEGER" by (simp add: MAX_SAFE_INTEGER_def)
  then have q: "0 < mag_units (mag_of_nat 1000000000)" using whole_mag(1) by (simp add: mag_of_nat_dec)
  have "mag_of_nat 0 = 0" unfolding mag_of_nat_def by (rule round_mag_exact) (simp_all add: units_zero)
  then have zero: "mag_div (mag_of_nat 0) (mag_of_nat 1000000000) = 0"
    unfolding mag_div_def using q by (intro round_mag_exact) (simp_all add: units_zero)
  have "mag_add (round_dec secs 0) 0 = round_dec secs 0"
    unfolding mag_add_def using whole_mag(2) [OF assms] by (intro round_mag_exact) (simp_all add: units_zero)
  then show ?thesis using zero by (simp add: as_secs_f64_def n mag_of_nat_dec [of secs])
qed

text \<open>For a window of whole seconds that a double can count, scaling never fails and never lengthens it.\<close>

lemma effective_window_bound:
  assumes "ki_freshness_window l = int secs * 1000000000" "secs \<le> MAX_SAFE_INTEGER" 
  shows "\<exists>w. effective_freshness_window l n = Some w \<and> w \<le> ki_freshness_window l"
proof -
  let ?r = "min (max (mag_div (mag_of_nat (tolerance n)) (mag_of_nat (tolerance (ki_capacity l)))) (f64_mag (ki_freshness_floor l))) ONE_MAG"
  let ?s = "round_dec secs 0"
  have s: "as_secs_f64 (ki_freshness_window l) = ?s" "mag_units ?s = secs * SCALE" and inf: "?s < INF_MAG"
    using whole_seconds [OF assms(2)] whole_mag [OF assms(2)] assms(1) by simp_all
  have le: "mag_mul ?r ?s \<le> ?s" using inf by (intro mul_one_le) simp_all
  then have "mag_units (mag_mul ?r ?s) \<le> mag_units ?s" by (simp only: mag_units_le)
  then have "mag_units (mag_mul ?r ?s) * 1000000000 \<le> secs * SCALE * 1000000000" unfolding s(2) by (rule mult_le_mono1)
  then have "mag_units (mag_mul ?r ?s) * 1000000000 \<le> secs * 1000000000 * SCALE" by (simp only: ac_simps)
  from round_half_even_mono_whole [OF _ this]
  have n: "round_half_even (mag_units (mag_mul ?r ?s) * 1000000000) SCALE \<le> secs * 1000000000" by simp
  moreover have "secs * 1000000000 < 2 ^ 64 * 1000000000" using assms(2) by (simp add: MAX_SAFE_INTEGER_def)
  ultimately have "mul_f64 (ki_freshness_window l) ?r = Some (int (round_half_even (mag_units (mag_mul ?r ?s) * 1000000000) SCALE))"
    using le inf s(1) by (simp add: mul_f64_def from_secs_f64_def Let_def)
  then show ?thesis using n assms(1) by (auto simp: effective_freshness_window_def Let_def)
qed


section \<open>Bounds\<close>

definition member_of :: "KnownSlot \<Rightarrow> DiscoveredCandidate" where
  "member_of s = \<lparr>dc_witness_key_id = ks_witness_key_id s, dc_prefix = ks_prefix s, dc_is_anchor = ks_is_anchor s\<rparr>"

definition ki_members :: "KnownListInner \<Rightarrow> DiscoveredCandidate list" where
  "ki_members l = map member_of (ki_slots l)"

definition members_ok :: "nat \<Rightarrow> nat \<Rightarrow> nat \<Rightarrow> DiscoveredCandidate list \<Rightarrow> bool" where
  "members_ok cap anchors per_prefix ms \<longleftrightarrow> length ms \<le> cap \<and> length (filter dc_is_anchor ms) \<le> anchors \<and>
     (\<forall>p. length (filter (\<lambda>m. dc_prefix m = p) ms) \<le> per_prefix) \<and> distinct (map dc_witness_key_id ms)"

definition ki_inv :: "KnownListInner \<Rightarrow> bool" where
  "ki_inv l \<longleftrightarrow> members_ok (ki_capacity l) (ki_anchor_capacity l) (ki_max_per_prefix l) (ki_members l)"

definition same_caps :: "KnownListInner \<Rightarrow> KnownListInner \<Rightarrow> bool" where
  "same_caps l l' \<longleftrightarrow> ki_capacity l' = ki_capacity l \<and> ki_anchor_capacity l' = ki_anchor_capacity l \<and>
     ki_max_per_prefix l' = ki_max_per_prefix l \<and> ki_freshness_window l' = ki_freshness_window l \<and>
     ki_probation_window l' = ki_probation_window l \<and> ki_freshness_floor l' = ki_freshness_floor l"

lemma same_caps_refl [simp]: "same_caps l l"
  by (simp add: same_caps_def)

lemma same_caps_trans: "same_caps l l' \<Longrightarrow> same_caps l' l'' \<Longrightarrow> same_caps l l''"
  by (simp add: same_caps_def)

lemma members_ok_filter:
  assumes "members_ok cap anchors per_prefix (map member_of ss)"
  shows "members_ok cap anchors per_prefix (map member_of (filter P ss))"
proof -
  have "length (filter Q (map member_of (filter P ss))) \<le> length (filter Q (map member_of ss))" for Q
    by (induction ss) auto
  moreover have "distinct (map dc_witness_key_id (map member_of (filter P ss)))"
    using assms distinct_map_filter [of "dc_witness_key_id \<circ> member_of" ss P] by (simp add: members_ok_def)
  moreover have "length (map member_of (filter P ss)) \<le> length (map member_of ss)" by simp
  ultimately show ?thesis using assms unfolding members_ok_def by (meson le_trans)
qed

lemma observe_members: "map member_of (observe_slots w now ss) = map member_of ss"
  by (induction ss) (auto simp: member_of_def)

lemma ki_contains_members: "ki_contains l w \<longleftrightarrow> w \<in> set (map dc_witness_key_id (ki_members l))"
  by (auto simp: ki_contains_def ki_members_def member_of_def image_iff)

lemma ki_counts:
  "ki_anchor_count l = length (filter dc_is_anchor (ki_members l))"
  "ki_prefix_count l p = length (filter (\<lambda>m. dc_prefix m = p) (ki_members l))" "length (ki_slots l) = length (ki_members l)"
  by (simp_all add: ki_anchor_count_def ki_prefix_count_def ki_members_def filter_map comp_def member_of_def)

lemma admit_fst:
  "fst (ki_try_admit now c l) \<longleftrightarrow> dc_witness_key_id c \<notin> set (map dc_witness_key_id (ki_members l)) \<and>
     (dc_is_anchor c \<longrightarrow> length (filter dc_is_anchor (ki_members l)) < ki_anchor_capacity l) \<and> length (ki_members l) < ki_capacity l \<and>
     length (filter (\<lambda>m. dc_prefix m = dc_prefix c) (ki_members l)) < ki_max_per_prefix l"
  unfolding ki_try_admit_def ki_contains_members ki_counts by auto

lemma admit_snd:
  "ki_members (snd (ki_try_admit now c l)) = (if fst (ki_try_admit now c l) then ki_members l @ [c] else ki_members l)"
  "same_caps l (snd (ki_try_admit now c l))"
  by (auto simp: ki_try_admit_def ki_members_def member_of_def same_caps_def)

interpretation ki: bounded_admission ki_inv ki_members "\<lambda>l c. snd (ki_try_admit now c l)" "\<lambda>l c. \<not> fst (ki_try_admit now c l)" for now
proof
  show "ki_inv (snd (ki_try_admit now c l))" if "ki_inv l" for l c
    using that admit_fst [of now c l] admit_snd [where now = now and c = c and l = l] by (auto simp: ki_inv_def members_ok_def same_caps_def)
  show "ki_members (snd (ki_try_admit now c l)) = (if \<not> fst (ki_try_admit now c l) then ki_members l else ki_members l @ [c])" for l c
    by (simp add: admit_snd)
  show "\<not> fst (ki_try_admit now c (snd (ki_try_admit now d l)))" if "\<not> fst (ki_try_admit now c l)" for l c d
    using that admit_snd [where now = now and c = d and l = l] by (auto simp: admit_fst same_caps_def)
  show "\<not> fst (ki_try_admit now c (snd (ki_try_admit now c l)))" for l c
    using admit_snd [where now = now and c = c and l = l] by (cases "fst (ki_try_admit now c l)") (auto simp: admit_fst same_caps_def)
qed

lemma admit_all_foldl: "snd (admit_all now cs l) = foldl (\<lambda>l c. snd (ki_try_admit now c l)) l cs"
  by (induction cs arbitrary: l) (auto split: prod.splits, metis snd_conv)

lemma admit_all_caps: "same_caps l (foldl (\<lambda>l c. snd (ki_try_admit now c l)) l cs)"
  by (induction cs arbitrary: l) (auto intro: same_caps_trans admit_snd(2))

lemma note_candidate_keeps: "ki_members (note_candidate now l c) = ki_members l" "same_caps l (note_candidate now l c)"
  by (auto simp: note_candidate_def observe_def ki_members_def observe_members same_caps_def Let_def)

lemma note_all_keeps: "ki_members (foldl (note_candidate now) l cs) = ki_members l" "same_caps l (foldl (note_candidate now) l cs)"
  by (induction cs arbitrary: l) (auto simp: note_candidate_keeps(1) intro: same_caps_trans [OF note_candidate_keeps(2)])

lemma confirm_due_keeps: "ki_members (snd (confirm_due now l)) = ki_members l" "same_caps l (snd (confirm_due now l))"
  by (auto simp: confirm_due_def ki_members_def member_of_def same_caps_def)

lemma prune_stale_keeps:
  assumes "prune_stale now l = Some (removed, l')"
  shows "\<exists>P. ki_slots l' = filter P (ki_slots l)" "same_caps l l'"
  using assms by (auto simp: prune_stale_def Let_def same_caps_def)

text \<open>The list a refill starts admitting to, and the candidates in the order it offers them.\<close>

definition refill_start :: "DiscoveredCandidate list \<Rightarrow> time \<Rightarrow> KnownListInner \<Rightarrow> KnownListInner" where
  "refill_start cs now l = (let l = foldl (note_candidate now) l cs in
     l\<lparr>ki_candidate_first_seen := (\<lambda>k. if k \<in> set (map dc_witness_key_id cs) \<or> k \<in> set (map ks_witness_key_id (ki_slots l))
        then ki_candidate_first_seen l k else None)\<rparr>)"

definition refill_order :: "DiscoveredCandidate list \<Rightarrow> time \<Rightarrow> KnownListInner \<Rightarrow> DiscoveredCandidate list" where
  "refill_order cs now l = (let l = refill_start cs now l in
     sort_key (rank_key now l) (filter (\<lambda>c. \<not> ki_contains l (dc_witness_key_id c)) cs))"

lemma refill_eq: "refill cs now l = admit_all now (refill_order cs now l) (refill_start cs now l)"
  by (simp add: refill_def refill_order_def refill_start_def Let_def)

lemma refill_start_keeps: "ki_members (refill_start cs now l) = ki_members l" "same_caps l (refill_start cs now l)"
  using note_all_keeps [where now = now and l = l and cs = cs] by (auto simp: refill_start_def Let_def ki_members_def same_caps_def)

lemma refill_snd: "snd (refill cs now l) = foldl (\<lambda>l c. snd (ki_try_admit now c l)) (refill_start cs now l) (refill_order cs now l)"
  by (simp add: refill_eq admit_all_foldl)

lemma refill_keeps:
  assumes "ki_inv l"
  shows "ki_inv (snd (refill cs now l))" "same_caps l (snd (refill cs now l))"
proof -
  have "ki_inv (refill_start cs now l)" using assms refill_start_keeps [where cs = cs and now = now and l = l] by (simp add: ki_inv_def same_caps_def)
  then show "ki_inv (snd (refill cs now l))" unfolding refill_snd by (rule ki.inv_all)
  show "same_caps l (snd (refill cs now l))"
    unfolding refill_snd using refill_start_keeps(2) admit_all_caps by (rule same_caps_trans)
qed

lemma tick_steps:
  assumes "tick cs now l = Some (rep, l')"
  obtains l2 removed where "prune_stale now (snd (confirm_due now l)) = Some (removed, l2)" "l' = snd (refill cs now l2)"
    "tr_promoted rep = fst (confirm_due now l)" "tr_removed rep = map ks_witness_key_id removed" "tr_admitted rep = fst (refill cs now l2)"
  using assms by (auto simp: tick_def split: prod.splits option.splits)

lemma tick_keeps:
  assumes "tick cs now l = Some (rep, l')"
  shows "ki_inv l \<Longrightarrow> ki_inv l'" "same_caps l l'"
proof -
  from assms obtain l2 removed where p: "prune_stale now (snd (confirm_due now l)) = Some (removed, l2)" "l' = snd (refill cs now l2)"
    by (rule tick_steps)
  obtain P where P: "ki_slots l2 = filter P (ki_slots (snd (confirm_due now l)))" using prune_stale_keeps(1) [OF p(1)] by blast
  have caps: "same_caps l l2" using confirm_due_keeps(2) prune_stale_keeps(2) [OF p(1)] by (rule same_caps_trans)
  have inv2: "ki_inv l2" if "ki_inv l"
    using that confirm_due_keeps(1) [where now = now and l = l] members_ok_filter [of _ _ _ "ki_slots (snd (confirm_due now l))" P] caps
    by (auto simp: ki_inv_def ki_members_def P same_caps_def)
  show "ki_inv l'" if "ki_inv l" using refill_keeps(1) [OF inv2 [OF that]] by (simp add: p(2))
  show "same_caps l l'" unfolding p(2) refill_snd
    using caps refill_start_keeps(2) admit_all_caps by (meson same_caps_trans)
qed


section \<open>Runs\<close>

text \<open>Ticks and the candidates they were offered, newest first, and restarts from whatever was last saved, all
  under one configuration: a restart under a changed one keeps the loaded slots unchecked.\<close>

type_synonym tick_trace = "(time \<times> DiscoveredCandidate list) list"

inductive known_run :: "KnownListConfig \<Rightarrow> tick_trace \<Rightarrow> KnownListInner \<Rightarrow> PersistedKnownList option \<Rightarrow> bool" for cfg where
  start: "known_run cfg [] (load_or_new cfg None) None"
| ticked: "known_run cfg ts l file \<Longrightarrow> handle_tick cs now l file = Some (rep, l', file') \<Longrightarrow> known_run cfg ((now, cs) # ts) l' file'"
| restart: "known_run cfg ts l file \<Longrightarrow> known_run cfg ts (load_or_new cfg file) file"

text \<open>What a tick makes of the slots: a slot is new, offered and unconfirmed unless it is an anchor, or it was there
  before and is confirmed only if it was confirmed before or is due; it is observed when it is offered.\<close>

definition offered :: "DiscoveredCandidate list \<Rightarrow> KnownSlot \<Rightarrow> bool" where
  "offered cs s \<longleftrightarrow> ks_witness_key_id s \<in> dc_witness_key_id ` set cs"

definition new_slot :: "time \<Rightarrow> KnownSlot \<Rightarrow> bool" where
  "new_slot now s \<longleftrightarrow> ks_admitted_at s = now \<and> ks_last_observed_at s = now \<and> (ks_status s = Confirmed \<longleftrightarrow> ks_is_anchor s)"

definition same_slot_as :: "KnownSlot \<Rightarrow> KnownSlot \<Rightarrow> bool" where
  "same_slot_as s s' \<longleftrightarrow> member_of s' = member_of s \<and> ks_admitted_at s' = ks_admitted_at s"

definition observed_as :: "DiscoveredCandidate list \<Rightarrow> time \<Rightarrow> KnownSlot \<Rightarrow> KnownSlot \<Rightarrow> bool" where
  "observed_as cs now s s' \<longleftrightarrow> same_slot_as s s' \<and>
     (ks_last_observed_at s' = ks_last_observed_at s \<or> ks_last_observed_at s' = now \<and> offered cs s')"

lemma observe_slots_from:
  "s' \<in> set (observe_slots w now ss) \<Longrightarrow> \<exists>s\<in>set ss. same_slot_as s s' \<and> ks_status s' = ks_status s \<and>
     (ks_last_observed_at s' = ks_last_observed_at s \<or> ks_last_observed_at s' = now \<and> ks_witness_key_id s' = w)"
  by (induction ss) (auto simp: same_slot_as_def member_of_def split: if_splits)

lemma note_candidate_from:
  "s' \<in> set (ki_slots (note_candidate now l c)) \<Longrightarrow> \<exists>s\<in>set (ki_slots l). observed_as [c] now s s' \<and> ks_status s' = ks_status s"
  using observe_slots_from by (fastforce simp: note_candidate_def observe_def observed_as_def offered_def Let_def split: if_splits)

lemma observed_as_trans:
  assumes "observed_as [c] now s0 s" "observed_as cs now s s'"
  shows "observed_as (c # cs) now s0 s'"
proof -
  have "same_slot_as s0 s'" "ks_witness_key_id s' = ks_witness_key_id s"
    using assms by (auto simp: observed_as_def same_slot_as_def member_of_def)
  then show ?thesis using assms by (auto simp: observed_as_def offered_def image_iff)
qed

lemma note_all_from:
  "s' \<in> set (ki_slots (foldl (note_candidate now) l cs)) \<Longrightarrow> \<exists>s\<in>set (ki_slots l). observed_as cs now s s' \<and> ks_status s' = ks_status s"
proof (induction cs arbitrary: l)
  case Nil
  then show ?case by (auto simp: observed_as_def same_slot_as_def)
next
  case (Cons c cs)
  then obtain s where "s \<in> set (ki_slots (note_candidate now l c))" "observed_as cs now s s'" "ks_status s' = ks_status s" by fastforce
  moreover from note_candidate_from [OF this(1)] obtain s0 where "s0 \<in> set (ki_slots l)" "observed_as [c] now s0 s" "ks_status s = ks_status s0"
    by blast
  ultimately show ?case using observed_as_trans [of c now s0 s cs s'] by auto
qed

lemma admit_from: "s' \<in> set (ki_slots (snd (ki_try_admit now c l))) \<Longrightarrow> s' \<in> set (ki_slots l) \<or> new_slot now s' \<and> offered [c] s'"
  by (auto simp: ki_try_admit_def new_slot_def offered_def split: if_splits)

lemma admit_all_from:
  "s' \<in> set (ki_slots (foldl (\<lambda>l c. snd (ki_try_admit now c l)) l cs)) \<Longrightarrow> s' \<in> set (ki_slots l) \<or> new_slot now s' \<and> offered cs s'"
proof (induction cs arbitrary: l)
  case (Cons c cs)
  from Cons.IH [of "snd (ki_try_admit now c l)"] Cons.prems admit_from [of s' now c l] show ?case by (auto simp: offered_def)
qed simp

lemma tick_from:
  assumes "tick cs now l = Some (rep, l')" "s' \<in> set (ki_slots l')"
  shows "new_slot now s' \<and> offered cs s' \<or> (\<exists>s\<in>set (ki_slots l). observed_as cs now s s' \<and>
    (ks_status s' = Confirmed \<longrightarrow> ks_status s = Confirmed \<or> due l now s))"
proof -
  from assms(1) obtain l2 removed where p: "prune_stale now (snd (confirm_due now l)) = Some (removed, l2)" "l' = snd (refill cs now l2)"
    by (rule tick_steps)
  have "set (refill_order cs now l2) \<subseteq> set cs" by (auto simp: refill_order_def Let_def)
  then have "s' \<in> set (ki_slots (refill_start cs now l2)) \<or> new_slot now s' \<and> offered cs s'"
    using assms(2) admit_all_from unfolding p(2) refill_snd offered_def by blast
  moreover have "\<exists>s\<in>set (ki_slots l). observed_as cs now s s' \<and> (ks_status s' = Confirmed \<longrightarrow> ks_status s = Confirmed \<or> due l now s)"
    if "s' \<in> set (ki_slots (refill_start cs now l2))"
  proof -
    from that obtain s2 where s2: "s2 \<in> set (ki_slots l2)" "observed_as cs now s2 s'" "ks_status s' = ks_status s2"
      using note_all_from by (fastforce simp: refill_start_def Let_def)
    then have "s2 \<in> set (ki_slots (snd (confirm_due now l)))" using prune_stale_keeps(1) [OF p(1)] by auto
    then obtain s where "s \<in> set (ki_slots l)" "s2 = (if due l now s then s\<lparr>ks_status := Confirmed\<rparr> else s)"
      by (auto simp: confirm_due_def)
    with s2 show ?thesis by (intro bexI [of _ s]) (auto simp: observed_as_def same_slot_as_def member_of_def split: if_splits)
  qed
  ultimately show ?thesis by blast
qed

text \<open>A tick of the trace at time \<open>t\<close> that offered the slot's witness.\<close>

definition seen_at :: "tick_trace \<Rightarrow> KnownSlot \<Rightarrow> time \<Rightarrow> bool" where
  "seen_at ts s t \<longleftrightarrow> (\<exists>cs. (t, cs) \<in> set ts \<and> offered cs s)"

definition earned :: "KnownListConfig \<Rightarrow> tick_trace \<Rightarrow> KnownSlot \<Rightarrow> bool" where
  "earned cfg ts s \<longleftrightarrow> seen_at ts s (ks_admitted_at s) \<and> seen_at ts s (ks_last_observed_at s) \<and>
     (ks_status s = Confirmed \<and> \<not> ks_is_anchor s \<longrightarrow>
      (\<exists>later t cs earlier. ts = later @ (t, cs) # earlier \<and> seen_at earlier s (ks_admitted_at s) \<and>
         ks_admitted_at s + kc_probation_window cfg \<le> t \<and> (\<exists>t0. seen_at earlier s t0 \<and> t \<le> t0 + kc_freshness_window cfg)))"

definition list_ok :: "KnownListConfig \<Rightarrow> tick_trace \<Rightarrow> KnownListInner \<Rightarrow> bool" where
  "list_ok cfg ts l \<longleftrightarrow> same_caps (ki_new cfg) l \<and> ki_inv l \<and> (\<forall>s\<in>set (ki_slots l). earned cfg ts s)"

lemma list_ok_new: "list_ok cfg ts (from_persisted cfg [])"
  by (simp add: list_ok_def from_persisted_def same_caps_def ki_inv_def members_ok_def ki_members_def ki_new_def)

lemma list_ok_reload: "list_ok cfg ts l \<Longrightarrow> list_ok cfg ts (load_or_new cfg (Some (save l)))"
  by (auto simp: list_ok_def load_or_new_def load_slots_def save_def from_persisted_def same_caps_def ki_inv_def ki_members_def)

lemma earned_mono: "earned cfg ts s \<Longrightarrow> earned cfg (x # ts) s"
  unfolding earned_def seen_at_def by (metis append_Cons list.set_intros(2))

lemma seen_at_same: "same_slot_as s s' \<Longrightarrow> seen_at ts s' t = seen_at ts s t"
  by (auto simp: seen_at_def offered_def same_slot_as_def member_of_def)

lemma earned_kept:
  assumes "earned cfg ts s" "observed_as cs now s s'" "ks_status s' = Confirmed \<longrightarrow> ks_status s = Confirmed \<or> due l now s"
    and "same_caps (ki_new cfg) l"
  shows "earned cfg ((now, cs) # ts) s'"
proof -
  have same: "same_slot_as s s'" "ks_admitted_at s' = ks_admitted_at s" "ks_is_anchor s' = ks_is_anchor s"
    using assms(2) by (simp_all add: observed_as_def same_slot_as_def member_of_def)
  note seen = seen_at_same [OF same(1)]
  have up: "earned cfg ((now, cs) # ts) s" using assms(1) by (rule earned_mono)
  have obs: "seen_at ((now, cs) # ts) s' (ks_last_observed_at s')"
  proof (cases "ks_last_observed_at s' = ks_last_observed_at s")
    case True
    then show ?thesis using up seen by (simp add: earned_def)
  next
    case False
    then have "ks_last_observed_at s' = now" "offered cs s'" using assms(2) by (simp_all add: observed_as_def)
    then show ?thesis by (auto simp: seen_at_def)
  qed
  have "\<exists>later t cs' earlier. (now, cs) # ts = later @ (t, cs') # earlier \<and> seen_at earlier s (ks_admitted_at s) \<and>
         ks_admitted_at s + kc_probation_window cfg \<le> t \<and> (\<exists>t0. seen_at earlier s t0 \<and> t \<le> t0 + kc_freshness_window cfg)"
    if "ks_status s' = Confirmed" "\<not> ks_is_anchor s"
  proof (cases "ks_status s = Confirmed")
    case True
    then show ?thesis using up that(2) by (simp add: earned_def)
  next
    case False
    then have "due l now s" using assms(3) that(1) by simp
    then have "ks_admitted_at s + kc_probation_window cfg \<le> now" "now \<le> ks_last_observed_at s + kc_freshness_window cfg"
      using assms(4) by (auto simp: due_def same_caps_def ki_new_def)
    then show ?thesis using assms(1) unfolding earned_def by (intro exI [of _ "[]"]) auto
  qed
  then show ?thesis using up obs same seen unfolding earned_def by simp
qed

lemma list_ok_tick:
  assumes "list_ok cfg ts l" "tick cs now l = Some (rep, l')"
  shows "list_ok cfg ((now, cs) # ts) l'"
proof -
  have "earned cfg ((now, cs) # ts) s'" if "s' \<in> set (ki_slots l')" for s'
    using tick_from [OF assms(2) that]
  proof (elim disjE bexE conjE)
    assume "new_slot now s'" "offered cs s'"
    then show ?thesis by (auto simp: new_slot_def earned_def seen_at_def)
  qed (use assms(1) in \<open>auto simp: list_ok_def intro: earned_kept\<close>)
  moreover have "same_caps (ki_new cfg) l'" using assms tick_keeps(2) same_caps_trans unfolding list_ok_def by blast
  ultimately show ?thesis using assms tick_keeps(1) by (auto simp: list_ok_def)
qed

lemma list_ok_mono: "list_ok cfg ts l \<Longrightarrow> list_ok cfg (x # ts) l"
  by (auto simp: list_ok_def intro: earned_mono)

lemma known_run_ok:
  assumes "known_run cfg ts l file"
  shows "list_ok cfg ts l \<and> list_ok cfg ts (load_or_new cfg file)"
  using assms
proof induction
  case start
  then show ?case by (simp add: load_or_new_def load_slots_def list_ok_new)
next
  case (ticked ts l fl cs now rep l' fl')
  from ticked.hyps(2) have t: "tick cs now l = Some (rep, l')" and f: "fl' = (if changed rep then Some (save l') else fl)"
    by (auto simp: handle_tick_def)
  have "list_ok cfg ((now, cs) # ts) l'" using list_ok_tick t ticked.IH by blast
  then show ?case using f list_ok_reload list_ok_mono ticked.IH by auto
qed auto

lemma eclipse:
  assumes "members_ok cap anchors per_prefix ms" "finite A"
  shows "length (filter (\<lambda>m. dc_prefix m \<in> A) ms) \<le> per_prefix * card A"
  using assms(2)
proof induction
  case (insert p A)
  have "length (filter (\<lambda>m. dc_prefix m \<in> insert p A) ms) = length (filter (\<lambda>m. dc_prefix m = p) ms) + length (filter (\<lambda>m. dc_prefix m \<in> A) ms)"
    using insert(2) by (induction ms) auto
  moreover have "length (filter (\<lambda>m. dc_prefix m = p) ms) \<le> per_prefix" using assms(1) by (simp add: members_ok_def)
  ultimately show ?case using insert by simp
qed simp

text \<open>C25. Over every run of ticks and restarts under one configuration the list stays inside its bounds: its capacity, the
  share of anchors, the cap per address prefix, and one slot per witness. An attacker that controls the
  addresses of a set of prefixes never holds more slots than that many times the cap.\<close>

theorem known_list_run_bounded:
  assumes "known_run cfg ts l file"
  shows "length (ki_slots l) \<le> kc_capacity cfg \<and> length (filter ks_is_anchor (ki_slots l)) \<le> min (kc_anchor_capacity cfg) (kc_capacity cfg) \<and>
    distinct (map ks_witness_key_id (ki_slots l)) \<and>
    (\<forall>A. finite A \<longrightarrow> length (filter (\<lambda>s. ks_prefix s \<in> A) (ki_slots l)) \<le> kc_max_per_prefix cfg * card A)"
proof -
  have ok: "members_ok (kc_capacity cfg) (min (kc_anchor_capacity cfg) (kc_capacity cfg)) (kc_max_per_prefix cfg) (map member_of (ki_slots l))"
    using known_run_ok [OF assms] by (auto simp: list_ok_def ki_inv_def same_caps_def ki_new_def ki_members_def)
  from eclipse [OF ok] ok show ?thesis by (simp add: members_ok_def filter_map comp_def member_of_def)
qed

text \<open>C26. Majority weight is earned by tenure. In every run of ticks and restarts under one configuration, a
  witness that is not an anchor counts toward the majority only after a tick that came at least the probation
  window after the earlier tick that admitted it, and at which it had last been offered by discovery within the
  freshness window: a burst of identities registered at once has no weight until then, and one that fell silent
  is not confirmed. Anchors count at once.\<close>

theorem confirmed_after_probation:
  assumes "known_run cfg ts l file" and "s \<in> set (ki_slots l)" and "ks_status s = Confirmed" and "\<not> ks_is_anchor s"
  shows "\<exists>later t cs earlier. ts = later @ (t, cs) # earlier \<and>
    (\<exists>cs0. (ks_admitted_at s, cs0) \<in> set earlier \<and> ks_witness_key_id s \<in> dc_witness_key_id ` set cs0) \<and>
    ks_admitted_at s + kc_probation_window cfg \<le> t \<and>
    (\<exists>t1 cs1. (t1, cs1) \<in> set earlier \<and> ks_witness_key_id s \<in> dc_witness_key_id ` set cs1 \<and> t \<le> t1 + kc_freshness_window cfg)"
proof -
  have "earned cfg ts s" using known_run_ok [OF assms(1)] assms(2) by (auto simp: list_ok_def)
  then obtain later t cs earlier where "ts = later @ (t, cs) # earlier" "seen_at earlier s (ks_admitted_at s)"
    "ks_admitted_at s + kc_probation_window cfg \<le> t" "\<exists>t0. seen_at earlier s t0 \<and> t \<le> t0 + kc_freshness_window cfg"
    using assms(3,4) unfolding earned_def by blast
  then show ?thesis unfolding seen_at_def offered_def by blast
qed

text \<open>A refill leaves no room unused: every offered candidate is a member afterwards or the list still refuses it, because
  of the capacity, the anchor share or the cap of its prefix. Members present before stay.\<close>

theorem refill_maximal:
  "(\<forall>c\<in>set cs. dc_witness_key_id c \<in> set (map ks_witness_key_id (ki_slots (snd (refill cs now l)))) \<or>
      \<not> fst (ki_try_admit now c (snd (refill cs now l)))) \<and>
   (\<exists>new. ki_members (snd (refill cs now l)) = ki_members l @ new \<and> set new \<subseteq> set cs)"
proof -
  let ?s = "refill_start cs now l" and ?cs = "refill_order cs now l"
  let ?l' = "foldl (\<lambda>l c. snd (ki_try_admit now c l)) ?s ?cs"
  obtain new where new: "ki_members ?l' = ki_members ?s @ new" "set new \<subseteq> set ?cs" using ki.contents_all by blast
  have order: "set ?cs = {c \<in> set cs. \<not> ki_contains ?s (dc_witness_key_id c)}" by (auto simp: refill_order_def Let_def)
  have "dc_witness_key_id c \<in> set (map ks_witness_key_id (ki_slots ?l')) \<or> \<not> fst (ki_try_admit now c ?l')" if "c \<in> set cs" for c
  proof (cases "ki_contains ?s (dc_witness_key_id c)")
    case True
    then have "dc_witness_key_id c \<in> set (map dc_witness_key_id (ki_members ?l'))" by (auto simp: ki_contains_members new(1))
    then show ?thesis by (auto simp: ki_members_def member_of_def)
  next
    case False
    with that order have "c \<in> set ?cs" by simp
    then show ?thesis using ki.all_decided by blast
  qed
  then show ?thesis using new order refill_start_keeps(1) [of cs now l] unfolding refill_snd by auto
qed

section \<open>Restarting\<close>

text \<open>A tick that reports no change: the handle writes no file.\<close>

inductive quiet_tick :: "KnownListInner \<times> PersistedKnownList option \<Rightarrow> KnownListInner \<times> PersistedKnownList option \<Rightarrow> bool" where
  quiet: "handle_tick cs now l file = Some (rep, l', file') \<Longrightarrow> \<not> changed rep \<Longrightarrow> quiet_tick (l, file) (l', file')"

lemma admit_all_none: "fst (admit_all now cs l) = [] \<Longrightarrow> ki_members (snd (admit_all now cs l)) = ki_members l"
proof (induction cs arbitrary: l)
  case (Cons c cs)
  obtain ok l1 where a: "ki_try_admit now c l = (ok, l1)" by fastforce
  obtain ids l2 where b: "admit_all now cs l1 = (ids, l2)" by fastforce
  have "\<not> ok" "ids = []" using Cons.prems a b by (auto split: if_splits)
  then show ?case using Cons.IH [of l1] a b admit_snd(1) [of now c l] by simp
qed simp

lemma quiet_tick_keeps:
  assumes "quiet_tick (l, file) (l', file')"
  shows "file' = file" "ki_members l' = ki_members l" "same_caps l l'"
proof -
  from assms obtain cs now rep where t: "tick cs now l = Some (rep, l')" and q: "\<not> changed rep" and f: "file' = (if changed rep then Some (save l') else file)"
    by (cases) (auto simp: handle_tick_def)
  show "file' = file" using f q by simp
  show "same_caps l l'" using tick_keeps(2) [OF t] .
  from t obtain l2 removed where p: "prune_stale now (snd (confirm_due now l)) = Some (removed, l2)" "l' = snd (refill cs now l2)"
    "tr_removed rep = map ks_witness_key_id removed" "tr_admitted rep = fst (refill cs now l2)" by (rule tick_steps)
  have "removed = []" "fst (refill cs now l2) = []" using q p(3,4) by (simp_all add: changed_def)
  then have "ki_members l' = ki_members (refill_start cs now l2)" "ki_slots l2 = ki_slots (snd (confirm_due now l))"
    using p(1,2) admit_all_none by (auto simp: refill_eq prune_stale_def Let_def filter_empty_conv filter_id_conv)
  then show "ki_members l' = ki_members l"
    using refill_start_keeps(1) [of cs now l2] confirm_due_keeps(1) [of now l] by (simp add: ki_members_def)
qed

lemma quiet_run_keeps:
  assumes "quiet_tick\<^sup>*\<^sup>* (l, file) (l', file')"
  shows "file' = file \<and> ki_members l' = ki_members l \<and> same_caps l l'"
  using assms
proof (induction "(l', file')" arbitrary: l' file' rule: rtranclp_induct)
  case (step y)
  obtain l2 f2 where y: "y = (l2, f2)" by fastforce
  show ?case using step.hyps(3) [OF y] quiet_tick_keeps [OF step.hyps(2) [unfolded y]] same_caps_trans by auto
qed simp

text \<open>A list all of whose slots are older than the window loses them at its next tick.\<close>

lemma tick_drops_old:
  assumes "ki_freshness_window l = int secs * 1000000000" "secs \<le> MAX_SAFE_INTEGER"
    and "\<forall>s\<in>set (ki_slots l). ks_last_observed_at s + ki_freshness_window l < now"
  shows "\<exists>rep l'. tick cs now l = Some (rep, l') \<and> tr_removed rep = map ks_witness_key_id (ki_slots l) \<and> (\<forall>s\<in>set (ki_slots l'). new_slot now s)"
proof -
  have "\<not> due l now s" if "s \<in> set (ki_slots l)" for s using that assms(3) by (fastforce simp: due_def)
  then have c: "confirm_due now l = ([], l)" by (simp add: confirm_due_def filter_empty_conv map_idI)
  obtain w where w: "effective_freshness_window l (length (filter (\<lambda>s. ks_status s = Confirmed) (ki_slots l))) = Some w" "w \<le> ki_freshness_window l"
    using effective_window_bound [OF assms(1,2)] by blast
  have "stale l w now s" if "s \<in> set (ki_slots l)" for s using assms(3) that w(2) by (fastforce simp: stale_def)
  then obtain l2 where p: "prune_stale now l = Some (ki_slots l, l2)" "ki_slots l2 = []"
    using w(1) by (auto simp: prune_stale_def Let_def filter_empty_conv)
  obtain ids l' where r: "refill cs now l2 = (ids, l')" by fastforce
  have "new_slot now s" if "s \<in> set (ki_slots l')" for s
  proof -
    have "l' = snd (refill cs now l2)" by (simp add: r)
    with that have "s \<in> set (ki_slots (refill_start cs now l2)) \<or> new_slot now s" unfolding refill_snd using admit_all_from by blast
    moreover have "ki_slots (refill_start cs now l2) = []"
      using refill_start_keeps(1) [of cs now l2] p(2) by (simp add: ki_members_def)
    ultimately show ?thesis by simp
  qed
  then show ?thesis using c p r by (auto simp: tick_def)
qed

text \<open>A list all of whose slots were observed at the time of the tick loses none.\<close>

lemma confirm_due_fresh:
  "\<forall>s\<in>set (ki_slots l). ks_last_observed_at s = now \<Longrightarrow> \<forall>s\<in>set (ki_slots (snd (confirm_due now l))). ks_last_observed_at s = now"
  by (auto simp: confirm_due_def)

lemma effective_window_nonneg: "effective_freshness_window l n = Some w \<Longrightarrow> 0 \<le> ki_freshness_window l \<Longrightarrow> 0 \<le> w"
  by (auto simp: effective_freshness_window_def mul_f64_def from_secs_f64_def Let_def split: if_splits)

lemma tick_keeps_fresh:
  assumes "ki_freshness_window l = int secs * 1000000000" "secs \<le> MAX_SAFE_INTEGER" "\<forall>s\<in>set (ki_slots l). ks_last_observed_at s = now"
  shows "\<exists>rep l'. tick cs now l = Some (rep, l') \<and> tr_removed rep = []"
proof -
  obtain pr l1 where c: "confirm_due now l = (pr, l1)" by fastforce
  have caps: "ki_freshness_window l1 = int secs * 1000000000" using confirm_due_keeps(2) [of l now] c assms(1) by (simp add: same_caps_def)
  then obtain w where w: "effective_freshness_window l1 (length (filter (\<lambda>s. ks_status s = Confirmed) (ki_slots l1))) = Some w"
    using effective_window_bound [OF _ assms(2)] by blast
  have "0 \<le> w" using effective_window_nonneg [OF w] caps by simp
  then have "\<not> stale l1 w now s" if "s \<in> set (ki_slots l1)" for s
    using confirm_due_fresh [OF assms(3)] c that caps by (auto simp: stale_def)
  then have "\<exists>l2. prune_stale now l1 = Some ([], l2)" using w by (simp add: prune_stale_def Let_def filter_empty_conv)
  then show ?thesis using c by (auto simp: tick_def split: prod.splits)
qed

text \<open>C37. A list that has settled does not survive a restart. Take any reachable list, a tick at \<open>t0\<close> that changes its
  membership and so writes the file, and then any number of ticks that report no change, however recent their
  observations. After a restart later than the freshness window past \<open>t0\<close> the first tick removes every member, and all
  members left are new, so that none but the anchors counts; the running node, its members observed at that time, would
  have lost none of them. The file is written only when membership changes, and with it the times of observation.\<close>

theorem restart_drops_settled_list:
  assumes "known_run cfg ts l0 f0" and "\<forall>(t, _)\<in>set ts. t \<le> t0" and "handle_tick cs0 t0 l0 f0 = Some (rep0, l1, f1)" and "changed rep0"
    and "quiet_tick\<^sup>*\<^sup>* (l1, f1) (l2, f2)"
    and "kc_freshness_window cfg = int secs * 1000000000" and "secs \<le> MAX_SAFE_INTEGER" and "t0 + kc_freshness_window cfg < now"
  shows "(\<exists>rep l' f'. handle_tick cs now (load_or_new cfg f2) f2 = Some (rep, l', f') \<and>
      tr_removed rep = map ks_witness_key_id (ki_slots l2) \<and> (\<forall>s\<in>set (ki_slots l'). new_slot now s)) \<and>
    ((\<forall>s\<in>set (ki_slots l2). ks_last_observed_at s = now) \<longrightarrow>
      (\<exists>rep l' f'. handle_tick cs now l2 f2 = Some (rep, l', f') \<and> tr_removed rep = []))"
proof -
  from assms(3,4) have t: "tick cs0 t0 l0 = Some (rep0, l1)" and f1: "f1 = Some (save l1)" by (auto simp: handle_tick_def)
  have ok: "list_ok cfg ((t0, cs0) # ts) l1" using list_ok_tick [OF _ t] known_run_ok [OF assms(1)] by blast
  have q: "f2 = f1" "ki_members l2 = ki_members l1" "same_caps l1 l2" using quiet_run_keeps [OF assms(5)] by simp_all
  have ids: "map ks_witness_key_id (ki_slots l2) = map ks_witness_key_id (ki_slots l1)"
    using arg_cong [OF q(2), of "map dc_witness_key_id"] by (simp add: ki_members_def member_of_def comp_def)
  let ?l = "load_or_new cfg f2"
  have l: "ki_slots ?l = ki_slots l1" "ki_freshness_window ?l = kc_freshness_window cfg"
    by (simp_all add: q(1) f1 load_or_new_def load_slots_def from_persisted_def save_def ki_new_def)
  have "ks_last_observed_at s \<le> t0" if "s \<in> set (ki_slots l1)" for s
    using ok that assms(2) by (fastforce simp: list_ok_def earned_def seen_at_def)
  then have "\<forall>s\<in>set (ki_slots ?l). ks_last_observed_at s + ki_freshness_window ?l < now" using assms(8) l by fastforce
  from tick_drops_old [OF _ assms(7) this, of cs] assms(6) l ids
  have "\<exists>rep l' f'. handle_tick cs now ?l f2 = Some (rep, l', f') \<and> tr_removed rep = map ks_witness_key_id (ki_slots l2) \<and>
      (\<forall>s\<in>set (ki_slots l'). new_slot now s)" by (auto simp: handle_tick_def)
  moreover have "ki_freshness_window l2 = int secs * 1000000000"
    using q(3) ok assms(6) by (simp add: list_ok_def same_caps_def ki_new_def)
  then have "\<exists>rep l' f'. handle_tick cs now l2 f2 = Some (rep, l', f') \<and> tr_removed rep = []"
    if "\<forall>s\<in>set (ki_slots l2). ks_last_observed_at s = now"
    using tick_keeps_fresh [OF _ assms(7) that, of cs] by (auto simp: handle_tick_def)
  ultimately show ?thesis by blast
qed

section \<open>Witnesses\<close>

definition demo_candidate :: DiscoveredCandidate where
  "demo_candidate = \<lparr>dc_witness_key_id = ''w1'', dc_prefix = ''v4:10.0.0.0/24'', dc_is_anchor = False\<rparr>"

definition demo_list_config :: KnownListConfig where
  "demo_list_config = default_config\<lparr>kc_probation_window := 5\<rparr>"

definition demo_slot :: "time \<Rightarrow> SlotStatus \<Rightarrow> KnownSlot" where
  "demo_slot seen st = \<lparr>ks_witness_key_id = ''w1'', ks_prefix = ''v4:10.0.0.0/24'', ks_is_anchor = False, ks_admitted_at = 0,
     ks_last_observed_at = seen, ks_status = st\<rparr>"

lemmas demo_list_simps = handle_tick_def tick_def confirm_due_def prune_stale_def refill_def note_candidate_def observe_def ki_contains_def
  load_or_new_def load_slots_def from_persisted_def ki_new_def effective_freshness_window_def ki_try_admit_def ki_prefix_count_def
  due_def stale_def demo_list_config_def default_config_def demo_candidate_def demo_slot_def changed_def nanos_per_sec_def

lemma demo_tick_admits:
  "\<exists>rep l' f. handle_tick [demo_candidate] 0 (load_or_new demo_list_config None) None = Some (rep, l', f) \<and> ki_slots l' = [demo_slot 0 Probationary] \<and>
     same_caps (ki_new demo_list_config) l'"
  by (simp add: demo_list_simps same_caps_def)

abbreviation demo_trace :: tick_trace where
  "demo_trace \<equiv> [(7, [demo_candidate]), (0, [demo_candidate])]"

lemma demo_windows:
  "same_caps (ki_new demo_list_config) l \<Longrightarrow> ki_freshness_window l = 600000000000 \<and> ki_probation_window l = 5"
  by (simp add: same_caps_def demo_list_simps)

lemma demo_refill:
  "ki_slots (l :: KnownListInner) = [demo_slot t Confirmed] \<Longrightarrow> fst (refill [demo_candidate] now l) = [] \<and>
     ki_slots (snd (refill [demo_candidate] now l)) = [demo_slot now Confirmed]"
  by (simp add: refill_def note_candidate_def observe_def ki_contains_def demo_candidate_def demo_slot_def Let_def)

lemma demo_tick_confirmed:
  assumes "ki_slots l = [demo_slot t st]" "same_caps (ki_new demo_list_config) l" "st = Probationary \<longrightarrow> 5 \<le> now" "now - t \<le> 600000000000"
  shows "\<exists>rep l'. tick [demo_candidate] now l = Some (rep, l') \<and> ki_slots l' = [demo_slot now Confirmed] \<and> changed rep = (st = Probationary)"
proof -
  let ?l1 = "l\<lparr>ki_slots := [demo_slot t Confirmed]\<rparr>"
  note w = demo_windows [OF assms(2)]
  have same: "l\<lparr>ki_slots := [demo_slot t st]\<rparr> = l" using assms(1) by simp
  have c: "confirm_due now l = (if st = Probationary then [''w1''] else [], ?l1)"
    using w assms(1,3,4) same by (cases st) (auto simp: confirm_due_def due_def demo_slot_def)
  have stat: "\<not> stale ?l1 600000000000 now (demo_slot t Confirmed)" "ks_status (demo_slot t Confirmed) = Confirmed"
    using assms(4) by (simp_all add: stale_def demo_slot_def)
  have "effective_freshness_window ?l1 (Suc 0) = Some 600000000000" using w by (simp add: effective_freshness_window_def)
  then have p: "prune_stale now ?l1 = Some ([], ?l1)" using stat by (simp add: prune_stale_def Let_def)
  obtain ids l' where "refill [demo_candidate] now ?l1 = (ids, l')" by fastforce
  with demo_refill [of ?l1 t now] c p show ?thesis by (auto simp: tick_def changed_def)
qed

lemma demo_known_run:
  "\<exists>l0 f0 rep l f. known_run demo_list_config [(0, [demo_candidate])] l0 f0 \<and> handle_tick [demo_candidate] 7 l0 f0 = Some (rep, l, f) \<and>
     changed rep \<and> known_run demo_list_config demo_trace l f \<and> ki_slots l = [demo_slot 7 Confirmed]"
proof -
  obtain rep l f where a: "handle_tick [demo_candidate] 0 (load_or_new demo_list_config None) None = Some (rep, l, f)"
    "ki_slots l = [demo_slot 0 Probationary]" "same_caps (ki_new demo_list_config) l" using demo_tick_admits by blast
  have r: "known_run demo_list_config [(0, [demo_candidate])] l f" using known_run.ticked [OF known_run.start a(1)] .
  obtain rep' l' f' where b: "handle_tick [demo_candidate] 7 l f = Some (rep', l', f')" "ki_slots l' = [demo_slot 7 Confirmed]" "changed rep'"
    using demo_tick_confirmed [OF a(2,3), of 7] by (auto simp: handle_tick_def)
  with r known_run.ticked [OF r b(1)] show ?thesis by blast
qed

lemma demo_quiet:
  assumes "ki_slots l = [demo_slot t Confirmed]" "same_caps (ki_new demo_list_config) l" "now - t \<le> 600000000000"
  shows "\<exists>l'. quiet_tick (l, f) (l', f) \<and> ki_slots l' = [demo_slot now Confirmed] \<and> same_caps (ki_new demo_list_config) l'"
proof -
  obtain rep l' where t: "tick [demo_candidate] now l = Some (rep, l')" "ki_slots l' = [demo_slot now Confirmed]" "\<not> changed rep"
    using demo_tick_confirmed [OF assms(1,2) _ assms(3)] by auto
  then have "handle_tick [demo_candidate] now l f = Some (rep, l', f)" by (simp add: handle_tick_def)
  then have "quiet_tick (l, f) (l', f)" using t(3) by (rule quiet_tick.quiet)
  moreover have "same_caps (ki_new demo_list_config) l'" using same_caps_trans [OF assms(2) tick_keeps(2) [OF t(1)]] .
  ultimately show ?thesis using t(2) by blast
qed

theorem known_list_run_bounded_witness:
  "\<exists>l f. known_run demo_list_config demo_trace l f \<and> length (ki_slots l) = 1 \<and> length (ki_slots l) \<le> kc_capacity demo_list_config \<and>
     length (filter (\<lambda>s. ks_prefix s \<in> {''v4:10.0.0.0/24''}) (ki_slots l)) \<le> kc_max_per_prefix demo_list_config"
proof -
  obtain l f where r: "known_run demo_list_config demo_trace l f" "ki_slots l = [demo_slot 7 Confirmed]" using demo_known_run by blast
  have "length (filter (\<lambda>s. ks_prefix s \<in> {''v4:10.0.0.0/24''}) (ki_slots l)) \<le> kc_max_per_prefix demo_list_config * card {''v4:10.0.0.0/24''}"
    using known_list_run_bounded [OF r(1)] by blast
  with known_list_run_bounded [OF r(1)] r show ?thesis by auto
qed

theorem confirmed_after_probation_witness:
  "\<exists>l f s. known_run demo_list_config demo_trace l f \<and> s \<in> set (ki_slots l) \<and> ks_status s = Confirmed \<and> \<not> ks_is_anchor s \<and>
     (\<exists>later t cs earlier. demo_trace = later @ (t, cs) # earlier \<and> ks_admitted_at s + kc_probation_window demo_list_config \<le> t \<and>
        (\<exists>t1 cs1. (t1, cs1) \<in> set earlier \<and> ks_witness_key_id s \<in> dc_witness_key_id ` set cs1 \<and> t \<le> t1 + kc_freshness_window demo_list_config))"
proof -
  obtain l f where r: "known_run demo_list_config demo_trace l f" "ki_slots l = [demo_slot 7 Confirmed]" using demo_known_run by blast
  have s: "demo_slot 7 Confirmed \<in> set (ki_slots l)" "ks_status (demo_slot 7 Confirmed) = Confirmed" "\<not> ks_is_anchor (demo_slot 7 Confirmed)"
    by (simp_all add: r(2) demo_slot_def)
  from confirmed_after_probation [OF r(1) s] have "\<exists>later t cs earlier. demo_trace = later @ (t, cs) # earlier \<and>
      ks_admitted_at (demo_slot 7 Confirmed) + kc_probation_window demo_list_config \<le> t \<and>
      (\<exists>t1 cs1. (t1, cs1) \<in> set earlier \<and> ks_witness_key_id (demo_slot 7 Confirmed) \<in> dc_witness_key_id ` set cs1 \<and>
         t \<le> t1 + kc_freshness_window demo_list_config)" by blast
  with r(1) s show ?thesis by blast
qed

text \<open>Witness: a list confirmed at 7 and observed 500 and 900 seconds later, restarted at that time.\<close>

theorem restart_drops_settled_list_witness:
  "\<exists>l1 f l2 rep l' f' rep2 m f2. known_run demo_list_config demo_trace l1 f \<and> quiet_tick\<^sup>*\<^sup>* (l1, f) (l2, f) \<and>
     ki_slots l2 = [demo_slot 900000000000 Confirmed] \<and>
     handle_tick [demo_candidate] 900000000000 (load_or_new demo_list_config f) f = Some (rep, l', f') \<and>
     tr_removed rep = [''w1''] \<and> (\<forall>s\<in>set (ki_slots l'). new_slot 900000000000 s) \<and>
     handle_tick [demo_candidate] 900000000000 l2 f = Some (rep2, m, f2) \<and> tr_removed rep2 = []"
proof -
  obtain l0 f0 rep l f where r: "known_run demo_list_config [(0, [demo_candidate])] l0 f0"
    "handle_tick [demo_candidate] 7 l0 f0 = Some (rep, l, f)" "changed rep" "known_run demo_list_config demo_trace l f"
    "ki_slots l = [demo_slot 7 Confirmed]" using demo_known_run by blast
  have "same_caps (ki_new demo_list_config) l" using known_run_ok [OF r(4)] by (simp add: list_ok_def)
  from demo_quiet [OF r(5) this, of 500000000000 f] obtain la where la: "quiet_tick (l, f) (la, f)"
    "ki_slots la = [demo_slot 500000000000 Confirmed]" "same_caps (ki_new demo_list_config) la" by auto
  from demo_quiet [OF la(2,3), of 900000000000 f] obtain l2 where l2: "quiet_tick (la, f) (l2, f)"
    "ki_slots l2 = [demo_slot 900000000000 Confirmed]" by auto
  have q: "quiet_tick\<^sup>*\<^sup>* (l, f) (l2, f)" using la(1) l2(1) by (meson rtranclp.rtrancl_into_rtrancl rtranclp.rtrancl_refl)
  have a: "\<forall>(t, _)\<in>set [(0, [demo_candidate])]. t \<le> (7 :: time)"
    "kc_freshness_window demo_list_config = int 600 * 1000000000" "600 \<le> MAX_SAFE_INTEGER" "7 + kc_freshness_window demo_list_config < 900000000000"
    by (simp_all add: demo_list_config_def default_config_def nanos_per_sec_def MAX_SAFE_INTEGER_def)
  have s: "map ks_witness_key_id (ki_slots l2) = [''w1'']" "\<forall>s\<in>set (ki_slots l2). ks_last_observed_at s = 900000000000"
    by (simp_all add: l2(2) demo_slot_def)
  from restart_drops_settled_list [OF r(1) a(1) r(2,3) q a(2-), of "[demo_candidate]"] s r(4) q l2(2) show ?thesis by fastforce
qed

end
