(* ===== verification/Outbound_Policy.thy ===== *)
theory Outbound_Policy
  imports Identity_Id "HOL-Library.AList"
begin

text \<open>
  Where a node connects and whom it counts (\<open>outbound_policy.rs\<close>, \<open>trusted_proxies.rs\<close>,
  \<open>topology_limits.rs\<close>): the address policy for URLs that peers supply, hostname lookups with their
  memory of failures, the client address behind trusted proxies and the sliding-window limit per client.
  An address is its number, most significant octet first. \<open>Url::parse\<close> is the argument \<open>url_parse\<close>;
  \<open>IpNet\<close> membership is the argument \<open>net_contains\<close>; a lookup's answer is an argument.
\<close>

unbundle bit_operations_syntax

section \<open>Addresses\<close>

datatype IpAddr = V4 u32 | V6 "128 word"

definition octet4 :: "u32 \<Rightarrow> nat \<Rightarrow> u8" where
  "octet4 a i = ucast (drop_bit (8 * (3 - i)) a)"

definition octet6 :: "128 word \<Rightarrow> nat \<Rightarrow> u8" where
  "octet6 a i = ucast (drop_bit (8 * (15 - i)) a)"

definition segment6 :: "128 word \<Rightarrow> nat \<Rightarrow> u16" where
  "segment6 a i = ucast (drop_bit (16 * (7 - i)) a)"

definition v4_new :: "u8 \<Rightarrow> u8 \<Rightarrow> u8 \<Rightarrow> u8 \<Rightarrow> u32" where
  "v4_new a b c d = (ucast a * 256 + ucast b) * 65536 + (ucast c * 256 + ucast d)"

definition to_canonical :: "IpAddr \<Rightarrow> IpAddr" where
  "to_canonical ip =
     (case ip of V4 a \<Rightarrow> V4 a
      | V6 a \<Rightarrow> if map (octet6 a) [0..<12] = [0, 0, 0, 0, 0, 0, 0, 0, 0, 0, 0xff, 0xff]
                then V4 (v4_new (octet6 a 12) (octet6 a 13) (octet6 a 14) (octet6 a 15)) else V6 a)"

definition v4_is_unspecified :: "u32 \<Rightarrow> bool" where "v4_is_unspecified a \<longleftrightarrow> a = 0"
definition v4_is_broadcast :: "u32 \<Rightarrow> bool" where "v4_is_broadcast a \<longleftrightarrow> a = 0xffffffff"
definition v4_is_multicast :: "u32 \<Rightarrow> bool" where "v4_is_multicast a \<longleftrightarrow> 224 \<le> octet4 a 0 \<and> octet4 a 0 \<le> 239"
definition v4_is_link_local :: "u32 \<Rightarrow> bool" where "v4_is_link_local a \<longleftrightarrow> octet4 a 0 = 169 \<and> octet4 a 1 = 254"
definition v4_is_loopback :: "u32 \<Rightarrow> bool" where "v4_is_loopback a \<longleftrightarrow> octet4 a 0 = 127"
definition v4_is_private :: "u32 \<Rightarrow> bool" where
  "v4_is_private a \<longleftrightarrow> octet4 a 0 = 10 \<or> octet4 a 0 = 172 \<and> 16 \<le> octet4 a 1 \<and> octet4 a 1 \<le> 31 \<or>
     octet4 a 0 = 192 \<and> octet4 a 1 = 168"
definition v6_is_unspecified :: "128 word \<Rightarrow> bool" where "v6_is_unspecified a \<longleftrightarrow> a = 0"
definition v6_is_loopback :: "128 word \<Rightarrow> bool" where "v6_is_loopback a \<longleftrightarrow> a = 1"
definition v6_is_multicast :: "128 word \<Rightarrow> bool" where "v6_is_multicast a \<longleftrightarrow> segment6 a 0 AND 0xff00 = 0xff00"

section \<open>The outbound policy\<close>

definition unwrap_embedded_v4 :: "128 word \<Rightarrow> IpAddr" where
  "unwrap_embedded_v4 a =
     (let o6 = octet6 a in
      if map o6 [0..<12] = [0, 0x64, 0xff, 0x9b, 0, 0, 0, 0, 0, 0, 0, 0] then V4 (v4_new (o6 12) (o6 13) (o6 14) (o6 15))
      else if map o6 [0..<6] = [0, 0x64, 0xff, 0x9b, 0, 1] then V4 (v4_new (o6 6) (o6 7) (o6 9) (o6 10))
      else if o6 0 = 0x20 \<and> o6 1 = 0x02 then V4 (v4_new (o6 2) (o6 3) (o6 4) (o6 5))
      else V6 a)"

definition canonicalize_ip :: "IpAddr \<Rightarrow> IpAddr" where
  "canonicalize_ip ip = (case to_canonical ip of V6 a \<Rightarrow> unwrap_embedded_v4 a | v4 \<Rightarrow> v4)"

definition always_forbidden :: "IpAddr \<Rightarrow> bool" where
  "always_forbidden ip =
     (case canonicalize_ip ip of
        V4 a \<Rightarrow> v4_is_unspecified a \<or> v4_is_multicast a \<or> v4_is_broadcast a \<or> v4_is_link_local a \<or> octet4 a 0 = 0 \<or> 240 \<le> octet4 a 0
      | V6 a \<Rightarrow> v6_is_unspecified a \<or> v6_is_multicast a \<or> segment6 a 0 AND 0xffc0 = 0xfe80)"

definition is_private_v4 :: "u32 \<Rightarrow> bool" where
  "is_private_v4 a \<longleftrightarrow> v4_is_loopback a \<or> v4_is_private a \<or> octet4 a 0 = 100 \<and> octet4 a 1 AND 0xc0 = 64"

definition is_private_v6 :: "128 word \<Rightarrow> bool" where
  "is_private_v6 a \<longleftrightarrow> v6_is_loopback a \<or> segment6 a 0 AND 0xfe00 = 0xfc00 \<or> segment6 a 0 AND 0xffc0 = 0xfec0"

definition is_private :: "IpAddr \<Rightarrow> bool" where
  "is_private ip = (case canonicalize_ip ip of V4 a \<Rightarrow> is_private_v4 a | V6 a \<Rightarrow> is_private_v6 a)"

datatype PolicyError = InvalidUrl | Scheme | Userinfo | QueryOrFragment | Forbidden IpAddr | Resolve

record OutboundPolicy =
  allow_private :: bool

definition check_ip :: "OutboundPolicy \<Rightarrow> IpAddr \<Rightarrow> PolicyError + unit" where
  "check_ip p ip =
     (if always_forbidden ip \<or> \<not> allow_private p \<and> is_private ip then Err (Forbidden (to_canonical ip)) else Ok ())"

definition env_flag :: "str option \<Rightarrow> bool" where
  "env_flag v = (case v of None \<Rightarrow> False
     | Some s \<Rightarrow> to_ascii_lowercase (str_of_chars (trim_chars (str_chars s))) \<in> {''true'', ''1'', ''yes'', ''on''})"

definition policy_from_env :: "str option \<Rightarrow> OutboundPolicy" where
  "policy_from_env v = \<lparr>allow_private = env_flag v\<rparr>"

definition lifted_by_private_peers :: "OutboundPolicy \<Rightarrow> PolicyError \<Rightarrow> bool" where
  "lifted_by_private_peers p e =
     (case e of Forbidden ip \<Rightarrow> \<not> allow_private p \<and> \<not> always_forbidden ip \<and> is_private ip | _ \<Rightarrow> False)"

type_synonym SocketAddr = "IpAddr \<times> u16"

fun check_all :: "OutboundPolicy \<Rightarrow> SocketAddr list \<Rightarrow> PolicyError + unit" where
  "check_all p [] = Ok ()"
| "check_all p (a # as) = rbind (check_ip p (fst a)) (\<lambda>_. check_all p as)"

definition check_answer :: "OutboundPolicy \<Rightarrow> SocketAddr list \<Rightarrow> PolicyError + SocketAddr list" where
  "check_answer p addrs = (if addrs = [] then Err Resolve else rbind (check_all p addrs) (\<lambda>_. Ok addrs))"

text \<open>What the \<open>url\<close> crate reports of a parsed URL.\<close>

datatype Host = Ipv4 u32 | Ipv6 "128 word" | Domain str

record url =
  url_as_str :: str
  url_scheme :: str
  url_username :: str
  url_password :: "str option"
  url_query :: "str option"
  url_fragment :: "str option"
  url_host :: "Host option"
  port_or_known_default :: "u16 option"

definition str_trim :: "str \<Rightarrow> str" where
  "str_trim s = str_of_chars (trim_chars (str_chars s))"

definition trim_slashes :: "str \<Rightarrow> str" where
  "trim_slashes s = rev (dropWhile (\<lambda>c. c = CHR ''/'') (rev s))"

definition check_url_literal :: "(str \<Rightarrow> url option) \<Rightarrow> OutboundPolicy \<Rightarrow> str \<Rightarrow> PolicyError + unit" where
  "check_url_literal url_parse p u =
     rbind (ok_or InvalidUrl (url_parse (str_trim u))) (\<lambda>url.
       case url_host url of
         Some (Ipv4 a) \<Rightarrow> check_ip p (V4 a)
       | Some (Ipv6 a) \<Rightarrow> check_ip p (V6 a)
       | Some (Domain _) \<Rightarrow> Ok ()
       | None \<Rightarrow> Err InvalidUrl)"

definition parse_base_url :: "(str \<Rightarrow> url option) \<Rightarrow> str \<Rightarrow> PolicyError + url" where
  "parse_base_url url_parse base_url =
     rbind (ok_or InvalidUrl (url_parse (str_trim base_url))) (\<lambda>url.
       if url_scheme url \<noteq> ''http'' \<and> url_scheme url \<noteq> ''https'' then Err Scheme
       else if url_username url \<noteq> [] \<or> url_password url \<noteq> None then Err Userinfo
       else if url_query url \<noteq> None \<or> url_fragment url \<noteq> None then Err QueryOrFragment
       else if url_host url = None then Err InvalidUrl
       else Ok url)"

record CheckedTarget =
  ct_base_url :: str
  ct_pinned_host :: "str option"
  ct_addr :: SocketAddr
  ct_policy :: OutboundPolicy

datatype LookupPurpose = Critical | Untrusted

definition policy_literal :: "OutboundPolicy \<Rightarrow> str \<Rightarrow> IpAddr \<Rightarrow> u16 \<Rightarrow> PolicyError + CheckedTarget" where
  "policy_literal p base ip port =
     rbind (check_ip p ip) (\<lambda>_. Ok \<lparr>ct_base_url = base, ct_pinned_host = None, ct_addr = (ip, port), ct_policy = p\<rparr>)"

definition check_base_url_for ::
  "(str \<Rightarrow> url option) \<Rightarrow> (str \<Rightarrow> u16 \<Rightarrow> LookupPurpose \<Rightarrow> PolicyError + SocketAddr list) \<Rightarrow> OutboundPolicy \<Rightarrow> str \<Rightarrow> LookupPurpose \<Rightarrow>
   PolicyError + CheckedTarget" where
  "check_base_url_for url_parse resolve_host p base_url purpose =
     rbind (parse_base_url url_parse base_url) (\<lambda>url.
     rbind (ok_or InvalidUrl (port_or_known_default url)) (\<lambda>port.
     let base = trim_slashes (url_as_str url) in
     rbind (ok_or InvalidUrl (url_host url)) (\<lambda>host.
       case host of
         Ipv4 a \<Rightarrow> policy_literal p base (V4 a) port
       | Ipv6 a \<Rightarrow> policy_literal p base (V6 a) port
       | Domain name \<Rightarrow>
           rbind (resolve_host name port purpose) (\<lambda>addrs.
           rbind (check_all p addrs) (\<lambda>_.
             case addrs of
               [] \<Rightarrow> Err Resolve
             | a # _ \<Rightarrow> Ok \<lparr>ct_base_url = base, ct_pinned_host = Some name, ct_addr = a, ct_policy = p\<rparr>)))))"

section \<open>Hostname lookups\<close>

definition NEGATIVE_TTL :: duration where "NEGATIVE_TTL = 45 * 1000000000"
definition MAX_ABANDONED_LOOKUPS :: nat where "MAX_ABANDONED_LOOKUPS = 32"
definition MAX_NEGATIVE_HOSTS :: nat where "MAX_NEGATIVE_HOSTS = 512"
definition MAX_CRITICAL_LOOKUPS :: nat where "MAX_CRITICAL_LOOKUPS = 32"
definition MAX_UNTRUSTED_LOOKUPS :: nat where "MAX_UNTRUSTED_LOOKUPS = 8"

type_synonym failed_hosts = "(str \<times> time) list"

definition forget_oldest :: "failed_hosts \<Rightarrow> failed_hosts" where
  "forget_oldest failed = (case sort_key snd failed of [] \<Rightarrow> failed | (h, _) # _ \<Rightarrow> AList.delete h failed)"

definition remember_failure :: "time \<Rightarrow> str \<Rightarrow> failed_hosts \<Rightarrow> failed_hosts" where
  "remember_failure now host failed =
     (let failed =
        (if length failed \<ge> MAX_NEGATIVE_HOSTS \<and> map_of failed host = None
         then (let live = filter (\<lambda>(_, until). until > now) failed
               in if length live \<ge> MAX_NEGATIVE_HOSTS then forget_oldest live else live)
         else failed)
      in AList.update host (now + NEGATIVE_TTL) failed)"

definition recently_failed :: "time \<Rightarrow> str \<Rightarrow> failed_hosts \<Rightarrow> bool" where
  "recently_failed now host failed = (case map_of failed host of Some until \<Rightarrow> until > now | None \<Rightarrow> False)"

text \<open>One lookup. \<open>flight\<close> is the answer of a lookup of the host already running, if there is one;
  \<open>permit\<close> tells whether the purpose's pool has a slot; \<open>answer\<close> is what the system resolver gives before
  the deadline; \<open>done_at\<close> is when it ends.\<close>

definition resolve ::
  "failed_hosts \<Rightarrow> nat \<Rightarrow> time \<Rightarrow> time \<Rightarrow> (PolicyError + IpAddr list) option \<Rightarrow> bool \<Rightarrow> IpAddr list option \<Rightarrow> str \<Rightarrow> u16 \<Rightarrow>
   LookupPurpose \<Rightarrow> (PolicyError + SocketAddr list) \<times> failed_hosts" where
  "resolve failed abandoned now done_at flight permit answer name port purpose =
     (let host = to_ascii_lowercase name; addrs = map (\<lambda>ip. (ip, port)) in
      if recently_failed now host failed then (Err Resolve, failed)
      else
        case flight of
          Some result \<Rightarrow> (rbind result (\<lambda>ips. Ok (addrs ips)), failed)
        | None \<Rightarrow>
            if purpose = Untrusted \<and> abandoned \<ge> MAX_ABANDONED_LOOKUPS then (Err Resolve, failed)
            else if \<not> permit then (Err Resolve, failed)
            else
              case answer of
                Some ips \<Rightarrow> if ips \<noteq> [] then (Ok (addrs ips), failed) else (Err Resolve, remember_failure done_at host failed)
              | None \<Rightarrow> (Err Resolve, remember_failure done_at host failed))"

section \<open>The client behind trusted proxies\<close>

definition to_mapped :: "IpAddr \<Rightarrow> IpAddr" where
  "to_mapped ip = (case ip of V4 a \<Rightarrow> V6 (0xffff * 2 ^ 32 + ucast a) | v6 \<Rightarrow> v6)"

text \<open>\<open>v6_net\<close> tells whether a network is an IPv6 one.\<close>

record 'n net_ops =
  net_contains :: "'n \<Rightarrow> IpAddr \<Rightarrow> bool"
  v6_net :: "'n \<Rightarrow> bool"

definition proxies_contain :: "'n net_ops \<Rightarrow> 'n list \<Rightarrow> IpAddr \<Rightarrow> bool" where
  "proxies_contain N nets ip =
     (let ip = to_canonical ip in
      list_ex (\<lambda>net. net_contains N net ip \<or>
        v6_net N net \<and> (case ip of V4 _ \<Rightarrow> True | V6 _ \<Rightarrow> False) \<and> net_contains N net (to_mapped ip)) nets)"

text \<open>\<open>ip_of\<close> and \<open>sock_of\<close> are \<open>IpAddr::from_str\<close> and \<open>SocketAddr::from_str\<close>.\<close>

definition parse_forwarded_entry :: "(str \<Rightarrow> IpAddr option) \<Rightarrow> (str \<Rightarrow> SocketAddr option) \<Rightarrow> str \<Rightarrow> IpAddr option" where
  "parse_forwarded_entry ip_of sock_of entry =
     (let e = str_trim entry in
      case ip_of e of
        Some ip \<Rightarrow> Some ip
      | None \<Rightarrow>
          (case sock_of e of
             Some a \<Rightarrow> Some (fst a)
           | None \<Rightarrow> if e \<noteq> [] \<and> hd e = CHR ''['' \<and> tl e \<noteq> [] \<and> last (tl e) = CHR '']'' then ip_of (butlast (tl e)) else None))"

fun first_untrusted :: "(IpAddr \<Rightarrow> bool) \<Rightarrow> (str \<Rightarrow> IpAddr option) \<Rightarrow> IpAddr \<Rightarrow> str list \<Rightarrow> IpAddr" where
  "first_untrusted trusted parse peer [] = peer"
| "first_untrusted trusted parse peer (e # es) =
     (case parse e of None \<Rightarrow> peer | Some ip \<Rightarrow> if trusted ip then first_untrusted trusted parse peer es else to_canonical ip)"

text \<open>A header value is \<open>None\<close> when it is not visible ASCII.\<close>

definition client_ip :: "'n net_ops \<Rightarrow> (str \<Rightarrow> IpAddr option) \<Rightarrow> (str \<Rightarrow> SocketAddr option) \<Rightarrow> 'n list \<Rightarrow> IpAddr \<Rightarrow> str option list \<Rightarrow> IpAddr" where
  "client_ip N ip_of sock_of nets addr headers =
     (let peer = to_canonical addr in
      if \<not> proxies_contain N nets peer then peer
      else if None \<in> set headers then peer
      else first_untrusted (proxies_contain N nets) (parse_forwarded_entry ip_of sock_of) peer
             (rev (concat (map (\<lambda>h. split_char CHR '','' (the h)) headers))))"

section \<open>The request limit per client\<close>

definition MAX_TRACKED_IPS :: nat where "MAX_TRACKED_IPS = 10000"

record IpRateLimiter =
  rl_limit :: nat
  rl_window :: duration
  rl_hits :: "(IpAddr \<times> time list) list"

definition limiter_new :: "nat \<Rightarrow> duration \<Rightarrow> IpRateLimiter" where
  "limiter_new limit_per_window window = \<lparr>rl_limit = max limit_per_window 1, rl_window = window, rl_hits = []\<rparr>"

definition live_hits :: "duration \<Rightarrow> time \<Rightarrow> time list \<Rightarrow> time list" where
  "live_hits window now q = dropWhile (\<lambda>t. max 0 (now - t) \<ge> window) q"

text \<open>\<open>Err wait\<close> when the request is refused. The front of a full queue exists, since the limit is not zero.\<close>

definition limiter_check :: "IpAddr \<Rightarrow> time \<Rightarrow> IpRateLimiter \<Rightarrow> (duration + unit) \<times> IpRateLimiter" where
  "limiter_check ip now l =
     (let known = map_of (rl_hits l) ip \<noteq> None;
          hits = (if length (rl_hits l) \<ge> MAX_TRACKED_IPS \<and> \<not> known
                  then filter (\<lambda>(_, q). q \<noteq> []) (map (\<lambda>(i, q). (i, live_hits (rl_window l) now q)) (rl_hits l)) else rl_hits l)
      in if length hits \<ge> MAX_TRACKED_IPS \<and> \<not> known then (Err (rl_window l), l\<lparr>rl_hits := hits\<rparr>)
         else
           let q = live_hits (rl_window l) now (case map_of hits ip of Some q \<Rightarrow> q | None \<Rightarrow> []) in
           if length q \<ge> rl_limit l
           then (Err (max 0 (rl_window l - max 0 (now - hd q))), l\<lparr>rl_hits := AList.update ip q hits\<rparr>)
           else (Ok (), l\<lparr>rl_hits := AList.update ip (q @ [now]) hits\<rparr>))"

end
