(* ===== verification/Peers.thy ===== *)
theory Peers
  imports Witness Outbound_Policy "HOL-Library.Char_ord" "HOL-Library.List_Lexorder" "HOL-Library.Product_Lexorder"
begin

text \<open>
  What a node knows of its peers (\<open>connectivity.rs\<close> and the server's \<open>nodes.rs\<close>): witness adverts, the peer table with its
  pool of unverified entries, the registry of shards and the tracker of gossiped heads. A \<open>HashMap\<close> is an
  association list with distinct keys; nothing depends on its order but the order of lists read from it. The
  text of a libp2p peer id, as parsed and printed again, is the argument \<open>peer_id\<close>; the URLs the announce
  worker protects are the argument \<open>protected\<close>.
\<close>

section \<open>Connectivity\<close>

datatype Connectivity = Direct | NatTraversed | Relayed | OutboundOnly

definition PREFERENCE_ORDER :: "Connectivity list" where
  "PREFERENCE_ORDER = [Direct, NatTraversed, Relayed, OutboundOnly]"

fun conn_rank :: "Connectivity \<Rightarrow> u8" where
  "conn_rank Direct = 0"
| "conn_rank NatTraversed = 1"
| "conn_rank Relayed = 2"
| "conn_rank OutboundOnly = 3"

definition conn_best :: "Connectivity \<Rightarrow> Connectivity \<Rightarrow> Connectivity" where
  "conn_best a b = (if conn_rank b < conn_rank a then b else a)"

datatype PathType = PathDirect | PathTraversed | PathRelayed

fun severity :: "PathType \<Rightarrow> u8" where
  "severity PathDirect = 0"
| "severity PathTraversed = 1"
| "severity PathRelayed = 2"

definition path_worse :: "PathType \<Rightarrow> PathType \<Rightarrow> PathType" where
  "path_worse a b = (if severity b > severity a then b else a)"

section \<open>Witness adverts\<close>

record WitnessAdvert =
  wa_key_id :: str
  wa_announced_at :: time
  wa_proof :: str
  wa_direct :: bool

record WitnessSigner =
  wn_signing_key :: bytes
  wn_key_id :: str

definition signer_new :: "crates \<Rightarrow> bytes \<Rightarrow> str \<Rightarrow> WitnessSigner option" where
  "signer_new C signing_key key_id =
     (if hex_encode C (verifying_key C signing_key) = key_id then Some \<lparr>wn_signing_key = signing_key, wn_key_id = key_id\<rparr> else None)"

text \<open>The address is already in its normal form.\<close>

definition signer_advert :: "crates \<Rightarrow> WitnessSigner \<Rightarrow> str \<Rightarrow> time \<Rightarrow> WitnessAdvert option" where
  "signer_advert C s base_url now =
     map_option (\<lambda>p. \<lparr>wa_key_id = wn_key_id s, wa_announced_at = now, wa_proof = p, wa_direct = False\<rparr>)
       (result_ok (sign_witness_announce C (wn_signing_key s) base_url now))"

definition verified_advert :: "crates \<Rightarrow> str \<Rightarrow> WitnessAdvert option \<Rightarrow> time \<Rightarrow> WitnessAdvert option" where
  "verified_advert C base_url advert now =
     (case advert of
        None \<Rightarrow> None
      | Some a \<Rightarrow> if verify_witness_announce C base_url (wa_key_id a) (wa_announced_at a) (wa_proof a) now then Some a else None)"

definition advert_replaces :: "WitnessAdvert \<Rightarrow> WitnessAdvert \<Rightarrow> bool" where
  "advert_replaces old new =
     (case (wa_direct old, wa_direct new) of
        (True, False) \<Rightarrow> False
      | (False, True) \<Rightarrow> True
      | _ \<Rightarrow> wa_announced_at new \<ge> wa_announced_at old)"

section \<open>The peer table\<close>

record PeerInfo =
  pi_base_url :: str
  pi_roles :: "str list"
  pi_protocol_version :: str
  pi_network_id :: str
  pi_last_announced_at :: time
  pi_libp2p_peer_id :: "str option"
  pi_libp2p_listen_addrs :: "str list"
  pi_witness :: "WitnessAdvert option"
  pi_connectivity :: "Connectivity option"
  pi_identity_bound :: bool

definition carry_witness :: "PeerInfo option \<Rightarrow> PeerInfo \<Rightarrow> PeerInfo" where
  "carry_witness existing info =
     (case Option.bind existing pi_witness of
        None \<Rightarrow> info
      | Some old \<Rightarrow>
          (case pi_witness info of
             Some new \<Rightarrow> if advert_replaces old new then info else info\<lparr>pi_witness := Some old\<rparr>
           | None \<Rightarrow> info\<lparr>pi_witness := Some old\<rparr>))"

definition keep_identity :: "PeerInfo \<Rightarrow> PeerInfo \<Rightarrow> PeerInfo" where
  "keep_identity old info = info\<lparr>pi_libp2p_peer_id := pi_libp2p_peer_id old, pi_libp2p_listen_addrs := pi_libp2p_listen_addrs old,
     pi_connectivity := pi_connectivity old, pi_identity_bound := True\<rparr>"

definition carry_identity :: "PeerInfo option \<Rightarrow> PeerInfo \<Rightarrow> PeerInfo" where
  "carry_identity existing info =
     (case existing of
        None \<Rightarrow> info
      | Some old \<Rightarrow>
          if \<not> pi_identity_bound old \<or> pi_identity_bound info then info
          else if pi_libp2p_peer_id info = pi_libp2p_peer_id old then info\<lparr>pi_identity_bound := True\<rparr>
          else keep_identity old info)"

definition is_p2p_url :: "str \<Rightarrow> bool" where
  "is_p2p_url url \<longleftrightarrow> take 6 url = ''p2p://''"

definition MAX_P2P_ENTRIES :: nat where "MAX_P2P_ENTRIES = 64"
definition MAX_P2P_UNVERIFIED :: nat where "MAX_P2P_UNVERIFIED = 32"
definition MAX_P2P_SHARD_URLS_TOTAL :: nat where "MAX_P2P_SHARD_URLS_TOTAL = 32"
definition MAX_P2P_SHARD_URLS_PER_EXCHANGE :: nat where "MAX_P2P_SHARD_URLS_PER_EXCHANGE = 8"
definition ESTABLISHED_ROUND_TRIPS :: nat where "ESTABLISHED_ROUND_TRIPS = 5"
definition MAX_UNVERIFIED_PEERS :: nat where "MAX_UNVERIFIED_PEERS = 256"

type_synonym peer_map = "(str \<times> PeerInfo) list"

record PeerTable =
  pt_peers :: peer_map
  pt_unverified :: peer_map

text \<open>The entry to give up first: \<open>p2p://\<close> entries before others, then the longest unannounced, then by URL.\<close>

definition eviction_key :: "PeerInfo \<Rightarrow> bool \<times> time \<times> str" where
  "eviction_key p = (\<not> is_p2p_url (pi_base_url p), pi_last_announced_at p, pi_base_url p)"

definition oldest :: "(str \<Rightarrow> bool) \<Rightarrow> bool \<Rightarrow> peer_map \<Rightarrow> str option" where
  "oldest keep only_p2p m =
     (case sort_key eviction_key (filter (\<lambda>p. \<not> keep (pi_base_url p) \<and> (only_p2p \<longrightarrow> is_p2p_url (pi_base_url p))) (map snd m)) of
        [] \<Rightarrow> None | p # _ \<Rightarrow> Some (pi_base_url p))"

definition p2p_count :: "peer_map \<Rightarrow> nat" where
  "p2p_count m = length (filter (\<lambda>(u, _). is_p2p_url u) m)"

definition upsert :: "PeerInfo \<Rightarrow> PeerTable \<Rightarrow> PeerTable" where
  "upsert info t =
     (let stored = map_of (pt_peers t) (pi_base_url info);
          info = carry_identity stored (carry_witness stored info)
      in t\<lparr>pt_peers := AList.update (pi_base_url info) info (pt_peers t)\<rparr>)"

definition upsert_relayed :: "PeerInfo \<Rightarrow> PeerTable \<Rightarrow> PeerTable" where
  "upsert_relayed info t =
     (let stored = map_of (pt_peers t) (pi_base_url info);
          info = (case stored of Some s \<Rightarrow> info\<lparr>pi_last_announced_at := pi_last_announced_at s\<rparr> | None \<Rightarrow> info);
          info = (case stored of Some s \<Rightarrow> if pi_identity_bound s then keep_identity s info else info | None \<Rightarrow> info);
          info = carry_witness stored info
      in t\<lparr>pt_peers := AList.update (pi_base_url info) info (pt_peers t)\<rparr>)"

definition put_advert :: "WitnessAdvert \<Rightarrow> PeerInfo \<Rightarrow> PeerInfo" where
  "put_advert advert p =
     (if (case pi_witness p of None \<Rightarrow> True | Some old \<Rightarrow> advert_replaces old advert) then p\<lparr>pi_witness := Some advert\<rparr> else p)"

definition attach_witness :: "str \<Rightarrow> WitnessAdvert \<Rightarrow> PeerTable \<Rightarrow> PeerTable" where
  "attach_witness base_url advert t =
     (case map_of (pt_peers t) base_url of
        Some p \<Rightarrow> t\<lparr>pt_peers := AList.update base_url (put_advert advert p) (pt_peers t)\<rparr>
      | None \<Rightarrow>
          (case map_of (pt_unverified t) base_url of
             Some p \<Rightarrow> t\<lparr>pt_unverified := AList.update base_url (put_advert advert p) (pt_unverified t)\<rparr>
           | None \<Rightarrow> t))"

definition pt_contains :: "str \<Rightarrow> PeerTable \<Rightarrow> bool" where
  "pt_contains base_url t \<longleftrightarrow> map_of (pt_peers t) base_url \<noteq> None"

datatype TableFull = TableFull

definition make_room :: "(str \<Rightarrow> bool) \<Rightarrow> bool \<Rightarrow> bool \<Rightarrow> str option \<times> peer_map \<Rightarrow> TableFull + str option \<times> peer_map" where
  "make_room keep needed only_p2p = (\<lambda>(evicted, m).
     if \<not> needed then Ok (evicted, m)
     else case oldest keep only_p2p m of None \<Rightarrow> Err TableFull | Some victim \<Rightarrow> Ok (Some victim, AList.delete victim m))"

text \<open>The URL evicted, if any. An eviction made before the table turns out to be full stays.\<close>

definition insert_bounded :: "(str \<Rightarrow> bool) \<Rightarrow> PeerInfo \<Rightarrow> nat \<Rightarrow> PeerTable \<Rightarrow> (TableFull + str option) \<times> PeerTable" where
  "insert_bounded protected info cap t =
     (let m = pt_peers t; stored = map_of m (pi_base_url info);
          info = carry_identity stored (carry_witness stored info);
          is_new = (stored = None); p2p = is_p2p_url (pi_base_url info)
      in case make_room protected (is_new \<and> p2p \<and> p2p_count m \<ge> min MAX_P2P_ENTRIES cap) True (None, m) of
           Err e \<Rightarrow> (Err e, t)
         | Ok (evicted, m) \<Rightarrow>
             (case make_room protected (is_new \<and> length m \<ge> cap) p2p (evicted, m) of
                Err e \<Rightarrow> (Err e, t\<lparr>pt_peers := m\<rparr>)
              | Ok (evicted, m) \<Rightarrow> (Ok evicted, t\<lparr>pt_peers := AList.update (pi_base_url info) info m\<rparr>)))"

definition list_excluding :: "str \<Rightarrow> PeerTable \<Rightarrow> PeerInfo list" where
  "list_excluding base_url t = filter (\<lambda>p. pi_base_url p \<noteq> base_url) (map snd (pt_peers t))"

definition list_all_peers :: "PeerTable \<Rightarrow> PeerInfo list" where
  "list_all_peers t = map snd (pt_peers t)"

definition list_unverified :: "PeerTable \<Rightarrow> PeerInfo list" where
  "list_unverified t = map snd (pt_unverified t)"

definition bound_holders :: "PeerTable \<Rightarrow> str \<Rightarrow> nat" where
  "bound_holders t i = length (filter (\<lambda>p. pi_identity_bound p \<and> pi_libp2p_peer_id p = Some i) (list_all_peers t))"

definition standing :: "PeerTable \<Rightarrow> str \<Rightarrow> bool" where
  "standing t i \<longleftrightarrow> (\<exists>p\<in>set (list_all_peers t). pi_identity_bound p \<and> pi_libp2p_peer_id p = Some i)"

definition bound_http_url_for_libp2p_peer :: "(str \<Rightarrow> url option) \<Rightarrow> PeerTable \<Rightarrow> str \<Rightarrow> nat \<times> str option" where
  "bound_http_url_for_libp2p_peer url_parse t i =
     (let holders = filter (\<lambda>p. pi_identity_bound p \<and> pi_libp2p_peer_id p = Some i) (list_all_peers t) in
      (length holders,
       case holders of
         [p] \<Rightarrow> (case parse_base_url url_parse (pi_base_url p) of Ok _ \<Rightarrow> Some (pi_base_url p) | Err _ \<Rightarrow> None)
       | _ \<Rightarrow> None))"

definition libp2p_id_is_unambiguous :: "PeerTable \<Rightarrow> str \<Rightarrow> bool" where
  "libp2p_id_is_unambiguous t i \<longleftrightarrow> bound_holders t i \<le> 1"

text \<open>The round trips this node completed with a peer are the argument \<open>round_trips\<close>.\<close>

definition established :: "(str \<Rightarrow> nat) \<Rightarrow> PeerTable \<Rightarrow> str \<Rightarrow> bool" where
  "established round_trips t base_url \<longleftrightarrow>
     (case map_of (pt_peers t) base_url of Some p \<Rightarrow> pi_identity_bound p | None \<Rightarrow> False) \<and> round_trips base_url \<ge> ESTABLISHED_ROUND_TRIPS"

definition prune_older_than :: "time \<Rightarrow> PeerTable \<Rightarrow> PeerTable" where
  "prune_older_than since t = t\<lparr>pt_peers := filter (\<lambda>(_, p). pi_last_announced_at p \<ge> since) (pt_peers t)\<rparr>"

definition prune_unverified_older_than :: "time \<Rightarrow> PeerTable \<Rightarrow> PeerTable" where
  "prune_unverified_older_than since t = t\<lparr>pt_unverified := filter (\<lambda>(_, p). pi_last_announced_at p \<ge> since) (pt_unverified t)\<rparr>"

definition insert_unverified :: "PeerInfo \<Rightarrow> PeerTable \<Rightarrow> PeerTable" where
  "insert_unverified info t =
     (let m = pt_unverified t; stored = map_of m (pi_base_url info);
          info = carry_witness stored info;
          new_p2p = (is_p2p_url (pi_base_url info) \<and> stored = None);
          m = (if new_p2p \<and> p2p_count m \<ge> MAX_P2P_UNVERIFIED
               then (case oldest (\<lambda>_. False) True m of Some victim \<Rightarrow> AList.delete victim m | None \<Rightarrow> m) else m)
      in if map_of m (pi_base_url info) = None \<and> length m \<ge> MAX_UNVERIFIED_PEERS then
           (case oldest (\<lambda>_. False) new_p2p m of
              Some victim \<Rightarrow> t\<lparr>pt_unverified := AList.update (pi_base_url info) info (AList.delete victim m)\<rparr>
            | None \<Rightarrow> t\<lparr>pt_unverified := m\<rparr>)
         else t\<lparr>pt_unverified := AList.update (pi_base_url info) info m\<rparr>)"

definition take_unverified :: "str \<Rightarrow> PeerTable \<Rightarrow> PeerInfo option \<times> PeerTable" where
  "take_unverified base_url t =
     (map_of (pt_unverified t) base_url, t\<lparr>pt_unverified := AList.delete base_url (pt_unverified t)\<rparr>)"

text \<open>The id a \<open>p2p://\<close> base URL names.\<close>

definition parse_p2p_base :: "(str \<Rightarrow> str option) \<Rightarrow> str \<Rightarrow> str option" where
  "parse_p2p_base peer_id url =
     (let u = str_trim url in if take 6 u = ''p2p://'' then peer_id (trim_slashes (drop 6 u)) else None)"

definition p2p_base_url :: "str \<Rightarrow> str" where
  "p2p_base_url i = ''p2p://'' @ i"

definition stream_url :: "(str \<Rightarrow> str option) \<Rightarrow> PeerTable \<Rightarrow> str \<Rightarrow> str option" where
  "stream_url peer_id t base_url =
     (case parse_p2p_base peer_id base_url of
        Some i \<Rightarrow> Some (p2p_base_url i)
      | None \<Rightarrow>
          (case map_of (pt_peers t) base_url of
             Some p \<Rightarrow> if pi_identity_bound p then map_option p2p_base_url (Option.bind (pi_libp2p_peer_id p) peer_id) else None
           | None \<Rightarrow> None))"

definition bind_if_p2p_url_names_peer :: "(str \<Rightarrow> str option) \<Rightarrow> str \<Rightarrow> PeerInfo \<Rightarrow> PeerInfo" where
  "bind_if_p2p_url_names_peer peer_id i info =
     (if parse_p2p_base peer_id (pi_base_url info) = Some i \<and> pi_libp2p_peer_id info = Some i
      then info\<lparr>pi_identity_bound := True, pi_roles := [], pi_protocol_version := ''0.0.0'', pi_libp2p_listen_addrs := [],
             pi_connectivity := None, pi_witness := None\<rparr>
      else info)"

definition promote_url ::
  "(str \<Rightarrow> str option) \<Rightarrow> (str \<Rightarrow> bool) \<Rightarrow> str \<Rightarrow> nat \<Rightarrow> str \<Rightarrow> str list \<times> PeerTable \<Rightarrow> str list \<times> PeerTable" where
  "promote_url peer_id protected i cap url = (\<lambda>(promoted, t).
     case take_unverified url t of
       (None, t) \<Rightarrow> (promoted, t)
     | (Some info, t) \<Rightarrow>
         if is_p2p_url url \<and> pt_contains url t then (promoted, t)
         else
           case insert_bounded protected (bind_if_p2p_url_names_peer peer_id i info) cap t of
             (Err _, t) \<Rightarrow> (promoted, t)
           | (Ok _, t) \<Rightarrow> (promoted @ [url], t))"

definition promote_unverified_by_libp2p_peer ::
  "(str \<Rightarrow> str option) \<Rightarrow> (str \<Rightarrow> bool) \<Rightarrow> str \<Rightarrow> nat \<Rightarrow> PeerTable \<Rightarrow> str list \<times> PeerTable" where
  "promote_unverified_by_libp2p_peer peer_id protected i cap t =
     (let urls = map pi_base_url (filter (\<lambda>p. pi_libp2p_peer_id p = Some i) (list_unverified t)) in
      fold (promote_url peer_id protected i cap) urls ([], t))"


section \<open>The shard registry\<close>

record ShardAnnouncement =
  sa_shard_id :: str
  sa_url :: str
  sa_last_seen_at :: time

record ShardRegistry =
  sr_shards :: "(str \<times> (str \<times> time) list) list"
  sr_first_seen :: "(str \<times> time) list"

definition urls_of :: "ShardRegistry \<Rightarrow> str \<Rightarrow> (str \<times> time) list" where
  "urls_of r shard = (case map_of (sr_shards r) shard of Some us \<Rightarrow> us | None \<Rightarrow> [])"

definition merge_entry :: "ShardAnnouncement \<Rightarrow> str list \<times> ShardRegistry \<Rightarrow> str list \<times> ShardRegistry" where
  "merge_entry e = (\<lambda>(newly, r).
     let shard = sa_shard_id e; seen = sa_last_seen_at e; us = urls_of r shard;
         newly = (if map_of (sr_shards r) shard = None then newly @ [shard] else newly);
         us = (if (case map_of us (sa_url e) of None \<Rightarrow> True | Some existing \<Rightarrow> seen > existing)
               then AList.update (sa_url e) seen us else us);
         first = (case map_of (sr_first_seen r) shard of
                    None \<Rightarrow> AList.update shard seen (sr_first_seen r)
                  | Some existing \<Rightarrow> if seen < existing then AList.update shard seen (sr_first_seen r) else sr_first_seen r)
     in (newly, r\<lparr>sr_shards := AList.update shard us (sr_shards r), sr_first_seen := first\<rparr>))"

definition drop_url :: "time \<times> str \<times> str \<Rightarrow> (str \<times> (str \<times> time) list) list \<Rightarrow> (str \<times> (str \<times> time) list) list" where
  "drop_url = (\<lambda>(_, shard, url) m.
     case map_of m shard of
       None \<Rightarrow> m
     | Some us \<Rightarrow> (let us = AList.delete url us in if us = [] then AList.delete shard m else AList.update shard us m))"

definition p2p_urls :: "(str \<times> (str \<times> time) list) list \<Rightarrow> (time \<times> str \<times> str) list" where
  "p2p_urls m = concat (map (\<lambda>(shard, us). map (\<lambda>(u, t). (t, shard, u)) (filter (\<lambda>(u, _). is_p2p_url u) us)) m)"

definition merge_shards :: "ShardAnnouncement list \<Rightarrow> ShardRegistry \<Rightarrow> str list \<times> ShardRegistry" where
  "merge_shards incoming r =
     (case fold merge_entry incoming ([], r) of (newly, r) \<Rightarrow>
        let p2p = p2p_urls (sr_shards r) in
        if length p2p > MAX_P2P_SHARD_URLS_TOTAL
        then (newly, r\<lparr>sr_shards := fold drop_url (take (length p2p - MAX_P2P_SHARD_URLS_TOTAL) (sort p2p)) (sr_shards r)\<rparr>)
        else (newly, r))"

definition record_own_shard :: "str \<Rightarrow> str \<Rightarrow> time \<Rightarrow> ShardRegistry \<Rightarrow> ShardRegistry" where
  "record_own_shard shard url now r = snd (merge_shards [\<lparr>sa_shard_id = shard, sa_url = url, sa_last_seen_at = now\<rparr>] r)"

definition has_url :: "str \<Rightarrow> str \<Rightarrow> ShardRegistry \<Rightarrow> bool" where
  "has_url shard url r \<longleftrightarrow> map_of (urls_of r shard) url \<noteq> None"

definition prune_shards_older_than :: "time \<Rightarrow> ShardRegistry \<Rightarrow> ShardRegistry" where
  "prune_shards_older_than since r =
     (let m = map (\<lambda>(shard, us). (shard, filter (\<lambda>(_, t). t \<ge> since) us)) (sr_shards r);
          gone = map fst (filter (\<lambda>(_, us). us = []) m)
      in r\<lparr>sr_shards := filter (\<lambda>(_, us). us \<noteq> []) m, sr_first_seen := filter (\<lambda>(s, _). s \<notin> set gone) (sr_first_seen r)\<rparr>)"

definition first_seen_at :: "str \<Rightarrow> ShardRegistry \<Rightarrow> time option" where
  "first_seen_at shard r = map_of (sr_first_seen r) shard"

definition registry_snapshot :: "ShardRegistry \<Rightarrow> ShardAnnouncement list" where
  "registry_snapshot r = concat (map (\<lambda>(shard, us).
     map (\<lambda>(u, t). \<lparr>sa_shard_id = shard, sa_url = u, sa_last_seen_at = t\<rparr>) us) (sr_shards r))"

definition known_shard_ids :: "ShardRegistry \<Rightarrow> str set" where
  "known_shard_ids r = fst ` set (sr_shards r)"

definition last_seen_at :: "str \<Rightarrow> ShardRegistry \<Rightarrow> time option" where
  "last_seen_at shard r = (case urls_of r shard of [] \<Rightarrow> None | us \<Rightarrow> Some (Max (snd ` set us)))"

section \<open>Head gossip\<close>

definition MAX_HEAD_SUMMARIES_PER_EXCHANGE :: nat where "MAX_HEAD_SUMMARIES_PER_EXCHANGE = 5"
definition MAX_TRACKED_HEAD_SUMMARIES :: nat where "MAX_TRACKED_HEAD_SUMMARIES = 4096"
definition MAX_SHARD_ID_LEN :: nat where "MAX_SHARD_ID_LEN = 128"

record HeadSummary =
  hs_shard_id :: str
  hs_tree_size :: i64
  hs_root_hash :: str
  hs_cosignature_count :: nat

definition shard_id_ok :: "str \<Rightarrow> bool" where
  "shard_id_ok shard_id \<longleftrightarrow> shard_id \<noteq> [] \<and> length shard_id \<le> MAX_SHARD_ID_LEN"

definition head_summary_well_formed :: "crates \<Rightarrow> HeadSummary \<Rightarrow> bool" where
  "head_summary_well_formed C s \<longleftrightarrow> shard_id_ok (hs_shard_id s) \<and> 0 \<le> sint (hs_tree_size s) \<and>
     (case hex_decode C (hs_root_hash s) of Some b \<Rightarrow> length b = 32 | None \<Rightarrow> False)"

record HeadConflict =
  hc_shard_id :: str
  hc_tree_size :: i64
  hc_root_hash_a :: str
  hc_source_a :: str
  hc_root_hash_b :: str
  hc_source_b :: str

record TrackedHeadSummary =
  th_summary :: HeadSummary
  th_reported_by :: str
  th_last_seen_at :: time

type_synonym tracked_key = "str \<times> i64 \<times> str"

record HeadGossipTracker =
  hg_seen :: "(tracked_key \<times> TrackedHeadSummary) list"
  hg_equivocating_shards :: "str set"

definition tracker_new :: HeadGossipTracker where
  "tracker_new = \<lparr>hg_seen = [], hg_equivocating_shards = {}\<rparr>"

definition evict_if_full :: "tracked_key \<Rightarrow> (tracked_key \<times> TrackedHeadSummary) list \<Rightarrow> (tracked_key \<times> TrackedHeadSummary) list" where
  "evict_if_full k seen =
     (if map_of seen k \<noteq> None \<or> length seen < MAX_TRACKED_HEAD_SUMMARIES then seen
      else
        case sort_key (\<lambda>((shard, n, root), t). (th_last_seen_at t, shard, sint n, root)) seen of
          [] \<Rightarrow> seen | (victim, _) # _ \<Rightarrow> AList.delete victim seen)"

definition conflicts_with :: "str \<Rightarrow> HeadSummary \<Rightarrow> (tracked_key \<times> TrackedHeadSummary) list \<Rightarrow> HeadConflict list" where
  "conflicts_with from_peer s seen =
     map (\<lambda>((_, _, other_root), t). \<lparr>hc_shard_id = hs_shard_id s, hc_tree_size = hs_tree_size s, hc_root_hash_a = hs_root_hash s,
            hc_source_a = from_peer, hc_root_hash_b = other_root, hc_source_b = th_reported_by t\<rparr>)
       (filter (\<lambda>((shard, n, root), _). shard = hs_shard_id s \<and> n = hs_tree_size s \<and> root \<noteq> hs_root_hash s) seen)"

definition merge_summary ::
  "crates \<Rightarrow> str \<Rightarrow> time \<Rightarrow> HeadSummary \<Rightarrow> (HeadSummary list \<times> HeadConflict list \<times> nat) \<times> HeadGossipTracker \<Rightarrow>
   (HeadSummary list \<times> HeadConflict list \<times> nat) \<times> HeadGossipTracker" where
  "merge_summary C from_peer now s = (\<lambda>((admitted, conflicts, rejected), g).
     if \<not> head_summary_well_formed C s then ((admitted, conflicts, rejected + 1), g)
     else
       let k = (hs_shard_id s, hs_tree_size s, hs_root_hash s);
           seen = AList.update k \<lparr>th_summary = s, th_reported_by = from_peer, th_last_seen_at = now\<rparr> (evict_if_full k (hg_seen g));
           found = (if hs_shard_id s \<in> hg_equivocating_shards g then [] else conflicts_with from_peer s seen)
       in ((admitted @ [s], conflicts @ found, rejected), g\<lparr>hg_seen := seen\<rparr>))"

definition merge_heads ::
  "crates \<Rightarrow> str \<Rightarrow> HeadSummary list \<Rightarrow> time \<Rightarrow> HeadGossipTracker \<Rightarrow> (HeadSummary list \<times> HeadConflict list \<times> nat) \<times> HeadGossipTracker" where
  "merge_heads C from_peer incoming now g =
     fold (merge_summary C from_peer now) (take MAX_HEAD_SUMMARIES_PER_EXCHANGE incoming)
       (([], [], length incoming - MAX_HEAD_SUMMARIES_PER_EXCHANGE), g)"

definition record_own_head :: "crates \<Rightarrow> HeadSummary \<Rightarrow> str \<Rightarrow> time \<Rightarrow> HeadGossipTracker \<Rightarrow> HeadGossipTracker" where
  "record_own_head C s own now g = snd (merge_heads C own [s] now g)"

definition heads_snapshot :: "HeadGossipTracker \<Rightarrow> HeadSummary list" where
  "heads_snapshot g =
     map th_summary (take MAX_HEAD_SUMMARIES_PER_EXCHANGE
       (sort_key (\<lambda>t. (- th_last_seen_at t, hs_shard_id (th_summary t))) (map snd (hg_seen g))))"

definition mark_equivocating :: "str \<Rightarrow> HeadGossipTracker \<Rightarrow> HeadGossipTracker" where
  "mark_equivocating shard g = g\<lparr>hg_equivocating_shards := insert shard (hg_equivocating_shards g)\<rparr>"

definition is_equivocating :: "HeadGossipTracker \<Rightarrow> str \<Rightarrow> bool" where
  "is_equivocating g shard \<longleftrightarrow> shard \<in> hg_equivocating_shards g"

end
