(* ===== verification/Announce.thy ===== *)
theory Announce
  imports Peers
begin

text \<open>
  Admission of peers (\<open>peer_admission.rs\<close>) and the announce exchange of \<open>nodes.rs\<close>: the handler of
  \<open>POST /nodes/announce\<close>, the merge of gossiped peers and shard entries, and what an outbound contact stores.
  What lies outside the process is a record of arguments: URL and multiaddress parsing, hostname
  lookups, the status page of a URL's server, the version floor, and the state of other tasks (a free
  check slot, the deadline of an exchange, protected URLs, completed round trips). A handler is one function;
  \<open>Announce_Facts\<close> takes it apart into the writes it makes, each under its lock, and lets those interleave. Fields serde skips (\<open>direct\<close>, \<open>identity_bound\<close>) arrive as false.
\<close>

section \<open>Configuration and errors\<close>

record AdmissionConfig =
  max_known_peers :: nat
  max_url_len :: nat
  new_urls_per_source :: nat
  max_new_per_exchange :: nat
  max_new_shard_urls_per_exchange :: nat
  verify_reachability :: bool
  max_concurrent_checks :: nat
  shard_exchange_budget :: duration
  max_failed_lookups :: nat

definition default_admission :: AdmissionConfig where
  "default_admission = \<lparr>max_known_peers = 2000, max_url_len = 256, new_urls_per_source = 10, max_new_per_exchange = 20,
     max_new_shard_urls_per_exchange = 256, verify_reachability = True, max_concurrent_checks = MAX_UNTRUSTED_LOOKUPS,
     shard_exchange_budget = 10 * 1000000000, max_failed_lookups = 8\<rparr>"

datatype AdmitError = TooLong | Policy PolicyError | Unreachable | NetworkMismatch | TableIsFull

text \<open>Status, code and \<open>Retry-After\<close>; the message is for people.\<close>

record TopologyError =
  te_status :: nat
  te_code :: str
  te_retry_after :: "nat option"

definition topology_error :: "nat \<Rightarrow> str \<Rightarrow> TopologyError" where
  "topology_error status code = \<lparr>te_status = status, te_code = code, te_retry_after = None\<rparr>"

definition rate_limited :: "nat \<Rightarrow> TopologyError" where
  "rate_limited secs = (topology_error 429 ''rate_limited'')\<lparr>te_retry_after := Some (max secs 1)\<rparr>"

definition busy :: TopologyError where
  "busy = (topology_error 429 ''too_many_in_flight'')\<lparr>te_retry_after := Some 1\<rparr>"

fun admit_error :: "AdmitError \<Rightarrow> TopologyError" where
  "admit_error TooLong = topology_error 400 ''base_url_too_long''"
| "admit_error (Policy (Forbidden _)) = topology_error 403 ''base_url_not_allowed''"
| "admit_error (Policy Resolve) = topology_error 422 ''base_url_unresolvable''"
| "admit_error (Policy _) = topology_error 400 ''invalid_base_url''"
| "admit_error Unreachable = topology_error 422 ''peer_unreachable''"
| "admit_error NetworkMismatch = topology_error 422 ''peer_network_mismatch''"
| "admit_error TableIsFull = (topology_error 503 ''peer_table_full'')\<lparr>te_retry_after := Some 60\<rparr>"

section \<open>The outside world\<close>

text \<open>The parts of a libp2p multiaddress; \<open>OtherPart\<close> is any other protocol.\<close>

datatype Protocol = Ip4 u32 | Ip6 "128 word" | Tcp u16 | P2p str | P2pCircuit | OtherPart str

text \<open>\<open>net_multiaddr\<close> gives the parts of a multiaddress and its canonical text; \<open>net_version\<close> whether a version
  meets the floor, \<open>None\<close> when it does not parse; \<open>net_status\<close> the \<open>network_id\<close> and \<open>libp2p_peer_id\<close> of the
  status page at a checked target, \<open>None\<close> when there is no such page; \<open>net_late\<close> whether the deadline
  of an exchange has passed at its nth entry.\<close>

record net =
  net_url :: "str \<Rightarrow> url option"
  net_resolve :: "str \<Rightarrow> u16 \<Rightarrow> LookupPurpose \<Rightarrow> PolicyError + SocketAddr list"
  net_peer_id :: "str \<Rightarrow> str option"
  net_multiaddr :: "str \<Rightarrow> (Protocol list \<times> str) option"
  net_version :: "str \<Rightarrow> bool option"
  net_status :: "CheckedTarget \<Rightarrow> (str option \<times> str option) option"
  net_slot :: bool
  net_late :: "nat \<Rightarrow> bool"
  net_protected :: "str \<Rightarrow> bool"
  net_round_trips :: "str \<Rightarrow> nat"

definition is_supported :: "net \<Rightarrow> str \<Rightarrow> bool" where
  "is_supported N v = (case net_version N v of Some b \<Rightarrow> b | None \<Rightarrow> False)"

definition check_shape :: "net \<Rightarrow> AdmissionConfig \<Rightarrow> str \<Rightarrow> AdmitError + str" where
  "check_shape N cfg u =
     (if length u > max_url_len cfg then Err TooLong
      else rbind (map_err Policy (parse_base_url (net_url N) u)) (\<lambda>url. Ok (trim_slashes (url_as_str url))))"

definition check_address :: "net \<Rightarrow> OutboundPolicy \<Rightarrow> str \<Rightarrow> AdmitError + CheckedTarget" where
  "check_address N pol base_url = map_err Policy (check_base_url_for (net_url N) (net_resolve N) pol base_url Untrusted)"

definition normalized_base_url :: "net \<Rightarrow> AdmissionConfig \<Rightarrow> str \<Rightarrow> str" where
  "normalized_base_url N cfg u = (case check_shape N cfg u of Ok base \<Rightarrow> base | Err _ \<Rightarrow> trim_slashes u)"

definition verify_reachable :: "net \<Rightarrow> CheckedTarget \<Rightarrow> str \<Rightarrow> AdmitError + str option" where
  "verify_reachable N target network_id =
     (case net_status N target of
        None \<Rightarrow> Err Unreachable
      | Some (None, _) \<Rightarrow> Err Unreachable
      | Some (Some i, reported) \<Rightarrow> if i = network_id then Ok reported else Err NetworkMismatch)"

text \<open>Whole seconds of a wait, rounded up.\<close>

definition wait_secs :: "duration \<Rightarrow> nat" where
  "wait_secs d = nat (d div 1000000000) + (if d mod 1000000000 > 0 then 1 else 0)"

definition admit_new_url_from :: "IpAddr \<Rightarrow> time \<Rightarrow> IpRateLimiter \<Rightarrow> (TopologyError + unit) \<times> IpRateLimiter" where
  "admit_new_url_from source now l =
     (case limiter_check source now l of (Err wait, l) \<Rightarrow> (Err (rate_limited (wait_secs wait)), l) | (Ok _, l) \<Rightarrow> (Ok (), l))"

definition enter_check :: "net \<Rightarrow> TopologyError + unit" where
  "enter_check N = (if net_slot N then Ok () else Err busy)"

section \<open>libp2p addresses\<close>

definition MAX_LIBP2P_ADDR_LEN :: nat where "MAX_LIBP2P_ADDR_LEN = 256"
definition MAX_LIBP2P_ADDRS_PER_PEER :: nat where "MAX_LIBP2P_ADDRS_PER_PEER = 8"

definition direct_part_ok :: "OutboundPolicy \<Rightarrow> Protocol list \<Rightarrow> str option \<Rightarrow> bool \<Rightarrow> bool" where
  "direct_part_ok pol parts expected require_id \<longleftrightarrow>
     (case parts of
        Ip4 a # _ \<Rightarrow> check_ip pol (V4 a) = Ok ()
      | Ip6 a # _ \<Rightarrow> check_ip pol (V6 a) = Ok ()
      | _ \<Rightarrow> False) \<and>
     (case parts of _ # Tcp port # _ \<Rightarrow> port \<noteq> 0 | _ \<Rightarrow> False) \<and>
     (case parts of
        [_, _] \<Rightarrow> \<not> require_id
      | [_, _, P2p i] \<Rightarrow> (case expected of None \<Rightarrow> True | Some want \<Rightarrow> want = i)
      | _ \<Rightarrow> False)"

definition addr_acceptable :: "OutboundPolicy \<Rightarrow> Protocol list \<Rightarrow> str \<Rightarrow> bool" where
  "addr_acceptable pol parts i =
     (let circuits = length (filter (\<lambda>p. p = P2pCircuit) parts) in
      if circuits = 0 then direct_part_ok pol parts (Some i) False
      else if circuits = 1 then
        direct_part_ok pol (takeWhile (\<lambda>p. p \<noteq> P2pCircuit) parts) None True \<and>
        tl (dropWhile (\<lambda>p. p \<noteq> P2pCircuit) parts) = [P2p i]
      else False)"

definition sanitize_step :: "net \<Rightarrow> OutboundPolicy \<Rightarrow> str \<Rightarrow> str \<Rightarrow> str list \<Rightarrow> str list" where
  "sanitize_step N pol i addr kept =
     (if length kept \<ge> MAX_LIBP2P_ADDRS_PER_PEER \<or> length addr > MAX_LIBP2P_ADDR_LEN then kept
      else case net_multiaddr N addr of
        None \<Rightarrow> kept
      | Some (parts, canonical) \<Rightarrow>
          if addr_acceptable pol parts i \<and> canonical \<notin> set kept then kept @ [canonical] else kept)"

definition sanitize_libp2p_addrs :: "net \<Rightarrow> OutboundPolicy \<Rightarrow> str option \<Rightarrow> str list \<Rightarrow> str list" where
  "sanitize_libp2p_addrs N pol peer addrs =
     (case Option.bind peer (net_peer_id N) of None \<Rightarrow> [] | Some i \<Rightarrow> fold (sanitize_step N pol i) addrs [])"

section \<open>The node's view of its peers\<close>

record node_view =
  nv_table :: PeerTable
  nv_limiter :: IpRateLimiter
  nv_cursor :: nat
  nv_inbound :: "str list"
  nv_registry :: ShardRegistry
  nv_heads :: HeadGossipTracker

definition MAX_PENDING_INBOUND :: nat where "MAX_PENDING_INBOUND = 256"

definition note_inbound :: "str \<Rightarrow> str list \<Rightarrow> str list" where
  "note_inbound peer inbound = (if length inbound < MAX_PENDING_INBOUND \<and> peer \<notin> set inbound then inbound @ [peer] else inbound)"

definition admit_promoted :: "(str \<Rightarrow> bool) \<Rightarrow> PeerInfo \<Rightarrow> nat \<Rightarrow> PeerTable \<Rightarrow> (TableFull + str option) \<times> PeerTable" where
  "admit_promoted protected info cap t =
     (case insert_bounded protected info cap t of
        (Err e, t) \<Rightarrow> (Err e, t)
      | (Ok evicted, t) \<Rightarrow> (Ok evicted, snd (take_unverified (pi_base_url info) t)))"

definition bind_or_blank :: "str option \<Rightarrow> PeerInfo \<Rightarrow> PeerInfo" where
  "bind_or_blank reported info =
     (if pi_libp2p_peer_id info \<noteq> None \<and> pi_libp2p_peer_id info = reported then info\<lparr>pi_identity_bound := True\<rparr>
      else info\<lparr>pi_identity_bound := False, pi_libp2p_peer_id := None, pi_libp2p_listen_addrs := [], pi_connectivity := None\<rparr>)"

definition self_consistent_p2p_base :: "net \<Rightarrow> str \<Rightarrow> str option \<Rightarrow> str option" where
  "self_consistent_p2p_base N base_url peer =
     (case parse_p2p_base (net_peer_id N) base_url of
        Some i \<Rightarrow> if peer = Some i then Some (p2p_base_url i) else None
      | None \<Rightarrow> None)"

text \<open>The address and reachability checks of a new announcer: the entry to store.\<close>

definition checked_announcer :: "net \<Rightarrow> AdmissionConfig \<Rightarrow> OutboundPolicy \<Rightarrow> str \<Rightarrow> PeerInfo \<Rightarrow> TopologyError + PeerInfo" where
  "checked_announcer N cfg pol network_id info =
     rbind (enter_check N) (\<lambda>_.
     rbind (map_err admit_error (check_address N pol (pi_base_url info))) (\<lambda>checked.
       if verify_reachability cfg
       then rbind (map_err admit_error (verify_reachable N checked network_id)) (\<lambda>reported. Ok (bind_or_blank reported info))
       else Ok info))"

definition admit_new_announcer ::
  "net \<Rightarrow> AdmissionConfig \<Rightarrow> OutboundPolicy \<Rightarrow> str \<Rightarrow> IpAddr \<Rightarrow> time \<Rightarrow> PeerInfo \<Rightarrow> node_view \<Rightarrow> (TopologyError + unit) \<times> node_view" where
  "admit_new_announcer N cfg pol network_id source now info v =
     (case admit_new_url_from source now (nv_limiter v) of
        (Err e, l) \<Rightarrow> (Err e, v\<lparr>nv_limiter := l\<rparr>)
      | (Ok _, l) \<Rightarrow>
          (let v = v\<lparr>nv_limiter := l\<rparr> in
           case checked_announcer N cfg pol network_id info of
             Err e \<Rightarrow> (Err e, v)
           | Ok info \<Rightarrow>
               (case admit_promoted (net_protected N) info (max_known_peers cfg) (nv_table v) of
                  (Err _, t) \<Rightarrow> (Err (admit_error TableIsFull), v\<lparr>nv_table := t\<rparr>)
                | (Ok _, t) \<Rightarrow> (Ok (), v\<lparr>nv_table := t\<rparr>))))"

definition store_authenticated_p2p_announcer ::
  "net \<Rightarrow> AdmissionConfig \<Rightarrow> IpAddr \<Rightarrow> time \<Rightarrow> PeerInfo \<Rightarrow> node_view \<Rightarrow> (TopologyError + unit) \<times> node_view" where
  "store_authenticated_p2p_announcer N cfg source now info v =
     (if length (pi_base_url info) > max_url_len cfg then (Err (admit_error TooLong), v)
      else
        let info = info\<lparr>pi_identity_bound := True\<rparr> in
        if pt_contains (pi_base_url info) (nv_table v) then (Ok (), v\<lparr>nv_table := upsert info (nv_table v)\<rparr>)
        else
          case admit_new_url_from source now (nv_limiter v) of
            (Err e, l) \<Rightarrow> (Err e, v\<lparr>nv_limiter := l\<rparr>)
          | (Ok _, l) \<Rightarrow>
              (case admit_promoted (net_protected N) info (max_known_peers cfg) (nv_table v) of
                 (Err _, t) \<Rightarrow> (Err (admit_error TableIsFull), v\<lparr>nv_limiter := l, nv_table := t\<rparr>)
               | (Ok _, t) \<Rightarrow> (Ok (), v\<lparr>nv_limiter := l, nv_table := t\<rparr>)))"

definition names_other_id :: "PeerTable \<Rightarrow> PeerInfo \<Rightarrow> bool" where
  "names_other_id t info =
     (case (map_of (pt_peers t) (pi_base_url info), pi_libp2p_peer_id info) of
        (Some s, Some i) \<Rightarrow> pi_identity_bound s \<and> pi_libp2p_peer_id s \<noteq> Some i
      | _ \<Rightarrow> False)"

text \<open>The id the status page of the entry's own URL reports, when every check passes.\<close>

definition reported_id :: "net \<Rightarrow> OutboundPolicy \<Rightarrow> str \<Rightarrow> str \<Rightarrow> str option" where
  "reported_id N pol network_id base_url =
     (case check_address N pol base_url of
        Ok checked \<Rightarrow> (case verify_reachable N checked network_id of Ok reported \<Rightarrow> reported | Err _ \<Rightarrow> None)
      | Err _ \<Rightarrow> None)"

definition rebind_existing ::
  "net \<Rightarrow> AdmissionConfig \<Rightarrow> OutboundPolicy \<Rightarrow> str \<Rightarrow> IpAddr \<Rightarrow> time \<Rightarrow> PeerInfo \<Rightarrow> node_view \<Rightarrow> PeerInfo \<times> node_view" where
  "rebind_existing N cfg pol network_id source now info v =
     (if \<not> names_other_id (nv_table v) info \<or> \<not> verify_reachability cfg then (info, v)
      else
        case admit_new_url_from source now (nv_limiter v) of
          (Err _, l) \<Rightarrow> (info, v\<lparr>nv_limiter := l\<rparr>)
        | (Ok _, l) \<Rightarrow>
            (let reported = (if net_slot N then reported_id N pol network_id (pi_base_url info) else None) in
             (if reported \<noteq> None \<and> reported = pi_libp2p_peer_id info then info\<lparr>pi_identity_bound := True\<rparr> else info,
              v\<lparr>nv_limiter := l\<rparr>)))"

section \<open>Outbound contacts\<close>

definition promote_on_contact :: "net \<Rightarrow> AdmissionConfig \<Rightarrow> str \<Rightarrow> PeerTable \<Rightarrow> PeerTable" where
  "promote_on_contact N cfg contacted t =
     (case take_unverified contacted t of
        (None, t) \<Rightarrow> t
      | (Some info, t) \<Rightarrow>
          (case parse_p2p_base (net_peer_id N) contacted of
             Some i \<Rightarrow>
               if pt_contains contacted t then t
               else snd (insert_bounded (net_protected N) (bind_if_p2p_url_names_peer (net_peer_id N) i info) (max_known_peers cfg) t)
           | None \<Rightarrow> snd (insert_bounded (net_protected N) info (max_known_peers cfg) t)))"

definition responder_shape_ok :: "net \<Rightarrow> AdmissionConfig \<Rightarrow> str \<Rightarrow> PeerInfo \<Rightarrow> bool" where
  "responder_shape_ok N cfg called node =
     (if is_p2p_url called then self_consistent_p2p_base N (pi_base_url node) (pi_libp2p_peer_id node) = Some called
      else normalized_base_url N cfg (pi_base_url node) = called \<and> result_ok (check_shape N cfg (pi_base_url node)) \<noteq> None)"

definition admit_responder_node ::
  "net \<Rightarrow> AdmissionConfig \<Rightarrow> OutboundPolicy \<Rightarrow> str \<Rightarrow> time \<Rightarrow> str \<Rightarrow> PeerInfo \<Rightarrow> PeerTable \<Rightarrow> bool \<times> PeerTable" where
  "admit_responder_node N cfg pol network_id now called_url node t =
     (let called = normalized_base_url N cfg called_url in
      if pi_network_id node \<noteq> network_id \<or> \<not> responder_shape_ok N cfg called node \<or> \<not> is_supported N (pi_protocol_version node) then (False, t)
      else
        let node = node\<lparr>pi_base_url := called,
              pi_libp2p_listen_addrs := sanitize_libp2p_addrs N pol (pi_libp2p_peer_id node) (pi_libp2p_listen_addrs node),
              pi_last_announced_at := now, pi_witness := None, pi_identity_bound := pi_libp2p_peer_id node \<noteq> None\<rparr>
        in case insert_bounded (net_protected N) node (max_known_peers cfg) t of (Ok _, t) \<Rightarrow> (True, t) | (Err _, t) \<Rightarrow> (False, t))"

text \<open>The advert in the answer of a peer, at the URL this node called, is a direct one.\<close>

definition attach_direct :: "crates \<Rightarrow> net \<Rightarrow> AdmissionConfig \<Rightarrow> str \<Rightarrow> WitnessAdvert option \<Rightarrow> time \<Rightarrow> PeerTable \<Rightarrow> PeerTable" where
  "attach_direct C N cfg peer advert now t =
     (let base = normalized_base_url N cfg peer in
      case verified_advert C base advert now of Some a \<Rightarrow> attach_witness base (a\<lparr>wa_direct := True\<rparr>) t | None \<Rightarrow> t)"

definition pick_vouch_targets :: "PeerTable \<Rightarrow> str list \<Rightarrow> nat \<Rightarrow> nat \<Rightarrow> str list" where
  "pick_vouch_targets t skip cursor limit =
     (let urls = sort (map pi_base_url (filter (\<lambda>p. (case pi_witness p of Some w \<Rightarrow> \<not> wa_direct w | None \<Rightarrow> False) \<and> pi_base_url p \<notin> set skip)
                   (list_all_peers t)))
      in if urls = [] then [] else take limit (rotate (cursor mod length urls) urls))"

section \<open>Gossiped peers\<close>

record gossip =
  go_table :: PeerTable
  go_examined :: nat
  go_accepted :: nat
  go_slot :: bool
  go_failed :: nat
  go_admitted :: "PeerInfo list"
  go_rejected :: nat
  go_over_limit :: nat

definition reject :: "gossip \<Rightarrow> gossip" where
  "reject g = g\<lparr>go_rejected := go_rejected g + 1\<rparr>"

definition admit_gossip :: "PeerInfo \<Rightarrow> gossip \<Rightarrow> gossip" where
  "admit_gossip info g = g\<lparr>go_table := insert_unverified info (go_table g), go_accepted := go_accepted g + 1, go_admitted := go_admitted g @ [info]\<rparr>"

definition needs_lookup :: "net \<Rightarrow> str \<Rightarrow> bool" where
  "needs_lookup N base_url =
     (case parse_base_url (net_url N) base_url of Ok u \<Rightarrow> (case url_host u of Some (Domain _) \<Rightarrow> True | _ \<Rightarrow> False) | Err _ \<Rightarrow> False)"

text \<open>The base URL under which a gossiped entry is stored; \<open>None\<close> refuses the entry.\<close>

definition gossip_base :: "net \<Rightarrow> AdmissionConfig \<Rightarrow> PeerInfo \<Rightarrow> str option" where
  "gossip_base N cfg info =
     (if is_p2p_url (str_trim (pi_base_url info)) then self_consistent_p2p_base N (pi_base_url info) (pi_libp2p_peer_id info)
      else result_ok (check_shape N cfg (pi_base_url info)))"

definition gossip_info :: "crates \<Rightarrow> net \<Rightarrow> OutboundPolicy \<Rightarrow> time \<Rightarrow> str \<Rightarrow> PeerInfo \<Rightarrow> PeerInfo" where
  "gossip_info C N pol now base info = info\<lparr>pi_base_url := base,
     pi_libp2p_listen_addrs := sanitize_libp2p_addrs N pol (pi_libp2p_peer_id info) (pi_libp2p_listen_addrs info),
     pi_last_announced_at := min (pi_last_announced_at info) now, pi_identity_bound := False,
     pi_witness := verified_advert C base (map_option (\<lambda>a. a\<lparr>wa_direct := False\<rparr>) (pi_witness info)) now\<rparr>"

text \<open>An entry the table does not know.\<close>

definition gossip_unknown :: "net \<Rightarrow> AdmissionConfig \<Rightarrow> OutboundPolicy \<Rightarrow> nat \<Rightarrow> bool \<Rightarrow> PeerInfo \<Rightarrow> gossip \<Rightarrow> gossip" where
  "gossip_unknown N cfg pol pos p2p info g =
     (if go_accepted g \<ge> max_new_per_exchange cfg \<or> go_examined g \<ge> max_new_per_exchange cfg * 4
      then g\<lparr>go_over_limit := go_over_limit g + 1\<rparr>
      else
        let g = g\<lparr>go_examined := go_examined g + 1\<rparr> in
        if p2p then admit_gossip info g
        else if go_failed g \<ge> max_failed_lookups cfg \<or> net_late N pos then reject g
        else
          let lookup = needs_lookup N (pi_base_url info);
              g = (if lookup then g\<lparr>go_slot := go_slot g \<or> net_slot N\<rparr> else g)
          in if lookup \<and> \<not> go_slot g then reject g
             else case check_address N pol (pi_base_url info) of
               Err _ \<Rightarrow> reject (g\<lparr>go_failed := go_failed g + 1\<rparr>)
             | Ok _ \<Rightarrow> admit_gossip info g)"

definition gossip_entry ::
  "crates \<Rightarrow> net \<Rightarrow> AdmissionConfig \<Rightarrow> OutboundPolicy \<Rightarrow> str \<Rightarrow> time \<Rightarrow> nat \<times> PeerInfo \<Rightarrow> gossip \<Rightarrow> gossip" where
  "gossip_entry C N cfg pol network_id now = (\<lambda>(pos, info) g.
     if pi_network_id info \<noteq> network_id then reject g
     else
       case gossip_base N cfg info of
         None \<Rightarrow> reject g
       | Some base \<Rightarrow>
           let p2p = is_p2p_url (str_trim (pi_base_url info)); info = gossip_info C N pol now base info in
           if \<not> is_supported N (pi_protocol_version info) then g
           else if pt_contains base (go_table g) then
             g\<lparr>go_table := (if p2p then go_table g else upsert_relayed info (go_table g)), go_admitted := go_admitted g @ [info]\<rparr>
           else gossip_unknown N cfg pol pos p2p info g)"

definition merge_gossip ::
  "crates \<Rightarrow> net \<Rightarrow> AdmissionConfig \<Rightarrow> OutboundPolicy \<Rightarrow> str \<Rightarrow> time \<Rightarrow> PeerInfo list \<Rightarrow> PeerTable \<Rightarrow> gossip" where
  "merge_gossip C N cfg pol network_id now incoming t =
     fold (gossip_entry C N cfg pol network_id now) (enumerate 0 incoming)
       \<lparr>go_table = t, go_examined = 0, go_accepted = 0, go_slot = False, go_failed = 0, go_admitted = [], go_rejected = 0, go_over_limit = 0\<rparr>"

section \<open>Gossiped shards\<close>

record shard_scan =
  ss_kept :: "ShardAnnouncement list"
  ss_examined :: nat
  ss_refused :: nat
  ss_p2p_new :: nat
  ss_failed :: nat
  ss_slot :: bool
  ss_resumed_after :: nat
  ss_limiter :: IpRateLimiter

definition refuse :: "shard_scan \<Rightarrow> shard_scan" where
  "refuse s = s\<lparr>ss_refused := ss_refused s + 1\<rparr>"

definition keep_shard :: "ShardAnnouncement \<Rightarrow> shard_scan \<Rightarrow> shard_scan" where
  "keep_shard e s = s\<lparr>ss_kept := ss_kept s @ [e]\<rparr>"

definition resolve_shard :: "net \<Rightarrow> OutboundPolicy \<Rightarrow> nat \<Rightarrow> str \<Rightarrow> ShardAnnouncement \<Rightarrow> shard_scan \<Rightarrow> shard_scan" where
  "resolve_shard N pol pos base e s =
     (let s = s\<lparr>ss_resumed_after := pos + 1\<rparr> in
      case check_address N pol base of
        Err _ \<Rightarrow> refuse (s\<lparr>ss_failed := ss_failed s + 1\<rparr>)
      | Ok _ \<Rightarrow> keep_shard (e\<lparr>sa_url := base\<rparr>) s)"

text \<open>An unseen http(s) URL.\<close>

definition shard_url :: "net \<Rightarrow> AdmissionConfig \<Rightarrow> OutboundPolicy \<Rightarrow> time \<Rightarrow> IpAddr option \<Rightarrow> nat \<Rightarrow> ShardAnnouncement \<Rightarrow> shard_scan \<Rightarrow> shard_scan" where
  "shard_url N cfg pol now source pos e s =
     (case check_shape N cfg (sa_url e) of
        Err _ \<Rightarrow> refuse s
      | Ok base \<Rightarrow>
          if ss_failed s \<ge> max_failed_lookups cfg \<or> net_late N pos then refuse s
          else
            let s = s\<lparr>ss_slot := ss_slot s \<or> net_slot N\<rparr> in
            if \<not> ss_slot s then refuse s
            else
              case source of
                None \<Rightarrow> resolve_shard N pol pos base e s
              | Some ip \<Rightarrow>
                  (case admit_new_url_from ip now (ss_limiter s) of
                     (Err _, l) \<Rightarrow> refuse (s\<lparr>ss_limiter := l\<rparr>)
                   | (Ok _, l) \<Rightarrow> resolve_shard N pol pos base e (s\<lparr>ss_limiter := l\<rparr>)))"

definition shard_entry ::
  "net \<Rightarrow> AdmissionConfig \<Rightarrow> OutboundPolicy \<Rightarrow> ShardRegistry \<Rightarrow> time \<Rightarrow> IpAddr option \<Rightarrow> nat \<times> ShardAnnouncement \<Rightarrow> shard_scan \<Rightarrow> shard_scan" where
  "shard_entry N cfg pol registry now source = (\<lambda>(pos, entry) s.
     let e = entry\<lparr>sa_last_seen_at := min (sa_last_seen_at entry) now\<rparr> in
     if \<not> shard_id_ok (sa_shard_id e) then refuse s
     else if has_url (sa_shard_id e) (sa_url e) registry then keep_shard e s
     else if ss_examined s \<ge> max_new_shard_urls_per_exchange cfg then refuse s
     else
       let s = s\<lparr>ss_examined := ss_examined s + 1\<rparr> in
       case parse_p2p_base (net_peer_id N) (sa_url e) of
         Some i \<Rightarrow>
           (let s = s\<lparr>ss_p2p_new := ss_p2p_new s + 1\<rparr> in
            if ss_p2p_new s > MAX_P2P_SHARD_URLS_PER_EXCHANGE then refuse s else keep_shard (e\<lparr>sa_url := p2p_base_url i\<rparr>) s)
       | None \<Rightarrow> shard_url N cfg pol now source pos e s)"

definition validated_shards ::
  "net \<Rightarrow> AdmissionConfig \<Rightarrow> OutboundPolicy \<Rightarrow> time \<Rightarrow> ShardAnnouncement list \<Rightarrow> IpAddr option \<Rightarrow> node_view \<Rightarrow>
   (ShardAnnouncement list \<times> nat) \<times> node_view" where
  "validated_shards N cfg pol now incoming source v =
     (let start = nv_cursor v mod max (length incoming) 1;
          s = fold (shard_entry N cfg pol (nv_registry v) now source) (enumerate 0 (rotate start incoming))
                \<lparr>ss_kept = [], ss_examined = 0, ss_refused = 0, ss_p2p_new = 0, ss_failed = 0, ss_slot = False, ss_resumed_after = 0,
                 ss_limiter = nv_limiter v\<rparr>
      in ((ss_kept s, ss_refused s), v\<lparr>nv_cursor := nv_cursor v + ss_resumed_after s, nv_limiter := ss_limiter s\<rparr>))"

section \<open>The announce handler\<close>

record AnnounceRequest =
  an_base_url :: str
  an_roles :: "str list"
  an_protocol_version :: str
  an_network_id :: str
  an_libp2p_peer_id :: "str option"
  an_libp2p_listen_addrs :: "str list"
  an_known_shards :: "ShardAnnouncement list"
  an_head_summaries :: "HeadSummary list"
  an_witness :: "WitnessAdvert option"
  an_connectivity :: "Connectivity option"

text \<open>What an announce is answered with, less the responder's coordinate and its own entry.\<close>

record AnnounceResponse =
  as_peers :: "PeerInfo list"
  as_known_shards :: "ShardAnnouncement list"
  as_head_summaries :: "HeadSummary list"

definition announce_response :: "node_view \<Rightarrow> str \<Rightarrow> AnnounceResponse" where
  "announce_response v caller = \<lparr>as_peers = list_excluding caller (nv_table v), as_known_shards = registry_snapshot (nv_registry v),
     as_head_summaries = heads_snapshot (nv_heads v)\<rparr>"

datatype AnnounceError = PeerNetworkMismatch | Rejected TopologyError

datatype P2pAnnounce = NotP2p | Authenticated str | Unauthenticated

text \<open>\<open>remote\<close> is the id the libp2p handshake authenticated, if the request came over a stream.\<close>

definition classify_p2p_announce :: "net \<Rightarrow> str \<Rightarrow> str option \<Rightarrow> str option \<Rightarrow> TopologyError + P2pAnnounce" where
  "classify_p2p_announce N base_url claimed remote =
     (if \<not> is_p2p_url (str_trim base_url) then Ok NotP2p
      else case parse_p2p_base (net_peer_id N) base_url of
        None \<Rightarrow> Err (topology_error 400 ''p2p_identity_mismatch'')
      | Some i \<Rightarrow>
          if claimed \<noteq> Some i then Err (topology_error 400 ''p2p_identity_mismatch'')
          else case remote of
            Some r \<Rightarrow> if r = i then Ok (Authenticated i) else Err (topology_error 403 ''p2p_identity_mismatch'')
          | None \<Rightarrow> Ok Unauthenticated)"

definition announced_info :: "net \<Rightarrow> OutboundPolicy \<Rightarrow> time \<Rightarrow> AnnounceRequest \<Rightarrow> PeerInfo" where
  "announced_info N pol now body = \<lparr>pi_base_url = an_base_url body, pi_roles = an_roles body, pi_protocol_version = an_protocol_version body,
     pi_network_id = an_network_id body, pi_last_announced_at = now, pi_libp2p_peer_id = an_libp2p_peer_id body,
     pi_libp2p_listen_addrs = sanitize_libp2p_addrs N pol (an_libp2p_peer_id body) (an_libp2p_listen_addrs body),
     pi_witness = None, pi_connectivity = an_connectivity body, pi_identity_bound = False\<rparr>"

definition announced_advert :: "crates \<Rightarrow> str \<Rightarrow> time \<Rightarrow> AnnounceRequest \<Rightarrow> WitnessAdvert option" where
  "announced_advert C base now body = verified_advert C base (map_option (\<lambda>a. a\<lparr>wa_direct := False\<rparr>) (an_witness body)) now"

text \<open>Who announced, whether it is listed on its own merit, and whether it proved who it is.\<close>

definition announce_url ::
  "crates \<Rightarrow> net \<Rightarrow> AdmissionConfig \<Rightarrow> OutboundPolicy \<Rightarrow> str \<Rightarrow> IpAddr \<Rightarrow> time \<Rightarrow> AnnounceRequest \<Rightarrow> node_view \<Rightarrow>
   (TopologyError + str \<times> bool \<times> bool) \<times> node_view" where
  "announce_url C N cfg pol network_id source now body v =
     (case check_shape N cfg (an_base_url body) of
        Err e \<Rightarrow> (Err (admit_error e), v)
      | Ok base \<Rightarrow>
          (let advert = announced_advert C base now body;
               info = (announced_info N pol now body)\<lparr>pi_base_url := base, pi_witness := advert\<rparr>
           in if pt_contains base (nv_table v) then
                (case rebind_existing N cfg pol network_id source now info v of
                   (info, v) \<Rightarrow>
                     (let proven = pi_identity_bound info;
                          t = (if proven then upsert info (nv_table v)
                               else case advert of Some a \<Rightarrow> attach_witness base a (nv_table v) | None \<Rightarrow> nv_table v)
                      in (Ok (base, proven, proven), v\<lparr>nv_table := t\<rparr>)))
              else
                (case admit_new_announcer N cfg pol network_id source now info v of
                   (Err e, v) \<Rightarrow> (Err e, v)
                 | (Ok _, v) \<Rightarrow> (Ok (base, True, False), v))))"

definition announce_p2p ::
  "crates \<Rightarrow> net \<Rightarrow> AdmissionConfig \<Rightarrow> OutboundPolicy \<Rightarrow> IpAddr \<Rightarrow> time \<Rightarrow> AnnounceRequest \<Rightarrow> str \<Rightarrow> node_view \<Rightarrow>
   (TopologyError + str \<times> bool \<times> bool) \<times> node_view" where
  "announce_p2p C N cfg pol source now body i v =
     (let base = p2p_base_url i;
          info = (announced_info N pol now body)\<lparr>pi_base_url := base, pi_witness := announced_advert C base now body\<rparr>
      in case store_authenticated_p2p_announcer N cfg source now info v of
           (Err e, v) \<Rightarrow> (Err e, v)
         | (Ok _, v) \<Rightarrow> (Ok (base, True, True), v))"

text \<open>Merging what an admitted announcer sent; the conflicts found are to be confirmed, with the standing of
  the announcer.\<close>

definition announce_merge ::
  "crates \<Rightarrow> net \<Rightarrow> AdmissionConfig \<Rightarrow> OutboundPolicy \<Rightarrow> IpAddr \<Rightarrow> time \<Rightarrow> AnnounceRequest \<Rightarrow> str \<times> bool \<times> bool \<Rightarrow> node_view \<Rightarrow>
   (HeadConflict \<times> bool) list \<times> node_view" where
  "announce_merge C N cfg pol source now body = (\<lambda>(announcer, listed, proven) v.
     let v = (if listed then v\<lparr>nv_inbound := note_inbound announcer (nv_inbound v)\<rparr> else v) in
     case validated_shards N cfg pol now (an_known_shards body) (Some source) v of
       ((shards, _), v) \<Rightarrow>
         (let v = v\<lparr>nv_registry := snd (merge_shards shards (nv_registry v))\<rparr>
          in case merge_heads C announcer (if proven then an_head_summaries body else []) now (nv_heads v) of
               ((_, conflicts, _), heads) \<Rightarrow>
                 (map (\<lambda>c. (c, established (net_round_trips N) (nv_table v) announcer)) conflicts, v\<lparr>nv_heads := heads\<rparr>)))"

definition announce_under ::
  "crates \<Rightarrow> net \<Rightarrow> AdmissionConfig \<Rightarrow> OutboundPolicy \<Rightarrow> str \<Rightarrow> IpAddr \<Rightarrow> time \<Rightarrow> str option \<Rightarrow> AnnounceRequest \<Rightarrow> node_view \<Rightarrow>
   (AnnounceError + AnnounceResponse) \<times> (HeadConflict \<times> bool) list \<times> node_view" where
  "announce_under C N cfg pol network_id source now remote body v =
     (if an_network_id body \<noteq> network_id then (Err PeerNetworkMismatch, [], v)
      else
        case classify_p2p_announce N (an_base_url body) (an_libp2p_peer_id body) remote of
          Err e \<Rightarrow> (Err (Rejected e), [], v)
        | Ok p2p \<Rightarrow>
            if p2p = Unauthenticated \<or> \<not> is_supported N (an_protocol_version body)
            then (Ok (announce_response v (an_base_url body)), [], v)
            else
              case (case p2p of
                      Authenticated i \<Rightarrow> announce_p2p C N cfg pol source now body i v
                    | _ \<Rightarrow> announce_url C N cfg pol network_id source now body v) of
                (Err e, v) \<Rightarrow> (Err (Rejected e), [], v)
              | (Ok who, v) \<Rightarrow>
                  (case announce_merge C N cfg pol source now body who v of
                     (conflicts, v) \<Rightarrow> (Ok (announce_response v (fst who)), conflicts, v)))"

end
