(* ===== verification/Assoc.thy ===== *)
theory Assoc
  imports Main "HOL-Library.AList"
begin

text \<open>
  Association lists with distinct keys, the model of the \<open>HashMap\<close>s whose entries are counted, evicted and
  pruned: sizes after an update or a removal, lookups after a filter, the entry with the least key.
\<close>

lemma length_update: "length (AList.update k v al) = (if map_of al k = None then Suc (length al) else length al)"
  by (induction al) auto

lemma update_absent: "map_of al k = None \<Longrightarrow> AList.update k v al = al @ [(k, v)]"
  by (induction al) (auto split: if_splits)

lemma length_delete:
  assumes "distinct (map fst al)"
  shows "length (AList.delete k al) = (if map_of al k = None then length al else length al - 1)"
proof (cases "map_of al k")
  case None
  then have "k \<notin> fst ` set al" by (simp add: map_of_eq_None_iff)
  then show ?thesis by (simp add: None)
next
  case (Some v)
  then have "(k, v) \<in> set al" by (rule map_of_SomeD)
  then obtain xs ys where al: "al = xs @ (k, v) # ys" by (auto dest: split_list)
  with assms have "k \<notin> fst ` set xs" "k \<notin> fst ` set ys" by auto
  then have "filter (\<lambda>(k', _). k \<noteq> k') xs = xs" "filter (\<lambda>(k', _). k \<noteq> k') ys = ys" by (auto simp: filter_id_conv image_iff)
  then show ?thesis by (simp add: Some al AList.delete_eq)
qed

lemma map_of_filter:
  "distinct (map fst al) \<Longrightarrow> map_of (filter P al) k = (case map_of al k of Some v \<Rightarrow> if P (k, v) then Some v else None | None \<Rightarrow> None)"
  by (induction al) (auto simp: map_of_eq_None_iff split: option.splits)

lemma distinct_filter_keys: "distinct (map fst al) \<Longrightarrow> distinct (map fst (filter P al))"
  by (simp add: distinct_map_filter)

lemma map_of_in_set: "distinct (map fst al) \<Longrightarrow> map_of al k = Some v \<longleftrightarrow> (k, v) \<in> set al"
  by (simp add: map_of_eq_Some_iff)

lemma set_update: "distinct (map fst al) \<Longrightarrow> set (AList.update k v al) = {(k, v)} \<union> {e \<in> set al. fst e \<noteq> k}"
  by (induction al) (auto simp: image_iff)

lemma set_delete: "set (AList.delete k al) = {e \<in> set al. fst e \<noteq> k}"
  by (auto simp: AList.delete_eq)

text \<open>The head of a sort is a least element.\<close>

lemma sort_key_hd:
  assumes "sort_key f xs = y # ys"
  shows "y \<in> set xs" and "x \<in> set xs \<Longrightarrow> f y \<le> f x"
proof -
  have s: "set (y # ys) = set xs" using assms by (metis set_sort)
  then show "y \<in> set xs" by auto
  have "sorted (map f (y # ys))" using assms by (metis sorted_sort_key)
  moreover assume "x \<in> set xs"
  with s have "x \<in> set (y # ys)" by simp
  ultimately show "f y \<le> f x" by auto
qed

lemma sort_key_Nil: "sort_key f xs = [] \<longleftrightarrow> xs = []"
  by (metis length_0_conv length_sort)

end
