(* ===== verification/Outbound_Policy_Facts.thy ===== *)
theory Outbound_Policy_Facts
  imports Outbound_Policy Assoc
begin

text \<open>
  The address policy decides by octets; here it is compared with the list of networks it stands for, over
  every form in which an IPv6 address carries an IPv4 one. A target that passed is pinned to an allowed
  address, a client cannot choose the address it is counted under, and the request limit holds in every
  window.
\<close>

section \<open>Octets and numbers\<close>

lemma u32_less: "unat a < 4294967296" for a :: u32
  using unsigned_less [where ?'a = nat and w = a] by simp

lemma u128_less: "unat a < 340282366920938463463374607431768211456" for a :: "128 word"
  using unsigned_less [where ?'a = nat and w = a] by simp

lemma unat_octet4: "unat (octet4 a i) = unat a div 2 ^ (8 * (3 - i)) mod 256"
  using u32_less [of a] by (simp add: octet4_def unsigned_ucast_eq unsigned_drop_bit_eq drop_bit_eq_div [where 'a = nat] take_bit_eq_mod)

lemma unat_octet6: "unat (octet6 a i) = unat a div 2 ^ (8 * (15 - i)) mod 256"
  using u128_less [of a] by (simp add: octet6_def unsigned_ucast_eq unsigned_drop_bit_eq drop_bit_eq_div [where 'a = nat] take_bit_eq_mod)

lemma unat_segment6: "unat (segment6 a i) = unat a div 2 ^ (16 * (7 - i)) mod 65536"
  using u128_less [of a] by (simp add: segment6_def unsigned_ucast_eq unsigned_drop_bit_eq drop_bit_eq_div [where 'a = nat] take_bit_eq_mod)

lemma unat_v4_new: "unat (v4_new a b c d) = ((unat a * 256 + unat b) * 256 + unat c) * 256 + unat d"
proof -
  have "unat a < 256" "unat b < 256" "unat c < 256" "unat d < 256"
    using unsigned_less [of a] unsigned_less [of b] unsigned_less [of c] unsigned_less [of d] by simp_all
  then show ?thesis
    by (simp add: v4_new_def unat_word_ariths unsigned_ucast_eq take_bit_eq_mod)
qed

definition number :: "nat list \<Rightarrow> nat" where
  "number = foldl (\<lambda>n d. n * 256 + d) 0"

lemma number_snoc: "number (ds @ [d]) = number ds * 256 + d"
  by (simp add: number_def)

lemma div_mod_eq: "d < 256 \<Longrightarrow> x div 256 = k \<and> x mod 256 = d \<longleftrightarrow> x = k * 256 + d" for x k d :: nat
  using div_mult_mod_eq [of x 256] by auto

text \<open>The base-256 digits of a number, most significant first.\<close>

lemma digits_number:
  assumes "x < 256 ^ length ds" and "\<forall>d\<in>set ds. d < 256"
  shows "map (\<lambda>i. x div 256 ^ (length ds - Suc i) mod 256) [0..<length ds] = ds \<longleftrightarrow> x = number ds"
  using assms
proof (induction ds arbitrary: x rule: rev_induct)
  case Nil
  then show ?case by (simp add: number_def)
next
  case (snoc d ds)
  have step: "map (\<lambda>i. x div 256 ^ (length (ds @ [d]) - Suc i) mod 256) [0..<length (ds @ [d])] =
      map (\<lambda>i. x div 256 div 256 ^ (length ds - Suc i) mod 256) [0..<length ds] @ [x mod 256]"
    by (auto simp: Suc_diff_Suc div_mult2_eq [symmetric] power_Suc [symmetric] simp del: power_Suc)
  have "x div 256 < 256 ^ length ds" using snoc.prems(1) by (simp add: div_less_iff_less_mult mult.commute)
  with snoc.IH [of "x div 256"] snoc.prems(2)
  have "map (\<lambda>i. x div 256 div 256 ^ (length ds - Suc i) mod 256) [0..<length ds] = ds \<longleftrightarrow> x div 256 = number ds" by simp
  moreover have "x div 256 = number ds \<and> x mod 256 = d \<longleftrightarrow> x = number ds * 256 + d"
    using snoc.prems(2) by (intro div_mod_eq) simp
  ultimately show ?case by (simp only: step number_snoc append1_eq_conv)
qed

lemma octets6_length_iff:
  assumes "length ds \<le> 16" and "\<forall>d\<in>set ds. d < 256"
  shows "map (octet6 a) [0..<length ds] = map of_nat ds \<longleftrightarrow> unat a div 256 ^ (16 - length ds) = number ds"
proof -
  have "unat a < 256 ^ 16" using unsigned_less [of a] by simp
  then have "unat a div 256 ^ (16 - length ds) < 256 ^ length ds"
    using assms(1) by (simp add: div_less_iff_less_mult power_add [symmetric])
  note digits = digits_number [OF this assms(2)]
  have "map (octet6 a) [0..<length ds] = map of_nat ds \<longleftrightarrow> map (unat \<circ> octet6 a) [0..<length ds] = ds"
  proof
    assume "map (octet6 a) [0..<length ds] = map of_nat ds"
    then have "map unat (map (octet6 a) [0..<length ds]) = map unat (map (of_nat :: nat \<Rightarrow> u8) ds)" by simp
    moreover have "map unat (map (of_nat :: nat \<Rightarrow> u8) ds) = ds"
      using assms(2) by (simp add: map_idI unat_of_nat)
    ultimately show "map (unat \<circ> octet6 a) [0..<length ds] = ds" by simp
  next
    assume "map (unat \<circ> octet6 a) [0..<length ds] = ds"
    then have "map (of_nat :: nat \<Rightarrow> u8) ds = map of_nat (map (unat \<circ> octet6 a) [0..<length ds])" by simp
    then show "map (octet6 a) [0..<length ds] = map of_nat ds" by (simp add: comp_def)
  qed
  also have "map (unat \<circ> octet6 a) [0..<length ds] =
      map (\<lambda>i. unat a div 256 ^ (16 - length ds) div 256 ^ (length ds - Suc i) mod 256) [0..<length ds]"
  proof (rule map_cong [OF refl])
    fix i assume "i \<in> set [0..<length ds]"
    then have "16 - length ds + (length ds - Suc i) = 15 - i" using assms(1) by auto
    then have "(256 :: nat) ^ (16 - length ds) * 256 ^ (length ds - Suc i) = 256 ^ (15 - i)" by (simp add: power_add [symmetric])
    moreover have "(256 :: nat) ^ (15 - i) = 2 ^ (8 * (15 - i))" by (simp add: power_mult)
    ultimately show "(unat \<circ> octet6 a) i = unat a div 256 ^ (16 - length ds) div 256 ^ (length ds - Suc i) mod 256"
      by (simp add: unat_octet6 div_mult2_eq [symmetric])
  qed
  finally show ?thesis using digits by simp
qed

section \<open>The networks the policy stands for\<close>

text \<open>A network as its first address and its prefix length, over addresses of \<open>bits\<close> bits.\<close>

definition in_cidr :: "nat \<Rightarrow> nat \<Rightarrow> nat \<times> nat \<Rightarrow> bool" where
  "in_cidr bits n = (\<lambda>(base, len). n div 2 ^ (bits - len) = base div 2 ^ (bits - len))"

definition dotted :: "nat \<Rightarrow> nat \<Rightarrow> nat" where
  "dotted a b = (a * 256 + b) * 65536"

text \<open>\<open>0/8\<close>, link-local, multicast, reserved.\<close>

definition never_v4 :: "(nat \<times> nat) list" where
  "never_v4 = [(0, 8), (dotted 169 254, 16), (dotted 224 0, 4), (dotted 240 0, 4)]"

text \<open>Loopback, RFC 1918, shared address space.\<close>

definition private_v4 :: "(nat \<times> nat) list" where
  "private_v4 = [(dotted 127 0, 8), (dotted 10 0, 8), (dotted 172 16, 12), (dotted 192 168, 16), (dotted 100 64, 10)]"

text \<open>Unspecified, multicast, link-local; loopback, unique local, site-local.\<close>

definition never_v6 :: "(nat \<times> nat) list" where
  "never_v6 = [(0, 128), (0xff00 * 2 ^ 112, 8), (0xfe80 * 2 ^ 112, 10)]"

definition private_v6 :: "(nat \<times> nat) list" where
  "private_v6 = [(1, 128), (0xfc00 * 2 ^ 112, 7), (0xfec0 * 2 ^ 112, 10)]"

text \<open>The IPv4 address an IPv6 address carries: IPv4-mapped, NAT64 with the well-known prefix, NAT64 with the
  local prefix (bits 64 to 71 are not part of the address), 6to4.\<close>

definition carried_v4 :: "nat \<Rightarrow> nat option" where
  "carried_v4 n =
     (if n div 2 ^ 32 = 0xffff then Some (n mod 2 ^ 32)
      else if n div 2 ^ 32 = 0x64ff9b * 2 ^ 64 then Some (n mod 2 ^ 32)
      else if n div 2 ^ 80 = 0x64ff9b0001 then Some (n div 2 ^ 64 mod 2 ^ 16 * 2 ^ 16 + n div 2 ^ 40 mod 2 ^ 16)
      else if n div 2 ^ 112 = 0x2002 then Some (n div 2 ^ 80 mod 2 ^ 32)
      else None)"

definition allowed_v4 :: "bool \<Rightarrow> nat \<Rightarrow> bool" where
  "allowed_v4 private n \<longleftrightarrow> \<not> list_ex (in_cidr 32 n) (never_v4 @ (if private then [] else private_v4))"

definition allowed_v6 :: "bool \<Rightarrow> nat \<Rightarrow> bool" where
  "allowed_v6 private n =
     (case carried_v4 n of
        Some a \<Rightarrow> allowed_v4 private a
      | None \<Rightarrow> \<not> list_ex (in_cidr 128 n) (never_v6 @ (if private then [] else private_v6)))"

definition allowed_ip :: "OutboundPolicy \<Rightarrow> IpAddr \<Rightarrow> bool" where
  "allowed_ip p ip = (case ip of V4 a \<Rightarrow> allowed_v4 (allow_private p) (unat a) | V6 a \<Rightarrow> allowed_v6 (allow_private p) (unat a))"

section \<open>The octet tests decide the networks\<close>

lemma div_eq_iff_range: "0 < m \<Longrightarrow> x div m = c \<longleftrightarrow> c * m \<le> x \<and> x < c * m + m" for x m c :: nat
  by (metis add.commute div_nat_eqI dividend_less_times_div mult.commute mult_Suc times_div_less_eq_dividend)

text \<open>The two leading octets of an address and the rest.\<close>

lemma octets4:
  obtains h l r where "unat a = h * 16777216 + l * 65536 + r" and "h < 256" and "l < 256" and "r < 65536"
    and "octet4 a 0 = of_nat h" and "octet4 a 1 = of_nat l"
proof
  let ?n = "unat a"
  have "?n div 65536 div 256 = ?n div 16777216" by (simp add: div_mult2_eq [symmetric])
  moreover have "?n div 65536 * 65536 + ?n mod 65536 = ?n" "?n div 65536 div 256 * 256 + ?n div 65536 mod 256 = ?n div 65536"
    by (rule div_mult_mod_eq)+
  ultimately show "?n = ?n div 16777216 * 16777216 + ?n div 65536 mod 256 * 65536 + ?n mod 65536" by linarith
  show h: "?n div 16777216 < 256" using u32_less [of a] by (simp add: div_less_iff_less_mult)
  have "octet4 a 0 = of_nat (unat (octet4 a 0))" "octet4 a 1 = of_nat (unat (octet4 a 1))" by simp_all
  then show "octet4 a 0 = of_nat (?n div 16777216)" "octet4 a 1 = of_nat (?n div 65536 mod 256)"
    using h by (simp_all only: unat_octet4) simp_all
qed simp_all

lemma byte_of_nat:
  assumes "k < 256"
  shows "(of_nat k :: u8) = numeral m \<longleftrightarrow> k = numeral m mod 256" and "(of_nat k :: u8) = 0 \<longleftrightarrow> k = 0"
    and "(of_nat k :: u8) \<le> numeral m \<longleftrightarrow> k \<le> numeral m mod 256" and "numeral m \<le> (of_nat k :: u8) \<longleftrightarrow> numeral m mod 256 \<le> k"
  using assms by (simp_all add: word_unat_eq_iff word_le_nat_alt unat_of_nat take_bit_eq_mod)

lemma digit_pair_eq: "l < m \<Longrightarrow> l' < m \<Longrightarrow> h * m + l = h' * m + l' \<longleftrightarrow> h = h' \<and> l = l'" for h l h' l' m :: nat
proof
  assume b: "l < m" "l' < m" and e: "h * m + l = h' * m + l'"
  have "(h * m + l) div m = h" "(h' * m + l') div m = h'" using b by simp_all
  with e show "h = h' \<and> l = l'" by simp
qed simp

text \<open>Membership in a network that ends inside the first, or inside the second octet.\<close>

lemma in_cidr_octets:
  assumes "n = h * 16777216 + l * 65536 + r" and "h < 256" and "l < 256" and "r < 65536"
  shows "in_cidr 32 n (0, 8) \<longleftrightarrow> h = 0" and "in_cidr 32 n (dotted k 0, 8) \<longleftrightarrow> h = k"
    and "k2 < 256 \<Longrightarrow> in_cidr 32 n (dotted k k2, 16) \<longleftrightarrow> h = k \<and> l = k2"
    and "in_cidr 32 n (dotted k 0, 4) \<longleftrightarrow> h div 16 = k div 16"
    and "k2 < 256 \<Longrightarrow> in_cidr 32 n (dotted k k2, 12) \<longleftrightarrow> h = k \<and> l div 16 = k2 div 16"
    and "k2 < 256 \<Longrightarrow> in_cidr 32 n (dotted k k2, 10) \<longleftrightarrow> h = k \<and> l div 64 = k2 div 64"
proof -
  have d: "n div 16777216 = h" "n div 65536 = h * 256 + l"
    using assms by (simp_all add: div_eq_iff_range)
  have m: "n div 268435456 = n div 16777216 div 16" "n div 1048576 = n div 65536 div 16" "n div 4194304 = n div 65536 div 64"
    by (simp_all add: div_mult2_eq [symmetric])
  show "in_cidr 32 n (0, 8) \<longleftrightarrow> h = 0" "in_cidr 32 n (dotted k 0, 8) \<longleftrightarrow> h = k"
    by (simp_all add: in_cidr_def dotted_def d)
  show "in_cidr 32 n (dotted k 0, 4) \<longleftrightarrow> h div 16 = k div 16"
    by (simp add: in_cidr_def dotted_def d m)
  assume k: "k2 < 256"
  have c: "dotted k k2 div 65536 = k * 256 + k2" by (simp add: dotted_def)
  have q: "(k * 256 + k2) div 16 = k * 16 + k2 div 16" "(k * 256 + k2) div 64 = k * 4 + k2 div 64" for k k2 :: nat
    using div_mult_self3 [of 16 "k * 16" k2] div_mult_self3 [of 64 "k * 4" k2] by (simp_all add: mult.assoc)
  have "l div 16 < 16" "k2 div 16 < 16" "l div 64 < 4" "k2 div 64 < 4"
    using assms(3) k by (simp_all add: div_less_iff_less_mult)
  note pair = digit_pair_eq [OF assms(3) k] digit_pair_eq [OF this(1,2)] digit_pair_eq [OF this(3,4)]
  have "dotted k k2 div 1048576 = dotted k k2 div 65536 div 16" "dotted k k2 div 4194304 = dotted k k2 div 65536 div 64"
    by (simp_all add: div_mult2_eq [symmetric])
  note c = c this
  show "in_cidr 32 n (dotted k k2, 16) \<longleftrightarrow> h = k \<and> l = k2" by (simp add: in_cidr_def d c pair)
  show "in_cidr 32 n (dotted k k2, 12) \<longleftrightarrow> h = k \<and> l div 16 = k2 div 16" by (simp add: in_cidr_def d m c q pair)
  show "in_cidr 32 n (dotted k k2, 10) \<longleftrightarrow> h = k \<and> l div 64 = k2 div 64" by (simp add: in_cidr_def d m c q pair)
qed

lemma v4_never_iff:
  "v4_is_unspecified a \<or> v4_is_multicast a \<or> v4_is_broadcast a \<or> v4_is_link_local a \<or> octet4 a 0 = 0 \<or> 240 \<le> octet4 a 0 \<longleftrightarrow>
   list_ex (in_cidr 32 (unat a)) never_v4"
proof -
  obtain h l r where n: "unat a = h * 16777216 + l * 65536 + r" and b: "h < 256" "l < 256" "r < 65536"
    and o: "octet4 a 0 = of_nat h" "octet4 a 1 = of_nat l" by (rule octets4)
  have "v4_is_unspecified a \<Longrightarrow> h = 0" "v4_is_broadcast a \<Longrightarrow> h = 255"
    using n b by (auto simp: v4_is_unspecified_def v4_is_broadcast_def)
  moreover have "h div 16 = 14 \<longleftrightarrow> 224 \<le> h \<and> h \<le> 239" "h div 16 = 15 \<longleftrightarrow> 240 \<le> h" using b by (auto simp: div_eq_iff_range)
  ultimately show ?thesis
    unfolding v4_is_multicast_def v4_is_link_local_def never_v4_def o
    using b by (auto simp: byte_of_nat in_cidr_octets [OF n b])
qed

lemma bit_nat_less: "bit d n \<Longrightarrow> d < 2 ^ j \<Longrightarrow> n < j" for d :: nat
  by (rule ccontr) (simp add: bit_iff_odd not_less div_less less_le_trans [OF _ power_increasing])

text \<open>Masking the top bits of a value and comparing is comparing the value without its low bits.\<close>

lemma mask_eq_iff:
  fixes x :: "'a::len word"
  assumes "LENGTH('a) = j + k" and "v = push_bit k (mask j)" and "c = push_bit k (of_nat d)" and "d < 2 ^ j"
  shows "x AND v = c \<longleftrightarrow> unat x div 2 ^ k = d"
proof -
  have "x AND v = push_bit k (drop_bit k x)"
    unfolding assms(2) by (rule bit_word_eqI) (use assms(1) in \<open>auto simp: bit_simps\<close>)
  moreover have "push_bit k (drop_bit k x) = c \<longleftrightarrow> drop_bit k x = of_nat d"
  proof
    assume "push_bit k (drop_bit k x) = c"
    then have "drop_bit k (push_bit k (drop_bit k x)) = drop_bit k (push_bit k (of_nat d :: 'a word))" by (simp add: assms(3))
    moreover have "drop_bit k (push_bit k (of_nat d :: 'a word)) = of_nat d"
      by (rule bit_word_eqI)
        (use assms(1,4) in \<open>auto simp: bit_simps bit_of_nat_iff dest: bit_nat_less\<close>)
    moreover have "drop_bit k (push_bit k (drop_bit k x)) = drop_bit k x"
      by (rule bit_word_eqI) (use assms(1) in \<open>auto simp: bit_simps dest: bit_imp_le_length\<close>)
    ultimately show "drop_bit k x = of_nat d" by simp
  qed (simp add: assms(3))
  moreover have "drop_bit k x = of_nat d \<longleftrightarrow> unat x div 2 ^ k = d"
  proof -
    have "d < 2 ^ LENGTH('a)" using assms(1,4) by (simp add: less_le_trans)
    then have "unat (of_nat d :: 'a word) = d" by (simp add: unat_of_nat take_bit_nat_eq_self)
    moreover have "unat (drop_bit k x) = unat x div 2 ^ k"
      by (simp add: unsigned_drop_bit_eq drop_bit_eq_div [where 'a = nat] take_bit_nat_eq_self)
    ultimately show ?thesis by (auto simp: word_unat_eq_iff)
  qed
  ultimately show ?thesis by simp
qed

lemma v4_private_iff: "is_private_v4 a \<longleftrightarrow> list_ex (in_cidr 32 (unat a)) private_v4"
proof -
  obtain h l r where n: "unat a = h * 16777216 + l * 65536 + r" and b: "h < 256" "l < 256" "r < 65536"
    and o: "octet4 a 0 = of_nat h" "octet4 a 1 = of_nat l" by (rule octets4)
  have "(of_nat l :: u8) AND 0xc0 = 64 \<longleftrightarrow> l div 64 = 1"
    using mask_eq_iff [of 2 6 "0xc0 :: u8" 64 1 "of_nat l"] b by (simp add: unat_of_nat take_bit_eq_mod mask_eq_exp_minus_1)
  moreover have "l div 16 = 1 \<longleftrightarrow> 16 \<le> l \<and> l \<le> 31" using b by (auto simp: div_eq_iff_range)
  ultimately show ?thesis
    unfolding is_private_v4_def v4_is_loopback_def v4_is_private_def private_v4_def o
    using b by (auto simp: byte_of_nat in_cidr_octets [OF n b])
qed

section \<open>Carried addresses\<close>

lemma bytes4: "((x div 16777216 mod 256 * 256 + x div 65536 mod 256) * 256 + x div 256 mod 256) * 256 + x mod 256 = x mod 2 ^ 32"
  for x :: nat
proof -
  have "x mod (256 * 16777216) = 256 * (x div 256 mod 16777216) + x mod 256" by (rule mod_mult2_eq)
  moreover have "x div 256 mod (256 * 65536) = 256 * (x div 256 div 256 mod 65536) + x div 256 mod 256" by (rule mod_mult2_eq)
  moreover have "x div 256 div 256 mod (256 * 256) = 256 * (x div 256 div 256 div 256 mod 256) + x div 256 div 256 mod 256"
    by (rule mod_mult2_eq)
  ultimately show ?thesis by (simp add: div_mult2_eq [symmetric])
qed

lemma bytes2: "x div 256 mod 256 * 256 + x mod 256 = x mod 2 ^ 16" for x :: nat
  using mod_mult2_eq [of x 256 256] by simp

lemma octets6_iff:
  "length ds = m \<Longrightarrow> m \<le> 16 \<Longrightarrow> \<forall>d\<in>set ds. d < 256 \<Longrightarrow>
   map (octet6 a) [0..<m] = map of_nat ds \<longleftrightarrow> unat a div 256 ^ (16 - m) = number ds"
  using octets6_length_iff by blast

lemma octet6_shift: "i \<le> j \<Longrightarrow> j \<le> 15 \<Longrightarrow> unat (octet6 a i) = unat a div 2 ^ (8 * (15 - j)) div 2 ^ (8 * (j - i)) mod 256"
proof -
  assume "i \<le> j" "j \<le> 15"
  then have "8 * (15 - i) = 8 * (15 - j) + 8 * (j - i)" by simp
  then show ?thesis by (simp only: unat_octet6 power_add div_mult2_eq)
qed

lemma v4_new_octets:
  "unat (v4_new (octet6 a 12) (octet6 a 13) (octet6 a 14) (octet6 a 15)) = unat a mod 2 ^ 32"
  "unat (v4_new (octet6 a 2) (octet6 a 3) (octet6 a 4) (octet6 a 5)) = unat a div 2 ^ 80 mod 2 ^ 32"
  "unat (v4_new (octet6 a 6) (octet6 a 7) (octet6 a 9) (octet6 a 10)) =
     unat a div 2 ^ 64 mod 2 ^ 16 * 2 ^ 16 + unat a div 2 ^ 40 mod 2 ^ 16"
proof -
  have "unat (octet6 a 12) = unat a div 16777216 mod 256" "unat (octet6 a 13) = unat a div 65536 mod 256"
    "unat (octet6 a 14) = unat a div 256 mod 256" "unat (octet6 a 15) = unat a mod 256" by (simp_all add: unat_octet6)
  then show "unat (v4_new (octet6 a 12) (octet6 a 13) (octet6 a 14) (octet6 a 15)) = unat a mod 2 ^ 32"
    by (simp only: unat_v4_new bytes4)
  have "unat (octet6 a 2) = unat a div 2 ^ 80 div 16777216 mod 256" "unat (octet6 a 3) = unat a div 2 ^ 80 div 65536 mod 256"
    "unat (octet6 a 4) = unat a div 2 ^ 80 div 256 mod 256" "unat (octet6 a 5) = unat a div 2 ^ 80 mod 256"
    using octet6_shift [of 2 5 a] octet6_shift [of 3 5 a] octet6_shift [of 4 5 a] octet6_shift [of 5 5 a] by simp_all
  then show "unat (v4_new (octet6 a 2) (octet6 a 3) (octet6 a 4) (octet6 a 5)) = unat a div 2 ^ 80 mod 2 ^ 32"
    by (simp only: unat_v4_new bytes4)
  have o: "unat (octet6 a 6) = unat a div 2 ^ 64 div 256 mod 256" "unat (octet6 a 7) = unat a div 2 ^ 64 mod 256"
    "unat (octet6 a 9) = unat a div 2 ^ 40 div 256 mod 256" "unat (octet6 a 10) = unat a div 2 ^ 40 mod 256"
    using octet6_shift [of 6 7 a] octet6_shift [of 7 7 a] octet6_shift [of 9 10 a] octet6_shift [of 10 10 a] by simp_all
  have sum: "((x * 256 + y) * 256 + z) * 256 + w = (x * 256 + y) * 2 ^ 16 + (z * 256 + w)" for x y z w :: nat by simp
  show "unat (v4_new (octet6 a 6) (octet6 a 7) (octet6 a 9) (octet6 a 10)) =
     unat a div 2 ^ 64 mod 2 ^ 16 * 2 ^ 16 + unat a div 2 ^ 40 mod 2 ^ 16"
    unfolding unat_v4_new o sum unfolding bytes2 ..
qed

lemma prefix6:
  "map (octet6 a) [0..<12] = [0, 0, 0, 0, 0, 0, 0, 0, 0, 0, 0xff, 0xff] \<longleftrightarrow> unat a div 2 ^ 32 = 0xffff"
  "map (octet6 a) [0..<12] = [0, 0x64, 0xff, 0x9b, 0, 0, 0, 0, 0, 0, 0, 0] \<longleftrightarrow> unat a div 2 ^ 32 = 0x64ff9b * 2 ^ 64"
  "map (octet6 a) [0..<6] = [0, 0x64, 0xff, 0x9b, 0, 1] \<longleftrightarrow> unat a div 2 ^ 80 = 0x64ff9b0001"
  using octets6_iff [of "[0, 0, 0, 0, 0, 0, 0, 0, 0, 0, 0xff, 0xff]" 12 a]
    octets6_iff [of "[0, 0x64, 0xff, 0x9b, 0, 0, 0, 0, 0, 0, 0, 0]" 12 a] octets6_iff [of "[0, 0x64, 0xff, 0x9b, 0, 1]" 6 a]
  by (simp_all add: number_def del: upt_Suc upt.simps upt_rec_numeral)

lemma prefix6_6to4: "octet6 a 0 = 0x20 \<and> octet6 a 1 = 0x02 \<longleftrightarrow> unat a div 2 ^ 112 = 0x2002"
  using octets6_iff [of "[0x20, 0x02]" 2 a] by (simp add: number_def upt_rec numeral_2_eq_2 [symmetric])

lemma canonicalize_carried:
  "canonicalize_ip (V6 a) = (case carried_v4 (unat a) of Some n \<Rightarrow> V4 (of_nat n) | None \<Rightarrow> V6 a)"
proof -
  have self: "v = of_nat (unat v)" for v :: u32 by simp
  have v4: "v4_new (octet6 a 12) (octet6 a 13) (octet6 a 14) (octet6 a 15) = of_nat (unat a mod 2 ^ 32)"
    "v4_new (octet6 a 2) (octet6 a 3) (octet6 a 4) (octet6 a 5) = of_nat (unat a div 2 ^ 80 mod 2 ^ 32)"
    "v4_new (octet6 a 6) (octet6 a 7) (octet6 a 9) (octet6 a 10) =
       of_nat (unat a div 2 ^ 64 mod 2 ^ 16 * 2 ^ 16 + unat a div 2 ^ 40 mod 2 ^ 16)"
    by (subst self, simp only: v4_new_octets)+
  show ?thesis
    by (simp add: canonicalize_ip_def to_canonical_def unwrap_embedded_v4_def Let_def prefix6 prefix6_6to4 [simplified] v4 carried_v4_def
        del: upt_Suc upt.simps upt_rec_numeral of_nat_add of_nat_mult)
qed

lemma carried_less: "carried_v4 m = Some n \<Longrightarrow> n < 2 ^ 32"
proof -
  have "x mod 2 ^ 16 * 2 ^ 16 + y mod 2 ^ 16 < (2 :: nat) ^ 32" for x y :: nat
  proof -
    have "x mod 2 ^ 16 < 65536" "y mod 2 ^ 16 < (65536 :: nat)" by simp_all
    then show ?thesis by simp
  qed
  then show "carried_v4 m = Some n \<Longrightarrow> n < 2 ^ 32" by (auto simp: carried_v4_def split: if_splits)
qed

section \<open>The IPv6 networks\<close>

lemma segment6_top: "unat (segment6 a 0) = unat a div 2 ^ 112"
  using u128_less [of a] by (simp add: unat_segment6 div_less_iff_less_mult)

lemma in_cidr_top:
  assumes "k \<le> 16"
  shows "in_cidr 128 n (c * 2 ^ 112, k) \<longleftrightarrow> n div 2 ^ 112 div 2 ^ (16 - k) = c div 2 ^ (16 - k)"
proof -
  have "128 - k = 112 + (16 - k)" using assms by simp
  then have "(2 :: nat) ^ (128 - k) = 2 ^ 112 * 2 ^ (16 - k)" by (simp only: power_add)
  then show ?thesis by (simp add: in_cidr_def div_mult2_eq)
qed

lemma v6_never_iff:
  "v6_is_unspecified a \<or> v6_is_multicast a \<or> segment6 a 0 AND 0xffc0 = 0xfe80 \<longleftrightarrow> list_ex (in_cidr 128 (unat a)) never_v6"
proof -
  have "segment6 a 0 AND 0xffc0 = 0xfe80 \<longleftrightarrow> unat (segment6 a 0) div 2 ^ 6 = 0x3fa"
    by (rule mask_eq_iff [of 10]) (simp_all add: mask_eq_exp_minus_1)
  moreover have "segment6 a 0 AND 0xff00 = 0xff00 \<longleftrightarrow> unat (segment6 a 0) div 2 ^ 8 = 0xff"
    by (rule mask_eq_iff [of 8]) (simp_all add: mask_eq_exp_minus_1)
  moreover have "v6_is_unspecified a \<longleftrightarrow> in_cidr 128 (unat a) (0, 128)"
    by (simp add: v6_is_unspecified_def in_cidr_def unat_eq_0)
  ultimately show ?thesis
    using in_cidr_top [where k = 8 and n = "unat a" and c = "0xff00"] in_cidr_top [where k = 10 and n = "unat a" and c = "0xfe80"]
    by (simp add: never_v6_def v6_is_multicast_def segment6_top)
qed

lemma v6_private_iff: "is_private_v6 a \<longleftrightarrow> list_ex (in_cidr 128 (unat a)) private_v6"
proof -
  have "segment6 a 0 AND 0xffc0 = 0xfec0 \<longleftrightarrow> unat (segment6 a 0) div 2 ^ 6 = 0x3fb"
    by (rule mask_eq_iff [of 10]) (simp_all add: mask_eq_exp_minus_1)
  moreover have "segment6 a 0 AND 0xfe00 = 0xfc00 \<longleftrightarrow> unat (segment6 a 0) div 2 ^ 9 = 0x7e"
    by (rule mask_eq_iff [of 7]) (simp_all add: mask_eq_exp_minus_1)
  moreover have "v6_is_loopback a \<longleftrightarrow> in_cidr 128 (unat a) (1, 128)"
    by (simp add: v6_is_loopback_def in_cidr_def word_unat_eq_iff)
  ultimately show ?thesis
    using in_cidr_top [where k = 7 and n = "unat a" and c = "0xfc00"] in_cidr_top [where k = 10 and n = "unat a" and c = "0xfec0"]
    by (simp add: private_v6_def is_private_v6_def segment6_top)
qed

lemma check_ip_allowed: "check_ip p ip = Ok () \<longleftrightarrow> allowed_ip p ip"
proof (cases ip)
  case (V4 a)
  then show ?thesis
    by (auto simp: check_ip_def always_forbidden_def is_private_def canonicalize_ip_def to_canonical_def v4_never_iff
        v4_private_iff allowed_ip_def allowed_v4_def)
next
  case (V6 a)
  show ?thesis
  proof (cases "carried_v4 (unat a)")
    case None
    then show ?thesis
      using v6_never_iff v6_private_iff
      by (auto simp: V6 check_ip_def always_forbidden_def is_private_def canonicalize_carried allowed_ip_def allowed_v6_def)
  next
    case (Some n)
    then have "unat (of_nat n :: u32) = n" using carried_less by (simp add: unat_of_nat take_bit_nat_eq_self)
    with Some v4_never_iff [of "of_nat n"] v4_private_iff [of "of_nat n"] show ?thesis
      by (auto simp: V6 check_ip_def always_forbidden_def is_private_def canonicalize_carried allowed_ip_def allowed_v6_def allowed_v4_def)
  qed
qed

section \<open>Targets\<close>

text \<open>C38. The policy accepts exactly the addresses outside the refused networks: by octet tests and
  unwrapping it decides membership in the listed networks, for IPv4 and for IPv6 addresses, and an IPv6
  address that carries an IPv4 one is judged as the address it carries.\<close>

theorem outbound_policy_ranges: "check_ip p ip = Ok () \<longleftrightarrow> allowed_ip p ip"
  by (rule check_ip_allowed)

lemma check_all_Ok: "check_all p as = Ok u \<longleftrightarrow> (\<forall>a\<in>set as. allowed_ip p (fst a))"
proof (induction as)
  case (Cons a as)
  then show ?case by (simp add: rbind_eq_Inr check_ip_allowed)
qed simp

lemma guards_Ok:
  "(if a then Inl e1 else if b then Inl e2 else if c then Inl e3 else if d then Inl e4 else Inr v) = Inr u \<longleftrightarrow>
   \<not> a \<and> \<not> b \<and> \<not> c \<and> \<not> d \<and> v = u"
  by simp

lemma parse_base_url_Ok:
  "parse_base_url url_parse base_url = Ok u \<longleftrightarrow>
     url_parse (str_trim base_url) = Some u \<and> (url_scheme u = ''http'' \<or> url_scheme u = ''https'') \<and> url_username u = [] \<and> url_password u = None \<and>
     url_query u = None \<and> url_fragment u = None \<and> url_host u \<noteq> None"
  unfolding parse_base_url_def rbind_eq_Inr ok_or_eq_Inr guards_Ok by (simp only: de_Morgan_conj de_Morgan_disj not_not) metis

lemma policy_literal_Ok:
  "policy_literal p base ip port = Ok t \<longleftrightarrow>
     allowed_ip p ip \<and> t = \<lparr>ct_base_url = base, ct_pinned_host = None, ct_addr = (ip, port), ct_policy = p\<rparr>"
  by (auto simp: policy_literal_def rbind_eq_Inr check_ip_allowed)

lemma pinned_Ok:
  "rbind r (\<lambda>addrs. rbind (check_all p addrs) (\<lambda>_. case addrs of [] \<Rightarrow> Err Resolve
     | a # _ \<Rightarrow> Ok \<lparr>ct_base_url = base, ct_pinned_host = Some name, ct_addr = a, ct_policy = p\<rparr>)) = Ok t \<longleftrightarrow>
   (\<exists>addrs. r = Ok addrs \<and> (\<forall>a\<in>set addrs. allowed_ip p (fst a)) \<and> addrs \<noteq> [] \<and>
     t = \<lparr>ct_base_url = base, ct_pinned_host = Some name, ct_addr = hd addrs, ct_policy = p\<rparr>)"
proof (cases r)
  case (Inr addrs)
  then show ?thesis by (cases addrs) (auto simp: rbind_eq_Inr check_all_Ok check_ip_allowed)
qed simp

text \<open>C24. A peer-supplied URL that passes the outbound check is a plain http or https URL whose
  connection is pinned to an allowed address, of the literal in the URL or of the lookup's answer, and
  when the host is a name every address the lookup gave is allowed.\<close>

theorem checked_target_allowed:
  assumes "check_base_url_for url_parse resolve_host p base_url purpose = Ok t"
  shows "\<exists>u. url_parse (str_trim base_url) = Some u \<and> url_scheme u \<in> {''http'', ''https''} \<and>
     url_username u = [] \<and> url_password u = None \<and> url_query u = None \<and> url_fragment u = None \<and>
     ct_base_url t = trim_slashes (url_as_str u) \<and> ct_policy t = p \<and> allowed_ip p (fst (ct_addr t)) \<and>
     (case url_host u of
        Some (Ipv4 a) \<Rightarrow> ct_pinned_host t = None \<and> fst (ct_addr t) = V4 a
      | Some (Ipv6 a) \<Rightarrow> ct_pinned_host t = None \<and> fst (ct_addr t) = V6 a
      | Some (Domain name) \<Rightarrow> ct_pinned_host t = Some name \<and>
          (\<exists>port addrs. port_or_known_default u = Some port \<and> resolve_host name port purpose = Ok addrs \<and>
             ct_addr t \<in> set addrs \<and> (\<forall>a\<in>set addrs. allowed_ip p (fst a)))
      | None \<Rightarrow> False)"
proof -
  from assms obtain u where u1: "parse_base_url url_parse base_url = Ok u"
    by (auto simp: check_base_url_for_def rbind_eq_Inr)
  from assms obtain port where u2: "port_or_known_default u = Some port"
    by (auto simp: check_base_url_for_def u1 rbind_eq_Inr)
  from assms obtain host where u3: "url_host u = Some host"
    by (auto simp: check_base_url_for_def u1 u2 rbind_eq_Inr Let_def)
  note t = assms [unfolded check_base_url_for_def, simplified u1 u2 u3 Let_def rbind_simps ok_or_simps]
  show ?thesis
  proof (intro exI [of _ u] conjI)
    show "url_parse (str_trim base_url) = Some u" "url_scheme u \<in> {''http'', ''https''}" "url_username u = []" "url_password u = None"
      "url_query u = None" "url_fragment u = None" using u1 unfolding parse_base_url_Ok by simp_all
    show "allowed_ip p (fst (ct_addr t))" "ct_policy t = p" "ct_base_url t = trim_slashes (url_as_str u)"
      using t by (cases host; auto simp: policy_literal_Ok pinned_Ok)+
    show "case url_host u of
        Some (Ipv4 a) \<Rightarrow> ct_pinned_host t = None \<and> fst (ct_addr t) = V4 a
      | Some (Ipv6 a) \<Rightarrow> ct_pinned_host t = None \<and> fst (ct_addr t) = V6 a
      | Some (Domain name) \<Rightarrow> ct_pinned_host t = Some name \<and>
          (\<exists>port addrs. port_or_known_default u = Some port \<and> resolve_host name port purpose = Ok addrs \<and>
             ct_addr t \<in> set addrs \<and> (\<forall>a\<in>set addrs. allowed_ip p (fst a)))
      | None \<Rightarrow> False"
      using t u2 u3 by (cases host) (auto simp: policy_literal_Ok pinned_Ok)
  qed
qed

definition demo_url :: url where
  "demo_url = \<lparr>url_as_str = ''https://node.example/'', url_scheme = ''https'', url_username = [], url_password = None, url_query = None,
     url_fragment = None, url_host = Some (Domain ''node.example''), port_or_known_default = Some 443\<rparr>"

definition demo_allowed :: IpAddr where "demo_allowed = V4 0x08080808"

lemma demo_allowed: "allowed_ip \<lparr>allow_private = False\<rparr> demo_allowed"
  by (simp add: demo_allowed_def allowed_ip_def allowed_v4_def never_v4_def private_v4_def in_cidr_def dotted_def)

theorem checked_target_allowed_witness:
  "\<exists>t. check_base_url_for (\<lambda>_. Some demo_url) (\<lambda>_ port _. Ok [(demo_allowed, port)]) \<lparr>allow_private = False\<rparr> ''https://node.example'' Untrusted = Ok t \<and>
     ct_base_url t = ''https://node.example'' \<and> allowed_ip (ct_policy t) (fst (ct_addr t))"
proof -
  have "check_ip \<lparr>allow_private = False\<rparr> demo_allowed = Ok ()" using demo_allowed by (simp add: check_ip_allowed)
  then have "check_base_url_for (\<lambda>_. Some demo_url) (\<lambda>_ port _. Ok [(demo_allowed, port)]) \<lparr>allow_private = False\<rparr> ''https://node.example'' Untrusted =
      Ok \<lparr>ct_base_url = ''https://node.example'', ct_pinned_host = Some ''node.example'', ct_addr = (demo_allowed, 443), ct_policy = \<lparr>allow_private = False\<rparr>\<rparr>"
    by (simp add: check_base_url_for_def parse_base_url_def demo_url_def ok_or_def trim_slashes_def rbind_eq_Inr Let_def)
  from checked_target_allowed [OF this] this show ?thesis by (auto simp: demo_url_def trim_slashes_def)
qed

section \<open>Clients behind proxies\<close>

lemma first_untrusted_hops:
  "\<forall>e\<in>set hops. \<exists>ip. parse e = Some ip \<and> trusted ip \<Longrightarrow>
   first_untrusted trusted parse peer (hops @ rest) = first_untrusted trusted parse peer rest"
  by (induction hops) auto

text \<open>A client cannot choose the address it is counted under: when the connection comes from no
  trusted proxy, the headers are ignored; when it does, whatever precedes the entry that the chain of
  trusted proxies appended for it is ignored.\<close>

theorem client_ip_unspoofable:
  "(\<not> proxies_contain N nets (to_canonical addr) \<longrightarrow> client_ip N ip_of sock_of nets addr headers = to_canonical addr) \<and>
   (proxies_contain N nets (to_canonical addr) \<and> None \<notin> set headers \<and>
    concat (map (\<lambda>h. split_char CHR '','' (the h)) headers) = spoofed @ [entry] @ hops \<and>
    parse_forwarded_entry ip_of sock_of entry = Some ip \<and> \<not> proxies_contain N nets ip \<and>
    (\<forall>e\<in>set hops. \<exists>i. parse_forwarded_entry ip_of sock_of e = Some i \<and> proxies_contain N nets i) \<longrightarrow>
    client_ip N ip_of sock_of nets addr headers = to_canonical ip)"
  by (auto simp: client_ip_def Let_def first_untrusted_hops [of "rev hops"])

theorem client_ip_unspoofable_witness:
  "client_ip \<lparr>net_contains = (\<lambda>n ip. n = ip), v6_net = (\<lambda>_. False)\<rparr> (\<lambda>s. if s = ''c'' then Some (V4 7) else None) (\<lambda>_. None)
     [V4 1] (V4 1) [Some ''x,c''] = V4 7"
proof -
  have t: "str_trim ''c'' = ''c''"
    by (simp add: str_trim_def trim_chars_def str_chars_def is_whitespace_def str_of_chars_def utf8_encode_char_def char_of_def bit_Suc_0_iff)
  let ?N = "\<lparr>net_contains = (\<lambda>n ip. n = ip), v6_net = (\<lambda>_. False)\<rparr>"
  let ?p = "\<lambda>s. if s = ''c'' then Some (V4 7) else None"
  have "parse_forwarded_entry ?p (\<lambda>_. None) ''c'' = Some (V4 7)"
    by (simp add: parse_forwarded_entry_def t)
  then show ?thesis
    using client_ip_unspoofable [where N = ?N and nets = "[V4 1]" and addr = "V4 1" and ip_of = ?p and sock_of = "\<lambda>_. None"
        and headers = "[Some ''x,c'']" and spoofed = "[''x'']" and entry = "''c''" and hops = "[]" and ip = "V4 7"]
    by (simp add: proxies_contain_def to_canonical_def)
qed

section \<open>Failed lookups\<close>

lemma forget_oldest_length:
  assumes "distinct (map fst al)" and "al \<noteq> []"
  shows "length (forget_oldest al) < length al" and "distinct (map fst (forget_oldest al))"
proof -
  obtain h u rest where s: "sort_key snd al = (h, u) # rest" using assms(2) by (metis sort_key_Nil neq_Nil_conv surj_pair)
  then have "(h, u) \<in> set al" by (rule sort_key_hd)
  then have "map_of al h = Some u" using assms(1) by (simp add: map_of_in_set)
  with assms(2) show "length (forget_oldest al) < length al" by (simp add: forget_oldest_def s length_delete [OF assms(1)])
  show "distinct (map fst (forget_oldest al))" using assms(1) by (simp add: forget_oldest_def s AList.distinct_delete)
qed

lemma remember_failure_bounded:
  assumes "distinct (map fst failed)" and "length failed \<le> MAX_NEGATIVE_HOSTS"
  shows "distinct (map fst (remember_failure now host failed))" and "length (remember_failure now host failed) \<le> MAX_NEGATIVE_HOSTS"
    and "map_of (remember_failure now host failed) host = Some (now + NEGATIVE_TTL)"
proof -
  define live where "live = filter (\<lambda>(_, until). until > now) failed"
  have d: "distinct (map fst live)" using assms(1) by (simp add: live_def distinct_filter_keys)
  have l: "length live \<le> MAX_NEGATIVE_HOSTS" using assms(2) length_filter_le [of _ failed] unfolding live_def by (rule le_trans [rotated])
  have ne: "length live \<ge> MAX_NEGATIVE_HOSTS \<Longrightarrow> live \<noteq> []" by (auto simp: MAX_NEGATIVE_HOSTS_def)
  note f = forget_oldest_length [OF d ne]
  show "distinct (map fst (remember_failure now host failed))"
    unfolding remember_failure_def Let_def live_def [symmetric] using assms(1) d f(2) by (simp add: distinct_update)
  show "length (remember_failure now host failed) \<le> MAX_NEGATIVE_HOSTS"
    unfolding remember_failure_def Let_def live_def [symmetric] using assms(2) l f(1) by (auto simp: length_update)
  show "map_of (remember_failure now host failed) host = Some (now + NEGATIVE_TTL)"
    by (simp add: remember_failure_def Let_def update_conv')
qed

text \<open>The memory of failed names stays within its bound whatever names callers supply, and a name
  whose lookup failed is refused without a lookup until its time is over.\<close>

theorem failed_lookups_bounded:
  assumes "distinct (map fst failed)" and "length failed \<le> MAX_NEGATIVE_HOSTS"
    and "resolve failed abandoned now done_at flight permit answer name port purpose = (r, failed')"
  shows "distinct (map fst failed') \<and> length failed' \<le> MAX_NEGATIVE_HOSTS \<and>
    (failed' \<noteq> failed \<and> t < done_at + NEGATIVE_TTL \<longrightarrow>
      resolve failed' abandoned' t done_at' flight' permit' answer' name port' purpose' = (Err Resolve, failed'))"
proof (cases "failed' = failed")
  case True
  with assms show ?thesis by simp
next
  case False
  with assms(3) have f: "failed' = remember_failure done_at (to_ascii_lowercase name) failed"
    by (auto simp: resolve_def Let_def split: if_splits option.splits)
  note b = remember_failure_bounded [OF assms(1,2), of done_at "to_ascii_lowercase name"]
  from b(3) have "t < done_at + NEGATIVE_TTL \<Longrightarrow> recently_failed t (to_ascii_lowercase name) failed'"
    by (simp add: recently_failed_def f)
  with b(1,2) show ?thesis by (simp add: f resolve_def Let_def)
qed

theorem failed_lookups_bounded_witness:
  "resolve (snd (resolve [] 0 0 1 None True None ''h'' 80 Untrusted)) 0 5 6 None True (Some [demo_allowed]) ''h'' 80 Critical =
   (Err Resolve, [(''h'', 1 + NEGATIVE_TTL)])"
proof -
  have l: "to_ascii_lowercase ''h'' = ''h''" by (simp add: to_ascii_lowercase_def is_ascii_uppercase_def)
  have "resolve [] 0 0 1 None True None ''h'' 80 Untrusted = (Err Resolve, [(''h'', 1 + NEGATIVE_TTL)])"
    by (simp add: resolve_def recently_failed_def remember_failure_def l MAX_NEGATIVE_HOSTS_def MAX_ABANDONED_LOOKUPS_def Let_def)
  from failed_lookups_bounded [OF _ _ this, of 5 0 6 None True "Some [demo_allowed]" 80 Critical] this show ?thesis
    by (simp add: MAX_NEGATIVE_HOSTS_def NEGATIVE_TTL_def)
qed

section \<open>The request limit\<close>

definition limiter_step :: "IpAddr \<times> time \<Rightarrow> (IpAddr \<times> time) list \<times> IpRateLimiter \<Rightarrow> (IpAddr \<times> time) list \<times> IpRateLimiter" where
  "limiter_step r = (\<lambda>(admitted, l).
     case limiter_check (fst r) (snd r) l of (Err _, l) \<Rightarrow> (admitted, l) | (Ok _, l) \<Rightarrow> (admitted @ [r], l))"

text \<open>The requests a limiter admits from a sequence of requests, and the limiter afterwards.\<close>

definition limiter_run :: "IpRateLimiter \<Rightarrow> (IpAddr \<times> time) list \<Rightarrow> (IpAddr \<times> time) list \<times> IpRateLimiter" where
  "limiter_run l rs = fold limiter_step rs ([], l)"

definition times_of :: "IpAddr \<Rightarrow> (IpAddr \<times> time) list \<Rightarrow> time list" where
  "times_of ip rs = map snd (filter (\<lambda>r. fst r = ip) rs)"

definition in_window :: "duration \<Rightarrow> time \<Rightarrow> time list \<Rightarrow> nat" where
  "in_window w t us = length (filter (\<lambda>u. t - w < u \<and> u \<le> t) us)"

definition hits_of :: "(IpAddr \<times> time list) list \<Rightarrow> IpAddr \<Rightarrow> time list" where
  "hits_of hits ip = (case map_of hits ip of Some q \<Rightarrow> q | None \<Rightarrow> [])"

text \<open>The queue kept for a client is the end of its admitted requests; what is missing is out of the window.\<close>

definition tail_of :: "duration \<Rightarrow> time \<Rightarrow> time list \<Rightarrow> time list \<Rightarrow> bool" where
  "tail_of w now us q \<longleftrightarrow> (\<exists>old. us = old @ q \<and> (\<forall>u\<in>set old. u \<le> now - w))"

definition limiter_inv :: "duration \<Rightarrow> nat \<Rightarrow> time \<Rightarrow> (IpAddr \<times> time) list \<times> IpRateLimiter \<Rightarrow> bool" where
  "limiter_inv w k now = (\<lambda>(admitted, l).
     rl_window l = w \<and> rl_limit l = k \<and> distinct (map fst (rl_hits l)) \<and> length (rl_hits l) \<le> MAX_TRACKED_IPS \<and>
     (\<forall>ip. (\<forall>u\<in>set (times_of ip admitted). u \<le> now) \<and> sorted (times_of ip admitted) \<and>
       tail_of w now (times_of ip admitted) (hits_of (rl_hits l) ip) \<and> (\<forall>t. in_window w t (times_of ip admitted) \<le> k)))"

lemma tail_of_later: "tail_of w now us q \<Longrightarrow> now \<le> now' \<Longrightarrow> tail_of w now' us q"
  by (force simp: tail_of_def)

lemma live_hits_le: "u \<in> set (takeWhile (\<lambda>t. w \<le> max 0 (now - t)) q) \<Longrightarrow> 0 < w \<Longrightarrow> u \<le> now - w"
  for u w now :: int
  by (drule set_takeWhileD) (auto simp: max_def split: if_splits)

lemma tail_of_live:
  assumes "tail_of w now us q" and "0 < w"
  shows "tail_of w now us (live_hits w now q)"
proof -
  let ?P = "\<lambda>t. w \<le> max 0 (now - t)"
  from assms(1) obtain old where "us = old @ q" "\<forall>u\<in>set old. u \<le> now - w" by (auto simp: tail_of_def)
  then have "us = (old @ takeWhile ?P q) @ live_hits w now q \<and> (\<forall>u\<in>set (old @ takeWhile ?P q). u \<le> now - w)"
    using live_hits_le [OF _ assms(2), of _ now q] by (auto simp: live_hits_def)
  then show ?thesis unfolding tail_of_def by blast
qed

text \<open>All requests of the window ending now are in the live queue.\<close>

lemma window_le_live:
  assumes "tail_of w now us q" and "now \<le> t"
  shows "length (filter (\<lambda>u. t - w < u \<and> u \<le> t) us) \<le> length q"
proof -
  from assms(1) obtain old where o: "us = old @ q" "\<forall>u\<in>set old. u \<le> now - w" by (auto simp: tail_of_def)
  have "filter (\<lambda>u. t - w < u \<and> u \<le> t) old = []" using o(2) assms(2) by (force simp: filter_empty_conv)
  then show ?thesis by (simp add: o(1))
qed

lemma live_hits_Nil [simp]: "live_hits w now [] = []"
  by (simp add: live_hits_def)

lemma hits_of_retain:
  assumes "distinct (map fst hits)"
  shows "hits_of (filter (\<lambda>(_, q). q \<noteq> []) (map (\<lambda>(i, q). (i, live_hits w now q)) hits)) ip = live_hits w now (hits_of hits ip)"
    and "distinct (map fst (filter (\<lambda>(_, q). q \<noteq> []) (map (\<lambda>(i, q). (i, live_hits w now q)) hits)))"
proof -
  let ?m = "map (\<lambda>(i, q). (i, live_hits w now q)) hits"
  have k: "map fst ?m = map fst hits" by (induction hits) auto
  then have d: "distinct (map fst ?m)" using assms by (simp only:)
  then show "distinct (map fst (filter (\<lambda>(_, q). q \<noteq> []) ?m))" by (rule distinct_filter_keys)
  have "map_of ?m ip = map_option (live_hits w now) (map_of hits ip)" by (induction hits) auto
  then show "hits_of (filter (\<lambda>(_, q). q \<noteq> []) ?m) ip = live_hits w now (hits_of hits ip)"
    by (simp add: hits_of_def map_of_filter [OF d] split: option.split)
qed

lemma hits_of_update: "hits_of (AList.update ip q hits) i = (if i = ip then q else hits_of hits i)"
  by (simp add: hits_of_def update_conv')

lemma limiter_step_inv:
  assumes inv: "limiter_inv w k before s" and "before \<le> now" and w: "0 < w" and "0 < k"
  shows "limiter_inv w k now (limiter_step (ip, now) s)"
proof -
  obtain admitted l where s: "s = (admitted, l)" by (cases s)
  from inv have rl: "rl_window l = w" "rl_limit l = k" and d: "distinct (map fst (rl_hits l))"
    and sz: "length (rl_hits l) \<le> MAX_TRACKED_IPS"
    and le: "\<forall>u\<in>set (times_of i admitted). u \<le> now" and srt: "sorted (times_of i admitted)"
    and tl: "tail_of w now (times_of i admitted) (hits_of (rl_hits l) i)" and win: "in_window w t (times_of i admitted) \<le> k" for i t
    using \<open>before \<le> now\<close> by (force simp: limiter_inv_def s intro: tail_of_later)+
  define hits where "hits = (if length (rl_hits l) \<ge> MAX_TRACKED_IPS \<and> map_of (rl_hits l) ip = None
    then filter (\<lambda>(_, q). q \<noteq> []) (map (\<lambda>(i, q). (i, live_hits w now q)) (rl_hits l)) else rl_hits l)"
  define q where "q = live_hits w now (hits_of hits ip)"
  have hd: "distinct (map fst hits)" using d hits_of_retain(2) [OF d] by (simp add: hits_def)
  have ht: "tail_of w now (times_of i admitted) (hits_of hits i)" for i
    using tl [of i] tail_of_live [OF tl w] by (simp add: hits_def hits_of_retain [OF d])
  have hl: "length hits \<le> MAX_TRACKED_IPS"
    using sz length_filter_le [of "\<lambda>(_, q). q \<noteq> []" "map (\<lambda>(i, q). (i, live_hits w now q)) (rl_hits l)"]
    unfolding hits_def length_map by (simp split: if_split del: length_filter_map)
  define full where "full \<longleftrightarrow> length hits \<ge> MAX_TRACKED_IPS \<and> map_of (rl_hits l) ip = None"
  have room: "\<not> full \<Longrightarrow> map_of hits ip = None \<Longrightarrow> length hits < MAX_TRACKED_IPS"
    by (auto simp: full_def hits_def split: if_splits)
  have check: "limiter_check ip now l =
     (if full then (Err w, l\<lparr>rl_hits := hits\<rparr>)
      else if length q \<ge> k then (Err (max 0 (w - max 0 (now - hd q))), l\<lparr>rl_hits := AList.update ip q hits\<rparr>)
      else (Ok (), l\<lparr>rl_hits := AList.update ip (q @ [now]) hits\<rparr>))"
    by (simp only: limiter_check_def Let_def rl not_not hits_def [symmetric] full_def q_def hits_of_def)
  have qt: "tail_of w now (times_of ip admitted) q" unfolding q_def by (rule tail_of_live [OF ht w])
  have keep: "limiter_inv w k now (admitted, l\<lparr>rl_hits := h\<rparr>)"
    if "distinct (map fst h)" "length h \<le> MAX_TRACKED_IPS" "\<And>i. tail_of w now (times_of i admitted) (hits_of h i)" for h
    using that rl le srt win by (simp add: limiter_inv_def)
  have upd: "\<not> full \<Longrightarrow> length (AList.update ip x hits) \<le> MAX_TRACKED_IPS" for x
    using hl room by (auto simp: length_update Suc_le_eq)
  have times: "times_of i (admitted @ [(ip, now)]) = times_of i admitted @ (if i = ip then [now] else [])" for i
    by (simp add: times_of_def)
  have admit: "limiter_inv w k now (admitted @ [(ip, now)], l\<lparr>rl_hits := AList.update ip (q @ [now]) hits\<rparr>)"
    if "\<not> full" "length q < k"
  proof -
    have "in_window w t (times_of ip admitted @ [now]) \<le> k" for t
    proof (cases "now \<le> t")
      case True
      from window_le_live [OF qt True] that(2) show ?thesis by (simp add: in_window_def)
    next
      case False
      with win [of t ip] show ?thesis by (simp add: in_window_def)
    qed
    moreover have "tail_of w now (times_of ip admitted @ [now]) (q @ [now])" using qt by (auto simp: tail_of_def)
    ultimately show ?thesis
      using upd [OF that(1)] rl le srt win ht hd by (auto simp: limiter_inv_def times hits_of_update distinct_update sorted_append)
  qed
  show ?thesis
    unfolding limiter_step_def s using admit keep [OF hd hl ht] keep [OF distinct_update [OF hd] upd] ht qt
    by (auto simp: check hits_of_update)
qed

lemma limiter_inv_later: "limiter_inv w k now s \<Longrightarrow> now \<le> now' \<Longrightarrow> limiter_inv w k now' s"
  by (force simp: limiter_inv_def intro: tail_of_later)

lemma limiter_run_inv:
  assumes "0 < w" and "sorted (map snd rs)" and "\<forall>r\<in>set rs. snd r \<le> now"
  shows "limiter_inv w (max k 1) now (limiter_run (limiter_new k w) rs)"
  using assms(2,3)
proof (induction rs arbitrary: now rule: rev_induct)
  case Nil
  show ?case
    by (simp add: limiter_run_def limiter_inv_def limiter_new_def times_of_def tail_of_def hits_of_def in_window_def MAX_TRACKED_IPS_def)
next
  case (snoc r rs)
  then have "limiter_inv w (max k 1) (snd r) (limiter_run (limiter_new k w) rs)" by (simp add: sorted_append)
  then have "limiter_inv w (max k 1) (snd r) (limiter_run (limiter_new k w) (rs @ [r]))"
    using limiter_step_inv [OF _ order_refl \<open>0 < w\<close>, of "max k 1" "snd r" _ "fst r"] by (simp add: limiter_run_def)
  with snoc.prems(2) show ?case by (auto intro: limiter_inv_later)
qed

text \<open>C32. The limit per client holds in every window, wherever the window starts and however clients come
  and go in the bounded table: as long as requests reach the table in the order of their clock readings, which
  \<open>admit\<close> takes before the lock, no client is admitted more often within one window length than the limit, at least 1.\<close>

theorem rate_limit_every_window:
  assumes "0 < w" and "sorted (map snd rs)" and "limiter_run (limiter_new k w) rs = (admitted, l)"
  shows "in_window w t (times_of ip admitted) \<le> max k 1 \<and> length (rl_hits l) \<le> MAX_TRACKED_IPS"
proof -
  have "\<forall>r\<in>set rs. snd r \<le> Max (snd ` set rs)" by simp
  from limiter_run_inv [OF assms(1,2) this, of k] show ?thesis by (simp add: assms(3) limiter_inv_def)
qed

theorem rate_limit_every_window_witness:
  "fst (limiter_run (limiter_new 1 10) [(V4 1, 0), (V4 1, 5), (V4 1, 11)]) = [(V4 1, 0), (V4 1, 11)] \<and>
   in_window 10 9 (times_of (V4 1) (fst (limiter_run (limiter_new 1 10) [(V4 1, 0), (V4 1, 5), (V4 1, 11)]))) \<le> 1"
proof -
  have run: "limiter_run (limiter_new 1 10) [(V4 1, 0), (V4 1, 5), (V4 1, 11)] =
      ([(V4 1, 0), (V4 1, 11)], \<lparr>rl_limit = 1, rl_window = 10, rl_hits = [(V4 1, [11])]\<rparr>)"
    by (simp add: limiter_run_def limiter_new_def limiter_step_def limiter_check_def live_hits_def MAX_TRACKED_IPS_def Let_def)
  show ?thesis unfolding run using rate_limit_every_window [OF _ _ run, of 9 "V4 1"] by simp
qed

end
