(* ===== verification/Peers_Facts.thy ===== *)
theory Peers_Facts
  imports Announce Outbound_Policy_Facts
begin

text \<open>
  What the peer table, the shard registry and the head tracker keep to, operation by operation: sizes, what
  may be evicted, and who may change the identity an entry is bound to. The bounds of the table and of the
  pool of unverified entries are one predicate at two sizes.
\<close>

section \<open>Maps of peers\<close>

definition keyed :: "peer_map \<Rightarrow> bool" where
  "keyed m \<longleftrightarrow> distinct (map fst m) \<and> (\<forall>e\<in>set m. pi_base_url (snd e) = fst e)"

definition peers_ok :: "nat \<Rightarrow> nat \<Rightarrow> peer_map \<Rightarrow> bool" where
  "peers_ok cap p2p_cap m \<longleftrightarrow> keyed m \<and> length m \<le> cap \<and> p2p_count m \<le> p2p_cap"

lemma keyed_update: "keyed m \<Longrightarrow> pi_base_url p = u \<Longrightarrow> keyed (AList.update u p m)"
  by (auto simp: keyed_def distinct_update set_update)

lemma keyed_delete: "keyed m \<Longrightarrow> keyed (AList.delete u m)"
  by (auto simp: keyed_def AList.distinct_delete set_delete)

lemma keyed_filter: "keyed m \<Longrightarrow> keyed (filter P m)"
  by (auto simp: keyed_def distinct_filter_keys)

lemma keyed_lookup: "keyed m \<Longrightarrow> map_of m u = Some p \<Longrightarrow> pi_base_url p = u"
  by (auto simp: keyed_def dest: map_of_SomeD)

lemma p2p_count_update:
  "p2p_count (AList.update u p m) = p2p_count m + (if map_of m u = None \<and> is_p2p_url u then 1 else 0)"
  by (induction m) (auto simp: p2p_count_def)

lemma p2p_count_delete:
  assumes "distinct (map fst m)"
  shows "p2p_count (AList.delete u m) = p2p_count m - (if map_of m u \<noteq> None \<and> is_p2p_url u then 1 else 0)"
  using assms
proof (induction m)
  case (Cons e m)
  obtain k p where e: "e = (k, p)" by (cases e)
  show ?case
  proof (cases "u = k")
    case True
    with Cons.prems e have "u \<notin> fst ` set m" by simp
    then show ?thesis by (simp add: e True p2p_count_def)
  next
    case False
    have "map_of m u \<noteq> None \<and> is_p2p_url u \<Longrightarrow> p2p_count m > 0"
      by (auto simp: p2p_count_def filter_empty_conv dest: map_of_SomeD)
    with Cons False e show ?thesis by (auto simp: p2p_count_def)
  qed
qed (simp add: p2p_count_def)

lemma p2p_count_filter: "p2p_count (filter P m) \<le> p2p_count m"
  by (induction m) (auto simp: p2p_count_def)

lemma peers_ok_update:
  assumes "peers_ok cap p2p_cap m" and "pi_base_url p = u" and "map_of m u \<noteq> None \<or> length m < cap \<and> (is_p2p_url u \<longrightarrow> p2p_count m < p2p_cap)"
  shows "peers_ok cap p2p_cap (AList.update u p m)"
  using assms keyed_update [OF _ assms(2), of m] by (auto simp: peers_ok_def length_update p2p_count_update)

lemma peers_ok_delete: "peers_ok cap p2p_cap m \<Longrightarrow> peers_ok cap p2p_cap (AList.delete u m)"
  using AList.length_delete_le [of u m]
  by (auto simp: peers_ok_def keyed_delete p2p_count_delete [of m] keyed_def [of m])

lemma peers_ok_filter: "peers_ok cap p2p_cap m \<Longrightarrow> peers_ok cap p2p_cap (filter P m)"
  using length_filter_le [of P m] p2p_count_filter [of P m] by (auto simp: peers_ok_def keyed_filter simp del: length_filter_le)

section \<open>Eviction\<close>

text \<open>The entry given up may be evicted, is of the kind asked for, and is the least in eviction order.\<close>

lemma oldest_Some:
  assumes "oldest keep only_p2p m = Some u" and "keyed m"
  shows "\<exists>p. map_of m u = Some p \<and> \<not> keep u \<and> (only_p2p \<longrightarrow> is_p2p_url u) \<and>
    (\<forall>q\<in>set (map snd m). \<not> keep (pi_base_url q) \<and> (only_p2p \<longrightarrow> is_p2p_url (pi_base_url q)) \<longrightarrow> eviction_key p \<le> eviction_key q)"
proof -
  let ?xs = "filter (\<lambda>p. \<not> keep (pi_base_url p) \<and> (only_p2p \<longrightarrow> is_p2p_url (pi_base_url p))) (map snd m)"
  from assms(1) obtain p ps where s: "sort_key eviction_key ?xs = p # ps" and u: "u = pi_base_url p"
    by (auto simp: oldest_def split: list.splits)
  from sort_key_hd [OF s] have p: "p \<in> set ?xs" and min: "\<forall>q\<in>set ?xs. eviction_key p \<le> eviction_key q" by auto
  from p obtain k where "(k, p) \<in> set m" by auto
  moreover with assms(2) u have "k = u" by (auto simp: keyed_def)
  ultimately have "map_of m u = Some p" using assms(2) by (simp add: keyed_def map_of_in_set)
  with p min u show ?thesis by auto
qed

lemma oldest_None:
  "oldest keep only_p2p m = None \<longleftrightarrow> (\<forall>p\<in>set (map snd m). keep (pi_base_url p) \<or> only_p2p \<and> \<not> is_p2p_url (pi_base_url p))"
proof -
  let ?xs = "filter (\<lambda>p. \<not> keep (pi_base_url p) \<and> (only_p2p \<longrightarrow> is_p2p_url (pi_base_url p))) (map snd m)"
  have "oldest keep only_p2p m = None \<longleftrightarrow> ?xs = []"
    using sort_key_Nil [of eviction_key ?xs] by (auto simp: oldest_def split: list.splits)
  then show ?thesis by (auto simp: filter_empty_conv)
qed

text \<open>What a call to make room may do to a map.\<close>

definition evicts :: "(str \<Rightarrow> bool) \<Rightarrow> bool \<Rightarrow> peer_map \<Rightarrow> peer_map \<Rightarrow> bool" where
  "evicts keep only_p2p m m' \<longleftrightarrow>
     (\<forall>u. map_of m' u = map_of m u \<or> map_of m' u = None \<and> \<not> keep u \<and> (only_p2p \<longrightarrow> is_p2p_url u))"

lemma evicts_refl: "evicts keep only_p2p m m"
  by (simp add: evicts_def)

lemma evicts_trans: "evicts keep b m m1 \<Longrightarrow> evicts keep c m1 m2 \<Longrightarrow> (b \<or> c \<longrightarrow> a) \<Longrightarrow> (a \<longrightarrow> b \<and> c) \<Longrightarrow> evicts keep a m m2"
  unfolding evicts_def by metis

lemma make_room_Err: "make_room keep needed only_p2p x = Err e \<Longrightarrow> needed"
  by (auto simp: make_room_def split: prod.splits if_splits)

lemma make_room_Ok:
  assumes "make_room keep needed only_p2p (ev, m) = Ok (ev', m')" and "peers_ok cap q m"
  shows "peers_ok cap q m' \<and> evicts keep only_p2p m m' \<and>
    (needed \<longrightarrow> length m' = length m - 1 \<and> m \<noteq> [] \<and> (only_p2p \<longrightarrow> p2p_count m' = p2p_count m - 1 \<and> 0 < p2p_count m)) \<and>
    (\<not> needed \<longrightarrow> m' = m) \<and> p2p_count m' \<le> p2p_count m"
proof (cases needed)
  case False
  with assms show ?thesis by (auto simp: make_room_def evicts_refl)
next
  case True
  with assms(1) obtain v where v: "oldest keep only_p2p m = Some v" and m': "m' = AList.delete v m"
    by (auto simp: make_room_def split: option.splits)
  have k: "keyed m" and d: "distinct (map fst m)" using assms(2) by (auto simp: peers_ok_def keyed_def)
  from oldest_Some [OF v k] obtain p where p: "map_of m v = Some p" "\<not> keep v" "only_p2p \<longrightarrow> is_p2p_url v" by auto
  have "is_p2p_url v \<Longrightarrow> 0 < p2p_count m"
    using p(1) by (auto simp: p2p_count_def filter_empty_conv dest: map_of_SomeD)
  moreover have "m \<noteq> []" using p(1) by auto
  ultimately show ?thesis
    using p assms(2) True peers_ok_delete
    by (auto simp: m' evicts_def delete_conv' length_delete [OF d] p2p_count_delete [OF d])
qed

section \<open>The bounded insert\<close>

definition demo_peer :: "str \<Rightarrow> time \<Rightarrow> PeerInfo" where
  "demo_peer u seen = \<lparr>pi_base_url = u, pi_roles = [], pi_protocol_version = ''0.1.0'', pi_network_id = ''net'', pi_last_announced_at = seen,
     pi_libp2p_peer_id = None, pi_libp2p_listen_addrs = [], pi_witness = None, pi_connectivity = None, pi_identity_bound = False\<rparr>"

abbreviation table_ok :: "nat \<Rightarrow> PeerTable \<Rightarrow> bool" where
  "table_ok cap t \<equiv> peers_ok cap (min MAX_P2P_ENTRIES cap) (pt_peers t)"

abbreviation pool_ok :: "PeerTable \<Rightarrow> bool" where
  "pool_ok t \<equiv> peers_ok MAX_UNVERIFIED_PEERS MAX_P2P_UNVERIFIED (pt_unverified t)"

lemma carry_url [simp]:
  "pi_base_url (carry_identity old p) = pi_base_url p" "pi_base_url (carry_witness old p) = pi_base_url p"
  "pi_base_url (keep_identity s p) = pi_base_url p" "pi_base_url (put_advert a p) = pi_base_url p"
  "pi_base_url (bind_if_p2p_url_names_peer f i p) = pi_base_url p" "pi_base_url (bind_or_blank r p) = pi_base_url p"
  by (simp_all add: carry_identity_def carry_witness_def keep_identity_def put_advert_def bind_if_p2p_url_names_peer_def
      bind_or_blank_def split: option.split)

text \<open>The entry stored for \<open>info\<close>.\<close>

definition carried :: "PeerTable \<Rightarrow> PeerInfo \<Rightarrow> PeerInfo" where
  "carried t info = (let stored = map_of (pt_peers t) (pi_base_url info) in carry_identity stored (carry_witness stored info))"

lemma carried_url [simp]: "pi_base_url (carried t info) = pi_base_url info"
  by (simp add: carried_def Let_def)

lemma insert_bounded_spec:
  assumes "insert_bounded protected info cap t = (r, t')" and ok: "table_ok cap t"
  shows "table_ok cap t' \<and> pt_unverified t' = pt_unverified t \<and>
    (\<exists>m. evicts protected (is_p2p_url (pi_base_url info)) (pt_peers t) m \<and>
      (case r of
         Ok _ \<Rightarrow> pt_peers t' = AList.update (pi_base_url info) (carried t info) m
       | Err _ \<Rightarrow> pt_peers t' = m \<and> map_of (pt_peers t) (pi_base_url info) = None) \<and>
      (map_of (pt_peers t) (pi_base_url info) \<noteq> None \<longrightarrow> m = pt_peers t))"
proof -
  let ?u = "pi_base_url info" and ?m = "pt_peers t" and ?q = "min MAX_P2P_ENTRIES cap"
  let ?new = "map_of ?m ?u = None" and ?p2p = "is_p2p_url ?u"
  note def = assms(1) [unfolded insert_bounded_def Let_def carried_def [unfolded Let_def, symmetric]]
  show ?thesis
  proof (cases "make_room protected (?new \<and> ?p2p \<and> ?q \<le> p2p_count ?m) True (None, ?m)")
    case (Inl e)
    with def have r: "r = Err e" "t' = t" by auto
    have "?new" using make_room_Err [OF Inl] by simp
    with r ok show ?thesis by (simp add: evicts_refl)
  next
    case (Inr x)
    obtain ev1 m1 where x: "x = (ev1, m1)" by (cases x)
    note room1 = make_room_Ok [OF Inr [unfolded x] ok]
    have ev1: "evicts protected ?p2p ?m m1"
      using room1 by (cases "?new \<and> ?p2p \<and> ?q \<le> p2p_count ?m") (auto simp: evicts_refl)
    show ?thesis
    proof (cases "make_room protected (?new \<and> cap \<le> length m1) ?p2p (ev1, m1)")
      case (Inl e)
      with def Inr x have r: "r = Err e" "t' = t\<lparr>pt_peers := m1\<rparr>" by auto
      have "?new" using make_room_Err [OF Inl] by simp
      with r room1 ev1 show ?thesis by auto
    next
      case (Inr y)
      obtain ev2 m2 where y: "y = (ev2, m2)" by (cases y)
      note room2 = make_room_Ok [OF Inr [unfolded y] conjunct1 [OF room1]]
      have ev: "evicts protected ?p2p ?m m2"
        using ev1 conjunct1 [OF conjunct2 [OF room2]] by (rule evicts_trans) auto
      from def \<open>make_room protected (?new \<and> ?p2p \<and> ?q \<le> p2p_count ?m) True (None, ?m) = Inr x\<close> Inr x y
      have r: "r = Ok ev2" "t' = t\<lparr>pt_peers := AList.update ?u (carried t info) m2\<rparr>" by auto
      have "map_of m2 ?u \<noteq> None \<or> length m2 < cap \<and> (?p2p \<longrightarrow> p2p_count m2 < ?q)"
      proof (cases ?new)
        case True
        have "length m1 \<le> cap" "p2p_count ?m \<le> ?q" using room1 ok by (simp_all add: peers_ok_def)
        moreover have "length m2 < cap"
          using room2 True \<open>length m1 \<le> cap\<close> by (cases "cap \<le> length m1") auto
        moreover have "?p2p \<Longrightarrow> p2p_count m1 < ?q"
          using room1 True \<open>p2p_count ?m \<le> ?q\<close> by (cases "?q \<le> p2p_count ?m") auto
        moreover have "p2p_count m2 \<le> p2p_count m1" using room2 by simp
        ultimately show ?thesis by force
      next
        case False
        with room1 room2 show ?thesis by simp
      qed
      with room2 have "peers_ok cap ?q (AList.update ?u (carried t info) m2)" by (intro peers_ok_update) auto
      with r ev room1 room2 show ?thesis by auto
    qed
  qed
qed

text \<open>C31. The bounded insert into a table within its bounds keeps it within them, evicts only entries that are
  not protected, and for a \<open>p2p://\<close> newcomer only \<open>p2p://\<close> entries; a refusal means nothing was stored under
  the URL, and a known URL is never refused and evicts nothing.\<close>

theorem insert_bounded_evictions:
  assumes "table_ok cap t" and "insert_bounded protected info cap t = (r, t')"
  shows "table_ok cap t' \<and> pt_unverified t' = pt_unverified t \<and>
    (\<forall>u. u \<noteq> pi_base_url info \<longrightarrow> map_of (pt_peers t') u = map_of (pt_peers t) u \<or>
       map_of (pt_peers t') u = None \<and> \<not> protected u \<and> (is_p2p_url (pi_base_url info) \<longrightarrow> is_p2p_url u)) \<and>
    (case r of
       Ok _ \<Rightarrow> map_of (pt_peers t') (pi_base_url info) = Some (carried t info)
     | Err _ \<Rightarrow> map_of (pt_peers t) (pi_base_url info) = None \<and> map_of (pt_peers t') (pi_base_url info) = None) \<and>
    (map_of (pt_peers t) (pi_base_url info) \<noteq> None \<longrightarrow> (\<forall>u. u \<noteq> pi_base_url info \<longrightarrow> map_of (pt_peers t') u = map_of (pt_peers t) u))"
proof -
  note spec = insert_bounded_spec [OF assms(2,1)]
  then obtain m where ev: "evicts protected (is_p2p_url (pi_base_url info)) (pt_peers t) m"
    and r: "case r of Ok _ \<Rightarrow> pt_peers t' = AList.update (pi_base_url info) (carried t info) m
       | Err _ \<Rightarrow> pt_peers t' = m \<and> map_of (pt_peers t) (pi_base_url info) = None"
    and known: "map_of (pt_peers t) (pi_base_url info) \<noteq> None \<longrightarrow> m = pt_peers t" by blast
  have "u \<noteq> pi_base_url info \<Longrightarrow> map_of (pt_peers t') u = map_of m u" for u
    using r by (cases r) (auto simp: update_conv')
  moreover have "case r of Ok _ \<Rightarrow> map_of (pt_peers t') (pi_base_url info) = Some (carried t info)
     | Err _ \<Rightarrow> map_of (pt_peers t) (pi_base_url info) = None \<and> map_of (pt_peers t') (pi_base_url info) = None"
    using r ev [unfolded evicts_def, rule_format, of "pi_base_url info"] by (cases r) (auto simp: update_conv')
  ultimately show ?thesis using spec ev known unfolding evicts_def by simp
qed

theorem insert_bounded_evictions_witness:
  "\<exists>t'. insert_bounded (\<lambda>_. False) (demo_peer ''b'' 2) 1 \<lparr>pt_peers = [(''a'', demo_peer ''a'' 1)], pt_unverified = []\<rparr> = (Ok (Some ''a''), t') \<and>
     table_ok 1 t' \<and> map_of (pt_peers t') ''b'' \<noteq> None"
proof -
  let ?t = "\<lparr>pt_peers = [(''a'', demo_peer ''a'' 1)], pt_unverified = []\<rparr>"
  have "table_ok 1 ?t"
    by (simp add: peers_ok_def keyed_def p2p_count_def is_p2p_url_def demo_peer_def)
  moreover have "insert_bounded (\<lambda>_. False) (demo_peer ''b'' 2) 1 ?t = (Ok (Some ''a''), \<lparr>pt_peers = [(''b'', demo_peer ''b'' 2)], pt_unverified = []\<rparr>)"
    by (simp add: insert_bounded_def Let_def make_room_def oldest_def demo_peer_def carry_identity_def carry_witness_def is_p2p_url_def)
  ultimately show ?thesis using insert_bounded_evictions [of 1 ?t "\<lambda>_. False" "demo_peer ''b'' 2"] by fastforce
qed

lemma insert_unverified_ok:
  assumes "pool_ok t"
  shows "pool_ok (insert_unverified info t)" and "pt_peers (insert_unverified info t) = pt_peers t"
proof -
  let ?u = "pi_base_url info" and ?m = "pt_unverified t"
  define stored where "stored = map_of ?m ?u"
  define new_p2p where "new_p2p \<longleftrightarrow> is_p2p_url ?u \<and> stored = None"
  define m1 where "m1 = (if new_p2p \<and> p2p_count ?m \<ge> MAX_P2P_UNVERIFIED
    then (case oldest (\<lambda>_. False) True ?m of Some victim \<Rightarrow> AList.delete victim ?m | None \<Rightarrow> ?m) else ?m)"
  let ?p = "carry_witness stored info"
  have def: "insert_unverified info t =
     (if map_of m1 ?u = None \<and> length m1 \<ge> MAX_UNVERIFIED_PEERS then
        (case oldest (\<lambda>_. False) new_p2p m1 of
           Some victim \<Rightarrow> t\<lparr>pt_unverified := AList.update ?u ?p (AList.delete victim m1)\<rparr>
         | None \<Rightarrow> t\<lparr>pt_unverified := m1\<rparr>)
      else t\<lparr>pt_unverified := AList.update ?u ?p m1\<rparr>)"
    by (simp only: insert_unverified_def Let_def m1_def new_p2p_def stored_def carry_url)
  show "pt_peers (insert_unverified info t) = pt_peers t" by (simp add: def split: option.split)
  have k: "keyed ?m" and d: "distinct (map fst ?m)" using assms by (auto simp: peers_ok_def keyed_def)
  have m1: "peers_ok MAX_UNVERIFIED_PEERS MAX_P2P_UNVERIFIED m1"
    using assms peers_ok_delete by (auto simp: m1_def split: option.split)
  have p2p: "p2p_count m1 < MAX_P2P_UNVERIFIED" if "new_p2p"
  proof (cases "p2p_count ?m \<ge> MAX_P2P_UNVERIFIED")
    case True
    then have "0 < p2p_count ?m" by (simp add: MAX_P2P_UNVERIFIED_def)
    then obtain e where "e \<in> set ?m" "is_p2p_url (fst e)" by (fastforce simp: p2p_count_def filter_empty_conv)
    with k have "is_p2p_url (pi_base_url (snd e))" "snd e \<in> set (map snd ?m)" by (simp_all add: keyed_def)
    then have "oldest (\<lambda>_. False) True ?m \<noteq> None" unfolding oldest_None by blast
    then obtain v where v: "oldest (\<lambda>_. False) True ?m = Some v" by auto
    from oldest_Some [OF v k] have "map_of ?m v \<noteq> None" "is_p2p_url v" by auto
    with v True that \<open>0 < p2p_count ?m\<close> assms show ?thesis by (simp add: m1_def p2p_count_delete [OF d] peers_ok_def)
  qed (simp add: m1_def that)
  have known: "map_of m1 ?u \<noteq> None" if "stored \<noteq> None"
  proof -
    have "\<not> new_p2p" using that by (simp add: new_p2p_def)
    then show ?thesis using that by (simp add: m1_def stored_def)
  qed
  show "pool_ok (insert_unverified info t)"
  proof (cases "map_of m1 ?u = None \<and> length m1 \<ge> MAX_UNVERIFIED_PEERS")
    case False
    have "peers_ok MAX_UNVERIFIED_PEERS MAX_P2P_UNVERIFIED (AList.update ?u ?p m1)"
      using m1 False p2p known by (intro peers_ok_update) (cases stored; auto simp: new_p2p_def)+
    then show ?thesis unfolding def if_not_P [OF False] by simp
  next
    case True
    show ?thesis
    proof (cases "oldest (\<lambda>_. False) new_p2p m1")
      case None
      with True m1 show ?thesis by (simp add: def)
    next
      case (Some v)
      have k1: "keyed m1" and d1: "distinct (map fst m1)" using m1 by (auto simp: peers_ok_def keyed_def)
      from oldest_Some [OF Some k1] have v: "map_of m1 v \<noteq> None" by auto
      have "length (AList.delete v m1) < MAX_UNVERIFIED_PEERS"
        using v m1 True by (auto simp: length_delete [OF d1] peers_ok_def MAX_UNVERIFIED_PEERS_def)
      moreover have "is_p2p_url ?u \<Longrightarrow> p2p_count (AList.delete v m1) < MAX_P2P_UNVERIFIED"
        using p2p known True by (cases stored) (auto simp: p2p_count_delete [OF d1] new_p2p_def)
      ultimately have "peers_ok MAX_UNVERIFIED_PEERS MAX_P2P_UNVERIFIED (AList.update ?u ?p (AList.delete v m1))"
        using peers_ok_delete [OF m1] by (intro peers_ok_update) auto
      with True Some show ?thesis by (simp add: def)
    qed
  qed
qed

lemma upsert_ok: "table_ok cap t \<Longrightarrow> pt_contains (pi_base_url p) t \<Longrightarrow> table_ok cap (upsert p t) \<and> pt_unverified (upsert p t) = pt_unverified t"
  by (simp add: upsert_def Let_def pt_contains_def peers_ok_update)

lemma upsert_relayed_ok:
  "table_ok cap t \<Longrightarrow> pt_contains (pi_base_url p) t \<Longrightarrow>
   table_ok cap (upsert_relayed p t) \<and> pt_unverified (upsert_relayed p t) = pt_unverified t"
  by (auto simp: upsert_relayed_def Let_def pt_contains_def intro!: peers_ok_update split: option.split)

lemma attach_witness_ok:
  assumes "table_ok cap t" and "pool_ok t"
  shows "table_ok cap (attach_witness u a t) \<and> pool_ok (attach_witness u a t)"
  using assms by (auto simp: attach_witness_def peers_ok_def [THEN iffD1, THEN conjunct1] intro!: peers_ok_update
      dest: keyed_lookup [rotated] split: option.split)

section \<open>Promotion\<close>

lemma take_unverified_ok:
  assumes "take_unverified u t = (r, t')" and "table_ok cap t" and "pool_ok t"
  shows "table_ok cap t' \<and> pool_ok t' \<and> pt_peers t' = pt_peers t \<and> (\<forall>p. r = Some p \<longrightarrow> pi_base_url p = u)"
proof -
  from assms(3) have "keyed (pt_unverified t)" by (simp add: peers_ok_def)
  with assms show ?thesis by (auto simp: take_unverified_def peers_ok_delete dest: keyed_lookup)
qed

lemma insert_bounded_ok:
  assumes "insert_bounded protected info cap t = (r, t')" and "table_ok cap t" and "pool_ok t"
  shows "table_ok cap t' \<and> pool_ok t'"
  using insert_bounded_spec [OF assms(1,2)] assms(3) by simp

lemma promote_url_ok:
  assumes "promote_url f protected i cap u (us, t) = (us', t')" and "table_ok cap t" and "pool_ok t"
  shows "table_ok cap t' \<and> pool_ok t'"
proof -
  obtain r t1 where t1: "take_unverified u t = (r, t1)" by fastforce
  note ok1 = take_unverified_ok [OF t1 assms(2,3)]
  show ?thesis
  proof (cases r)
    case None
    with assms(1) t1 have "t' = t1" by (simp add: promote_url_def)
    with ok1 show ?thesis by blast
  next
    case (Some info)
    obtain r2 t2 where t2: "insert_bounded protected (bind_if_p2p_url_names_peer f i info) cap t1 = (r2, t2)" by fastforce
    from insert_bounded_ok [OF t2] ok1 assms(1) t1 Some t2 show ?thesis
      by (auto simp: promote_url_def split: if_splits sum.splits)
  qed
qed

lemma promote_by_peer_ok:
  assumes "promote_unverified_by_libp2p_peer f protected i cap t = (us, t')" and "table_ok cap t" and "pool_ok t"
  shows "table_ok cap t' \<and> pool_ok t'"
proof -
  have "fold (promote_url f protected i cap) urls (us0, t) = (us', t') \<Longrightarrow> table_ok cap t \<Longrightarrow> pool_ok t \<Longrightarrow> table_ok cap t' \<and> pool_ok t'"
    for urls us0 us' t t'
  proof (induction urls arbitrary: us0 t)
    case (Cons u urls)
    obtain us1 t1 where "promote_url f protected i cap u (us0, t) = (us1, t1)" by fastforce
    with Cons promote_url_ok [OF this] show ?case by simp
  qed simp
  with assms show ?thesis unfolding promote_unverified_by_libp2p_peer_def Let_def by blast
qed

lemma prune_ok:
  "table_ok cap t \<Longrightarrow> table_ok cap (prune_older_than since t)" "pool_ok t \<Longrightarrow> pool_ok (prune_unverified_older_than since t)"
  by (simp_all add: prune_older_than_def prune_unverified_older_than_def peers_ok_filter)

section \<open>The shard registry\<close>

text \<open>The latest and the earliest of a set of times, if there is one.\<close>

definition latest :: "time set \<Rightarrow> time option" where
  "latest T = (if T = {} then None else Some (Max T))"

definition earliest_of :: "time set \<Rightarrow> time option" where
  "earliest_of T = (if T = {} then None else Some (Min T))"

lemma latest_insert: "finite T \<Longrightarrow> latest (insert t T) = Some (case latest T of None \<Rightarrow> t | Some x \<Rightarrow> max x t)"
  by (auto simp: latest_def max.commute)

lemma earliest_insert: "finite T \<Longrightarrow> earliest_of (insert t T) = Some (case earliest_of T of None \<Rightarrow> t | Some x \<Rightarrow> min x t)"
  by (auto simp: earliest_of_def min.commute)

definition seen_url :: "ShardRegistry \<Rightarrow> str \<Rightarrow> str \<Rightarrow> time option" where
  "seen_url r shard u = map_of (urls_of r shard) u"

lemma merge_entry_seen:
  "seen_url (snd (merge_entry e (n, r))) shard u =
     (if shard = sa_shard_id e \<and> u = sa_url e
      then Some (case seen_url r shard u of None \<Rightarrow> sa_last_seen_at e | Some x \<Rightarrow> max x (sa_last_seen_at e)) else seen_url r shard u)"
  by (auto simp: merge_entry_def Let_def seen_url_def urls_of_def update_conv' split: option.split)

lemma merge_entry_first:
  "map_of (sr_first_seen (snd (merge_entry e (n, r)))) shard =
     (if shard = sa_shard_id e
      then Some (case map_of (sr_first_seen r) shard of None \<Rightarrow> sa_last_seen_at e | Some x \<Rightarrow> min x (sa_last_seen_at e))
      else map_of (sr_first_seen r) shard)"
  by (auto simp: merge_entry_def Let_def update_conv' split: option.split)

lemma merge_entry_snd: "snd (merge_entry e (n, r)) = snd (merge_entry e (n', r))"
  by (simp add: merge_entry_def Let_def)

text \<open>Merging any list of announcements keeps the latest time of every URL and the earliest of every shard.\<close>

lemma merge_fold_seen:
  "seen_url (snd (fold merge_entry incoming (n, r))) shard u =
     latest (set_option (seen_url r shard u) \<union> sa_last_seen_at ` {e \<in> set incoming. sa_shard_id e = shard \<and> sa_url e = u})"
proof (induction incoming rule: rev_induct)
  case Nil
  show ?case by (cases "seen_url r shard u") (simp_all add: latest_def)
next
  case (snoc e es)
  obtain n' r' where f: "fold merge_entry es (n, r) = (n', r')" by fastforce
  let ?T = "set_option (seen_url r shard u) \<union> sa_last_seen_at ` {e \<in> set es. sa_shard_id e = shard \<and> sa_url e = u}"
  have T: "{x \<in> set (es @ [e]). sa_shard_id x = shard \<and> sa_url x = u} =
      (if sa_shard_id e = shard \<and> sa_url e = u then insert e {x \<in> set es. sa_shard_id x = shard \<and> sa_url x = u}
       else {x \<in> set es. sa_shard_id x = shard \<and> sa_url x = u})" by auto
  have "finite ?T" by simp
  from latest_insert [OF this] snoc f show ?case unfolding T by (auto simp: merge_entry_seen)
qed

lemma merge_fold_first:
  "map_of (sr_first_seen (snd (fold merge_entry incoming (n, r)))) shard =
     earliest_of (set_option (map_of (sr_first_seen r) shard) \<union> sa_last_seen_at ` {e \<in> set incoming. sa_shard_id e = shard})"
proof (induction incoming rule: rev_induct)
  case Nil
  show ?case by (cases "map_of (sr_first_seen r) shard") (simp_all add: earliest_of_def)
next
  case (snoc e es)
  obtain n' r' where f: "fold merge_entry es (n, r) = (n', r')" by fastforce
  let ?T = "set_option (map_of (sr_first_seen r) shard) \<union> sa_last_seen_at ` {e \<in> set es. sa_shard_id e = shard}"
  have T: "{x \<in> set (es @ [e]). sa_shard_id x = shard} =
      (if sa_shard_id e = shard then insert e {x \<in> set es. sa_shard_id x = shard} else {x \<in> set es. sa_shard_id x = shard})" by auto
  have "finite ?T" by simp
  from earliest_insert [OF this] snoc f show ?case unfolding T by (auto simp: merge_entry_first)
qed

definition shards_ok :: "(str \<times> (str \<times> time) list) list \<Rightarrow> bool" where
  "shards_ok m \<longleftrightarrow> distinct (map fst m) \<and> (\<forall>e\<in>set m. distinct (map fst (snd e)))"

lemma drop_url_http:
  assumes "is_p2p_url (snd (snd e))" and "\<not> is_p2p_url u"
  shows "map_of (case map_of (drop_url e m) shard of Some us \<Rightarrow> us | None \<Rightarrow> []) u =
    map_of (case map_of m shard of Some us \<Rightarrow> us | None \<Rightarrow> []) u"
proof -
  obtain t s v where e: "e = (t, s, v)" by (cases e)
  with assms have "u \<noteq> v" by auto
  then have del: "map_of (AList.delete v us) u = map_of us u" for us :: "(str \<times> time) list" by (simp add: delete_conv')
  show ?thesis
  proof (cases "map_of m s")
    case (Some us)
    have "AList.delete v us = [] \<Longrightarrow> map_of us u = None" using del [of us] by simp
    with Some del show ?thesis by (auto simp: e drop_url_def Let_def update_conv' delete_conv' split: option.split)
  qed (simp add: e drop_url_def)
qed

lemma in_p2p_urls: "(t, s, u) \<in> set (p2p_urls m) \<longleftrightarrow> (\<exists>us. (s, us) \<in> set m \<and> (u, t) \<in> set us) \<and> is_p2p_url u"
  by (force simp: p2p_urls_def)

lemma p2p_urls_are_p2p: "e \<in> set (p2p_urls m) \<Longrightarrow> is_p2p_url (snd (snd e))"
  by (cases e) (simp add: in_p2p_urls)

lemma drop_url_ok: "shards_ok m \<Longrightarrow> shards_ok (drop_url e m)"
  by (cases e)
    (auto simp: drop_url_def Let_def shards_ok_def distinct_update AList.distinct_delete set_update set_delete
      dest: map_of_SomeD split: option.split)

lemma drop_url_p2p:
  assumes "shards_ok m" and "e \<in> set (p2p_urls m)"
  shows "set (p2p_urls (drop_url e m)) = set (p2p_urls m) - {e}"
proof -
  obtain t s v where e: "e = (t, s, v)" by (cases e)
  with assms(2) obtain us where us: "(s, us) \<in> set m" "(v, t) \<in> set us" "is_p2p_url v" by (auto simp: in_p2p_urls)
  with assms(1) have m: "map_of m s = Some us" and d: "distinct (map fst m)" "distinct (map fst us)"
    by (auto simp: shards_ok_def map_of_in_set)
  have m': "set (drop_url e m) = {x \<in> set m. fst x \<noteq> s} \<union> (if AList.delete v us = [] then {} else {(s, AList.delete v us)})"
    by (cases "AList.delete v us = []") (simp_all add: e drop_url_def m Let_def set_delete set_update [OF d(1)] Un_commute)
  have uniq: "(s, us') \<in> set m \<Longrightarrow> us' = us" for us' using eq_key_imp_eq_value [OF d(1) _ us(1)] .
  have one: "x = (v, t)" if "x \<in> set us" "fst x = v" for x
    using eq_key_imp_eq_value [OF d(2) _ us(2), of "snd x"] that by (cases x) simp
  have del: "set (AList.delete v us) = set us - {(v, t)}" unfolding set_delete by (auto dest: one)
  have "x \<in> set (p2p_urls (drop_url e m)) \<longleftrightarrow> x \<in> set (p2p_urls m) - {e}" for x
  proof (cases x)
    case (fields t' s' u')
    show ?thesis
    proof (cases "s' = s")
      case True
      have "x \<in> set (p2p_urls (drop_url e m)) \<longleftrightarrow> (u', t') \<in> set (AList.delete v us) \<and> is_p2p_url u'"
        unfolding fields True in_p2p_urls m' by (cases "AList.delete v us = []") (simp_all only: if_True if_False, auto)
      moreover have "x \<in> set (p2p_urls m) \<longleftrightarrow> (u', t') \<in> set us \<and> is_p2p_url u'"
        unfolding fields True in_p2p_urls using us(1) uniq by metis
      ultimately show ?thesis by (auto simp: del fields True e)
    next
      case False
      then have "(s', us') \<in> set (drop_url e m) \<longleftrightarrow> (s', us') \<in> set m" for us' by (auto simp: m')
      with False show ?thesis by (simp add: fields in_p2p_urls) (simp add: e)
    qed
  qed
  then show ?thesis by blast
qed

lemma distinct_p2p_urls: "shards_ok m \<Longrightarrow> distinct (p2p_urls m)"
proof (induction m)
  case (Cons x m)
  obtain s us where x: "x = (s, us)" by (cases x)
  have "distinct (map fst (filter (\<lambda>(u, _). is_p2p_url u) us))" using Cons.prems by (simp add: shards_ok_def x distinct_filter_keys)
  then have "distinct (map (\<lambda>(u, t). (t, s, u)) (filter (\<lambda>(u, _). is_p2p_url u) us))"
    by (auto simp: distinct_map inj_on_def)
  moreover have "shards_ok m" using Cons.prems by (simp add: shards_ok_def)
  moreover have "s \<notin> fst ` set m" using Cons.prems by (simp add: shards_ok_def x)
  then have "(t, s, u) \<notin> set (p2p_urls m)" for t u by (force simp: in_p2p_urls)
  moreover have "p2p_urls (x # m) = map (\<lambda>(u, t). (t, s, u)) (filter (\<lambda>(u, _). is_p2p_url u) us) @ p2p_urls m"
    by (simp add: x p2p_urls_def)
  ultimately show ?case using Cons.IH by auto
qed (simp add: p2p_urls_def)

lemma drop_urls:
  assumes "shards_ok m" and "distinct es" and "set es \<subseteq> set (p2p_urls m)"
  shows "shards_ok (fold drop_url es m) \<and> set (p2p_urls (fold drop_url es m)) = set (p2p_urls m) - set es"
  using assms
proof (induction es arbitrary: m)
  case (Cons e es)
  then have "set es \<subseteq> set (p2p_urls (drop_url e m))" by (auto simp: drop_url_p2p)
  with Cons drop_url_ok [OF Cons.prems(1), of e] drop_url_p2p [OF Cons.prems(1), of e] show ?case by auto
qed simp

lemma merge_entry_ok: "shards_ok (sr_shards r) \<Longrightarrow> shards_ok (sr_shards (snd (merge_entry e (n, r))))"
  by (auto simp: merge_entry_def Let_def shards_ok_def distinct_update set_update urls_of_def dest: map_of_SomeD split: option.split)

lemma merge_fold_ok: "shards_ok (sr_shards r) \<Longrightarrow> shards_ok (sr_shards (snd (fold merge_entry incoming (n, r))))"
proof (induction incoming arbitrary: n r)
  case (Cons e es)
  from merge_entry_ok [OF Cons.prems, of e n] Cons.IH [of "snd (merge_entry e (n, r))" "fst (merge_entry e (n, r))"] show ?case by simp
qed simp

text \<open>Shard gossip converges: after a merge every http(s) URL of a shard carries the latest time any
  announcement or the registry had for it, and every shard the earliest time, so the outcome does not
  depend on the order of the announcements or on repetitions.\<close>

theorem shard_merge_converges:
  assumes "\<not> is_p2p_url u"
  shows "map_of (urls_of (snd (merge_shards incoming r)) shard) u =
      latest (set_option (map_of (urls_of r shard) u) \<union> sa_last_seen_at ` {e \<in> set incoming. sa_shard_id e = shard \<and> sa_url e = u}) \<and>
    first_seen_at shard (snd (merge_shards incoming r)) =
      earliest_of (set_option (first_seen_at shard r) \<union> sa_last_seen_at ` {e \<in> set incoming. sa_shard_id e = shard})"
proof -
  obtain n r1 where f: "fold merge_entry incoming ([], r) = (n, r1)" by fastforce
  let ?es = "take (length (p2p_urls (sr_shards r1)) - MAX_P2P_SHARD_URLS_TOTAL) (sort (p2p_urls (sr_shards r1)))"
  have es: "\<forall>e\<in>set ?es. is_p2p_url (snd (snd e))" by (auto dest!: in_set_takeD p2p_urls_are_p2p)
  have drop: "map_of (case map_of (fold drop_url es m) shard of Some us \<Rightarrow> us | None \<Rightarrow> []) u =
      map_of (case map_of m shard of Some us \<Rightarrow> us | None \<Rightarrow> []) u" if "\<forall>e\<in>set es. is_p2p_url (snd (snd e))" for es m
    using that
  proof (induction es arbitrary: m)
    case (Cons e es)
    then show ?case using drop_url_http [OF _ assms, of e m shard] by simp
  qed simp
  have "map_of (urls_of (snd (merge_shards incoming r)) shard) u = map_of (urls_of r1 shard) u"
    using drop [OF es, of "sr_shards r1"] by (simp add: merge_shards_def f Let_def urls_of_def)
  moreover have "first_seen_at shard (snd (merge_shards incoming r)) = first_seen_at shard r1"
    by (simp add: merge_shards_def f Let_def first_seen_at_def)
  ultimately show ?thesis
    using merge_fold_seen [of incoming "[]" r shard u] merge_fold_first [of incoming "[]" r shard]
    by (simp add: f seen_url_def first_seen_at_def)
qed

theorem shard_merge_converges_witness:
  "map_of (urls_of (snd (merge_shards [\<lparr>sa_shard_id = ''s'', sa_url = ''u'', sa_last_seen_at = 3\<rparr>] \<lparr>sr_shards = [], sr_first_seen = []\<rparr>)) ''s'') ''u'' = Some 3"
proof -
  have "\<not> is_p2p_url ''u''" by (simp add: is_p2p_url_def)
  from shard_merge_converges [OF this, of "[\<lparr>sa_shard_id = ''s'', sa_url = ''u'', sa_last_seen_at = 3\<rparr>]" "\<lparr>sr_shards = [], sr_first_seen = []\<rparr>" "''s''"]
  show ?thesis by (simp add: urls_of_def latest_def)
qed

lemma merge_shards_bounded:
  assumes "shards_ok (sr_shards r)"
  shows "shards_ok (sr_shards (snd (merge_shards incoming r)))"
    and "length (p2p_urls (sr_shards (snd (merge_shards incoming r)))) \<le> MAX_P2P_SHARD_URLS_TOTAL"
proof -
  obtain n r1 where f: "fold merge_entry incoming ([], r) = (n, r1)" by fastforce
  let ?p = "p2p_urls (sr_shards r1)"
  let ?es = "take (length ?p - MAX_P2P_SHARD_URLS_TOTAL) (sort ?p)"
  have ok: "shards_ok (sr_shards r1)" using merge_fold_ok [OF assms, of incoming "[]"] by (simp add: f)
  have es: "distinct ?es" "set ?es \<subseteq> set ?p"
    using distinct_p2p_urls [OF ok] by (auto dest: in_set_takeD)
  note d = drop_urls [OF ok es]
  have "card (set ?p - set ?es) = length ?p - length ?es"
    using es distinct_p2p_urls [OF ok] by (simp add: card_Diff_subset distinct_card del: length_take)
  with d distinct_p2p_urls [OF conjunct1 [OF d]] have "length (p2p_urls (fold drop_url ?es (sr_shards r1))) = length ?p - length ?es"
    by (metis distinct_card)
  with d ok show "shards_ok (sr_shards (snd (merge_shards incoming r)))"
    "length (p2p_urls (sr_shards (snd (merge_shards incoming r)))) \<le> MAX_P2P_SHARD_URLS_TOTAL"
    by (auto simp: merge_shards_def f Let_def)
qed

section \<open>Head gossip\<close>

definition heads_ok :: "HeadGossipTracker \<Rightarrow> bool" where
  "heads_ok g \<longleftrightarrow> distinct (map fst (hg_seen g)) \<and> length (hg_seen g) \<le> MAX_TRACKED_HEAD_SUMMARIES"

lemma evict_if_full_ok:
  assumes "distinct (map fst seen)" and "length seen \<le> MAX_TRACKED_HEAD_SUMMARIES"
  shows "distinct (map fst (evict_if_full k seen)) \<and>
    (map_of (evict_if_full k seen) k = None \<longrightarrow> length (evict_if_full k seen) < MAX_TRACKED_HEAD_SUMMARIES) \<and>
    length (evict_if_full k seen) \<le> MAX_TRACKED_HEAD_SUMMARIES"
proof (cases "map_of seen k \<noteq> None \<or> length seen < MAX_TRACKED_HEAD_SUMMARIES")
  case True
  with assms show ?thesis by (auto simp: evict_if_full_def)
next
  case False
  then have "seen \<noteq> []" by (auto simp: MAX_TRACKED_HEAD_SUMMARIES_def)
  then obtain v t rest where s: "sort_key (\<lambda>((shard, n, root), t). (th_last_seen_at t, shard, sint n, root)) seen = (v, t) # rest"
    by (metis sort_key_Nil neq_Nil_conv surj_pair)
  then have "(v, t) \<in> set seen" by (rule sort_key_hd)
  then have "map_of seen v \<noteq> None" using assms(1) by (simp add: map_of_in_set)
  with False assms \<open>seen \<noteq> []\<close> have "length (AList.delete v seen) < MAX_TRACKED_HEAD_SUMMARIES"
    by (simp add: length_delete MAX_TRACKED_HEAD_SUMMARIES_def)
  with False assms show ?thesis by (simp add: evict_if_full_def s AList.distinct_delete)
qed

lemma merge_summary_ok:
  assumes "heads_ok g" and "merge_summary C from now s (out, g) = (out', g')"
  shows "heads_ok g' \<and> hg_equivocating_shards g' = hg_equivocating_shards g"
proof (cases "head_summary_well_formed C s")
  case True
  let ?k = "(hs_shard_id s, hs_tree_size s, hs_root_hash s)"
  from evict_if_full_ok [of "hg_seen g" ?k] assms(1) assms(2) True show ?thesis
    by (cases out) (auto simp: merge_summary_def heads_ok_def Let_def distinct_update length_update)
qed (use assms in \<open>cases out; auto simp: merge_summary_def\<close>)

lemma merge_heads_ok:
  assumes "heads_ok g" and "merge_heads C from incoming now g = (out, g')"
  shows "heads_ok g' \<and> hg_equivocating_shards g' = hg_equivocating_shards g"
proof -
  have "fold (merge_summary C from now) ss (o0, g) = (o1, g') \<Longrightarrow> heads_ok g \<Longrightarrow> heads_ok g' \<and> hg_equivocating_shards g' = hg_equivocating_shards g"
    for ss o0 o1 g g'
  proof (induction ss arbitrary: o0 g)
    case (Cons s ss)
    obtain o1' g1 where "merge_summary C from now s (o0, g) = (o1', g1)" by fastforce
    with Cons merge_summary_ok [OF Cons.prems(2) this] show ?case by simp
  qed simp
  with assms show ?thesis unfolding merge_heads_def by blast
qed

definition room_for :: "HeadGossipTracker \<Rightarrow> nat \<Rightarrow> bool" where
  "room_for g n \<longleftrightarrow> length (hg_seen g) + n \<le> MAX_TRACKED_HEAD_SUMMARIES"

lemma merge_summary_room:
  assumes "room_for g (Suc n)" and "merge_summary C from now s ((a, c, r), g) = ((a', c', r'), g')"
  shows "room_for g' n" and "map_of (hg_seen g) k \<noteq> None \<Longrightarrow> map_of (hg_seen g') k \<noteq> None" and "set c \<subseteq> set c'"
proof -
  have "evict_if_full k (hg_seen g) = hg_seen g" for k
    using assms(1) by (simp add: evict_if_full_def room_for_def)
  then show "room_for g' n" "map_of (hg_seen g) k \<noteq> None \<Longrightarrow> map_of (hg_seen g') k \<noteq> None" "set c \<subseteq> set c'"
    using assms by (auto simp: merge_summary_def Let_def room_for_def length_update update_conv' split: if_splits)
qed

lemma merge_summary_conflict:
  assumes "room_for g (Suc n)" and "merge_summary C from now s ((a, c, r), g) = ((a', c', r'), g')"
    and "head_summary_well_formed C s" and "hs_shard_id s \<notin> hg_equivocating_shards g"
    and "map_of (hg_seen g) (hs_shard_id s, hs_tree_size s, root) \<noteq> None" and "root \<noteq> hs_root_hash s"
  shows "\<exists>x\<in>set c'. hc_shard_id x = hs_shard_id s \<and> hc_tree_size x = hs_tree_size s \<and> hc_root_hash_a x = hs_root_hash s \<and>
    hc_source_a x = from \<and> hc_root_hash_b x = root"
proof -
  let ?k = "(hs_shard_id s, hs_tree_size s, hs_root_hash s)"
  let ?seen = "AList.update ?k \<lparr>th_summary = s, th_reported_by = from, th_last_seen_at = now\<rparr> (hg_seen g)"
  have "evict_if_full ?k (hg_seen g) = hg_seen g" using assms(1) by (simp add: evict_if_full_def room_for_def)
  then have c': "c' = c @ conflicts_with from s ?seen" using assms(2-4) by (auto simp: merge_summary_def Let_def)
  from assms(5) obtain t where "map_of (hg_seen g) (hs_shard_id s, hs_tree_size s, root) = Some t" by blast
  then have "map_of ?seen (hs_shard_id s, hs_tree_size s, root) = Some t" using assms(6) by (simp add: update_conv')
  then have "((hs_shard_id s, hs_tree_size s, root), t) \<in> set ?seen" by (rule map_of_SomeD)
  with assms(6) show ?thesis by (force simp: c' conflicts_with_def image_iff)
qed

lemma merge_summaries_room:
  assumes "fold (merge_summary C from now) ss ((a, c, r), g) = ((a', c', r'), g')" and "room_for g (length ss + n)" and "heads_ok g"
  shows "room_for g' n \<and> (\<forall>k. map_of (hg_seen g) k \<noteq> None \<longrightarrow> map_of (hg_seen g') k \<noteq> None) \<and> set c \<subseteq> set c' \<and>
    hg_equivocating_shards g' = hg_equivocating_shards g \<and> heads_ok g'"
  using assms
proof (induction ss arbitrary: a c r g)
  case (Cons s ss)
  obtain a1 c1 r1 g1 where 1: "merge_summary C from now s ((a, c, r), g) = ((a1, c1, r1), g1)" by (metis surj_pair)
  have "room_for g (Suc (length ss + n))" using Cons.prems(2) by simp
  note m = merge_summary_room [OF this 1] merge_summary_ok [OF Cons.prems(3) 1]
  from Cons.IH [of a1 c1 r1 g1] Cons.prems(1) 1 m show ?case by fastforce
qed simp

text \<open>A fork in gossip is noticed: when a head of the same shard and size with another root is tracked,
  the shard is not already marked and the tracker has room, an exchange with a well-formed summary among
  the first five entries reports the conflict of the two roots.\<close>

theorem head_conflict_reported:
  assumes "heads_ok g" and "room_for g (length incoming)" and "s \<in> set (take MAX_HEAD_SUMMARIES_PER_EXCHANGE incoming)"
    and "head_summary_well_formed C s" and "\<not> is_equivocating g (hs_shard_id s)"
    and "map_of (hg_seen g) (hs_shard_id s, hs_tree_size s, root) \<noteq> None" and "root \<noteq> hs_root_hash s"
    and "merge_heads C from incoming now g = ((admitted, conflicts, rejected), g')"
  shows "\<exists>c\<in>set conflicts. hc_shard_id c = hs_shard_id s \<and> hc_tree_size c = hs_tree_size s \<and> hc_root_hash_a c = hs_root_hash s \<and>
    hc_source_a c = from \<and> hc_root_hash_b c = root"
proof -
  let ?f = "fold (merge_summary C from now)"
  from assms(3) obtain xs ys where ss: "take MAX_HEAD_SUMMARIES_PER_EXCHANGE incoming = xs @ s # ys" by (auto dest: split_list)
  have len: "length xs + Suc (length ys) \<le> length incoming" using arg_cong [OF ss, of length] by simp
  obtain a1 c1 r1 g1 where 1: "?f xs (([], [], length incoming - MAX_HEAD_SUMMARIES_PER_EXCHANGE), g) = ((a1, c1, r1), g1)" by (metis surj_pair)
  obtain a2 c2 r2 g2 where 2: "merge_summary C from now s ((a1, c1, r1), g1) = ((a2, c2, r2), g2)" by (metis surj_pair)
  have 3: "?f ys ((a2, c2, r2), g2) = ((admitted, conflicts, rejected), g')"
    using assms(8) by (simp add: merge_heads_def ss 1 2)
  have "room_for g (length xs + Suc (length ys))" using assms(2) len by (simp add: room_for_def)
  note m1 = merge_summaries_room [OF 1 this assms(1)]
  have "\<exists>c\<in>set c2. hc_shard_id c = hs_shard_id s \<and> hc_tree_size c = hs_tree_size s \<and> hc_root_hash_a c = hs_root_hash s \<and>
      hc_source_a c = from \<and> hc_root_hash_b c = root"
    using m1 assms(4-7) by (intro merge_summary_conflict [OF _ 2, of "length ys"]) (auto simp: is_equivocating_def)
  moreover have "room_for g2 (length ys + 0)" using merge_summary_room(1) [OF _ 2, of "length ys"] m1 by simp
  then have "set c2 \<subseteq> set conflicts" using merge_summaries_room [OF 3] merge_summary_ok [OF _ 2] m1 by blast
  ultimately show ?thesis by blast
qed

definition demo_summary :: "u8 \<Rightarrow> HeadSummary" where
  "demo_summary b = \<lparr>hs_shard_id = ''core'', hs_tree_size = 3, hs_root_hash = demo_root b, hs_cosignature_count = 1\<rparr>"

definition demo_tracker :: HeadGossipTracker where
  "demo_tracker = \<lparr>hg_seen = [((''core'', 3, demo_root 7), \<lparr>th_summary = demo_summary 7, th_reported_by = ''p'', th_last_seen_at = 1\<rparr>)],
     hg_equivocating_shards = {}\<rparr>"

theorem head_conflict_reported_witness:
  "\<exists>c\<in>set (fst (snd (fst (merge_heads demo_crates ''q'' [demo_summary 8] 2 demo_tracker)))).
     hc_root_hash_a c = demo_root 8 \<and> hc_root_hash_b c = demo_root 7"
proof -
  obtain a c r g' where m: "merge_heads demo_crates ''q'' [demo_summary 8] 2 demo_tracker = ((a, c, r), g')" by (metis surj_pair)
  have "\<exists>x\<in>set c. hc_shard_id x = hs_shard_id (demo_summary 8) \<and> hc_tree_size x = hs_tree_size (demo_summary 8) \<and>
      hc_root_hash_a x = hs_root_hash (demo_summary 8) \<and> hc_source_a x = ''q'' \<and> hc_root_hash_b x = demo_root 7"
  proof (rule head_conflict_reported [OF _ _ _ _ _ _ _ m])
    show "heads_ok demo_tracker" "room_for demo_tracker (length [demo_summary 8])"
      by (simp_all add: heads_ok_def room_for_def demo_tracker_def MAX_TRACKED_HEAD_SUMMARIES_def)
    show "demo_summary 8 \<in> set (take MAX_HEAD_SUMMARIES_PER_EXCHANGE [demo_summary 8])"
      by (simp add: MAX_HEAD_SUMMARIES_PER_EXCHANGE_def)
    show "head_summary_well_formed demo_crates (demo_summary 8)"
      by (simp add: head_summary_well_formed_def demo_summary_def demo_root_def hex_roundtrip [OF demo_hex_ok] shard_id_ok_def MAX_SHARD_ID_LEN_def)
    show "\<not> is_equivocating demo_tracker (hs_shard_id (demo_summary 8))" by (simp add: is_equivocating_def demo_tracker_def)
    show "map_of (hg_seen demo_tracker) (hs_shard_id (demo_summary 8), hs_tree_size (demo_summary 8), demo_root 7) \<noteq> None"
      by (simp add: demo_tracker_def demo_summary_def)
    show "demo_root 7 \<noteq> hs_root_hash (demo_summary 8)"
      by (simp add: demo_summary_def demo_root_def hex_encode_inject [OF demo_hex_ok])
  qed
  moreover have "hs_root_hash (demo_summary 8) = demo_root 8" by (simp add: demo_summary_def)
  ultimately show ?thesis by (auto simp: m)
qed

end
