(* ===== verification/Announce_Facts.thy ===== *)
theory Announce_Facts
  imports Peers_Facts
begin

text \<open>
  The announce exchange as a step relation on the node's view of its peers, in the writes its handlers make: the
  view stays within its bounds whatever the network sends, gossip neither adds to the table nor touches a bound identity, and
  an identity changes only on the word of the URL's own server or of an authenticated stream.
\<close>

definition demo_net :: net where
  "demo_net = \<lparr>net_url = (\<lambda>_. Some demo_url), net_resolve = (\<lambda>_ port _. Ok [(demo_allowed, port)]), net_peer_id = Some,
     net_multiaddr = (\<lambda>a. if a = ''a'' then Some ([Ip4 0x08080808, Tcp 4001], ''a'') else None), net_version = (\<lambda>_. Some True),
     net_status = (\<lambda>_. Some (Some ''net'', Some ''id'')), net_slot = True, net_late = (\<lambda>_. False), net_protected = (\<lambda>_. False),
     net_round_trips = (\<lambda>_. 0)\<rparr>"

section \<open>Addresses kept for a peer\<close>

definition kept_ok :: "net \<Rightarrow> OutboundPolicy \<Rightarrow> str \<Rightarrow> str list \<Rightarrow> bool" where
  "kept_ok N pol i kept \<longleftrightarrow> length kept \<le> MAX_LIBP2P_ADDRS_PER_PEER \<and> distinct kept \<and>
     (\<forall>a\<in>set kept. \<exists>addr parts. net_multiaddr N addr = Some (parts, a) \<and> addr_acceptable pol parts i)"

lemma sanitize_fold: "kept_ok N pol i kept \<Longrightarrow> kept_ok N pol i (fold (sanitize_step N pol i) addrs kept)"
proof (induction addrs arbitrary: kept)
  case (Cons addr addrs)
  have "kept_ok N pol i (sanitize_step N pol i addr kept)"
    using Cons.prems by (auto simp: kept_ok_def sanitize_step_def split: option.split)
  then show ?case using Cons.IH by simp
qed simp

text \<open>Where dialing an accepted address connects to: the first two parts.\<close>

definition dials :: "Protocol list \<Rightarrow> (IpAddr \<times> u16) option" where
  "dials parts = (case parts of Ip4 a # Tcp port # _ \<Rightarrow> Some (V4 a, port) | Ip6 a # Tcp port # _ \<Rightarrow> Some (V6 a, port) | _ \<Rightarrow> None)"

lemma direct_part_dials: "direct_part_ok pol parts expected req \<Longrightarrow> \<exists>ip port. dials parts = Some (ip, port) \<and> allowed_ip pol ip \<and> port \<noteq> 0"
  by (auto simp: direct_part_ok_def dials_def check_ip_allowed split: list.splits Protocol.splits)

lemma acceptable_dials:
  assumes "addr_acceptable pol parts i"
  shows "(\<exists>ip port. dials parts = Some (ip, port) \<and> allowed_ip pol ip \<and> port \<noteq> 0) \<and> (P2pCircuit \<in> set parts \<longrightarrow> last parts = P2p i)"
proof (cases "P2pCircuit \<in> set parts")
  case False
  then have "filter (\<lambda>p. p = P2pCircuit) parts = []" by (auto simp: filter_empty_conv)
  with assms False show ?thesis by (auto simp: addr_acceptable_def dest: direct_part_dials)
next
  case True
  let ?a = "takeWhile (\<lambda>p. p \<noteq> P2pCircuit) parts" and ?b = "dropWhile (\<lambda>p. p \<noteq> P2pCircuit) parts"
  have ne: "?b \<noteq> []" using True by (simp add: dropWhile_eq_Nil_conv)
  from True have "filter (\<lambda>p. p = P2pCircuit) parts \<noteq> []" by (auto simp: filter_empty_conv)
  with assms have d: "direct_part_ok pol ?a None True" and t: "tl ?b = [P2p i]"
    by (auto simp: addr_acceptable_def Let_def split: if_splits)
  from t have "last ?b = P2p i" by (metis last.simps last_tl list.simps(3))
  then have l: "last parts = P2p i" using ne by (metis last_appendR takeWhile_dropWhile_id)
  from direct_part_dials [OF d] obtain ip port where "dials ?a = Some (ip, port)" "allowed_ip pol ip" "port \<noteq> 0" by blast
  moreover have "dials (?a @ ?b) = dials ?a" using \<open>dials ?a = Some (ip, port)\<close>
    by (auto simp: dials_def split: list.splits Protocol.splits)
  ultimately show ?thesis using l by auto
qed

text \<open>The libp2p addresses kept for a peer are at most eight, without repetition, and dialing one
  connects to an address the outbound policy allows; a relayed one ends in the announced peer.\<close>

theorem sanitized_addresses_allowed:
  "length (sanitize_libp2p_addrs N pol peer addrs) \<le> MAX_LIBP2P_ADDRS_PER_PEER \<and> distinct (sanitize_libp2p_addrs N pol peer addrs) \<and>
   (\<forall>a\<in>set (sanitize_libp2p_addrs N pol peer addrs). \<exists>i addr parts ip port.
      Option.bind peer (net_peer_id N) = Some i \<and> net_multiaddr N addr = Some (parts, a) \<and> dials parts = Some (ip, port) \<and> allowed_ip pol ip \<and>
      port \<noteq> 0 \<and> (P2pCircuit \<in> set parts \<longrightarrow> last parts = P2p i))"
proof (cases "Option.bind peer (net_peer_id N)")
  case (Some i)
  have ok: "kept_ok N pol i (fold (sanitize_step N pol i) addrs [])" by (rule sanitize_fold) (simp add: kept_ok_def)
  have "\<exists>addr parts ip port. net_multiaddr N addr = Some (parts, a) \<and> dials parts = Some (ip, port) \<and> allowed_ip pol ip \<and>
      port \<noteq> 0 \<and> (P2pCircuit \<in> set parts \<longrightarrow> last parts = P2p i)"
    if "a \<in> set (fold (sanitize_step N pol i) addrs [])" for a
  proof -
    from ok that obtain addr parts where p: "net_multiaddr N addr = Some (parts, a)" "addr_acceptable pol parts i"
      by (auto simp: kept_ok_def)
    with acceptable_dials [OF p(2)] show ?thesis by blast
  qed
  with ok show ?thesis by (auto simp: sanitize_libp2p_addrs_def Some kept_ok_def)
qed (simp add: sanitize_libp2p_addrs_def)

theorem sanitized_addresses_allowed_witness:
  "sanitize_libp2p_addrs demo_net \<lparr>allow_private = False\<rparr> (Some ''id'') [''a'', ''a'', ''b''] = [''a''] \<and>
   (\<exists>addr parts ip port. net_multiaddr demo_net addr = Some (parts, ''a'') \<and> dials parts = Some (ip, port) \<and> allowed_ip \<lparr>allow_private = False\<rparr> ip)"
proof -
  have ok: "check_ip \<lparr>allow_private = False\<rparr> (V4 0x08080808) = Ok ()" using demo_allowed by (simp add: check_ip_allowed demo_allowed_def)
  have "sanitize_libp2p_addrs demo_net \<lparr>allow_private = False\<rparr> (Some ''id'') [''a'', ''a'', ''b''] = [''a'']"
    by (simp add: sanitize_libp2p_addrs_def demo_net_def sanitize_step_def addr_acceptable_def direct_part_ok_def ok
        MAX_LIBP2P_ADDRS_PER_PEER_def MAX_LIBP2P_ADDR_LEN_def)
  with sanitized_addresses_allowed [of demo_net "\<lparr>allow_private = False\<rparr>" "Some ''id''" "[''a'', ''a'', ''b'']"] show ?thesis by auto
qed

section \<open>The bounds of the view\<close>

definition limiter_ok :: "IpRateLimiter \<Rightarrow> bool" where
  "limiter_ok l \<longleftrightarrow> distinct (map fst (rl_hits l)) \<and> length (rl_hits l) \<le> MAX_TRACKED_IPS"

lemma limiter_check_ok:
  assumes "limiter_ok l"
  shows "limiter_ok (snd (limiter_check ip now l))"
proof -
  let ?retained = "filter (\<lambda>(_, q). q \<noteq> []) (map (\<lambda>(i, q). (i, live_hits (rl_window l) now q)) (rl_hits l))"
  define hits where "hits = (if length (rl_hits l) \<ge> MAX_TRACKED_IPS \<and> map_of (rl_hits l) ip = None then ?retained else rl_hits l)"
  have d: "distinct (map fst hits)" using assms hits_of_retain(2) by (simp add: hits_def limiter_ok_def)
  have "length ?retained \<le> length (rl_hits l)" by (metis length_filter_le length_map)
  then have n: "length hits \<le> MAX_TRACKED_IPS" using assms unfolding hits_def limiter_ok_def by (simp split: if_split del: length_filter_map)
  show ?thesis
  proof (cases "length hits \<ge> MAX_TRACKED_IPS \<and> map_of (rl_hits l) ip = None")
    case True
    then show ?thesis using d n unfolding limiter_check_def Let_def not_not hits_def [symmetric] by (simp add: limiter_ok_def)
  next
    case False
    have "map_of (rl_hits l) ip \<noteq> None \<Longrightarrow> hits = rl_hits l" by (auto simp: hits_def)
    with False have "map_of hits ip \<noteq> None \<or> length hits < MAX_TRACKED_IPS" by fastforce
    then have "limiter_ok (l\<lparr>rl_hits := AList.update ip q hits\<rparr>)" for q
      using d n by (auto simp: limiter_ok_def distinct_update length_update)
    with False show ?thesis unfolding limiter_check_def Let_def not_not hits_def [symmetric] if_not_P [OF False] by simp
  qed
qed

definition view_ok :: "AdmissionConfig \<Rightarrow> node_view \<Rightarrow> bool" where
  "view_ok cfg v \<longleftrightarrow> table_ok (max_known_peers cfg) (nv_table v) \<and> pool_ok (nv_table v) \<and> limiter_ok (nv_limiter v) \<and>
     length (nv_inbound v) \<le> MAX_PENDING_INBOUND \<and> shards_ok (sr_shards (nv_registry v)) \<and>
     length (p2p_urls (sr_shards (nv_registry v))) \<le> MAX_P2P_SHARD_URLS_TOTAL \<and> heads_ok (nv_heads v)"

abbreviation tables_ok :: "AdmissionConfig \<Rightarrow> PeerTable \<Rightarrow> bool" where
  "tables_ok cfg t \<equiv> table_ok (max_known_peers cfg) t \<and> pool_ok t"

lemma view_ok_table: "view_ok cfg v \<Longrightarrow> tables_ok cfg t \<Longrightarrow> view_ok cfg (v\<lparr>nv_table := t\<rparr>)"
  by (simp add: view_ok_def)

lemma view_ok_registry:
  "view_ok cfg v \<Longrightarrow> view_ok cfg (v\<lparr>nv_registry := snd (merge_shards ss (nv_registry v))\<rparr>)"
  using merge_shards_bounded [of "nv_registry v" ss] by (simp add: view_ok_def)

lemma prune_shards_ok:
  assumes "shards_ok m"
  shows "shards_ok (filter (\<lambda>(_, us). us \<noteq> []) (map (\<lambda>(shard, us). (shard, filter (\<lambda>(_, t). t \<ge> since) us)) m)) \<and>
    length (p2p_urls (filter (\<lambda>(_, us). us \<noteq> []) (map (\<lambda>(shard, us). (shard, filter (\<lambda>(_, t). t \<ge> since) us)) m))) \<le> length (p2p_urls m)"
  using assms
proof (induction m)
  case (Cons x m)
  obtain s us where x: "x = (s, us)" by (cases x)
  have "length (filter (\<lambda>(u, _). is_p2p_url u) (filter (\<lambda>(_, t). t \<ge> since) us)) \<le> length (filter (\<lambda>(u, _). is_p2p_url u) us)"
    by (induction us) auto
  moreover have "shards_ok m" using Cons.prems by (simp add: shards_ok_def)
  moreover have "distinct (map fst us)" "s \<notin> fst ` set m" using Cons.prems by (simp_all add: shards_ok_def x)
  then have "distinct (map fst (filter (\<lambda>(_, t). t \<ge> since) us))"
    "s \<notin> fst ` set (filter (\<lambda>(_, us). us \<noteq> []) (map (\<lambda>(shard, us). (shard, filter (\<lambda>(_, t). t \<ge> since) us)) m))"
    by (auto simp: distinct_filter_keys image_iff)
  ultimately show ?case using Cons.IH by (auto simp: x p2p_urls_def shards_ok_def)
qed (simp add: p2p_urls_def shards_ok_def)

section \<open>Writes\<close>

text \<open>What a handler writes under one lock, with whatever arguments: the steps in which handlers interleave. Replacing
  an entry needs it to be in the table still; where the code checks this before an \<open>await\<close> or under an earlier lock,
  an eviction in between is left out here and shown below.\<close>

inductive table_write :: "AdmissionConfig \<Rightarrow> PeerTable \<Rightarrow> PeerTable \<Rightarrow> bool" for cfg where
  upserted: "pt_contains (pi_base_url info) t \<Longrightarrow> table_write cfg t (upsert info t)"
| relayed: "pt_contains (pi_base_url info) t \<Longrightarrow> table_write cfg t (upsert_relayed info t)"
| attached: "table_write cfg t (attach_witness u a t)"
| inserted: "insert_bounded protected info (max_known_peers cfg) t = (r, t') \<Longrightarrow> table_write cfg t t'"
| pooled: "table_write cfg t (insert_unverified info t)"
| taken: "take_unverified u t = (p, t') \<Longrightarrow> table_write cfg t t'"
| table_pruned: "table_write cfg t (prune_older_than since t)"
| pool_pruned: "table_write cfg t (prune_unverified_older_than since t)"

inductive peer_write :: "AdmissionConfig \<Rightarrow> node_view \<Rightarrow> node_view \<Rightarrow> bool" for cfg where
  wrote_table: "table_write cfg (nv_table v) t \<Longrightarrow> peer_write cfg v (v\<lparr>nv_table := t\<rparr>)"
| counted: "limiter_check ip now (nv_limiter v) = (r, l) \<Longrightarrow> peer_write cfg v (v\<lparr>nv_limiter := l\<rparr>)"
| cursor_moved: "peer_write cfg v (v\<lparr>nv_cursor := n\<rparr>)"
| noted: "peer_write cfg v (v\<lparr>nv_inbound := note_inbound u (nv_inbound v)\<rparr>)"
| drained: "peer_write cfg v (v\<lparr>nv_inbound := []\<rparr>)"
| shards_merged: "peer_write cfg v (v\<lparr>nv_registry := snd (merge_shards ss (nv_registry v))\<rparr>)"
| shards_pruned: "peer_write cfg v (v\<lparr>nv_registry := prune_shards_older_than since (nv_registry v)\<rparr>)"
| heads_merged: "merge_heads C from summaries now (nv_heads v) = (out, h) \<Longrightarrow> peer_write cfg v (v\<lparr>nv_heads := h\<rparr>)"
| marked: "peer_write cfg v (v\<lparr>nv_heads := mark_equivocating shard (nv_heads v)\<rparr>)"

abbreviation table_writes :: "AdmissionConfig \<Rightarrow> PeerTable \<Rightarrow> PeerTable \<Rightarrow> bool" where
  "table_writes cfg \<equiv> (table_write cfg)\<^sup>*\<^sup>*"

abbreviation peer_writes :: "AdmissionConfig \<Rightarrow> node_view \<Rightarrow> node_view \<Rightarrow> bool" where
  "peer_writes cfg \<equiv> (peer_write cfg)\<^sup>*\<^sup>*"

lemma table_write_ok:
  assumes "table_write cfg t t'" "tables_ok cfg t"
  shows "tables_ok cfg t'"
  using assms
proof cases
  case (upserted info)
  then show ?thesis using upsert_ok [of "max_known_peers cfg" t info] assms(2) by simp
next
  case (relayed info)
  then show ?thesis using upsert_relayed_ok [of "max_known_peers cfg" t info] assms(2) by simp
next
  case inserted
  then show ?thesis using insert_bounded_ok assms(2) by blast
next
  case pooled
  then show ?thesis using insert_unverified_ok assms(2) by simp
next
  case taken
  then show ?thesis using take_unverified_ok assms(2) by blast
next
  case table_pruned
  then show ?thesis using prune_ok assms(2) by (simp add: prune_older_than_def)
next
  case pool_pruned
  then show ?thesis using prune_ok assms(2) by (simp add: prune_unverified_older_than_def)
next
  case (attached u a)
  then show ?thesis using attach_witness_ok [of "max_known_peers cfg" t u a] assms(2) by simp
qed

lemma peer_write_ok:
  assumes "peer_write cfg v v'" "view_ok cfg v"
  shows "view_ok cfg v'"
  using assms
proof cases
  case (wrote_table t)
  then show ?thesis using table_write_ok assms(2) by (simp add: view_ok_def)
next
  case (counted ip now r l)
  then show ?thesis using limiter_check_ok [of "nv_limiter v" ip now] assms(2) by (simp add: view_ok_def)
next
  case (shards_merged ss)
  then show ?thesis using view_ok_registry assms(2) by simp
next
  case (shards_pruned since)
  then show ?thesis using prune_shards_ok [of "sr_shards (nv_registry v)" since] assms(2)
    by (simp add: view_ok_def prune_shards_older_than_def Let_def)
next
  case (heads_merged C "from" summaries now out h)
  then show ?thesis using merge_heads_ok [OF _ heads_merged(2)] assms(2) by (simp add: view_ok_def)
qed (use assms(2) in \<open>auto simp: view_ok_def note_inbound_def mark_equivocating_def heads_ok_def\<close>)

lemma peer_writes_ok: "peer_writes cfg v v' \<Longrightarrow> view_ok cfg v \<Longrightarrow> view_ok cfg v'"
  by (induction rule: rtranclp_induct) (auto intro: peer_write_ok)

lemma table_writes_ok: "table_writes cfg t t' \<Longrightarrow> tables_ok cfg t \<Longrightarrow> tables_ok cfg t'"
  by (induction rule: rtranclp_induct) (auto dest: table_write_ok)

lemma lift_table_writes:
  assumes "table_writes cfg (nv_table v) t"
  shows "peer_writes cfg v (v\<lparr>nv_table := t\<rparr>)"
  using assms
proof (induction rule: rtranclp_induct)
  case (step t t')
  have "peer_write cfg (v\<lparr>nv_table := t\<rparr>) (v\<lparr>nv_table := t, nv_table := t'\<rparr>)" by (rule wrote_table) (simp add: step.hyps(2))
  with step.IH show ?case by simp
qed simp

section \<open>Handlers as sequences of writes\<close>

lemma admit_new_url_from_writes:
  assumes "admit_new_url_from ip now (nv_limiter v) = (r, l)"
  shows "peer_writes cfg v (v\<lparr>nv_limiter := l\<rparr>)"
proof -
  have "fst (limiter_check ip now (nv_limiter v)) = fst (limiter_check ip now (nv_limiter v)) \<and> snd (limiter_check ip now (nv_limiter v)) = l"
    using assms by (auto simp: admit_new_url_from_def split: prod.splits sum.splits)
  then show ?thesis using counted [of ip now v _ l cfg] by (metis prod.collapse r_into_rtranclp)
qed

lemma admit_promoted_writes:
  assumes "admit_promoted protected info (max_known_peers cfg) t = (r, t')"
  shows "table_writes cfg t t'"
proof -
  obtain r1 t1 where 1: "insert_bounded protected info (max_known_peers cfg) t = (r1, t1)" by fastforce
  obtain p t2 where 2: "take_unverified (pi_base_url info) t1 = (p, t2)" by fastforce
  have "t' = t1 \<or> t' = t2" using assms 1 2 by (cases r1) (auto simp: admit_promoted_def)
  moreover have "table_writes cfg t t1" using 1 by (blast intro: inserted)
  moreover from this have "table_writes cfg t t2" using taken [OF 2] by (rule rtranclp.rtrancl_into_rtrancl)
  ultimately show ?thesis by blast
qed

lemma admit_new_announcer_writes:
  assumes "admit_new_announcer N cfg pol net source now info v = (r, v')"
  shows "peer_writes cfg v v'"
proof -
  obtain r1 l where 1: "admit_new_url_from source now (nv_limiter v) = (r1, l)" by fastforce
  note l = admit_new_url_from_writes [OF 1, of cfg]
  show ?thesis
  proof (cases "\<exists>info'. r1 = Ok () \<and> checked_announcer N cfg pol net info = Ok info'")
    case False
    then have "v' = v\<lparr>nv_limiter := l\<rparr>"
      using assms 1 by (auto simp: admit_new_announcer_def Let_def split: sum.splits)
    with l show ?thesis by simp
  next
    case True
    then obtain info' where i: "r1 = Ok ()" "checked_announcer N cfg pol net info = Ok info'" by blast
    obtain r2 t where 2: "admit_promoted (net_protected N) info' (max_known_peers cfg) (nv_table v) = (r2, t)" by fastforce
    have "v' = v\<lparr>nv_limiter := l, nv_table := t\<rparr>" using assms 1 i 2 by (cases r2) (auto simp: admit_new_announcer_def Let_def)
    moreover have "peer_writes cfg (v\<lparr>nv_limiter := l\<rparr>) (v\<lparr>nv_limiter := l, nv_table := t\<rparr>)"
      using lift_table_writes [of cfg "v\<lparr>nv_limiter := l\<rparr>" t] admit_promoted_writes [OF 2] by simp
    ultimately show ?thesis using l by simp
  qed
qed

lemma store_authenticated_writes:
  assumes "store_authenticated_p2p_announcer N cfg source now info v = (r, v')"
  shows "peer_writes cfg v v'"
proof -
  let ?info = "info\<lparr>pi_identity_bound := True\<rparr>"
  obtain r1 l where 1: "admit_new_url_from source now (nv_limiter v) = (r1, l)" by fastforce
  note l = admit_new_url_from_writes [OF 1, of cfg]
  obtain r2 t where 2: "admit_promoted (net_protected N) ?info (max_known_peers cfg) (nv_table v) = (r2, t)" by fastforce
  have t: "peer_writes cfg (v\<lparr>nv_limiter := l\<rparr>) (v\<lparr>nv_limiter := l, nv_table := t\<rparr>)"
    using lift_table_writes [of cfg "v\<lparr>nv_limiter := l\<rparr>" t] admit_promoted_writes [OF 2] by simp
  have u: "peer_writes cfg v (v\<lparr>nv_table := upsert ?info (nv_table v)\<rparr>)" if "pt_contains (pi_base_url info) (nv_table v)"
    using that by (intro lift_table_writes r_into_rtranclp upserted) simp
  have "v' \<in> {v, v\<lparr>nv_limiter := l\<rparr>, v\<lparr>nv_limiter := l, nv_table := t\<rparr>} \<or>
      pt_contains (pi_base_url info) (nv_table v) \<and> v' = v\<lparr>nv_table := upsert ?info (nv_table v)\<rparr>"
    using assms 1 2 unfolding store_authenticated_p2p_announcer_def Let_def
    by (cases r1; cases r2) (auto split: if_splits)
  with l u rtranclp_trans [OF l t] show ?thesis by auto
qed

lemma rebind_existing_view:
  assumes "rebind_existing N cfg pol net source now info v = (info', v')"
  shows "\<exists>l. v' = v\<lparr>nv_limiter := l\<rparr>" "peer_writes cfg v v'" "pi_base_url info' = pi_base_url info"
proof -
  obtain r1 l where 1: "admit_new_url_from source now (nv_limiter v) = (r1, l)" by fastforce
  have v': "v' = v \<or> v' = v\<lparr>nv_limiter := l\<rparr>"
    using assms 1 by (cases r1) (auto simp: rebind_existing_def Let_def split: if_splits)
  moreover have "v = v\<lparr>nv_limiter := nv_limiter v\<rparr>" by simp
  ultimately show "\<exists>l. v' = v\<lparr>nv_limiter := l\<rparr>" by metis
  from v' show "peer_writes cfg v v'" using admit_new_url_from_writes [OF 1] by auto
  show "pi_base_url info' = pi_base_url info"
    using assms 1 by (cases r1) (auto simp: rebind_existing_def Let_def split: if_splits)
qed

lemma announce_url_writes:
  assumes "announce_url C N cfg pol net source now body v = (r, v')"
  shows "peer_writes cfg v v'"
proof (cases "check_shape N cfg (an_base_url body)")
  case (Inl e)
  with assms show ?thesis by (simp add: announce_url_def)
next
  case (Inr base)
  let ?info = "(announced_info N pol now body)\<lparr>pi_base_url := base, pi_witness := announced_advert C base now body\<rparr>"
  show ?thesis
  proof (cases "pt_contains base (nv_table v)")
    case False
    obtain r1 v1 where "admit_new_announcer N cfg pol net source now ?info v = (r1, v1)" by fastforce
    moreover from this have "v' = v1" using assms Inr False by (cases r1) (auto simp: announce_url_def Let_def)
    ultimately show ?thesis using admit_new_announcer_writes by blast
  next
    case True
    obtain i1 v1 where 1: "rebind_existing N cfg pol net source now ?info v = (i1, v1)" by fastforce
    note rb = rebind_existing_view [OF 1]
    have known: "pt_contains (pi_base_url i1) (nv_table v1)" using rb(1,3) True by auto
    have "table_writes cfg (nv_table v1) (upsert i1 (nv_table v1))" "table_writes cfg (nv_table v1) (attach_witness base a (nv_table v1))" for a
      by (intro r_into_rtranclp upserted known, intro r_into_rtranclp attached)
    then have "peer_writes cfg v1 v'"
      using assms Inr True 1 by (auto simp: announce_url_def Let_def intro!: lift_table_writes split: option.splits if_splits)
    with rb(2) show ?thesis by simp
  qed
qed

text \<open>The limiter of a scan of shards, in its own steps.\<close>

abbreviation limiter_writes :: "IpRateLimiter \<Rightarrow> IpRateLimiter \<Rightarrow> bool" where
  "limiter_writes \<equiv> (\<lambda>l l'. \<exists>ip now. snd (limiter_check ip now l) = l')\<^sup>*\<^sup>*"

lemma lift_limiter_writes:
  assumes "limiter_writes (nv_limiter v) l"
  shows "peer_writes cfg v (v\<lparr>nv_limiter := l\<rparr>)"
  using assms
proof (induction rule: rtranclp_induct)
  case (step l l')
  then obtain ip now where "snd (limiter_check ip now l) = l'" by blast
  then have "limiter_check ip now (nv_limiter (v\<lparr>nv_limiter := l\<rparr>)) = (fst (limiter_check ip now l), l')" by (metis node_view.select_convs(2) node_view.update_convs(2) node_view.surjective prod.collapse)
  from counted [OF this, of cfg] step.IH show ?case by simp
qed simp

lemma shard_scan_limiter: "limiter_writes (ss_limiter s) (ss_limiter (shard_entry N cfg pol reg now source e s))"
proof -
  have r: "ss_limiter (resolve_shard N pol pos base e s) = ss_limiter s" for pos base e s
    by (simp add: resolve_shard_def Let_def refuse_def keep_shard_def split: sum.split)
  have a: "limiter_writes l l'" if "admit_new_url_from ip now l = (x, l')" for ip l x l'
    using that by (intro r_into_rtranclp exI [of _ ip] exI [of _ now]) (auto simp: admit_new_url_from_def split: prod.splits sum.splits)
  have "limiter_writes (ss_limiter s) (ss_limiter (shard_url N cfg pol now source pos e s))" for pos e s
    by (auto simp: shard_url_def Let_def refuse_def r dest: a split: sum.split option.split prod.split)
  from this [of "s\<lparr>ss_examined := ss_examined s + 1\<rparr>"] show ?thesis
    by (cases e) (auto simp: shard_entry_def Let_def refuse_def keep_shard_def split: option.split)
qed

lemma validated_shards_writes:
  assumes "validated_shards N cfg pol now incoming source v = (out, v')"
  shows "peer_writes cfg v v'" "nv_registry v' = nv_registry v" "nv_table v' = nv_table v" "nv_heads v' = nv_heads v"
proof -
  have "limiter_writes (ss_limiter s) (ss_limiter (fold (shard_entry N cfg pol reg now source) es s))" for reg es s
  proof (induction es arbitrary: s)
    case (Cons e es)
    show ?case using rtranclp_trans [OF shard_scan_limiter Cons.IH] by simp
  qed simp
  from this [where s = "\<lparr>ss_kept = [], ss_examined = 0, ss_refused = 0, ss_p2p_new = 0, ss_failed = 0, ss_slot = False, ss_resumed_after = 0,
      ss_limiter = nv_limiter v\<rparr>"]
  obtain c l where v': "v' = v\<lparr>nv_cursor := c, nv_limiter := l\<rparr>" "limiter_writes (nv_limiter v) l"
    using assms by (auto simp: validated_shards_def Let_def)
  have "peer_writes cfg (v\<lparr>nv_cursor := c\<rparr>) v'" using lift_limiter_writes [of "v\<lparr>nv_cursor := c\<rparr>" l cfg] v' by simp
  with cursor_moved [of cfg v c] show "peer_writes cfg v v'" by (rule converse_rtranclp_into_rtranclp)
qed (use assms in \<open>auto simp: validated_shards_def Let_def\<close>)

lemma announce_merge_writes:
  assumes "announce_merge C N cfg pol source now body who v = (cs, v')"
  shows "peer_writes cfg v v'"
proof -
  obtain u listed proven where who: "who = (u, listed, proven)" by (cases who)
  define v0 where "v0 = (if listed then v\<lparr>nv_inbound := note_inbound u (nv_inbound v)\<rparr> else v)"
  have 0: "peer_writes cfg v v0" using noted [of cfg v u] by (auto simp: v0_def)
  obtain ss n v1 where 1: "validated_shards N cfg pol now (an_known_shards body) (Some source) v0 = ((ss, n), v1)" by (metis surj_pair)
  let ?v2 = "v1\<lparr>nv_registry := snd (merge_shards ss (nv_registry v1))\<rparr>"
  have 2: "peer_writes cfg v ?v2"
    using 0 validated_shards_writes(1) [OF 1] shards_merged [of cfg v1 ss] by (meson rtranclp.rtrancl_into_rtrancl rtranclp_trans)
  obtain out h where 3: "merge_heads C u (if proven then an_head_summaries body else []) now (nv_heads ?v2) = (out, h)" by fastforce
  have "v' = ?v2\<lparr>nv_heads := h\<rparr>"
    using assms 1 3 by (cases out) (auto simp: announce_merge_def who v0_def [symmetric] Let_def)
  then show ?thesis using 2 heads_merged [OF 3, of cfg] by (metis rtranclp.rtrancl_into_rtrancl)
qed

lemma announce_merge_table: "announce_merge C N cfg pol source now body who v = (cs, v') \<Longrightarrow> nv_table v' = nv_table v"
  by (auto simp: announce_merge_def validated_shards_def Let_def split: prod.splits)

lemma announce_writes:
  assumes "announce_under C N cfg pol net source now remote body v = (r, cs, v')"
  shows "peer_writes cfg v v'"
proof (cases "v' = v")
  case False
  then obtain p2p where p: "classify_p2p_announce N (an_base_url body) (an_libp2p_peer_id body) remote = Ok p2p" "p2p \<noteq> Unauthenticated"
    using assms by (auto simp: announce_under_def split: if_splits sum.splits)
  obtain r1 v1 where 1: "(case p2p of Authenticated i \<Rightarrow> announce_p2p C N cfg pol source now body i v
      | _ \<Rightarrow> announce_url C N cfg pol net source now body v) = (r1, v1)" by fastforce
  have w1: "peer_writes cfg v v1"
  proof (cases p2p)
    case (Authenticated i)
    let ?info = "(announced_info N pol now body)\<lparr>pi_base_url := p2p_base_url i, pi_witness := announced_advert C (p2p_base_url i) now body\<rparr>"
    obtain r2 v2 where 2: "store_authenticated_p2p_announcer N cfg source now ?info v = (r2, v2)" by fastforce
    with 1 Authenticated have "v1 = v2" by (cases r2) (auto simp: announce_p2p_def Let_def)
    with store_authenticated_writes [OF 2] show ?thesis by simp
  qed (use 1 p(2) announce_url_writes in auto)
  show ?thesis
  proof (cases r1)
    case (Inl e)
    with assms p 1 False have "v' = v1" by (auto simp: announce_under_def split: if_splits)
    with w1 show ?thesis by simp
  next
    case (Inr who)
    obtain c2 v2 where 2: "announce_merge C N cfg pol source now body who v1 = (c2, v2)" by fastforce
    with assms p 1 Inr False have "v' = v2" by (auto simp: announce_under_def split: if_splits)
    with w1 announce_merge_writes [OF 2] show ?thesis by simp
  qed
qed simp

section \<open>Gossip\<close>

text \<open>What gossip may do to an entry of the table: refresh what it self-reports, and nothing about when the
  node heard of it, its bound identity or a direct advert.\<close>

definition refreshed :: "PeerInfo \<Rightarrow> PeerInfo \<Rightarrow> bool" where
  "refreshed p p' \<longleftrightarrow> pi_last_announced_at p' = pi_last_announced_at p \<and> pi_identity_bound p' = pi_identity_bound p \<and>
     (pi_identity_bound p \<longrightarrow> pi_libp2p_peer_id p' = pi_libp2p_peer_id p \<and> pi_libp2p_listen_addrs p' = pi_libp2p_listen_addrs p \<and>
        pi_connectivity p' = pi_connectivity p) \<and>
     (\<forall>a. pi_witness p = Some a \<and> wa_direct a \<longrightarrow> pi_witness p' = Some a)"

lemma refreshed_refl: "refreshed p p" by (simp add: refreshed_def)

lemma refreshed_trans: "refreshed p q \<Longrightarrow> refreshed q r \<Longrightarrow> refreshed p r" by (auto simp: refreshed_def)

definition gossiped :: "PeerTable \<Rightarrow> PeerTable \<Rightarrow> bool" where
  "gossiped t t' \<longleftrightarrow> (\<forall>u. case map_of (pt_peers t) u of
     None \<Rightarrow> map_of (pt_peers t') u = None
   | Some p \<Rightarrow> (\<exists>p'. map_of (pt_peers t') u = Some p' \<and> refreshed p p'))"

lemma gossiped_refl: "pt_peers t' = pt_peers t \<Longrightarrow> gossiped t t'"
  by (auto simp: gossiped_def refreshed_refl split: option.split)

lemma gossiped_trans: "gossiped t t1 \<Longrightarrow> gossiped t1 t2 \<Longrightarrow> gossiped t t2"
  unfolding gossiped_def by (auto split: option.splits) (metis option.distinct(1) option.inject refreshed_trans)+

lemma advert_kept:
  "wa_direct old \<Longrightarrow> (\<forall>n. pi_witness info = Some n \<longrightarrow> \<not> wa_direct n) \<Longrightarrow> pi_witness s = Some old \<Longrightarrow>
   pi_witness (carry_witness (Some s) info) = Some old"
  by (auto simp: carry_witness_def advert_replaces_def split: option.split)

lemma carry_witness_fields [simp]:
  "pi_last_announced_at (carry_witness s i) = pi_last_announced_at i" "pi_identity_bound (carry_witness s i) = pi_identity_bound i"
  "pi_libp2p_peer_id (carry_witness s i) = pi_libp2p_peer_id i" "pi_libp2p_listen_addrs (carry_witness s i) = pi_libp2p_listen_addrs i"
  "pi_connectivity (carry_witness s i) = pi_connectivity i"
  by (simp_all add: carry_witness_def split: option.split)

lemma upsert_relayed_gossiped:
  assumes "pt_contains (pi_base_url info) t" and "\<not> pi_identity_bound info" and "\<forall>a. pi_witness info = Some a \<longrightarrow> \<not> wa_direct a"
  shows "gossiped t (upsert_relayed info t)"
proof -
  let ?u = "pi_base_url info"
  from assms(1) obtain s where s: "map_of (pt_peers t) ?u = Some s" by (auto simp: pt_contains_def)
  let ?i = "info\<lparr>pi_last_announced_at := pi_last_announced_at s\<rparr>"
  let ?k = "if pi_identity_bound s then keep_identity s ?i else ?i"
  have up: "upsert_relayed info t = t\<lparr>pt_peers := AList.update ?u (carry_witness (Some s) ?k) (pt_peers t)\<rparr>"
    by (simp add: upsert_relayed_def Let_def s)
  have "pi_witness ?k = pi_witness info" by (simp add: keep_identity_def)
  with assms(3) have "pi_witness s = Some a \<Longrightarrow> wa_direct a \<Longrightarrow> pi_witness (carry_witness (Some s) ?k) = Some a" for a
    using advert_kept [of a ?k s] by metis
  then have "refreshed s (carry_witness (Some s) ?k)"
    using assms(2) by (simp add: refreshed_def keep_identity_def)
  then show ?thesis by (auto simp: gossiped_def up update_conv' s refreshed_refl split: option.split)
qed

lemma verified_not_direct: "verified_advert C base (map_option (\<lambda>a. a\<lparr>wa_direct := False\<rparr>) w) now = Some a \<Longrightarrow> \<not> wa_direct a"
  by (auto simp: verified_advert_def split: option.splits if_splits)

text \<open>The URLs a table's pool has that another's has not.\<close>

definition pool_new :: "PeerTable \<Rightarrow> PeerTable \<Rightarrow> str set" where
  "pool_new t t' = fst ` set (pt_unverified t') - fst ` set (pt_unverified t)"

lemma finite_pool_new: "finite (pool_new t t')"
  by (simp add: pool_new_def)

lemma insert_unverified_pool: "pool_new t (insert_unverified info t') \<subseteq> insert (pi_base_url info) (pool_new t t')"
proof -
  have del: "fst ` set (AList.delete k m) \<subseteq> fst ` set m" for k and m :: peer_map by (auto simp: AList.delete_eq)
  have "fst ` set (pt_unverified (insert_unverified info t')) \<subseteq> insert (pi_base_url info) (fst ` set (pt_unverified t'))"
    unfolding insert_unverified_def Let_def carry_url
    by (auto simp: AList.dom_update split: option.splits if_splits dest!: subsetD [OF del, OF imageI, simplified]) force
  then show ?thesis by (auto simp: pool_new_def)
qed

definition gossip_inv :: "AdmissionConfig \<Rightarrow> PeerTable \<Rightarrow> gossip \<Rightarrow> bool" where
  "gossip_inv cfg t g \<longleftrightarrow> gossiped t (go_table g) \<and> go_accepted g \<le> max_new_per_exchange cfg \<and>
     table_writes cfg t (go_table g) \<and> card (pool_new t (go_table g)) \<le> go_accepted g"

lemma gossip_inv_same: "gossip_inv cfg t g \<Longrightarrow> go_table g' = go_table g \<Longrightarrow> go_accepted g' = go_accepted g \<Longrightarrow> gossip_inv cfg t g'"
  by (simp add: gossip_inv_def)

lemma admit_gossip_inv:
  assumes "gossip_inv cfg t g" and "go_accepted g < max_new_per_exchange cfg"
  shows "gossip_inv cfg t (admit_gossip info g)"
proof -
  let ?t = "insert_unverified info (go_table g)"
  have same: "pt_peers ?t = pt_peers (go_table g)" by (simp add: insert_unverified_def Let_def split: option.split)
  from assms(1) gossiped_refl [OF same] have "gossiped t ?t"
    by (auto simp: gossip_inv_def intro: gossiped_trans)
  moreover have "table_writes cfg t ?t" using assms(1) pooled [of cfg "go_table g" info] by (auto simp: gossip_inv_def)
  moreover have "card (pool_new t ?t) \<le> card (insert (pi_base_url info) (pool_new t (go_table g)))"
    by (rule card_mono [OF _ insert_unverified_pool]) (simp add: finite_pool_new)
  then have "card (pool_new t ?t) \<le> go_accepted g + 1"
    using assms(1) card_insert_le_m1 [of "go_accepted g + 1" "pool_new t (go_table g)" "pi_base_url info"] by (simp add: gossip_inv_def)
  ultimately show ?thesis using assms by (auto simp: gossip_inv_def admit_gossip_def)
qed

lemma gossip_unknown_inv:
  assumes "gossip_inv cfg t g"
  shows "gossip_inv cfg t (gossip_unknown N cfg pol pos p2p info g)"
proof (cases "go_accepted g \<ge> max_new_per_exchange cfg \<or> go_examined g \<ge> max_new_per_exchange cfg * 4")
  case True
  with assms show ?thesis by (auto simp: gossip_unknown_def intro: gossip_inv_same)
next
  case False
  have "gossip_inv cfg t (admit_gossip info g')" "gossip_inv cfg t (reject g')" if "go_table g' = go_table g" "go_accepted g' = go_accepted g" for g'
    using admit_gossip_inv [of cfg t g' info] gossip_inv_same [OF assms that] False that
    by (auto simp: reject_def intro: gossip_inv_same)
  with False show ?thesis by (auto simp: gossip_unknown_def Let_def split: sum.split)
qed

lemma gossip_entry_inv:
  assumes "gossip_inv cfg t g"
  shows "gossip_inv cfg t (gossip_entry C N cfg pol net now (pos, info) g)"
proof -
  have rej: "gossip_inv cfg t (reject g)" using assms by (rule gossip_inv_same) (simp_all add: reject_def)
  have up: "gossip_inv cfg t (g\<lparr>go_table := upsert_relayed (gossip_info C N pol now base info) (go_table g), go_admitted := x\<rparr>)"
    if "pt_contains base (go_table g)" for base x
  proof -
    let ?i = "gossip_info C N pol now base info"
    have b: "pi_base_url ?i = base" "\<not> pi_identity_bound ?i" by (simp_all add: gossip_info_def)
    have "\<forall>a. pi_witness ?i = Some a \<longrightarrow> \<not> wa_direct a" by (auto simp: gossip_info_def dest: verified_not_direct)
    with b that have "gossiped (go_table g) (upsert_relayed ?i (go_table g))" by (intro upsert_relayed_gossiped) auto
    moreover have "table_write cfg (go_table g) (upsert_relayed ?i (go_table g))" using that b by (intro relayed) simp
    moreover have "pool_new t (upsert_relayed ?i (go_table g)) = pool_new t (go_table g)"
      by (simp add: pool_new_def upsert_relayed_def Let_def)
    ultimately show ?thesis using assms by (auto simp: gossip_inv_def intro: gossiped_trans)
  qed
  from assms rej up gossip_unknown_inv [OF assms] show ?thesis
    by (auto simp: gossip_entry_def Let_def intro: gossip_inv_same split: option.split)
qed

lemma merge_gossip_inv: "gossip_inv cfg t (merge_gossip C N cfg pol net now incoming t)"
proof -
  have "gossip_inv cfg t g \<Longrightarrow> gossip_inv cfg t (fold (gossip_entry C N cfg pol net now) es g)" for es g
  proof (induction es arbitrary: g)
    case (Cons e es)
    then show ?case using gossip_entry_inv [of cfg t g C N pol net now "fst e" "snd e"] by simp
  qed simp
  then show ?thesis unfolding merge_gossip_def by (simp add: gossip_inv_def gossiped_refl pool_new_def)
qed

text \<open>C30. Gossip alone admits nobody and overrides nobody: a merge leaves exactly the same URLs in the peer
  table, keeps when the node last heard of each, every bound identity with its addresses, and every
  direct witness advert, and the URLs new in the bounded pool are at most the per-exchange limit.\<close>

theorem gossip_keeps_table:
  "card (fst ` set (pt_unverified (go_table (merge_gossip C N cfg pol net now incoming t))) - fst ` set (pt_unverified t))
     \<le> max_new_per_exchange cfg \<and>
   (\<forall>u. case map_of (pt_peers t) u of
      None \<Rightarrow> map_of (pt_peers (go_table (merge_gossip C N cfg pol net now incoming t))) u = None
    | Some p \<Rightarrow> (\<exists>p'. map_of (pt_peers (go_table (merge_gossip C N cfg pol net now incoming t))) u = Some p' \<and> refreshed p p'))"
  using merge_gossip_inv [of cfg t C N pol net now incoming] by (simp add: gossip_inv_def gossiped_def pool_new_def)

theorem gossip_keeps_table_witness:
  "\<exists>p'. map_of (pt_peers (go_table (merge_gossip demo_crates demo_net default_admission \<lparr>allow_private = False\<rparr> ''net'' 9 [demo_peer ''u'' 5]
      \<lparr>pt_peers = [(''a'', (demo_peer ''a'' 1)\<lparr>pi_libp2p_peer_id := Some ''id'', pi_identity_bound := True\<rparr>)], pt_unverified = []\<rparr>))) ''a'' = Some p' \<and>
     pi_libp2p_peer_id p' = Some ''id''"
proof -
  let ?p = "(demo_peer ''a'' 1)\<lparr>pi_libp2p_peer_id := Some ''id'', pi_identity_bound := True\<rparr>"
  let ?t = "\<lparr>pt_peers = [(''a'', ?p)], pt_unverified = []\<rparr>"
  let ?g = "merge_gossip demo_crates demo_net default_admission \<lparr>allow_private = False\<rparr> ''net'' 9 [demo_peer ''u'' 5] ?t"
  have "map_of (pt_peers ?t) ''a'' = Some ?p" by simp
  with spec [OF conjunct2 [OF gossip_keeps_table [of demo_crates demo_net default_admission "\<lparr>allow_private = False\<rparr>" "''net''" 9
      "[demo_peer ''u'' 5]" ?t]], of "''a''"]
  have "\<exists>p'. map_of (pt_peers (go_table ?g)) ''a'' = Some p' \<and> refreshed ?p p'" by (simp only: option.case)
  then show ?thesis by (auto simp: refreshed_def)
qed

section \<open>Every step of the node\<close>

text \<open>The handlers, each run to its end.\<close>

inductive peer_step :: "crates \<Rightarrow> AdmissionConfig \<Rightarrow> OutboundPolicy \<Rightarrow> str \<Rightarrow> node_view \<Rightarrow> node_view \<Rightarrow> bool"
  for C :: crates and cfg :: AdmissionConfig and pol :: OutboundPolicy and net_id :: str where
  announced: "announce_under C N cfg pol net_id source now remote body v = (r, cs, v') \<Longrightarrow> peer_step C cfg pol net_id v v'"
| gossip_merged: "peer_step C cfg pol net_id v (v\<lparr>nv_table := go_table (merge_gossip C N cfg pol net_id now incoming (nv_table v))\<rparr>)"
| responded: "admit_responder_node N cfg pol net_id now called node (nv_table v) = (b, t) \<Longrightarrow> peer_step C cfg pol net_id v (v\<lparr>nv_table := t\<rparr>)"
| contacted: "peer_step C cfg pol net_id v (v\<lparr>nv_table := promote_on_contact N cfg u (nv_table v)\<rparr>)"
| connected: "promote_unverified_by_libp2p_peer (net_peer_id (N :: net)) (net_protected N) i (max_known_peers cfg) (nv_table v) = (us, t) \<Longrightarrow>
    peer_step C cfg pol net_id v (v\<lparr>nv_table := t\<rparr>)"
| own_head: "peer_step C cfg pol net_id v (v\<lparr>nv_heads := record_own_head C s own now (nv_heads v)\<rparr>)"
| vouched: "peer_step C cfg pol net_id v (v\<lparr>nv_table := attach_direct C N cfg u advert now (nv_table v)\<rparr>)"
| scanned: "validated_shards N cfg pol now incoming None v = ((ss, n), v1) \<Longrightarrow>
    peer_step C cfg pol net_id v (v1\<lparr>nv_registry := snd (merge_shards ss (nv_registry v1))\<rparr>)"
| own_shard: "peer_step C cfg pol net_id v (v\<lparr>nv_registry := record_own_shard shard u now (nv_registry v)\<rparr>)"
| exchanged: "merge_heads C from incoming now (nv_heads v) = (out, h) \<Longrightarrow> peer_step C cfg pol net_id v (v\<lparr>nv_heads := h\<rparr>)"
| equivocated: "peer_step C cfg pol net_id v (v\<lparr>nv_heads := mark_equivocating shard (nv_heads v)\<rparr>)"
| pruned: "peer_step C cfg pol net_id v (v\<lparr>nv_table := prune_unverified_older_than since (prune_older_than since (nv_table v)),
    nv_registry := prune_shards_older_than since (nv_registry v)\<rparr>)"
| emptied: "peer_step C cfg pol net_id v (v\<lparr>nv_inbound := []\<rparr>)"

definition new_view :: "AdmissionConfig \<Rightarrow> node_view" where
  "new_view cfg = \<lparr>nv_table = \<lparr>pt_peers = [], pt_unverified = []\<rparr>, nv_limiter = limiter_new (new_urls_per_source cfg) (60 * 1000000000),
     nv_cursor = 0, nv_inbound = [], nv_registry = \<lparr>sr_shards = [], sr_first_seen = []\<rparr>, nv_heads = tracker_new\<rparr>"

lemma promote_on_contact_writes: "table_writes cfg t (promote_on_contact N cfg u t)"
proof -
  obtain r t1 where 1: "take_unverified u t = (r, t1)" by fastforce
  have "table_write cfg t1 (snd (insert_bounded (net_protected N) info (max_known_peers cfg) t1))" for info
    by (rule inserted [OF surjective_pairing])
  with taken [OF 1, of cfg] show ?thesis using 1
    by (auto simp: promote_on_contact_def intro: rtranclp.rtrancl_into_rtrancl split: option.split)
qed

lemma admit_responder_writes:
  assumes "admit_responder_node N cfg pol net now called node t = (b, t')"
  shows "table_writes cfg t t'"
proof -
  have "table_write cfg t (snd (insert_bounded (net_protected N) info (max_known_peers cfg) t))" for info
    by (rule inserted [OF surjective_pairing])
  with assms show ?thesis
    by (auto simp: admit_responder_node_def Let_def split: if_splits prod.splits sum.splits) (metis r_into_rtranclp snd_conv)+
qed

lemma promote_url_writes:
  assumes "promote_url f protected i (max_known_peers cfg) u (us, t) = (us', t')"
  shows "table_writes cfg t t'"
proof -
  obtain r t1 where 1: "take_unverified u t = (r, t1)" by fastforce
  have "table_write cfg t1 (snd (insert_bounded protected info (max_known_peers cfg) t1))" for info
    by (rule inserted [OF surjective_pairing])
  moreover have "t' = t1 \<or> (\<exists>info. t' = snd (insert_bounded protected info (max_known_peers cfg) t1))"
    using assms 1 by (auto simp: promote_url_def split: option.splits if_splits prod.splits sum.splits) (metis snd_conv)+
  ultimately show ?thesis using taken [OF 1, of cfg] by (meson r_into_rtranclp rtranclp.rtrancl_into_rtrancl)
qed

lemma promote_by_peer_writes:
  assumes "promote_unverified_by_libp2p_peer f protected i (max_known_peers cfg) t = (us, t')"
  shows "table_writes cfg t t'"
proof -
  have "fold (promote_url f protected i (max_known_peers cfg)) urls (us0, t) = (us', t') \<Longrightarrow> table_writes cfg t t'" for urls us0 us' t t'
  proof (induction urls arbitrary: us0 t)
    case (Cons u urls)
    obtain us1 t1 where "promote_url f protected i (max_known_peers cfg) u (us0, t) = (us1, t1)" by fastforce
    with Cons rtranclp_trans [OF promote_url_writes [OF this]] show ?case by simp
  qed simp
  with assms show ?thesis unfolding promote_unverified_by_libp2p_peer_def Let_def by blast
qed

text \<open>Every handler run to its end is a sequence of writes.\<close>

lemma peer_step_writes: "peer_step C cfg pol net_id v v' \<Longrightarrow> peer_writes cfg v v'"
proof (induction rule: peer_step.induct)
  case (announced N source now remote body v r cs v')
  then show ?case by (rule announce_writes)
next
  case (gossip_merged v N now incoming)
  show ?case using merge_gossip_inv [of cfg "nv_table v" C N pol net_id now incoming] by (intro lift_table_writes) (simp add: gossip_inv_def)
next
  case (responded N now called node v b t)
  then show ?case by (intro lift_table_writes admit_responder_writes)
next
  case (contacted v N u)
  show ?case by (intro lift_table_writes promote_on_contact_writes)
next
  case (connected N i v us t)
  then show ?case by (intro lift_table_writes promote_by_peer_writes)
next
  case (vouched v N u advert now)
  show ?case by (rule lift_table_writes) (auto simp: attach_direct_def Let_def intro: attached split: option.split)
next
  case (scanned N now incoming v ss n v1)
  show ?case using validated_shards_writes(1) [OF scanned] shards_merged by (rule rtranclp.rtrancl_into_rtrancl)
next
  case (pruned v since)
  have "table_writes cfg (nv_table v) (prune_unverified_older_than since (prune_older_than since (nv_table v)))"
    using table_pruned pool_pruned by (meson r_into_rtranclp rtranclp.rtrancl_into_rtrancl)
  from lift_table_writes [OF this] show ?case
    using shards_pruned [of cfg "v\<lparr>nv_table := prune_unverified_older_than since (prune_older_than since (nv_table v))\<rparr>" since]
    by (simp add: rtranclp.rtrancl_into_rtrancl)
next
  case (own_head v s own now)
  show ?case unfolding record_own_head_def by (rule r_into_rtranclp, rule heads_merged [OF surjective_pairing])
qed (auto simp: record_own_shard_def intro: shards_merged heads_merged marked drained)

lemma new_view_ok: "view_ok cfg (new_view cfg)"
  by (simp add: view_ok_def new_view_def peers_ok_def keyed_def p2p_count_def limiter_ok_def limiter_new_def shards_ok_def p2p_urls_def
      heads_ok_def tracker_new_def)

text \<open>C14. Whatever the network sends, the node's view of it stays bounded. Over every interleaving of the writes that
  announces, gossip, contacts, prunes and the node's own entries make, each under its lock and with arbitrary arguments,
  the table keeps to its cap and to 64 \<open>p2p://\<close> entries, the pool of unverified entries to 256 and 32, the registry to 32
  \<open>p2p://\<close> URLs, the tracked heads to 4096, the pending announcers to 256 and the counted sources to 10000; and every
  handler run to its end is such a sequence of writes. The one proviso is that an entry a handler found in the table
  is still there when the handler replaces it.\<close>

theorem node_view_bounded:
  assumes "(peer_write cfg)\<^sup>*\<^sup>* (new_view cfg) v"
  shows "length (pt_peers (nv_table v)) \<le> max_known_peers cfg \<and> p2p_count (pt_peers (nv_table v)) \<le> MAX_P2P_ENTRIES \<and>
    length (pt_unverified (nv_table v)) \<le> MAX_UNVERIFIED_PEERS \<and> p2p_count (pt_unverified (nv_table v)) \<le> MAX_P2P_UNVERIFIED \<and>
    length (p2p_urls (sr_shards (nv_registry v))) \<le> MAX_P2P_SHARD_URLS_TOTAL \<and> length (hg_seen (nv_heads v)) \<le> MAX_TRACKED_HEAD_SUMMARIES \<and>
    length (nv_inbound v) \<le> MAX_PENDING_INBOUND \<and> length (rl_hits (nv_limiter v)) \<le> MAX_TRACKED_IPS \<and>
    distinct (map fst (pt_peers (nv_table v))) \<and>
    (\<forall>C pol net_id v'. peer_step C cfg pol net_id v v' \<longrightarrow> (peer_write cfg)\<^sup>*\<^sup>* v v')"
proof -
  have "view_ok cfg v" using peer_writes_ok [OF assms new_view_ok] .
  then show ?thesis using peer_step_writes by (auto simp: view_ok_def peers_ok_def keyed_def heads_ok_def limiter_ok_def)
qed

text \<open>The proviso is needed. A node whose table is full finds the announced URL in it; while the reachability check awaits,
  another announce is admitted and that very URL is evicted; the upsert then stores it beside the rest.\<close>

lemma evicted_while_checked_exceeds_cap:
  "\<exists>t1. pt_contains ''a'' \<lparr>pt_peers = [(''a'', demo_peer ''a'' 1)], pt_unverified = []\<rparr> \<and>
     insert_bounded (\<lambda>_. False) (demo_peer ''b'' 2) 1 \<lparr>pt_peers = [(''a'', demo_peer ''a'' 1)], pt_unverified = []\<rparr> = (Ok (Some ''a''), t1) \<and>
     length (pt_peers t1) = 1 \<and> length (pt_peers (upsert (demo_peer ''a'' 3) t1)) = 2"
  by (simp add: pt_contains_def insert_bounded_def Let_def make_room_def oldest_def demo_peer_def carry_identity_def carry_witness_def
      is_p2p_url_def upsert_def)

section \<open>Identities\<close>

definition same_identity :: "PeerInfo \<Rightarrow> PeerInfo \<Rightarrow> bool" where
  "same_identity p p' \<longleftrightarrow> pi_identity_bound p' = pi_identity_bound p \<and> pi_libp2p_peer_id p' = pi_libp2p_peer_id p"

lemma attach_witness_identity:
  "map_of (pt_peers t) u = Some p \<Longrightarrow> \<exists>p'. map_of (pt_peers (attach_witness b a t)) u = Some p' \<and> same_identity p p'"
  by (auto simp: attach_witness_def update_conv' put_advert_def same_identity_def split: option.split)

lemma upsert_lookup: "map_of (pt_peers (upsert info t)) u = (if u = pi_base_url info then Some (carried t info) else map_of (pt_peers t) u)"
  by (simp add: upsert_def carried_def Let_def update_conv')

lemma carried_bound: "pi_identity_bound info \<Longrightarrow> pi_identity_bound (carried t info) \<and> pi_libp2p_peer_id (carried t info) = pi_libp2p_peer_id info"
  by (auto simp: carried_def carry_identity_def Let_def split: option.split)

lemma admit_promoted_others:
  assumes "admit_promoted protected info cap t = (r, t')" and "table_ok cap t" and "u \<noteq> pi_base_url info"
  shows "map_of (pt_peers t') u = map_of (pt_peers t) u \<or> map_of (pt_peers t') u = None"
proof -
  obtain r1 t1 where 1: "insert_bounded protected info cap t = (r1, t1)" by fastforce
  from insert_bounded_spec [OF 1 assms(2)] obtain m where ev: "evicts protected (is_p2p_url (pi_base_url info)) (pt_peers t) m"
    and r: "case r1 of Ok _ \<Rightarrow> pt_peers t1 = AList.update (pi_base_url info) (carried t info) m | Err _ \<Rightarrow> pt_peers t1 = m \<and> map_of (pt_peers t) (pi_base_url info) = None"
    by blast
  have "map_of (pt_peers t1) u = map_of m u" using r assms(3) by (cases r1) (auto simp: update_conv')
  moreover have "pt_peers t' = pt_peers t1" using assms(1) 1 by (cases r1) (auto simp: admit_promoted_def take_unverified_def)
  ultimately show ?thesis using ev by (auto simp: evicts_def)
qed

lemma admit_new_announcer_others:
  assumes "view_ok cfg v" and "admit_new_announcer N cfg pol net source now info v = (r, v')" and "u \<noteq> pi_base_url info"
  shows "map_of (pt_peers (nv_table v')) u = map_of (pt_peers (nv_table v)) u \<or> map_of (pt_peers (nv_table v')) u = None"
proof -
  obtain r1 l where 1: "admit_new_url_from source now (nv_limiter v) = (r1, l)" by fastforce
  show ?thesis
  proof (cases "\<exists>info'. r1 = Ok () \<and> checked_announcer N cfg pol net info = Ok info'")
    case False
    then have "nv_table v' = nv_table v"
      using assms(2) 1 by (auto simp: admit_new_announcer_def Let_def split: sum.splits)
    then show ?thesis by simp
  next
    case True
    then obtain info' where i: "r1 = Ok ()" "checked_announcer N cfg pol net info = Ok info'" by blast
    then have b: "pi_base_url info' = pi_base_url info" by (auto simp: checked_announcer_def rbind_eq_Inr split: if_splits)
    obtain r2 t where 2: "admit_promoted (net_protected N) info' (max_known_peers cfg) (nv_table v) = (r2, t)" by fastforce
    have "nv_table v' = t" using assms(2) 1 i 2 by (cases r2) (auto simp: admit_new_announcer_def Let_def)
    with admit_promoted_others [OF 2, of u] assms b show ?thesis by (simp add: view_ok_def)
  qed
qed

lemma rebind_existing_proven:
  assumes "rebind_existing N cfg pol net source now info v = (info', v')" and "\<not> pi_identity_bound info" and "pi_identity_bound info'"
  shows "\<exists>i. reported_id N pol net (pi_base_url info) = Some i \<and> pi_libp2p_peer_id info = Some i \<and> pi_libp2p_peer_id info' = Some i"
  using assms by (auto simp: rebind_existing_def Let_def split: if_splits prod.splits sum.splits) (metis)

text \<open>Who may change the identity an entry is bound to: the id an authenticated stream proved, for that id's
  own URL, or the id the URL's own server reports.\<close>

definition proven_identity :: "net \<Rightarrow> OutboundPolicy \<Rightarrow> str \<Rightarrow> str option \<Rightarrow> AnnounceRequest \<Rightarrow> str \<Rightarrow> PeerInfo \<Rightarrow> bool" where
  "proven_identity N pol net_id remote body u p \<longleftrightarrow>
     (\<exists>i. pi_libp2p_peer_id p = Some i \<and> an_libp2p_peer_id body = Some i \<and>
        (remote = Some i \<and> u = p2p_base_url i \<or> reported_id N pol net_id u = Some i))"

lemma announce_url_identity:
  assumes "view_ok cfg v" and "announce_url C N cfg pol net source now body v = (r, v')"
    and "map_of (pt_peers (nv_table v)) u = Some p" and "map_of (pt_peers (nv_table v')) u = Some p'"
  shows "same_identity p p' \<or> proven_identity N pol net remote body u p'"
proof (cases "check_shape N cfg (an_base_url body)")
  case (Inl e)
  with assms show ?thesis by (simp add: announce_url_def same_identity_def)
next
  case (Inr base)
  let ?info = "(announced_info N pol now body)\<lparr>pi_base_url := base, pi_witness := announced_advert C base now body\<rparr>"
  show ?thesis
  proof (cases "pt_contains base (nv_table v)")
    case False
    with assms(3) have "u \<noteq> pi_base_url ?info" by (auto simp: pt_contains_def)
    obtain r1 v1 where 1: "admit_new_announcer N cfg pol net source now ?info v = (r1, v1)" by fastforce
    then have "v' = v1" using assms(2) Inr False by (cases r1) (auto simp: announce_url_def Let_def)
    with admit_new_announcer_others [OF assms(1) 1 \<open>u \<noteq> pi_base_url ?info\<close>] assms(3,4) show ?thesis by (auto simp: same_identity_def)
  next
    case True
    obtain i1 v1 where 1: "rebind_existing N cfg pol net source now ?info v = (i1, v1)" by fastforce
    from rebind_existing_view [OF 1] have t1: "nv_table v1 = nv_table v" and b: "pi_base_url i1 = base" by auto
    show ?thesis
    proof (cases "pi_identity_bound i1")
      case bound: True
      have "nv_table v' = upsert i1 (nv_table v)"
        using assms(2) Inr True 1 bound t1 by (auto simp: announce_url_def Let_def)
      with assms(3,4) have "u = base \<and> p' = carried (nv_table v) i1 \<or> p' = p" by (simp add: upsert_lookup b split: if_splits)
      moreover have "\<not> pi_identity_bound ?info" by (simp add: announced_info_def)
      from rebind_existing_proven [OF 1 this bound] carried_bound [OF bound]
      have "proven_identity N pol net remote body base (carried (nv_table v) i1)"
        by (auto simp: proven_identity_def announced_info_def)
      ultimately show ?thesis by (auto simp: same_identity_def)
    next
      case False
      have "nv_table v' = nv_table v \<or> (\<exists>a. nv_table v' = attach_witness base a (nv_table v))"
        using assms(2) Inr True 1 False t1 by (auto simp: announce_url_def Let_def split: option.splits)
      with assms(3,4) attach_witness_identity [OF assms(3)] show ?thesis by (auto simp: same_identity_def) (metis option.inject)+
    qed
  qed
qed

lemma announce_p2p_identity:
  assumes "view_ok cfg v" and "announce_p2p C N cfg pol source now body i v = (r, v')" and "remote = Some i" and "an_libp2p_peer_id body = Some i"
    and "map_of (pt_peers (nv_table v)) u = Some p" and "map_of (pt_peers (nv_table v')) u = Some p'"
  shows "same_identity p p' \<or> proven_identity N pol net remote body u p'"
proof -
  let ?base = "p2p_base_url i"
  let ?info = "(announced_info N pol now body)\<lparr>pi_base_url := ?base, pi_witness := announced_advert C ?base now body, pi_identity_bound := True\<rparr>"
  obtain r1 l where 1: "admit_new_url_from source now (nv_limiter v) = (r1, l)" by fastforce
  obtain r2 t where 2: "admit_promoted (net_protected N) ?info (max_known_peers cfg) (nv_table v) = (r2, t)" by fastforce
  have "nv_table v' = nv_table v \<or> pt_contains ?base (nv_table v) \<and> nv_table v' = upsert ?info (nv_table v) \<or>
      \<not> pt_contains ?base (nv_table v) \<and> nv_table v' = t"
    using assms(2) 1 2
    by (cases r1; cases r2) (auto simp: announce_p2p_def store_authenticated_p2p_announcer_def Let_def split: if_splits)
  then show ?thesis
  proof (elim disjE conjE)
    assume "nv_table v' = upsert ?info (nv_table v)"
    with assms(5,6) have "u = ?base \<and> p' = carried (nv_table v) ?info \<or> p' = p" by (simp add: upsert_lookup split: if_splits)
    moreover have "pi_libp2p_peer_id (carried (nv_table v) ?info) = Some i"
      using carried_bound [of ?info] assms(4) by (simp add: announced_info_def)
    ultimately show ?thesis using assms(3,4) by (auto simp: same_identity_def proven_identity_def)
  next
    assume "\<not> pt_contains ?base (nv_table v)" "nv_table v' = t"
    moreover from this assms(5) have "u \<noteq> pi_base_url ?info" by (auto simp: pt_contains_def)
    ultimately show ?thesis using admit_promoted_others [OF 2, of u] assms(1,5,6) by (auto simp: view_ok_def same_identity_def)
  qed (use assms(5,6) in \<open>simp add: same_identity_def\<close>)
qed

text \<open>C13. Nobody can take over the identity of a known peer by announcing its URL: an announce changes the
  libp2p id of an entry, or whether it is bound, only if the connection was authenticated as that id
  and the URL is that id's own, or the status page at the URL's own checked address reports that id.\<close>

theorem announce_rebinds_only_with_proof:
  assumes "view_ok cfg v" and "announce_under C N cfg pol net_id source now remote body v = (r, cs, v')"
    and "map_of (pt_peers (nv_table v)) u = Some p" and "map_of (pt_peers (nv_table v')) u = Some p'"
  shows "same_identity p p' \<or> proven_identity N pol net_id remote body u p'"
proof (cases "v' = v")
  case True
  with assms(3,4) show ?thesis by (simp add: same_identity_def)
next
  case False
  then obtain p2p where p: "classify_p2p_announce N (an_base_url body) (an_libp2p_peer_id body) remote = Ok p2p" "p2p \<noteq> Unauthenticated"
    using assms(2) by (auto simp: announce_under_def split: if_splits sum.splits)
  obtain r1 v1 where 1: "(case p2p of Authenticated i \<Rightarrow> announce_p2p C N cfg pol source now body i v
      | _ \<Rightarrow> announce_url C N cfg pol net_id source now body v) = (r1, v1)" by fastforce
  have "nv_table v' = nv_table v1"
  proof (cases r1)
    case (Inl e)
    with assms(2) p 1 False show ?thesis by (auto simp: announce_under_def split: if_splits)
  next
    case (Inr who)
    obtain c2 v2 where 2: "announce_merge C N cfg pol source now body who v1 = (c2, v2)" by fastforce
    with assms(2) p 1 Inr False have "v' = v2" by (auto simp: announce_under_def split: if_splits)
    moreover have "nv_table v2 = nv_table v1"
      using announce_merge_table [OF 2] .
    ultimately show ?thesis by simp
  qed
  with assms(4) have p': "map_of (pt_peers (nv_table v1)) u = Some p'" by simp
  show ?thesis
  proof (cases p2p)
    case (Authenticated i)
    have "remote = Some i" "an_libp2p_peer_id body = Some i"
      using p(1) by (auto simp: classify_p2p_announce_def Authenticated split: if_splits option.splits)
    with announce_p2p_identity [OF assms(1) _ _ _ assms(3) p'] 1 Authenticated show ?thesis by simp
  next
    case NotP2p
    with announce_url_identity [OF assms(1) _ assms(3) p'] 1 show ?thesis by simp
  qed (use p(2) in simp)
qed

text \<open>The hypotheses at a stream authenticated as the announced id: the entry its URL names becomes bound.\<close>

definition demo_announce :: AnnounceRequest where
  "demo_announce = \<lparr>an_base_url = ''p2p://id'', an_roles = [], an_protocol_version = ''0.1.0'', an_network_id = ''net'',
     an_libp2p_peer_id = Some ''id'', an_libp2p_listen_addrs = [], an_known_shards = [], an_head_summaries = [], an_witness = None,
     an_connectivity = None\<rparr>"

definition demo_view :: node_view where
  "demo_view = (new_view default_admission)\<lparr>nv_table := \<lparr>pt_peers = [(''p2p://id'', demo_peer ''p2p://id'' 1)], pt_unverified = []\<rparr>\<rparr>"

lemma demo_classified: "classify_p2p_announce demo_net ''p2p://id'' (Some ''id'') (Some ''id'') = Ok (Authenticated ''id'')"
proof -
  have t: "str_trim ''p2p://id'' = ''p2p://id''" by code_simp
  show ?thesis by (simp add: classify_p2p_announce_def is_p2p_url_def parse_p2p_base_def demo_net_def t trim_slashes_def)
qed

theorem announce_rebinds_only_with_proof_witness:
  "\<exists>r cs v' p'. announce_under demo_crates demo_net default_admission \<lparr>allow_private = False\<rparr> ''net'' (V4 7) 9 (Some ''id'') demo_announce demo_view = (r, cs, v') \<and>
     map_of (pt_peers (nv_table v')) ''p2p://id'' = Some p' \<and> pi_identity_bound p' \<and>
     proven_identity demo_net \<lparr>allow_private = False\<rparr> ''net'' (Some ''id'') demo_announce ''p2p://id'' p'"
proof -
  let ?pol = "\<lparr>allow_private = False\<rparr>"
  have ok: "view_ok default_admission demo_view"
    unfolding demo_view_def
    by (rule view_ok_table [OF new_view_ok])
      (simp add: peers_ok_def keyed_def p2p_count_def is_p2p_url_def demo_peer_def default_admission_def MAX_P2P_ENTRIES_def)
  obtain r cs v' where a: "announce_under demo_crates demo_net default_admission ?pol ''net'' (V4 7) 9 (Some ''id'') demo_announce demo_view = (r, cs, v')"
    by (metis surjective_pairing)
  define info where "info = (announced_info demo_net ?pol 9 demo_announce)\<lparr>pi_base_url := ''p2p://id'',
    pi_witness := announced_advert demo_crates ''p2p://id'' 9 demo_announce, pi_identity_bound := True\<rparr>"
  define w where "w = demo_view\<lparr>nv_table := upsert info (nv_table demo_view)\<rparr>"
  have i: "pi_identity_bound info" "pi_base_url info = ''p2p://id''" by (simp_all add: info_def)
  have "pt_contains ''p2p://id'' (nv_table demo_view)" by (simp add: demo_view_def pt_contains_def)
  then obtain who where w1: "announce_p2p demo_crates demo_net default_admission ?pol (V4 7) 9 demo_announce ''id'' demo_view = (Ok who, w)"
    by (simp add: announce_p2p_def store_authenticated_p2p_announcer_def Let_def p2p_base_url_def default_admission_def info_def w_def)
  have w2: "\<exists>p'. map_of (pt_peers (nv_table w)) ''p2p://id'' = Some p' \<and> pi_identity_bound p'"
    using carried_bound [OF i(1)] i(2) by (simp add: w_def upsert_lookup)
  obtain c2 v2 where m: "announce_merge demo_crates demo_net default_admission ?pol (V4 7) 9 demo_announce who w = (c2, v2)" by fastforce
  with a demo_classified w1 have "v' = v2" by (auto simp: announce_under_def demo_announce_def is_supported_def demo_net_def)
  with announce_merge_table [OF m] w2 obtain p' where p': "map_of (pt_peers (nv_table v')) ''p2p://id'' = Some p'" "pi_identity_bound p'" by auto
  have "map_of (pt_peers (nv_table demo_view)) ''p2p://id'' = Some (demo_peer ''p2p://id'' 1)" by (simp add: demo_view_def)
  from announce_rebinds_only_with_proof [OF ok a this p'(1)] p'(2) a p' show ?thesis by (auto simp: same_identity_def demo_peer_def)
qed

text \<open>A node that knows nobody admits the peer of an authenticated stream.\<close>

lemma insert_first:
  "0 < cap \<Longrightarrow> \<exists>p. insert_bounded protected info cap \<lparr>pt_peers = [], pt_unverified = []\<rparr> =
     (Ok None, \<lparr>pt_peers = [(pi_base_url info, p)], pt_unverified = []\<rparr>)"
  by (simp add: insert_bounded_def make_room_def p2p_count_def MAX_P2P_ENTRIES_def Let_def)

theorem node_view_bounded_witness:
  "\<exists>r cs v'. announce_under demo_crates demo_net default_admission \<lparr>allow_private = False\<rparr> ''net'' (V4 7) 9 (Some ''id'') demo_announce
       (new_view default_admission) = (r, cs, v') \<and> map fst (pt_peers (nv_table v')) = [''p2p://id''] \<and>
     length (pt_peers (nv_table v')) \<le> max_known_peers default_admission \<and> p2p_count (pt_peers (nv_table v')) \<le> MAX_P2P_ENTRIES \<and>
     length (nv_inbound v') \<le> MAX_PENDING_INBOUND \<and> length (rl_hits (nv_limiter v')) \<le> MAX_TRACKED_IPS"
proof -
  let ?pol = "\<lparr>allow_private = False\<rparr>" and ?v = "new_view default_admission"
  obtain r cs v' where a: "announce_under demo_crates demo_net default_admission ?pol ''net'' (V4 7) 9 (Some ''id'') demo_announce ?v = (r, cs, v')"
    by (metis surjective_pairing)
  define info where "info = (announced_info demo_net ?pol 9 demo_announce)\<lparr>pi_base_url := ''p2p://id'',
    pi_witness := announced_advert demo_crates ''p2p://id'' 9 demo_announce, pi_identity_bound := True\<rparr>"
  have i: "pi_base_url info = ''p2p://id''" by (simp add: info_def)
  obtain l where l: "admit_new_url_from (V4 7) 9 (nv_limiter ?v) = (Ok (), l)"
    by (simp add: admit_new_url_from_def limiter_check_def new_view_def limiter_new_def default_admission_def MAX_TRACKED_IPS_def live_hits_def Let_def)
  have ad: "\<exists>t. admit_promoted (net_protected demo_net) info (max_known_peers default_admission) (nv_table ?v) = (Ok None, t) \<and> map fst (pt_peers t) = [''p2p://id'']"
  proof -
    have "0 < max_known_peers default_admission" by (simp add: default_admission_def)
    from insert_first [OF this, of "net_protected demo_net" info] i show ?thesis
      by (auto simp: admit_promoted_def new_view_def take_unverified_def)
  qed
  obtain t where t: "admit_promoted (net_protected demo_net) info (max_known_peers default_admission) (nv_table ?v) = (Ok None, t)"
    "map fst (pt_peers t) = [''p2p://id'']" using ad by (elim exE conjE) (rule that)
  define w where "w = ?v\<lparr>nv_limiter := l, nv_table := t\<rparr>"
  have "\<not> pt_contains ''p2p://id'' (nv_table ?v)" by (simp add: new_view_def pt_contains_def)
  then obtain who where w1: "announce_p2p demo_crates demo_net default_admission ?pol (V4 7) 9 demo_announce ''id'' ?v = (Ok who, w)"
    using l t(1) by (simp add: announce_p2p_def store_authenticated_p2p_announcer_def Let_def p2p_base_url_def info_def w_def)
      (simp add: default_admission_def)
  obtain c2 v2 where m: "announce_merge demo_crates demo_net default_admission ?pol (V4 7) 9 demo_announce who w = (c2, v2)" by fastforce
  with a demo_classified w1 have "v' = v2" by (auto simp: announce_under_def demo_announce_def is_supported_def demo_net_def)
  with announce_merge_table [OF m] t(2) have known: "map fst (pt_peers (nv_table v')) = [''p2p://id'']" by (simp add: w_def)
  have "(peer_write default_admission)\<^sup>*\<^sup>* ?v v'"
    using node_view_bounded [OF rtranclp.rtrancl_refl, of default_admission] announced [OF a] by simp
  note b = node_view_bounded [OF this]
  show ?thesis
    by (intro exI [of _ r] exI [of _ cs] exI [of _ v'] conjI) (insert a known b, (elim conjE, assumption)+)
qed

end
