(* ===== verification/Node_Auth.thy ===== *)
theory Node_Auth
  imports Node_Request Announce Retention
begin

text \<open>
  Who is calling a node-to-node write route (the server's \<open>node_auth.rs\<close>): the cache of used nonces, the
  budgets per minute, the checks of a credential before and after its body is read, and the middleware that
  composes them. A \<open>PeerId\<close> is its text; how a key and an id relate to it is the record \<open>peer_ids\<close>. Two answers
  of the standard library are left open and are arguments: \<open>grown\<close>, whether the hash set of nonces has a
  capacity past 4096, and \<open>pick\<close>, which entry a hash map yields first. A panic is \<open>None\<close>.
  \<open>verify_head\<close>, \<open>begin_read\<close> and what follows the body are the steps that requests interleave at; log output is left out.
\<close>

unbundle bit_operations_syntax

definition MAX_SKEW_SECS :: int where "MAX_SKEW_SECS = 60"
definition REPLAY_RETENTION_SECS :: int where "REPLAY_RETENTION_SECS = 2 * MAX_SKEW_SECS + 1"
definition DEFAULT_RATE_PER_MINUTE :: nat where "DEFAULT_RATE_PER_MINUTE = 3000"
definition MAX_REPLAY_ENTRIES :: nat where "MAX_REPLAY_ENTRIES = 1048576"
definition TIMEOUT_FAILURE_UNITS :: nat where "TIMEOUT_FAILURE_UNITS = 10"
definition RECENTLY_GOOD_SECS :: int where "RECENTLY_GOOD_SECS = 600"
definition MAX_RECENTLY_GOOD :: nat where "MAX_RECENTLY_GOOD = 4096"
definition MAX_FAILURE_KEYS :: nat where "MAX_FAILURE_KEYS = 16384"
definition MAX_BUDGET_KEYS :: nat where "MAX_BUDGET_KEYS = 16384"

definition per_signer_cap :: "nat \<Rightarrow> nat" where
  "per_signer_cap rate = 4 * rate + 16"

definition replay_capacity :: "nat \<Rightarrow> nat \<Rightarrow> nat" where
  "replay_capacity standing_keys rate = max 1 (min MAX_REPLAY_ENTRIES (min (standing_keys * per_signer_cap rate) usize_max))"

section \<open>Refusals\<close>

datatype NodeAuthError =
    Missing | Invalid NodeRequestError | PeerMismatch | Replay | NoStanding | RateLimited | ReplayCacheFull | BodyTooLarge
  | BodyReadTimeout | BodyReadFailed | SourceThrottled | Busy | SignerBusy

definition warns :: "NodeAuthError \<Rightarrow> bool" where
  "warns e \<longleftrightarrow> e \<in> {Replay, RateLimited, ReplayCacheFull, Busy, SignerBusy, BodyReadTimeout}"

definition signer_failure_units :: "NodeAuthError \<Rightarrow> nat" where
  "signer_failure_units e =
     (if e = BodyReadTimeout then TIMEOUT_FAILURE_UNITS else if e \<in> {Invalid BodyMismatch, BodyTooLarge, BodyReadFailed} then 1 else 0)"

definition is_expensive_failure :: "NodeAuthError \<Rightarrow> bool" where
  "is_expensive_failure e \<longleftrightarrow> e \<in> {Invalid BadSignature, Invalid BodyMismatch, BodyTooLarge, BodyReadTimeout}"

fun auth_status :: "NodeAuthError \<Rightarrow> nat" where
  "auth_status Missing = 401"
| "auth_status (Invalid _) = 401"
| "auth_status PeerMismatch = 401"
| "auth_status Replay = 401"
| "auth_status NoStanding = 403"
| "auth_status RateLimited = 429"
| "auth_status SourceThrottled = 429"
| "auth_status SignerBusy = 429"
| "auth_status BodyTooLarge = 413"
| "auth_status BodyReadTimeout = 408"
| "auth_status BodyReadFailed = 400"
| "auth_status ReplayCacheFull = 503"
| "auth_status Busy = 503"

fun auth_code :: "NodeAuthError \<Rightarrow> str" where
  "auth_code Missing = ''node_auth_missing''"
| "auth_code (Invalid e) = ''node_auth_'' @ node_error_code e"
| "auth_code PeerMismatch = ''node_auth_peer_mismatch''"
| "auth_code Replay = ''node_auth_replay''"
| "auth_code NoStanding = ''node_auth_no_standing''"
| "auth_code RateLimited = ''node_auth_rate_limited''"
| "auth_code BodyTooLarge = ''node_auth_body_too_large''"
| "auth_code BodyReadTimeout = ''node_auth_body_timeout''"
| "auth_code BodyReadFailed = ''node_auth_body_read''"
| "auth_code ReplayCacheFull = ''node_auth_replay_cache_full''"
| "auth_code SourceThrottled = ''node_auth_source_throttled''"
| "auth_code Busy = ''node_auth_busy''"
| "auth_code SignerBusy = ''node_auth_signer_busy''"

definition auth_into_response :: "NodeAuthError \<Rightarrow> TopologyError" where
  "auth_into_response e = (topology_error (auth_status e) (auth_code e))\<lparr>te_retry_after :=
     (if e \<in> {RateLimited, ReplayCacheFull, Busy, SourceThrottled, SignerBusy} then Some 30 else None)\<rparr>"

section \<open>Used nonces\<close>

record peer_ids =
  key_peer_id :: "bytes \<Rightarrow> str option"
  peer_id_bytes :: "str \<Rightarrow> bytes"

text \<open>The 128-bit number is kept as its 16 bytes.\<close>

definition nonce_key :: "crates \<Rightarrow> peer_ids \<Rightarrow> str \<Rightarrow> bytes \<Rightarrow> bytes" where
  "nonce_key C ids signer nonce = take 16 (sha256 C (peer_id_bytes ids signer @ nonce))"

record ReplayCache =
  ry_seen :: "bytes list"
  ry_order :: "(int \<times> bytes \<times> u32) list"
  ry_per_signer :: "(str \<times> (u32 \<times> u32)) list"
  ry_slots :: "str option list"
  ry_free_slots :: "u32 list"
  ry_max_total :: nat
  ry_max_per_signer :: nat

definition replay_new :: "nat \<Rightarrow> nat \<Rightarrow> ReplayCache" where
  "replay_new max_total max_per_signer = \<lparr>ry_seen = [], ry_order = [], ry_per_signer = [], ry_slots = [], ry_free_slots = [],
     ry_max_total = max_total, ry_max_per_signer = max_per_signer\<rparr>"

definition forget_front :: "ReplayCache \<Rightarrow> ReplayCache option" where
  "forget_front c =
     (case ry_order c of
        [] \<Rightarrow> Some c
      | (_, key, slot) # rest \<Rightarrow>
          (let c = c\<lparr>ry_order := rest, ry_seen := removeAll key (ry_seen c)\<rparr> in
           if unat slot \<ge> length (ry_slots c) then None
           else case ry_slots c ! unat slot of
             None \<Rightarrow> Some c
           | Some signer \<Rightarrow>
               (case map_of (ry_per_signer c) signer of
                  None \<Rightarrow> Some c
                | Some (s, n) \<Rightarrow>
                    if n - 1 = 0
                    then Some (c\<lparr>ry_per_signer := AList.delete signer (ry_per_signer c), ry_slots := (ry_slots c)[unat slot := None],
                                 ry_free_slots := ry_free_slots c @ [slot]\<rparr>)
                    else Some (c\<lparr>ry_per_signer := AList.update signer (s, n - 1) (ry_per_signer c)\<rparr>))))"

lemma forget_front_order: "forget_front c = Some c' \<Longrightarrow> ry_order c' = tl (ry_order c)"
  by (auto simp: forget_front_def Let_def split: list.splits prod.splits if_splits option.splits)

function expire_loop :: "int \<Rightarrow> ReplayCache \<Rightarrow> ReplayCache option" where
  "expire_loop now c =
     (if ry_order c \<noteq> [] \<and> fst (hd (ry_order c)) \<le> now
      then (case forget_front c of None \<Rightarrow> None | Some c' \<Rightarrow> expire_loop now c')
      else Some c)"
  by auto
termination
  by (relation "measure (\<lambda>(_, c). length (ry_order c))") (auto simp: forget_front_order)

declare expire_loop.simps [simp del]

definition replay_expire :: "bool \<Rightarrow> int \<Rightarrow> ReplayCache \<Rightarrow> ReplayCache option" where
  "replay_expire grown now c =
     map_option (\<lambda>c. if ry_order c = [] \<and> grown
        then c\<lparr>ry_seen := [], ry_order := [], ry_per_signer := [], ry_slots := [], ry_free_slots := []\<rparr> else c) (expire_loop now c)"

definition replay_is_live :: "crates \<Rightarrow> peer_ids \<Rightarrow> bool \<Rightarrow> str \<Rightarrow> bytes \<Rightarrow> int \<Rightarrow> ReplayCache \<Rightarrow> (bool \<times> ReplayCache) option" where
  "replay_is_live C ids grown signer nonce now c =
     map_option (\<lambda>c. (nonce_key C ids signer nonce \<in> set (ry_seen c), c)) (replay_expire grown now c)"

definition replay_admit ::
  "crates \<Rightarrow> peer_ids \<Rightarrow> bool \<Rightarrow> str \<Rightarrow> bytes \<Rightarrow> int \<Rightarrow> ReplayCache \<Rightarrow> ((NodeAuthError + unit) \<times> ReplayCache) option" where
  "replay_admit C ids grown signer nonce now c =
     map_option (\<lambda>(live, c).
       (let held = (case map_of (ry_per_signer c) signer of Some (_, n) \<Rightarrow> n | None \<Rightarrow> 0) in
        if live then Err Replay
        else if unat held \<ge> ry_max_per_signer c then Err RateLimited
        else if length (ry_seen c) \<ge> ry_max_total c then Err ReplayCacheFull
        else Ok (), c)) (replay_is_live C ids grown signer nonce now c)"

definition take_slot :: "str \<Rightarrow> ReplayCache \<Rightarrow> u32 \<times> ReplayCache" where
  "take_slot signer c =
     (case map_of (ry_per_signer c) signer of
        Some (slot, n) \<Rightarrow> (slot, c\<lparr>ry_per_signer := AList.update signer (slot, n + 1) (ry_per_signer c)\<rparr>)
      | None \<Rightarrow>
          (case rev (ry_free_slots c) of
             slot # free \<Rightarrow> (slot, c\<lparr>ry_free_slots := rev free, ry_slots := (ry_slots c)[unat slot := Some signer],
                                  ry_per_signer := AList.update signer (slot, 1) (ry_per_signer c)\<rparr>)
           | [] \<Rightarrow> (let slots = ry_slots c @ [None]; slot = of_nat (length slots - 1)
                   in (slot, c\<lparr>ry_slots := slots[unat slot := Some signer],
                              ry_per_signer := AList.update signer (slot, 1) (ry_per_signer c)\<rparr>))))"

definition replay_record :: "crates \<Rightarrow> peer_ids \<Rightarrow> str \<Rightarrow> bytes \<Rightarrow> int \<Rightarrow> ReplayCache \<Rightarrow> ReplayCache" where
  "replay_record C ids signer nonce now c =
     (let key = nonce_key C ids signer nonce in
      case take_slot signer c of
        (slot, c) \<Rightarrow> c\<lparr>ry_seen := List.insert key (ry_seen c),
                      ry_order := ry_order c @ [(i64_saturate (now + REPLAY_RETENTION_SECS), key, slot)]\<rparr>)"

section \<open>Budgets per minute\<close>

record 'k Budget =
  bu_windows :: "('k \<times> (int \<times> nat)) list"
  bu_per_minute :: nat
  bu_max_keys :: nat
  bu_evict_when_full :: bool

definition budget_new :: "nat \<Rightarrow> nat \<Rightarrow> bool \<Rightarrow> 'k Budget" where
  "budget_new per_minute max_keys evict_when_full =
     \<lparr>bu_windows = [], bu_per_minute = per_minute, bu_max_keys = max_keys, bu_evict_when_full = evict_when_full\<rparr>"

definition exhausted :: "'k \<Rightarrow> int \<Rightarrow> 'k Budget \<Rightarrow> bool" where
  "exhausted key now b = (case map_of (bu_windows b) key of Some (m, n) \<Rightarrow> m = now div 60 \<and> n \<ge> bu_per_minute b | None \<Rightarrow> False)"

definition evict_one :: "nat \<Rightarrow> ('k \<times> 'v) list \<Rightarrow> ('k \<times> 'v) list" where
  "evict_one pick w = (if w = [] then [] else AList.delete (fst (w ! (pick mod length w))) w)"

definition charge_units :: "nat \<Rightarrow> 'k \<Rightarrow> nat \<Rightarrow> int \<Rightarrow> 'k Budget \<Rightarrow> bool \<times> 'k Budget" where
  "charge_units pick key units now b =
     (let minute = now div 60;
          full = (length (bu_windows b) \<ge> bu_max_keys b \<and> map_of (bu_windows b) key = None);
          w = (if \<not> full then bu_windows b
               else if bu_evict_when_full b then evict_one pick (bu_windows b)
               else filter (\<lambda>(_, m, _). m = minute) (bu_windows b))
      in if full \<and> \<not> bu_evict_when_full b \<and> length w \<ge> bu_max_keys b then (False, b\<lparr>bu_windows := w\<rparr>)
         else
           let used = (case map_of w key of Some (window, n) \<Rightarrow> if window \<noteq> minute then 0 else n | None \<Rightarrow> 0) in
           if used \<ge> bu_per_minute b then (False, b\<lparr>bu_windows := AList.update key (minute, used) w\<rparr>)
           else (True, b\<lparr>bu_windows := AList.update key (minute, min (min (used + units) (2 ^ 32 - 1)) (bu_per_minute b)) w\<rparr>))"

definition charge :: "nat \<Rightarrow> 'k \<Rightarrow> int \<Rightarrow> 'k Budget \<Rightarrow> bool \<times> 'k Budget" where
  "charge pick key now b = charge_units pick key 1 now b"

definition source_key :: "IpAddr \<Rightarrow> IpAddr" where
  "source_key ip = (case ip of V4 a \<Rightarrow> V4 a | V6 a \<Rightarrow> V6 (a AND push_bit 64 (- 1)))"

section \<open>The receiving side\<close>

definition DEFAULT_FAILED_PER_MINUTE_PER_IP :: nat where "DEFAULT_FAILED_PER_MINUTE_PER_IP = 30"
definition DEFAULT_MAX_CONCURRENT_BODIES :: nat where "DEFAULT_MAX_CONCURRENT_BODIES = 64"
definition DEFAULT_MAX_INFLIGHT_PER_SIGNER :: nat where "DEFAULT_MAX_INFLIGHT_PER_SIGNER = 16"
definition DEFAULT_BODY_READ_TIMEOUT :: duration where "DEFAULT_BODY_READ_TIMEOUT = 5 * 1000000000"
definition DEFAULT_BODY_IDLE_TIMEOUT :: duration where "DEFAULT_BODY_IDLE_TIMEOUT = 1500 * 1000000"

record StageLimits =
  sl_failed_per_minute_per_ip :: nat
  sl_max_concurrent_bodies :: nat
  sl_max_inflight_per_signer :: nat
  sl_body_read_timeout :: duration
  sl_body_idle_timeout :: duration

definition default_limits :: StageLimits where
  "default_limits = \<lparr>sl_failed_per_minute_per_ip = DEFAULT_FAILED_PER_MINUTE_PER_IP, sl_max_concurrent_bodies = DEFAULT_MAX_CONCURRENT_BODIES,
     sl_max_inflight_per_signer = DEFAULT_MAX_INFLIGHT_PER_SIGNER, sl_body_read_timeout = DEFAULT_BODY_READ_TIMEOUT,
     sl_body_idle_timeout = DEFAULT_BODY_IDLE_TIMEOUT\<rparr>"

definition env_positive :: "(str \<Rightarrow> str option) \<Rightarrow> str \<Rightarrow> nat option" where
  "env_positive env name = (case Option.bind (env name) parse_usize of Some n \<Rightarrow> if n > 0 then Some n else None | None \<Rightarrow> None)"

definition limits_from_env :: "(str \<Rightarrow> str option) \<Rightarrow> StageLimits" where
  "limits_from_env env =
     (let get = (\<lambda>name d f. case env_positive env name of Some n \<Rightarrow> f n | None \<Rightarrow> d) in
      \<lparr>sl_failed_per_minute_per_ip = get ''AVALON_NODE_AUTH_FAILED_PER_MINUTE_PER_IP'' (sl_failed_per_minute_per_ip default_limits) (\<lambda>n. min n (2 ^ 32 - 1)),
       sl_max_concurrent_bodies = get ''AVALON_NODE_AUTH_MAX_CONCURRENT_BODIES'' (sl_max_concurrent_bodies default_limits) id,
       sl_max_inflight_per_signer = get ''AVALON_NODE_AUTH_MAX_INFLIGHT_PER_SIGNER'' (sl_max_inflight_per_signer default_limits) (min 64),
       sl_body_read_timeout = (case env_positive env ''AVALON_NODE_AUTH_BODY_TIMEOUT_MS'' of
          Some n \<Rightarrow> int (min n 30000) * 1000000 | None \<Rightarrow> sl_body_read_timeout default_limits),
       sl_body_idle_timeout = (case env_positive env ''AVALON_NODE_AUTH_BODY_IDLE_TIMEOUT_MS'' of
          Some n \<Rightarrow> int (min n 10000) * 1000000 | None \<Rightarrow> sl_body_idle_timeout default_limits)\<rparr>)"

definition rate_per_minute_from_env :: "(str \<Rightarrow> str option) \<Rightarrow> nat" where
  "rate_per_minute_from_env env =
     (case env_positive env ''AVALON_NODE_AUTH_RATE_PER_MINUTE'' of
        Some n \<Rightarrow> if n < 2 ^ 32 then n else DEFAULT_RATE_PER_MINUTE | None \<Rightarrow> DEFAULT_RATE_PER_MINUTE)"

text \<open>\<open>na_body_stage\<close> and \<open>na_reserve_stage\<close> are the free permits of the two semaphores.\<close>

record NodeAuth =
  na_network_id :: str
  na_recipients :: "str list"
  na_replay :: ReplayCache
  na_budget :: "str Budget"
  na_failures :: "IpAddr Budget"
  na_signer_failures :: "str Budget"
  na_inflight :: "(str \<times> nat) list"
  na_body_stage :: nat
  na_reserve_stage :: nat
  na_recent_good :: "(str \<times> int) list"
  na_limits :: StageLimits

definition normalized_origin :: "(str \<Rightarrow> url option) \<Rightarrow> (url \<Rightarrow> str) \<Rightarrow> str \<Rightarrow> str option" where
  "normalized_origin url_parse ascii_origin u =
     (case url_parse u of Some parsed \<Rightarrow> if url_scheme parsed \<in> {''http'', ''https''} then Some (ascii_origin parsed) else None | None \<Rightarrow> None)"

definition with_stage_limits ::
  "(str \<Rightarrow> url option) \<Rightarrow> (url \<Rightarrow> str) \<Rightarrow> str \<Rightarrow> str option \<Rightarrow> str option \<Rightarrow> nat \<Rightarrow> nat \<Rightarrow> StageLimits \<Rightarrow> NodeAuth" where
  "with_stage_limits url_parse ascii_origin network_id own_peer_id own_base_url rate max_replay_entries stage =
     \<lparr>na_network_id = network_id,
      na_recipients = (case own_peer_id of Some i \<Rightarrow> [i] | None \<Rightarrow> []) @
        (case Option.bind own_base_url (normalized_origin url_parse ascii_origin) of Some u \<Rightarrow> [u] | None \<Rightarrow> []),
      na_replay = replay_new max_replay_entries (per_signer_cap rate),
      na_budget = budget_new rate MAX_BUDGET_KEYS False,
      na_failures = budget_new (sl_failed_per_minute_per_ip stage) MAX_FAILURE_KEYS True,
      na_signer_failures = budget_new (sl_failed_per_minute_per_ip stage) MAX_BUDGET_KEYS True,
      na_inflight = [],
      na_body_stage = sl_max_concurrent_bodies stage - sl_max_concurrent_bodies stage div 4,
      na_reserve_stage = sl_max_concurrent_bodies stage div 4,
      na_recent_good = [], na_limits = stage\<rparr>"

definition node_auth_new ::
  "(str \<Rightarrow> url option) \<Rightarrow> (url \<Rightarrow> str) \<Rightarrow> (str \<Rightarrow> str option) \<Rightarrow> nat \<Rightarrow> str \<Rightarrow> str option \<Rightarrow> str option \<Rightarrow> NodeAuth" where
  "node_auth_new url_parse ascii_origin env standing_bound network_id own_peer_id own_base_url =
     (let rate = rate_per_minute_from_env env in
      with_stage_limits url_parse ascii_origin network_id own_peer_id own_base_url rate (replay_capacity standing_bound rate) (limits_from_env env))"

text \<open>The values of the credential header; \<open>None\<close> is one that is not visible ASCII.\<close>

definition header_text :: "str option list \<Rightarrow> NodeAuthError + str" where
  "header_text values =
     (case values of
        [] \<Rightarrow> Err Missing
      | [first] \<Rightarrow> ok_or (Invalid (NodeRequestError.Malformed ''non-ascii'')) first
      | _ \<Rightarrow> Err (Invalid (NodeRequestError.Malformed ''repeated header'')))"

record VerifiedHead =
  vh_signer :: str
  vh_auth :: NodeRequestAuth

definition check_credential ::
  "crates \<Rightarrow> peer_ids \<Rightarrow> PeerTable \<Rightarrow> str option list \<Rightarrow> str \<Rightarrow> str \<Rightarrow> int \<Rightarrow> NodeAuth \<Rightarrow> NodeAuthError + VerifiedHead" where
  "check_credential C ids t headers meth uri now s =
     rbind (header_text headers) (\<lambda>text.
     rbind (map_err Invalid (parse_node_request_header C text)) (\<lambda>auth.
     if a_timestamp auth < i64_saturate (now - MAX_SKEW_SECS) then Err (Invalid Stale)
     else if a_timestamp auth > i64_saturate (now + MAX_SKEW_SECS) then Err (Invalid Future)
     else if key_peer_id ids (a_public_key auth) \<noteq> Some (a_peer_id auth) then Err PeerMismatch
     else if \<not> standing t (a_peer_id auth) then Err NoStanding
     else rbind (map_err Invalid (verify_node_request_head C auth \<lparr>h_method = meth, h_path = uri, h_network_id = na_network_id s\<rparr>
                  (na_recipients s) now MAX_SKEW_SECS)) (\<lambda>_.
       Ok \<lparr>vh_signer = a_peer_id auth, vh_auth = auth\<rparr>)))"

definition verify_head ::
  "crates \<Rightarrow> peer_ids \<Rightarrow> PeerTable \<Rightarrow> bool \<Rightarrow> str option list \<Rightarrow> str \<Rightarrow> str \<Rightarrow> int \<Rightarrow> NodeAuth \<Rightarrow> ((NodeAuthError + VerifiedHead) \<times> NodeAuth) option" where
  "verify_head C ids t grown headers meth uri now s =
     (case check_credential C ids t headers meth uri now s of
        Err e \<Rightarrow> Some (Err e, s)
      | Ok head \<Rightarrow>
          map_option (\<lambda>(replayed, c). (if replayed then Err Replay else Ok head, s\<lparr>na_replay := c\<rparr>))
            (replay_is_live C ids grown (vh_signer head) (a_nonce (vh_auth head)) now (na_replay s)))"

definition source_throttled :: "IpAddr \<Rightarrow> int \<Rightarrow> NodeAuth \<Rightarrow> bool" where
  "source_throttled ip now s = exhausted (source_key ip) now (na_failures s)"

definition note_source_failure :: "nat \<Rightarrow> IpAddr \<Rightarrow> int \<Rightarrow> NodeAuth \<Rightarrow> NodeAuth" where
  "note_source_failure pick ip now s = s\<lparr>na_failures := snd (charge pick (source_key ip) now (na_failures s))\<rparr>"

definition note_signer_failure :: "nat \<Rightarrow> str \<Rightarrow> nat \<Rightarrow> int \<Rightarrow> NodeAuth \<Rightarrow> NodeAuth" where
  "note_signer_failure pick signer units now s = s\<lparr>na_signer_failures := snd (charge_units pick signer units now (na_signer_failures s))\<rparr>"

section \<open>Body reads\<close>

datatype stage = BodyStage | ReserveStage

record ReadGuard =
  rg_stage :: stage
  rg_signer :: str

definition drop_slot :: "str \<Rightarrow> NodeAuth \<Rightarrow> NodeAuth" where
  "drop_slot signer s =
     (case map_of (na_inflight s) signer of
        Some n \<Rightarrow> s\<lparr>na_inflight := (if n - 1 = 0 then AList.delete signer (na_inflight s) else AList.update signer (n - 1) (na_inflight s))\<rparr>
      | None \<Rightarrow> s)"

definition release_stage :: "stage \<Rightarrow> NodeAuth \<Rightarrow> NodeAuth" where
  "release_stage st s =
     (case st of BodyStage \<Rightarrow> s\<lparr>na_body_stage := na_body_stage s + 1\<rparr> | ReserveStage \<Rightarrow> s\<lparr>na_reserve_stage := na_reserve_stage s + 1\<rparr>)"

definition drop_guard :: "ReadGuard \<Rightarrow> NodeAuth \<Rightarrow> NodeAuth" where
  "drop_guard g s = drop_slot (rg_signer g) (release_stage (rg_stage g) s)"

definition recently_good :: "str \<Rightarrow> int \<Rightarrow> NodeAuth \<Rightarrow> bool" where
  "recently_good signer now s = (case map_of (na_recent_good s) signer of Some until \<Rightarrow> until > now | None \<Rightarrow> False)"

definition mark_good :: "nat \<Rightarrow> str \<Rightarrow> int \<Rightarrow> NodeAuth \<Rightarrow> NodeAuth" where
  "mark_good pick signer now s =
     (let m = na_recent_good s;
          m = (if length m \<ge> MAX_RECENTLY_GOOD \<and> map_of m signer = None
               then (let live = filter (\<lambda>(_, until). until > now) m in if length live \<ge> MAX_RECENTLY_GOOD then evict_one pick live else live)
               else m)
      in s\<lparr>na_recent_good := AList.update signer (i64_saturate (now + RECENTLY_GOOD_SECS)) m\<rparr>)"

definition take_stage :: "str \<Rightarrow> int \<Rightarrow> NodeAuth \<Rightarrow> (stage \<times> NodeAuth) option" where
  "take_stage signer now s =
     (if na_body_stage s > 0 then Some (BodyStage, s\<lparr>na_body_stage := na_body_stage s - 1\<rparr>)
      else if recently_good signer now s \<and> na_reserve_stage s > 0
      then Some (ReserveStage, s\<lparr>na_reserve_stage := na_reserve_stage s - 1\<rparr>)
      else None)"

definition consume_nonce_and_budget ::
  "crates \<Rightarrow> peer_ids \<Rightarrow> bool \<Rightarrow> VerifiedHead \<Rightarrow> int \<Rightarrow> NodeAuth \<Rightarrow> ((NodeAuthError + unit) \<times> NodeAuth) option" where
  "consume_nonce_and_budget C ids grown head now s =
     map_option (\<lambda>(r, c).
       case r of
         Err e \<Rightarrow> (Err e, s\<lparr>na_replay := c\<rparr>)
       | Ok _ \<Rightarrow>
           (case charge 0 (vh_signer head) now (na_budget s) of
              (False, b) \<Rightarrow> (Err RateLimited, s\<lparr>na_replay := c, na_budget := b\<rparr>)
            | (True, b) \<Rightarrow> (Ok (), s\<lparr>na_replay := replay_record C ids (vh_signer head) (a_nonce (vh_auth head)) now c, na_budget := b\<rparr>)))
       (replay_admit C ids grown (vh_signer head) (a_nonce (vh_auth head)) now (na_replay s))"

text \<open>An early return drops what was taken so far.\<close>

definition begin_read ::
  "crates \<Rightarrow> peer_ids \<Rightarrow> bool \<Rightarrow> VerifiedHead \<Rightarrow> int \<Rightarrow> NodeAuth \<Rightarrow> ((NodeAuthError + ReadGuard) \<times> NodeAuth) option" where
  "begin_read C ids grown head now s =
     (let signer = vh_signer head in
      if exhausted signer now (na_signer_failures s) then Some (Err RateLimited, s)
      else
        let n = (case map_of (na_inflight s) signer of Some n \<Rightarrow> n | None \<Rightarrow> 0) in
        if n \<ge> sl_max_inflight_per_signer (na_limits s)
        then Some (Err SignerBusy, s\<lparr>na_inflight := AList.update signer n (na_inflight s)\<rparr>)
        else
          let s = s\<lparr>na_inflight := AList.update signer (n + 1) (na_inflight s)\<rparr> in
          case take_stage signer now s of
            None \<Rightarrow> Some (Err Busy, drop_slot signer s)
          | Some (st, s) \<Rightarrow>
              (let g = \<lparr>rg_stage = st, rg_signer = signer\<rparr> in
               map_option (\<lambda>(r, s). case r of Err e \<Rightarrow> (Err e, drop_guard g s) | Ok _ \<Rightarrow> (Ok g, s))
                 (consume_nonce_and_budget C ids grown head now s)))"

definition finish_read :: "crates \<Rightarrow> nat \<Rightarrow> VerifiedHead \<Rightarrow> bytes \<Rightarrow> int \<Rightarrow> NodeAuth \<Rightarrow> (NodeAuthError + str) \<times> NodeAuth" where
  "finish_read C pick head body now s =
     (case verify_node_request_body C (vh_auth head) body of
        Err e \<Rightarrow> (Err (Invalid e), s)
      | Ok _ \<Rightarrow> (Ok (vh_signer head), mark_good pick (vh_signer head) now s))"

definition authenticate_stream :: "PeerTable \<Rightarrow> str \<Rightarrow> int \<Rightarrow> NodeAuth \<Rightarrow> (NodeAuthError + str) \<times> NodeAuth" where
  "authenticate_stream t peer now s =
     (if \<not> standing t peer then (Err NoStanding, s)
      else case charge 0 peer now (na_budget s) of
        (charged, b) \<Rightarrow> (if charged then Ok peer else Err RateLimited, s\<lparr>na_budget := b\<rparr>))"

definition authenticate ::
  "crates \<Rightarrow> peer_ids \<Rightarrow> PeerTable \<Rightarrow> bool \<Rightarrow> nat \<Rightarrow> str option \<Rightarrow> str option list \<Rightarrow> str \<Rightarrow> str \<Rightarrow> bytes \<Rightarrow> int \<Rightarrow> NodeAuth \<Rightarrow>
   ((NodeAuthError + str) \<times> NodeAuth) option" where
  "authenticate C ids t grown pick remote headers meth uri body now s =
     (case remote of
        Some peer \<Rightarrow> Some (authenticate_stream t peer now s)
      | None \<Rightarrow>
          (case verify_head C ids t grown headers meth uri now s of
             None \<Rightarrow> None
           | Some (Err e, s) \<Rightarrow> Some (Err e, s)
           | Some (Ok head, s) \<Rightarrow>
               (case begin_read C ids grown head now s of
                  None \<Rightarrow> None
                | Some (Err e, s) \<Rightarrow> Some (Err e, s)
                | Some (Ok g, s) \<Rightarrow> (case finish_read C pick head body now s of (r, s) \<Rightarrow> Some (r, drop_guard g s)))))"

section \<open>The middleware\<close>

text \<open>What a body yields: chunks, then its end; \<open>Elapsed\<close> is either of the two timeouts.\<close>

datatype body_event = Chunk bytes | Broken | Elapsed

fun read_body :: "nat \<Rightarrow> bytes \<Rightarrow> body_event list \<Rightarrow> NodeAuthError + bytes" where
  "read_body limit buf [] = Ok buf"
| "read_body limit buf (Chunk c # es) = (if length buf + length c > limit then Err BodyTooLarge else read_body limit (buf @ c) es)"
| "read_body limit buf (Broken # es) = Err BodyReadFailed"
| "read_body limit buf (Elapsed # es) = Err BodyReadTimeout"

definition request_source ::
  "'n net_ops \<Rightarrow> (str \<Rightarrow> IpAddr option) \<Rightarrow> (str \<Rightarrow> SocketAddr option) \<Rightarrow> 'n list \<Rightarrow> IpAddr option \<Rightarrow> str option list \<Rightarrow> IpAddr" where
  "request_source N ip_of sock_of proxies connected forwarded =
     (case connected of Some addr \<Rightarrow> client_ip N ip_of sock_of proxies addr forwarded | None \<Rightarrow> V4 0)"

definition refuse_request :: "nat \<Rightarrow> bool \<Rightarrow> bool \<Rightarrow> IpAddr \<Rightarrow> int \<Rightarrow> NodeAuthError \<Rightarrow> str option \<Rightarrow> NodeAuth \<Rightarrow> NodeAuthError \<times> NodeAuth" where
  "refuse_request pick streamed throttled source now e signer s =
     (let s = (if \<not> streamed \<and> is_expensive_failure e \<and> \<not> throttled then note_source_failure pick source now s else s);
          s = (case signer of
                 Some i \<Rightarrow> if \<not> streamed \<and> signer_failure_units e \<ge> 1 then note_signer_failure pick i (signer_failure_units e) now s else s
               | None \<Rightarrow> s)
      in (if throttled \<and> e \<noteq> Missing then SourceThrottled else e, s))"

record open_read =
  or_head :: VerifiedHead
  or_guard :: ReadGuard
  or_throttled :: bool
  or_source :: IpAddr
  or_now :: int

text \<open>A request over plain HTTP up to its body read, and from the body on.\<close>

definition auth_begin ::
  "crates \<Rightarrow> peer_ids \<Rightarrow> PeerTable \<Rightarrow> bool \<Rightarrow> nat \<Rightarrow> str option list \<Rightarrow> str \<Rightarrow> str \<Rightarrow> IpAddr \<Rightarrow> int \<Rightarrow> NodeAuth \<Rightarrow>
   ((NodeAuthError + open_read) \<times> NodeAuth) option" where
  "auth_begin C ids t grown pick headers meth uri source now s =
     (let throttled = source_throttled source now s;
          refuse = (\<lambda>e signer s. case refuse_request pick False throttled source now e signer s of (e, s) \<Rightarrow> (Err e, s))
      in if headers = [] then Some (refuse Missing None s)
         else case verify_head C ids t grown headers meth uri now s of
           None \<Rightarrow> None
         | Some (Err e, s) \<Rightarrow> Some (refuse e None s)
         | Some (Ok head, s) \<Rightarrow>
             (case begin_read C ids grown head now s of
                None \<Rightarrow> None
              | Some (Err e, s) \<Rightarrow> Some (refuse e (Some (vh_signer head)) s)
              | Some (Ok g, s) \<Rightarrow>
                  Some (Ok \<lparr>or_head = head, or_guard = g, or_throttled = throttled, or_source = source, or_now = now\<rparr>, s)))"

definition auth_end :: "crates \<Rightarrow> nat \<Rightarrow> nat \<Rightarrow> open_read \<Rightarrow> body_event list \<Rightarrow> NodeAuth \<Rightarrow> (NodeAuthError + str \<times> bytes) \<times> NodeAuth" where
  "auth_end C pick limit r body s =
     (let refuse = (\<lambda>e s. case refuse_request pick False (or_throttled r) (or_source r) (or_now r) e (Some (vh_signer (or_head r))) s of
                            (e, s) \<Rightarrow> (Err e, drop_guard (or_guard r) s))
      in case read_body limit [] body of
           Err e \<Rightarrow> refuse e s
         | Ok bs \<Rightarrow>
             (case finish_read C pick (or_head r) bs (or_now r) s of
                (Err e, s) \<Rightarrow> refuse e s
              | (Ok node, s) \<Rightarrow> (Ok (node, bs), drop_guard (or_guard r) s)))"

definition stream_bytes :: "nat \<Rightarrow> body_event list \<Rightarrow> NodeAuthError + bytes" where
  "stream_bytes limit body = map_err (\<lambda>_. BodyTooLarge) (read_body limit [] body)"

definition require_node_auth ::
  "crates \<Rightarrow> peer_ids \<Rightarrow> PeerTable \<Rightarrow> bool \<Rightarrow> nat \<Rightarrow> nat \<Rightarrow> str option \<Rightarrow> str option list \<Rightarrow> str \<Rightarrow> str \<Rightarrow> IpAddr \<Rightarrow> body_event list \<Rightarrow> int \<Rightarrow> NodeAuth \<Rightarrow>
   ((NodeAuthError + str \<times> bytes) \<times> NodeAuth) option" where
  "require_node_auth C ids t grown pick limit remote headers meth uri source body now s =
     (case remote of
        Some peer \<Rightarrow>
          (let refuse = (\<lambda>e s. case refuse_request pick True False source now e None s of (e, s) \<Rightarrow> (Err e, s)) in
           Some (case stream_bytes limit body of
             Err e \<Rightarrow> refuse e s
           | Ok bs \<Rightarrow> (case authenticate_stream t peer now s of (Err e, s) \<Rightarrow> refuse e s | (Ok node, s) \<Rightarrow> (Ok (node, bs), s))))
      | None \<Rightarrow>
          (case auth_begin C ids t grown pick headers meth uri source now s of
             None \<Rightarrow> None
           | Some (Err e, s) \<Rightarrow> Some (Err e, s)
           | Some (Ok r, s) \<Rightarrow> Some (auth_end C pick limit r body s)))"

end
