(* ===== verification/Node_Auth_Facts.thy ===== *)
theory Node_Auth_Facts
  imports Node_Auth Announce_Facts
begin

text \<open>
  Facts on the node credential. The cache of nonces, with its hash set, its counters per signer and its
  recycled slots, behaves as a queue of used nonces; the rest rests on the locale \<open>nonce_store\<close>, the contract
  of such a queue. A run interleaves requests between any two of their turns at the nonces, and a request may act
  on a reading of the clock that others have overtaken: a signed header is used once, what a read takes is given
  back, and in clock order a key stays within its budget per minute and its share of nonces is never the reason
  to refuse it.
\<close>

section \<open>Slots\<close>

definition uses_of :: "(int \<times> bytes \<times> u32) list \<Rightarrow> nat \<Rightarrow> nat" where
  "uses_of order i = length (filter (\<lambda>(_, _, sl). unat sl = i) order)"

lemma uses_of_simps [simp]:
  "uses_of [] i = 0"
  "uses_of ((e, k, sl) # order) i = (if unat sl = i then Suc (uses_of order i) else uses_of order i)"
  "uses_of (order @ order') i = uses_of order i + uses_of order' i"
  by (simp_all add: uses_of_def)

lemma uses_of_tl: "uses_of (x # order) i = 0 \<Longrightarrow> uses_of order i = 0"
  by (simp add: uses_of_def split: if_splits)

lemma uses_of_pos: "0 < uses_of order i \<longleftrightarrow> (\<exists>(e, k, sl) \<in> set order. unat sl = i)"
  by (induction order) (auto simp: uses_of_def)

text \<open>Each signer with live nonces has a slot of its own and the count of its nonces; the other slots are free.\<close>

definition slots_ok :: "(int \<times> bytes \<times> u32) list \<Rightarrow> (str \<times> u32 \<times> u32) list \<Rightarrow> str option list \<Rightarrow> u32 list \<Rightarrow> bool" where
  "slots_ok order per slots free \<longleftrightarrow> distinct (map fst per) \<and>
     (\<forall>g sl n. map_of per g = Some (sl, n) \<longrightarrow> unat sl < length slots \<and> slots ! unat sl = Some g \<and> unat n = uses_of order (unat sl)) \<and>
     (\<forall>i<length slots. case slots ! i of
        Some g \<Rightarrow> (\<exists>sl n. map_of per g = Some (sl, n) \<and> unat sl = i) \<and> 0 < uses_of order i | None \<Rightarrow> uses_of order i = 0) \<and>
     (\<forall>i\<ge>length slots. uses_of order i = 0) \<and>
     distinct free \<and> unat ` set free = {i. i < length slots \<and> slots ! i = None}"

lemma slots_okD:
  assumes "slots_ok order per slots free"
  shows "distinct (map fst per)"
    and "map_of per g = Some (sl, n) \<Longrightarrow> unat sl < length slots \<and> slots ! unat sl = Some g \<and> unat n = uses_of order (unat sl)"
    and "i < length slots \<Longrightarrow> slots ! i = Some g \<Longrightarrow> (\<exists>sl n. map_of per g = Some (sl, n) \<and> unat sl = i) \<and> 0 < uses_of order i"
    and "i < length slots \<Longrightarrow> slots ! i = None \<Longrightarrow> uses_of order i = 0"
    and "\<not> i < length slots \<Longrightarrow> uses_of order i = 0"
    and "distinct free" and "unat ` set free = {i. i < length slots \<and> slots ! i = None}"
  using assms by (fastforce simp: slots_ok_def split: option.splits)+

lemma slots_okI:
  assumes "distinct (map fst per)"
    and "\<And>g sl n. map_of per g = Some (sl, n) \<Longrightarrow> unat sl < length slots \<and> slots ! unat sl = Some g \<and> unat n = uses_of order (unat sl)"
    and "\<And>i g. i < length slots \<Longrightarrow> slots ! i = Some g \<Longrightarrow> (\<exists>sl n. map_of per g = Some (sl, n) \<and> unat sl = i) \<and> 0 < uses_of order i"
    and "\<And>i. i < length slots \<Longrightarrow> slots ! i = None \<Longrightarrow> uses_of order i = 0"
    and "\<And>i. length slots \<le> i \<Longrightarrow> uses_of order i = 0"
    and "distinct free" and "unat ` set free = {i. i < length slots \<and> slots ! i = None}"
  shows "slots_ok order per slots free"
  using assms by (auto simp: slots_ok_def split: option.splits)

lemma slots_ok_used:
  assumes "slots_ok order per slots free" and "(e, k, sl) \<in> set order"
  shows "\<exists>g n. unat sl < length slots \<and> slots ! unat sl = Some g \<and> map_of per g = Some (sl, n) \<and> unat n = uses_of order (unat sl)"
proof -
  note ok = slots_okD [OF assms(1)]
  from assms(2) have p: "0 < uses_of order (unat sl)" by (force simp: uses_of_pos)
  then have l: "unat sl < length slots" using ok(5) by fastforce
  then obtain g where g: "slots ! unat sl = Some g" using ok(4) [OF l] p by (cases "slots ! unat sl") auto
  from ok(3) [OF l g] obtain n where n: "map_of per g = Some (sl, n)" by (auto simp: word_unat_eq_iff)
  with l g ok(2) [OF n] show ?thesis by auto
qed

lemma slots_ok_pop_some:
  assumes "slots_ok ((e, k, sl) # rest) per slots free" and "map_of per g = Some (sl, n)" and "0 < uses_of rest (unat sl)"
  shows "slots_ok rest (AList.update g (sl, n - 1) per) slots free"
proof -
  note ok = slots_okD [OF assms(1)]
  from ok(2) [OF assms(2)] have g: "unat sl < length slots" "slots ! unat sl = Some g" "unat n = Suc (uses_of rest (unat sl))" by auto
  have n1: "unat (n - 1) = uses_of rest (unat sl)" using g(3) by (metis diff_Suc_1 unat_minus_one unat_0 nat.distinct(1))
  show ?thesis
  proof (rule slots_okI)
    fix g' sl' n' assume "map_of (AList.update g (sl, n - 1) per) g' = Some (sl', n')"
    then show "unat sl' < length slots \<and> slots ! unat sl' = Some g' \<and> unat n' = uses_of rest (unat sl')"
      using ok(2) [of g' sl' n'] g n1 by (auto simp: update_conv' split: if_splits)
  next
    fix i g' assume i: "i < length slots" "slots ! i = Some g'"
    from ok(3) [OF this] assms(2,3) g(2) i show "(\<exists>sl' n'. map_of (AList.update g (sl, n - 1) per) g' = Some (sl', n') \<and> unat sl' = i) \<and> 0 < uses_of rest i"
      by (auto simp: update_conv' split: if_splits)
  next
    show "uses_of rest i = 0" if "i < length slots" "slots ! i = None" for i using ok(4) [OF that] by (rule uses_of_tl)
    show "uses_of rest i = 0" if "length slots \<le> i" for i using ok(5) [of i] that by (simp split: if_splits)
  qed (use ok(1,6,7) in \<open>simp_all add: distinct_update\<close>)
qed

lemma slots_ok_pop_last:
  assumes "slots_ok ((e, k, sl) # rest) per slots free" and "map_of per g = Some (sl, n)" and "uses_of rest (unat sl) = 0"
  shows "slots_ok rest (AList.delete g per) (slots[unat sl := None]) (free @ [sl])"
proof -
  note ok = slots_okD [OF assms(1)]
  from ok(2) [OF assms(2)] have g: "unat sl < length slots" "slots ! unat sl = Some g" by auto
  have "unat sl \<notin> unat ` set free" unfolding ok(7) using g by simp
  then have nf: "sl \<notin> set free" by blast
  show ?thesis
  proof (rule slots_okI)
    fix g' sl' n' assume "map_of (AList.delete g per) g' = Some (sl', n')"
    then have g': "g' \<noteq> g" "map_of per g' = Some (sl', n')" by (auto simp: delete_conv' split: if_splits)
    with ok(2) [of g' sl' n'] g show "unat sl' < length (slots[unat sl := None]) \<and> slots[unat sl := None] ! unat sl' = Some g' \<and> unat n' = uses_of rest (unat sl')"
      by (auto simp: nth_list_update split: if_splits)
  next
    fix i g' assume i: "i < length (slots[unat sl := None])" "slots[unat sl := None] ! i = Some g'"
    then have "i \<noteq> unat sl" "i < length slots" by (auto simp: nth_list_update split: if_splits)
    moreover from this i(2) have "slots ! i = Some g'" by simp
    ultimately show "(\<exists>sl' n'. map_of (AList.delete g per) g' = Some (sl', n') \<and> unat sl' = i) \<and> 0 < uses_of rest i"
      using ok(3) [of i g'] g assms(2) by (auto simp: delete_conv' split: if_splits)
  next
    fix i assume "i < length (slots[unat sl := None])" "slots[unat sl := None] ! i = None"
    then show "uses_of rest i = 0" using ok(4) [of i] assms(3) by (cases "i = unat sl") (auto split: if_splits)
  next
    show "unat ` set (free @ [sl]) = {i. i < length (slots[unat sl := None]) \<and> slots[unat sl := None] ! i = None}"
      using ok(7) g by (auto simp: nth_list_update)
  next
    show "uses_of rest i = 0" if "length (slots[unat sl := None]) \<le> i" for i using ok(5) [of i] that by (simp split: if_splits)
  qed (use ok(1,6) nf in \<open>simp_all add: distinct_delete\<close>)
qed

lemma slots_ok_push_known:
  assumes "slots_ok order per slots free" and "map_of per g = Some (sl, n)" and "Suc (uses_of order (unat sl)) < 2 ^ 32"
  shows "slots_ok (order @ [(e, k, sl)]) (AList.update g (sl, n + 1) per) slots free"
proof -
  note ok = slots_okD [OF assms(1)]
  from ok(2) [OF assms(2)] have g: "unat sl < length slots" "slots ! unat sl = Some g" "unat n = uses_of order (unat sl)" by auto
  have n1: "unat (n + 1) = Suc (uses_of order (unat sl))" using g(3) assms(3) by (simp add: unat_word_ariths)
  show ?thesis
  proof (rule slots_okI)
    fix g' sl' n' assume "map_of (AList.update g (sl, n + 1) per) g' = Some (sl', n')"
    then show "unat sl' < length slots \<and> slots ! unat sl' = Some g' \<and> unat n' = uses_of (order @ [(e, k, sl)]) (unat sl')"
      using ok(2) [of g' sl' n'] g n1 by (auto simp: update_conv' split: if_splits)
  next
    fix i g' assume i: "i < length slots" "slots ! i = Some g'"
    from ok(3) [OF this] assms(2) g(2) i
    show "(\<exists>sl' n'. map_of (AList.update g (sl, n + 1) per) g' = Some (sl', n') \<and> unat sl' = i) \<and> 0 < uses_of (order @ [(e, k, sl)]) i"
      by (auto simp: update_conv' split: if_splits)
  next
    show "uses_of (order @ [(e, k, sl)]) i = 0" if "i < length slots" "slots ! i = None" for i using ok(4) [OF that] g that by auto
    show "uses_of (order @ [(e, k, sl)]) i = 0" if "length slots \<le> i" for i using ok(5) [of i] that g by auto
  qed (use ok(1,6,7) in \<open>simp_all add: distinct_update\<close>)
qed

lemma slots_ok_push_slot:
  assumes "slots_ok order per slots free" and "map_of per g = None" and "unat sl < length slots'"
    and "\<And>i. i < length slots' \<Longrightarrow> slots' ! i = (if i = unat sl then Some g else slots ! i)"
    and "length slots' = length slots \<and> slots ! unat sl = None \<or> length slots' = Suc (length slots) \<and> unat sl = length slots"
    and "distinct free'" and "unat ` set free' = {i. i < length slots' \<and> slots' ! i = None}"
  shows "slots_ok (order @ [(e, k, sl)]) (AList.update g (sl, 1) per) slots' free'"
proof -
  note ok = slots_okD [OF assms(1)]
  have z: "uses_of order (unat sl) = 0" using assms(3,5) ok(4) [of "unat sl"] ok(5) [of "unat sl"] by auto
  have old: "i < length slots" if "i < length slots'" "i \<noteq> unat sl" for i using that assms(5) by auto
  show ?thesis
  proof (rule slots_okI)
    fix g' sl' n' assume a: "map_of (AList.update g (sl, 1) per) g' = Some (sl', n')"
    show "unat sl' < length slots' \<and> slots' ! unat sl' = Some g' \<and> unat n' = uses_of (order @ [(e, k, sl)]) (unat sl')"
    proof (cases "g' = g")
      case True
      with a z assms(3,4) show ?thesis by (auto simp: update_conv')
    next
      case False
      with a have "map_of per g' = Some (sl', n')" by (simp add: update_conv')
      from ok(2) [OF this] have g': "unat sl' < length slots" "slots ! unat sl' = Some g'" "unat n' = uses_of order (unat sl')" by auto
      then have "unat sl' \<noteq> unat sl" using assms(5) by auto
      with g' assms(4) [of "unat sl'"] assms(5) show ?thesis by auto
    qed
  next
    fix i g' assume i: "i < length slots'" "slots' ! i = Some g'"
    show "(\<exists>sl' n'. map_of (AList.update g (sl, 1) per) g' = Some (sl', n') \<and> unat sl' = i) \<and> 0 < uses_of (order @ [(e, k, sl)]) i"
    proof (cases "i = unat sl")
      case True
      with i assms(4) show ?thesis by (auto simp: update_conv')
    next
      case False
      with i assms(4) ok(3) [of i g'] old [OF i(1)] have "\<exists>sl' n'. map_of per g' = Some (sl', n') \<and> unat sl' = i" "0 < uses_of order i" by auto
      with assms(2) show ?thesis by (auto simp: update_conv')
    qed
  next
    show "uses_of (order @ [(e, k, sl)]) i = 0" if "i < length slots'" "slots' ! i = None" for i
      using assms(4) [OF that(1)] ok(4) [of i] old [OF that(1)] that(2) by (auto split: if_splits)
    show "uses_of (order @ [(e, k, sl)]) i = 0" if "length slots' \<le> i" for i using ok(5) [of i] that assms(3,5) by auto
  qed (use ok(1) assms(6,7) in \<open>simp_all add: distinct_update\<close>)
qed

text \<open>With no free slot there are no more slots than live nonces.\<close>

lemma slots_le_order:
  assumes "slots_ok order per slots []"
  shows "length slots \<le> length order"
proof -
  note ok = slots_okD [OF assms]
  have "{i. i < length slots} \<subseteq> (\<lambda>(_, _, sl). unat sl) ` set order"
  proof
    fix i assume "i \<in> {i. i < length slots}"
    moreover from this ok(7) have "slots ! i \<noteq> None" by auto
    ultimately have "0 < uses_of order i" using ok(3) by blast
    then show "i \<in> (\<lambda>(_, _, sl). unat sl) ` set order" by (force simp: uses_of_pos)
  qed
  from card_mono [OF _ this] have "length slots \<le> card ((\<lambda>(_, _, sl). unat sl) ` set order)" by simp
  also have "\<dots> \<le> length order" by (meson card_image_le card_length finite_set le_trans)
  finally show ?thesis .
qed

section \<open>The cache is a queue of used nonces\<close>

type_synonym nonce_queue = "(int \<times> bytes \<times> str) list"

definition queue_of :: "ReplayCache \<Rightarrow> nonce_queue" where
  "queue_of c = map (\<lambda>(e, k, sl). (e, k, the (ry_slots c ! unat sl))) (ry_order c)"

definition nonces_ok :: "ReplayCache \<Rightarrow> bool" where
  "nonces_ok c \<longleftrightarrow> slots_ok (ry_order c) (ry_per_signer c) (ry_slots c) (ry_free_slots c) \<and> distinct (map (fst \<circ> snd) (ry_order c)) \<and>
     distinct (ry_seen c) \<and> set (ry_seen c) = set (map (fst \<circ> snd) (ry_order c)) \<and> length (ry_order c) \<le> ry_max_total c \<and>
     length (ry_slots c) \<le> ry_max_total c \<and> ry_max_total c < 2 ^ 32"

abbreviation caps_of :: "ReplayCache \<Rightarrow> nat \<times> nat" where
  "caps_of c \<equiv> (ry_max_total c, ry_max_per_signer c)"

definition live_at :: "int \<Rightarrow> nonce_queue \<Rightarrow> nonce_queue" where
  "live_at now q = dropWhile (\<lambda>(e, _). e \<le> now) q"

lemma queue_of_simps [simp]:
  "length (queue_of c) = length (ry_order c)" "map fst (queue_of c) = map fst (ry_order c)"
  "map (fst \<circ> snd) (queue_of c) = map (fst \<circ> snd) (ry_order c)" "queue_of c = [] \<longleftrightarrow> ry_order c = []"
  by (auto simp: queue_of_def)

lemma seen_length: "nonces_ok c \<Longrightarrow> length (ry_seen c) = length (ry_order c)"
  unfolding nonces_ok_def by (metis distinct_card length_map)

lemma forget_front_ok:
  assumes "nonces_ok c" and "ry_order c \<noteq> []"
  shows "\<exists>c'. forget_front c = Some c' \<and> nonces_ok c' \<and> queue_of c' = tl (queue_of c) \<and> caps_of c' = caps_of c"
proof -
  from assms(2) obtain e k sl rest where o: "ry_order c = (e, k, sl) # rest" by (cases "ry_order c") auto
  have s: "slots_ok ((e, k, sl) # rest) (ry_per_signer c) (ry_slots c) (ry_free_slots c)" using assms(1) o by (simp add: nonces_ok_def)
  from slots_ok_used [OF s, of e k sl] obtain g n where g: "unat sl < length (ry_slots c)" "ry_slots c ! unat sl = Some g"
    "map_of (ry_per_signer c) g = Some (sl, n)" "unat n = Suc (uses_of rest (unat sl))" by auto
  have n1: "unat (n - 1) = uses_of rest (unat sl)" using g(4) by (metis diff_Suc_1 unat_minus_one unat_0 nat.distinct(1))
  then have z: "n - 1 = 0 \<longleftrightarrow> uses_of rest (unat sl) = 0" by (metis unat_eq_zero)
  have keys: "distinct (map (fst \<circ> snd) rest)" "set (removeAll k (ry_seen c)) = set (map (fst \<circ> snd) rest)"
    using assms(1) o by (auto simp: nonces_ok_def)
  show ?thesis
  proof (cases "uses_of rest (unat sl) = 0")
    case True
    then have "slots_ok rest (AList.delete g (ry_per_signer c)) ((ry_slots c)[unat sl := None]) (ry_free_slots c @ [sl])"
      by (rule slots_ok_pop_last [OF s g(3)])
    moreover have "map (\<lambda>(e, k, sl'). (e, k, the ((ry_slots c)[unat sl := None] ! unat sl'))) rest = tl (queue_of c)"
    proof -
      have "unat sl' \<noteq> unat sl" if "(e', k', sl') \<in> set rest" for e' k' sl' using True that uses_of_pos [of rest "unat sl"] by force
      then show ?thesis by (auto simp: queue_of_def o) (metis nth_list_update_neq)
    qed
    ultimately show ?thesis using assms(1) keys o g z True
      by (simp add: forget_front_def Let_def nonces_ok_def queue_of_def distinct_removeAll)
  next
    case False
    then have "slots_ok rest (AList.update g (sl, n - 1) (ry_per_signer c)) (ry_slots c) (ry_free_slots c)"
      by (intro slots_ok_pop_some [OF s g(3)]) simp
    then show ?thesis using assms(1) keys o g z False
      by (simp add: forget_front_def Let_def nonces_ok_def queue_of_def distinct_removeAll)
  qed
qed

lemma expire_loop_ok:
  "nonces_ok c \<Longrightarrow> \<exists>c'. expire_loop now c = Some c' \<and> nonces_ok c' \<and> queue_of c' = live_at now (queue_of c) \<and> caps_of c' = caps_of c"
proof (induction now c rule: expire_loop.induct)
  case (1 now c)
  have hd: "queue_of c = (fst (hd (ry_order c)), snd (hd (queue_of c))) # tl (queue_of c)" if "ry_order c \<noteq> []"
    using that by (cases "ry_order c") (auto simp: queue_of_def)
  show ?case
  proof (cases "ry_order c \<noteq> [] \<and> fst (hd (ry_order c)) \<le> now")
    case True
    from forget_front_ok [OF "1.prems"] True obtain c1 where c1: "forget_front c = Some c1" "nonces_ok c1" "queue_of c1 = tl (queue_of c)" "caps_of c1 = caps_of c" by auto
    have "live_at now (queue_of c) = live_at now (tl (queue_of c))" using hd True by (metis (mono_tags, lifting) case_prodI dropWhile.simps(2) live_at_def)
    with "1.IH" [OF True c1(1,2)] c1 True show ?thesis by (subst expire_loop.simps) auto
  next
    case False
    have "live_at now (queue_of c) = queue_of c"
    proof (cases "ry_order c = []")
      case nonempty: False
      from hd [OF this] False nonempty show ?thesis by (metis (no_types, lifting) case_prodD dropWhile.simps(2) live_at_def)
    qed (simp add: live_at_def queue_of_def)
    with False "1.prems" show ?thesis by (subst expire_loop.simps) auto
  qed
qed

lemma empty_nonces_ok: "max_total < 2 ^ 32 \<Longrightarrow> nonces_ok (replay_new max_total per_signer)"
  by (simp add: nonces_ok_def replay_new_def slots_ok_def)

lemma replay_expire_ok:
  assumes "nonces_ok c"
  shows "\<exists>c'. replay_expire grown now c = Some c' \<and> nonces_ok c' \<and> queue_of c' = live_at now (queue_of c) \<and> caps_of c' = caps_of c"
proof -
  from expire_loop_ok [OF assms] obtain c1 where c1: "expire_loop now c = Some c1" "nonces_ok c1" "queue_of c1 = live_at now (queue_of c)"
    "caps_of c1 = caps_of c" by blast
  have "nonces_ok (c1\<lparr>ry_seen := [], ry_order := [], ry_per_signer := [], ry_slots := [], ry_free_slots := []\<rparr>)"
    using c1(2) by (simp add: nonces_ok_def slots_ok_def)
  with c1 show ?thesis by (cases "ry_order c1 = []") (auto simp: replay_expire_def queue_of_def)
qed

text \<open>The counter of a signer is the number of its live nonces.\<close>

lemma held_count:
  assumes "nonces_ok c"
  shows "length (filter (\<lambda>(_, _, g'). g' = g) (queue_of c)) = (case map_of (ry_per_signer c) g of Some (_, n) \<Rightarrow> unat n | None \<Rightarrow> 0)"
proof -
  note ok = slots_okD [OF conjunct1 [OF assms [unfolded nonces_ok_def]]]
  note some = slots_ok_used [OF conjunct1 [OF assms [unfolded nonces_ok_def]]]
  show ?thesis
  proof (cases "map_of (ry_per_signer c) g")
    case None
    with some have "filter (\<lambda>(_, _, g'). g' = g) (queue_of c) = []" by (fastforce simp: queue_of_def filter_empty_conv)
    with None show ?thesis by simp
  next
    case (Some p)
    then obtain sl n where p: "map_of (ry_per_signer c) g = Some (sl, n)" by (cases p) auto
    from ok(2) [OF p] have g: "ry_slots c ! unat sl = Some g" "unat n = uses_of (ry_order c) (unat sl)" by auto
    have "the (ry_slots c ! unat sl') = g \<longleftrightarrow> unat sl' = unat sl" if "(e, k, sl') \<in> set (ry_order c)" for e k sl'
      using some [OF that] g p by auto
    then have "filter ((\<lambda>(_, _, g'). g' = g) \<circ> (\<lambda>(e, k, sl). (e, k, the (ry_slots c ! unat sl)))) (ry_order c) =
        filter (\<lambda>(_, _, sl'). unat sl' = unat sl) (ry_order c)" by (intro filter_cong) auto
    with g(2) p show ?thesis by (simp add: queue_of_def filter_map uses_of_def)
  qed
qed

text \<open>What the queue answers: a repeat, a signer at its share and a full queue are refused.\<close>

definition queue_admit :: "nat \<times> nat \<Rightarrow> bytes \<Rightarrow> str \<Rightarrow> nonce_queue \<Rightarrow> NodeAuthError + unit" where
  "queue_admit caps key g q =
     (if key \<in> set (map (fst \<circ> snd) q) then Err Replay
      else if length (filter (\<lambda>(_, _, g'). g' = g) q) \<ge> snd caps then Err RateLimited
      else if length q \<ge> fst caps then Err ReplayCacheFull
      else Ok ())"

lemma replay_is_live_ok:
  assumes "nonces_ok c"
  shows "\<exists>c'. replay_is_live C ids grown g nonce now c = Some (nonce_key C ids g nonce \<in> set (map (fst \<circ> snd) (live_at now (queue_of c))), c') \<and>
     nonces_ok c' \<and> queue_of c' = live_at now (queue_of c) \<and> caps_of c' = caps_of c"
proof -
  from replay_expire_ok [OF assms] obtain c1 where c1: "replay_expire grown now c = Some c1" "nonces_ok c1" "queue_of c1 = live_at now (queue_of c)"
    "caps_of c1 = caps_of c" by blast
  have "set (ry_seen c1) = set (map (fst \<circ> snd) (queue_of c1))" using c1(2) by (simp only: nonces_ok_def queue_of_simps)
  with c1 show ?thesis by (simp add: replay_is_live_def)
qed

lemma replay_admit_ok:
  assumes "nonces_ok c"
  shows "\<exists>c'. replay_admit C ids grown g nonce now c = Some (queue_admit (caps_of c) (nonce_key C ids g nonce) g (live_at now (queue_of c)), c') \<and>
     nonces_ok c' \<and> queue_of c' = live_at now (queue_of c) \<and> caps_of c' = caps_of c"
proof -
  from replay_is_live_ok [OF assms] obtain c1 where
    c1: "replay_is_live C ids grown g nonce now c = Some (nonce_key C ids g nonce \<in> set (map (fst \<circ> snd) (live_at now (queue_of c))), c1)"
      "nonces_ok c1" "queue_of c1 = live_at now (queue_of c)" "caps_of c1 = caps_of c" by blast
  have h: "unat (case map_of (ry_per_signer c1) g of Some (_, n) \<Rightarrow> n | None \<Rightarrow> 0) = length (filter (\<lambda>(_, _, g'). g' = g) (live_at now (queue_of c)))"
    using held_count [OF c1(2), of g] c1(3) by (auto split: option.splits prod.splits)
  have l: "length (ry_seen c1) = length (live_at now (queue_of c))"
    using seen_length [OF c1(2)] queue_of_simps(1) [of c1] c1(3) by simp
  show ?thesis using c1 by (simp add: replay_admit_def queue_admit_def Let_def h l del: set_map)
qed

lemma take_slot_ok:
  assumes "nonces_ok c" and "length (ry_order c) < ry_max_total c" and "take_slot g c = (sl, c')"
  shows "slots_ok (ry_order c @ [(e, k, sl)]) (ry_per_signer c') (ry_slots c') (ry_free_slots c') \<and> ry_slots c' ! unat sl = Some g \<and>
     (\<forall>(_, _, sl') \<in> set (ry_order c). ry_slots c' ! unat sl' = ry_slots c ! unat sl') \<and> length (ry_slots c') \<le> ry_max_total c \<and>
     ry_order c' = ry_order c \<and> ry_seen c' = ry_seen c \<and> caps_of c' = caps_of c"
proof -
  have s: "slots_ok (ry_order c) (ry_per_signer c) (ry_slots c) (ry_free_slots c)" and b: "length (ry_slots c) \<le> ry_max_total c" "ry_max_total c < 2 ^ 32"
    using assms(1) by (auto simp: nonces_ok_def)
  note ok = slots_okD [OF s]
  note used = slots_ok_used [OF s]
  show ?thesis
  proof (cases "map_of (ry_per_signer c) g")
    case (Some p)
    then obtain sl0 n where p: "map_of (ry_per_signer c) g = Some (sl0, n)" by (cases p) auto
    have "uses_of (ry_order c) (unat sl0) \<le> length (ry_order c)" by (simp add: uses_of_def)
    then have "Suc (uses_of (ry_order c) (unat sl0)) < 2 ^ 32" using assms(2) b(2) by simp
    from slots_ok_push_known [OF s p this] p assms(3) ok(2) [OF p] b show ?thesis by (auto simp: take_slot_def)
  next
    case None
    show ?thesis
    proof (cases "rev (ry_free_slots c)")
      case (Cons sl0 free)
      then have f: "ry_free_slots c = rev free @ [sl0]" by (metis rev_rev_ident rev.simps(2))
      have "unat sl0 \<in> {i. i < length (ry_slots c) \<and> ry_slots c ! i = None}" unfolding ok(7) [symmetric] f by simp
      then have sl0: "unat sl0 < length (ry_slots c)" "ry_slots c ! unat sl0 = None" by auto
      have "unat ` set (rev free) = unat ` set (ry_free_slots c) - {unat sl0}" using ok(6) unfolding f by (auto dest!: iffD2 [OF word_unat_eq_iff])
      also have "\<dots> = {i. i < length ((ry_slots c)[unat sl0 := Some g]) \<and> (ry_slots c)[unat sl0 := Some g] ! i = None}"
        unfolding ok(7) using sl0(1) by (auto simp: nth_list_update split: if_splits)
      finally have "slots_ok (ry_order c @ [(e, k, sl0)]) (AList.update g (sl0, 1) (ry_per_signer c)) ((ry_slots c)[unat sl0 := Some g]) (rev free)"
        using ok(6) sl0 f by (intro slots_ok_push_slot [OF s None]) (auto simp: nth_list_update)
      moreover have "unat sl' \<noteq> unat sl0" if "(e', k', sl') \<in> set (ry_order c)" for e' k' sl' using used [OF that] sl0 by auto
      ultimately show ?thesis using assms(3) None Cons sl0 b by (fastforce simp: take_slot_def)
    next
      case Nil
      let ?sl = "of_nat (length (ry_slots c)) :: u32"
      have l: "length (ry_slots c) < ry_max_total c" using slots_le_order [of "ry_order c" "ry_per_signer c" "ry_slots c"] s Nil assms(2) by simp
      then have u: "unat ?sl = length (ry_slots c)" using b(2) by (simp add: unat_of_nat take_bit_nat_eq_self)
      have "slots_ok (ry_order c @ [(e, k, ?sl)]) (AList.update g (?sl, 1) (ry_per_signer c)) (ry_slots c @ [Some g]) []"
        using ok(6,7) Nil u by (intro slots_ok_push_slot [OF s None]) (auto simp: nth_append)
      then show ?thesis using assms(3) None Nil u l used by (fastforce simp: take_slot_def Let_def nth_append list_update_append)
    qed
  qed
qed

lemma replay_record_ok:
  assumes "nonces_ok c" and "queue_admit (caps_of c) (nonce_key C ids g nonce) g (queue_of c) = Ok ()"
  shows "nonces_ok (replay_record C ids g nonce now c) \<and>
     queue_of (replay_record C ids g nonce now c) = queue_of c @ [(i64_saturate (now + REPLAY_RETENTION_SECS), nonce_key C ids g nonce, g)] \<and>
     caps_of (replay_record C ids g nonce now c) = caps_of c"
proof -
  let ?e = "i64_saturate (now + REPLAY_RETENTION_SECS)" and ?k = "nonce_key C ids g nonce"
  from assms(2) have a: "?k \<notin> set (map (fst \<circ> snd) (ry_order c))" "length (ry_order c) < ry_max_total c"
    by (simp_all add: queue_admit_def del: set_map split: if_splits)
  obtain sl c' where t: "take_slot g c = (sl, c')" by fastforce
  note ts = take_slot_ok [OF assms(1) a(2) t, of ?e ?k]
  have q: "map (\<lambda>(e, k, sl). (e, k, the (ry_slots c' ! unat sl))) (ry_order c) = queue_of c" unfolding queue_of_def
    using ts by (intro map_cong) auto
  have r: "replay_record C ids g nonce now c = c'\<lparr>ry_seen := List.insert ?k (ry_seen c'), ry_order := ry_order c' @ [(?e, ?k, sl)]\<rparr>"
    by (simp add: replay_record_def Let_def t)
  have "nonces_ok (replay_record C ids g nonce now c)" using assms(1) a ts by (auto simp: r nonces_ok_def)
  moreover have "queue_of (replay_record C ids g nonce now c) = queue_of c @ [(?e, ?k, g)]"
    using ts q by (simp add: r queue_of_def)
  ultimately show ?thesis using ts by (simp add: r)
qed

section \<open>Single use\<close>

type_synonym nonce_uses = "(int \<times> bytes \<times> str) list"

text \<open>\<open>hist\<close> lists every nonce used so far with the time of its use. The queue holds the latest of them, and
  those it no longer holds had expired at a reading of the clock up to \<open>clock\<close>. In clock order the uses are sorted.\<close>

definition held :: "int \<Rightarrow> nonce_uses \<Rightarrow> nonce_queue \<Rightarrow> bool" where
  "held clock hist q \<longleftrightarrow>
     (\<exists>old live. hist = old @ live \<and> q = map (\<lambda>(t, k, g). (t + REPLAY_RETENTION_SECS, k, g)) live \<and> (\<forall>u\<in>set old. fst u + REPLAY_RETENTION_SECS \<le> clock))"

definition in_order :: "int \<Rightarrow> nonce_uses \<Rightarrow> bool" where
  "in_order clock hist \<longleftrightarrow> sorted (map fst hist) \<and> (\<forall>u\<in>set hist. fst u \<le> clock)"

lemma held_later: "held clock hist q \<Longrightarrow> clock \<le> clock' \<Longrightarrow> held clock' hist q"
  unfolding held_def by force

lemma held_live:
  assumes "held clock hist q"
  shows "held (max clock now) hist (live_at now q)"
    and "u \<in> set hist \<Longrightarrow> max clock now < fst u + REPLAY_RETENTION_SECS \<Longrightarrow> (fst u + REPLAY_RETENTION_SECS, snd u) \<in> set (live_at now q)"
proof -
  let ?e = "\<lambda>(t, k, g). (t + REPLAY_RETENTION_SECS, k, g) :: int \<times> bytes \<times> str" and ?dead = "\<lambda>u :: int \<times> bytes \<times> str. fst u + REPLAY_RETENTION_SECS \<le> now"
  from assms obtain old live where h: "hist = old @ live" "q = map ?e live" "\<forall>u\<in>set old. fst u + REPLAY_RETENTION_SECS \<le> clock"
    by (auto simp: held_def)
  have l: "live_at now q = map ?e (dropWhile ?dead live)"
    unfolding live_at_def h(2) dropWhile_map by (simp add: comp_def case_prod_beta)
  have "hist = (old @ takeWhile ?dead live) @ dropWhile ?dead live" by (simp add: h(1))
  moreover have gone: "\<forall>u\<in>set (old @ takeWhile ?dead live). fst u + REPLAY_RETENTION_SECS \<le> max clock now"
    using h(3) by (fastforce dest: set_takeWhileD)
  ultimately show "held (max clock now) hist (live_at now q)" using l unfolding held_def by blast
  assume u: "u \<in> set hist" "max clock now < fst u + REPLAY_RETENTION_SECS"
  have "set hist = set (old @ takeWhile ?dead live) \<union> set (dropWhile ?dead live)"
    unfolding h(1) by (metis append.assoc set_append takeWhile_dropWhile_id)
  with u gone have "u \<in> set (dropWhile ?dead live)" by (metis UnE not_le)
  then show "(fst u + REPLAY_RETENTION_SECS, snd u) \<in> set (live_at now q)" unfolding l by (force simp: case_prod_unfold)
qed

lemma held_store:
  "held clock hist q \<Longrightarrow> held clock (hist @ [(now, k, g)]) (q @ [(now + REPLAY_RETENTION_SECS, k, g)])"
  by (force simp: held_def)

lemma in_order_store: "in_order clock hist \<Longrightarrow> clock \<le> now \<Longrightarrow> in_order now (hist @ [(now, k, g)])"
  by (force simp: in_order_def sorted_append)

lemma in_order_later: "in_order clock hist \<Longrightarrow> clock \<le> now \<Longrightarrow> in_order now hist"
  by (force simp: in_order_def)

lemma in_order_live:
  assumes "in_order clock hist" and "held clock hist q" and "clock \<le> now"
  shows "set (live_at now q) = (\<lambda>(t, k, g). (t + REPLAY_RETENTION_SECS, k, g)) ` {u \<in> set hist. now < fst u + REPLAY_RETENTION_SECS}"
    and "length (filter (\<lambda>(_, _, g'). g' = g) (live_at now q)) = length (filter (\<lambda>(t, _, g'). g' = g \<and> now < t + REPLAY_RETENTION_SECS) hist)"
proof -
  let ?e = "\<lambda>(t, k, g). (t + REPLAY_RETENTION_SECS, k, g) :: int \<times> bytes \<times> str" and ?dead = "\<lambda>u :: int \<times> bytes \<times> str. fst u + REPLAY_RETENTION_SECS \<le> now"
  from assms(2) obtain old live where h: "hist = old @ live" "q = map ?e live" "\<forall>u\<in>set old. fst u + REPLAY_RETENTION_SECS \<le> clock"
    by (auto simp: held_def)
  have "sorted (map fst live)" using assms(1) h(1) by (simp add: in_order_def sorted_append)
  then have dw: "\<not> ?dead u" if "u \<in> set (dropWhile ?dead live)" for u
    using that by (induction live) (auto split: if_splits)
  have l: "live_at now q = map ?e (dropWhile ?dead live)"
    unfolding live_at_def h(2) dropWhile_map by (simp add: comp_def case_prod_beta)
  have split: "hist = (old @ takeWhile ?dead live) @ dropWhile ?dead live" by (simp add: h(1))
  have dead: "?dead u" if "u \<in> set (old @ takeWhile ?dead live)" for u using that h(3) assms(3) by (auto dest: set_takeWhileD)
  have "filter (\<lambda>u. \<not> ?dead u) hist = filter (\<lambda>u. \<not> ?dead u) (old @ takeWhile ?dead live) @ filter (\<lambda>u. \<not> ?dead u) (dropWhile ?dead live)"
    by (subst split) (rule filter_append)
  moreover have "filter (\<lambda>u. \<not> ?dead u) (old @ takeWhile ?dead live) = []" using dead by (simp only: filter_empty_conv) blast
  moreover have "filter (\<lambda>u. \<not> ?dead u) (dropWhile ?dead live) = dropWhile ?dead live" using dw by (intro filter_True) blast
  ultimately have f: "dropWhile ?dead live = filter (\<lambda>u. \<not> ?dead u) hist" by simp
  show "set (live_at now q) = ?e ` {u \<in> set hist. now < fst u + REPLAY_RETENTION_SECS}" unfolding l f by auto
  show "length (filter (\<lambda>(_, _, g'). g' = g) (live_at now q)) = length (filter (\<lambda>(t, _, g'). g' = g \<and> now < t + REPLAY_RETENTION_SECS) hist)"
    unfolding l f by (simp add: filter_map comp_def case_prod_unfold filter_filter not_le conj_commute)
qed

definition clock_ok :: "int \<Rightarrow> bool" where
  "clock_ok now \<longleftrightarrow> \<bar>now\<bar> < 2 ^ 62"

locale nonce_store =
  fixes ok :: "'c \<Rightarrow> bool" and queue :: "'c \<Rightarrow> nonce_queue" and caps :: "'c \<Rightarrow> nat \<times> nat"
    and admit :: "bool \<Rightarrow> str \<Rightarrow> bytes \<Rightarrow> int \<Rightarrow> 'c \<Rightarrow> ((NodeAuthError + unit) \<times> 'c) option"
    and store :: "str \<Rightarrow> bytes \<Rightarrow> int \<Rightarrow> 'c \<Rightarrow> 'c" and key :: "str \<Rightarrow> bytes \<Rightarrow> bytes"
  assumes admit_spec: "ok c \<Longrightarrow> \<exists>c'. admit x g n now c = Some (queue_admit (caps c) (key g n) g (live_at now (queue c)), c') \<and>
      ok c' \<and> queue c' = live_at now (queue c) \<and> caps c' = caps c"
    and store_spec: "ok c \<Longrightarrow> queue_admit (caps c) (key g n) g (queue c) = Ok () \<Longrightarrow> ok (store g n now c) \<and>
      queue (store g n now c) = queue c @ [(i64_saturate (now + REPLAY_RETENTION_SECS), key g n, g)] \<and> caps (store g n now c) = caps c"
begin

text \<open>A nonce that is admitted has not been used within the retention before the latest reading of the clock; a
  refusal changes nothing but what has expired.\<close>

lemma used_once:
  assumes "ok c" and "held clock hist (queue c)" and "clock_ok now" and "admit x g n now c = Some (Ok (), c')"
  shows "ok (store g n now c') \<and> held (max clock now) (hist @ [(now, key g n, g)]) (queue (store g n now c')) \<and> caps (store g n now c') = caps c"
    and "ok c' \<and> held (max clock now) hist (queue c') \<and> caps c' = caps c"
    and "(t, key g n, g') \<in> set hist \<Longrightarrow> t + REPLAY_RETENTION_SECS \<le> max clock now"
proof -
  from admit_spec [OF assms(1), of x g n now] assms(4) have a: "queue_admit (caps c) (key g n) g (queue c') = Ok ()" "ok c'"
    "queue c' = live_at now (queue c)" "caps c' = caps c" by auto
  show kept: "ok c' \<and> held (max clock now) hist (queue c') \<and> caps c' = caps c" using a held_live(1) [OF assms(2)] by simp
  have sat: "i64_saturate (now + REPLAY_RETENTION_SECS) = now + REPLAY_RETENTION_SECS"
    using assms(3) by (simp add: clock_ok_def i64_saturate_def REPLAY_RETENTION_SECS_def MAX_SKEW_SECS_def)
  from store_spec [OF a(2), of g n now] a kept
  show "ok (store g n now c') \<and> held (max clock now) (hist @ [(now, key g n, g)]) (queue (store g n now c')) \<and> caps (store g n now c') = caps c"
    by (simp add: sat held_store)
  show "t + REPLAY_RETENTION_SECS \<le> max clock now" if h: "(t, key g n, g') \<in> set hist"
  proof (rule ccontr)
    assume "\<not> t + REPLAY_RETENTION_SECS \<le> max clock now"
    with held_live(2) [OF assms(2) h, of now] have "(t + REPLAY_RETENTION_SECS, key g n, g') \<in> set (queue c')" by (simp add: a(3) not_le)
    with a(1) show False by (force simp: queue_admit_def split: if_splits)
  qed
qed

lemma refused_keeps:
  assumes "ok c" and "held clock hist (queue c)" and "admit x g n now c = Some (Err e, c')"
  shows "ok c' \<and> held (max clock now) hist (queue c') \<and> caps c' = caps c"
  using admit_spec [OF assms(1), of x g n now] assms(3) held_live(1) [OF assms(2), of now] by auto

end

interpretation rc: nonce_store nonces_ok queue_of caps_of "replay_admit C ids" "replay_record C ids" "nonce_key C ids" for C ids
  using replay_admit_ok replay_record_ok by unfold_locales

section \<open>Budgets\<close>

definition spent :: "('k \<times> int) list \<Rightarrow> 'k \<Rightarrow> int \<Rightarrow> nat" where
  "spent hist k m = length (filter (\<lambda>(k', t). k' = k \<and> t div 60 = m) hist)"

lemma spent_append [simp]: "spent (hist @ [(k', t)]) k m = spent hist k m + (if k' = k \<and> t div 60 = m then 1 else 0)"
  by (simp add: spent_def)

definition used_in :: "int \<Rightarrow> (int \<times> nat) option \<Rightarrow> nat" where
  "used_in m w = (case w of Some (m', n) \<Rightarrow> if m' = m then n else 0 | None \<Rightarrow> 0)"

text \<open>\<open>hist\<close> lists the charges that were granted; a budget that does not evict counts those of the current minute.\<close>

definition budget_ok :: "int \<Rightarrow> ('k \<times> int) list \<Rightarrow> 'k Budget \<Rightarrow> bool" where
  "budget_ok clock hist b \<longleftrightarrow> \<not> bu_evict_when_full b \<and> distinct (map fst (bu_windows b)) \<and> bu_per_minute b < 2 ^ 32 \<and>
     0 < bu_max_keys b \<and> length (bu_windows b) \<le> bu_max_keys b \<and> (\<forall>(k, t)\<in>set hist. t \<le> clock) \<and>
     (\<forall>(k, m, n)\<in>set (bu_windows b). m \<le> clock div 60) \<and>
     (\<forall>k. used_in (clock div 60) (map_of (bu_windows b) k) = spent hist k (clock div 60)) \<and> (\<forall>k m. spent hist k m \<le> bu_per_minute b)"

lemma budget_new_ok: "rate < 2 ^ 32 \<Longrightarrow> 0 < keys \<Longrightarrow> budget_ok clock [] (budget_new rate keys False)"
  by (simp add: budget_ok_def budget_new_def used_in_def spent_def)

lemma budget_advance:
  assumes "budget_ok clock hist b" and "clock \<le> now"
  shows "budget_ok now hist b"
proof (cases "now div 60 = clock div 60")
  case True
  with assms show ?thesis by (fastforce simp: budget_ok_def)
next
  case False
  have le: "clock div 60 \<le> now div 60" using assms(2) by (rule zdiv_mono1) simp
  with False have lt: "clock div 60 < now div 60" by simp
  have "t div 60 < now div 60" if "(k, t) \<in> set hist" for k t
  proof -
    from assms(1) that have "t \<le> clock" by (auto simp: budget_ok_def)
    then have "t div 60 \<le> clock div 60" by (rule zdiv_mono1) simp
    with lt show ?thesis by simp
  qed
  then have "spent hist k (now div 60) = 0" for k by (fastforce simp: spent_def filter_empty_conv)
  moreover have m: "m < now div 60" if "(k, m, n) \<in> set (bu_windows b)" for k m n
    using assms(1) that lt by (fastforce simp: budget_ok_def)
  then have "used_in (now div 60) (map_of (bu_windows b) k) = 0" for k
    by (fastforce simp: used_in_def dest: map_of_SomeD split: option.splits)
  ultimately show ?thesis using assms m by (fastforce simp: budget_ok_def)
qed

lemma used_in_retain:
  assumes "distinct (map fst w)"
  shows "used_in m (map_of (filter (\<lambda>(_, m', _). m' = m) w) k) = used_in m (map_of w k)"
proof (cases "map_of w k")
  case None
  then have "map_of (filter (\<lambda>(_, m', _). m' = m) w) k = None" by (auto simp: map_of_eq_None_iff)
  with None show ?thesis by simp
next
  case (Some p)
  with assms show ?thesis by (cases p) (auto simp: used_in_def map_of_filter)
qed

lemma charge_ok:
  assumes "budget_ok now hist b" and "charge pick key now b = (r, b')"
  shows "budget_ok now (if r then hist @ [(key, now)] else hist) b' \<and> bu_per_minute b' = bu_per_minute b \<and> bu_max_keys b' = bu_max_keys b"
proof -
  let ?m = "now div 60"
  let ?full = "length (bu_windows b) \<ge> bu_max_keys b \<and> map_of (bu_windows b) key = None"
  define w where "w = (if ?full then filter (\<lambda>(_, m, _). m = ?m) (bu_windows b) else bu_windows b)"
  define used where "used = used_in ?m (map_of w key)"
  have ne: "\<not> bu_evict_when_full b" and d: "distinct (map fst (bu_windows b))" and lim: "length (bu_windows b) \<le> bu_max_keys b" "0 < bu_max_keys b"
    and rate: "bu_per_minute b < 2 ^ 32" and sp: "used_in ?m (map_of (bu_windows b) k) = spent hist k ?m" "spent hist k m \<le> bu_per_minute b"
    and win: "(k, m, n) \<in> set (bu_windows b) \<Longrightarrow> m \<le> ?m" and hist: "(k, t) \<in> set hist \<Longrightarrow> t \<le> now" for k m n t
    using assms(1) by (auto simp: budget_ok_def)
  have w: "distinct (map fst w)" "length w \<le> bu_max_keys b" "\<And>k m n. (k, m, n) \<in> set w \<Longrightarrow> m \<le> ?m"
    "\<And>k. used_in ?m (map_of w k) = spent hist k ?m"
    using d lim win sp(1) used_in_retain [OF d] by (auto simp: w_def distinct_filter_keys intro: le_trans [OF length_filter_le] split: if_splits)
  have wok: "budget_ok now hist (b\<lparr>bu_windows := w\<rparr>)" using w ne rate lim sp(2) hist by (auto simp: budget_ok_def)
  have upd: "budget_ok now h (b\<lparr>bu_windows := AList.update key (?m, n) w\<rparr>)"
    if room: "map_of w key \<noteq> None \<or> length w < bu_max_keys b" and n: "n = spent h key ?m" and h: "\<And>k. k \<noteq> key \<Longrightarrow> spent h k ?m = spent hist k ?m"
      "\<And>k m. spent h k m \<le> bu_per_minute b" "\<And>k t. (k, t) \<in> set h \<Longrightarrow> t \<le> now" for h n
    using w ne rate lim room n h
    by (auto simp: budget_ok_def length_update distinct_update set_update update_conv' used_in_def)
  have room: "map_of w key \<noteq> None \<or> length w < bu_max_keys b" if "\<not> (?full \<and> length w \<ge> bu_max_keys b)"
    using that lim by (auto simp: w_def)
  have used: "used = spent hist key ?m" by (simp add: used_def w(4))
  have w1: "(if \<not> ?full then bu_windows b else if bu_evict_when_full b then evict_one pick (bu_windows b)
      else filter (\<lambda>(_, m, _). m = ?m) (bu_windows b)) = w" using ne by (simp add: w_def)
  have u1: "(case map_of w key of Some (window, n) \<Rightarrow> if window \<noteq> ?m then 0 else n | None \<Rightarrow> 0) = used"
    by (auto simp: used_def used_in_def split: option.splits)
  have c: "charge pick key now b =
      (if ?full \<and> length w \<ge> bu_max_keys b then (False, b\<lparr>bu_windows := w\<rparr>)
       else if used \<ge> bu_per_minute b then (False, b\<lparr>bu_windows := AList.update key (?m, used) w\<rparr>)
       else (True, b\<lparr>bu_windows := AList.update key (?m, min (min (used + 1) (2 ^ 32 - 1)) (bu_per_minute b)) w\<rparr>))"
    unfolding charge_def charge_units_def Let_def w1 u1 using ne by simp
  consider (full) "?full \<and> length w \<ge> bu_max_keys b" | (over) "\<not> (?full \<and> length w \<ge> bu_max_keys b)" "used \<ge> bu_per_minute b"
    | (under) "\<not> (?full \<and> length w \<ge> bu_max_keys b)" "used < bu_per_minute b" by linarith
  then show ?thesis
  proof cases
    case full
    with c assms(2) wok show ?thesis by auto
  next
    case over
    have "budget_ok now hist (b\<lparr>bu_windows := AList.update key (?m, used) w\<rparr>)"
      by (rule upd [OF room [OF over(1)] used]) (use sp(2) hist in auto)
    with c assms(2) over show ?thesis by auto
  next
    case under
    then have "min (min (used + 1) (2 ^ 32 - 1)) (bu_per_minute b) = used + 1" using rate by simp
    moreover have "budget_ok now (hist @ [(key, now)]) (b\<lparr>bu_windows := AList.update key (?m, used + 1) w\<rparr>)"
      by (rule upd [OF room [OF under(1)]]) (use used under sp(2) hist in \<open>auto simp: Suc_le_eq\<close>)
    ultimately show ?thesis using c assms(2) under by auto
  qed
qed

text \<open>However late a request comes, the table of keys stays within its size.\<close>

definition budget_fits :: "'k Budget \<Rightarrow> bool" where
  "budget_fits b \<longleftrightarrow> \<not> bu_evict_when_full b \<and> length (bu_windows b) \<le> bu_max_keys b"

lemma budget_ok_fits: "budget_ok clock hist b \<Longrightarrow> budget_fits b"
  by (simp add: budget_ok_def budget_fits_def)

lemma length_update_new: "length (AList.update k v xs) = (if map_of xs k = None then Suc (length xs) else length xs)"
  by (simp add: length_update map_of_eq_None_iff)

lemma charge_fits:
  assumes "budget_fits b" and "charge pick key now b = (r, b')"
  shows "budget_fits b' \<and> bu_per_minute b' = bu_per_minute b \<and> bu_max_keys b' = bu_max_keys b"
proof -
  have "length (filter P (bu_windows b)) \<le> bu_max_keys b" for P using assms(1) by (simp add: budget_fits_def le_trans [OF length_filter_le])
  with assms show ?thesis
    by (auto simp: budget_fits_def charge_def charge_units_def Let_def length_update_new split: if_splits option.splits)
qed

section \<open>Reads in flight\<close>

definition inflight_of :: "NodeAuth \<Rightarrow> str \<Rightarrow> nat" where
  "inflight_of s g = (case map_of (na_inflight s) g of Some n \<Rightarrow> n | None \<Rightarrow> 0)"

definition inflight_ok :: "str list \<Rightarrow> NodeAuth \<Rightarrow> bool" where
  "inflight_ok signers s \<longleftrightarrow> distinct (map fst (na_inflight s)) \<and>
     (\<forall>g. inflight_of s g = count_list signers g) \<and> (\<forall>g. count_list signers g \<le> sl_max_inflight_per_signer (na_limits s))"

definition stages_ok :: "stage list \<Rightarrow> NodeAuth \<Rightarrow> bool" where
  "stages_ok stages s \<longleftrightarrow>
     (let n = sl_max_concurrent_bodies (na_limits s) in
      na_body_stage s + count_list stages BodyStage = n - n div 4 \<and> na_reserve_stage s + count_list stages ReserveStage = n div 4)"

definition reads_ok :: "StageLimits \<Rightarrow> ReadGuard list \<Rightarrow> NodeAuth \<Rightarrow> bool" where
  "reads_ok lim gs s \<longleftrightarrow> na_limits s = lim \<and> inflight_ok (map rg_signer gs) s \<and> stages_ok (map rg_stage gs) s"

lemma drop_slot_ok:
  assumes "inflight_ok (gs @ g # gs') s"
  shows "inflight_ok (gs @ gs') (drop_slot g s)"
proof -
  have i: "inflight_of s x = count_list (gs @ g # gs') x \<and> inflight_of s x \<le> sl_max_inflight_per_signer (na_limits s)" for x
    using assms unfolding inflight_ok_def by metis
  then have c: "inflight_of s x = count_list (gs @ gs') x + (if x = g then 1 else 0)" "inflight_of s x \<le> sl_max_inflight_per_signer (na_limits s)" for x
    using i [of x] by simp_all
  from c(1) [of g] obtain n where n: "map_of (na_inflight s) g = Some (Suc n)" "n = count_list (gs @ gs') g"
    by (auto simp: inflight_of_def split: option.splits)
  have "inflight_of (drop_slot g s) x = count_list (gs @ gs') x" for x
    using c(1) [of x] n by (auto simp: drop_slot_def inflight_of_def update_conv' delete_conv' split: option.splits)
  moreover have "distinct (map fst (na_inflight (drop_slot g s)))" "na_limits (drop_slot g s) = na_limits s"
    using assms n by (auto simp: drop_slot_def inflight_ok_def distinct_update distinct_delete)
  ultimately show ?thesis using c unfolding inflight_ok_def by (metis le_add1 le_trans)
qed

lemma inflight_cong:
  "na_inflight s' = na_inflight s \<Longrightarrow> na_limits s' = na_limits s \<Longrightarrow> inflight_ok gs s' = inflight_ok gs s"
  by (simp add: inflight_ok_def inflight_of_def)

lemma stages_cong:
  "na_body_stage s' = na_body_stage s \<Longrightarrow> na_reserve_stage s' = na_reserve_stage s \<Longrightarrow> na_limits s' = na_limits s \<Longrightarrow> stages_ok gs s' = stages_ok gs s"
  by (simp add: stages_ok_def)

lemma drop_slot_fields [simp]:
  "na_body_stage (drop_slot g s) = na_body_stage s" "na_reserve_stage (drop_slot g s) = na_reserve_stage s" "na_limits (drop_slot g s) = na_limits s"
  "na_replay (drop_slot g s) = na_replay s" "na_budget (drop_slot g s) = na_budget s"
  by (simp_all add: drop_slot_def split: option.split)

lemma release_stage_fields [simp]:
  "na_inflight (release_stage st s) = na_inflight s" "na_limits (release_stage st s) = na_limits s"
  "na_replay (release_stage st s) = na_replay s" "na_budget (release_stage st s) = na_budget s"
  by (simp_all add: release_stage_def split: stage.split)

lemma drop_guard_fields [simp]: "na_replay (drop_guard g s) = na_replay s" "na_budget (drop_guard g s) = na_budget s"
  by (simp_all add: drop_guard_def)

text \<open>Dropping a guard gives back its slot and its stage.\<close>

lemma drop_guard_ok:
  assumes "reads_ok lim (gs @ g # gs') s"
  shows "reads_ok lim (gs @ gs') (drop_guard g s)"
proof -
  have "stages_ok (map rg_stage (gs @ gs')) (release_stage (rg_stage g) s)"
    using assms by (cases "rg_stage g") (auto simp: reads_ok_def stages_ok_def Let_def release_stage_def)
  moreover have "inflight_ok (map rg_signer gs @ rg_signer g # map rg_signer gs') (release_stage (rg_stage g) s)"
    using assms by (simp add: reads_ok_def inflight_cong [of "release_stage (rg_stage g) s" s])
  from drop_slot_ok [OF this] have "inflight_ok (map rg_signer (gs @ gs')) (drop_guard g s)" by (simp add: drop_guard_def)
  ultimately show ?thesis using assms by (simp add: reads_ok_def drop_guard_def stages_ok_def)
qed

lemma reads_cong:
  "na_inflight s' = na_inflight s \<Longrightarrow> na_body_stage s' = na_body_stage s \<Longrightarrow> na_reserve_stage s' = na_reserve_stage s \<Longrightarrow> na_limits s' = na_limits s \<Longrightarrow>
   reads_ok lim gs s' = reads_ok lim gs s"
  by (simp add: reads_ok_def inflight_cong [of s' s] stages_cong [of s' s])

lemma reads_updates [simp]:
  "reads_ok lim gs (s\<lparr>na_failures := f\<rparr>) = reads_ok lim gs s" "reads_ok lim gs (s\<lparr>na_signer_failures := g\<rparr>) = reads_ok lim gs s"
  "reads_ok lim gs (s\<lparr>na_recent_good := m\<rparr>) = reads_ok lim gs s" "reads_ok lim gs (s\<lparr>na_replay := c\<rparr>) = reads_ok lim gs s"
  "reads_ok lim gs (s\<lparr>na_budget := b\<rparr>) = reads_ok lim gs s"
  by (rule reads_cong; simp)+

lemma take_slot_stage_ok:
  assumes "reads_ok lim gs s" and "inflight_of s signer < sl_max_inflight_per_signer (na_limits s)"
    and "take_stage signer now (s\<lparr>na_inflight := AList.update signer (inflight_of s signer + 1) (na_inflight s)\<rparr>) = Some (st, s')"
  shows "reads_ok lim (gs @ [\<lparr>rg_stage = st, rg_signer = signer\<rparr>]) s'"
proof -
  have i: "inflight_of s g = count_list (map rg_signer gs) g \<and> inflight_of s g \<le> sl_max_inflight_per_signer (na_limits s)" for g
    using assms(1) unfolding reads_ok_def inflight_ok_def by metis
  have "inflight_ok (map rg_signer gs @ [signer]) (s\<lparr>na_inflight := AList.update signer (inflight_of s signer + 1) (na_inflight s)\<rparr>)"
    using assms(1,2) i by (auto simp: reads_ok_def inflight_ok_def inflight_of_def update_conv' distinct_update)
  then have "inflight_ok (map rg_signer gs @ [signer]) s'"
    using assms(3) by (auto simp: take_stage_def inflight_ok_def inflight_of_def split: if_splits)
  moreover have "stages_ok (map rg_stage gs @ [st]) s'"
    using assms(1,3) by (auto simp: take_stage_def reads_ok_def stages_ok_def Let_def split: if_splits)
  moreover have "na_limits s' = lim" using assms(1,3) by (auto simp: take_stage_def reads_ok_def split: if_splits)
  ultimately show ?thesis by (simp add: reads_ok_def)
qed

section \<open>What a read spends\<close>

definition uses_log :: "crates \<Rightarrow> peer_ids \<Rightarrow> (int \<times> VerifiedHead) list \<Rightarrow> nonce_uses" where
  "uses_log C ids begun = map (\<lambda>(t, h). (t, nonce_key C ids (vh_signer h) (a_nonce (vh_auth h)), vh_signer h)) begun"

lemma uses_log_append [simp]:
  "uses_log C ids (begun @ [(t, h)]) = uses_log C ids begun @ [(t, nonce_key C ids (vh_signer h) (a_nonce (vh_auth h)), vh_signer h)]"
  by (simp add: uses_log_def)

text \<open>A run is given how many seconds \<open>d\<close> a request may act behind the latest reading of the clock that the node has
  acted on; with \<open>d\<close> zero requests act in clock order.\<close>

definition spend_ok :: "nat \<Rightarrow> crates \<Rightarrow> peer_ids \<Rightarrow> nat \<Rightarrow> nat \<Rightarrow> int \<Rightarrow> (int \<times> VerifiedHead) list \<Rightarrow> (str \<times> int) list \<Rightarrow> NodeAuth \<Rightarrow> bool" where
  "spend_ok d C ids cap rate clock begun charged s \<longleftrightarrow> nonces_ok (na_replay s) \<and> held clock (uses_log C ids begun) (queue_of (na_replay s)) \<and>
     caps_of (na_replay s) = (cap, per_signer_cap rate) \<and> budget_fits (na_budget s) \<and> bu_per_minute (na_budget s) = rate \<and>
     bu_max_keys (na_budget s) = MAX_BUDGET_KEYS \<and> (d = 0 \<longrightarrow> in_order clock (uses_log C ids begun) \<and> budget_ok clock charged (na_budget s))"

lemma spend_cong: "na_replay s' = na_replay s \<Longrightarrow> na_budget s' = na_budget s \<Longrightarrow> spend_ok d C ids cap rate clock begun charged s' = spend_ok d C ids cap rate clock begun charged s"
  by (simp add: spend_ok_def)

lemma spend_advance:
  assumes "spend_ok d C ids cap rate clock begun charged s" and "d = 0 \<Longrightarrow> clock \<le> now"
  shows "spend_ok d C ids cap rate (max clock now) begun charged s"
  using assms held_later [of clock _ _ "max clock now"] budget_advance [of clock charged "na_budget s" "max clock now"]
    in_order_later [of clock _ "max clock now"]
  by (auto simp: spend_ok_def)

lemma spend_charge:
  assumes "spend_ok d C ids cap rate clock begun charged s" and "d = 0 \<Longrightarrow> clock \<le> now" and "charge 0 g now (na_budget s) = (u, b)"
  shows "budget_fits b \<and> bu_per_minute b = rate \<and> bu_max_keys b = MAX_BUDGET_KEYS \<and>
    (d = 0 \<longrightarrow> budget_ok now (if u then charged @ [(g, now)] else charged) b)"
  using charge_fits [OF _ assms(3)] charge_ok [OF _ assms(3), of charged] budget_advance [of clock charged "na_budget s" now] assms(1,2)
  by (auto simp: spend_ok_def)

definition unused :: "crates \<Rightarrow> peer_ids \<Rightarrow> (int \<times> VerifiedHead) list \<Rightarrow> VerifiedHead \<Rightarrow> int \<Rightarrow> bool" where
  "unused C ids begun head now \<longleftrightarrow>
     (\<forall>(t, k, g)\<in>set (uses_log C ids begun). k = nonce_key C ids (vh_signer head) (a_nonce (vh_auth head)) \<longrightarrow> t + REPLAY_RETENTION_SECS \<le> now)"

lemma consume_ok:
  assumes "spend_ok d C ids cap rate clock begun charged s" and "clock \<le> now + int d" and "clock_ok now"
  shows "\<exists>r c b. consume_nonce_and_budget C ids grown head now s = Some (r, s\<lparr>na_replay := c, na_budget := b\<rparr>) \<and>
     (case r of
        Ok _ \<Rightarrow> spend_ok d C ids cap rate (max clock now) (begun @ [(now, head)]) (charged @ [(vh_signer head, now)]) (s\<lparr>na_replay := c, na_budget := b\<rparr>) \<and>
          unused C ids begun head (now + int d)
      | Err _ \<Rightarrow> spend_ok d C ids cap rate (max clock now) begun charged (s\<lparr>na_replay := c, na_budget := b\<rparr>))"
proof -
  let ?g = "vh_signer head" and ?n = "a_nonce (vh_auth head)"
  have c0: "nonces_ok (na_replay s)" "held clock (uses_log C ids begun) (queue_of (na_replay s))"
    and cap: "caps_of (na_replay s) = (cap, per_signer_cap rate)" and ord: "d = 0 \<Longrightarrow> in_order clock (uses_log C ids begun)"
    and zero: "d = 0 \<Longrightarrow> clock \<le> now" and mx: "max clock now \<le> now + int d"
    using assms(1,2) by (auto simp: spend_ok_def)
  note adv = spend_advance [OF assms(1) zero]
  from replay_admit_ok [OF c0(1), of C ids grown ?g ?n now] obtain r c where a: "replay_admit C ids grown ?g ?n now (na_replay s) = Some (r, c)" by blast
  obtain u b where ch: "charge 0 ?g now (na_budget s) = (u, b)" by fastforce
  note b = spend_charge [OF assms(1) zero ch]
  show ?thesis
  proof (cases r)
    case (Inl e)
    from rc.refused_keeps [OF c0 a [unfolded Inl]] cap adv Inl a
    show ?thesis by (intro exI [of _ r] exI [of _ c] exI [of _ "na_budget s"]) (simp add: consume_nonce_and_budget_def spend_ok_def)
  next
    case (Inr _)
    note once = rc.used_once [OF c0 assms(3) a [unfolded Inr, simplified]]
    have un: "unused C ids begun head (now + int d)" unfolding unused_def using once(3) mx by fastforce
    have ord': "in_order now (uses_log C ids begun @ [(now, k, g)]) \<and> in_order now (uses_log C ids begun) \<and> max clock now = now" if "d = 0" for k g
      using in_order_store [OF ord [OF that] zero [OF that]] in_order_later [OF ord [OF that] zero [OF that]] zero [OF that] by simp
    show ?thesis
    proof (cases u)
      case True
      with once(1) un cap b ord' ch a Inr show ?thesis
        by (intro exI [of _ r] exI [of _ "replay_record C ids ?g ?n now c"] exI [of _ b])
          (auto simp: consume_nonce_and_budget_def spend_ok_def)
    next
      case False
      with once(2) cap b ord' ch a Inr show ?thesis
        by (intro exI [of _ "Err RateLimited"] exI [of _ c] exI [of _ b]) (auto simp: consume_nonce_and_budget_def spend_ok_def)
    qed
  qed
qed

section \<open>The checks of a request\<close>

lemma check_credential_Ok:
  assumes "check_credential C ids t headers meth uri now s = Ok head"
  shows "\<exists>header. headers = [Some header] \<and> parse_node_request_header C header = Ok (vh_auth head) \<and>
     i64_saturate (now - MAX_SKEW_SECS) \<le> a_timestamp (vh_auth head) \<and> a_timestamp (vh_auth head) \<le> i64_saturate (now + MAX_SKEW_SECS) \<and>
     vh_signer head = a_peer_id (vh_auth head) \<and> key_peer_id ids (a_public_key (vh_auth head)) = Some (vh_signer head) \<and> standing t (vh_signer head) \<and>
     verify_node_request_head C (vh_auth head) \<lparr>h_method = meth, h_path = uri, h_network_id = na_network_id s\<rparr> (na_recipients s) now MAX_SKEW_SECS = Ok ()"
proof -
  from assms obtain header where h: "header_text headers = Ok header" by (auto simp: check_credential_def rbind_eq_Inr)
  then have "headers = [Some header]" by (auto simp: header_text_def ok_or_def split: list.splits option.splits)
  with assms show ?thesis by (auto simp: check_credential_def header_text_def ok_or_def rbind_eq_Inr map_err_def split: if_splits sum.splits)
qed

lemma verify_head_ok:
  assumes "spend_ok d C ids cap rate clock begun charged s" and "clock \<le> now + int d"
  shows "\<exists>r c. verify_head C ids t grown headers meth uri now s = Some (r, s\<lparr>na_replay := c\<rparr>) \<and> spend_ok d C ids cap rate (max clock now) begun charged (s\<lparr>na_replay := c\<rparr>) \<and>
     (\<forall>head. r = Ok head \<longrightarrow> check_credential C ids t headers meth uri now s = Ok head)"
proof -
  have adv: "spend_ok d C ids cap rate (max clock now) begun charged s" using assms(2) by (intro spend_advance [OF assms(1)]) simp
  show ?thesis
  proof (cases "check_credential C ids t headers meth uri now s")
    case (Inl e)
    with adv show ?thesis by (intro exI [of _ "Err e"] exI [of _ "na_replay s"]) (simp add: verify_head_def)
  next
    case (Inr head)
    have ok: "nonces_ok (na_replay s)" "held clock (uses_log C ids begun) (queue_of (na_replay s))" using assms(1) by (auto simp: spend_ok_def)
    from replay_is_live_ok [OF ok(1), of C ids grown "vh_signer head" "a_nonce (vh_auth head)" now] obtain live c
      where c: "replay_is_live C ids grown (vh_signer head) (a_nonce (vh_auth head)) now (na_replay s) = Some (live, c)"
        "nonces_ok c" "queue_of c = live_at now (queue_of (na_replay s))" "caps_of c = caps_of (na_replay s)" by blast
    with held_live(1) [OF ok(2), of now] adv Inr show ?thesis
      by (intro exI [of _ "if live then Err Replay else Ok head"] exI [of _ c]) (auto simp: verify_head_def spend_ok_def)
  qed
qed

lemma begin_read_ok:
  assumes "spend_ok d C ids cap rate clock begun charged s" and "reads_ok lim gs s" and "clock \<le> now + int d" and "clock_ok now"
  shows "\<exists>r s'. begin_read C ids grown head now s = Some (r, s') \<and>
     (case r of
        Ok g \<Rightarrow> reads_ok lim (gs @ [g]) s' \<and> unused C ids begun head (now + int d) \<and>
          spend_ok d C ids cap rate (max clock now) (begun @ [(now, head)]) (charged @ [(vh_signer head, now)]) s'
      | Err _ \<Rightarrow> reads_ok lim gs s' \<and> spend_ok d C ids cap rate (max clock now) begun charged s')"
proof -
  let ?g = "vh_signer head" and ?n = "inflight_of s (vh_signer head)"
  let ?s = "s\<lparr>na_inflight := AList.update ?g (?n + 1) (na_inflight s)\<rparr>"
  have adv: "spend_ok d C ids cap rate (max clock now) begun charged s" using assms(3) by (intro spend_advance [OF assms(1)]) simp
  consider (failed) "exhausted ?g now (na_signer_failures s)" | (full) "\<not> exhausted ?g now (na_signer_failures s)" "?n \<ge> sl_max_inflight_per_signer (na_limits s)"
    | (busy) "\<not> exhausted ?g now (na_signer_failures s)" "?n < sl_max_inflight_per_signer (na_limits s)" "take_stage ?g now ?s = None"
    | (taken) st s1 where "\<not> exhausted ?g now (na_signer_failures s)" "?n < sl_max_inflight_per_signer (na_limits s)" "take_stage ?g now ?s = Some (st, s1)"
    by (metis not_le option.exhaust surj_pair)
  then show ?thesis
  proof cases
    case failed
    with adv assms(2) show ?thesis by (simp add: begin_read_def)
  next
    case full
    have "inflight_of (s\<lparr>na_inflight := AList.update ?g ?n (na_inflight s)\<rparr>) x = inflight_of s x" for x by (simp add: inflight_of_def update_conv')
    then have "reads_ok lim gs (s\<lparr>na_inflight := AList.update ?g ?n (na_inflight s)\<rparr>)"
      using assms(2) by (auto simp: reads_ok_def inflight_ok_def stages_ok_def distinct_update)
    with full adv show ?thesis by (simp add: begin_read_def inflight_of_def [symmetric] Let_def spend_ok_def)
  next
    case busy
    have i: "inflight_of s x = count_list (map rg_signer gs) x \<and> inflight_of s x \<le> sl_max_inflight_per_signer (na_limits s)" for x
      using assms(2) unfolding reads_ok_def inflight_ok_def by metis
    have "inflight_ok (map rg_signer gs @ [?g]) ?s" using assms(2) busy(2) i
      by (auto simp: reads_ok_def inflight_ok_def inflight_of_def update_conv' distinct_update)
    from drop_slot_ok [OF this] have "reads_ok lim gs (drop_slot ?g ?s)" using assms(2) by (auto simp: reads_ok_def stages_ok_def)
    with busy adv show ?thesis by (simp add: begin_read_def inflight_of_def [symmetric] Let_def spend_ok_def)
  next
    case (taken st s1)
    let ?guard = "\<lparr>rg_stage = st, rg_signer = ?g\<rparr>"
    note r1 = take_slot_stage_ok [OF assms(2) taken(2), of now st s1]
    have "na_replay s1 = na_replay s" "na_budget s1 = na_budget s" using taken(3) by (auto simp: take_stage_def split: if_splits)
    then have "spend_ok d C ids cap rate clock begun charged s1" using assms(1) by (simp add: spend_ok_def)
    from consume_ok [OF this assms(3,4), of grown head] obtain r c b where
      c: "consume_nonce_and_budget C ids grown head now s1 = Some (r, s1\<lparr>na_replay := c, na_budget := b\<rparr>)" and
      o: "case r of
        Ok _ \<Rightarrow> spend_ok d C ids cap rate (max clock now) (begun @ [(now, head)]) (charged @ [(?g, now)]) (s1\<lparr>na_replay := c, na_budget := b\<rparr>) \<and> unused C ids begun head (now + int d)
      | Err _ \<Rightarrow> spend_ok d C ids cap rate (max clock now) begun charged (s1\<lparr>na_replay := c, na_budget := b\<rparr>)"
      by blast
    have r2: "reads_ok lim (gs @ [?guard]) (s1\<lparr>na_replay := c, na_budget := b\<rparr>)" using r1 taken(3) by simp
    have "reads_ok lim gs (drop_guard ?guard (s1\<lparr>na_replay := c, na_budget := b\<rparr>))" using drop_guard_ok [of lim gs ?guard "[]"] r2 by simp
    with taken c o r2 show ?thesis
      by (cases r) (auto simp: begin_read_def inflight_of_def [symmetric] Let_def spend_ok_def)
  qed
qed

lemma refuse_fields [simp]:
  assumes "refuse_request pick streamed throttled source now e signer s = (e', s')"
  shows "na_replay s' = na_replay s" and "na_budget s' = na_budget s" and "reads_ok lim gs s' = reads_ok lim gs s"
  using assms
  by (auto simp: refuse_request_def Let_def note_source_failure_def note_signer_failure_def split: if_splits option.splits)

lemma finish_fields:
  assumes "finish_read C pick head body now s = (r, s')"
  shows "na_replay s' = na_replay s" and "na_budget s' = na_budget s" and "reads_ok lim gs s' = reads_ok lim gs s"
    and "r = Ok node \<Longrightarrow> node = vh_signer head \<and> sha256 C body = a_body_hash (vh_auth head)"
  using assms
  by (auto simp: finish_read_def mark_good_def Let_def verify_node_request_body_def split: if_splits sum.splits)

section \<open>Runs\<close>

text \<open>The state of the node with the requests that have passed the checks of their header, the reads in flight, and
  what has happened: the reads begun, the requests charged, the requests authenticated with their bodies, and the
  latest reading of the clock acted on. A step is what a request does around one turn at the cache of nonces, so
  any number of requests, with the same header too, may pass their checks before one of them begins its read. A
  request acts on the clock as it read it on arrival, whether its address was throttled as it read it then, and
  may be \<open>d\<close> seconds late at the cache; one over a stream has waited for its whole body and is as late as it likes
  unless \<open>d\<close> is zero. Bodies end, break off or are abandoned in any order.\<close>

record pending =
  pd_head :: VerifiedHead
  pd_throttled :: bool
  pd_source :: IpAddr
  pd_now :: int

record auth_run =
  ar_auth :: NodeAuth
  ar_pending :: "pending list"
  ar_open :: "open_read list"
  ar_begun :: "(int \<times> VerifiedHead) list"
  ar_charged :: "(str \<times> int) list"
  ar_done :: "(VerifiedHead \<times> bytes) list"
  ar_clock :: int

definition auth_start :: "NodeAuth \<Rightarrow> int \<Rightarrow> auth_run" where
  "auth_start s now = \<lparr>ar_auth = s, ar_pending = [], ar_open = [], ar_begun = [], ar_charged = [], ar_done = [], ar_clock = now\<rparr>"

definition read_of :: "pending \<Rightarrow> ReadGuard \<Rightarrow> open_read" where
  "read_of p g = \<lparr>or_head = pd_head p, or_guard = g, or_throttled = pd_throttled p, or_source = pd_source p, or_now = pd_now p\<rparr>"

definition after_begin :: "auth_run \<Rightarrow> pending list \<Rightarrow> pending \<Rightarrow> ReadGuard \<Rightarrow> NodeAuth \<Rightarrow> auth_run" where
  "after_begin r ps p g s = r\<lparr>ar_auth := s, ar_pending := ps, ar_open := ar_open r @ [read_of p g], ar_begun := ar_begun r @ [(pd_now p, pd_head p)],
     ar_charged := ar_charged r @ [(vh_signer (pd_head p), pd_now p)], ar_clock := max (ar_clock r) (pd_now p)\<rparr>"

inductive auth_step :: "nat \<Rightarrow> crates \<Rightarrow> peer_ids \<Rightarrow> auth_run \<Rightarrow> auth_run \<Rightarrow> bool" for d :: nat and C :: crates and ids :: peer_ids where
  verified: "ar_clock r \<le> now + int d \<Longrightarrow> clock_ok now \<Longrightarrow> verify_head C ids t grown headers meth uri now (ar_auth r) = Some (Ok head, s) \<Longrightarrow>
    auth_step d C ids r (r\<lparr>ar_auth := s, ar_clock := max (ar_clock r) now,
      ar_pending := ar_pending r @ [\<lparr>pd_head = head, pd_throttled = throttled, pd_source = source, pd_now = now\<rparr>]\<rparr>)"
| turned_away: "ar_clock r \<le> now + int d \<Longrightarrow> clock_ok now \<Longrightarrow> verify_head C ids t grown headers meth uri now (ar_auth r) = Some (Err e, s) \<Longrightarrow>
    refuse_request pick False throttled source now e None s = (e', s') \<Longrightarrow> auth_step d C ids r (r\<lparr>ar_auth := s', ar_clock := max (ar_clock r) now\<rparr>)"
| began: "ar_pending r = ps @ p # ps' \<Longrightarrow> ar_clock r \<le> pd_now p + int d \<Longrightarrow> begin_read C ids grown (pd_head p) (pd_now p) (ar_auth r) = Some (Ok g, s) \<Longrightarrow>
    auth_step d C ids r (after_begin r (ps @ ps') p g s)"
| refused: "ar_pending r = ps @ p # ps' \<Longrightarrow> ar_clock r \<le> pd_now p + int d \<Longrightarrow> begin_read C ids grown (pd_head p) (pd_now p) (ar_auth r) = Some (Err e, s) \<Longrightarrow>
    refuse_request pick False (pd_throttled p) (pd_source p) (pd_now p) e (Some (vh_signer (pd_head p))) s = (e', s') \<Longrightarrow>
    auth_step d C ids r (r\<lparr>ar_pending := ps @ ps', ar_auth := s', ar_clock := max (ar_clock r) (pd_now p)\<rparr>)"
| ended: "ar_open r = os @ rd # os' \<Longrightarrow> auth_end C pick limit rd body (ar_auth r) = (res, s) \<Longrightarrow>
    auth_step d C ids r (r\<lparr>ar_auth := s, ar_open := os @ os',
      ar_done := (case res of Inr (_, bs) \<Rightarrow> ar_done r @ [(or_head rd, bs)] | Inl _ \<Rightarrow> ar_done r)\<rparr>)"
| abandoned: "ar_open r = os @ rd # os' \<Longrightarrow>
    auth_step d C ids r (r\<lparr>ar_auth := drop_guard (or_guard rd) (ar_auth r), ar_open := os @ os'\<rparr>)"
| streamed: "d = 0 \<longrightarrow> ar_clock r \<le> now \<Longrightarrow> clock_ok now \<Longrightarrow> authenticate_stream t peer now (ar_auth r) = (res, s) \<Longrightarrow>
    auth_step d C ids r (r\<lparr>ar_auth := s, ar_charged := (case res of Inr _ \<Rightarrow> ar_charged r @ [(peer, now)] | Inl _ \<Rightarrow> ar_charged r),
      ar_clock := (if d = 0 then now else ar_clock r)\<rparr>)"

definition reads_in :: "(int \<times> VerifiedHead) list \<Rightarrow> str \<Rightarrow> int \<Rightarrow> nat" where
  "reads_in begun g m = length (filter (\<lambda>(t, h). vh_signer h = g \<and> t div 60 = m) begun)"

definition dated_within :: "int \<Rightarrow> VerifiedHead \<Rightarrow> bool" where
  "dated_within now h \<longleftrightarrow> vh_signer h = a_peer_id (vh_auth h) \<and> now - MAX_SKEW_SECS \<le> a_timestamp (vh_auth h) \<and> a_timestamp (vh_auth h) \<le> now + MAX_SKEW_SECS"

text \<open>A header used at \<open>t\<close> is used again only if it was dated within \<open>d\<close> seconds of the far end of the window at \<open>t\<close>.\<close>

definition uses_spaced :: "nat \<Rightarrow> (int \<times> VerifiedHead) list \<Rightarrow> bool" where
  "uses_spaced d begun \<longleftrightarrow> (\<forall>(t, h)\<in>set begun. dated_within t h) \<and>
     sorted_wrt (\<lambda>(t, h) (_, h'). vh_auth h = vh_auth h' \<longrightarrow> t + MAX_SKEW_SECS < a_timestamp (vh_auth h) + int d) begun"

definition heads_used :: "auth_run \<Rightarrow> NodeRequestAuth list" where
  "heads_used r = map (vh_auth \<circ> or_head) (ar_open r) @ map (vh_auth \<circ> fst) (ar_done r)"

definition run_ok :: "nat \<Rightarrow> crates \<Rightarrow> peer_ids \<Rightarrow> nat \<Rightarrow> nat \<Rightarrow> StageLimits \<Rightarrow> auth_run \<Rightarrow> bool" where
  "run_ok d C ids cap rate lim r \<longleftrightarrow> spend_ok d C ids cap rate (ar_clock r) (ar_begun r) (ar_charged r) (ar_auth r) \<and> reads_ok lim (map or_guard (ar_open r)) (ar_auth r) \<and>
     uses_spaced d (ar_begun r) \<and> (\<forall>p\<in>set (ar_pending r). dated_within (pd_now p) (pd_head p) \<and> clock_ok (pd_now p)) \<and>
     (\<forall>a. count_list (heads_used r) a \<le> count_list (map (vh_auth \<circ> snd) (ar_begun r)) a) \<and>
     (\<forall>(h, bs)\<in>set (ar_done r). sha256 C bs = a_body_hash (vh_auth h)) \<and> (\<forall>g m. reads_in (ar_begun r) g m \<le> spent (ar_charged r) g m)"

lemma check_credential_window:
  assumes "check_credential C ids t headers meth uri now s = Ok head" and "clock_ok now"
  shows "dated_within now head"
proof -
  have "i64_saturate (now - MAX_SKEW_SECS) = now - MAX_SKEW_SECS" "i64_saturate (now + MAX_SKEW_SECS) = now + MAX_SKEW_SECS"
    using assms(2) by (auto simp: clock_ok_def i64_saturate_def MAX_SKEW_SECS_def)
  with check_credential_Ok [OF assms(1)] show ?thesis by (auto simp: dated_within_def)
qed

text \<open>Within the retention the nonce of a used header is still held, and past it the header is stale.\<close>

lemma uses_spaced_append:
  assumes "uses_spaced d begun" and "unused C ids begun head (now + int d)" and "dated_within now head"
  shows "uses_spaced d (begun @ [(now, head)])"
proof -
  have "t + MAX_SKEW_SECS < a_timestamp (vh_auth h) + int d" if h: "(t, h) \<in> set begun" and eq: "vh_auth h = vh_auth head" for t h
  proof -
    have "dated_within t h" using assms(1) h by (auto simp: uses_spaced_def)
    then have "(t, nonce_key C ids (vh_signer head) (a_nonce (vh_auth head)), vh_signer head) \<in> set (uses_log C ids begun)"
      using h eq assms(3) by (force simp: uses_log_def dated_within_def)
    then have "t + REPLAY_RETENTION_SECS \<le> now + int d" using assms(2) by (auto simp: unused_def)
    with assms(3) eq show ?thesis by (simp add: dated_within_def REPLAY_RETENTION_SECS_def)
  qed
  with assms(1,3) show ?thesis by (auto simp: uses_spaced_def sorted_wrt_append)
qed

lemma distinct_count_le: "distinct xs \<longleftrightarrow> (\<forall>a. count_list xs a \<le> 1)"
proof (induction xs)
  case (Cons x xs)
  then show ?case by (auto simp: count_list_0_iff le_Suc_eq split: if_splits)
qed simp

lemma uses_spaced_once:
  assumes "uses_spaced d begun" and "\<And>t h. (t, h) \<in> set begun \<Longrightarrow> vh_auth h = a \<Longrightarrow> a_timestamp a + int d \<le> t + MAX_SKEW_SECS"
  shows "count_list (map (vh_auth \<circ> snd) begun) a \<le> 1"
  using assms
proof (induction begun)
  case (Cons u begun)
  obtain t h where u: "u = (t, h)" by (cases u)
  have "uses_spaced d begun" using Cons.prems(1) by (simp add: uses_spaced_def)
  then have IH: "count_list (map (vh_auth \<circ> snd) begun) a \<le> 1" by (rule Cons.IH) (rule Cons.prems(2), simp_all)
  have "a \<notin> (vh_auth \<circ> snd) ` set begun" if "vh_auth h = a"
  proof
    assume "a \<in> (vh_auth \<circ> snd) ` set begun"
    then obtain t' h' where "(t', h') \<in> set begun" "vh_auth h' = a" by auto
    with Cons.prems(1) that have "t + MAX_SKEW_SECS < a_timestamp a + int d" by (force simp: u uses_spaced_def)
    with Cons.prems(2) [of t h] that show False by (simp add: u)
  qed
  with IH show ?case by (auto simp: u comp_def count_list_0_iff)
qed simp

lemma auth_end_ok:
  assumes "auth_end C pick limit rd body s = (res, s')" and "reads_ok lim (gs @ or_guard rd # gs') s"
  shows "reads_ok lim (gs @ gs') s'" and "na_replay s' = na_replay s" and "na_budget s' = na_budget s"
    and "res = Inr (node, bs) \<Longrightarrow> sha256 C bs = a_body_hash (vh_auth (or_head rd))"
proof -
  let ?ref = "\<lambda>e s. refuse_request pick False (or_throttled rd) (or_source rd) (or_now rd) e (Some (vh_signer (or_head rd))) s"
  have "\<exists>s1. s' = drop_guard (or_guard rd) s1 \<and> reads_ok lim (gs @ or_guard rd # gs') s1 \<and> na_replay s1 = na_replay s \<and> na_budget s1 = na_budget s \<and>
      (\<forall>node bs. res = Inr (node, bs) \<longrightarrow> sha256 C bs = a_body_hash (vh_auth (or_head rd)))"
  proof (cases "read_body limit [] body")
    case (Inl e)
    obtain e' s1 where r: "?ref e s = (e', s1)" by fastforce
    from refuse_fields [OF r] assms Inl r show ?thesis by (auto simp: auth_end_def)
  next
    case (Inr bs)
    obtain f s2 where f: "finish_read C pick (or_head rd) bs (or_now rd) s = (f, s2)" by fastforce
    note ff = finish_fields [OF f]
    show ?thesis
    proof (cases f)
      case (Inl e)
      obtain e' s1 where r: "?ref e s2 = (e', s1)" by fastforce
      from refuse_fields [OF r] ff(1-3) assms Inr Inl f r show ?thesis by (auto simp: auth_end_def)
    next
      case inr: (Inr node)
      with ff assms Inr f show ?thesis by (auto simp: auth_end_def)
    qed
  qed
  then obtain s1 where s1: "s' = drop_guard (or_guard rd) s1" "reads_ok lim (gs @ or_guard rd # gs') s1" "na_replay s1 = na_replay s" "na_budget s1 = na_budget s"
      "\<forall>node bs. res = Inr (node, bs) \<longrightarrow> sha256 C bs = a_body_hash (vh_auth (or_head rd))" by blast
  from drop_guard_ok [OF s1(2)] s1 show "reads_ok lim (gs @ gs') s'" "na_replay s' = na_replay s" "na_budget s' = na_budget s"
    and "res = Inr (node, bs) \<Longrightarrow> sha256 C bs = a_body_hash (vh_auth (or_head rd))" by auto
qed

lemma reads_in_append [simp]: "reads_in (begun @ [(t, h)]) g m = reads_in begun g m + (if vh_signer h = g \<and> t div 60 = m then 1 else 0)"
  by (simp add: reads_in_def)

lemma run_ok_verified:
  assumes "run_ok d C ids cap rate lim r" and "ar_clock r \<le> now + int d" and "clock_ok now"
    and "verify_head C ids t grown headers meth uri now (ar_auth r) = Some (res, s)"
  shows "run_ok d C ids cap rate lim (r\<lparr>ar_auth := s, ar_clock := max (ar_clock r) now\<rparr>)" and "res = Ok head \<Longrightarrow> dated_within now head"
proof -
  from verify_head_ok [of d C ids cap rate "ar_clock r" "ar_begun r" "ar_charged r" "ar_auth r" now t grown headers meth uri] assms(1,2,4)
  obtain c where "s = (ar_auth r)\<lparr>na_replay := c\<rparr>" "spend_ok d C ids cap rate (max (ar_clock r) now) (ar_begun r) (ar_charged r) s"
    "\<And>head. res = Ok head \<Longrightarrow> check_credential C ids t headers meth uri now (ar_auth r) = Ok head" by (auto simp: run_ok_def)
  with assms(1,3) show "run_ok d C ids cap rate lim (r\<lparr>ar_auth := s, ar_clock := max (ar_clock r) now\<rparr>)" "res = Ok head \<Longrightarrow> dated_within now head"
    by (auto simp: run_ok_def heads_used_def intro: check_credential_window)
qed

lemma run_ok_refused:
  assumes "refuse_request pick streamed throttled source now e signer s = (e', s')"
  shows "run_ok d C ids cap rate lim (r\<lparr>ar_auth := s', ar_clock := k\<rparr>) = run_ok d C ids cap rate lim (r\<lparr>ar_auth := s, ar_clock := k\<rparr>)"
  using refuse_fields [OF assms] by (simp add: run_ok_def spend_ok_def heads_used_def)

lemma run_ok_pending:
  assumes "run_ok d C ids cap rate lim r" and "\<And>p. p \<in> set ps \<Longrightarrow> dated_within (pd_now p) (pd_head p) \<and> clock_ok (pd_now p)"
  shows "run_ok d C ids cap rate lim (r\<lparr>ar_pending := ps\<rparr>)"
  using assms by (simp add: run_ok_def heads_used_def)

lemma run_ok_begin:
  assumes "run_ok d C ids cap rate lim r" and "ar_pending r = ps @ p # ps'" and "ar_clock r \<le> pd_now p + int d"
    and "begin_read C ids grown (pd_head p) (pd_now p) (ar_auth r) = Some (res, s)"
  shows "case res of Ok g \<Rightarrow> run_ok d C ids cap rate lim (after_begin r (ps @ ps') p g s)
     | Err _ \<Rightarrow> run_ok d C ids cap rate lim (r\<lparr>ar_pending := ps @ ps', ar_auth := s, ar_clock := max (ar_clock r) (pd_now p)\<rparr>)"
proof -
  have p: "dated_within (pd_now p) (pd_head p)" "clock_ok (pd_now p)" using assms(1,2) by (auto simp: run_ok_def)
  from begin_read_ok [of d C ids cap rate "ar_clock r" "ar_begun r" "ar_charged r" "ar_auth r" lim "map or_guard (ar_open r)" "pd_now p" grown "pd_head p"] assms p(2)
  have b: "case res of
        Ok g \<Rightarrow> reads_ok lim (map or_guard (ar_open r) @ [g]) s \<and> unused C ids (ar_begun r) (pd_head p) (pd_now p + int d) \<and>
          spend_ok d C ids cap rate (max (ar_clock r) (pd_now p)) (ar_begun r @ [(pd_now p, pd_head p)]) (ar_charged r @ [(vh_signer (pd_head p), pd_now p)]) s
      | Err _ \<Rightarrow> reads_ok lim (map or_guard (ar_open r)) s \<and> spend_ok d C ids cap rate (max (ar_clock r) (pd_now p)) (ar_begun r) (ar_charged r) s"
    by (auto simp: run_ok_def)
  show ?thesis
  proof (cases res)
    case (Inl e)
    with b assms(1,2) show ?thesis by (simp add: run_ok_def heads_used_def)
  next
    case (Inr g)
    with b have "uses_spaced d (ar_begun r @ [(pd_now p, pd_head p)])"
      using uses_spaced_append [of d "ar_begun r" C ids "pd_head p" "pd_now p"] assms(1) p(1) by (simp add: run_ok_def)
    with b Inr assms(1,2) show ?thesis by (auto simp: run_ok_def after_begin_def read_of_def heads_used_def)
  qed
qed

lemma run_ok_streamed:
  assumes "run_ok d C ids cap rate lim r" and "d = 0 \<longrightarrow> ar_clock r \<le> now" and "authenticate_stream t peer now (ar_auth r) = (res, s)"
  shows "run_ok d C ids cap rate lim (r\<lparr>ar_auth := s, ar_charged := (case res of Inr _ \<Rightarrow> ar_charged r @ [(peer, now)] | Inl _ \<Rightarrow> ar_charged r),
    ar_clock := (if d = 0 then now else ar_clock r)\<rparr>)"
proof -
  let ?clock = "if d = 0 then now else ar_clock r"
  have sp: "spend_ok d C ids cap rate (ar_clock r) (ar_begun r) (ar_charged r) (ar_auth r)" using assms(1) by (simp add: run_ok_def)
  have adv: "spend_ok d C ids cap rate ?clock (ar_begun r) (ar_charged r) (ar_auth r)"
    using spend_advance [OF sp, of now] assms(2) sp by (cases "d = 0") (simp_all add: max_def split: if_splits)
  show ?thesis
  proof (cases "standing t peer")
    case False
    with assms(3) have "s = ar_auth r" "res = Inl NoStanding" by (auto simp: authenticate_stream_def)
    with assms(1) adv show ?thesis by (auto simp: run_ok_def heads_used_def)
  next
    case True
    obtain u b where ch: "charge 0 peer now (na_budget (ar_auth r)) = (u, b)" by fastforce
    have b: "budget_fits b" "bu_per_minute b = rate" "bu_max_keys b = MAX_BUDGET_KEYS"
      "d = 0 \<longrightarrow> budget_ok now (if u then ar_charged r @ [(peer, now)] else ar_charged r) b"
      using spend_charge [OF sp _ ch] assms(2) by auto
    have s: "s = (ar_auth r)\<lparr>na_budget := b\<rparr>" "res = (if u then Inr peer else Inl RateLimited)" using assms(3) True ch by (auto simp: authenticate_stream_def)
    have more: "reads_in (ar_begun r) g m \<le> spent (ar_charged r) g m" for g m using assms(1) by (simp add: run_ok_def)
    have "\<forall>g m. reads_in (ar_begun r) g m \<le> spent (if u then ar_charged r @ [(peer, now)] else ar_charged r) g m" using more by (simp add: le_SucI)
    moreover have "spend_ok d C ids cap rate ?clock (ar_begun r) (if u then ar_charged r @ [(peer, now)] else ar_charged r) s"
      using adv b by (auto simp: s spend_ok_def)
    ultimately show ?thesis using assms(1) by (cases u) (simp_all add: run_ok_def s heads_used_def)
  qed
qed

lemma run_ok_ended:
  assumes "run_ok d C ids cap rate lim r" and "ar_open r = os @ rd # os'" and "auth_end C pick limit rd body (ar_auth r) = (res, s)"
  shows "run_ok d C ids cap rate lim (r\<lparr>ar_auth := s, ar_open := os @ os',
    ar_done := (case res of Inr (_, bs) \<Rightarrow> ar_done r @ [(or_head rd, bs)] | Inl _ \<Rightarrow> ar_done r)\<rparr>)"
proof -
  have gs: "reads_ok lim (map or_guard os @ or_guard rd # map or_guard os') (ar_auth r)" using assms(1,2) by (simp add: run_ok_def)
  note e = auth_end_ok [OF assms(3) gs]
  have sp: "spend_ok d C ids cap rate (ar_clock r) (ar_begun r) (ar_charged r) s" using assms(1) spend_cong [OF e(2,3)] by (simp add: run_ok_def)
  have used: "count_list (heads_used r) a \<le> count_list (map (vh_auth \<circ> snd) (ar_begun r)) a" for a using assms(1) by (simp add: run_ok_def)
  show ?thesis
  proof (cases res)
    case (Inl x)
    have "count_list (map (vh_auth \<circ> or_head) (os @ os') @ map (vh_auth \<circ> fst) (ar_done r)) a \<le> count_list (map (vh_auth \<circ> snd) (ar_begun r)) a" for a
      using used [of a] assms(2) by (simp add: heads_used_def split: if_splits)
    with assms(1) Inl e(1) sp show ?thesis by (simp add: run_ok_def heads_used_def)
  next
    case (Inr q)
    obtain node bs where q: "q = (node, bs)" by fastforce
    have "count_list (map (vh_auth \<circ> or_head) (os @ os') @ map (vh_auth \<circ> fst) (ar_done r @ [(or_head rd, bs)])) a \<le> count_list (map (vh_auth \<circ> snd) (ar_begun r)) a" for a
      using used [of a] assms(2) by (simp add: heads_used_def split: if_splits)
    with e(4) [of node bs] Inr q assms(1) e(1) sp show ?thesis by (auto simp: run_ok_def heads_used_def)
  qed
qed

lemma run_ok_abandoned:
  assumes "run_ok d C ids cap rate lim r" and "ar_open r = os @ rd # os'"
  shows "run_ok d C ids cap rate lim (r\<lparr>ar_auth := drop_guard (or_guard rd) (ar_auth r), ar_open := os @ os'\<rparr>)"
proof -
  have "reads_ok lim (map or_guard os @ map or_guard os') (drop_guard (or_guard rd) (ar_auth r))"
    using drop_guard_ok [of lim "map or_guard os" "or_guard rd" "map or_guard os'" "ar_auth r"] assms by (simp add: run_ok_def)
  moreover have used: "count_list (heads_used r) a \<le> count_list (map (vh_auth \<circ> snd) (ar_begun r)) a" for a using assms(1) by (simp add: run_ok_def)
  have "count_list (map (vh_auth \<circ> or_head) (os @ os') @ map (vh_auth \<circ> fst) (ar_done r)) a \<le> count_list (map (vh_auth \<circ> snd) (ar_begun r)) a" for a
    using used [of a] assms(2) by (simp add: heads_used_def split: if_splits)
  ultimately show ?thesis using assms(1) by (simp add: run_ok_def spend_ok_def heads_used_def)
qed

lemma run_ok_step:
  assumes "run_ok d C ids cap rate lim r" and "auth_step d C ids r r'"
  shows "run_ok d C ids cap rate lim r'"
  using assms(2)
proof cases
  case (verified now t grown headers meth uri head s throttled source)
  note v = run_ok_verified [OF assms(1) verified(2-4)]
  have "dated_within (pd_now p) (pd_head p) \<and> clock_ok (pd_now p)"
    if "p \<in> set (ar_pending r @ [\<lparr>pd_head = head, pd_throttled = throttled, pd_source = source, pd_now = now\<rparr>])" for p
    using that v(2) assms(1) verified(3) by (auto simp: run_ok_def)
  then have "run_ok d C ids cap rate lim ((r\<lparr>ar_auth := s, ar_clock := max (ar_clock r) now\<rparr>)\<lparr>ar_pending :=
      ar_pending r @ [\<lparr>pd_head = head, pd_throttled = throttled, pd_source = source, pd_now = now\<rparr>]\<rparr>)" by (rule run_ok_pending [OF v(1)])
  then show ?thesis by (simp add: verified(1))
next
  case (turned_away now t grown headers meth uri e s pick throttled source e' s')
  with run_ok_verified(1) [OF assms(1) turned_away(2-4)] run_ok_refused [OF turned_away(5)] show ?thesis by simp
next
  case (began ps p ps' grown g s)
  with run_ok_begin [OF assms(1) began(2-4)] show ?thesis by simp
next
  case (refused ps p ps' grown e s pick e' s')
  with run_ok_begin [OF assms(1) refused(2-4)] run_ok_refused [OF refused(5), where r = "r\<lparr>ar_pending := ps @ ps'\<rparr>"] show ?thesis by simp
next
  case (ended os rd os' pick limit body res s)
  with run_ok_ended [OF assms(1) ended(2,3)] show ?thesis by simp
next
  case (abandoned os rd os')
  with run_ok_abandoned [OF assms(1) abandoned(2)] show ?thesis by simp
next
  case (streamed now t peer res s)
  with run_ok_streamed [OF assms(1) streamed(2,4)] show ?thesis by simp
qed

lemma run_ok_start:
  assumes "max_replay < 2 ^ 32" and "rate < 2 ^ 32"
  shows "run_ok d C ids max_replay rate lim (auth_start (with_stage_limits url_parse ascii_origin net_id own url rate max_replay lim) now)"
  using assms empty_nonces_ok [OF assms(1), of "per_signer_cap rate"] budget_new_ok [OF assms(2), of MAX_BUDGET_KEYS now, where 'a = str]
  by (simp add: run_ok_def auth_start_def with_stage_limits_def spend_ok_def uses_log_def held_def in_order_def budget_fits_def queue_of_def replay_new_def budget_new_def
      reads_ok_def inflight_ok_def inflight_of_def stages_ok_def Let_def uses_spaced_def heads_used_def reads_in_def spent_def MAX_BUDGET_KEYS_def)

section \<open>Every run of a node\<close>

abbreviation auth_reachable ::
  "nat \<Rightarrow> crates \<Rightarrow> peer_ids \<Rightarrow> (str \<Rightarrow> url option) \<Rightarrow> (url \<Rightarrow> str) \<Rightarrow> (str \<Rightarrow> str option) \<Rightarrow> nat \<Rightarrow> str \<Rightarrow> str option \<Rightarrow> str option \<Rightarrow> int \<Rightarrow> auth_run \<Rightarrow> bool" where
  "auth_reachable d C ids url_parse ascii_origin env keys net_id own url now \<equiv>
     (auth_step d C ids)\<^sup>*\<^sup>* (auth_start (node_auth_new url_parse ascii_origin env keys net_id own url) now)"

lemma rate_from_env: "rate_per_minute_from_env env < 2 ^ 32"
  by (simp add: rate_per_minute_from_env_def DEFAULT_RATE_PER_MINUTE_def split: option.split)

lemma replay_capacity_bound: "0 < replay_capacity keys rate \<and> replay_capacity keys rate \<le> MAX_REPLAY_ENTRIES"
  by (simp add: replay_capacity_def MAX_REPLAY_ENTRIES_def)

lemma reachable_run_ok:
  assumes "auth_reachable d C ids url_parse ascii_origin env keys net_id own url now r"
  shows "run_ok d C ids (replay_capacity keys (rate_per_minute_from_env env)) (rate_per_minute_from_env env) (limits_from_env env) r"
  using assms
proof (induction rule: rtranclp_induct)
  case base
  show ?case unfolding node_auth_new_def Let_def using replay_capacity_bound [of keys "rate_per_minute_from_env env"]
    by (intro run_ok_start rate_from_env) (simp add: MAX_REPLAY_ENTRIES_def)
qed (rule run_ok_step)

lemma recent_reads:
  assumes "\<forall>(t, h)\<in>set begun. t \<le> now"
  shows "length (filter (\<lambda>(t, h). vh_signer h = g \<and> now < t + REPLAY_RETENTION_SECS) begun) \<le>
     reads_in begun g (now div 60 - 2) + reads_in begun g (now div 60 - 1) + reads_in begun g (now div 60)"
  using assms
proof (induction begun)
  case (Cons u begun)
  obtain t h where u: "u = (t, h)" by fastforce
  have "t div 60 = now div 60 - 2 \<or> t div 60 = now div 60 - 1 \<or> t div 60 = now div 60" if "now < t + REPLAY_RETENTION_SECS"
  proof -
    from that have "now - 120 \<le> t" by (simp add: REPLAY_RETENTION_SECS_def MAX_SKEW_SECS_def)
    then have "(now - 120) div 60 \<le> t div 60" by (rule zdiv_mono1) simp
    moreover from Cons.prems have "t div 60 \<le> now div 60" by (intro zdiv_mono1) (simp_all add: u)
    moreover have "(now - 120) div 60 = now div 60 - 2" using div_mult_self2 [of 60 now "- 2"] by simp
    ultimately show ?thesis by linarith
  qed
  with Cons show ?case by (auto simp: u reads_in_def)
qed (simp add: reads_in_def)

text \<open>A signer holds at most three minutes of its budget, less than its share of the cache.\<close>

lemma share_never_full:
  assumes "run_ok 0 C ids cap rate lim r" and "ar_clock r \<le> now"
  shows "length (filter (\<lambda>(_, _, g'). g' = g) (live_at now (queue_of (na_replay (ar_auth r))))) \<le> 3 * rate"
proof -
  have tr: "in_order (ar_clock r) (uses_log C ids (ar_begun r))" "held (ar_clock r) (uses_log C ids (ar_begun r)) (queue_of (na_replay (ar_auth r)))" and
    b: "\<And>g m. reads_in (ar_begun r) g m \<le> spent (ar_charged r) g m" "\<And>g m. spent (ar_charged r) g m \<le> rate"
    using assms(1) by (auto simp: run_ok_def spend_ok_def budget_ok_def)
  have le: "reads_in (ar_begun r) g m \<le> rate" for m using b(1) [of g m] b(2) [of g m] by linarith
  have "\<forall>(t, h)\<in>set (ar_begun r). t \<le> now" using tr(1) assms(2) by (fastforce simp: in_order_def uses_log_def)
  from recent_reads [OF this, of g] le [of "now div 60 - 2"] le [of "now div 60 - 1"] le [of "now div 60"]
  have "length (filter (\<lambda>(t, h). vh_signer h = g \<and> now < t + REPLAY_RETENTION_SECS) (ar_begun r)) \<le> 3 * rate" by linarith
  moreover have "length (filter (\<lambda>(t, _, g'). g' = g \<and> now < t + REPLAY_RETENTION_SECS) (uses_log C ids (ar_begun r))) =
      length (filter (\<lambda>(t, h). vh_signer h = g \<and> now < t + REPLAY_RETENTION_SECS) (ar_begun r))"
    by (simp add: uses_log_def filter_map comp_def case_prod_unfold)
  ultimately show ?thesis unfolding in_order_live(2) [OF tr assms(2)] by simp
qed

text \<open>C15. A signed request is used at most once. However requests on all routes interleave between their turns at
  the cache of nonces, with none later there than \<open>d\<close> seconds behind the latest clock reading acted on, a header
  starts at most one body read and authenticates at most one request unless it was dated, when used, within \<open>d\<close>
  seconds of the far end of the clock window; in clock order, at most one without exception. A request that is
  authenticated has the body its header was signed for.\<close>

theorem signed_header_used_once:
  assumes "auth_reachable d C ids url_parse ascii_origin env keys net_id own url now r"
  shows "(\<forall>a. (\<forall>(t, h)\<in>set (ar_begun r). vh_auth h = a \<longrightarrow> a_timestamp a + int d \<le> t + MAX_SKEW_SECS) \<longrightarrow>
      count_list (map (vh_auth \<circ> snd) (ar_begun r)) a \<le> 1 \<and> count_list (map (vh_auth \<circ> fst) (ar_done r)) a \<le> 1) \<and>
    (d = 0 \<longrightarrow> distinct (map (vh_auth \<circ> snd) (ar_begun r)) \<and> distinct (map (vh_auth \<circ> fst) (ar_done r))) \<and>
    (\<forall>a. count_list (map (vh_auth \<circ> fst) (ar_done r)) a \<le> count_list (map (vh_auth \<circ> snd) (ar_begun r)) a) \<and>
    (\<forall>(h, bs)\<in>set (ar_done r). sha256 C bs = a_body_hash (vh_auth h))"
proof -
  from reachable_run_ok [OF assms] have sp: "uses_spaced d (ar_begun r)" and body: "\<forall>(h, bs)\<in>set (ar_done r). sha256 C bs = a_body_hash (vh_auth h)"
    and used: "count_list (heads_used r) a \<le> count_list (map (vh_auth \<circ> snd) (ar_begun r)) a" for a by (auto simp: run_ok_def)
  have ended: "count_list (map (vh_auth \<circ> fst) (ar_done r)) a \<le> count_list (map (vh_auth \<circ> snd) (ar_begun r)) a" for a
    using used [of a] by (simp add: heads_used_def)
  have once: "count_list (map (vh_auth \<circ> snd) (ar_begun r)) a \<le> 1 \<and> count_list (map (vh_auth \<circ> fst) (ar_done r)) a \<le> 1"
    if "\<forall>(t, h)\<in>set (ar_begun r). vh_auth h = a \<longrightarrow> a_timestamp a + int d \<le> t + MAX_SKEW_SECS" for a
    using uses_spaced_once [OF sp, of a] that ended [of a] by fastforce
  have "count_list (map (vh_auth \<circ> snd) (ar_begun r)) a \<le> 1 \<and> count_list (map (vh_auth \<circ> fst) (ar_done r)) a \<le> 1" if "d = 0" for a
    using once [of a] sp that by (fastforce simp: uses_spaced_def dated_within_def)
  with once ended body show ?thesis by (simp add: distinct_count_le)
qed

text \<open>C33. What a peer can make the node hold or do is bounded in every run, however late requests act: used nonces,
  body reads at once in total and per signer, and keys with a budget. When no read is in flight all stages are free
  again. When requests act in clock order, the requests of one key per minute are bounded too.\<close>

theorem node_auth_bounded:
  assumes "auth_reachable d C ids url_parse ascii_origin env keys net_id own url now r"
  shows "length (ry_seen (na_replay (ar_auth r))) \<le> MAX_REPLAY_ENTRIES \<and>
    length (ar_open r) \<le> sl_max_concurrent_bodies (limits_from_env env) \<and>
    (\<forall>g. length (filter (\<lambda>rd. rg_signer (or_guard rd) = g) (ar_open r)) \<le> sl_max_inflight_per_signer (limits_from_env env)) \<and>
    length (bu_windows (na_budget (ar_auth r))) \<le> MAX_BUDGET_KEYS \<and>
    (d = 0 \<longrightarrow> (\<forall>g m. spent (ar_charged r) g m \<le> rate_per_minute_from_env env)) \<and>
    (ar_open r = [] \<longrightarrow> na_body_stage (ar_auth r) + na_reserve_stage (ar_auth r) = sl_max_concurrent_bodies (limits_from_env env))"
proof -
  let ?s = "ar_auth r" and ?lim = "limits_from_env env" and ?gs = "map or_guard (ar_open r)"
  note ok = reachable_run_ok [OF assms]
  have n: "nonces_ok (na_replay ?s)" "ry_max_total (na_replay ?s) \<le> MAX_REPLAY_ENTRIES"
    using ok replay_capacity_bound by (auto simp: run_ok_def spend_ok_def)
  have b: "budget_fits (na_budget ?s)" "d = 0 \<longrightarrow> budget_ok (ar_clock r) (ar_charged r) (na_budget ?s)" "bu_per_minute (na_budget ?s) = rate_per_minute_from_env env" "bu_max_keys (na_budget ?s) = MAX_BUDGET_KEYS"
    using ok by (auto simp: run_ok_def spend_ok_def)
  have rd: "reads_ok ?lim ?gs ?s" using ok by (simp add: run_ok_def)
  then have l: "na_limits ?s = ?lim" by (simp add: reads_ok_def)
  have two: "count_list xs BodyStage + count_list xs ReserveStage = length xs" for xs by (induction xs) (auto intro: stage.exhaust)
  have st: "na_body_stage ?s + count_list (map rg_stage ?gs) BodyStage = sl_max_concurrent_bodies ?lim - sl_max_concurrent_bodies ?lim div 4"
    "na_reserve_stage ?s + count_list (map rg_stage ?gs) ReserveStage = sl_max_concurrent_bodies ?lim div 4"
    using rd l by (simp_all add: reads_ok_def stages_ok_def Let_def)
  have "length (ry_seen (na_replay ?s)) \<le> MAX_REPLAY_ENTRIES" using seen_length [OF n(1)] n by (simp add: nonces_ok_def)
  moreover have "length (ar_open r) \<le> sl_max_concurrent_bodies ?lim" using st two [of "map rg_stage ?gs"] by (simp add: div_le_dividend)
  moreover have "length (filter (\<lambda>rd. rg_signer (or_guard rd) = g) (ar_open r)) = count_list (map rg_signer ?gs) g" for g
    by (induction "ar_open r") (simp_all add: count_list_eq_length_filter filter_map comp_def eq_commute)
  moreover have "count_list (map rg_signer ?gs) g \<le> sl_max_inflight_per_signer ?lim" for g using rd l by (simp add: reads_ok_def inflight_ok_def)
  moreover have "na_body_stage ?s + na_reserve_stage ?s = sl_max_concurrent_bodies ?lim" if "ar_open r = []" using st that by (simp add: div_le_dividend)
  ultimately show ?thesis using b by (auto simp: budget_ok_def budget_fits_def)
qed

section \<open>What authenticates\<close>

lemma read_body_limit: "read_body limit buf es = Ok bs \<Longrightarrow> length buf \<le> limit \<Longrightarrow> length bs \<le> limit"
  by (induction limit buf es rule: read_body.induct) (auto split: if_splits)

lemma auth_begin_head:
  assumes "auth_begin C ids t grown pick headers meth uri source now s = Some (Ok rd, s')"
  shows "check_credential C ids t headers meth uri now s = Ok (or_head rd)"
  using assms
  by (auto simp: auth_begin_def Let_def verify_head_def split: if_splits option.splits sum.splits prod.splits)

lemma auth_end_node:
  assumes "auth_end C pick limit rd body s = (Inr (node, bs), s')"
  shows "node = vh_signer (or_head rd) \<and> verify_node_request_body C (vh_auth (or_head rd)) bs = Ok () \<and> length bs \<le> limit"
  using assms read_body_limit [of limit "[]" body]
  by (auto simp: auth_end_def finish_read_def split: sum.splits prod.splits)

text \<open>C16. Nobody is authenticated over plain HTTP without proof: an accepted request carries exactly one header, which
  verifies for this method, path, network, body and node at this time, is signed with a key whose peer id is
  the one it claims, and that peer has standing.\<close>

theorem authenticated_request_proved:
  assumes "require_node_auth C ids t grown pick limit None headers meth uri source body now s = Some (Ok (node, bs), s')"
  shows "\<exists>header a. headers = [Some header] \<and>
    verify_node_request_header C header \<lparr>h_method = meth, h_path = uri, h_network_id = na_network_id s, t_body = bs\<rparr> (na_recipients s) now MAX_SKEW_SECS = Ok a \<and>
    a_peer_id a = node \<and> key_peer_id ids (a_public_key a) = Some node \<and> standing t node \<and> length bs \<le> limit"
proof -
  from assms obtain rd s1 where b: "auth_begin C ids t grown pick headers meth uri source now s = Some (Inr rd, s1)"
    and e: "auth_end C pick limit rd body s1 = (Inr (node, bs), s')"
    by (auto simp: require_node_auth_def split: option.splits sum.splits prod.splits)
  from check_credential_Ok [OF auth_begin_head [OF b]] auth_end_node [OF e] show ?thesis
    by (auto simp: verify_node_request_header_def verify_node_request_def head_of_target_def NodeRequestHead.defs)
qed

section \<open>Failures of an address\<close>

lemma failures_last:
  fixes s :: NodeAuth
  shows "s\<lparr>na_failures := f, na_replay := c\<rparr> = s\<lparr>na_replay := c, na_failures := f\<rparr>" "s\<lparr>na_failures := f, na_budget := b\<rparr> = s\<lparr>na_budget := b, na_failures := f\<rparr>"
    "s\<lparr>na_failures := f, na_inflight := l\<rparr> = s\<lparr>na_inflight := l, na_failures := f\<rparr>"
    "s\<lparr>na_failures := f, na_body_stage := n\<rparr> = s\<lparr>na_body_stage := n, na_failures := f\<rparr>"
    "s\<lparr>na_failures := f, na_reserve_stage := n\<rparr> = s\<lparr>na_reserve_stage := n, na_failures := f\<rparr>"
    "s\<lparr>na_failures := f, na_recent_good := m\<rparr> = s\<lparr>na_recent_good := m, na_failures := f\<rparr>"
  by simp_all

lemma failures_commute:
  "check_credential C ids t headers meth uri now (s\<lparr>na_failures := f\<rparr>) = check_credential C ids t headers meth uri now s"
  "verify_head C ids t grown headers meth uri now (s\<lparr>na_failures := f\<rparr>) =
     map_option (\<lambda>(r, s). (r, s\<lparr>na_failures := f\<rparr>)) (verify_head C ids t grown headers meth uri now s)"
  "drop_guard g (s\<lparr>na_failures := f\<rparr>) = (drop_guard g s)\<lparr>na_failures := f\<rparr>"
  "drop_slot i (s\<lparr>na_failures := f\<rparr>) = (drop_slot i s)\<lparr>na_failures := f\<rparr>"
  "take_stage i now (s\<lparr>na_failures := f\<rparr>) = map_option (\<lambda>(st, s). (st, s\<lparr>na_failures := f\<rparr>)) (take_stage i now s)"
proof -
  show c: "check_credential C ids t headers meth uri now (s\<lparr>na_failures := f\<rparr>) = check_credential C ids t headers meth uri now s"
    by (simp add: check_credential_def cong: if_cong)
  show "verify_head C ids t grown headers meth uri now (s\<lparr>na_failures := f\<rparr>) =
     map_option (\<lambda>(r, s). (r, s\<lparr>na_failures := f\<rparr>)) (verify_head C ids t grown headers meth uri now s)"
    by (simp add: verify_head_def c option.map_comp comp_def case_prod_unfold failures_last split: sum.split)
  show d: "drop_slot i (s\<lparr>na_failures := f\<rparr>) = (drop_slot i s)\<lparr>na_failures := f\<rparr>" for i and s :: NodeAuth by (simp add: drop_slot_def failures_last split: option.split)
  have "release_stage st (s\<lparr>na_failures := f\<rparr>) = (release_stage st s)\<lparr>na_failures := f\<rparr>" for st by (simp add: release_stage_def failures_last split: stage.split)
  then show "drop_guard g (s\<lparr>na_failures := f\<rparr>) = (drop_guard g s)\<lparr>na_failures := f\<rparr>" by (simp add: drop_guard_def d)
  show "take_stage i now (s\<lparr>na_failures := f\<rparr>) = map_option (\<lambda>(st, s). (st, s\<lparr>na_failures := f\<rparr>)) (take_stage i now s)"
    by (simp add: take_stage_def recently_good_def failures_last)
qed

lemma consume_failures:
  "consume_nonce_and_budget C ids grown head now (s\<lparr>na_failures := f\<rparr>) =
     map_option (\<lambda>(r, s). (r, s\<lparr>na_failures := f\<rparr>)) (consume_nonce_and_budget C ids grown head now s)"
  by (cases "replay_admit C ids grown (vh_signer head) (a_nonce (vh_auth head)) now (na_replay s)")
    (auto simp: consume_nonce_and_budget_def failures_last split: sum.split prod.split bool.split)

lemma begin_read_failures:
  "begin_read C ids grown head now (s\<lparr>na_failures := f\<rparr>) = map_option (\<lambda>(r, s). (r, s\<lparr>na_failures := f\<rparr>)) (begin_read C ids grown head now s)"
  unfolding begin_read_def Let_def
  by (simp add: failures_last failures_commute consume_failures map_option_case split: option.split prod.split sum.split)

lemma auth_begin_failures:
  assumes "auth_begin C ids t grown pick headers meth uri source now s = Some (Inr rd, s')"
  shows "\<exists>th. auth_begin C ids t grown pick headers meth uri source now (s\<lparr>na_failures := f\<rparr>) = Some (Inr (rd\<lparr>or_throttled := th\<rparr>), s'\<lparr>na_failures := f\<rparr>)"
proof -
  from assms obtain head s1 g where v: "headers \<noteq> []" "verify_head C ids t grown headers meth uri now s = Some (Inr head, s1)"
    "begin_read C ids grown head now s1 = Some (Inr g, s')" and rd: "or_head rd = head" "or_guard rd = g" "or_source rd = source" "or_now rd = now"
    by (auto simp: auth_begin_def Let_def split: if_splits option.splits sum.splits prod.splits)
  then show ?thesis
    by (intro exI [of _ "source_throttled source now (s\<lparr>na_failures := f\<rparr>)"])
      (cases rd, simp add: auth_begin_def Let_def failures_commute begin_read_failures)
qed

lemma auth_end_failures:
  assumes "auth_end C pick limit rd body s = (Inr x, s')"
  shows "\<exists>s''. auth_end C pick limit (rd\<lparr>or_throttled := th\<rparr>) body (s\<lparr>na_failures := f\<rparr>) = (Inr x, s'')"
  using assms by (auto simp: auth_end_def Let_def finish_read_def split: sum.splits prod.splits)

lemma accepted_despite_failures:
  assumes "require_node_auth C ids t grown pick limit remote headers meth uri source body now s = Some (Inr x, s')"
  shows "\<exists>s''. require_node_auth C ids t grown pick limit remote headers meth uri source body now (s\<lparr>na_failures := f\<rparr>) = Some (Inr x, s'')"
proof (cases remote)
  case None
  with assms obtain rd s1 where b: "auth_begin C ids t grown pick headers meth uri source now s = Some (Inr rd, s1)"
    and e: "auth_end C pick limit rd body s1 = (Inr x, s')"
    by (auto simp: require_node_auth_def split: option.splits sum.splits prod.splits)
  from auth_begin_failures [OF b, of f] obtain th where
    "auth_begin C ids t grown pick headers meth uri source now (s\<lparr>na_failures := f\<rparr>) = Some (Inr (rd\<lparr>or_throttled := th\<rparr>), s1\<lparr>na_failures := f\<rparr>)" by blast
  with auth_end_failures [OF e, of th f] None show ?thesis by (auto simp: require_node_auth_def)
next
  case (Some peer)
  obtain res s1 where a: "authenticate_stream t peer now s = (res, s1)" by fastforce
  then have "authenticate_stream t peer now (s\<lparr>na_failures := f\<rparr>) = (res, s1\<lparr>na_failures := f\<rparr>)"
    by (auto simp: authenticate_stream_def failures_last split: prod.splits if_splits)
  with assms Some a show ?thesis by (cases "stream_bytes limit body"; cases res) (auto simp: require_node_auth_def Let_def split: prod.splits)
qed

text \<open>C39. A valid request is never refused for the address it came from: whatever failures are counted against
  addresses, the same requests are accepted, with the same outcome.\<close>

theorem accepted_whatever_address:
  "(\<exists>s'. require_node_auth C ids t grown pick limit remote headers meth uri source body now s = Some (Ok x, s')) \<longleftrightarrow>
   (\<exists>s'. require_node_auth C ids t grown pick limit remote headers meth uri source body now (s\<lparr>na_failures := f\<rparr>) = Some (Ok x, s'))"
proof
  assume "\<exists>s'. require_node_auth C ids t grown pick limit remote headers meth uri source body now s = Some (Ok x, s')"
  then show "\<exists>s'. require_node_auth C ids t grown pick limit remote headers meth uri source body now (s\<lparr>na_failures := f\<rparr>) = Some (Ok x, s')"
    using accepted_despite_failures by blast
next
  assume "\<exists>s'. require_node_auth C ids t grown pick limit remote headers meth uri source body now (s\<lparr>na_failures := f\<rparr>) = Some (Ok x, s')"
  then obtain s' where "require_node_auth C ids t grown pick limit remote headers meth uri source body now (s\<lparr>na_failures := f\<rparr>) = Some (Ok x, s')" by blast
  from accepted_despite_failures [OF this, of "na_failures s"]
  show "\<exists>s'. require_node_auth C ids t grown pick limit remote headers meth uri source body now s = Some (Ok x, s')" by simp
qed

section \<open>Honest requests\<close>

definition has_room :: "auth_run \<Rightarrow> str \<Rightarrow> int \<Rightarrow> bool" where
  "has_room r g now \<longleftrightarrow>
     (let s = ar_auth r in
      \<not> exhausted g now (na_signer_failures s) \<and> inflight_of s g < sl_max_inflight_per_signer (na_limits s) \<and> 0 < na_body_stage s \<and>
      spent (ar_charged r) g (now div 60) < bu_per_minute (na_budget s) \<and>
      (map_of (bu_windows (na_budget s)) g \<noteq> None \<or> length (bu_windows (na_budget s)) < bu_max_keys (na_budget s)) \<and>
      length (live_at now (queue_of (na_replay s))) < ry_max_total (na_replay s))"

lemma charge_granted:
  assumes "budget_ok now hist b" and "spent hist g (now div 60) < bu_per_minute b"
    and "map_of (bu_windows b) g \<noteq> None \<or> length (bu_windows b) < bu_max_keys b"
  shows "fst (charge pick g now b)"
proof -
  have "\<not> (length (bu_windows b) \<ge> bu_max_keys b \<and> map_of (bu_windows b) g = None)" using assms(3) by linarith
  moreover have "used_in (now div 60) (map_of (bu_windows b) g) < bu_per_minute b" using assms(1,2) by (simp add: budget_ok_def)
  ultimately show ?thesis by (auto simp: charge_def charge_units_def Let_def used_in_def split: option.splits if_splits)
qed

lemma consume_granted:
  assumes "run_ok 0 C ids cap rate lim r" and "ar_clock r \<le> now" and "has_room r (vh_signer head) now" and "unused C ids (ar_begun r) head now"
    and "na_replay s = na_replay (ar_auth r)" and "na_budget s = na_budget (ar_auth r)"
  shows "\<exists>s'. consume_nonce_and_budget C ids grown head now s = Some (Ok (), s')"
proof -
  let ?c = "na_replay (ar_auth r)" and ?k = "nonce_key C ids (vh_signer head) (a_nonce (vh_auth head))"
  have ok: "nonces_ok ?c" "held (ar_clock r) (uses_log C ids (ar_begun r)) (queue_of ?c)" "caps_of ?c = (cap, per_signer_cap rate)"
    "budget_ok now (ar_charged r) (na_budget (ar_auth r))" "in_order (ar_clock r) (uses_log C ids (ar_begun r))"
    using assms(1) budget_advance [OF _ assms(2)] by (auto simp: run_ok_def spend_ok_def)
  have "?k \<notin> set (map (fst \<circ> snd) (live_at now (queue_of ?c)))"
    unfolding set_map in_order_live(1) [OF ok(5,2) assms(2)] using assms(4) by (fastforce simp: unused_def)
  moreover have "length (filter (\<lambda>(_, _, g'). g' = vh_signer head) (live_at now (queue_of ?c))) < per_signer_cap rate"
    using share_never_full [OF assms(1,2), of "vh_signer head"] by (simp add: per_signer_cap_def)
  ultimately have q: "queue_admit (caps_of ?c) ?k (vh_signer head) (live_at now (queue_of ?c)) = Ok ()"
    using assms(3) ok(3) by (simp add: queue_admit_def has_room_def Let_def del: set_map)
  from replay_admit_ok [OF ok(1), of C ids grown "vh_signer head" "a_nonce (vh_auth head)" now] obtain c
    where a: "replay_admit C ids grown (vh_signer head) (a_nonce (vh_auth head)) now ?c = Some (Ok (), c)" unfolding q by blast
  obtain b where b: "charge 0 (vh_signer head) now (na_budget (ar_auth r)) = (True, b)"
    using charge_granted [OF ok(4), of "vh_signer head" 0] assms(3) by (cases "charge 0 (vh_signer head) now (na_budget (ar_auth r))") (auto simp: has_room_def Let_def)
  from a b assms(5,6) show ?thesis by (simp add: consume_nonce_and_budget_def)
qed

lemma begin_read_granted:
  assumes "run_ok 0 C ids cap rate lim r" and "ar_clock r \<le> now" and "has_room r (vh_signer head) now" and "unused C ids (ar_begun r) head now"
  shows "\<exists>g s'. begin_read C ids grown head now (ar_auth r) = Some (Ok g, s')"
proof -
  let ?s = "ar_auth r" and ?g = "vh_signer head"
  let ?s1 = "?s\<lparr>na_inflight := AList.update ?g (inflight_of ?s ?g + 1) (na_inflight ?s)\<rparr>"
  have room: "\<not> exhausted ?g now (na_signer_failures ?s)" "inflight_of ?s ?g < sl_max_inflight_per_signer (na_limits ?s)" "0 < na_body_stage ?s"
    using assms(3) by (simp_all add: has_room_def Let_def)
  have t: "take_stage ?g now ?s1 = Some (BodyStage, ?s1\<lparr>na_body_stage := na_body_stage ?s - 1\<rparr>)" using room(3) by (simp add: take_stage_def)
  from consume_granted [OF assms, of "?s1\<lparr>na_body_stage := na_body_stage ?s - 1\<rparr>" grown]
  obtain s' where "consume_nonce_and_budget C ids grown head now (?s1\<lparr>na_body_stage := na_body_stage ?s - 1\<rparr>) = Some (Ok (), s')" by auto
  with room t show ?thesis by (simp add: begin_read_def inflight_of_def [symmetric] Let_def)
qed

lemma live_at_live: "live_at now (live_at now q) = live_at now q"
  by (simp add: live_at_def dropWhile_idem)

text \<open>The checks of a header that is not used yet pass, and leave the room that there was.\<close>

lemma verify_head_granted:
  assumes "run_ok 0 C ids cap rate lim r" and "ar_clock r \<le> now" and "clock_ok now" and "unused C ids (ar_begun r) head now"
    and "check_credential C ids t headers meth uri now (ar_auth r) = Ok head"
  shows "\<exists>s'. verify_head C ids t grown headers meth uri now (ar_auth r) = Some (Inr head, s') \<and>
    run_ok 0 C ids cap rate lim (r\<lparr>ar_auth := s', ar_clock := now\<rparr>) \<and> check_credential C ids t headers meth uri now s' = Ok head \<and>
    (\<forall>g. has_room r g now \<longrightarrow> has_room (r\<lparr>ar_auth := s', ar_clock := now\<rparr>) g now)"
proof -
  let ?s = "ar_auth r" and ?k = "nonce_key C ids (vh_signer head) (a_nonce (vh_auth head))"
  have n: "nonces_ok (na_replay ?s)" "held (ar_clock r) (uses_log C ids (ar_begun r)) (queue_of (na_replay ?s))" "in_order (ar_clock r) (uses_log C ids (ar_begun r))"
    using assms(1) by (auto simp: run_ok_def spend_ok_def)
  have "?k \<notin> set (map (fst \<circ> snd) (live_at now (queue_of (na_replay ?s))))"
    unfolding set_map in_order_live(1) [OF n(3,2) assms(2)] using assms(4) by (fastforce simp: unused_def)
  with replay_is_live_ok [OF n(1), of C ids grown "vh_signer head" "a_nonce (vh_auth head)" now] obtain c where
    c: "replay_is_live C ids grown (vh_signer head) (a_nonce (vh_auth head)) now (na_replay ?s) = Some (False, c)"
      "queue_of c = live_at now (queue_of (na_replay ?s))" "caps_of c = caps_of (na_replay ?s)" by auto
  then have v: "verify_head C ids t grown headers meth uri now ?s = Some (Inr head, ?s\<lparr>na_replay := c\<rparr>)" by (simp add: verify_head_def assms(5))
  have "run_ok 0 C ids cap rate lim (r\<lparr>ar_auth := ?s\<lparr>na_replay := c\<rparr>, ar_clock := now\<rparr>)"
    using run_ok_verified(1) [OF assms(1) _ assms(3) v] assms(2) by (simp add: max_absorb2)
  moreover have "has_room (r\<lparr>ar_auth := ?s\<lparr>na_replay := c\<rparr>, ar_clock := now\<rparr>) g now" if "has_room r g now" for g
    using that c(2,3) by (simp add: has_room_def Let_def inflight_of_def live_at_live)
  moreover have "check_credential C ids t headers meth uri now (?s\<lparr>na_replay := c\<rparr>) = Ok head" using assms(5) by (simp add: check_credential_def cong: if_cong)
  ultimately show ?thesis using v by blast
qed

lemma auth_begin_granted:
  assumes "run_ok 0 C ids cap rate lim r" and "ar_clock r \<le> now" and "clock_ok now" and "has_room r (vh_signer head) now" and "unused C ids (ar_begun r) head now"
    and "check_credential C ids t headers meth uri now (ar_auth r) = Ok head"
  shows "\<exists>rd s'. auth_begin C ids t grown pick headers meth uri source now (ar_auth r) = Some (Inr rd, s') \<and> or_head rd = head"
proof -
  from verify_head_granted [OF assms(1-3,5,6), of grown] assms(4) obtain s1 where
    v: "verify_head C ids t grown headers meth uri now (ar_auth r) = Some (Inr head, s1)" and
    r: "run_ok 0 C ids cap rate lim (r\<lparr>ar_auth := s1, ar_clock := now\<rparr>)" "has_room (r\<lparr>ar_auth := s1, ar_clock := now\<rparr>) (vh_signer head) now" by blast
  from begin_read_granted [OF r(1) _ r(2), of grown] assms(5) obtain g s' where "begin_read C ids grown head now s1 = Some (Inr g, s')" by auto
  moreover have "headers \<noteq> []" using check_credential_Ok [OF assms(6)] by auto
  ultimately show ?thesis by (simp add: auth_begin_def Let_def v)
qed

lemma signed_request_authenticated:
  assumes "auth_reachable 0 C ids url_parse ascii_origin env keys net_id own url start r" and "ar_clock r \<le> now" and "clock_ok now"
    and "hex_ok C" and "sha256_ok C" and "sig_ok C" and "\<not> key_is_weak C (verifying_key C k)" and "key_peer_id ids (verifying_key C k) = Some peer"
    and "sign_node_request C k peer target recipient ts nonce = Ok a" and "length nonce = 16" and "0 \<le> ts" and "ts < 2 ^ 63"
    and "recipient \<in> set (na_recipients (ar_auth r))" and "\<forall>x\<in>set (na_recipients (ar_auth r)). validate_name x ''recipient'' = Ok ()"
    and "h_network_id target = na_network_id (ar_auth r)" and "\<bar>ts - now\<bar> \<le> MAX_SKEW_SECS" and "standing t peer" and "length (t_body target) \<le> limit"
    and "unused C ids (ar_begun r) \<lparr>vh_signer = peer, vh_auth = a\<rparr> now" and "has_room r peer now"
  shows "\<exists>s'. require_node_auth C ids t grown pick limit None [Some (encode_node_request_header C a)] (h_method target) (h_path target) source
    [Chunk (t_body target)] now (ar_auth r) = Some (Ok (peer, t_body target), s')"
proof -
  let ?s = "ar_auth r" and ?head = "\<lparr>vh_signer = peer, vh_auth = a\<rparr>"
  have w: "- (2 ^ 63) \<le> now - MAX_SKEW_SECS" "now + MAX_SKEW_SECS < 2 ^ 63" "0 \<le> MAX_SKEW_SECS" using assms(3) by (auto simp: clock_ok_def MAX_SKEW_SECS_def)
  note chk = signed_request_checks [OF assms(4-7,9-14) w(3,1,2)]
  have fields: "a_peer_id a = peer" "a_public_key a = verifying_key C k" "a_timestamp a = ts" "a_body_hash a = sha256 C (t_body target)"
    by (subst chk(2), simp)+
  have sat: "i64_saturate (now - MAX_SKEW_SECS) = now - MAX_SKEW_SECS" "i64_saturate (now + MAX_SKEW_SECS) = now + MAX_SKEW_SECS"
    using w by (auto simp: i64_saturate_def)
  have ht: "head_of_target target = \<lparr>h_method = h_method target, h_path = h_path target, h_network_id = na_network_id ?s\<rparr>"
    using assms(15) by (simp add: head_of_target_def NodeRequestHead.defs)
  have "verify_node_request_head C a (head_of_target target) (na_recipients ?s) now MAX_SKEW_SECS = Ok ()" using chk(3) assms(16) by (auto simp: abs_le_iff)
  then have cred: "check_credential C ids t [Some (encode_node_request_header C a)] (h_method target) (h_path target) now ?s = Ok ?head"
    using assms(8,16,17) fields chk(1) by (simp add: check_credential_def header_text_def sat ht abs_le_iff)
  have "has_room r (vh_signer ?head) now" using assms(20) by simp
  from auth_begin_granted [OF reachable_run_ok [OF assms(1)] assms(2,3) this assms(19) cred, of grown pick source] obtain rd s1 where
    b: "auth_begin C ids t grown pick [Some (encode_node_request_header C a)] (h_method target) (h_path target) source now ?s = Some (Inr rd, s1)"
    and rd: "or_head rd = ?head" by blast
  have "\<exists>s'. auth_end C pick limit rd [Chunk (t_body target)] s1 = (Inr (peer, t_body target), s')"
    using assms(18) fields(4) by (simp add: auth_end_def finish_read_def rd verify_node_request_body_def)
  with b show ?thesis by (auto simp: require_node_auth_def)
qed


section \<open>An honest request, step by step\<close>

definition demo_ids :: peer_ids where
  "demo_ids = \<lparr>key_peer_id = (\<lambda>_. Some ''12D3KooW''), peer_id_bytes = (\<lambda>_. [])\<rparr>"

abbreviation demo_node_auth :: NodeAuth where
  "demo_node_auth \<equiv> node_auth_new (\<lambda>_. None) (\<lambda>_. []) (\<lambda>_. None) 2000 ''testnet'' (Some ''node-b'') None"

definition demo_standing :: PeerTable where
  "demo_standing = \<lparr>pt_peers = [(''u'', (demo_peer ''u'' 1)\<lparr>pi_libp2p_peer_id := Some ''12D3KooW'', pi_identity_bound := True\<rparr>)], pt_unverified = []\<rparr>"

lemma demo_auth_fields:
  "na_recipients demo_node_auth = [''node-b'']" "na_network_id demo_node_auth = ''testnet''" "standing demo_standing ''12D3KooW''"
  "has_room (auth_start demo_node_auth 1000) ''12D3KooW'' 1002" "ar_auth (auth_start demo_node_auth 1000) = demo_node_auth"
  by (simp_all add: node_auth_new_def with_stage_limits_def Let_def standing_def demo_standing_def list_all_peers_def has_room_def auth_start_def
      budget_new_def replay_new_def exhausted_def inflight_of_def limits_from_env_def env_positive_def default_limits_def rate_per_minute_from_env_def
      DEFAULT_MAX_INFLIGHT_PER_SIGNER_def DEFAULT_MAX_CONCURRENT_BODIES_def DEFAULT_RATE_PER_MINUTE_def spent_def MAX_BUDGET_KEYS_def live_at_def queue_of_def
      replay_capacity_def MAX_REPLAY_ENTRIES_def per_signer_cap_def usize_max_def)

lemma demo_signed:
  "\<exists>a. sign_node_request demo_crates demo_signing_key ''12D3KooW'' demo_target ''node-b'' 1000 demo_nonce = Ok a"
  using demo_request_message by (auto simp: sign_node_request_def)

lemma demo_names: "\<forall>x\<in>set (na_recipients (ar_auth (auth_start demo_node_auth 1000))). validate_name x ''recipient'' = Ok ()"
  by (simp add: demo_auth_fields validate_name_def MAX_NAME_LEN_def)

lemma demo_key_strong: "\<not> key_is_weak demo_crates (verifying_key demo_crates demo_signing_key)"
  by (simp add: demo_crates_def demo_signing_key_def pad32_def)

lemma demo_clock:
  "ar_clock (auth_start demo_node_auth 1000) \<le> 1002" "clock_ok 1002" "unused C ids (ar_begun (auth_start demo_node_auth 1000)) head 1002"
  "\<bar>1000 - 1002\<bar> \<le> MAX_SKEW_SECS"
  by (simp_all add: auth_start_def clock_ok_def unused_def uses_log_def MAX_SKEW_SECS_def)

lemma demo_request_fields:
  "length demo_nonce = 16" "''node-b'' \<in> set (na_recipients (ar_auth (auth_start demo_node_auth 1000)))"
  "h_network_id demo_target = na_network_id (ar_auth (auth_start demo_node_auth 1000))" "length (t_body demo_target) \<le> 64"
  "key_peer_id demo_ids (verifying_key demo_crates demo_signing_key) = Some ''12D3KooW''"
  by (simp_all add: demo_nonce_def demo_auth_fields demo_target_def demo_ids_def)

lemmas demo_honest = demo_clock(1,2) demo_hex_ok demo_sha256_ok demo_sig_ok demo_key_strong demo_request_fields(5)

lemma demo_accepted:
  assumes "sign_node_request demo_crates demo_signing_key ''12D3KooW'' demo_target ''node-b'' 1000 demo_nonce = Ok a"
  shows "\<exists>s'. require_node_auth demo_crates demo_ids demo_standing False 0 64 None [Some (encode_node_request_header demo_crates a)]
    (h_method demo_target) (h_path demo_target) (V4 7) [Chunk (t_body demo_target)] 1002 demo_node_auth = Some (Ok (''12D3KooW'', t_body demo_target), s')"
  using signed_request_authenticated [OF rtranclp.rtrancl_refl demo_honest assms demo_request_fields(1) _ _ demo_request_fields(2) demo_names
      demo_request_fields(3) demo_clock(4) demo_auth_fields(3) demo_request_fields(4) demo_clock(3) demo_auth_fields(4)]
  by (simp add: demo_auth_fields)


theorem authenticated_request_proved_witness:
  "\<exists>header a. verify_node_request_header demo_crates header demo_target [''node-b''] 1002 MAX_SKEW_SECS = Ok a \<and> a_peer_id a = ''12D3KooW''"
proof -
  from demo_signed obtain a where a: "sign_node_request demo_crates demo_signing_key ''12D3KooW'' demo_target ''node-b'' 1000 demo_nonce = Ok a" by blast
  from demo_accepted [OF a] obtain s' where r: "require_node_auth demo_crates demo_ids demo_standing False 0 64 None [Some (encode_node_request_header demo_crates a)]
    (h_method demo_target) (h_path demo_target) (V4 7) [Chunk (t_body demo_target)] 1002 demo_node_auth = Some (Ok (''12D3KooW'', t_body demo_target), s')" by blast
  have "\<lparr>h_method = h_method demo_target, h_path = h_path demo_target, h_network_id = na_network_id demo_node_auth, t_body = t_body demo_target\<rparr> = demo_target"
    by (simp add: demo_target_def demo_auth_fields)
  with authenticated_request_proved [OF r] show ?thesis by (auto simp: demo_auth_fields)
qed

text \<open>A request over plain HTTP that nothing interrupts passes its checks and begins its read in two steps.\<close>

lemma auth_begin_steps:
  assumes "auth_begin C ids t grown pick headers meth uri source now (ar_auth r) = Some (Inr rd, s)" and "ar_clock r \<le> now" and "clock_ok now"
  shows "\<exists>r'. (auth_step d C ids)\<^sup>*\<^sup>* r r' \<and> ar_auth r' = s \<and> ar_open r' = ar_open r @ [rd] \<and> ar_begun r' = ar_begun r @ [(now, or_head rd)] \<and> ar_done r' = ar_done r"
proof -
  from assms(1) obtain head s1 g where v: "verify_head C ids t grown headers meth uri now (ar_auth r) = Some (Ok head, s1)"
    and b: "begin_read C ids grown head now s1 = Some (Ok g, s)"
    and rd: "rd = \<lparr>or_head = head, or_guard = g, or_throttled = source_throttled source now (ar_auth r), or_source = source, or_now = now\<rparr>"
    by (auto simp: auth_begin_def Let_def split: if_splits option.splits sum.splits prod.splits)
  let ?p = "\<lparr>pd_head = head, pd_throttled = source_throttled source now (ar_auth r), pd_source = source, pd_now = now\<rparr>"
  define r1 where "r1 = r\<lparr>ar_auth := s1, ar_clock := max (ar_clock r) now, ar_pending := ar_pending r @ [?p]\<rparr>"
  have 1: "auth_step d C ids r r1" unfolding r1_def using v assms(2,3) by (intro verified) auto
  have "ar_pending r1 = ar_pending r @ ?p # []" "ar_clock r1 \<le> pd_now ?p + int d" "begin_read C ids grown (pd_head ?p) (pd_now ?p) (ar_auth r1) = Some (Ok g, s)"
    using b assms(2) by (simp_all add: r1_def)
  from began [OF this] have 2: "auth_step d C ids r1 (after_begin r1 (ar_pending r @ []) ?p g s)" .
  have "(auth_step d C ids)\<^sup>*\<^sup>* r (after_begin r1 (ar_pending r @ []) ?p g s)" using 1 2 by (meson rtranclp.rtrancl_into_rtrancl rtranclp.rtrancl_refl)
  then show ?thesis by (rule exI [where P = "\<lambda>r'. (auth_step d C ids)\<^sup>*\<^sup>* r r' \<and> _ r'", OF conjI]) (simp add: after_begin_def read_of_def r1_def rd)
qed

lemma demo_begin:
  "\<exists>a rd s1 s2 node bs. sign_node_request demo_crates demo_signing_key ''12D3KooW'' demo_target ''node-b'' 1000 demo_nonce = Ok a \<and>
    auth_begin demo_crates demo_ids demo_standing False 0 [Some (encode_node_request_header demo_crates a)] (h_method demo_target) (h_path demo_target) (V4 7) 1002
      demo_node_auth = Some (Inr rd, s1) \<and> auth_end demo_crates 0 64 rd [Chunk (t_body demo_target)] s1 = (Inr (node, bs), s2)"
proof -
  from demo_signed obtain a where a: "sign_node_request demo_crates demo_signing_key ''12D3KooW'' demo_target ''node-b'' 1000 demo_nonce = Ok a" by blast
  from demo_accepted [OF a] a show ?thesis by (fastforce simp: require_node_auth_def split: option.splits sum.splits prod.splits)
qed

lemma demo_run:
  "\<exists>r. auth_reachable 0 demo_crates demo_ids (\<lambda>_. None) (\<lambda>_. []) (\<lambda>_. None) 2000 ''testnet'' (Some ''node-b'') None 1000 r \<and> length (ar_done r) = 1 \<and> ar_open r = []"
proof -
  let ?r0 = "auth_start demo_node_auth 1000"
  from demo_begin obtain a rd s1 s2 node bs where
    b: "auth_begin demo_crates demo_ids demo_standing False 0 [Some (encode_node_request_header demo_crates a)] (h_method demo_target) (h_path demo_target) (V4 7) 1002
      (ar_auth ?r0) = Some (Inr rd, s1)" and
    e: "auth_end demo_crates 0 64 rd [Chunk (t_body demo_target)] s1 = (Inr (node, bs), s2)"
    unfolding demo_auth_fields(5) by blast
  from auth_begin_steps [OF b demo_clock(1,2)] obtain r1 where r1: "(auth_step 0 demo_crates demo_ids)\<^sup>*\<^sup>* ?r0 r1" "ar_auth r1 = s1" "ar_open r1 = [] @ rd # []" "ar_done r1 = []"
    by (auto simp: auth_start_def)
  define r2 where "r2 = r1\<lparr>ar_auth := s2, ar_open := [] @ [], ar_done := ar_done r1 @ [(or_head rd, bs)]\<rparr>"
  from ended [OF r1(3) e [folded r1(2)], of 0 demo_ids] have "auth_step 0 demo_crates demo_ids r1 r2" by (simp add: r2_def)
  with r1(1) have "(auth_step 0 demo_crates demo_ids)\<^sup>*\<^sup>* ?r0 r2" by (rule rtranclp.rtrancl_into_rtrancl)
  moreover have "length (ar_done r2) = 1" "ar_open r2 = []" using r1(4) by (simp_all add: r2_def)
  ultimately show ?thesis by blast
qed

text \<open>Two requests with one header, both through their checks before either begins: the second is refused.\<close>

theorem signed_header_used_once_witness:
  "\<exists>a head s1 s2 g s3 e s4.
     verify_head demo_crates demo_ids demo_standing False [Some (encode_node_request_header demo_crates a)] (h_method demo_target) (h_path demo_target) 1002 demo_node_auth = Some (Ok head, s1) \<and>
     verify_head demo_crates demo_ids demo_standing False [Some (encode_node_request_header demo_crates a)] (h_method demo_target) (h_path demo_target) 1002 s1 = Some (Ok head, s2) \<and>
     begin_read demo_crates demo_ids False head 1002 s2 = Some (Ok g, s3) \<and> begin_read demo_crates demo_ids False head 1002 s3 = Some (Err e, s4)"
proof -
  let ?reach = "auth_reachable 0 demo_crates demo_ids (\<lambda>_. None) (\<lambda>_. []) (\<lambda>_. None) 2000 ''testnet'' (Some ''node-b'') None 1000"
  let ?r0 = "auth_start demo_node_auth 1000" and ?step = "auth_step 0 demo_crates demo_ids"
  from demo_begin obtain a rd s1 where b: "auth_begin demo_crates demo_ids demo_standing False 0 [Some (encode_node_request_header demo_crates a)]
      (h_method demo_target) (h_path demo_target) (V4 7) 1002 demo_node_auth = Some (Inr rd, s1)" by blast
  let ?h = "[Some (encode_node_request_header demo_crates a)]" and ?head = "or_head rd"
  let ?p = "\<lparr>pd_head = ?head, pd_throttled = False, pd_source = V4 7, pd_now = 1002\<rparr>"
  let ?verify = "verify_head demo_crates demo_ids demo_standing False ?h (h_method demo_target) (h_path demo_target) 1002"
  have chk: "check_credential demo_crates demo_ids demo_standing ?h (h_method demo_target) (h_path demo_target) 1002 (ar_auth ?r0) = Ok ?head"
    unfolding demo_auth_fields(5) by (rule auth_begin_head [OF b])
  have signer: "vh_signer ?head = ''12D3KooW''" using check_credential_Ok [OF chk] by (auto simp: demo_ids_def)
  have r0: "?reach ?r0" by simp
  from verify_head_granted [OF reachable_run_ok [OF r0] demo_clock(1-3) chk, of False] demo_auth_fields(4) obtain s1 where
    v1: "?verify demo_node_auth = Some (Inr ?head, s1)" "check_credential demo_crates demo_ids demo_standing ?h (h_method demo_target) (h_path demo_target) 1002 s1 = Ok ?head"
      "has_room (?r0\<lparr>ar_auth := s1, ar_clock := 1002\<rparr>) ''12D3KooW'' 1002" unfolding demo_auth_fields(5) by blast
  define r1 where "r1 = ?r0\<lparr>ar_auth := s1, ar_clock := max (ar_clock ?r0) 1002, ar_pending := ar_pending ?r0 @ [?p]\<rparr>"
  have "?step ?r0 r1" unfolding r1_def using v1(1) demo_clock(1,2) by (intro verified) (auto simp: demo_auth_fields)
  then have r1: "?reach r1" by blast
  have f1: "ar_auth r1 = s1" "ar_clock r1 = 1002" "ar_pending r1 = [?p]" "ar_begun r1 = []" "has_room r1 ''12D3KooW'' 1002"
    using v1(3) by (simp_all add: r1_def auth_start_def has_room_def)
  have un: "unused demo_crates demo_ids [] ?head 1002" by (simp add: unused_def uses_log_def)
  from verify_head_granted [OF reachable_run_ok [OF r1], of 1002 ?head demo_standing ?h "h_method demo_target" "h_path demo_target" False] un v1(2) f1 demo_clock(2)
  obtain s2 where v2: "?verify s1 = Some (Inr ?head, s2)" "has_room (r1\<lparr>ar_auth := s2, ar_clock := 1002\<rparr>) ''12D3KooW'' 1002" by auto
  define r2 where "r2 = r1\<lparr>ar_auth := s2, ar_clock := max (ar_clock r1) 1002, ar_pending := ar_pending r1 @ [?p]\<rparr>"
  have "?step r1 r2" unfolding r2_def using v2(1) f1 demo_clock(2) by (intro verified) auto
  with r1 have r2: "?reach r2" by (rule rtranclp.rtrancl_into_rtrancl)
  have f2: "ar_auth r2 = s2" "ar_clock r2 = 1002" "ar_pending r2 = [] @ ?p # [?p]" "ar_begun r2 = []" "has_room r2 ''12D3KooW'' 1002"
    using v2(2) f1 by (simp_all add: r2_def has_room_def)
  from begin_read_granted [OF reachable_run_ok [OF r2], of 1002 ?head False] un f2 signer
  obtain g s3 where b3: "begin_read demo_crates demo_ids False ?head 1002 s2 = Some (Ok g, s3)" by auto
  define r3 where "r3 = after_begin r2 ([] @ [?p]) ?p g s3"
  have "?step r2 r3" unfolding r3_def by (rule began [OF f2(3)]) (use f2 b3 in simp_all)
  with r2 have r3: "?reach r3" by (rule rtranclp.rtrancl_into_rtrancl)
  have f3: "ar_auth r3 = s3" "ar_clock r3 = 1002" "ar_pending r3 = [] @ ?p # []" "ar_begun r3 = [(1002, ?head)]" using f2 by (simp_all add: r3_def after_begin_def)
  have no: "begin_read demo_crates demo_ids False ?head 1002 s3 \<noteq> Some (Ok g', s4)" for g' s4
  proof
    assume "begin_read demo_crates demo_ids False ?head 1002 s3 = Some (Ok g', s4)"
    then have "?step r3 (after_begin r3 ([] @ []) ?p g' s4)" using f3 by (intro began) simp_all
    with r3 have "?reach (after_begin r3 ([] @ []) ?p g' s4)" by (rule rtranclp.rtrancl_into_rtrancl)
    from signed_header_used_once [OF this] show False by (simp add: after_begin_def f3)
  qed
  have "\<exists>r s. begin_read demo_crates demo_ids False ?head 1002 s3 = Some (r, s)"
    using begin_read_ok [of 0 demo_crates demo_ids _ _ "ar_clock r3" "ar_begun r3" "ar_charged r3" s3 _ "map or_guard (ar_open r3)" 1002 False ?head]
      reachable_run_ok [OF r3] f3 demo_clock(2) unfolding run_ok_def by fastforce
  with no obtain e s4 where b4: "begin_read demo_crates demo_ids False ?head 1002 s3 = Some (Err e, s4)" by (metis sum.exhaust)
  from v1(1) v2(1) b3 b4 show ?thesis by blast
qed

theorem node_auth_bounded_witness:
  "\<exists>r :: auth_run. length (ar_done r) = 1 \<and> ar_open r = [] \<and> na_body_stage (ar_auth r) + na_reserve_stage (ar_auth r) = sl_max_concurrent_bodies (limits_from_env (\<lambda>_. None))"
proof -
  from demo_run obtain r where
    r: "auth_reachable 0 demo_crates demo_ids (\<lambda>_. None) (\<lambda>_. []) (\<lambda>_. None) 2000 ''testnet'' (Some ''node-b'') None 1000 r" "length (ar_done r) = 1" "ar_open r = []" by blast
  with node_auth_bounded [OF r(1)] show ?thesis by (intro exI [of _ r]) simp
qed

text \<open>C7. The cache of nonces, with its hash set, its queue of expiries, its counters and its recycled slots, never
  panics and behaves as a plain queue of live nonces: it answers what the queue answers, a refusal leaves the
  live nonces as they are, and recording adds the nonce at the end.\<close>

theorem replay_cache_refines_queue:
  assumes "nonces_ok c"
  shows "\<exists>r c'. replay_admit C ids grown g nonce now c = Some (r, c') \<and>
    r = queue_admit (caps_of c) (nonce_key C ids g nonce) g (live_at now (queue_of c)) \<and> nonces_ok c' \<and> queue_of c' = live_at now (queue_of c) \<and>
    (r = Ok () \<longrightarrow> nonces_ok (replay_record C ids g nonce now c') \<and>
       queue_of (replay_record C ids g nonce now c') = queue_of c' @ [(i64_saturate (now + REPLAY_RETENTION_SECS), nonce_key C ids g nonce, g)])"
proof -
  from replay_admit_ok [OF assms, of C ids grown g nonce now] obtain c' where
    c': "replay_admit C ids grown g nonce now c = Some (queue_admit (caps_of c) (nonce_key C ids g nonce) g (live_at now (queue_of c)), c')"
      "nonces_ok c'" "queue_of c' = live_at now (queue_of c)" "caps_of c' = caps_of c" by blast
  with replay_record_ok [OF c'(2), of C ids g nonce now] show ?thesis by auto
qed

theorem replay_cache_refines_queue_witness:
  "\<exists>c'. replay_admit demo_crates demo_ids False ''12D3KooW'' demo_nonce 5 (replay_new 8 4) = Some (Ok (), c') \<and>
     queue_of (replay_record demo_crates demo_ids ''12D3KooW'' demo_nonce 5 c') = [(126, nonce_key demo_crates demo_ids ''12D3KooW'' demo_nonce, ''12D3KooW'')]"
proof -
  have ok: "nonces_ok (replay_new 8 4)" by (rule empty_nonces_ok) simp
  have q: "queue_of (replay_new 8 4) = []" by (simp add: queue_of_def replay_new_def)
  have "queue_admit (caps_of (replay_new 8 4)) k g (live_at 5 []) = Ok ()" for k g by (simp add: queue_admit_def live_at_def replay_new_def)
  with replay_cache_refines_queue [OF ok, of demo_crates demo_ids False "''12D3KooW''" demo_nonce 5] show ?thesis
    by (auto simp: q live_at_def i64_saturate_def REPLAY_RETENTION_SECS_def MAX_SKEW_SECS_def)
qed

end
