(* ===== verification/Spec2Isabelle.thy ===== *)
theory Spec2Isabelle
  imports Cosigned_Sth Promotion_Facts Cross_Shard Shard Known_List Node_Request Authenticity Retention Login_Facts Cosigning_Facts Witness_List_Facts Announce_Facts Node_Auth_Facts
begin

text \<open>
  Verification of the core of the Avalon protocol (\<open>src/crates/protocol\<close>, \<open>src/crates/chain\<close>, and the parts
  of \<open>src/crates/server\<close> and \<open>src/crates/indexer\<close> that decide about logins, retention, witnessing and peers).

  \<^bold>\<open>The program.\<close> Nodes keep an append-only ledger of protocol events. A payload is brought into one canonical
  JSON text; each entry is hashed from a structured byte layout over the hash of that text; the entry
  hashes are the leaves of an RFC 6962 Merkle tree whose root an operator signs (a signed tree head)
  and independent witnesses cosign. The settlement provider appends batches to the ledger tables,
  keeps a leaf cache beside them, serves proofs and prunes payloads. Mirrors copy the entries of an
  author, watch its heads for equivocation, and can be promoted into a ledger of their own; clients
  accept a head only when a majority of their own bounded list of known witnesses backs it. The heads
  of many shards are aggregated into network and family roots. Every identity has its own
  hash-linked chain of events inside the ledger; all nodes replay it with one deterministic conflict
  rule. Nodes authenticate their requests to each other with signed headers, identities move between
  nodes with signed tokens and login grants, and shards and identities are named by hashes of keys.
  Nodes find each other by announcing themselves and by gossip: every address a peer sends is checked
  against the outbound policy, and peers, shards and head summaries are kept in bounded tables. A witness
  cosigns a head only when it extends the checkpoint it holds of that log, and counts other witnesses
  only after a probation.

  \<^bold>\<open>Conventions.\<close> Fixed-width integers are words (\<open>u8\<close> to \<open>u64\<close>, \<open>i64\<close> read with \<open>sint\<close>), \<open>usize\<close> is
  \<^typ>\<open>nat\<close>, a byte slice or array is a list of bytes (array lengths are well-formedness
  hypotheses), a \<open>String\<close> is its UTF-8 bytes as characters, an \<open>OffsetDateTime\<close> is nanoseconds
  since the epoch. \<open>Result<A, E>\<close> is the sum \<open>E + A\<close> (\<open>Ok\<close> is \<open>Inr\<close>), a panic is \<open>None\<close>. A database
  table is a list of row records, and an SQL statement is a function on it; the instant a statement
  or a handler reads from a clock and the random values it draws are arguments. The crates \<open>sha2\<close>,
  \<open>hex\<close>, \<open>base64\<close>, \<open>uuid\<close> and \<open>ed25519_dalek\<close> are the fields of a record \<open>crates\<close> that the definitions take
  as an argument \<open>C\<close>; \<open>sha256_ok\<close>, \<open>hex_ok\<close>, \<open>uuid_ok\<close> and \<open>sig_ok\<close> state what the sources rely on, and
  \<open>demo_crates\<close> is an instance that satisfies them. Further parameters: \<open>jsonb\<close>, what PostgreSQL gives
  back for a stored JSON value (\<open>jsonb_ok\<close>: it keeps canonical forms), \<open>progress\<close>, what an archive peer
  answers about its mirror, \<open>remote\<close>, the key another node reports for an identity, \<open>fetch\<close>, the
  consistency proof a peer serves to a witness, and the record \<open>net\<close>: URL, peer-id, multiaddress and version
  parsing, name resolution, the status page of a node, and whether a check finds a free slot and ends in
  time; for node credentials also \<open>peer_ids\<close> (the peer id of a key), \<open>grown\<close> and \<open>pick\<close>, two answers hash tables
  leave open. An operation is one function on the state. Where a claim is about runs, the step relation says what
  interleaves: the handlers of a login each between their statements, the writes of an announce under their locks, a
  request between its turns at the nonce cache, a witness's writes with crashes between them, and ledger
  operations that run to their end or are dropped before the transaction commits. Unforgeability and collision resistance are never assumed: statements about them exhibit the colliding messages.

  \<^bold>\<open>Theories.\<close>
  \<^item> \<open>Prelude\<close>: word types, results, big-endian numbers; the locale \<open>prefix_code\<close> (an encoding whose
    end is determined by its bytes), which every field layout interprets, and the locale
    \<open>wire_enum\<close> (a vocabulary with a parser that inverts its printer).
  \<^item> \<open>Rust_Str\<close>, \<open>Utf8\<close>, \<open>F64\<close>: the part of \<open>str\<close>, \<open>char\<close> and \<open>f64\<close> the sources use: decimal numbers,
    UTF-8, the shortest decimal of a double and the double nearest to a decimal; the external crates.
  \<^item> \<open>Signing_Bytes\<close>, \<open>Signing_Facts\<close> (\<open>signing_bytes.rs\<close>): tags, versions, extensions, envelopes, the
    \<open>Builder\<close> and the \<open>Reader\<close>; the extensions region parses back and has one encoding, tags are
    prefix-free, so bytes of two kinds never coincide. \<open>Crates_Instance\<close>: the instance.
  \<^item> \<open>Canonical_Payload\<close>, \<open>Canonical_Facts\<close> (\<open>canonical_payload.rs\<close>): the canonical writer, the strict
    reader and the serde visitor; canonical text parses back, and identifies the canonical form.
  \<^item> \<open>Ledger_Entry\<close> (\<open>ledger_entry.rs\<close>): the entry layout and its injectivity. \<open>Json_Wire\<close>, \<open>Chain_Event\<close>
    (\<open>identity_chain_wire.rs\<close>, \<open>event_payloads.rs\<close>): positions inside payloads, payload and chain hashes.
  \<^item> \<open>Merkle\<close>, \<open>Merkle_Facts\<close> (\<open>merkle.rs\<close>): roots, proofs, verifiers; completeness, soundness up to
    an exhibited collision, and that the root binds the leaves.
  \<^item> \<open>Incremental_Merkle\<close> (\<open>incremental_merkle.rs\<close>): the appending tree, its invariant, and the
    refinement to the from-scratch functions; the locale \<open>proof_server\<close> is the contract both meet.
  \<^item> \<open>Settlement\<close>, \<open>Settlement_Facts\<close> (\<open>postgres.rs\<close>, \<open>envelope_row.rs\<close>): the ledger tables, the leaf cache and every
    operation of the provider; the invariant of reachable ledgers, durability, idempotence and proofs when operations
    run to their end (\<open>ledger_step\<close>), what is left of them when commits are dropped half way (\<open>node_step\<close>), and the wrong
    root that follows a dropped commit. The locale \<open>settlement_provider\<close> is the promise
    the callers rely on, interpreted by the provider.
  \<^item> \<open>Mirror\<close>, \<open>Mirror_Facts\<close> (\<open>mirror.rs\<close>): observed heads, equivocation evidence, mirrored entries with
    their event time as the driver stores it (\<open>pg_time\<close>), convergence and witness checkpoints. \<open>Promotion\<close>, \<open>Promotion_Facts\<close> (\<open>promotion.rs\<close>): the plan, its
    checks and the transaction, proved to rebuild a ledger with the settlement invariant.
  \<^item> \<open>Cross_Shard\<close> (\<open>cross_shard.rs\<close>): network and family roots, both instances of the locale
    \<open>head_tree\<close> (a tree over one leaf per shard head). \<open>Retention\<close> (both \<open>retention.rs\<close>):
    configuration, archive confirmation and the prune pass.
  \<^item> \<open>Events\<close> (\<open>events.rs\<close>): event kinds and chain positions.
  \<^item> \<open>Identity_Chain\<close>, \<open>Identity_Chain_Facts\<close> (\<open>identity_chain.rs\<close>): hash inputs, the conflict rule
    and the replay loop; \<open>chain_spec\<close> is the declarative outcome, and the loop computes it.
  \<^item> \<open>Identity_Id\<close> (\<open>ed25519_key.rs\<close>, \<open>identity_id.rs\<close>): key screening, id text, display names, the
    signed identity messages. \<open>Identity_Chain_Wire\<close> (\<open>identity_chain_wire.rs\<close>): owner, authority and
    the recovery-aware replay, a partial function proved total.
  \<^item> \<open>Sth\<close>, \<open>Witness\<close>, \<open>Cosigned_Sth\<close> (\<open>sth.rs\<close>, \<open>witness.rs\<close>, \<open>cosigned_sth.rs\<close>): tree heads,
    cosignatures, announce proofs, majorities, acceptance and equivocation.
  \<^item> \<open>Known_List\<close> (\<open>known_list.rs\<close>, \<open>client_known_list.rs\<close>): the bounded list, URL prefixes and the
    selection, proved over the locale \<open>bounded_admission\<close> the list interprets.
  \<^item> \<open>Shard\<close> (\<open>shard.rs\<close>, \<open>shard_identity.rs\<close>): the shard id grammar, self-certifying ids and
    name-binding claims.
  \<^item> \<open>Node_Request\<close> (\<open>node_request.rs\<close>): the signed request header. \<open>Node_Auth\<close>, \<open>Node_Auth_Facts\<close> (\<open>node_auth.rs\<close>): the
    middleware of the node-to-node routes with its cache of nonces, budgets and read stages; the cache
    refines a queue, the contract \<open>nonce_store\<close>, and however requests interleave at the cache a signed header is used
    once, up to how late a request may act on its reading of the clock.
  \<^item> \<open>Vocabulary\<close> (\<open>permissions.rs\<close>, \<open>revocation.rs\<close>, \<open>integrators.rs\<close>), \<open>Attestations\<close>
    (\<open>achievements.rs\<close>) and \<open>Authenticity\<close> (chain \<open>attestations.rs\<close>): wire vocabularies, key validity,
    signed attestations, recognition and authenticity.
  \<^item> \<open>Tokens\<close> (\<open>continuation.rs\<close>, \<open>cross_node_login.rs\<close>, \<open>interest_claim.rs\<close> of the protocol), \<open>Login\<close>,
    \<open>Login_Facts\<close> (the server's \<open>sessions.rs\<close>, \<open>continuation.rs\<close>, \<open>cross_node_login.rs\<close>): signed tokens, sessions and
    the login handlers as a step relation on tables; single use over every interleaving.
  \<^item> \<open>Cosigning\<close>, \<open>Cosigning_Facts\<close> (\<open>witness_cosign.rs\<close>): the decision of a witness, its checkpoints and
    re-attestations; over every run, crashes included, all it cosigned for a log is one history, and an
    honest head is cosigned.
  \<^item> \<open>Witness_List\<close>, \<open>Witness_List_Facts\<close> (the server's \<open>known_list.rs\<close>): the node's own list with probation,
    freshness and refill, its tick and its file, over runs of ticks and restarts under one configuration; the locale \<open>bounded_admission\<close> is interpreted here again.
  \<^item> \<open>Assoc\<close>: association lists with distinct keys, the model of the hash maps that are counted and evicted.
  \<^item> \<open>Outbound_Policy\<close>, \<open>Outbound_Policy_Facts\<close> (\<open>outbound_policy.rs\<close>, \<open>trusted_proxies.rs\<close>, \<open>topology_limits.rs\<close>): the
    addresses a node may dial, proved equal to a list of networks; checked targets, failed lookups, the
    client address behind proxies, and the sliding-window limit.
  \<^item> \<open>Peers\<close>, \<open>Peers_Facts\<close> (\<open>connectivity.rs\<close> and the tables of \<open>nodes.rs\<close>): peer entries, witness adverts, the
    peer table and its pool, the shard registry and the head tracker; evictions, convergence of merges,
    conflicts of heads.
  \<^item> \<open>Announce\<close>, \<open>Announce_Facts\<close> (\<open>peer_admission.rs\<close> and the handlers of \<open>nodes.rs\<close>): admission, announces, gossip
    and contacts as steps on the node's view and as the writes they consist of; its bounds, and who may change the
    identity of an entry.

  \<^bold>\<open>Bounds.\<close> There is no fuel: loops are recursive functions with a measure, except the
  recovery-aware replay, which is a partial function in the option monad with a totality theorem.
  Lengths below \<open>2\<^sup>6\<^sup>4\<close> are hypotheses where a 64-bit counter must not wrap; they hold of every Rust
  vector.

  \<^bold>\<open>Not modelled.\<close> A failing database connection and the retry of a transaction; the per-issuer history
  view and the migration runner of the chain crate; the base64 JSON form of a continuation token;
  \<open>domain_proof.rs\<close> and the guild vocabularies. Of the server: the gathering of cosignatures and the
  confirmation of an equivocation (\<open>cosign_gather.rs\<close>, \<open>equivocation.rs\<close>), which are requests to peers; relays,
  the DHT and the streams of libp2p; what a node-to-node route does once its caller is authenticated; network coordinates, which are floating-point estimates; the own
  entry and coordinate in the answer to an announce; timers. The identity, social, guild and integrator
  handlers and the other projections of the indexer are SQL over their own tables. HTTP, WebAuthn,
  serde derives of plain structs and the operator tools stay outside: they are I/O and glue.
\<close>

section \<open>Properties that span components\<close>

lemma find_by_id:
  assumes "distinct (map fst kl)" and "(w, v) \<in> set kl"
  shows "find (\<lambda>kv. fst kv = w) kl = Some (w, v)"
  using assms by (induction kl) (auto simp: image_iff)

text \<open>A cosignature an honest witness makes over a head counts toward that head's majority.\<close>

lemma fresh_cosignature_counts:
  assumes "hex_ok C" and "sig_ok C" and "\<not> key_is_weak C (verifying_key C k)"
    and "sign_witness_cosignature C k w (head_sth head) t = Ok c"
    and "distinct (map fst kl)" and "(w, verifying_key C k) \<in> set kl" and "earliest \<le> t" and "t \<le> now"
  shows "cosig_counts C head kl earliest now c \<and> c_witness_key_id c = w"
proof -
  let ?h = "head_sth head"
  from assms(4) obtain a m where a: "hex_decode C (sth_signature ?h) = Some a"
    and c: "c = \<lparr>c_tree_size = sth_tree_size ?h, c_root_hash = sth_root_hash ?h, c_network_id = sth_network_id ?h,
      c_author_created_at = sth_created_at ?h, c_author_key_id = sth_signing_key_id ?h,
      c_author_signature = hex_encode C a, c_witness_key_id = w, c_observed_at = t,
      c_signature = hex_encode C (ed_sign C k m),
      c_envelope = (envelope_current WITNESS_COSIGN)\<lparr>hash_algo := hash_algo (sth_envelope ?h)\<rparr>\<rparr>"
    by (auto simp: sign_witness_cosignature_def sign_unsigned_def rbind_eq_Inr Let_def decode_author_signature_Ok)
  have "to_ascii_lowercase (hex_encode C a) = hex_encode C a"
    using hex_encode_lower [OF assms(1)] by (rule to_lower_of_lower_hex)
  moreover have "hex_encode C a = to_ascii_lowercase (sth_signature ?h)"
    using a assms(1) by (simp add: hex_ok_def)
  ultimately have "eq_ignore_ascii_case (c_author_signature c) (sth_signature ?h)"
    by (simp add: c eq_ignore_ascii_case_def)
  moreover have "verify_witness_cosignature C (verifying_key C k) c"
    using sign_unsigned_verifies [OF assms(1-3)] assms(4) by (auto simp: sign_witness_cosignature_def)
  ultimately show ?thesis
    using assms(7,8) find_by_id [OF assms(5,6)] by (simp add: cosig_counts_def Let_def c)
qed

text \<open>C19. Liveness of witnessing: an author-signed head that more than half of a known list of two or
  more witnesses has cosigned, each with its own key and inside the freshness window, is accepted,
  whatever other cosignatures, forged or stale, travel with it.\<close>

theorem honest_quorum_accepted:
  assumes "hex_ok C" and "sig_ok C" and "\<not> key_is_weak C (verifying_key C k)"
    and "sign_tree_head_with C k kid ts root net created env = Ok sth"
    and "2 \<le> length kl" and "distinct (map fst kl)" and "length kl < 2 * card quorum"
    and "\<forall>w\<in>quorum. \<exists>wk t. (w, verifying_key C wk) \<in> set kl \<and> \<not> key_is_weak C (verifying_key C wk) \<and>
           earliest \<le> t \<and> t \<le> now \<and> (\<exists>c\<in>set cosigs. sign_witness_cosignature C wk w sth t = Ok c)"
  shows "verify_cosigned_tree_head C (verifying_key C k) \<lparr>head_sth = sth, cosignatures = cosigs\<rparr> kl earliest now"
proof -
  let ?head = "\<lparr>head_sth = sth, cosignatures = cosigs\<rparr>"
  let ?ids = "valid_fresh_witness_ids C (verifying_key C k) ?head kl earliest now"
  have "quorum \<subseteq> ?ids"
  proof
    fix w assume "w \<in> quorum"
    with assms(8) obtain wk t c where "(w, verifying_key C wk) \<in> set kl" "\<not> key_is_weak C (verifying_key C wk)"
      "earliest \<le> t" "t \<le> now" and c: "c \<in> set cosigs" "sign_witness_cosignature C wk w sth t = Ok c" by blast
    then have "cosig_counts C ?head kl earliest now c \<and> c_witness_key_id c = w"
      using fresh_cosignature_counts [OF assms(1,2) _ _ assms(6), of wk w ?head t c] by simp
    with c(1) show "w \<in> ?ids" by (auto simp: valid_fresh_witness_ids_def)
  qed
  then have "card quorum \<le> card ?ids" by (rule card_mono [OF valid_ids_finite])
  with assms(5,7) have "is_cosigned_by_majority (length kl) (card ?ids)"
    by (auto simp: is_cosigned_by_majority_def majority_threshold_def)
  with own_tree_head_verifies [OF assms(1-4)] show ?thesis by (simp add: verify_cosigned_tree_head_def)
qed

text \<open>Witness: two witnesses, both of which cosign the head.\<close>

theorem honest_quorum_accepted_witness:
  "\<exists>sth c1 c2. sign_tree_head_with demo_crates demo_seed ''op'' 3 (demo_root 7) ''testnet'' 5
       (envelope_current SETTLEMENT_STH) = Ok sth \<and>
     verify_cosigned_tree_head demo_crates (verifying_key demo_crates demo_seed)
       \<lparr>head_sth = sth, cosignatures = [c1, c2]\<rparr> demo_known 0 9"
proof -
  obtain sth where sth: "sign_tree_head_with demo_crates demo_seed ''op'' 3 (demo_root 7) ''testnet'' 5
      (envelope_current SETTLEMENT_STH) = Ok sth"
    using demo_root_message [of 3 7] by (auto simp: sign_tree_head_with_def)
  obtain c1 c2 where c: "sign_witness_cosignature demo_crates demo_seed ''w1'' sth 6 = Ok c1"
    "sign_witness_cosignature demo_crates demo_seed ''w2'' sth 6 = Ok c2"
    using author_head_cosignable [OF demo_hex_ok demo_sig_ok sth, of "''w1''" demo_seed 6]
      author_head_cosignable [OF demo_hex_ok demo_sig_ok sth, of "''w2''" demo_seed 6] by auto
  have kl: "2 \<le> length demo_known" "distinct (map fst demo_known)" "length demo_known < 2 * card {''w1'', ''w2''}"
    by (simp_all add: demo_known_def)
  have "\<forall>w\<in>{''w1'', ''w2''}. \<exists>wk t. (w, verifying_key demo_crates wk) \<in> set demo_known \<and>
      \<not> key_is_weak demo_crates (verifying_key demo_crates wk) \<and> 0 \<le> t \<and> t \<le> 9 \<and>
      (\<exists>c\<in>set [c1, c2]. sign_witness_cosignature demo_crates wk w sth t = Ok c)"
    using c demo_key by (intro ballI exI [of _ demo_seed] exI [of _ 6]) (auto simp: demo_known_def)
  from honest_quorum_accepted [OF demo_hex_ok demo_sig_ok demo_key sth kl this] sth show ?thesis by blast
qed

end
